(* ===== verification/Prelude.thy ===== *)
theory Prelude
  imports Main "HOL-Library.Word" "HOL-Library.List_Lexorder" "HOL-Library.Char_ord"
    "HOL-Library.Code_Target_Nat"
begin

text \<open>
  Shared vocabulary of the development: Python exceptions as values, the result type every
  fallible operation returns, the Python list and string primitives several components use
  (\<open>str.find\<close>, \<open>str.count\<close>, \<open>str.replace(..., 1)\<close>, \<open>list.index\<close>, \<open>str.split\<close>), and the
  generic lemmas about them.
\<close>

section \<open>Results and errors\<close>

text \<open>
  A Python exception is a constructor named after its class, carrying the fixed part of the
  message the source raises it with.
\<close>

datatype error =
    ValueError string
  | TypeError string
  | PermissionError string
  | SandboxRouteRequired string
  | FileNotFound string
  | FileExists string
  | NotADirectory string
  | IsADirectory string
  | RuntimeError string
  | KeyError string
  | IndexError string
  | CsvError string            \<comment> \<open>\<open>csv.Error\<close>\<close>
  | TimeoutError string
  | OSError string
  | TransferError string       \<comment> \<open>\<open>ArtifactTransferError\<close>, a \<open>ValueError\<close>, with its code\<close>
  | TransferStateError string  \<comment> \<open>\<open>ArtifactTransferStateError\<close>, a \<open>RuntimeError\<close>, with its code\<close>
  | TransferIntegrity string   \<comment> \<open>\<open>TransferIntegrityError\<close>, a kind of the former\<close>
  | TransferNotFound           \<comment> \<open>\<open>ArtifactTransferNotFoundError\<close>, a \<open>FileNotFoundError\<close>\<close>
  | ZeroDivision
  | MutationError string  \<comment> \<open>\<open>WorkspaceMutationError\<close> with its recovery state\<close>

type_synonym 'a res = "error + 'a"

named_theorems res_simps \<open>inversion of the result monad\<close>

definition rbind :: "'a res \<Rightarrow> ('a \<Rightarrow> 'b res) \<Rightarrow> 'b res" where
  "rbind m f = (case m of Inl e \<Rightarrow> Inl e | Inr x \<Rightarrow> f x)"

lemma rbind_Inl [simp]: "rbind (Inl e) f = Inl e"
  by (simp add: rbind_def)

lemma rbind_Inr [simp]: "rbind (Inr x) f = f x"
  by (simp add: rbind_def)

lemma rbind_eq_Inr [res_simps]: "rbind m f = Inr y \<longleftrightarrow> (\<exists>x. m = Inr x \<and> f x = Inr y)"
  by (cases m) auto

lemma rbind_eq_Inl [res_simps]:
  "rbind m f = Inl e \<longleftrightarrow> m = Inl e \<or> (\<exists>x. m = Inr x \<and> f x = Inl e)"
  by (cases m) auto

lemma rbind_cong [fundef_cong]:
  "m = m' \<Longrightarrow> (\<And>x. m' = Inr x \<Longrightarrow> f x = f' x) \<Longrightarrow> rbind m f = rbind m' f'"
  by (cases m') auto

lemma if_Inl_eq_Inr [res_simps]: "(if b then Inl e else m) = Inr y \<longleftrightarrow> \<not> b \<and> m = Inr y"
  by simp

lemma if_Inr_Inl_eq_Inr [res_simps]: "(if b then m else Inl e) = Inr y \<longleftrightarrow> b \<and> m = Inr y"
  by simp

text \<open>
  A field of a JSON object that a tool call sends: absent, of another type than the code accepts,
  or a value of the accepted type.
\<close>

datatype 'a pyval = Missing | BadType | Py 'a

text \<open>\<open>for x in xs\<close> over a state, stopping at the first exception.\<close>

fun rfold :: "('s \<Rightarrow> 'a \<Rightarrow> 's res) \<Rightarrow> 's \<Rightarrow> 'a list \<Rightarrow> 's res" where
  "rfold f s [] = Inr s"
| "rfold f s (x # xs) = rbind (f s x) (\<lambda>s'. rfold f s' xs)"

text \<open>A list comprehension whose element expression may raise.\<close>

fun rmap :: "('a \<Rightarrow> 'b res) \<Rightarrow> 'a list \<Rightarrow> 'b list res" where
  "rmap f [] = Inr []"
| "rmap f (x # xs) = rbind (f x) (\<lambda>y. rbind (rmap f xs) (\<lambda>ys. Inr (y # ys)))"

lemma rfold_invariant:
  assumes "\<And>s x s'. P s \<Longrightarrow> x \<in> set xs \<Longrightarrow> f s x = Inr s' \<Longrightarrow> P s'"
    and "P s" and "rfold f s xs = Inr s'"
  shows "P s'"
  using assms
proof (induction xs arbitrary: s)
  case Nil
  then show ?case by simp
next
  case (Cons x xs)
  from Cons.prems(3) obtain t where t: "f s x = Inr t" "rfold f t xs = Inr s'"
    by (auto simp: rbind_eq_Inr)
  have "P t" by (rule Cons.prems(1) [OF Cons.prems(2) _ t(1)]) simp
  moreover have "\<And>u y u'. P u \<Longrightarrow> y \<in> set xs \<Longrightarrow> f u y = Inr u' \<Longrightarrow> P u'"
    by (rule Cons.prems(1)) simp_all
  ultimately show ?case using t(2) Cons.IH by blast
qed

lemma rfold_append: "rfold f s (xs @ ys) = rbind (rfold f s xs) (\<lambda>t. rfold f t ys)"
proof (induction xs arbitrary: s)
  case Nil
  then show ?case by simp
next
  case (Cons x xs)
  then show ?case by (cases "f s x") auto
qed

lemma rmap_length: "rmap f xs = Inr ys \<Longrightarrow> length ys = length xs"
  by (induction xs arbitrary: ys) (auto simp: rbind_eq_Inr)

lemma rmap_set: "rmap f xs = Inr ys \<Longrightarrow> y \<in> set ys \<Longrightarrow> \<exists>x\<in>set xs. f x = Inr y"
  by (induction xs arbitrary: ys) (auto simp: rbind_eq_Inr)

section \<open>Python sequences\<close>

lemma not_in_map: "p \<notin> set (List.map fst m) \<Longrightarrow> map_of m p = None"
  by (force simp: map_of_eq_None_iff)

definition starts_with :: "'a list \<Rightarrow> 'a list \<Rightarrow> bool" where
  "starts_with p s \<longleftrightarrow> take (length p) s = p"

definition ends_with :: "'a list \<Rightarrow> 'a list \<Rightarrow> bool" where
  "ends_with p s \<longleftrightarrow> starts_with (rev p) (rev s)"

lemma starts_with_iff: "starts_with p s \<longleftrightarrow> (\<exists>r. s = p @ r)"
  unfolding starts_with_def by (metis append_eq_conv_conj append_take_drop_id)

text \<open>\<open>text.find(pat)\<close>: the first index where \<open>pat\<close> occurs.\<close>

fun find_sub :: "'a list \<Rightarrow> 'a list \<Rightarrow> nat option" where
  "find_sub pat [] = (if pat = [] then Some 0 else None)"
| "find_sub pat (x # xs) =
     (if starts_with pat (x # xs) then Some 0 else map_option Suc (find_sub pat xs))"

text \<open>\<open>text.find(pat, start)\<close>.\<close>

definition find_from :: "'a list \<Rightarrow> 'a list \<Rightarrow> nat \<Rightarrow> nat option" where
  "find_from pat text start = map_option (\<lambda>i. start + i) (find_sub pat (drop start text))"

lemma find_sub_Some:
  "find_sub pat s = Some i \<Longrightarrow> starts_with pat (drop i s) \<and> i + length pat \<le> length s"
proof (induction s arbitrary: i)
  case Nil
  then show ?case by (auto simp: starts_with_def split: if_splits)
next
  case (Cons x xs)
  show ?case
  proof (cases "starts_with pat (x # xs)")
    case True
    with Cons.prems have "i = 0" by simp
    moreover have "length pat \<le> length (x # xs)"
      using True unfolding starts_with_def by (metis length_take min.cobounded1)
    ultimately show ?thesis using True by simp
  next
    case False
    with Cons.prems obtain j where "find_sub pat xs = Some j" "i = Suc j" by auto
    with Cons.IH [of j] show ?thesis by simp
  qed
qed

lemma find_sub_first: "find_sub pat s = Some i \<Longrightarrow> j < i \<Longrightarrow> \<not> starts_with pat (drop j s)"
proof (induction s arbitrary: i j)
  case Nil
  then show ?case by (auto split: if_splits)
next
  case (Cons x xs)
  then show ?case by (cases j) (auto split: if_splits)
qed

lemma find_sub_None: "find_sub pat s = None \<Longrightarrow> \<not> starts_with pat (drop j s)"
proof (induction s arbitrary: j)
  case Nil
  then show ?case by (auto simp: starts_with_def split: if_splits)
next
  case (Cons x xs)
  then show ?case by (cases j) (auto split: if_splits)
qed

text \<open>\<open>pat in text\<close>.\<close>

definition contains_sub :: "'a list \<Rightarrow> 'a list \<Rightarrow> bool" where
  "contains_sub pat s \<longleftrightarrow> find_sub pat s \<noteq> None"

lemma contains_sub_iff: "contains_sub pat s \<longleftrightarrow> (\<exists>a b. s = a @ pat @ b)"
proof
  assume "contains_sub pat s"
  then obtain i where i: "find_sub pat s = Some i" by (auto simp: contains_sub_def)
  then have "starts_with pat (drop i s)" using find_sub_Some by blast
  then show "\<exists>a b. s = a @ pat @ b"
    unfolding starts_with_iff by (metis append_take_drop_id)
next
  assume "\<exists>a b. s = a @ pat @ b"
  then obtain a b where s: "s = a @ pat @ b" by blast
  then have "starts_with pat (drop (length a) s)" by (simp add: starts_with_iff)
  then show "contains_sub pat s"
    using find_sub_None [of pat s "length a"] by (auto simp: contains_sub_def)
qed

text \<open>
  \<open>text.count(pat)\<close>: the number of non-overlapping occurrences, scanning from the left.
  Python counts \<open>len(text) + 1\<close> occurrences of the empty string.
\<close>

function count_sub :: "'a list \<Rightarrow> 'a list \<Rightarrow> nat" where
  "count_sub pat s =
     (if pat = [] then Suc (length s)
      else case find_sub pat s of
        None \<Rightarrow> 0
      | Some i \<Rightarrow> Suc (count_sub pat (drop (i + length pat) s)))"
  by pat_completeness auto
termination
proof (relation "measure (\<lambda>(pat, s). length s)", goal_cases)
  case 1
  show ?case by simp
next
  case (2 pat s i)
  then have "i + length pat \<le> length s" "0 < length pat" using find_sub_Some [of pat s i] by auto
  then have "length s - (i + length pat) < length s" by linarith
  then show ?case by simp
qed

declare count_sub.simps [simp del]

text \<open>\<open>text.replace(pat, new, 1)\<close> for a non-empty \<open>pat\<close>.\<close>

definition replace_first :: "'a list \<Rightarrow> 'a list \<Rightarrow> 'a list \<Rightarrow> 'a list" where
  "replace_first pat new s =
     (case find_sub pat s of
        None \<Rightarrow> s
      | Some i \<Rightarrow> take i s @ new @ drop (i + length pat) s)"

lemma count_sub_pos: "pat \<noteq> [] \<Longrightarrow> 0 < count_sub pat s \<longleftrightarrow> contains_sub pat s"
  by (subst count_sub.simps) (auto simp: contains_sub_def split: option.splits)

text \<open>\<open>xs.index(x)\<close> split: the elements before and after the first \<open>x\<close>.\<close>

fun split_at :: "'a \<Rightarrow> 'a list \<Rightarrow> ('a list \<times> 'a list) option" where
  "split_at x [] = None"
| "split_at x (y # ys) =
     (if x = y then Some ([], ys)
      else map_option (\<lambda>(a, b). (y # a, b)) (split_at x ys))"

lemma split_at_Some: "split_at x ys = Some (a, b) \<Longrightarrow> ys = a @ x # b \<and> x \<notin> set a"
  by (induction ys arbitrary: a b) (auto split: if_splits)

lemma split_at_None: "split_at x ys = None \<longleftrightarrow> x \<notin> set ys"
  by (induction ys) auto

lemma split_at_append: "x \<notin> set a \<Longrightarrow> split_at x (a @ x # b) = Some (a, b)"
  by (induction a) auto

text \<open>\<open>text.split(c)\<close> for a one-character separator: never the empty list.\<close>

fun split_on :: "'a \<Rightarrow> 'a list \<Rightarrow> 'a list list" where
  "split_on c [] = [[]]"
| "split_on c (x # xs) =
     (if x = c then [] # split_on c xs
      else case split_on c xs of [] \<Rightarrow> [[x]] | y # ys \<Rightarrow> (x # y) # ys)"

text \<open>\<open>sep.join(parts)\<close>.\<close>

fun join_with :: "'a list \<Rightarrow> 'a list list \<Rightarrow> 'a list" where
  "join_with sep [] = []"
| "join_with sep [x] = x"
| "join_with sep (x # y # ys) = x @ sep @ join_with sep (y # ys)"

lemma join_with_superset: "p \<in> set ps \<Longrightarrow> set p \<subseteq> set (join_with sep ps)"
  by (induction sep ps rule: join_with.induct) auto

lemma split_on_not_Nil [simp]: "split_on c xs \<noteq> []"
  by (cases xs) (auto split: list.splits)

lemma join_split: "join_with [c] (split_on c xs) = xs"
proof (induction xs)
  case Nil
  then show ?case by simp
next
  case (Cons x xs)
  obtain y ys where s: "split_on c xs = y # ys" by (cases "split_on c xs") auto
  show ?case
  proof (cases "x = c")
    case True
    then show ?thesis using Cons s by simp
  next
    case False
    then show ?thesis using Cons s by (cases ys) auto
  qed
qed

lemma split_on_no_sep: "p \<in> set (split_on c xs) \<Longrightarrow> c \<notin> set p"
proof (induction xs arbitrary: p)
  case Nil
  then show ?case by simp
next
  case (Cons x xs)
  obtain y ys where s: "split_on c xs = y # ys" by (cases "split_on c xs") auto
  have *: "\<And>q. q \<in> set (y # ys) \<Longrightarrow> c \<notin> set q" using Cons.IH s by simp
  show ?case
  proof (cases "x = c")
    case True
    with Cons.prems s have "p = [] \<or> p \<in> set (y # ys)" by simp
    then show ?thesis using * by auto
  next
    case False
    with Cons.prems s have "p = x # y \<or> p \<in> set ys" by simp
    then show ?thesis using * [of y] * [of p] False by auto
  qed
qed

text \<open>\<open>text.rstrip(chars)\<close>.\<close>

definition rstrip :: "'a list \<Rightarrow> 'a list \<Rightarrow> 'a list" where
  "rstrip chars s = rev (dropWhile (\<lambda>c. c \<in> set chars) (rev s))"

section \<open>ASCII case mapping\<close>

definition ascii_upper_char :: "char \<Rightarrow> char" where
  "ascii_upper_char c =
     (let n = of_char c :: nat in if 97 \<le> n \<and> n \<le> 122 then char_of (n - 32) else c)"

definition ascii_lower_char :: "char \<Rightarrow> char" where
  "ascii_lower_char c =
     (let n = of_char c :: nat in if 65 \<le> n \<and> n \<le> 90 then char_of (n + 32) else c)"

definition ascii_upper :: "string \<Rightarrow> string" where
  "ascii_upper s = List.map ascii_upper_char s"

definition ascii_lower :: "string \<Rightarrow> string" where
  "ascii_lower s = List.map ascii_lower_char s"

text \<open>The characters of a half-open code range, for the character classes of the regexes.\<close>

definition char_between :: "char \<Rightarrow> char \<Rightarrow> char \<Rightarrow> bool" where
  "char_between lo hi c \<longleftrightarrow> (of_char lo :: nat) \<le> of_char c \<and> (of_char c :: nat) \<le> of_char hi"

definition is_digit :: "char \<Rightarrow> bool" where
  "is_digit c \<longleftrightarrow> char_between (CHR ''0'') (CHR ''9'') c"

definition is_lower :: "char \<Rightarrow> bool" where
  "is_lower c \<longleftrightarrow> char_between (CHR ''a'') (CHR ''z'') c"

definition is_upper :: "char \<Rightarrow> bool" where
  "is_upper c \<longleftrightarrow> char_between (CHR ''A'') (CHR ''Z'') c"

definition is_alnum_ascii :: "char \<Rightarrow> bool" where
  "is_alnum_ascii c \<longleftrightarrow> is_digit c \<or> is_lower c \<or> is_upper c"

section \<open>Bytes and digests\<close>

type_synonym bytes = "8 word list"

text \<open>The pattern \<open>[0-9a-f]{64}\<close> of \<open>_SHA256_RE\<close>, matched against the whole string.\<close>

definition is_sha256_hex :: "string \<Rightarrow> bool" where
  "is_sha256_hex s \<longleftrightarrow>
     length s = 64 \<and>
     list_all (\<lambda>c. is_digit c \<or> char_between (CHR ''a'') (CHR ''f'') c) s"

end
