(* ===== verification/Paths.thy ===== *)
theory Paths
  imports Prelude
begin

text \<open>
  The canonical path broker of \<open>paths.py\<close>: every workspace file operation resolves its path
  argument here. The Windows file system calls (\<open>Path.resolve\<close>, \<open>lstat\<close>, \<open>CreateFileW\<close>, ...) are
  the fields of \<open>os_env\<close>; what the broker does with their answers is modelled check by check.
  An absolute path is the list of its parts, its anchor first.
\<close>

section \<open>State\<close>

type_synonym path = "string list"

text \<open>The dataclass \<open>PathIdentity\<close>.\<close>

record path_identity =
  device :: int
  inode :: int
  file_size :: int
  modified_ns :: int
  windows_volume_serial :: "int option"
  windows_file_index :: "int option"

text \<open>What \<open>GetFileInformationByHandle\<close> reports of one opened path component.\<close>

record component_info =
  info_directory :: bool
  info_reparse :: bool
  info_links :: int

text \<open>
  The operating system as the broker sees it. \<open>casefold\<close> and \<open>normcase\<close> are the Unicode tables
  behind \<open>str.casefold\<close> and the case-insensitive comparison of Windows paths.
\<close>

record os_env =
  casefold :: "string \<Rightarrow> string"
  normcase :: "string \<Rightarrow> string"
  os_resolve :: "path \<Rightarrow> path"                 \<comment> \<open>\<open>Path.resolve(strict=False)\<close>\<close>
  os_resolve_strict :: "path \<Rightarrow> path option"   \<comment> \<open>\<open>None\<close>: FileNotFoundError\<close>
  os_exists :: "path \<Rightarrow> bool"
  os_is_file :: "path \<Rightarrow> bool"
  os_is_dir :: "path \<Rightarrow> bool"
  os_lstat_reparse :: "path \<Rightarrow> bool"
  os_nlink :: "path \<Rightarrow> int"
  os_open :: "path \<Rightarrow> component_info option"   \<comment> \<open>\<open>CreateFileW\<close> without share-delete\<close>
  os_identity :: "path \<Rightarrow> path_identity"
  os_read :: "path \<Rightarrow> bytes"                   \<comment> \<open>bytes read through the verified handle\<close>

text \<open>The path policy fields of \<open>Settings\<close> and the folded sets of \<open>Workspace.__init__\<close>.\<close>

record path_policy =
  workspace_root :: path
  blocked_file_names :: "string list"
  hidden_directories :: "string list"
  read_denied_directories :: "string list"
  write_denied_directories :: "string list"

record workspace =
  ws_root :: path
  ws_blocked :: "string list"
  ws_hidden :: "string list"
  ws_read_denied :: "string list"
  ws_write_denied :: "string list"

datatype access = ReadAccess | WriteAccess

section \<open>Windows path syntax\<close>

definition backslash :: char where
  "backslash = CHR 0x5C"

definition nul_char :: char where
  "nul_char = CHR 0x00"

definition win_sep :: "char \<Rightarrow> char" where
  "win_sep c = (if c = CHR ''/'' then backslash else c)"

text \<open>
  \<open>PureWindowsPath(text)\<close>: a drive (or the whole UNC prefix, which no caller accepts), a root
  flag and the relative parts without empty and \<open>.\<close> components.
\<close>

record windows_path =
  wp_drive :: string
  wp_rooted :: bool
  wp_rel :: "string list"

definition path_components :: "string \<Rightarrow> string list" where
  "path_components s = List.filter (\<lambda>p. p \<noteq> [] \<and> p \<noteq> ''.'') (split_on backslash s)"

definition parse_windows_path :: "string \<Rightarrow> windows_path" where
  "parse_windows_path text =
     (let n = List.map win_sep text in
      if starts_with [backslash, backslash] n
      then \<lparr>wp_drive = n, wp_rooted = True, wp_rel = []\<rparr>
      else if 2 \<le> length n \<and> n ! 1 = CHR '':''
      then \<lparr>wp_drive = take 2 n, wp_rooted = starts_with [backslash] (drop 2 n),
            wp_rel = path_components (drop 2 n)\<rparr>
      else \<lparr>wp_drive = [], wp_rooted = starts_with [backslash] n, wp_rel = path_components n\<rparr>)"

text \<open>\<open>PureWindowsPath(text).parts\<close> and \<open>.as_posix()\<close> of a path without a drive.\<close>

definition windows_parts :: "string \<Rightarrow> string list" where
  "windows_parts text =
     (let w = parse_windows_path text in
      (if wp_drive w = [] \<and> \<not> wp_rooted w then []
       else [wp_drive w @ (if wp_rooted w then [backslash] else [])]) @ wp_rel w)"

definition windows_as_posix :: "string \<Rightarrow> string" where
  "windows_as_posix text =
     (let w = parse_windows_path text;
          anchor = List.map (\<lambda>c. if c = backslash then CHR ''/'' else c) (wp_drive w)
                   @ (if wp_rooted w then ''/'' else [])
      in if anchor = [] \<and> wp_rel w = [] then ''.''
         else anchor @ join_with ''/'' (wp_rel w))"

definition windows_devices :: "string list" where
  "windows_devices =
     [''CON'', ''PRN'', ''AUX'', ''NUL'',
      ''COM1'', ''COM2'', ''COM3'', ''COM4'', ''COM5'', ''COM6'', ''COM7'', ''COM8'', ''COM9'',
      ''LPT1'', ''LPT2'', ''LPT3'', ''LPT4'', ''LPT5'', ''LPT6'', ''LPT7'', ''LPT8'', ''LPT9'']"

definition device_base :: "string \<Rightarrow> string" where
  "device_base part = ascii_upper (rstrip '' .'' (hd (split_on (CHR ''.'') part)))"

definition check_raw_part :: "string \<Rightarrow> unit res" where
  "check_raw_part part =
     (if part \<in> set [''.'', ''..'', [backslash], ''/''] then Inr ()
      else if CHR '':'' \<in> set part
      then Inl (PermissionError ''NTFS alternate data streams are not allowed'')
      else if ends_with '' '' part \<or> ends_with ''.'' part
      then Inl (PermissionError ''Windows paths ending in a space or dot are not allowed'')
      else if device_base part \<in> set windows_devices
      then Inl (PermissionError ''Windows reserved device name is not allowed'')
      else Inr ())"

definition validate_windows_syntax :: "string \<Rightarrow> unit res" where
  "validate_windows_syntax user_path =
     (if user_path = [] \<or> nul_char \<in> set user_path
      then Inl (ValueError ''path must be non-empty and contain no NUL'')
      else
        let w = parse_windows_path user_path in
        if wp_drive w \<noteq> [] \<or> starts_with [backslash, backslash] user_path
           \<or> starts_with ''//'' user_path
        then Inl (PermissionError ''absolute, drive-qualified, and UNC paths are not allowed'')
        else rfold (\<lambda>_ part. check_raw_part part) () (windows_parts user_path))"

section \<open>Containment and access policy\<close>

text \<open>\<open>self.root / user_path\<close>: a rooted path replaces everything but the anchor.\<close>

definition join_user :: "path \<Rightarrow> string \<Rightarrow> path" where
  "join_user root user_path =
     (let w = parse_windows_path user_path in
      if wp_drive w \<noteq> [] then wp_drive w # wp_rel w
      else if wp_rooted w then take 1 root @ wp_rel w
      else root @ wp_rel w)"

definition path_parent :: "path \<Rightarrow> path" where
  "path_parent p = (if length p \<le> 1 then p else butlast p)"

definition path_name :: "path \<Rightarrow> string" where
  "path_name p = (if length p \<le> 1 then [] else last p)"

definition path_eq :: "os_env \<Rightarrow> path \<Rightarrow> path \<Rightarrow> bool" where
  "path_eq os a b \<longleftrightarrow> List.map (normcase os) a = List.map (normcase os) b"

text \<open>\<open>candidate.relative_to(root).parts\<close>.\<close>

definition relative_to :: "os_env \<Rightarrow> path \<Rightarrow> path \<Rightarrow> path res" where
  "relative_to os candidate root =
     (if path_eq os (take (length root) candidate) root
      then Inr (drop (length root) candidate)
      else Inl (ValueError ''is not in the subpath of''))"

definition is_inside :: "os_env \<Rightarrow> workspace \<Rightarrow> path \<Rightarrow> bool" where
  "is_inside os w candidate =
     (case relative_to os candidate (ws_root w) of
        Inr _ \<Rightarrow> True
      | Inl _ \<Rightarrow> path_eq os candidate (ws_root w))"

definition check_inside :: "os_env \<Rightarrow> workspace \<Rightarrow> path \<Rightarrow> unit res" where
  "check_inside os w candidate =
     (if \<not> is_inside os w candidate then Inl (PermissionError ''path escapes workspace_root'')
      else Inr ())"

definition relative_parts :: "os_env \<Rightarrow> workspace \<Rightarrow> path \<Rightarrow> string list res" where
  "relative_parts os w candidate =
     (if path_eq os candidate (ws_root w) then Inr []
      else rbind (relative_to os candidate (ws_root w))
             (\<lambda>parts. Inr (List.map (casefold os) parts)))"

definition protected_name :: "string list \<Rightarrow> string \<Rightarrow> bool" where
  "protected_name blocked base \<longleftrightarrow>
     base \<in> set blocked \<or> (starts_with ''.env.'' base \<and> base \<noteq> ''.env.example'')"

definition denied_directories :: "workspace \<Rightarrow> access \<Rightarrow> string list" where
  "denied_directories w acc =
     (case acc of ReadAccess \<Rightarrow> ws_read_denied w | WriteAccess \<Rightarrow> ws_write_denied w)"

definition check_access :: "os_env \<Rightarrow> workspace \<Rightarrow> path \<Rightarrow> access \<Rightarrow> unit res" where
  "check_access os w candidate acc =
     rbind (relative_parts os w candidate) (\<lambda>parts.
       if list_ex (\<lambda>part. part \<in> set (denied_directories w acc)) parts
       then Inl (PermissionError ''access is denied by directory policy'')
       else if protected_name (ws_blocked w) (casefold os (path_name candidate))
       then Inl (PermissionError ''access to a protected file name is denied'')
       else Inr ())"

text \<open>The paths visited by \<open>for part in parts: current /= part\<close>.\<close>

fun chain_from :: "path \<Rightarrow> string list \<Rightarrow> path list" where
  "chain_from current [] = []"
| "chain_from current (part # parts) = (current @ [part]) # chain_from (current @ [part]) parts"

definition reject_reparse_chain :: "os_env \<Rightarrow> workspace \<Rightarrow> path \<Rightarrow> unit res" where
  "reject_reparse_chain os w candidate =
     rbind (check_inside os w candidate) (\<lambda>_.
       if os_lstat_reparse os (ws_root w)
       then Inl (PermissionError ''workspace_root must not be a reparse point'')
       else rbind (relative_to os candidate (ws_root w)) (\<lambda>parts.
         rfold (\<lambda>_ current.
             if os_exists os current \<and> os_lstat_reparse os current
             then Inl (PermissionError ''symlink, junction, or reparse point is denied'')
             else Inr ())
           () (chain_from (ws_root w) parts)))"

definition reject_hardlink :: "os_env \<Rightarrow> path \<Rightarrow> unit res" where
  "reject_hardlink os p =
     (if os_is_file os p \<and> 1 < os_nlink os p
      then Inl (PermissionError ''files with multiple hard links are denied'') else Inr ())"

section \<open>Holding every component\<close>

text \<open>
  \<open>_windows_component_handles\<close>: every component below the anchor is opened and inspected before
  the next one; the handles stay open, so the answers cannot change while the path is held.
\<close>

definition check_component ::
  "os_env \<Rightarrow> bool \<Rightarrow> bool \<Rightarrow> bool \<Rightarrow> path \<Rightarrow> unit res" where
  "check_component os final allow_directory allow_hardlinks current =
     (case os_open os current of
        None \<Rightarrow> Inl (PermissionError ''could not lock path component'')
      | Some info \<Rightarrow>
          if info_reparse info
          then Inl (PermissionError ''symlink, junction, or reparse point is denied'')
          else if \<not> final \<and> \<not> info_directory info
          then Inl (NotADirectory ''path parent is not a directory'')
          else if final \<and> info_directory info \<and> \<not> allow_directory
          then Inl (IsADirectory ''not a regular file'')
          else if final \<and> \<not> info_directory info \<and> \<not> allow_hardlinks \<and> 1 < info_links info
          then Inl (PermissionError ''files with multiple hard links are denied'')
          else Inr ())"

fun hold_components :: "os_env \<Rightarrow> bool \<Rightarrow> bool \<Rightarrow> path \<Rightarrow> string list \<Rightarrow> unit res" where
  "hold_components os dir hl current [] = Inr ()"
| "hold_components os dir hl current (part # parts) =
     rbind (check_component os (parts = []) dir hl (current @ [part]))
       (\<lambda>_. hold_components os dir hl (current @ [part]) parts)"

definition hold_verified_path :: "os_env \<Rightarrow> bool \<Rightarrow> bool \<Rightarrow> path \<Rightarrow> path res" where
  "hold_verified_path os allow_directory allow_hardlinks lexical =
     rbind (hold_components os allow_directory allow_hardlinks (take 1 lexical) (drop 1 lexical))
       (\<lambda>_. if drop 1 lexical = []
            then Inl (ValueError ''path must identify a filesystem entry'')
            else Inr lexical)"

section \<open>Resolution\<close>

definition make_workspace :: "os_env \<Rightarrow> path_policy \<Rightarrow> workspace res" where
  "make_workspace os settings =
     (case os_resolve_strict os (workspace_root settings) of
        None \<Rightarrow> Inl (FileNotFound ''workspace_root'')
      | Some root \<Rightarrow>
          let w = \<lparr>ws_root = root,
                   ws_blocked = List.map (casefold os) (blocked_file_names settings),
                   ws_hidden = List.map (casefold os) (hidden_directories settings),
                   ws_read_denied = List.map (casefold os) (read_denied_directories settings),
                   ws_write_denied = List.map (casefold os) (write_denied_directories settings)\<rparr>
          in rbind (reject_reparse_chain os w root) (\<lambda>_. Inr w))"

definition resolve_existing ::
  "os_env \<Rightarrow> workspace \<Rightarrow> string \<Rightarrow> bool \<Rightarrow> access \<Rightarrow> bool \<Rightarrow> path res" where
  "resolve_existing os w user_path allow_directory acc hold_identity =
     rbind (validate_windows_syntax user_path) (\<lambda>_.
     let candidate = join_user (ws_root w) user_path in
     rbind (check_inside os w (os_resolve os candidate)) (\<lambda>_.
     rbind (reject_reparse_chain os w candidate) (\<lambda>_.
     case os_resolve_strict os candidate of
       None \<Rightarrow> Inl (FileNotFound user_path)
     | Some resolved \<Rightarrow>
         rbind (check_inside os w resolved) (\<lambda>_.
         rbind (check_access os w resolved acc) (\<lambda>_.
         if \<not> allow_directory \<and> \<not> os_is_file os resolved
         then Inl (IsADirectory ''not a regular file'')
         else if os_is_file os resolved
         then rbind (reject_hardlink os resolved) (\<lambda>_.
                if hold_identity then hold_verified_path os False False resolved
                else Inr resolved)
         else if os_is_dir os resolved
         then (if hold_identity then hold_verified_path os True True resolved
               else Inr resolved)
         else Inl (PermissionError ''path is not a regular file or directory''))))))"

definition resolve_directory :: "os_env \<Rightarrow> workspace \<Rightarrow> string \<Rightarrow> access \<Rightarrow> path res" where
  "resolve_directory os w user_path acc =
     rbind (resolve_existing os w user_path True acc True) (\<lambda>p.
       if \<not> os_is_dir os p then Inl (NotADirectory ''not a directory'') else Inr p)"

definition resolve_for_write :: "os_env \<Rightarrow> workspace \<Rightarrow> string \<Rightarrow> path res" where
  "resolve_for_write os w user_path =
     rbind (validate_windows_syntax user_path) (\<lambda>_.
     let lexical = join_user (ws_root w) user_path in
     rbind (check_inside os w (os_resolve os lexical)) (\<lambda>_.
     case os_resolve_strict os (path_parent lexical) of
       None \<Rightarrow> Inl (FileNotFound user_path)
     | Some parent \<Rightarrow>
         rbind (check_inside os w parent) (\<lambda>_.
         rbind (reject_reparse_chain os w (path_parent lexical)) (\<lambda>_.
         let target = parent @ [path_name lexical] in
         rbind (check_inside os w target) (\<lambda>_.
         rbind (check_access os w target WriteAccess) (\<lambda>_.
         if os_exists os target
         then rbind (reject_reparse_chain os w target) (\<lambda>_.
              if \<not> os_is_file os target
              then Inl (IsADirectory ''write target is not a regular file'')
              else rbind (reject_hardlink os target) (\<lambda>_.
                     hold_verified_path os False False target))
         else Inr target))))))"

text \<open>The check every existing directory of a planned chain gets.\<close>

definition check_chain_directory ::
  "os_env \<Rightarrow> workspace \<Rightarrow> error \<Rightarrow> path \<Rightarrow> unit res" where
  "check_chain_directory os w not_dir current =
     rbind (reject_reparse_chain os w current) (\<lambda>_.
       if \<not> os_is_dir os current then Inl not_dir
       else case os_resolve_strict os current of
              None \<Rightarrow> Inl (FileNotFound ''planned write parent'')
            | Some p \<Rightarrow> check_inside os w p)"

definition resolve_planned_write :: "os_env \<Rightarrow> workspace \<Rightarrow> string \<Rightarrow> path res" where
  "resolve_planned_write os w user_path =
     rbind (validate_windows_syntax user_path) (\<lambda>_.
     let lexical = join_user (ws_root w) user_path in
     rbind (check_inside os w (os_resolve os lexical)) (\<lambda>_.
     rbind (check_access os w lexical WriteAccess) (\<lambda>_.
     rbind (relative_to os lexical (ws_root w)) (\<lambda>parts.
     rbind (rfold (\<lambda>_ current.
              if os_exists os current
              then check_chain_directory os w
                     (NotADirectory ''planned write parent is not a directory'') current
              else Inr ())
            () (chain_from (ws_root w) (butlast parts))) (\<lambda>_.
     if os_exists os lexical then resolve_for_write os w user_path
     else Inr lexical)))))"

fun directory_target_chain ::
  "os_env \<Rightarrow> workspace \<Rightarrow> bool \<Rightarrow> bool \<Rightarrow> path \<Rightarrow> string list \<Rightarrow> unit res" where
  "directory_target_chain os w parents missing_seen current [] = Inr ()"
| "directory_target_chain os w parents missing_seen current (part # parts) =
     (let here = current @ [part] in
      if os_exists os here
      then (if missing_seen
            then Inl (RuntimeError ''directory chain changed during validation'')
            else rbind (check_chain_directory os w
                          (NotADirectory ''directory path collides with a file'') here)
                   (\<lambda>_. directory_target_chain os w parents missing_seen here parts))
      else if \<not> parents \<and> parts \<noteq> []
      then Inl (FileNotFound ''directory parent does not exist'')
      else directory_target_chain os w parents True here parts)"

definition resolve_directory_target ::
  "os_env \<Rightarrow> workspace \<Rightarrow> string \<Rightarrow> bool \<Rightarrow> path res" where
  "resolve_directory_target os w user_path parents =
     rbind (validate_windows_syntax user_path) (\<lambda>_.
     let lexical = join_user (ws_root w) user_path in
     rbind (check_inside os w (os_resolve os lexical)) (\<lambda>_.
     rbind (check_access os w lexical WriteAccess) (\<lambda>_.
     rbind (relative_to os lexical (ws_root w)) (\<lambda>parts.
     rbind (directory_target_chain os w parents False (ws_root w) parts) (\<lambda>_.
     Inr lexical)))))"

text \<open>\<open>relative_to(root).as_posix() or "."\<close>.\<close>

definition posix_or_dot :: "string list \<Rightarrow> string" where
  "posix_or_dot parts = (if parts = [] then ''.'' else join_with ''/'' parts)"

definition ws_relative :: "os_env \<Rightarrow> workspace \<Rightarrow> path \<Rightarrow> string res" where
  "ws_relative os w p =
     (let resolved = os_resolve os p in
      rbind (check_inside os w resolved) (\<lambda>_.
      rbind (relative_to os resolved (ws_root w)) (\<lambda>parts. Inr (posix_or_dot parts))))"

text \<open>\<open>os.path.abspath\<close> on an absolute path: \<open>..\<close> is collapsed against what precedes it.\<close>

fun collapse_parts :: "path \<Rightarrow> string list \<Rightarrow> path" where
  "collapse_parts acc [] = acc"
| "collapse_parts acc (p # ps) =
     collapse_parts (if p = ''..'' then path_parent acc else acc @ [p]) ps"

definition abspath :: "path \<Rightarrow> path" where
  "abspath p = collapse_parts (take 1 p) (drop 1 p)"

definition relative_lexical :: "os_env \<Rightarrow> workspace \<Rightarrow> path \<Rightarrow> string res" where
  "relative_lexical os w p =
     (let absolute = abspath p in
      rbind (check_inside os w (os_resolve os absolute)) (\<lambda>_.
      rbind (relative_to os absolute (ws_root w)) (\<lambda>parts. Inr (posix_or_dot parts))))"

definition is_hidden :: "os_env \<Rightarrow> workspace \<Rightarrow> path \<Rightarrow> bool" where
  "is_hidden os w p =
     (case relative_to os p (ws_root w) of
        Inl _ \<Rightarrow> True
      | Inr parts \<Rightarrow> list_ex (\<lambda>part. casefold os part \<in> set (ws_hidden w)) parts)"

definition ws_identity :: "os_env \<Rightarrow> path \<Rightarrow> path_identity option" where
  "ws_identity os p = (if \<not> os_exists os p then None else Some (os_identity os p))"

text \<open>\<open>read_verified_bytes\<close>: the size of the opened file is compared before any byte is read.\<close>

definition read_verified_bytes :: "os_env \<Rightarrow> path \<Rightarrow> int \<Rightarrow> bytes res" where
  "read_verified_bytes os p max_bytes =
     (if max_bytes < 0 then Inl (ValueError ''max_bytes must be non-negative'')
      else if max_bytes < int (length (os_read os p))
      then Inl (ValueError ''file exceeds byte limit'')
      else Inr (os_read os p))"


section \<open>A concrete operating system\<close>

text \<open>
  An instance of \<open>os_env\<close> for the witnesses: a listed tree (\<open>None\<close> a directory, \<open>Some\<close> the bytes
  of a file) without links, on which names compare by their ASCII lower case.
\<close>

definition listed_node :: "(path \<times> bytes option) list \<Rightarrow> path \<Rightarrow> bytes option option" where
  "listed_node t p = map_of (List.map (\<lambda>(q, n). (List.map ascii_lower q, n)) t) (List.map ascii_lower p)"

definition listed_identity :: "(path \<times> bytes option) list \<Rightarrow> path \<Rightarrow> path_identity" where
  "listed_identity t p =
     (let size = (case listed_node t p of Some (Some d) \<Rightarrow> int (length d) | _ \<Rightarrow> 0) in
      \<lparr>device = 1, inode = int (length t), file_size = size, modified_ns = 0,
       windows_volume_serial = Some 1, windows_file_index = Some size\<rparr>)"

definition listed_os :: "(path \<times> bytes option) list \<Rightarrow> os_env" where
  "listed_os t =
     \<lparr>casefold = ascii_lower, normcase = ascii_lower,
      os_resolve = abspath,
      os_resolve_strict = (\<lambda>p. if listed_node t (abspath p) = None then None else Some (abspath p)),
      os_exists = (\<lambda>p. listed_node t (abspath p) \<noteq> None),
      os_is_file = (\<lambda>p. case listed_node t (abspath p) of Some (Some _) \<Rightarrow> True | _ \<Rightarrow> False),
      os_is_dir = (\<lambda>p. listed_node t (abspath p) = Some None),
      os_lstat_reparse = (\<lambda>_. False),
      os_nlink = (\<lambda>_. 1),
      os_open = (\<lambda>p. map_option
         (\<lambda>n. \<lparr>info_directory = (n = None), info_reparse = False, info_links = 1\<rparr>)
         (listed_node t p)),
      os_identity = listed_identity t,
      os_read = (\<lambda>p. case listed_node t p of Some (Some d) \<Rightarrow> d | _ \<Rightarrow> [])\<rparr>"

definition demo_tree :: "(path \<times> bytes option) list" where
  "demo_tree =
     [([''C:'', ''ws''], None), ([''C:'', ''ws'', ''src''], None),
      ([''C:'', ''ws'', ''src'', ''a.txt''], Some [104, 105]),
      ([''C:'', ''ws'', ''.git''], None), ([''C:'', ''ws'', ''.git'', ''config''], Some [1])]"

definition demo_policy :: path_policy where
  "demo_policy =
     \<lparr>workspace_root = [''C:'', ''ws''], blocked_file_names = [''.env''],
      hidden_directories = [''node_modules''], read_denied_directories = [''secrets''],
      write_denied_directories = [''.git'']\<rparr>"

definition demo_workspace :: workspace where
  "demo_workspace =
     \<lparr>ws_root = [''C:'', ''ws''], ws_blocked = [''.env''], ws_hidden = [''node_modules''],
      ws_read_denied = [''secrets''], ws_write_denied = [''.git'']\<rparr>"

section \<open>What a resolved path satisfies\<close>

text \<open>\<open>allowed\<close>: the path policy a resolved path has passed.\<close>

definition allowed :: "os_env \<Rightarrow> workspace \<Rightarrow> path \<Rightarrow> access \<Rightarrow> bool" where
  "allowed os w p acc \<longleftrightarrow>
     is_inside os w p \<and>
     (\<exists>parts. relative_parts os w p = Inr parts \<and>
        (\<forall>part\<in>set parts. part \<notin> set (denied_directories w acc))) \<and>
     \<not> protected_name (ws_blocked w) (casefold os (path_name p))"

lemma check_inside_Inr [res_simps]: "check_inside os w p = Inr u \<longleftrightarrow> is_inside os w p"
  by (simp add: check_inside_def)

lemma check_access_Inr:
  "check_access os w p acc = Inr u \<Longrightarrow> is_inside os w p \<Longrightarrow> allowed os w p acc"
  by (auto simp: check_access_def allowed_def res_simps list_ex_iff)

lemma check_component_Inr:
  "check_component os final d h p = Inr u \<Longrightarrow>
     \<exists>info. os_open os p = Some info \<and> \<not> info_reparse info \<and>
       (\<not> final \<longrightarrow> info_directory info) \<and>
       (final \<longrightarrow> \<not> h \<longrightarrow> \<not> info_directory info \<longrightarrow> info_links info \<le> 1)"
  by (auto simp: check_component_def split: option.splits if_splits)

lemma hold_components_Inr:
  "hold_components os d h cur parts = Inr u \<Longrightarrow> q \<in> set (chain_from cur parts) \<Longrightarrow>
     \<exists>info. os_open os q = Some info \<and> \<not> info_reparse info"
proof (induction parts arbitrary: cur)
  case Nil
  then show ?case by simp
next
  case (Cons part parts)
  then show ?case by (auto simp: res_simps dest: check_component_Inr)
qed

lemma hold_verified_path_Inr:
  "hold_verified_path os d h p = Inr q \<Longrightarrow>
     q = p \<and> (\<forall>c\<in>set (chain_from (take 1 p) (drop 1 p)).
        \<exists>info. os_open os c = Some info \<and> \<not> info_reparse info)"
  by (auto simp: hold_verified_path_def res_simps dest: hold_components_Inr split: if_splits)

lemma resolve_existing_Inr:
  assumes "resolve_existing os w u d acc h = Inr p"
  shows "os_resolve_strict os (join_user (ws_root w) u) = Some p"
    and "allowed os w p acc"
    and "os_is_file os p \<longrightarrow> os_nlink os p \<le> 1"
    and "\<not> d \<longrightarrow> os_is_file os p"
    and "os_is_file os p \<or> os_is_dir os p"
    and "h \<longrightarrow> hold_verified_path os (\<not> os_is_file os p) (\<not> os_is_file os p) p = Inr p"
    and "validate_windows_syntax u = Inr ()"
proof -
  obtain r where r: "os_resolve_strict os (join_user (ws_root w) u) = Some r"
    and i: "is_inside os w r" and a: "check_access os w r acc = Inr ()"
    and v: "validate_windows_syntax u = Inr ()"
    and rest: "(if \<not> d \<and> \<not> os_is_file os r then Inl (IsADirectory ''not a regular file'')
       else if os_is_file os r
       then rbind (reject_hardlink os r) (\<lambda>_.
              if h then hold_verified_path os False False r else Inr r)
       else if os_is_dir os r
       then (if h then hold_verified_path os True True r else Inr r)
       else Inl (PermissionError ''path is not a regular file or directory'')) = Inr p"
    using assms unfolding resolve_existing_def Let_def
    by (auto simp: rbind_eq_Inr check_inside_Inr split: option.splits)
  have p: "p = r \<and> (os_is_file os r \<longrightarrow> os_nlink os r \<le> 1) \<and> (\<not> d \<longrightarrow> os_is_file os r)
      \<and> (os_is_file os r \<or> os_is_dir os r)
      \<and> (h \<longrightarrow> hold_verified_path os (\<not> os_is_file os r) (\<not> os_is_file os r) r = Inr r)"
    using rest
    by (auto simp: reject_hardlink_def res_simps split: if_splits
        dest!: hold_verified_path_Inr [THEN conjunct1] dest: sym)
  show "os_resolve_strict os (join_user (ws_root w) u) = Some p" using p r by simp
  show "allowed os w p acc" using check_access_Inr [OF a i] p by simp
  show "os_is_file os p \<longrightarrow> os_nlink os p \<le> 1" "\<not> d \<longrightarrow> os_is_file os p"
    "os_is_file os p \<or> os_is_dir os p"
    "h \<longrightarrow> hold_verified_path os (\<not> os_is_file os p) (\<not> os_is_file os p) p = Inr p"
    "validate_windows_syntax u = Inr ()"
    using p v by simp_all
qed

text \<open>
  C15. Whatever string a tool call passes, a path that \<open>resolve_existing\<close> returns lies inside the
  workspace root, has no directory component that the policy denies for the requested access and
  no protected file name, is a single-link file or a directory, and, when it is held, every
  component below the anchor was opened and is no symlink, junction or other reparse point.
\<close>

theorem resolve_existing_confined:
  assumes "resolve_existing os w user_path allow_directory acc hold_identity = Inr p"
  shows "allowed os w p acc
    \<and> (os_is_file os p \<and> os_nlink os p \<le> 1 \<or> allow_directory \<and> os_is_dir os p)
    \<and> (hold_identity \<longrightarrow> (\<forall>c\<in>set (chain_from (take 1 p) (drop 1 p)).
           \<exists>info. os_open os c = Some info \<and> \<not> info_reparse info))"
  using resolve_existing_Inr [OF assms] hold_verified_path_Inr by blast

lemma resolve_existing_confined_witness:
  "resolve_existing (listed_os demo_tree) demo_workspace ''src/A.txt'' False ReadAccess True
      = Inr [''C:'', ''ws'', ''src'', ''A.txt''] \<and>
   allowed (listed_os demo_tree) demo_workspace [''C:'', ''ws'', ''src'', ''A.txt''] ReadAccess"
proof -
  have h: "resolve_existing (listed_os demo_tree) demo_workspace ''src/A.txt'' False ReadAccess True
      = Inr [''C:'', ''ws'', ''src'', ''A.txt'']"
    by code_simp
  show ?thesis using h resolve_existing_confined [OF h] by simp
qed


lemma path_components_set:
  "p \<in> set (path_components s) \<Longrightarrow> p \<noteq> [] \<and> p \<noteq> ''.'' \<and> backslash \<notin> set p"
  by (auto simp: path_components_def dest: split_on_no_sep)

lemma path_components_slash:
  assumes "p \<in> set (path_components (List.map win_sep s))"
  shows "p \<notin> {[], ''.'', [backslash], ''/''}"
proof -
  have "p \<noteq> [] \<and> p \<noteq> ''.'' \<and> backslash \<notin> set p" using assms by (rule path_components_set)
  moreover have "set p \<subseteq> set (List.map win_sep s)"
  proof
    fix c assume c: "c \<in> set p"
    have "p \<in> set (split_on backslash (List.map win_sep s))"
      using assms by (simp add: path_components_def)
    then have "set p \<subseteq> set (join_with [backslash] (split_on backslash (List.map win_sep s)))"
      by (rule join_with_superset)
    then show "c \<in> set (List.map win_sep s)" using c by (simp add: join_split subset_eq)
  qed
  moreover have "CHR ''/'' \<notin> set (List.map win_sep s)"
    by (auto simp: win_sep_def backslash_def split: if_splits)
  ultimately show ?thesis by auto
qed

lemma ends_with_last: "ends_with [c] p \<longleftrightarrow> p \<noteq> [] \<and> last p = c"
  by (cases p rule: rev_cases) (auto simp: ends_with_def starts_with_def)

lemma check_raw_part_Inr:
  assumes "p \<notin> {[], ''.'', [backslash], ''/''}"
  shows "check_raw_part p = Inr () \<longleftrightarrow>
     p = ''..'' \<or> (CHR '':'' \<notin> set p \<and> last p \<noteq> CHR '' '' \<and> last p \<noteq> CHR ''.''
       \<and> device_base p \<notin> set windows_devices)"
  using assms by (auto simp: check_raw_part_def ends_with_last)

lemma rfold_unit_Inr: "rfold (\<lambda>_. f) () xs = Inr () \<longleftrightarrow> (\<forall>x\<in>set xs. f x = Inr ())"
  by (induction xs) (auto simp: res_simps)

lemma double_separator_drive:
  assumes "starts_with [backslash, backslash] s \<or> starts_with ''//'' s"
  shows "wp_drive (parse_windows_path s) \<noteq> []"
proof -
  have "starts_with [backslash, backslash] (List.map win_sep s)"
    using assms by (auto simp: starts_with_iff win_sep_def backslash_def)
  then show ?thesis by (auto simp: parse_windows_path_def starts_with_def)
qed

lemma windows_parts_no_drive:
  assumes "wp_drive (parse_windows_path s) = []"
  shows "windows_parts s =
     (if wp_rooted (parse_windows_path s) then [[backslash]] else []) @ wp_rel (parse_windows_path s)"
    and "wp_rel (parse_windows_path s) = path_components (List.map win_sep s)"
  using assms by (auto simp: windows_parts_def parse_windows_path_def Let_def starts_with_def
      split: if_splits)

text \<open>
  The syntax check is exact: it accepts precisely the non-empty NUL-free strings without a
  drive or UNC prefix in which every component other than \<open>..\<close> has no alternate data stream
  separator, does not end in a space or a dot and is no reserved device name, with or without an
  extension.
\<close>

theorem validate_windows_syntax_exact:
  "validate_windows_syntax s = Inr () \<longleftrightarrow>
     s \<noteq> [] \<and> nul_char \<notin> set s \<and> wp_drive (parse_windows_path s) = [] \<and>
     (\<forall>p\<in>set (wp_rel (parse_windows_path s)).
        p = ''..'' \<or> (CHR '':'' \<notin> set p \<and> last p \<noteq> CHR '' '' \<and> last p \<noteq> CHR ''.''
          \<and> device_base p \<notin> set windows_devices))"
proof (cases "wp_drive (parse_windows_path s) = []")
  case True
  have ok: "check_raw_part [backslash] = Inr ()" by (simp add: check_raw_part_def)
  have "rfold (\<lambda>_. check_raw_part) () (windows_parts s) = Inr () \<longleftrightarrow>
     (\<forall>p\<in>set (wp_rel (parse_windows_path s)). check_raw_part p = Inr ())"
    by (auto simp: rfold_unit_Inr windows_parts_no_drive(1) [OF True] ok)
  moreover have "\<forall>p\<in>set (wp_rel (parse_windows_path s)). p \<notin> {[], ''.'', [backslash], ''/''}"
    using windows_parts_no_drive(2) [OF True] path_components_slash by metis
  ultimately show ?thesis
    using True double_separator_drive [of s]
    by (auto simp: validate_windows_syntax_def Let_def check_raw_part_Inr)
next
  case False
  then show ?thesis by (auto simp: validate_windows_syntax_def Let_def)
qed

lemma validate_windows_syntax_exact_witness:
  "validate_windows_syntax ''src/a.txt'' = Inr () \<and>
   validate_windows_syntax ''src/nul.txt'' \<noteq> Inr () \<and>
   validate_windows_syntax ''a.txt:stream'' \<noteq> Inr ()"
proof -
  have "(\<forall>p\<in>set (wp_rel (parse_windows_path ''src/a.txt'')).
        p = ''..'' \<or> (CHR '':'' \<notin> set p \<and> last p \<noteq> CHR '' '' \<and> last p \<noteq> CHR ''.''
          \<and> device_base p \<notin> set windows_devices))"
    and "wp_drive (parse_windows_path ''src/a.txt'') = []"
    and "\<not> (\<forall>p\<in>set (wp_rel (parse_windows_path ''src/nul.txt'')).
        p = ''..'' \<or> (CHR '':'' \<notin> set p \<and> last p \<noteq> CHR '' '' \<and> last p \<noteq> CHR ''.''
          \<and> device_base p \<notin> set windows_devices))"
    and "\<not> (\<forall>p\<in>set (wp_rel (parse_windows_path ''a.txt:stream'')).
        p = ''..'' \<or> (CHR '':'' \<notin> set p \<and> last p \<noteq> CHR '' '' \<and> last p \<noteq> CHR ''.''
          \<and> device_base p \<notin> set windows_devices))"
    by code_simp+
  then show ?thesis
    unfolding validate_windows_syntax_exact by (simp add: nul_char_def)
qed

lemma relative_to_append [simp]: "relative_to os (r @ ps) r = Inr ps"
  by (simp add: relative_to_def path_eq_def)

lemma chain_from_last: "ps \<noteq> [] \<Longrightarrow> r @ ps \<in> set (chain_from r ps)"
proof (induction ps arbitrary: r)
  case Nil
  then show ?case by simp
next
  case (Cons x xs)
  then show ?case using Cons.IH [of "r @ [x]"] by (cases "xs = []") auto
qed

lemma chain_from_prefix: "q \<in> set (chain_from r ps) \<Longrightarrow> \<exists>a. a \<noteq> [] \<and> q = r @ a"
proof (induction ps arbitrary: r)
  case Nil
  then show ?case by simp
next
  case (Cons x xs)
  from Cons.prems have "q = r @ [x] \<or> q \<in> set (chain_from (r @ [x]) xs)" by simp
  then show ?case using Cons.IH [of "r @ [x]"] by fastforce
qed

lemma reject_reparse_chain_Inr:
  "reject_reparse_chain os w (ws_root w @ ps) = Inr () \<Longrightarrow>
     \<not> os_lstat_reparse os (ws_root w) \<and>
     (\<forall>c\<in>set (chain_from (ws_root w) ps). \<not> (os_exists os c \<and> os_lstat_reparse os c))"
  by (auto simp: reject_reparse_chain_def rbind_eq_Inr if_Inl_eq_Inr rfold_unit_Inr)

lemma check_inside_ok: "check_inside os w p = Inr () \<Longrightarrow> is_inside os w p"
  by (simp add: check_inside_def split: if_splits)

text \<open>A directory of the chain: it is no link, and what it resolves to lies in the workspace.\<close>

definition real_directory :: "os_env \<Rightarrow> workspace \<Rightarrow> path \<Rightarrow> bool" where
  "real_directory os w d \<longleftrightarrow>
     os_is_dir os d \<and> \<not> os_lstat_reparse os d
     \<and> (\<exists>r. os_resolve_strict os d = Some r \<and> is_inside os w r)"

lemma check_chain_directory_Inr:
  assumes "check_chain_directory os w e (ws_root w @ ps) = Inr ()" and "ps \<noteq> []"
    and "os_exists os (ws_root w @ ps)"
  shows "real_directory os w (ws_root w @ ps)"
proof -
  obtain r where "os_is_dir os (ws_root w @ ps)" "reject_reparse_chain os w (ws_root w @ ps) = Inr ()"
    "os_resolve_strict os (ws_root w @ ps) = Some r" "check_inside os w r = Inr ()"
    using assms(1) by (auto simp: check_chain_directory_def res_simps split: option.splits)
  then show ?thesis
    using reject_reparse_chain_Inr chain_from_last [OF assms(2)] assms(3) check_inside_ok
    unfolding real_directory_def by blast
qed

text \<open>The directories a planned target may rely on: existing ones are real directories.\<close>

definition sound_ancestors :: "os_env \<Rightarrow> workspace \<Rightarrow> string list \<Rightarrow> bool" where
  "sound_ancestors os w parts \<longleftrightarrow>
     (\<forall>c\<in>set (chain_from (ws_root w) parts). os_exists os c \<longrightarrow> real_directory os w c)"

lemma sound_ancestorsI:
  assumes "rfold (\<lambda>_ current. if os_exists os current then check_chain_directory os w e current
                     else Inr ()) () (chain_from (ws_root w) parts) = Inr ()"
  shows "sound_ancestors os w parts"
  unfolding sound_ancestors_def
proof (intro ballI impI)
  fix c assume c: "c \<in> set (chain_from (ws_root w) parts)" and ex: "os_exists os c"
  from c obtain a where a: "a \<noteq> []" "c = ws_root w @ a" using chain_from_prefix by blast
  have "check_chain_directory os w e c = Inr ()"
    using assms c ex by (auto simp: rfold_unit_Inr)
  then show "real_directory os w c" using check_chain_directory_Inr a ex by blast
qed

lemma resolve_for_write_allowed:
  "resolve_for_write os w u = Inr p \<Longrightarrow> allowed os w p WriteAccess"
  by (auto simp: resolve_for_write_def Let_def rbind_eq_Inr check_inside_Inr
      dest!: check_access_Inr dest: hold_verified_path_Inr split: option.splits if_splits)

text \<open>
  C16. A file target that a plan may create passes the write policy; what its path resolves to, every
  link and every \<open>..\<close> followed, lies inside the workspace; and every ancestor that exists already is a
  real directory, no link, which itself resolves into the workspace.
\<close>

theorem resolve_planned_write_confined:
  assumes "resolve_planned_write os w user_path = Inr p"
  shows "allowed os w p WriteAccess \<and> is_inside os w (os_resolve os (join_user (ws_root w) user_path)) \<and>
    (\<exists>parts. relative_to os (join_user (ws_root w) user_path) (ws_root w) = Inr parts \<and>
       sound_ancestors os w (butlast parts)) \<and>
    (os_exists os (join_user (ws_root w) user_path) \<or> p = join_user (ws_root w) user_path)"
proof -
  let ?l = "join_user (ws_root w) user_path"
  obtain parts where ins: "check_inside os w (os_resolve os ?l) = Inr ()"
    and acc: "check_access os w ?l WriteAccess = Inr ()"
    and rel: "relative_to os ?l (ws_root w) = Inr parts"
    and fold: "rfold (\<lambda>_ current. if os_exists os current then check_chain_directory os w
           (NotADirectory ''planned write parent is not a directory'') current else Inr ())
         () (chain_from (ws_root w) (butlast parts)) = Inr ()"
    and out: "(if os_exists os ?l then resolve_for_write os w user_path else Inr ?l) = Inr p"
    using assms unfolding resolve_planned_write_def Let_def by (auto simp: rbind_eq_Inr)
  have "is_inside os w ?l" using rel by (simp add: is_inside_def)
  then have "allowed os w p WriteAccess"
    using out acc check_access_Inr resolve_for_write_allowed by (auto split: if_splits)
  moreover have "os_exists os ?l \<or> p = ?l" using out by (auto split: if_splits)
  ultimately show ?thesis using rel sound_ancestorsI [OF fold] check_inside_ok [OF ins] by blast
qed

lemma resolve_planned_write_confined_witness:
  "resolve_planned_write (listed_os demo_tree) demo_workspace ''src/new.txt''
      = Inr [''C:'', ''ws'', ''src'', ''new.txt''] \<and>
   allowed (listed_os demo_tree) demo_workspace [''C:'', ''ws'', ''src'', ''new.txt''] WriteAccess"
proof -
  have h: "resolve_planned_write (listed_os demo_tree) demo_workspace ''src/new.txt''
      = Inr [''C:'', ''ws'', ''src'', ''new.txt'']"
    by code_simp
  show ?thesis using h resolve_planned_write_confined [OF h] by simp
qed

end
