(* ===== verification/Text.thy ===== *)
theory Text
  imports Prelude
begin

text \<open>
  The text of a file: a list of Unicode code points, and Python's strict UTF-8 codec between it
  and bytes (\<open>str.encode("utf-8")\<close>, \<open>bytes.decode("utf-8")\<close>), which every text operation of the
  workspace goes through. \<open>None\<close> stands for UnicodeEncodeError and UnicodeDecodeError.
\<close>

type_synonym utext = "nat list"

definition surrogate :: "nat \<Rightarrow> bool" where
  "surrogate n \<longleftrightarrow> 0xD800 \<le> n \<and> n \<le> 0xDFFF"

definition encodable :: "nat \<Rightarrow> bool" where
  "encodable n \<longleftrightarrow> n < 0x110000 \<and> \<not> surrogate n"

definition encode_point :: "nat \<Rightarrow> nat list" where
  "encode_point n =
     (if n < 0x80 then [n]
      else if n < 0x800 then [0xC0 + n div 64, 0x80 + n mod 64]
      else if n < 0x10000 then [0xE0 + n div 4096, 0x80 + n div 64 mod 64, 0x80 + n mod 64]
      else [0xF0 + n div 262144, 0x80 + n div 4096 mod 64, 0x80 + n div 64 mod 64, 0x80 + n mod 64])"

fun encode_points :: "utext \<Rightarrow> nat list option" where
  "encode_points [] = Some []"
| "encode_points (n # ns) =
     (if encodable n then map_option (\<lambda>r. encode_point n @ r) (encode_points ns) else None)"

definition continuation :: "nat \<Rightarrow> bool" where
  "continuation b \<longleftrightarrow> 0x80 \<le> b \<and> b < 0xC0"

text \<open>The code point that a lead byte and its continuation bytes carry.\<close>

definition point2 :: "nat \<Rightarrow> nat \<Rightarrow> nat" where
  "point2 a b = (a - 0xC0) * 64 + (b - 0x80)"

definition point3 :: "nat \<Rightarrow> nat \<Rightarrow> nat \<Rightarrow> nat" where
  "point3 a b c = (a - 0xE0) * 4096 + (b - 0x80) * 64 + (c - 0x80)"

definition point4 :: "nat \<Rightarrow> nat \<Rightarrow> nat \<Rightarrow> nat \<Rightarrow> nat" where
  "point4 a b c d = (a - 0xF0) * 262144 + (b - 0x80) * 4096 + (c - 0x80) * 64 + (d - 0x80)"

fun decode_points :: "nat list \<Rightarrow> utext option" where
  "decode_points [] = Some []"
| "decode_points (a # bs) =
     (if a < 0x80 then map_option (Cons a) (decode_points bs)
      else if 0xC2 \<le> a \<and> a < 0xE0 then
        (case bs of
           b # rest \<Rightarrow>
             if continuation b
             then map_option (Cons (point2 a b)) (decode_points rest) else None
         | _ \<Rightarrow> None)
      else if 0xE0 \<le> a \<and> a < 0xF0 then
        (case bs of
           b # c # rest \<Rightarrow>
             (let n = point3 a b c in
              if continuation b \<and> continuation c \<and> 0x800 \<le> n \<and> \<not> surrogate n
              then map_option (Cons n) (decode_points rest) else None)
         | _ \<Rightarrow> None)
      else if 0xF0 \<le> a \<and> a < 0xF5 then
        (case bs of
           b # c # d # rest \<Rightarrow>
             (let n = point4 a b c d in
              if continuation b \<and> continuation c \<and> continuation d \<and> 0x10000 \<le> n \<and> n < 0x110000
              then map_option (Cons n) (decode_points rest) else None)
         | _ \<Rightarrow> None)
      else None)"

definition utf8_encode :: "utext \<Rightarrow> bytes option" where
  "utf8_encode t = map_option (List.map of_nat) (encode_points t)"

definition utf8_decode :: "bytes \<Rightarrow> utext option" where
  "utf8_decode bs = decode_points (List.map unat bs)"

section \<open>Round trips\<close>

lemma encode_point_bytes: "encodable n \<Longrightarrow> b \<in> set (encode_point n) \<Longrightarrow> b < 256"
  unfolding encodable_def encode_point_def by (auto split: if_splits)

lemma encode_points_bytes: "encode_points t = Some bs \<Longrightarrow> b \<in> set bs \<Longrightarrow> b < 256"
  by (induction t arbitrary: bs) (auto split: if_splits dest: encode_point_bytes)

lemma div_mod_64: "(n::nat) div 64 * 64 + n mod 64 = n"
  by simp

lemma div_64_step: "(n::nat) div (64 * k) * 64 + n div k mod 64 = n div k"
  using div_mod_64 [of "n div k"] by (simp add: div_mult2_eq mult.commute)

lemma three_byte: "(n::nat) div 4096 * 4096 + n div 64 mod 64 * 64 + n mod 64 = n"
proof -
  have "(n div 4096 * 64 + n div 64 mod 64) * 64 + n mod 64 = n"
    using div_64_step [of n 64] div_mod_64 [of n] by simp
  then show ?thesis by (simp add: add_mult_distrib)
qed

lemma four_byte:
  "(n::nat) div 262144 * 262144 + n div 4096 mod 64 * 4096 + n div 64 mod 64 * 64 + n mod 64 = n"
proof -
  have "(n div 262144 * 64 + n div 4096 mod 64) * 4096 + n div 64 mod 64 * 64 + n mod 64 = n"
    using div_64_step [of n 4096] three_byte [of n] by simp
  then show ?thesis by (simp add: add_mult_distrib)
qed

lemma continuation_add [simp]: "continuation (0x80 + m mod 64)"
  by (simp add: continuation_def)

lemma point2_eq [simp]: "point2 (0xC0 + p) (0x80 + q) = p * 64 + q"
  by (simp add: point2_def)

lemma point3_eq [simp]: "point3 (0xE0 + p) (0x80 + q) (0x80 + r) = p * 4096 + q * 64 + r"
  by (simp add: point3_def)

lemma point4_eq [simp]:
  "point4 (0xF0 + p) (0x80 + q) (0x80 + r) (0x80 + s) = p * 262144 + q * 4096 + r * 64 + s"
  by (simp add: point4_def)

lemma decode_encode_point:
  assumes "encodable n"
  shows "decode_points (encode_point n @ r) = map_option (Cons n) (decode_points r)"
proof -
  consider "n < 0x80" | "0x80 \<le> n" "n < 0x800" | "0x800 \<le> n" "n < 0x10000" | "0x10000 \<le> n"
    by linarith
  then show ?thesis
  proof cases
    case 1
    then show ?thesis by (simp add: encode_point_def)
  next
    case 2
    then have "2 \<le> n div 64" "n div 64 < 32" by auto
    with 2 show ?thesis by (simp add: encode_point_def)
  next
    case 3
    then have "n div 4096 < 16" by auto
    with 3 assms show ?thesis by (simp add: encode_point_def encodable_def three_byte)
  next
    case 4
    then have "n div 262144 < 5" using assms by (auto simp: encodable_def)
    with 4 assms show ?thesis by (simp add: encode_point_def encodable_def four_byte)
  qed
qed

lemma decode_encode_points: "encode_points t = Some bs \<Longrightarrow> decode_points bs = Some t"
  by (induction t arbitrary: bs) (auto split: if_splits simp: decode_encode_point)

lemma unat_of_nat_bytes: "(\<And>b. b \<in> set bs \<Longrightarrow> b < 256) \<Longrightarrow> List.map unat (List.map of_nat bs :: bytes) = bs"
  by (induction bs) (auto simp: unat_of_nat)

lemma utf8_decode_encode: "utf8_encode t = Some bs \<Longrightarrow> utf8_decode bs = Some t"
  unfolding utf8_encode_def utf8_decode_def
  using unat_of_nat_bytes encode_points_bytes decode_encode_points by auto

lemma continuation_split: "continuation b \<Longrightarrow> \<exists>m<64. b = 0x80 + m"
  by (auto simp: continuation_def intro!: exI [of _ "b - 0x80"])

lemma encode_two: "2 \<le> p \<Longrightarrow> p < 32 \<Longrightarrow> q < 64 \<Longrightarrow> encode_point (p * 64 + q) = [0xC0 + p, 0x80 + q]"
  by (auto simp: encode_point_def)

lemma encode_three:
  assumes "p < 16" "q < 64" "r < 64" "0x800 \<le> p * 4096 + q * 64 + r"
  shows "encode_point (p * 4096 + q * 64 + r) = [0xE0 + p, 0x80 + q, 0x80 + r]"
proof -
  let ?n = "p * 4096 + q * 64 + r"
  have "?n = (p * 64 + q) * 64 + r" by simp
  then have "?n mod 64 = r" using assms(3) by (simp only: mod_mult_self3 mod_less)
  moreover have "?n div 64 = p * 64 + q" "?n div 4096 = p" "?n < 0x10000"
    using assms by linarith+
  moreover have "(p * 64 + q) mod 64 = q" using assms(2) by simp
  ultimately show ?thesis using assms by (simp add: encode_point_def)
qed

lemma encode_four:
  assumes "q < 64" "r < 64" "s < 64" "0x10000 \<le> p * 262144 + q * 4096 + r * 64 + s"
  shows "encode_point (p * 262144 + q * 4096 + r * 64 + s)
     = [0xF0 + p, 0x80 + q, 0x80 + r, 0x80 + s]"
proof -
  let ?n = "p * 262144 + q * 4096 + r * 64 + s"
  have "?n = (p * 4096 + q * 64 + r) * 64 + s" by simp
  then have "?n mod 64 = s" using assms(3) by (simp only: mod_mult_self3 mod_less)
  moreover have "?n div 64 = p * 4096 + q * 64 + r" "?n div 4096 = p * 64 + q"
    "?n div 262144 = p"
    using assms by linarith+
  moreover have "(p * 4096 + q * 64 + r) mod 64 = r"
  proof -
    have "p * 4096 + q * 64 + r = (p * 64 + q) * 64 + r" by simp
    then show ?thesis using assms(2) by (simp only: mod_mult_self3 mod_less)
  qed
  moreover have "(p * 64 + q) mod 64 = q" using assms(1) by simp
  ultimately show ?thesis using assms by (simp add: encode_point_def)
qed

lemma decode_three_step:
  assumes "decode_points (a # b # d # rest) = Some t" "0xE0 \<le> a" "a < 0xF0"
  shows "\<exists>n u. t = n # u \<and> decode_points rest = Some u \<and> encodable n \<and> encode_point n = [a, b, d]"
proof -
  let ?n = "point3 a b d"
  have c: "continuation b" "continuation d" "0x800 \<le> ?n" "\<not> surrogate ?n"
    and u: "map_option (Cons ?n) (decode_points rest) = Some t"
    using assms by (simp_all add: Let_def split: if_splits)
  obtain q where q1: "q < 64" "b = 0x80 + q" using continuation_split [OF c(1)] by blast
  obtain r where r1: "r < 64" "d = 0x80 + r" using continuation_split [OF c(2)] by blast
  note q = q1 r1
  have p: "a = 0xE0 + (a - 0xE0)" "a - 0xE0 < 16" using assms(2,3) by simp_all
  have n: "?n = (a - 0xE0) * 4096 + q * 64 + r" unfolding point3_def q(2,4) by simp
  have "encode_point ?n = [0xE0 + (a - 0xE0), 0x80 + q, 0x80 + r]"
    using c(3) unfolding n by (intro encode_three p q(1,3))
  then have "encode_point ?n = [a, b, d]" using p(1) q by simp
  moreover have "?n < 0x110000" using p(2) q(1,3) unfolding n by simp
  ultimately show ?thesis using u c(4) by (auto simp: encodable_def)
qed

lemma decode_four_step:
  assumes "decode_points (a # b # d # e # rest) = Some t" "0xF0 \<le> a" "a < 0xF5"
  shows "\<exists>n u. t = n # u \<and> decode_points rest = Some u \<and> encodable n \<and> encode_point n = [a, b, d, e]"
proof -
  let ?n = "point4 a b d e"
  have c: "continuation b" "continuation d" "continuation e" "0x10000 \<le> ?n" "?n < 0x110000"
    and u: "map_option (Cons ?n) (decode_points rest) = Some t"
    using assms by (simp_all add: Let_def split: if_splits)
  obtain q where q1: "q < 64" "b = 0x80 + q" using continuation_split [OF c(1)] by blast
  obtain r where r1: "r < 64" "d = 0x80 + r" using continuation_split [OF c(2)] by blast
  obtain s where s1: "s < 64" "e = 0x80 + s" using continuation_split [OF c(3)] by blast
  note q = q1 r1 s1
  have p: "a = 0xF0 + (a - 0xF0)" using assms(2) by simp
  have n: "?n = (a - 0xF0) * 262144 + q * 4096 + r * 64 + s" unfolding point4_def q(2,4,6) by simp
  have "encode_point ?n = [0xF0 + (a - 0xF0), 0x80 + q, 0x80 + r, 0x80 + s]"
    using c(4) unfolding n by (intro encode_four q(1,3,5))
  then have "encode_point ?n = [a, b, d, e]" using p q by simp
  moreover have "encodable ?n" using c(4,5) by (simp add: encodable_def surrogate_def)
  ultimately show ?thesis using u by auto
qed

lemma decode_two_step:
  assumes "decode_points (a # b # rest) = Some t" "0xC2 \<le> a" "a < 0xE0"
  shows "\<exists>n u. t = n # u \<and> decode_points rest = Some u \<and> encodable n \<and> encode_point n = [a, b]"
proof -
  let ?n = "point2 a b"
  have c: "continuation b" and u: "map_option (Cons ?n) (decode_points rest) = Some t"
    using assms by (simp_all split: if_splits)
  obtain q where q: "q < 64" "b = 0x80 + q" using continuation_split c by blast
  have p: "a = 0xC0 + (a - 0xC0)" "2 \<le> a - 0xC0" "a - 0xC0 < 32" using assms(2,3) by simp_all
  have n: "?n = (a - 0xC0) * 64 + q" unfolding point2_def q(2) by simp
  have "encode_point ?n = [0xC0 + (a - 0xC0), 0x80 + q]"
    unfolding n by (intro encode_two p q(1))
  then have "encode_point ?n = [a, b]" using p(1) q by simp
  moreover have "encodable ?n" using p(3) q(1) unfolding n by (simp add: encodable_def surrogate_def)
  ultimately show ?thesis using u by auto
qed

lemma decode_step:
  assumes "decode_points bs = Some t" "bs \<noteq> []"
  shows "\<exists>n u rest. t = n # u \<and> decode_points rest = Some u \<and> encodable n
    \<and> bs = encode_point n @ rest \<and> length rest < length bs"
proof -
  obtain a r where bs: "bs = a # r" using assms(2) by (cases bs) auto
  consider "a < 0x80" | "0xC2 \<le> a" "a < 0xE0" | "0xE0 \<le> a" "a < 0xF0" | "0xF0 \<le> a" "a < 0xF5"
    using assms(1) bs by (auto split: if_splits)
  then show ?thesis
  proof cases
    case 1
    then obtain u where u: "t = a # u" "decode_points r = Some u" using assms(1) bs by auto
    have "encode_point a = [a]" "encodable a"
      using 1 by (simp_all add: encode_point_def encodable_def surrogate_def)
    then show ?thesis using u bs
      by (intro exI [of _ a] exI [of _ u] exI [of _ r]) simp
  next
    case c: 2
    then obtain b rest where "r = b # rest" using assms(1) bs by (cases r) auto
    then show ?thesis using decode_two_step [of a b rest t] c assms(1) bs by auto
  next
    case c: 3
    then have "\<exists>b d rest. r = b # d # rest"
      using assms(1) bs by (cases r; cases "tl r") auto
    then show ?thesis using decode_three_step c assms(1) bs by fastforce
  next
    case c: 4
    then have "\<exists>b d e rest. r = b # d # e # rest"
      using assms(1) bs by (cases r; cases "tl r"; cases "tl (tl r)") auto
    then show ?thesis using decode_four_step c assms(1) bs by fastforce
  qed
qed

lemma encode_decode_points: "decode_points bs = Some t \<Longrightarrow> encode_points t = Some bs"
proof (induction "length bs" arbitrary: bs t rule: less_induct)
  case less
  show ?case
  proof (cases "bs = []")
    case True
    then show ?thesis using less.prems by simp
  next
    case False
    obtain n u rest where s: "t = n # u" "decode_points rest = Some u" "encodable n"
      "bs = encode_point n @ rest" "length rest < length bs"
      using decode_step [OF less.prems False] by blast
    then show ?thesis using less.hyps [OF s(5) s(2)] by simp
  qed
qed

lemma utf8_encode_decode: "utf8_decode bs = Some t \<Longrightarrow> utf8_encode t = Some bs"
  unfolding utf8_encode_def utf8_decode_def
  using encode_decode_points by (fastforce simp: o_def)

lemma utf8_iff: "utf8_decode bs = Some t \<longleftrightarrow> utf8_encode t = Some bs"
  using utf8_decode_encode utf8_encode_decode by blast

section \<open>Lengths\<close>

text \<open>\<open>len(text.encode("utf-8"))\<close>, used where the code predicts an output size.\<close>

definition utf8_length :: "utext \<Rightarrow> nat" where
  "utf8_length t = sum_list (List.map (\<lambda>n. length (encode_point n)) t)"

lemma encode_points_append:
  "encode_points (s @ t) =
     (case encode_points s of None \<Rightarrow> None
      | Some a \<Rightarrow> map_option (\<lambda>b. a @ b) (encode_points t))"
  by (induction s; cases "encode_points t") (auto split: option.splits)

lemma encode_points_length: "encode_points t = Some bs \<Longrightarrow> length bs = utf8_length t"
  by (induction t arbitrary: bs) (auto simp: utf8_length_def split: if_splits)

lemma encode_points_Some: "(\<exists>bs. encode_points t = Some bs) \<longleftrightarrow> (\<forall>n\<in>set t. encodable n)"
  by (induction t) (auto split: if_splits)

lemma utf8_encode_length: "utf8_encode t = Some bs \<Longrightarrow> length bs = utf8_length t"
  by (auto simp: utf8_encode_def dest: encode_points_length)

lemma utf8_encode_Some: "(\<exists>bs. utf8_encode t = Some bs) \<longleftrightarrow> (\<forall>n\<in>set t. encodable n)"
  using encode_points_Some [of t] by (auto simp: utf8_encode_def)

lemma utf8_length_append [simp]: "utf8_length (s @ t) = utf8_length s + utf8_length t"
  by (simp add: utf8_length_def)

lemma utf8_length_Nil [simp]: "utf8_length [] = 0"
  by (simp add: utf8_length_def)

lemma utf8_decode_encodable: "utf8_decode bs = Some t \<Longrightarrow> \<forall>n\<in>set t. encodable n"
  using utf8_encode_decode utf8_encode_Some by blast

end
