(* ===== verification/Plan.thy ===== *)
theory Plan
  imports Paths Text "HOL-Library.AList"
begin

text \<open>
  The mutation-free plan of a workspace change (\<open>workspace_plan.py\<close>): verified snapshots of the
  files it read, the new contents, deletions and directories, the paths it found absent and the
  identities of the directories it relies on; its revalidation against the live workspace before
  a commit; and the bounded one-shot store that hands out references to previewed plans.
  Python dicts are association lists in insertion order, sets are sets.
\<close>

section \<open>Plans\<close>

record file_snapshot =
  snap_path :: string
  snap_data :: bytes
  snap_identity :: path_identity

record workspace_plan =
  tool_name :: string
  snapshots :: "(string \<times> file_snapshot) list"
  absent :: "string set"
  changes :: "(string \<times> bytes) list"
  deletions :: "string set"
  directories :: "string set"
  parents :: "(string \<times> path_identity) list"

definition empty_plan :: "string \<Rightarrow> workspace_plan" where
  "empty_plan name =
     \<lparr>tool_name = name, snapshots = [], absent = {}, changes = [], deletions = {},
      directories = {}, parents = []\<rparr>"

definition keys_of :: "('k \<times> 'v) list \<Rightarrow> 'k set" where
  "keys_of m = set (List.map fst m)"

definition scope :: "workspace_plan \<Rightarrow> string set" where
  "scope p = keys_of (snapshots p) \<union> absent p \<union> keys_of (changes p) \<union> deletions p \<union> directories p"

definition retained_bytes :: "workspace_plan \<Rightarrow> int" where
  "retained_bytes p =
     (\<Sum>(_, s) \<leftarrow> snapshots p. int (length (snap_data s))) + (\<Sum>(_, d) \<leftarrow> changes p. int (length d))"

text \<open>
  \<open>snapshot_file\<close>: the path must pass both the read and the write policy, and its size is compared
  with the limit before any byte is read from the held handle.
\<close>

definition snapshot_file ::
  "os_env \<Rightarrow> workspace \<Rightarrow> int \<Rightarrow> string \<Rightarrow> int \<Rightarrow> file_snapshot res" where
  "snapshot_file os w max_backup_bytes path max_bytes =
     (let limit = min max_bytes max_backup_bytes in
      rbind (resolve_existing os w path False ReadAccess True) (\<lambda>readable.
      rbind (ws_relative os w readable) (\<lambda>canonical.
      rbind (resolve_existing os w canonical False WriteAccess False) (\<lambda>_.
      case ws_identity os readable of
        None \<Rightarrow> Inl (ValueError ''workspace plan file exceeds read/backup byte limit'')
      | Some before \<Rightarrow>
          if limit < file_size before
          then Inl (ValueError ''workspace plan file exceeds read/backup byte limit'')
          else rbind (read_verified_bytes os readable limit) (\<lambda>data.
            if ws_identity os readable \<noteq> Some before \<or> int (length data) \<noteq> file_size before
            then Inl (RuntimeError ''workspace file changed during verified read'')
            else Inr \<lparr>snap_path = canonical, snap_data = data, snap_identity = before\<rparr>)))))"

lemma snapshot_file_Inr:
  assumes "snapshot_file os w mb path limit = Inr s"
  shows "int (length (snap_data s)) \<le> min limit mb
    \<and> file_size (snap_identity s) = int (length (snap_data s))
    \<and> (\<exists>p. resolve_existing os w path False ReadAccess True = Inr p
         \<and> snap_data s = os_read os p \<and> ws_relative os w p = Inr (snap_path s)
         \<and> (\<exists>q. resolve_existing os w (snap_path s) False WriteAccess False = Inr q))"
proof -
  obtain p c q where p: "resolve_existing os w path False ReadAccess True = Inr p"
    and c: "ws_relative os w p = Inr c" and q: "resolve_existing os w c False WriteAccess False = Inr q"
    and body: "(case ws_identity os p of
        None \<Rightarrow> Inl (ValueError ''workspace plan file exceeds read/backup byte limit'')
      | Some before \<Rightarrow>
          if min limit mb < file_size before
          then Inl (ValueError ''workspace plan file exceeds read/backup byte limit'')
          else rbind (read_verified_bytes os p (min limit mb)) (\<lambda>data.
            if ws_identity os p \<noteq> Some before \<or> int (length data) \<noteq> file_size before
            then Inl (RuntimeError ''workspace file changed during verified read'')
            else Inr \<lparr>snap_path = c, snap_data = data, snap_identity = before\<rparr>)) = Inr s"
    using assms unfolding snapshot_file_def Let_def rbind_eq_Inr by blast
  obtain b where b: "ws_identity os p = Some b" using body by (cases "ws_identity os p") auto
  have d: "read_verified_bytes os p (min limit mb) = Inr (os_read os p)"
    using body b by (cases "read_verified_bytes os p (min limit mb)")
      (auto simp: read_verified_bytes_def split: if_splits)
  have s: "s = \<lparr>snap_path = c, snap_data = os_read os p, snap_identity = b\<rparr>"
    and l: "file_size b = int (length (os_read os p))" and m: "file_size b \<le> min limit mb"
    using body b d by (simp_all add: not_less split: if_splits)
  show ?thesis using p c q l m unfolding s by auto
qed

section \<open>Revalidation\<close>

definition native_identity :: "path_identity \<Rightarrow> (int \<times> int) res" where
  "native_identity i =
     (case (windows_volume_serial i, windows_file_index i) of
        (Some v, Some f) \<Rightarrow> Inr (v, f)
      | _ \<Rightarrow> Inl (RuntimeError ''Windows path has no stable transactional identity''))"

definition validate_snapshot ::
  "os_env \<Rightarrow> workspace \<Rightarrow> (bytes \<Rightarrow> string) \<Rightarrow> int \<Rightarrow> string \<times> file_snapshot \<Rightarrow> unit res" where
  "validate_snapshot os w sha mb = (\<lambda>(relative, expected).
     rbind (snapshot_file os w mb relative (int (length (snap_data expected)))) (\<lambda>current.
       if snap_identity current \<noteq> snap_identity expected
          \<or> sha (snap_data current) \<noteq> sha (snap_data expected)
       then Inl (RuntimeError ''workspace plan is stale; file identity or content changed'')
       else Inr ()))"

definition validate_absent :: "os_env \<Rightarrow> workspace \<Rightarrow> string \<Rightarrow> unit res" where
  "validate_absent os w relative =
     rbind (resolve_directory_target os w relative True) (\<lambda>target.
       if os_exists os target
       then Inl (RuntimeError ''workspace plan is stale; destination is no longer absent'')
       else Inr ())"

definition validate_parent :: "os_env \<Rightarrow> workspace \<Rightarrow> string \<times> path_identity \<Rightarrow> unit res" where
  "validate_parent os w = (\<lambda>(relative, expected).
     rbind (resolve_directory os w relative WriteAccess) (\<lambda>parent.
       case ws_identity os parent of
         None \<Rightarrow> Inl (RuntimeError ''workspace plan is stale; parent directory identity changed'')
       | Some current \<Rightarrow>
           rbind (native_identity current) (\<lambda>c.
           rbind (native_identity expected) (\<lambda>e.
             if c \<noteq> e
             then Inl (RuntimeError ''workspace plan is stale; parent directory identity changed'')
             else Inr ()))))"

definition validate_plan ::
  "os_env \<Rightarrow> workspace \<Rightarrow> (bytes \<Rightarrow> string) \<Rightarrow> int \<Rightarrow> workspace_plan \<Rightarrow> unit res" where
  "validate_plan os w sha mb plan =
     rbind (rfold (\<lambda>_. validate_snapshot os w sha mb) () (snapshots plan)) (\<lambda>_.
     rbind (rfold (\<lambda>_. validate_absent os w) () (sorted_list_of_set (absent plan))) (\<lambda>_.
     rfold (\<lambda>_. validate_parent os w) () (parents plan)))"

text \<open>
  \<open>bind_plan_parents\<close>: the existing ancestors of every path of the scope, the nearest first, up to
  and including the workspace root.
\<close>

definition ancestor_chain :: "workspace \<Rightarrow> string \<Rightarrow> path list" where
  "ancestor_chain w relative =
     (let parts = wp_rel (parse_windows_path relative) in
      List.map (\<lambda>k. ws_root w @ take k parts) (rev [0..<length parts]))"

definition bind_parent ::
  "os_env \<Rightarrow> workspace \<Rightarrow> (string \<times> path_identity) list \<Rightarrow> path \<Rightarrow> (string \<times> path_identity) list res" where
  "bind_parent os w bound parent =
     (if os_exists os parent
      then rbind (ws_relative os w parent) (\<lambda>name.
           rbind (resolve_directory os w name WriteAccess) (\<lambda>checked.
           case ws_identity os checked of
             None \<Rightarrow> Inl (RuntimeError ''workspace plan parent disappeared'')
           | Some identity \<Rightarrow> Inr (AList.update name identity bound)))
      else Inr bound)"

definition bind_plan_parents :: "os_env \<Rightarrow> workspace \<Rightarrow> workspace_plan \<Rightarrow> workspace_plan res" where
  "bind_plan_parents os w plan =
     rbind (rfold (bind_parent os w) (parents plan)
             (concat (List.map (ancestor_chain w) (sorted_list_of_set (scope plan)))))
       (\<lambda>bound. Inr (plan\<lparr>parents := bound\<rparr>))"

section \<open>The one-shot plan store\<close>

text \<open>
  \<open>WorkspacePlanStore\<close>: \<open>token \<mapsto> (deadline, plan)\<close>. The clock and the random token are inputs of
  each call; the lock makes the calls sequential.
\<close>

record plan_store =
  store_max_bytes :: int
  store_plans :: "(string \<times> (int \<times> workspace_plan)) list"

definition ttl_seconds :: int where
  "ttl_seconds = 300"

definition max_plans :: nat where
  "max_plans = 4"

definition empty_store :: "int \<Rightarrow> plan_store" where
  "empty_store max_bytes = \<lparr>store_max_bytes = max_bytes, store_plans = []\<rparr>"

definition store_prune :: "int \<Rightarrow> plan_store \<Rightarrow> plan_store" where
  "store_prune now s = s\<lparr>store_plans := List.filter (\<lambda>(_, e, _). now < e) (store_plans s)\<rparr>"

definition store_bytes :: "plan_store \<Rightarrow> int" where
  "store_bytes s = (\<Sum>(_, _, p) \<leftarrow> store_plans s. retained_bytes p)"

definition store_put ::
  "int \<Rightarrow> string \<Rightarrow> workspace_plan \<Rightarrow> plan_store \<Rightarrow> plan_store \<times> string res" where
  "store_put now token plan s0 =
     (let s = store_prune now s0 in
      if max_plans \<le> length (store_plans s)
         \<or> store_max_bytes s < store_bytes s + retained_bytes plan
      then (s, Inl (ValueError ''workspace preview plan capacity exceeded; apply or wait for expiry''))
      else (s\<lparr>store_plans := AList.update token (now + ttl_seconds, plan) (store_plans s)\<rparr>,
            Inr token))"

definition store_take :: "int \<Rightarrow> string \<Rightarrow> plan_store \<Rightarrow> plan_store \<times> workspace_plan res" where
  "store_take now token s0 =
     (let s = store_prune now s0 in
      case map_of (store_plans s) token of
        None \<Rightarrow> (s, Inl (ValueError ''unknown, expired, consumed, or restarted workspace plan''))
      | Some (_, plan) \<Rightarrow>
          (s\<lparr>store_plans := AList.delete token (store_plans s)\<rparr>, Inr plan))"

text \<open>A history of calls on a store: the generic form, and the one of the plan store.\<close>

datatype ('k, 'v) store_call =
    PutCall int 'k 'v   \<comment> \<open>clock, token drawn, value\<close>
  | TakeCall int 'k     \<comment> \<open>clock, token presented\<close>

fun call_time :: "('k, 'v) store_call \<Rightarrow> int" where
  "call_time (PutCall now _ _) = now"
| "call_time (TakeCall now _) = now"

fun puts_token :: "'k \<Rightarrow> ('k, 'v) store_call \<Rightarrow> bool" where
  "puts_token k (PutCall _ k' _) = (k' = k)"
| "puts_token k (TakeCall _ _) = False"

fun call_step ::
  "(int \<Rightarrow> 'k \<Rightarrow> 'v \<Rightarrow> 's \<Rightarrow> 's \<times> 'k res) \<Rightarrow> (int \<Rightarrow> 'k \<Rightarrow> 's \<Rightarrow> 's \<times> 'v res) \<Rightarrow>
   's \<Rightarrow> ('k, 'v) store_call \<Rightarrow> 's" where
  "call_step put_op take_op s (PutCall now k v) = fst (put_op now k v s)"
| "call_step put_op take_op s (TakeCall now k) = fst (take_op now k s)"

definition store_run :: "plan_store \<Rightarrow> (string, workspace_plan) store_call list \<Rightarrow> plan_store" where
  "store_run = foldl (call_step store_put store_take)"

section \<open>Capacity of the store\<close>

definition store_inv :: "plan_store \<Rightarrow> bool" where
  "store_inv s \<longleftrightarrow>
     length (store_plans s) \<le> max_plans \<and> store_bytes s \<le> store_max_bytes s
     \<and> distinct (List.map fst (store_plans s))"

lemma retained_bytes_nonneg: "0 \<le> retained_bytes p"
  by (auto simp: retained_bytes_def intro!: add_nonneg_nonneg sum_list_nonneg)

lemma filter_sum_le:
  fixes f :: "'a \<Rightarrow> int"
  assumes "\<And>x. 0 \<le> f x"
  shows "sum_list (List.map f (List.filter P xs)) \<le> sum_list (List.map f xs)"
  by (induction xs) (auto intro: add_increasing assms)

lemma update_sum_le:
  fixes f :: "'v \<Rightarrow> int"
  assumes "\<And>x. 0 \<le> f x"
  shows "(\<Sum>(_, v) \<leftarrow> AList.update k x m. f v) \<le> (\<Sum>(_, v) \<leftarrow> m. f v) + f x"
  by (induction m) (auto intro: add_increasing assms)

lemma delete_sum_le:
  fixes f :: "'v \<Rightarrow> int"
  assumes "\<And>x. 0 \<le> f x"
  shows "(\<Sum>(_, v) \<leftarrow> AList.delete k m. f v) \<le> (\<Sum>(_, v) \<leftarrow> m. f v)"
  by (induction m) (auto intro: add_increasing assms)

lemma update_length_le: "length (AList.update k x m) \<le> Suc (length m)"
  by (induction m) auto

lemma delete_length_le: "length (AList.delete k m) \<le> length m"
  by (induction m) auto

lemma store_bytes_alt: "store_bytes s = (\<Sum>(_, v) \<leftarrow> store_plans s. retained_bytes (snd v))"
  by (simp add: store_bytes_def case_prod_unfold)

lemma store_prune_inv: "store_inv s \<Longrightarrow> store_inv (store_prune now s)"
proof -
  assume s: "store_inv s"
  have "store_bytes (store_prune now s) \<le> store_bytes s"
    unfolding store_bytes_def store_prune_def
    by (simp, rule filter_sum_le) (auto simp: retained_bytes_nonneg)
  then show ?thesis using s
    by (auto simp: store_inv_def store_prune_def distinct_map_filter
        intro: order_trans [OF length_filter_le])
qed

lemma store_put_inv: "store_inv s \<Longrightarrow> store_inv (fst (store_put now token plan s))"
proof -
  assume "store_inv s"
  then have i: "store_inv (store_prune now s)" by (rule store_prune_inv)
  let ?m = "store_plans (store_prune now s)"
  let ?u = "AList.update token (now + ttl_seconds, plan) ?m"
  have "(\<Sum>(_, v) \<leftarrow> ?u. retained_bytes (snd v))
      \<le> (\<Sum>(_, v) \<leftarrow> ?m. retained_bytes (snd v)) + retained_bytes plan"
    using update_sum_le [of "\<lambda>v. retained_bytes (snd v)" token "(now + ttl_seconds, plan)" ?m]
    by (simp add: retained_bytes_nonneg)
  then show ?thesis using i update_length_le [of token "(now + ttl_seconds, plan)" ?m]
    by (auto simp: store_put_def Let_def store_inv_def store_bytes_alt distinct_update
        intro: order_trans)
qed

lemma store_take_inv: "store_inv s \<Longrightarrow> store_inv (fst (store_take now token s))"
proof -
  assume "store_inv s"
  then have i: "store_inv (store_prune now s)" by (rule store_prune_inv)
  let ?m = "store_plans (store_prune now s)"
  have "(\<Sum>(_, v) \<leftarrow> AList.delete token ?m. retained_bytes (snd v))
      \<le> (\<Sum>(_, v) \<leftarrow> ?m. retained_bytes (snd v))"
    by (rule delete_sum_le) (rule retained_bytes_nonneg)
  then show ?thesis using i delete_length_le [of token ?m]
    by (auto simp: store_take_def Let_def store_inv_def store_bytes_alt distinct_delete
        split: option.splits intro: order_trans)
qed

lemma store_run_inv: "store_inv s \<Longrightarrow> store_inv (store_run s cs)"
proof (induction cs arbitrary: s)
  case Nil
  then show ?case by (simp add: store_run_def)
next
  case (Cons c cs)
  have "store_inv (call_step store_put store_take s c)"
    using Cons.prems by (cases c) (simp_all add: store_put_inv store_take_inv)
  then show ?case using Cons.IH by (simp add: store_run_def)
qed

lemma store_run_max: "store_max_bytes (store_run s cs) = store_max_bytes s"
proof (induction cs arbitrary: s)
  case Nil
  then show ?case by (simp add: store_run_def)
next
  case (Cons c cs)
  have "store_max_bytes (call_step store_put store_take s c) = store_max_bytes s"
    by (cases c) (auto simp: store_put_def store_take_def store_prune_def Let_def
        split: option.splits prod.splits)
  then show ?case using Cons.IH by (simp add: store_run_def)
qed

text \<open>
  However previews and applies interleave, the store never retains more than four plans nor
  more bytes than its configured maximum.
\<close>

theorem plan_store_bounded:
  assumes "0 \<le> max_bytes"
  shows "length (store_plans (store_run (empty_store max_bytes) cs)) \<le> 4 \<and>
    store_bytes (store_run (empty_store max_bytes) cs) \<le> max_bytes"
proof -
  have "store_inv (empty_store max_bytes)"
    using assms by (simp add: store_inv_def empty_store_def store_bytes_def)
  then have "store_inv (store_run (empty_store max_bytes) cs)" by (rule store_run_inv)
  then show ?thesis
    by (simp add: store_inv_def max_plans_def store_run_max) (simp add: empty_store_def)
qed

lemma plan_store_bounded_witness:
  "length (store_plans (store_run (empty_store 10)
      [PutCall 0 ''t1'' (empty_plan ''a''), PutCall 1 ''t2'' (empty_plan ''b'')])) = 2 \<and>
   store_bytes (store_run (empty_store 10)
      [PutCall 0 ''t1'' (empty_plan ''a''), PutCall 1 ''t2'' (empty_plan ''b'')]) \<le> 10"
proof -
  have "length (store_plans (store_run (empty_store 10)
      [PutCall 0 ''t1'' (empty_plan ''a''), PutCall 1 ''t2'' (empty_plan ''b'')])) = 2"
    by code_simp
  then show ?thesis using plan_store_bounded [of 10] by simp
qed

section \<open>One-shot references\<close>

text \<open>
  The contract a caller of the store relies on: \<open>live t s k\<close> is what token \<open>k\<close> still denotes at
  time \<open>t\<close>. A put makes exactly its token denote its value until the time limit, a take answers
  with what the token denotes and ends it, and nothing else changes while the clock advances.
\<close>

locale one_shot_store =
  fixes put_op :: "int \<Rightarrow> 'k \<Rightarrow> 'v \<Rightarrow> 's \<Rightarrow> 's \<times> 'k res"
    and take_op :: "int \<Rightarrow> 'k \<Rightarrow> 's \<Rightarrow> 's \<times> 'v res"
    and live :: "int \<Rightarrow> 's \<Rightarrow> 'k \<Rightarrow> 'v option"
    and invar :: "'s \<Rightarrow> bool"
    and ttl :: int
  assumes invar_put: "invar s \<Longrightarrow> invar (fst (put_op now k v s))"
    and invar_take: "invar s \<Longrightarrow> invar (fst (take_op now k s))"
    and put_other: "invar s \<Longrightarrow> now \<le> t \<Longrightarrow> k' \<noteq> k \<Longrightarrow>
      live t (fst (put_op now k v s)) k' = live t s k'"
    and put_same: "invar s \<Longrightarrow> snd (put_op now k v s) = Inr k' \<Longrightarrow> now \<le> t \<Longrightarrow>
      k' = k \<and> live t (fst (put_op now k v s)) k = (if t < now + ttl then Some v else None)"
    and take_answer: "invar s \<Longrightarrow> snd (take_op now k s) = Inr v \<longleftrightarrow> live now s k = Some v"
    and take_other: "invar s \<Longrightarrow> now \<le> t \<Longrightarrow> k' \<noteq> k \<Longrightarrow>
      live t (fst (take_op now k s)) k' = live t s k'"
    and take_ends: "invar s \<Longrightarrow> now \<le> t \<Longrightarrow> live t (fst (take_op now k s)) k = None"
begin

lemma invar_step: "invar s \<Longrightarrow> invar (call_step put_op take_op s c)"
  by (cases c) (simp_all add: invar_put invar_take)

lemma invar_run: "invar s \<Longrightarrow> invar (foldl (call_step put_op take_op) s cs)"
  by (induction cs arbitrary: s) (simp_all add: invar_step)

lemma step_keeps_dead:
  assumes "invar s" "live t s k = None" "\<not> puts_token k c" "call_time c \<le> t"
  shows "live t (call_step put_op take_op s c) k = None"
proof (cases c)
  case (PutCall now k' v)
  then show ?thesis using assms put_other [of s now t k k'] by simp
next
  case (TakeCall now k')
  then show ?thesis
    using assms take_other [of s now t k k'] take_ends [of s now t k] by (cases "k = k'") simp_all
qed

lemma run_keeps_dead:
  assumes "invar s" "live t s k = None" "\<forall>c\<in>set cs. \<not> puts_token k c \<and> call_time c \<le> t"
  shows "live t (foldl (call_step put_op take_op) s cs) k = None"
  using assms step_keeps_dead invar_step by (induction cs arbitrary: s) auto

text \<open>A token that was presented once is refused ever after, unless it is drawn again.\<close>

lemma taken_once:
  assumes "invar s" "\<forall>c\<in>set cs. \<not> puts_token k c \<and> call_time c \<le> t" "now \<le> t"
  shows "snd (take_op t k (foldl (call_step put_op take_op) (fst (take_op now k s)) cs)) \<noteq> Inr v"
proof -
  let ?s = "fst (take_op now k s)"
  have i: "invar ?s" using assms(1) by (rule invar_take)
  have "live t (foldl (call_step put_op take_op) ?s cs) k = None"
    using i take_ends [OF assms(1,3)] assms(2) by (rule run_keeps_dead)
  then show ?thesis using take_answer [OF invar_run [OF i]] by simp
qed

lemma put_then_take:
  assumes "invar s" "snd (put_op now k v s) = Inr k'" "now \<le> t" "t < now + ttl"
  shows "snd (take_op t k' (fst (put_op now k v s))) = Inr v"
  using put_same [OF assms(1-3)] take_answer [OF invar_put [OF assms(1)]] assms(4) by simp

lemma expired:
  assumes "invar s" "snd (put_op now k v s) = Inr k'" "now + ttl \<le> t" "0 \<le> ttl"
  shows "snd (take_op t k' (fst (put_op now k v s))) \<noteq> Inr v'"
proof -
  have "now \<le> t" using assms(3,4) by simp
  then show ?thesis
    using put_same [OF assms(1,2)] take_answer [OF invar_put [OF assms(1)]] assms(3) by simp
qed

end

definition live_plan :: "int \<Rightarrow> plan_store \<Rightarrow> string \<Rightarrow> workspace_plan option" where
  "live_plan t s k = map_option snd (map_of (List.filter (\<lambda>(_, e, _). t < e) (store_plans s)) k)"

definition distinct_tokens :: "plan_store \<Rightarrow> bool" where
  "distinct_tokens s \<longleftrightarrow> distinct (List.map fst (store_plans s))"

lemma map_of_filter_value:
  "distinct (List.map fst m) \<Longrightarrow> map_of (List.filter (\<lambda>(_, v). P v) m) k =
     (case map_of m k of None \<Rightarrow> None | Some v \<Rightarrow> if P v then Some v else None)"
  by (induction m) (auto split: option.splits simp: map_of_eq_None_iff image_iff)

lemma live_plan_eq:
  "distinct_tokens s \<Longrightarrow> live_plan t s k =
     (case map_of (store_plans s) k of None \<Rightarrow> None
      | Some (e, p) \<Rightarrow> if t < e then Some p else None)"
  using map_of_filter_value [of "store_plans s" "\<lambda>(e, _). t < e" k]
  by (auto simp: live_plan_def distinct_tokens_def split: option.splits)

lemma distinct_tokens_prune: "distinct_tokens s \<Longrightarrow> distinct_tokens (store_prune now s)"
  by (auto simp: distinct_tokens_def store_prune_def distinct_map_filter)

lemma live_plan_prune: "now \<le> t \<Longrightarrow> live_plan t (store_prune now s) k = live_plan t s k"
proof -
  assume "now \<le> t"
  then have "List.filter (\<lambda>(_, e, _). t < e) (List.filter (\<lambda>(_, e, _). now < e) m)
      = List.filter (\<lambda>(_, e, _). t < e) m" for m :: "(string \<times> int \<times> workspace_plan) list"
    by (induction m) auto
  then show ?thesis by (simp add: live_plan_def store_prune_def)
qed

lemma live_plan_updated:
  "distinct_tokens s \<Longrightarrow>
     live_plan t (s\<lparr>store_plans := AList.update k (e, p) (store_plans s)\<rparr>) k' =
     (if k' = k then (if t < e then Some p else None) else live_plan t s k')"
  by (auto simp: live_plan_eq distinct_tokens_def distinct_update update_conv'
      split: option.splits)

lemma live_plan_deleted:
  "distinct_tokens s \<Longrightarrow>
     live_plan t (s\<lparr>store_plans := AList.delete k (store_plans s)\<rparr>) k' =
     (if k' = k then None else live_plan t s k')"
  by (auto simp: live_plan_eq distinct_tokens_def distinct_delete delete_conv'
      split: option.splits)

interpretation plans: one_shot_store store_put store_take live_plan distinct_tokens ttl_seconds
proof (unfold_locales, goal_cases)
  case (1 s now k v)
  then show ?case using distinct_tokens_prune [of s now]
    by (auto simp: store_put_def Let_def distinct_tokens_def distinct_update)
next
  case (2 s now k)
  then show ?case using distinct_tokens_prune [of s now]
    by (auto simp: store_take_def Let_def distinct_tokens_def distinct_delete split: option.splits)
next
  case (3 s now t k' k v)
  then show ?case using distinct_tokens_prune [of s now]
    by (simp add: store_put_def Let_def live_plan_updated live_plan_prune)
next
  case (4 s now k v k' t)
  then show ?case using distinct_tokens_prune [of s now]
    by (auto simp: store_put_def Let_def live_plan_updated split: if_splits)
next
  case (5 s now k v)
  then have "distinct_tokens (store_prune now s)" by (intro distinct_tokens_prune)
  moreover have "map_of (store_plans (store_prune now s)) k = Some (e, p) \<Longrightarrow> now < e" for e p
    by (auto simp: store_prune_def dest: map_of_SomeD)
  ultimately show ?case
    using live_plan_prune [of now now s k]
    by (auto simp: store_take_def Let_def live_plan_eq split: option.splits)
next
  case (6 s now t k' k)
  then show ?case using distinct_tokens_prune [of s now]
    by (auto simp: store_take_def Let_def live_plan_deleted live_plan_prune split: option.splits)
next
  case (7 s now t k)
  then show ?case using distinct_tokens_prune [of s now]
    by (auto simp: store_take_def Let_def live_plan_deleted live_plan_eq split: option.splits)
qed

lemma store_inv_distinct: "store_inv s \<Longrightarrow> distinct_tokens s"
  by (simp add: store_inv_def distinct_tokens_def)



end
