(* ===== verification/Traversal.thy ===== *)
theory Traversal
  imports Plan "HOL-Library.Product_Lexorder"
begin

text \<open>
  The bounded breadth-first traversal of \<open>high_level_read.py\<close>: the request limits, file name
  globs (\<open>fnmatch.fnmatchcase\<close>), the classification of directory entries, and the loop over the
  queue of pending directories, which \<open>workspace_tree\<close> and the replacement planner share.
\<close>

section \<open>Limits of a request\<close>

text \<open>The integer fields of \<open>Settings\<close> the high-level reads use; \<open>Missing\<close> takes the default.\<close>

record read_settings =
  max_workspace_tree_depth :: "int pyval"
  max_directory_entries :: "int pyval"
  max_high_level_files :: "int pyval"
  max_high_level_total_bytes :: "int pyval"
  max_text_file_bytes :: "int pyval"
  max_write_bytes :: "int pyval"
  max_workspace_search_results :: "int pyval"
  max_backup_bytes :: int

definition setting_value :: "int pyval \<Rightarrow> int \<Rightarrow> int res" where
  "setting_value v dflt =
     (case v of
        Missing \<Rightarrow> (if dflt < 1 then Inl (ValueError ''setting must be a positive integer'') else Inr dflt)
      | BadType \<Rightarrow> Inl (ValueError ''setting must be a positive integer'')
      | Py n \<Rightarrow> (if n < 1 then Inl (ValueError ''setting must be a positive integer'') else Inr n))"

text \<open>A request value: \<open>Missing\<close> is \<open>None\<close>, which takes the default.\<close>

definition request_limit :: "int pyval \<Rightarrow> int \<Rightarrow> int \<Rightarrow> bool \<Rightarrow> int res" where
  "request_limit value dflt maximum allow_zero =
     (case (case value of Missing \<Rightarrow> Py dflt | v \<Rightarrow> v) of
        Py limit \<Rightarrow>
          if limit < (if allow_zero then 0 else 1)
          then Inl (ValueError ''limit must be at least the minimum'')
          else if maximum < limit then Inl (ValueError ''limit exceeds the configured bound'')
          else Inr limit
      | _ \<Rightarrow> Inl (TypeError ''limit must be an integer''))"

definition directory_entry_limit :: "read_settings \<Rightarrow> int pyval \<Rightarrow> int res" where
  "directory_entry_limit st requested =
     rbind (setting_value (max_directory_entries st) 3000)
       (\<lambda>configured. request_limit requested configured configured False)"

definition file_byte_limit :: "read_settings \<Rightarrow> int res" where
  "file_byte_limit st = setting_value (max_text_file_bytes st) (2 * 1024 * 1024)"

definition default_read_files :: int where
  "default_read_files = 32"

definition request_file_limit :: "read_settings \<Rightarrow> int pyval \<Rightarrow> int res" where
  "request_file_limit st requested =
     rbind (setting_value (max_high_level_files st) 64)
       (\<lambda>configured. request_limit requested (min default_read_files configured) configured False)"

definition request_total_byte_limit :: "read_settings \<Rightarrow> int pyval \<Rightarrow> int \<Rightarrow> int res" where
  "request_total_byte_limit st requested max_files =
     rbind (file_byte_limit st) (\<lambda>per_file.
     rbind (setting_value (max_high_level_total_bytes st) (16 * 1024 * 1024)) (\<lambda>total.
       let aggregate = min (per_file * max_files) total in
       request_limit requested aggregate aggregate True))"

definition validate_depth :: "read_settings \<Rightarrow> int pyval \<Rightarrow> int \<Rightarrow> int res" where
  "validate_depth st value dflt =
     rbind (setting_value (max_workspace_tree_depth st) 8)
       (\<lambda>configured. request_limit value (min dflt configured) configured True)"

lemma request_limit_Inr: "request_limit v d m z = Inr n \<Longrightarrow> (if z then 0 else 1) \<le> n \<and> n \<le> m"
  by (auto simp: request_limit_def split: pyval.splits if_splits)

section \<open>File name globs\<close>

definition validate_file_glob :: "string pyval \<Rightarrow> string option res" where
  "validate_file_glob g =
     (case g of
        Missing \<Rightarrow> Inr None
      | BadType \<Rightarrow> Inl (ValueError ''file_glob must be a non-empty string without NUL'')
      | Py p \<Rightarrow>
          if p = [] \<or> nul_char \<in> set p
          then Inl (ValueError ''file_glob must be a non-empty string without NUL'')
          else if CHR ''/'' \<in> set p \<or> backslash \<in> set p
          then Inl (ValueError ''file_glob must match a file name, not a path'')
          else Inr (Some p))"

text \<open>The members of a bracket expression: single characters and ranges, left to right.\<close>

fun class_match :: "char \<Rightarrow> string \<Rightarrow> bool" where
  "class_match x [] = False"
| "class_match x [c] = (c = x)"
| "class_match x [c, h] = (c = x \<or> h = x)"
| "class_match x (c # h # d # rest) =
     (if h = CHR ''-'' then char_between c d x \<or> class_match x rest
      else c = x \<or> class_match x (h # d # rest))"

definition bracket_match :: "char \<Rightarrow> string \<Rightarrow> bool" where
  "bracket_match x stuff =
     (if starts_with ''!'' stuff then \<not> class_match x (tl stuff) else class_match x stuff)"

text \<open>The text up to the closing bracket, which may not be the first member, and the rest.\<close>

definition close_bracket :: "string \<Rightarrow> (string \<times> string) option" where
  "close_bracket ps =
     (let k = (if starts_with ''!'' ps then 1 else 0);
          k2 = (if starts_with '']'' (drop k ps) then k + 1 else k)
      in map_option (\<lambda>(a, b). (take k2 ps @ a, b)) (split_at (CHR '']'') (drop k2 ps)))"

lemma close_bracket_length: "close_bracket ps = Some (a, b) \<Longrightarrow> length b < length ps"
proof -
  assume "close_bracket ps = Some (a, b)"
  then obtain k where "map_option (\<lambda>(x, y). (take k ps @ x, y)) (split_at (CHR '']'') (drop k ps))
      = Some (a, b)"
    unfolding close_bracket_def Let_def by blast
  then obtain c where "split_at (CHR '']'') (drop k ps) = Some (c, b)" by auto
  then have "drop k ps = c @ CHR '']'' # b" using split_at_Some by metis
  then have "length (drop k ps) = length c + Suc (length b)" by simp
  then show ?thesis by simp
qed

text \<open>\<open>fnmatch.fnmatchcase(name, pattern)\<close>, the pattern first.\<close>

function fnmatchcase :: "string \<Rightarrow> string \<Rightarrow> bool" where
  "fnmatchcase [] n = (n = [])"
| "fnmatchcase (p # ps) n =
     (if p = CHR ''*''
      then fnmatchcase ps n \<or> (case n of [] \<Rightarrow> False | _ # xs \<Rightarrow> fnmatchcase (p # ps) xs)
      else (case n of
        [] \<Rightarrow> False
      | x # xs \<Rightarrow>
          if p = CHR ''?'' then fnmatchcase ps xs
          else if p = CHR ''['' then
            (case close_bracket ps of
               None \<Rightarrow> x = p \<and> fnmatchcase ps xs
             | Some (stuff, rest) \<Rightarrow> bracket_match x stuff \<and> fnmatchcase rest xs)
          else x = p \<and> fnmatchcase ps xs))"
  by pat_completeness auto
termination
  by (relation "measure (\<lambda>(p, n). length p + length n)") (auto dest: close_bracket_length)

definition matches_glob :: "(string \<Rightarrow> string) \<Rightarrow> string \<Rightarrow> string \<Rightarrow> bool \<Rightarrow> bool" where
  "matches_glob cf name pattern case_sensitive =
     (if case_sensitive then fnmatchcase pattern name
      else fnmatchcase (cf pattern) (cf name))"

section \<open>Directory entries\<close>

text \<open>What a no-follow \<open>stat\<close> says of an entry that \<open>os.scandir\<close> listed.\<close>

datatype entry_stat = StatVanished | StatReparse | StatDirectory | StatFile | StatOther

record dir_entry =
  entry_name :: string
  entry_stat :: entry_stat

datatype entry_kind = KindDirectory | KindFile

definition classify_entry :: "dir_entry \<Rightarrow> entry_kind res" where
  "classify_entry e =
     (case entry_stat e of
        StatVanished \<Rightarrow> Inl (RuntimeError ''workspace entry disappeared during traversal'')
      | StatReparse \<Rightarrow> Inl (PermissionError ''workspace reparse point is denied'')
      | StatDirectory \<Rightarrow> Inr KindDirectory
      | StatFile \<Rightarrow> Inr KindFile
      | StatOther \<Rightarrow> Inl (PermissionError ''workspace entry is not a regular file or directory''))"

definition entry_limit_exceeded :: error where
  "entry_limit_exceeded =
     ValueError ''workspace entry limit exceeded; increase max_entries or narrow path/max_depth''"

definition bounded_entries ::
  "(string \<Rightarrow> string) \<Rightarrow> (path \<Rightarrow> dir_entry list) \<Rightarrow> path \<Rightarrow> int \<Rightarrow> dir_entry list res" where
  "bounded_entries cf scan directory remaining =
     (if remaining < 0 then Inl entry_limit_exceeded
      else
        let entries = take (nat (remaining + 1)) (scan directory) in
        if remaining < int (length entries) then Inl entry_limit_exceeded
        else Inr (sort_key (\<lambda>e. cf (entry_name e)) entries))"

lemma bounded_entries_length:
  "bounded_entries cf scan d r = Inr cs \<Longrightarrow> int (length cs) \<le> r"
  by (auto simp: bounded_entries_def Let_def split: if_splits)

section \<open>The traversal loop\<close>

text \<open>
  A visit of one child gets the directory, the child's depth and the accumulated result, and may
  queue one directory. \<open>name_order\<close> is the additional sort by name of the replacement planner.
\<close>

type_synonym 's visit = "path \<Rightarrow> int \<Rightarrow> 's \<Rightarrow> dir_entry \<Rightarrow> ('s \<times> path option) res"

fun visit_children ::
  "'s visit \<Rightarrow> path \<Rightarrow> int \<Rightarrow> dir_entry list \<Rightarrow> (path \<times> int) list \<Rightarrow> 's \<Rightarrow>
   ((path \<times> int) list \<times> 's) res" where
  "visit_children visit dir depth [] pending acc = Inr (pending, acc)"
| "visit_children visit dir depth (c # cs) pending acc =
     rbind (visit dir depth acc c) (\<lambda>(acc', queued).
       visit_children visit dir depth cs
         (case queued of None \<Rightarrow> pending | Some d \<Rightarrow> pending @ [(d, depth)]) acc')"

lemma visit_children_length:
  "visit_children visit dir depth cs pending acc = Inr (pending', acc') \<Longrightarrow>
     length pending' \<le> length pending + length cs"
proof (induction cs arbitrary: pending acc)
  case Nil
  then show ?case by simp
next
  case (Cons c cs)
  then obtain a q where v: "visit_children visit dir depth cs
      (case q of None \<Rightarrow> pending | Some d \<Rightarrow> pending @ [(d, depth)]) a = Inr (pending', acc')"
    by (auto simp: rbind_eq_Inr split: prod.splits)
  show ?case using Cons.IH [OF v] by (cases q) auto
qed

definition order_children ::
  "(string \<Rightarrow> string) \<Rightarrow> bool \<Rightarrow> dir_entry list \<Rightarrow> dir_entry list" where
  "order_children cf name_order cs =
     (if name_order then sort_key (\<lambda>e. (cf (entry_name e), entry_name e)) cs else cs)"

lemma order_children_set [simp]: "length (order_children cf b cs) = length cs"
  "set (order_children cf b cs) = set cs"
  by (simp_all add: order_children_def)

function (sequential) traverse ::
  "(string \<Rightarrow> string) \<Rightarrow> (path \<Rightarrow> dir_entry list) \<Rightarrow> bool \<Rightarrow> 's visit \<Rightarrow> int \<Rightarrow> int \<Rightarrow>
   (path \<times> int) list \<Rightarrow> int \<Rightarrow> 's \<Rightarrow> (int \<times> 's) res" where
  "traverse cf scan by_name visit depth_limit entry_limit [] scanned acc = Inr (scanned, acc)"
| "traverse cf scan by_name visit depth_limit entry_limit ((dir, depth) # rest) scanned acc =
     (if depth_limit \<le> depth
      then traverse cf scan by_name visit depth_limit entry_limit rest scanned acc
      else
        rbind (bounded_entries cf scan dir (entry_limit - scanned)) (\<lambda>children.
        rbind (visit_children visit dir (depth + 1) (order_children cf by_name children) rest acc)
          (\<lambda>(pending, acc').
             traverse cf scan by_name visit depth_limit entry_limit pending
               (scanned + int (length children)) acc')))"
  by pat_completeness auto
termination
proof (relation "measure (\<lambda>(cf, scan, b, visit, dl, el, pending, scanned, acc).
    nat (el - scanned) + length pending)", goal_cases)
  case 1
  show ?case by simp
next
  case (2 cf scan by_name visit depth_limit entry_limit dir depth rest scanned acc)
  then show ?case by simp
next
  case (3 cf scan by_name visit depth_limit entry_limit dir depth rest scanned acc cs r pend acc')
  have "int (length cs) \<le> entry_limit - scanned" using 3(2) by (rule bounded_entries_length)
  moreover have "length pend \<le> length rest + length cs"
    using visit_children_length 3(3,4) by fastforce
  ultimately show ?case by simp
qed

text \<open>
  The loop is bounded: it inspects at most as many entries as the limit allows, and an invariant of
  the accumulated result that every visit keeps, at a depth from one up to the limit, holds at the
  end.
\<close>

lemma visit_children_invariant:
  assumes "\<And>acc c acc' q. P acc \<Longrightarrow> c \<in> set cs \<Longrightarrow> visit dir depth acc c = Inr (acc', q) \<Longrightarrow> P acc'"
    and "visit_children visit dir depth cs pending acc = Inr (pending', acc')" and "P acc"
  shows "P acc' \<and> (\<forall>(d, k)\<in>set pending'. (d, k) \<in> set pending \<or> k = depth)"
  using assms
proof (induction cs arbitrary: pending acc)
  case Nil
  then show ?case by auto
next
  case (Cons c cs)
  from Cons.prems(2) obtain a q where s: "visit dir depth acc c = Inr (a, q)"
    and v: "visit_children visit dir depth cs
      (case q of None \<Rightarrow> pending | Some d \<Rightarrow> pending @ [(d, depth)]) a = Inr (pending', acc')"
    by (auto simp: rbind_eq_Inr split: prod.splits)
  have a: "P a" by (rule Cons.prems(1) [OF Cons.prems(3) _ s]) simp
  have "P acc' \<and> (\<forall>(d, k)\<in>set pending'.
      (d, k) \<in> set (case q of None \<Rightarrow> pending | Some d \<Rightarrow> pending @ [(d, depth)]) \<or> k = depth)"
    by (rule Cons.IH [OF _ v a], rule Cons.prems(1)) simp_all
  then show ?case by (cases q) auto
qed

lemma traverse_invariant:
  assumes "\<And>dir depth acc c acc' q. P acc \<Longrightarrow> 1 \<le> depth \<Longrightarrow> depth \<le> depth_limit \<Longrightarrow>
      visit dir depth acc c = Inr (acc', q) \<Longrightarrow> P acc'"
    and "traverse cf scan b visit depth_limit entry_limit pending scanned acc = Inr (n, out)"
    and "P acc" and "\<forall>(d, k)\<in>set pending. 0 \<le> k" and "scanned \<le> entry_limit"
  shows "P out \<and> scanned \<le> n \<and> n \<le> entry_limit"
  using assms
proof (induction cf scan b visit depth_limit entry_limit pending scanned acc rule: traverse.induct)
  case (1 cf scan b visit dl el scanned acc)
  then show ?case by simp
next
  case (2 cf scan b visit dl el dir depth rest scanned acc)
  show ?case
  proof (cases "dl \<le> depth")
    case True
    have "traverse cf scan b visit dl el rest scanned acc = Inr (n, out)"
      using "2.prems"(2) True by simp
    moreover have "\<forall>(d, k)\<in>set rest. 0 \<le> k" using "2.prems"(4) by simp
    ultimately show ?thesis
      by (intro "2.IH"(1) [OF True]) (use "2.prems"(1,3,5) in blast)+
  next
    case False
    from "2.prems"(2) False obtain cs pend a where
        cs: "bounded_entries cf scan dir (el - scanned) = Inr cs"
      and v: "visit_children visit dir (depth + 1) (order_children cf b cs) rest acc = Inr (pend, a)"
      and t: "traverse cf scan b visit dl el pend (scanned + int (length cs)) a = Inr (n, out)"
      by (auto simp: rbind_eq_Inr split: prod.splits)
    have d: "1 \<le> depth + 1" "depth + 1 \<le> dl" using "2.prems"(4) False by auto
    have vi: "P a \<and> (\<forall>(d, k)\<in>set pend. (d, k) \<in> set rest \<or> k = depth + 1)"
      by (rule visit_children_invariant [where P = P, OF _ v "2.prems"(3)])
        (rule "2.prems"(1) [OF _ d])
    then have "\<forall>(d, k)\<in>set pend. 0 \<le> k" using "2.prems"(4) d by auto
    moreover have "scanned + int (length cs) \<le> el" using bounded_entries_length [OF cs] by simp
    ultimately have "P out \<and> scanned + int (length cs) \<le> n \<and> n \<le> el"
      by (intro "2.IH"(2) [OF False cs v refl _ t]) (use "2.prems"(1) vi in blast)+
    then show ?thesis by auto
  qed
qed

text \<open>
  The loop is complete: it queues every directory that the visits lead to, and a fact that every
  visit establishes for its child and that later visits keep holds at the end of every child of
  every directory reached above the depth limit.
\<close>

inductive reached ::
  "(path \<Rightarrow> dir_entry list) \<Rightarrow> (path \<Rightarrow> int \<Rightarrow> dir_entry \<Rightarrow> path option) \<Rightarrow> int \<Rightarrow>
   (path \<times> int) list \<Rightarrow> path \<Rightarrow> int \<Rightarrow> bool"
  for scan leads limit pending where
  start: "(d, k) \<in> set pending \<Longrightarrow> reached scan leads limit pending d k"
| descend: "reached scan leads limit pending d k \<Longrightarrow> k < limit \<Longrightarrow> c \<in> set (scan d) \<Longrightarrow>
     leads d (k + 1) c = Some d' \<Longrightarrow> reached scan leads limit pending d' (k + 1)"

lemma bounded_entries_set:
  "bounded_entries cf scan d r = Inr cs \<Longrightarrow> set cs = set (scan d)"
  by (auto simp: bounded_entries_def Let_def split: if_splits)

lemma visit_children_pending:
  assumes "\<And>acc c acc' q. visit dir depth acc c = Inr (acc', q) \<Longrightarrow> q = leads dir depth c"
    and "visit_children visit dir depth cs pending acc = Inr (pending', acc')"
  shows "set pending' = set pending \<union> {(d, depth) | d. \<exists>c\<in>set cs. leads dir depth c = Some d}"
  using assms(2)
proof (induction cs arbitrary: pending acc)
  case Nil
  then show ?case by simp
next
  case (Cons c cs)
  from Cons.prems obtain a q where s: "visit dir depth acc c = Inr (a, q)"
    and v: "visit_children visit dir depth cs
      (case q of None \<Rightarrow> pending | Some d \<Rightarrow> pending @ [(d, depth)]) a = Inr (pending', acc')"
    by (auto simp: rbind_eq_Inr split: prod.splits)
  show ?case using Cons.IH [OF v] unfolding assms(1) [OF s] by (cases "leads dir depth c") auto
qed

lemma visit_children_done:
  assumes "\<And>acc c acc' q. visit dir depth acc c = Inr (acc', q) \<Longrightarrow> D acc' dir c"
    and "\<And>acc c acc' q d b. visit dir depth acc c = Inr (acc', q) \<Longrightarrow> D acc d b \<Longrightarrow> D acc' d b"
    and "visit_children visit dir depth cs pending acc = Inr (pending', acc')"
  shows "(\<forall>c\<in>set cs. D acc' dir c) \<and> (\<forall>d b. D acc d b \<longrightarrow> D acc' d b)"
  using assms(3)
proof (induction cs arbitrary: pending acc)
  case Nil
  then show ?case by simp
next
  case (Cons c cs)
  from Cons.prems obtain a q where s: "visit dir depth acc c = Inr (a, q)"
    and v: "visit_children visit dir depth cs
      (case q of None \<Rightarrow> pending | Some d \<Rightarrow> pending @ [(d, depth)]) a = Inr (pending', acc')"
    by (auto simp: rbind_eq_Inr split: prod.splits)
  show ?case using Cons.IH [OF v] assms(1) [OF s] assms(2) [OF s] by auto
qed

lemma reached_processed:
  assumes "reached scan leads limit ((dir, depth) # rest) d k"
    and "set pend \<supseteq> set rest"
    and "\<And>c d. depth < limit \<Longrightarrow> c \<in> set (scan dir) \<Longrightarrow> leads dir (depth + 1) c = Some d
      \<Longrightarrow> (d, depth + 1) \<in> set pend"
  shows "(d, k) = (dir, depth) \<or> reached scan leads limit pend d k"
  using assms(1)
proof induction
  case (start d k)
  then show ?case using assms(2) by (auto intro: reached.start)
next
  case (descend d k c d')
  then show ?case using assms(3) by (auto intro: reached.intros)
qed

lemma traverse_covers:
  assumes "\<And>dir depth acc c acc' q. visit dir depth acc c = Inr (acc', q) \<Longrightarrow> q = leads dir depth c"
    and "\<And>dir depth acc c acc' q. visit dir depth acc c = Inr (acc', q) \<Longrightarrow> D acc' dir c"
    and "\<And>dir depth acc c acc' q d b. visit dir depth acc c = Inr (acc', q) \<Longrightarrow> D acc d b \<Longrightarrow> D acc' d b"
    and "traverse cf scan b visit limit entry_limit pending scanned acc = Inr (n, out)"
  shows "(\<forall>d c. D acc d c \<longrightarrow> D out d c)
    \<and> (\<forall>d k c. reached scan leads limit pending d k \<longrightarrow> k < limit \<longrightarrow> c \<in> set (scan d) \<longrightarrow> D out d c)"
  using assms
proof (induction cf scan b visit limit entry_limit pending scanned acc rule: traverse.induct)
  case (1 cf scan b visit limit el scanned acc)
  have "\<not> reached scan leads limit [] d k" for d k
  proof
    assume "reached scan leads limit [] d k"
    then show False by induction auto
  qed
  then show ?case using "1.prems"(4) by simp
next
  case (2 cf scan b visit limit el dir depth rest scanned acc)
  show ?case
  proof (cases "limit \<le> depth")
    case True
    have t: "traverse cf scan b visit limit el rest scanned acc = Inr (n, out)"
      using "2.prems"(4) True by simp
    have ih: "(\<forall>d c. D acc d c \<longrightarrow> D out d c)
      \<and> (\<forall>d k c. reached scan leads limit rest d k \<longrightarrow> k < limit \<longrightarrow> c \<in> set (scan d) \<longrightarrow> D out d c)"
      by (rule "2.IH"(1) [OF True "2.prems"(1-3) t])
    have "(d, k) = (dir, depth) \<or> reached scan leads limit rest d k"
      if r: "reached scan leads limit ((dir, depth) # rest) d k" for d k
      by (rule reached_processed [OF r]) (use True in auto)
    then show ?thesis using ih True by (metis Pair_inject not_less)
  next
    case False
    from "2.prems"(4) False obtain cs pend a where
        cs: "bounded_entries cf scan dir (el - scanned) = Inr cs"
      and v: "visit_children visit dir (depth + 1) (order_children cf b cs) rest acc = Inr (pend, a)"
      and t: "traverse cf scan b visit limit el pend (scanned + int (length cs)) a = Inr (n, out)"
      by (auto simp: rbind_eq_Inr split: prod.splits)
    have ih: "(\<forall>d c. D a d c \<longrightarrow> D out d c)
      \<and> (\<forall>d k c. reached scan leads limit pend d k \<longrightarrow> k < limit \<longrightarrow> c \<in> set (scan d) \<longrightarrow> D out d c)"
      by (rule "2.IH"(2) [OF False cs v refl "2.prems"(1-3) t])
    have pend: "set pend = set rest \<union> {(d, depth + 1) | d. \<exists>c\<in>set (scan dir). leads dir (depth + 1) c = Some d}"
      using visit_children_pending [of visit dir "depth + 1" leads, OF "2.prems"(1) v]
        bounded_entries_set [OF cs] by simp
    have dn: "(\<forall>c\<in>set (scan dir). D a dir c) \<and> (\<forall>d b. D acc d b \<longrightarrow> D a d b)"
      using visit_children_done [of visit dir "depth + 1" D, OF "2.prems"(2) "2.prems"(3) v]
        bounded_entries_set [OF cs] by simp
    have "(d, k) = (dir, depth) \<or> reached scan leads limit pend d k"
      if r: "reached scan leads limit ((dir, depth) # rest) d k" for d k
      by (rule reached_processed [OF r]) (use pend in auto)
    then show ?thesis using ih dn by (metis Pair_inject)
  qed
qed

section \<open>The workspace tree\<close>

record tree_entry =
  te_path :: string
  te_name :: string
  te_kind :: entry_kind
  te_depth :: int
  te_size :: "int option"

record tree_result =
  tr_path :: string
  tr_entries :: "tree_entry list"
  tr_scanned :: int
  tr_depth :: int

definition visit_tree_entry ::
  "os_env \<Rightarrow> workspace \<Rightarrow> int \<Rightarrow> tree_entry list visit" where
  "visit_tree_entry os w depth_limit dir depth entries child =
     rbind (classify_entry child) (\<lambda>kind.
     let candidate = dir @ [entry_name child] in
     rbind (ws_relative os w candidate) (\<lambda>relative.
     if is_hidden os w candidate then Inr (entries, None)
     else if kind = KindDirectory
     then rbind (resolve_directory os w relative ReadAccess) (\<lambda>checked.
          if ws_identity os checked = None
          then Inl (RuntimeError ''workspace directory disappeared'')
          else Inr (entries @ [\<lparr>te_path = relative, te_name = entry_name child,
                      te_kind = KindDirectory, te_depth = depth, te_size = None\<rparr>],
                    if depth < depth_limit then Some checked else None))
     else rbind (resolve_existing os w relative False ReadAccess True) (\<lambda>checked.
          case ws_identity os checked of
            None \<Rightarrow> Inl (RuntimeError ''workspace file disappeared'')
          | Some identity \<Rightarrow>
              Inr (entries @ [\<lparr>te_path = relative, te_name = entry_name child, te_kind = KindFile,
                      te_depth = depth, te_size = Some (file_size identity)\<rparr>], None))))"

definition workspace_tree ::
  "os_env \<Rightarrow> workspace \<Rightarrow> (path \<Rightarrow> dir_entry list) \<Rightarrow> read_settings \<Rightarrow> string \<Rightarrow> int pyval \<Rightarrow>
   int pyval \<Rightarrow> tree_result res" where
  "workspace_tree os w scan st path max_depth max_entries =
     rbind (validate_depth st max_depth 3) (\<lambda>depth_limit.
     rbind (directory_entry_limit st max_entries) (\<lambda>entry_limit.
     rbind (resolve_directory os w path ReadAccess) (\<lambda>root.
     rbind (ws_relative os w root) (\<lambda>root_relative.
     rbind (traverse (casefold os) scan False (visit_tree_entry os w depth_limit)
              depth_limit entry_limit [(root, 0)] 0 []) (\<lambda>(visited, entries).
     Inr \<lparr>tr_path = root_relative, tr_entries = entries, tr_scanned = visited,
          tr_depth = depth_limit\<rparr>)))))"

definition sound_tree_entry :: "os_env \<Rightarrow> workspace \<Rightarrow> int \<Rightarrow> tree_entry \<Rightarrow> bool" where
  "sound_tree_entry os w depth_limit e \<longleftrightarrow>
     1 \<le> te_depth e \<and> te_depth e \<le> depth_limit \<and>
     (\<exists>p. allowed os w p ReadAccess \<and>
        (if te_kind e = KindDirectory then os_is_dir os p
         else os_is_file os p \<and> te_size e = Some (file_size (os_identity os p))))"

lemma visit_tree_entry_sound:
  assumes "visit_tree_entry os w dl dir depth entries child = Inr (entries', q)"
    and "1 \<le> depth" "depth \<le> dl" and "\<forall>e\<in>set entries. sound_tree_entry os w dl e"
  shows "\<forall>e\<in>set entries'. sound_tree_entry os w dl e"
proof -
  obtain kind rel where k: "classify_entry child = Inr kind"
    and rel: "ws_relative os w (dir @ [entry_name child]) = Inr rel"
    using assms(1) by (auto simp: visit_tree_entry_def Let_def rbind_eq_Inr)
  show ?thesis
  proof (cases "is_hidden os w (dir @ [entry_name child])")
    case True
    then show ?thesis using assms k rel by (simp add: visit_tree_entry_def)
  next
    case False
    show ?thesis
    proof (cases kind)
      case KindDirectory
      obtain p where p: "resolve_directory os w rel ReadAccess = Inr p"
        and e: "entries' = entries @ [\<lparr>te_path = rel, te_name = entry_name child,
                      te_kind = KindDirectory, te_depth = depth, te_size = None\<rparr>]"
        using assms(1) k rel False KindDirectory
        by (auto simp: visit_tree_entry_def rbind_eq_Inr split: if_splits)
      have "allowed os w p ReadAccess" "os_is_dir os p"
        using p resolve_existing_Inr(2)
        by (auto simp: resolve_directory_def rbind_eq_Inr split: if_splits)
      then have "sound_tree_entry os w dl \<lparr>te_path = rel, te_name = entry_name child,
                      te_kind = KindDirectory, te_depth = depth, te_size = None\<rparr>"
        using assms(2,3) by (auto simp: sound_tree_entry_def)
      then show ?thesis using e assms(4) by simp
    next
      case KindFile
      obtain p i where p: "resolve_existing os w rel False ReadAccess True = Inr p"
        and i: "ws_identity os p = Some i"
        and e: "entries' = entries @ [\<lparr>te_path = rel, te_name = entry_name child,
                      te_kind = KindFile, te_depth = depth, te_size = Some (file_size i)\<rparr>]"
        using assms(1) k rel False KindFile
        by (auto simp: visit_tree_entry_def rbind_eq_Inr split: option.splits)
      have "allowed os w p ReadAccess" "os_is_file os p" "i = os_identity os p"
        using resolve_existing_Inr(2,4) [OF p] i by (auto simp: ws_identity_def split: if_splits)
      then have "sound_tree_entry os w dl \<lparr>te_path = rel, te_name = entry_name child,
                      te_kind = KindFile, te_depth = depth, te_size = Some (file_size i)\<rparr>"
        using assms(2,3) by (auto simp: sound_tree_entry_def)
      then show ?thesis using e assms(4) by simp
    qed
  qed
qed

text \<open>
  A workspace tree inspects at most the configured number of directory entries, reports only
  depths between one and the requested limit, and every entry it reports passed the read policy
  inside the workspace.
\<close>

theorem workspace_tree_confined:
  assumes "workspace_tree os w scan st path max_depth max_entries = Inr r"
    and "setting_value (max_directory_entries st) 3000 = Inr configured"
  shows "0 \<le> tr_scanned r \<and> tr_scanned r \<le> configured \<and>
    (\<forall>e\<in>set (tr_entries r). sound_tree_entry os w (tr_depth r) e)"
proof -
  obtain dl el root rel visited entries where el: "directory_entry_limit st max_entries = Inr el"
    and t: "traverse (casefold os) scan False (visit_tree_entry os w dl) dl el [(root, 0)] 0 []
        = Inr (visited, entries)"
    and r: "r = \<lparr>tr_path = rel, tr_entries = entries, tr_scanned = visited, tr_depth = dl\<rparr>"
    using assms(1) by (auto simp: workspace_tree_def rbind_eq_Inr split: prod.splits)
  have b: "0 \<le> el" "el \<le> configured"
    using el assms(2) request_limit_Inr by (fastforce simp: directory_entry_limit_def rbind_eq_Inr)+
  have "(\<forall>e\<in>set entries. sound_tree_entry os w dl e) \<and> 0 \<le> visited \<and> visited \<le> el"
    by (rule traverse_invariant
          [where P = "\<lambda>es. \<forall>e\<in>set es. sound_tree_entry os w dl e", OF _ t])
      (use visit_tree_entry_sound b(1) in auto)
  then show ?thesis using r b(2) by simp
qed

definition demo_scan :: "path \<Rightarrow> dir_entry list" where
  "demo_scan p =
     (if p = [''C:'', ''ws'']
      then [\<lparr>entry_name = ''src'', entry_stat = StatDirectory\<rparr>,
            \<lparr>entry_name = ''node_modules'', entry_stat = StatDirectory\<rparr>]
      else if p = [''C:'', ''ws'', ''src'']
      then [\<lparr>entry_name = ''a.txt'', entry_stat = StatFile\<rparr>] else [])"

definition demo_read_settings :: read_settings where
  "demo_read_settings =
     \<lparr>max_workspace_tree_depth = Missing, max_directory_entries = Missing,
      max_high_level_files = Missing, max_high_level_total_bytes = Missing,
      max_text_file_bytes = Missing, max_write_bytes = Missing,
      max_workspace_search_results = Missing, max_backup_bytes = 1000\<rparr>"

lemma workspace_tree_confined_witness:
  "\<exists>r. workspace_tree (listed_os demo_tree) demo_workspace demo_scan demo_read_settings ''.''
        (Py 2) Missing = Inr r \<and> List.map te_path (tr_entries r) = [''src'', ''src/a.txt''] \<and>
     tr_scanned r \<le> 3000"
proof -
  let ?r = "workspace_tree (listed_os demo_tree) demo_workspace demo_scan demo_read_settings ''.''
        (Py 2) Missing"
  have h: "(case ?r of Inr r \<Rightarrow> List.map te_path (tr_entries r) = [''src'', ''src/a.txt'']
      | Inl _ \<Rightarrow> False)"
    by code_simp
  then obtain r where r: "?r = Inr r" by (cases ?r) auto
  have "setting_value (max_directory_entries demo_read_settings) 3000 = Inr 3000" by code_simp
  then have "tr_scanned r \<le> 3000" using workspace_tree_confined [OF r] by blast
  then show ?thesis using h r by auto
qed

end
