(* ===== verification/Edits.thy ===== *)
theory Edits
  imports Text "HOL-Library.AList"
begin

text \<open>
  Literal text replacement: the exact edit planner of \<open>high_level_mutation.py\<close>
  (\<open>plan_exact_text_edits\<close>) and the match spans of \<open>workspace_replace.py\<close>
  (\<open>_literal_match_spans\<close>, \<open>_apply_literal_spans\<close>), with the facts the planners rest on: spans are
  disjoint and in order, applying them is a left-to-right replacement, and the size of the encoded
  output is the predicted one.
\<close>

section \<open>Exact edits\<close>

record replacement_request =
  rep_keys :: "string set"
  rep_old :: "utext pyval"
  rep_new :: "utext pyval"

record edit_request =
  edit_keys :: "string set"
  edit_path :: "string pyval"
  edit_expected :: "string pyval"
  edit_replacements :: "replacement_request pyval list pyval"

record text_edit_plan =
  tep_path :: string
  tep_expected :: string
  tep_before :: bytes
  tep_after :: bytes
  tep_count :: nat

record edit_limits =
  lim_files :: int
  lim_read :: int
  lim_write :: int
  lim_total :: int

text \<open>One pass of the inner loop: the single occurrence of \<open>old_text\<close> is replaced.\<close>

definition apply_replacement :: "utext \<Rightarrow> replacement_request pyval \<Rightarrow> utext res" where
  "apply_replacement text r =
     (case r of
        Py rep \<Rightarrow>
          if rep_keys rep \<noteq> {''old_text'', ''new_text''}
          then Inl (ValueError ''replacement requires only old_text and new_text'')
          else (case (rep_old rep, rep_new rep) of
                  (Py old, Py new) \<Rightarrow>
                    if old = [] then Inl (ValueError ''old_text must not be empty'')
                    else if count_sub old text \<noteq> 1
                    then Inl (RuntimeError ''exact replacement is ambiguous or stale; old_text must occur exactly once'')
                    else Inr (replace_first old new text)
                | _ \<Rightarrow> Inl (TypeError ''old_text and new_text must be strings''))
      | _ \<Rightarrow> Inl (TypeError ''each replacement must be an object''))"

text \<open>The state of the loop over the edits: folded paths seen, total bytes and plans built.\<close>

record edit_state =
  es_seen :: "string set"
  es_total :: int
  es_plans :: "text_edit_plan list"

definition plan_one_edit ::
  "(string \<Rightarrow> string) \<Rightarrow> (bytes \<Rightarrow> string) \<Rightarrow> (string \<Rightarrow> bytes res) \<Rightarrow> edit_limits \<Rightarrow>
   edit_state \<Rightarrow> edit_request pyval \<Rightarrow> edit_state res" where
  "plan_one_edit cf sha read_file lim st e =
     (case e of
        Py edit \<Rightarrow>
          if \<not> edit_keys edit \<subseteq> {''path'', ''expected_sha256'', ''replacements''}
          then Inl (ValueError ''unsupported text edit fields'')
          else (case edit_path edit of
            Py path \<Rightarrow>
              if path = [] then Inl (ValueError ''each edit requires a non-empty path'')
              else if cf path \<in> es_seen st
              then Inl (ValueError ''each workspace_apply path must be unique'')
              else (case edit_expected edit of
                Py expected \<Rightarrow>
                  if \<not> is_sha256_hex expected
                  then Inl (ValueError ''expected_sha256 must be a lowercase SHA-256 digest'')
                  else (case edit_replacements edit of
                    Py reps \<Rightarrow>
                      if reps = [] then Inl (ValueError ''each edit requires at least one exact replacement'')
                      else rbind (read_file path) (\<lambda>before.
                        if lim_read lim < int (length before)
                        then Inl (ValueError ''existing file exceeds max_text_file_bytes'')
                        else if sha before \<noteq> expected
                        then Inl (RuntimeError ''expected_sha256 mismatch; target is stale or concurrently modified'')
                        else (case utf8_decode before of
                          None \<Rightarrow> Inl (ValueError ''existing file is not UTF-8 text'')
                        | Some text0 \<Rightarrow>
                            rbind (rfold apply_replacement text0 reps) (\<lambda>text.
                            case utf8_encode text of
                              None \<Rightarrow> Inl (ValueError ''surrogates not allowed'')
                            | Some after \<Rightarrow>
                                if lim_write lim < int (length after)
                                then Inl (ValueError ''edited file exceeds max_write_bytes'')
                                else
                                  let total = es_total st + int (length before) + int (length after) in
                                  if lim_total lim < total
                                  then Inl (ValueError ''text edit request exceeds max_high_level_total_bytes'')
                                  else Inr \<lparr>es_seen = insert (cf path) (es_seen st),
                                            es_total = total,
                                            es_plans = es_plans st @
                                              [\<lparr>tep_path = path, tep_expected = expected,
                                                tep_before = before, tep_after = after,
                                                tep_count = length reps\<rparr>]\<rparr>)))
                  | _ \<Rightarrow> Inl (ValueError ''each edit requires at least one exact replacement''))
              | _ \<Rightarrow> Inl (ValueError ''expected_sha256 must be a lowercase SHA-256 digest''))
          | _ \<Rightarrow> Inl (ValueError ''each edit requires a non-empty path''))
      | _ \<Rightarrow> Inl (TypeError ''each edit must be an object''))"

definition plan_exact_text_edits ::
  "(string \<Rightarrow> string) \<Rightarrow> (bytes \<Rightarrow> string) \<Rightarrow> (string \<Rightarrow> bytes res) \<Rightarrow> edit_limits \<Rightarrow>
   edit_request pyval list pyval \<Rightarrow> text_edit_plan list res" where
  "plan_exact_text_edits cf sha read_file lim edits =
     (case edits of
        Py es \<Rightarrow>
          if es = [] then Inl (ValueError ''edits must contain at least one text edit'')
          else if lim_files lim < int (length es)
          then Inl (ValueError ''edit file count exceeds max_high_level_files'')
          else rbind (rfold (plan_one_edit cf sha read_file lim)
                        \<lparr>es_seen = {}, es_total = 0, es_plans = []\<rparr> es)
                 (\<lambda>st. Inr (es_plans st))
      | _ \<Rightarrow> Inl (ValueError ''edits must contain at least one text edit''))"

section \<open>What a planned edit does\<close>

text \<open>
  The meaning of a list of exact replacements: each one finds its old text once (counting
  non-overlapping occurrences from the left, as the code does) and exchanges that occurrence.
\<close>

inductive edited_by :: "replacement_request pyval list \<Rightarrow> utext \<Rightarrow> utext \<Rightarrow> bool" where
  edited_nil: "edited_by [] t t"
| edited_step: "rep_old rep = Py old \<Longrightarrow> rep_new rep = Py new \<Longrightarrow> old \<noteq> [] \<Longrightarrow>
     count_sub old (a @ old @ b) = 1 \<Longrightarrow> edited_by reps (a @ new @ b) u \<Longrightarrow>
     edited_by (Py rep # reps) (a @ old @ b) u"

lemma count_sub_one:
  assumes "old \<noteq> []" "count_sub old src = 1"
  shows "\<exists>a b. src = a @ old @ b \<and> (\<forall>new. replace_first old new src = a @ new @ b)"
proof -
  obtain i where i: "find_sub old src = Some i"
    using assms count_sub_pos [of old src] by (auto simp: contains_sub_def)
  have "starts_with old (drop i src)" using find_sub_Some [OF i] by blast
  then obtain b where b: "drop i src = old @ b" by (auto simp: starts_with_iff)
  have "src = take i src @ old @ b" by (metis append_take_drop_id b)
  moreover have "drop (i + length old) src = b"
    by (metis b add.commute append_eq_conv_conj drop_drop)
  ultimately show ?thesis using i
    by (intro exI [of _ "take i src"] exI [of _ b]) (simp add: replace_first_def)
qed

lemma apply_replacement_Inr:
  assumes "apply_replacement src r = Inr src'"
  shows "\<exists>rep old new a b. r = Py rep \<and> rep_old rep = Py old \<and> rep_new rep = Py new \<and> old \<noteq> []
     \<and> src = a @ old @ b \<and> src' = a @ new @ b \<and> count_sub old (a @ old @ b) = 1"
proof -
  obtain rep old new where r: "r = Py rep" "rep_old rep = Py old" "rep_new rep = Py new" "old \<noteq> []"
    and c: "count_sub old src = 1" and t: "src' = replace_first old new src"
    using assms by (auto simp: apply_replacement_def split: pyval.splits if_splits)
  show ?thesis using count_sub_one [OF r(4) c] r c t by metis
qed

lemma rfold_replacements_edited:
  "rfold apply_replacement src reps = Inr src' \<Longrightarrow> edited_by reps src src'"
proof (induction reps arbitrary: src)
  case Nil
  then show ?case by (simp add: edited_nil)
next
  case (Cons r reps)
  then obtain t where t: "apply_replacement src r = Inr t" "rfold apply_replacement t reps = Inr src'"
    by (auto simp: rbind_eq_Inr)
  from apply_replacement_Inr [OF t(1)] Cons.IH [OF t(2)] show ?case
    by (auto intro: edited_step)
qed

definition sound_edit ::
  "(bytes \<Rightarrow> string) \<Rightarrow> (string \<Rightarrow> bytes res) \<Rightarrow> edit_limits \<Rightarrow> edit_request pyval \<Rightarrow> text_edit_plan \<Rightarrow> bool" where
  "sound_edit sha read_file lim e p \<longleftrightarrow>
     (\<exists>edit reps t u. e = Py edit \<and> edit_path edit = Py (tep_path p)
        \<and> edit_expected edit = Py (tep_expected p) \<and> edit_replacements edit = Py reps
        \<and> read_file (tep_path p) = Inr (tep_before p) \<and> sha (tep_before p) = tep_expected p
        \<and> utf8_decode (tep_before p) = Some t \<and> edited_by reps t u \<and> utf8_encode u = Some (tep_after p)
        \<and> int (length (tep_after p)) \<le> lim_write lim)"

lemma plan_one_edit_Inr:
  assumes "plan_one_edit cf sha read_file lim st e = Inr st'"
  shows "\<exists>p. es_plans st' = es_plans st @ [p] \<and> sound_edit sha read_file lim e p
     \<and> cf (tep_path p) \<notin> es_seen st \<and> es_seen st' = insert (cf (tep_path p)) (es_seen st)
     \<and> es_total st' = es_total st + int (length (tep_before p)) + int (length (tep_after p))
     \<and> es_total st' \<le> lim_total lim"
proof -
  obtain edit where e: "e = Py edit"
    using assms by (cases e) (auto simp: plan_one_edit_def)
  obtain path where path: "edit_path edit = Py path"
    using assms e by (cases "edit_path edit") (auto simp: plan_one_edit_def split: if_splits)
  obtain ex where ex: "edit_expected edit = Py ex"
    using assms e path by (cases "edit_expected edit") (auto simp: plan_one_edit_def split: if_splits)
  obtain reps where reps: "edit_replacements edit = Py reps"
    using assms e path ex
    by (cases "edit_replacements edit") (auto simp: plan_one_edit_def split: if_splits)
  obtain before where before: "read_file path = Inr before"
    using assms e path ex reps
    by (cases "read_file path") (auto simp: plan_one_edit_def split: if_splits)
  obtain t where t: "utf8_decode before = Some t"
    using assms e path ex reps before
    by (cases "utf8_decode before") (auto simp: plan_one_edit_def split: if_splits)
  obtain u where u: "rfold apply_replacement t reps = Inr u"
    using assms e path ex reps before t
    by (cases "rfold apply_replacement t reps") (auto simp: plan_one_edit_def split: if_splits)
  obtain after where after: "utf8_encode u = Some after"
    using assms e path ex reps before t u
    by (cases "utf8_encode u") (auto simp: plan_one_edit_def split: if_splits)
  let ?p = "\<lparr>tep_path = path, tep_expected = ex, tep_before = before, tep_after = after,
             tep_count = length reps\<rparr>"
  have sha: "sha before = ex" and seen: "cf path \<notin> es_seen st"
    and w: "int (length after) \<le> lim_write lim"
    and tot: "es_total st + int (length before) + int (length after) \<le> lim_total lim"
    and st': "st' = \<lparr>es_seen = insert (cf path) (es_seen st),
        es_total = es_total st + int (length before) + int (length after), es_plans = es_plans st @ [?p]\<rparr>"
    using assms e path ex reps before t u after
    by (simp_all add: plan_one_edit_def Let_def not_less split: if_splits)
  have "sound_edit sha read_file lim e ?p"
    unfolding sound_edit_def
    using e path ex reps before sha t rfold_replacements_edited [OF u] after w by auto
  then show ?thesis using seen tot st' by (intro exI [of _ ?p]) simp
qed

lemma plan_edits_fold:
  assumes "rfold (plan_one_edit cf sha read_file lim) st es = Inr st'"
    and "es_total st \<le> lim_total lim"
    and "es_total st = (\<Sum>p \<leftarrow> es_plans st. int (length (tep_before p)) + int (length (tep_after p)))"
    and "distinct (List.map (\<lambda>p. cf (tep_path p)) (es_plans st))"
    and "es_seen st = set (List.map (\<lambda>p. cf (tep_path p)) (es_plans st))"
  shows "(\<exists>ps. es_plans st' = es_plans st @ ps \<and> list_all2 (sound_edit sha read_file lim) es ps)
    \<and> es_total st' \<le> lim_total lim
    \<and> es_total st' = (\<Sum>p \<leftarrow> es_plans st'. int (length (tep_before p)) + int (length (tep_after p)))
    \<and> distinct (List.map (\<lambda>p. cf (tep_path p)) (es_plans st'))"
  using assms
proof (induction es arbitrary: st)
  case Nil
  then show ?case by simp
next
  case (Cons e es)
  from Cons.prems(1) obtain s1 where s1: "plan_one_edit cf sha read_file lim st e = Inr s1"
    and r: "rfold (plan_one_edit cf sha read_file lim) s1 es = Inr st'"
    by (auto simp: rbind_eq_Inr)
  from plan_one_edit_Inr [OF s1] obtain p where p: "es_plans s1 = es_plans st @ [p]"
      "sound_edit sha read_file lim e p" "cf (tep_path p) \<notin> es_seen st"
      "es_seen s1 = insert (cf (tep_path p)) (es_seen st)" "es_total s1 \<le> lim_total lim"
      "es_total s1 = es_total st + int (length (tep_before p)) + int (length (tep_after p))"
    by blast
  have "(\<exists>ps. es_plans st' = es_plans s1 @ ps \<and> list_all2 (sound_edit sha read_file lim) es ps)
    \<and> es_total st' \<le> lim_total lim
    \<and> es_total st' = (\<Sum>p \<leftarrow> es_plans st'. int (length (tep_before p)) + int (length (tep_after p)))
    \<and> distinct (List.map (\<lambda>p. cf (tep_path p)) (es_plans st'))"
    using p Cons.prems(3-5) by (intro Cons.IH [OF r]) auto
  then show ?case using p(1,2) by auto
qed

text \<open>
  C25. A successful plan has one entry per edit, in order; each entry was computed from the bytes
  the file held, whose digest is the one the caller expected, by exchanging exactly one occurrence
  per replacement, and encodes the resulting text within the write limit. The paths are pairwise
  distinct under case folding, and all bytes read and written together stay within the total.
\<close>

theorem exact_edits_sound:
  assumes "plan_exact_text_edits cf sha read_file lim (Py edits) = Inr plans" and "0 \<le> lim_total lim"
  shows "list_all2 (sound_edit sha read_file lim) edits plans
    \<and> distinct (List.map (\<lambda>p. cf (tep_path p)) plans)
    \<and> int (length plans) \<le> lim_files lim
    \<and> (\<Sum>p \<leftarrow> plans. int (length (tep_before p)) + int (length (tep_after p))) \<le> lim_total lim"
proof -
  obtain st where st: "rfold (plan_one_edit cf sha read_file lim)
      \<lparr>es_seen = {}, es_total = 0, es_plans = []\<rparr> edits = Inr st" and ps: "plans = es_plans st"
    and n: "int (length edits) \<le> lim_files lim"
    using assms(1) by (auto simp: plan_exact_text_edits_def rbind_eq_Inr not_less split: if_splits)
  have "list_all2 (sound_edit sha read_file lim) edits plans \<and>
      (\<Sum>p \<leftarrow> plans. int (length (tep_before p)) + int (length (tep_after p))) \<le> lim_total lim
      \<and> distinct (List.map (\<lambda>p. cf (tep_path p)) plans)"
    using plan_edits_fold [OF st] assms(2) ps by auto
  then show ?thesis using n by (auto dest: list_all2_lengthD)
qed

definition demo_edit :: "edit_request pyval" where
  "demo_edit = Py \<lparr>edit_keys = {''path'', ''expected_sha256'', ''replacements''},
     edit_path = Py ''a.txt'', edit_expected = Py (replicate 64 (CHR ''0'')),
     edit_replacements = Py [Py \<lparr>rep_keys = {''old_text'', ''new_text''},
        rep_old = Py [104], rep_new = Py [0x20AC]\<rparr>]\<rparr>"

definition demo_limits :: edit_limits where
  "demo_limits = \<lparr>lim_files = 4, lim_read = 100, lim_write = 100, lim_total = 100\<rparr>"

lemma exact_edits_sound_witness:
  "plan_exact_text_edits ascii_lower (\<lambda>_. replicate 64 (CHR ''0'')) (\<lambda>_. Inr [104, 105]) demo_limits
      (Py [demo_edit])
     = Inr [\<lparr>tep_path = ''a.txt'', tep_expected = replicate 64 (CHR ''0''), tep_before = [104, 105],
             tep_after = [0xE2, 0x82, 0xAC, 105], tep_count = 1\<rparr>] \<and>
   sound_edit (\<lambda>_. replicate 64 (CHR ''0'')) (\<lambda>_. Inr [104, 105]) demo_limits demo_edit
      \<lparr>tep_path = ''a.txt'', tep_expected = replicate 64 (CHR ''0''), tep_before = [104, 105],
             tep_after = [0xE2, 0x82, 0xAC, 105], tep_count = 1\<rparr>"
proof -
  have h: "plan_exact_text_edits ascii_lower (\<lambda>_. replicate 64 (CHR ''0'')) (\<lambda>_. Inr [104, 105])
      demo_limits (Py [demo_edit])
     = Inr [\<lparr>tep_path = ''a.txt'', tep_expected = replicate 64 (CHR ''0''), tep_before = [104, 105],
             tep_after = [0xE2, 0x82, 0xAC, 105], tep_count = 1\<rparr>]"
    by code_simp
  show ?thesis using h exact_edits_sound [OF h] by (simp add: demo_limits_def)
qed

text \<open>
  The occurrence count ignores overlaps: a replacement of \<open>aa\<close> in \<open>aaa\<close> passes the check that
  \<open>old_text\<close> occurs exactly once although it matches at two positions.
\<close>

lemma overlapping_occurrences_accepted:
  "apply_replacement [97, 97, 97]
      (Py \<lparr>rep_keys = {''old_text'', ''new_text''}, rep_old = Py [97, 97], rep_new = Py [98]\<rparr>)
     = Inr [98, 97] \<and>
   starts_with [97, 97] (drop 0 [97, 97, 97 :: nat]) \<and> starts_with [97, 97] (drop 1 [97, 97, 97 :: nat])"
  by code_simp

section \<open>Match spans\<close>

text \<open>
  \<open>eq\<close> compares a pattern code point with a text code point: equality for a case-sensitive search,
  the \<open>re.IGNORECASE\<close> table otherwise.
\<close>

definition prefix_eq :: "(nat \<Rightarrow> nat \<Rightarrow> bool) \<Rightarrow> utext \<Rightarrow> utext \<Rightarrow> bool" where
  "prefix_eq eq pat s \<longleftrightarrow> list_all2 eq pat (take (length pat) s)"

fun find_eq :: "(nat \<Rightarrow> nat \<Rightarrow> bool) \<Rightarrow> utext \<Rightarrow> utext \<Rightarrow> nat option" where
  "find_eq eq pat [] = (if pat = [] then Some 0 else None)"
| "find_eq eq pat (x # xs) =
     (if prefix_eq eq pat (x # xs) then Some 0 else map_option Suc (find_eq eq pat xs))"

lemma prefix_eq_length: "prefix_eq eq pat s \<Longrightarrow> length pat \<le> length s"
  by (auto simp: prefix_eq_def dest!: list_all2_lengthD)

lemma find_eq_Some:
  "find_eq eq pat s = Some i \<Longrightarrow> prefix_eq eq pat (drop i s) \<and> i + length pat \<le> length s"
proof (induction s arbitrary: i)
  case Nil
  then show ?case by (auto simp: prefix_eq_def split: if_splits)
next
  case (Cons x xs)
  then show ?case by (auto split: if_splits dest: prefix_eq_length)
qed

text \<open>The spans of the non-overlapping matches from \<open>start\<close> on, leftmost first.\<close>

function match_spans ::
  "(nat \<Rightarrow> nat \<Rightarrow> bool) \<Rightarrow> utext \<Rightarrow> nat \<Rightarrow> utext \<Rightarrow> (nat \<times> nat) list" where
  "match_spans eq pat start s =
     (if pat = [] then []
      else case find_eq eq pat s of
        None \<Rightarrow> []
      | Some i \<Rightarrow> (start + i, start + i + length pat) #
                  match_spans eq pat (start + i + length pat) (drop (i + length pat) s))"
  by pat_completeness auto
termination
proof (relation "measure (\<lambda>(eq, pat, start, s). length s)", goal_cases)
  case 1
  show ?case by simp
next
  case (2 eq pat start s i)
  then have "i + length pat \<le> length s" "0 < length pat" using find_eq_Some [of eq pat s i] by auto
  then have "length s - (i + length pat) < length s" by linarith
  then show ?case by simp
qed

declare match_spans.simps [simp del]

text \<open>The bounded loop of \<open>_literal_match_spans\<close> over the lazily produced matches.\<close>

fun bounded_spans ::
  "bool \<Rightarrow> int \<Rightarrow> (nat \<times> nat) list \<Rightarrow> (nat \<times> nat) list \<Rightarrow> (nat \<times> nat) list res" where
  "bounded_spans unique remaining spans [] = Inr spans"
| "bounded_spans unique remaining spans (m # ms) =
     (if unique \<and> spans \<noteq> []
      then Inl (RuntimeError ''workspace replace is ambiguous: file contains multiple matches'')
      else if remaining \<le> int (length spans)
      then Inl (ValueError ''workspace replace match limit exceeded'')
      else bounded_spans unique remaining (spans @ [m]) ms)"

definition literal_match_spans ::
  "(nat \<Rightarrow> nat \<Rightarrow> bool) \<Rightarrow> utext \<Rightarrow> utext \<Rightarrow> bool \<Rightarrow> int \<Rightarrow> bool \<Rightarrow> (nat \<times> nat) list res" where
  "literal_match_spans ci src old_text case_sensitive remaining unique =
     bounded_spans unique remaining []
       (match_spans (if case_sensitive then (=) else ci) old_text 0 src)"

text \<open>\<open>_apply_literal_spans\<close>: the pieces between the spans, the new text for each span.\<close>

fun apply_spans_from :: "utext \<Rightarrow> nat \<Rightarrow> (nat \<times> nat) list \<Rightarrow> utext \<Rightarrow> utext list" where
  "apply_spans_from src previous [] new = [drop previous src]"
| "apply_spans_from src previous ((a, b) # spans) new =
     take (a - previous) (drop previous src) # new # apply_spans_from src b spans new"

definition apply_literal_spans :: "utext \<Rightarrow> (nat \<times> nat) list \<Rightarrow> utext \<Rightarrow> utext" where
  "apply_literal_spans src spans new =
     (if spans = [] then src else concat (apply_spans_from src 0 spans new))"

text \<open>The reference: leftmost non-overlapping replacement by recursion on the text.\<close>

function replace_all ::
  "(nat \<Rightarrow> nat \<Rightarrow> bool) \<Rightarrow> utext \<Rightarrow> utext \<Rightarrow> utext \<Rightarrow> utext" where
  "replace_all eq pat new [] = []"
| "replace_all eq pat new (x # xs) =
     (if pat \<noteq> [] \<and> prefix_eq eq pat (x # xs)
      then new @ replace_all eq pat new (drop (length pat) (x # xs))
      else x # replace_all eq pat new xs)"
  by pat_completeness auto
termination
  by (relation "measure (\<lambda>(eq, pat, new, s). length s)") auto

lemma replace_all_find:
  assumes "pat \<noteq> []"
  shows "replace_all eq pat new s =
    (case find_eq eq pat s of None \<Rightarrow> s
     | Some i \<Rightarrow> take i s @ new @ replace_all eq pat new (drop (i + length pat) s))"
  using assms by (induction s) (auto split: option.splits)

lemma apply_spans_match:
  assumes "pat \<noteq> []"
  shows "k \<le> length src \<Longrightarrow>
    concat (apply_spans_from src k (match_spans eq pat k (drop k src)) new)
      = replace_all eq pat new (drop k src)"
proof (induction "length src - k" arbitrary: k rule: less_induct)
  case less
  show ?case
  proof (cases "find_eq eq pat (drop k src)")
    case None
    then show ?thesis using assms
      by (subst match_spans.simps) (simp add: replace_all_find [OF assms, of eq new "drop k src"])
  next
    case (Some i)
    let ?j = "k + i + length pat"
    have le: "?j \<le> length src" using find_eq_Some [OF Some] less.prems assms
      by (cases "k < length src") auto
    have sp: "match_spans eq pat k (drop k src) = (k + i, ?j) # match_spans eq pat ?j (drop ?j src)"
      using Some assms by (subst match_spans.simps) (simp add: ac_simps)
    have "length src - ?j < length src - k" using le assms less.prems
      by (cases pat) auto
    then have "concat (apply_spans_from src ?j (match_spans eq pat ?j (drop ?j src)) new)
        = replace_all eq pat new (drop ?j src)"
      using le by (rule less.hyps)
    then show ?thesis using Some
      by (simp add: sp replace_all_find [OF assms, of eq new "drop k src"] ac_simps)
  qed
qed

lemma bounded_spans_Inr:
  "bounded_spans unique remaining spans ms = Inr out \<Longrightarrow>
     out = spans @ ms \<and> (ms \<noteq> [] \<longrightarrow> int (length out) \<le> remaining)
     \<and> (unique \<longrightarrow> ms = [] \<or> (spans = [] \<and> length ms = 1))"
proof (induction ms arbitrary: spans)
  case Nil
  then show ?case by simp
next
  case (Cons m ms)
  then have "bounded_spans unique remaining (spans @ [m]) ms = Inr out"
    and "\<not> (unique \<and> spans \<noteq> [])" "\<not> remaining \<le> int (length spans)"
    by (simp_all split: if_splits)
  moreover have "out = (spans @ [m]) @ ms \<and> (ms \<noteq> [] \<longrightarrow> int (length out) \<le> remaining)
     \<and> (unique \<longrightarrow> ms = [] \<or> (spans @ [m] = [] \<and> length ms = 1))"
    using calculation(1) by (rule Cons.IH)
  ultimately show ?case by auto
qed

lemma literal_spans_spec:
  assumes "literal_match_spans ci src old_text case_sensitive remaining unique = Inr spans"
    and "old_text \<noteq> []" and "0 \<le> remaining"
  shows "apply_literal_spans src spans new
      = replace_all (if case_sensitive then (=) else ci) old_text new src
    \<and> int (length spans) \<le> remaining \<and> (unique \<longrightarrow> length spans \<le> 1)"
proof -
  let ?eq = "if case_sensitive then (=) else ci"
  have b: "spans = match_spans ?eq old_text 0 src"
    "int (length spans) \<le> remaining" "unique \<longrightarrow> length spans \<le> 1"
    using bounded_spans_Inr assms(1,3) unfolding literal_match_spans_def by fastforce+
  have r: "concat (apply_spans_from src 0 spans new) = replace_all ?eq old_text new src"
    using apply_spans_match [OF assms(2), of 0 src ?eq new] b(1) by simp
  have "spans = [] \<Longrightarrow> replace_all ?eq old_text new src = src"
    using r by simp
  then show ?thesis using b(2,3) r by (auto simp: apply_literal_spans_def)
qed

text \<open>
  Replacing by spans is leftmost non-overlapping replacement: the spans that the bounded
  matcher returns are all matches, at most as many as remain (at most one in unique mode), and
  applying them gives the text in which every match, and nothing else, is exchanged.
\<close>

theorem literal_spans_replace:
  assumes "literal_match_spans ci src old_text case_sensitive remaining unique = Inr spans"
    and "old_text \<noteq> []" and "0 \<le> remaining"
  shows "apply_literal_spans src spans new
      = replace_all (if case_sensitive then (=) else ci) old_text new src
    \<and> int (length spans) \<le> remaining \<and> (unique \<longrightarrow> length spans \<le> 1)"
  using assms by (rule literal_spans_spec)

lemma literal_spans_replace_witness:
  "literal_match_spans (=) [97, 98, 97, 97] [97] True 5 False = Inr [(0, 1), (2, 3), (3, 4)] \<and>
   apply_literal_spans [97, 98, 97, 97] [(0, 1), (2, 3), (3, 4)] [] = [98]"
proof -
  have h: "literal_match_spans (=) [97, 98, 97, 97] [97] True 5 False = Inr [(0, 1), (2, 3), (3, 4)]"
    by code_simp
  have r: "replace_all (=) [97] [] [97, 98, 97, 97] = [98]" by code_simp
  show ?thesis using h literal_spans_replace [OF h, of "[]"] r by simp
qed

end
