(* ===== verification/Replace.thy ===== *)
theory Replace
  imports Traversal Edits "HOL-Library.Multiset"
begin

text \<open>
  Planning of literal replacements across the workspace (\<open>workspace_replace.py\<close>):
  \<open>plan_workspace_replace\<close> validates the request, walks the selected files, keeps a verified
  snapshot of each of them and the new bytes of those whose text changes, and bounds files, bytes,
  matches and changed files on the way.
\<close>

section \<open>The request\<close>

datatype match_mode = MatchAll | MatchUniquePerFile

record replace_request =
  rq_path :: "string pyval"
  rq_old :: "utext pyval"
  rq_new :: "utext pyval"
  rq_glob :: "string pyval"
  rq_case_sensitive :: "bool pyval"
  rq_expected :: "int pyval"           \<comment> \<open>\<open>Missing\<close> is \<open>None\<close>\<close>
  rq_mode :: "match_mode pyval"
  rq_max_depth :: "int pyval"
  rq_max_entries :: "int pyval"
  rq_max_files :: "int pyval"
  rq_max_total_bytes :: "int pyval"
  rq_max_matches :: "int pyval"
  rq_max_changed_files :: "int pyval"

definition validate_expected_matches :: "int pyval \<Rightarrow> int option res" where
  "validate_expected_matches v =
     (case v of
        Missing \<Rightarrow> Inr None
      | BadType \<Rightarrow> Inl (TypeError ''expected_total_matches must be an integer'')
      | Py n \<Rightarrow> if n < 0 then Inl (ValueError ''expected_total_matches must be non-negative'')
               else Inr (Some n))"

definition validate_text_inputs :: "utext pyval \<Rightarrow> utext pyval \<Rightarrow> bool pyval \<Rightarrow> (utext \<times> utext \<times> bool) res" where
  "validate_text_inputs old_text new_text case_sensitive =
     (case (old_text, new_text) of
        (Py old, Py new) \<Rightarrow>
          if old = [] then Inl (ValueError ''old_text must not be empty'')
          else if 0 \<in> set old then Inl (ValueError ''old_text must not contain NUL'')
          else if 0 \<in> set new then Inl (ValueError ''new_text must not contain NUL'')
          else (case case_sensitive of
                  Py b \<Rightarrow> Inr (old, new, b)
                | _ \<Rightarrow> Inl (TypeError ''case_sensitive must be boolean''))
      | _ \<Rightarrow> Inl (TypeError ''old_text and new_text must be strings''))"

text \<open>The limits the request settles on.\<close>

record replace_limits =
  rl_old :: utext
  rl_new :: utext
  rl_case :: bool
  rl_expected :: "int option"
  rl_pattern :: string
  rl_unique :: bool
  rl_depth :: int
  rl_entries :: int
  rl_files :: int
  rl_total :: int
  rl_matches :: int
  rl_changed :: int
  rl_read :: int
  rl_write :: int

definition replace_limits_of :: "read_settings \<Rightarrow> replace_request \<Rightarrow> replace_limits res" where
  "replace_limits_of st rq =
     rbind (validate_text_inputs (rq_old rq) (rq_new rq) (rq_case_sensitive rq)) (\<lambda>(old, new, cs).
     rbind (validate_expected_matches (rq_expected rq)) (\<lambda>expected.
     rbind (validate_file_glob (rq_glob rq)) (\<lambda>pattern.
     case pattern of
       None \<Rightarrow> Inl (ValueError ''file_glob must be a non-empty string without NUL'')
     | Some pat \<Rightarrow>
     (case rq_mode rq of
       Py mode \<Rightarrow>
     rbind (setting_value (max_workspace_tree_depth st) 8) (\<lambda>configured_depth.
     rbind (validate_depth st (rq_max_depth rq) configured_depth) (\<lambda>depth.
     rbind (directory_entry_limit st (rq_max_entries rq)) (\<lambda>entries.
     rbind (request_file_limit st (rq_max_files rq)) (\<lambda>files.
     rbind (request_total_byte_limit st (rq_max_total_bytes rq) files) (\<lambda>total.
     rbind (setting_value (max_workspace_search_results st) 500) (\<lambda>results.
     rbind (request_limit (rq_max_matches rq) results results True) (\<lambda>matches.
     rbind (setting_value (max_high_level_files st) 64) (\<lambda>hl_files.
     rbind (request_limit (rq_max_changed_files rq) files (min files hl_files) True) (\<lambda>changed.
     rbind (file_byte_limit st) (\<lambda>rd.
     rbind (setting_value (max_write_bytes st) (2 * 1024 * 1024)) (\<lambda>wr.
     case (utf8_encode old, utf8_encode new) of
       (Some old_bytes, Some new_bytes) \<Rightarrow>
         if rd < int (length old_bytes) then Inl (ValueError ''old_text exceeds max_text_file_bytes'')
         else if wr < int (length new_bytes) then Inl (ValueError ''new_text exceeds max_write_bytes'')
         else Inr \<lparr>rl_old = old, rl_new = new, rl_case = cs, rl_expected = expected, rl_pattern = pat,
                    rl_unique = (mode = MatchUniquePerFile), rl_depth = depth, rl_entries = entries,
                    rl_files = files, rl_total = total, rl_matches = matches, rl_changed = changed,
                    rl_read = rd, rl_write = wr\<rparr>
     | _ \<Rightarrow> Inl (ValueError ''old_text and new_text must be valid UTF-8 text''))))))))))))
     | _ \<Rightarrow> Inl (ValueError ''match_mode must be all or unique_per_file'')))))"

section \<open>One file\<close>

record replace_state =
  rs_snapshots :: "(string \<times> file_snapshot) list"
  rs_changes :: "(string \<times> bytes) list"
  rs_matched :: "string list"
  rs_files :: int
  rs_read :: int
  rs_retained :: int
  rs_matches :: int

definition empty_replace_state :: replace_state where
  "empty_replace_state =
     \<lparr>rs_snapshots = [], rs_changes = [], rs_matched = [], rs_files = 0, rs_read = 0,
      rs_retained = 0, rs_matches = 0\<rparr>"

definition span_text :: "utext \<Rightarrow> nat \<times> nat \<Rightarrow> utext" where
  "span_text src sp = take (snd sp - fst sp) (drop (fst sp) src)"

text \<open>The size of the output as predicted from the spans, before it is built.\<close>

definition predicted_bytes :: "utext \<Rightarrow> (nat \<times> nat) list \<Rightarrow> utext \<Rightarrow> int \<Rightarrow> int" where
  "predicted_bytes src spans new bytes_in =
     bytes_in + (\<Sum>sp \<leftarrow> spans. int (utf8_length new) - int (utf8_length (span_text src sp)))"

text \<open>The tail of \<open>consider_file\<close>: a file whose text would change.\<close>

definition record_change ::
  "replace_limits \<Rightarrow> string \<Rightarrow> bytes \<Rightarrow> utext \<Rightarrow> (nat \<times> nat) list \<Rightarrow> replace_state \<Rightarrow> replace_state res" where
  "record_change rl canonical data src spans s =
     (let predicted = predicted_bytes src spans (rl_new rl) (int (length data)) in
      if rl_write rl < predicted
      then Inl (ValueError ''workspace replace output exceeds max_write_bytes'')
      else if rl_changed rl \<le> int (length (rs_changes s))
      then Inl (ValueError ''workspace replace changed file limit exceeded'')
      else if rl_total rl < rs_retained s + predicted
      then Inl (ValueError ''workspace replace snapshot and change bytes exceed total byte limit'')
      else case utf8_encode (apply_literal_spans src spans (rl_new rl)) of
        None \<Rightarrow> Inl (ValueError ''surrogates not allowed'')
      | Some after \<Rightarrow>
          if int (length after) \<noteq> predicted
          then Inl (RuntimeError ''workspace replace output byte prediction mismatch'')
          else Inr (s\<lparr>rs_changes := AList.update canonical after (rs_changes s),
                      rs_retained := rs_retained s + int (length after)\<rparr>))"

definition consider_file ::
  "os_env \<Rightarrow> workspace \<Rightarrow> (nat \<Rightarrow> nat \<Rightarrow> bool) \<Rightarrow> int \<Rightarrow> replace_limits \<Rightarrow> string \<Rightarrow> string \<Rightarrow>
   replace_state \<Rightarrow> replace_state res" where
  "consider_file os w ci mb rl relative name s0 =
     (let s = s0\<lparr>rs_files := rs_files s0 + 1\<rparr> in
      if rl_files rl < rs_files s then Inl (ValueError ''workspace replace file limit exceeded'')
      else if \<not> matches_glob (casefold os) name (rl_pattern rl) (rl_case rl) then Inr s
      else
        rbind (snapshot_file os w mb relative
                 (min (rl_read rl) (min (rl_total rl - rs_read s) (rl_total rl - rs_retained s))))
          (\<lambda>snapshot.
        let canonical = snap_path snapshot; data = snap_data snapshot in
        if rl_total rl < rs_read s + int (length data)
        then Inl (ValueError ''workspace replace total read byte limit exceeded'')
        else if 0 \<in> set data
        then Inl (ValueError ''workspace replace target contains NUL bytes'')
        else case utf8_decode data of
          None \<Rightarrow> Inl (ValueError ''workspace replace target is not valid UTF-8 text'')
        | Some src \<Rightarrow>
            rbind (literal_match_spans ci src (rl_old rl) (rl_case rl)
                     (rl_matches rl - rs_matches s) (rl_unique rl)) (\<lambda>spans.
            let s1 = s\<lparr>rs_read := rs_read s + int (length data),
                       rs_matches := rs_matches s + int (length spans),
                       rs_snapshots := AList.update canonical snapshot (rs_snapshots s),
                       rs_retained := rs_retained s + int (length data)\<rparr> in
            if rl_total rl < rs_retained s1
            then Inl (ValueError ''workspace replace snapshot and change bytes exceed total byte limit'')
            else
              let s2 = (if spans \<noteq> [] then s1\<lparr>rs_matched := rs_matched s1 @ [canonical]\<rparr> else s1) in
              if list_ex (\<lambda>sp. span_text src sp \<noteq> rl_new rl) spans
              then record_change rl canonical data src spans s2
              else Inr s2)))"

section \<open>The walk and the plan\<close>

definition visit_replace ::
  "os_env \<Rightarrow> workspace \<Rightarrow> (nat \<Rightarrow> nat \<Rightarrow> bool) \<Rightarrow> int \<Rightarrow> replace_limits \<Rightarrow> replace_state visit" where
  "visit_replace os w ci mb rl dir depth s child =
     rbind (classify_entry child) (\<lambda>kind.
     let candidate = dir @ [entry_name child] in
     if is_hidden os w candidate then Inr (s, None)
     else
       rbind (ws_relative os w candidate) (\<lambda>relative.
       if kind = KindDirectory
       then rbind (resolve_directory os w relative ReadAccess) (\<lambda>checked.
              Inr (s, if depth < rl_depth rl then Some checked else None))
       else rbind (consider_file os w ci mb rl relative (entry_name child) s)
              (\<lambda>s'. Inr (s', None))))"

record replace_summary =
  sm_path :: string
  sm_targets :: "string list"
  sm_matched :: "string list"
  sm_changed :: "string list"
  sm_entries :: int
  sm_files :: int
  sm_matches :: int
  sm_read :: int
  sm_retained :: int

text \<open>\<open>order_key\<close>: sorted by case-folded path, then by path.\<close>

definition order_pairs :: "(string \<Rightarrow> string) \<Rightarrow> (string \<times> 'v) list \<Rightarrow> (string \<times> 'v) list" where
  "order_pairs cf m = sort_key (\<lambda>(k, _). (cf k, k)) m"

text \<open>\<open>Path(direct_file).name\<close>: the last part of the workspace-relative path.\<close>

definition file_name_of :: "string \<Rightarrow> string" where
  "file_name_of relative = last (split_on (CHR ''/'') relative)"

definition plan_workspace_replace ::
  "os_env \<Rightarrow> workspace \<Rightarrow> (path \<Rightarrow> dir_entry list) \<Rightarrow> (nat \<Rightarrow> nat \<Rightarrow> bool) \<Rightarrow> read_settings \<Rightarrow>
   replace_request \<Rightarrow> (workspace_plan \<times> replace_summary) res" where
  "plan_workspace_replace os w scan ci st rq =
     rbind (replace_limits_of st rq) (\<lambda>rl.
     case rq_path rq of
       Py path \<Rightarrow>
         rbind (resolve_existing os w path True ReadAccess True) (\<lambda>root.
         rbind (ws_relative os w root) (\<lambda>root_relative.
         rbind (if os_is_dir os root
                then traverse (casefold os) scan True (visit_replace os w ci (max_backup_bytes st) rl)
                       (rl_depth rl) (rl_entries rl) [(root, 0)] 0 empty_replace_state
                else rbind (consider_file os w ci (max_backup_bytes st) rl root_relative
                              (file_name_of root_relative) empty_replace_state)
                       (\<lambda>s. Inr (0, s))) (\<lambda>(scanned, s).
         if (case rl_expected rl of None \<Rightarrow> False | Some n \<Rightarrow> rs_matches s \<noteq> n)
         then Inl (RuntimeError ''expected_total_matches mismatch'')
         else
           let snaps = order_pairs (casefold os) (rs_snapshots s);
               chs = order_pairs (casefold os) (rs_changes s);
               matched = sort_key (\<lambda>k. (casefold os k, k)) (rs_matched s)
           in Inr ((empty_plan ''workspace_replace'')\<lparr>snapshots := snaps, changes := chs\<rparr>,
                   \<lparr>sm_path = root_relative, sm_targets = List.map fst snaps, sm_matched = matched,
                    sm_changed = List.map fst chs, sm_entries = scanned, sm_files = rs_files s,
                    sm_matches = rs_matches s, sm_read = rs_read s, sm_retained = rs_retained s\<rparr>))))
     | _ \<Rightarrow> Inl (TypeError ''path must be a string''))"

section \<open>The predicted size\<close>

fun spans_within :: "nat \<Rightarrow> nat \<Rightarrow> (nat \<times> nat) list \<Rightarrow> bool" where
  "spans_within k n [] \<longleftrightarrow> k \<le> n"
| "spans_within k n ((a, b) # spans) \<longleftrightarrow> k \<le> a \<and> a \<le> b \<and> spans_within b n spans"

lemma match_spans_within:
  "k \<le> length src \<Longrightarrow> spans_within k (length src) (match_spans eq pat k (drop k src))"
proof (induction "length src - k" arbitrary: k rule: less_induct)
  case less
  show ?case
  proof (cases "pat = [] \<or> find_eq eq pat (drop k src) = None")
    case True
    then show ?thesis using less.prems by (subst match_spans.simps) auto
  next
    case False
    then obtain i where i: "find_eq eq pat (drop k src) = Some i" and p: "pat \<noteq> []" by auto
    let ?j = "k + i + length pat"
    have "i + length pat \<le> length src - k" using find_eq_Some [OF i] by auto
    then have le: "?j \<le> length src" using less.prems by linarith
    moreover have "length src - ?j < length src - k" using le p by (cases pat) auto
    ultimately have "spans_within ?j (length src) (match_spans eq pat ?j (drop ?j src))"
      by (intro less.hyps)
    then show ?thesis using i p by (subst match_spans.simps) (simp add: ac_simps)
  qed
qed

lemma spans_within_le: "spans_within k n spans \<Longrightarrow> k \<le> n"
  by (induction spans arbitrary: k) fastforce+

lemma utf8_length_split:
  "k \<le> a \<Longrightarrow> utf8_length (drop k src) = utf8_length (take (a - k) (drop k src)) + utf8_length (drop a src)"
  by (metis append_take_drop_id drop_drop le_add_diff_inverse2 utf8_length_append)

lemma apply_spans_length:
  "spans_within k (length src) spans \<Longrightarrow>
   int (utf8_length (concat (apply_spans_from src k spans new)))
     = int (utf8_length (drop k src))
       + (\<Sum>sp \<leftarrow> spans. int (utf8_length new) - int (utf8_length (span_text src sp)))"
proof (induction spans arbitrary: k)
  case Nil
  then show ?case by simp
next
  case (Cons sp spans)
  obtain a b where sp: "sp = (a, b)" by (cases sp)
  have w: "k \<le> a" "a \<le> b" "spans_within b (length src) spans" using Cons.prems sp by auto
  show ?case
    using Cons.IH [OF w(3)] utf8_length_split [OF w(1), of src] utf8_length_split [OF w(2), of src]
    by (simp add: sp span_text_def)
qed

lemma apply_spans_from_set:
  "set (concat (apply_spans_from src k spans new)) \<subseteq> set src \<union> set new"
  by (induction src k spans new rule: apply_spans_from.induct)
    (auto dest: in_set_takeD in_set_dropD)

text \<open>
  The size that the planner predicts from the match spans, before it builds the new text, is
  exactly the size of the encoded output, so the mismatch branch of \<open>consider_file\<close> never fires
  and no output can exceed the bounds that were checked on the prediction.
\<close>

theorem replace_prediction_exact:
  assumes "utf8_decode data = Some src" and "utf8_encode (rl_new rl) = Some new_bytes"
    and "literal_match_spans ci src (rl_old rl) (rl_case rl) remaining (rl_unique rl) = Inr spans"
  shows "\<exists>after. utf8_encode (apply_literal_spans src spans (rl_new rl)) = Some after
    \<and> int (length after) = predicted_bytes src spans (rl_new rl) (int (length data))"
proof -
  let ?eq = "if rl_case rl then (=) else ci"
  have sp: "spans = match_spans ?eq (rl_old rl) 0 src"
    using bounded_spans_Inr assms(3) unfolding literal_match_spans_def by fastforce
  have w: "spans_within 0 (length src) spans" using match_spans_within [of 0 src] sp by simp
  have "set (apply_literal_spans src spans (rl_new rl)) \<subseteq> set src \<union> set (rl_new rl)"
    using apply_spans_from_set unfolding apply_literal_spans_def by auto
  then have "\<forall>n\<in>set (apply_literal_spans src spans (rl_new rl)). encodable n"
    using utf8_decode_encodable [OF assms(1)] utf8_encode_Some assms(2) by blast
  then obtain after where after: "utf8_encode (apply_literal_spans src spans (rl_new rl)) = Some after"
    using utf8_encode_Some by blast
  have "length data = utf8_length src" using assms(1) utf8_iff utf8_encode_length by blast
  moreover have "length after = utf8_length (apply_literal_spans src spans (rl_new rl))"
    using after by (rule utf8_encode_length)
  ultimately have "int (length after) = predicted_bytes src spans (rl_new rl) (int (length data))"
    using apply_spans_length [OF w, of "rl_new rl"]
    by (cases "spans = []") (simp_all add: predicted_bytes_def apply_literal_spans_def)
  then show ?thesis using after by blast
qed

lemma replace_prediction_exact_witness:
  "predicted_bytes [104, 105, 8364] [(0, 1)] [8364] 5 = 7 \<and>
   (\<exists>after. utf8_encode (apply_literal_spans [104, 105, 8364] [(0, 1)] [8364]) = Some after
      \<and> int (length after) = 7)"
proof -
  let ?rl = "\<lparr>rl_old = [104], rl_new = [8364], rl_case = True, rl_expected = None,
      rl_pattern = ''*'', rl_unique = False, rl_depth = 1, rl_entries = 1, rl_files = 1, rl_total = 9,
      rl_matches = 1, rl_changed = 1, rl_read = 9, rl_write = 9\<rparr>"
  have d: "utf8_decode [104, 105, 0xE2, 0x82, 0xAC] = Some [104, 105, 8364]" by code_simp
  have e: "utf8_encode (rl_new ?rl) = Some [0xE2, 0x82, 0xAC]" by code_simp
  have s: "literal_match_spans (=) [104, 105, 8364] (rl_old ?rl) (rl_case ?rl) 1 (rl_unique ?rl)
      = Inr [(0, 1)]" by code_simp
  have p: "predicted_bytes [104, 105, 8364] [(0, 1)] [8364] 5 = 7" by code_simp
  show ?thesis using replace_prediction_exact [OF d e s] p by simp
qed

section \<open>Soundness of the plan\<close>

text \<open>
  The reference: the matches of a text, whether replacing them changes it, and what a list of
  verified files (each a snapshot and its text) has to leave in the snapshots, the changes, the
  matched paths and the count.
\<close>

definition file_matches :: "(nat \<Rightarrow> nat \<Rightarrow> bool) \<Rightarrow> replace_limits \<Rightarrow> utext \<Rightarrow> (nat \<times> nat) list" where
  "file_matches ci rl src = match_spans (if rl_case rl then (=) else ci) (rl_old rl) 0 src"

definition changes_text :: "(nat \<Rightarrow> nat \<Rightarrow> bool) \<Rightarrow> replace_limits \<Rightarrow> utext \<Rightarrow> bool" where
  "changes_text ci rl src \<longleftrightarrow> list_ex (\<lambda>sp. span_text src sp \<noteq> rl_new rl) (file_matches ci rl src)"

definition verified_target ::
  "os_env \<Rightarrow> workspace \<Rightarrow> int \<Rightarrow> replace_limits \<Rightarrow> (nat \<Rightarrow> nat \<Rightarrow> bool) \<Rightarrow> file_snapshot \<times> utext \<Rightarrow> bool" where
  "verified_target os w mb rl ci v \<longleftrightarrow>
     (\<exists>relative limit. snapshot_file os w mb relative limit = Inr (fst v))
     \<and> utf8_decode (snap_data (fst v)) = Some (snd v)
     \<and> (rl_unique rl \<longrightarrow> length (file_matches ci rl (snd v)) \<le> 1)"

definition verified_path :: "file_snapshot \<times> utext \<Rightarrow> string" where
  "verified_path v = snap_path (fst v)"

definition sound_change ::
  "(nat \<Rightarrow> nat \<Rightarrow> bool) \<Rightarrow> replace_limits \<Rightarrow> (file_snapshot \<times> utext) list \<Rightarrow> string \<times> bytes \<Rightarrow> bool" where
  "sound_change ci rl vs c \<longleftrightarrow>
     (\<exists>v\<in>set vs. verified_path v = fst c \<and> changes_text ci rl (snd v)
        \<and> utf8_decode (snd c)
            = Some (replace_all (if rl_case rl then (=) else ci) (rl_old rl) (rl_new rl) (snd v)))
     \<and> int (length (snd c)) \<le> rl_write rl"

definition accounts_for ::
  "(nat \<Rightarrow> nat \<Rightarrow> bool) \<Rightarrow> replace_limits \<Rightarrow> (file_snapshot \<times> utext) list \<Rightarrow>
   (string \<times> file_snapshot) list \<Rightarrow> (string \<times> bytes) list \<Rightarrow> string list \<Rightarrow> int \<Rightarrow> bool" where
  "accounts_for ci rl vs snaps chs matched n \<longleftrightarrow>
     set snaps \<subseteq> (\<lambda>v. (verified_path v, fst v)) ` set vs
     \<and> fst ` set snaps = verified_path ` set vs
     \<and> fst ` set chs = verified_path ` {v \<in> set vs. changes_text ci rl (snd v)}
     \<and> (\<forall>c\<in>set chs. sound_change ci rl vs c)
     \<and> set matched = verified_path ` {v \<in> set vs. file_matches ci rl (snd v) \<noteq> []}
     \<and> n = (\<Sum>v \<leftarrow> vs. int (length (file_matches ci rl (snd v))))"

definition sound_replace_state ::
  "os_env \<Rightarrow> workspace \<Rightarrow> (nat \<Rightarrow> nat \<Rightarrow> bool) \<Rightarrow> int \<Rightarrow> replace_limits \<Rightarrow>
   (file_snapshot \<times> utext) list \<Rightarrow> replace_state \<Rightarrow> bool" where
  "sound_replace_state os w ci mb rl vs s \<longleftrightarrow>
     (\<forall>v\<in>set vs. verified_target os w mb rl ci v)
     \<and> accounts_for ci rl vs (rs_snapshots s) (rs_changes s) (rs_matched s) (rs_matches s)
     \<and> int (length (rs_changes s)) \<le> max 0 (rl_changed rl)
     \<and> (\<Sum>(_, d) \<leftarrow> rs_snapshots s. int (length (snap_data d)))
         + (\<Sum>(_, b) \<leftarrow> rs_changes s. int (length b)) \<le> rs_retained s
     \<and> rs_retained s \<le> max 0 (rl_total rl)
     \<and> 0 \<le> rs_matches s \<and> rs_matches s \<le> max 0 (rl_matches rl)
     \<and> distinct (List.map fst (rs_changes s)) \<and> distinct (List.map fst (rs_snapshots s))"

lemma empty_replace_sound: "sound_replace_state os w ci mb rl [] empty_replace_state"
  by (simp add: sound_replace_state_def empty_replace_state_def accounts_for_def)

lemma update_set_subset: "set (AList.update k x m) \<subseteq> insert (k, x) (set m)"
  by (induction m) auto

lemma update_keys_set: "fst ` set (AList.update k x m) = insert k (fst ` set m)"
  by (induction m) auto

lemma sound_change_mono: "sound_change ci rl vs c \<Longrightarrow> sound_change ci rl (vs @ us) c"
  by (auto simp: sound_change_def)

lemma record_change_Inr:
  assumes "record_change rl canonical data src spans s = Inr s'"
    and "spans = file_matches ci rl src" and "rl_old rl \<noteq> []"
  obtains after where
    "utf8_decode after
       = Some (replace_all (if rl_case rl then (=) else ci) (rl_old rl) (rl_new rl) src)"
    "int (length after) \<le> rl_write rl" "int (length (rs_changes s)) < rl_changed rl"
    "rs_retained s + int (length after) \<le> rl_total rl"
    "s' = s\<lparr>rs_changes := AList.update canonical after (rs_changes s),
             rs_retained := rs_retained s + int (length after)\<rparr>"
proof -
  let ?p = "predicted_bytes src spans (rl_new rl) (int (length data))"
  obtain after where e: "utf8_encode (apply_literal_spans src spans (rl_new rl)) = Some after"
    and l: "int (length after) = ?p" and w: "?p \<le> rl_write rl"
    and c: "int (length (rs_changes s)) < rl_changed rl"
    and t: "rs_retained s + ?p \<le> rl_total rl"
    and s': "s' = s\<lparr>rs_changes := AList.update canonical after (rs_changes s),
                    rs_retained := rs_retained s + int (length after)\<rparr>"
    using assms(1) by (auto simp: record_change_def Let_def split: if_splits option.splits)
  have r: "concat (apply_spans_from src 0 spans (rl_new rl))
      = replace_all (if rl_case rl then (=) else ci) (rl_old rl) (rl_new rl) src"
    using apply_spans_match [OF assms(3), of 0 src "if rl_case rl then (=) else ci" "rl_new rl"] assms(2)
    by (simp add: file_matches_def)
  then have "apply_literal_spans src spans (rl_new rl)
      = replace_all (if rl_case rl then (=) else ci) (rl_old rl) (rl_new rl) src"
    by (auto simp: apply_literal_spans_def)
  then have "utf8_decode after
      = Some (replace_all (if rl_case rl then (=) else ci) (rl_old rl) (rl_new rl) src)"
    using e utf8_iff by metis
  then show ?thesis using that w c t s' l by simp
qed

text \<open>One considered file: nothing but the counter moves, or its snapshot is taken into account.\<close>

lemma consider_file_Inr:
  assumes "consider_file os w ci mb rl relative name s = Inr s'"
    and "matches_glob (casefold os) name (rl_pattern rl) (rl_case rl)"
  obtains limit snap src s1 s2 where
    "snapshot_file os w mb relative limit = Inr snap" "utf8_decode (snap_data snap) = Some src"
    "file_matches ci rl src \<noteq> [] \<Longrightarrow>
       rs_matches s + int (length (file_matches ci rl src)) \<le> rl_matches rl"
    "rl_unique rl \<Longrightarrow> length (file_matches ci rl src) \<le> 1"
    "s1 = s\<lparr>rs_files := rs_files s + 1, rs_read := rs_read s + int (length (snap_data snap)),
      rs_matches := rs_matches s + int (length (file_matches ci rl src)),
      rs_snapshots := AList.update (snap_path snap) snap (rs_snapshots s),
      rs_retained := rs_retained s + int (length (snap_data snap))\<rparr>"
    "rs_retained s1 \<le> rl_total rl"
    "s2 = (if file_matches ci rl src \<noteq> [] then s1\<lparr>rs_matched := rs_matched s1 @ [snap_path snap]\<rparr> else s1)"
    "(if changes_text ci rl src
       then record_change rl (snap_path snap) (snap_data snap) src (file_matches ci rl src) s2
       else Inr s2) = Inr s'"
proof -
  obtain snap where snap: "snapshot_file os w mb relative (min (rl_read rl)
        (min (rl_total rl - rs_read s) (rl_total rl - rs_retained s))) = Inr snap"
    using assms by (auto simp: consider_file_def Let_def rbind_eq_Inr split: if_splits)
  obtain src where src: "utf8_decode (snap_data snap) = Some src"
    using assms snap
    by (auto simp: consider_file_def Let_def rbind_eq_Inr split: if_splits option.splits)
  obtain spans where spans: "literal_match_spans ci src (rl_old rl) (rl_case rl)
        (rl_matches rl - rs_matches s) (rl_unique rl) = Inr spans"
    using assms snap src
    by (auto simp: consider_file_def Let_def rbind_eq_Inr split: if_splits)
  have sp: "spans = file_matches ci rl src"
      "spans \<noteq> [] \<longrightarrow> int (length spans) \<le> rl_matches rl - rs_matches s"
      "rl_unique rl \<longrightarrow> length spans \<le> 1"
    using bounded_spans_Inr spans unfolding literal_match_spans_def file_matches_def by fastforce+
  let ?c = "snap_path snap" and ?d = "snap_data snap" and ?m = "file_matches ci rl src"
  define s1 where "s1 = s\<lparr>rs_files := rs_files s + 1, rs_read := rs_read s + int (length ?d),
      rs_matches := rs_matches s + int (length ?m),
      rs_snapshots := AList.update ?c snap (rs_snapshots s),
      rs_retained := rs_retained s + int (length ?d)\<rparr>"
  define s2 where "s2 = (if ?m \<noteq> [] then s1\<lparr>rs_matched := rs_matched s1 @ [?c]\<rparr> else s1)"
  have "rs_retained s + int (length ?d) \<le> rl_total rl"
    and body: "(if changes_text ci rl src then record_change rl ?c ?d src ?m s2 else Inr s2) = Inr s'"
    using assms snap src spans unfolding s2_def s1_def changes_text_def sp(1) [symmetric]
    by (auto simp: consider_file_def Let_def rbind_eq_Inr split: if_splits)
  then have "rs_retained s1 \<le> rl_total rl" by (simp add: s1_def)
  moreover have "rs_matches s + int (length ?m) \<le> rl_matches rl" if "?m \<noteq> []"
    using sp that by simp
  ultimately show ?thesis
    using that [OF snap src _ _ s1_def _ s2_def body] sp by simp
qed

lemma accounts_unchanged:
  assumes "accounts_for ci rl vs snaps chs matched n" and "\<not> changes_text ci rl src"
  shows "accounts_for ci rl (vs @ [(snap, src)]) (AList.update (snap_path snap) snap snaps) chs
    (if file_matches ci rl src \<noteq> [] then matched @ [snap_path snap] else matched)
    (n + int (length (file_matches ci rl src)))"
proof -
  have "{v \<in> set (vs @ [(snap, src)]). changes_text ci rl (snd v)} = {v \<in> set vs. changes_text ci rl (snd v)}"
    using assms(2) by auto
  moreover have "\<forall>c\<in>set chs. sound_change ci rl (vs @ [(snap, src)]) c"
    using assms(1) sound_change_mono by (auto simp: accounts_for_def)
  moreover have "{v \<in> set (vs @ [(snap, src)]). file_matches ci rl (snd v) \<noteq> []}
      = (if file_matches ci rl src \<noteq> [] then insert (snap, src) else id)
          {v \<in> set vs. file_matches ci rl (snd v) \<noteq> []}" by auto
  ultimately show ?thesis
    using assms(1) update_set_subset [of "snap_path snap" snap snaps]
    unfolding accounts_for_def update_keys_set by (auto simp: verified_path_def)
qed

lemma accounts_changed:
  assumes "accounts_for ci rl vs snaps chs matched n" and "changes_text ci rl src"
    and "utf8_decode after
       = Some (replace_all (if rl_case rl then (=) else ci) (rl_old rl) (rl_new rl) src)"
    and "int (length after) \<le> rl_write rl"
  shows "accounts_for ci rl (vs @ [(snap, src)]) (AList.update (snap_path snap) snap snaps)
    (AList.update (snap_path snap) after chs)
    (if file_matches ci rl src \<noteq> [] then matched @ [snap_path snap] else matched)
    (n + int (length (file_matches ci rl src)))"
proof -
  have "{v \<in> set (vs @ [(snap, src)]). changes_text ci rl (snd v)}
      = insert (snap, src) {v \<in> set vs. changes_text ci rl (snd v)}"
    using assms(2) by auto
  moreover have "sound_change ci rl (vs @ [(snap, src)]) (snap_path snap, after)"
    using assms(2-4) by (auto simp: sound_change_def verified_path_def)
  then have "\<forall>c\<in>set (AList.update (snap_path snap) after chs). sound_change ci rl (vs @ [(snap, src)]) c"
    using assms(1) sound_change_mono update_set_subset [of "snap_path snap" after chs]
    by (auto simp: accounts_for_def)
  moreover have "{v \<in> set (vs @ [(snap, src)]). file_matches ci rl (snd v) \<noteq> []}
      = (if file_matches ci rl src \<noteq> [] then insert (snap, src) else id)
          {v \<in> set vs. file_matches ci rl (snd v) \<noteq> []}" by auto
  ultimately show ?thesis
    using assms(1) update_set_subset [of "snap_path snap" snap snaps]
    unfolding accounts_for_def update_keys_set by (auto simp: verified_path_def)
qed

lemma consider_file_sound:
  assumes "consider_file os w ci mb rl relative name s = Inr s'" and "rl_old rl \<noteq> []"
    and "sound_replace_state os w ci mb rl vs s"
  shows "\<exists>us. sound_replace_state os w ci mb rl us s'"
proof (cases "matches_glob (casefold os) name (rl_pattern rl) (rl_case rl)")
  case False
  then have "s' = s\<lparr>rs_files := rs_files s + 1\<rparr>"
    using assms(1) by (auto simp: consider_file_def Let_def split: if_splits)
  then have "sound_replace_state os w ci mb rl vs s'"
    using assms(3) by (simp add: sound_replace_state_def)
  then show ?thesis by blast
next
  case True
  obtain limit snap src s1 s2 where snap: "snapshot_file os w mb relative limit = Inr snap"
    and src: "utf8_decode (snap_data snap) = Some src"
    and few: "file_matches ci rl src \<noteq> [] \<Longrightarrow>
       rs_matches s + int (length (file_matches ci rl src)) \<le> rl_matches rl"
    and unique: "rl_unique rl \<Longrightarrow> length (file_matches ci rl src) \<le> 1"
    and s1: "s1 = s\<lparr>rs_files := rs_files s + 1, rs_read := rs_read s + int (length (snap_data snap)),
      rs_matches := rs_matches s + int (length (file_matches ci rl src)),
      rs_snapshots := AList.update (snap_path snap) snap (rs_snapshots s),
      rs_retained := rs_retained s + int (length (snap_data snap))\<rparr>"
    and le: "rs_retained s1 \<le> rl_total rl"
    and s2: "s2 = (if file_matches ci rl src \<noteq> [] then s1\<lparr>rs_matched := rs_matched s1 @ [snap_path snap]\<rparr> else s1)"
    and body: "(if changes_text ci rl src
       then record_change rl (snap_path snap) (snap_data snap) src (file_matches ci rl src) s2
       else Inr s2) = Inr s'"
    by (rule consider_file_Inr [OF assms(1) True]) blast
  let ?us = "vs @ [(snap, src)]"
  have acc: "accounts_for ci rl vs (rs_snapshots s) (rs_changes s) (rs_matched s) (rs_matches s)"
    using assms(3) by (simp add: sound_replace_state_def)
  have "(\<Sum>(_, d) \<leftarrow> rs_snapshots s1. int (length (snap_data d)))
      \<le> (\<Sum>(_, d) \<leftarrow> rs_snapshots s. int (length (snap_data d))) + int (length (snap_data snap))"
    using update_sum_le [of "\<lambda>d. int (length (snap_data d))" "snap_path snap" snap "rs_snapshots s"]
    by (simp add: s1)
  moreover have "rs_matches s + int (length (file_matches ci rl src)) \<le> max 0 (rl_matches rl)"
    using few assms(3) by (cases "file_matches ci rl src = []") (auto simp: sound_replace_state_def)
  moreover have "\<forall>v\<in>set ?us. verified_target os w mb rl ci v"
    using assms(3) snap src unique by (auto simp: sound_replace_state_def verified_target_def)
  moreover have "rs_retained s + int (length (snap_data snap)) \<le> max 0 (rl_total rl)"
    using le by (simp add: s1)
  ultimately have rest: "(\<forall>v\<in>set ?us. verified_target os w mb rl ci v)
     \<and> int (length (rs_changes s2)) \<le> max 0 (rl_changed rl)
     \<and> (\<Sum>(_, d) \<leftarrow> rs_snapshots s2. int (length (snap_data d)))
         + (\<Sum>(_, b) \<leftarrow> rs_changes s2. int (length b)) \<le> rs_retained s2
     \<and> rs_retained s2 \<le> max 0 (rl_total rl)
     \<and> 0 \<le> rs_matches s2 \<and> rs_matches s2 \<le> max 0 (rl_matches rl)
     \<and> distinct (List.map fst (rs_changes s2)) \<and> distinct (List.map fst (rs_snapshots s2))"
    using assms(3) le by (simp add: sound_replace_state_def s1 s2 distinct_update)
  show ?thesis
  proof (cases "changes_text ci rl src")
    case False
    then have s': "s' = s2" using body by simp
    have "accounts_for ci rl ?us (rs_snapshots s2) (rs_changes s2) (rs_matched s2) (rs_matches s2)"
      using accounts_unchanged [OF acc False, of snap]
      by (cases "file_matches ci rl src = []") (simp_all add: s1 s2)
    then show ?thesis using rest s' unfolding sound_replace_state_def by blast
  next
    case True
    have rc: "record_change rl (snap_path snap) (snap_data snap) src (file_matches ci rl src) s2 = Inr s'"
      using body True by simp
    obtain after where d: "utf8_decode after
        = Some (replace_all (if rl_case rl then (=) else ci) (rl_old rl) (rl_new rl) src)"
      and w: "int (length after) \<le> rl_write rl" and c: "int (length (rs_changes s2)) < rl_changed rl"
      and t: "rs_retained s2 + int (length after) \<le> rl_total rl"
      and s': "s' = s2\<lparr>rs_changes := AList.update (snap_path snap) after (rs_changes s2),
             rs_retained := rs_retained s2 + int (length after)\<rparr>"
      by (rule record_change_Inr [OF rc refl assms(2)]) blast
    have "accounts_for ci rl ?us (rs_snapshots s') (rs_changes s') (rs_matched s') (rs_matches s')"
      using accounts_changed [OF acc True d w, of snap]
      by (cases "file_matches ci rl src = []") (simp_all add: s' s1 s2)
    moreover have "int (length (rs_changes s')) \<le> max 0 (rl_changed rl)"
      using update_length_le [of "snap_path snap" after "rs_changes s2"] c by (simp add: s')
    moreover have "(\<Sum>(_, b) \<leftarrow> rs_changes s'. int (length b))
        \<le> (\<Sum>(_, b) \<leftarrow> rs_changes s2. int (length b)) + int (length after)"
      using update_sum_le [of "\<lambda>b. int (length b)" "snap_path snap" after "rs_changes s2"] by (simp add: s')
    ultimately have "sound_replace_state os w ci mb rl ?us s'"
      using rest t by (simp add: sound_replace_state_def s' distinct_update)
    then show ?thesis by blast
  qed
qed

text \<open>What the walk leaves of a directory entry: every file that it selects has its snapshot.\<close>

definition selected :: "os_env \<Rightarrow> workspace \<Rightarrow> replace_limits \<Rightarrow> path \<Rightarrow> dir_entry \<Rightarrow> bool" where
  "selected os w rl dir c \<longleftrightarrow>
     entry_stat c = StatFile \<and> \<not> is_hidden os w (dir @ [entry_name c])
     \<and> matches_glob (casefold os) (entry_name c) (rl_pattern rl) (rl_case rl)"

definition retained :: "os_env \<Rightarrow> workspace \<Rightarrow> int \<Rightarrow> (string \<times> file_snapshot) list \<Rightarrow> string \<Rightarrow> bool" where
  "retained os w mb snaps relative \<longleftrightarrow>
     (\<exists>limit snap. snapshot_file os w mb relative limit = Inr snap \<and> snap_path snap \<in> fst ` set snaps)"

definition covered ::
  "os_env \<Rightarrow> workspace \<Rightarrow> int \<Rightarrow> replace_limits \<Rightarrow> (string \<times> file_snapshot) list \<Rightarrow> path \<Rightarrow> dir_entry \<Rightarrow> bool" where
  "covered os w mb rl snaps dir c \<longleftrightarrow>
     selected os w rl dir c \<longrightarrow>
     (\<exists>relative. ws_relative os w (dir @ [entry_name c]) = Inr relative \<and> retained os w mb snaps relative)"

text \<open>The directory that a visit queues: a listed directory, not hidden, above the depth limit.\<close>

definition replace_leads :: "os_env \<Rightarrow> workspace \<Rightarrow> replace_limits \<Rightarrow> path \<Rightarrow> int \<Rightarrow> dir_entry \<Rightarrow> path option" where
  "replace_leads os w rl dir depth c =
     (if entry_stat c = StatDirectory \<and> \<not> is_hidden os w (dir @ [entry_name c]) \<and> depth < rl_depth rl
      then case ws_relative os w (dir @ [entry_name c]) of
          Inr relative \<Rightarrow> (case resolve_directory os w relative ReadAccess of Inr d \<Rightarrow> Some d | Inl _ \<Rightarrow> None)
        | Inl _ \<Rightarrow> None
      else None)"

lemma consider_file_retains:
  assumes "consider_file os w ci mb rl relative name s = Inr s'"
  shows "fst ` set (rs_snapshots s) \<subseteq> fst ` set (rs_snapshots s')
    \<and> (matches_glob (casefold os) name (rl_pattern rl) (rl_case rl)
        \<longrightarrow> retained os w mb (rs_snapshots s') relative)"
proof (cases "matches_glob (casefold os) name (rl_pattern rl) (rl_case rl)")
  case False
  then show ?thesis using assms by (auto simp: consider_file_def Let_def split: if_splits)
next
  case True
  obtain limit snap src s1 s2 where snap: "snapshot_file os w mb relative limit = Inr snap"
    and s1: "s1 = s\<lparr>rs_files := rs_files s + 1, rs_read := rs_read s + int (length (snap_data snap)),
      rs_matches := rs_matches s + int (length (file_matches ci rl src)),
      rs_snapshots := AList.update (snap_path snap) snap (rs_snapshots s),
      rs_retained := rs_retained s + int (length (snap_data snap))\<rparr>"
    and s2: "s2 = (if file_matches ci rl src \<noteq> [] then s1\<lparr>rs_matched := rs_matched s1 @ [snap_path snap]\<rparr> else s1)"
    and body: "(if changes_text ci rl src
       then record_change rl (snap_path snap) (snap_data snap) src (file_matches ci rl src) s2
       else Inr s2) = Inr s'"
    by (rule consider_file_Inr [OF assms True]) blast
  have "rs_snapshots s' = rs_snapshots s2"
    using body by (auto simp: record_change_def Let_def split: if_splits option.splits)
  then have "rs_snapshots s' = AList.update (snap_path snap) snap (rs_snapshots s)"
    by (simp add: s1 s2)
  then show ?thesis using snap by (auto simp: retained_def update_keys_set)
qed

lemma visit_replace_leads:
  "visit_replace os w ci mb rl dir depth s child = Inr (s', q) \<Longrightarrow>
   q = replace_leads os w rl dir depth child"
  by (auto simp: visit_replace_def replace_leads_def classify_entry_def rbind_eq_Inr Let_def
      split: entry_stat.splits if_splits)

lemma visit_replace_cases:
  assumes "visit_replace os w ci mb rl dir depth s child = Inr (s', q)"
  obtains (skipped) "s' = s" "\<not> selected os w rl dir child"
  | (considered) relative where "ws_relative os w (dir @ [entry_name child]) = Inr relative"
      "consider_file os w ci mb rl relative (entry_name child) s = Inr s'"
  using assms
  by (auto simp: visit_replace_def selected_def classify_entry_def rbind_eq_Inr Let_def
      split: entry_stat.splits if_splits)

lemma visit_replace_sound:
  assumes "visit_replace os w ci mb rl dir depth s child = Inr (s', q)" and "rl_old rl \<noteq> []"
    and "\<exists>vs. sound_replace_state os w ci mb rl vs s"
  shows "\<exists>vs. sound_replace_state os w ci mb rl vs s'"
  using assms(1)
proof (cases rule: visit_replace_cases)
  case skipped
  then show ?thesis using assms(3) by simp
next
  case (considered relative)
  then show ?thesis using consider_file_sound [OF _ assms(2)] assms(3) by blast
qed

lemma visit_replace_retains:
  assumes "visit_replace os w ci mb rl dir depth s child = Inr (s', q)"
  shows "fst ` set (rs_snapshots s) \<subseteq> fst ` set (rs_snapshots s')
    \<and> covered os w mb rl (rs_snapshots s') dir child"
  using assms
proof (cases rule: visit_replace_cases)
  case skipped
  then show ?thesis by (simp add: covered_def)
next
  case (considered relative)
  then show ?thesis using consider_file_retains [OF considered(2)] by (auto simp: covered_def selected_def)
qed

lemma covered_mono:
  "fst ` set m \<subseteq> fst ` set m' \<Longrightarrow> covered os w mb rl m dir c \<Longrightarrow> covered os w mb rl m' dir c"
  unfolding covered_def retained_def by blast

lemma traverse_replace_covers:
  assumes "traverse cf scan b (visit_replace os w ci mb rl) limit n pending k s = Inr (scanned, out)"
    and "reached scan (replace_leads os w rl) limit pending d depth" and "depth < limit"
    and "c \<in> set (scan d)"
  shows "covered os w mb rl (rs_snapshots out) d c"
proof -
  have "(\<forall>d c. covered os w mb rl (rs_snapshots s) d c \<longrightarrow> covered os w mb rl (rs_snapshots out) d c)
    \<and> (\<forall>d k c. reached scan (replace_leads os w rl) limit pending d k \<longrightarrow> k < limit \<longrightarrow> c \<in> set (scan d)
        \<longrightarrow> covered os w mb rl (rs_snapshots out) d c)"
    by (rule traverse_covers [where D = "\<lambda>s. covered os w mb rl (rs_snapshots s)", OF _ _ _ assms(1)])
      (blast dest: visit_replace_leads visit_replace_retains intro: covered_mono)+
  then show ?thesis using assms(2-4) by blast
qed

lemma order_pairs_set [simp]: "set (order_pairs cf m) = set m"
  by (simp add: order_pairs_def)

lemma order_pairs_length [simp]: "length (order_pairs cf m) = length m"
  by (simp add: order_pairs_def)

lemma order_pairs_sum [simp]:
  "sum_list (List.map f (order_pairs cf m)) = sum_list (List.map (f :: _ \<Rightarrow> int) m)"
  unfolding order_pairs_def sum_mset_sum_list [symmetric] mset_map by (simp only: mset_sort)

lemma retained_order [simp]: "retained os w mb (order_pairs cf m) = retained os w mb m"
  by (simp add: retained_def fun_eq_iff)

lemma covered_order [simp]: "covered os w mb rl (order_pairs cf m) = covered os w mb rl m"
  by (simp add: covered_def fun_eq_iff)

lemma setting_value_positive: "setting_value v d = Inr n \<Longrightarrow> 0 < d \<Longrightarrow> 0 < n"
  by (auto simp: setting_value_def split: pyval.splits if_splits)

lemma replace_limits_Inr:
  assumes "replace_limits_of st rq = Inr rl"
  shows "rl_old rl \<noteq> [] \<and> 0 \<le> rl_entries rl \<and> 0 \<le> rl_total rl \<and> 0 \<le> rl_matches rl \<and> 0 \<le> rl_changed rl"
proof -
  obtain old new cs where t: "validate_text_inputs (rq_old rq) (rq_new rq) (rq_case_sensitive rq)
      = Inr (old, new, cs)"
    using assms by (auto simp: replace_limits_of_def rbind_eq_Inr)
  obtain expected where x: "validate_expected_matches (rq_expected rq) = Inr expected"
    using assms t
    by (cases "validate_expected_matches (rq_expected rq)") (simp_all add: replace_limits_of_def)
  obtain pattern where g: "validate_file_glob (rq_glob rq) = Inr pattern"
    using assms t x by (cases "validate_file_glob (rq_glob rq)") (simp_all add: replace_limits_of_def)
  obtain pat where pat: "pattern = Some pat"
    using assms t x g by (cases pattern) (simp_all add: replace_limits_of_def)
  obtain mode where mode: "rq_mode rq = Py mode"
    using assms t x g pat by (cases "rq_mode rq") (simp_all add: replace_limits_of_def)
  obtain ob nb where e: "utf8_encode old = Some ob" "utf8_encode new = Some nb"
    using assms t x g pat mode
    by (cases "utf8_encode old"; cases "utf8_encode new")
      (auto simp: replace_limits_of_def rbind_eq_Inr)
  obtain depth entries files total results matches hl changed rd wr where
      en: "directory_entry_limit st (rq_max_entries rq) = Inr entries"
    and to: "request_total_byte_limit st (rq_max_total_bytes rq) files = Inr total"
    and ma: "request_limit (rq_max_matches rq) results results True = Inr matches"
    and ch: "request_limit (rq_max_changed_files rq) files (min files hl) True = Inr changed"
    and rl: "rl = \<lparr>rl_old = old, rl_new = new, rl_case = cs, rl_expected = expected, rl_pattern = pat,
                    rl_unique = (mode = MatchUniquePerFile), rl_depth = depth, rl_entries = entries,
                    rl_files = files, rl_total = total, rl_matches = matches, rl_changed = changed,
                    rl_read = rd, rl_write = wr\<rparr>"
    using assms t x g pat mode e
    by (auto simp: replace_limits_of_def rbind_eq_Inr split: if_splits)
  have "old \<noteq> []" using t by (auto simp: validate_text_inputs_def split: pyval.splits if_splits)
  moreover have "0 \<le> entries"
    using en request_limit_Inr by (fastforce simp: directory_entry_limit_def rbind_eq_Inr)
  moreover have "0 \<le> total"
    using to by (auto simp: request_total_byte_limit_def rbind_eq_Inr Let_def dest: request_limit_Inr)
  moreover have "0 \<le> matches" "0 \<le> changed" using request_limit_Inr [OF ma] request_limit_Inr [OF ch] by auto
  ultimately show ?thesis using rl by simp
qed

text \<open>
  The plan of a request: where its walk starts and what the walk left.
\<close>

lemma plan_workspace_replace_Inr:
  assumes "plan_workspace_replace os w scan ci st rq = Inr (plan, summary)"
    and "replace_limits_of st rq = Inr rl"
  obtains path root relative scanned s where "rq_path rq = Py path"
    "resolve_existing os w path True ReadAccess True = Inr root" "ws_relative os w root = Inr relative"
    "if os_is_dir os root
     then traverse (casefold os) scan True (visit_replace os w ci (max_backup_bytes st) rl)
            (rl_depth rl) (rl_entries rl) [(root, 0)] 0 empty_replace_state = Inr (scanned, s)
     else scanned = 0 \<and> consider_file os w ci (max_backup_bytes st) rl relative
            (file_name_of relative) empty_replace_state = Inr s"
    "rl_expected rl = None \<or> rl_expected rl = Some (rs_matches s)"
    "snapshots plan = order_pairs (casefold os) (rs_snapshots s)"
    "changes plan = order_pairs (casefold os) (rs_changes s)"
    "set (sm_matched summary) = set (rs_matched s)" "sm_matches summary = rs_matches s"
    "sm_entries summary = scanned"
proof -
  obtain path where path: "rq_path rq = Py path"
    using assms by (cases "rq_path rq") (auto simp: plan_workspace_replace_def)
  obtain root where root: "resolve_existing os w path True ReadAccess True = Inr root"
    using assms path
    by (cases "resolve_existing os w path True ReadAccess True") (simp_all add: plan_workspace_replace_def)
  obtain rel where rel: "ws_relative os w root = Inr rel"
    using assms path root by (cases "ws_relative os w root") (simp_all add: plan_workspace_replace_def)
  let ?walk = "if os_is_dir os root
                then traverse (casefold os) scan True (visit_replace os w ci (max_backup_bytes st) rl)
                       (rl_depth rl) (rl_entries rl) [(root, 0)] 0 empty_replace_state
                else rbind (consider_file os w ci (max_backup_bytes st) rl rel
                              (file_name_of rel) empty_replace_state)
                       (\<lambda>s. Inr (0, s))"
  obtain scanned s where walk: "?walk = Inr (scanned, s)"
    using assms path root rel by (cases ?walk) (auto simp: plan_workspace_replace_def)
  have "rl_expected rl = None \<or> rl_expected rl = Some (rs_matches s)"
      "snapshots plan = order_pairs (casefold os) (rs_snapshots s)"
      "changes plan = order_pairs (casefold os) (rs_changes s)"
      "set (sm_matched summary) = set (rs_matched s)"
      "sm_matches summary = rs_matches s" "sm_entries summary = scanned"
    using assms path root rel walk
    by (simp_all add: plan_workspace_replace_def Let_def empty_plan_def split: if_splits option.splits) auto
  then show ?thesis using that [OF path root rel] walk by (auto simp: rbind_eq_Inr split: if_splits)
qed

text \<open>
  C24. A replacement plan is exact. It accounts for a list of files, each read through a verified
  snapshot (readable and writable under the policy) as UTF-8 text: the snapshots are theirs, the
  matched paths are those of the files with a match, the match count is the sum of all matches in
  their texts and equals the expected count when one was given, the changed paths are those of the
  files in which a match differs from the new text, and each change is the text in which all
  matches, and nothing else, are exchanged. Every file below the path that is not hidden and whose
  name matches the pattern, in a directory above the depth limit, has its snapshot in the plan, and
  so has the path itself when it is a matching file. Files changed, bytes retained, matches and
  inspected entries stay within the limits of the request.
\<close>

theorem workspace_replace_sound:
  assumes "plan_workspace_replace os w scan ci st rq = Inr (plan, summary)"
    and "replace_limits_of st rq = Inr rl" and "rq_path rq = Py path"
    and "resolve_existing os w path True ReadAccess True = Inr root"
  shows "(\<exists>vs. (\<forall>v\<in>set vs. verified_target os w (max_backup_bytes st) rl ci v)
        \<and> accounts_for ci rl vs (snapshots plan) (changes plan) (sm_matched summary) (sm_matches summary))
    \<and> (if os_is_dir os root
        then \<forall>d k. reached scan (replace_leads os w rl) (rl_depth rl) [(root, 0)] d k \<longrightarrow> k < rl_depth rl \<longrightarrow>
          (\<forall>c\<in>set (scan d). covered os w (max_backup_bytes st) rl (snapshots plan) d c)
        else \<exists>relative. ws_relative os w root = Inr relative \<and>
          (matches_glob (casefold os) (file_name_of relative) (rl_pattern rl) (rl_case rl) \<longrightarrow>
           retained os w (max_backup_bytes st) (snapshots plan) relative))
    \<and> int (length (changes plan)) \<le> rl_changed rl \<and> retained_bytes plan \<le> rl_total rl
    \<and> 0 \<le> sm_matches summary \<and> sm_matches summary \<le> rl_matches rl
    \<and> (rl_expected rl = None \<or> rl_expected rl = Some (sm_matches summary))
    \<and> sm_entries summary \<le> rl_entries rl"
proof -
  note lim = replace_limits_Inr [OF assms(2)]
  let ?mb = "max_backup_bytes st"
  let ?P = "\<lambda>s. \<exists>vs. sound_replace_state os w ci ?mb rl vs s"
  obtain relative scanned s where rel: "ws_relative os w root = Inr relative"
    and walk: "if os_is_dir os root
     then traverse (casefold os) scan True (visit_replace os w ci ?mb rl)
            (rl_depth rl) (rl_entries rl) [(root, 0)] 0 empty_replace_state = Inr (scanned, s)
     else scanned = 0 \<and> consider_file os w ci ?mb rl relative
            (file_name_of relative) empty_replace_state = Inr s"
    and out: "rl_expected rl = None \<or> rl_expected rl = Some (rs_matches s)"
      "snapshots plan = order_pairs (casefold os) (rs_snapshots s)"
      "changes plan = order_pairs (casefold os) (rs_changes s)"
      "set (sm_matched summary) = set (rs_matched s)" "sm_matches summary = rs_matches s"
      "sm_entries summary = scanned"
    by (rule plan_workspace_replace_Inr [OF assms(1,2)]) (use assms(3,4) in auto)
  have empty: "?P empty_replace_state" using empty_replace_sound by blast
  have bound: "?P s \<and> 0 \<le> scanned \<and> scanned \<le> rl_entries rl"
  proof (cases "os_is_dir os root")
    case True
    show ?thesis
      by (rule traverse_invariant [where P = ?P and acc = empty_replace_state and pending = "[(root, 0)]"
            and scanned = 0 and depth_limit = "rl_depth rl" and cf = "casefold os" and scan = scan
            and b = True and visit = "visit_replace os w ci ?mb rl"])
        (use visit_replace_sound lim empty walk True in auto)
  next
    case False
    then have "consider_file os w ci ?mb rl relative (file_name_of relative) empty_replace_state = Inr s"
      and "scanned = 0" using walk by simp_all
    then show ?thesis
      using lim consider_file_sound [OF _ conjunct1 [OF lim] empty_replace_sound] by auto
  qed
  then obtain vs where vs: "sound_replace_state os w ci ?mb rl vs s" by blast
  have "accounts_for ci rl vs (snapshots plan) (changes plan) (sm_matched summary) (sm_matches summary)"
    using vs by (simp add: sound_replace_state_def accounts_for_def out)
  moreover have "if os_is_dir os root
      then \<forall>d k. reached scan (replace_leads os w rl) (rl_depth rl) [(root, 0)] d k \<longrightarrow> k < rl_depth rl \<longrightarrow>
        (\<forall>c\<in>set (scan d). covered os w ?mb rl (snapshots plan) d c)
      else \<exists>relative. ws_relative os w root = Inr relative \<and>
        (matches_glob (casefold os) (file_name_of relative) (rl_pattern rl) (rl_case rl) \<longrightarrow>
         retained os w ?mb (snapshots plan) relative)"
  proof (cases "os_is_dir os root")
    case True
    then have "traverse (casefold os) scan True (visit_replace os w ci ?mb rl)
        (rl_depth rl) (rl_entries rl) [(root, 0)] 0 empty_replace_state = Inr (scanned, s)"
      using walk by simp
    from traverse_replace_covers [OF this] True show ?thesis by (simp add: out)
  next
    case False
    then have "consider_file os w ci ?mb rl relative (file_name_of relative) empty_replace_state = Inr s"
      using walk by simp
    from consider_file_retains [OF this] False show ?thesis by (simp add: out rel)
  qed
  ultimately show ?thesis
    using vs out lim bound
    by (auto simp: sound_replace_state_def retained_bytes_def case_prod_unfold)
qed

definition demo_replace_request :: replace_request where
  "demo_replace_request =
     \<lparr>rq_path = Py ''.'', rq_old = Py [105], rq_new = Py [111, 105], rq_glob = Py ''*.txt'',
      rq_case_sensitive = Py True, rq_expected = Py 1, rq_mode = Py MatchAll,
      rq_max_depth = Missing, rq_max_entries = Missing, rq_max_files = Missing,
      rq_max_total_bytes = Missing, rq_max_matches = Missing, rq_max_changed_files = Missing\<rparr>"

lemma workspace_replace_sound_witness:
  "\<exists>plan summary rl vs. plan_workspace_replace (listed_os demo_tree) demo_workspace demo_scan (=)
        demo_read_settings demo_replace_request = Inr (plan, summary) \<and>
     changes plan = [(''src/a.txt'', [104, 111, 105])] \<and>
     accounts_for (=) rl vs (snapshots plan) (changes plan) (sm_matched summary) 1 \<and>
     retained_bytes plan \<le> rl_total rl"
proof -
  let ?os = "listed_os demo_tree"
  let ?r = "plan_workspace_replace ?os demo_workspace demo_scan (=) demo_read_settings demo_replace_request"
  have h: "(case ?r of Inr (plan, summary) \<Rightarrow> changes plan = [(''src/a.txt'', [104, 111, 105])] \<and> sm_matches summary = 1
      | Inl _ \<Rightarrow> False)"
    by code_simp
  then obtain plan summary where r: "?r = Inr (plan, summary)" by (cases ?r) auto
  have "(case replace_limits_of demo_read_settings demo_replace_request of Inr _ \<Rightarrow> True | Inl _ \<Rightarrow> False)"
    by code_simp
  then obtain rl where l: "replace_limits_of demo_read_settings demo_replace_request = Inr rl"
    by (cases "replace_limits_of demo_read_settings demo_replace_request") auto
  have p: "rq_path demo_replace_request = Py ''.''" by (simp add: demo_replace_request_def)
  have "(case resolve_existing ?os demo_workspace ''.'' True ReadAccess True of Inr _ \<Rightarrow> True | Inl _ \<Rightarrow> False)"
    by code_simp
  then obtain root where root: "resolve_existing ?os demo_workspace ''.'' True ReadAccess True = Inr root"
    by (cases "resolve_existing ?os demo_workspace ''.'' True ReadAccess True") auto
  note sound = workspace_replace_sound [OF r l p root]
  have m: "changes plan = [(''src/a.txt'', [104, 111, 105])]" "sm_matches summary = 1"
    using h r by simp_all
  obtain vs where "accounts_for (=) rl vs (snapshots plan) (changes plan) (sm_matched summary)
      (sm_matches summary)"
    using sound by blast
  moreover have "retained_bytes plan \<le> rl_total rl" using sound by blast
  ultimately show ?thesis using r m by (metis (no_types, lifting))
qed

end
