(* ===== verification/Batch.thy ===== *)
theory Batch
  imports Plan
begin

text \<open>
  Planning of a workspace batch (\<open>workspace_batch.py\<close>): an ordered list of mkdir, create, replace,
  copy, move and delete operations is run on a virtual file state, and the plan collects what the
  commit must find (snapshots, absent paths) and what it will do (changes, deletions, directories).
  The main result says that committing the plan has the effect of running the operations one after
  the other on the disk.
\<close>

section \<open>Operations and planner state\<close>

record batch_settings =
  set_max_files :: "int pyval"
  set_max_text :: "int pyval"
  set_max_write :: "int pyval"
  set_max_total :: "int pyval"
  set_max_artifact :: "int pyval"

record batch_limits =
  bl_files :: int
  bl_text :: int
  bl_write :: int
  bl_total :: int
  bl_artifact :: int

text \<open>
  One operation object: the names of the fields it has, and the value of each field the planner
  reads. A missing \<open>expected_sha256\<close> and an explicit \<open>None\<close> are both \<open>Missing\<close>.
\<close>

record batch_operation =
  bo_keys :: "string set"
  bo_op :: "string pyval"
  bo_path :: "string pyval"
  bo_source :: "string pyval"
  bo_destination :: "string pyval"
  bo_expected :: "string pyval"
  bo_content :: "utext pyval"
  bo_old :: "utext pyval"
  bo_new :: "utext pyval"

record file_state =
  fs_path :: string
  fs_data :: bytes
  fs_existing :: bool
  fs_modified :: bool
  fs_replacements :: nat
  fs_moved :: bool

record planner =
  bp_plan :: workspace_plan
  bp_files :: "(string \<times> file_state) list"
  bp_directories :: "(string \<times> string) list"
  bp_removed :: "string set"
  bp_spellings :: "(string \<times> string) list"
  bp_copied :: "string set"
  bp_total :: int
  bp_counts :: "(string \<times> nat) list"

definition positive_limit :: "int pyval \<Rightarrow> int res" where
  "positive_limit v =
     (case v of
        Py n \<Rightarrow> if n \<le> 0 then Inl (ValueError ''limit must be a positive integer'') else Inr n
      | _ \<Rightarrow> Inl (ValueError ''limit must be a positive integer''))"

definition operation_names :: "string list" where
  "operation_names = [''mkdir'', ''create'', ''replace'', ''copy'', ''move'', ''delete'']"

definition make_planner :: "batch_settings \<Rightarrow> (batch_limits \<times> planner) res" where
  "make_planner st =
     rbind (positive_limit (set_max_files st)) (\<lambda>files.
     rbind (positive_limit (set_max_text st)) (\<lambda>txt.
     rbind (positive_limit (set_max_write st)) (\<lambda>wr.
     rbind (positive_limit (set_max_total st)) (\<lambda>total.
     rbind (positive_limit (set_max_artifact st)) (\<lambda>artifact.
     Inr (\<lparr>bl_files = files, bl_text = txt, bl_write = wr, bl_total = total, bl_artifact = artifact\<rparr>,
          \<lparr>bp_plan = empty_plan ''workspace_batch'', bp_files = [], bp_directories = [],
           bp_removed = {}, bp_spellings = [], bp_copied = {}, bp_total = 0,
           bp_counts = List.map (\<lambda>n. (n, 0)) operation_names\<rparr>))))))"

section \<open>Paths and limits\<close>

definition to_posix_sep :: "char \<Rightarrow> char" where
  "to_posix_sep c = (if c = backslash then CHR ''/'' else c)"

definition batch_key :: "os_env \<Rightarrow> string \<Rightarrow> string" where
  "batch_key os p = casefold os (List.map to_posix_sep p)"

definition claim_path :: "os_env \<Rightarrow> planner \<Rightarrow> string pyval \<Rightarrow> (string \<times> planner) res" where
  "claim_path os s v =
     (case v of
        Py value \<Rightarrow>
          if value = [] then Inl (ValueError ''field must be a non-empty string'')
          else if list_ex (\<lambda>part. part = ''.'' \<or> part = ''..'') (windows_parts value)
          then Inl (PermissionError ''field must not contain traversal components'')
          else rbind (validate_windows_syntax value) (\<lambda>_.
            let spelling = windows_as_posix value; key = batch_key os spelling in
            if map_of (bp_spellings s) key \<noteq> None \<and> map_of (bp_spellings s) key \<noteq> Some spelling
            then Inl (ValueError ''workspace batch contains a case-colliding path alias'')
            else Inr (value, s\<lparr>bp_spellings := AList.update key spelling (bp_spellings s)\<rparr>))
      | _ \<Rightarrow> Inl (ValueError ''field must be a non-empty string''))"

definition validate_fields :: "string set \<Rightarrow> string set \<Rightarrow> string set \<Rightarrow> unit res" where
  "validate_fields keys required optional =
     (if required - keys \<noteq> {}
      then Inl (ValueError ''workspace batch operation is missing fields'')
      else if keys - required - optional \<noteq> {}
      then Inl (ValueError ''unsupported workspace batch fields'')
      else Inr ())"

definition expected_hash :: "batch_operation \<Rightarrow> string option res" where
  "expected_hash ope =
     (case bo_expected ope of
        Missing \<Rightarrow> Inr None
      | BadType \<Rightarrow> Inl (ValueError ''expected_sha256 must be a lowercase SHA-256 digest'')
      | Py e \<Rightarrow> if is_sha256_hex e then Inr (Some e)
                else Inl (ValueError ''expected_sha256 must be a lowercase SHA-256 digest''))"

definition charge :: "batch_limits \<Rightarrow> int \<Rightarrow> planner \<Rightarrow> planner res" where
  "charge lim n s =
     (if bl_total lim < bp_total s + n
      then Inl (ValueError ''workspace batch exceeds max_high_level_total_bytes'')
      else Inr (s\<lparr>bp_total := bp_total s + n\<rparr>))"

definition require_parent :: "os_env \<Rightarrow> workspace \<Rightarrow> planner \<Rightarrow> string \<Rightarrow> unit res" where
  "require_parent os w s relative =
     (let parent = path_parent (join_user (ws_root w) relative) in
      if path_eq os parent (ws_root w) then Inr ()
      else rbind (relative_lexical os w parent) (\<lambda>parent_relative.
        let parent_key = batch_key os parent_relative in
        if map_of (bp_directories s) parent_key \<noteq> None then Inr ()
        else if map_of (bp_files s) parent_key \<noteq> None \<or> parent_key \<in> bp_removed s
        then Inl (NotADirectory ''workspace batch parent is not a directory'')
        else rbind (resolve_directory os w parent_relative WriteAccess) (\<lambda>_. Inr ())))"

definition used_key :: "planner \<Rightarrow> string \<Rightarrow> bool" where
  "used_key s key \<longleftrightarrow>
     map_of (bp_files s) key \<noteq> None \<or> map_of (bp_directories s) key \<noteq> None \<or> key \<in> bp_removed s"

definition new_file_target ::
  "os_env \<Rightarrow> workspace \<Rightarrow> planner \<Rightarrow> string pyval \<Rightarrow> (string \<times> planner) res" where
  "new_file_target os w s raw =
     rbind (claim_path os s raw) (\<lambda>(path, s1).
     rbind (resolve_planned_write os w path) (\<lambda>target.
     rbind (relative_lexical os w target) (\<lambda>relative.
     if os_exists os target
     then Inl (FileExists ''workspace batch destination already exists'')
     else if used_key s1 (batch_key os relative)
     then Inl (ValueError ''workspace batch destination is already used'')
     else rbind (require_parent os w s1 relative) (\<lambda>_.
       let p = bp_plan s1 in
       Inr (relative, s1\<lparr>bp_plan := p\<lparr>absent := insert relative (absent p)\<rparr>\<rparr>)))))"

definition track_file :: "batch_limits \<Rightarrow> file_snapshot \<Rightarrow> string \<Rightarrow> planner \<Rightarrow> planner res" where
  "track_file lim snap key s =
     (let p = bp_plan s in
      rbind (charge lim (int (length (snap_data snap)))
              (s\<lparr>bp_plan := p\<lparr>snapshots := AList.update (snap_path snap) snap (snapshots p)\<rparr>\<rparr>))
        (\<lambda>s'. Inr (s'\<lparr>bp_files := AList.update key
                   \<lparr>fs_path = snap_path snap, fs_data = snap_data snap, fs_existing = True,
                    fs_modified = False, fs_replacements = 0, fs_moved = False\<rparr> (bp_files s')\<rparr>)))"

definition load_file ::
  "os_env \<Rightarrow> workspace \<Rightarrow> int \<Rightarrow> batch_limits \<Rightarrow> planner \<Rightarrow> string pyval \<Rightarrow> int \<Rightarrow>
   (string \<times> file_state \<times> planner) res" where
  "load_file os w mb lim s raw max_bytes =
     rbind (claim_path os s raw) (\<lambda>(path, s1).
     let requested_key = batch_key os (windows_as_posix path) in
     if requested_key \<in> bp_removed s1
     then Inl (FileNotFound ''workspace batch source was already removed'')
     else case map_of (bp_files s1) requested_key of
       Some st \<Rightarrow>
         if max_bytes < int (length (fs_data st))
         then Inl (ValueError ''workspace plan file exceeds byte limit'')
         else Inr (requested_key, st, s1)
     | None \<Rightarrow>
         let remaining = bl_total lim - bp_total s1 in
         if remaining \<le> 0
         then Inl (ValueError ''workspace batch exceeds max_high_level_total_bytes'')
         else rbind (snapshot_file os w mb path (min max_bytes remaining)) (\<lambda>snap.
           let key = batch_key os (snap_path snap) in
           if key \<in> bp_removed s1
           then Inl (FileNotFound ''workspace batch source was already removed'')
           else case map_of (bp_files s1) key of
             Some prior \<Rightarrow>
               if max_bytes < int (length (fs_data prior))
               then Inl (ValueError ''workspace plan file exceeds byte limit'')
               else Inr (key, prior, s1)
           | None \<Rightarrow>
               rbind (track_file lim snap key s1) (\<lambda>s2.
               Inr (key, \<lparr>fs_path = snap_path snap, fs_data = snap_data snap, fs_existing = True,
                          fs_modified = False, fs_replacements = 0, fs_moved = False\<rparr>, s2))))"

definition verify_expected :: "(bytes \<Rightarrow> string) \<Rightarrow> file_state \<Rightarrow> string option \<Rightarrow> unit res" where
  "verify_expected sha st e =
     (if e \<noteq> None \<and> Some (sha (fs_data st)) \<noteq> e
      then Inl (RuntimeError ''expected_sha256 mismatch; source is stale or concurrently modified'')
      else Inr ())"

definition encode_text :: "utext \<Rightarrow> bytes res" where
  "encode_text v =
     (if 0 \<in> set v then Inl (ValueError ''field must not contain NUL'')
      else case utf8_encode v of
             None \<Rightarrow> Inl (ValueError ''field must be valid Unicode text'')
           | Some b \<Rightarrow> Inr b)"

section \<open>The operations\<close>

definition batch_mkdir :: "os_env \<Rightarrow> workspace \<Rightarrow> batch_operation \<Rightarrow> planner \<Rightarrow> planner res" where
  "batch_mkdir os w ope s =
     rbind (validate_fields (bo_keys ope) {''op'', ''path''} {}) (\<lambda>_.
     rbind (claim_path os s (bo_path ope)) (\<lambda>(path, s1).
     rbind (resolve_directory_target os w path True) (\<lambda>target.
     rbind (relative_lexical os w target) (\<lambda>relative.
     let key = batch_key os relative in
     if os_exists os target
     then Inl (FileExists ''workspace batch directory already exists'')
     else if used_key s1 key
     then Inl (ValueError ''workspace batch destination is already used'')
     else rbind (require_parent os w s1 relative) (\<lambda>_.
       let p = bp_plan s1 in
       Inr (s1\<lparr>bp_directories := AList.update key relative (bp_directories s1),
               bp_plan := p\<lparr>directories := insert relative (directories p),
                            absent := insert relative (absent p)\<rparr>\<rparr>))))))"

text \<open>A new or rewritten virtual file: the planner's file table and the plan's changes together.\<close>

definition put_file :: "string \<Rightarrow> file_state \<Rightarrow> planner \<Rightarrow> planner" where
  "put_file key st s =
     s\<lparr>bp_files := AList.update key st (bp_files s),
       bp_plan := (bp_plan s)\<lparr>changes := AList.update (fs_path st) (fs_data st) (changes (bp_plan s))\<rparr>\<rparr>"

definition batch_create ::
  "os_env \<Rightarrow> workspace \<Rightarrow> batch_limits \<Rightarrow> batch_operation \<Rightarrow> planner \<Rightarrow> planner res" where
  "batch_create os w lim ope s =
     rbind (validate_fields (bo_keys ope) {''op'', ''path'', ''content''} {}) (\<lambda>_.
     case bo_content ope of
       Py content \<Rightarrow>
         if bl_write lim < int (length content)
         then Inl (ValueError ''created file exceeds max_write_bytes'')
         else rbind (encode_text content) (\<lambda>data.
           if bl_write lim < int (length data)
           then Inl (ValueError ''created file exceeds max_write_bytes'')
           else rbind (new_file_target os w s (bo_path ope)) (\<lambda>(relative, s1).
                rbind (charge lim (int (length data)) s1) (\<lambda>s2.
                Inr (put_file (batch_key os relative)
                       \<lparr>fs_path = relative, fs_data = data, fs_existing = False, fs_modified = True,
                        fs_replacements = 0, fs_moved = False\<rparr> s2))))
     | _ \<Rightarrow> Inl (TypeError ''content must be a string''))"

text \<open>The guards on the two texts of a replacement, in the order of the code.\<close>

definition replacement_texts ::
  "batch_limits \<Rightarrow> batch_operation \<Rightarrow> (utext \<times> utext \<times> bytes \<times> bytes) res" where
  "replacement_texts lim ope =
     (case (bo_old ope, bo_new ope) of
        (Py old, Py new) \<Rightarrow>
          if old = [] then Inl (ValueError ''old_text must not be empty'')
          else if bl_text lim < int (length old)
          then Inl (ValueError ''old_text exceeds max_text_file_bytes'')
          else if bl_write lim < int (length new)
          then Inl (ValueError ''new_text exceeds max_write_bytes'')
          else if 0 \<in> set old \<or> 0 \<in> set new
          then Inl (ValueError ''replacement text must not contain NUL'')
          else rbind (encode_text old) (\<lambda>old_bytes.
               rbind (encode_text new) (\<lambda>new_bytes.
               if bl_text lim < int (length old_bytes)
               then Inl (ValueError ''old_text exceeds max_text_file_bytes'')
               else if bl_write lim < int (length new_bytes)
               then Inl (ValueError ''new_text exceeds max_write_bytes'')
               else Inr (old, new, old_bytes, new_bytes)))
      | _ \<Rightarrow> Inl (TypeError ''old_text and new_text must be strings''))"

text \<open>The replacement in the virtual content of one file.\<close>

definition replace_in_state ::
  "batch_limits \<Rightarrow> utext \<times> utext \<times> bytes \<times> bytes \<Rightarrow> string \<Rightarrow> file_state \<Rightarrow> planner \<Rightarrow> planner res" where
  "replace_in_state lim texts key st s =
     (case texts of (old, new, old_bytes, new_bytes) \<Rightarrow>
      case utf8_decode (fs_data st) of
        None \<Rightarrow> Inl (ValueError ''replacement target is not UTF-8 text'')
      | Some src \<Rightarrow>
          if 0 \<in> set src
          then Inl (ValueError ''replacement target is binary text containing NUL'')
          else if count_sub old src \<noteq> 1
          then Inl (RuntimeError ''old_text must occur exactly once'')
          else
            let predicted = int (length (fs_data st)) - int (length old_bytes) + int (length new_bytes) in
            if bl_write lim < predicted
            then Inl (ValueError ''replaced file exceeds max_write_bytes'')
            else if bl_total lim - bp_total s < predicted
            then Inl (ValueError ''workspace batch exceeds max_high_level_total_bytes'')
            else rbind (encode_text (replace_first old new src)) (\<lambda>after.
              if int (length after) \<noteq> predicted
              then Inl (RuntimeError ''replacement output size changed unexpectedly'')
              else rbind (charge lim (int (length after)) s) (\<lambda>s1.
                Inr (put_file key
                       (st\<lparr>fs_data := after, fs_modified := True,
                           fs_replacements := fs_replacements st + 1\<rparr>) s1))))"

definition batch_replace ::
  "os_env \<Rightarrow> workspace \<Rightarrow> (bytes \<Rightarrow> string) \<Rightarrow> int \<Rightarrow> batch_limits \<Rightarrow> batch_operation \<Rightarrow> planner \<Rightarrow>
   planner res" where
  "batch_replace os w sha mb lim ope s =
     rbind (validate_fields (bo_keys ope) {''op'', ''path'', ''old_text'', ''new_text''}
              {''expected_sha256''}) (\<lambda>_.
     rbind (replacement_texts lim ope) (\<lambda>texts.
     rbind (expected_hash ope) (\<lambda>expected.
     rbind (load_file os w mb lim s (bo_path ope) (bl_text lim)) (\<lambda>(key, st, s1).
     rbind (verify_expected sha st expected) (\<lambda>_.
     if fs_moved st \<or> fs_replacements st \<noteq> 0 \<or> (fs_existing st \<and> fs_modified st)
     then Inl (ValueError ''workspace batch target has already been modified'')
     else if fs_existing st \<and> key \<in> bp_copied s1
     then Inl (ValueError ''an existing copy source cannot later become a write target'')
     else replace_in_state lim texts key st s1)))))"

text \<open>The source of a move leaves the file table; an existing one becomes a deletion.\<close>

definition drop_source :: "string \<Rightarrow> file_state \<Rightarrow> planner \<Rightarrow> planner" where
  "drop_source key st s =
     (let p = bp_plan s in
      s\<lparr>bp_files := AList.delete key (bp_files s),
        bp_removed := insert key (bp_removed s),
        bp_plan := (if fs_existing st
                    then p\<lparr>deletions := insert (fs_path st) (deletions p)\<rparr>
                    else p\<lparr>changes := AList.delete (fs_path st) (changes p)\<rparr>)\<rparr>)"

definition batch_copy_or_move ::
  "os_env \<Rightarrow> workspace \<Rightarrow> (bytes \<Rightarrow> string) \<Rightarrow> int \<Rightarrow> batch_limits \<Rightarrow> bool \<Rightarrow> batch_operation \<Rightarrow>
   planner \<Rightarrow> planner res" where
  "batch_copy_or_move os w sha mb lim move ope s =
     rbind (validate_fields (bo_keys ope) {''op'', ''source'', ''destination''}
              {''expected_sha256''}) (\<lambda>_.
     rbind (expected_hash ope) (\<lambda>expected.
     rbind (load_file os w mb lim s (bo_source ope) (min (bl_artifact lim) (bl_write lim)))
       (\<lambda>(source_key, st, s1).
     rbind (verify_expected sha st expected) (\<lambda>_.
     if bl_write lim < int (length (fs_data st))
     then Inl (ValueError ''output exceeds max_write_bytes'')
     else if fs_moved st \<or> (fs_existing st \<and> fs_modified st)
     then Inl (ValueError ''workspace batch source was already modified'')
     else if \<not> move \<and> \<not> fs_existing st
     then Inl (ValueError ''copy source must be an unchanged existing file'')
     else if move \<and> fs_existing st \<and> source_key \<in> bp_copied s1
     then Inl (ValueError ''an existing copy source cannot later become a move source'')
     else rbind (new_file_target os w s1 (bo_destination ope)) (\<lambda>(destination, s2).
          rbind (charge lim (int (length (fs_data st))) s2) (\<lambda>s3.
          let s4 = put_file (batch_key os destination)
                     \<lparr>fs_path = destination, fs_data = fs_data st, fs_existing = False,
                      fs_modified = True, fs_replacements = fs_replacements st, fs_moved = True\<rparr> s3
          in Inr (if move then drop_source source_key st s4
                  else s4\<lparr>bp_copied := insert source_key (bp_copied s4)\<rparr>)))))))"

definition batch_delete ::
  "os_env \<Rightarrow> workspace \<Rightarrow> (bytes \<Rightarrow> string) \<Rightarrow> int \<Rightarrow> batch_limits \<Rightarrow> batch_operation \<Rightarrow> planner \<Rightarrow>
   planner res" where
  "batch_delete os w sha mb lim ope s =
     rbind (validate_fields (bo_keys ope) {''op'', ''path''} {''expected_sha256''}) (\<lambda>_.
     rbind (expected_hash ope) (\<lambda>expected.
     rbind (load_file os w mb lim s (bo_path ope) (bl_artifact lim)) (\<lambda>(key, st, s1).
     rbind (verify_expected sha st expected) (\<lambda>_.
     if \<not> fs_existing st \<or> fs_modified st \<or> fs_moved st
     then Inl (ValueError ''delete target must be one unchanged existing file'')
     else if key \<in> bp_copied s1
     then Inl (ValueError ''an existing copy source cannot later become a delete target'')
     else let p = bp_plan s1 in
       Inr (s1\<lparr>bp_files := AList.delete key (bp_files s1),
               bp_removed := insert key (bp_removed s1),
               bp_plan := p\<lparr>deletions := insert (fs_path st) (deletions p)\<rparr>\<rparr>)))))"

section \<open>The plan\<close>

definition count_operation :: "string \<Rightarrow> planner \<Rightarrow> planner" where
  "count_operation name s =
     s\<lparr>bp_counts := List.map (\<lambda>(k, n). (k, if k = name then n + 1 else n)) (bp_counts s)\<rparr>"

definition plan_operation ::
  "os_env \<Rightarrow> workspace \<Rightarrow> (bytes \<Rightarrow> string) \<Rightarrow> int \<Rightarrow> batch_limits \<Rightarrow> planner \<Rightarrow>
   batch_operation pyval \<Rightarrow> planner res" where
  "plan_operation os w sha mb lim s0 v =
     (case v of
        Py ope \<Rightarrow>
          (case bo_op ope of
             Py name \<Rightarrow>
               if name \<notin> set operation_names
               then Inl (ValueError ''unsupported workspace batch operation'')
               else
                 let s = count_operation name s0 in
                 if name = ''mkdir'' then batch_mkdir os w ope s
                 else if name = ''create'' then batch_create os w lim ope s
                 else if name = ''replace'' then batch_replace os w sha mb lim ope s
                 else if name = ''copy'' then batch_copy_or_move os w sha mb lim False ope s
                 else if name = ''move'' then batch_copy_or_move os w sha mb lim True ope s
                 else batch_delete os w sha mb lim ope s
           | _ \<Rightarrow> Inl (ValueError ''unsupported workspace batch operation''))
      | _ \<Rightarrow> Inl (TypeError ''each workspace batch operation must be an object''))"

record batch_summary =
  bsum_operations :: nat
  bsum_counts :: "(string \<times> nat) list"
  bsum_changes :: nat
  bsum_deletions :: nat
  bsum_directories :: nat
  bsum_snapshots :: nat
  bsum_change_paths :: "string list"
  bsum_deletion_paths :: "string list"
  bsum_directory_paths :: "string list"

definition batch_build ::
  "os_env \<Rightarrow> workspace \<Rightarrow> (bytes \<Rightarrow> string) \<Rightarrow> int \<Rightarrow> batch_limits \<Rightarrow> planner \<Rightarrow>
   batch_operation pyval list \<Rightarrow> (workspace_plan \<times> batch_summary) res" where
  "batch_build os w sha mb lim s0 ops =
     rbind (rfold (plan_operation os w sha mb lim) s0 ops) (\<lambda>s.
     let p = bp_plan s in
     if bl_files lim < int (card (scope p))
     then Inl (ValueError ''workspace batch scope exceeds max_high_level_files'')
     else Inr (p, \<lparr>bsum_operations = length ops, bsum_counts = bp_counts s,
                   bsum_changes = length (changes p), bsum_deletions = card (deletions p),
                   bsum_directories = card (directories p), bsum_snapshots = length (snapshots p),
                   bsum_change_paths = sort (List.map fst (changes p)),
                   bsum_deletion_paths = sorted_list_of_set (deletions p),
                   bsum_directory_paths = sorted_list_of_set (directories p)\<rparr>))"

definition plan_workspace_batch ::
  "os_env \<Rightarrow> workspace \<Rightarrow> (bytes \<Rightarrow> string) \<Rightarrow> int \<Rightarrow> batch_settings \<Rightarrow>
   batch_operation pyval list pyval \<Rightarrow> (workspace_plan \<times> batch_summary) res" where
  "plan_workspace_batch os w sha mb st operations =
     (case operations of
        Py ops \<Rightarrow>
          if ops = [] then Inl (ValueError ''operations must contain at least one workspace operation'')
          else rbind (positive_limit (set_max_files st)) (\<lambda>max_files.
            if max_files < int (length ops)
            then Inl (ValueError ''workspace batch operation count exceeds max_high_level_files'')
            else rbind (make_planner st) (\<lambda>(lim, s0). batch_build os w sha mb lim s0 ops))
      | _ \<Rightarrow> Inl (ValueError ''operations must contain at least one workspace operation''))"

section \<open>Meaning of the operations on a disk\<close>

text \<open>
  A disk maps the case-folded key of a workspace path to the content of the file there. The source
  of an operation is named either by its spelling or by the path it resolves to.
\<close>

type_synonym disk = "string \<Rightarrow> bytes option"

definition names_source :: "os_env \<Rightarrow> workspace \<Rightarrow> string pyval \<Rightarrow> string \<Rightarrow> bool" where
  "names_source os w raw k \<longleftrightarrow>
     (\<exists>v. raw = Py v \<and> (k = batch_key os (windows_as_posix v)
        \<or> (\<exists>p r. resolve_existing os w v False ReadAccess True = Inr p \<and> ws_relative os w p = Inr r
               \<and> k = batch_key os r)))"

definition names_target :: "os_env \<Rightarrow> workspace \<Rightarrow> string pyval \<Rightarrow> string \<Rightarrow> bool" where
  "names_target os w raw k \<longleftrightarrow>
     (\<exists>v p r. raw = Py v \<and> resolve_planned_write os w v = Inr p \<and> relative_lexical os w p = Inr r
            \<and> k = batch_key os r)"

definition hash_matches :: "(bytes \<Rightarrow> string) \<Rightarrow> batch_operation \<Rightarrow> bytes \<Rightarrow> bool" where
  "hash_matches sha ope d \<longleftrightarrow> (case bo_expected ope of Py e \<Rightarrow> sha d = e | _ \<Rightarrow> True)"

inductive batch_effect ::
  "os_env \<Rightarrow> workspace \<Rightarrow> (bytes \<Rightarrow> string) \<Rightarrow> batch_operation \<Rightarrow> disk \<Rightarrow> disk \<Rightarrow> bool"
  for os w sha where
  eff_mkdir: "bo_op ope = Py ''mkdir'' \<Longrightarrow> batch_effect os w sha ope m m"
| eff_create: "bo_op ope = Py ''create'' \<Longrightarrow> bo_content ope = Py c \<Longrightarrow> utf8_encode c = Some d \<Longrightarrow>
    names_target os w (bo_path ope) k \<Longrightarrow> m k = None \<Longrightarrow>
    batch_effect os w sha ope m (m(k := Some d))"
| eff_replace: "bo_op ope = Py ''replace'' \<Longrightarrow> bo_old ope = Py old \<Longrightarrow> bo_new ope = Py new \<Longrightarrow>
    names_source os w (bo_path ope) k \<Longrightarrow> m k = Some d \<Longrightarrow> hash_matches sha ope d \<Longrightarrow>
    utf8_decode d = Some src \<Longrightarrow> count_sub old src = 1 \<Longrightarrow>
    utf8_encode (replace_first old new src) = Some after \<Longrightarrow>
    batch_effect os w sha ope m (m(k := Some after))"
| eff_copy: "bo_op ope = Py ''copy'' \<Longrightarrow> names_source os w (bo_source ope) k \<Longrightarrow>
    m k = Some d \<Longrightarrow> hash_matches sha ope d \<Longrightarrow>
    names_target os w (bo_destination ope) t \<Longrightarrow> m t = None \<Longrightarrow>
    batch_effect os w sha ope m (m(t := Some d))"
| eff_move: "bo_op ope = Py ''move'' \<Longrightarrow> names_source os w (bo_source ope) k \<Longrightarrow>
    m k = Some d \<Longrightarrow> hash_matches sha ope d \<Longrightarrow>
    names_target os w (bo_destination ope) t \<Longrightarrow> m t = None \<Longrightarrow>
    batch_effect os w sha ope m (m(t := Some d, k := None))"
| eff_delete: "bo_op ope = Py ''delete'' \<Longrightarrow> names_source os w (bo_path ope) k \<Longrightarrow>
    m k = Some d \<Longrightarrow> hash_matches sha ope d \<Longrightarrow>
    batch_effect os w sha ope m (m(k := None))"

inductive batch_effects ::
  "os_env \<Rightarrow> workspace \<Rightarrow> (bytes \<Rightarrow> string) \<Rightarrow> batch_operation pyval list \<Rightarrow> disk \<Rightarrow> disk \<Rightarrow> bool"
  for os w sha where
  effs_nil: "batch_effects os w sha [] m m"
| effs_step: "batch_effect os w sha ope m m1 \<Longrightarrow> batch_effects os w sha ops m1 m2 \<Longrightarrow>
    batch_effects os w sha (Py ope # ops) m m2"

text \<open>What a plan relies on, and what committing it does.\<close>

definition agrees :: "os_env \<Rightarrow> disk \<Rightarrow> workspace_plan \<Rightarrow> bool" where
  "agrees os m p \<longleftrightarrow>
     (\<forall>q s. map_of (snapshots p) q = Some s \<longrightarrow> m (batch_key os q) = Some (snap_data s))
     \<and> (\<forall>r\<in>absent p. m (batch_key os r) = None)"

definition committed :: "os_env \<Rightarrow> workspace_plan \<Rightarrow> disk \<Rightarrow> disk" where
  "committed os p m k =
     (case map_of (List.map (\<lambda>(q, d). (batch_key os q, d)) (changes p)) k of
        Some d \<Rightarrow> Some d
      | None \<Rightarrow> if k \<in> batch_key os ` deletions p then None else m k)"

text \<open>The disk the planner has in mind between two operations.\<close>

definition virtual :: "disk \<Rightarrow> planner \<Rightarrow> disk" where
  "virtual m s k =
     (case map_of (bp_files s) k of
        Some st \<Rightarrow> Some (fs_data st)
      | None \<Rightarrow> if k \<in> bp_removed s then None else m k)"

section \<open>The planner's invariant\<close>

definition sound_file :: "os_env \<Rightarrow> planner \<Rightarrow> string \<Rightarrow> file_state \<Rightarrow> bool" where
  "sound_file os s k st \<longleftrightarrow>
     k = batch_key os (fs_path st) \<and> k \<notin> bp_removed s
     \<and> (if fs_modified st then map_of (changes (bp_plan s)) (fs_path st) = Some (fs_data st)
        else fs_existing st \<and>
          (\<exists>sn. map_of (snapshots (bp_plan s)) (fs_path st) = Some sn \<and> snap_data sn = fs_data st))
     \<and> (if fs_existing st then map_of (snapshots (bp_plan s)) (fs_path st) \<noteq> None
        else fs_path st \<in> absent (bp_plan s) \<and> map_of (bp_directories s) k = None)"

definition sound_changes :: "os_env \<Rightarrow> planner \<Rightarrow> bool" where
  "sound_changes os s \<longleftrightarrow>
     (\<forall>q d. map_of (changes (bp_plan s)) q = Some d \<longrightarrow>
        (\<exists>st. map_of (bp_files s) (batch_key os q) = Some st \<and> fs_path st = q \<and> fs_modified st
            \<and> fs_data st = d))"

definition sound_removed :: "os_env \<Rightarrow> planner \<Rightarrow> bool" where
  "sound_removed os s \<longleftrightarrow>
     (\<forall>q\<in>deletions (bp_plan s). batch_key os q \<in> bp_removed s
        \<and> map_of (snapshots (bp_plan s)) q \<noteq> None)
     \<and> (\<forall>k\<in>bp_removed s. k \<in> batch_key os ` (deletions (bp_plan s) \<union> absent (bp_plan s)))"

definition sound_directories :: "os_env \<Rightarrow> planner \<Rightarrow> bool" where
  "sound_directories os s \<longleftrightarrow>
     (\<forall>r\<in>directories (bp_plan s). r \<in> absent (bp_plan s)
        \<and> map_of (bp_directories s) (batch_key os r) \<noteq> None)
     \<and> (\<forall>q. map_of (snapshots (bp_plan s)) q \<noteq> None \<longrightarrow>
          map_of (bp_files s) (batch_key os q) \<noteq> None \<or> batch_key os q \<in> bp_removed s)"

definition planner_inv :: "os_env \<Rightarrow> planner \<Rightarrow> bool" where
  "planner_inv os s \<longleftrightarrow>
     (\<forall>k st. map_of (bp_files s) k = Some st \<longrightarrow> sound_file os s k st)
     \<and> sound_changes os s \<and> sound_removed os s \<and> sound_directories os s"

lemmas planner_inv_defs =
  planner_inv_def sound_file_def sound_changes_def sound_removed_def sound_directories_def

lemma planner_inv_other [simp]:
  "planner_inv os (s\<lparr>bp_spellings := x\<rparr>) = planner_inv os s"
  "planner_inv os (s\<lparr>bp_total := n\<rparr>) = planner_inv os s"
  "planner_inv os (s\<lparr>bp_copied := c\<rparr>) = planner_inv os s"
  "planner_inv os (s\<lparr>bp_counts := cs\<rparr>) = planner_inv os s"
  by (simp_all add: planner_inv_defs)

lemma virtual_other [simp]:
  "virtual m (s\<lparr>bp_spellings := x\<rparr>) = virtual m s"
  "virtual m (s\<lparr>bp_total := n\<rparr>) = virtual m s"
  "virtual m (s\<lparr>bp_copied := c\<rparr>) = virtual m s"
  "virtual m (s\<lparr>bp_counts := cs\<rparr>) = virtual m s"
  "virtual m (s\<lparr>bp_plan := p\<rparr>) = virtual m s"
  by (simp_all add: virtual_def fun_eq_iff)

lemma inv_change:
  assumes "planner_inv os s" "map_of (changes (bp_plan s)) q = Some d"
  shows "\<exists>st. map_of (bp_files s) (batch_key os q) = Some st \<and> fs_path st = q \<and> fs_modified st
    \<and> fs_data st = d"
  using assms unfolding planner_inv_def sound_changes_def by blast

lemma inv_file: "planner_inv os s \<Longrightarrow> map_of (bp_files s) k = Some st \<Longrightarrow> sound_file os s k st"
  by (simp add: planner_inv_def)

lemma inv_deletion:
  "planner_inv os s \<Longrightarrow> q \<in> deletions (bp_plan s) \<Longrightarrow>
     batch_key os q \<in> bp_removed s \<and> map_of (snapshots (bp_plan s)) q \<noteq> None"
  unfolding planner_inv_def sound_removed_def by blast

lemma inv_removed:
  "planner_inv os s \<Longrightarrow> k \<in> bp_removed s \<Longrightarrow>
     k \<in> batch_key os ` (deletions (bp_plan s) \<union> absent (bp_plan s))"
  unfolding planner_inv_def sound_removed_def by blast

lemma map_of_keyed:
  "map_of (List.map (\<lambda>(q, d). (f q, d)) c) k = Some d \<Longrightarrow> \<exists>q. f q = k \<and> map_of c q = Some d"
  by (induction c) (auto split: if_splits, metis)

lemma map_of_keyed_Some:
  "map_of c q = Some d \<Longrightarrow> map_of (List.map (\<lambda>(q, d). (f q, d)) c) (f q) \<noteq> None"
  by (induction c) (auto split: if_splits)

lemma committed_change:
  assumes "planner_inv os s"
  shows "map_of (List.map (\<lambda>(q, d). (batch_key os q, d)) (changes (bp_plan s))) k =
    (case map_of (bp_files s) k of
       Some st \<Rightarrow> if fs_modified st then Some (fs_data st) else None
     | None \<Rightarrow> None)"
    (is "?c = _")
proof (cases ?c)
  case None
  have "fs_modified st \<Longrightarrow> map_of (bp_files s) k = Some st \<Longrightarrow> False" for st
    using inv_file [OF assms, of k st] None
      map_of_keyed_Some [of "changes (bp_plan s)" "fs_path st" "fs_data st" "batch_key os"]
    by (simp add: sound_file_def)
  then show ?thesis using None by (auto split: option.splits)
next
  case (Some d)
  then obtain q where "batch_key os q = k" "map_of (changes (bp_plan s)) q = Some d"
    using map_of_keyed by fast
  then obtain st where "map_of (bp_files s) k = Some st" "fs_modified st" "fs_data st = d"
    using inv_change [OF assms] by blast
  then show ?thesis using Some by simp
qed

lemma committed_virtual:
  assumes inv: "planner_inv os s" and ag: "agrees os m (bp_plan s)"
  shows "committed os (bp_plan s) m = virtual m s"
proof
  fix k
  show "committed os (bp_plan s) m k = virtual m s k"
  proof (cases "map_of (bp_files s) k")
    case None
    have "k \<in> bp_removed s \<Longrightarrow> k \<notin> batch_key os ` deletions (bp_plan s) \<Longrightarrow> m k = None"
      using inv_removed [OF inv, of k] ag by (auto simp: agrees_def)
    moreover have "k \<in> batch_key os ` deletions (bp_plan s) \<Longrightarrow> k \<in> bp_removed s"
      using inv_deletion [OF inv] by auto
    ultimately show ?thesis
      using None by (auto simp: committed_def virtual_def committed_change [OF inv])
  next
    case (Some st)
    note st = inv_file [OF inv Some]
    have "k \<notin> batch_key os ` deletions (bp_plan s)"
      using inv_deletion [OF inv] st by (auto simp: sound_file_def)
    moreover have "\<not> fs_modified st \<Longrightarrow> m k = Some (fs_data st)"
      using st ag by (auto simp: sound_file_def agrees_def)
    ultimately show ?thesis
      using Some by (auto simp: committed_def virtual_def committed_change [OF inv])
  qed
qed

section \<open>How the planner grows a plan\<close>

text \<open>What a plan relies on is never given up: a disk that agrees with it agreed with it before.\<close>

definition extends :: "workspace_plan \<Rightarrow> workspace_plan \<Rightarrow> bool" where
  "extends p p' \<longleftrightarrow> map_of (snapshots p) \<subseteq>\<^sub>m map_of (snapshots p') \<and> absent p \<subseteq> absent p'"

lemma extends_refl [simp]: "extends p p"
  by (simp add: extends_def)

lemma extends_trans: "extends p q \<Longrightarrow> extends q r \<Longrightarrow> extends p r"
  by (auto simp: extends_def intro: map_le_trans)

lemma agrees_extends: "agrees os m p' \<Longrightarrow> extends p p' \<Longrightarrow> agrees os m p"
  unfolding agrees_def extends_def by (metis (no_types, lifting) domI map_le_def subsetD)

definition mark_absent :: "string \<Rightarrow> planner \<Rightarrow> planner" where
  "mark_absent r s = s\<lparr>bp_plan := (bp_plan s)\<lparr>absent := insert r (absent (bp_plan s))\<rparr>\<rparr>"

lemma mark_absent_inv: "planner_inv os s \<Longrightarrow> planner_inv os (mark_absent r s)"
  unfolding planner_inv_defs mark_absent_def by auto

lemma put_file_inv:
  assumes "planner_inv os s" and "key = batch_key os (fs_path st)" "fs_modified st"
    and "key \<notin> bp_removed s"
    and "if fs_existing st then map_of (snapshots (bp_plan s)) (fs_path st) \<noteq> None
         else fs_path st \<in> absent (bp_plan s) \<and> map_of (bp_directories s) key = None"
    and "map_of (bp_files s) key = None \<or> (\<exists>old. map_of (bp_files s) key = Some old \<and> fs_path old = fs_path st)"
  shows "planner_inv os (put_file key st s)"
proof -
  let ?s = "put_file key st s"
  have other: "q \<noteq> fs_path st" if "map_of (bp_files s) k = Some f" "k \<noteq> key" "fs_path f = q" for k f q
    using inv_file [OF assms(1) that(1)] that assms(2) by (auto simp: sound_file_def)
  have "sound_file os ?s k f" if "map_of (bp_files ?s) k = Some f" for k f
  proof (cases "k = key")
    case True
    then show ?thesis using that assms(2-5)
      by (simp add: put_file_def update_conv' sound_file_def split: if_splits)
  next
    case False
    then have k: "map_of (bp_files s) k = Some f" using that by (simp add: put_file_def update_conv')
    then show ?thesis using inv_file [OF assms(1) k] other [OF k False refl]
      by (auto simp: put_file_def update_conv' sound_file_def)
  qed
  moreover have "sound_changes os ?s"
  proof (unfold sound_changes_def, intro allI impI)
    fix q d assume q: "map_of (changes (bp_plan ?s)) q = Some d"
    show "\<exists>f. map_of (bp_files ?s) (batch_key os q) = Some f \<and> fs_path f = q \<and> fs_modified f
        \<and> fs_data f = d"
    proof (cases "q = fs_path st")
      case True
      then show ?thesis using q assms(2,3) by (simp add: put_file_def update_conv')
    next
      case False
      then have "map_of (changes (bp_plan s)) q = Some d" using q by (simp add: put_file_def update_conv')
      then obtain f where "map_of (bp_files s) (batch_key os q) = Some f" "fs_path f = q"
          "fs_modified f" "fs_data f = d"
        using inv_change [OF assms(1)] by blast
      moreover have "batch_key os q \<noteq> key" using calculation(1,2) False assms(6) by auto
      ultimately show ?thesis by (simp add: put_file_def update_conv')
    qed
  qed
  moreover have "sound_removed os ?s" "sound_directories os ?s"
    using assms(1) by (auto simp: planner_inv_def sound_removed_def sound_directories_def put_file_def update_conv')
  ultimately show ?thesis by (simp add: planner_inv_def)
qed

lemma track_inv:
  assumes "planner_inv os s" and "key = batch_key os (snap_path sn)"
    and "key \<notin> bp_removed s" "map_of (bp_files s) key = None"
  shows "planner_inv os (s\<lparr>bp_plan := (bp_plan s)\<lparr>snapshots := AList.update (snap_path sn) sn (snapshots (bp_plan s))\<rparr>,
      bp_files := AList.update key \<lparr>fs_path = snap_path sn, fs_data = snap_data sn, fs_existing = True,
        fs_modified = False, fs_replacements = 0, fs_moved = False\<rparr> (bp_files s)\<rparr>)"
    (is "planner_inv os ?s")
proof -
  have "sound_file os ?s k f" if k: "map_of (bp_files ?s) k = Some f" for k f
  proof (cases "k = key")
    case True
    then show ?thesis using k assms(2,3) by (auto simp: update_conv' sound_file_def)
  next
    case False
    then have k: "map_of (bp_files s) k = Some f" using k by (simp add: update_conv')
    then have "fs_path f \<noteq> snap_path sn"
      using inv_file [OF assms(1) k] False assms(2) by (auto simp: sound_file_def)
    then show ?thesis using inv_file [OF assms(1) k] by (auto simp: update_conv' sound_file_def)
  qed
  moreover have "sound_changes os ?s"
  proof (unfold sound_changes_def, intro allI impI)
    fix q d assume "map_of (changes (bp_plan ?s)) q = Some d"
    then obtain f where f: "map_of (bp_files s) (batch_key os q) = Some f" "fs_path f = q"
        "fs_modified f" "fs_data f = d"
      using inv_change [OF assms(1)] by auto
    then have "batch_key os q \<noteq> key" using assms(4) by auto
    then show "\<exists>f. map_of (bp_files ?s) (batch_key os q) = Some f \<and> fs_path f = q \<and> fs_modified f
        \<and> fs_data f = d"
      using f by (simp add: update_conv')
  qed
  moreover have "sound_removed os ?s"
    using assms(1) by (auto simp: planner_inv_def sound_removed_def update_conv')
  moreover have "sound_directories os ?s"
    using assms(1,2) by (auto simp: planner_inv_def sound_directories_def update_conv')
  ultimately show ?thesis by (simp add: planner_inv_def)
qed

lemma remove_inv:
  assumes "planner_inv os s" and "map_of (bp_files s) key = Some st"
    and "fs_existing st \<Longrightarrow> \<not> fs_modified st"
  shows "planner_inv os (drop_source key st s)"
proof -
  let ?s = "drop_source key st s"
  note st = inv_file [OF assms(1,2)]
  have "sound_file os ?s k f" if k: "map_of (bp_files ?s) k = Some f" for k f
  proof -
    have k: "map_of (bp_files s) k = Some f" "k \<noteq> key"
      using k by (auto simp: drop_source_def Let_def delete_conv' split: if_splits)
    then have "fs_path f \<noteq> fs_path st" using inv_file [OF assms(1) k(1)] st by (auto simp: sound_file_def)
    then show ?thesis using inv_file [OF assms(1) k(1)] k(2)
      by (auto simp: drop_source_def Let_def sound_file_def delete_conv')
  qed
  moreover have "sound_changes os ?s"
  proof (unfold sound_changes_def, intro allI impI)
    fix q d assume q: "map_of (changes (bp_plan ?s)) q = Some d"
    then have c: "map_of (changes (bp_plan s)) q = Some d" and n: "\<not> fs_existing st \<Longrightarrow> q \<noteq> fs_path st"
      by (auto simp: drop_source_def Let_def delete_conv' split: if_splits)
    obtain f where f: "map_of (bp_files s) (batch_key os q) = Some f" "fs_path f = q"
        "fs_modified f" "fs_data f = d"
      using inv_change [OF assms(1) c] by blast
    have "batch_key os q \<noteq> key" using f n assms(2,3) by (cases "fs_existing st") auto
    then show "\<exists>f. map_of (bp_files ?s) (batch_key os q) = Some f \<and> fs_path f = q \<and> fs_modified f
        \<and> fs_data f = d"
      using f by (simp add: drop_source_def Let_def delete_conv')
  qed
  moreover have "sound_removed os ?s"
    using assms(1) st by (auto simp: planner_inv_def sound_removed_def sound_file_def drop_source_def Let_def
        split: if_splits)
  moreover have "sound_directories os ?s"
    using assms(1) by (auto simp: planner_inv_def sound_directories_def drop_source_def Let_def delete_conv')
  ultimately show ?thesis by (simp add: planner_inv_def)
qed

lemma add_directory_inv:
  assumes "planner_inv os s" and "\<not> used_key s (batch_key os r)"
  shows "planner_inv os (s\<lparr>bp_directories := AList.update (batch_key os r) r (bp_directories s),
     bp_plan := (bp_plan s)\<lparr>directories := insert r (directories (bp_plan s)),
                            absent := insert r (absent (bp_plan s))\<rparr>\<rparr>)"
    (is "planner_inv os ?s")
proof -
  have "sound_file os ?s k f" if k: "map_of (bp_files ?s) k = Some f" for k f
    using inv_file [OF assms(1), of k f] k assms(2)
    by (auto simp: sound_file_def update_conv' used_key_def)
  moreover have "sound_changes os ?s" "sound_removed os ?s" "sound_directories os ?s"
    using assms by (auto simp: planner_inv_def sound_changes_def sound_removed_def sound_directories_def
        update_conv' used_key_def)
  ultimately show ?thesis by (simp add: planner_inv_def)
qed

definition bytes_ok :: "batch_limits \<Rightarrow> planner \<Rightarrow> bool" where
  "bytes_ok lim s \<longleftrightarrow> retained_bytes (bp_plan s) \<le> bp_total s \<and> bp_total s \<le> bl_total lim"

lemma claim_path_Inr:
  assumes "claim_path os s v = Inr (p, s1)"
  obtains sp where "v = Py p" "s1 = s\<lparr>bp_spellings := sp\<rparr>"
  using assms by (auto simp: claim_path_def Let_def rbind_eq_Inr split: pyval.splits if_splits)

lemma charge_Inr:
  assumes "charge lim n s = Inr s'"
  shows "s' = s\<lparr>bp_total := bp_total s + n\<rparr> \<and> bp_total s + n \<le> bl_total lim"
  using assms by (auto simp: charge_def split: if_splits)

lemma new_file_target_Inr:
  assumes "new_file_target os w s raw = Inr (r, s1)"
  shows "names_target os w raw (batch_key os r) \<and> \<not> used_key s (batch_key os r)
    \<and> (\<exists>sp. s1 = mark_absent r (s\<lparr>bp_spellings := sp\<rparr>))"
proof -
  obtain p c where p: "claim_path os s raw = Inr (p, c)"
    using assms by (cases "claim_path os s raw") (auto simp: new_file_target_def)
  obtain sp where sp: "raw = Py p" "c = s\<lparr>bp_spellings := sp\<rparr>" using claim_path_Inr [OF p] .
  show ?thesis
    using assms p unfolding sp
    by (auto simp: new_file_target_def names_target_def mark_absent_def used_key_def Let_def rbind_eq_Inr
        split: if_splits)
qed

lemma track_file_Inr:
  assumes "track_file lim sn key s = Inr s1" and "planner_inv os s" "key = batch_key os (snap_path sn)"
    and "key \<notin> bp_removed s" "map_of (bp_files s) key = None"
  shows "map_of (bp_files s1) key = Some \<lparr>fs_path = snap_path sn, fs_data = snap_data sn,
        fs_existing = True, fs_modified = False, fs_replacements = 0, fs_moved = False\<rparr>
    \<and> planner_inv os s1 \<and> extends (bp_plan s) (bp_plan s1)
    \<and> (bytes_ok lim s \<longrightarrow> bytes_ok lim s1)
    \<and> (agrees os m (bp_plan s1) \<longrightarrow> virtual m s1 = virtual m s)"
proof -
  let ?f = "\<lparr>fs_path = snap_path sn, fs_data = snap_data sn,
        fs_existing = True, fs_modified = False, fs_replacements = 0, fs_moved = False\<rparr>"
  let ?p = "(bp_plan s)\<lparr>snapshots := AList.update (snap_path sn) sn (snapshots (bp_plan s))\<rparr>"
  have s1: "s1 = s\<lparr>bp_plan := ?p, bp_files := AList.update key ?f (bp_files s),
        bp_total := bp_total s + int (length (snap_data sn))\<rparr>"
    and le: "bp_total s + int (length (snap_data sn)) \<le> bl_total lim"
    using assms(1) by (auto simp: track_file_def Let_def rbind_eq_Inr dest!: charge_Inr)
  have i: "planner_inv os s1"
    using track_inv [OF assms(2-5)] by (simp add: s1)
  have "map_of (snapshots (bp_plan s)) (snap_path sn) = None"
    using assms(2-5) unfolding planner_inv_def sound_directories_def by blast
  then have e: "extends (bp_plan s) (bp_plan s1)"
    by (auto simp: s1 extends_def map_le_def update_conv')
  have "retained_bytes ?p \<le> retained_bytes (bp_plan s) + int (length (snap_data sn))"
    using update_sum_le [of "\<lambda>d. int (length (snap_data d))" "snap_path sn" sn "snapshots (bp_plan s)"]
    by (simp add: retained_bytes_def)
  then have b: "bytes_ok lim s \<longrightarrow> bytes_ok lim s1" using le by (simp add: bytes_ok_def s1)
  have "virtual m s1 = virtual m s" if "agrees os m (bp_plan s1)"
  proof -
    have "m key = Some (snap_data sn)" using that assms(3) by (simp add: s1 agrees_def update_conv')
    then show ?thesis using assms(4,5) by (auto simp: s1 virtual_def fun_eq_iff update_conv')
  qed
  then show ?thesis using i e b by (simp add: s1 update_conv')
qed

lemma load_file_Inr:
  assumes "load_file os w mb lim s raw mx = Inr (k, st, s1)" and "planner_inv os s"
  shows "names_source os w raw k \<and> map_of (bp_files s1) k = Some st \<and> planner_inv os s1
    \<and> extends (bp_plan s) (bp_plan s1) \<and> (bytes_ok lim s \<longrightarrow> bytes_ok lim s1)
    \<and> (agrees os m (bp_plan s1) \<longrightarrow> virtual m s1 = virtual m s)"
proof -
  obtain p c where p: "claim_path os s raw = Inr (p, c)"
    using assms(1) by (cases "claim_path os s raw") (auto simp: load_file_def)
  obtain sp where raw: "raw = Py p" and c: "c = s\<lparr>bp_spellings := sp\<rparr>" using claim_path_Inr [OF p] .
  let ?r = "batch_key os (windows_as_posix p)"
  have nr: "?r \<notin> bp_removed s" using assms(1) p c by (auto simp: load_file_def Let_def split: if_splits)
  show ?thesis
  proof (cases "map_of (bp_files s) ?r")
    case (Some f)
    then have "k = ?r" "st = f" "s1 = c"
      using assms(1) p c nr by (auto simp: load_file_def Let_def split: if_splits)
    then show ?thesis using Some c raw assms(2) by (auto simp: names_source_def bytes_ok_def)
  next
    case None
    obtain sn where sn: "snapshot_file os w mb p (min mx (bl_total lim - bp_total s)) = Inr sn"
      using assms(1) p c nr None by (auto simp: load_file_def Let_def rbind_eq_Inr split: if_splits)
    have name: "names_source os w raw (batch_key os (snap_path sn))"
      using snapshot_file_Inr [OF sn] raw by (auto simp: names_source_def)
    have nr': "batch_key os (snap_path sn) \<notin> bp_removed s"
      using assms(1) p c nr None sn by (auto simp: load_file_def Let_def split: if_splits)
    show ?thesis
    proof (cases "map_of (bp_files s) (batch_key os (snap_path sn))")
      case (Some f)
      then have "k = batch_key os (snap_path sn)" "st = f" "s1 = c"
        using assms(1) p c nr None sn nr' by (auto simp: load_file_def Let_def split: if_splits)
      then show ?thesis using Some c name assms(2) by (auto simp: bytes_ok_def)
    next
      case none: None
      have k: "k = batch_key os (snap_path sn)"
        and t: "track_file lim sn (batch_key os (snap_path sn)) c = Inr s1"
        and st: "st = \<lparr>fs_path = snap_path sn, fs_data = snap_data sn,
          fs_existing = True, fs_modified = False, fs_replacements = 0, fs_moved = False\<rparr>"
        using assms(1) p c nr None sn nr' none
        by (auto simp: load_file_def Let_def rbind_eq_Inr split: if_splits)
      have "planner_inv os c" "map_of (bp_files c) (batch_key os (snap_path sn)) = None"
          "batch_key os (snap_path sn) \<notin> bp_removed c"
        using assms(2) none nr' by (simp_all add: c)
      then show ?thesis using track_file_Inr [OF t _ refl, of m] name unfolding k st
        by (simp add: c bytes_ok_def)
    qed
  qed
qed

section \<open>Every operation follows its meaning\<close>

definition follows ::
  "os_env \<Rightarrow> workspace \<Rightarrow> (bytes \<Rightarrow> string) \<Rightarrow> batch_limits \<Rightarrow> batch_operation \<Rightarrow> planner \<Rightarrow> planner \<Rightarrow> bool" where
  "follows os w sha lim ope s s' \<longleftrightarrow>
     planner_inv os s' \<and> extends (bp_plan s) (bp_plan s') \<and> (bytes_ok lim s \<longrightarrow> bytes_ok lim s')
     \<and> (\<forall>m. agrees os m (bp_plan s') \<longrightarrow> batch_effect os w sha ope (virtual m s) (virtual m s'))"

lemma virtual_put [simp]: "virtual m (put_file key st s) = (virtual m s)(key := Some (fs_data st))"
  by (simp add: virtual_def put_file_def fun_eq_iff update_conv')

lemma virtual_drop [simp]: "virtual m (drop_source key st s) = (virtual m s)(key := None)"
  by (simp add: virtual_def drop_source_def Let_def fun_eq_iff delete_conv')

lemma extends_put [simp]: "extends p (bp_plan (put_file key st s)) = extends p (bp_plan s)"
  by (simp add: put_file_def extends_def)

lemma extends_drop [simp]: "extends p (bp_plan (drop_source key st s)) = extends p (bp_plan s)"
  by (simp add: drop_source_def Let_def extends_def)

lemma agrees_put [simp]: "agrees os m (bp_plan (put_file key st s)) = agrees os m (bp_plan s)"
  by (simp add: put_file_def agrees_def)

lemma agrees_drop [simp]: "agrees os m (bp_plan (drop_source key st s)) = agrees os m (bp_plan s)"
  by (simp add: drop_source_def Let_def agrees_def)

lemma retained_put:
  "retained_bytes (bp_plan (put_file key st s)) \<le> retained_bytes (bp_plan s) + int (length (fs_data st))"
  using update_sum_le [of "\<lambda>d. int (length d)" "fs_path st" "fs_data st" "changes (bp_plan s)"]
  by (simp add: put_file_def retained_bytes_def)

lemma retained_drop: "retained_bytes (bp_plan (drop_source key st s)) \<le> retained_bytes (bp_plan s)"
  using delete_sum_le [of "\<lambda>d. int (length d)" "fs_path st" "changes (bp_plan s)"]
  by (simp add: drop_source_def Let_def retained_bytes_def)

lemma put_charged:
  assumes "charge lim (int (length (fs_data st))) s = Inr s1" "bytes_ok lim s"
  shows "bytes_ok lim (put_file key st s1)"
proof -
  note c = charge_Inr [OF assms(1)]
  have "retained_bytes (bp_plan s1) = retained_bytes (bp_plan s)" using c by simp
  then have "retained_bytes (bp_plan (put_file key st s1)) \<le> bp_total s1"
    using retained_put [of key st s1] assms(2) c by (simp add: bytes_ok_def)
  then show ?thesis using c by (simp add: bytes_ok_def put_file_def)
qed

lemma hash_checked:
  "expected_hash ope = Inr e \<Longrightarrow> verify_expected sha st e = Inr u \<Longrightarrow> hash_matches sha ope (fs_data st)"
  by (auto simp: expected_hash_def verify_expected_def hash_matches_def split: pyval.splits if_splits)

lemma new_file_put:
  assumes n: "new_file_target os w s raw = Inr (r, s2)"
    and c: "charge lim (int (length d)) s2 = Inr s3" and i: "planner_inv os s"
    and st: "fs_path st = r" "fs_data st = d" "\<not> fs_existing st" "fs_modified st"
  shows "planner_inv os (put_file (batch_key os r) st s3)
    \<and> extends (bp_plan s) (bp_plan (put_file (batch_key os r) st s3))
    \<and> (bytes_ok lim s \<longrightarrow> bytes_ok lim (put_file (batch_key os r) st s3))
    \<and> (agrees os m (bp_plan (put_file (batch_key os r) st s3)) \<longrightarrow>
        virtual m s (batch_key os r) = None
        \<and> virtual m (put_file (batch_key os r) st s3) = (virtual m s)(batch_key os r := Some d))
    \<and> names_target os w raw (batch_key os r) \<and> \<not> used_key s (batch_key os r)
    \<and> bp_files s3 = bp_files s \<and> bp_removed s3 = bp_removed s"
proof -
  obtain sp where s2: "s2 = mark_absent r (s\<lparr>bp_spellings := sp\<rparr>)"
    and t: "names_target os w raw (batch_key os r)" "\<not> used_key s (batch_key os r)"
    using new_file_target_Inr [OF n] by blast
  have s3: "s3 = s2\<lparr>bp_total := bp_total s2 + int (length d)\<rparr>" using charge_Inr [OF c] by simp
  have "planner_inv os s3" using i unfolding s3 s2 by (simp add: mark_absent_inv)
  then have "planner_inv os (put_file (batch_key os r) st s3)"
    by (rule put_file_inv) (use t(2) st in \<open>auto simp: s3 s2 mark_absent_def used_key_def\<close>)
  moreover have "bytes_ok lim s \<longrightarrow> bytes_ok lim (put_file (batch_key os r) st s3)"
  proof
    assume "bytes_ok lim s"
    then have "bytes_ok lim s2" by (simp add: bytes_ok_def s2 mark_absent_def retained_bytes_def)
    then show "bytes_ok lim (put_file (batch_key os r) st s3)" using put_charged c st(2) by simp
  qed
  moreover have "virtual m s3 = virtual m s"
    by (simp add: s3 s2 mark_absent_def virtual_def fun_eq_iff)
  moreover have "agrees os m (bp_plan s3) \<longrightarrow> m (batch_key os r) = None"
    by (simp add: agrees_def s3 s2 mark_absent_def)
  moreover have "m (batch_key os r) = None \<Longrightarrow> virtual m s (batch_key os r) = None"
    using t(2) by (simp add: virtual_def used_key_def)
  moreover have "extends (bp_plan s) (bp_plan s3)" by (auto simp: s3 s2 mark_absent_def extends_def)
  moreover have "bp_files s3 = bp_files s" "bp_removed s3 = bp_removed s"
    by (simp_all add: s3 s2 mark_absent_def)
  ultimately show ?thesis using t st(2) by simp
qed

lemma batch_create_follows:
  assumes "batch_create os w lim ope s = Inr s'" "planner_inv os s" "bo_op ope = Py ''create''"
  shows "follows os w sha lim ope s s'"
proof -
  obtain c where c: "bo_content ope = Py c"
    using assms(1) by (cases "bo_content ope") (auto simp: batch_create_def rbind_eq_Inr)
  obtain d where d: "encode_text c = Inr d"
    using assms(1) c by (auto simp: batch_create_def rbind_eq_Inr split: if_splits)
  then have e: "utf8_encode c = Some d"
    by (auto simp: encode_text_def split: if_splits option.splits)
  obtain r s2 s3 where n: "new_file_target os w s (bo_path ope) = Inr (r, s2)"
    and ch: "charge lim (int (length d)) s2 = Inr s3"
    and s': "s' = put_file (batch_key os r) \<lparr>fs_path = r, fs_data = d, fs_existing = False,
        fs_modified = True, fs_replacements = 0, fs_moved = False\<rparr> s3"
    using assms(1) c d by (auto simp: batch_create_def rbind_eq_Inr split: if_splits)
  let ?st = "\<lparr>fs_path = r, fs_data = d, fs_existing = False, fs_modified = True,
      fs_replacements = 0, fs_moved = False\<rparr>"
  have f: "planner_inv os s'" "extends (bp_plan s) (bp_plan s')" "bytes_ok lim s \<longrightarrow> bytes_ok lim s'"
      "names_target os w (bo_path ope) (batch_key os r)"
    and v: "\<And>m. agrees os m (bp_plan s') \<Longrightarrow> virtual m s (batch_key os r) = None
        \<and> virtual m s' = (virtual m s)(batch_key os r := Some d)"
    using new_file_put [OF n ch assms(2), of ?st] unfolding s' by simp_all
  have "batch_effect os w sha ope (virtual m s) (virtual m s')" if "agrees os m (bp_plan s')" for m
    using eff_create [OF assms(3) c e f(4), of "virtual m s"] v [OF that] by simp
  then show ?thesis using f by (simp add: follows_def)
qed

lemma batch_copy_or_move_follows:
  assumes "batch_copy_or_move os w sha mb lim move ope s = Inr s'" "planner_inv os s"
    and "bo_op ope = Py (if move then ''move'' else ''copy'')"
  shows "follows os w sha lim ope s s'"
proof -
  obtain e where e: "expected_hash ope = Inr e"
    using assms(1) by (auto simp: batch_copy_or_move_def rbind_eq_Inr)
  obtain k st s1 where l: "load_file os w mb lim s (bo_source ope) (min (bl_artifact lim) (bl_write lim))
      = Inr (k, st, s1)"
    using assms(1) e by (auto simp: batch_copy_or_move_def rbind_eq_Inr)
  have v: "verify_expected sha st e = Inr ()"
    using assms(1) e l by (auto simp: batch_copy_or_move_def rbind_eq_Inr)
  have g: "\<not> (fs_existing st \<and> fs_modified st)"
    using assms(1) e l v by (auto simp: batch_copy_or_move_def rbind_eq_Inr split: if_splits)
  obtain r s2 where n: "new_file_target os w s1 (bo_destination ope) = Inr (r, s2)"
    using assms(1) e l v by (auto simp: batch_copy_or_move_def rbind_eq_Inr split: if_splits)
  let ?d = "\<lparr>fs_path = r, fs_data = fs_data st, fs_existing = False, fs_modified = True,
      fs_replacements = fs_replacements st, fs_moved = True\<rparr>"
  obtain s3 where c: "charge lim (int (length (fs_data st))) s2 = Inr s3"
    and s': "s' = (if move then drop_source k st (put_file (batch_key os r) ?d s3)
       else (put_file (batch_key os r) ?d s3)
         \<lparr>bp_copied := insert k (bp_copied (put_file (batch_key os r) ?d s3))\<rparr>)"
    using assms(1) e l v n
    by (auto simp: batch_copy_or_move_def rbind_eq_Inr Let_def split: if_splits)
  have ld: "names_source os w (bo_source ope) k" "map_of (bp_files s1) k = Some st" "planner_inv os s1"
      "extends (bp_plan s) (bp_plan s1)" "bytes_ok lim s \<longrightarrow> bytes_ok lim s1"
    and lv: "\<And>m. agrees os m (bp_plan s1) \<Longrightarrow> virtual m s1 = virtual m s"
    using load_file_Inr [OF l assms(2)] by blast+
  let ?s4 = "put_file (batch_key os r) ?d s3"
  have f: "planner_inv os ?s4" "extends (bp_plan s1) (bp_plan ?s4)" "bytes_ok lim s1 \<longrightarrow> bytes_ok lim ?s4"
      "names_target os w (bo_destination ope) (batch_key os r)" "\<not> used_key s1 (batch_key os r)"
      "bp_files s3 = bp_files s1"
    and fv: "\<And>m. agrees os m (bp_plan ?s4) \<Longrightarrow> virtual m s1 (batch_key os r) = None
        \<and> virtual m ?s4 = (virtual m s1)(batch_key os r := Some (fs_data st))"
    using new_file_put [OF n c ld(3), of ?d] by simp_all
  have k4: "map_of (bp_files ?s4) k = Some st"
    using ld(2) f(5,6) by (auto simp: put_file_def update_conv' used_key_def)
  have i: "planner_inv os s'"
    using f(1) remove_inv [OF f(1) k4] g unfolding s' by auto
  have x: "extends (bp_plan s) (bp_plan s')"
    using extends_trans [OF ld(4) f(2)] unfolding s' by (cases move) simp_all
  have b: "bytes_ok lim s \<longrightarrow> bytes_ok lim s'"
    using ld(5) f(3) retained_drop [of k st ?s4] unfolding s'
    by (auto simp: bytes_ok_def drop_source_def Let_def)
  have "batch_effect os w sha ope (virtual m s) (virtual m s')" if a: "agrees os m (bp_plan s')" for m
  proof -
    have a4: "agrees os m (bp_plan ?s4)" using a unfolding s' by (cases move) simp_all
    then have a1: "agrees os m (bp_plan s1)" using agrees_extends f(2) by blast
    have s: "virtual m s k = Some (fs_data st)"
      using ld(2) lv [OF a1] by (metis (mono_tags, lifting) option.simps(5) virtual_def)
    have t: "virtual m s (batch_key os r) = None" using fv [OF a4] lv [OF a1] by simp
    note h = hash_checked [OF e v]
    show ?thesis
    proof (cases move)
      case True
      have "virtual m s' = (virtual m s)(batch_key os r := Some (fs_data st), k := None)"
        using fv [OF a4] lv [OF a1] unfolding s' by (simp add: True)
      then show ?thesis using eff_move [OF _ ld(1) s h f(4) t] assms(3) True by simp
    next
      case False
      have "virtual m s' = (virtual m s)(batch_key os r := Some (fs_data st))"
        using fv [OF a4] lv [OF a1] unfolding s' by (simp add: False)
      then show ?thesis using eff_copy [OF _ ld(1) s h f(4) t] assms(3) False by simp
    qed
  qed
  then show ?thesis using i x b by (simp add: follows_def)
qed

lemma batch_delete_follows:
  assumes "batch_delete os w sha mb lim ope s = Inr s'" "planner_inv os s" "bo_op ope = Py ''delete''"
  shows "follows os w sha lim ope s s'"
proof -
  obtain e where e: "expected_hash ope = Inr e"
    using assms(1) by (auto simp: batch_delete_def rbind_eq_Inr)
  obtain k st s1 where l: "load_file os w mb lim s (bo_path ope) (bl_artifact lim) = Inr (k, st, s1)"
    using assms(1) e by (auto simp: batch_delete_def rbind_eq_Inr)
  have v: "verify_expected sha st e = Inr ()"
    using assms(1) e l by (auto simp: batch_delete_def rbind_eq_Inr)
  have g: "fs_existing st" "\<not> fs_modified st" and s': "s' = drop_source k st s1"
    using assms(1) e l v
    by (auto simp: batch_delete_def rbind_eq_Inr Let_def drop_source_def split: if_splits)
  have ld: "names_source os w (bo_path ope) k" "map_of (bp_files s1) k = Some st" "planner_inv os s1"
      "extends (bp_plan s) (bp_plan s1)" "bytes_ok lim s \<longrightarrow> bytes_ok lim s1"
    and lv: "\<And>m. agrees os m (bp_plan s1) \<Longrightarrow> virtual m s1 = virtual m s"
    using load_file_Inr [OF l assms(2)] by blast+
  have "planner_inv os s'" using remove_inv [OF ld(3,2)] g s' by simp
  moreover have "bytes_ok lim s \<longrightarrow> bytes_ok lim s'"
    using ld(5) retained_drop [of k st s1] unfolding s' by (auto simp: bytes_ok_def drop_source_def Let_def)
  moreover have "batch_effect os w sha ope (virtual m s) (virtual m s')" if a: "agrees os m (bp_plan s')" for m
  proof -
    have a1: "agrees os m (bp_plan s1)" using a s' by simp
    have s: "virtual m s k = Some (fs_data st)"
      using ld(2) lv [OF a1] by (metis (mono_tags, lifting) option.simps(5) virtual_def)
    show ?thesis using eff_delete [where m = "virtual m s", OF assms(3) ld(1) s hash_checked [OF e v]] lv [OF a1] s' by simp
  qed
  ultimately show ?thesis using ld(4) s' by (simp add: follows_def)
qed

lemma replacement_texts_Inr:
  assumes "replacement_texts lim ope = Inr (old, new, ob, nb)"
  shows "bo_old ope = Py old \<and> bo_new ope = Py new \<and> old \<noteq> [] \<and> utf8_encode old = Some ob
    \<and> utf8_encode new = Some nb"
  using assms unfolding replacement_texts_def
  by (cases "bo_old ope"; cases "bo_new ope")
    (auto simp: encode_text_def rbind_eq_Inr split: if_splits option.splits)

lemma replace_in_state_Inr:
  assumes "replace_in_state lim (old, new, ob, nb) key st s = Inr s'"
  obtains src after s1 where "utf8_decode (fs_data st) = Some src" "count_sub old src = 1"
    "utf8_encode (replace_first old new src) = Some after" "charge lim (int (length after)) s = Inr s1"
    "s' = put_file key (st\<lparr>fs_data := after, fs_modified := True, fs_replacements := fs_replacements st + 1\<rparr>) s1"
proof -
  obtain src where d: "utf8_decode (fs_data st) = Some src"
    using assms by (cases "utf8_decode (fs_data st)") (simp_all add: replace_in_state_def)
  have n: "0 \<notin> set src" "count_sub old src = 1"
    using assms d by (auto simp: replace_in_state_def Let_def split: if_splits)
  obtain after where e: "encode_text (replace_first old new src) = Inr after"
    using assms d n by (auto simp: replace_in_state_def Let_def rbind_eq_Inr split: if_splits)
  then have "utf8_encode (replace_first old new src) = Some after"
    by (auto simp: encode_text_def split: if_splits option.splits)
  then show ?thesis
    using that [OF d n(2)] assms d n e
    by (auto simp: replace_in_state_def Let_def rbind_eq_Inr split: if_splits)
qed

lemma batch_replace_follows:
  assumes "batch_replace os w sha mb lim ope s = Inr s'" "planner_inv os s" "bo_op ope = Py ''replace''"
  shows "follows os w sha lim ope s s'"
proof -
  obtain old new ob nb where t: "replacement_texts lim ope = Inr (old, new, ob, nb)"
    using assms(1) by (auto simp: batch_replace_def rbind_eq_Inr)
  obtain e where e: "expected_hash ope = Inr e"
    using assms(1) t by (auto simp: batch_replace_def rbind_eq_Inr)
  obtain k st s1 where l: "load_file os w mb lim s (bo_path ope) (bl_text lim) = Inr (k, st, s1)"
    using assms(1) t e by (auto simp: batch_replace_def rbind_eq_Inr)
  have v: "verify_expected sha st e = Inr ()"
    using assms(1) t e l by (auto simp: batch_replace_def rbind_eq_Inr)
  have r: "replace_in_state lim (old, new, ob, nb) k st s1 = Inr s'"
    using assms(1) t e l v by (auto simp: batch_replace_def rbind_eq_Inr split: if_splits)
  obtain src after s2 where d: "utf8_decode (fs_data st) = Some src" "count_sub old src = 1"
      "utf8_encode (replace_first old new src) = Some after"
    and c: "charge lim (int (length after)) s1 = Inr s2"
    and s': "s' = put_file k (st\<lparr>fs_data := after, fs_modified := True,
        fs_replacements := fs_replacements st + 1\<rparr>) s2"
    using replace_in_state_Inr [OF r] .
  have ld: "names_source os w (bo_path ope) k" "map_of (bp_files s1) k = Some st" "planner_inv os s1"
      "extends (bp_plan s) (bp_plan s1)" "bytes_ok lim s \<longrightarrow> bytes_ok lim s1"
    and lv: "\<And>m. agrees os m (bp_plan s1) \<Longrightarrow> virtual m s1 = virtual m s"
    using load_file_Inr [OF l assms(2)] by blast+
  note s2 = charge_Inr [OF c]
  have "planner_inv os s2" using ld(3) s2 by simp
  then have "planner_inv os s'"
    unfolding s' by (rule put_file_inv)
      (use inv_file [OF ld(3,2)] ld(2) s2 in \<open>auto simp: sound_file_def\<close>)
  moreover have "bytes_ok lim s \<longrightarrow> bytes_ok lim s'"
    using ld(5) put_charged [of lim "st\<lparr>fs_data := after, fs_modified := True,
        fs_replacements := fs_replacements st + 1\<rparr>" s1 s2 k] c s' by simp
  moreover have "batch_effect os w sha ope (virtual m s) (virtual m s')" if a: "agrees os m (bp_plan s')" for m
  proof -
    have a1: "agrees os m (bp_plan s1)" using a s' s2 by simp
    have s: "virtual m s k = Some (fs_data st)"
      using ld(2) lv [OF a1] by (metis (mono_tags, lifting) option.simps(5) virtual_def)
    have o: "bo_old ope = Py old" "bo_new ope = Py new" using replacement_texts_Inr [OF t] by auto
    have "virtual m s' = (virtual m s)(k := Some after)" using lv [OF a1] s2 unfolding s' by simp
    then show ?thesis using eff_replace [where m = "virtual m s", OF assms(3) o ld(1) s hash_checked [OF e v] d] by simp
  qed
  ultimately show ?thesis using ld(4) s' s2 by (simp add: follows_def)
qed

lemma batch_mkdir_follows:
  assumes "batch_mkdir os w ope s = Inr s'" "planner_inv os s" "bo_op ope = Py ''mkdir''"
  shows "follows os w sha lim ope s s'"
proof -
  obtain p c where p: "claim_path os s (bo_path ope) = Inr (p, c)"
    using assms(1) by (auto simp: batch_mkdir_def rbind_eq_Inr)
  obtain sp where c: "c = s\<lparr>bp_spellings := sp\<rparr>" using claim_path_Inr [OF p] .
  obtain r where u: "\<not> used_key c (batch_key os r)"
    and s': "s' = c\<lparr>bp_directories := AList.update (batch_key os r) r (bp_directories c),
       bp_plan := (bp_plan c)\<lparr>directories := insert r (directories (bp_plan c)),
                              absent := insert r (absent (bp_plan c))\<rparr>\<rparr>"
    using assms(1) p by (auto simp: batch_mkdir_def rbind_eq_Inr Let_def split: if_splits)
  have "planner_inv os s'" unfolding s' by (rule add_directory_inv [OF _ u]) (simp add: c assms(2))
  moreover have "extends (bp_plan s) (bp_plan s')" by (auto simp: s' c extends_def)
  moreover have "bytes_ok lim s \<longrightarrow> bytes_ok lim s'"
    by (simp add: bytes_ok_def s' c retained_bytes_def)
  moreover have "virtual m s' = virtual m s" for m by (simp add: s' c virtual_def fun_eq_iff)
  ultimately show ?thesis using eff_mkdir [OF assms(3)] by (simp add: follows_def)
qed

lemma plan_operation_follows:
  assumes "plan_operation os w sha mb lim s v = Inr s'" "planner_inv os s"
  shows "\<exists>ope. v = Py ope \<and> follows os w sha lim ope s s'"
proof -
  obtain ope name where v: "v = Py ope" and o: "bo_op ope = Py name" "name \<in> set operation_names"
    using assms(1) by (auto simp: plan_operation_def split: pyval.splits if_splits)
  let ?s = "count_operation name s"
  have i: "planner_inv os ?s" using assms(2) by (simp add: count_operation_def)
  have "follows os w sha lim ope ?s s'"
    using assms(1) v o batch_mkdir_follows [OF _ i] batch_create_follows [OF _ i]
      batch_replace_follows [OF _ i] batch_delete_follows [OF _ i]
      batch_copy_or_move_follows [OF _ i, where move = True]
      batch_copy_or_move_follows [OF _ i, where move = False]
    by (auto simp: plan_operation_def operation_names_def Let_def split: if_splits)
  then show ?thesis using v by (simp add: follows_def count_operation_def bytes_ok_def)
qed

lemma plan_operations_follow:
  assumes "rfold (plan_operation os w sha mb lim) s ops = Inr s'" "planner_inv os s"
  shows "planner_inv os s' \<and> extends (bp_plan s) (bp_plan s') \<and> (bytes_ok lim s \<longrightarrow> bytes_ok lim s')
    \<and> (agrees os m (bp_plan s') \<longrightarrow> batch_effects os w sha ops (virtual m s) (virtual m s'))"
  using assms
proof (induction ops arbitrary: s)
  case Nil
  then show ?case by (auto intro: effs_nil)
next
  case (Cons v ops)
  obtain s1 where s1: "plan_operation os w sha mb lim s v = Inr s1"
    and r: "rfold (plan_operation os w sha mb lim) s1 ops = Inr s'"
    using Cons.prems(1) by (auto simp: rbind_eq_Inr)
  obtain ope where v: "v = Py ope" and f: "follows os w sha lim ope s s1"
    using plan_operation_follows [OF s1 Cons.prems(2)] by blast
  have i: "planner_inv os s' \<and> extends (bp_plan s1) (bp_plan s') \<and> (bytes_ok lim s1 \<longrightarrow> bytes_ok lim s')
    \<and> (agrees os m (bp_plan s') \<longrightarrow> batch_effects os w sha ops (virtual m s1) (virtual m s'))"
    using r f by (intro Cons.IH) (auto simp: follows_def)
  have "agrees os m (bp_plan s') \<Longrightarrow> batch_effects os w sha (v # ops) (virtual m s) (virtual m s')"
    unfolding v using i f agrees_extends by (intro effs_step) (auto simp: follows_def)
  then show ?case using i f extends_trans by (auto simp: follows_def)
qed

section \<open>The plan is the batch\<close>

lemma keys_of_iff: "q \<in> keys_of al \<longleftrightarrow> map_of al q \<noteq> None"
  by (simp add: keys_of_def map_of_eq_None_iff)

lemma positive_limit_Inr: "positive_limit v = Inr n \<Longrightarrow> v = Py n \<and> 0 < n"
  by (auto simp: positive_limit_def split: pyval.splits if_splits)

lemma make_planner_Inr:
  assumes "make_planner st = Inr (lim, s0)"
  shows "planner_inv os s0 \<and> bytes_ok lim s0 \<and> virtual m s0 = m
    \<and> set_max_files st = Py (bl_files lim) \<and> set_max_total st = Py (bl_total lim)"
proof -
  obtain a b c d e where l: "positive_limit (set_max_files st) = Inr a" "positive_limit (set_max_total st) = Inr d"
    and lim: "lim = \<lparr>bl_files = a, bl_text = b, bl_write = c, bl_total = d, bl_artifact = e\<rparr>"
    and s0: "s0 = \<lparr>bp_plan = empty_plan ''workspace_batch'', bp_files = [], bp_directories = [],
           bp_removed = {}, bp_spellings = [], bp_copied = {}, bp_total = 0,
           bp_counts = List.map (\<lambda>n. (n, 0)) operation_names\<rparr>"
    using assms by (auto simp: make_planner_def rbind_eq_Inr)
  have "planner_inv os s0" by (simp add: planner_inv_defs s0 empty_plan_def)
  moreover have "bytes_ok lim s0"
    using positive_limit_Inr [OF l(2)] by (simp add: bytes_ok_def retained_bytes_def s0 empty_plan_def lim)
  moreover have "virtual m s0 = m" by (simp add: virtual_def fun_eq_iff s0)
  ultimately show ?thesis using positive_limit_Inr [OF l(1)] positive_limit_Inr [OF l(2)] lim by simp
qed

lemma plan_workspace_batch_Inr:
  assumes "plan_workspace_batch os w sha mb st (Py ops) = Inr (plan, summary)"
  obtains lim s0 s where "make_planner st = Inr (lim, s0)" "int (length ops) \<le> bl_files lim"
    "rfold (plan_operation os w sha mb lim) s0 ops = Inr s" "plan = bp_plan s"
    "int (card (scope plan)) \<le> bl_files lim"
proof -
  obtain n where n: "positive_limit (set_max_files st) = Inr n" "int (length ops) \<le> n"
    using assms by (auto simp: plan_workspace_batch_def rbind_eq_Inr split: if_splits)
  obtain lim s0 where m: "make_planner st = Inr (lim, s0)"
      and b: "batch_build os w sha mb lim s0 ops = Inr (plan, summary)"
    using assms n by (auto simp: plan_workspace_batch_def rbind_eq_Inr split: if_splits)
  obtain s where r: "rfold (plan_operation os w sha mb lim) s0 ops = Inr s"
    using b by (auto simp: batch_build_def rbind_eq_Inr)
  have "bl_files lim = n" using m n by (auto simp: make_planner_def rbind_eq_Inr)
  then show ?thesis using that [OF m _ r] b r n(2)
    by (auto simp: batch_build_def Let_def split: if_splits)
qed

text \<open>
  C22. A batch plan is the batch: on every disk that still agrees with what the plan relies on (its
  snapshots and the paths it found absent), committing the changes and deletions of the plan gives
  the disk that running the operations one after the other, each with its own precondition and
  digest check, gives.
\<close>

theorem batch_plan_refines:
  assumes "plan_workspace_batch os w sha mb st (Py ops) = Inr (plan, summary)"
    and "agrees os m plan"
  shows "batch_effects os w sha ops m (committed os plan m)"
proof -
  obtain lim s0 s where mk: "make_planner st = Inr (lim, s0)"
      and r: "rfold (plan_operation os w sha mb lim) s0 ops = Inr s" and p: "plan = bp_plan s"
    using plan_workspace_batch_Inr [OF assms(1)] by metis
  have i: "planner_inv os s0" and v: "virtual m s0 = m" using make_planner_Inr [OF mk] by auto
  have "planner_inv os s" and "batch_effects os w sha ops (virtual m s0) (virtual m s)"
    using plan_operations_follow [OF r i, of m] assms(2) p by auto
  then show ?thesis using committed_virtual [of os s m] assms(2) v p by simp
qed

definition demo_batch_settings :: batch_settings where
  "demo_batch_settings =
     \<lparr>set_max_files = Py 8, set_max_text = Py 100, set_max_write = Py 100, set_max_total = Py 500,
      set_max_artifact = Py 100\<rparr>"

definition demo_operation :: batch_operation where
  "demo_operation =
     \<lparr>bo_keys = {}, bo_op = Missing, bo_path = Missing, bo_source = Missing, bo_destination = Missing,
      bo_expected = Missing, bo_content = Missing, bo_old = Missing, bo_new = Missing\<rparr>"

definition demo_batch :: "batch_operation pyval list" where
  "demo_batch =
     [Py (demo_operation\<lparr>bo_keys := {''op'', ''path'', ''content''}, bo_op := Py ''create'',
            bo_path := Py ''src/b.txt'', bo_content := Py [104]\<rparr>),
      Py (demo_operation\<lparr>bo_keys := {''op'', ''source'', ''destination''}, bo_op := Py ''move'',
            bo_source := Py ''src/a.txt'', bo_destination := Py ''src/c.txt''\<rparr>),
      Py (demo_operation\<lparr>bo_keys := {''op'', ''path'', ''old_text'', ''new_text''}, bo_op := Py ''replace'',
            bo_path := Py ''src/b.txt'', bo_old := Py [104], bo_new := Py [8364]\<rparr>)]"

definition demo_batch_plan :: "(workspace_plan \<times> batch_summary) res" where
  "demo_batch_plan = plan_workspace_batch (listed_os demo_tree) demo_workspace (\<lambda>_. []) 1000
     demo_batch_settings (Py demo_batch)"

definition demo_disk :: disk where
  "demo_disk k = (if k = ''src/a.txt'' then Some [104, 105] else None)"

lemma demo_batch_planned:
  "\<exists>plan summary. demo_batch_plan = Inr (plan, summary)
    \<and> changes plan = [(''src/b.txt'', [0xE2, 0x82, 0xAC]), (''src/c.txt'', [104, 105])]
    \<and> deletions plan = {''src/a.txt''} \<and> agrees (listed_os demo_tree) demo_disk plan"
proof -
  define r where r: "r = demo_batch_plan"
  have h: "(case r of Inr (plan, summary) \<Rightarrow>
        changes plan = [(''src/b.txt'', [0xE2, 0x82, 0xAC]), (''src/c.txt'', [104, 105])]
        \<and> deletions plan = {''src/a.txt''} \<and> absent plan = {''src/b.txt'', ''src/c.txt''}
        \<and> List.map (\<lambda>(q, s). (q, snap_data s)) (snapshots plan) = [(''src/a.txt'', [104, 105])]
      | Inl _ \<Rightarrow> False)"
    unfolding r by code_simp
  then obtain plan summary where p: "r = Inr (plan, summary)" by (cases r) auto
  obtain s where s: "snapshots plan = [(''src/a.txt'', s)]" "snap_data s = [104, 105]"
    using h p by (auto simp: map_eq_Cons_conv)
  have a: "absent plan = {''src/b.txt'', ''src/c.txt''}" using h p by simp
  have k: "batch_key (listed_os demo_tree) ''src/a.txt'' = ''src/a.txt''
    \<and> batch_key (listed_os demo_tree) ''src/b.txt'' = ''src/b.txt''
    \<and> batch_key (listed_os demo_tree) ''src/c.txt'' = ''src/c.txt''" by code_simp
  have "agrees (listed_os demo_tree) demo_disk plan"
    using s a k by (auto simp: agrees_def demo_disk_def)
  then show ?thesis using h p r by (intro exI [of _ plan] exI [of _ summary]) simp
qed

lemma batch_plan_refines_witness:
  "\<exists>plan summary. demo_batch_plan = Inr (plan, summary) \<and>
     batch_effects (listed_os demo_tree) demo_workspace (\<lambda>_. []) demo_batch demo_disk
       (committed (listed_os demo_tree) plan demo_disk)"
proof -
  obtain plan summary where p: "demo_batch_plan = Inr (plan, summary)"
    and a: "agrees (listed_os demo_tree) demo_disk plan"
    using demo_batch_planned by blast
  show ?thesis using batch_plan_refines [OF p [unfolded demo_batch_plan_def] a] p by blast
qed

text \<open>
  A batch plan is well formed and bounded: it retains at most the configured bytes and touches
  at most the configured number of paths, nothing is both changed and deleted, only files with a
  verified snapshot are deleted, a changed path either has a snapshot or was found absent, and
  every directory to create was found absent.
\<close>

theorem batch_plan_well_formed:
  assumes "plan_workspace_batch os w sha mb st (Py ops) = Inr (plan, summary)"
  shows "(\<exists>n. set_max_files st = Py n \<and> int (length ops) \<le> n \<and> int (card (scope plan)) \<le> n)
    \<and> (\<exists>n. set_max_total st = Py n \<and> retained_bytes plan \<le> n)
    \<and> deletions plan \<inter> keys_of (changes plan) = {} \<and> deletions plan \<subseteq> keys_of (snapshots plan)
    \<and> keys_of (changes plan) \<subseteq> keys_of (snapshots plan) \<union> absent plan
    \<and> directories plan \<subseteq> absent plan"
proof -
  obtain lim s0 s where mk: "make_planner st = Inr (lim, s0)"
      and r: "rfold (plan_operation os w sha mb lim) s0 ops = Inr s" and p: "plan = bp_plan s"
      and n: "int (length ops) \<le> bl_files lim" "int (card (scope plan)) \<le> bl_files lim"
    using plan_workspace_batch_Inr [OF assms(1)] by metis
  have m: "planner_inv os s0" "bytes_ok lim s0" "set_max_files st = Py (bl_files lim)"
      "set_max_total st = Py (bl_total lim)"
    using make_planner_Inr [OF mk] by auto
  then have i: "planner_inv os s" and b: "bytes_ok lim s"
    using plan_operations_follow [OF r m(1)] by auto
  have c: "q \<notin> deletions plan \<and> q \<in> keys_of (snapshots plan) \<union> absent plan"
    if q: "q \<in> keys_of (changes plan)" for q
  proof -
    obtain d where "map_of (changes (bp_plan s)) q = Some d" using q p by (auto simp: keys_of_iff)
    then obtain f where f: "map_of (bp_files s) (batch_key os q) = Some f" "fs_path f = q"
      using inv_change [OF i] by blast
    have "sound_file os s (batch_key os q) f" using inv_file [OF i f(1)] .
    then show ?thesis using inv_deletion [OF i, of q] f(2) p
      by (auto simp: sound_file_def keys_of_def map_of_eq_None_iff split: if_splits)
  qed
  have "deletions plan \<subseteq> keys_of (snapshots plan)"
    using inv_deletion [OF i] p by (auto simp: keys_of_def map_of_eq_None_iff)
  moreover have "directories plan \<subseteq> absent plan"
    using i p by (auto simp: planner_inv_def sound_directories_def)
  moreover have "retained_bytes plan \<le> bl_total lim" using b p by (simp add: bytes_ok_def)
  ultimately show ?thesis using c m(3,4) n by auto
qed

lemma batch_plan_well_formed_witness:
  "\<exists>plan summary. demo_batch_plan = Inr (plan, summary) \<and> retained_bytes plan \<le> 500
     \<and> deletions plan \<inter> keys_of (changes plan) = {}"
proof -
  obtain plan summary where p: "demo_batch_plan = Inr (plan, summary)"
    using demo_batch_planned by blast
  show ?thesis using batch_plan_well_formed [OF p [unfolded demo_batch_plan_def]] p
    by (auto simp: demo_batch_settings_def)
qed

end
