(* ===== verification/Policy.thy ===== *)
theory Policy
  imports Paths
begin

text \<open>
  The deny-by-default grammars for commands that run without approval (\<open>policy.py\<close>), with the
  structural commit format (\<open>git_metadata.py\<close>), the Git environment filter (\<open>git_env.py\<close>) and the
  classification of an admitted command (\<open>command_traits.py\<close>). The pinned helper executables, the
  executable lookup and the identity capture are arguments: they ask the operating system.
\<close>

section \<open>Commands and settings\<close>

record command_settings =
  git_enabled :: bool
  adb_enabled :: bool
  flutter_enabled :: bool
  dart_enabled :: bool
  powershell_enabled :: bool
  max_command_arguments :: int
  max_command_argument_characters :: int
  adb_allowed_serials :: "string list"
  adb_emulator_only :: bool

record normalized_command =
  nc_executable :: string
  nc_args :: "string list"
  nc_cwd :: string
  nc_display :: "string list"
  nc_program_key :: string
  nc_network :: bool

text \<open>\<open>str(path)\<close> of an absolute path, whose first part is the drive.\<close>

definition path_str :: "path \<Rightarrow> string" where
  "path_str p = (case p of [] \<Rightarrow> [] | [d] \<Rightarrow> d @ [backslash] | _ \<Rightarrow> join_with [backslash] p)"

definition last_or_empty :: "string list \<Rightarrow> string" where
  "last_or_empty ps = (if ps = [] then [] else last ps)"

text \<open>\<open>Path(program).name\<close>, with the UNC prefix of \<open>ntpath.splitroot\<close>.\<close>

definition windows_name :: "string \<Rightarrow> string" where
  "windows_name p =
     (let n = List.map win_sep p;
          unc = [backslash, backslash, CHR ''?'', backslash] @ ''UNC'' @ [backslash] in
      if starts_with [backslash, backslash] n
      then (case find_from [backslash] n (if ascii_upper (take 8 n) = unc then 8 else 2) of
              None \<Rightarrow> []
            | Some i \<Rightarrow>
                (case find_from [backslash] n (i + 1) of
                   None \<Rightarrow> []
                 | Some j \<Rightarrow> last_or_empty (path_components (drop (j + 1) n))))
      else last_or_empty (wp_rel (parse_windows_path p)))"

definition remove_suffix :: "string \<Rightarrow> string \<Rightarrow> string" where
  "remove_suffix s suffix =
     (if suffix \<noteq> [] \<and> ends_with suffix s then take (length s - length suffix) s else s)"

definition program_key :: "os_env \<Rightarrow> string \<Rightarrow> string" where
  "program_key os program =
     foldl remove_suffix (casefold os (windows_name program)) [''.exe'', ''.bat'', ''.cmd'']"

definition reject_nul :: "string list \<Rightarrow> unit res" where
  "reject_nul values =
     (if list_ex (\<lambda>v. nul_char \<in> set v) values
      then Inl (ValueError ''NUL is not allowed in command arguments'') else Inr ())"

definition require_enabled :: "bool \<Rightarrow> unit res" where
  "require_enabled enabled =
     (if enabled then Inr () else Inl (PermissionError ''capability is disabled''))"

definition check_argument_limits :: "command_settings \<Rightarrow> string list \<Rightarrow> unit res" where
  "check_argument_limits st values =
     (if max_command_arguments st < int (length values)
      then Inl (ValueError ''command exceeds max_command_arguments'')
      else if list_ex (\<lambda>v. max_command_argument_characters st < int (length v)) values
      then Inl (ValueError ''command argument exceeds max_command_argument_characters'')
      else Inr ())"

section \<open>The Git grammar\<close>

definition git_subcommands :: "string list" where
  "git_subcommands = [''status'', ''diff'', ''log'', ''show'', ''rev-parse'', ''ls-files'']"

definition git_common_flags :: "string list" where
  "git_common_flags =
     [''--no-color'', ''--color=never'', ''--stat'', ''--name-only'', ''--name-status'', ''--oneline'',
      ''--decorate'', ''--no-decorate'', ''--no-patch'']"

definition safe_revision_char :: "char \<Rightarrow> bool" where
  "safe_revision_char c \<longleftrightarrow> is_alnum_ascii c \<or> c \<in> set ''._/@~^{}+-''"

definition safe_revision :: "string \<Rightarrow> bool" where
  "safe_revision v \<longleftrightarrow> v \<noteq> [] \<and> list_all safe_revision_char v"

definition safe_log_count :: "string \<Rightarrow> bool" where
  "safe_log_count v \<longleftrightarrow>
     (case v of
        [m, a] \<Rightarrow> m = CHR ''-'' \<and> char_between (CHR ''1'') (CHR ''9'') a
      | [m, a, b] \<Rightarrow> m = CHR ''-'' \<and> char_between (CHR ''1'') (CHR ''9'') a \<and> is_digit b
      | [m, a, b, c] \<Rightarrow> m = CHR ''-'' \<and> (a = CHR ''1'' \<and> is_digit b \<and> is_digit c
                                        \<or> [a, b, c] = ''200'')
      | _ \<Rightarrow> False)"

definition adb_properties :: "string list" where
  "adb_properties =
     [''ro.build.version.release'', ''ro.build.version.sdk'', ''ro.product.manufacturer'',
      ''ro.product.model'', ''ro.kernel.qemu'']"

definition commit_suffix :: string where
  "commit_suffix = ''^{commit}''"

definition bind_range :: "string \<Rightarrow> string \<Rightarrow> string res" where
  "bind_range separator v =
     (if count_sub separator v \<noteq> 1
      then Inl (PermissionError ''Git revision range is not in the safe grammar'')
      else case find_sub separator v of
        None \<Rightarrow> Inl (PermissionError ''Git revision range is not in the safe grammar'')
      | Some i \<Rightarrow>
          let left = take i v; right = drop (i + length separator) v in
          if left = [] \<or> right = [] \<or> \<not> safe_revision left \<or> \<not> safe_revision right
          then Inl (PermissionError ''Git revision range is not in the safe grammar'')
          else Inr (left @ commit_suffix @ separator @ right @ commit_suffix))"

definition commit_bound_revision :: "string \<Rightarrow> string res" where
  "commit_bound_revision v =
     (if contains_sub ''...'' v then bind_range ''...'' v
      else if contains_sub ''..'' v then bind_range ''..'' v
      else Inr (v @ commit_suffix))"

definition normalize_read_paths ::
  "os_env \<Rightarrow> workspace \<Rightarrow> bool \<Rightarrow> string list \<Rightarrow> string list res" where
  "normalize_read_paths os w files_only paths =
     rmap (\<lambda>p. rbind (resolve_existing os w p (\<not> files_only) ReadAccess True)
                 (\<lambda>r. Inr (path_str r))) paths"

text \<open>The split at the first \<open>--\<close>, if there is one.\<close>

definition split_pathspec :: "string list \<Rightarrow> string list \<times> string list" where
  "split_pathspec values = (case split_at ''--'' values of Some (a, b) \<Rightarrow> (a, b) | None \<Rightarrow> (values, []))"

definition has_paths :: "string list \<Rightarrow> bool" where
  "has_paths tail \<longleftrightarrow> snd (split_pathspec tail) \<noteq> []"

definition any_in :: "string list \<Rightarrow> string list \<Rightarrow> bool" where
  "any_in flags values \<longleftrightarrow> list_ex (\<lambda>v. v \<in> set flags) values"

definition flags_and_pathspec ::
  "os_env \<Rightarrow> workspace \<Rightarrow> string list \<Rightarrow> string list \<Rightarrow> string list res" where
  "flags_and_pathspec os w values allowed_flags =
     (let (flags, paths) = split_pathspec values in
      if list_ex (\<lambda>f. f \<notin> set allowed_flags) flags
      then Inl (PermissionError ''Git option is not in the safe grammar'')
      else if paths \<noteq> []
      then rbind (normalize_read_paths os w False paths) (\<lambda>ps. Inr (flags @ [''--''] @ ps))
      else Inr flags)"

text \<open>One option or revision before the pathspec; the flag says that it was a revision.\<close>

definition normalize_head_value ::
  "string list \<Rightarrow> bool \<Rightarrow> bool \<Rightarrow> string \<Rightarrow> (string \<times> bool) res" where
  "normalize_head_value allowed_flags allow_count require_commitish v =
     (if v \<in> set allowed_flags \<or> (allow_count \<and> safe_log_count v) then Inr (v, False)
      else if safe_revision v \<and> \<not> starts_with ''-'' v
      then (if require_commitish then rbind (commit_bound_revision v) (\<lambda>r. Inr (r, True))
            else Inr (v, True))
      else Inl (PermissionError ''Git revision or option is not in the safe grammar''))"

definition git_revisions_flags_paths ::
  "os_env \<Rightarrow> workspace \<Rightarrow> string list \<Rightarrow> string list \<Rightarrow> bool \<Rightarrow> bool \<Rightarrow> bool \<Rightarrow> string option \<Rightarrow>
   string list res" where
  "git_revisions_flags_paths os w values allowed_flags allow_count files_only require_commitish dflt =
     (let (head, paths) = split_pathspec values in
      rbind (rmap (normalize_head_value allowed_flags allow_count require_commitish) head) (\<lambda>hs.
      rbind (if require_commitish \<and> \<not> list_ex snd hs
             then (case dflt of
                     None \<Rightarrow> Inr (List.map fst hs)
                   | Some d \<Rightarrow> rbind (commit_bound_revision d) (\<lambda>r. Inr (List.map fst hs @ [r])))
             else Inr (List.map fst hs)) (\<lambda>normalized_head.
      if paths \<noteq> []
      then rbind (normalize_read_paths os w files_only paths)
             (\<lambda>ps. Inr (normalized_head @ [''--''] @ ps))
      else Inr normalized_head)))"

definition structural_format :: string where
  "structural_format = ''--format=%H%x09%P%x09%T%x09%ct''"

definition freeform_pretty_flags :: "string list" where
  "freeform_pretty_flags = [''--oneline'', ''--decorate'', ''--no-decorate'']"

definition force_structural_commit_output :: "string list \<Rightarrow> string list" where
  "force_structural_commit_output values =
     (let cleaned = List.filter (\<lambda>v. v \<notin> set freeform_pretty_flags) values in
      case split_at ''--'' cleaned of
        Some (a, b) \<Rightarrow> a @ [structural_format] @ ''--'' # b
      | None \<Rightarrow> cleaned @ [structural_format])"

definition status_flags :: "string list" where
  "status_flags =
     [''--short'', ''-s'', ''--branch'', ''-b'', ''--porcelain'', ''--porcelain=v1'',
      ''--untracked-files=all'', ''--untracked-files=normal'', ''--untracked-files=no'']"

definition ls_files_flags :: "string list" where
  "ls_files_flags =
     [''--cached'', ''--modified'', ''--deleted'', ''--others'', ''--exclude-standard'', ''--stage'']"

definition show_metadata :: "string list" where
  "show_metadata = [''--stat'', ''--name-only'', ''--name-status'', ''--no-patch'']"

definition diff_metadata :: "string list" where
  "diff_metadata = [''--stat'', ''--name-only'', ''--name-status'', ''--quiet'', ''--no-patch'']"

definition diff_flags :: "string list" where
  "diff_flags =
     git_common_flags @ [''--cached'', ''--staged'', ''--quiet'', ''--exit-code'', ''--no-renames'']"

definition log_flags :: "string list" where
  "log_flags = git_common_flags @ [''--all'', ''--branches'', ''--tags'']"

definition no_external :: "string list" where
  "no_external = [''--no-ext-diff'', ''--no-textconv'']"

definition git_diff_args :: "os_env \<Rightarrow> workspace \<Rightarrow> string list \<Rightarrow> string list res" where
  "git_diff_args os w tail =
     (if any_in [''--patch'', ''-p'', ''--binary'', ''--check''] tail
      then Inl (SandboxRouteRequired ''content-bearing Git diff output is not eligible for Automatic Git'')
      else if has_paths tail \<and> \<not> any_in diff_metadata tail
      then Inl (SandboxRouteRequired ''Automatic Git diff with a pathspec requires a metadata-only mode'')
      else rbind (git_revisions_flags_paths os w tail diff_flags False False True None) (\<lambda>normalized.
             Inr (no_external @
                  (if any_in diff_metadata normalized then normalized else ''--stat'' # normalized))))"

definition git_log_args :: "os_env \<Rightarrow> workspace \<Rightarrow> string list \<Rightarrow> string list res" where
  "git_log_args os w tail =
     rbind (git_revisions_flags_paths os w tail log_flags True False False None)
       (\<lambda>normalized. Inr (no_external @ force_structural_commit_output normalized))"

definition git_show_args :: "os_env \<Rightarrow> workspace \<Rightarrow> string list \<Rightarrow> string list res" where
  "git_show_args os w tail =
     (if any_in [''--patch'', ''-p''] tail
      then Inl (SandboxRouteRequired ''content-bearing Git show output is not eligible for Automatic Git'')
      else if has_paths tail \<and> \<not> any_in show_metadata tail
      then Inl (SandboxRouteRequired ''Automatic Git show with a pathspec requires a metadata-only mode'')
      else rbind (git_revisions_flags_paths os w tail git_common_flags False False True (Some ''HEAD''))
             (\<lambda>normalized.
             let shown = (if \<not> has_paths tail \<and> \<not> any_in show_metadata normalized
                          then ''--no-patch'' # normalized else normalized)
             in Inr (no_external @ force_structural_commit_output shown)))"

definition rev_parse_permitted :: "string list list" where
  "rev_parse_permitted =
     [[''HEAD''], [''--short'', ''HEAD''], [''--abbrev-ref'', ''HEAD''], [''--show-toplevel''],
      [''--is-inside-work-tree'']]"

definition git_prefix :: "string list" where
  "git_prefix =
     [''--no-pager'', ''--no-optional-locks'', ''-c'', ''core.fsmonitor=false'',
      ''-c'', ''core.untrackedCache=false'', ''-c'', ''maintenance.auto=false'', ''-c'', ''gc.auto=0'',
      ''-c'', ''diff.autoRefreshIndex=false'', ''-c'', ''diff.external='', ''-c'', ''credential.helper='']"

definition normalize_git :: "os_env \<Rightarrow> workspace \<Rightarrow> string list \<Rightarrow> string list res" where
  "normalize_git os w args =
     (let sub = casefold os (hd args); tail = tl args in
      if sub \<notin> set git_subcommands
      then Inl (SandboxRouteRequired ''Git subcommand is not eligible for Automatic Git'')
      else
        rbind (if sub = ''status'' then flags_and_pathspec os w tail status_flags
               else if sub = ''diff'' then git_diff_args os w tail
               else if sub = ''log'' then git_log_args os w tail
               else if sub = ''show'' then git_show_args os w tail
               else if sub = ''rev-parse''
               then (if tail \<notin> set rev_parse_permitted
                     then Inl (PermissionError ''git rev-parse arguments are not in the safe grammar'')
                     else Inr tail)
               else flags_and_pathspec os w tail ls_files_flags)
          (\<lambda>normalized. Inr (git_prefix @ sub # normalized)))"

section \<open>The ADB grammar\<close>

definition validate_adb_serial :: "os_env \<Rightarrow> command_settings \<Rightarrow> string \<Rightarrow> unit res" where
  "validate_adb_serial os st serial =
     (if adb_allowed_serials st = []
      then Inl (PermissionError ''automatic ADB requires at least one explicitly allowlisted target'')
      else if serial \<notin> set (adb_allowed_serials st)
      then Inl (PermissionError ''ADB serial is not allowlisted'')
      else if adb_emulator_only st \<and> \<not> starts_with ''emulator-'' (casefold os serial)
      then Inl (PermissionError ''physical or nonstandard ADB targets are disabled'')
      else Inr ())"

definition adb_operations :: "string list list" where
  "adb_operations =
     [[''get-state''], [''shell'', ''wm'', ''size''], [''shell'', ''wm'', ''density''],
      [''shell'', ''dumpsys'', ''battery''], [''shell'', ''dumpsys'', ''display''],
      [''shell'', ''dumpsys'', ''window''], [''shell'', ''dumpsys'', ''activity'', ''activities''],
      [''exec-out'', ''screencap'', ''-p'']]"

definition adb_operation_allowed :: "string list \<Rightarrow> bool" where
  "adb_operation_allowed ope \<longleftrightarrow>
     ope \<in> set adb_operations
     \<or> (length ope = 3 \<and> take 2 ope = [''shell'', ''getprop''] \<and> ope ! 2 \<in> set adb_properties)"

definition normalize_adb :: "os_env \<Rightarrow> command_settings \<Rightarrow> string list \<Rightarrow> string list res" where
  "normalize_adb os st args =
     (if args = [''devices''] \<or> args = [''devices'', ''-l'']
      then Inl (PermissionError ''automatic ADB device enumeration is disabled'')
      else case args of
        flag # serial # op1 # ops \<Rightarrow>
          if flag \<noteq> ''-s'' then Inl (PermissionError ''targeted ADB operations require -s SERIAL'')
          else rbind (validate_adb_serial os st serial) (\<lambda>_.
            if \<not> adb_operation_allowed (op1 # ops)
            then Inl (PermissionError ''ADB operation is not in the fixed read-only grammar'')
            else Inr (''-s'' # serial # op1 # ops))
      | _ \<Rightarrow> Inl (PermissionError ''targeted ADB operations require -s SERIAL''))"

section \<open>Normalization\<close>

definition command_result :: "string \<Rightarrow> string list \<Rightarrow> path \<Rightarrow> string \<Rightarrow> normalized_command" where
  "command_result executable args cwd key =
     \<lparr>nc_executable = executable, nc_args = args, nc_cwd = path_str cwd,
      nc_display = executable # args, nc_program_key = key, nc_network = False\<rparr>"

definition normalize_safe ::
  "os_env \<Rightarrow> workspace \<Rightarrow> command_settings \<Rightarrow> (string \<Rightarrow> string res) \<Rightarrow> string \<Rightarrow> string list \<Rightarrow>
   string \<Rightarrow> normalized_command res" where
  "normalize_safe os w st helper program args cwd =
     (if args = [] then Inl (ValueError ''a subcommand or arguments are required'')
      else
        rbind (reject_nul (program # args)) (\<lambda>_.
        rbind (check_argument_limits st args) (\<lambda>_.
        rbind (resolve_directory os w cwd ReadAccess) (\<lambda>cwd_path.
        let key = program_key os program in
        if key = ''git''
        then rbind (require_enabled (git_enabled st)) (\<lambda>_.
             if \<not> os_exists os (ws_root w @ [''.git''])
             then Inl (PermissionError ''automatic Git requires workspace_root itself to be a Git worktree root'')
             else rbind (normalize_git os w args) (\<lambda>normalized.
                  rbind (helper ''git'') (\<lambda>exe.
                  Inr (command_result exe normalized cwd_path ''git''))))
        else if key = ''flutter'' \<or> key = ''dart''
        then Inl (SandboxRouteRequired ''processing may load project-controlled code or plugins'')
        else if key = ''adb''
        then rbind (require_enabled (adb_enabled st)) (\<lambda>_.
             rbind (normalize_adb os st args) (\<lambda>normalized.
             rbind (helper ''adb'') (\<lambda>exe.
             Inr (command_result exe normalized cwd_path ''adb''))))
        else Inl (SandboxRouteRequired ''program is not eligible for automatic execution'')))))"

definition require_host_capability :: "command_settings \<Rightarrow> string \<Rightarrow> unit res" where
  "require_host_capability st key =
     (if key = ''git'' then require_enabled (git_enabled st)
      else if key = ''flutter'' then require_enabled (flutter_enabled st)
      else if key = ''dart'' then require_enabled (dart_enabled st)
      else if key = ''adb'' then require_enabled (adb_enabled st)
      else if key = ''powershell'' \<or> key = ''pwsh'' then require_enabled (powershell_enabled st)
      else Inr ())"

text \<open>
  \<open>which\<close> is \<open>shutil.which\<close>; \<open>user_file\<close> the resolved path of an expanded path that is an existing
  regular file; \<open>identity\<close> the path of the captured executable identity.
\<close>

definition normalize_host ::
  "os_env \<Rightarrow> workspace \<Rightarrow> command_settings \<Rightarrow> (string \<Rightarrow> string option) \<Rightarrow> (string \<Rightarrow> string option) \<Rightarrow>
   (string \<Rightarrow> string res) \<Rightarrow> string list \<Rightarrow> string \<Rightarrow> bool \<Rightarrow> normalized_command res" where
  "normalize_host os w st which user_file identity command cwd network =
     (if command = [] then Inl (ValueError ''command must contain an executable'')
      else
        rbind (reject_nul command) (\<lambda>_.
        rbind (check_argument_limits st command) (\<lambda>_.
        rbind (resolve_directory os w cwd ReadAccess) (\<lambda>cwd_path.
        rbind (case which (hd command) of
                 Some e \<Rightarrow> Inr e
               | None \<Rightarrow> (case user_file (hd command) of
                            Some e \<Rightarrow> Inr e
                          | None \<Rightarrow> Inl (FileNotFound ''executable was not found''))) (\<lambda>executable.
        let key = program_key os executable in
        rbind (require_host_capability st key) (\<lambda>_.
        rbind (identity executable) (\<lambda>exe.
        Inr \<lparr>nc_executable = exe, nc_args = tl command, nc_cwd = path_str cwd_path,
             nc_display = command, nc_program_key = key, nc_network = network\<rparr>)))))))"

section \<open>Command traits\<close>

datatype execution_kind = ReadOnly | WorkspaceWrite | AdbRead

definition dart_non_writing_outputs :: "string list" where
  "dart_non_writing_outputs = [''--show'', ''--output=show'', ''--output=none'']"

definition dart_format_writes :: "string list \<Rightarrow> bool" where
  "dart_format_writes args \<longleftrightarrow>
     args \<noteq> [] \<and> hd args = ''format'' \<and> \<not> any_in dart_non_writing_outputs args"

definition classify_safe_execution :: "normalized_command \<Rightarrow> execution_kind res" where
  "classify_safe_execution c =
     (let key = nc_program_key c; args = nc_args c in
      if key = ''adb'' then Inr AdbRead
      else if key = ''git'' then Inr ReadOnly
      else if key = ''flutter''
      then (if args \<noteq> [] \<and> hd args = ''analyze'' then Inr ReadOnly
            else Inl (PermissionError ''normalized Flutter command is not eligible for a safe MCP tool''))
      else if key = ''dart''
      then (if args \<noteq> [] \<and> hd args = ''analyze'' then Inr ReadOnly
            else if args \<noteq> [] \<and> hd args = ''format''
            then Inr (if dart_format_writes args then WorkspaceWrite else ReadOnly)
            else Inl (PermissionError ''normalized Dart command is not eligible for a safe MCP tool''))
      else Inl (PermissionError ''unsupported automatic program kind''))"

definition recommended_tool :: "execution_kind \<Rightarrow> string" where
  "recommended_tool kind =
     (if kind = ReadOnly then ''execute_readonly''
      else if kind = WorkspaceWrite then ''execute_workspace_write'' else ''adb_read'')"

section \<open>The Git environment\<close>

definition git_ambient_exact :: "string list" where
  "git_ambient_exact =
     [''GIT_DIR'', ''GIT_WORK_TREE'', ''GIT_COMMON_DIR'', ''GIT_OBJECT_DIRECTORY'',
      ''GIT_ALTERNATE_OBJECT_DIRECTORIES'', ''GIT_INDEX_FILE'', ''GIT_SHALLOW_FILE'', ''GIT_NAMESPACE'',
      ''GIT_CEILING_DIRECTORIES'', ''GIT_DISCOVERY_ACROSS_FILESYSTEM'', ''GIT_EXEC_PATH'',
      ''GIT_EXTERNAL_DIFF'', ''GIT_DIFF_OPTS'', ''GIT_PAGER'', ''GIT_LITERAL_PATHSPECS'',
      ''GIT_GLOB_PATHSPECS'', ''GIT_NOGLOB_PATHSPECS'', ''GIT_ICASE_PATHSPECS'', ''GIT_CONFIG'']"

text \<open>\<open>up\<close> is \<open>str.upper\<close>.\<close>

definition is_git_ambient_override :: "(string \<Rightarrow> string) \<Rightarrow> string \<Rightarrow> bool" where
  "is_git_ambient_override up name \<longleftrightarrow>
     up name \<in> set git_ambient_exact \<or> starts_with ''GIT_CONFIG_'' (up name)"

definition sanitized_git_environment ::
  "(string \<Rightarrow> string) \<Rightarrow> (string \<times> string) list \<Rightarrow> (string \<times> string) list" where
  "sanitized_git_environment up env = List.filter (\<lambda>(k, _). \<not> is_git_ambient_override up k) env"

text \<open>The loop over a copy of the keys that pops from the live environment.\<close>

fun pop_overrides ::
  "(string \<Rightarrow> string) \<Rightarrow> string list \<Rightarrow> (string \<times> string) list \<Rightarrow> (string \<times> string) list" where
  "pop_overrides up [] env = env"
| "pop_overrides up (k # ks) env =
     pop_overrides up ks
       (if is_git_ambient_override up k then List.filter (\<lambda>(k', _). k' \<noteq> k) env else env)"

definition strip_git_ambient_environment ::
  "(string \<Rightarrow> string) \<Rightarrow> (string \<times> string) list \<Rightarrow> (string \<times> string) list" where
  "strip_git_ambient_environment up env = pop_overrides up (List.map fst env) env"

section \<open>What an admitted Git command can contain\<close>

definition safe_git_options :: "string list" where
  "safe_git_options =
     git_common_flags @ diff_flags @ log_flags @ status_flags @ ls_files_flags @ no_external
     @ [structural_format, ''--short'', ''--abbrev-ref'', ''--show-toplevel'', ''--is-inside-work-tree'']"

definition safe_git_word :: "string \<Rightarrow> bool" where
  "safe_git_word h \<longleftrightarrow>
     h \<in> set safe_git_options \<or> safe_log_count h \<or> (safe_revision h \<and> \<not> starts_with ''-'' h)"

definition readable_path :: "os_env \<Rightarrow> workspace \<Rightarrow> string \<Rightarrow> bool" where
  "readable_path os w p \<longleftrightarrow> (\<exists>r. p = path_str r \<and> allowed os w r ReadAccess)"

text \<open>Options and revisions, then optionally \<open>--\<close> and paths that passed the read policy.\<close>

definition safe_git_tail :: "os_env \<Rightarrow> workspace \<Rightarrow> string list \<Rightarrow> string list \<Rightarrow> bool" where
  "safe_git_tail os w head rest \<longleftrightarrow>
     (\<forall>h\<in>set head. safe_git_word h)
     \<and> (rest = [] \<or> (\<exists>ps. rest = ''--'' # ps \<and> (\<forall>p\<in>set ps. readable_path os w p)))"

lemma path_str_separator: "path_str p = [] \<or> backslash \<in> set (path_str p)"
proof (cases p)
  case Nil
  then show ?thesis by (simp add: path_str_def)
next
  case (Cons a ps)
  show ?thesis
  proof (cases ps)
    case Nil
    then show ?thesis using Cons by (simp add: path_str_def)
  next
    case (Cons b qs)
    then show ?thesis using \<open>p = a # ps\<close> by (simp add: path_str_def)
  qed
qed

lemma options_no_backslash: "h \<in> set safe_git_options \<Longrightarrow> h \<noteq> [] \<and> backslash \<notin> set h"
proof -
  have "list_all (\<lambda>h. h \<noteq> [] \<and> backslash \<notin> set h) safe_git_options" by code_simp
  then show "h \<in> set safe_git_options \<Longrightarrow> h \<noteq> [] \<and> backslash \<notin> set h" by (simp add: list_all_iff)
qed

lemma dashes_unsafe: "\<not> safe_git_word ''--''"
  by code_simp

lemma head_no_dashes: "\<forall>h\<in>set head. safe_git_word h \<Longrightarrow> ''--'' \<notin> set head"
  using dashes_unsafe by blast

lemma subset_options:
  "set status_flags \<subseteq> set safe_git_options" "set ls_files_flags \<subseteq> set safe_git_options"
  "set diff_flags \<subseteq> set safe_git_options" "set log_flags \<subseteq> set safe_git_options"
  "set git_common_flags \<subseteq> set safe_git_options" "set no_external \<subseteq> set safe_git_options"
  "structural_format \<in> set safe_git_options" "''--stat'' \<in> set safe_git_options"
  "''--no-patch'' \<in> set safe_git_options"
  by (auto simp: safe_git_options_def git_common_flags_def)

lemma rmap_Inr: "rmap f xs = Inr ys \<Longrightarrow> list_all2 (\<lambda>x y. f x = Inr y) xs ys"
  by (induction xs arbitrary: ys) (auto simp: rbind_eq_Inr)

lemma normalize_read_paths_Inr:
  assumes "normalize_read_paths os w fo paths = Inr ps"
  shows "\<forall>p\<in>set ps. readable_path os w p"
proof -
  have "list_all2 (\<lambda>p q. readable_path os w q) paths ps"
    using rmap_Inr [OF assms [unfolded normalize_read_paths_def]]
    by (rule list_all2_mono)
      (use resolve_existing_Inr(2) in \<open>fastforce simp: rbind_eq_Inr readable_path_def\<close>)
  then show ?thesis by (auto simp: list_all2_conv_all_nth in_set_conv_nth)
qed

lemma safe_revision_append: "safe_revision a \<Longrightarrow> safe_revision b \<Longrightarrow> safe_revision (a @ b)"
  by (simp add: safe_revision_def)

lemma commit_suffix_safe: "safe_revision commit_suffix" "safe_revision ''...''" "safe_revision ''..''"
  by code_simp+

lemma starts_dash_append: "a \<noteq> [] \<Longrightarrow> starts_with ''-'' (a @ b) = starts_with ''-'' a"
  by (cases a) (auto simp: starts_with_def)

lemma bind_range_safe:
  assumes "bind_range sep v = Inr r" and "safe_revision sep" and "\<not> starts_with ''-'' v"
  shows "safe_revision r \<and> \<not> starts_with ''-'' r \<and>
    (\<exists>left right. v = left @ sep @ right \<and> r = left @ commit_suffix @ sep @ right @ commit_suffix)"
proof -
  obtain i where i: "find_sub sep v = Some i"
    using assms(1) by (auto simp: bind_range_def split: if_splits option.splits)
  let ?l = "take i v" and ?r = "drop (i + length sep) v"
  have r: "r = ?l @ commit_suffix @ sep @ ?r @ commit_suffix"
    and s: "?l \<noteq> []" "safe_revision ?l" "safe_revision ?r"
    using assms(1) i by (auto simp: bind_range_def Let_def split: if_splits)
  have "starts_with sep (drop i v)" using find_sub_Some [OF i] by simp
  then have v: "v = ?l @ sep @ ?r"
    unfolding starts_with_def by (metis add.commute append_take_drop_id drop_drop)
  have "\<not> starts_with ''-'' ?l" using assms(3) s(1) v starts_dash_append by metis
  then have "\<not> starts_with ''-'' r" using s(1) unfolding r by (simp add: starts_dash_append)
  moreover have "safe_revision r" unfolding r
    using s assms(2) commit_suffix_safe by (intro safe_revision_append)
  ultimately show ?thesis using v r by blast
qed

lemma commit_bound_safe:
  assumes "commit_bound_revision v = Inr r" and "safe_revision v" and "\<not> starts_with ''-'' v"
  shows "safe_revision r \<and> \<not> starts_with ''-'' r"
proof -
  consider "bind_range ''...'' v = Inr r" | "bind_range ''..'' v = Inr r" | "r = v @ commit_suffix"
    using assms(1) unfolding commit_bound_revision_def by (metis sum.inject(2))
  then show ?thesis
  proof cases
    case 1
    then show ?thesis using bind_range_safe [OF _ commit_suffix_safe(2) assms(3)] by blast
  next
    case 2
    then show ?thesis using bind_range_safe [OF _ commit_suffix_safe(3) assms(3)] by blast
  next
    case 3
    have "v \<noteq> []" using assms(2) by (simp add: safe_revision_def)
    then show ?thesis
      using 3 safe_revision_append [OF assms(2) commit_suffix_safe(1)] assms(3)
      by (simp add: starts_dash_append)
  qed
qed

lemma normalize_head_safe:
  assumes "normalize_head_value fl ac rc v = Inr h" and "set fl \<subseteq> set safe_git_options"
  shows "safe_git_word (fst h)"
  using assms commit_bound_safe
  by (auto simp: normalize_head_value_def safe_git_word_def rbind_eq_Inr split: if_splits)

lemma flags_and_pathspec_safe:
  assumes "flags_and_pathspec os w values fl = Inr out" and "set fl \<subseteq> set safe_git_options"
  shows "\<exists>head rest. out = head @ rest \<and> safe_git_tail os w head rest"
proof -
  obtain flags paths where sp: "split_pathspec values = (flags, paths)" by (cases "split_pathspec values")
  have f: "\<forall>f\<in>set flags. safe_git_word f"
    using assms sp by (auto simp: flags_and_pathspec_def list_ex_iff safe_git_word_def split: if_splits)
  show ?thesis
  proof (cases "paths = []")
    case True
    then have "out = flags @ []" using assms(1) sp by (auto simp: flags_and_pathspec_def split: if_splits)
    then show ?thesis using f unfolding safe_git_tail_def by blast
  next
    case False
    then obtain ps where ps: "normalize_read_paths os w False paths = Inr ps"
      and out: "out = flags @ ''--'' # ps"
      using assms(1) sp by (auto simp: flags_and_pathspec_def rbind_eq_Inr split: if_splits)
    then show ?thesis using f normalize_read_paths_Inr [OF ps] unfolding safe_git_tail_def by blast
  qed
qed

lemma head_revision_safe: "safe_revision ''HEAD''" "\<not> starts_with ''-'' ''HEAD''"
  by code_simp+

lemma git_revisions_safe:
  assumes "git_revisions_flags_paths os w values fl ac fo rc dflt = Inr out"
    and "set fl \<subseteq> set safe_git_options" and "dflt = None \<or> dflt = Some ''HEAD''"
  shows "\<exists>head rest. out = head @ rest \<and> safe_git_tail os w head rest
    \<and> (snd (split_pathspec values) = [] \<longrightarrow> rest = [])"
proof -
  obtain hd0 paths where sp: "split_pathspec values = (hd0, paths)" by (cases "split_pathspec values")
  obtain hs where hs: "rmap (normalize_head_value fl ac rc) hd0 = Inr hs"
    using assms(1) sp by (auto simp: git_revisions_flags_paths_def rbind_eq_Inr)
  have "list_all2 (\<lambda>x y. safe_git_word (fst y)) hd0 hs"
    using rmap_Inr [OF hs] by (rule list_all2_mono) (rule normalize_head_safe [OF _ assms(2)])
  then have w: "\<forall>h\<in>set (List.map fst hs). safe_git_word h"
    by (auto simp: list_all2_conv_all_nth in_set_conv_nth) (metis fst_conv)
  obtain nh where nh: "(if rc \<and> \<not> list_ex snd hs
             then (case dflt of
                     None \<Rightarrow> Inr (List.map fst hs)
                   | Some d \<Rightarrow> rbind (commit_bound_revision d) (\<lambda>r. Inr (List.map fst hs @ [r])))
             else Inr (List.map fst hs)) = Inr nh"
    and rest: "(if paths \<noteq> [] then rbind (normalize_read_paths os w fo paths)
             (\<lambda>ps. Inr (nh @ [''--''] @ ps)) else Inr nh) = Inr out"
    using assms(1) sp hs by (auto simp: git_revisions_flags_paths_def rbind_eq_Inr)
  have nhw: "\<forall>h\<in>set nh. safe_git_word h"
  proof (cases "nh = List.map fst hs")
    case True
    then show ?thesis using w by simp
  next
    case False
    then obtain r where r: "commit_bound_revision ''HEAD'' = Inr r" "nh = List.map fst hs @ [r]"
      using nh assms(3) by (auto simp: rbind_eq_Inr split: if_splits)
    have "safe_git_word r"
      using commit_bound_safe [OF r(1) head_revision_safe] by (simp add: safe_git_word_def)
    then show ?thesis using w r(2) by auto
  qed
  show ?thesis
  proof (cases "paths = []")
    case True
    then have "out = nh @ []" using rest by simp
    then show ?thesis using nhw unfolding safe_git_tail_def by blast
  next
    case False
    then obtain ps where ps: "normalize_read_paths os w fo paths = Inr ps" and out: "out = nh @ ''--'' # ps"
      using rest by (auto simp: rbind_eq_Inr)
    then show ?thesis using nhw normalize_read_paths_Inr [OF ps] False sp unfolding safe_git_tail_def by auto
  qed
qed

lemma force_structural_split:
  assumes "safe_git_tail os w head rest"
  shows "\<exists>head' rest'. force_structural_commit_output (head @ rest) = head' @ rest'
    \<and> safe_git_tail os w head' rest' \<and> (rest = [] \<longrightarrow> rest' = [])
    \<and> head' = List.filter (\<lambda>v. v \<notin> set freeform_pretty_flags) head @ [structural_format]"
proof -
  let ?ok = "\<lambda>v. v \<notin> set freeform_pretty_flags"
  let ?h = "List.filter ?ok head"
  have h: "\<forall>x\<in>set (?h @ [structural_format]). safe_git_word x"
    using assms subset_options(7) by (auto simp: safe_git_tail_def safe_git_word_def)
  have nd: "''--'' \<notin> set ?h" using assms head_no_dashes by (auto simp: safe_git_tail_def)
  have ok: "?ok ''--''" by code_simp
  show ?thesis
  proof (cases "rest = []")
    case True
    then have "force_structural_commit_output (head @ rest) = (?h @ [structural_format]) @ []"
      using nd by (simp add: force_structural_commit_output_def Let_def split_at_None [THEN iffD2])
    then show ?thesis using h unfolding safe_git_tail_def by blast
  next
    case False
    then obtain ps where r: "rest = ''--'' # ps" "\<forall>p\<in>set ps. readable_path os w p"
      using assms by (auto simp: safe_git_tail_def)
    have "List.filter ?ok (head @ rest) = ?h @ ''--'' # List.filter ?ok ps" using r(1) ok by simp
    then have "force_structural_commit_output (head @ rest)
        = (?h @ [structural_format]) @ ''--'' # List.filter ?ok ps"
      using nd by (simp add: force_structural_commit_output_def Let_def split_at_append)
    moreover have "\<forall>p\<in>set (List.filter ?ok ps). readable_path os w p" using r(2) by simp
    ultimately show ?thesis using h False unfolding safe_git_tail_def by blast
  qed
qed

lemma safe_git_tail_Cons:
  "h \<in> set safe_git_options \<Longrightarrow> safe_git_tail os w head rest \<Longrightarrow> safe_git_tail os w (h # head) rest"
  by (auto simp: safe_git_tail_def safe_git_word_def)

lemma safe_git_tail_external:
  "safe_git_tail os w head rest \<Longrightarrow> safe_git_tail os w (no_external @ head) rest"
  using subset_options(6) by (auto simp: safe_git_tail_def safe_git_word_def)

lemma any_in_head:
  assumes "safe_git_tail os w head rest" and "set flags \<subseteq> set safe_git_options"
  shows "any_in flags (head @ rest) = any_in flags head"
proof -
  have p: "p \<notin> set flags" if "readable_path os w p" for p
    using that path_str_separator options_no_backslash assms(2) unfolding readable_path_def by blast
  have "''--'' \<notin> set flags"
    using assms(2) dashes_unsafe unfolding safe_git_word_def by blast
  then show ?thesis using assms(1) p by (auto simp: any_in_def safe_git_tail_def list_ex_iff)
qed

lemma metadata_options:
  "set diff_metadata \<subseteq> set safe_git_options" "set show_metadata \<subseteq> set safe_git_options"
proof -
  have "list_all (\<lambda>f. f \<in> set safe_git_options) (diff_metadata @ show_metadata)" by code_simp
  then show "set diff_metadata \<subseteq> set safe_git_options" "set show_metadata \<subseteq> set safe_git_options"
    by (auto simp: list_all_iff)
qed

lemma git_diff_safe:
  assumes "git_diff_args os w tail = Inr out"
  shows "\<exists>head rest. out = head @ rest \<and> safe_git_tail os w head rest \<and> any_in diff_metadata head"
proof -
  obtain n where n: "git_revisions_flags_paths os w tail diff_flags False False True None = Inr n"
    and out: "out = no_external @ (if any_in diff_metadata n then n else ''--stat'' # n)"
    using assms by (auto simp: git_diff_args_def rbind_eq_Inr split: if_splits)
  obtain head rest where nr: "n = head @ rest" and s: "safe_git_tail os w head rest"
    using git_revisions_safe [OF n subset_options(3)] by blast
  show ?thesis
  proof (cases "any_in diff_metadata n")
    case True
    then have "any_in diff_metadata (no_external @ head)"
      using any_in_head [OF s metadata_options(1)] nr by (simp add: any_in_def)
    moreover have "out = (no_external @ head) @ rest" using True out nr by simp
    ultimately show ?thesis using safe_git_tail_external [OF s] by blast
  next
    case False
    have "any_in diff_metadata (no_external @ ''--stat'' # head)"
      by (simp add: any_in_def diff_metadata_def)
    moreover have "out = (no_external @ ''--stat'' # head) @ rest" using False out nr by simp
    ultimately show ?thesis
      using safe_git_tail_external [OF safe_git_tail_Cons [OF subset_options(8) s]] by blast
  qed
qed

definition structural_head :: "string list \<Rightarrow> bool" where
  "structural_head head \<longleftrightarrow> structural_format \<in> set head \<and> \<not> any_in freeform_pretty_flags head"

lemma structural_headI:
  "structural_head (no_external @ List.filter (\<lambda>v. v \<notin> set freeform_pretty_flags) h @ [structural_format])"
proof -
  have "\<not> any_in freeform_pretty_flags (no_external @ [structural_format])" by code_simp
  then show ?thesis by (auto simp: structural_head_def any_in_def list_ex_iff)
qed

lemma git_log_safe:
  assumes "git_log_args os w tail = Inr out"
  shows "\<exists>head rest. out = head @ rest \<and> safe_git_tail os w head rest \<and> structural_head head"
proof -
  obtain n where n: "git_revisions_flags_paths os w tail log_flags True False False None = Inr n"
    and out: "out = no_external @ force_structural_commit_output n"
    using assms by (auto simp: git_log_args_def rbind_eq_Inr)
  obtain head rest where nr: "n = head @ rest" and s: "safe_git_tail os w head rest"
    using git_revisions_safe [OF n subset_options(4)] by blast
  obtain head' rest' where f: "force_structural_commit_output n = head' @ rest'"
    "safe_git_tail os w head' rest'"
    "head' = List.filter (\<lambda>v. v \<notin> set freeform_pretty_flags) head @ [structural_format]"
    using force_structural_split [OF s] nr by blast
  have "out = (no_external @ head') @ rest'" using out f(1) by simp
  then show ?thesis using safe_git_tail_external [OF f(2)] structural_headI [of head] f(3) by blast
qed

lemma git_show_safe:
  assumes "git_show_args os w tail = Inr out"
  shows "\<exists>head rest. out = head @ rest \<and> safe_git_tail os w head rest \<and> structural_head head
    \<and> (has_paths tail \<or> (rest = [] \<and> any_in show_metadata head))"
proof -
  obtain n where n: "git_revisions_flags_paths os w tail git_common_flags False False True (Some ''HEAD'') = Inr n"
    and out: "out = no_external @ force_structural_commit_output
       (if \<not> has_paths tail \<and> \<not> any_in show_metadata n then ''--no-patch'' # n else n)"
    using assms by (auto simp: git_show_args_def rbind_eq_Inr Let_def split: if_splits)
  obtain head0 rest where nr: "n = head0 @ rest" and s0: "safe_git_tail os w head0 rest"
    and e: "\<not> has_paths tail \<longrightarrow> rest = []"
    using git_revisions_safe [OF n subset_options(5)] unfolding has_paths_def by blast
  define head where "head = (if \<not> has_paths tail \<and> \<not> any_in show_metadata n then ''--no-patch'' # head0 else head0)"
  have s: "safe_git_tail os w head rest"
    using s0 safe_git_tail_Cons [OF subset_options(9)] by (simp add: head_def)
  have m: "has_paths tail \<or> any_in show_metadata head"
    using e nr by (auto simp: head_def any_in_def show_metadata_def)
  obtain head' rest' where f: "force_structural_commit_output (head @ rest) = head' @ rest'"
    "safe_git_tail os w head' rest'" "rest = [] \<longrightarrow> rest' = []"
    "head' = List.filter (\<lambda>v. v \<notin> set freeform_pretty_flags) head @ [structural_format]"
    using force_structural_split [OF s] by blast
  have "set show_metadata \<inter> set freeform_pretty_flags = {}"
    by (simp add: show_metadata_def freeform_pretty_flags_def)
  then have m': "has_paths tail \<or> any_in show_metadata head'"
    using m unfolding f(4) any_in_def list_ex_iff by auto
  have "(if \<not> has_paths tail \<and> \<not> any_in show_metadata n then ''--no-patch'' # n else n) = head @ rest"
    using nr unfolding head_def by (simp only: if_distrib append_Cons split: if_splits) blast
  then have "out = (no_external @ head') @ rest'" using out f(1) by simp
  moreover have "any_in show_metadata head' \<Longrightarrow> any_in show_metadata (no_external @ head')"
    by (simp add: any_in_def)
  moreover have "structural_head (no_external @ head')" using structural_headI [of head] f(4) by simp
  ultimately show ?thesis using safe_git_tail_external [OF f(2)] m' e f(3) by blast
qed

lemma rev_parse_safe:
  "tail \<in> set rev_parse_permitted \<Longrightarrow> safe_git_tail os w tail []"
proof -
  have "list_all (list_all safe_git_word) rev_parse_permitted" by code_simp
  then show "tail \<in> set rev_parse_permitted \<Longrightarrow> safe_git_tail os w tail []"
    by (auto simp: safe_git_tail_def list_all_iff)
qed

lemma normalize_git_Inr:
  assumes "normalize_git os w args = Inr out"
  shows "\<exists>head rest. out = git_prefix @ casefold os (hd args) # head @ rest
    \<and> casefold os (hd args) \<in> set git_subcommands \<and> safe_git_tail os w head rest
    \<and> (casefold os (hd args) = ''diff'' \<longrightarrow> any_in diff_metadata head)
    \<and> (casefold os (hd args) \<in> {''log'', ''show''} \<longrightarrow> structural_head head)
    \<and> (casefold os (hd args) = ''show'' \<longrightarrow> has_paths (tl args) \<or> any_in show_metadata head)"
proof -
  let ?s = "casefold os (hd args)" and ?t = "tl args"
  have sub: "?s \<in> set git_subcommands" using assms by (auto simp: normalize_git_def Let_def split: if_splits)
  then consider "?s = ''status''" | "?s = ''diff''" | "?s = ''log''" | "?s = ''show''"
    | "?s = ''rev-parse''" | "?s = ''ls-files''"
    by (auto simp: git_subcommands_def)
  then show ?thesis
  proof cases
    case 1
    then obtain n where n: "flags_and_pathspec os w ?t status_flags = Inr n" "out = git_prefix @ ?s # n"
      using assms sub by (auto simp: normalize_git_def Let_def rbind_eq_Inr)
    show ?thesis using flags_and_pathspec_safe [OF n(1) subset_options(1)] n(2) sub 1 by auto
  next
    case 2
    then obtain n where n: "git_diff_args os w ?t = Inr n" "out = git_prefix @ ?s # n"
      using assms sub by (auto simp: normalize_git_def Let_def rbind_eq_Inr)
    show ?thesis using git_diff_safe [OF n(1)] n(2) sub 2 by auto
  next
    case 3
    then obtain n where n: "git_log_args os w ?t = Inr n" "out = git_prefix @ ?s # n"
      using assms sub by (auto simp: normalize_git_def Let_def rbind_eq_Inr)
    show ?thesis using git_log_safe [OF n(1)] n(2) sub 3 by auto
  next
    case 4
    then obtain n where n: "git_show_args os w ?t = Inr n" "out = git_prefix @ ?s # n"
      using assms sub by (auto simp: normalize_git_def Let_def rbind_eq_Inr)
    show ?thesis using git_show_safe [OF n(1)] n(2) sub 4 by auto
  next
    case 5
    then have n: "?t \<in> set rev_parse_permitted" "out = git_prefix @ ?s # ?t"
      using assms sub by (auto simp: normalize_git_def Let_def rbind_eq_Inr split: if_splits)
    show ?thesis using rev_parse_safe [OF n(1), of os w] n(2) sub 5
      by (intro exI [of _ ?t] exI [of _ "[]"]) simp
  next
    case 6
    then obtain n where n: "flags_and_pathspec os w ?t ls_files_flags = Inr n" "out = git_prefix @ ?s # n"
      using assms sub by (auto simp: normalize_git_def Let_def rbind_eq_Inr)
    show ?thesis using flags_and_pathspec_safe [OF n(1) subset_options(2)] n(2) sub 6 by auto
  qed
qed

lemma normalize_safe_Inr:
  assumes "normalize_safe os w st helper program args cwd = Inr c"
  shows "(nc_program_key c = ''git'' \<and> git_enabled st \<and> os_exists os (ws_root w @ [''.git''])
      \<and> normalize_git os w args = Inr (nc_args c))
    \<or> (nc_program_key c = ''adb'' \<and> adb_enabled st \<and> normalize_adb os st args = Inr (nc_args c))"
proof -
  have ne: "args \<noteq> []" using assms by (auto simp: normalize_safe_def)
  obtain cwd_path where pre: "reject_nul (program # args) = Inr ()" "check_argument_limits st args = Inr ()"
      "resolve_directory os w cwd ReadAccess = Inr cwd_path"
    using assms ne by (auto simp: normalize_safe_def rbind_eq_Inr)
  consider "program_key os program = ''git''" | "program_key os program = ''adb''"
    using assms ne pre by (auto simp: normalize_safe_def Let_def split: if_splits)
  then show ?thesis
    using assms ne pre
    by cases (auto simp: normalize_safe_def Let_def require_enabled_def rbind_eq_Inr command_result_def
        split: if_splits)
qed

text \<open>
  C23. What automatic Git may run: an admitted Git command is the fixed prefix that disables
  helpers and hooks, one of six subcommands, options of the allowlist, bounded counts and
  revisions that are no options, then optionally \<open>--\<close> and paths that passed the read policy of the
  workspace. A diff always carries a metadata option, and log and show always carry the structural
  format and no free-form one.
\<close>

theorem automatic_git_argv_safe:
  assumes "normalize_safe os w st helper program args cwd = Inr c" and "nc_program_key c = ''git''"
  shows "\<exists>sub head rest. nc_args c = git_prefix @ sub # head @ rest \<and> sub \<in> set git_subcommands
    \<and> safe_git_tail os w head rest \<and> (sub = ''diff'' \<longrightarrow> any_in diff_metadata head)
    \<and> (sub \<in> {''log'', ''show''} \<longrightarrow> structural_head head)
    \<and> (sub = ''show'' \<longrightarrow> has_paths (tl args) \<or> any_in show_metadata head)"
proof -
  have "normalize_git os w args = Inr (nc_args c)" using normalize_safe_Inr [OF assms(1)] assms(2) by auto
  then show ?thesis using normalize_git_Inr by blast
qed

definition demo_git_tree :: "(path \<times> bytes option) list" where
  "demo_git_tree = ([''C:'', ''ws'', ''--stat''], Some [120]) # demo_tree"

definition demo_commands :: command_settings where
  "demo_commands =
     \<lparr>git_enabled = True, adb_enabled = True, flutter_enabled = True, dart_enabled = True,
      powershell_enabled = True, max_command_arguments = 16, max_command_argument_characters = 100,
      adb_allowed_serials = [''emulator-5554''], adb_emulator_only = True\<rparr>"

definition demo_helper :: "string \<Rightarrow> string res" where
  "demo_helper key = Inr key"

lemma automatic_git_argv_safe_witness:
  "\<exists>c sub head rest. normalize_safe (listed_os demo_git_tree) demo_workspace demo_commands demo_helper
        ''Git.EXE'' [''diff'', ''HEAD..main'', ''--'', ''src/a.txt'', ''--stat''] ''.'' = Inr c
     \<and> nc_args c = git_prefix @ sub # head @ rest \<and> sub \<in> set git_subcommands
     \<and> safe_git_tail (listed_os demo_git_tree) demo_workspace head rest"
proof -
  let ?r = "normalize_safe (listed_os demo_git_tree) demo_workspace demo_commands demo_helper
        ''Git.EXE'' [''diff'', ''HEAD..main'', ''--'', ''src/a.txt'', ''--stat''] ''.''"
  have h: "(case ?r of Inr c \<Rightarrow> nc_program_key c = ''git'' | Inl _ \<Rightarrow> False)" by code_simp
  then obtain c where c: "?r = Inr c" by (cases ?r) auto
  then have k: "nc_program_key c = ''git''" using h by simp
  show ?thesis using automatic_git_argv_safe [OF c k] c by blast
qed

text \<open>
  The metadata requirement of show can be met by a file name: when the workspace has a file
  called \<open>--stat\<close>, \<open>git show -- --stat src/a.txt\<close> passes the check for a metadata-only mode, because the
  check looks at the arguments after \<open>--\<close> too, and the admitted command names the two paths after
  \<open>--\<close> and has no metadata option before it, so Git prints a patch.
\<close>

theorem show_pathspec_escapes_metadata:
  "normalize_git (listed_os demo_git_tree) demo_workspace [''show'', ''--'', ''--stat'', ''src/a.txt'']
     = Inr (git_prefix @ [''show'', ''--no-ext-diff'', ''--no-textconv'', ''HEAD^{commit}'', structural_format,
              ''--'', path_str [''C:'', ''ws'', ''--stat''], path_str [''C:'', ''ws'', ''src'', ''a.txt'']])
   \<and> \<not> any_in show_metadata [''--no-ext-diff'', ''--no-textconv'', ''HEAD^{commit}'', structural_format]"
  by code_simp

section \<open>What an admitted ADB command can do\<close>

text \<open>
  Deny by default: a command is admitted automatically only as Git, or as ADB aimed at an
  allowlisted serial with an operation of the fixed read-only grammar, only when that program is
  enabled, and every admitted command is classified as a read (never as a workspace write).
\<close>

theorem automatic_commands_denied_by_default:
  assumes "normalize_safe os w st helper program args cwd = Inr c"
  shows "(git_enabled st \<and> nc_program_key c = ''git'' \<and> classify_safe_execution c = Inr ReadOnly)
    \<or> (adb_enabled st \<and> nc_program_key c = ''adb'' \<and> classify_safe_execution c = Inr AdbRead
       \<and> (\<exists>serial ope. nc_args c = ''-s'' # serial # ope \<and> serial \<in> set (adb_allowed_serials st)
            \<and> adb_operation_allowed ope
            \<and> (\<not> adb_emulator_only st \<or> starts_with ''emulator-'' (casefold os serial))))"
  using normalize_safe_Inr [OF assms]
proof (elim disjE conjE)
  assume "nc_program_key c = ''git''" "git_enabled st"
  then show ?thesis by (simp add: classify_safe_execution_def)
next
  assume k: "nc_program_key c = ''adb''" "adb_enabled st" and n: "normalize_adb os st args = Inr (nc_args c)"
  obtain serial op1 ops where a: "args = ''-s'' # serial # op1 # ops"
      "validate_adb_serial os st serial = Inr ()" "adb_operation_allowed (op1 # ops)"
      "nc_args c = args"
    using n by (auto simp: normalize_adb_def rbind_eq_Inr split: if_splits list.splits)
  then show ?thesis using k
    by (auto simp: classify_safe_execution_def validate_adb_serial_def split: if_splits)
qed

lemma automatic_commands_denied_by_default_witness:
  "\<exists>c. normalize_safe (listed_os demo_git_tree) demo_workspace demo_commands demo_helper
        ''adb'' [''-s'', ''emulator-5554'', ''shell'', ''wm'', ''size''] ''.'' = Inr c
     \<and> classify_safe_execution c \<noteq> Inr WorkspaceWrite"
proof -
  let ?r = "normalize_safe (listed_os demo_git_tree) demo_workspace demo_commands demo_helper
        ''adb'' [''-s'', ''emulator-5554'', ''shell'', ''wm'', ''size''] ''.''"
  have h: "(case ?r of Inr c \<Rightarrow> True | Inl _ \<Rightarrow> False)" by code_simp
  then obtain c where c: "?r = Inr c" by (cases ?r) auto
  show ?thesis using automatic_commands_denied_by_default [OF c] c by auto
qed

section \<open>What the Git environment filter leaves\<close>

lemma pop_overrides_eq:
  "pop_overrides up ks env = List.filter (\<lambda>(k, _). \<not> (k \<in> set ks \<and> is_git_ambient_override up k)) env"
proof (induction ks arbitrary: env)
  case Nil
  then show ?case by simp
next
  case (Cons k ks)
  show ?case by (auto simp: Cons.IH intro!: filter_cong)
qed

text \<open>
  Both Git environment filters do the same: the copying one and the one that pops keys from
  the live environment leave exactly the variables, in their order, whose upper-case name neither
  is one of the listed overrides nor starts with \<open>GIT_CONFIG_\<close>.
\<close>

theorem git_environment_filters_agree:
  "strip_git_ambient_environment up env = sanitized_git_environment up env
   \<and> set (sanitized_git_environment up env)
       = {(k, v) \<in> set env. up k \<notin> set git_ambient_exact \<and> \<not> starts_with ''GIT_CONFIG_'' (up k)}"
proof -
  have "strip_git_ambient_environment up env = sanitized_git_environment up env"
    unfolding strip_git_ambient_environment_def pop_overrides_eq sanitized_git_environment_def
    by (rule filter_cong) (auto intro: rev_image_eqI)
  then show ?thesis by (auto simp: sanitized_git_environment_def is_git_ambient_override_def)
qed

section \<open>Risk facts\<close>

text \<open>The facts of \<open>risk.py\<close> that approval shows: what was detected, the level, rollback and scope.\<close>

datatype risk_value = RBool bool | RText string | RNone

datatype impact =
    WorkspaceSource | ExternalServiceOrDevice | SandboxedOnly | FixedSourceInput | StagedCopy

record risk_facts =
  rf_level :: string
  rf_detected :: "(string \<times> risk_value) list"
  rf_rollback :: string
  rf_impact :: impact

definition git_mutations :: "string list" where
  "git_mutations = [''commit'', ''push'', ''reset'', ''checkout'', ''merge'', ''rebase'']"

definition first_is :: "string list \<Rightarrow> string list \<Rightarrow> bool" where
  "first_is names args \<longleftrightarrow> args \<noteq> [] \<and> hd args \<in> set names"

definition risk_noted :: "risk_value \<Rightarrow> bool" where
  "risk_noted v \<longleftrightarrow> v \<noteq> RBool False \<and> v \<noteq> RNone \<and> v \<noteq> RText []"

definition command_risk_facts ::
  "os_env \<Rightarrow> normalized_command \<Rightarrow> bool \<Rightarrow> string \<Rightarrow> string \<Rightarrow> risk_facts" where
  "command_risk_facts os c workspace_write mode execution_tier =
     (let key = nc_program_key c;
          args = List.map (casefold os) (nc_args c);
          deletes = any_in [''rm'', ''remove'', ''clean'', ''delete'', ''reset'', ''checkout''] args;
          git_commit = (key = ''git'' \<and> first_is git_mutations args);
          git_push = (key = ''git'' \<and> first_is [''push''] args);
          adb_mutation = (key = ''adb'' \<and>
            any_in [''install'', ''uninstall'', ''push'', ''shell'', ''emu''] args);
          network = nc_network c;
          high = deletes \<or> git_push \<or> adb_mutation \<or> network \<or> workspace_write;
          detected =
            [(''workspace_write_requested'', RBool (workspace_write \<or> git_commit)),
             (''file_delete_command_detected'', RBool deletes),
             (''network_requested'', RBool network),
             (''git_operation'', if key = ''git'' \<and> first_is git_mutations args
                              then RText (hd args) else RNone),
             (''git_push_detected'', RBool git_push),
             (''adb_device_mutation_detected'', RBool adb_mutation),
             (''external_state_change_detected'', RBool (git_push \<or> network \<or> adb_mutation))];
          impact_default =
            (if execution_tier \<in> {''codex_sandbox'', ''approved_sandbox''} then SandboxedOnly
             else if mode \<in> {''source-workspace'', ''git-state-source-workspace''} then FixedSourceInput
             else StagedCopy)
      in \<lparr>rf_level = (if high then ''high''
                     else if mode = ''staged-cwd'' \<or> git_commit then ''medium'' else ''low''),
          rf_detected = List.filter (\<lambda>(_, v). risk_noted v) detected,
          rf_rollback = (if workspace_write then ''workspace files only''
                         else if git_commit \<or> network \<or> adb_mutation then ''not guaranteed''
                         else ''not applicable''),
          rf_impact = (if workspace_write then WorkspaceSource
                       else if git_push \<or> network \<or> adb_mutation then ExternalServiceOrDevice
                       else impact_default)\<rparr>)"

text \<open>
  The risk level is never understated: a command with any noted effect is at least medium, and
  one that writes the workspace, asks for the network, pushes, deletes or changes a device is high.
\<close>

theorem risk_level_covers_detected_effects:
  "rf_level (command_risk_facts os c ww mode tier) = ''high''
     \<or> (set (List.map fst (rf_detected (command_risk_facts os c ww mode tier)))
          \<subseteq> {''workspace_write_requested'', ''git_operation''}
        \<and> (rf_detected (command_risk_facts os c ww mode tier) = []
           \<or> rf_level (command_risk_facts os c ww mode tier) = ''medium''))"
  unfolding command_risk_facts_def Let_def by (auto simp: risk_noted_def first_is_def git_mutations_def)

end
