(* ===== verification/Base64.thy ===== *)
theory Base64
  imports Prelude
begin

text \<open>
  The one-shot artifact messages (\<open>artifact_fast_path.py\<close>): a small payload travels as one Base64
  text. The Base64 functions are those of Python's \<open>base64\<close> and \<open>binascii\<close> modules (decoding with
  \<open>validate=True\<close>); \<open>sha\<close> is \<open>sha256_bytes\<close>, from bytes to a lower-case hexadecimal digest.
\<close>

section \<open>Base64\<close>

definition b64_alphabet :: string where
  "b64_alphabet = ''ABCDEFGHIJKLMNOPQRSTUVWXYZabcdefghijklmnopqrstuvwxyz0123456789+/''"

definition b64_char :: "nat \<Rightarrow> char" where
  "b64_char n = b64_alphabet ! n"

definition b64_value :: "char \<Rightarrow> nat option" where
  "b64_value c = find_sub [c] b64_alphabet"

text \<open>\<open>base64.b64encode(payload).decode("ascii")\<close>.\<close>

fun b64encode :: "bytes \<Rightarrow> string" where
  "b64encode [] = []"
| "b64encode [a] = [b64_char (unat a div 4), b64_char (unat a mod 4 * 16), CHR ''='', CHR ''='']"
| "b64encode [a, b] =
     [b64_char (unat a div 4), b64_char (unat a mod 4 * 16 + unat b div 16),
      b64_char (unat b mod 16 * 4), CHR ''='']"
| "b64encode (a # b # c # r) =
     [b64_char (unat a div 4), b64_char (unat a mod 4 * 16 + unat b div 16),
      b64_char (unat b mod 16 * 4 + unat c div 64), b64_char (unat c mod 64)] @ b64encode r"

text \<open>
  The scanner of \<open>binascii.a2b_base64\<close> in strict mode: \<open>quad\<close> characters of the current group were
  read, \<open>left\<close> holds their bits that are not yet a byte, \<open>pads\<close> counts padding, and \<open>started\<close> says
  that padding was seen.
\<close>

fun a2b_base64 :: "nat \<Rightarrow> nat \<Rightarrow> nat \<Rightarrow> bool \<Rightarrow> string \<Rightarrow> bytes option" where
  "a2b_base64 quad left_bits pads started [] = (if quad = 0 then Some [] else None)"
| "a2b_base64 quad left_bits pads started (c # s) =
     (if c = CHR ''='' then
        if 2 \<le> quad \<and> 4 \<le> quad + Suc pads then (if s = [] then Some [] else None)
        else a2b_base64 quad left_bits (if 2 \<le> quad then Suc pads else pads) True s
      else case b64_value c of
        None \<Rightarrow> None
      | Some v \<Rightarrow>
          if started then None
          else if quad = 0 then a2b_base64 1 v 0 started s
          else if quad = 1 then
            map_option (\<lambda>r. word_of_nat (left_bits * 4 + v div 16) # r) (a2b_base64 2 (v mod 16) 0 started s)
          else if quad = 2 then
            map_option (\<lambda>r. word_of_nat (left_bits * 16 + v div 4) # r) (a2b_base64 3 (v mod 4) 0 started s)
          else
            map_option (\<lambda>r. word_of_nat (left_bits * 64 + v) # r) (a2b_base64 0 0 0 started s))"

text \<open>\<open>base64.b64decode(text, validate=True)\<close>; \<open>None\<close> for the exception.\<close>

definition b64decode :: "string \<Rightarrow> bytes option" where
  "b64decode s = (if starts_with ''='' s then None else a2b_base64 0 0 0 False s)"

section \<open>One-shot messages\<close>

record prepared_upload =
  pu_payload :: bytes
  pu_sha :: string
  pu_expected :: "string option"
  pu_encoded :: string

record one_shot =
  os_bytes :: int
  os_sha :: string
  os_base64 :: string

definition encoded_size :: "int \<Rightarrow> int" where
  "encoded_size n = (n + 2) div 3 * 4"

definition validate_limit :: "int \<Rightarrow> unit res" where
  "validate_limit v = (if v < 0 then Inl (ValueError ''limit must be a non-negative integer'') else Inr ())"

definition is_sha256 :: "string \<Rightarrow> bool" where
  "is_sha256 s \<longleftrightarrow>
     length s = 64 \<and> list_all (\<lambda>c. is_digit c \<or> char_between (CHR ''a'') (CHR ''f'') c) s"

definition validate_digest :: "string \<Rightarrow> string res" where
  "validate_digest s =
     (if is_sha256 s then Inr s else Inl (ValueError ''must be a lowercase SHA-256 digest''))"

definition check_encoded_limit :: "int \<Rightarrow> int \<Rightarrow> unit res" where
  "check_encoded_limit n max_chars =
     (if max_chars < n then Inl (TransferError ''TRANSFER_BASE64_LIMIT'') else Inr ())"

definition check_byte_limit :: "int \<Rightarrow> int \<Rightarrow> unit res" where
  "check_byte_limit count max_bytes =
     (if max_bytes < count then Inl (TransferError ''TRANSFER_TOTAL_SIZE_LIMIT'') else Inr ())"

definition check_one_shot_size :: "int \<Rightarrow> int \<Rightarrow> unit res" where
  "check_one_shot_size count max_bytes =
     rbind (validate_limit max_bytes) (\<lambda>_.
     if count < 0 then Inl (ValueError ''byte_count must be a non-negative integer'')
     else check_byte_limit count max_bytes)"

definition expected_digest :: "string option \<Rightarrow> string option res" where
  "expected_digest e =
     (case e of None \<Rightarrow> Inr None | Some d \<Rightarrow> rbind (validate_digest d) (\<lambda>x. Inr (Some x)))"

definition encode_one_shot_download ::
  "(bytes \<Rightarrow> string) \<Rightarrow> bytes \<Rightarrow> int \<Rightarrow> string option \<Rightarrow> int option \<Rightarrow> one_shot res" where
  "encode_one_shot_download sha payload max_bytes expected max_chars =
     rbind (validate_limit max_bytes) (\<lambda>_.
     let chars = (case max_chars of None \<Rightarrow> encoded_size max_bytes | Some n \<Rightarrow> n) in
     rbind (validate_limit chars) (\<lambda>_.
     rbind (check_one_shot_size (int (length payload)) max_bytes) (\<lambda>_.
     rbind (expected_digest expected) (\<lambda>e.
     if e \<noteq> None \<and> e \<noteq> Some (sha payload) then Inl (TransferError ''TRANSFER_SHA256_MISMATCH'')
     else
       let encoded = b64encode payload in
       rbind (check_encoded_limit (int (length encoded)) chars) (\<lambda>_.
         Inr \<lparr>os_bytes = int (length payload), os_sha = sha payload, os_base64 = encoded\<rparr>)))))"

definition decode_one_shot_upload ::
  "(bytes \<Rightarrow> string) \<Rightarrow> string \<Rightarrow> int \<Rightarrow> string \<Rightarrow> string option \<Rightarrow> int option \<Rightarrow> prepared_upload res" where
  "decode_one_shot_upload sha encoded max_bytes digest expected max_chars =
     rbind (validate_limit max_bytes) (\<lambda>_.
     let chars = (case max_chars of None \<Rightarrow> encoded_size max_bytes | Some n \<Rightarrow> n) in
     rbind (validate_limit chars) (\<lambda>_.
     rbind (validate_digest digest) (\<lambda>declared.
     rbind (expected_digest expected) (\<lambda>e.
     rbind (check_encoded_limit (int (length encoded)) chars) (\<lambda>_.
     if \<not> list_all (\<lambda>c. of_char c < (128 :: nat)) encoded then Inl (TransferError ''TRANSFER_BASE64_INVALID'')
     else case b64decode encoded of
       None \<Rightarrow> Inl (TransferError ''TRANSFER_BASE64_INVALID'')
     | Some payload \<Rightarrow>
         if b64encode payload \<noteq> encoded then Inl (TransferError ''TRANSFER_BASE64_NONCANONICAL'')
         else
           rbind (check_one_shot_size (int (length payload)) max_bytes) (\<lambda>_.
           if sha payload \<noteq> declared then Inl (TransferError ''TRANSFER_SHA256_MISMATCH'')
           else Inr \<lparr>pu_payload = payload, pu_sha = sha payload, pu_expected = e, pu_encoded = encoded\<rparr>))))))"

section \<open>The codec\<close>

lemma b64_value_char: "n < 64 \<Longrightarrow> b64_value (b64_char n) = Some n"
proof -
  have "list_all (\<lambda>n. b64_value (b64_char n) = Some n) [0..<64]" by code_simp
  then show "n < 64 \<Longrightarrow> b64_value (b64_char n) = Some n" by (simp add: list_all_iff)
qed

lemma b64_char_class: "n < 64 \<Longrightarrow> b64_char n \<noteq> CHR ''='' \<and> of_char (b64_char n) < (128 :: nat)"
proof -
  have "list_all (\<lambda>n. b64_char n \<noteq> CHR ''='' \<and> of_char (b64_char n) < (128 :: nat)) [0..<64]" by code_simp
  then show "n < 64 \<Longrightarrow> b64_char n \<noteq> CHR ''='' \<and> of_char (b64_char n) < (128 :: nat)"
    by (simp add: list_all_iff)
qed

lemma byte_bound [simp]: "unat (a :: 8 word) < 256"
  using unsigned_less [of a] by simp

lemma sextets:
  "unat (a :: 8 word) div 4 < 64" "unat a mod 4 * 16 < 64" "unat a mod 4 * 16 + unat (b :: 8 word) div 16 < 64"
  "unat b mod 16 * 4 < 64" "unat b mod 16 * 4 + unat (c :: 8 word) div 64 < 64" "unat c mod 64 < 64"
  using byte_bound [of a] byte_bound [of b] byte_bound [of c] by linarith+

lemma rejoined:
  "word_of_nat (unat a div 4 * 4 + unat a mod 4 * 16 div 16) = (a :: 8 word)"
  "word_of_nat (unat a div 4 * 4 + (unat a mod 4 * 16 + unat (b :: 8 word) div 16) div 16) = a"
  "word_of_nat ((unat a mod 4 * 16 + unat b div 16) mod 16 * 16 + unat b mod 16 * 4 div 4) = b"
  "word_of_nat ((unat a mod 4 * 16 + unat b div 16) mod 16 * 16 + (unat b mod 16 * 4 + unat (c :: 8 word) div 64) div 4) = b"
  "word_of_nat ((unat b mod 16 * 4 + unat c div 64) mod 4 * 64 + unat c mod 64) = c"
proof -
  have x: "x div 16 < 16 \<Longrightarrow> (y * 16 + x div 16) mod 16 = x div 16" for x y :: nat by simp
  have y: "x div 64 < 4 \<Longrightarrow> (y * 4 + x div 64) mod 4 = x div 64" for x y :: nat by simp
  have d: "unat b div 16 < 16" "unat c div 64 < 4" "unat b div 16 div 16 = 0" "unat c div 64 div 4 = 0"
    using byte_bound [of b] byte_bound [of c] by linarith+
  show "word_of_nat (unat a div 4 * 4 + unat a mod 4 * 16 div 16) = a" by simp
  show "word_of_nat (unat a div 4 * 4 + (unat a mod 4 * 16 + unat b div 16) div 16) = a"
    using d(1,3) by simp
  show "word_of_nat ((unat a mod 4 * 16 + unat b div 16) mod 16 * 16 + unat b mod 16 * 4 div 4) = b"
    using d(1) by simp
  show "word_of_nat ((unat a mod 4 * 16 + unat b div 16) mod 16 * 16 + (unat b mod 16 * 4 + unat c div 64) div 4) = b"
    using d by simp
  show "word_of_nat ((unat b mod 16 * 4 + unat c div 64) mod 4 * 64 + unat c mod 64) = c"
    using d(2) by simp
qed

lemma a2b_groups:
  "v1 < 64 \<Longrightarrow> v2 < 64 \<Longrightarrow> v3 < 64 \<Longrightarrow> v4 < 64 \<Longrightarrow>
     a2b_base64 0 0 0 False (b64_char v1 # b64_char v2 # b64_char v3 # b64_char v4 # s) =
       map_option (\<lambda>r. word_of_nat (v1 * 4 + v2 div 16) # word_of_nat (v2 mod 16 * 16 + v3 div 4)
                     # word_of_nat (v3 mod 4 * 64 + v4) # r) (a2b_base64 0 0 0 False s)"
  "v1 < 64 \<Longrightarrow> v2 < 64 \<Longrightarrow> v3 < 64 \<Longrightarrow>
     a2b_base64 0 0 0 False [b64_char v1, b64_char v2, b64_char v3, CHR ''=''] =
       Some [word_of_nat (v1 * 4 + v2 div 16), word_of_nat (v2 mod 16 * 16 + v3 div 4)]"
  "v1 < 64 \<Longrightarrow> v2 < 64 \<Longrightarrow>
     a2b_base64 0 0 0 False [b64_char v1, b64_char v2, CHR ''='', CHR ''=''] = Some [word_of_nat (v1 * 4 + v2 div 16)]"
  by (simp_all add: b64_char_class b64_value_char option.map_comp comp_def)

lemma a2b_encode: "a2b_base64 0 0 0 False (b64encode bs) = Some bs"
proof (induction bs rule: b64encode.induct)
  case (2 a)
  show ?case by (simp only: b64encode.simps a2b_groups(3) [OF sextets(1,2)] rejoined)
next
  case (3 a b)
  show ?case by (simp only: b64encode.simps a2b_groups(2) [OF sextets(1,3,4)] rejoined)
next
  case (4 a b c r)
  then show ?case
    by (simp only: b64encode.simps append.simps a2b_groups(1) [OF sextets(1,3,5,6)] rejoined option.map)
qed simp

lemma b64encode_head: "bs \<noteq> [] \<Longrightarrow> \<exists>n s. n < 64 \<and> b64encode bs = b64_char n # s"
  by (cases bs rule: b64encode.cases) (auto intro: sextets)

lemma b64decode_encode: "b64decode (b64encode bs) = Some bs"
proof (cases "bs = []")
  case False
  then show ?thesis
    using b64encode_head [OF False] b64_char_class a2b_encode [of bs] by (auto simp: b64decode_def starts_with_def)
qed (simp add: b64decode_def starts_with_def)

lemma b64encode_length: "int (length (b64encode bs)) = encoded_size (int (length bs))"
proof (induction bs rule: b64encode.induct)
  case (4 a b c r)
  have "(int (length r) + 5) div 3 = (int (length r) + 2) div 3 + 1" by presburger
  then show ?case using 4 by (simp add: encoded_size_def ac_simps)
qed (simp_all add: encoded_size_def)

lemma b64encode_ascii: "list_all (\<lambda>c. of_char c < (128 :: nat)) (b64encode bs)"
proof -
  have "of_char (CHR ''='') < (128 :: nat)" by code_simp
  then show ?thesis
    by (induction bs rule: b64encode.induct) (simp_all add: b64_char_class sextets)
qed

lemma encoded_size_mono: "m \<le> n \<Longrightarrow> encoded_size m \<le> encoded_size n"
  by (simp add: encoded_size_def zdiv_mono1)

lemma expected_digest_Inr: "expected_digest e = Inr x \<longleftrightarrow> x = e \<and> (\<forall>d. e = Some d \<longrightarrow> is_sha256 d)"
  by (auto simp: expected_digest_def validate_digest_def split: option.splits)

lemma check_one_shot_size_Inr:
  "check_one_shot_size n m = Inr u \<longleftrightarrow> 0 \<le> n \<and> n \<le> m"
  by (auto simp: check_one_shot_size_def validate_limit_def check_byte_limit_def)

text \<open>
  One text for one payload: with the default limits an upload is accepted exactly when the text is
  the canonical Base64 of a payload within the byte limit whose digest is the declared one, and it is
  that payload which is handed on; no other spelling of it gets through. In particular what a one-shot
  download sends can be uploaded again byte for byte.
\<close>

theorem one_shot_upload_exact:
  assumes "is_sha256 digest" "\<And>d. expected = Some d \<Longrightarrow> is_sha256 d" "0 \<le> max_bytes"
  shows "(decode_one_shot_upload sha encoded max_bytes digest expected None = Inr p \<longleftrightarrow>
      encoded = b64encode (pu_payload p) \<and> int (length (pu_payload p)) \<le> max_bytes
      \<and> sha (pu_payload p) = digest \<and> pu_sha p = digest \<and> pu_expected p = expected \<and> pu_encoded p = encoded)
    \<and> (encode_one_shot_download sha payload max_bytes None None = Inr message \<longleftrightarrow>
      int (length payload) \<le> max_bytes
      \<and> message = \<lparr>os_bytes = int (length payload), os_sha = sha payload, os_base64 = b64encode payload\<rparr>)"
proof -
  have lim: "validate_limit max_bytes = Inr ()" "validate_limit (encoded_size max_bytes) = Inr ()"
    using assms(3) by (auto simp: validate_limit_def encoded_size_def)
  have dig: "validate_digest digest = Inr digest" "expected_digest expected = Inr expected"
    using assms(1,2) by (auto simp: validate_digest_def expected_digest_Inr)
  have fits: "int (length (b64encode d)) \<le> encoded_size max_bytes" if "int (length d) \<le> max_bytes" for d
    using encoded_size_mono [OF that] by (simp add: b64encode_length)
  have "decode_one_shot_upload sha encoded max_bytes digest expected None = Inr p \<longleftrightarrow>
      encoded = b64encode (pu_payload p) \<and> int (length (pu_payload p)) \<le> max_bytes
      \<and> sha (pu_payload p) = digest \<and> pu_sha p = digest \<and> pu_expected p = expected \<and> pu_encoded p = encoded"
    (is "?l \<longleftrightarrow> ?r")
  proof
    assume ?l
    then show ?r
      using lim dig
      by (auto simp: decode_one_shot_upload_def rbind_eq_Inr check_one_shot_size_Inr check_encoded_limit_def
          split: if_splits option.splits)
  next
    assume r: ?r
    then have "check_one_shot_size (int (length (pu_payload p))) max_bytes = Inr ()"
      by (simp add: check_one_shot_size_Inr)
    moreover have "check_encoded_limit (int (length encoded)) (encoded_size max_bytes) = Inr ()"
      using fits [of "pu_payload p"] r by (auto simp: check_encoded_limit_def)
    ultimately show ?l using r lim dig
      by (cases p) (auto simp: decode_one_shot_upload_def b64decode_encode b64encode_ascii)
  qed
  moreover have "encode_one_shot_download sha payload max_bytes None None = Inr message \<longleftrightarrow>
      int (length payload) \<le> max_bytes
      \<and> message = \<lparr>os_bytes = int (length payload), os_sha = sha payload, os_base64 = b64encode payload\<rparr>"
    using lim fits [of payload]
    by (auto simp: encode_one_shot_download_def rbind_eq_Inr check_one_shot_size_Inr check_encoded_limit_def
        expected_digest_Inr)
  ultimately show ?thesis by blast
qed

definition demo_digest :: "bytes \<Rightarrow> string" where
  "demo_digest b = replicate 64 (if b = [77] then CHR ''a'' else CHR ''b'')"

lemma one_shot_upload_exact_witness:
  "decode_one_shot_upload demo_digest ''TQ=='' 4 (demo_digest [77]) None None
     = Inr \<lparr>pu_payload = [77], pu_sha = demo_digest [77], pu_expected = None, pu_encoded = ''TQ==''\<rparr>
   \<and> (\<forall>p. decode_one_shot_upload demo_digest ''TR=='' 4 (demo_digest [77]) None None \<noteq> Inr p)"
proof -
  have d: "is_sha256 (demo_digest [77])" by code_simp
  have e: "b64encode [77] = ''TQ==''" "b64decode ''TR=='' = Some [77]" by code_simp+
  have n: "''TR=='' \<noteq> b64encode x" for x
  proof
    assume "''TR=='' = b64encode x"
    then have "x = [77]" "''TR=='' = b64encode x" using b64decode_encode [of x] e(2) by simp_all
    then show False using e(1) by simp
  qed
  show ?thesis
    using one_shot_upload_exact [OF d, of None 4 demo_digest "''TQ==''"]
      one_shot_upload_exact [OF d, of None 4 demo_digest "''TR==''"] e(1) n by simp
qed

end
