(* ===== verification/Receipts.thy ===== *)
theory Receipts
  imports Prelude
begin

text \<open>
  The durable upload receipts (\<open>transfer_receipts.py\<close>): fixed-size records in one index file, found
  by binary search in the confirmed prefix and appended behind it, so that a chunk can be retried
  after a crash; and the read-only view of a transfer's state (\<open>transfer_activity.py\<close>).
  \<open>sha\<close> is SHA-256 as a function from bytes to the raw digest.
\<close>

section \<open>Records\<close>

definition receipt_bytes :: nat where
  "receipt_bytes = 48"

definition max_uint64 :: int where
  "max_uint64 = 2 ^ 64 - 1"

definition max_file_offset :: int where
  "max_file_offset = 2 ^ 63 - 1"

text \<open>\<open>struct.Struct("<Q")\<close>: eight bytes, the least significant first.\<close>

fun le_bytes :: "nat \<Rightarrow> int \<Rightarrow> bytes" where
  "le_bytes 0 n = []"
| "le_bytes (Suc k) n = word_of_int (n mod 256) # le_bytes k (n div 256)"

fun le_value :: "bytes \<Rightarrow> int" where
  "le_value [] = 0"
| "le_value (b # bs) = uint b + 256 * le_value bs"

text \<open>\<open>32s\<close>: the bytes, cut or padded with NUL to the width.\<close>

definition fixed_bytes :: "nat \<Rightarrow> bytes \<Rightarrow> bytes" where
  "fixed_bytes k b = take k b @ replicate (k - length b) 0"

definition pack_record :: "int \<times> int \<times> bytes \<Rightarrow> bytes" where
  "pack_record r = (case r of (offset, len, digest) \<Rightarrow>
     le_bytes 8 offset @ le_bytes 8 len @ fixed_bytes 32 digest)"

definition unpack_record :: "bytes \<Rightarrow> int \<times> int \<times> bytes" where
  "unpack_record raw =
     (le_value (take 8 raw), le_value (take 8 (drop 8 raw)), take 32 (drop 16 raw))"

section \<open>The index file\<close>

record node_info =
  ni_unsafe :: bool     \<comment> \<open>a symbolic link or another reparse point\<close>
  ni_dir :: bool
  ni_regular :: bool
  ni_links :: int

datatype node = NodeMissing | NodeUnavailable | Node node_info

record receipt_dir =
  rd_root :: node
  rd_index :: node
  rd_data :: bytes

definition validate_count :: "int \<Rightarrow> int res" where
  "validate_count count =
     (if count < 0 then Inl (ValueError ''receipt count must be a non-negative integer'')
      else if max_file_offset < count * int receipt_bytes
      then Inl (ValueError ''receipt count is outside the supported file range'')
      else Inr (count * int receipt_bytes))"

definition validate_offset :: "int \<Rightarrow> unit res" where
  "validate_offset offset =
     (if offset < 0 \<or> max_uint64 < offset
      then Inl (ValueError ''receipt offset must be a non-negative 64-bit integer'') else Inr ())"

definition validate_root :: "receipt_dir \<Rightarrow> unit res" where
  "validate_root d =
     (case rd_root d of
        NodeMissing \<Rightarrow> Inl (ValueError ''receipt root is missing'')
      | NodeUnavailable \<Rightarrow> Inl (ValueError ''receipt root is unavailable'')
      | Node i \<Rightarrow>
          if ni_unsafe i then Inl (ValueError ''receipt root has an unsafe identity'')
          else if \<not> ni_dir i then Inl (ValueError ''receipt root is not a directory'')
          else Inr ())"

definition validate_index_node :: "receipt_dir \<Rightarrow> unit res" where
  "validate_index_node d =
     (case rd_index d of
        NodeMissing \<Rightarrow> Inl (ValueError ''receipt index is missing'')
      | NodeUnavailable \<Rightarrow> Inl (ValueError ''receipt index is unavailable'')
      | Node i \<Rightarrow>
          if ni_unsafe i then Inl (ValueError ''receipt index has an unsafe identity'')
          else if \<not> ni_regular i then Inl (ValueError ''receipt index is not a regular file'')
          else if ni_links i \<noteq> 1 then Inl (ValueError ''receipt index has an unsafe identity'')
          else Inr ())"

definition validate_capacity :: "int \<Rightarrow> int option \<Rightarrow> bool \<Rightarrow> int option res" where
  "validate_capacity count max_records for_append =
     (case max_records of
        None \<Rightarrow> Inr None
      | Some m \<Rightarrow>
          rbind (validate_count m) (\<lambda>capacity.
          if m < count
          then Inl (ValueError ''max_records must be greater than or equal to receipt count'')
          else if for_append \<and> m \<le> count
          then Inl (ValueError ''max_records must reserve one additional receipt'')
          else Inr (Some capacity)))"

text \<open>The position behind the confirmed prefix.\<close>

definition validated_index :: "receipt_dir \<Rightarrow> int \<Rightarrow> int option \<Rightarrow> bool \<Rightarrow> int res" where
  "validated_index d count max_records for_append =
     rbind (validate_count count) (\<lambda>required.
     rbind (validate_capacity count max_records for_append) (\<lambda>capacity.
     rbind (validate_root d) (\<lambda>_.
     rbind (validate_index_node d) (\<lambda>_.
     let actual = int (length (rd_data d)) in
     if actual < required then Inl (ValueError ''receipt index is truncated'')
     else case capacity of
       None \<Rightarrow>
         if int receipt_bytes < actual - required
         then Inl (ValueError ''receipt index has an invalid size'') else Inr required
     | Some cap \<Rightarrow>
         if actual mod int receipt_bytes \<noteq> 0
         then Inl (ValueError ''receipt index has an invalid size'')
         else if cap < actual then Inl (ValueError ''receipt index exceeds reserved capacity'')
         else if for_append \<and> actual < required + int receipt_bytes
         then Inl (ValueError ''receipt index has insufficient reserved capacity'')
         else Inr required))))"

definition read_record :: "bytes \<Rightarrow> nat \<Rightarrow> (int \<times> int \<times> bytes) res" where
  "read_record data position =
     (let raw = take receipt_bytes (drop position data) in
      if length raw \<noteq> receipt_bytes then Inl (ValueError ''receipt index is truncated'')
      else case unpack_record raw of (offset, len, digest) \<Rightarrow>
        if len = 0 then Inl (ValueError ''receipt index contains an invalid record'')
        else Inr (offset, len, digest))"

text \<open>\<open>bytes.hex()\<close>.\<close>

definition hex_digit :: "nat \<Rightarrow> char" where
  "hex_digit n = ''0123456789abcdef'' ! n"

definition hex_string :: "bytes \<Rightarrow> string" where
  "hex_string bs = concat (List.map (\<lambda>b. [hex_digit (unat b div 16), hex_digit (unat b mod 16)]) bs)"

function search_receipt :: "bytes \<Rightarrow> int \<Rightarrow> nat \<Rightarrow> nat \<Rightarrow> (int \<times> string) option res" where
  "search_receipt data offset low high =
     (if low < high
      then
        let middle = (low + high) div 2 in
        rbind (read_record data (middle * receipt_bytes)) (\<lambda>(record_offset, len, digest).
          if record_offset = offset then Inr (Some (len, hex_string digest))
          else if record_offset < offset then search_receipt data offset (middle + 1) high
          else search_receipt data offset low middle)
      else Inr None)"
  by pat_completeness auto
termination
  by (relation "measure (\<lambda>(data, offset, low, high). high - low)") auto

declare search_receipt.simps [simp del]

definition find_receipt ::
  "receipt_dir \<Rightarrow> int \<Rightarrow> int \<Rightarrow> int option \<Rightarrow> (int \<times> string) option res" where
  "find_receipt d count offset max_records =
     rbind (validate_offset offset) (\<lambda>_.
     rbind (validated_index d count max_records False) (\<lambda>_.
     search_receipt (rd_data d) offset 0 (nat count)))"

text \<open>\<open>seek\<close> and \<open>write\<close> of bytes, then possibly \<open>truncate\<close>.\<close>

definition write_at :: "nat \<Rightarrow> bytes \<Rightarrow> bytes \<Rightarrow> bytes" where
  "write_at position new data =
     take position data @ new @ drop (position + length new) data"

text \<open>
  \<open>written\<close> is the number of bytes of the record that reach the file: all of them, or fewer when
  the write fails or the machine stops in the middle of it, which surfaces as an error.
\<close>

definition append_receipt ::
  "(bytes \<Rightarrow> bytes) \<Rightarrow> receipt_dir \<Rightarrow> int \<Rightarrow> int \<Rightarrow> bytes \<Rightarrow> int option \<Rightarrow> nat \<Rightarrow>
   receipt_dir \<times> unit res" where
  "append_receipt sha d count offset payload max_records written =
     (case validate_offset offset of
        Inl e \<Rightarrow> (d, Inl e)
      | Inr _ \<Rightarrow>
          if payload = [] then (d, Inl (ValueError ''receipt payload must be non-empty bytes''))
          else if max_uint64 < int (length payload)
          then (d, Inl (ValueError ''receipt payload is too large''))
          else case validated_index d count max_records True of
            Inl e \<Rightarrow> (d, Inl e)
          | Inr position \<Rightarrow>
              let record_data = pack_record (offset, int (length payload), sha payload);
                  stored = write_at (nat position) (take written record_data) (rd_data d) in
              if written < receipt_bytes
              then (d\<lparr>rd_data := stored\<rparr>, Inl (ValueError ''receipt index could not be written''))
              else (d\<lparr>rd_data := (if max_records = None
                                  then take (nat position + receipt_bytes) stored else stored)\<rparr>,
                    Inr ()))"

section \<open>Round trip of a record\<close>

lemma le_bytes_length [simp]: "length (le_bytes k n) = k"
  by (induction k arbitrary: n) auto

lemma le_value_bytes: "0 \<le> n \<Longrightarrow> n < 256 ^ k \<Longrightarrow> le_value (le_bytes k n) = n"
proof (induction k arbitrary: n)
  case 0
  then show ?case by simp
next
  case (Suc k)
  have "n div 256 < 256 ^ k" using Suc.prems by (simp add: div_less_iff_less_mult)
  then have "le_value (le_bytes k (n div 256)) = n div 256" using Suc by simp
  moreover have "uint (word_of_int (n mod 256) :: 8 word) = n mod 256"
    by (simp add: uint_word_of_int_eq take_bit_eq_mod)
  ultimately show ?case by simp
qed

lemma fixed_bytes_length [simp]: "length (fixed_bytes k b) = k"
  by (simp add: fixed_bytes_def)

lemma fixed_bytes_same: "length b = k \<Longrightarrow> fixed_bytes k b = b"
  by (simp add: fixed_bytes_def)

lemma pack_record_length [simp]: "length (pack_record r) = receipt_bytes"
  by (cases r) (simp add: pack_record_def receipt_bytes_def)

definition sound_record :: "int \<times> int \<times> bytes \<Rightarrow> bool" where
  "sound_record r \<longleftrightarrow> (case r of (offset, len, digest) \<Rightarrow>
     0 \<le> offset \<and> offset \<le> max_uint64 \<and> 0 < len \<and> len \<le> max_uint64 \<and> length digest = 32)"

lemma unpack_pack: "sound_record r \<Longrightarrow> unpack_record (pack_record r) = r"
  by (cases r) (auto simp: sound_record_def unpack_record_def pack_record_def fixed_bytes_same
      max_uint64_def intro!: le_value_bytes)

section \<open>The confirmed prefix\<close>

definition confirmed :: "bytes \<Rightarrow> (int \<times> int \<times> bytes) list \<Rightarrow> bool" where
  "confirmed data rs \<longleftrightarrow>
     (\<forall>r\<in>set rs. sound_record r)
     \<and> take (length rs * receipt_bytes) data = concat (List.map pack_record rs)
     \<and> length rs * receipt_bytes \<le> length data"

lemma concat_blocks:
  "(\<And>x. x \<in> set xs \<Longrightarrow> length x = k) \<Longrightarrow> i < length xs \<Longrightarrow> take k (drop (i * k) (concat xs)) = xs ! i"
proof (induction xs arbitrary: i)
  case Nil
  then show ?case by simp
next
  case (Cons x xs)
  then show ?case by (cases i) (auto simp: drop_append)
qed

lemma concat_blocks_length:
  "(\<And>x. x \<in> set xs \<Longrightarrow> length x = k) \<Longrightarrow> length (concat xs) = length xs * k"
  by (induction xs) auto

lemma confirmed_record:
  assumes "confirmed data rs" and "i < length rs"
  shows "read_record data (i * receipt_bytes) = Inr (rs ! i)"
proof -
  let ?k = receipt_bytes
  have "(i + 1) * ?k \<le> length rs * ?k" using assms(2) by (intro mult_right_mono) auto
  then have "i * ?k + ?k \<le> length rs * ?k" by simp
  then have "take ?k (drop (i * ?k) data) = take ?k (drop (i * ?k) (take (length rs * ?k) data))"
    by (simp add: drop_take min_absorb1)
  also have "\<dots> = pack_record (rs ! i)"
  proof -
    have "take ?k (drop (i * ?k) (concat (List.map pack_record rs))) = List.map pack_record rs ! i"
      by (rule concat_blocks) (use assms(2) in auto)
    then show ?thesis using assms by (simp add: confirmed_def)
  qed
  finally have raw: "take ?k (drop (i * ?k) data) = pack_record (rs ! i)" .
  have s: "sound_record (rs ! i)" using assms by (auto simp: confirmed_def)
  then show ?thesis using raw unpack_pack [OF s]
    by (cases "rs ! i") (auto simp: read_record_def sound_record_def)
qed

definition lookup :: "(int \<times> int \<times> bytes) list \<Rightarrow> int \<Rightarrow> (int \<times> string) option" where
  "lookup rs offset = map_of (List.map (\<lambda>(o', len, digest). (o', (len, hex_string digest))) rs) offset"

definition increasing :: "(int \<times> int \<times> bytes) list \<Rightarrow> bool" where
  "increasing rs \<longleftrightarrow> sorted_wrt (<) (List.map fst rs)"

lemma increasing_nth: "increasing rs \<Longrightarrow> i < j \<Longrightarrow> j < length rs \<Longrightarrow> fst (rs ! i) < fst (rs ! j)"
  by (auto simp: increasing_def sorted_wrt_iff_nth_less)

lemma lookup_nth:
  assumes "increasing rs" and "i < length rs"
  shows "lookup rs (fst (rs ! i)) = Some (fst (snd (rs ! i)), hex_string (snd (snd (rs ! i))))"
proof -
  have "distinct (List.map fst (List.map (\<lambda>(o', len, digest). (o', (len, hex_string digest))) rs))"
    using assms(1) by (simp add: increasing_def strict_sorted_iff comp_def case_prod_unfold)
  moreover have "(fst (rs ! i), (fst (snd (rs ! i)), hex_string (snd (snd (rs ! i)))))
      \<in> set (List.map (\<lambda>(o', len, digest). (o', (len, hex_string digest))) rs)"
    using nth_mem [OF assms(2)] by (simp add: case_prod_unfold image_iff) blast
  ultimately show ?thesis unfolding lookup_def by (rule map_of_is_SomeI)
qed

lemma lookup_none: "(\<And>i. i < length rs \<Longrightarrow> fst (rs ! i) \<noteq> offset) \<Longrightarrow> lookup rs offset = None"
  by (auto simp: lookup_def map_of_eq_None_iff in_set_conv_nth) (metis fst_conv)

lemma search_receipt_correct:
  assumes "confirmed data rs" and "increasing rs" and "high \<le> length rs"
    and "\<And>i. i < low \<Longrightarrow> i < length rs \<Longrightarrow> fst (rs ! i) < offset"
    and "\<And>i. high \<le> i \<Longrightarrow> i < length rs \<Longrightarrow> offset < fst (rs ! i)"
  shows "search_receipt data offset low high = Inr (lookup rs offset)"
  using assms
proof (induction "high - low" arbitrary: low high rule: less_induct)
  case less
  show ?case
  proof (cases "low < high")
    case False
    have "fst (rs ! i) \<noteq> offset" if "i < length rs" for i
      using less.prems(4,5) [of i] that False by (cases "i < low") auto
    then show ?thesis using False lookup_none by (subst search_receipt.simps) simp
  next
    case True
    let ?m = "(low + high) div 2"
    have m: "low \<le> ?m" "?m < high" "?m < length rs" using True less.prems(3) by auto
    obtain ro len dg where r: "rs ! ?m = (ro, len, dg)" by (cases "rs ! ?m")
    have rd: "read_record data (?m * receipt_bytes) = Inr (ro, len, dg)"
      using confirmed_record [OF less.prems(1) m(3)] r by simp
    consider "ro = offset" | "ro < offset" | "offset < ro" by linarith
    then show ?thesis
    proof cases
      case 1
      then show ?thesis using True rd lookup_nth [OF less.prems(2) m(3)] r
        by (subst search_receipt.simps) simp
    next
      case 2
      have "fst (rs ! i) < offset" if "i < ?m + 1" "i < length rs" for i
        using increasing_nth [OF less.prems(2), of i ?m] m(3) that 2 r
        by (cases "i = ?m") auto
      then have "search_receipt data offset (?m + 1) high = Inr (lookup rs offset)"
        using less.hyps [of high "?m + 1"] less.prems m by auto
      then show ?thesis using True rd 2 by (subst search_receipt.simps) simp
    next
      case 3
      have "offset < fst (rs ! i)" if "?m \<le> i" "i < length rs" for i
        using increasing_nth [OF less.prems(2), of ?m i] that 3 r by (cases "i = ?m") auto
      then have "search_receipt data offset low ?m = Inr (lookup rs offset)"
        using less.hyps [of ?m low] less.prems m by auto
      then show ?thesis using True rd 3 by (subst search_receipt.simps) simp
    qed
  qed
qed

section \<open>Appending\<close>

lemma write_at_length:
  "p \<le> length data \<Longrightarrow> length (write_at p new data) = max (length data) (p + length new)"
  by (simp add: write_at_def)

lemma write_at_prefix: "p \<le> length data \<Longrightarrow> take p (write_at p new data) = take p data"
  by (simp add: write_at_def)

lemma write_at_twice:
  assumes "p \<le> length data" and "length a \<le> length b"
  shows "write_at p b (write_at p a data) = write_at p b data"
proof -
  have "drop (p + length b) (write_at p a data) = drop (p + length b) data"
    using assms by (simp add: write_at_def drop_append ac_simps)
  then show ?thesis using assms(1) by (simp add: write_at_def)
qed

lemma validated_index_Inr:
  assumes "validated_index d count max_records for_append = Inr position"
  shows "position = count * int receipt_bytes \<and> 0 \<le> count \<and> position \<le> int (length (rd_data d))
    \<and> (max_records = None \<longrightarrow> int (length (rd_data d)) \<le> position + int receipt_bytes)
    \<and> (\<forall>m. max_records = Some m \<longrightarrow> for_append \<longrightarrow>
         count < m \<and> position + int receipt_bytes \<le> int (length (rd_data d)))"
  using assms by (cases max_records)
    (auto simp: validated_index_def validate_count_def validate_capacity_def rbind_eq_Inr Let_def
      split: if_splits)

text \<open>The check depends on the data only through its length, with one record of slack.\<close>

lemma validated_index_data:
  assumes "validated_index d count max_records for_append = Inr position"
    and "int (length data) = int (length (rd_data d))
      \<or> max_records = None \<and> position \<le> int (length data)
         \<and> int (length data) \<le> position + int receipt_bytes"
  shows "validated_index (d\<lparr>rd_data := data\<rparr>) count max_records for_append = Inr position"
  using assms by (cases max_records)
    (auto simp: validated_index_def validate_count_def validate_capacity_def validate_root_def
      validate_index_node_def rbind_eq_Inr Let_def split: if_splits)

lemma append_receipt_Inr:
  assumes "append_receipt sha d count offset payload max_records written = (d', Inr u)"
  obtains position where "validated_index d count max_records True = Inr position"
    "validate_offset offset = Inr ()" "payload \<noteq> []" "int (length payload) \<le> max_uint64"
    "receipt_bytes \<le> written"
    "d' = d\<lparr>rd_data := (let stored = write_at (nat position)
            (pack_record (offset, int (length payload), sha payload)) (rd_data d)
          in if max_records = None then take (nat position + receipt_bytes) stored else stored)\<rparr>"
proof -
  have o: "validate_offset offset = Inr ()" "payload \<noteq> []" "int (length payload) \<le> max_uint64"
    using assms by (auto simp: append_receipt_def Let_def split: sum.splits if_splits)
  obtain position where v: "validated_index d count max_records True = Inr position"
    using assms o by (cases "validated_index d count max_records True")
      (auto simp: append_receipt_def Let_def split: if_splits)
  then show ?thesis using that [OF v o] assms o
    by (auto simp: append_receipt_def Let_def split: if_splits)
qed

lemma append_confirmed:
  assumes c: "confirmed (rd_data d) rs"
    and a: "append_receipt sha d (int (length rs)) offset payload max_records written = (d', Inr u)"
    and sha: "length (sha payload) = 32"
  shows "confirmed (rd_data d') (rs @ [(offset, int (length payload), sha payload)])
    \<and> (max_records = None \<longrightarrow> length (rd_data d') = (length rs + 1) * receipt_bytes)
    \<and> (max_records \<noteq> None \<longrightarrow> length (rd_data d') = length (rd_data d))"
proof -
  obtain position where v: "validated_index d (int (length rs)) max_records True = Inr position"
    and o: "validate_offset offset = Inr ()" "payload \<noteq> []" "int (length payload) \<le> max_uint64"
    and d': "d' = d\<lparr>rd_data := (let stored = write_at (nat position)
            (pack_record (offset, int (length payload), sha payload)) (rd_data d)
          in if max_records = None then take (nat position + receipt_bytes) stored else stored)\<rparr>"
    using append_receipt_Inr [OF a] .
  let ?r = "(offset, int (length payload), sha payload)"
  let ?p = "length rs * receipt_bytes"
  note i = validated_index_Inr [OF v]
  have p: "nat position = ?p" "?p \<le> length (rd_data d)"
    using i c by (auto simp: confirmed_def nat_mult_distrib)
  let ?w = "write_at ?p (pack_record ?r) (rd_data d)"
  have len: "length ?w = max (length (rd_data d)) (?p + receipt_bytes)"
    using write_at_length [OF p(2)] by simp
  have pre: "take (?p + receipt_bytes) ?w = concat (List.map pack_record rs) @ pack_record ?r"
  proof -
    have "concat (List.map pack_record rs) = take ?p (rd_data d)" using c by (simp add: confirmed_def)
    then have "length (concat (List.map pack_record rs)) = ?p"
      and "take ?p (rd_data d) = concat (List.map pack_record rs)" using p(2) by simp_all
    then show ?thesis by (simp add: write_at_def)
  qed
  have s: "sound_record ?r"
    using o sha by (auto simp: sound_record_def validate_offset_def split: if_splits)
  have conf: "confirmed x (rs @ [?r])"
    if "take (?p + receipt_bytes) x = take (?p + receipt_bytes) ?w" "?p + receipt_bytes \<le> length x" for x
  proof -
    have "length (rs @ [?r]) * receipt_bytes = ?p + receipt_bytes" by simp
    then show ?thesis using c s that pre unfolding confirmed_def by (simp add: ac_simps)
  qed
  show ?thesis
  proof (cases max_records)
    case None
    then have dd: "rd_data d' = take (?p + receipt_bytes) ?w" using d' p(1) by (simp add: Let_def)
    then have l: "length (rd_data d') = ?p + receipt_bytes" using len by simp
    moreover have "confirmed (rd_data d') (rs @ [?r])" using dd l by (intro conf) simp_all
    ultimately show ?thesis using None by simp
  next
    case (Some m)
    then have dd: "rd_data d' = ?w" using d' p(1) by (simp add: Let_def)
    have "int (?p + receipt_bytes) \<le> int (length (rd_data d))"
      using i Some by auto
    then have x: "?p + receipt_bytes \<le> length (rd_data d)" by (simp only: of_nat_le_iff)
    then have l: "length (rd_data d') = length (rd_data d)" "?p + receipt_bytes \<le> length (rd_data d)"
      using len dd by simp_all
    moreover have "confirmed (rd_data d') (rs @ [?r])" using dd l by (intro conf) simp_all
    ultimately show ?thesis using Some by simp
  qed
qed

lemma validated_index_next:
  assumes "validated_index d (int n) max_records True = Inr position"
    and "rd_root d' = rd_root d" "rd_index d' = rd_index d"
    and "(int n + 1) * int receipt_bytes \<le> max_file_offset"
    and "max_records = None \<longrightarrow> length (rd_data d') = (n + 1) * receipt_bytes"
    and "max_records \<noteq> None \<longrightarrow> length (rd_data d') = length (rd_data d)"
  shows "\<exists>q. validated_index d' (int n + 1) max_records False = Inr q"
proof -
  have v: "validate_root d' = Inr ()" "validate_index_node d' = Inr ()"
    using assms(1-3) by (auto simp: validated_index_def rbind_eq_Inr validate_root_def validate_index_node_def)
  have k: "validate_count (int n + 1) = Inr ((int n + 1) * int receipt_bytes)"
    using assms(4) by (simp add: validate_count_def)
  show ?thesis
  proof (cases max_records)
    case None
    then have "int (length (rd_data d')) = (int n + 1) * int receipt_bytes"
      using assms(5) by (simp add: distrib_right)
    then show ?thesis using None v k by (simp add: validated_index_def validate_capacity_def Let_def)
  next
    case (Some m)
    note i = validated_index_Inr [OF assms(1)]
    obtain cap where m: "validate_count m = Inr cap" "int (length (rd_data d)) mod int receipt_bytes = 0"
        "int (length (rd_data d)) \<le> cap"
      using assms(1) Some
      by (auto simp: validated_index_def validate_capacity_def rbind_eq_Inr Let_def split: if_splits)
    have "(int n + 1) * int receipt_bytes \<le> int (length (rd_data d))" "int n < m"
      using i Some by (auto simp: distrib_right)
    then show ?thesis using Some v k m assms(6)
      by (simp add: validated_index_def validate_capacity_def Let_def)
  qed
qed

text \<open>
  C39. A receipt that was appended is found: when the confirmed prefix holds the records \<open>rs\<close> in
  increasing offset order and the new offset is larger, an append that succeeds makes the look-up
  of every offset, old or new, answer what the extended list of receipts says (the payload length
  and its digest for the new one), without disturbing the others.
\<close>

theorem appended_receipt_is_found:
  assumes "confirmed (rd_data d) rs" and "increasing rs" and "\<forall>r\<in>set rs. fst r < offset"
    and "append_receipt sha d (int (length rs)) offset payload max_records written = (d', Inr u)"
    and "length (sha payload) = 32" and "(int (length rs) + 1) * int receipt_bytes \<le> max_file_offset"
    and "0 \<le> wanted" "wanted \<le> max_uint64"
  shows "find_receipt d' (int (length rs) + 1) wanted max_records
    = Inr (lookup (rs @ [(offset, int (length payload), sha payload)]) wanted)"
proof -
  let ?rs = "rs @ [(offset, int (length payload), sha payload)]"
  obtain position where v: "validated_index d (int (length rs)) max_records True = Inr position"
    and d': "d' = d\<lparr>rd_data := rd_data d'\<rparr>"
    by (rule append_receipt_Inr [OF assms(4)]) simp
  have c: "confirmed (rd_data d') ?rs"
    and l: "max_records = None \<longrightarrow> length (rd_data d') = (length rs + 1) * receipt_bytes"
      "max_records \<noteq> None \<longrightarrow> length (rd_data d') = length (rd_data d)"
    using append_confirmed [OF assms(1,4,5)] by auto
  have inc: "increasing ?rs" using assms(2,3) by (auto simp: increasing_def sorted_wrt_append)
  have nodes: "rd_root d' = rd_root d" "rd_index d' = rd_index d" by (subst d', simp)+
  obtain q where q: "validated_index d' (int (length rs) + 1) max_records False = Inr q"
    using validated_index_next [OF v nodes assms(6)] l by blast
  have "search_receipt (rd_data d') wanted 0 (length ?rs) = Inr (lookup ?rs wanted)"
    by (rule search_receipt_correct [OF c inc]) auto
  moreover have "nat (int (length rs) + 1) = length ?rs" by simp
  ultimately show ?thesis using q assms(7,8) by (simp add: find_receipt_def validate_offset_def)
qed

definition demo_dir :: receipt_dir where
  "demo_dir =
     \<lparr>rd_root = Node \<lparr>ni_unsafe = False, ni_dir = True, ni_regular = False, ni_links = 1\<rparr>,
      rd_index = Node \<lparr>ni_unsafe = False, ni_dir = False, ni_regular = True, ni_links = 1\<rparr>,
      rd_data = pack_record (0, 5, replicate 32 7)\<rparr>"

lemma appended_receipt_is_found_witness:
  "\<exists>d'. append_receipt (\<lambda>_. replicate 32 1) demo_dir 1 5 [9] None 48 = (d', Inr ())
     \<and> find_receipt d' 2 0 None = Inr (lookup [(0, 5, replicate 32 7), (5, 1, replicate 32 1)] 0)"
proof -
  have r: "snd (append_receipt (\<lambda>_. replicate 32 1) demo_dir 1 5 [9] None 48) = Inr ()" by code_simp
  define d' where "d' = fst (append_receipt (\<lambda>_. replicate 32 1) demo_dir 1 5 [9] None 48)"
  have a: "append_receipt (\<lambda>_. replicate 32 1) demo_dir
      (int (length [(0 :: int, 5 :: int, replicate 32 7 :: bytes)])) 5 [9] None 48 = (d', Inr ())"
    using r unfolding d'_def by (simp add: prod_eq_iff)
  have c: "confirmed (rd_data demo_dir) [(0, 5, replicate 32 7)]" by code_simp
  have i: "increasing [(0 :: int, 5 :: int, replicate 32 7 :: bytes)]" by code_simp
  have b: "(int (length [(0 :: int, 5 :: int, replicate 32 7 :: bytes)]) + 1) * int receipt_bytes
      \<le> max_file_offset" by code_simp
  have "find_receipt d' (int (length [(0 :: int, 5 :: int, replicate 32 7 :: bytes)]) + 1) 0 None
      = Inr (lookup ([(0, 5, replicate 32 7)] @ [(5, int (length [9 :: 8 word]), replicate 32 1)]) 0)"
    by (rule appended_receipt_is_found [OF c i _ a _ b]) (simp_all add: max_uint64_def)
  then show ?thesis using a by simp
qed

lemma append_interrupted:
  assumes "n < receipt_bytes" "fst (append_receipt sha d count offset payload max_records n) = d1"
  shows "d1 = d \<or> (\<exists>position part. validated_index d count max_records True = Inr position
    \<and> length part = n \<and> d1 = d\<lparr>rd_data := write_at (nat position) part (rd_data d)\<rparr>)"
proof (cases "d1 = d")
  case False
  then have o: "validate_offset offset = Inr ()" "payload \<noteq> []" "int (length payload) \<le> max_uint64"
    using assms by (auto simp: append_receipt_def split: sum.splits if_splits)
  obtain position where v: "validated_index d count max_records True = Inr position"
    using False assms o by (cases "validated_index d count max_records True")
      (auto simp: append_receipt_def Let_def split: if_splits)
  have "d1 = d\<lparr>rd_data := write_at (nat position)
      (take n (pack_record (offset, int (length payload), sha payload))) (rd_data d)\<rparr>"
    using assms o v by (auto simp: append_receipt_def Let_def)
  moreover have "length (take n (pack_record (offset, int (length payload), sha payload))) = n"
    using assms(1) by simp
  ultimately show ?thesis using v by blast
qed simp

lemma append_after_part:
  assumes v: "validated_index d count max_records True = Inr position" and n: "length part < receipt_bytes"
    and d1: "d1 = d\<lparr>rd_data := write_at (nat position) part (rd_data d)\<rparr>"
  shows "append_receipt sha d1 count offset payload max_records receipt_bytes
      = (let (d2, r) = append_receipt sha d count offset payload max_records receipt_bytes in
         (if r = Inr () then d2 else d1, r))"
proof -
  note i = validated_index_Inr [OF v]
  have p: "nat position \<le> length (rd_data d)" using i by (simp add: nat_le_iff)
  note len = write_at_length [OF p, of part]
  have np: "int (nat position) = position" using i by simp
  have "validated_index d1 count max_records True = Inr position"
    unfolding d1
  proof (rule validated_index_data [OF v])
    show "int (length (write_at (nat position) part (rd_data d))) = int (length (rd_data d))
      \<or> max_records = None \<and> position \<le> int (length (write_at (nat position) part (rd_data d)))
         \<and> int (length (write_at (nat position) part (rd_data d))) \<le> position + int receipt_bytes"
    proof (cases max_records)
      case None
      then have "int (length (rd_data d)) \<le> position + int receipt_bytes"
        and "position \<le> int (length (rd_data d))" using i by auto
      then show ?thesis using None n np unfolding len by linarith
    next
      case (Some m)
      then have "position + int receipt_bytes \<le> int (length (rd_data d))" using i by auto
      then have "nat position + length part \<le> length (rd_data d)" using np n by linarith
      then show ?thesis unfolding len by simp
    qed
  qed
  moreover have "write_at (nat position) (pack_record r) (rd_data d1)
      = write_at (nat position) (pack_record r) (rd_data d)" for r
    using write_at_twice [OF p, of part "pack_record r"] n d1 by simp
  ultimately show ?thesis using v d1
    by (auto simp: append_receipt_def Let_def split: sum.splits)
qed

lemma append_failed:
  "append_receipt sha d count offset payload max_records receipt_bytes = (d2, Inl e) \<Longrightarrow> d2 = d"
  by (auto simp: append_receipt_def Let_def split: sum.splits if_splits)

text \<open>
  Appending is crash safe: an append that stops after any proper part of its record, whatever
  it was for, leaves the confirmed records as they were, and a later append at the same count ends
  in the same file and the same answer as if the broken one had never run.
\<close>

theorem interrupted_append_is_harmless:
  assumes "n < receipt_bytes"
    and "fst (append_receipt sha d count offset' payload' max_records n) = d1"
  shows "append_receipt sha d1 count offset payload max_records receipt_bytes
      = (let (d2, r) = append_receipt sha d count offset payload max_records receipt_bytes in
         (if r = Inr () then d2 else d1, r))
    \<and> take (nat count * receipt_bytes) (rd_data d1) = take (nat count * receipt_bytes) (rd_data d)"
  using append_interrupted [OF assms]
proof (elim disjE exE conjE)
  assume "d1 = d"
  moreover obtain d2 r where r: "append_receipt sha d count offset payload max_records receipt_bytes = (d2, r)"
    by (cases "append_receipt sha d count offset payload max_records receipt_bytes")
  moreover have "r \<noteq> Inr () \<Longrightarrow> d2 = d" using append_failed r by (cases r) auto
  ultimately show ?thesis by simp
next
  fix position part
  assume v: "validated_index d count max_records True = Inr position" and n: "length part = n"
    and d1: "d1 = d\<lparr>rd_data := write_at (nat position) part (rd_data d)\<rparr>"
  note i = validated_index_Inr [OF v]
  have "nat position = nat count * receipt_bytes" using i by (simp add: nat_mult_distrib)
  moreover have "nat position \<le> length (rd_data d)" using i by (simp add: nat_le_iff)
  ultimately have "take (nat count * receipt_bytes) (rd_data d1) = take (nat count * receipt_bytes) (rd_data d)"
    using write_at_prefix d1 by simp
  then show ?thesis using append_after_part [OF v _ d1] n assms(1) by simp
qed

lemma interrupted_append_is_harmless_witness:
  "\<exists>d1. fst (append_receipt (\<lambda>_. replicate 32 1) demo_dir 1 5 [9] None 20) = d1
     \<and> length (rd_data d1) = 68
     \<and> take (nat 1 * receipt_bytes) (rd_data d1) = take (nat 1 * receipt_bytes) (rd_data demo_dir)"
proof -
  have l: "length (rd_data (fst (append_receipt (\<lambda>_. replicate 32 1) demo_dir 1 5 [9] None 20))) = 68"
    by code_simp
  have n: "(20 :: nat) < receipt_bytes" by (simp add: receipt_bytes_def)
  show ?thesis
    using interrupted_append_is_harmless
        [OF n, of "\<lambda>_. replicate 32 1" demo_dir 1 5 "[9]" None _ 5 "[9]", OF refl] l by blast
qed

section \<open>The state of a transfer for display\<close>

text \<open>
  An aware datetime is an instant and a zone; \<open>parse\<close> is \<open>datetime.fromisoformat\<close> with \<open>None\<close> for a
  text it rejects or a naive result, \<open>fmt\<close> is \<open>isoformat\<close>.
\<close>

record aware_time =
  at_instant :: int
  at_zone :: int

record transfer_manifest =
  tm_version :: "int pyval"
  tm_operation :: "string pyval"
  tm_direction :: "string pyval"
  tm_state :: "string pyval"
  tm_created :: "string pyval"
  tm_expires :: "string pyval"                  \<comment> \<open>\<open>Missing\<close>: the key is not in the manifest\<close>
  tm_finished :: "string \<Rightarrow> string pyval"       \<comment> \<open>the value at \<open><state>_at\<close>\<close>

record activity_state =
  as_state :: string
  as_finished :: "string option"

definition active_states :: "string list" where
  "active_states = [''preparing'', ''open'']"

definition terminal_states :: "string list" where
  "terminal_states = [''completed'', ''committed'', ''cancelled'', ''expired'', ''failed'']"

definition is_lower_hex :: "char \<Rightarrow> bool" where
  "is_lower_hex c \<longleftrightarrow> is_digit c \<or> char_between (CHR ''a'') (CHR ''f'') c"

definition canonical_uuid :: "string \<Rightarrow> bool" where
  "canonical_uuid v \<longleftrightarrow>
     length v = 36 \<and>
     list_all (\<lambda>i. if i \<in> {8, 13, 18, 23} then v ! i = CHR ''-'' else is_lower_hex (v ! i)) [0..<36]"

definition activity_time :: "(string \<Rightarrow> aware_time option) \<Rightarrow> string pyval \<Rightarrow> aware_time option" where
  "activity_time parse v = (case v of Py t \<Rightarrow> parse t | _ \<Rightarrow> None)"

definition unavailable_state :: activity_state where
  "unavailable_state = \<lparr>as_state = ''unavailable'', as_finished = None\<rparr>"

definition manifest_matches :: "string \<Rightarrow> string \<Rightarrow> transfer_manifest \<Rightarrow> bool" where
  "manifest_matches operation_id direction m \<longleftrightarrow>
     tm_version m \<in> {Py 1, Py 2, Py 3, Py 4, Py 5}
     \<and> tm_operation m = Py operation_id \<and> tm_direction m = Py direction
     \<and> (case tm_state m of Py s \<Rightarrow> s \<in> set active_states \<union> set terminal_states | _ \<Rightarrow> False)"

definition activity_expiry ::
  "(string \<Rightarrow> aware_time option) \<Rightarrow> int \<Rightarrow> transfer_manifest \<Rightarrow> aware_time \<Rightarrow> aware_time option" where
  "activity_expiry parse ttl m created =
     (case tm_expires m of
        Missing \<Rightarrow> Some (created\<lparr>at_instant := at_instant created + ttl\<rparr>)
      | v \<Rightarrow> activity_time parse v)"

text \<open>
  \<open>manifest\<close> is what the locked verified read gives: \<open>None\<close> when the lock, the read or the decoding
  fails or the document is no object.
\<close>

definition read_transfer_activity_state ::
  "(string \<Rightarrow> aware_time option) \<Rightarrow> (aware_time \<Rightarrow> string) \<Rightarrow> int \<Rightarrow> (string \<Rightarrow> transfer_manifest option) \<Rightarrow>
   string \<Rightarrow> string \<Rightarrow> string \<Rightarrow> aware_time option \<Rightarrow> activity_state" where
  "read_transfer_activity_state parse fmt ttl manifest transfer_id operation_id direction now =
     (if \<not> canonical_uuid transfer_id \<or> \<not> canonical_uuid operation_id
         \<or> direction \<notin> {''download'', ''upload''}
      then unavailable_state
      else case now of None \<Rightarrow> unavailable_state | Some t \<Rightarrow>
      (case manifest transfer_id of None \<Rightarrow> unavailable_state | Some m \<Rightarrow>
       if \<not> manifest_matches operation_id direction m then unavailable_state
       else
      (case activity_time parse (tm_created m) of None \<Rightarrow> unavailable_state | Some created \<Rightarrow>
      (case activity_expiry parse ttl m created of None \<Rightarrow> unavailable_state | Some expiry \<Rightarrow>
       if at_instant expiry < at_instant created then unavailable_state
       else
      (case tm_state m of
         Py s \<Rightarrow>
           if s \<in> set active_states
           then (if at_instant expiry < at_instant t
                 then \<lparr>as_state = ''expired'', as_finished = Some (fmt expiry)\<rparr>
                 else \<lparr>as_state = s, as_finished = None\<rparr>)
           else \<lparr>as_state = s, as_finished = map_option fmt (activity_time parse (tm_finished m s))\<rparr>
       | _ \<Rightarrow> unavailable_state)))))"

text \<open>
  The displayed state of a transfer is trustworthy: it is \<open>unavailable\<close>, or the manifest names
  this operation and direction and the state shown is its own, except that an active transfer whose
  expiry has passed is shown as expired; an active state is never shown after its expiry.
\<close>

theorem transfer_activity_faithful:
  assumes "read_transfer_activity_state parse fmt ttl manifest transfer_id operation_id direction (Some t) = r"
  shows "r = unavailable_state \<or>
    (\<exists>m s created expiry. manifest transfer_id = Some m \<and> manifest_matches operation_id direction m
       \<and> tm_state m = Py s \<and> activity_time parse (tm_created m) = Some created
       \<and> activity_expiry parse ttl m created = Some expiry \<and> at_instant created \<le> at_instant expiry
       \<and> as_state r = (if s \<in> set active_states \<and> at_instant expiry < at_instant t then ''expired'' else s)
       \<and> (as_state r \<notin> set active_states \<or> at_instant t \<le> at_instant expiry))"
proof (cases "r = unavailable_state")
  case False
  have g: "canonical_uuid transfer_id" "canonical_uuid operation_id" "direction \<in> {''download'', ''upload''}"
    using assms False by (auto simp: read_transfer_activity_state_def split: if_splits)
  obtain m where m: "manifest transfer_id = Some m" "manifest_matches operation_id direction m"
    using assms False g by (auto simp: read_transfer_activity_state_def split: option.splits if_splits)
  obtain created where c: "activity_time parse (tm_created m) = Some created"
    using assms False g m by (auto simp: read_transfer_activity_state_def split: option.splits)
  obtain expiry where e: "activity_expiry parse ttl m created = Some expiry"
    using assms False g m c by (auto simp: read_transfer_activity_state_def split: option.splits)
  obtain s where s: "tm_state m = Py s" using m(2) by (auto simp: manifest_matches_def split: pyval.splits)
  have le: "at_instant created \<le> at_instant expiry"
    using assms False g m c e by (auto simp: read_transfer_activity_state_def split: if_splits)
  have r: "r = (if s \<in> set active_states
           then (if at_instant expiry < at_instant t
                 then \<lparr>as_state = ''expired'', as_finished = Some (fmt expiry)\<rparr>
                 else \<lparr>as_state = s, as_finished = None\<rparr>)
           else \<lparr>as_state = s, as_finished = map_option fmt (activity_time parse (tm_finished m s))\<rparr>)"
    using assms g m c e s le by (auto simp: read_transfer_activity_state_def)
  have "''expired'' \<notin> set active_states" by (simp add: active_states_def)
  then show ?thesis using m c e s le r by auto
qed simp

definition demo_manifest :: transfer_manifest where
  "demo_manifest =
     \<lparr>tm_version = Py 5, tm_operation = Py ''00000000-0000-0000-0000-000000000001'',
      tm_direction = Py ''upload'', tm_state = Py ''open'', tm_created = Py ''0'', tm_expires = Missing,
      tm_finished = (\<lambda>_. Missing)\<rparr>"

lemma transfer_activity_faithful_witness:
  "as_state (read_transfer_activity_state (\<lambda>_. Some \<lparr>at_instant = 0, at_zone = 0\<rparr>) (\<lambda>_. ''t'') 60
      (\<lambda>_. Some demo_manifest) ''00000000-0000-0000-0000-000000000002''
      ''00000000-0000-0000-0000-000000000001'' ''upload'' (Some \<lparr>at_instant = 61, at_zone = 0\<rparr>))
     = ''expired''
   \<and> manifest_matches ''00000000-0000-0000-0000-000000000001'' ''upload'' demo_manifest"
proof -
  let ?r = "read_transfer_activity_state (\<lambda>_. Some \<lparr>at_instant = 0, at_zone = 0\<rparr>) (\<lambda>_. ''t'') 60
      (\<lambda>_. Some demo_manifest) ''00000000-0000-0000-0000-000000000002''
      ''00000000-0000-0000-0000-000000000001'' ''upload'' (Some \<lparr>at_instant = 61, at_zone = 0\<rparr>)"
  have s: "as_state ?r = ''expired''" by code_simp
  then have "?r \<noteq> unavailable_state" by (auto simp: unavailable_state_def)
  then show ?thesis using transfer_activity_faithful [OF refl, of _ _ 60 "\<lambda>_. Some demo_manifest"] s by blast
qed

end
