(* ===== verification/Effects.thy ===== *)
theory Effects
  imports Prelude
begin

text \<open>
  Stateful operations that may raise: a Python function that changes durable state is a function
  from the state to the new state and its result, because an exception does not undo what was
  already written. The section on triples is the small program logic the components share.
\<close>

section \<open>Operations\<close>

type_synonym ('s, 'a) op = "'s \<Rightarrow> 's \<times> 'a res"

definition mret :: "'a \<Rightarrow> ('s, 'a) op" where
  "mret x s = (s, Inr x)"

definition mfail :: "error \<Rightarrow> ('s, 'a) op" where
  "mfail e s = (s, Inl e)"

definition mbind :: "('s, 'a) op \<Rightarrow> ('a \<Rightarrow> ('s, 'b) op) \<Rightarrow> ('s, 'b) op" where
  "mbind m f s = (case m s of (s', Inl e) \<Rightarrow> (s', Inl e) | (s', Inr x) \<Rightarrow> f x s')"

text \<open>\<open>try: m except E as error: h(error)\<close>.\<close>

definition mcatch :: "('s, 'a) op \<Rightarrow> (error \<Rightarrow> ('s, 'a) op) \<Rightarrow> ('s, 'a) op" where
  "mcatch m h s = (case m s of (s', Inl e) \<Rightarrow> h e s' | (s', Inr x) \<Rightarrow> (s', Inr x))"

definition mget :: "('s \<Rightarrow> 'a) \<Rightarrow> ('s, 'a) op" where
  "mget f s = (s, Inr (f s))"

definition mput :: "('s \<Rightarrow> 's) \<Rightarrow> ('s, unit) op" where
  "mput f s = (f s, Inr ())"

definition mlift :: "'a res \<Rightarrow> ('s, 'a) op" where
  "mlift r s = (s, r)"

definition mcheck :: "bool \<Rightarrow> error \<Rightarrow> ('s, unit) op" where
  "mcheck b e = (if b then mret () else mfail e)"

fun mfold :: "('a \<Rightarrow> ('s, unit) op) \<Rightarrow> 'a list \<Rightarrow> ('s, unit) op" where
  "mfold f [] = mret ()"
| "mfold f (x # xs) = mbind (f x) (\<lambda>_. mfold f xs)"

text \<open>An operation on one part of a composed state, and one whose exception is kept as a value.\<close>

definition on_fst :: "('s, 'a) op \<Rightarrow> ('s \<times> 'w, 'a) op" where
  "on_fst m = (\<lambda>(s, w). case m s of (s', r) \<Rightarrow> ((s', w), r))"

definition on_snd :: "('w, 'a) op \<Rightarrow> ('s \<times> 'w, 'a) op" where
  "on_snd m = (\<lambda>(s, w). case m w of (w', r) \<Rightarrow> ((s, w'), r))"

definition attempt :: "('s, 'a) op \<Rightarrow> ('s, 'a res) op" where
  "attempt m s = (case m s of (s', r) \<Rightarrow> (s', Inr r))"

named_theorems op_simps \<open>unfolding of operations applied to a state\<close>

lemma mbind_eq [op_simps]:
  "mbind m f s = (s', r) \<longleftrightarrow>
     (\<exists>e. m s = (s', Inl e) \<and> r = Inl e) \<or> (\<exists>t x. m s = (t, Inr x) \<and> f x t = (s', r))"
  by (auto simp: mbind_def split: prod.splits sum.splits)

lemma mcatch_eq [op_simps]:
  "mcatch m h s = (s', r) \<longleftrightarrow>
     (\<exists>t e. m s = (t, Inl e) \<and> h e t = (s', r)) \<or> (\<exists>x. m s = (s', Inr x) \<and> r = Inr x)"
  by (auto simp: mcatch_def split: prod.splits sum.splits)

lemma mret_eq [op_simps]: "mret x s = (s', r) \<longleftrightarrow> s' = s \<and> r = Inr x"
  by (auto simp: mret_def)

lemma mfail_eq [op_simps]: "mfail e s = (s', r) \<longleftrightarrow> s' = s \<and> r = Inl e"
  by (auto simp: mfail_def)

lemma mget_eq [op_simps]: "mget f s = (s', r) \<longleftrightarrow> s' = s \<and> r = Inr (f s)"
  by (auto simp: mget_def)

lemma mput_eq [op_simps]: "mput f s = (s', r) \<longleftrightarrow> s' = f s \<and> r = Inr ()"
  by (auto simp: mput_def)

lemma mlift_eq [op_simps]: "mlift x s = (s', r) \<longleftrightarrow> s' = s \<and> x = r"
  by (auto simp: mlift_def)

lemma mcheck_eq [op_simps]:
  "mcheck b e s = (s', r) \<longleftrightarrow> s' = s \<and> r = (if b then Inr () else Inl e)"
  by (auto simp: mcheck_def mret_def mfail_def)

section \<open>Triples\<close>

text \<open>
  \<open>hoare P m Q R\<close>: from a state with \<open>P\<close> the operation returns with \<open>Q\<close> of its result and the
  new state, or raises with \<open>R\<close> of the exception and the new state.
\<close>

definition hoare ::
  "('s \<Rightarrow> bool) \<Rightarrow> ('s, 'a) op \<Rightarrow> ('a \<Rightarrow> 's \<Rightarrow> bool) \<Rightarrow> (error \<Rightarrow> 's \<Rightarrow> bool) \<Rightarrow> bool" where
  "hoare P m Q R \<longleftrightarrow>
     (\<forall>s. P s \<longrightarrow> (case m s of (s', Inr x) \<Rightarrow> Q x s' | (s', Inl e) \<Rightarrow> R e s'))"

lemma hoareI:
  assumes "\<And>s s' x. P s \<Longrightarrow> m s = (s', Inr x) \<Longrightarrow> Q x s'"
    and "\<And>s s' e. P s \<Longrightarrow> m s = (s', Inl e) \<Longrightarrow> R e s'"
  shows "hoare P m Q R"
  using assms unfolding hoare_def by (auto split: prod.split sum.split)

lemma hoareD1: "hoare P m Q R \<Longrightarrow> P s \<Longrightarrow> m s = (s', Inr x) \<Longrightarrow> Q x s'"
  unfolding hoare_def by (auto split: prod.splits sum.splits)

lemma hoareD2: "hoare P m Q R \<Longrightarrow> P s \<Longrightarrow> m s = (s', Inl e) \<Longrightarrow> R e s'"
  unfolding hoare_def by (auto split: prod.splits sum.splits)

named_theorems hoare_rules \<open>triples of the basic operations\<close>

lemma hoare_ret [hoare_rules]: "(\<And>s. P s \<Longrightarrow> Q x s) \<Longrightarrow> hoare P (mret x) Q R"
  by (rule hoareI) (auto simp: mret_def)

lemma hoare_fail [hoare_rules]: "(\<And>s. P s \<Longrightarrow> R e s) \<Longrightarrow> hoare P (mfail e) Q R"
  by (rule hoareI) (auto simp: mfail_def)

lemma hoare_get [hoare_rules]: "(\<And>s. P s \<Longrightarrow> Q (f s) s) \<Longrightarrow> hoare P (mget f) Q R"
  by (rule hoareI) (auto simp: mget_def)

lemma hoare_put [hoare_rules]: "(\<And>s. P s \<Longrightarrow> Q () (f s)) \<Longrightarrow> hoare P (mput f) Q R"
  by (rule hoareI) (auto simp: mput_def)

lemma hoare_lift [hoare_rules]:
  "(\<And>s x. P s \<Longrightarrow> r = Inr x \<Longrightarrow> Q x s) \<Longrightarrow> (\<And>s e. P s \<Longrightarrow> r = Inl e \<Longrightarrow> R e s) \<Longrightarrow>
     hoare P (mlift r) Q R"
  by (rule hoareI) (auto simp: mlift_def)

lemma hoare_check [hoare_rules]:
  "(\<And>s. P s \<Longrightarrow> b \<Longrightarrow> Q () s) \<Longrightarrow> (\<And>s. P s \<Longrightarrow> \<not> b \<Longrightarrow> R e s) \<Longrightarrow> hoare P (mcheck b e) Q R"
  by (rule hoareI) (auto simp: mcheck_def mret_def mfail_def split: if_splits)

lemma hoare_bind:
  assumes "hoare P m Q R" "\<And>x. hoare (Q x) (f x) Q' R"
  shows "hoare P (mbind m f) Q' R"
  using assms unfolding hoare_def mbind_def by (fastforce split: prod.splits sum.splits)

lemma hoare_catch:
  assumes "hoare P m Q R'" "\<And>e. hoare (R' e) (h e) Q R"
  shows "hoare P (mcatch m h) Q R"
  using assms unfolding hoare_def mcatch_def by (fastforce split: prod.splits sum.splits)

lemma hoare_if:
  assumes "b \<Longrightarrow> hoare P m Q R" "\<not> b \<Longrightarrow> hoare P m' Q R"
  shows "hoare P (if b then m else m') Q R"
  using assms by simp

lemma hoare_option:
  assumes "c = None \<Longrightarrow> hoare P m Q R" "\<And>x. c = Some x \<Longrightarrow> hoare P (f x) Q R"
  shows "hoare P (case c of None \<Rightarrow> m | Some x \<Rightarrow> f x) Q R"
  using assms by (cases c) auto

lemma hoare_weaken:
  assumes "hoare P m Q R" "\<And>s. P' s \<Longrightarrow> P s" "\<And>x s. Q x s \<Longrightarrow> Q' x s" "\<And>e s. R e s \<Longrightarrow> R' e s"
  shows "hoare P' m Q' R'"
  using assms unfolding hoare_def by (fastforce split: prod.splits sum.splits)

lemma hoare_pre: "hoare P m Q R \<Longrightarrow> (\<And>s. P' s \<Longrightarrow> P s) \<Longrightarrow> hoare P' m Q R"
  by (rule hoareI) (blast intro: hoareD1 hoareD2)+

lemma hoare_conj:
  assumes "hoare P m Q R" "hoare P' m Q' R'"
  shows "hoare (\<lambda>s. P s \<and> P' s) m (\<lambda>x s. Q x s \<and> Q' x s) (\<lambda>e s. R e s \<and> R' e s)"
  using assms unfolding hoare_def by (fastforce split: prod.splits sum.splits)

lemma hoare_fold:
  assumes "\<And>x. x \<in> set xs \<Longrightarrow> hoare P (f x) (\<lambda>_. P) R"
  shows "hoare P (mfold f xs) (\<lambda>_. P) R"
  using assms
proof (induction xs)
  case Nil
  then show ?case by (simp add: hoare_ret)
next
  case (Cons x xs)
  then show ?case by (auto intro!: hoare_bind [where Q = "\<lambda>_. P"])
qed

text \<open>A fold whose condition advances with the elements done.\<close>

lemma hoare_fold_list:
  assumes "\<And>x pre post. xs = pre @ x # post \<Longrightarrow> hoare (P pre) (f x) (\<lambda>_. P (pre @ [x])) R"
  shows "hoare (P []) (mfold f xs) (\<lambda>_. P xs) R"
proof -
  have "hoare (P pre) (mfold f post) (\<lambda>_. P xs) R" if "xs = pre @ post" for pre post
    using that
  proof (induction post arbitrary: pre)
    case Nil
    then show ?case by (simp add: hoare_ret)
  next
    case (Cons x post)
    have "hoare (P (pre @ [x])) (mfold f post) (\<lambda>_. P xs) R" using Cons.IH [of "pre @ [x]"] Cons.prems by simp
    then show ?case using assms [of pre x post] Cons.prems
      by (auto intro!: hoare_bind [where Q = "\<lambda>_. P (pre @ [x])"])
  qed
  from this [of "[]" xs] show ?thesis by simp
qed

text \<open>An operation that keeps a condition however it ends.\<close>

definition keeps :: "('s \<Rightarrow> bool) \<Rightarrow> ('s, 'a) op \<Rightarrow> bool" where
  "keeps P m \<longleftrightarrow> (\<forall>s. P s \<longrightarrow> P (fst (m s)))"

lemma keeps_hoare: "keeps P m \<longleftrightarrow> hoare P m (\<lambda>_. P) (\<lambda>_. P)"
  unfolding keeps_def hoare_def by (fastforce split: prod.splits sum.splits)

named_theorems keeps_rules \<open>operations that keep a condition\<close>

lemma keeps_ret [keeps_rules]: "keeps P (mret x)"
  by (simp add: keeps_def mret_def)

lemma keeps_fail [keeps_rules]: "keeps P (mfail e)"
  by (simp add: keeps_def mfail_def)

lemma keeps_get [keeps_rules]: "keeps P (mget f)"
  by (simp add: keeps_def mget_def)

lemma keeps_lift [keeps_rules]: "keeps P (mlift r)"
  by (simp add: keeps_def mlift_def)

lemma keeps_check [keeps_rules]: "keeps P (mcheck b e)"
  by (simp add: keeps_def mcheck_def mret_def mfail_def)

lemma keeps_put: "(\<And>s. P s \<Longrightarrow> P (f s)) \<Longrightarrow> keeps P (mput f)"
  by (simp add: keeps_def mput_def)

lemma keeps_bind [keeps_rules]: "keeps P m \<Longrightarrow> (\<And>x. keeps P (f x)) \<Longrightarrow> keeps P (mbind m f)"
  unfolding keeps_hoare by (rule hoare_bind)

lemma keeps_catch [keeps_rules]: "keeps P m \<Longrightarrow> (\<And>e. keeps P (h e)) \<Longrightarrow> keeps P (mcatch m h)"
  unfolding keeps_hoare by (rule hoare_catch)

lemma keeps_if [keeps_rules]: "keeps P m \<Longrightarrow> keeps P m' \<Longrightarrow> keeps P (if b then m else m')"
  by simp

lemma keeps_option [keeps_rules]:
  "keeps P m \<Longrightarrow> (\<And>x. keeps P (f x)) \<Longrightarrow> keeps P (case c of None \<Rightarrow> m | Some x \<Rightarrow> f x)"
  by (cases c) auto

lemma keeps_fold [keeps_rules]: "(\<And>x. keeps P (f x)) \<Longrightarrow> keeps P (mfold f xs)"
  unfolding keeps_hoare by (rule hoare_fold)

section \<open>What an operation does to a view of the state\<close>

text \<open>
  \<open>moves f v m A B\<close>: from a state seen as \<open>v\<close> the operation returns with \<open>A\<close> of its result and the
  new view, or raises with \<open>B\<close> of the new view.
\<close>

definition moves :: "('s \<Rightarrow> 'v) \<Rightarrow> 'v \<Rightarrow> ('s, 'a) op \<Rightarrow> ('a \<Rightarrow> 'v \<Rightarrow> bool) \<Rightarrow> ('v \<Rightarrow> bool) \<Rightarrow> bool" where
  "moves f v m A B \<longleftrightarrow> hoare (\<lambda>s. f s = v) m (\<lambda>x s. A x (f s)) (\<lambda>_ s. B (f s))"

abbreviation stays :: "('s \<Rightarrow> 'v) \<Rightarrow> 'v \<Rightarrow> ('s, 'a) op \<Rightarrow> bool" where
  "stays f v m \<equiv> moves f v m (\<lambda>_ v'. v' = v) (\<lambda>v'. v' = v)"

lemma movesI:
  assumes "\<And>s s' x. f s = v \<Longrightarrow> m s = (s', Inr x) \<Longrightarrow> A x (f s')"
    and "\<And>s s' e. f s = v \<Longrightarrow> m s = (s', Inl e) \<Longrightarrow> B (f s')"
  shows "moves f v m A B"
  unfolding moves_def by (rule hoareI) (use assms in blast)+

lemma movesD:
  assumes "moves f v m A B" "f s = v" "m s = (s', r)"
  shows "case r of Inr x \<Rightarrow> A x (f s') | Inl e \<Rightarrow> B (f s')"
  using assms unfolding moves_def hoare_def by fastforce

lemma moves_weaken:
  assumes "moves f v m A B" "\<And>x v'. A x v' \<Longrightarrow> A' x v'" "\<And>v'. B v' \<Longrightarrow> B' v'"
  shows "moves f v m A' B'"
  using assms unfolding moves_def hoare_def by (fastforce split: prod.splits sum.splits)

lemma moves_bind:
  assumes "moves f v m A B" "\<And>x v'. A x v' \<Longrightarrow> moves f v' (g x) A' B"
  shows "moves f v (mbind m g) A' B"
  using assms unfolding moves_def hoare_def mbind_def by (fastforce split: prod.splits sum.splits)

text \<open>After a step that changes nothing of the view.\<close>

lemma moves_then:
  assumes "stays f v m" "B v" "\<And>x. moves f v (g x) A B"
  shows "moves f v (mbind m g) A B"
  by (rule moves_bind [OF moves_weaken [OF assms(1), where A' = "\<lambda>_ v'. v' = v" and B' = B]])
    (use assms(2,3) in auto)

lemma stays_then: "stays f v m \<Longrightarrow> (\<And>x. stays f v (g x)) \<Longrightarrow> stays f v (mbind m g)"
  by (rule moves_then) simp_all

lemma moves_attempt:
  "moves f v m A B \<Longrightarrow> moves f v (attempt m) (\<lambda>r v'. case r of Inr x \<Rightarrow> A x v' | Inl e \<Rightarrow> B v') C"
  unfolding moves_def hoare_def attempt_def by (auto split: prod.splits sum.splits)

lemma moves_catch:
  assumes "moves f v m A B" "\<And>e v'. B v' \<Longrightarrow> moves f v' (h e) A C"
  shows "moves f v (mcatch m h) A C"
  using assms unfolding moves_def hoare_def mcatch_def by (fastforce split: prod.splits sum.splits)

lemma moves_ret: "A x v \<Longrightarrow> moves f v (mret x) A B"
  by (rule movesI) (auto simp: mret_def)

lemma moves_fail: "B v \<Longrightarrow> moves f v (mfail e) A B"
  by (rule movesI) (auto simp: mfail_def)

lemma moves_lift: "(\<And>x. r = Inr x \<Longrightarrow> A x v) \<Longrightarrow> (\<And>e. r = Inl e \<Longrightarrow> B v) \<Longrightarrow> moves f v (mlift r) A B"
  by (rule movesI) (auto simp: mlift_def)

lemma moves_check: "(b \<Longrightarrow> A () v) \<Longrightarrow> (\<not> b \<Longrightarrow> B v) \<Longrightarrow> moves f v (mcheck b e) A B"
  by (rule movesI) (auto simp: mcheck_def mret_def mfail_def split: if_splits)

lemma moves_get: "(\<And>s. f s = v \<Longrightarrow> A (g s) v) \<Longrightarrow> moves f v (mget g) A B"
  by (rule movesI) (auto simp: mget_def)

lemma moves_fst: "moves f v m A B \<Longrightarrow> moves (\<lambda>s. f (fst s)) v (on_fst m) A B"
  unfolding moves_def hoare_def on_fst_def by (fastforce split: prod.splits sum.splits)

lemma stays_snd: "stays (\<lambda>s. f (fst s)) v (on_snd m)"
  by (rule movesI) (auto simp: on_snd_def split: prod.splits)

named_theorems stays_rules \<open>operations that leave a view alone\<close>

lemma stays_basic [stays_rules]:
  "stays f v (mret x)" "stays f v (mfail e)" "stays f v (mlift r)" "stays f v (mcheck b e)" "stays f v (mget g)"
  by (simp_all add: moves_ret moves_fail moves_lift moves_check moves_get)

declare stays_then [stays_rules]

lemma stays_if [stays_rules]: "stays f v m \<Longrightarrow> stays f v m' \<Longrightarrow> stays f v (if b then m else m')"
  by simp

lemma stays_option [stays_rules]:
  "stays f v m \<Longrightarrow> (\<And>x. stays f v (g x)) \<Longrightarrow> stays f v (case c of None \<Rightarrow> m | Some x \<Rightarrow> g x)"
  by (cases c) auto

lemma stays_prod [stays_rules]: "(\<And>a b. stays f v (g a b)) \<Longrightarrow> stays f v (case c of (a, b) \<Rightarrow> g a b)"
  by (cases c) auto

lemma stays_fold [stays_rules]: "(\<And>x. stays f v (g x)) \<Longrightarrow> stays f v (mfold g xs)"
  by (induction xs) (auto intro: stays_rules)

end
