(* ===== verification/Checkpoints.thy ===== *)
theory Checkpoints
  imports Paths Text "HOL-Library.AList" "HOL-Library.Product_Lexorder"
begin

text \<open>
  Checkpoint manifests of \<open>workspace_history.py\<close>: the recorded state of files and directories, its
  validation when a manifest is loaded, target manifests built from a plan, the three-way selective
  undo and the preview of a restore. A blob store maps digests to contents; the digest function is
  a parameter. Entries of the old layout, whose contents lie beside the manifest, are left out.
\<close>

section \<open>Manifests\<close>

datatype path_state = FileSt string | DirSt

type_synonym state_map = "(string \<times> path_state) list"

record manifest_entry =
  me_path :: string
  me_size :: int
  me_sha :: string

record manifest =
  mf_files :: "manifest_entry list"
  mf_dirs :: "string list"
  mf_scope :: "string list option"     \<comment> \<open>\<open>None\<close>: the whole workspace\<close>

text \<open>
  The JSON of a manifest. A files or directories value that is no list and an item of another shape
  are \<open>None\<close>; \<open>str\<close> and \<open>int\<close> of missing keys are the defaults of the code.
\<close>

datatype raw_scope =
    RawMissing
  | RawNoDict
  | RawWorkspace
  | RawPaths "string list option"
  | RawOther

record raw_manifest =
  rm_complete :: bool
  rm_files :: "manifest_entry option list option"
  rm_dirs :: "string option list option"
  rm_scope :: raw_scope

definition sorted_set :: "string list \<Rightarrow> string list" where
  "sorted_set xs = sort (remdups xs)"

text \<open>\<open>PurePosixPath(text)\<close>: its parts below the root and \<open>as_posix()\<close>.\<close>

definition posix_parts :: "string \<Rightarrow> string list" where
  "posix_parts s = List.filter (\<lambda>p. p \<noteq> [] \<and> p \<noteq> ''.'') (split_on (CHR ''/'') s)"

definition posix_root :: "string \<Rightarrow> string" where
  "posix_root s =
     (if starts_with ''//'' s \<and> \<not> starts_with ''///'' s then ''//''
      else if starts_with ''/'' s then ''/'' else [])"

definition posix_as_posix :: "string \<Rightarrow> string" where
  "posix_as_posix s =
     (if posix_root s = [] \<and> posix_parts s = [] then ''.''
      else posix_root s @ join_with ''/'' (posix_parts s))"

definition clean_relative :: "string \<Rightarrow> bool" where
  "clean_relative s \<longleftrightarrow>
     s \<noteq> [] \<and> backslash \<notin> set s \<and> posix_as_posix s = s \<and> posix_root s = [] \<and> ''..'' \<notin> set (posix_parts s)"

definition validated_relative_path :: "string \<Rightarrow> string res" where
  "validated_relative_path v =
     rbind (validate_windows_syntax v) (\<lambda>_.
       if (wp_drive (parse_windows_path v) \<noteq> [] \<and> wp_rooted (parse_windows_path v))
          \<or> ''..'' \<in> set (windows_parts v)
       then Inl (ValueError ''workspace checkpoint path must be relative'')
       else if windows_as_posix v = [] \<or> windows_as_posix v = ''.''
       then Inl (ValueError ''workspace checkpoint path must identify a file'')
       else Inr (windows_as_posix v))"

definition hex_digest :: "string \<Rightarrow> bool" where
  "hex_digest d \<longleftrightarrow> length d = 64 \<and> list_all (\<lambda>c. c \<in> set ''0123456789abcdef'') d"

definition load_file_entry ::
  "manifest_entry list \<Rightarrow> manifest_entry option \<Rightarrow> manifest_entry list res" where
  "load_file_entry acc item =
     (case item of
        None \<Rightarrow> Inl (TypeError ''invalid workspace history entry'')
      | Some e \<Rightarrow>
          rbind (validate_windows_syntax (me_path e)) (\<lambda>_.
            if \<not> clean_relative (me_path e) \<or> me_path e \<in> set (List.map me_path acc)
               \<or> \<not> hex_digest (me_sha e) \<or> me_size e < 0
            then Inl (ValueError ''invalid workspace history entry'')
            else Inr (acc @ [e])))"

definition load_directory :: "string list \<Rightarrow> string list \<Rightarrow> string option \<Rightarrow> string list res" where
  "load_directory files acc item =
     (case item of
        None \<Rightarrow> Inl (TypeError ''invalid workspace history directory entry'')
      | Some p \<Rightarrow>
          rbind (validate_windows_syntax p) (\<lambda>_.
            if \<not> clean_relative p \<or> p \<in> set acc \<or> p \<in> set files
            then Inl (ValueError ''invalid workspace history directory entry'')
            else Inr (acc @ [p])))"

definition manifest_scope :: "raw_scope \<Rightarrow> string list option res" where
  "manifest_scope raw =
     (case raw of
        RawMissing \<Rightarrow> Inr None
      | RawWorkspace \<Rightarrow> Inr None
      | RawNoDict \<Rightarrow> Inl (TypeError ''invalid workspace checkpoint scope'')
      | RawPaths (Some (p # ps)) \<Rightarrow>
          rbind (rmap validated_relative_path (p # ps)) (\<lambda>qs.
            if length (sorted_set qs) \<noteq> length (p # ps)
            then Inl (ValueError ''scoped workspace checkpoint contains duplicate paths'')
            else Inr (Some (sorted_set qs)))
      | _ \<Rightarrow> Inl (ValueError ''invalid scoped workspace checkpoint''))"

definition load_manifest :: "raw_manifest \<Rightarrow> manifest res" where
  "load_manifest raw =
     (if \<not> rm_complete raw
      then Inl (RuntimeError ''workspace checkpoint has no verified complete-capture marker'')
      else case rm_files raw of
        None \<Rightarrow> Inl (TypeError ''invalid workspace history manifest'')
      | Some items \<Rightarrow>
          rbind (rfold load_file_entry [] items) (\<lambda>files.
          case rm_dirs raw of
            None \<Rightarrow> Inl (TypeError ''invalid workspace history directory manifest'')
          | Some dirs \<Rightarrow>
              rbind (rfold (load_directory (List.map me_path files)) [] dirs) (\<lambda>ds.
              rbind (manifest_scope (rm_scope raw)) (\<lambda>sc.
                if (case sc of None \<Rightarrow> False
                    | Some ps \<Rightarrow> \<not> set (List.map me_path files) \<union> set ds \<subseteq> set ps)
                then Inl (ValueError ''workspace history entry falls outside its declared checkpoint scope'')
                else Inr \<lparr>mf_files = files, mf_dirs = ds, mf_scope = sc\<rparr>))))"

section \<open>States and their differences\<close>

definition entry_map :: "manifest \<Rightarrow> (string \<times> manifest_entry) list" where
  "entry_map m = List.map (\<lambda>e. (me_path e, e)) (mf_files m)"

text \<open>A directory overrides a file of the same name, as the later of two dict displays does.\<close>

definition state_map :: "manifest \<Rightarrow> state_map" where
  "state_map m =
     List.map (\<lambda>d. (d, DirSt)) (mf_dirs m) @ List.map (\<lambda>e. (me_path e, FileSt (me_sha e))) (mf_files m)"

definition same_state :: "state_map \<Rightarrow> state_map \<Rightarrow> bool" where
  "same_state a b \<longleftrightarrow> list_all (\<lambda>p. map_of a p = map_of b p) (List.map fst a @ List.map fst b)"

definition differing :: "state_map \<Rightarrow> state_map \<Rightarrow> string list" where
  "differing a b =
     sorted_set (List.filter (\<lambda>p. map_of a p \<noteq> map_of b p) (List.map fst a @ List.map fst b))"

definition changed_paths :: "manifest \<Rightarrow> manifest \<Rightarrow> string list" where
  "changed_paths before after = differing (state_map before) (state_map after)"

definition require_matching_scope :: "manifest \<Rightarrow> manifest \<Rightarrow> string list option res" where
  "require_matching_scope a b =
     (if mf_scope b \<noteq> mf_scope a then Inl (RuntimeError ''workspace checkpoint scopes do not match'')
      else Inr (mf_scope a))"

section \<open>The content store\<close>

type_synonym blobs = "(string \<times> bytes) list"

text \<open>\<open>enforce_data_quota\<close> of \<open>resources.py\<close>; the size of the data directory follows from its blobs.\<close>

definition enforce_data_quota :: "int \<Rightarrow> int \<Rightarrow> int \<Rightarrow> unit res" where
  "enforce_data_quota max_data used incoming =
     (if max_data < used + incoming then Inl (RuntimeError ''data_dir quota exceeded'') else Inr ())"

definition store_blob ::
  "(bytes \<Rightarrow> string) \<Rightarrow> int \<Rightarrow> (blobs \<Rightarrow> int) \<Rightarrow> int \<Rightarrow> string \<Rightarrow> bytes \<Rightarrow> blobs \<Rightarrow> blobs res" where
  "store_blob sha max_data data_size initial_size digest data blobs =
     (case map_of blobs digest of
        Some existing \<Rightarrow>
          if sha existing \<noteq> digest
          then Inl (RuntimeError ''content-addressed checkpoint blob is corrupt'') else Inr blobs
      | None \<Rightarrow>
          if max_data < initial_size + int (length data)
          then Inl (RuntimeError ''workspace history would exceed max_data_dir_bytes'')
          else rbind (enforce_data_quota max_data (data_size blobs) (int (length data))) (\<lambda>_.
                 Inr (AList.update digest data blobs)))"

definition entry_bytes :: "blobs \<Rightarrow> manifest_entry \<Rightarrow> bytes res" where
  "entry_bytes blobs e =
     (case map_of blobs (me_sha e) of
        None \<Rightarrow> Inl (FileNotFound ''checkpoint blob'') | Some d \<Rightarrow> Inr d)"

definition verify_entry :: "(bytes \<Rightarrow> string) \<Rightarrow> blobs \<Rightarrow> manifest_entry \<Rightarrow> unit res" where
  "verify_entry sha blobs e =
     rbind (entry_bytes blobs e) (\<lambda>d.
       if sha d \<noteq> me_sha e \<or> int (length d) \<noteq> me_size e
       then Inl (RuntimeError ''checkpoint integrity verification failed'') else Inr ())"

definition verify_checkpoint_integrity :: "(bytes \<Rightarrow> string) \<Rightarrow> blobs \<Rightarrow> manifest \<Rightarrow> unit res" where
  "verify_checkpoint_integrity sha blobs m = rfold (\<lambda>_. verify_entry sha blobs) () (mf_files m)"

definition checkpoint_state :: "(bytes \<Rightarrow> string) \<Rightarrow> blobs \<Rightarrow> manifest \<Rightarrow> state_map res" where
  "checkpoint_state sha blobs m =
     rbind (verify_checkpoint_integrity sha blobs m) (\<lambda>_. Inr (state_map m))"

section \<open>Target manifests\<close>

definition generated_manifest ::
  "(string \<times> manifest_entry) list \<Rightarrow> string list \<Rightarrow> string list option \<Rightarrow> manifest" where
  "generated_manifest entries dirs sc =
     \<lparr>mf_files = List.map snd (sort_key fst entries), mf_dirs = sorted_set dirs, mf_scope = sc\<rparr>"

definition target_path :: "string list option \<Rightarrow> string \<Rightarrow> string res" where
  "target_path sc p =
     rbind (validated_relative_path p) (\<lambda>q.
       if (case sc of None \<Rightarrow> False | Some ps \<Rightarrow> q \<notin> set ps)
       then Inl (ValueError ''workspace target change falls outside checkpoint scope'') else Inr q)"

record target_draft =
  td_entries :: "(string \<times> manifest_entry) list"
  td_dirs :: "string list"
  td_blobs :: blobs

definition target_delete :: "string list option \<Rightarrow> target_draft \<Rightarrow> string \<Rightarrow> target_draft res" where
  "target_delete sc d p =
     rbind (target_path sc p) (\<lambda>q. Inr (d\<lparr>td_entries := AList.delete q (td_entries d)\<rparr>))"

definition target_drop_directory :: "string list option \<Rightarrow> target_draft \<Rightarrow> string \<Rightarrow> target_draft res" where
  "target_drop_directory sc d p =
     rbind (target_path sc p) (\<lambda>q. Inr (d\<lparr>td_dirs := removeAll q (td_dirs d)\<rparr>))"

definition target_change ::
  "(bytes \<Rightarrow> string) \<Rightarrow> int \<Rightarrow> (blobs \<Rightarrow> int) \<Rightarrow> int \<Rightarrow> string list option \<Rightarrow> target_draft \<Rightarrow> string \<times> bytes \<Rightarrow> target_draft res" where
  "target_change sha max_data data_size initial_size sc d = (\<lambda>(p, data).
     rbind (target_path sc p) (\<lambda>q.
     rbind (store_blob sha max_data data_size initial_size (sha data) data (td_blobs d)) (\<lambda>bs.
       Inr \<lparr>td_entries = AList.update q \<lparr>me_path = q, me_size = int (length data), me_sha = sha data\<rparr>
                          (td_entries d),
            td_dirs = removeAll q (td_dirs d), td_blobs = bs\<rparr>)))"

definition target_add_directory :: "string list option \<Rightarrow> target_draft \<Rightarrow> string \<Rightarrow> target_draft res" where
  "target_add_directory sc d p =
     rbind (target_path sc p) (\<lambda>q.
       if map_of (td_entries d) q \<noteq> None
       then Inl (ValueError ''workspace target path cannot be both file and directory'')
       else Inr (d\<lparr>td_dirs := List.insert q (td_dirs d)\<rparr>))"

definition build_workspace_target ::
  "(bytes \<Rightarrow> string) \<Rightarrow> int \<Rightarrow> (blobs \<Rightarrow> int) \<Rightarrow> blobs \<Rightarrow> manifest \<Rightarrow> (string \<times> bytes) list \<Rightarrow> string list \<Rightarrow>
   string list \<Rightarrow> string list \<Rightarrow> (manifest \<times> blobs) res" where
  "build_workspace_target sha max_data data_size blobs expected changes deletions dir_adds dir_dels =
     (let sc = mf_scope expected in
      rbind (rfold (target_delete sc)
               \<lparr>td_entries = entry_map expected, td_dirs = mf_dirs expected, td_blobs = blobs\<rparr> deletions) (\<lambda>d1.
      rbind (rfold (target_drop_directory sc) d1 dir_dels) (\<lambda>d2.
      rbind (rfold (target_change sha max_data data_size (data_size blobs) sc) d2 changes) (\<lambda>d3.
      rbind (rfold (target_add_directory sc) d3 dir_adds) (\<lambda>d4.
        Inr (generated_manifest (td_entries d4) (td_dirs d4) sc, td_blobs d4))))))"

section \<open>Preview of a restore\<close>

record restore_summary =
  rs_changed :: "string list"
  rs_created :: "string list"
  rs_restored :: "string list"
  rs_deleted :: "string list"
  rs_created_dirs :: "string list"
  rs_deleted_dirs :: "string list"

definition minus_list :: "string list \<Rightarrow> string list \<Rightarrow> string list" where
  "minus_list xs ys = sorted_set (List.filter (\<lambda>x. x \<notin> set ys) xs)"

definition restore_summary_of :: "manifest \<Rightarrow> manifest \<Rightarrow> restore_summary res" where
  "restore_summary_of expected target =
     rbind (require_matching_scope expected target) (\<lambda>_.
       let ep = List.map fst (entry_map expected); tp = List.map fst (entry_map target);
           changed = List.filter (\<lambda>p. p \<in> set ep \<or> p \<in> set tp) (changed_paths expected target);
           created = minus_list tp ep; deleted = minus_list ep tp
       in Inr \<lparr>rs_changed = changed, rs_created = created,
               rs_restored = minus_list (minus_list changed created) deleted, rs_deleted = deleted,
               rs_created_dirs = minus_list (mf_dirs target) (mf_dirs expected),
               rs_deleted_dirs = minus_list (mf_dirs expected) (mf_dirs target)\<rparr>)"

section \<open>Selective undo\<close>

text \<open>\<open>str.splitlines(keepends=True)\<close>.\<close>

definition line_boundary :: "nat \<Rightarrow> bool" where
  "line_boundary c \<longleftrightarrow> c \<in> set [10, 11, 12, 13, 28, 29, 30, 0x85, 0x2028, 0x2029]"

fun split_lines :: "utext \<Rightarrow> utext \<Rightarrow> utext list" where
  "split_lines acc [] = (if acc = [] then [] else [acc])"
| "split_lines acc (c # cs) =
     (if c = 13 \<and> cs \<noteq> [] \<and> hd cs = 10 then (acc @ [13, 10]) # split_lines [] (tl cs)
      else if line_boundary c then (acc @ [c]) # split_lines [] cs
      else split_lines (acc @ [c]) cs)"

text \<open>
  \<open>grouped\<close> stands for \<open>SequenceMatcher.get_grouped_opcodes(3)\<close>: groups of spans
  \<open>(i1, i2, j1, j2)\<close> of the old and the new lines.
\<close>

type_synonym opcode = "nat \<times> nat \<times> nat \<times> nat"

type_synonym matcher = "utext list \<Rightarrow> utext list \<Rightarrow> opcode list list"

definition group_span :: "opcode list \<Rightarrow> opcode" where
  "group_span g =
     (Min (set (List.map (\<lambda>(i1, i2, j1, j2). i1) g)), Max (set (List.map (\<lambda>(i1, i2, j1, j2). i2) g)),
      Min (set (List.map (\<lambda>(i1, i2, j1, j2). j1) g)), Max (set (List.map (\<lambda>(i1, i2, j1, j2). j2) g)))"

definition line_span :: "nat \<Rightarrow> nat \<Rightarrow> 'a list \<Rightarrow> 'a list" where
  "line_span i j xs = take (j - i) (drop i xs)"

definition chunk_matches :: "utext list \<Rightarrow> utext list \<Rightarrow> nat list" where
  "chunk_matches current chunk =
     (if length chunk \<le> length current
      then List.filter (\<lambda>i. line_span i (i + length chunk) current = chunk)
             [0..<length current - length chunk + 1]
      else [])"

definition locate_group ::
  "utext list \<Rightarrow> utext list \<Rightarrow> utext list \<Rightarrow> opcode list \<Rightarrow> (nat \<times> nat \<times> utext list) option" where
  "locate_group before after current g =
     (case group_span g of (i1, i2, j1, j2) \<Rightarrow>
        (case chunk_matches current (line_span j1 j2 after) of
           [start] \<Rightarrow> Some (start, start + length (line_span j1 j2 after), line_span i1 i2 before)
         | _ \<Rightarrow> None))"

fun locate_groups ::
  "utext list \<Rightarrow> utext list \<Rightarrow> utext list \<Rightarrow> opcode list list \<Rightarrow> (nat \<times> nat \<times> utext list) list option" where
  "locate_groups before after current [] = Some []"
| "locate_groups before after current (g # gs) =
     (case locate_group before after current g of
        None \<Rightarrow> None
      | Some r \<Rightarrow> map_option ((#) r) (locate_groups before after current gs))"

definition replace_span :: "utext list \<Rightarrow> nat \<times> nat \<times> utext list \<Rightarrow> utext list" where
  "replace_span ls r = (case r of (a, b, chunk) \<Rightarrow> take a ls @ chunk @ drop (max a b) ls)"

definition reverse_text_change :: "matcher \<Rightarrow> utext \<Rightarrow> utext \<Rightarrow> utext \<Rightarrow> utext option" where
  "reverse_text_change grouped before after current =
     (let bl = split_lines [] before; al = split_lines [] after; cl = split_lines [] current in
      map_option (\<lambda>rs. concat (foldl replace_span cl (rev (sort rs)))) (locate_groups bl al cl (grouped bl al)))"

record undo_draft =
  un_files :: "(string \<times> manifest_entry) list"
  un_dirs :: "string list"
  un_conflicts :: "(string \<times> string) list"     \<comment> \<open>path and reason\<close>
  un_merged :: "string list"
  un_blobs :: blobs

definition undo_conflict :: "string \<Rightarrow> string \<Rightarrow> undo_draft \<Rightarrow> undo_draft" where
  "undo_conflict p reason u = u\<lparr>un_conflicts := un_conflicts u @ [(p, reason)]\<rparr>"

definition undo_merge ::
  "(bytes \<Rightarrow> string) \<Rightarrow> int \<Rightarrow> (blobs \<Rightarrow> int) \<Rightarrow> matcher \<Rightarrow> string \<Rightarrow> manifest_entry \<Rightarrow> manifest_entry \<Rightarrow>
   manifest_entry \<Rightarrow> undo_draft \<Rightarrow> undo_draft res" where
  "undo_merge sha max_data data_size grouped p old_entry op_entry cur_entry u =
     (let binary = Inr (undo_conflict p ''binary content changed after the target operation'' u) in
      rbind (entry_bytes (un_blobs u) old_entry) (\<lambda>ob.
      case utf8_decode ob of None \<Rightarrow> binary | Some old \<Rightarrow>
      rbind (entry_bytes (un_blobs u) op_entry) (\<lambda>pb.
      case utf8_decode pb of None \<Rightarrow> binary | Some operation \<Rightarrow>
      rbind (entry_bytes (un_blobs u) cur_entry) (\<lambda>cb.
      case utf8_decode cb of None \<Rightarrow> binary | Some current \<Rightarrow>
      case reverse_text_change grouped old operation current of
        None \<Rightarrow> Inr (undo_conflict p ''overlapping or ambiguous text changes'' u)
      | Some merged \<Rightarrow>
          (case utf8_encode merged of
             None \<Rightarrow> Inl (ValueError ''surrogates not allowed'')
           | Some data \<Rightarrow>
               rbind (store_blob sha max_data data_size (data_size (un_blobs u)) (sha data) data (un_blobs u)) (\<lambda>bs.
                 Inr (u\<lparr>un_files := AList.update p
                           \<lparr>me_path = p, me_size = int (length data), me_sha = sha data\<rparr> (un_files u),
                        un_merged := un_merged u @ [p], un_blobs := bs\<rparr>)))))))"

definition selective_step ::
  "(bytes \<Rightarrow> string) \<Rightarrow> int \<Rightarrow> (blobs \<Rightarrow> int) \<Rightarrow> matcher \<Rightarrow> manifest \<Rightarrow> manifest \<Rightarrow> manifest \<Rightarrow> undo_draft \<Rightarrow> string \<Rightarrow>
   undo_draft res" where
  "selective_step sha max_data data_size grouped before after current u p =
     (let old = map_of (state_map before) p; operation = map_of (state_map after) p;
          cur = map_of (state_map current) p;
          old_entry = map_of (entry_map before) p; op_entry = map_of (entry_map after) p;
          cur_entry = map_of (entry_map current) p
      in if cur = old then Inr u
         else if cur = operation
         then
           let u1 = u\<lparr>un_files := AList.delete p (un_files u), un_dirs := removeAll p (un_dirs u)\<rparr>
           in Inr (case old_entry of
                None \<Rightarrow> if p \<in> set (mf_dirs before) then u1\<lparr>un_dirs := List.insert p (un_dirs u1)\<rparr> else u1
              | Some e \<Rightarrow> u1\<lparr>un_files := AList.update p e (un_files u1)\<rparr>)
         else if p \<in> set (mf_dirs before) \<or> p \<in> set (mf_dirs after) \<or> p \<in> set (mf_dirs current)
         then Inr (undo_conflict p ''file lifecycle changed after the target operation'' u)
         else case (old_entry, op_entry, cur_entry) of
           (Some oe, Some pe, Some ce) \<Rightarrow> undo_merge sha max_data data_size grouped p oe pe ce u
         | _ \<Rightarrow> Inr (undo_conflict p ''file lifecycle changed after the target operation'' u))"

definition selective_target ::
  "(bytes \<Rightarrow> string) \<Rightarrow> int \<Rightarrow> (blobs \<Rightarrow> int) \<Rightarrow> matcher \<Rightarrow> blobs \<Rightarrow> manifest \<Rightarrow> manifest \<Rightarrow> manifest \<Rightarrow> undo_draft res" where
  "selective_target sha max_data data_size grouped blobs before after current =
     rfold (selective_step sha max_data data_size grouped before after current)
       \<lparr>un_files = entry_map current, un_dirs = mf_dirs current, un_conflicts = [], un_merged = [],
        un_blobs = blobs\<rparr>
       (changed_paths before after)"

section \<open>Loaded manifests are well-formed\<close>

definition well_formed_manifest :: "manifest \<Rightarrow> bool" where
  "well_formed_manifest m \<longleftrightarrow>
     distinct (List.map me_path (mf_files m) @ mf_dirs m)
     \<and> (\<forall>p\<in>set (List.map me_path (mf_files m) @ mf_dirs m).
          clean_relative p \<and> validate_windows_syntax p = Inr ()
          \<and> (case mf_scope m of None \<Rightarrow> True | Some ps \<Rightarrow> p \<in> set ps))
     \<and> (\<forall>e\<in>set (mf_files m). hex_digest (me_sha e) \<and> 0 \<le> me_size e)
     \<and> (case mf_scope m of None \<Rightarrow> True | Some ps \<Rightarrow> distinct ps \<and> sorted ps \<and> ps \<noteq> [])"

lemma load_files_ok:
  assumes "rfold load_file_entry [] items = Inr files"
  shows "distinct (List.map me_path files) \<and> (\<forall>e\<in>set files. clean_relative (me_path e)
     \<and> validate_windows_syntax (me_path e) = Inr () \<and> hex_digest (me_sha e) \<and> 0 \<le> me_size e)"
proof (rule rfold_invariant [OF _ _ assms])
  fix acc item acc'
  assume "distinct (List.map me_path acc) \<and> (\<forall>e\<in>set acc. clean_relative (me_path e)
     \<and> validate_windows_syntax (me_path e) = Inr () \<and> hex_digest (me_sha e) \<and> 0 \<le> me_size e)"
    and "load_file_entry acc item = Inr acc'"
  then show "distinct (List.map me_path acc') \<and> (\<forall>e\<in>set acc'. clean_relative (me_path e)
     \<and> validate_windows_syntax (me_path e) = Inr () \<and> hex_digest (me_sha e) \<and> 0 \<le> me_size e)"
    by (auto simp: load_file_entry_def rbind_eq_Inr split: option.splits if_splits)
qed simp

lemma load_directories_ok:
  assumes "rfold (load_directory files) [] items = Inr ds"
  shows "distinct ds \<and> set ds \<inter> set files = {}
     \<and> (\<forall>p\<in>set ds. clean_relative p \<and> validate_windows_syntax p = Inr ())"
proof (rule rfold_invariant [OF _ _ assms])
  fix acc item acc'
  assume "distinct acc \<and> set acc \<inter> set files = {}
     \<and> (\<forall>p\<in>set acc. clean_relative p \<and> validate_windows_syntax p = Inr ())"
    and "load_directory files acc item = Inr acc'"
  then show "distinct acc' \<and> set acc' \<inter> set files = {}
     \<and> (\<forall>p\<in>set acc'. clean_relative p \<and> validate_windows_syntax p = Inr ())"
    by (auto simp: load_directory_def rbind_eq_Inr split: option.splits if_splits)
qed simp

lemma set_sorted_set [simp]: "set (sorted_set xs) = set xs"
  by (simp add: sorted_set_def)

lemma sorted_sorted_set [simp]: "sorted (sorted_set xs)" "distinct (sorted_set xs)"
  by (simp_all add: sorted_set_def)

lemma sorted_set_eq_Nil [simp]: "sorted_set xs = [] \<longleftrightarrow> xs = []"
  by (metis set_empty set_sorted_set)

lemma manifest_scope_ok:
  "manifest_scope raw = Inr (Some ps) \<Longrightarrow> distinct ps \<and> sorted ps \<and> ps \<noteq> []"
  by (cases raw) (auto simp: manifest_scope_def rbind_eq_Inr split: option.splits list.splits if_splits)

text \<open>
  C26. A manifest that loads names only clean relative paths, each once and within its scope, with
  well-formed digests and sizes.
\<close>

theorem load_manifest_well_formed:
  assumes "load_manifest raw = Inr m"
  shows "well_formed_manifest m"
proof -
  obtain items dirs where raw: "rm_files raw = Some items" "rm_dirs raw = Some dirs"
    using assms by (auto simp: load_manifest_def rbind_eq_Inr split: if_splits option.splits)
  obtain files ds sc where f: "rfold load_file_entry [] items = Inr files"
    and d: "rfold (load_directory (List.map me_path files)) [] dirs = Inr ds"
    and s: "manifest_scope (rm_scope raw) = Inr sc"
    and sub: "case sc of None \<Rightarrow> True | Some ps \<Rightarrow> set (List.map me_path files) \<union> set ds \<subseteq> set ps"
    and m: "m = \<lparr>mf_files = files, mf_dirs = ds, mf_scope = sc\<rparr>"
    using assms raw unfolding load_manifest_def
    by (auto simp: rbind_eq_Inr split: if_splits option.splits)
  show ?thesis
    using load_files_ok [OF f] load_directories_ok [OF d] sub s manifest_scope_ok
    unfolding m well_formed_manifest_def by (auto split: option.splits)
qed

definition demo_raw_manifest :: raw_manifest where
  "demo_raw_manifest =
     \<lparr>rm_complete = True,
      rm_files = Some [Some \<lparr>me_path = ''a/b.txt'', me_size = 3, me_sha = replicate 64 (CHR ''a'')\<rparr>],
      rm_dirs = Some [Some ''a''], rm_scope = RawPaths (Some [''a'', ''a/b.txt''])\<rparr>"

lemma load_manifest_well_formed_witness:
  "\<exists>m. load_manifest demo_raw_manifest = Inr m \<and> well_formed_manifest m"
proof -
  have "\<not> isl (load_manifest demo_raw_manifest)" by code_simp
  then obtain m where m: "load_manifest demo_raw_manifest = Inr m"
    by (cases "load_manifest demo_raw_manifest") auto
  then show ?thesis using load_manifest_well_formed [OF m] by blast
qed

section \<open>Built targets\<close>

lemma target_path_Inr:
  "target_path sc p = Inr q \<Longrightarrow> q = windows_as_posix p \<and> (case sc of None \<Rightarrow> True | Some ps \<Rightarrow> q \<in> set ps)"
  by (auto simp: target_path_def validated_relative_path_def rbind_eq_Inr split: if_splits option.splits)

lemma store_blob_Inr:
  "store_blob sha mx z n digest data bs = Inr bs' \<Longrightarrow>
     (\<forall>k d. map_of bs k = Some d \<longrightarrow> map_of bs' k = Some d)
     \<and> (sha data = digest \<longrightarrow> (\<exists>d. map_of bs' digest = Some d \<and> sha d = digest))"
  by (auto simp: store_blob_def update_conv' rbind_eq_Inr split: option.splits if_splits)

text \<open>What a draft holds, and the three kinds of edits on it, over their lists.\<close>

lemma fold_delete:
  "rfold (target_delete sc) d ps = Inr d' \<Longrightarrow>
     map_of (td_entries d') q = (if q \<in> windows_as_posix ` set ps then None else map_of (td_entries d) q)
     \<and> td_dirs d' = td_dirs d \<and> td_blobs d' = td_blobs d
     \<and> (\<forall>p\<in>set ps. case sc of None \<Rightarrow> True | Some ss \<Rightarrow> windows_as_posix p \<in> set ss)"
proof (induction ps arbitrary: d)
  case Nil
  then show ?case by simp
next
  case (Cons p ps)
  obtain d1 where d1: "target_delete sc d p = Inr d1" and rest1: "rfold (target_delete sc) d1 ps = Inr d'"
    using Cons.prems by (auto simp: rbind_eq_Inr)
  obtain r where r: "target_path sc p = Inr r" and e: "d1 = d\<lparr>td_entries := AList.delete r (td_entries d)\<rparr>"
    using d1 by (auto simp: target_delete_def rbind_eq_Inr)
  note rest = rest1 [unfolded e]
  show ?case using Cons.IH [OF rest] target_path_Inr [OF r] by (auto simp: delete_conv')
qed

lemma fold_drop_directory:
  "rfold (target_drop_directory sc) d ps = Inr d' \<Longrightarrow>
     set (td_dirs d') = set (td_dirs d) - windows_as_posix ` set ps
     \<and> td_entries d' = td_entries d \<and> td_blobs d' = td_blobs d"
proof (induction ps arbitrary: d)
  case Nil
  then show ?case by simp
next
  case (Cons p ps)
  obtain d1 where d1: "target_drop_directory sc d p = Inr d1"
    and rest1: "rfold (target_drop_directory sc) d1 ps = Inr d'"
    using Cons.prems by (auto simp: rbind_eq_Inr)
  obtain r where r: "target_path sc p = Inr r" and e: "d1 = d\<lparr>td_dirs := removeAll r (td_dirs d)\<rparr>"
    using d1 by (auto simp: target_drop_directory_def rbind_eq_Inr)
  note rest = rest1 [unfolded e]
  show ?case using Cons.IH [OF rest] target_path_Inr [OF r] by auto
qed

definition written :: "(string \<times> bytes) list \<Rightarrow> string \<Rightarrow> bytes option" where
  "written cs q = map_of (rev (List.map (\<lambda>(p, d). (windows_as_posix p, d)) cs)) q"

lemma written_Nil [simp]: "written [] q = None"
  by (simp add: written_def)

lemma written_Cons: "written ((p, d) # cs) q =
    (case written cs q of Some x \<Rightarrow> Some x | None \<Rightarrow> if windows_as_posix p = q then Some d else None)"
  by (simp add: written_def map_add_def split: option.splits)

lemma fold_change:
  "rfold (target_change sha mx z n sc) d cs = Inr d' \<Longrightarrow>
     map_option me_sha (map_of (td_entries d') q)
       = (case written cs q of Some x \<Rightarrow> Some (sha x) | None \<Rightarrow> map_option me_sha (map_of (td_entries d) q))
     \<and> (q \<in> set (td_dirs d') \<longleftrightarrow> q \<in> set (td_dirs d) \<and> written cs q = None)
     \<and> (\<forall>x. written cs q = Some x \<longrightarrow> (\<exists>y. map_of (td_blobs d') (sha x) = Some y \<and> sha y = sha x))
     \<and> (\<forall>k y. map_of (td_blobs d) k = Some y \<longrightarrow> map_of (td_blobs d') k = Some y)
     \<and> (written cs q \<noteq> None \<longrightarrow> (case sc of None \<Rightarrow> True | Some ss \<Rightarrow> q \<in> set ss))"
proof (induction cs arbitrary: d)
  case Nil
  then show ?case by simp
next
  case (Cons c cs)
  obtain p x where c: "c = (p, x)" by (cases c)
  obtain d1 where d1: "target_change sha mx z n sc d (p, x) = Inr d1"
    and rest1: "rfold (target_change sha mx z n sc) d1 cs = Inr d'"
    using Cons.prems c by (auto simp: rbind_eq_Inr)
  obtain r bs where r: "target_path sc p = Inr r"
    and bs: "store_blob sha mx z n (sha x) x (td_blobs d) = Inr bs"
    and e: "d1 = \<lparr>td_entries = AList.update r \<lparr>me_path = r, me_size = int (length x), me_sha = sha x\<rparr> (td_entries d),
         td_dirs = removeAll r (td_dirs d), td_blobs = bs\<rparr>"
    using d1 by (auto simp: target_change_def rbind_eq_Inr)
  note rest = rest1 [unfolded e]
  note s = store_blob_Inr [OF bs]
  note t = target_path_Inr [OF r]
  show ?case
    using Cons.IH [OF rest] s t unfolding c written_Cons
    by (cases "written cs q") (auto simp: update_conv' split: option.splits)
qed

lemma fold_add_directory:
  "rfold (target_add_directory sc) d ps = Inr d' \<Longrightarrow>
     set (td_dirs d') = set (td_dirs d) \<union> windows_as_posix ` set ps
     \<and> td_entries d' = td_entries d \<and> td_blobs d' = td_blobs d
     \<and> (\<forall>p\<in>set ps. map_of (td_entries d) (windows_as_posix p) = None)"
proof (induction ps arbitrary: d)
  case Nil
  then show ?case by simp
next
  case (Cons p ps)
  obtain d1 where d1: "target_add_directory sc d p = Inr d1"
    and rest1: "rfold (target_add_directory sc) d1 ps = Inr d'"
    using Cons.prems by (auto simp: rbind_eq_Inr)
  obtain r where r: "target_path sc p = Inr r" and n: "map_of (td_entries d) r = None"
    and e: "d1 = d\<lparr>td_dirs := List.insert r (td_dirs d)\<rparr>"
    using d1 by (auto simp: target_add_directory_def rbind_eq_Inr split: if_splits)
  note rest = rest1 [unfolded e]
  show ?case using Cons.IH [OF rest] target_path_Inr [OF r] n by auto
qed

lemma map_of_values_perm:
  assumes "distinct (List.map fst xs)" "\<And>k e. (k, e) \<in> set xs \<Longrightarrow> me_path e = k"
  shows "map_of (List.map (\<lambda>e. (me_path e, e)) (List.map snd (sort_key fst xs))) q = map_of xs q"
proof -
  have "List.map (\<lambda>e. (me_path e, e)) (List.map snd (sort_key fst xs)) = sort_key fst xs"
    unfolding map_map by (rule map_idI) (use assms(2) in auto)
  moreover have "map_of (sort_key fst xs) q = map_of xs q"
  proof -
    have "distinct (List.map fst (sort_key fst xs))"
      using assms(1) by (simp add: distinct_map inj_on_def)
    then show ?thesis using assms(1)
      by (metis map_of_inject_set set_sort)
  qed
  ultimately show ?thesis by simp
qed

definition keyed :: "(string \<times> manifest_entry) list \<Rightarrow> bool" where
  "keyed es \<longleftrightarrow> distinct (List.map fst es) \<and> (\<forall>k e. map_of es k = Some e \<longrightarrow> me_path e = k)"

lemma keyed_delete: "keyed es \<Longrightarrow> keyed (AList.delete k es)"
  by (auto simp: keyed_def delete_conv' distinct_delete)

lemma keyed_update: "keyed es \<Longrightarrow> me_path e = k \<Longrightarrow> keyed (AList.update k e es)"
  by (auto simp: keyed_def update_conv' distinct_update)

lemma keyed_entry_map: "distinct (List.map me_path (mf_files m)) \<Longrightarrow> keyed (entry_map m)"
  by (auto simp: keyed_def entry_map_def comp_def dest: map_of_SomeD)

lemma generated_entry_map:
  assumes "keyed es"
  shows "map_of (entry_map (generated_manifest es ds sc)) q = map_of es q"
proof -
  have "me_path e = k" if "(k, e) \<in> set es" for k e
    using assms that unfolding keyed_def by (metis map_of_is_SomeI)
  then show ?thesis
    using map_of_values_perm [of es q] assms by (simp add: entry_map_def generated_manifest_def keyed_def)
qed

lemma keyed_fold:
  "keyed (td_entries d) \<Longrightarrow> rfold (target_delete sc) d ps = Inr d1 \<Longrightarrow> keyed (td_entries d1)"
  "keyed (td_entries d) \<Longrightarrow> rfold (target_change sha mx z n sc) d cs = Inr d1 \<Longrightarrow> keyed (td_entries d1)"
proof -
  show "keyed (td_entries d) \<Longrightarrow> rfold (target_delete sc) d ps = Inr d1 \<Longrightarrow> keyed (td_entries d1)"
    by (rule rfold_invariant [where P = "\<lambda>d. keyed (td_entries d)"])
      (auto simp: target_delete_def rbind_eq_Inr intro: keyed_delete)
  show "keyed (td_entries d) \<Longrightarrow> rfold (target_change sha mx z n sc) d cs = Inr d1 \<Longrightarrow> keyed (td_entries d1)"
    by (rule rfold_invariant [where P = "\<lambda>d. keyed (td_entries d)"])
      (auto simp: target_change_def rbind_eq_Inr intro!: keyed_update)
qed

text \<open>
  C38. The target built for a plan is the expected state with exactly the plan's edits: a changed
  path has the digest of its new content, which the store holds, a deleted one is gone, every other
  file is as before, and the directories are those kept or added.
\<close>

theorem build_workspace_target_exact:
  assumes "build_workspace_target sha mx n blobs expected changes deletions dir_adds dir_dels = Inr (m, bs)"
    and "distinct (List.map me_path (mf_files expected))"
  shows "map_option me_sha (map_of (entry_map m) q) =
      (case written changes q of
         Some x \<Rightarrow> Some (sha x)
       | None \<Rightarrow> if q \<in> windows_as_posix ` set deletions then None
                 else map_option me_sha (map_of (entry_map expected) q))
    \<and> (q \<in> set (mf_dirs m) \<longleftrightarrow> q \<in> windows_as_posix ` set dir_adds
        \<or> q \<in> set (mf_dirs expected) \<and> q \<notin> windows_as_posix ` set dir_dels \<and> written changes q = None)
    \<and> (\<forall>x. written changes q = Some x \<longrightarrow>
        (\<exists>y. map_of bs (sha x) = Some y \<and> sha y = sha x)
        \<and> (case mf_scope expected of None \<Rightarrow> True | Some ss \<Rightarrow> q \<in> set ss))
    \<and> mf_scope m = mf_scope expected"
proof -
  let ?sc = "mf_scope expected"
  let ?d0 = "\<lparr>td_entries = entry_map expected, td_dirs = mf_dirs expected, td_blobs = blobs\<rparr>"
  obtain d1 d2 d3 d4 where d1: "rfold (target_delete ?sc) ?d0 deletions = Inr d1"
    and d2: "rfold (target_drop_directory ?sc) d1 dir_dels = Inr d2"
    and d3: "rfold (target_change sha mx n (n blobs) ?sc) d2 changes = Inr d3"
    and d4: "rfold (target_add_directory ?sc) d3 dir_adds = Inr d4"
    and m: "m = generated_manifest (td_entries d4) (td_dirs d4) ?sc" "bs = td_blobs d4"
    using assms(1) unfolding build_workspace_target_def Let_def by (auto simp: rbind_eq_Inr)
  note f = fold_delete [OF d1, of q] fold_drop_directory [OF d2] fold_change [OF d3, of q]
    fold_add_directory [OF d4]
  have "keyed (td_entries d1)"
    by (rule keyed_fold(1) [OF _ d1]) (simp add: keyed_entry_map [OF assms(2)])
  then have "keyed (td_entries d2)" using f(2) by simp
  then have "keyed (td_entries d3)" using keyed_fold(2) [OF _ d3] by blast
  then have "keyed (td_entries d4)" using f(4) by simp
  then have "map_of (entry_map m) q = map_of (td_entries d4) q"
    unfolding m(1) by (rule generated_entry_map)
  moreover have "set (mf_dirs m) = set (td_dirs d4)" "mf_scope m = ?sc"
    unfolding m(1) generated_manifest_def by simp_all
  ultimately show ?thesis using f unfolding m(2) by (auto split: option.splits)
qed

definition demo_checkpoint :: manifest where
  "demo_checkpoint =
     \<lparr>mf_files = [\<lparr>me_path = ''a'', me_size = 1, me_sha = ''1''\<rparr>, \<lparr>me_path = ''b'', me_size = 2, me_sha = ''2''\<rparr>],
      mf_dirs = [], mf_scope = Some [''a'', ''b'', ''c'']\<rparr>"

definition length_sha :: "bytes \<Rightarrow> string" where
  "length_sha b = replicate (length b) (CHR ''x'')"

lemma build_workspace_target_exact_witness:
  "\<exists>m bs. build_workspace_target length_sha 100 (\<lambda>_. 0) [] demo_checkpoint [(''c'', [7, 7])] [''a''] [] [] = Inr (m, bs)
     \<and> map_option me_sha (map_of (entry_map m) ''c'') = Some ''xx''"
proof -
  let ?b = "build_workspace_target length_sha 100 (\<lambda>_. 0) [] demo_checkpoint [(''c'', [7, 7])] [''a''] [] []"
  have "\<not> isl ?b" by code_simp
  then obtain m bs where b: "?b = Inr (m, bs)" by (cases ?b) auto
  have d: "distinct (List.map me_path (mf_files demo_checkpoint))" by (simp add: demo_checkpoint_def)
  have w: "written [(''c'', [7, 7 :: 8 word])] ''c'' = Some [7, 7]" by code_simp
  show ?thesis using build_workspace_target_exact [OF b d, of "''c''"] b w
    by (simp add: length_sha_def numeral_2_eq_2)
qed

section \<open>Undoing a text change\<close>

lemma concat_split_lines: "concat (split_lines acc s) = acc @ s"
proof (induction acc s rule: split_lines.induct)
  case (1 acc)
  then show ?case by simp
next
  case (2 acc c cs)
  show ?case
  proof (cases "c = 13 \<and> cs \<noteq> [] \<and> hd cs = 10")
    case True
    then have "cs = 10 # tl cs" by (cases cs) auto
    then show ?thesis using 2(1) [OF True] True by simp
  next
    case False
    show ?thesis
    proof (cases "line_boundary c")
      case True
      then show ?thesis using 2(2) [OF False True] False by auto
    next
      case b: False
      then show ?thesis using 2(3) [OF False b] False by auto
    qed
  qed
qed

text \<open>
  The documented shape of grouped opcodes: the groups lie in order and apart, and the lines between
  them (and before the first and after the last) are the same on both sides.
\<close>

fun faithful_groups ::
  "bool \<Rightarrow> nat \<Rightarrow> nat \<Rightarrow> utext list \<Rightarrow> utext list \<Rightarrow> opcode list list \<Rightarrow> bool" where
  "faithful_groups first i j bl al [] \<longleftrightarrow> drop i bl = drop j al"
| "faithful_groups first i j bl al (g # gs) \<longleftrightarrow>
     (case group_span g of (i1, i2, j1, j2) \<Rightarrow>
        i \<le> i1 \<and> i1 \<le> i2 \<and> i2 \<le> length bl \<and> j \<le> j1 \<and> (first \<or> j < j1) \<and> j1 \<le> j2 \<and> j2 \<le> length al
        \<and> line_span i i1 bl = line_span j j1 al \<and> faithful_groups False i2 j2 bl al gs)"

lemma line_span_drop: "i \<le> k \<Longrightarrow> line_span i k xs @ drop k xs = drop i xs"
  by (simp add: line_span_def) (metis append_take_drop_id drop_drop le_add_diff_inverse2)

lemma take_line_span: "i \<le> k \<Longrightarrow> take i xs @ line_span i k xs = take k xs"
  by (simp add: line_span_def) (metis le_add_diff_inverse take_add)

lemma chunk_matches_own:
  assumes "j1 \<le> j2" "j2 \<le> length al" "chunk_matches al (line_span j1 j2 al) = [k]"
  shows "k = j1"
proof -
  have l: "length (line_span j1 j2 al) = j2 - j1" using assms(1,2) by (simp add: line_span_def)
  have "j1 + (j2 - j1) = j2" "j2 - j1 \<le> length al" "j1 < length al - (j2 - j1) + 1"
    using assms(1,2) by linarith+
  then have "j1 \<in> set (chunk_matches al (line_span j1 j2 al))"
    by (simp add: chunk_matches_def l del: upt_Suc)
  then show ?thesis using assms(3) by simp
qed

lemma locate_own:
  assumes "faithful_groups first i j bl al gs" "locate_groups bl al al gs = Some rs"
    "\<not> first \<or> j = 0"
  shows "foldr (\<lambda>r ls. replace_span ls r) rs al = take j al @ drop i bl
    \<and> sorted (List.map fst rs) \<and> distinct (List.map fst rs)
    \<and> (\<forall>r\<in>set rs. (if first then j \<le> fst r else j < fst r))"
  using assms
proof (induction gs arbitrary: first i j rs)
  case Nil
  then show ?case using append_take_drop_id [of j al] by auto
next
  case (Cons g gs)
  obtain i1 i2 j1 j2 where g: "group_span g = (i1, i2, j1, j2)" by (cases "group_span g")
  have b: "i \<le> i1" "i1 \<le> i2" "i2 \<le> length bl" "j \<le> j1" "first \<or> j < j1" "j1 \<le> j2" "j2 \<le> length al"
      "line_span i i1 bl = line_span j j1 al" "faithful_groups False i2 j2 bl al gs"
    using Cons.prems(1) g by auto
  have l: "length (line_span j1 j2 al) = j2 - j1" using b by (simp add: line_span_def)
  obtain k rs1 where k: "chunk_matches al (line_span j1 j2 al) = [k]"
    and rs: "rs = (k, k + length (line_span j1 j2 al), line_span i1 i2 bl) # rs1"
    and rs1: "locate_groups bl al al gs = Some rs1"
    using Cons.prems(2) g by (auto simp: locate_group_def split: option.splits list.splits)
  have kj: "k = j1" using chunk_matches_own [OF b(6,7) k] .
  have rse: "rs = (j1, j2, line_span i1 i2 bl) # rs1" using rs kj l b(6) by simp
  note ih = Cons.IH [OF b(9) rs1, simplified]
  have cut: "take j1 (take j2 al @ drop i2 bl) = take j1 al" "drop j2 (take j2 al @ drop i2 bl) = drop i2 bl"
    "max j1 j2 = j2"
    using b(6,7) by (simp_all add: min_def)
  have "replace_span (take j2 al @ drop i2 bl) (j1, j2, line_span i1 i2 bl)
      = take j1 al @ line_span i1 i2 bl @ drop i2 bl"
    by (simp only: replace_span_def prod.case cut)
  also have "\<dots> = take j1 al @ drop i1 bl" using line_span_drop [OF b(2)] by simp
  also have "\<dots> = take j al @ line_span i i1 bl @ drop i1 bl" using take_line_span [OF b(4), of al] b(8) by simp
  also have "\<dots> = take j al @ drop i bl" using line_span_drop [OF b(1)] by simp
  finally have f: "foldr (\<lambda>r ls. replace_span ls r) rs al = take j al @ drop i bl" using ih rse by simp
  have "\<forall>r\<in>set rs1. j1 < fst r" using ih b(6) by auto
  then show ?case using f ih rse b(4,5) by auto
qed

text \<open>
  Undoing a text change right after it gives the text before it: the reversal either reports
  an ambiguity or reproduces the old content byte for byte.
\<close>

theorem reverse_text_change_inverts:
  assumes "faithful_groups True 0 0 (split_lines [] before) (split_lines [] after)
      (grouped (split_lines [] before) (split_lines [] after))"
    and "reverse_text_change grouped before after after = Some text'"
  shows "text' = before"
proof -
  let ?bl = "split_lines [] before" and ?al = "split_lines [] after"
  obtain rs where rs: "locate_groups ?bl ?al ?al (grouped ?bl ?al) = Some rs"
    and t: "text' = concat (foldl replace_span ?al (rev (sort rs)))"
    using assms(2) by (auto simp: reverse_text_change_def Let_def)
  note l = locate_own [OF assms(1) rs]
  have "sorted rs"
  proof -
    have "sorted_wrt (<) (List.map fst rs)" using l by (simp add: strict_sorted_iff)
    then have "sorted_wrt (\<lambda>a b. fst a < fst b) rs" by (simp add: sorted_wrt_map)
    then show ?thesis
      by (rule sorted_wrt_mono_rel [rotated]) (auto simp: less_eq_prod_def)
  qed
  then have "sort rs = rs" by (rule sorted_sort_id)
  then have "foldl replace_span ?al (rev (sort rs)) = ?bl" using l by (simp add: foldl_conv_foldr)
  then show ?thesis using t concat_split_lines [of "[]"] by simp
qed

definition demo_grouped :: matcher where
  "demo_grouped bl al = (if bl = al then [] else [[(0, length bl, 0, length al)]])"

lemma reverse_text_change_inverts_witness:
  "reverse_text_change demo_grouped [97, 10, 98, 10] [97, 10, 99, 10] [97, 10, 99, 10] = Some [97, 10, 98, 10]"
proof -
  let ?b = "[97, 10, 98, 10] :: utext" and ?a = "[97, 10, 99, 10] :: utext"
  have f: "faithful_groups True 0 0 (split_lines [] ?b) (split_lines [] ?a)
      (demo_grouped (split_lines [] ?b) (split_lines [] ?a))" by code_simp
  have "reverse_text_change demo_grouped ?b ?a ?a \<noteq> None" by code_simp
  then obtain t where t: "reverse_text_change demo_grouped ?b ?a ?a = Some t" by blast
  then show ?thesis using reverse_text_change_inverts [OF f t] by simp
qed

section \<open>What a selective undo may touch\<close>

definition undo_state :: "undo_draft \<Rightarrow> string \<Rightarrow> path_state option" where
  "undo_state u q =
     (if q \<in> set (un_dirs u) then Some DirSt else map_option (\<lambda>e. FileSt (me_sha e)) (map_of (un_files u) q))"

definition conflicted :: "undo_draft \<Rightarrow> string \<Rightarrow> bool" where
  "conflicted u q \<longleftrightarrow> q \<in> fst ` set (un_conflicts u)"

definition agree_at :: "string \<Rightarrow> undo_draft \<Rightarrow> undo_draft \<Rightarrow> bool" where
  "agree_at q u u' \<longleftrightarrow>
     undo_state u' q = undo_state u q \<and> (conflicted u' q \<longleftrightarrow> conflicted u q)
     \<and> (q \<in> set (un_merged u') \<longleftrightarrow> q \<in> set (un_merged u))"

lemma agree_refl [simp]: "agree_at q u u"
  by (simp add: agree_at_def)

lemma agree_trans: "agree_at q u v \<Longrightarrow> agree_at q v w \<Longrightarrow> agree_at q u w"
  by (simp add: agree_at_def)

lemma agree_conflict: "q \<noteq> p \<Longrightarrow> agree_at q u (undo_conflict p why u)"
  by (auto simp: agree_at_def undo_conflict_def undo_state_def conflicted_def)

lemma undo_merge_cases:
  assumes "undo_merge sha mx sz grouped p oe pe ce u = Inr u'"
  obtains why where "u' = undo_conflict p why u"
  | merged data bs where "utf8_encode merged = Some data"
      "u' = u\<lparr>un_files := AList.update p \<lparr>me_path = p, me_size = int (length data), me_sha = sha data\<rparr> (un_files u),
              un_merged := un_merged u @ [p], un_blobs := bs\<rparr>"
      "\<exists>ob pb cb old op cur. entry_bytes (un_blobs u) oe = Inr ob \<and> entry_bytes (un_blobs u) pe = Inr pb
         \<and> entry_bytes (un_blobs u) ce = Inr cb \<and> utf8_decode ob = Some old \<and> utf8_decode pb = Some op
         \<and> utf8_decode cb = Some cur \<and> reverse_text_change grouped old op cur = Some merged"
      "store_blob sha mx sz (sz (un_blobs u)) (sha data) data (un_blobs u) = Inr bs"
proof -
  note d = undo_merge_def [of sha mx sz grouped p oe pe ce u, unfolded Let_def]
  obtain ob where ob: "entry_bytes (un_blobs u) oe = Inr ob" using assms by (auto simp: d rbind_eq_Inr)
  show thesis
  proof (cases "utf8_decode ob")
    case None
    then show ?thesis using assms ob that(1) by (auto simp: d)
  next
    case old: (Some old)
    obtain pb where pb: "entry_bytes (un_blobs u) pe = Inr pb" using assms ob old by (auto simp: d rbind_eq_Inr)
    show ?thesis
    proof (cases "utf8_decode pb")
      case None
      then show ?thesis using assms ob old pb that(1) by (auto simp: d)
    next
      case op: (Some op)
      obtain cb where cb: "entry_bytes (un_blobs u) ce = Inr cb"
        using assms ob old pb op by (auto simp: d rbind_eq_Inr)
      show ?thesis
      proof (cases "utf8_decode cb")
        case None
        then show ?thesis using assms ob old pb op cb that(1) by (auto simp: d)
      next
        case cur: (Some cur)
        note known = ob old pb op cb cur
        show ?thesis
        proof (cases "reverse_text_change grouped old op cur")
          case None
          then show ?thesis using assms known that(1) by (auto simp: d)
        next
          case m: (Some merged)
          then obtain data bs where db: "utf8_encode merged = Some data"
            "store_blob sha mx sz (sz (un_blobs u)) (sha data) data (un_blobs u) = Inr bs"
            "u' = u\<lparr>un_files := AList.update p \<lparr>me_path = p, me_size = int (length data), me_sha = sha data\<rparr> (un_files u),
              un_merged := un_merged u @ [p], un_blobs := bs\<rparr>"
            using assms known by (auto simp: d rbind_eq_Inr split: option.splits)
          show ?thesis by (rule that(2) [OF db(1,3) _ db(2)]) (use known m in blast)
        qed
      qed
    qed
  qed
qed

lemma selective_step_other:
  assumes "selective_step sha mx sz grouped before after current u p = Inr u'" "q \<noteq> p"
  shows "agree_at q u u'"
proof -
  consider "u' = u" | why where "u' = undo_conflict p why u"
    | oe pe ce where "undo_merge sha mx sz grouped p oe pe ce u = Inr u'"
    | fs ds where "u' = u\<lparr>un_files := fs, un_dirs := ds\<rparr>"
        "map_of fs q = map_of (un_files u) q" "q \<in> set ds \<longleftrightarrow> q \<in> set (un_dirs u)"
  proof -
    note c1 = that(1) and c2 = that(2) and c3 = that(3) and c4 = that(4)
    show thesis
    proof (cases "map_of (state_map current) p = map_of (state_map before) p")
      case True
      then show ?thesis using assms(1) c1 by (simp add: selective_step_def Let_def)
    next
      case f1: False
      show ?thesis
      proof (cases "map_of (state_map current) p = map_of (state_map after) p")
        case True
        show ?thesis
        proof (cases "map_of (entry_map before) p")
          case None
          then show ?thesis using assms f1 True
            by (intro c4 [where fs = "AList.delete p (un_files u)" and
                ds = "if p \<in> set (mf_dirs before) then List.insert p (removeAll p (un_dirs u)) else removeAll p (un_dirs u)"])
              (auto simp: selective_step_def Let_def delete_conv')
        next
          case (Some e)
          then show ?thesis using assms f1 True
            by (intro c4 [where fs = "AList.update p e (AList.delete p (un_files u))" and ds = "removeAll p (un_dirs u)"])
              (auto simp: selective_step_def Let_def delete_conv' update_conv')
        qed
      next
        case False
        then show ?thesis using assms(1) f1 c2 c3
          by (auto simp: selective_step_def Let_def split: if_splits option.splits)
      qed
    qed
  qed
  then show ?thesis
  proof cases
    case 3
    then show ?thesis
    proof (cases rule: undo_merge_cases)
      case (1 why)
      then show ?thesis using agree_conflict assms(2) by simp
    next
      case (2 merged data bs)
      then show ?thesis using assms(2)
        by (auto simp: agree_at_def undo_state_def conflicted_def update_conv')
    qed
  next
    case (4 fs ds)
    then show ?thesis by (auto simp: agree_at_def undo_state_def conflicted_def)
  qed (use agree_conflict assms(2) in auto)
qed

lemma selective_fold_other:
  "rfold (selective_step sha mx sz grouped before after current) u ps = Inr u' \<Longrightarrow> q \<notin> set ps \<Longrightarrow> agree_at q u u'"
proof (induction ps arbitrary: u)
  case Nil
  then show ?case by simp
next
  case (Cons p ps)
  obtain u1 where "selective_step sha mx sz grouped before after current u p = Inr u1"
    and "rfold (selective_step sha mx sz grouped before after current) u1 ps = Inr u'"
    using Cons.prems(1) by (auto simp: rbind_eq_Inr)
  then show ?case using Cons.IH Cons.prems(2) selective_step_other agree_trans by (metis list.set_intros)
qed

lemma selective_fold_at:
  assumes "rfold (selective_step sha mx sz grouped before after current) u ps = Inr u'" "q \<in> set ps" "distinct ps"
  shows "\<exists>u1 u2. agree_at q u u1 \<and> selective_step sha mx sz grouped before after current u1 q = Inr u2
    \<and> agree_at q u2 u'"
proof -
  obtain xs ys where ps: "ps = xs @ q # ys" "q \<notin> set xs" "q \<notin> set ys"
    using assms(2,3) by (metis distinct.simps(2) distinct_append not_distinct_conv_prefix split_list_first)
  then obtain u1 u2 where "rfold (selective_step sha mx sz grouped before after current) u xs = Inr u1"
    "selective_step sha mx sz grouped before after current u1 q = Inr u2"
    "rfold (selective_step sha mx sz grouped before after current) u2 ys = Inr u'"
    using assms(1) by (auto simp: rfold_append rbind_eq_Inr)
  then show ?thesis using selective_fold_other ps(2,3) by blast
qed

lemma map_of_state_map:
  "map_of (state_map m) q =
     (if q \<in> set (mf_dirs m) then Some DirSt
      else map_option (\<lambda>e. FileSt (me_sha e)) (map_of (entry_map m) q))"
proof -
  have d: "map_of (List.map (\<lambda>d. (d, DirSt)) ds) q = (if q \<in> set ds then Some DirSt else None)" for ds
    by (induction ds) auto
  have f: "map_of (List.map (\<lambda>e. (me_path e, FileSt (me_sha e))) es) q
      = map_option (\<lambda>e. FileSt (me_sha e)) (map_of (List.map (\<lambda>e. (me_path e, e)) es) q)" for es
    by (induction es) auto
  show ?thesis unfolding state_map_def entry_map_def map_of_append map_add_def d f
    by (auto split: option.splits)
qed

definition disjoint_kinds :: "manifest \<Rightarrow> bool" where
  "disjoint_kinds m \<longleftrightarrow> set (mf_dirs m) \<inter> set (List.map me_path (mf_files m)) = {}"

lemma disjoint_kinds_entry: "disjoint_kinds m \<Longrightarrow> q \<in> set (mf_dirs m) \<Longrightarrow> map_of (entry_map m) q = None"
  by (auto simp: disjoint_kinds_def entry_map_def map_of_eq_None_iff comp_def)

lemma differing_iff: "q \<in> set (differing a b) \<longleftrightarrow> map_of a q \<noteq> map_of b q"
proof -
  have "q \<in> fst ` set a \<union> fst ` set b" if "map_of a q \<noteq> map_of b q"
    using that by (metis UnI1 UnI2 map_of_eq_None_iff)
  then show ?thesis by (auto simp: differing_def)
qed

lemma changed_paths_iff:
  "q \<in> set (changed_paths before after) \<longleftrightarrow> map_of (state_map before) q \<noteq> map_of (state_map after) q"
  by (simp add: changed_paths_def differing_iff)

lemma same_state_iff: "same_state a b \<longleftrightarrow> map_of a = map_of b"
proof
  assume s: "same_state a b"
  show "map_of a = map_of b"
  proof
    fix q
    show "map_of a q = map_of b q"
      using s by (cases "q \<in> fst ` set a \<union> fst ` set b")
        (auto simp: same_state_def list_all_iff map_of_eq_None_iff [THEN iffD2])
  qed
qed (simp add: same_state_def list_all_iff)

text \<open>
  A selective undo touches only what the operation changed and nobody changed since: a path it
  did not change, that is already back, or that is reported as a conflict keeps its present state; a
  path still as the operation left it gets its state from before; any other path of the operation is
  reported as a conflict or as merged.
\<close>

theorem selective_undo_spec:
  assumes "selective_target sha mx sz grouped blobs before after current = Inr u"
    and "disjoint_kinds before"
  shows "(q \<notin> set (changed_paths before after) \<or> map_of (state_map current) q = map_of (state_map before) q
          \<or> (conflicted u q \<and> map_of (state_map current) q \<noteq> map_of (state_map after) q) \<longrightarrow>
        undo_state u q = map_of (state_map current) q)
    \<and> (q \<in> set (changed_paths before after) \<and> map_of (state_map current) q = map_of (state_map after) q \<longrightarrow>
        undo_state u q = map_of (state_map before) q \<and> \<not> conflicted u q)
    \<and> (q \<in> set (changed_paths before after) \<and> map_of (state_map current) q \<noteq> map_of (state_map before) q
          \<and> map_of (state_map current) q \<noteq> map_of (state_map after) q \<longrightarrow>
        (conflicted u q \<longleftrightarrow> q \<notin> set (un_merged u)))"
proof -
  let ?u0 = "\<lparr>un_files = entry_map current, un_dirs = mf_dirs current, un_conflicts = [], un_merged = [],
        un_blobs = blobs\<rparr>"
  let ?f = "selective_step sha mx sz grouped before after current"
  have r: "rfold ?f ?u0 (changed_paths before after) = Inr u"
    using assms(1) by (simp add: selective_target_def)
  have u0: "undo_state ?u0 q = map_of (state_map current) q" "\<not> conflicted ?u0 q" "q \<notin> set (un_merged ?u0)"
    by (simp_all add: undo_state_def map_of_state_map conflicted_def)
  show ?thesis
  proof (cases "q \<in> set (changed_paths before after)")
    case False
    then show ?thesis using selective_fold_other [OF r False] u0 by (simp add: agree_at_def)
  next
    case True
    have d: "distinct (changed_paths before after)" by (simp add: changed_paths_def differing_def)
    obtain u1 u2 where a: "agree_at q ?u0 u1" "?f u1 q = Inr u2" "agree_at q u2 u"
      using selective_fold_at [OF r True d] by blast
    have ne: "map_of (state_map before) q \<noteq> map_of (state_map after) q" using True changed_paths_iff by simp
    have e1: "undo_state u1 q = map_of (state_map current) q" "\<not> conflicted u1 q" "q \<notin> set (un_merged u1)"
      and e2: "undo_state u q = undo_state u2 q" "conflicted u q = conflicted u2 q"
        "q \<in> set (un_merged u) \<longleftrightarrow> q \<in> set (un_merged u2)"
      using a(1,3) u0 by (auto simp: agree_at_def)
    have mine: "conflicted (undo_conflict q why u1) q" "undo_state (undo_conflict q why u1) q = undo_state u1 q"
      "un_merged (undo_conflict q why u1) = un_merged u1" for why
      by (auto simp: undo_conflict_def conflicted_def undo_state_def)
    consider (restored) "map_of (state_map current) q = map_of (state_map before) q"
      | (as_left) "map_of (state_map current) q \<noteq> map_of (state_map before) q"
          "map_of (state_map current) q = map_of (state_map after) q"
      | (edited) "map_of (state_map current) q \<noteq> map_of (state_map before) q"
          "map_of (state_map current) q \<noteq> map_of (state_map after) q" by blast
    then show ?thesis
    proof cases
      case restored
      then have "u2 = u1" using a(2) by (simp add: selective_step_def Let_def)
      then show ?thesis using e1 e2 restored ne by simp
    next
      case as_left
      have u2: "u2 = (let u1 = u1\<lparr>un_files := AList.delete q (un_files u1), un_dirs := removeAll q (un_dirs u1)\<rparr>
           in case map_of (entry_map before) q of
                None \<Rightarrow> if q \<in> set (mf_dirs before) then u1\<lparr>un_dirs := List.insert q (un_dirs u1)\<rparr> else u1
              | Some e \<Rightarrow> u1\<lparr>un_files := AList.update q e (un_files u1)\<rparr>)"
        using a(2) unfolding selective_step_def Let_def if_not_P [OF as_left(1)] if_P [OF as_left(2)] by simp
      have "undo_state u2 q = map_of (state_map before) q \<and> \<not> conflicted u2 q"
      proof (cases "map_of (entry_map before) q")
        case None
        then show ?thesis using e1(2)
          by (auto simp: u2 map_of_state_map undo_state_def conflicted_def delete_conv')
      next
        case (Some e)
        then show ?thesis using e1(2) disjoint_kinds_entry [OF assms(2), of q]
          by (auto simp: u2 map_of_state_map undo_state_def conflicted_def update_conv')
      qed
      then show ?thesis using e2 as_left True by simp
    next
      case edited
      consider why where "u2 = undo_conflict q why u1"
        | oe pe ce where "undo_merge sha mx sz grouped q oe pe ce u1 = Inr u2"
        using a(2) edited by (auto simp: selective_step_def Let_def split: if_splits option.splits)
      then have "(conflicted u2 q \<longrightarrow> undo_state u2 q = undo_state u1 q)
          \<and> (conflicted u2 q \<longleftrightarrow> q \<notin> set (un_merged u2))"
      proof cases
        case 1
        then show ?thesis using mine e1 by simp
      next
        case 2
        then show ?thesis
        proof (cases rule: undo_merge_cases)
          case (1 why)
          then show ?thesis using mine e1 by simp
        next
          case (2 merged data bs)
          then show ?thesis using e1 by (auto simp: conflicted_def)
        qed
      qed
      then show ?thesis using e1 e2 edited True by simp
    qed
  qed
qed

definition one_file :: "string \<Rightarrow> manifest" where
  "one_file digest =
     \<lparr>mf_files = [\<lparr>me_path = ''a'', me_size = int (length digest), me_sha = digest\<rparr>], mf_dirs = [], mf_scope = None\<rparr>"

lemma selective_undo_spec_witness:
  "\<exists>u. selective_target length_sha 100 (\<lambda>_. 0) demo_grouped [] (one_file ''x'') (one_file ''xx'') (one_file ''xx'') = Inr u
     \<and> undo_state u ''a'' = Some (FileSt ''x'')"
proof -
  let ?t = "selective_target length_sha 100 (\<lambda>_. 0) demo_grouped [] (one_file ''x'') (one_file ''xx'') (one_file ''xx'')"
  have "\<not> isl ?t" by code_simp
  then obtain u where u: "?t = Inr u" by (cases ?t) auto
  have d: "disjoint_kinds (one_file ''x'')" by (simp add: disjoint_kinds_def one_file_def)
  have "''a'' \<in> set (changed_paths (one_file ''x'') (one_file ''xx''))" by code_simp
  moreover have "map_of (state_map (one_file ''x'')) ''a'' = Some (FileSt ''x'')" by code_simp
  ultimately show ?thesis using selective_undo_spec [OF u d, of "''a''"] u by auto
qed

text \<open>
  The preview of a restore is exact: created, deleted and restored files are disjoint, together
  they are the changed files, and each says what the restore does to that file.
\<close>

theorem restore_summary_exact:
  assumes "restore_summary_of expected target = Inr s"
    and "disjoint_kinds expected" "disjoint_kinds target"
  shows "set (rs_created s) = {p. map_of (entry_map expected) p = None \<and> map_of (entry_map target) p \<noteq> None}
    \<and> set (rs_deleted s) = {p. map_of (entry_map expected) p \<noteq> None \<and> map_of (entry_map target) p = None}
    \<and> set (rs_restored s) = {p. \<exists>d e. map_of (state_map expected) p = Some (FileSt d)
         \<and> map_of (state_map target) p = Some (FileSt e) \<and> d \<noteq> e}
    \<and> set (rs_changed s) = set (rs_created s) \<union> set (rs_deleted s) \<union> set (rs_restored s)"
proof -
  have k: "p \<in> fst ` set (entry_map m) \<longleftrightarrow> map_of (entry_map m) p \<noteq> None" for p m
    by (metis map_of_eq_None_iff)
  let ?ep = "List.map fst (entry_map expected)" and ?tp = "List.map fst (entry_map target)"
  let ?ch = "List.filter (\<lambda>p. p \<in> set ?ep \<or> p \<in> set ?tp) (changed_paths expected target)"
  have sd: "rs_changed s = ?ch" "rs_created s = minus_list ?tp ?ep" "rs_deleted s = minus_list ?ep ?tp"
    "rs_restored s = minus_list (minus_list ?ch (minus_list ?tp ?ep)) (minus_list ?ep ?tp)"
    using assms(1) unfolding restore_summary_of_def Let_def by (auto simp: rbind_eq_Inr)
  have ml: "set (minus_list xs ys) = set xs - set ys" for xs ys
    by (auto simp: minus_list_def)
  have s: "set (rs_created s) = {p. map_of (entry_map expected) p = None \<and> map_of (entry_map target) p \<noteq> None}"
    "set (rs_deleted s) = {p. map_of (entry_map expected) p \<noteq> None \<and> map_of (entry_map target) p = None}"
    "set (rs_changed s) = {p. map_of (state_map expected) p \<noteq> map_of (state_map target) p
        \<and> (map_of (entry_map expected) p \<noteq> None \<or> map_of (entry_map target) p \<noteq> None)}"
    "set (rs_restored s) = set (rs_changed s) - set (rs_created s) - set (rs_deleted s)"
    unfolding sd ml set_map set_filter by (rule set_eqI; simp add: k changed_paths_iff; blast)+
  have r: "set (rs_restored s) = {p. \<exists>d e. map_of (state_map expected) p = Some (FileSt d)
         \<and> map_of (state_map target) p = Some (FileSt e) \<and> d \<noteq> e}"
  proof (rule set_eqI)
    fix p
    note d = disjoint_kinds_entry [OF assms(2), of p] disjoint_kinds_entry [OF assms(3), of p]
    show "p \<in> set (rs_restored s) \<longleftrightarrow> p \<in> {p. \<exists>d e. map_of (state_map expected) p = Some (FileSt d)
         \<and> map_of (state_map target) p = Some (FileSt e) \<and> d \<noteq> e}"
      unfolding s(4) s(1-3) Diff_iff mem_Collect_eq map_of_state_map
      by (cases "map_of (entry_map expected) p"; cases "map_of (entry_map target) p") (use d in auto)
  qed
  have "set (rs_created s) \<union> set (rs_deleted s) \<subseteq> set (rs_changed s)"
    unfolding s(1-3) using disjoint_kinds_entry [OF assms(2)] disjoint_kinds_entry [OF assms(3)]
    by (auto simp: map_of_state_map split: if_splits)
  then show ?thesis using s(1,2,4) r by auto
qed

lemma restore_summary_exact_witness:
  "\<exists>s. restore_summary_of (one_file ''x'') (one_file ''xx'') = Inr s \<and> ''a'' \<in> set (rs_restored s)"
proof -
  have "\<not> isl (restore_summary_of (one_file ''x'') (one_file ''xx''))" by code_simp
  then obtain s where s: "restore_summary_of (one_file ''x'') (one_file ''xx'') = Inr s"
    by (cases "restore_summary_of (one_file ''x'') (one_file ''xx'')") auto
  have d: "disjoint_kinds (one_file ''x'')" "disjoint_kinds (one_file ''xx'')"
    by (simp_all add: disjoint_kinds_def one_file_def)
  have m: "map_of (state_map (one_file ''x'')) ''a'' = Some (FileSt ''x'')"
    "map_of (state_map (one_file ''xx'')) ''a'' = Some (FileSt ''xx'')" by code_simp+
  show ?thesis using restore_summary_exact [OF s d] s m by auto
qed

end
