(* ===== verification/Transfers.thy ===== *)
theory Transfers
  imports Base64 Receipts Effects Checkpoints
begin

text \<open>
  Chunked artifact transfers (the \<open>artifact_*\<close> tools of \<open>server.py\<close>): sessions kept in directories of
  their own, each with a manifest, a payload file and, for uploads, the index of receipts. Every
  operation runs under the lock of its session and so is one step on that session; a download is
  prepared in two steps, between which other operations run. \<open>sha\<close> is SHA-256 as raw digest; \<open>hex sha\<close>
  is \<open>sha256_bytes\<close>. Instants are integers. An operation can be cut off between two durable writes or
  inside one.
\<close>

section \<open>Sessions\<close>

record transfer_session =
  se_version :: int
  se_direction :: string
  se_state :: string
  se_created :: "int option"           \<comment> \<open>\<open>None\<close>: missing or no aware timestamp\<close>
  se_expires :: "int option option"    \<comment> \<open>\<open>None\<close>: no such key (a legacy manifest)\<close>
  se_path :: string
  se_bytes :: int
  se_chunk_bytes :: int
  se_sha :: "string option"
  se_expected :: "string option"
  se_received :: int
  se_receipts :: int
  se_source :: "(string \<times> string \<times> int) option"
  se_operation :: string
  se_identity :: "int option"
  se_chunk_max :: "int option"
  se_marks :: "(string \<times> int) list"    \<comment> \<open>\<open><state>_at\<close>\<close>

text \<open>
  \<open>sd_payload_id\<close> stands for device, inode and modification time of the payload file; the root and the
  receipt index are those of \<open>Receipts\<close>.
\<close>

record session_dir =
  sd_manifest_node :: node
  sd_manifest :: "transfer_session option"   \<comment> \<open>\<open>None\<close>: the text is no JSON\<close>
  sd_payload_node :: node
  sd_payload :: bytes
  sd_payload_id :: int
  sd_receipts :: receipt_dir

record transfers =
  xf_root :: node
  xf_sessions :: "(string \<times> session_dir) list"

record transfer_env =
  xe_ttl :: int                \<comment> \<open>\<open>binary_transfer_ttl_seconds\<close>\<close>
  xe_max_file :: int           \<comment> \<open>\<open>max_structured_file_bytes\<close>\<close>
  xe_max_chunk :: int          \<comment> \<open>\<open>max_transfer_chunk_bytes\<close>\<close>
  xe_max_open :: int           \<comment> \<open>\<open>max_open_transfers\<close>\<close>
  xe_max_data :: int           \<comment> \<open>\<open>max_data_dir_bytes\<close>\<close>

text \<open>Where a call is cut off: by the end of the process, or by a write that fails.\<close>

datatype cut =
    Whole
  | InIndex                    \<comment> \<open>growing the index\<close>
  | InPayload nat              \<comment> \<open>after so many bytes of the payload\<close>
  | InReceipt nat bool         \<comment> \<open>after so many bytes of the receipt; whether the process ended\<close>
  | BeforeManifest

record transfer_call =
  xc_now :: int
  xc_used :: int               \<comment> \<open>the size of the data directory\<close>
  xc_stamp :: int              \<comment> \<open>the identity a payload file has after it was written\<close>
  xc_cut :: cut
  xc_log :: "unit res"         \<comment> \<open>how the audit record of the call is taken\<close>

definition hex_sha :: "(bytes \<Rightarrow> bytes) \<Rightarrow> bytes \<Rightarrow> string" where
  "hex_sha sha data = hex_string (sha data)"

definition admission_states :: "string list" where
  "admission_states = [''preparing'', ''open'']"

definition transfer_terminal :: "string list" where
  "transfer_terminal = [''expired'', ''failed'', ''completed'', ''cancelled'', ''committed'']"

definition known_states :: "string list" where
  "known_states = admission_states @ transfer_terminal"

definition valid_transfer_id :: "string \<Rightarrow> bool" where
  "valid_transfer_id t \<longleftrightarrow> length t = 36 \<and> list_all (\<lambda>c. is_lower_hex c \<or> c = CHR ''-'') t"

definition transfer_expiry :: "transfer_env \<Rightarrow> transfer_session \<Rightarrow> int res" where
  "transfer_expiry env m =
     (let invalid = TransferStateError ''TRANSFER_LIFETIME_INVALID'' in
      case se_created m of
        None \<Rightarrow> Inl invalid
      | Some created \<Rightarrow>
          (case (case se_expires m of None \<Rightarrow> Some (created + xe_ttl env) | Some e \<Rightarrow> e) of
             None \<Rightarrow> Inl invalid
           | Some expiry \<Rightarrow> if expiry < created then Inl invalid else Inr expiry))"

definition write_manifest :: "transfer_session \<Rightarrow> (session_dir, unit) op" where
  "write_manifest m = mput (\<lambda>d. d\<lparr>sd_manifest := Some m\<rparr>)"

definition set_mark :: "string \<Rightarrow> int \<Rightarrow> transfer_session \<Rightarrow> transfer_session" where
  "set_mark key now m = m\<lparr>se_marks := AList.update key now (se_marks m)\<rparr>"

definition plain_regular :: "node \<Rightarrow> bool" where
  "plain_regular n = (case n of Node i \<Rightarrow> \<not> ni_unsafe i \<and> ni_regular i | _ \<Rightarrow> False)"

definition node_links :: "node \<Rightarrow> int" where
  "node_links n = (case n of Node i \<Rightarrow> ni_links i | _ \<Rightarrow> 0)"

definition new_file_node :: node where
  "new_file_node = Node \<lparr>ni_unsafe = False, ni_dir = False, ni_regular = True, ni_links = 1\<rparr>"

definition new_dir_node :: node where
  "new_dir_node = Node \<lparr>ni_unsafe = False, ni_dir = True, ni_regular = False, ni_links = 1\<rparr>"

text \<open>\<open>_load_transfer\<close>, behind the checks of the two directories.\<close>

definition load_manifest_doc :: "session_dir \<Rightarrow> string option \<Rightarrow> transfer_session res" where
  "load_manifest_doc d direction =
     (if \<not> plain_regular (sd_manifest_node d) \<or> 1 < node_links (sd_manifest_node d) then Inl TransferNotFound
      else case sd_manifest d of
        None \<Rightarrow> Inl (ValueError ''invalid JSON'')
      | Some m \<Rightarrow>
          if se_version m \<notin> {1, 2, 3, 4, 5} then Inl (RuntimeError ''transfer session version is unsupported'')
          else if se_direction m \<notin> {''download'', ''upload''}
                  \<or> (direction \<noteq> None \<and> direction \<noteq> Some (se_direction m))
          then Inl (RuntimeError ''transfer session direction is invalid'')
          else if se_state m \<notin> set known_states then Inl (RuntimeError ''transfer session state is invalid'')
          else Inr m)"

definition load_transfer ::
  "transfer_env \<Rightarrow> int \<Rightarrow> string option \<Rightarrow> string list \<Rightarrow> bool \<Rightarrow> (session_dir, transfer_session) op" where
  "load_transfer env now direction states expire_active =
     mbind (mget (\<lambda>d. load_manifest_doc d direction)) (\<lambda>found.
     mbind (mlift found) (\<lambda>m0.
     mbind (mlift (transfer_expiry env m0)) (\<lambda>expiry.
     mbind (if expire_active \<and> se_state m0 \<in> set admission_states \<and> expiry < now
            then let m1 = set_mark ''expired_at'' now (m0\<lparr>se_state := ''expired''\<rparr>)
                 in mbind (write_manifest m1) (\<lambda>_. mret m1)
            else mret m0) (\<lambda>m.
       if se_state m \<in> set states then mret m
       else if se_state m = ''expired'' then mfail (TransferStateError ''TRANSFER_EXPIRED'')
       else mfail (TransferStateError ''TRANSFER_TERMINAL'')))))"

text \<open>An operation on one session, found by its identifier.\<close>

definition locked :: "string \<Rightarrow> (session_dir, 'a) op \<Rightarrow> (transfers, 'a) op" where
  "locked t m s =
     (if \<not> valid_transfer_id t then (s, Inl (TransferError ''TRANSFER_ID_INVALID''))
      else case xf_root s of
        NodeMissing \<Rightarrow> (s, Inl TransferNotFound)
      | NodeUnavailable \<Rightarrow> (s, Inl (OSError ''binary transfer root is unavailable''))
      | Node i \<Rightarrow>
          if ni_unsafe i \<or> \<not> ni_dir i
          then (s, Inl (RuntimeError ''binary transfer root has an unsafe directory identity''))
          else case map_of (xf_sessions s) t of
            None \<Rightarrow> (s, Inl TransferNotFound)
          | Some d \<Rightarrow>
              (case rd_root (sd_receipts d) of
                 Node k \<Rightarrow>
                   if ni_unsafe k \<or> \<not> ni_dir k then (s, Inl TransferNotFound)
                   else (case m d of (d', r) \<Rightarrow> (s\<lparr>xf_sessions := AList.update t d' (xf_sessions s)\<rparr>, r))
               | _ \<Rightarrow> (s, Inl TransferNotFound)))"

definition mark_failed_session ::
  "transfer_env \<Rightarrow> int \<Rightarrow> string list \<Rightarrow> (session_dir, unit) op" where
  "mark_failed_session env now expected =
     mbind (load_transfer env now None known_states False) (\<lambda>m.
       if se_state m \<notin> set expected then mret ()
       else write_manifest (set_mark ''failed_at'' now (m\<lparr>se_state := ''failed''\<rparr>)))"

text \<open>\<open>_mark_transfer_failed\<close>; whatever goes wrong with it is dropped.\<close>

definition mark_transfer_failed ::
  "transfer_env \<Rightarrow> int \<Rightarrow> string \<Rightarrow> string list \<Rightarrow> (transfers, bool) op" where
  "mark_transfer_failed env now t expected =
     mcatch (mbind (locked t (mark_failed_session env now expected)) (\<lambda>_. mret True)) (\<lambda>_. mret False)"

definition failable_states :: "string list" where
  "failable_states = admission_states @ [''completed'']"

text \<open>\<open>except TransferIntegrityError\<close> of the tools.\<close>

definition integrity_guard ::
  "transfer_env \<Rightarrow> int \<Rightarrow> string \<Rightarrow> (transfers, 'a) op \<Rightarrow> (transfers, 'a) op" where
  "integrity_guard env now t m =
     mcatch m (\<lambda>e. case e of
        TransferIntegrity c \<Rightarrow> mbind (mark_transfer_failed env now t failable_states) (\<lambda>_. mfail e)
      | _ \<Rightarrow> mfail e)"

definition validated_payload :: "session_dir \<Rightarrow> transfer_session \<Rightarrow> bool \<Rightarrow> unit res" where
  "validated_payload d m immutable =
     (if \<not> plain_regular (sd_payload_node d) then Inl (TransferIntegrity ''TRANSFER_INTEGRITY'')
      else if 1 < node_links (sd_payload_node d) \<or> int (length (sd_payload d)) \<noteq> se_bytes m
      then Inl (TransferIntegrity ''TRANSFER_INTEGRITY'')
      else if immutable \<and> Some (sd_payload_id d) \<noteq> se_identity m
      then Inl (TransferIntegrity ''TRANSFER_INTEGRITY'')
      else Inr ())"

section \<open>Uploads\<close>

text \<open>The answer to a chunk that was received before.\<close>

definition acknowledge_again ::
  "(bytes \<Rightarrow> bytes) \<Rightarrow> session_dir \<Rightarrow> transfer_session \<Rightarrow> int \<Rightarrow> bytes \<Rightarrow> transfer_session res" where
  "acknowledge_again sha d m offset payload =
     (if se_version m < 5 then Inl (TransferStateError ''TRANSFER_OFFSET_INVALID'')
      else case find_receipt (sd_receipts d) (se_receipts m) offset (Some (se_bytes m)) of
        Inl e \<Rightarrow> Inl (TransferIntegrity ''TRANSFER_INTEGRITY'')
      | Inr None \<Rightarrow> Inl (TransferStateError ''TRANSFER_OFFSET_INVALID'')
      | Inr (Some receipt) \<Rightarrow>
          if receipt \<noteq> (int (length payload), hex_sha sha payload)
          then Inl (TransferIntegrity ''TRANSFER_DUPLICATE_MISMATCH'')
          else
            rbind (validated_payload d m False) (\<lambda>_.
            if take (length payload) (drop (nat offset) (sd_payload d)) \<noteq> payload
            then Inl (TransferIntegrity ''TRANSFER_INTEGRITY'')
            else rbind (validated_payload d m False) (\<lambda>_. Inr m)))"

text \<open>Room for the next receipt.\<close>

definition reserve_receipt ::
  "transfer_env \<Rightarrow> transfer_call \<Rightarrow> transfer_session \<Rightarrow> (session_dir, unit) op" where
  "reserve_receipt env call m =
     mbind (mget (\<lambda>d. d)) (\<lambda>d.
     let index = rd_index (sd_receipts d);
         size_now = int (length (rd_data (sd_receipts d)));
         count = se_receipts m;
         k = int receipt_bytes
     in
     if \<not> plain_regular index then mfail (TransferIntegrity ''TRANSFER_INTEGRITY'')
     else if count < 0 \<or> se_received m < count \<or> node_links index \<noteq> 1 \<or> size_now mod k \<noteq> 0
             \<or> size_now < count * k \<or> se_bytes m * k < size_now
     then mfail (TransferIntegrity ''TRANSFER_INTEGRITY'')
     else if size_now = count * k then
       let grown = min (se_bytes m) (count + 1024) * k - size_now in
       mbind (mlift (enforce_data_quota (xe_max_data env) (xc_used call) grown)) (\<lambda>_.
       if xc_cut call = InIndex then mfail (OSError ''receipt index'')
       else mput (\<lambda>d. d\<lparr>sd_receipts := (sd_receipts d)
                  \<lparr>rd_data := rd_data (sd_receipts d) @ replicate (nat grown) 0\<rparr>\<rparr>))
     else mret ())"

definition write_payload :: "transfer_call \<Rightarrow> nat \<Rightarrow> bytes \<Rightarrow> (session_dir, unit) op" where
  "write_payload call position payload =
     mbind (mput (\<lambda>d. d\<lparr>sd_payload := write_at position
                    (case xc_cut call of InPayload n \<Rightarrow> take n payload | _ \<Rightarrow> payload) (sd_payload d),
                    sd_payload_id := xc_stamp call\<rparr>)) (\<lambda>_.
       case xc_cut call of InPayload n \<Rightarrow> mfail (OSError ''payload'') | _ \<Rightarrow> mret ())"

definition store_receipt ::
  "(bytes \<Rightarrow> bytes) \<Rightarrow> transfer_call \<Rightarrow> transfer_session \<Rightarrow> int \<Rightarrow> bytes \<Rightarrow> (session_dir, unit) op" where
  "store_receipt sha call m offset payload =
     mbind (mget sd_receipts) (\<lambda>rd.
     let (rd', r) = append_receipt sha rd (se_receipts m) offset payload (Some (se_bytes m))
           (case xc_cut call of InReceipt n ended \<Rightarrow> min n 47 | _ \<Rightarrow> receipt_bytes)
     in mbind (mput (\<lambda>d. d\<lparr>sd_receipts := rd'\<rparr>)) (\<lambda>_.
        case r of
          Inr _ \<Rightarrow> mret ()
        | Inl e \<Rightarrow>
            (case xc_cut call of
               InReceipt n True \<Rightarrow> mfail (OSError ''the process ended'')
             | _ \<Rightarrow> mfail (TransferIntegrity ''TRANSFER_INTEGRITY''))))"

definition write_upload_chunk ::
  "(bytes \<Rightarrow> bytes) \<Rightarrow> transfer_env \<Rightarrow> transfer_call \<Rightarrow> transfer_session \<Rightarrow> int \<Rightarrow> bytes \<Rightarrow>
   (session_dir, transfer_session) op" where
  "write_upload_chunk sha env call m offset payload =
     (if offset < 0 \<or> se_received m < offset then mfail (TransferStateError ''TRANSFER_OFFSET_INVALID'')
      else if offset < se_received m then
        mbind (mget (\<lambda>d. acknowledge_again sha d m offset payload)) mlift
      else if se_state m \<noteq> ''open'' then mfail (TransferStateError ''TRANSFER_TERMINAL'')
      else if se_bytes m < offset + int (length payload)
      then mfail (TransferError ''TRANSFER_TOTAL_SIZE_LIMIT'')
      else
        mbind (if 5 \<le> se_version m then reserve_receipt env call m else mret ()) (\<lambda>_.
        mbind (if 4 \<le> se_version m then
                 mbind (mget (\<lambda>d. validated_payload d m False)) (\<lambda>safe.
                 mbind (mlift safe) (\<lambda>_.
                 mbind (write_payload call (nat offset) payload) (\<lambda>_.
                 mbind (mget (\<lambda>d. validated_payload d m False)) mlift)))
               else
                 mbind (mlift (enforce_data_quota (xe_max_data env) (xc_used call) (int (length payload)))) (\<lambda>_.
                 mbind (mput (\<lambda>d. if sd_payload_node d = NodeMissing
                                  then d\<lparr>sd_payload_node := new_file_node, sd_payload := []\<rparr> else d)) (\<lambda>_.
                 mbind (mget (\<lambda>d. length (sd_payload d))) (\<lambda>n. write_payload call n payload)))) (\<lambda>_.
        mbind (if 5 \<le> se_version m then store_receipt sha call m offset payload else mret ()) (\<lambda>_.
        let m' = m\<lparr>se_receipts := (if 5 \<le> se_version m then se_receipts m + 1 else se_receipts m),
                   se_received := offset + int (length payload)\<rparr>
        in if xc_cut call = BeforeManifest then mfail (OSError ''manifest'')
           else mbind (write_manifest m') (\<lambda>_. mret m')))))"

record chunk_ack =
  ca_received :: int
  ca_complete :: bool
  ca_sha :: string

definition decode_chunk :: "transfer_env \<Rightarrow> string \<Rightarrow> bytes res" where
  "decode_chunk env encoded =
     (if 4 * ((xe_max_chunk env + 2) div 3) < int (length encoded)
      then Inl (TransferError ''TRANSFER_BASE64_LIMIT'')
      else case b64decode encoded of
        None \<Rightarrow> Inl (TransferError ''TRANSFER_BASE64_INVALID'')
      | Some payload \<Rightarrow>
          if payload = [] \<or> xe_max_chunk env < int (length payload)
          then Inl (TransferError ''TRANSFER_CHUNK_LIMIT'')
          else if b64encode payload \<noteq> encoded then Inl (TransferError ''TRANSFER_BASE64_NONCANONICAL'')
          else Inr payload)"

definition receive_chunk ::
  "(bytes \<Rightarrow> bytes) \<Rightarrow> transfer_env \<Rightarrow> transfer_call \<Rightarrow> int \<Rightarrow> bytes \<Rightarrow> (session_dir, transfer_session) op" where
  "receive_chunk sha env call offset payload =
     mbind (load_transfer env (xc_now call) (Some ''upload'') [''open'', ''committed''] True) (\<lambda>m.
       write_upload_chunk sha env call m offset payload)"

definition artifact_upload_chunk ::
  "(bytes \<Rightarrow> bytes) \<Rightarrow> transfer_env \<Rightarrow> transfer_call \<Rightarrow> string \<Rightarrow> int \<Rightarrow> string \<Rightarrow> (transfers, chunk_ack) op" where
  "artifact_upload_chunk sha env call t offset encoded =
     mbind (mcheck (valid_transfer_id t) (TransferError ''TRANSFER_ID_INVALID'')) (\<lambda>_.
     mbind (mlift (decode_chunk env encoded)) (\<lambda>payload.
     integrity_guard env (xc_now call) t
       (mbind (locked t (receive_chunk sha env call offset payload)) (\<lambda>m.
        mbind (mlift (xc_log call)) (\<lambda>_.
          mret \<lparr>ca_received = se_received m, ca_complete = (se_received m = se_bytes m),
                ca_sha = hex_sha sha payload\<rparr>)))))"

section \<open>Admission and creation\<close>

text \<open>One manifest \<open>_admit_transfer\<close> comes across: it expires it, counts it or passes over it.\<close>

definition admit_one :: "transfer_env \<Rightarrow> int \<Rightarrow> session_dir \<Rightarrow> session_dir \<times> int res" where
  "admit_one env now d =
     (case (case sd_manifest_node d of Node i \<Rightarrow> if ni_regular i then sd_manifest d else None | _ \<Rightarrow> None) of
        None \<Rightarrow> (d, Inr 0)
      | Some m \<Rightarrow>
          if se_state m \<notin> set admission_states then (d, Inr 0)
          else (case transfer_expiry env m of
            Inl e \<Rightarrow> (d, Inl e)
          | Inr expiry \<Rightarrow>
              if expiry < now
              then (d\<lparr>sd_manifest := Some (set_mark ''expired_at'' now (m\<lparr>se_state := ''expired''\<rparr>))\<rparr>, Inr 0)
              else (d, Inr 1)))"

fun admit_sessions ::
  "transfer_env \<Rightarrow> int \<Rightarrow> (string \<times> session_dir) list \<Rightarrow> (string \<times> session_dir) list \<times> int res" where
  "admit_sessions env now [] = ([], Inr 0)"
| "admit_sessions env now ((t, d) # rest) =
     (case admit_one env now d of
        (d', Inl e) \<Rightarrow> ((t, d') # rest, Inl e)
      | (d', Inr n) \<Rightarrow>
          (case admit_sessions env now rest of
             (rest', Inl e) \<Rightarrow> ((t, d') # rest', Inl e)
           | (rest', Inr k) \<Rightarrow> ((t, d') # rest', Inr (n + k))))"

definition admit_transfer :: "transfer_env \<Rightarrow> int \<Rightarrow> (transfers, unit) op" where
  "admit_transfer env now s =
     (let (sessions, r) =
        (case xf_root s of
           Node i \<Rightarrow> if \<not> ni_dir i \<or> ni_unsafe i then (xf_sessions s, Inr 0)
                     else admit_sessions env now (xf_sessions s)
         | _ \<Rightarrow> (xf_sessions s, Inr 0))
      in (s\<lparr>xf_sessions := sessions\<rparr>,
          rbind r (\<lambda>n. if xe_max_open env \<le> n
                       then Inl (RuntimeError ''open binary transfer admission limit reached'') else Inr ())))"

text \<open>\<open>root.mkdir(parents=True, exist_ok=False)\<close> and the files in it; a failure removes the directory.\<close>

definition create_session :: "string \<Rightarrow> session_dir \<Rightarrow> (transfers, unit) op" where
  "create_session t d s =
     (if map_of (xf_sessions s) t \<noteq> None
      then (s\<lparr>xf_sessions := AList.delete t (xf_sessions s)\<rparr>, Inl (FileExists ''transfer session''))
      else (s\<lparr>xf_root := (if xf_root s = NodeMissing then new_dir_node else xf_root s),
              xf_sessions := AList.update t d (xf_sessions s)\<rparr>, Inr ()))"

definition new_session_dir :: "transfer_session \<Rightarrow> nat \<Rightarrow> session_dir" where
  "new_session_dir m index_size =
     \<lparr>sd_manifest_node = new_file_node, sd_manifest = Some m, sd_payload_node = new_file_node,
      sd_payload = replicate (nat (se_bytes m)) 0, sd_payload_id = 0,
      sd_receipts = \<lparr>rd_root = new_dir_node,
                     rd_index = (if index_size = 0 \<and> se_version m < 5 then NodeMissing else new_file_node),
                     rd_data = replicate index_size 0\<rparr>\<rparr>"

definition receipt_capacity :: "transfer_env \<Rightarrow> int \<Rightarrow> int" where
  "receipt_capacity env total_bytes = min total_bytes (max 1024 ((total_bytes + xe_max_chunk env - 1) div xe_max_chunk env))"

text \<open>What the path broker says of the target: its relative path, and size and content if it exists.\<close>

record target_look =
  tl_path :: string
  tl_existing :: "(int \<times> bytes) option"

definition check_target ::
  "(bytes \<Rightarrow> bytes) \<Rightarrow> transfer_env \<Rightarrow> target_look \<Rightarrow> string option \<Rightarrow> unit res" where
  "check_target sha env look expected =
     (case tl_existing look of
        None \<Rightarrow> Inr ()
      | Some (n, data) \<Rightarrow>
          if expected = None then Inl (ValueError ''expected_sha256 is required when replacing an existing file'')
          else if xe_max_file env < n then Inl (ValueError ''structured file exceeds max_structured_file_bytes'')
          else if Some (hex_sha sha data) \<noteq> expected then Inl (TransferStateError ''TRANSFER_CAS_MISMATCH'')
          else Inr ())"

definition source_of :: "transfer_session \<Rightarrow> (string \<times> string \<times> int) res" where
  "source_of m = (case se_sha m of None \<Rightarrow> Inl (KeyError ''sha256'') | Some d \<Rightarrow> Inr (se_path m, d, se_bytes m))"

definition bind_source ::
  "transfer_env \<Rightarrow> transfer_call \<Rightarrow> string option \<Rightarrow> (transfers, (string \<times> string \<times> int) option) op" where
  "bind_source env call source_id =
     (case source_id of
        None \<Rightarrow> mret None
      | Some sid \<Rightarrow>
          mbind (locked sid (load_transfer env (xc_now call) (Some ''download'') [''open'', ''completed''] True)) (\<lambda>m.
          mbind (mlift (source_of m)) (\<lambda>b. mret (Some b))))"

definition fresh_session ::
  "transfer_env \<Rightarrow> transfer_call \<Rightarrow> int \<Rightarrow> string \<Rightarrow> string \<Rightarrow> string \<Rightarrow> int \<Rightarrow> string \<Rightarrow> transfer_session" where
  "fresh_session env call version direction st path n operation =
     \<lparr>se_version = version, se_direction = direction, se_state = st, se_created = Some (xc_now call),
      se_expires = Some (Some (xc_now call + xe_ttl env)), se_path = path, se_bytes = n, se_chunk_bytes = 0,
      se_sha = None, se_expected = None, se_received = 0, se_receipts = 0, se_source = None,
      se_operation = operation, se_identity = None, se_chunk_max = None, se_marks = []\<rparr>"

definition artifact_upload_begin ::
  "(bytes \<Rightarrow> bytes) \<Rightarrow> transfer_env \<Rightarrow> transfer_call \<Rightarrow> target_look res \<Rightarrow> string \<Rightarrow> string \<Rightarrow> int \<Rightarrow> string \<Rightarrow>
   string option \<Rightarrow> string option \<Rightarrow> (transfers, string) op" where
  "artifact_upload_begin sha env call looked t operation total_bytes digest expected source_id =
     mbind (mcheck (0 \<le> total_bytes \<and> total_bytes \<le> xe_max_file env) (TransferError ''TRANSFER_TOTAL_SIZE_LIMIT'')) (\<lambda>_.
     mbind (mcheck (is_sha256 digest) (ValueError ''sha256 must be a lowercase SHA-256 digest'')) (\<lambda>_.
     mbind (mlift looked) (\<lambda>look.
     mbind (mlift (check_target sha env look expected)) (\<lambda>_.
     mbind (bind_source env call source_id) (\<lambda>binding.
     mbind (admit_transfer env (xc_now call)) (\<lambda>_.
     let index_size = receipt_capacity env total_bytes * int receipt_bytes;
         m = (fresh_session env call 5 ''upload'' ''open'' (tl_path look) total_bytes operation)
               \<lparr>se_sha := Some digest, se_expected := expected, se_source := binding,
                se_chunk_max := Some (xe_max_chunk env)\<rparr>
     in
     mbind (mlift (enforce_data_quota (xe_max_data env) (xc_used call) (total_bytes + index_size + 4096))) (\<lambda>_.
     mbind (create_session t (new_session_dir m (nat index_size))) (\<lambda>_.
     mcatch (mbind (mlift (xc_log call)) (\<lambda>_. mret t))
       (\<lambda>e. mbind (mark_transfer_failed env (xc_now call) t [''open'']) (\<lambda>_. mfail e))))))))))"

section \<open>Downloads\<close>

definition download_reserve ::
  "transfer_env \<Rightarrow> transfer_call \<Rightarrow> string \<Rightarrow> int \<Rightarrow> string \<Rightarrow> string \<Rightarrow> int option \<Rightarrow> (transfers, transfer_session) op" where
  "download_reserve env call path n t operation chunk_bytes =
     mbind (mcheck (n \<le> xe_max_file env)
              (ValueError ''structured file exceeds max_structured_file_bytes'')) (\<lambda>_.
     let chunk = (case chunk_bytes of None \<Rightarrow> xe_max_chunk env | Some c \<Rightarrow> c) in
     mbind (mcheck (4096 \<le> chunk \<and> chunk \<le> xe_max_chunk env)
              (ValueError ''chunk_bytes is outside the configured bound'')) (\<lambda>_.
     mbind (admit_transfer env (xc_now call)) (\<lambda>_.
     mbind (mlift (enforce_data_quota (xe_max_data env) (xc_used call) (n + 4096))) (\<lambda>_.
     let m = (fresh_session env call 3 ''download'' ''preparing'' path n operation)\<lparr>se_chunk_bytes := chunk\<rparr>
     in mbind (create_session t (new_session_dir m 0)) (\<lambda>_. mret m)))))"

text \<open>
  \<open>copied\<close> is the first read of the source and \<open>again\<close> the second, with whether the source still has
  the identity it was found with.
\<close>

definition write_snapshot :: "transfer_call \<Rightarrow> bytes \<Rightarrow> (session_dir, unit) op" where
  "write_snapshot call data = mput (\<lambda>d. d\<lparr>sd_payload := data, sd_payload_id := xc_stamp call\<rparr>)"

definition publish_snapshot ::
  "(bytes \<Rightarrow> bytes) \<Rightarrow> transfer_call \<Rightarrow> transfer_session \<Rightarrow> bytes res \<Rightarrow> (bool \<times> bytes) res \<Rightarrow>
   (session_dir, transfer_session) op" where
  "publish_snapshot sha call m copied again =
     mbind (mlift copied) (\<lambda>data.
     mbind (write_snapshot call data) (\<lambda>_.
     mbind (mlift again) (\<lambda>(same, now_data).
     mbind (mcheck (same \<and> length now_data = length data \<and> hex_sha sha now_data = hex_sha sha data)
              (TransferStateError ''TRANSFER_SOURCE_CHANGED'')) (\<lambda>_.
     mbind (mget (\<lambda>d. length (sd_payload d) = length data \<and> hex_sha sha (sd_payload d) = hex_sha sha data)) (\<lambda>kept.
     mbind (mcheck kept (TransferIntegrity ''TRANSFER_INTEGRITY'')) (\<lambda>_.
     mbind (mget sd_payload_id) (\<lambda>identity.
     let m' = m\<lparr>se_state := (if data = [] then ''completed'' else ''open''), se_bytes := int (length data),
                se_sha := Some (hex_sha sha data), se_identity := Some identity\<rparr>;
         m'' = (if data = [] then set_mark ''completed_at'' (xc_now call) m' else m')
     in
     mbind (mget sd_manifest) (\<lambda>current.
     mbind (mcheck (map_option se_state current = Some ''preparing'')
              (RuntimeError ''download transfer was terminalized while preparing snapshot'')) (\<lambda>_.
     mbind (write_manifest m'') (\<lambda>_. mret m''))))))))))"

definition drop_session :: "string \<Rightarrow> (transfers, unit) op" where
  "drop_session t = mput (\<lambda>s. s\<lparr>xf_sessions := AList.delete t (xf_sessions s)\<rparr>)"

definition download_publish ::
  "(bytes \<Rightarrow> bytes) \<Rightarrow> transfer_env \<Rightarrow> transfer_call \<Rightarrow> string \<Rightarrow> transfer_session \<Rightarrow> bytes res \<Rightarrow>
   (bool \<times> bytes) res \<Rightarrow> (transfers, transfer_session) op" where
  "download_publish sha env call t m copied again =
     mbind (mcatch (locked t (publish_snapshot sha call m copied again))
              (\<lambda>e. mbind (mark_transfer_failed env (xc_now call) t [''preparing'', ''open'']) (\<lambda>marked.
                   mbind (if marked then mret () else drop_session t) (\<lambda>_. mfail e)))) (\<lambda>m'.
     mcatch (mbind (mlift (xc_log call)) (\<lambda>_. mret m'))
       (\<lambda>e. mbind (mark_transfer_failed env (xc_now call) t [''open'', ''completed'']) (\<lambda>_. mfail e)))"

record download_chunk =
  dc_offset :: int
  dc_base64 :: string
  dc_next :: int
  dc_complete :: bool
  dc_sha :: string

text \<open>The bytes of a chunk; a legacy session keeps no snapshot and reads its source again.\<close>

definition chunk_payload ::
  "(bytes \<Rightarrow> bytes) \<Rightarrow> session_dir \<Rightarrow> transfer_session \<Rightarrow> (int \<times> bytes) res \<Rightarrow> transfer_env \<Rightarrow> int \<Rightarrow> bytes res" where
  "chunk_payload sha d m source env offset =
     (if 3 \<le> se_version m then
        rbind (validated_payload d m True) (\<lambda>_.
        let payload = take (nat (se_chunk_bytes m)) (drop (nat offset) (sd_payload d)) in
        if int (length payload) \<noteq> min (se_chunk_bytes m) (se_bytes m - offset)
        then Inl (TransferIntegrity ''TRANSFER_INTEGRITY'') else Inr payload)
      else
        rbind source (\<lambda>(n, data).
        if n \<noteq> se_bytes m \<or> xe_max_file env < se_bytes m
           \<or> int (length data) \<noteq> se_bytes m \<or> Some (hex_sha sha data) \<noteq> se_sha m
        then Inl (TransferIntegrity ''TRANSFER_INTEGRITY'')
        else Inr (take (nat (se_chunk_bytes m)) (drop (nat offset) data))))"

definition read_chunk ::
  "(bytes \<Rightarrow> bytes) \<Rightarrow> transfer_env \<Rightarrow> transfer_call \<Rightarrow> (int \<times> bytes) res \<Rightarrow> int \<Rightarrow> (session_dir, download_chunk) op" where
  "read_chunk sha env call source offset =
     mbind (load_transfer env (xc_now call) (Some ''download'') [''open'', ''completed''] True) (\<lambda>m.
     mbind (mcheck (offset < 0 \<or> se_chunk_bytes m \<noteq> 0) ZeroDivision) (\<lambda>_.
     mbind (mcheck (0 \<le> offset \<and> offset mod se_chunk_bytes m = 0)
              (TransferError ''TRANSFER_BOUNDARY_INVALID'')) (\<lambda>_.
     mbind (mcheck (se_bytes m \<noteq> 0 \<and> offset < se_bytes m) (TransferError ''TRANSFER_OFFSET_INVALID'')) (\<lambda>_.
     mbind (mget (\<lambda>d. chunk_payload sha d m source env offset)) (\<lambda>found.
     mbind (mlift found) (\<lambda>payload.
     let complete = (offset + int (length payload) = se_bytes m) in
     mbind (if complete \<and> se_state m = ''open''
            then write_manifest (set_mark ''completed_at'' (xc_now call) (m\<lparr>se_state := ''completed''\<rparr>))
            else mret ()) (\<lambda>_.
     mbind (mlift (xc_log call)) (\<lambda>_.
       mret \<lparr>dc_offset = offset, dc_base64 = b64encode payload, dc_next = offset + int (length payload),
             dc_complete = complete, dc_sha = hex_sha sha payload\<rparr>))))))))"

definition artifact_download_chunk ::
  "(bytes \<Rightarrow> bytes) \<Rightarrow> transfer_env \<Rightarrow> transfer_call \<Rightarrow> (int \<times> bytes) res \<Rightarrow> string \<Rightarrow> int \<Rightarrow>
   (transfers, download_chunk) op" where
  "artifact_download_chunk sha env call source t offset =
     integrity_guard env (xc_now call) t (locked t (read_chunk sha env call source offset))"

section \<open>Commit, cancellation and status\<close>

definition commit_prepare ::
  "(bytes \<Rightarrow> bytes) \<Rightarrow> transfer_env \<Rightarrow> transfer_call \<Rightarrow> (session_dir, transfer_session \<times> bytes) op" where
  "commit_prepare sha env call =
     mbind (load_transfer env (xc_now call) (Some ''upload'') [''open''] True) (\<lambda>m.
     mbind (mcheck (se_received m = se_bytes m) (TransferStateError ''TRANSFER_INCOMPLETE'')) (\<lambda>_.
     mbind (mget (\<lambda>d. validated_payload d m False)) (\<lambda>safe.
     mbind (mlift safe) (\<lambda>_.
     mbind (mget sd_payload) (\<lambda>payload.
     mbind (mcheck (int (length payload) = se_bytes m) (TransferIntegrity ''TRANSFER_INTEGRITY'')) (\<lambda>_.
     mbind (mcheck (Some (hex_sha sha payload) = se_sha m) (TransferIntegrity ''TRANSFER_SHA256_MISMATCH'')) (\<lambda>_.
       mret (m, payload))))))))"

definition commit_finish :: "transfer_call \<Rightarrow> transfer_session \<Rightarrow> (session_dir, unit) op" where
  "commit_finish call m =
     (if xc_cut call = BeforeManifest then mfail (OSError ''manifest'')
      else write_manifest (set_mark ''committed_at'' (xc_now call) (m\<lparr>se_state := ''committed''\<rparr>)))"

text \<open>
  \<open>mutate\<close> is \<open>_atomic_binary_mutation\<close>, on the state of the workspace, given path, expected digest,
  source bindings and the new content. The session stays locked throughout.
\<close>

definition artifact_upload_commit ::
  "(bytes \<Rightarrow> bytes) \<Rightarrow> transfer_env \<Rightarrow> transfer_call \<Rightarrow>
   (string \<Rightarrow> string option \<Rightarrow> (string \<times> string) list \<Rightarrow> bytes \<Rightarrow> ('w, 'r) op) \<Rightarrow> string \<Rightarrow>
   (transfers \<times> 'w, 'r) op" where
  "artifact_upload_commit sha env call mutate t =
     mcatch
       (mbind (on_fst (locked t (commit_prepare sha env call))) (\<lambda>(m, payload).
        mbind (on_snd (mutate (se_path m) (se_expected m)
                 (case se_source m of None \<Rightarrow> [] | Some (p, d, n) \<Rightarrow> [(p, d)]) payload)) (\<lambda>result.
        mbind (on_fst (locked t (commit_finish call m))) (\<lambda>_. mret result))))
       (\<lambda>e. case e of
          TransferIntegrity c \<Rightarrow>
            mbind (on_fst (mark_transfer_failed env (xc_now call) t failable_states)) (\<lambda>_. mfail e)
        | _ \<Rightarrow> mfail e)"

definition cancel_session :: "transfer_env \<Rightarrow> transfer_call \<Rightarrow> (session_dir, string) op" where
  "cancel_session env call =
     mbind (load_transfer env (xc_now call) None known_states True) (\<lambda>m.
     let m' = (if se_state m \<in> set admission_states
               then set_mark ''cancelled_at'' (xc_now call) (m\<lparr>se_state := ''cancelled''\<rparr>) else m)
     in mbind (if se_state m \<in> set admission_states then write_manifest m' else mret ()) (\<lambda>_.
        mbind (mlift (xc_log call)) (\<lambda>_. mret (se_state m'))))"

definition artifact_transfer_cancel ::
  "transfer_env \<Rightarrow> transfer_call \<Rightarrow> string \<Rightarrow> (transfers, string) op" where
  "artifact_transfer_cancel env call t = locked t (cancel_session env call)"

record transfer_status =
  st_state :: string
  st_total :: int
  st_received :: "int option"
  st_complete :: bool
  st_can_commit :: bool

definition session_status :: "transfer_env \<Rightarrow> int \<Rightarrow> (session_dir, transfer_status) op" where
  "session_status env now =
     mbind (load_transfer env now None known_states False) (\<lambda>m.
     mbind (mlift (transfer_expiry env m)) (\<lambda>expiry.
     let st = (if se_state m \<in> set admission_states \<and> expiry < now then ''expired'' else se_state m);
         upload = (se_direction m = ''upload'');
         complete = (if upload then se_received m = se_bytes m else st = ''completed'')
     in mret \<lparr>st_state = st, st_total = se_bytes m,
              st_received = (if upload then Some (se_received m) else None),
              st_complete = complete, st_can_commit = (upload \<and> st = ''open'' \<and> complete)\<rparr>))"

definition artifact_transfer_status :: "transfer_env \<Rightarrow> int \<Rightarrow> string \<Rightarrow> (transfers, transfer_status) op" where
  "artifact_transfer_status env now t = locked t (session_status env now)"

end
