(* ===== verification/Uploads.thy ===== *)
theory Uploads
  imports Transfers
begin

text \<open>
  What a chunked upload guarantees: the invariant that ties manifest, payload and receipts together
  through every operation and every interruption, and what follows for retries and for the commit.
\<close>

section \<open>Operations that touch only the state of a session\<close>

definition relabelled :: "session_dir \<Rightarrow> session_dir \<Rightarrow> bool" where
  "relabelled d d' \<longleftrightarrow>
     d' = d \<or> (\<exists>m st marks. sd_manifest d = Some m
       \<and> d' = d\<lparr>sd_manifest := Some (m\<lparr>se_state := st, se_marks := marks\<rparr>)\<rparr>)"

lemma relabelled_refl [simp]: "relabelled d d"
  by (simp add: relabelled_def)

lemma relabelled_trans: "relabelled a b \<Longrightarrow> relabelled b c \<Longrightarrow> relabelled a c"
  by (auto simp: relabelled_def) fastforce

lemma relabelled_mark:
  "sd_manifest d = Some m \<Longrightarrow> relabelled d (d\<lparr>sd_manifest := Some (set_mark k now (m\<lparr>se_state := st\<rparr>))\<rparr>)"
  by (auto simp: relabelled_def set_mark_def)

lemma load_manifest_doc_Inr:
  "load_manifest_doc d direction = Inr m \<Longrightarrow> sd_manifest d = Some m \<and> se_state m \<in> set known_states
     \<and> (\<forall>x. direction = Some x \<longrightarrow> se_direction m = x)"
  by (auto simp: load_manifest_doc_def split: option.splits if_splits)

lemma load_transfer_cases [consumes 1, case_names failed expired loaded]:
  assumes "load_transfer env now direction states active d = (d', r)"
  obtains (failed) e where "r = Inl e" "d' = d"
  | (expired) m expiry m' where "load_manifest_doc d direction = Inr m" "transfer_expiry env m = Inr expiry"
      "active" "se_state m \<in> set admission_states" "expiry < now"
      "m' = set_mark ''expired_at'' now (m\<lparr>se_state := ''expired''\<rparr>)" "d' = d\<lparr>sd_manifest := Some m'\<rparr>"
      "r = (if ''expired'' \<in> set states then Inr m' else Inl (TransferStateError ''TRANSFER_EXPIRED''))"
  | (loaded) m expiry where "load_manifest_doc d direction = Inr m" "transfer_expiry env m = Inr expiry"
      "\<not> (active \<and> se_state m \<in> set admission_states \<and> expiry < now)"
      "d' = d" "r = Inr m" "se_state m \<in> set states"
proof (cases "load_manifest_doc d direction")
  case (Inl e)
  then show ?thesis using assms failed by (auto simp: load_transfer_def op_simps)
next
  case (Inr m)
  show ?thesis
  proof (cases "transfer_expiry env m")
    case (Inl e)
    then show ?thesis using assms Inr failed by (auto simp: load_transfer_def op_simps)
  next
    case e: (Inr expiry)
    let ?old = "active \<and> se_state m \<in> set admission_states \<and> expiry < now"
    have x: "''expired'' \<noteq> ''preparing''" "se_state (set_mark k n a) = se_state a" for k n a
      by (simp_all add: set_mark_def)
    show ?thesis
    proof (cases ?old)
      case True
      show ?thesis
        by (rule expired [OF Inr e, OF _ _ _ refl])
          (use True assms Inr e in \<open>auto simp: load_transfer_def write_manifest_def Let_def op_simps x split: if_splits\<close>)
    next
      case False
      then show ?thesis using assms Inr e failed loaded [OF Inr e]
        by (cases "se_state m \<in> set states") (auto simp: load_transfer_def op_simps split: if_splits)
    qed
  qed
qed

lemma load_relabelled:
  assumes "load_transfer env now direction states active d = (d', r)"
  shows "relabelled d d'"
  using assms by (cases rule: load_transfer_cases) (auto simp: relabelled_mark dest: load_manifest_doc_Inr)

lemma load_Inr:
  assumes "load_transfer env now direction states active d = (d', Inr m)"
  shows "sd_manifest d' = Some m" "se_state m \<in> set states"
    "\<And>x. direction = Some x \<Longrightarrow> se_direction m = x"
  using assms by (cases rule: load_transfer_cases; force dest: load_manifest_doc_Inr simp: set_mark_def split: if_splits)+

section \<open>The invariant of an upload\<close>

text \<open>The receipts tile the range from \<open>a\<close> to \<open>b\<close>.\<close>

fun tiles :: "int \<Rightarrow> (int \<times> int \<times> bytes) list \<Rightarrow> int \<Rightarrow> bool" where
  "tiles a [] b \<longleftrightarrow> a = b"
| "tiles a ((offset, n, dg) # rs) b \<longleftrightarrow> offset = a \<and> 0 < n \<and> tiles (a + n) rs b"

definition slice :: "bytes \<Rightarrow> int \<Rightarrow> int \<Rightarrow> bytes" where
  "slice data offset n = take (nat n) (drop (nat offset) data)"

definition digests_ok :: "(bytes \<Rightarrow> bytes) \<Rightarrow> bytes \<Rightarrow> (int \<times> int \<times> bytes) list \<Rightarrow> bool" where
  "digests_ok sha payload rs \<longleftrightarrow> (\<forall>(offset, n, dg)\<in>set rs. dg = sha (slice payload offset n))"

type_synonym receipts = "(int \<times> int \<times> bytes) list"

definition upload_ok ::
  "(bytes \<Rightarrow> bytes) \<Rightarrow> transfer_session \<Rightarrow> bytes \<Rightarrow> receipt_dir \<Rightarrow> receipts \<Rightarrow> bool" where
  "upload_ok sha m payload rd rs \<longleftrightarrow>
     0 \<le> se_received m \<and> se_received m \<le> se_bytes m \<and> int (length payload) = se_bytes m
     \<and> (\<exists>q. validated_index rd (se_receipts m) (Some (se_bytes m)) False = Inr q)
     \<and> int (length rs) = se_receipts m \<and> confirmed (rd_data rd) rs \<and> tiles 0 rs (se_received m)
     \<and> digests_ok sha payload rs"

definition upload_inv :: "(bytes \<Rightarrow> bytes) \<Rightarrow> session_dir \<Rightarrow> receipts \<Rightarrow> bool" where
  "upload_inv sha d rs \<longleftrightarrow>
     (\<exists>m. sd_manifest d = Some m \<and> se_version m = 5 \<and> upload_ok sha m (sd_payload d) (sd_receipts d) rs)"

lemma upload_ok_relabel [simp]:
  "upload_ok sha (m\<lparr>se_state := st\<rparr>) payload rd rs = upload_ok sha m payload rd rs"
  "upload_ok sha (m\<lparr>se_marks := marks\<rparr>) payload rd rs = upload_ok sha m payload rd rs"
  by (simp_all add: upload_ok_def)

lemma relabelled_inv: "relabelled d d' \<Longrightarrow> upload_inv sha d rs \<Longrightarrow> upload_inv sha d' rs"
  by (auto simp: relabelled_def upload_inv_def)

lemma tiles_bounds:
  "tiles a rs b \<Longrightarrow> a \<le> b \<and> (\<forall>(offset, n, dg)\<in>set rs. a \<le> offset \<and> 0 < n \<and> offset + n \<le> b)"
proof (induction rs arbitrary: a)
  case (Cons r rs)
  obtain offset n dg where r: "r = (offset, n, dg)" by (cases r)
  then have "offset = a" "0 < n" "a + n \<le> b" "\<forall>(offset, k, dg)\<in>set rs. a + n \<le> offset \<and> 0 < k \<and> offset + k \<le> b"
    using Cons.prems Cons.IH [of "a + n"] by auto
  then show ?case using r by force
qed simp

lemma tiles_increasing: "tiles a rs b \<Longrightarrow> increasing rs"
proof (induction rs arbitrary: a)
  case (Cons r rs)
  obtain offset n dg where r: "r = (offset, n, dg)" by (cases r)
  have t: "tiles (a + n) rs b" "offset = a" "0 < n" using Cons.prems r by auto
  have "offset < fst x" if "x \<in> set rs" for x
    using tiles_bounds [OF t(1)] t(2,3) that by force
  then show ?case using Cons.IH [OF t(1)] r by (simp add: increasing_def)
qed (simp add: increasing_def)

lemma tiles_snoc: "tiles a rs b \<Longrightarrow> 0 < n \<Longrightarrow> tiles a (rs @ [(b, n, dg)]) (b + n)"
  by (induction a rs b rule: tiles.induct) auto

lemma slice_prefix:
  assumes "take (nat k) data' = take (nat k) data" "0 \<le> offset" "0 \<le> n" "offset + n \<le> k"
  shows "slice data' offset n = slice data offset n"
proof -
  have "slice x offset n = take (nat n) (drop (nat offset) (take (nat k) x))" for x
  proof -
    have "nat n \<le> nat k - nat offset" using assms(2-4) by linarith
    then show ?thesis by (simp add: slice_def drop_take min_absorb1)
  qed
  then show ?thesis using assms(1) by metis
qed

lemma upload_ok_payload:
  assumes "upload_ok sha m payload rd rs" "length payload' = length payload"
    "take (nat (se_received m)) payload' = take (nat (se_received m)) payload"
  shows "upload_ok sha m payload' rd rs"
proof -
  have "digests_ok sha payload' rs" if "tiles 0 rs (se_received m)" "digests_ok sha payload rs" for rs
    unfolding digests_ok_def
  proof clarify
    fix offset n dg
    assume r: "(offset, n, dg) \<in> set rs"
    then have "0 \<le> offset" "0 \<le> n" "offset + n \<le> se_received m" using tiles_bounds [OF that(1)] by auto
    then have "slice payload' offset n = slice payload offset n" using slice_prefix [OF assms(3)] by blast
    then show "dg = sha (slice payload' offset n)" using that(2) r by (auto simp: digests_ok_def)
  qed
  then show ?thesis using assms(1,2) unfolding upload_ok_def by auto
qed

lemma upload_ok_index:
  assumes "upload_ok sha m payload rd rs" "take (nat (se_receipts m) * receipt_bytes) data = take (nat (se_receipts m) * receipt_bytes) (rd_data rd)"
    "length (rd_data rd) \<le> length data" "\<exists>q. validated_index (rd\<lparr>rd_data := data\<rparr>) (se_receipts m) (Some (se_bytes m)) False = Inr q"
  shows "upload_ok sha m payload (rd\<lparr>rd_data := data\<rparr>) rs"
proof -
  have "confirmed data rs" if "confirmed (rd_data rd) rs" "int (length rs) = se_receipts m" for rs
  proof -
    have "nat (se_receipts m) = length rs" using that(2) by linarith
    then show ?thesis using that(1) assms(2,3) by (simp add: confirmed_def)
  qed
  then show ?thesis using assms(1,4) unfolding upload_ok_def by auto
qed

lemma read_index_iff:
  "validated_index rd count (Some b) False = Inr q \<longleftrightarrow>
     0 \<le> count \<and> count \<le> b \<and> b * int receipt_bytes \<le> max_file_offset
     \<and> validate_root rd = Inr () \<and> validate_index_node rd = Inr ()
     \<and> count * int receipt_bytes \<le> int (length (rd_data rd)) \<and> int (length (rd_data rd)) mod int receipt_bytes = 0
     \<and> int (length (rd_data rd)) \<le> b * int receipt_bytes \<and> q = count * int receipt_bytes"
proof -
  have "0 \<le> count \<Longrightarrow> count \<le> b \<Longrightarrow> b * int receipt_bytes \<le> max_file_offset \<Longrightarrow>
      count * int receipt_bytes \<le> max_file_offset"
    by (meson mult_right_mono of_nat_0_le_iff order_trans)
  then show ?thesis
    by (auto simp: validated_index_def validate_capacity_def validate_count_def rbind_eq_Inr Let_def split: if_splits)
qed

lemma validate_data [simp]:
  "validate_root (rd\<lparr>rd_data := x\<rparr>) = validate_root rd"
  "validate_index_node (rd\<lparr>rd_data := x\<rparr>) = validate_index_node rd"
  by (simp_all add: validate_root_def validate_index_node_def)

lemma reserve_keeps:
  assumes "upload_ok sha m (sd_payload d) (sd_receipts d) rs" "reserve_receipt env call m d = (d', r)"
  shows "d' = d\<lparr>sd_receipts := sd_receipts d'\<rparr>" "upload_ok sha m (sd_payload d) (sd_receipts d') rs"
proof -
  let ?rd = "sd_receipts d" and ?k = "int receipt_bytes"
  let ?n = "int (length (rd_data ?rd))"
  let ?grown = "min (se_bytes m) (se_receipts m + 1024) * ?k - ?n"
  have "d' = d \<or> (?n = se_receipts m * ?k
      \<and> d' = d\<lparr>sd_receipts := ?rd\<lparr>rd_data := rd_data ?rd @ replicate (nat ?grown) 0\<rparr>\<rparr>)"
    using assms(2) by (auto simp: reserve_receipt_def Let_def op_simps split: if_splits)
  then have "d' = d\<lparr>sd_receipts := sd_receipts d'\<rparr> \<and> upload_ok sha m (sd_payload d) (sd_receipts d') rs"
  proof
    assume g: "?n = se_receipts m * ?k
      \<and> d' = d\<lparr>sd_receipts := ?rd\<lparr>rd_data := rd_data ?rd @ replicate (nat ?grown) 0\<rparr>\<rparr>"
    obtain q where q: "validated_index ?rd (se_receipts m) (Some (se_bytes m)) False = Inr q"
      using assms(1) by (auto simp: upload_ok_def)
    note i = q [unfolded read_index_iff]
    have cap: "se_receipts m \<le> min (se_bytes m) (se_receipts m + 1024)" using i by simp
    have "se_receipts m * ?k \<le> min (se_bytes m) (se_receipts m + 1024) * ?k"
      by (rule mult_right_mono [OF cap]) simp
    then have len: "int (length (rd_data ?rd @ replicate (nat ?grown) 0)) = min (se_bytes m) (se_receipts m + 1024) * ?k"
      using g by simp
    have "\<exists>q. validated_index (?rd\<lparr>rd_data := rd_data ?rd @ replicate (nat ?grown) 0\<rparr>) (se_receipts m)
        (Some (se_bytes m)) False = Inr q"
      using i len by (auto simp: read_index_iff intro!: mult_right_mono)
    moreover have "nat (se_receipts m) * receipt_bytes \<le> length (rd_data ?rd)"
    proof -
      have "int (nat (se_receipts m) * receipt_bytes) \<le> ?n" using i by simp
      then show ?thesis by (simp only: of_nat_le_iff)
    qed
    ultimately have "upload_ok sha m (sd_payload d) (?rd\<lparr>rd_data := rd_data ?rd @ replicate (nat ?grown) 0\<rparr>) rs"
      by (intro upload_ok_index [OF assms(1)]) simp_all
    then show ?thesis using g by simp
  qed (use assms(1) in simp)
  then show "d' = d\<lparr>sd_receipts := sd_receipts d'\<rparr>" "upload_ok sha m (sd_payload d) (sd_receipts d') rs" by blast+
qed

lemma confirmed_init: "confirmed data (rs @ [r]) \<Longrightarrow> confirmed data rs"
proof -
  assume c: "confirmed data (rs @ [r])"
  have "length (concat (List.map pack_record rs)) = length rs * receipt_bytes"
    using concat_blocks_length [of "List.map pack_record rs" receipt_bytes]
    by (metis (no_types, lifting) imageE length_map list.set_map pack_record_length)
  moreover have "take (length rs * receipt_bytes) data
      = take (length rs * receipt_bytes) (concat (List.map pack_record rs) @ pack_record r)"
  proof -
    have "take (length (rs @ [r]) * receipt_bytes) data = concat (List.map pack_record rs) @ pack_record r"
      using c by (simp add: confirmed_def)
    then have "take (length rs * receipt_bytes) (take (length (rs @ [r]) * receipt_bytes) data)
      = take (length rs * receipt_bytes) (concat (List.map pack_record rs) @ pack_record r)" by simp
    then show ?thesis by (simp add: min_absorb1)
  qed
  ultimately show ?thesis using c by (simp add: confirmed_def)
qed

lemma append_keeps_ok:
  assumes ok: "upload_ok sha m payload rd rs" and n: "n \<le> receipt_bytes" and sha: "length (sha chunk) = 32"
    and a: "append_receipt sha rd (se_receipts m) (se_received m) chunk (Some (se_bytes m)) n = (rd', r)"
    and chunk: "slice payload (se_received m) (int (length chunk)) = chunk"
      "se_received m + int (length chunk) \<le> se_bytes m"
  shows "upload_ok sha m payload rd' rs"
    and "r = Inr () \<Longrightarrow> upload_ok sha (m\<lparr>se_receipts := se_receipts m + 1,
           se_received := se_received m + int (length chunk)\<rparr>) payload rd'
           (rs @ [(se_received m, int (length chunk), sha chunk)])"
proof -
  obtain q where q: "validated_index rd (se_receipts m) (Some (se_bytes m)) False = Inr q"
    and rs: "int (length rs) = se_receipts m" "confirmed (rd_data rd) rs" "tiles 0 rs (se_received m)"
      "digests_ok sha payload rs"
    using ok by (auto simp: upload_ok_def)
  note i = q [unfolded read_index_iff]
  show second: "upload_ok sha (m\<lparr>se_receipts := se_receipts m + 1,
           se_received := se_received m + int (length chunk)\<rparr>) payload rd'
           (rs @ [(se_received m, int (length chunk), sha chunk)])" if "r = Inr ()"
  proof -
    have a': "append_receipt sha rd (int (length rs)) (se_received m) chunk (Some (se_bytes m)) n = (rd', Inr ())"
      using a rs(1) that by simp
    obtain position where v: "validated_index rd (int (length rs)) (Some (se_bytes m)) True = Inr position"
      and ne: "chunk \<noteq> []" and rd': "rd' = rd\<lparr>rd_data := rd_data rd'\<rparr>"
      by (rule append_receipt_Inr [OF a']) simp
    have c: "confirmed (rd_data rd') (rs @ [(se_received m, int (length chunk), sha chunk)])"
      and l: "length (rd_data rd') = length (rd_data rd)"
      using append_confirmed [OF rs(2) a' sha] by auto
    have "tiles 0 (rs @ [(se_received m, int (length chunk), sha chunk)]) (se_received m + int (length chunk))"
      by (rule tiles_snoc [OF rs(3)]) (use ne in simp)
    moreover have "digests_ok sha payload (rs @ [(se_received m, int (length chunk), sha chunk)])"
      using rs(4) chunk(1) by (simp add: digests_ok_def)
    moreover have "\<exists>q. validated_index rd' (se_receipts m + 1) (Some (se_bytes m)) False = Inr q"
      using i validated_index_Inr [OF v] rs(1) l
      by (subst rd') (auto simp: read_index_iff distrib_right)
    moreover have "0 \<le> se_received m" "int (length payload) = se_bytes m" using ok by (auto simp: upload_ok_def)
    ultimately show ?thesis
      using c chunk(2) rs(1) unfolding upload_ok_def
      by (intro conjI) simp_all
  qed
  show "upload_ok sha m payload rd' rs"
  proof (cases "rd' = rd")
    case False
    show ?thesis
    proof (cases "n < receipt_bytes")
      case True
      then obtain position part where p: "validated_index rd (se_receipts m) (Some (se_bytes m)) True = Inr position"
        "length part = n" "rd' = rd\<lparr>rd_data := write_at (nat position) part (rd_data rd)\<rparr>"
        using append_interrupted [OF True] a False by (metis fst_conv)
      note j = validated_index_Inr [OF p(1)]
      have le: "nat position \<le> length (rd_data rd)" using j by (simp add: nat_le_iff)
      have "int (nat position) + int receipt_bytes \<le> int (length (rd_data rd))" using j by simp
      then have "nat position + n \<le> length (rd_data rd)" using True by linarith
      then have l: "length (write_at (nat position) part (rd_data rd)) = length (rd_data rd)"
        using write_at_length [OF le] p(2) by simp
      have np: "nat (se_receipts m) * receipt_bytes = nat position" using j by (simp add: nat_mult_distrib)
      show ?thesis unfolding p(3)
      proof (rule upload_ok_index [OF ok])
        show "\<exists>q. validated_index (rd\<lparr>rd_data := write_at (nat position) part (rd_data rd)\<rparr>) (se_receipts m)
            (Some (se_bytes m)) False = Inr q" using i l by (simp add: read_index_iff)
      qed (simp_all add: np l write_at_prefix [OF le])
    next
      case full: False
      then have "r = Inr ()" using a n False
        by (auto simp: append_receipt_def Let_def split: sum.splits if_splits)
      from second [OF this] obtain q' where s: "validated_index rd' (se_receipts m + 1) (Some (se_bytes m)) False = Inr q'" by (auto simp: upload_ok_def)
      have a': "append_receipt sha rd (int (length rs)) (se_received m) chunk (Some (se_bytes m)) n = (rd', Inr ())"
        using a rs(1) \<open>r = Inr ()\<close> by simp
      have "confirmed (rd_data rd') (rs @ [(se_received m, int (length chunk), sha chunk)])"
        using append_confirmed [OF rs(2) a' sha] by blast
      then have "confirmed (rd_data rd') rs" by (rule confirmed_init)
      moreover have "\<exists>q. validated_index rd' (se_receipts m) (Some (se_bytes m)) False = Inr q"
        using s(1) i by (auto simp: read_index_iff distrib_right)
      ultimately show ?thesis using ok rs unfolding upload_ok_def by auto
    qed
  qed (use ok in simp)
qed

section \<open>The effect of a chunk\<close>

definition received_more :: "transfer_session \<Rightarrow> int \<Rightarrow> transfer_session" where
  "received_more m n = m\<lparr>se_receipts := se_receipts m + 1, se_received := se_received m + n\<rparr>"

lemma write_payload_cases:
  assumes "write_payload call position payload d = (d', r)"
  obtains part where "length part \<le> length payload"
    "d' = d\<lparr>sd_payload := write_at position part (sd_payload d), sd_payload_id := xc_stamp call\<rparr>"
    "r = Inr () \<Longrightarrow> part = payload"
proof (cases "xc_cut call")
  case (InPayload n)
  then show ?thesis using assms that [of "take n payload"] by (auto simp: write_payload_def op_simps)
qed (use assms that [of payload] in \<open>auto simp: write_payload_def op_simps\<close>)

lemma store_receipt_cases:
  assumes "store_receipt sha call m offset payload d = (d', r)"
  obtains n r' where "n \<le> receipt_bytes"
    "append_receipt sha (sd_receipts d) (se_receipts m) offset payload (Some (se_bytes m)) n = (sd_receipts d', r')"
    "d' = d\<lparr>sd_receipts := sd_receipts d'\<rparr>" "r = Inr () \<Longrightarrow> r' = Inr ()"
proof -
  let ?n = "case xc_cut call of InReceipt n ended \<Rightarrow> min n 47 | _ \<Rightarrow> receipt_bytes"
  obtain rd r' where a: "append_receipt sha (sd_receipts d) (se_receipts m) offset payload (Some (se_bytes m)) ?n = (rd, r')"
    by fastforce
  have "?n \<le> receipt_bytes" by (auto simp: receipt_bytes_def split: cut.split)
  moreover have "d' = d\<lparr>sd_receipts := rd\<rparr>" "r = Inr () \<Longrightarrow> r' = Inr ()"
    using assms a by (auto simp: store_receipt_def Let_def op_simps split: sum.splits cut.splits bool.splits)
  ultimately show ?thesis using that a by fastforce
qed

lemma chunk_effect [consumes 5, case_names refused again stopped stored]:
  assumes m: "sd_manifest d = Some m" "se_version m = 5" "upload_ok sha m (sd_payload d) (sd_receipts d) rs"
    and sha: "\<And>x. length (sha x) = 32"
    and w: "write_upload_chunk sha env call m offset chunk d = (d', r)"
  obtains (refused) e where "r = Inl e" "d' = d"
  | (again) "0 \<le> offset" "offset < se_received m" "d' = d" "r = acknowledge_again sha d m offset chunk"
  | (stopped) e where "r = Inl e" "sd_manifest d' = Some m" "upload_ok sha m (sd_payload d') (sd_receipts d') rs"
      "take (nat (se_received m)) (sd_payload d') = take (nat (se_received m)) (sd_payload d)"
      "sd_payload_node d' = sd_payload_node d"
  | (stored) "r = Inr (received_more m (int (length chunk)))" "offset = se_received m" "se_state m = ''open''"
      "sd_manifest d' = Some (received_more m (int (length chunk)))"
      "upload_ok sha (received_more m (int (length chunk))) (sd_payload d') (sd_receipts d')
         (rs @ [(offset, int (length chunk), sha chunk)])"
      "sd_payload d' = write_at (nat offset) chunk (sd_payload d)" "sd_payload_node d' = sd_payload_node d"
      "plain_regular (sd_payload_node d)" "node_links (sd_payload_node d) \<le> 1"
      "offset + int (length chunk) \<le> se_bytes m" "sd_manifest_node d' = sd_manifest_node d"
proof -
  consider "offset < 0 \<or> se_received m < offset" | "0 \<le> offset" "offset < se_received m"
    | "offset = se_received m" "se_state m \<noteq> ''open'' \<or> se_bytes m < offset + int (length chunk)"
    | "offset = se_received m" "se_state m = ''open''" "offset + int (length chunk) \<le> se_bytes m" by linarith
  then show ?thesis
  proof cases
    case 1
    then show ?thesis using w refused by (auto simp: write_upload_chunk_def op_simps)
  next
    case 2
    then show ?thesis using w again by (auto simp: write_upload_chunk_def op_simps)
  next
    case 3
    then show ?thesis using w refused by (auto simp: write_upload_chunk_def op_simps split: if_splits)
  next
    case 4
    have nn: "0 \<le> offset" "int (length (sd_payload d)) = se_bytes m" using m(3) 4(1) by (auto simp: upload_ok_def)
    have steps: "mbind (reserve_receipt env call m) (\<lambda>_.
        mbind (mbind (mget (\<lambda>d. validated_payload d m False)) (\<lambda>safe.
                 mbind (mlift safe) (\<lambda>_.
                 mbind (write_payload call (nat offset) chunk) (\<lambda>_.
                 mbind (mget (\<lambda>d. validated_payload d m False)) mlift)))) (\<lambda>_.
        mbind (store_receipt sha call m offset chunk) (\<lambda>_.
          if xc_cut call = BeforeManifest then mfail (OSError ''manifest'')
          else mbind (write_manifest (received_more m (int (length chunk))))
                 (\<lambda>_. mret (received_more m (int (length chunk))))))) d = (d', r)"
      using w 4 m(2) nn(1) by (simp add: write_upload_chunk_def received_more_def Let_def cong: if_cong)
    obtain d1 r1 where r1: "reserve_receipt env call m d = (d1, r1)" by fastforce
    note k1 = reserve_keeps [OF m(3) r1]
    have same1: "sd_manifest d1 = Some m" "sd_payload d1 = sd_payload d" "sd_payload_node d1 = sd_payload_node d"
      "sd_manifest_node d1 = sd_manifest_node d"
      by (subst k1(1), use m(1) in simp)+
    show ?thesis
    proof (cases "r1 = Inr () \<and> validated_payload d1 m False = Inr ()")
      case False
      then have "d' = d1 \<and> (\<exists>e. r = Inl e)" using steps r1 by (cases r1) (auto simp: op_simps)
      then show ?thesis using stopped same1 k1(2) by auto
    next
      case True
      obtain d2 r2 where r2: "write_payload call (nat offset) chunk d1 = (d2, r2)" by fastforce
      from write_payload_cases [OF r2] obtain part where part: "length part \<le> length chunk"
        "d2 = d1\<lparr>sd_payload := write_at (nat offset) part (sd_payload d), sd_payload_id := xc_stamp call\<rparr>"
        "r2 = Inr () \<Longrightarrow> part = chunk" using same1(2) by metis
      have pos: "nat offset \<le> length (sd_payload d)" "nat offset + length chunk \<le> length (sd_payload d)"
        using nn 4(3) by linarith+
      have len2: "length (sd_payload d2) = length (sd_payload d)"
        using part(1,2) pos write_at_length [OF pos(1), of part] by simp
      have pre2: "take (nat (se_received m)) (sd_payload d2) = take (nat (se_received m)) (sd_payload d)"
        using part(2) write_at_prefix [OF pos(1)] 4(1) by simp
      have ok2: "upload_ok sha m (sd_payload d2) (sd_receipts d2) rs"
        using upload_ok_payload [OF k1(2), of "sd_payload d2"] len2 pre2 part(2) by simp
      have same2: "sd_manifest d2 = Some m" "sd_payload_node d2 = sd_payload_node d"
        "sd_manifest_node d2 = sd_manifest_node d" using part(2) same1 by simp_all
      show ?thesis
      proof (cases "r2 = Inr () \<and> validated_payload d2 m False = Inr ()")
        case False
        then have "d' = d2 \<and> (\<exists>e. r = Inl e)" using steps r1 True r2 by (cases r2) (auto simp: op_simps)
        then show ?thesis using stopped same2 ok2 pre2 by auto
      next
        case t2: True
        obtain d3 r3 where r3: "store_receipt sha call m offset chunk d2 = (d3, r3)" by fastforce
        from store_receipt_cases [OF r3] obtain n r' where st: "n \<le> receipt_bytes"
          "append_receipt sha (sd_receipts d2) (se_receipts m) offset chunk (Some (se_bytes m)) n = (sd_receipts d3, r')"
          "d3 = d2\<lparr>sd_receipts := sd_receipts d3\<rparr>" "r3 = Inr () \<Longrightarrow> r' = Inr ()" by metis
        have pl: "sd_payload d2 = write_at (nat offset) chunk (sd_payload d)" using part t2 by simp
        have sl: "slice (sd_payload d2) (se_received m) (int (length chunk)) = chunk"
          using pos(1) 4(1) by (simp add: pl slice_def write_at_def)
        note ak = append_keeps_ok [OF ok2 st(1) sha st(2) [unfolded 4(1)] sl 4(3) [unfolded 4(1)]]
        have same3: "sd_manifest d3 = Some m" "sd_payload d3 = sd_payload d2" "sd_payload_node d3 = sd_payload_node d"
          "sd_manifest_node d3 = sd_manifest_node d"
          by (subst st(3), use same2 in simp)+
        show ?thesis
        proof (cases "r3 = Inr () \<and> xc_cut call \<noteq> BeforeManifest")
          case False
          then have "d' = d3 \<and> (\<exists>e. r = Inl e)" using steps r1 True r2 t2 r3
            by (cases r3) (auto simp: op_simps)
          then show ?thesis using stopped same3 ak(1) pre2 by auto
        next
          case t3: True
          have "d' = d3\<lparr>sd_manifest := Some (received_more m (int (length chunk)))\<rparr>
              \<and> r = Inr (received_more m (int (length chunk)))"
            using steps r1 True r2 t2 r3 t3 by (auto simp: op_simps write_manifest_def)
          moreover have "plain_regular (sd_payload_node d) \<and> node_links (sd_payload_node d) \<le> 1"
            using True same1(3) by (auto simp: validated_payload_def split: if_splits)
          ultimately show ?thesis using stored 4 same3 ak(2) st(4) t3 pl by (simp add: received_more_def)
        qed
      qed
    qed
  qed
qed

section \<open>Runs of a session\<close>

text \<open>
  What can happen to the directory of an upload: a chunk, a commit (whose workspace mutation returns or
  not), a failure recorded by another call, a cancellation, an admission that passes by, a look at its
  status. Any of them may be cut off.
\<close>

datatype upload_event =
    Receive transfer_call int bytes
  | Commit transfer_call bool
  | Fail int "string list"
  | Cancel transfer_call
  | Admit int
  | Look int

fun upload_step ::
  "(bytes \<Rightarrow> bytes) \<Rightarrow> transfer_env \<Rightarrow> session_dir \<Rightarrow> upload_event \<Rightarrow> session_dir" where
  "upload_step sha env d (Receive call offset chunk) = fst (receive_chunk sha env call offset chunk d)"
| "upload_step sha env d (Commit call returns) =
     (case commit_prepare sha env call d of
        (d', Inr (m, payload)) \<Rightarrow> if returns then fst (commit_finish call m d') else d'
      | (d', Inl e) \<Rightarrow> d')"
| "upload_step sha env d (Fail now states) = fst (mark_failed_session env now states d)"
| "upload_step sha env d (Cancel call) = fst (cancel_session env call d)"
| "upload_step sha env d (Admit now) = fst (admit_one env now d)"
| "upload_step sha env d (Look now) = fst (session_status env now d)"

definition upload_run ::
  "(bytes \<Rightarrow> bytes) \<Rightarrow> transfer_env \<Rightarrow> upload_event list \<Rightarrow> session_dir \<Rightarrow> session_dir" where
  "upload_run sha env events d = foldl (upload_step sha env) d events"

lemma load_then_relabelled:
  assumes "mbind (load_transfer env now direction states active) f d = (d', r)"
    and "\<And>m u. sd_manifest u = Some m \<Longrightarrow> f m u = (d', r) \<Longrightarrow> relabelled u d'"
  shows "relabelled d d'"
proof -
  obtain u q where l: "load_transfer env now direction states active d = (u, q)" by fastforce
  show ?thesis
  proof (cases q)
    case (Inl e)
    then show ?thesis using assms(1) l load_relabelled [OF l] by (auto simp: op_simps)
  next
    case (Inr m)
    then have "f m u = (d', r)" using assms(1) l by (auto simp: op_simps)
    then show ?thesis using assms(2) load_Inr(1) l Inr load_relabelled [OF l] relabelled_trans by blast
  qed
qed

lemma mark_failed_relabels: "mark_failed_session env now states d = (d', r) \<Longrightarrow> relabelled d d'"
  unfolding mark_failed_session_def
  by (erule load_then_relabelled) (auto simp: op_simps write_manifest_def relabelled_mark split: if_splits)

lemma cancel_relabels: "cancel_session env call d = (d', r) \<Longrightarrow> relabelled d d'"
  unfolding cancel_session_def
  by (erule load_then_relabelled) (auto simp: op_simps Let_def write_manifest_def relabelled_mark split: if_splits)

lemma status_relabels: "session_status env now d = (d', r) \<Longrightarrow> relabelled d d'"
  unfolding session_status_def by (erule load_then_relabelled) (auto simp: op_simps Let_def)

lemma prepare_relabels: "commit_prepare sha env call d = (d', r) \<Longrightarrow> relabelled d d'"
  unfolding commit_prepare_def by (erule load_then_relabelled) (auto simp: op_simps split: if_splits)

lemma prepare_Inr:
  assumes "commit_prepare sha env call d = (d', Inr (m, payload))"
  shows "sd_manifest d' = Some m" "d' = d" "payload = sd_payload d" "int (length payload) = se_bytes m"
    "Some (hex_sha sha payload) = se_sha m" "se_received m = se_bytes m" "se_state m = ''open''"
    "se_direction m = ''upload''"
proof -
  obtain u where l: "load_transfer env (xc_now call) (Some ''upload'') [''open''] True d = (u, Inr m)"
    and r: "d' = u" "payload = sd_payload u" "int (length payload) = se_bytes m"
      "Some (hex_sha sha payload) = se_sha m" "se_received m = se_bytes m"
    using assms by (auto simp: commit_prepare_def op_simps split: if_splits)
  have "u = d" using l by (cases rule: load_transfer_cases) (auto simp: set_mark_def)
  then show "sd_manifest d' = Some m" "d' = d" "payload = sd_payload d" "int (length payload) = se_bytes m"
    "Some (hex_sha sha payload) = se_sha m" "se_received m = se_bytes m" "se_state m = ''open''"
    "se_direction m = ''upload''"
    using load_Inr [OF l] r by auto
qed

lemma finish_relabels:
  assumes "commit_finish call m d = (d', r)" "sd_manifest d = Some m"
  shows "relabelled d d'"
  using assms by (auto simp: commit_finish_def write_manifest_def op_simps relabelled_mark split: if_splits)

lemma admit_relabels: "relabelled d (fst (admit_one env now d))"
  by (auto simp: admit_one_def relabelled_mark split: node.splits option.splits sum.splits)

lemma other_steps_relabel:
  assumes "\<And>call offset chunk. e \<noteq> Receive call offset chunk"
  shows "relabelled d (upload_step sha env d e)"
proof (cases e)
  case (Commit call returns)
  obtain d1 r where p: "commit_prepare sha env call d = (d1, r)" by fastforce
  show ?thesis
  proof (cases r)
    case (Inr x)
    obtain m payload where x: "x = (m, payload)" by (cases x)
    have "relabelled d1 (fst (commit_finish call m d1))"
      using finish_relabels prepare_Inr(1) [OF p [unfolded Inr x]] by (metis prod.collapse)
    then show ?thesis using Commit p Inr x prepare_relabels [OF p] relabelled_trans by auto
  qed (use Commit p prepare_relabels [OF p] in simp)
qed (use assms mark_failed_relabels cancel_relabels status_relabels admit_relabels in
      \<open>auto simp: prod_eq_iff intro: mark_failed_relabels [OF prod.collapse [symmetric]]
        cancel_relabels [OF prod.collapse [symmetric]] status_relabels [OF prod.collapse [symmetric]]\<close>)

definition same_upload :: "transfer_session \<Rightarrow> transfer_session \<Rightarrow> bool" where
  "same_upload m m' \<longleftrightarrow>
     m' = m\<lparr>se_state := se_state m', se_marks := se_marks m', se_receipts := se_receipts m',
            se_received := se_received m'\<rparr>"

definition continues :: "session_dir \<Rightarrow> receipts \<Rightarrow> session_dir \<Rightarrow> receipts \<Rightarrow> bool" where
  "continues d rs d' rs' \<longleftrightarrow>
     (\<exists>m m' more. sd_manifest d = Some m \<and> sd_manifest d' = Some m' \<and> same_upload m m'
       \<and> rs' = rs @ more \<and> se_received m \<le> se_received m'
       \<and> take (nat (se_received m)) (sd_payload d') = take (nat (se_received m)) (sd_payload d)
       \<and> sd_payload_node d' = sd_payload_node d)"

lemma same_upload_refl [simp]: "same_upload m m"
  by (simp add: same_upload_def)

lemma same_uploadD:
  assumes "same_upload m m'"
  shows "se_bytes m' = se_bytes m" "se_sha m' = se_sha m" "se_path m' = se_path m"
    "se_expected m' = se_expected m" "se_source m' = se_source m" "se_version m' = se_version m"
    "se_direction m' = se_direction m" "se_created m' = se_created m" "se_expires m' = se_expires m"
  by (subst assms [unfolded same_upload_def], simp)+

lemma same_upload_trans:
  assumes "same_upload a b" "same_upload b c"
  shows "same_upload a c"
proof -
  have "c = b\<lparr>se_state := se_state c, se_marks := se_marks c, se_receipts := se_receipts c,
            se_received := se_received c\<rparr>" using assms(2) by (simp add: same_upload_def)
  moreover have "b = a\<lparr>se_state := se_state b, se_marks := se_marks b, se_receipts := se_receipts b,
            se_received := se_received b\<rparr>" using assms(1) by (simp add: same_upload_def)
  ultimately have "c = (a\<lparr>se_state := se_state b, se_marks := se_marks b, se_receipts := se_receipts b,
            se_received := se_received b\<rparr>)\<lparr>se_state := se_state c, se_marks := se_marks c, se_receipts := se_receipts c,
            se_received := se_received c\<rparr>" by (rule subst [rotated])
  then show ?thesis by (simp add: same_upload_def)
qed

lemma continues_trans:
  assumes "continues a rs b rs1" "continues b rs1 c rs2"
  shows "continues a rs c rs2"
proof -
  obtain m m1 more where 1: "sd_manifest a = Some m" "sd_manifest b = Some m1" "same_upload m m1"
    "rs1 = rs @ more" "se_received m \<le> se_received m1"
    "take (nat (se_received m)) (sd_payload b) = take (nat (se_received m)) (sd_payload a)"
    "sd_payload_node b = sd_payload_node a" using assms(1) by (auto simp: continues_def)
  obtain m2 more2 where 2: "sd_manifest c = Some m2" "same_upload m1 m2"
    "rs2 = rs1 @ more2" "se_received m1 \<le> se_received m2"
    "take (nat (se_received m1)) (sd_payload c) = take (nat (se_received m1)) (sd_payload b)"
    "sd_payload_node c = sd_payload_node b" using assms(2) 1(2) by (auto simp: continues_def)
  have "take (nat (se_received m)) (sd_payload c) = take (nat (se_received m)) (take (nat (se_received m1)) (sd_payload c))"
    using 1(5) by (simp add: min_absorb1 nat_mono)
  also have "\<dots> = take (nat (se_received m)) (sd_payload b)"
    using 1(5) 2(5) by (simp add: min_absorb1 nat_mono)
  finally show ?thesis
    using 1 2 same_upload_trans [OF 1(3) 2(2)]
    unfolding continues_def by (intro exI [of _ m] exI [of _ m2] exI [of _ "more @ more2"]) simp
qed

lemma relabelled_continues:
  assumes "relabelled d d'" "sd_manifest d = Some m"
  shows "continues d rs d' rs"
  using assms by (auto simp: relabelled_def continues_def same_upload_def)

lemma receive_continues:
  assumes inv: "upload_inv sha d rs" and sha: "\<And>x. length (sha x) = 32"
    and r: "receive_chunk sha env call offset chunk d = (d', r)"
  shows "\<exists>rs'. upload_inv sha d' rs' \<and> continues d rs d' rs'"
proof -
  obtain m0 where m0: "sd_manifest d = Some m0" using inv by (auto simp: upload_inv_def)
  obtain u q where l: "load_transfer env (xc_now call) (Some ''upload'') [''open'', ''committed''] True d = (u, q)"
    by fastforce
  have u: "upload_inv sha u rs" "continues d rs u rs"
    using relabelled_inv [OF load_relabelled [OF l] inv] relabelled_continues [OF load_relabelled [OF l] m0] by auto
  show ?thesis
  proof (cases q)
    case (Inl e)
    then show ?thesis using r l u by (auto simp: receive_chunk_def op_simps)
  next
    case (Inr m)
    have m: "sd_manifest u = Some m" using load_Inr(1) l Inr by blast
    then have ok: "se_version m = 5" "upload_ok sha m (sd_payload u) (sd_receipts u) rs"
      using u(1) by (auto simp: upload_inv_def)
    have w: "write_upload_chunk sha env call m offset chunk u = (d', r)"
      using r l Inr by (auto simp: receive_chunk_def op_simps)
    from m ok sha w have "\<exists>rs'. upload_inv sha d' rs' \<and> continues u rs d' rs'"
    proof (cases rule: chunk_effect)
      case (refused e)
      then show ?thesis using u(1) relabelled_continues [OF relabelled_refl m] by auto
    next
      case again
      then show ?thesis using u(1) relabelled_continues [OF relabelled_refl m] by auto
    next
      case (stopped e)
      then have "upload_inv sha d' rs" using ok by (auto simp: upload_inv_def)
      moreover have "continues u rs d' rs" using stopped m by (auto simp: continues_def)
      ultimately show ?thesis by blast
    next
      case stored
      have "upload_inv sha d' (rs @ [(offset, int (length chunk), sha chunk)])"
        using stored ok by (auto simp: upload_inv_def received_more_def)
      moreover have "nat (se_received m) \<le> length (sd_payload u)" using ok(2) by (auto simp: upload_ok_def)
      then have "continues u rs d' (rs @ [(offset, int (length chunk), sha chunk)])"
        using stored m write_at_prefix [of "nat (se_received m)" "sd_payload u" chunk]
        by (auto simp: continues_def received_more_def same_upload_def)
      ultimately show ?thesis by blast
    qed
    then show ?thesis using u(2) continues_trans by blast
  qed
qed

lemma run_continues:
  assumes "upload_inv sha d rs" "\<forall>x. length (sha x) = 32"
  shows "\<exists>rs'. upload_inv sha (upload_run sha env events d) rs' \<and> continues d rs (upload_run sha env events d) rs'"
  using assms(1)
proof (induction events arbitrary: d rs)
  case Nil
  then show ?case using relabelled_continues [OF relabelled_refl] by (auto simp: upload_run_def upload_inv_def)
next
  case (Cons e events)
  have "\<exists>rs'. upload_inv sha (upload_step sha env d e) rs' \<and> continues d rs (upload_step sha env d e) rs'"
  proof (cases "\<exists>call offset chunk. e = Receive call offset chunk")
    case True
    then show ?thesis using receive_continues [OF Cons.prems spec [OF assms(2)]] by (metis prod.collapse upload_step.simps(1))
  next
    case False
    then have "relabelled d (upload_step sha env d e)" using other_steps_relabel by blast
    then show ?thesis using Cons.prems relabelled_inv relabelled_continues by (fastforce simp: upload_inv_def)
  qed
  then obtain rs1 where 1: "upload_inv sha (upload_step sha env d e) rs1" "continues d rs (upload_step sha env d e) rs1"
    by blast
  then show ?case using Cons.IH [OF 1(1)] continues_trans [OF 1(2)] unfolding upload_run_def by auto
qed

section \<open>From the beginning of an upload\<close>

definition upload_manifest ::
  "transfer_env \<Rightarrow> transfer_call \<Rightarrow> string \<Rightarrow> string \<Rightarrow> int \<Rightarrow> string \<Rightarrow> string option \<Rightarrow>
   (string \<times> string \<times> int) option \<Rightarrow> transfer_session" where
  "upload_manifest env call path operation total_bytes digest expected binding =
     (fresh_session env call 5 ''upload'' ''open'' path total_bytes operation)
       \<lparr>se_sha := Some digest, se_expected := expected, se_source := binding,
        se_chunk_max := Some (xe_max_chunk env)\<rparr>"

lemma upload_manifest_sel [simp]:
  "se_bytes (upload_manifest env call path operation n digest expected binding) = n"
  "se_sha (upload_manifest env call path operation n digest expected binding) = Some digest"
  "se_path (upload_manifest env call path operation n digest expected binding) = path"
  "se_expected (upload_manifest env call path operation n digest expected binding) = expected"
  "se_source (upload_manifest env call path operation n digest expected binding) = binding"
  "se_received (upload_manifest env call path operation n digest expected binding) = 0"
  by (simp_all add: upload_manifest_def fresh_session_def)

lemma new_session_sel [simp]:
  "sd_manifest (new_session_dir m n) = Some m" "sd_payload_node (new_session_dir m n) = new_file_node"
  "length (sd_payload (new_session_dir m n)) = nat (se_bytes m)"
  by (simp_all add: new_session_dir_def)

lemma begin_creates:
  assumes "artifact_upload_begin sha env call looked t operation total_bytes digest expected source_id s = (s', Inr t')"
  obtains look binding where "t' = t" "looked = Inr look" "0 \<le> total_bytes" "total_bytes \<le> xe_max_file env"
    "check_target sha env look expected = Inr ()"
    "map_of (xf_sessions s') t = Some (new_session_dir
       (upload_manifest env call (tl_path look) operation total_bytes digest expected binding)
       (nat (receipt_capacity env total_bytes * int receipt_bytes)))"
  using assms
  by (auto simp: artifact_upload_begin_def op_simps Let_def upload_manifest_def create_session_def update_conv'
      split: if_splits)

lemma begin_inv:
  assumes "0 \<le> total_bytes" "total_bytes * int receipt_bytes \<le> max_file_offset"
  shows "upload_inv sha (new_session_dir (upload_manifest env call path operation total_bytes digest expected binding)
     (nat (receipt_capacity env total_bytes * int receipt_bytes))) []"
proof -
  have c: "0 \<le> receipt_capacity env total_bytes" "receipt_capacity env total_bytes \<le> total_bytes"
    using assms(1) by (auto simp: receipt_capacity_def)
  have n: "receipt_capacity env total_bytes * int receipt_bytes \<le> total_bytes * int receipt_bytes"
    by (rule mult_right_mono [OF c(2)]) simp
  show ?thesis
    using assms c n
    by (simp add: upload_inv_def upload_ok_def new_session_dir_def upload_manifest_def fresh_session_def
        read_index_iff validate_root_def validate_index_node_def new_dir_node_def new_file_node_def
        confirmed_def digests_ok_def)
qed

section \<open>Chunks that are held\<close>

text \<open>A chunk the session holds and has a receipt for.\<close>

definition holds_chunk :: "(bytes \<Rightarrow> bytes) \<Rightarrow> session_dir \<Rightarrow> receipts \<Rightarrow> int \<Rightarrow> bytes \<Rightarrow> bool" where
  "holds_chunk sha d rs offset chunk \<longleftrightarrow>
     (\<exists>dg. (offset, int (length chunk), dg) \<in> set rs \<and> hex_string dg = hex_sha sha chunk)
     \<and> slice (sd_payload d) offset (int (length chunk)) = chunk
     \<and> plain_regular (sd_payload_node d) \<and> node_links (sd_payload_node d) \<le> 1"

lemma lookup_member:
  assumes "increasing rs" "(offset, n, dg) \<in> set rs"
  shows "lookup rs offset = Some (n, hex_string dg)"
proof -
  obtain i where "i < length rs" "rs ! i = (offset, n, dg)" using assms(2) by (auto simp: in_set_conv_nth)
  then show ?thesis using lookup_nth [OF assms(1), of i] by simp
qed

lemma lookup_SomeD: "lookup rs offset = Some (n, h) \<Longrightarrow> \<exists>dg. (offset, n, dg) \<in> set rs \<and> hex_string dg = h"
  by (auto simp: lookup_def dest!: map_of_SomeD)

lemma received_receipt:
  assumes "upload_ok sha m payload rd rs" "0 \<le> offset" "offset < se_received m"
  shows "find_receipt rd (se_receipts m) offset (Some (se_bytes m)) = Inr (lookup rs offset)"
proof -
  obtain q where q: "validated_index rd (se_receipts m) (Some (se_bytes m)) False = Inr q"
    and rs: "int (length rs) = se_receipts m" "confirmed (rd_data rd) rs" "tiles 0 rs (se_received m)"
      "se_received m \<le> se_bytes m"
    using assms(1) by (auto simp: upload_ok_def)
  have "se_bytes m \<le> se_bytes m * int receipt_bytes"
    using assms rs(4) by (simp add: receipt_bytes_def)
  also have "\<dots> \<le> max_file_offset" using q by (simp add: read_index_iff)
  finally have "offset \<le> max_uint64"
    using assms(3) rs(4) by (simp add: max_file_offset_def max_uint64_def)
  moreover have "nat (se_receipts m) = length rs" using rs(1) by linarith
  moreover have "search_receipt (rd_data rd) offset 0 (length rs) = Inr (lookup rs offset)"
    by (rule search_receipt_correct [OF rs(2) tiles_increasing [OF rs(3)]]) auto
  ultimately show ?thesis using q assms(2) by (simp add: find_receipt_def validate_offset_def)
qed

lemma received_chunk_held:
  assumes inv: "upload_inv sha d rs" and sha: "\<And>x. length (sha x) = 32"
    and r: "receive_chunk sha env call offset chunk d = (d', Inr m')"
  shows "\<exists>rs'. upload_inv sha d' rs' \<and> holds_chunk sha d' rs' offset chunk"
proof -
  obtain u m where l: "load_transfer env (xc_now call) (Some ''upload'') [''open'', ''committed''] True d = (u, Inr m)"
    and w: "write_upload_chunk sha env call m offset chunk u = (d', Inr m')"
    using r by (auto simp: receive_chunk_def op_simps)
  have m: "sd_manifest u = Some m" using load_Inr(1) [OF l] .
  have u: "upload_inv sha u rs" using relabelled_inv [OF load_relabelled [OF l] inv] .
  then have ok: "se_version m = 5" "upload_ok sha m (sd_payload u) (sd_receipts u) rs"
    using m by (auto simp: upload_inv_def)
  from m ok sha w show ?thesis
  proof (cases rule: chunk_effect)
    case again
    have f: "find_receipt (sd_receipts u) (se_receipts m) offset (Some (se_bytes m)) = Inr (lookup rs offset)"
      using received_receipt ok(2) again(1,2) by blast
    then have "lookup rs offset = Some (int (length chunk), hex_sha sha chunk)"
      "validated_payload u m False = Inr ()" "take (length chunk) (drop (nat offset) (sd_payload u)) = chunk"
      using again(4) [symmetric] f by (auto simp: acknowledge_again_def rbind_eq_Inr split: if_splits option.splits sum.splits)
    then have "holds_chunk sha u rs offset chunk"
      by (auto simp: holds_chunk_def slice_def validated_payload_def dest: lookup_SomeD split: if_splits)
    then show ?thesis using u again(3) by blast
  next
    case stored
    let ?rs = "rs @ [(offset, int (length chunk), sha chunk)]"
    have "nat offset \<le> length (sd_payload u)" using stored(2) ok(2) by (auto simp: upload_ok_def)
    then have "slice (sd_payload d') offset (int (length chunk)) = chunk"
      using stored(6) by (simp add: slice_def write_at_def)
    then have "holds_chunk sha d' ?rs offset chunk"
      using stored by (auto simp: holds_chunk_def hex_sha_def)
    moreover have "upload_inv sha d' ?rs" using stored ok(1) by (auto simp: upload_inv_def received_more_def)
    ultimately show ?thesis by blast
  qed simp_all
qed

lemma held_chunk_continues:
  assumes "continues d rs d' rs'" "upload_inv sha d rs" "holds_chunk sha d rs offset chunk"
  shows "holds_chunk sha d' rs' offset chunk"
proof -
  obtain m more where m: "sd_manifest d = Some m" "rs' = rs @ more"
    "take (nat (se_received m)) (sd_payload d') = take (nat (se_received m)) (sd_payload d)"
    "sd_payload_node d' = sd_payload_node d" using assms(1) by (auto simp: continues_def)
  obtain dg where dg: "(offset, int (length chunk), dg) \<in> set rs" "hex_string dg = hex_sha sha chunk"
    using assms(3) by (auto simp: holds_chunk_def)
  have "tiles 0 rs (se_received m)" using assms(2) m(1) by (auto simp: upload_inv_def upload_ok_def)
  then have "0 \<le> offset" "offset + int (length chunk) \<le> se_received m" using tiles_bounds dg(1) by fastforce+
  then have "slice (sd_payload d') offset (int (length chunk)) = slice (sd_payload d) offset (int (length chunk))"
    using slice_prefix [OF m(3)] by simp
  then show ?thesis using assms(3) m dg by (auto simp: holds_chunk_def)
qed

lemma held_chunk_acknowledged:
  assumes "upload_inv sha d rs" "holds_chunk sha d rs offset chunk" "sd_manifest d = Some m"
  shows "write_upload_chunk sha env call m offset chunk d = (d, Inr m)"
    "0 \<le> offset" "offset + int (length chunk) \<le> se_received m"
proof -
  have ok: "se_version m = 5" "upload_ok sha m (sd_payload d) (sd_receipts d) rs"
    using assms(1,3) by (auto simp: upload_inv_def)
  obtain dg where dg: "(offset, int (length chunk), dg) \<in> set rs" "hex_string dg = hex_sha sha chunk"
    using assms(2) by (auto simp: holds_chunk_def)
  have t: "tiles 0 rs (se_received m)" using ok by (auto simp: upload_ok_def)
  then have b: "0 \<le> offset" "offset + int (length chunk) \<le> se_received m" "0 < int (length chunk)"
    using tiles_bounds dg(1) by fastforce+
  then show "0 \<le> offset" "offset + int (length chunk) \<le> se_received m" by simp_all
  have "find_receipt (sd_receipts d) (se_receipts m) offset (Some (se_bytes m))
      = Inr (Some (int (length chunk), hex_sha sha chunk))"
    using received_receipt [OF ok(2), of offset] b lookup_member [OF tiles_increasing [OF t] dg(1)] dg(2) by simp
  moreover have "validated_payload d m False = Inr ()"
    using assms(2) ok(2) by (auto simp: holds_chunk_def validated_payload_def upload_ok_def)
  moreover have "take (length chunk) (drop (nat offset) (sd_payload d)) = chunk"
    using assms(2) by (simp add: holds_chunk_def slice_def)
  ultimately have "acknowledge_again sha d m offset chunk = Inr m"
    using ok(1) by (simp add: acknowledge_again_def)
  show "write_upload_chunk sha env call m offset chunk d = (d, Inr m)"
  proof -
    have "offset < se_received m" "\<not> (offset < 0 \<or> se_received m < offset)" using b by linarith+
    then show ?thesis
      using \<open>acknowledge_again sha d m offset chunk = Inr m\<close>
      by (simp add: write_upload_chunk_def mbind_def mget_def mlift_def cong: if_cong)
  qed
qed

section \<open>What was acknowledged\<close>

text \<open>The chunks that were answered along a run, with their offsets.\<close>

fun acknowledged ::
  "(bytes \<Rightarrow> bytes) \<Rightarrow> transfer_env \<Rightarrow> upload_event list \<Rightarrow> session_dir \<Rightarrow> (int \<times> bytes) list" where
  "acknowledged sha env [] d = []"
| "acknowledged sha env (e # es) d =
     (case e of
        Receive call offset chunk \<Rightarrow>
          (case snd (receive_chunk sha env call offset chunk d) of Inr m \<Rightarrow> [(offset, chunk)] | Inl err \<Rightarrow> [])
      | _ \<Rightarrow> []) @ acknowledged sha env es (upload_step sha env d e)"

definition holds_all ::
  "(bytes \<Rightarrow> bytes) \<Rightarrow> session_dir \<Rightarrow> receipts \<Rightarrow> (int \<times> bytes) set \<Rightarrow> bool" where
  "holds_all sha d rs A \<longleftrightarrow>
     upload_inv sha d rs \<and> (\<forall>(offset, chunk)\<in>A. holds_chunk sha d rs offset chunk)
     \<and> (\<forall>m i. sd_manifest d = Some m \<longrightarrow> 0 \<le> i \<longrightarrow> i < se_received m \<longrightarrow>
          (\<exists>(offset, chunk)\<in>A. offset \<le> i \<and> i < offset + int (length chunk)))"

text \<open>A chunk that is answered is held; one that is not answered adds nothing.\<close>

lemma receive_progress:
  assumes inv: "upload_inv sha d rs" and sha: "\<And>x. length (sha x) = 32"
    and r: "receive_chunk sha env call offset chunk d = (d', r)" and m: "sd_manifest d = Some m"
  shows "\<exists>m'. sd_manifest d' = Some m' \<and> (se_received m' = se_received m
    \<or> (r \<in> range Inr \<and> offset = se_received m \<and> se_received m' = se_received m + int (length chunk)))"
proof -
  obtain u q where l: "load_transfer env (xc_now call) (Some ''upload'') [''open'', ''committed''] True d = (u, q)"
    by fastforce
  have u: "upload_inv sha u rs" using relabelled_inv [OF load_relabelled [OF l] inv] .
  obtain mu where mu: "sd_manifest u = Some mu" "se_received mu = se_received m"
    using load_relabelled [OF l] m by (auto simp: relabelled_def)
  show ?thesis
  proof (cases q)
    case (Inl e)
    then show ?thesis using r l mu by (auto simp: receive_chunk_def op_simps)
  next
    case (Inr n)
    then have n: "n = mu" using load_Inr(1) l mu by fastforce
    have ok: "se_version mu = 5" "upload_ok sha mu (sd_payload u) (sd_receipts u) rs"
      using u mu by (auto simp: upload_inv_def)
    have w: "write_upload_chunk sha env call mu offset chunk u = (d', r)"
      using r l Inr n by (auto simp: receive_chunk_def op_simps)
    from mu(1) ok sha w show ?thesis
      by (cases rule: chunk_effect) (use mu in \<open>auto simp: received_more_def\<close>)
  qed
qed

lemma receipts_unique:
  assumes "upload_inv sha d rs" "upload_inv sha d rs'"
  shows "rs = rs'"
proof -
  obtain n where n: "sd_manifest d = Some n" "confirmed (rd_data (sd_receipts d)) rs" "int (length rs) = se_receipts n"
    using assms(1) by (auto simp: upload_inv_def upload_ok_def)
  have "confirmed (rd_data (sd_receipts d)) rs'" "int (length rs') = se_receipts n"
    using assms(2) n(1) by (auto simp: upload_inv_def upload_ok_def)
  note m = n(2,3) this
  have "rs ! i = rs' ! i" if "i < length rs" for i
    using confirmed_record [OF m(1) that] confirmed_record [OF m(3), of i] that m(2,4) by simp
  then show ?thesis using m(2,4) by (simp add: list_eq_iff_nth_eq)
qed

lemma holds_all_receive:
  assumes all: "holds_all sha d rs A" and sha: "\<forall>x. length (sha x) = 32"
    and r: "receive_chunk sha env call offset chunk d = (d', r)"
  shows "\<exists>rs'. holds_all sha d' rs' (A \<union> (if r \<in> range Inr then {(offset, chunk)} else {}))"
proof -
  have inv: "upload_inv sha d rs" using all by (simp add: holds_all_def)
  obtain rs1 where c: "upload_inv sha d' rs1" "continues d rs d' rs1"
    using receive_continues [OF inv spec [OF sha] r] by blast
  obtain m where m: "sd_manifest d = Some m" using inv by (auto simp: upload_inv_def)
  note g = receive_progress [OF inv spec [OF sha] r m]
  have old: "holds_chunk sha d' rs1 a b" if "(a, b) \<in> A" for a b
    using held_chunk_continues [OF c(2) inv] all that by (auto simp: holds_all_def)
  have "\<exists>rs'. upload_inv sha d' rs' \<and> (\<forall>(a, b)\<in>A \<union> (if r \<in> range Inr then {(offset, chunk)} else {}). holds_chunk sha d' rs' a b)"
  proof (cases r)
    case (Inl e)
    then show ?thesis using c(1) old by auto
  next
    case (Inr x)
    obtain rs2 where "upload_inv sha d' rs2" "holds_chunk sha d' rs2 offset chunk"
      using received_chunk_held [OF inv spec [OF sha] r [unfolded Inr]] by blast
    moreover have "rs2 = rs1" using receipts_unique [OF c(1) calculation(1)] by simp
    ultimately show ?thesis using old Inr by auto
  qed
  then obtain rs' where rs': "upload_inv sha d' rs'"
    "\<forall>(a, b)\<in>A \<union> (if r \<in> range Inr then {(offset, chunk)} else {}). holds_chunk sha d' rs' a b" by blast
  have "\<exists>(a, b)\<in>A \<union> (if r \<in> range Inr then {(offset, chunk)} else {}). a \<le> i \<and> i < a + int (length b)"
    if "sd_manifest d' = Some m'" "0 \<le> i" "i < se_received m'" for m' i
  proof (cases "i < se_received m")
    case True
    then show ?thesis using all m that(2) unfolding holds_all_def by fastforce
  next
    case False
    then have "r \<in> range Inr" "offset \<le> i" "i < offset + int (length chunk)" using g that by auto
    then show ?thesis by auto
  qed
  then show ?thesis using rs' unfolding holds_all_def by blast
qed

lemma holds_all_run:
  assumes "holds_all sha d rs A" "\<forall>x. length (sha x) = 32"
  shows "\<exists>rs'. holds_all sha (upload_run sha env events d) rs' (A \<union> set (acknowledged sha env events d))"
  using assms(1)
proof (induction events arbitrary: d rs A)
  case Nil
  then show ?case by (auto simp: upload_run_def)
next
  case (Cons e events)
  have run: "upload_run sha env (e # events) d = upload_run sha env events (upload_step sha env d e)"
    by (simp add: upload_run_def)
  show ?case
  proof (cases "\<exists>call offset chunk. e = Receive call offset chunk")
    case True
    then obtain call offset chunk where e: "e = Receive call offset chunk" by blast
    obtain d' r where r: "receive_chunk sha env call offset chunk d = (d', r)" by fastforce
    obtain rs1 where "holds_all sha d' rs1 (A \<union> (if r \<in> range Inr then {(offset, chunk)} else {}))"
      using holds_all_receive [OF Cons.prems assms(2) r] by blast
    from Cons.IH [OF this] show ?thesis using r e run by (cases r) (auto simp: Un_assoc image_iff)
  next
    case False
    then have l: "relabelled d (upload_step sha env d e)" using other_steps_relabel by blast
    have inv: "upload_inv sha d rs" using Cons.prems by (simp add: holds_all_def)
    then obtain m where m: "sd_manifest d = Some m" by (auto simp: upload_inv_def)
    have "holds_all sha (upload_step sha env d e) rs A"
      using Cons.prems relabelled_inv [OF l inv] held_chunk_continues [OF relabelled_continues [OF l m] inv] l
      unfolding holds_all_def by (auto simp: relabelled_def split: prod.splits)
    from Cons.IH [OF this] show ?thesis using run False by (cases e) auto
  qed
qed

lemma holds_allD:
  assumes "holds_all sha d rs A" "(offset, chunk) \<in> A" "sd_manifest d = Some m"
  shows "0 \<le> offset \<and> offset + int (length chunk) \<le> se_received m
    \<and> slice (sd_payload d) offset (int (length chunk)) = chunk"
proof -
  have h: "upload_inv sha d rs" "holds_chunk sha d rs offset chunk" using assms(1,2) by (auto simp: holds_all_def)
  show ?thesis using held_chunk_acknowledged(2,3) [OF h assms(3)] h(2) by (simp add: holds_chunk_def)
qed


section \<open>Retries\<close>

text \<open>Another chunk at the place of one that is held.\<close>

lemma held_chunk_conflicts:
  assumes "upload_inv sha d rs" "holds_chunk sha d rs offset chunk" "sd_manifest d = Some m"
    and "length other \<noteq> length chunk \<or> hex_sha sha other \<noteq> hex_sha sha chunk"
  shows "write_upload_chunk sha env call m offset other d
    = (d, Inl (TransferIntegrity ''TRANSFER_DUPLICATE_MISMATCH''))"
proof -
  have ok: "se_version m = 5" "upload_ok sha m (sd_payload d) (sd_receipts d) rs"
    using assms(1,3) by (auto simp: upload_inv_def)
  obtain dg where dg: "(offset, int (length chunk), dg) \<in> set rs" "hex_string dg = hex_sha sha chunk"
    using assms(2) by (auto simp: holds_chunk_def)
  have t: "tiles 0 rs (se_received m)" using ok by (auto simp: upload_ok_def)
  then have b: "0 \<le> offset" "offset + int (length chunk) \<le> se_received m" "0 < int (length chunk)"
    using tiles_bounds dg(1) by fastforce+
  have "find_receipt (sd_receipts d) (se_receipts m) offset (Some (se_bytes m))
      = Inr (Some (int (length chunk), hex_sha sha chunk))"
    using received_receipt [OF ok(2), of offset] b lookup_member [OF tiles_increasing [OF t] dg(1)] dg(2) by simp
  then have "acknowledge_again sha d m offset other = Inl (TransferIntegrity ''TRANSFER_DUPLICATE_MISMATCH'')"
    using ok(1) assms(4) by (auto simp: acknowledge_again_def)
  moreover have "offset < se_received m" "\<not> (offset < 0 \<or> se_received m < offset)" using b by linarith+
  ultimately show ?thesis by (simp add: write_upload_chunk_def mbind_def mget_def mlift_def cong: if_cong)
qed

lemma locked_session:
  assumes "valid_transfer_id t" "xf_root y = Node i" "\<not> ni_unsafe i" "ni_dir i" "map_of (xf_sessions y) t = Some d"
    and "rd_root (sd_receipts d) = Node k" "\<not> ni_unsafe k" "ni_dir k"
  shows "locked t f y = (case f d of (d', r) \<Rightarrow> (y\<lparr>xf_sessions := AList.update t d' (xf_sessions y)\<rparr>, r))"
  using assms by (simp add: locked_def)

text \<open>A tool call on such a chunk: it is refused, and an open session ends as failed.\<close>

lemma conflict_fails_session:
  assumes inv: "upload_inv sha d rs" and h: "holds_chunk sha d rs offset chunk"
    and l: "load_transfer env (xc_now again) (Some ''upload'') [''open'', ''committed''] True d = (d, Inr m)"
    and x: "valid_transfer_id t" "xf_root x = Node i" "\<not> ni_unsafe i" "ni_dir i" "map_of (xf_sessions x) t = Some d"
    and c: "decode_chunk env encoded = Inr other" "length other \<noteq> length chunk \<or> hex_sha sha other \<noteq> hex_sha sha chunk"
  shows "\<exists>x'. artifact_upload_chunk sha env again t offset encoded x
      = (x', Inl (TransferIntegrity ''TRANSFER_DUPLICATE_MISMATCH''))
    \<and> map_of (xf_sessions x') t = Some (if se_state m = ''open''
         then d\<lparr>sd_manifest := Some (set_mark ''failed_at'' (xc_now again) (m\<lparr>se_state := ''failed''\<rparr>))\<rparr> else d)"
proof -
  let ?bad = "TransferIntegrity ''TRANSFER_DUPLICATE_MISMATCH''"
  have m: "sd_manifest d = Some m" "se_state m \<in> {''open'', ''committed''}"
    using load_Inr(1,2) [OF l] by auto
  obtain expiry where doc: "load_manifest_doc d (Some ''upload'') = Inr m" "transfer_expiry env m = Inr expiry"
    using l
  proof (cases rule: load_transfer_cases)
    case (expired m' e m'')
    then show ?thesis by (auto simp: set_mark_def split: if_splits)
  qed (use that in auto)
  have doc': "load_manifest_doc d None = Inr m"
    using doc(1) by (auto simp: load_manifest_doc_def split: option.splits if_splits)
  have known: "load_transfer env (xc_now again) None known_states False d = (d, Inr m)"
    using doc' doc(2) m(2)
    by (auto simp: load_transfer_def mbind_def mget_def mlift_def mret_def known_states_def admission_states_def transfer_terminal_def)
  let ?d = "if se_state m = ''open''
      then d\<lparr>sd_manifest := Some (set_mark ''failed_at'' (xc_now again) (m\<lparr>se_state := ''failed''\<rparr>))\<rparr> else d"
  have marked: "mark_failed_session env (xc_now again) failable_states d = (?d, Inr ())"
    using m(2) by (auto simp: mark_failed_session_def mbind_def known mret_def write_manifest_def mput_def
        failable_states_def admission_states_def)
  obtain k where k: "rd_root (sd_receipts d) = Node k" "\<not> ni_unsafe k" "ni_dir k"
    using inv by (auto simp: upload_inv_def upload_ok_def read_index_iff validate_root_def split: node.splits if_splits)
  have recv: "receive_chunk sha env again offset other d = (d, Inl ?bad)"
    using l held_chunk_conflicts [OF inv h m(1) c(2)] by (simp add: receive_chunk_def mbind_def)
  note lock = locked_session [OF x(1) _ x(3,4) _ k]
  let ?x1 = "x\<lparr>xf_sessions := AList.update t d (xf_sessions x)\<rparr>"
  have x1: "xf_root ?x1 = Node i" "map_of (xf_sessions ?x1) t = Some d" using x(2) by (simp_all add: update_conv')
  have "locked t (receive_chunk sha env again offset other) x = (?x1, Inl ?bad)"
    by (simp add: lock [OF x(2,5)] recv)
  moreover have "mark_transfer_failed env (xc_now again) t failable_states ?x1
      = (?x1\<lparr>xf_sessions := AList.update t ?d (xf_sessions ?x1)\<rparr>, Inr True)"
    by (simp add: lock [OF x1] marked mark_transfer_failed_def mbind_def mcatch_def mret_def)
  ultimately have "artifact_upload_chunk sha env again t offset encoded x
      = (?x1\<lparr>xf_sessions := AList.update t ?d (xf_sessions ?x1)\<rparr>, Inl ?bad)"
    using x(1) c(1)
    by (simp add: artifact_upload_chunk_def integrity_guard_def mbind_def mcheck_def mlift_def mcatch_def mret_def mfail_def)
  then show ?thesis by (auto simp: update_conv')
qed


section \<open>An upload that is not disturbed\<close>

definition openable :: "transfer_env \<Rightarrow> int \<Rightarrow> session_dir \<Rightarrow> transfer_session \<Rightarrow> bool" where
  "openable env now d m \<longleftrightarrow>
     plain_regular (sd_manifest_node d) \<and> node_links (sd_manifest_node d) \<le> 1
     \<and> plain_regular (sd_payload_node d) \<and> node_links (sd_payload_node d) \<le> 1
     \<and> sd_manifest d = Some m \<and> se_version m = 5 \<and> se_direction m = ''upload'' \<and> se_state m = ''open''
     \<and> (\<exists>expiry. transfer_expiry env m = Inr expiry \<and> now \<le> expiry)"

lemma openable_load:
  "openable env now d m \<Longrightarrow> ''open'' \<in> set states \<Longrightarrow>
     load_transfer env now (Some ''upload'') states True d = (d, Inr m)"
  by (auto simp: openable_def load_transfer_def load_manifest_doc_def known_states_def admission_states_def
      mbind_def mget_def mlift_def mret_def)

lemma reserve_returns:
  assumes ok: "upload_ok sha m (sd_payload d) (sd_receipts d) rs" and "se_received m < se_bytes m"
    and "xc_cut call = Whole" "xc_used call + se_bytes m * int receipt_bytes \<le> xe_max_data env"
  shows "\<exists>d'. reserve_receipt env call m d = (d', Inr ())
    \<and> (\<exists>q. validated_index (sd_receipts d') (se_receipts m) (Some (se_bytes m)) True = Inr q)"
proof -
  let ?rd = "sd_receipts d" and ?k = "int receipt_bytes"
  let ?n = "int (length (rd_data ?rd))"
  obtain q where q: "validated_index ?rd (se_receipts m) (Some (se_bytes m)) False = Inr q"
    using ok by (auto simp: upload_ok_def)
  note i = q [unfolded read_index_iff]
  obtain node where node: "rd_index ?rd = Node node" "\<not> ni_unsafe node" "ni_regular node" "ni_links node = 1"
    using i by (auto simp: validate_index_node_def split: node.splits if_splits)
  have few: "int (length xs) \<le> b - a" if "tiles a xs b" for xs a b
    using that by (induction a xs b rule: tiles.induct) auto
  have count: "se_receipts m \<le> se_received m" using ok few [of 0 rs] by (auto simp: upload_ok_def)
  have lt: "se_receipts m < se_bytes m" using count assms(2) by simp
  let ?cap = "min (se_bytes m) (se_receipts m + 1024)"
  have cap: "?cap * ?k \<le> se_bytes m * ?k" by (rule mult_right_mono) auto
  have append_ok: "\<exists>q. validated_index (?rd\<lparr>rd_data := data\<rparr>) (se_receipts m) (Some (se_bytes m)) True = Inr q"
    if "(se_receipts m + 1) * ?k \<le> int (length data)" "int (length data) mod ?k = 0" "int (length data) \<le> se_bytes m * ?k"
    for data
  proof -
    have "se_receipts m * ?k \<le> se_bytes m * ?k" using lt by (intro mult_right_mono) auto
    then show ?thesis using i lt that
      by (auto simp: validated_index_def validate_capacity_def validate_count_def Let_def distrib_right)
  qed
  show ?thesis
  proof (cases "?n = se_receipts m * ?k")
    case True
    have grown: "length (rd_data ?rd @ replicate (nat (?cap * ?k - ?n)) 0) = nat (?cap * ?k)"
    proof -
      have "?n \<le> ?cap * ?k" using True lt by (simp add: mult_right_mono)
      then show ?thesis by simp
    qed
    have "(se_receipts m + 1) * ?k \<le> ?cap * ?k" using lt by (intro mult_right_mono) auto
    then have a: "\<exists>q. validated_index (?rd\<lparr>rd_data := rd_data ?rd @ replicate (nat (?cap * ?k - ?n)) 0\<rparr>)
        (se_receipts m) (Some (se_bytes m)) True = Inr q"
      using i cap by (intro append_ok) (simp_all add: grown)
    have "0 \<le> ?n" by simp
    then have "xc_used call + (?cap * ?k - ?n) \<le> xe_max_data env" using cap assms(4) by linarith
    then have quota: "enforce_data_quota (xe_max_data env) (xc_used call) (?cap * ?k - ?n) = Inr ()"
      by (simp add: enforce_data_quota_def)
    have "reserve_receipt env call m d
        = (d\<lparr>sd_receipts := ?rd\<lparr>rd_data := rd_data ?rd @ replicate (nat (?cap * ?k - ?n)) 0\<rparr>\<rparr>, Inr ())"
      using True i node count assms(3) quota
      by (simp add: reserve_receipt_def Let_def mbind_def mget_def mlift_def mput_def plain_regular_def node_links_def)
    then show ?thesis using a by (intro exI [of _ "d\<lparr>sd_receipts := ?rd\<lparr>rd_data := rd_data ?rd @ replicate (nat (?cap * ?k - ?n)) 0\<rparr>\<rparr>"]) simp
  next
    case False
    have "reserve_receipt env call m d = (d, Inr ())"
      using False i node count
      by (simp add: reserve_receipt_def Let_def mbind_def mget_def mret_def plain_regular_def node_links_def)
    moreover have "(se_receipts m + 1) * ?k \<le> ?n"
    proof -
      have "?n = ?n div ?k * ?k" using i by (metis add.right_neutral div_mult_mod_eq)
      moreover have "se_receipts m * ?k < ?n div ?k * ?k" using False i calculation by linarith
      then have "se_receipts m + 1 \<le> ?n div ?k" by (simp add: receipt_bytes_def)
      then have "(se_receipts m + 1) * ?k \<le> ?n div ?k * ?k" by (intro mult_right_mono) auto
      ultimately show ?thesis by linarith
    qed
    then have "\<exists>q. validated_index (?rd\<lparr>rd_data := rd_data ?rd\<rparr>) (se_receipts m) (Some (se_bytes m)) True = Inr q"
      using i by (intro append_ok) simp_all
    ultimately show ?thesis by simp
  qed
qed

lemma received_more_expiry [simp]: "transfer_expiry env (received_more m n) = transfer_expiry env m"
  by (cases "se_created m") (simp_all add: transfer_expiry_def received_more_def Let_def)

lemma received_more_sel [simp]:
  "se_version (received_more m n) = se_version m" "se_direction (received_more m n) = se_direction m"
  "se_state (received_more m n) = se_state m"
  by (simp_all add: received_more_def)

lemma receive_succeeds:
  assumes inv: "upload_inv sha d rs" and sha: "\<And>x. length (sha x) = 32"
    and o: "openable env (xc_now call) d m" and chunk: "chunk \<noteq> []" "se_received m + int (length chunk) \<le> se_bytes m"
    and call: "xc_cut call = Whole" "xc_used call + se_bytes m * int receipt_bytes \<le> xe_max_data env"
  obtains d' rs' where "receive_chunk sha env call (se_received m) chunk d = (d', Inr (received_more m (int (length chunk))))"
    "upload_inv sha d' rs'" "openable env (xc_now call) d' (received_more m (int (length chunk)))"
    "sd_payload d' = write_at (nat (se_received m)) chunk (sd_payload d)"
proof -
  have m: "sd_manifest d = Some m" "se_version m = 5" "se_state m = ''open''"
    using o by (auto simp: openable_def)
  have ok: "upload_ok sha m (sd_payload d) (sd_receipts d) rs" using inv m(1) by (auto simp: upload_inv_def)
  have recv: "receive_chunk sha env call (se_received m) chunk d = write_upload_chunk sha env call m (se_received m) chunk d"
    using openable_load [OF o] by (simp add: receive_chunk_def mbind_def)
  have lt: "se_received m < se_bytes m" using chunk by (cases chunk) auto
  obtain d1 q where r1: "reserve_receipt env call m d = (d1, Inr ())"
    "validated_index (sd_receipts d1) (se_receipts m) (Some (se_bytes m)) True = Inr q"
    using reserve_returns [OF ok lt call] by blast
  note k1 = reserve_keeps [OF ok r1(1)]
  have same1: "sd_payload d1 = sd_payload d" "sd_payload_node d1 = sd_payload_node d" by (subst k1(1), simp)+
  have pos: "nat (se_received m) \<le> length (sd_payload d)" "nat (se_received m) + length chunk \<le> length (sd_payload d)"
    using ok chunk(2) by (auto simp: upload_ok_def)
  let ?d2 = "d1\<lparr>sd_payload := write_at (nat (se_received m)) chunk (sd_payload d), sd_payload_id := xc_stamp call\<rparr>"
  have w: "write_payload call (nat (se_received m)) chunk d1 = (?d2, Inr ())"
    using call(1) same1 by (simp add: write_payload_def mbind_def mput_def mret_def)
  have safe: "validated_payload d1 m False = Inr ()" "validated_payload ?d2 m False = Inr ()"
    using o ok same1 pos write_at_length [OF pos(1), of chunk]
    by (auto simp: openable_def validated_payload_def upload_ok_def)
  have bounds: "0 \<le> se_received m" "se_bytes m \<le> max_file_offset"
  proof -
    show "0 \<le> se_received m" using ok by (simp add: upload_ok_def)
    have "se_bytes m \<le> se_bytes m * int receipt_bytes" using lt \<open>0 \<le> se_received m\<close> by (simp add: receipt_bytes_def)
    also have "\<dots> \<le> max_file_offset" using ok by (auto simp: upload_ok_def read_index_iff)
    finally show "se_bytes m \<le> max_file_offset" .
  qed
  have "validate_offset (se_received m) = Inr ()" "int (length chunk) \<le> max_uint64"
    using bounds chunk(2) by (auto simp: validate_offset_def max_file_offset_def max_uint64_def)
  then obtain rd where "append_receipt sha (sd_receipts ?d2) (se_receipts m) (se_received m) chunk (Some (se_bytes m))
      receipt_bytes = (rd, Inr ())"
    using r1(2) chunk(1) by (simp add: append_receipt_def Let_def)
  then obtain d3 where st: "store_receipt sha call m (se_received m) chunk ?d2 = (d3, Inr ())"
    using call(1) by (simp add: store_receipt_def mbind_def mget_def mput_def mret_def Let_def)
  have nn: "\<not> se_received m < 0" "\<not> se_bytes m < se_received m + int (length chunk)" using bounds chunk(2) by simp_all
  have res: "\<exists>d'. write_upload_chunk sha env call m (se_received m) chunk d = (d', Inr (received_more m (int (length chunk))))"
    using nn m r1(1) safe w st call(1)
    by (simp add: write_upload_chunk_def received_more_def Let_def mbind_def mget_def mlift_def write_manifest_def
        mput_def mret_def cong: if_cong)
  then obtain d' where d': "write_upload_chunk sha env call m (se_received m) chunk d
      = (d', Inr (received_more m (int (length chunk))))" by blast
  from m(1,2) ok sha d' show ?thesis
  proof (cases rule: chunk_effect)
    case stored
    have "upload_inv sha d' (rs @ [(se_received m, int (length chunk), sha chunk)])"
      using stored m(2) by (auto simp: upload_inv_def received_more_def)
    moreover have "openable env (xc_now call) d' (received_more m (int (length chunk)))"
      using o stored by (auto simp: openable_def)
    ultimately show ?thesis using that recv d' stored(6) by metis
  qed simp_all
qed

fun send_chunks ::
  "(bytes \<Rightarrow> bytes) \<Rightarrow> transfer_env \<Rightarrow> transfer_call \<Rightarrow> int \<Rightarrow> bytes list \<Rightarrow> (session_dir, unit) op" where
  "send_chunks sha env call offset [] = mret ()"
| "send_chunks sha env call offset (c # cs) =
     mbind (receive_chunk sha env call offset c) (\<lambda>_. send_chunks sha env call (offset + int (length c)) cs)"

lemma send_chunks_returns:
  assumes "upload_inv sha d rs" "\<And>x. length (sha x) = 32" "openable env (xc_now call) d m"
    and "[] \<notin> set chunks" "se_received m + int (length (concat chunks)) \<le> se_bytes m"
    and "xc_cut call = Whole" "xc_used call + se_bytes m * int receipt_bytes \<le> xe_max_data env"
  shows "\<exists>d' rs' m'. send_chunks sha env call (se_received m) chunks d = (d', Inr ()) \<and> upload_inv sha d' rs'
    \<and> openable env (xc_now call) d' m' \<and> same_upload m m' \<and> se_received m' = se_received m + int (length (concat chunks))
    \<and> take (nat (se_received m')) (sd_payload d') = take (nat (se_received m)) (sd_payload d) @ concat chunks"
  using assms(1,3-5,7)
proof (induction chunks arbitrary: d rs m)
  case Nil
  then show ?case by (intro exI [of _ d] exI [of _ rs] exI [of _ m]) (simp add: mret_def)
next
  case (Cons c cs)
  have c: "c \<noteq> []" "se_received m + int (length c) \<le> se_bytes m" using Cons.prems by auto
  obtain d1 rs1 where 1: "receive_chunk sha env call (se_received m) c d = (d1, Inr (received_more m (int (length c))))"
    "upload_inv sha d1 rs1" "openable env (xc_now call) d1 (received_more m (int (length c)))"
    "sd_payload d1 = write_at (nat (se_received m)) c (sd_payload d)"
    by (rule receive_succeeds [OF Cons.prems(1) assms(2) Cons.prems(2) c assms(6) Cons.prems(5)]) 
  have ok: "0 \<le> se_received m" "int (length (sd_payload d)) = se_bytes m"
    using Cons.prems(1,2) by (auto simp: upload_inv_def openable_def upload_ok_def)
  have pre: "take (nat (se_received m + int (length c))) (sd_payload d1) = take (nat (se_received m)) (sd_payload d) @ c"
    using ok c(2) by (simp add: 1(4) write_at_def nat_add_distrib)
  have sel: "se_received (received_more m (int (length c))) = se_received m + int (length c)"
    "se_bytes (received_more m (int (length c))) = se_bytes m"
    "same_upload m (received_more m (int (length c)))"
    by (simp_all add: received_more_def same_upload_def)
  obtain d' rs' m' where 2: "send_chunks sha env call (se_received m + int (length c)) cs d1 = (d', Inr ())"
    "upload_inv sha d' rs'" "openable env (xc_now call) d' m'" "same_upload (received_more m (int (length c))) m'"
    "se_received m' = se_received m + int (length c) + int (length (concat cs))"
    "take (nat (se_received m')) (sd_payload d') = take (nat (se_received m + int (length c))) (sd_payload d1) @ concat cs"
    using Cons.IH [OF 1(2,3)] Cons.prems(3-5) sel by (auto simp: add.assoc)
  have "same_upload m m'" using same_upload_trans [OF sel(3) 2(4)] .
  then show ?case using 1(1) 2 pre
    by (intro exI [of _ d'] exI [of _ rs'] exI [of _ m']) (simp add: mbind_def)
qed

text \<open>
  C8. An upload reaches its commit: sending the pieces of a content in order to a begun upload, in
  whatever sizes, is accepted piece by piece and the commit then finds exactly that content, provided
  it has the declared length and digest, the session has not expired and the quota has room for the
  receipts.
\<close>

theorem upload_reaches_commit:
  assumes "artifact_upload_begin sha env begin_call looked t operation total_bytes digest expected source_id s = (s', Inr t')"
    and "map_of (xf_sessions s') t = Some d" and "\<forall>x. length (sha x) = 32"
    and "total_bytes * int receipt_bytes \<le> max_file_offset"
    and "int (length (concat chunks)) = total_bytes" "hex_sha sha (concat chunks) = digest" "[] \<notin> set chunks"
    and "xc_cut call = Whole" "xc_used call + total_bytes * int receipt_bytes \<le> xe_max_data env"
    and "0 \<le> xe_ttl env" "xc_now call \<le> xc_now begin_call + xe_ttl env"
  shows "\<exists>d' m. send_chunks sha env call 0 chunks d = (d', Inr ())
    \<and> commit_prepare sha env call d' = (d', Inr (m, concat chunks))"
proof -
  obtain look binding where d: "looked = Inr look"
    "d = new_session_dir (upload_manifest env begin_call (tl_path look) operation total_bytes digest expected binding)
       (nat (receipt_capacity env total_bytes * int receipt_bytes))" "0 \<le> total_bytes"
    by (rule begin_creates [OF assms(1)]) (use assms(2) in simp)
  let ?m = "upload_manifest env begin_call (tl_path look) operation total_bytes digest expected binding"
  have inv: "upload_inv sha d []" using begin_inv d(2,3) assms(4) by simp
  have o: "openable env (xc_now call) d ?m"
    using assms(10,11) by (auto simp: openable_def d(2) new_session_dir_def upload_manifest_def fresh_session_def
      new_file_node_def plain_regular_def node_links_def transfer_expiry_def)
  obtain d' rs' m' where r: "send_chunks sha env call 0 chunks d = (d', Inr ())" "upload_inv sha d' rs'"
    "openable env (xc_now call) d' m'" "same_upload ?m m'" "se_received m' = total_bytes"
    "take (nat (se_received m')) (sd_payload d') = concat chunks"
    using send_chunks_returns [OF inv spec [OF assms(3)] o assms(7)] assms(5,8,9) by auto
  have b: "se_bytes m' = total_bytes" "se_sha m' = Some digest" using same_uploadD [OF r(4)] by simp_all
  have l: "int (length (sd_payload d')) = total_bytes"
    using r(2,3) b by (auto simp: upload_inv_def openable_def upload_ok_def)
  then have p: "sd_payload d' = concat chunks" using r(5,6) by simp
  have "validated_payload d' m' False = Inr ()" using r(3) l b by (auto simp: openable_def validated_payload_def)
  then have "commit_prepare sha env call d' = (d', Inr (m', concat chunks))"
    using openable_load [OF r(3)] r(5) b p l assms(6)
    by (simp add: commit_prepare_def mbind_def mget_def mlift_def mcheck_def mret_def)
  then show ?thesis using r(1) by blast
qed

section \<open>A concrete upload\<close>

definition demo_raw :: "bytes \<Rightarrow> bytes" where
  "demo_raw b = take 32 (b @ replicate 32 0)"

definition demo_xenv :: transfer_env where
  "demo_xenv = \<lparr>xe_ttl = 100, xe_max_file = 1000, xe_max_chunk = 4096, xe_max_open = 2, xe_max_data = 100000\<rparr>"

definition demo_xcall :: "int \<Rightarrow> cut \<Rightarrow> transfer_call" where
  "demo_xcall now c = \<lparr>xc_now = now, xc_used = 0, xc_stamp = 7, xc_cut = c, xc_log = Inr ()\<rparr>"

definition demo_tid :: string where
  "demo_tid = replicate 36 (CHR ''a'')"

definition no_transfers :: transfers where
  "no_transfers = \<lparr>xf_root = new_dir_node, xf_sessions = []\<rparr>"

definition demo_begun :: "transfers \<times> string res" where
  "demo_begun = artifact_upload_begin demo_raw demo_xenv (demo_xcall 0 Whole)
     (Inr \<lparr>tl_path = ''a'', tl_existing = None\<rparr>) demo_tid ''o'' 3 (hex_sha demo_raw [1, 2, 3]) None None no_transfers"

definition demo_session :: session_dir where
  "demo_session = the (map_of (xf_sessions (fst demo_begun)) demo_tid)"

lemma demo_begun:
  "artifact_upload_begin demo_raw demo_xenv (demo_xcall 0 Whole)
     (Inr \<lparr>tl_path = ''a'', tl_existing = None\<rparr>) demo_tid ''o'' 3 (hex_sha demo_raw [1, 2, 3]) None None no_transfers
     = (fst demo_begun, Inr demo_tid)"
  "map_of (xf_sessions (fst demo_begun)) demo_tid = Some demo_session"
  "\<forall>x. length (demo_raw x) = 32" "3 * int receipt_bytes \<le> max_file_offset"
proof -
  have "snd demo_begun = Inr demo_tid" "map_of (xf_sessions (fst demo_begun)) demo_tid \<noteq> None" by code_simp+
  then show "artifact_upload_begin demo_raw demo_xenv (demo_xcall 0 Whole)
     (Inr \<lparr>tl_path = ''a'', tl_existing = None\<rparr>) demo_tid ''o'' 3 (hex_sha demo_raw [1, 2, 3]) None None no_transfers
     = (fst demo_begun, Inr demo_tid)" "map_of (xf_sessions (fst demo_begun)) demo_tid = Some demo_session"
    by (simp_all add: prod_eq_iff demo_begun_def [symmetric] demo_session_def)
  show "\<forall>x. length (demo_raw x) = 32" by (simp add: demo_raw_def min_def)
  show "3 * int receipt_bytes \<le> max_file_offset" by code_simp
qed

definition demo_events :: "upload_event list" where
  "demo_events = [Receive (demo_xcall 1 Whole) 0 [1, 2]]"

definition demo_later :: "upload_event list" where
  "demo_later = [Receive (demo_xcall 2 (InPayload 1)) 2 [9], Receive (demo_xcall 3 Whole) 0 [1, 2]]"


definition demo_store :: transfers where
  "demo_store = \<lparr>xf_root = new_dir_node, xf_sessions =
     [(demo_tid, upload_run demo_raw demo_xenv demo_later (upload_run demo_raw demo_xenv demo_events demo_session))]\<rparr>"


lemma upload_reaches_commit_witness:
  "\<exists>d m. send_chunks demo_raw demo_xenv (demo_xcall 1 Whole) 0 [[1, 2], [3]] demo_session = (d, Inr ())
     \<and> commit_prepare demo_raw demo_xenv (demo_xcall 1 Whole) d = (d, Inr (m, [1, 2, 3]))"
proof -
  have q: "xc_used (demo_xcall 1 Whole) + 3 * int receipt_bytes \<le> xe_max_data demo_xenv" "0 \<le> xe_ttl demo_xenv"
    "xc_now (demo_xcall 1 Whole) \<le> xc_now (demo_xcall 0 Whole) + xe_ttl demo_xenv" "xc_cut (demo_xcall 1 Whole) = Whole"
    by code_simp+
  show ?thesis
    using upload_reaches_commit [OF demo_begun, of "[[1, 2], [3]]" "demo_xcall 1 Whole"] q by simp
qed

end
