(* ===== verification/Sessions.thy ===== *)
theory Sessions
  imports Uploads
begin

text \<open>
  The life of a transfer session as a state machine over all operations, what a download delivers, how
  many transfers can be open, and the agreement of the two ways a session's state is reported.
\<close>

section \<open>The state machine\<close>

inductive transfer_step ::
  "(bytes \<Rightarrow> bytes) \<Rightarrow> transfer_env \<Rightarrow> session_dir \<Rightarrow> session_dir \<Rightarrow> bool" for sha env where
  receive: "receive_chunk sha env call offset chunk d = (d', r) \<Longrightarrow> transfer_step sha env d d'"
| commit_refused: "commit_prepare sha env call d = (d', Inl e) \<Longrightarrow> transfer_step sha env d d'"
| commit: "commit_prepare sha env call d = (d1, Inr (m, payload)) \<Longrightarrow> commit_finish call m d1 = (d', r) \<Longrightarrow>
     transfer_step sha env d d'"
| fail: "set states \<subseteq> set failable_states \<Longrightarrow> mark_failed_session env now states d = (d', r) \<Longrightarrow>
     transfer_step sha env d d'"
| cancel: "cancel_session env call d = (d', r) \<Longrightarrow> transfer_step sha env d d'"
| admit: "admit_one env now d = (d', n) \<Longrightarrow> transfer_step sha env d d'"
| publish: "publish_snapshot sha call m copied again d = (d', r) \<Longrightarrow> transfer_step sha env d d'"
| read: "read_chunk sha env call source offset d = (d', c) \<Longrightarrow> transfer_step sha env d d'"
| look: "session_status env now d = (d', st) \<Longrightarrow> transfer_step sha env d d'"

definition session_state :: "session_dir \<Rightarrow> string option" where
  "session_state d = map_option se_state (sd_manifest d)"

fun may_become :: "string \<Rightarrow> string list" where
  "may_become st =
     (if st = ''preparing'' then known_states
      else if st = ''open'' then removeAll ''preparing'' known_states
      else if st = ''completed'' then [''completed'', ''failed'']
      else [st])"

declare may_become.simps [simp del]

lemma may_become_refl: "st \<in> set (may_become st)"
  by (simp add: may_become.simps known_states_def admission_states_def)

lemma may_become_trans: "b \<in> set (may_become a) \<Longrightarrow> c \<in> set (may_become b) \<Longrightarrow> c \<in> set (may_become a)"
  by (auto simp: may_become.simps known_states_def admission_states_def transfer_terminal_def split: if_splits)

definition may_reach :: "session_dir \<Rightarrow> session_dir \<Rightarrow> bool" where
  "may_reach d d' \<longleftrightarrow>
     (\<forall>st. session_state d = Some st \<longrightarrow> (\<exists>st'. session_state d' = Some st' \<and> st' \<in> set (may_become st)))"

lemma may_reach_refl [simp]: "may_reach d d"
  by (simp add: may_reach_def may_become_refl)

lemma may_reach_same: "session_state d' = session_state d \<Longrightarrow> may_reach d d'"
  by (auto simp: may_reach_def may_become_refl)

lemma may_reach_trans: "may_reach a b \<Longrightarrow> may_reach b c \<Longrightarrow> may_reach a c"
  unfolding may_reach_def by (meson may_become_trans)

lemma may_reach_set:
  "sd_manifest d = Some m \<Longrightarrow> se_state m' \<in> set (may_become (se_state m)) \<Longrightarrow>
     may_reach d (d\<lparr>sd_manifest := Some m'\<rparr>)"
  by (simp add: may_reach_def session_state_def)

lemma set_mark_state [simp]: "se_state (set_mark k now m) = se_state m"
  by (simp add: set_mark_def)

lemma load_reaches:
  assumes "load_transfer env now direction states active d = (d', r)"
  shows "may_reach d d'"
  using assms
proof (cases rule: load_transfer_cases)
  case (expired m expiry m')
  have "se_state m' \<in> set (may_become (se_state m))"
    using expired(4,6) by (auto simp: may_become.simps known_states_def admission_states_def transfer_terminal_def)
  then show ?thesis using may_reach_set load_manifest_doc_Inr [OF expired(1)] expired(7) by blast
qed simp_all

lemma load_then_reaches:
  assumes "mbind (load_transfer env now direction states active) f d = (d', r)"
    and "\<And>m u. sd_manifest u = Some m \<Longrightarrow> se_state m \<in> set states \<Longrightarrow> f m u = (d', r) \<Longrightarrow> may_reach u d'"
  shows "may_reach d d'"
proof -
  obtain u q where l: "load_transfer env now direction states active d = (u, q)" by fastforce
  show ?thesis
  proof (cases q)
    case (Inl e)
    then show ?thesis using assms(1) l load_reaches [OF l] by (auto simp: op_simps)
  next
    case (Inr m)
    then have "f m u = (d', r)" using assms(1) l by (auto simp: op_simps)
    then have "may_reach u d'" by (rule assms(2) [OF load_Inr(1,2) [OF l [unfolded Inr]]])
    then show ?thesis using load_reaches [OF l] may_reach_trans by blast
  qed
qed

text \<open>Whatever a chunk does, the state stays.\<close>

lemma chunk_keeps_state:
  assumes "sd_manifest d = Some m"
  shows "session_state (fst (write_upload_chunk sha env call m offset chunk d)) = Some (se_state m)"
proof -
  let ?P = "\<lambda>d. session_state d = Some (se_state m)"
  have put: "keeps ?P (mput f)" if "\<And>d. sd_manifest (f d) = sd_manifest d" for f :: "session_dir \<Rightarrow> session_dir"
    using that by (auto intro: keeps_put simp: session_state_def)
  have manifest: "keeps ?P (write_manifest m')" if "se_state m' = se_state m" for m'
    unfolding write_manifest_def using that by (auto intro: keeps_put simp: session_state_def)
  have "keeps ?P (reserve_receipt env call m)"
    unfolding reserve_receipt_def Let_def by (intro keeps_rules put) simp_all
  moreover have "keeps ?P (write_payload call n chunk)" for n
    unfolding write_payload_def by (intro keeps_rules put; simp split: cut.split) (auto intro: keeps_rules)
  moreover have "keeps ?P (store_receipt sha call m offset chunk)"
    unfolding store_receipt_def Let_def
    by (intro keeps_rules; simp add: case_prod_unfold)
      (auto intro!: keeps_rules put split: sum.split cut.split bool.split)
  ultimately have "keeps ?P (write_upload_chunk sha env call m offset chunk)"
    unfolding write_upload_chunk_def Let_def by (intro keeps_rules put manifest) simp_all
  then show ?thesis using assms by (simp add: keeps_def session_state_def)
qed

lemma step_reaches: "transfer_step sha env d d' \<Longrightarrow> may_reach d d'"
proof (induction rule: transfer_step.induct)
  case (receive call offset chunk d d' r)
  show ?case
    using receive [unfolded receive_chunk_def]
    by (rule load_then_reaches) (metis chunk_keeps_state fst_conv may_reach_same option.map(2) session_state_def)
next
  case (commit_refused call d d' e)
  show ?case
    using commit_refused [unfolded commit_prepare_def]
    by (rule load_then_reaches) (auto simp: op_simps split: if_splits)
next
  case (commit call d d1 m payload d' r)
  note p = prepare_Inr [OF commit(1)]
  have "may_reach d (d\<lparr>sd_manifest := Some (set_mark ''committed_at'' (xc_now call) (m\<lparr>se_state := ''committed''\<rparr>))\<rparr>)"
    using p by (intro may_reach_set [of _ m])
      (auto simp: may_become.simps known_states_def admission_states_def transfer_terminal_def)
  then show ?case using commit(2) p(2) by (auto simp: commit_finish_def write_manifest_def op_simps split: if_splits)
next
  case (fail states now d d' r)
  have "''failed'' \<in> set (may_become st)" if "st \<in> set states" for st
    using fail(1) that
    by (auto simp: may_become.simps known_states_def admission_states_def transfer_terminal_def failable_states_def
        dest!: subsetD)
  then show ?case
    using fail(2) unfolding mark_failed_session_def
    by (elim load_then_reaches) (auto simp: op_simps write_manifest_def intro!: may_reach_set split: if_splits)
next
  case (cancel call d d' r)
  have "''cancelled'' \<in> set (may_become st)" if "st \<in> set admission_states" for st
    using that by (auto simp: may_become.simps known_states_def admission_states_def transfer_terminal_def)
  then show ?case
    using cancel unfolding cancel_session_def
    by (elim load_then_reaches) (auto simp: op_simps Let_def write_manifest_def intro!: may_reach_set split: if_splits)
next
  case (admit now d d' n)
  have "''expired'' \<in> set (may_become st)" if "st \<in> set admission_states" for st
    using that by (auto simp: may_become.simps known_states_def admission_states_def transfer_terminal_def)
  then show ?case
    using admit
    by (auto simp: admit_one_def intro!: may_reach_set split: node.splits option.splits sum.splits if_splits)
next
  case (publish call m copied again d d' r)
  have keep: "session_state (d\<lparr>sd_payload := data, sd_payload_id := k\<rparr>) = session_state d" for data k
    by (simp add: session_state_def)
  have reach: "st \<in> set (may_become ''preparing'')" if "st \<in> {''open'', ''completed''}" for st
    using that by (auto simp: may_become.simps known_states_def admission_states_def transfer_terminal_def)
  obtain data where "d' = d \<or> d' = d\<lparr>sd_payload := data, sd_payload_id := xc_stamp call\<rparr>
      \<or> (session_state d = Some ''preparing''
          \<and> (\<exists>st. session_state d' = Some st \<and> st \<in> {''open'', ''completed''}))"
    using publish
    by (auto simp: publish_snapshot_def write_snapshot_def write_manifest_def op_simps Let_def session_state_def
        split: prod.splits if_splits)
  then show ?case using keep reach by (auto simp: may_reach_same) (auto simp: may_reach_def)
next
  case (read call source offset d d' c)
  have "''completed'' \<in> set (may_become ''open'')"
    by (simp add: may_become.simps known_states_def admission_states_def transfer_terminal_def)
  then show ?case
    using read unfolding read_chunk_def
    by (elim load_then_reaches)
      (auto simp: op_simps Let_def write_manifest_def intro!: may_reach_set split: if_splits)
next
  case (look now d d' st)
  then show ?case
    unfolding session_status_def by (elim load_then_reaches) (auto simp: op_simps Let_def)
qed

text \<open>
  C28. The life of a transfer: whatever sequence of operations runs on a session, a transfer that has
  expired, failed or been cancelled or committed stays in that state for ever, a completed download can
  only still be found broken, and nothing goes back to being prepared.
\<close>

theorem transfer_states_advance:
  assumes "(transfer_step sha env)\<^sup>*\<^sup>* d d'" "sd_manifest d = Some m"
  shows "\<exists>m'. sd_manifest d' = Some m'
    \<and> (se_state m \<in> {''expired'', ''failed'', ''cancelled'', ''committed''} \<longrightarrow> se_state m' = se_state m)
    \<and> (se_state m = ''completed'' \<longrightarrow> se_state m' \<in> {''completed'', ''failed''})
    \<and> (se_state m' = ''preparing'' \<longrightarrow> se_state m = ''preparing'')"
proof -
  have "may_reach d d'" using assms(1)
    by (induction rule: rtranclp_induct) (auto intro: may_reach_trans step_reaches)
  then obtain m' where m': "sd_manifest d' = Some m'" "se_state m' \<in> set (may_become (se_state m))"
    using assms(2) by (auto simp: may_reach_def session_state_def)
  then show ?thesis
    by (intro exI [of _ m'])
      (auto simp: may_become.simps known_states_def admission_states_def transfer_terminal_def split: if_splits)
qed

definition cancelled_session :: session_dir where
  "cancelled_session = fst (cancel_session demo_xenv (demo_xcall 1 Whole) demo_session)"

lemma transfer_states_advance_witness:
  "map_option se_state (sd_manifest cancelled_session) = Some ''cancelled''
   \<and> map_option se_state (sd_manifest (fst (receive_chunk demo_raw demo_xenv (demo_xcall 2 Whole) 0 [1] cancelled_session)))
       = Some ''cancelled''"
proof -
  have c: "map_option se_state (sd_manifest cancelled_session) = Some ''cancelled''" by code_simp
  then obtain m where m: "sd_manifest cancelled_session = Some m" "se_state m = ''cancelled''" by auto
  have "transfer_step demo_raw demo_xenv cancelled_session
      (fst (receive_chunk demo_raw demo_xenv (demo_xcall 2 Whole) 0 [1] cancelled_session))"
    by (rule transfer_step.receive) (rule prod.collapse [symmetric])
  then show ?thesis using transfer_states_advance [OF r_into_rtranclp m(1)] m c by fastforce
qed

section \<open>Downloads\<close>

text \<open>A step that leaves the payload as it is: all of them but a chunk received and a snapshot taken.\<close>

definition same_snapshot :: "transfer_session \<Rightarrow> session_dir \<Rightarrow> bytes \<Rightarrow> bool" where
  "same_snapshot m d data \<longleftrightarrow> sd_payload d = data
     \<and> (\<exists>st marks. sd_manifest d = Some (m\<lparr>se_state := st, se_marks := marks\<rparr>))"

lemma relabelled_snapshot: "relabelled d d' \<Longrightarrow> same_snapshot m d data \<Longrightarrow> same_snapshot m d' data"
  by (auto simp: relabelled_def same_snapshot_def) (metis transfer_session.select_convs transfer_session.surjective
    transfer_session.update_convs)+

lemma read_relabels: "read_chunk sha env call source offset d = (d', r) \<Longrightarrow> relabelled d d'"
  unfolding read_chunk_def
  by (erule load_then_relabelled) (auto simp: op_simps Let_def write_manifest_def relabelled_mark split: if_splits)

text \<open>The calls that can run on a published download.\<close>

inductive download_step ::
  "(bytes \<Rightarrow> bytes) \<Rightarrow> transfer_env \<Rightarrow> session_dir \<Rightarrow> session_dir \<Rightarrow> bool" for sha env where
  read_step: "read_chunk sha env call source offset d = (d', c) \<Longrightarrow> download_step sha env d d'"
| fail_step: "mark_failed_session env now states d = (d', r) \<Longrightarrow> download_step sha env d d'"
| cancel_step: "cancel_session env call d = (d', r) \<Longrightarrow> download_step sha env d d'"
| admit_step: "admit_one env now d = (d', n) \<Longrightarrow> download_step sha env d d'"
| look_step: "session_status env now d = (d', st) \<Longrightarrow> download_step sha env d d'"

lemma download_step_relabels: "download_step sha env d d' \<Longrightarrow> relabelled d d'"
  by (induction rule: download_step.induct)
    (auto intro: read_relabels mark_failed_relabels cancel_relabels status_relabels, metis admit_relabels fst_conv)

lemma download_steps_relabel: "(download_step sha env)\<^sup>*\<^sup>* d d' \<Longrightarrow> relabelled d d'"
  by (induction rule: rtranclp_induct) (auto intro: relabelled_trans download_step_relabels)

lemma publish_Inr:
  assumes "publish_snapshot sha call m copied again d = (d', Inr m')"
  obtains data where "copied = Inr data" "sd_payload d' = data" "sd_manifest d' = Some m'"
    "se_bytes m' = int (length data)" "se_sha m' = Some (hex_sha sha data)" "se_version m' = se_version m"
    "se_chunk_bytes m' = se_chunk_bytes m" "se_direction m' = se_direction m"
  using assms
  by (auto simp: publish_snapshot_def write_snapshot_def write_manifest_def op_simps Let_def set_mark_def
      split: prod.splits if_splits)

lemma read_chunk_snapshot:
  assumes "same_snapshot m d data" "3 \<le> se_version m" "se_bytes m = int (length data)" "0 < se_chunk_bytes m"
    and "read_chunk sha env call source offset d = (d', Inr c)"
  shows "b64decode (dc_base64 c) = Some (slice data offset (se_chunk_bytes m))" "0 \<le> offset" "offset < int (length data)"
    "dc_next c = min (offset + se_chunk_bytes m) (int (length data))"
    "dc_sha c = hex_sha sha (slice data offset (se_chunk_bytes m))" "dc_complete c \<longleftrightarrow> dc_next c = int (length data)"
proof -
  obtain u m1 payload where l: "load_transfer env (xc_now call) (Some ''download'') [''open'', ''completed''] True d = (u, Inr m1)"
    and r: "0 \<le> offset" "offset < se_bytes m1" "chunk_payload sha u m1 source env offset = Inr payload"
      "c = \<lparr>dc_offset = offset, dc_base64 = b64encode payload, dc_next = offset + int (length payload),
             dc_complete = (offset + int (length payload) = se_bytes m1), dc_sha = hex_sha sha payload\<rparr>"
    using assms(5) by (auto simp: read_chunk_def op_simps Let_def split: if_splits)
  have "same_snapshot m u data" using relabelled_snapshot [OF load_relabelled [OF l] assms(1)] .
  then obtain st marks where u: "sd_payload u = data" "m1 = m\<lparr>se_state := st, se_marks := marks\<rparr>"
    using load_Inr(1) [OF l] by (auto simp: same_snapshot_def)
  have p: "payload = slice data offset (se_chunk_bytes m)"
    "int (length payload) = min (se_chunk_bytes m) (int (length data) - offset)"
    using r(3) u assms(2,3) by (auto simp: chunk_payload_def rbind_eq_Inr Let_def slice_def split: if_splits)
  then show "b64decode (dc_base64 c) = Some (slice data offset (se_chunk_bytes m))" "0 \<le> offset" "offset < int (length data)"
    "dc_next c = min (offset + se_chunk_bytes m) (int (length data))"
    "dc_sha c = hex_sha sha (slice data offset (se_chunk_bytes m))" "dc_complete c \<longleftrightarrow> dc_next c = int (length data)"
    using r u assms(3) by (auto simp: b64decode_encode)
qed

lemma slices_concat:
  assumes "0 < c"
  shows "concat (List.map (\<lambda>k. slice data (int k * int c) (int c)) [0..<n]) = take (n * c) data"
proof (induction n)
  case (Suc n)
  have "slice data (int n * int c) (int c) = take c (drop (n * c) data)" by (simp add: slice_def nat_mult_distrib)
  moreover have "take (Suc n * c) data = take (n * c) data @ take c (drop (n * c) data)"
    using take_add [of "n * c" c data] by (simp add: add.commute)
  ultimately show ?case using Suc by simp
qed simp

text \<open>
  C29. A download is its snapshot: once the snapshot of a source was published, the chunks that are
  answered for all boundaries, at any times and in any order between other calls on the session, join
  to exactly the bytes that were copied, whose digest is the one announced; every answer names the
  place where the next chunk starts and says truly whether it is the last.
\<close>

theorem download_chunks_join_to_snapshot:
  assumes "publish_snapshot sha call m (Inr data) again d = (d1, Inr m1)"
    and "3 \<le> se_version m" "0 < se_chunk_bytes m"
    and "length answers = nat ((int (length data) + se_chunk_bytes m - 1) div se_chunk_bytes m)"
    and "\<And>k. k < length answers \<Longrightarrow> \<exists>u u' call source. (download_step sha env)\<^sup>*\<^sup>* d1 u
           \<and> read_chunk sha env call source (int k * se_chunk_bytes m) u = (u', Inr (answers ! k))"
  shows "concat (List.map (\<lambda>c. the (b64decode (dc_base64 c))) answers) = data
    \<and> se_sha m1 = Some (hex_sha sha data) \<and> se_bytes m1 = int (length data)
    \<and> (\<forall>k<length answers. dc_next (answers ! k) = min (int (Suc k) * se_chunk_bytes m) (int (length data))
         \<and> (dc_complete (answers ! k) \<longleftrightarrow> Suc k = length answers))"
proof -
  obtain data' where p: "data' = data" "sd_payload d1 = data" "sd_manifest d1 = Some m1" "se_bytes m1 = int (length data)"
    "se_sha m1 = Some (hex_sha sha data)" "se_version m1 = se_version m" "se_chunk_bytes m1 = se_chunk_bytes m"
    by (rule publish_Inr [OF assms(1)]) simp
  let ?c = "se_chunk_bytes m" and ?n = "length answers"
  have s: "same_snapshot m1 d1 data" using p by (auto simp: same_snapshot_def intro!: exI [of _ "se_state m1"] exI [of _ "se_marks m1"])
  have a: "b64decode (dc_base64 (answers ! k)) = Some (slice data (int k * ?c) ?c)"
    "int k * ?c < int (length data)"
    "dc_next (answers ! k) = min (int k * ?c + ?c) (int (length data))"
    "dc_complete (answers ! k) \<longleftrightarrow> dc_next (answers ! k) = int (length data)" if k: "k < ?n" for k
  proof -
    obtain u u' call source where u: "(download_step sha env)\<^sup>*\<^sup>* d1 u"
      "read_chunk sha env call source (int k * ?c) u = (u', Inr (answers ! k))" using assms(5) [OF k] by blast
    note r = read_chunk_snapshot [OF relabelled_snapshot [OF download_steps_relabel [OF u(1)] s] _ p(4) _ u(2)]
    show "b64decode (dc_base64 (answers ! k)) = Some (slice data (int k * ?c) ?c)" "int k * ?c < int (length data)"
      "dc_next (answers ! k) = min (int k * ?c + ?c) (int (length data))"
      "dc_complete (answers ! k) \<longleftrightarrow> dc_next (answers ! k) = int (length data)"
      using r assms(2,3) p by simp_all
  qed
  have n: "int ?n * ?c < int (length data) + ?c" "int (length data) \<le> int ?n * ?c"
  proof -
    let ?q = "(int (length data) + ?c - 1) div ?c"
    have q: "0 \<le> ?q" using assms(3) by (simp add: pos_imp_zdiv_nonneg_iff)
    let ?x = "int (length data) + ?c - 1"
    have m: "?q * ?c + ?x mod ?c = ?x" by simp
    have "0 \<le> (int (length data) + ?c - 1) mod ?c" "(int (length data) + ?c - 1) mod ?c < ?c"
      using assms(3) by simp_all
    moreover have "int ?n = ?q" using q assms(4) by simp
    ultimately have "int ?n * ?c = ?x - ?x mod ?c" "0 \<le> ?x mod ?c" "?x mod ?c < ?c"
      using m by (auto simp only: eq_diff_eq)
    then show "int ?n * ?c < int (length data) + ?c" "int (length data) \<le> int ?n * ?c" by linarith+
  qed
  have "concat (List.map (\<lambda>c. the (b64decode (dc_base64 c))) answers)
      = concat (List.map (\<lambda>k. slice data (int k * ?c) ?c) [0..<?n])"
    using a(1) by (intro arg_cong [of _ _ concat] nth_equalityI) simp_all
  also have "\<dots> = take (?n * nat ?c) data" using slices_concat [of "nat ?c" data ?n] assms(3) by simp
  also have "\<dots> = data"
  proof -
    have "int (length data) \<le> int (?n * nat ?c)" using n(2) assms(3) by simp
    then show ?thesis by (simp only: of_nat_le_iff take_all)
  qed
  finally have "concat (List.map (\<lambda>c. the (b64decode (dc_base64 c))) answers) = data" .
  moreover have "dc_next (answers ! k) = min (int (Suc k) * ?c) (int (length data))
      \<and> (dc_complete (answers ! k) \<longleftrightarrow> Suc k = ?n)" if k: "k < ?n" for k
  proof -
    have nx: "dc_next (answers ! k) = min (int (Suc k) * ?c) (int (length data))"
      using a(3) [OF k] by (simp add: algebra_simps)
    have "int (length data) \<le> int (Suc k) * ?c \<longleftrightarrow> Suc k = ?n"
    proof
      assume "int (length data) \<le> int (Suc k) * ?c"
      then have "\<not> Suc k < ?n" using a(2) [of "Suc k"] by force
      then show "Suc k = ?n" using k by simp
    qed (use n(2) in simp)
    then show ?thesis using nx a(4) [OF k] by auto
  qed
  ultimately show ?thesis using p by blast
qed

definition demo_download :: transfer_session where
  "demo_download = (fresh_session demo_xenv (demo_xcall 0 Whole) 3 ''download'' ''preparing'' ''a'' 3 ''o'')\<lparr>se_chunk_bytes := 2\<rparr>"

definition demo_published :: "session_dir \<times> transfer_session res" where
  "demo_published = publish_snapshot demo_raw (demo_xcall 1 Whole) demo_download (Inr [4, 5, 6]) (Inr (True, [4, 5, 6]))
     (new_session_dir demo_download 0)"

definition demo_answer :: "int \<Rightarrow> download_chunk" where
  "demo_answer k = projr (snd (read_chunk demo_raw demo_xenv (demo_xcall 2 Whole) (Inl (OSError ''none'')) k (fst demo_published)))"

lemma download_chunks_join_to_snapshot_witness:
  "concat (List.map (\<lambda>c. the (b64decode (dc_base64 c))) [demo_answer 0, demo_answer 2]) = [4, 5, 6]"
proof -
  have "\<not> isl (snd demo_published)" by code_simp
  then obtain d1 m1 where p: "publish_snapshot demo_raw (demo_xcall 1 Whole) demo_download (Inr [4, 5, 6])
      (Inr (True, [4, 5, 6])) (new_session_dir demo_download 0) = (d1, Inr m1)" "fst demo_published = d1"
    unfolding demo_published_def
    by (cases "publish_snapshot demo_raw (demo_xcall 1 Whole) demo_download (Inr [4, 5, 6])
      (Inr (True, [4, 5, 6])) (new_session_dir demo_download 0)") (metis prod.sel sum.collapse(2))
  let ?r = "\<lambda>k. read_chunk demo_raw demo_xenv (demo_xcall 2 Whole) (Inl (OSError ''none'')) k (fst demo_published)"
  have "\<not> isl (snd (?r 0))" "\<not> isl (snd (?r 2))" by code_simp+
  then have r: "?r 0 = (fst (?r 0), Inr (demo_answer 0))" "?r 2 = (fst (?r 2), Inr (demo_answer 2))"
    by (simp_all add: demo_answer_def prod_eq_iff)
  have c: "3 \<le> se_version demo_download" "0 < se_chunk_bytes demo_download" "se_chunk_bytes demo_download = 2"
    by code_simp+
  have ex: "\<exists>u u' call source. (download_step demo_raw demo_xenv)\<^sup>*\<^sup>* d1 u
      \<and> read_chunk demo_raw demo_xenv call source offset u = (u', Inr x)"
    if "?r offset = (v, Inr x)" for offset v x using that p(2) by blast
  have answered: "\<exists>u u' call source. (download_step demo_raw demo_xenv)\<^sup>*\<^sup>* d1 u
      \<and> read_chunk demo_raw demo_xenv call source (int k * se_chunk_bytes demo_download) u
         = (u', Inr ([demo_answer 0, demo_answer 2] ! k))" if k: "k < length [demo_answer 0, demo_answer 2]" for k
  proof -
    consider "k = 0" | "k = 1" using k by fastforce
    then show ?thesis
    proof cases
      case 1
      then show ?thesis using ex [OF r(1)] by simp
    next
      case 2
      then show ?thesis using ex [OF r(2)] c(3) by simp
    qed
  qed
  have "length [demo_answer 0, demo_answer 2] = nat ((int (length [4 :: 8 word, 5, 6]) + se_chunk_bytes demo_download - 1)
      div se_chunk_bytes demo_download)" using c(3) by simp
  from download_chunks_join_to_snapshot [OF p(1) c(1,2) this answered] show ?thesis by blast
qed

section \<open>Admission\<close>

definition active_session :: "string \<times> session_dir \<Rightarrow> bool" where
  "active_session td \<longleftrightarrow> (case session_state (snd td) of Some st \<Rightarrow> st \<in> set admission_states | None \<Rightarrow> False)"

definition open_transfers :: "transfers \<Rightarrow> nat" where
  "open_transfers s = length (List.filter active_session (xf_sessions s))"

text \<open>Every manifest stands in a plain file.\<close>

definition manifests_plain :: "transfers \<Rightarrow> bool" where
  "manifests_plain s \<longleftrightarrow>
     (\<exists>i. xf_root s = Node i \<and> ni_dir i \<and> \<not> ni_unsafe i)
     \<and> (\<forall>(t, d)\<in>set (xf_sessions s). \<exists>i. sd_manifest_node d = Node i \<and> ni_regular i)"

lemma admit_one_counts:
  assumes "admit_one env now d = (d', Inr n)" "\<exists>i. sd_manifest_node d = Node i \<and> ni_regular i"
  shows "n = (if active_session (t, d') then 1 else 0) \<and> sd_manifest_node d' = sd_manifest_node d"
  using assms
  by (auto simp: admit_one_def active_session_def session_state_def admission_states_def
      split: option.splits sum.splits if_splits)

lemma admit_sessions_counts:
  assumes "admit_sessions env now ss = (ss', Inr n)"
    "\<forall>(t, d)\<in>set ss. \<exists>i. sd_manifest_node d = Node i \<and> ni_regular i"
  shows "n = int (length (List.filter active_session ss')) \<and> List.map fst ss' = List.map fst ss
    \<and> (\<forall>(t, d)\<in>set ss'. \<exists>i. sd_manifest_node d = Node i \<and> ni_regular i)"
  using assms
proof (induction ss arbitrary: ss' n)
  case (Cons td ss)
  obtain t d where td: "td = (t, d)" by (cases td)
  obtain d' k where 1: "admit_one env now d = (d', Inr k)"
    using Cons.prems(1) td by (auto split: prod.splits sum.splits)
  obtain rest j where 2: "admit_sessions env now ss = (rest, Inr j)" "ss' = (t, d') # rest" "n = k + j"
    using Cons.prems(1) td 1 by (auto split: prod.splits sum.splits)
  have "\<exists>i. sd_manifest_node d = Node i \<and> ni_regular i" using Cons.prems(2) td by auto
  note a = admit_one_counts [OF 1 this, where t = t]
  show ?case using Cons.IH [OF 2(1)] Cons.prems(2) 2(2,3) a td by auto
qed simp

lemma admit_bound:
  assumes "admit_transfer env now s = (s', Inr ())" "manifests_plain s"
  shows "int (open_transfers s') < xe_max_open env" "manifests_plain s'"
    "List.map fst (xf_sessions s') = List.map fst (xf_sessions s)"
proof -
  obtain i where i: "xf_root s = Node i" "ni_dir i" "\<not> ni_unsafe i" using assms(2) by (auto simp: manifests_plain_def)
  obtain ss n where a: "admit_sessions env now (xf_sessions s) = (ss, Inr n)" "s' = s\<lparr>xf_sessions := ss\<rparr>" "n < xe_max_open env"
    using assms(1) i by (auto simp: admit_transfer_def rbind_eq_Inr split: prod.splits if_splits)
  have "\<forall>(t, d)\<in>set (xf_sessions s). \<exists>i. sd_manifest_node d = Node i \<and> ni_regular i"
    using assms(2) by (simp add: manifests_plain_def)
  from admit_sessions_counts [OF a(1) this] show "int (open_transfers s') < xe_max_open env" "manifests_plain s'"
    "List.map fst (xf_sessions s') = List.map fst (xf_sessions s)"
    using a i by (auto simp: open_transfers_def manifests_plain_def)
qed

text \<open>
  Transfers are admitted within the limit: after an upload was begun or a download reserved, no
  more than \<open>max_open_transfers\<close> sessions are being prepared or open, counting the new one, whatever the
  number was before.
\<close>

theorem transfer_admission_bounded:
  assumes "manifests_plain s"
    and "artifact_upload_begin sha env call looked t operation total_bytes digest expected None s = (s', Inr t')
      \<or> download_reserve env call path n t operation chunk_bytes s = (s', Inr m)"
  shows "int (open_transfers s') \<le> xe_max_open env"
proof -
  have created: "int (open_transfers s') \<le> xe_max_open env"
    if "admit_transfer env (xc_now call) s = (s1, Inr ())" "create_session t d s1 = (s', Inr ())" for s1 d
  proof -
    note b = admit_bound [OF that(1) assms(1)]
    have new: "t \<notin> fst ` set (xf_sessions s1)" using that(2)
      by (auto simp: create_session_def map_of_eq_None_iff split: if_splits)
    have "AList.update t d ss = ss @ [(t, d)]" if "t \<notin> fst ` set ss" for ss
      using that by (induction ss) auto
    then have "xf_sessions s' = xf_sessions s1 @ [(t, d)]" using that(2) new
      by (auto simp: create_session_def split: if_splits)
    then show ?thesis using b(1) by (simp add: open_transfers_def)
  qed
  from assms(2) show ?thesis
  proof
    assume "artifact_upload_begin sha env call looked t operation total_bytes digest expected None s = (s', Inr t')"
    then show ?thesis
      by (auto simp: artifact_upload_begin_def bind_source_def op_simps Let_def split: if_splits intro: created)
  next
    assume "download_reserve env call path n t operation chunk_bytes s = (s', Inr m)"
    then show ?thesis by (auto simp: download_reserve_def op_simps Let_def split: if_splits intro: created)
  qed
qed

lemma transfer_admission_bounded_witness:
  "int (open_transfers (fst demo_begun)) \<le> 2"
proof -
  have "manifests_plain no_transfers" by (simp add: manifests_plain_def no_transfers_def new_dir_node_def)
  from transfer_admission_bounded [OF this disjI1 [OF demo_begun(1)]] show ?thesis by (simp add: demo_xenv_def)
qed

section \<open>The reported state\<close>

text \<open>How the JSON document of a session looks to the read-only view; \<open>show\<close> is \<open>isoformat\<close>.\<close>

definition time_field :: "(int \<Rightarrow> string) \<Rightarrow> int option \<Rightarrow> string pyval" where
  "time_field fmt t = (case t of None \<Rightarrow> BadType | Some i \<Rightarrow> Py (fmt i))"

definition activity_view :: "(int \<Rightarrow> string) \<Rightarrow> transfer_session \<Rightarrow> transfer_manifest" where
  "activity_view fmt m =
     \<lparr>tm_version = Py (se_version m), tm_operation = Py (se_operation m), tm_direction = Py (se_direction m),
      tm_state = Py (se_state m), tm_created = time_field fmt (se_created m),
      tm_expires = (case se_expires m of None \<Rightarrow> Missing | Some e \<Rightarrow> time_field fmt e),
      tm_finished = (\<lambda>st. case map_of (se_marks m) (st @ ''_at'') of None \<Rightarrow> Missing | Some i \<Rightarrow> Py (fmt i))\<rparr>"

text \<open>
  Two reports, one state: what \<open>artifact_transfer_status\<close> answers for a session is the state the
  activity display shows for the same operation at the same instant (an active transfer past its
  expiry counts as expired in both), when a timestamp is read back as it was written.
\<close>

theorem status_agrees_with_activity:
  assumes "session_status env now d = (d', Inr st)" and "sd_manifest d = Some m"
    and "\<And>i. parse (fmt i) = Some \<lparr>at_instant = i, at_zone = 0\<rparr>"
    and "canonical_uuid t" "canonical_uuid (se_operation m)" "at_instant clock = now"
  shows "as_state (read_transfer_activity_state parse display (xe_ttl env) (\<lambda>_. Some (activity_view fmt m)) t
           (se_operation m) (se_direction m) (Some clock)) = st_state st \<and> d' = d"
proof -
  obtain u m1 where l: "load_transfer env now None known_states False d = (u, Inr m1)"
    using assms(1) by (auto simp: session_status_def op_simps)
  from l have l1: "load_manifest_doc d None = Inr m" "u = d" "m1 = m"
    using assms(2) by (cases rule: load_transfer_cases; auto dest: load_manifest_doc_Inr)+
  obtain expiry where e: "transfer_expiry env m = Inr expiry"
    "st_state st = (if se_state m \<in> set admission_states \<and> expiry < now then ''expired'' else se_state m)" "d' = d"
    using assms(1) l l1(2,3) by (auto simp: session_status_def op_simps Let_def)
  obtain created where c: "se_created m = Some created" "created \<le> expiry"
    "(case se_expires m of None \<Rightarrow> Some (created + xe_ttl env) | Some x \<Rightarrow> x) = Some expiry"
    using e(1) by (auto simp: transfer_expiry_def Let_def split: option.splits if_splits)
  have doc: "se_version m \<in> {1, 2, 3, 4, 5}" "se_direction m \<in> {''download'', ''upload''}" "se_state m \<in> set known_states"
    using l1(1) assms(2) by (auto simp: load_manifest_doc_def split: if_splits option.splits)
  have st: "set active_states = set admission_states" "set active_states \<union> set terminal_states = set known_states"
    by (auto simp: active_states_def admission_states_def terminal_states_def known_states_def transfer_terminal_def)
  have matches: "manifest_matches (se_operation m) (se_direction m) (activity_view fmt m)"
    using doc st(2) by (auto simp: manifest_matches_def activity_view_def)
  have cr: "activity_time parse (tm_created (activity_view fmt m)) = Some \<lparr>at_instant = created, at_zone = 0\<rparr>"
    using c(1) assms(3) by (simp add: activity_time_def activity_view_def time_field_def)
  have "\<exists>z. activity_expiry parse (xe_ttl env) (activity_view fmt m) \<lparr>at_instant = created, at_zone = 0\<rparr>
      = Some \<lparr>at_instant = expiry, at_zone = z\<rparr>"
    using c(3) assms(3)
    by (cases "se_expires m") (auto simp: activity_expiry_def activity_view_def time_field_def activity_time_def)
  then obtain z where ex: "activity_expiry parse (xe_ttl env) (activity_view fmt m) \<lparr>at_instant = created, at_zone = 0\<rparr>
      = Some \<lparr>at_instant = expiry, at_zone = z\<rparr>" by blast
  have "tm_state (activity_view fmt m) = Py (se_state m)" by (simp add: activity_view_def)
  then show ?thesis
    using assms(4-6) matches cr ex c(2) doc(2) st(1) e(2,3)
    by (auto simp: read_transfer_activity_state_def)
qed

definition unary_time :: "int \<Rightarrow> string" where
  "unary_time i = (if i < 0 then CHR ''-'' # replicate (nat (- i)) (CHR ''x'') else replicate (nat i) (CHR ''x''))"

definition parse_unary :: "string \<Rightarrow> aware_time option" where
  "parse_unary s = Some \<lparr>at_instant = (case s of [] \<Rightarrow> 0
     | c # r \<Rightarrow> if c = CHR ''-'' then - int (length r) else int (length s)), at_zone = 0\<rparr>"

lemma parse_unary_time: "parse_unary (unary_time i) = Some \<lparr>at_instant = i, at_zone = 0\<rparr>"
proof (cases "0 < i")
  case True
  then obtain k where k: "nat i = Suc k" by (metis gr0_implies_Suc zero_less_nat_eq)
  then have "i = int (Suc k)" using True by linarith
  then show ?thesis using k by (simp add: unary_time_def parse_unary_def)
qed (auto simp: unary_time_def parse_unary_def split: list.split)

definition demo_uuid :: string where
  "demo_uuid = ''00000000-0000-0000-0000-000000000001''"

definition demo_upload :: transfer_session where
  "demo_upload = upload_manifest demo_xenv (demo_xcall 0 Whole) ''a'' demo_uuid 3 (hex_sha demo_raw []) None None"

lemma status_agrees_with_activity_witness:
  "as_state (read_transfer_activity_state parse_unary (\<lambda>_. []) (xe_ttl demo_xenv)
     (\<lambda>_. Some (activity_view unary_time demo_upload)) demo_uuid (se_operation demo_upload) (se_direction demo_upload)
     (Some \<lparr>at_instant = 101, at_zone = 0\<rparr>)) = ''expired''"
proof -
  let ?r = "session_status demo_xenv 101 (new_session_dir demo_upload 0)"
  have "map_option st_state (case snd ?r of Inr x \<Rightarrow> Some x | Inl e \<Rightarrow> None) = Some ''expired''" by code_simp
  then obtain st where st: "?r = (fst ?r, Inr st)" "st_state st = ''expired''"
    by (cases ?r; cases "snd ?r") auto
  have u: "canonical_uuid demo_uuid" "canonical_uuid (se_operation demo_upload)" by code_simp+
  show ?thesis
    using status_agrees_with_activity [OF st(1) new_session_sel(1) parse_unary_time u, of "\<lparr>at_instant = 101, at_zone = 0\<rparr>" "\<lambda>_. []"]
      st(2) by simp
qed

end
