(* ===== verification/Transaction.thy ===== *)
theory Transaction
  imports Plan Effects
begin

text \<open>
  The commit boundary of the workspace: the primitives of \<open>windows_transaction.py\<close>, each one NTFS
  transaction, and the checks \<open>paths.py\<close> puts around them. The kernel, other processes and crashes
  are an environment: before every primitive step it may change the namespace, let the step fail or
  end the process. The fallbacks for other systems, kept for tests only, are left out.
\<close>

section \<open>The live namespace and its environment\<close>

text \<open>
  A workspace path is the spelling of its components on disk, joined by \<open>/\<close>; \<open>.\<close> is the root. A
  file carries its number of hard links.
\<close>

datatype live_node =
    LiveFile path_identity int bytes
  | LiveDir path_identity
  | LiveReparse path_identity bool      \<comment> \<open>a link or junction; whether it stands for a directory\<close>

type_synonym live = "(string \<times> live_node) list"

record tx_event =
  ev_crash :: bool                                        \<comment> \<open>the process ends here\<close>
  ev_foreign :: "(string \<times> live_node option) list"       \<comment> \<open>changes other processes made meanwhile\<close>
  ev_fault :: "error option"                              \<comment> \<open>the step raises without an effect\<close>
  ev_late :: bool                                         \<comment> \<open>committed, but could not be inspected afterwards\<close>
  ev_identity :: path_identity                            \<comment> \<open>identity of an object created, and its time\<close>

record tx_env =
  tx_sha :: "bytes \<Rightarrow> string"
  tx_fold :: "string \<Rightarrow> string"
  tx_root :: path_identity
  tx_event_at :: "nat \<Rightarrow> tx_event"

record tx_state =
  tx_live :: live
  tx_clock :: nat
  tx_dead :: bool

fun apply_foreign :: "(string \<times> live_node option) list \<Rightarrow> live \<Rightarrow> live" where
  "apply_foreign [] live = live"
| "apply_foreign ((p, None) # cs) live = apply_foreign cs (AList.delete p live)"
| "apply_foreign ((p, Some n) # cs) live = apply_foreign cs (AList.update p n live)"

definition process_ended :: error where
  "process_ended = OSError ''process ended''"

definition arrive :: "tx_env \<Rightarrow> ('a tx_state_scheme, tx_event) op" where
  "arrive env s =
     (if tx_dead s then (s, Inl process_ended)
      else
        let e = tx_event_at env (tx_clock s);
            s' = s\<lparr>tx_live := apply_foreign (ev_foreign e) (tx_live s), tx_clock := Suc (tx_clock s)\<rparr>
        in if ev_crash e then (s'\<lparr>tx_dead := True\<rparr>, Inl process_ended)
           else case ev_fault e of Some err \<Rightarrow> (s', Inl err) | None \<Rightarrow> (s', Inr e))"

definition parent_of :: "string \<Rightarrow> string" where
  "parent_of p =
     (let ps = split_on (CHR ''/'') p in if length ps \<le> 1 then ''.'' else join_with ''/'' (butlast ps))"

definition node_at :: "tx_env \<Rightarrow> live \<Rightarrow> string \<Rightarrow> live_node option" where
  "node_at env live p = (if p = ''.'' then Some (LiveDir (tx_root env)) else map_of live p)"

fun node_identity :: "live_node \<Rightarrow> path_identity" where
  "node_identity (LiveFile i l d) = i"
| "node_identity (LiveDir i) = i"
| "node_identity (LiveReparse i d) = i"

text \<open>\<open>Workspace.identity\<close> of a path.\<close>

definition live_identity :: "tx_env \<Rightarrow> live \<Rightarrow> string \<Rightarrow> path_identity option" where
  "live_identity env live p = map_option node_identity (node_at env live p)"

text \<open>\<open>_path_exists\<close>; names differ only up to case.\<close>

definition path_exists :: "tx_env \<Rightarrow> live \<Rightarrow> string \<Rightarrow> bool" where
  "path_exists env live p \<longleftrightarrow> list_ex (\<lambda>(q, _). tx_fold env q = tx_fold env p) live"

text \<open>What opening the path by any spelling of its name finds (\<open>windows_file_identity\<close>).\<close>

definition entry_at :: "tx_env \<Rightarrow> live \<Rightarrow> string \<Rightarrow> live_node option" where
  "entry_at env live p =
     map_option snd (List.find (\<lambda>(q, _). tx_fold env q = tx_fold env p) live)"

definition has_children :: "live \<Rightarrow> string \<Rightarrow> bool" where
  "has_children live p \<longleftrightarrow> list_ex (\<lambda>(q, _). starts_with (p @ ''/'') q) live"

definition key_is :: "path_identity \<Rightarrow> int \<times> int \<Rightarrow> bool" where
  "key_is i k \<longleftrightarrow> windows_volume_serial i = Some (fst k) \<and> windows_file_index i = Some (snd k)"

definition created_file :: "tx_event \<Rightarrow> bytes \<Rightarrow> live_node" where
  "created_file e data = LiveFile ((ev_identity e)\<lparr>file_size := int (length data)\<rparr>) 1 data"

definition rewritten_file :: "tx_event \<Rightarrow> path_identity \<Rightarrow> bytes \<Rightarrow> live_node" where
  "rewritten_file e i data =
     LiveFile (i\<lparr>file_size := int (length data), modified_ns := modified_ns (ev_identity e)\<rparr>) 1 data"

definition set_node :: "string \<Rightarrow> live_node \<Rightarrow> ('a tx_state_scheme, unit) op" where
  "set_node p n = mput (\<lambda>s. s\<lparr>tx_live := AList.update p n (tx_live s)\<rparr>)"

definition drop_node :: "string \<Rightarrow> ('a tx_state_scheme, unit) op" where
  "drop_node p = mput (\<lambda>s. s\<lparr>tx_live := AList.delete p (tx_live s)\<rparr>)"

definition postcondition :: "tx_event \<Rightarrow> string \<Rightarrow> ('a tx_state_scheme, unit) op" where
  "postcondition e message = mcheck (\<not> ev_late e) (RuntimeError message)"

section \<open>Validated handles\<close>

definition open_directory :: "tx_env \<Rightarrow> live \<Rightarrow> string \<Rightarrow> path_identity res" where
  "open_directory env live p =
     (case node_at env live p of
        None \<Rightarrow> Inl (FileNotFound ''directory could not be opened'')
      | Some (LiveReparse _ _) \<Rightarrow> Inl (PermissionError ''parent is a reparse point'')
      | Some (LiveFile _ _ _) \<Rightarrow> Inl (NotADirectory ''parent is not a directory'')
      | Some (LiveDir i) \<Rightarrow> Inr i)"

definition open_parent :: "tx_env \<Rightarrow> live \<Rightarrow> string \<Rightarrow> (int \<times> int) option \<Rightarrow> path_identity res" where
  "open_parent env live p expected =
     rbind (open_directory env live (parent_of p)) (\<lambda>i.
       case expected of
         None \<Rightarrow> Inr i
       | Some k \<Rightarrow> if key_is i k then Inr i else Inl (RuntimeError ''parent changed before commit''))"

definition validate_regular_identity ::
  "live_node option \<Rightarrow> int \<times> int \<Rightarrow> int \<Rightarrow> (path_identity \<times> bytes) res" where
  "validate_regular_identity n expected_identity expected_size =
     (case n of
        None \<Rightarrow> Inl (FileNotFound ''transaction target could not be opened'')
      | Some (LiveReparse _ _) \<Rightarrow> Inl (PermissionError ''transaction target became a reparse point'')
      | Some (LiveDir _) \<Rightarrow> Inl (IsADirectory ''transaction target is not a regular file'')
      | Some (LiveFile i links data) \<Rightarrow>
          if links \<noteq> 1 then Inl (PermissionError ''transaction target has multiple hard links'')
          else if \<not> key_is i expected_identity
          then Inl (RuntimeError ''write target changed before transactional commit'')
          else if int (length data) \<noteq> expected_size
          then Inl (RuntimeError ''write target size changed before transactional commit'')
          else Inr (i, data))"

definition validate_source_snapshot ::
  "tx_env \<Rightarrow> live_node option \<Rightarrow> int \<times> int \<Rightarrow> int \<Rightarrow> string \<Rightarrow> (path_identity \<times> bytes) res" where
  "validate_source_snapshot env n expected_identity expected_size expected_sha =
     (if expected_size < 0 then Inl (ValueError ''expected_size must be non-negative'')
      else rbind (validate_regular_identity n expected_identity expected_size) (\<lambda>(i, data).
        if tx_sha env data \<noteq> expected_sha
        then Inl (RuntimeError ''transaction source content changed before commit'')
        else Inr (i, data)))"

section \<open>The primitives\<close>

definition transactional_write_bytes ::
  "tx_env \<Rightarrow> string \<Rightarrow> bytes \<Rightarrow> (int \<times> int) option \<Rightarrow> int option \<Rightarrow> string option \<Rightarrow>
   ('a tx_state_scheme, unit) op" where
  "transactional_write_bytes env p data expected_identity expected_size expected_sha =
     (case (expected_identity, expected_size, expected_sha) of
        (None, None, None) \<Rightarrow>
          mbind (arrive env) (\<lambda>e. mbind (mget tx_live) (\<lambda>live.
            if path_exists env live p then mfail (FileExists ''new transactional target exists'')
            else mbind (mlift (open_directory env live (parent_of p))) (\<lambda>_.
              set_node p (created_file e data))))
      | (Some k, Some bytes_expected, Some digest) \<Rightarrow>
          mbind (arrive env) (\<lambda>e. mbind (mget tx_live) (\<lambda>live.
            mbind (mlift (validate_regular_identity (map_of live p) k bytes_expected)) (\<lambda>(i, old).
              if tx_sha env old \<noteq> digest
              then mfail (RuntimeError ''write target content changed before transactional commit'')
              else set_node p (rewritten_file e i data))))
      | _ \<Rightarrow> mfail (ValueError ''existing target identity, size, and digest must be supplied together''))"

definition transactional_delete ::
  "tx_env \<Rightarrow> string \<Rightarrow> int \<times> int \<Rightarrow> int \<Rightarrow> string \<Rightarrow> ('a tx_state_scheme, unit) op" where
  "transactional_delete env p expected_identity expected_size expected_sha =
     mbind (arrive env) (\<lambda>e. mbind (mget tx_live) (\<lambda>live.
       mbind (mlift (validate_regular_identity (map_of live p) expected_identity expected_size))
         (\<lambda>(i, old).
           if tx_sha env old \<noteq> expected_sha
           then mfail (RuntimeError ''delete target content changed before transactional commit'')
           else drop_node p)))"

text \<open>A rename that changes only the case of the name may find its own source at the destination.\<close>

definition case_only :: "tx_env \<Rightarrow> string \<Rightarrow> string \<Rightarrow> bool" where
  "case_only env src dst \<longleftrightarrow> tx_fold env src = tx_fold env dst"

definition transactional_move_file ::
  "tx_env \<Rightarrow> string \<Rightarrow> string \<Rightarrow> int \<times> int \<Rightarrow> int \<Rightarrow> string \<Rightarrow> (int \<times> int) option \<Rightarrow> (int \<times> int) option \<Rightarrow>
   ('a tx_state_scheme, unit) op" where
  "transactional_move_file env src dst sid bytes_expected digest sparent dparent =
     (if src = dst then mfail (ValueError ''source and destination must not be the same path'')
      else mbind (arrive env) (\<lambda>e. mbind (mget tx_live) (\<lambda>live.
        if path_exists env live dst \<and> \<not> case_only env src dst
        then mfail (FileExists ''move destination already exists'')
        else if case_only env src dst \<and> entry_at env live dst = None
        then mfail (RuntimeError ''case-only move destination could not be inspected'')
        else if case_only env src dst
          \<and> (case entry_at env live dst of None \<Rightarrow> False | Some n \<Rightarrow> \<not> key_is (node_identity n) sid)
        then mfail (FileExists ''case-only move destination is not the validated source'')
        else mbind (mlift (open_parent env live src sparent)) (\<lambda>sp.
          mbind (mlift (open_parent env live dst dparent)) (\<lambda>dp.
          if windows_volume_serial sp \<noteq> windows_volume_serial dp
          then mfail (OSError ''cross-volume file move is not supported by the Broker primitive'')
          else mbind (mlift (validate_source_snapshot env (map_of live src) sid bytes_expected digest))
            (\<lambda>(i, data).
              mbind (drop_node src) (\<lambda>_. mbind (set_node dst (LiveFile i 1 data)) (\<lambda>_.
                postcondition e ''move committed but destination postcondition could not be verified''))))))))"

definition transactional_copy_file ::
  "tx_env \<Rightarrow> string \<Rightarrow> string \<Rightarrow> int \<times> int \<Rightarrow> int \<Rightarrow> string \<Rightarrow> (int \<times> int) option \<Rightarrow> (int \<times> int) option \<Rightarrow>
   int option \<Rightarrow> ('a tx_state_scheme, unit) op" where
  "transactional_copy_file env src dst sid bytes_expected digest sparent dparent max_bytes =
     (if src = dst then mfail (ValueError ''source and destination must not be the same path'')
      else if (case max_bytes of None \<Rightarrow> False | Some m \<Rightarrow> m < bytes_expected)
      then mfail (ValueError ''copy source exceeds max_bytes'')
      else mbind (arrive env) (\<lambda>e. mbind (mget tx_live) (\<lambda>live.
        if path_exists env live dst then mfail (FileExists ''copy destination already exists'')
        else mbind (mlift (open_parent env live src sparent)) (\<lambda>sp.
          mbind (mlift (open_parent env live dst dparent)) (\<lambda>dp.
          if windows_volume_serial sp \<noteq> windows_volume_serial dp
          then mfail (OSError ''cross-volume file copy is not supported by the Broker primitive'')
          else mbind (mlift (validate_source_snapshot env (map_of live src) sid bytes_expected digest))
            (\<lambda>(i, data).
              mbind (set_node dst (created_file e data)) (\<lambda>_.
                postcondition e ''copy committed with an unexpected destination identity'')))))))"

text \<open>The paths of a chain: \<open>a\<close>, \<open>a/b\<close>, \<open>a/b/c\<close>.\<close>

definition path_chain :: "string \<Rightarrow> string list" where
  "path_chain p =
     (let ps = wp_rel (parse_windows_path p) in
      List.map (\<lambda>k. join_with ''/'' (take (Suc k) ps)) [0..<length ps])"

fun check_chain :: "live \<Rightarrow> string list \<Rightarrow> string list res" where
  "check_chain live [] = Inr []"
| "check_chain live (p # ps) =
     (case map_of live p of
        None \<Rightarrow>
          if list_ex (\<lambda>q. map_of live q \<noteq> None) ps
          then Inl (RuntimeError ''directory chain changed during validation'') else Inr (p # ps)
      | Some (LiveReparse _ _) \<Rightarrow> Inl (PermissionError ''symlink, junction, or reparse point is denied'')
      | Some (LiveFile _ _ _) \<Rightarrow> Inl (NotADirectory ''path component is not a directory'')
      | Some (LiveDir _) \<Rightarrow> check_chain live ps)"

definition nearest_existing :: "string list \<Rightarrow> string list \<Rightarrow> string" where
  "nearest_existing chain missing =
     (let n = length chain - length missing in if n = 0 then ''.'' else chain ! (n - 1))"

definition transactional_create_directories ::
  "tx_env \<Rightarrow> string \<Rightarrow> bool \<Rightarrow> bool \<Rightarrow> (int \<times> int) option \<Rightarrow> ('a tx_state_scheme, string list) op" where
  "transactional_create_directories env p make_parents exist_ok expected_parent =
     mbind (arrive env) (\<lambda>e. mbind (mget tx_live) (\<lambda>live.
       mbind (mlift (check_chain live (path_chain p))) (\<lambda>missing.
         if missing = [] \<and> \<not> exist_ok then mfail (FileExists ''directory already exists'')
         else if missing \<noteq> [] \<and> \<not> make_parents \<and> length missing \<noteq> 1
         then mfail (FileNotFound ''directory parent does not exist'')
         else mbind (mlift (open_directory env live (nearest_existing (path_chain p) missing))) (\<lambda>i.
           if (case expected_parent of None \<Rightarrow> False | Some k \<Rightarrow> \<not> key_is i k)
           then mfail (RuntimeError ''directory parent changed before commit'')
           else if missing = [] then mret []
           else mbind (mfold (\<lambda>q. set_node q (LiveDir (ev_identity e))) missing) (\<lambda>_.
             mbind (postcondition e ''directory create committed but postcondition could not be verified'')
               (\<lambda>_. mret missing))))))"

definition transactional_remove_directory ::
  "tx_env \<Rightarrow> string \<Rightarrow> int \<times> int \<Rightarrow> int \<times> int \<Rightarrow> ('a tx_state_scheme, unit) op" where
  "transactional_remove_directory env p expected_identity expected_parent =
     mbind (arrive env) (\<lambda>e. mbind (mget tx_live) (\<lambda>live.
       mbind (mlift (open_parent env live p (Some expected_parent))) (\<lambda>_.
         case map_of live p of
           None \<Rightarrow> mfail (FileNotFound ''directory could not be opened'')
         | Some (LiveReparse _ _) \<Rightarrow> mfail (PermissionError ''directory is a reparse point'')
         | Some (LiveFile _ _ _) \<Rightarrow> mfail (NotADirectory ''not a directory'')
         | Some (LiveDir i) \<Rightarrow>
             if \<not> key_is i expected_identity
             then mfail (RuntimeError ''directory target changed before commit'')
             else if has_children live p then mfail (OSError ''directory is not empty'')
             else mbind (drop_node p) (\<lambda>_.
               postcondition e ''directory removal committed but target still exists''))))"

section \<open>The commits of the path broker\<close>

text \<open>
  The parent directory is held while its identity is compared; the primitive then runs as the next
  step of the environment.
\<close>

definition same_object :: "path_identity \<Rightarrow> path_identity \<Rightarrow> bool" where
  "same_object a b \<longleftrightarrow> device a = device b \<and> inode a = inode b"

definition check_commit_parent ::
  "tx_env \<Rightarrow> string \<Rightarrow> path_identity \<Rightarrow> error \<Rightarrow> ('a tx_state_scheme, unit) op" where
  "check_commit_parent env p parent_identity err =
     mbind (arrive env) (\<lambda>_. mbind (mget tx_live) (\<lambda>live.
       case live_identity env live (parent_of p) of
         None \<Rightarrow> mfail err
       | Some c \<Rightarrow> mcheck (same_object c parent_identity) err))"

definition commit_bytes ::
  "tx_env \<Rightarrow> string \<Rightarrow> bytes \<Rightarrow> path_identity \<Rightarrow> path_identity option \<Rightarrow> string option \<Rightarrow>
   ('a tx_state_scheme, unit) op" where
  "commit_bytes env p data parent_identity target_identity expected_sha =
     mbind (check_commit_parent env p parent_identity
              (RuntimeError ''write target parent changed during operation'')) (\<lambda>_.
       case target_identity of
         None \<Rightarrow>
           (case expected_sha of
              Some _ \<Rightarrow> mfail (ValueError ''missing target must not have an expected digest'')
            | None \<Rightarrow> transactional_write_bytes env p data None None None)
       | Some i \<Rightarrow>
           (case (windows_volume_serial i, windows_file_index i, expected_sha) of
              (Some v, Some f, Some digest) \<Rightarrow>
                transactional_write_bytes env p data (Some (v, f)) (Some (file_size i)) (Some digest)
            | _ \<Rightarrow> mfail (RuntimeError ''Windows target has no stable transactional identity'')))"

definition commit_delete ::
  "tx_env \<Rightarrow> string \<Rightarrow> path_identity \<Rightarrow> path_identity \<Rightarrow> string \<Rightarrow> ('a tx_state_scheme, unit) op" where
  "commit_delete env p parent_identity target_identity expected_sha =
     mbind (check_commit_parent env p parent_identity
              (RuntimeError ''delete target parent changed during operation'')) (\<lambda>_.
       case (windows_volume_serial target_identity, windows_file_index target_identity) of
         (Some v, Some f) \<Rightarrow> transactional_delete env p (v, f) (file_size target_identity) expected_sha
       | _ \<Rightarrow> mfail (RuntimeError ''Windows target has no stable transactional identity''))"

definition commit_move ::
  "tx_env \<Rightarrow> string \<Rightarrow> string \<Rightarrow> path_identity \<Rightarrow> path_identity \<Rightarrow> path_identity \<Rightarrow> string \<Rightarrow>
   ('a tx_state_scheme, unit) op" where
  "commit_move env src dst src_parent dst_parent src_identity digest =
     mbind (mlift (native_identity src_identity)) (\<lambda>sid.
     mbind (mlift (native_identity src_parent)) (\<lambda>sp.
     mbind (mlift (native_identity dst_parent)) (\<lambda>dp.
       transactional_move_file env src dst sid (file_size src_identity) digest (Some sp) (Some dp))))"

definition commit_copy ::
  "tx_env \<Rightarrow> string \<Rightarrow> string \<Rightarrow> path_identity \<Rightarrow> path_identity \<Rightarrow> path_identity \<Rightarrow> string \<Rightarrow> int \<Rightarrow>
   ('a tx_state_scheme, unit) op" where
  "commit_copy env src dst src_parent dst_parent src_identity digest max_bytes =
     mbind (mlift (native_identity src_identity)) (\<lambda>sid.
     mbind (mlift (native_identity src_parent)) (\<lambda>sp.
     mbind (mlift (native_identity dst_parent)) (\<lambda>dp.
       transactional_copy_file env src dst sid (file_size src_identity) digest (Some sp) (Some dp)
         (Some max_bytes))))"

definition commit_directories ::
  "tx_env \<Rightarrow> string \<Rightarrow> bool \<Rightarrow> path_identity \<Rightarrow> ('a tx_state_scheme, string list) op" where
  "commit_directories env p make_parents parent_identity =
     mbind (mlift (native_identity parent_identity)) (\<lambda>k.
       transactional_create_directories env p make_parents False (Some k))"

definition commit_remove_directory ::
  "tx_env \<Rightarrow> string \<Rightarrow> path_identity \<Rightarrow> path_identity \<Rightarrow> ('a tx_state_scheme, unit) op" where
  "commit_remove_directory env p parent_identity target_identity =
     mbind (mlift (native_identity target_identity)) (\<lambda>k.
     mbind (mlift (native_identity parent_identity)) (\<lambda>pk.
       transactional_remove_directory env p k pk))"

text \<open>
  \<open>ensure_directory_for_write\<close>: one \<open>mkdir\<close> after the other along the chain, each its own step. The
  policy checks of the broker are modelled in the theory of paths; here they are faults.
\<close>

definition ensure_component :: "tx_env \<Rightarrow> string \<Rightarrow> ('a tx_state_scheme, unit) op" where
  "ensure_component env p =
     mbind (arrive env) (\<lambda>e. mbind (mget tx_live) (\<lambda>live.
       case map_of live p of
         None \<Rightarrow> set_node p (LiveDir (ev_identity e))
       | Some (LiveDir _) \<Rightarrow> mret ()
       | Some (LiveReparse _ _) \<Rightarrow> mfail (PermissionError ''symlink, junction, or reparse point is denied'')
       | Some (LiveFile _ _ _) \<Rightarrow> mfail (NotADirectory ''write parent is not a directory'')))"

definition ensure_directory_for_write :: "tx_env \<Rightarrow> string \<Rightarrow> ('a tx_state_scheme, unit) op" where
  "ensure_directory_for_write env p =
     mbind (mlift (validate_windows_syntax p)) (\<lambda>_. mfold (ensure_component env) (path_chain p))"

section \<open>What a primitive can change\<close>

text \<open>What other processes made of a namespace between two moments.\<close>

definition foreign_run :: "tx_env \<Rightarrow> nat \<Rightarrow> nat \<Rightarrow> live \<Rightarrow> live" where
  "foreign_run env n m live =
     foldl (\<lambda>l k. apply_foreign (ev_foreign (tx_event_at env k)) l) live [n..<m]"

lemma foreign_run_same [simp]: "foreign_run env n n live = live"
  by (simp add: foreign_run_def)

lemma foreign_run_Suc:
  "n \<le> m \<Longrightarrow> foreign_run env n (Suc m) live
     = apply_foreign (ev_foreign (tx_event_at env m)) (foreign_run env n m live)"
  by (simp add: foreign_run_def)

lemma arrive_cases:
  assumes "arrive env s = (s', r)"
  obtains (dead) "s' = s" "r = Inl process_ended"
  | (failed) err where "tx_clock s' = Suc (tx_clock s)" "r = Inl err"
      "tx_live s' = apply_foreign (ev_foreign (tx_event_at env (tx_clock s))) (tx_live s)"
  | (arrived) "s' = s\<lparr>tx_live := apply_foreign (ev_foreign (tx_event_at env (tx_clock s))) (tx_live s),
                   tx_clock := Suc (tx_clock s)\<rparr>" "r = Inr (tx_event_at env (tx_clock s))"
  using assms by (auto simp: arrive_def Let_def split: if_splits option.splits)

text \<open>
  The shape of every primitive: after some steps of the environment either nothing of its own
  happened to the namespace, or exactly one change did.
\<close>

definition one_change ::
  "tx_env \<Rightarrow> (live \<Rightarrow> live \<Rightarrow> bool) \<Rightarrow> ('a tx_state_scheme, 'b) op \<Rightarrow> bool" where
  "one_change env change m \<longleftrightarrow>
     (\<forall>s s' r. m s = (s', r) \<longrightarrow> tx_clock s \<le> tx_clock s' \<and>
        (let live = foreign_run env (tx_clock s) (tx_clock s') (tx_live s) in
         (tx_live s' = live \<and> (\<exists>e. r = Inl e)) \<or> change live (tx_live s')))"

lemma one_change_arrive:
  assumes "\<And>e s s' r. e \<in> range (tx_event_at env) \<Longrightarrow> f e s = (s', r) \<Longrightarrow> tx_clock s' = tx_clock s \<and>
      ((tx_live s' = tx_live s \<and> (\<exists>e. r = Inl e)) \<or> change (tx_live s) (tx_live s'))"
  shows "one_change env change (mbind (arrive env) f)"
  unfolding one_change_def Let_def
proof (intro allI impI)
  fix s s' r assume "mbind (arrive env) f s = (s', r)"
  then consider e where "arrive env s = (s', Inl e)" "r = Inl e"
    | t e where "arrive env s = (t, Inr e)" "f e t = (s', r)" by (auto simp: op_simps)
  then show "tx_clock s \<le> tx_clock s' \<and>
      (tx_live s' = foreign_run env (tx_clock s) (tx_clock s') (tx_live s) \<and> (\<exists>e. r = Inl e)
       \<or> change (foreign_run env (tx_clock s) (tx_clock s') (tx_live s)) (tx_live s'))"
  proof cases
    case 1
    then show ?thesis by (cases rule: arrive_cases) (auto simp: foreign_run_Suc)
  next
    case 2
    from 2(1) show ?thesis
    proof (cases rule: arrive_cases)
      case arrived
      then show ?thesis using assms [OF _ 2(2)] by (auto simp: foreign_run_Suc)
    qed auto
  qed
qed

lemma foreign_run_append:
  "n \<le> k \<Longrightarrow> k \<le> m \<Longrightarrow> foreign_run env k m (foreign_run env n k live) = foreign_run env n m live"
proof -
  assume "n \<le> k" "k \<le> m"
  then have "[n..<m] = [n..<k] @ [k..<m]" using upt_add_eq_append [of n k "m - k"] by simp
  then show ?thesis by (simp add: foreign_run_def)
qed

text \<open>Steps before that only look, and a result that is only passed on.\<close>

definition only_looks :: "tx_env \<Rightarrow> ('a tx_state_scheme, 'b) op \<Rightarrow> bool" where
  "only_looks env m \<longleftrightarrow>
     (\<forall>s s' r. m s = (s', r) \<longrightarrow> tx_clock s \<le> tx_clock s'
        \<and> tx_live s' = foreign_run env (tx_clock s) (tx_clock s') (tx_live s))"

lemma only_looks_lift: "only_looks env (mlift x)"
  by (simp add: only_looks_def op_simps)

lemma only_looks_parent: "only_looks env (check_commit_parent env p i err)"
  unfolding only_looks_def
proof (intro allI impI)
  fix s s' r assume a: "check_commit_parent env p i err s = (s', r)"
  obtain t q where t: "arrive env s = (t, q)" by (cases "arrive env s")
  have "s' = t" using a t by (auto simp: check_commit_parent_def op_simps split: option.splits)
  then show "tx_clock s \<le> tx_clock s' \<and> tx_live s' = foreign_run env (tx_clock s) (tx_clock s') (tx_live s)"
    using t \<open>s' = t\<close> by (auto elim!: arrive_cases simp: foreign_run_Suc)
qed

lemma one_change_after_look:
  assumes "only_looks env m" and "\<And>x. one_change env change (f x)"
  shows "one_change env change (mbind m f)"
  unfolding one_change_def Let_def
proof (intro allI impI)
  fix s s' r assume "mbind m f s = (s', r)"
  then consider e where "m s = (s', Inl e)" "r = Inl e" | t x where "m s = (t, Inr x)" "f x t = (s', r)"
    by (auto simp: op_simps)
  then show "tx_clock s \<le> tx_clock s' \<and>
      (tx_live s' = foreign_run env (tx_clock s) (tx_clock s') (tx_live s) \<and> (\<exists>e. r = Inl e)
       \<or> change (foreign_run env (tx_clock s) (tx_clock s') (tx_live s)) (tx_live s'))"
  proof cases
    case 1
    then show ?thesis using assms(1) unfolding only_looks_def by blast
  next
    case 2
    have t: "tx_clock s \<le> tx_clock t" "tx_live t = foreign_run env (tx_clock s) (tx_clock t) (tx_live s)"
      using assms(1) 2(1) unfolding only_looks_def by blast+
    have u: "tx_clock t \<le> tx_clock s'"
      "tx_live s' = foreign_run env (tx_clock t) (tx_clock s') (tx_live t) \<and> (\<exists>e. r = Inl e)
       \<or> change (foreign_run env (tx_clock t) (tx_clock s') (tx_live t)) (tx_live s')"
      using assms(2) 2(2) unfolding one_change_def Let_def by blast+
    then show ?thesis using t foreign_run_append [OF t(1) u(1)] by auto
  qed
qed

lemma one_change_fail: "one_change env change (mfail e)"
  by (simp add: one_change_def op_simps)

section \<open>One change per primitive\<close>

definition rewritten :: "tx_env \<Rightarrow> string \<Rightarrow> bytes \<Rightarrow> int \<times> int \<Rightarrow> int \<Rightarrow> string \<Rightarrow> live \<Rightarrow> live \<Rightarrow> bool" where
  "rewritten env p data k n digest live live' \<longleftrightarrow>
     (\<exists>i old e. map_of live p = Some (LiveFile i 1 old) \<and> key_is i k \<and> e \<in> range (tx_event_at env)
        \<and> int (length old) = n \<and> tx_sha env old = digest
        \<and> live' = AList.update p (rewritten_file e i data) live)"

definition newly_written :: "tx_env \<Rightarrow> string \<Rightarrow> bytes \<Rightarrow> live \<Rightarrow> live \<Rightarrow> bool" where
  "newly_written env p data live live' \<longleftrightarrow>
     \<not> path_exists env live p
     \<and> (\<exists>e\<in>range (tx_event_at env). live' = AList.update p (created_file e data) live)"

definition removed_file :: "tx_env \<Rightarrow> string \<Rightarrow> int \<times> int \<Rightarrow> int \<Rightarrow> string \<Rightarrow> live \<Rightarrow> live \<Rightarrow> bool" where
  "removed_file env p k n digest live live' \<longleftrightarrow>
     (\<exists>i old. map_of live p = Some (LiveFile i 1 old) \<and> key_is i k \<and> int (length old) = n
        \<and> tx_sha env old = digest \<and> live' = AList.delete p live)"

definition moved ::
  "tx_env \<Rightarrow> string \<Rightarrow> string \<Rightarrow> int \<times> int \<Rightarrow> int \<Rightarrow> string \<Rightarrow> live \<Rightarrow> live \<Rightarrow> bool" where
  "moved env src dst k n digest live live' \<longleftrightarrow>
     (\<exists>i data. map_of live src = Some (LiveFile i 1 data) \<and> key_is i k \<and> int (length data) = n
        \<and> tx_sha env data = digest
        \<and> (if case_only env src dst then \<exists>m. entry_at env live dst = Some m \<and> key_is (node_identity m) k
           else \<not> path_exists env live dst)
        \<and> live' = AList.update dst (LiveFile i 1 data) (AList.delete src live))"

definition copied ::
  "tx_env \<Rightarrow> string \<Rightarrow> string \<Rightarrow> int \<times> int \<Rightarrow> int \<Rightarrow> string \<Rightarrow> live \<Rightarrow> live \<Rightarrow> bool" where
  "copied env src dst k n digest live live' \<longleftrightarrow>
     (\<exists>i j data. map_of live src = Some (LiveFile i 1 data) \<and> key_is i k \<and> int (length data) = n
        \<and> tx_sha env data = digest \<and> \<not> path_exists env live dst
        \<and> live' = AList.update dst (LiveFile j 1 data) live)"

definition directory_removed :: "string \<Rightarrow> int \<times> int \<Rightarrow> live \<Rightarrow> live \<Rightarrow> bool" where
  "directory_removed p k live live' \<longleftrightarrow>
     (\<exists>i. map_of live p = Some (LiveDir i) \<and> key_is i k) \<and> \<not> has_children live p
     \<and> live' = AList.delete p live"

definition directories_created :: "tx_env \<Rightarrow> string \<Rightarrow> live \<Rightarrow> live \<Rightarrow> bool" where
  "directories_created env p live live' \<longleftrightarrow>
     (\<exists>missing. \<exists>e\<in>range (tx_event_at env). check_chain live (path_chain p) = Inr missing \<and> missing \<noteq> []
        \<and> live' = foldl (\<lambda>l q. AList.update q (LiveDir (ev_identity e)) l) live missing)"

lemma validate_regular_Inr:
  "validate_regular_identity n k m = Inr (i, data) \<longleftrightarrow>
     n = Some (LiveFile i 1 data) \<and> key_is i k \<and> int (length data) = m"
  by (auto simp: validate_regular_identity_def split: option.splits live_node.splits if_splits)

lemma validate_source_Inr:
  "validate_source_snapshot env n k m digest = Inr (i, data) \<Longrightarrow>
     n = Some (LiveFile i 1 data) \<and> key_is i k \<and> int (length data) = m \<and> tx_sha env data = digest"
  by (auto simp: validate_source_snapshot_def rbind_eq_Inr validate_regular_Inr split: if_splits)

lemma write_new_change:
  "one_change env (newly_written env p data)
     (transactional_write_bytes env p data None None None :: ('a tx_state_scheme, unit) op)"
  unfolding transactional_write_bytes_def prod.case option.case
  by (rule one_change_arrive)
    (auto simp: op_simps newly_written_def set_node_def split: if_splits)

lemma rewrittenI:
  "map_of live p = Some (LiveFile i 1 old) \<Longrightarrow> key_is i k \<Longrightarrow>
     rewritten env p data k (int (length old)) (tx_sha env old) live
       (AList.update p (rewritten_file (tx_event_at env n) i data) live)"
  unfolding rewritten_def by (intro exI conjI) auto

lemma write_old_change:
  "one_change env (rewritten env p data k n digest)
     (transactional_write_bytes env p data (Some k) (Some n) (Some digest) :: ('a tx_state_scheme, unit) op)"
  unfolding transactional_write_bytes_def prod.case option.case
  by (rule one_change_arrive)
    (auto simp: op_simps set_node_def validate_regular_Inr split: if_splits intro: rewrittenI)

lemma delete_change:
  "one_change env (removed_file env p k n digest)
     (transactional_delete env p k n digest :: ('a tx_state_scheme, unit) op)"
  unfolding transactional_delete_def
  by (rule one_change_arrive)
    (auto simp: op_simps removed_file_def drop_node_def validate_regular_Inr split: if_splits)

lemma move_change:
  "one_change env (moved env src dst k n digest)
     (transactional_move_file env src dst k n digest sp dp :: ('a tx_state_scheme, unit) op)"
proof (cases "src = dst")
  case True
  then show ?thesis by (simp add: transactional_move_file_def one_change_fail)
next
  case False
  show ?thesis
    unfolding transactional_move_file_def if_not_P [OF False]
    by (rule one_change_arrive)
      (auto simp: op_simps moved_def drop_node_def set_node_def postcondition_def
        dest!: validate_source_Inr split: if_splits)
qed

lemma copy_change:
  "one_change env (copied env src dst k n digest)
     (transactional_copy_file env src dst k n digest sp dp m :: ('a tx_state_scheme, unit) op)"
proof (cases "src = dst \<or> (case m of None \<Rightarrow> False | Some m \<Rightarrow> m < n)")
  case True
  then show ?thesis by (auto simp: transactional_copy_file_def one_change_fail)
next
  case False
  then have f: "\<not> src = dst" "\<not> (case m of None \<Rightarrow> False | Some m \<Rightarrow> m < n)" by blast+
  show ?thesis
    unfolding transactional_copy_file_def if_not_P [OF f(1)] if_not_P [OF f(2)]
    by (rule one_change_arrive)
      (auto simp: op_simps copied_def set_node_def created_file_def postcondition_def
        dest!: validate_source_Inr split: if_splits)
qed

lemma remove_directory_change:
  "one_change env (directory_removed p k)
     (transactional_remove_directory env p k pk :: ('a tx_state_scheme, unit) op)"
  unfolding transactional_remove_directory_def
  by (rule one_change_arrive)
    (auto simp: op_simps directory_removed_def drop_node_def postcondition_def
      split: if_splits option.splits live_node.splits)

lemma set_dirs_fold:
  "mfold (\<lambda>q. set_node q (LiveDir i)) qs s = (s', r) \<longleftrightarrow>
     s' = s\<lparr>tx_live := foldl (\<lambda>l q. AList.update q (LiveDir i) l) (tx_live s) qs\<rparr> \<and> r = Inr ()"
  by (induction qs arbitrary: s) (auto simp: op_simps set_node_def)

lemma create_directories_change:
  "one_change env (directories_created env p)
     (transactional_create_directories env p mp False k :: ('a tx_state_scheme, string list) op)"
  unfolding transactional_create_directories_def
  by (rule one_change_arrive)
    (auto simp: op_simps directories_created_def set_dirs_fold postcondition_def split: if_splits)

lemma join_snoc: "ps \<noteq> [] \<Longrightarrow> join_with sep (ps @ [p]) = join_with sep ps @ sep @ p"
  by (induction sep ps rule: join_with.induct) auto

lemma join_prefix_longer:
  "i < j \<Longrightarrow> j < length ps \<Longrightarrow>
     length (join_with ''/'' (take (Suc i) ps)) < length (join_with ''/'' (take (Suc j) ps))"
proof (induction j)
  case (Suc j)
  have "take (Suc (Suc j)) ps = take (Suc j) ps @ [ps ! Suc j]" "take (Suc j) ps \<noteq> []"
    using Suc.prems(2) by (auto simp: take_Suc_conv_app_nth)
  then have "length (join_with ''/'' (take (Suc j) ps)) < length (join_with ''/'' (take (Suc (Suc j)) ps))"
    by (simp add: join_snoc)
  then show ?case using Suc by (cases "i = j") auto
qed simp

lemma distinct_path_chain: "distinct (path_chain p)"
proof -
  have "distinct (List.map (\<lambda>k. join_with ''/'' (take (Suc k) ps)) [0..<length ps])" for ps :: "string list"
    unfolding distinct_map
    by (auto intro!: inj_onI) (metis join_prefix_longer nat_neq_iff)
  then show ?thesis unfolding path_chain_def Let_def .
qed

lemma check_chain_Inr:
  "check_chain live ps = Inr missing \<Longrightarrow> distinct ps \<Longrightarrow>
     set missing \<subseteq> set ps \<and> distinct missing \<and> (\<forall>q\<in>set missing. map_of live q = None)"
  by (induction ps) (auto simp: list_ex_iff split: option.splits live_node.splits if_splits)

lemma one_changeD:
  "one_change env change m \<Longrightarrow> m s = (s', r) \<Longrightarrow>
     (tx_live s' = foreign_run env (tx_clock s) (tx_clock s') (tx_live s) \<and> (\<exists>e. r = Inl e))
     \<or> change (foreign_run env (tx_clock s) (tx_clock s') (tx_live s)) (tx_live s')"
  unfolding one_change_def Let_def by blast

definition bytes_committed ::
  "tx_env \<Rightarrow> string \<Rightarrow> bytes \<Rightarrow> path_identity option \<Rightarrow> string option \<Rightarrow> live \<Rightarrow> live \<Rightarrow> bool" where
  "bytes_committed env p data target sha live live' \<longleftrightarrow>
     (case target of
        None \<Rightarrow> newly_written env p data live live'
      | Some i \<Rightarrow> \<exists>v f digest. windows_volume_serial i = Some v \<and> windows_file_index i = Some f
          \<and> sha = Some digest \<and> rewritten env p data (v, f) (file_size i) digest live live')"

lemma commit_bytes_change:
  "one_change env (bytes_committed env p data target sha)
     (commit_bytes env p data parent target sha :: ('a tx_state_scheme, unit) op)"
  unfolding commit_bytes_def
proof (rule one_change_after_look [OF only_looks_parent], goal_cases)
  case (1 x)
  show ?case
    using write_new_change [of env p data] write_old_change [of env p data]
    by (auto simp: bytes_committed_def [abs_def] one_change_fail split: option.splits)
qed

definition file_committed_away ::
  "tx_env \<Rightarrow> string \<Rightarrow> path_identity \<Rightarrow> string \<Rightarrow> live \<Rightarrow> live \<Rightarrow> bool" where
  "file_committed_away env p i digest live live' \<longleftrightarrow>
     (\<exists>v f. windows_volume_serial i = Some v \<and> windows_file_index i = Some f
        \<and> removed_file env p (v, f) (file_size i) digest live live')"

lemma commit_delete_change:
  "one_change env (file_committed_away env p i digest)
     (commit_delete env p parent i digest :: ('a tx_state_scheme, unit) op)"
  unfolding commit_delete_def
proof (rule one_change_after_look [OF only_looks_parent], goal_cases)
  case (1 x)
  show ?case
    using delete_change [of env p _ "file_size i" digest]
    by (auto simp: file_committed_away_def [abs_def] one_change_fail split: option.splits)
qed

lemma native_identity_Inr: "native_identity i = Inr k \<longleftrightarrow> key_is i k"
  by (auto simp: native_identity_def key_is_def split: option.splits)

lemma commit_move_cases:
  assumes "commit_move env src dst sp dp i digest s = (s', r)"
  obtains e where "s' = s" "r = Inl e"
  | k a b where "key_is i k"
      "transactional_move_file env src dst k (file_size i) digest (Some a) (Some b) s = (s', r)"
  using assms by (auto simp: commit_move_def op_simps native_identity_Inr)

lemma commit_remove_directory_cases:
  assumes "commit_remove_directory env p pi i s = (s', r)"
  obtains e where "s' = s" "r = Inl e"
  | k a where "key_is i k" "transactional_remove_directory env p k a s = (s', r)"
  using assms by (auto simp: commit_remove_directory_def op_simps native_identity_Inr)

text \<open>
  C17. A commit of file bytes is an atomic compare-and-swap: against any interference, fault or end
  of the process, either the namespace is only what other processes made of it and the commit
  raised, or the one change is the new content at the target, over exactly the file (object, size
  and digest) the caller expected there, or over nothing when it expected nothing.
\<close>

theorem commit_bytes_compare_and_swap:
  assumes "commit_bytes env p data parent target sha s = (s', r)"
    and "live = foreign_run env (tx_clock s) (tx_clock s') (tx_live s)"
  shows "(tx_live s' = live \<and> (\<exists>e. r = Inl e)) \<or> bytes_committed env p data target sha live (tx_live s')"
  using one_changeD [OF commit_bytes_change assms(1)] assms(2) by simp

text \<open>
  C18. A move never overwrites and never loses a file: whatever happens meanwhile, either nothing of
  its own happened to the namespace and it raised, or exactly the expected file stands at the
  destination instead of the source, and the destination was absent (or is the source under another
  casing, and what stood there was the expected object).
\<close>

theorem commit_move_never_overwrites:
  assumes "commit_move env src dst sp dp i digest s = (s', r)"
    and "live = foreign_run env (tx_clock s) (tx_clock s') (tx_live s)"
  shows "(tx_live s' = live \<and> (\<exists>e. r = Inl e))
    \<or> (\<exists>k. key_is i k \<and> moved env src dst k (file_size i) digest live (tx_live s'))"
  using assms(1)
proof (cases rule: commit_move_cases)
  case 1
  then show ?thesis using assms(2) by simp
next
  case (2 k a b)
  then show ?thesis using one_changeD [OF move_change 2(2)] assms(2) by blast
qed

text \<open>
  Removing a directory removes nothing else: only the very directory expected, and only when
  nothing stands below it.
\<close>

theorem remove_directory_only_empty:
  assumes "commit_remove_directory env p pi i s = (s', r)"
    and "live = foreign_run env (tx_clock s) (tx_clock s') (tx_live s)"
  shows "(tx_live s' = live \<and> (\<exists>e. r = Inl e)) \<or> (\<exists>k. key_is i k \<and> directory_removed p k live (tx_live s'))"
  using assms(1)
proof (cases rule: commit_remove_directory_cases)
  case 1
  then show ?thesis using assms(2) by simp
next
  case (2 k a)
  then show ?thesis using one_changeD [OF remove_directory_change 2(2)] assms(2) by blast
qed

section \<open>A concrete environment\<close>

definition demo_id :: "int \<Rightarrow> int \<Rightarrow> path_identity" where
  "demo_id n k = \<lparr>device = 1, inode = n, file_size = k, modified_ns = 0,
                  windows_volume_serial = Some 1, windows_file_index = Some n\<rparr>"

definition quiet_event :: tx_event where
  "quiet_event = \<lparr>ev_crash = False, ev_foreign = [], ev_fault = None, ev_late = False, ev_identity = demo_id 99 0\<rparr>"

definition demo_sha :: "bytes \<Rightarrow> string" where
  "demo_sha b = (if b = [] then ''e'' else ''f'')"

definition demo_tx :: tx_env where
  "demo_tx = \<lparr>tx_sha = demo_sha, tx_fold = (\<lambda>p. p), tx_root = demo_id 1 0, tx_event_at = (\<lambda>_. quiet_event)\<rparr>"

definition demo_state :: tx_state where
  "demo_state = \<lparr>tx_live = [(''d'', LiveDir (demo_id 2 0)), (''d/a'', LiveFile (demo_id 3 1) 1 [65])],
                 tx_clock = 0, tx_dead = False\<rparr>"

lemma commit_bytes_compare_and_swap_witness:
  "bytes_committed demo_tx ''d/a'' [66, 67] (Some (demo_id 3 1)) (Some ''f'')
     (foreign_run demo_tx 0 2 (tx_live demo_state))
     (tx_live (fst (commit_bytes demo_tx ''d/a'' [66, 67] (demo_id 2 0) (Some (demo_id 3 1)) (Some ''f'') demo_state)))"
proof -
  let ?m = "commit_bytes demo_tx ''d/a'' [66, 67] (demo_id 2 0) (Some (demo_id 3 1)) (Some ''f'') demo_state"
  obtain s' r where m: "?m = (s', r)" by (cases ?m)
  have f: "tx_clock (fst ?m) = 2" "snd ?m = Inr ()" "tx_clock demo_state = 0" by code_simp+
  show ?thesis using commit_bytes_compare_and_swap [OF m refl] m f by auto
qed

lemma commit_move_never_overwrites_witness:
  "moved demo_tx ''d/a'' ''b'' (1, 3) 1 ''f'' (foreign_run demo_tx 0 1 (tx_live demo_state))
     (tx_live (fst (commit_move demo_tx ''d/a'' ''b'' (demo_id 2 0) (demo_id 1 0) (demo_id 3 1) ''f'' demo_state)))"
proof -
  let ?m = "commit_move demo_tx ''d/a'' ''b'' (demo_id 2 0) (demo_id 1 0) (demo_id 3 1) ''f'' demo_state"
  obtain s' r where m: "?m = (s', r)" by (cases ?m)
  have f: "tx_clock (fst ?m) = 1" "snd ?m = Inr ()" "tx_clock demo_state = 0" by code_simp+
  show ?thesis using commit_move_never_overwrites [OF m refl] m f by (auto simp: key_is_def demo_id_def)
qed

lemma remove_directory_only_empty_witness:
  "\<exists>e. snd (commit_remove_directory demo_tx ''d'' (demo_id 1 0) (demo_id 2 0) demo_state) = Inl e"
proof -
  let ?m = "commit_remove_directory demo_tx ''d'' (demo_id 1 0) (demo_id 2 0) demo_state"
  obtain s' r where m: "?m = (s', r)" by (cases ?m)
  have f: "tx_clock (fst ?m) = 1" "tx_clock demo_state = 0"
    "has_children (foreign_run demo_tx 0 1 (tx_live demo_state)) ''d''" by code_simp+
  show ?thesis using remove_directory_only_empty [OF m refl] m f by (auto simp: directory_removed_def)
qed

end
