(* ===== verification/History.thy ===== *)
theory History
  imports Checkpoints Transaction
begin

text \<open>
  The journaled workspace transactions of \<open>workspace_history.py\<close>: the durable journal, the apply
  phases with their digest checks, the automatic recovery of a failed restore, the rollback of an
  applied one, and the recovery of a transaction that a crash cut off. A crash is an event of the
  environment: from then on no step has an effect, so the final state is what the crash left.
  Times, the texts of errors and the staging directory's layout are left out.
\<close>

section \<open>Journals and the state\<close>

datatype jstate =
    Preflight | Staged | Applying | Recovering | AppliedVerified | Complete
  | FailedRecovered | FailedPreflight | RecoveryRequired

definition journal_terminal :: "jstate list" where
  "journal_terminal = [Complete, FailedRecovered, FailedPreflight]"

record journal =
  j_kind :: string
  j_state :: jstate
  j_before :: "manifest option"
  j_target :: "manifest option"
  j_changed :: "string list"
  j_applied :: "string list"
  j_created :: "string list"
  j_reconciled :: bool
  j_before_sha :: "string option"
  j_after_sha :: "string option"

record hist = tx_state +
  h_blobs :: blobs
  h_staged :: "(string \<times> bytes) list"
  h_journal :: "journal option"      \<comment> \<open>\<open>journal.json\<close> of the transaction\<close>
  h_mem :: journal                   \<comment> \<open>the dict in memory\<close>

record hist_env =
  he_tx :: tx_env
  he_denied :: "string list"
  he_blocked :: "string list"
  he_max_files :: int
  he_max_bytes :: int
  he_max_data :: int
  he_data_size :: "blobs \<Rightarrow> int"

definition write_journal :: "hist_env \<Rightarrow> (hist, unit) op" where
  "write_journal env =
     mbind (arrive (he_tx env)) (\<lambda>_. mput (\<lambda>s. s\<lparr>h_journal := Some (h_mem s)\<rparr>))"

definition set_mem :: "(journal \<Rightarrow> journal) \<Rightarrow> (hist, unit) op" where
  "set_mem f = mput (\<lambda>s. s\<lparr>h_mem := f (h_mem s)\<rparr>)"

definition update_journal :: "hist_env \<Rightarrow> (journal \<Rightarrow> journal) \<Rightarrow> (hist, unit) op" where
  "update_journal env f = mbind (set_mem f) (\<lambda>_. write_journal env)"

definition set_state :: "hist_env \<Rightarrow> jstate \<Rightarrow> (hist, unit) op" where
  "set_state env st = update_journal env (\<lambda>j. j\<lparr>j_state := st\<rparr>)"

section \<open>Scanning and capturing\<close>

definition planned_parent :: "live \<Rightarrow> unit \<Rightarrow> string \<Rightarrow> unit res" where
  "planned_parent live u a =
     (case map_of live a of
        Some (LiveFile _ _ _) \<Rightarrow> Inl (NotADirectory ''planned write parent is not a directory'')
      | Some (LiveReparse _ _) \<Rightarrow> Inl (PermissionError ''symlink, junction, or reparse point is denied'')
      | _ \<Rightarrow> Inr ())"

definition scan_path :: "hist_env \<Rightarrow> live \<Rightarrow> state_map \<Rightarrow> string \<Rightarrow> state_map res" where
  "scan_path env live acc p =
     rbind (validated_relative_path p) (\<lambda>q.
       case map_of live q of
         None \<Rightarrow> rbind (rfold (planned_parent live) () (butlast (path_chain q))) (\<lambda>_. Inr acc)
       | Some (LiveReparse _ _) \<Rightarrow> Inl (PermissionError ''symlink, junction, or reparse point is denied'')
       | Some (LiveDir _) \<Rightarrow> Inr (AList.update q DirSt acc)
       | Some (LiveFile i links d) \<Rightarrow>
           if 1 < links then Inl (PermissionError ''files with multiple hard links are denied'')
           else if he_max_bytes env < int (length d)
           then Inl (ValueError ''file exceeds the byte limit'')
           else Inr (AList.update q (FileSt (tx_sha (he_tx env) d)) acc))"

definition in_denied :: "hist_env \<Rightarrow> string list \<Rightarrow> bool" where
  "in_denied env parts \<longleftrightarrow> list_ex (\<lambda>c. tx_fold (he_tx env) c \<in> set (he_denied env)) parts"

definition hidden_file :: "hist_env \<Rightarrow> string list \<Rightarrow> bool" where
  "hidden_file env parts \<longleftrightarrow>
     in_denied env (butlast parts) \<or> protected_name (he_blocked env) (tx_fold (he_tx env) (last parts))"

text \<open>
  One entry of the walk. A file that is read is resolved first, and that refuses links and files
  with several hard links.
\<close>

definition walk_node :: "hist_env \<Rightarrow> state_map \<Rightarrow> string \<times> live_node \<Rightarrow> state_map res" where
  "walk_node env acc = (\<lambda>(p, n).
     let parts = split_on (CHR ''/'') p;
         refused = RuntimeError ''workspace verification could not read''
     in case n of
       LiveReparse _ for_directory \<Rightarrow>
         if for_directory \<or> hidden_file env parts then Inr acc else Inl refused
     | LiveDir _ \<Rightarrow> Inr (if in_denied env parts then acc else AList.update p DirSt acc)
     | LiveFile i links d \<Rightarrow>
         if hidden_file env parts then Inr acc
         else if 1 < links \<or> he_max_bytes env < int (length d) then Inl refused
         else Inr (AList.update p (FileSt (tx_sha (he_tx env) d)) acc))"

text \<open>
  The scan of a scope, or of the whole workspace; it observes the namespace at one instant.
\<close>

definition scan_live :: "hist_env \<Rightarrow> string list option \<Rightarrow> live \<Rightarrow> state_map res" where
  "scan_live env sc live =
     (case sc of
        Some ps \<Rightarrow> rfold (scan_path env live) [] (sorted_set ps)
      | None \<Rightarrow> rfold (walk_node env) [] live)"

definition scan_current_state :: "hist_env \<Rightarrow> string list option \<Rightarrow> (hist, state_map) op" where
  "scan_current_state env sc =
     mbind (arrive (he_tx env)) (\<lambda>_. mbind (mget tx_live) (\<lambda>live. mlift (scan_live env sc live)))"

definition file_data :: "live \<Rightarrow> string \<Rightarrow> bytes" where
  "file_data live p = (case map_of live p of Some (LiveFile i links d) \<Rightarrow> d | _ \<Rightarrow> [])"

definition state_files :: "state_map \<Rightarrow> string list" where
  "state_files st = List.map fst (List.filter (\<lambda>(p, v). v \<noteq> DirSt) st)"

definition state_dirs :: "state_map \<Rightarrow> string list" where
  "state_dirs st = List.map fst (List.filter (\<lambda>(p, v). v = DirSt) st)"

definition capture_entry :: "hist_env \<Rightarrow> live \<Rightarrow> string \<Rightarrow> manifest_entry" where
  "capture_entry env live p =
     \<lparr>me_path = p, me_size = int (length (file_data live p)), me_sha = tx_sha (he_tx env) (file_data live p)\<rparr>"

definition capture_blob :: "hist_env \<Rightarrow> int \<Rightarrow> live \<Rightarrow> string \<Rightarrow> (hist, unit) op" where
  "capture_blob env initial_size live p =
     mbind (mget h_blobs) (\<lambda>bs.
     mbind (mlift (store_blob (tx_sha (he_tx env)) (he_max_data env) (he_data_size env) initial_size
              (tx_sha (he_tx env) (file_data live p)) (file_data live p) bs)) (\<lambda>bs'.
       mput (\<lambda>s. s\<lparr>h_blobs := bs'\<rparr>)))"

definition capture_workspace_state :: "hist_env \<Rightarrow> string list option \<Rightarrow> (hist, manifest) op" where
  "capture_workspace_state env sc =
     (if sc = Some [] then mfail (ValueError ''scoped workspace checkpoint requires at least one path'')
      else
        mbind (arrive (he_tx env)) (\<lambda>_.
        mbind (mget tx_live) (\<lambda>live.
        mbind (mlift (scan_live env sc live)) (\<lambda>st.
        mbind (mcheck (int (length st) \<le> he_max_files env)
                 (ValueError ''workspace history exceeds approval_manifest_max_files'')) (\<lambda>_.
        mbind (mcheck ((\<Sum>p \<leftarrow> state_files st. int (length (file_data live p))) \<le> he_max_bytes env)
                 (ValueError ''workspace history exceeds approval_manifest_max_bytes'')) (\<lambda>_.
        mbind (mget (\<lambda>s. he_data_size env (h_blobs s))) (\<lambda>initial_size.
        mbind (mfold (capture_blob env initial_size live) (state_files st)) (\<lambda>_.
        mbind (mget (\<lambda>s. enforce_data_quota (he_max_data env) (he_data_size env (h_blobs s)) 0)) (\<lambda>within.
        mbind (mlift within) (\<lambda>_.
          mret \<lparr>mf_files = List.map (capture_entry env live) (state_files st),
                mf_dirs = state_dirs st, mf_scope = sc\<rparr>))))))))))"

section \<open>Applying a manifest\<close>

definition resolve_write_target :: "tx_env \<Rightarrow> live \<Rightarrow> string \<Rightarrow> unit res" where
  "resolve_write_target tx live p =
     rbind (open_directory tx live (parent_of p)) (\<lambda>_.
       case map_of live p of
         None \<Rightarrow> Inr ()
       | Some (LiveReparse _ _) \<Rightarrow> Inl (PermissionError ''symlink, junction, or reparse point is denied'')
       | Some (LiveDir _) \<Rightarrow> Inl (IsADirectory ''write target is not a regular file'')
       | Some (LiveFile i links d) \<Rightarrow>
           if 1 < links then Inl (PermissionError ''files with multiple hard links are denied'') else Inr ())"

definition verify_destination_digest :: "tx_env \<Rightarrow> live \<Rightarrow> string \<Rightarrow> string option \<Rightarrow> unit res" where
  "verify_destination_digest tx live p expected =
     (case map_of live p of
        None \<Rightarrow>
          if expected \<noteq> None then Inl (RuntimeError ''workspace file disappeared during restore'') else Inr ()
      | Some (LiveFile i links d) \<Rightarrow>
          if Some (tx_sha tx d) \<noteq> expected
          then Inl (RuntimeError ''workspace file changed during restore'') else Inr ()
      | _ \<Rightarrow> Inl (RuntimeError ''workspace file changed during restore''))"

type_synonym identities = "(string \<times> path_identity option) list"

definition bound_identity :: "tx_env \<Rightarrow> identities option \<Rightarrow> live \<Rightarrow> string \<Rightarrow> path_identity option" where
  "bound_identity tx ids live p =
     (case ids of
        None \<Rightarrow> live_identity tx live p
      | Some m \<Rightarrow> (case map_of m p of Some i \<Rightarrow> i | None \<Rightarrow> live_identity tx live p))"

definition journal_applied :: "hist_env \<Rightarrow> bool \<Rightarrow> string \<Rightarrow> (hist, unit) op" where
  "journal_applied env journaled p =
     (if journaled then update_journal env (\<lambda>j. j\<lparr>j_applied := j_applied j @ [p]\<rparr>) else mret ())"

definition file_digest :: "state_map \<Rightarrow> string \<Rightarrow> string option" where
  "file_digest st p = (case map_of st p of Some (FileSt d) \<Rightarrow> Some d | _ \<Rightarrow> None)"

definition apply_delete ::
  "hist_env \<Rightarrow> bool \<Rightarrow> identities option \<Rightarrow> state_map \<Rightarrow> string \<Rightarrow> (hist, unit) op" where
  "apply_delete env journaled ids current p =
     mbind (arrive (he_tx env)) (\<lambda>_.
     mbind (mget tx_live) (\<lambda>live.
     mbind (mlift (resolve_write_target (he_tx env) live p)) (\<lambda>_.
     mbind (mlift (verify_destination_digest (he_tx env) live p (file_digest current p))) (\<lambda>_.
       case (live_identity (he_tx env) live (parent_of p), bound_identity (he_tx env) ids live p,
             file_digest current p) of
         (Some pi, Some ti, Some digest) \<Rightarrow>
           mbind (commit_delete (he_tx env) p pi ti digest) (\<lambda>_. journal_applied env journaled p)
       | _ \<Rightarrow> mfail (RuntimeError ''restore delete target changed before commit'')))))"

definition apply_remove_directory :: "hist_env \<Rightarrow> bool \<Rightarrow> string \<Rightarrow> (hist, unit) op" where
  "apply_remove_directory env journaled p =
     mbind (arrive (he_tx env)) (\<lambda>_.
     mbind (mget tx_live) (\<lambda>live.
     mbind (mlift (open_directory (he_tx env) live p)) (\<lambda>_.
       case (live_identity (he_tx env) live (parent_of p), live_identity (he_tx env) live p) of
         (Some pi, Some ti) \<Rightarrow>
           mbind (commit_remove_directory (he_tx env) p pi ti) (\<lambda>_. journal_applied env journaled p)
       | _ \<Rightarrow> mfail (RuntimeError ''restore directory changed before commit''))))"

definition apply_create_directory ::
  "hist_env \<Rightarrow> bool \<Rightarrow> identities option \<Rightarrow> string \<Rightarrow> (hist, unit) op" where
  "apply_create_directory env journaled ids p =
     mbind (if ids = None then ensure_directory_for_write (he_tx env) p
            else
              mbind (arrive (he_tx env)) (\<lambda>_.
              mbind (mget tx_live) (\<lambda>live.
              mbind (mlift (rfold (planned_parent live) () (path_chain p))) (\<lambda>_.
                case live_identity (he_tx env) live (parent_of p) of
                  None \<Rightarrow> mfail (FileNotFound ''directory parent does not exist'')
                | Some pi \<Rightarrow> mbind (commit_directories (he_tx env) p False pi) (\<lambda>_. mret ())))))
       (\<lambda>_. journal_applied env journaled p)"

definition staged_or_blob :: "hist \<Rightarrow> bool \<Rightarrow> manifest_entry \<Rightarrow> bytes res" where
  "staged_or_blob s staged e =
     (case (if staged then map_of (h_staged s) (me_path e) else None) of
        Some d \<Rightarrow> Inr d
      | None \<Rightarrow> entry_bytes (h_blobs s) e)"

text \<open>The missing ancestors of a file, recorded before they are created.\<close>

definition missing_ancestors :: "live \<Rightarrow> string \<Rightarrow> string list" where
  "missing_ancestors live p =
     takeWhile (\<lambda>a. map_of live a = None) (rev (butlast (path_chain p)))"

definition record_created :: "hist_env \<Rightarrow> bool \<Rightarrow> string list \<Rightarrow> (hist, unit) op" where
  "record_created env journaled missing =
     (if journaled \<and> missing \<noteq> []
      then update_journal env (\<lambda>j. j\<lparr>j_created := sorted_set (j_created j @ missing)\<rparr>)
      else mret ())"

definition apply_write ::
  "hist_env \<Rightarrow> bool \<Rightarrow> identities option \<Rightarrow> bool \<Rightarrow> state_map \<Rightarrow> manifest_entry \<Rightarrow> (hist, unit) op" where
  "apply_write env journaled ids staged current e =
     mbind (mget (\<lambda>s. missing_ancestors (tx_live s) (me_path e))) (\<lambda>missing.
     mbind (record_created env journaled missing) (\<lambda>_.
     mbind (ensure_directory_for_write (he_tx env) (parent_of (me_path e))) (\<lambda>_.
     mbind (arrive (he_tx env)) (\<lambda>_.
     mbind (mget tx_live) (\<lambda>live.
     mbind (mlift (resolve_write_target (he_tx env) live (me_path e))) (\<lambda>_.
     mbind (mget (\<lambda>s. staged_or_blob s staged e)) (\<lambda>found.
     mbind (mlift found) (\<lambda>data.
       if tx_sha (he_tx env) data \<noteq> me_sha e
       then mfail (RuntimeError ''restore content changed after preflight'')
       else
         case live_identity (he_tx env) live (parent_of (me_path e)) of
           None \<Rightarrow> mfail (RuntimeError ''restore parent disappeared'')
         | Some pi \<Rightarrow>
             let ti = bound_identity (he_tx env) ids live (me_path e);
                 digest = file_digest current (me_path e)
             in mbind (mlift (verify_destination_digest (he_tx env) live (me_path e) digest)) (\<lambda>_.
                mbind (commit_bytes (he_tx env) (me_path e) data pi ti
                         (if ti \<noteq> None then digest else None)) (\<lambda>_.
                  journal_applied env journaled (me_path e)))))))))))"

definition verify_restore_identity :: "hist_env \<Rightarrow> string \<times> path_identity option \<Rightarrow> (hist, unit) op" where
  "verify_restore_identity env = (\<lambda>(p, expected).
     mbind (arrive (he_tx env)) (\<lambda>_.
     mbind (mget tx_live) (\<lambda>live.
     mbind (mlift (rfold (planned_parent live) () (butlast (path_chain p)))) (\<lambda>_.
     mcheck (live_identity (he_tx env) live p = expected)
       (RuntimeError ''workspace plan is stale; file identity changed before commit'')))))"

definition verify_restore_identities :: "hist_env \<Rightarrow> identities option \<Rightarrow> (hist, unit) op" where
  "verify_restore_identities env ids =
     (case ids of None \<Rightarrow> mret () | Some m \<Rightarrow> mfold (verify_restore_identity env) m)"

definition path_depth :: "string \<Rightarrow> nat" where
  "path_depth p = length (List.filter (\<lambda>c. c = CHR ''/'') p)"

definition chosen :: "string list \<Rightarrow> string list \<Rightarrow> (string \<Rightarrow> bool) \<Rightarrow> string list" where
  "chosen changed ps keep = sorted_set (List.filter (\<lambda>p. p \<in> set changed \<and> keep p) ps)"

text \<open>
  The five phases: files that go, directories that become files, directories to create (parents
  first), files to write, directories that go (children first). Paths of equal depth come in some
  order of their set; the order of their names is taken.
\<close>

definition apply_manifest ::
  "hist_env \<Rightarrow> bool \<Rightarrow> bool \<Rightarrow> manifest \<Rightarrow> string list option \<Rightarrow> state_map option \<Rightarrow> identities option \<Rightarrow>
   (hist, unit) op" where
  "apply_manifest env journaled staged m only expected ids =
     mbind (scan_current_state env (mf_scope m)) (\<lambda>current.
     if (case expected of None \<Rightarrow> False | Some x \<Rightarrow> \<not> same_state current x)
     then mfail (RuntimeError ''workspace changed during restore staging'')
     else
       let files = List.map fst (entry_map m);
           changed = (case only of Some ps \<Rightarrow> ps | None \<Rightarrow> List.map fst current @ files @ mf_dirs m);
           gone = rev (chosen changed (state_files current) (\<lambda>p. p \<notin> set files));
           into_files = rev (sort_key path_depth (chosen changed (state_dirs current) (\<lambda>p. p \<in> set files)));
           new_dirs = sort_key path_depth (chosen changed (mf_dirs m) (\<lambda>p. p \<notin> set (state_dirs current)));
           written = chosen changed files (\<lambda>_. True);
           dead_dirs = rev (sort_key path_depth (chosen changed (state_dirs current) (\<lambda>p. p \<notin> set (mf_dirs m))))
       in mbind (verify_restore_identities env ids) (\<lambda>_.
          mbind (mfold (apply_delete env journaled ids current) gone) (\<lambda>_.
          mbind (mfold (apply_remove_directory env journaled) into_files) (\<lambda>_.
          mbind (mfold (apply_create_directory env journaled ids) new_dirs) (\<lambda>_.
          mbind (mfold (\<lambda>p. case map_of (entry_map m) p of
                   None \<Rightarrow> mret () | Some e \<Rightarrow> apply_write env journaled ids staged current e) written) (\<lambda>_.
            mfold (apply_remove_directory env journaled) dead_dirs))))))"

text \<open>The subclasses of \<open>OSError\<close>.\<close>

definition is_os_error :: "error \<Rightarrow> bool" where
  "is_os_error e \<longleftrightarrow>
     (case e of
        PermissionError _ \<Rightarrow> True | SandboxRouteRequired _ \<Rightarrow> True | FileNotFound _ \<Rightarrow> True
      | FileExists _ \<Rightarrow> True | NotADirectory _ \<Rightarrow> True | IsADirectory _ \<Rightarrow> True
      | TimeoutError _ \<Rightarrow> True | OSError _ \<Rightarrow> True | TransferNotFound \<Rightarrow> True | _ \<Rightarrow> False)"

definition remove_created_directory :: "hist_env \<Rightarrow> string \<Rightarrow> (hist, unit) op" where
  "remove_created_directory env p =
     mcatch (apply_remove_directory env False p)
       (\<lambda>e. case e of
          FileNotFound _ \<Rightarrow> mret ()
        | _ \<Rightarrow> mfail (if is_os_error e
                        then RuntimeError ''automatic recovery could not remove created directory'' else e))"

definition remove_created_directories :: "hist_env \<Rightarrow> string list \<Rightarrow> (hist, unit) op" where
  "remove_created_directories env ds =
     mfold (remove_created_directory env) (rev (sort_key path_depth (sort ds)))"

section \<open>Restoring a target\<close>

definition fresh_journal :: "string \<Rightarrow> jstate \<Rightarrow> journal" where
  "fresh_journal kind st =
     \<lparr>j_kind = kind, j_state = st, j_before = None, j_target = None, j_changed = [], j_applied = [],
      j_created = [], j_reconciled = False, j_before_sha = None, j_after_sha = None\<rparr>"

definition stage_entry :: "string \<Rightarrow> manifest \<Rightarrow> (hist, unit) op" where
  "stage_entry p m =
     (case map_of (entry_map m) p of
        None \<Rightarrow> mret ()
      | Some e \<Rightarrow>
          mbind (mget (\<lambda>s. entry_bytes (h_blobs s) e)) (\<lambda>found.
          mbind (mlift found) (\<lambda>d. mput (\<lambda>s. s\<lparr>h_staged := AList.update p d (h_staged s)\<rparr>))))"

definition incoming_bytes :: "manifest \<Rightarrow> string list \<Rightarrow> int" where
  "incoming_bytes m changed =
     (\<Sum>p \<leftarrow> changed. case map_of (entry_map m) p of None \<Rightarrow> 0 | Some e \<Rightarrow> me_size e)"

definition stage_manifest_files :: "hist_env \<Rightarrow> manifest \<Rightarrow> string list \<Rightarrow> (hist, unit) op" where
  "stage_manifest_files env m changed =
     mbind (mput (\<lambda>s. s\<lparr>h_staged := []\<rparr>)) (\<lambda>_.
     mbind (mget (\<lambda>s. enforce_data_quota (he_max_data env) (he_data_size env (h_blobs s))
              (incoming_bytes m changed))) (\<lambda>within.
     mbind (mlift within) (\<lambda>_. mfold (\<lambda>p. stage_entry p m) changed)))"

definition verify_staged_entry :: "hist_env \<Rightarrow> manifest \<Rightarrow> string \<Rightarrow> (hist, unit) op" where
  "verify_staged_entry env m p =
     (case map_of (entry_map m) p of
        None \<Rightarrow> mret ()
      | Some e \<Rightarrow>
          mbind (mget (\<lambda>s. map_of (h_staged s) p)) (\<lambda>found.
            case found of
              None \<Rightarrow> mfail (FileNotFound ''staged file'')
            | Some d \<Rightarrow>
                mcheck (tx_sha (he_tx env) d = me_sha e \<and> int (length d) = me_size e)
                  (RuntimeError ''staged checkpoint integrity verification failed'')))"

definition checkpoint_states :: "hist_env \<Rightarrow> manifest \<Rightarrow> (hist, state_map) op" where
  "checkpoint_states env m =
     mbind (mget (\<lambda>s. checkpoint_state (tx_sha (he_tx env)) (h_blobs s) m)) mlift"

definition restore_preflight ::
  "hist_env \<Rightarrow> manifest \<Rightarrow> manifest \<Rightarrow> identities option \<Rightarrow> (hist, manifest) op" where
  "restore_preflight env expected target ids =
     mbind (mlift (require_matching_scope expected target)) (\<lambda>sc.
     mbind (checkpoint_states env expected) (\<lambda>expected_map.
     mbind (checkpoint_states env target) (\<lambda>_.
     mbind (capture_workspace_state env sc) (\<lambda>current.
     mbind (checkpoint_states env current) (\<lambda>current_map.
       if \<not> same_state expected_map current_map
       then mbind (set_state env FailedPreflight) (\<lambda>_.
              mfail (RuntimeError ''workspace changed after approval preview; rollback conflicts''))
       else
         let changed = changed_paths current target in
         mbind (stage_manifest_files env target changed) (\<lambda>_.
         mbind (mfold (verify_staged_entry env target) changed) (\<lambda>_.
         mbind (verify_restore_identities env ids) (\<lambda>_.
         mbind (update_journal env
                  (\<lambda>j. j\<lparr>j_state := Staged, j_before := Some current, j_changed := changed\<rparr>)) (\<lambda>_.
           mret current)))))))))"

definition restore_apply ::
  "hist_env \<Rightarrow> manifest \<Rightarrow> manifest \<Rightarrow> identities option \<Rightarrow> (hist, unit) op" where
  "restore_apply env expected target ids =
     mbind (set_state env Applying) (\<lambda>_.
     mbind (mget (\<lambda>s. j_changed (h_mem s))) (\<lambda>changed.
     mbind (apply_manifest env True True target (Some changed) (Some (state_map expected)) ids) (\<lambda>_.
     mbind (scan_current_state env (mf_scope target)) (\<lambda>final.
       mcheck (same_state final (state_map target))
         (RuntimeError ''post-restore workspace verification did not match target'')))))"

definition unattributable :: "state_map \<Rightarrow> state_map \<Rightarrow> state_map \<Rightarrow> string list \<Rightarrow> string list" where
  "unattributable before target live changed =
     List.filter (\<lambda>p. map_of live p \<noteq> map_of before p \<and> map_of live p \<noteq> map_of target p) changed"

definition state_differs :: "state_map \<Rightarrow> state_map \<Rightarrow> string list \<Rightarrow> bool" where
  "state_differs a b ps \<longleftrightarrow> list_ex (\<lambda>p. map_of a p \<noteq> map_of b p) ps"

text \<open>The body of the automatic recovery; the caller's handler marks what it could not recover.\<close>

definition restore_undo ::
  "hist_env \<Rightarrow> manifest \<Rightarrow> manifest \<Rightarrow> identities option \<Rightarrow> (hist, unit) op" where
  "restore_undo env current target ids =
     mbind (checkpoint_states env target) (\<lambda>target_hashes.
     mbind (checkpoint_states env current) (\<lambda>current_hashes.
     mbind (scan_current_state env (mf_scope target)) (\<lambda>live_hashes.
     mbind (mget h_mem) (\<lambda>j.
       if ids \<noteq> None \<and> list_ex (\<lambda>p. p \<notin> set (mf_dirs current) \<and> map_of live_hashes p = Some DirSt
                                  \<and> p \<notin> set (j_applied j)) (mf_dirs target)
       then mfail (RuntimeError ''automatic recovery refused an unowned directory collision'')
       else if unattributable current_hashes target_hashes live_hashes (j_changed j) \<noteq> []
       then mfail (RuntimeError ''automatic recovery refused concurrent changes'')
       else
         mbind (apply_manifest env False False current (Some (j_changed j)) None None) (\<lambda>_.
         mbind (scan_current_state env (mf_scope target)) (\<lambda>recovered.
           if state_differs recovered current_hashes (j_changed j)
           then mfail (RuntimeError ''automatic recovery verification failed'')
           else mbind (remove_created_directories env (j_created j)) (\<lambda>_.
                set_state env FailedRecovered)))))))"

definition restore_recover ::
  "hist_env \<Rightarrow> manifest \<Rightarrow> manifest \<Rightarrow> identities option \<Rightarrow> (hist, unit) op" where
  "restore_recover env current target ids =
     mbind (set_state env Recovering) (\<lambda>_.
       mcatch (mbind (restore_undo env current target ids) (\<lambda>_. mfail (MutationError ''failed_recovered'')))
         (\<lambda>e. if e = MutationError ''failed_recovered'' then mfail e
              else mbind (set_state env RecoveryRequired) (\<lambda>_. mfail (MutationError ''recovery_required''))))"

definition restore_workspace_state ::
  "hist_env \<Rightarrow> manifest \<Rightarrow> manifest \<Rightarrow> identities option \<Rightarrow> (hist, unit) op" where
  "restore_workspace_state env expected target ids =
     mbind (mput (\<lambda>s. s\<lparr>h_mem := (fresh_journal ''workspace_restore'' Preflight)\<lparr>j_target := Some target\<rparr>\<rparr>)) (\<lambda>_.
     mbind (write_journal env) (\<lambda>_.
     mbind (mcatch (restore_preflight env expected target ids) (\<lambda>e.
              mbind (mget (\<lambda>s. j_state (h_mem s))) (\<lambda>st.
                if st \<in> set journal_terminal then mfail e
                else mbind (set_state env FailedPreflight) (\<lambda>_. mfail e)))) (\<lambda>current.
     mbind (mcatch (restore_apply env expected target ids)
              (\<lambda>_. restore_recover env current target ids)) (\<lambda>_.
       set_state env AppliedVerified))))"

section \<open>Finishing, rolling back and recovering\<close>

text \<open>\<open>json.loads(journal_path.read_text())\<close>.\<close>

definition load_journal :: "hist_env \<Rightarrow> (hist, unit) op" where
  "load_journal env =
     mbind (arrive (he_tx env)) (\<lambda>_. mbind (mget h_journal) (\<lambda>found.
       case found of
         None \<Rightarrow> mfail (FileNotFound ''journal.json'')
       | Some j \<Rightarrow> mput (\<lambda>s. s\<lparr>h_mem := j\<rparr>)))"

definition finalize_workspace_transaction :: "hist_env \<Rightarrow> (hist, unit) op" where
  "finalize_workspace_transaction env =
     mbind (load_journal env) (\<lambda>_. mbind (mget h_mem) (\<lambda>j.
       if j_state j \<noteq> AppliedVerified
       then mfail (RuntimeError ''workspace transaction is not ready for audit finalization'')
       else update_journal env (\<lambda>j. j\<lparr>j_state := Complete, j_reconciled := True\<rparr>)))"

definition mark_audit_reconciled :: "hist_env \<Rightarrow> (hist, unit) op" where
  "mark_audit_reconciled env =
     mbind (load_journal env) (\<lambda>_. update_journal env (\<lambda>j. j\<lparr>j_reconciled := True\<rparr>))"

definition require_recovery :: "hist_env \<Rightarrow> (hist, 'a) op" where
  "require_recovery env =
     mbind (set_state env RecoveryRequired) (\<lambda>_. mfail (MutationError ''recovery_required''))"

definition rollback_applied_workspace_transaction :: "hist_env \<Rightarrow> (hist, unit) op" where
  "rollback_applied_workspace_transaction env =
     mbind (load_journal env) (\<lambda>_. mbind (mget h_mem) (\<lambda>j.
       if j_state j \<noteq> AppliedVerified
       then mfail (RuntimeError ''workspace transaction is not in an applied state'')
       else case (j_before j, j_target j) of
         (Some before_manifest, Some target_manifest) \<Rightarrow>
           mbind (checkpoint_states env before_manifest) (\<lambda>before.
           mbind (checkpoint_states env target_manifest) (\<lambda>target.
           mbind (mlift (require_matching_scope before_manifest target_manifest)) (\<lambda>sc.
           mbind (scan_current_state env sc) (\<lambda>current.
             if unattributable before target current (j_changed j) \<noteq> [] then require_recovery env
             else
               mbind (apply_manifest env False False before_manifest (Some (j_changed j)) None None) (\<lambda>_.
               mbind (scan_current_state env sc) (\<lambda>recovered.
                 if state_differs recovered before (j_changed j) then require_recovery env
                 else set_state env FailedRecovered))))))
       | _ \<Rightarrow> mfail (RuntimeError ''workspace transaction has incomplete recovery bindings'')))"

definition foreign_changes :: "state_map \<Rightarrow> state_map \<Rightarrow> state_map \<Rightarrow> string list \<Rightarrow> string list" where
  "foreign_changes before target current changed =
     List.filter (\<lambda>p. if p \<in> set changed
                    then map_of current p \<noteq> map_of before p \<and> map_of current p \<noteq> map_of target p
                    else map_of current p \<noteq> map_of before p)
       (List.map fst before @ List.map fst target @ List.map fst current)"

definition write_changes ::
  "state_map \<Rightarrow> state_map \<Rightarrow> string option \<Rightarrow> string option \<Rightarrow> string \<Rightarrow> string list" where
  "write_changes before current before_sha after_sha p =
     List.filter (\<lambda>q. if q = p then file_digest current q \<noteq> before_sha \<and> file_digest current q \<noteq> after_sha
                     else file_digest current q \<noteq> file_digest before q)
       (state_files before @ state_files current)"

text \<open>\<open>_scan_current_hashes\<close>: the files of a scan.\<close>

definition only_files :: "state_map \<Rightarrow> state_map" where
  "only_files st = List.filter (\<lambda>(p, v). v \<noteq> DirSt) st"

definition recover_single_write :: "hist_env \<Rightarrow> journal \<Rightarrow> (hist, unit) op" where
  "recover_single_write env j =
     (case j_before j of
        None \<Rightarrow> mfail (RuntimeError ''interrupted write transaction has no recovery manifest'')
      | Some before_manifest \<Rightarrow>
          mbind (checkpoint_states env before_manifest) (\<lambda>before.
          mbind (scan_current_state env (mf_scope before_manifest)) (\<lambda>current.
            case remdups (j_changed j) of
              [p] \<Rightarrow>
                if write_changes before current (j_before_sha j) (j_after_sha j) p \<noteq> []
                then mfail (RuntimeError ''workspace contains changes that cannot be attributed to the interrupted write'')
                else
                  mbind (if same_state (only_files current) (only_files before) then mret ()
                         else
                           mbind (apply_manifest env False False before_manifest (Some [p]) None None) (\<lambda>_.
                           mbind (scan_current_state env (mf_scope before_manifest)) (\<lambda>after.
                             mcheck (same_state (only_files after) (only_files before))
                               (RuntimeError ''automatic interrupted-write recovery verification failed''))))
                    (\<lambda>_. set_state env FailedRecovered)
            | _ \<Rightarrow> mfail (RuntimeError ''interrupted write transaction has an invalid target set''))))"

definition recover_restore :: "hist_env \<Rightarrow> journal \<Rightarrow> (hist, unit) op" where
  "recover_restore env j =
     (case (j_before j, j_target j) of
        (Some before_manifest, Some target_manifest) \<Rightarrow>
          mbind (checkpoint_states env before_manifest) (\<lambda>before.
          mbind (checkpoint_states env target_manifest) (\<lambda>target.
          mbind (mlift (require_matching_scope before_manifest target_manifest)) (\<lambda>sc.
          mbind (scan_current_state env sc) (\<lambda>current.
            if foreign_changes before target current (j_changed j) \<noteq> []
            then mfail (RuntimeError ''workspace contains changes that cannot be attributed to the interrupted restore'')
            else
              mbind (apply_manifest env False False before_manifest (Some (j_changed j)) None None) (\<lambda>_.
              mbind (scan_current_state env sc) (\<lambda>recovered.
                if \<not> same_state recovered before
                then mfail (RuntimeError ''automatic interrupted-transaction recovery verification failed'')
                else set_state env FailedRecovered))))))
      | _ \<Rightarrow> mfail (RuntimeError ''interrupted workspace transaction has no recovery manifests''))"

definition recover_incomplete_workspace_transaction :: "hist_env \<Rightarrow> (hist, unit) op" where
  "recover_incomplete_workspace_transaction env =
     mbind (mget h_mem) (\<lambda>j.
       case j_state j of
         Preflight \<Rightarrow>
           if j_applied j \<noteq> []
           then mfail (RuntimeError ''preflight journal unexpectedly records applied paths'')
           else set_state env FailedPreflight
       | Staged \<Rightarrow>
           if j_applied j \<noteq> []
           then mfail (RuntimeError ''staged journal unexpectedly records applied paths'')
           else (case j_before j of
             None \<Rightarrow> mfail (RuntimeError ''staged journal has no before checkpoint'')
           | Some before_manifest \<Rightarrow>
               mbind (checkpoint_states env before_manifest) (\<lambda>_.
               mbind (scan_current_state env (mf_scope before_manifest)) (\<lambda>_.
                 set_state env FailedPreflight)))
       | Applying \<Rightarrow> if j_kind j = ''single_file_write'' then recover_single_write env j else recover_restore env j
       | Recovering \<Rightarrow> if j_kind j = ''single_file_write'' then recover_single_write env j else recover_restore env j
       | st \<Rightarrow>
           if st = AppliedVerified \<or> st = Complete
           then (case j_target j of
             None \<Rightarrow> mfail (RuntimeError ''applied journal has no target checkpoint'')
           | Some target_manifest \<Rightarrow>
               mbind (checkpoint_states env target_manifest) (\<lambda>target.
               mbind (scan_current_state env (mf_scope target_manifest)) (\<lambda>current.
                 mcheck (same_state current target)
                   (RuntimeError ''applied workspace no longer matches its verified target''))))
           else mret ())"

text \<open>\<open>incomplete_workspace_transactions\<close>, for one journal.\<close>

definition is_incomplete :: "journal \<Rightarrow> bool" where
  "is_incomplete j \<longleftrightarrow> j_state j \<notin> set journal_terminal \<or> \<not> j_reconciled j"

definition mark_recovery_required :: "hist_env \<Rightarrow> (hist, unit) op" where
  "mark_recovery_required env = set_state env RecoveryRequired"

definition begin_single_file_write_transaction ::
  "hist_env \<Rightarrow> manifest \<Rightarrow> string \<Rightarrow> string option \<Rightarrow> string \<Rightarrow> (hist, unit) op" where
  "begin_single_file_write_transaction env before p before_sha after_sha =
     mbind (mput (\<lambda>s. s\<lparr>h_mem := (fresh_journal ''single_file_write'' Applying)
              \<lparr>j_before := Some before, j_changed := [p], j_before_sha := before_sha,
               j_after_sha := Some after_sha\<rparr>\<rparr>)) (\<lambda>_. write_journal env)"

definition begin_filesystem_primitive_transaction ::
  "hist_env \<Rightarrow> manifest \<Rightarrow> manifest \<Rightarrow> string list \<Rightarrow> string \<Rightarrow> (hist, unit) op" where
  "begin_filesystem_primitive_transaction env before target changed operation =
     (if operation \<notin> set [''move_file'', ''copy_file'', ''delete_file'', ''make_directory'']
      then mfail (ValueError ''unsupported filesystem primitive transaction type'')
      else if changed = []
      then mfail (ValueError ''filesystem primitive transaction requires a bounded path set'')
      else
        mbind (mlift (require_matching_scope before target)) (\<lambda>sc.
        mbind (mlift (rmap validated_relative_path changed)) (\<lambda>qs.
          if (case sc of None \<Rightarrow> False | Some ps \<Rightarrow> \<not> set qs \<subseteq> set ps)
          then mfail (ValueError ''filesystem primitive transaction exceeds checkpoint scope'')
          else
            mbind (mput (\<lambda>s. s\<lparr>h_mem := (fresh_journal ''filesystem_primitive'' Applying)
                     \<lparr>j_before := Some before, j_target := Some target, j_changed := sorted_set qs\<rparr>\<rparr>))
              (\<lambda>_. write_journal env))))"

definition update_transaction :: "hist_env \<Rightarrow> string \<Rightarrow> jstate \<Rightarrow> manifest option \<Rightarrow> (hist, unit) op" where
  "update_transaction env kind st target =
     (if st \<notin> set [AppliedVerified, FailedRecovered, RecoveryRequired]
      then mfail (ValueError ''invalid transaction state'')
      else
        mbind (load_journal env) (\<lambda>_. mbind (mget h_mem) (\<lambda>j.
          if j_kind j \<noteq> kind then mfail (RuntimeError ''workspace transaction is of another kind'')
          else update_journal env
            (\<lambda>j. j\<lparr>j_state := st, j_target := (case target of None \<Rightarrow> j_target j | Some m \<Rightarrow> Some m)\<rparr>))))"

definition update_filesystem_primitive_transaction :: "hist_env \<Rightarrow> jstate \<Rightarrow> (hist, unit) op" where
  "update_filesystem_primitive_transaction env st = update_transaction env ''filesystem_primitive'' st None"

definition update_single_file_write_transaction ::
  "hist_env \<Rightarrow> jstate \<Rightarrow> manifest option \<Rightarrow> (hist, unit) op" where
  "update_single_file_write_transaction env st target = update_transaction env ''single_file_write'' st target"

definition rollback_filesystem_primitive_transaction :: "hist_env \<Rightarrow> (hist, unit) op" where
  "rollback_filesystem_primitive_transaction env =
     mbind (load_journal env) (\<lambda>_. mbind (mget h_mem) (\<lambda>j.
       if j_kind j \<noteq> ''filesystem_primitive''
       then mfail (RuntimeError ''workspace transaction is not a filesystem primitive'')
       else if j_state j = AppliedVerified then rollback_applied_workspace_transaction env
       else if j_state j \<noteq> Applying \<and> j_state j \<noteq> Recovering
       then mfail (RuntimeError ''filesystem primitive transaction is not recoverable'')
       else
         mbind (recover_incomplete_workspace_transaction env) (\<lambda>_.
         mbind (mget (\<lambda>s. j_state (h_mem s))) (\<lambda>st.
           mcheck (st = FailedRecovered)
             (RuntimeError ''filesystem primitive recovery did not reach a terminal state'')))))"

end
