(* ===== verification/Changes.thy ===== *)
theory Changes
  imports Checkpoints
begin

text \<open>
  The bounded summary of what an operation changed (\<open>compare_workspace_states\<close> of
  \<open>workspace_history.py\<close>): the changed paths of two checkpoints, their verified contents, the lines of a
  unified diff with exact counts, and a preview that never exceeds its limit. \<open>opcodes\<close> stands for
  \<open>SequenceMatcher.get_grouped_opcodes(3)\<close>; the formatting of \<open>difflib.unified_diff\<close> is written out.
\<close>

section \<open>Unified diffs\<close>

datatype diff_tag = Equal | Replaced | Deleted | Inserted

type_synonym diff_opcode = "diff_tag \<times> nat \<times> nat \<times> nat \<times> nat"

type_synonym diff_matcher = "utext list \<Rightarrow> utext list \<Rightarrow> diff_opcode list list"

definition utext_of :: "string \<Rightarrow> utext" where
  "utext_of s = List.map of_char s"

fun decimal :: "nat \<Rightarrow> utext" where
  "decimal n = (if n < 10 then [48 + n] else decimal (n div 10) @ [48 + n mod 10])"

declare decimal.simps [simp del]

text \<open>\<open>_format_range_unified\<close> of \<open>difflib\<close>.\<close>

definition format_range :: "nat \<Rightarrow> nat \<Rightarrow> utext" where
  "format_range start stop =
     (if stop - start = 1 then decimal (start + 1)
      else decimal (if stop - start = 0 then start else start + 1) @ utext_of '','' @ decimal (stop - start))"

definition opcode_lines :: "utext list \<Rightarrow> utext list \<Rightarrow> diff_opcode \<Rightarrow> utext list" where
  "opcode_lines a b op =
     (case op of (tag, i1, i2, j1, j2) \<Rightarrow>
        if tag = Equal then List.map ((@) (utext_of '' '')) (line_span i1 i2 a)
        else (if tag \<in> {Replaced, Deleted} then List.map ((@) (utext_of ''-'')) (line_span i1 i2 a) else [])
           @ (if tag \<in> {Replaced, Inserted} then List.map ((@) (utext_of ''+'')) (line_span j1 j2 b) else []))"

definition hunk_header :: "diff_opcode list \<Rightarrow> utext" where
  "hunk_header g =
     (case (hd g, last g) of ((_, i1, _, j1, _), (_, _, i2, _, j2)) \<Rightarrow>
        utext_of ''@@ -'' @ format_range i1 i2 @ utext_of '' +'' @ format_range j1 j2 @ utext_of '' @@'' @ [10])"

definition hunk_lines :: "utext list \<Rightarrow> utext list \<Rightarrow> diff_opcode list \<Rightarrow> utext list" where
  "hunk_lines a b g = hunk_header g # concat (List.map (opcode_lines a b) g)"

definition unified_diff :: "diff_matcher \<Rightarrow> utext list \<Rightarrow> utext list \<Rightarrow> utext \<Rightarrow> utext \<Rightarrow> utext list" where
  "unified_diff opcodes a b fromfile tofile =
     (case opcodes a b of
        [] \<Rightarrow> []
      | gs \<Rightarrow> (utext_of ''--- '' @ fromfile @ [10]) # (utext_of ''+++ '' @ tofile @ [10])
              # concat (List.map (hunk_lines a b) gs))"

section \<open>The lines of one file\<close>

definition change_bytes_are_text :: "bytes \<Rightarrow> bytes \<Rightarrow> bool" where
  "change_bytes_are_text before after \<longleftrightarrow>
     0 \<notin> set before \<and> 0 \<notin> set after \<and> utf8_decode before \<noteq> None \<and> utf8_decode after \<noteq> None"

text \<open>\<open>json.dumps(text, ensure_ascii=False)\<close>.\<close>

definition hex_char :: "nat \<Rightarrow> nat" where
  "hex_char n = (if n < 10 then 48 + n else 87 + n)"

definition json_char :: "nat \<Rightarrow> utext" where
  "json_char c =
     (if c = 34 then [92, 34] else if c = 92 then [92, 92] else if c = 10 then [92, 110]
      else if c = 13 then [92, 114] else if c = 9 then [92, 116] else if c = 8 then [92, 98]
      else if c = 12 then [92, 102]
      else if c < 32 then [92, 117, 48, 48, hex_char (c div 16), hex_char (c mod 16)] else [c])"

definition diff_label :: "utext \<Rightarrow> utext" where
  "diff_label t =
     (if list_ex (\<lambda>c. c \<in> {13, 10, 9, 34}) t then [34] @ concat (List.map json_char t) @ [34] else t)"

definition directory_change_line :: "string \<Rightarrow> bool \<Rightarrow> utext" where
  "directory_change_line p added =
     utext_of ''Directory '' @ utext_of (if added then ''added'' else ''removed'') @ utext_of '': ''
     @ diff_label (utext_of p) @ [10]"

definition physical_text_lines :: "utext \<Rightarrow> utext list" where
  "physical_text_lines t =
     (let parts = split_on 10 t in
      List.map (\<lambda>p. p @ [10]) (butlast parts) @ (if last parts = [] then [] else [last parts]))"

definition counted_line :: "nat \<Rightarrow> utext \<Rightarrow> (utext \<times> nat \<times> nat) list" where
  "counted_line index line =
     (let added = (if 2 \<le> index \<and> starts_with (utext_of ''+'') line then 1 else 0);
          removed = (if 2 \<le> index \<and> starts_with (utext_of ''-'') line then 1 else 0)
      in if ends_with [10] line then [(line, added, removed)]
         else [(line @ [10], added, removed), (92 # utext_of '' No newline at end of file'' @ [10], 0, 0)])"

definition file_change_lines ::
  "diff_matcher \<Rightarrow> string \<Rightarrow> bytes \<Rightarrow> bytes \<Rightarrow> bool \<Rightarrow> bool \<Rightarrow> (utext \<times> nat \<times> nat) list" where
  "file_change_lines opcodes p before after before_exists after_exists =
     (case (if change_bytes_are_text before after then Some (utf8_decode before, utf8_decode after) else None) of
        Some (Some old, Some new) \<Rightarrow>
          let a_label = diff_label (utext_of (''a/'' @ p)); b_label = diff_label (utext_of (''b/'' @ p));
              fromfile = (if before_exists then a_label else utext_of ''/dev/null'');
              tofile = (if after_exists then b_label else utext_of ''/dev/null'')
          in if before = [] \<and> after = [] \<and> before_exists \<noteq> after_exists then
               [(utext_of ''diff --git '' @ a_label @ utext_of '' '' @ b_label @ [10], 0, 0),
                (utext_of (if after_exists then ''new file mode 100644'' else ''deleted file mode 100644'') @ [10], 0, 0),
                (utext_of ''--- '' @ fromfile @ [10], 0, 0), (utext_of ''+++ '' @ tofile @ [10], 0, 0)]
             else
               let ls = unified_diff opcodes (physical_text_lines old) (physical_text_lines new) fromfile tofile
               in concat (List.map (\<lambda>(i, l). counted_line i l) (enumerate 0 ls))
      | _ \<Rightarrow> [(utext_of ''Binary files differ: '' @ diff_label (utext_of p) @ [10], 0, 0)])"

section \<open>The preview\<close>

record preview =
  pv_chunks :: "utext list"
  pv_preview :: int
  pv_diff :: int
  pv_truncated :: bool

definition append_preview :: "int \<Rightarrow> utext \<Rightarrow> preview \<Rightarrow> preview" where
  "append_preview limit line pv =
     (let n = int (utf8_length line) in
      if \<not> pv_truncated pv \<and> pv_preview pv + n \<le> limit
      then pv\<lparr>pv_diff := pv_diff pv + n, pv_chunks := pv_chunks pv @ [line], pv_preview := pv_preview pv + n\<rparr>
      else pv\<lparr>pv_diff := pv_diff pv + n, pv_truncated := True\<rparr>)"

definition truncation_marker :: utext where
  "truncation_marker = 10 # utext_of ''... diff truncated by max_diff_bytes ...'' @ [10]"

text \<open>The chunks in reverse order: \<open>pop\<close> takes the last one.\<close>

fun make_room :: "int \<Rightarrow> utext list \<Rightarrow> int \<Rightarrow> utext list \<times> int" where
  "make_room limit [] n = ([], n)"
| "make_room limit (c # cs) n =
     (if limit < n + int (utf8_length truncation_marker) then make_room limit cs (n - int (utf8_length c))
      else (c # cs, n))"

definition close_preview :: "int \<Rightarrow> preview \<Rightarrow> preview" where
  "close_preview limit pv =
     (if \<not> pv_truncated pv then pv
      else case make_room limit (rev (pv_chunks pv)) (pv_preview pv) of (cs, n) \<Rightarrow>
        if int (utf8_length truncation_marker) \<le> limit
        then pv\<lparr>pv_chunks := rev cs @ [truncation_marker], pv_preview := n + int (utf8_length truncation_marker)\<rparr>
        else pv\<lparr>pv_chunks := rev cs, pv_preview := n\<rparr>)"

section \<open>Comparing two checkpoints\<close>

record change_summary =
  cs_files :: "string list"
  cs_dirs :: "string list"
  cs_paths :: "string list"
  cs_added :: nat
  cs_removed :: nat
  cs_text :: nat
  cs_nontext :: nat
  cs_before :: nat
  cs_after :: nat
  cs_preview :: preview

definition verified_change_entry_bytes ::
  "(bytes \<Rightarrow> string) \<Rightarrow> int \<Rightarrow> blobs \<Rightarrow> manifest_entry option \<Rightarrow> bytes res" where
  "verified_change_entry_bytes sha max_bytes blobs entry =
     (case entry of
        None \<Rightarrow> Inr []
      | Some e \<Rightarrow>
          if me_size e < 0 \<or> max_bytes < me_size e
          then Inl (ValueError ''checkpoint entry exceeds the configured byte limit'')
          else
            rbind (entry_bytes blobs e) (\<lambda>d.
            if me_size e < int (length d) then Inl (ValueError ''file exceeds the byte limit'')
            else if int (length d) \<noteq> me_size e \<or> sha d \<noteq> me_sha e
            then Inl (RuntimeError ''checkpoint content integrity verification failed'') else Inr d))"

definition entry_digest :: "manifest_entry option \<Rightarrow> string option" where
  "entry_digest e = map_option me_sha e"

definition compare_file ::
  "(bytes \<Rightarrow> string) \<Rightarrow> int \<Rightarrow> int \<Rightarrow> blobs \<Rightarrow> diff_matcher \<Rightarrow> manifest \<Rightarrow> manifest \<Rightarrow> change_summary \<Rightarrow> string \<Rightarrow>
   change_summary res" where
  "compare_file sha max_bytes limit blobs opcodes before after cs p =
     (let be = map_of (entry_map before) p; ae = map_of (entry_map after) p in
      rbind (verified_change_entry_bytes sha max_bytes blobs be) (\<lambda>old.
      rbind (verified_change_entry_bytes sha max_bytes blobs ae) (\<lambda>new.
      let text = change_bytes_are_text old new;
          ls = file_change_lines opcodes p old new (be \<noteq> None) (ae \<noteq> None)
      in Inr (cs\<lparr>cs_before := cs_before cs + length old, cs_after := cs_after cs + length new,
                 cs_text := cs_text cs + (if text then 1 else 0),
                 cs_nontext := cs_nontext cs + (if text then 0 else 1),
                 cs_added := cs_added cs + (\<Sum>(l, a, r) \<leftarrow> ls. a),
                 cs_removed := cs_removed cs + (\<Sum>(l, a, r) \<leftarrow> ls. r),
                 cs_preview := foldl (\<lambda>pv (l, a, r). append_preview limit l pv) (cs_preview cs) ls\<rparr>))))"

definition changed_entries :: "manifest \<Rightarrow> manifest \<Rightarrow> string list" where
  "changed_entries before after =
     sorted_set (List.filter
       (\<lambda>p. entry_digest (map_of (entry_map before) p) \<noteq> entry_digest (map_of (entry_map after) p))
       (List.map fst (entry_map before) @ List.map fst (entry_map after)))"

definition changed_directories :: "manifest \<Rightarrow> manifest \<Rightarrow> string list" where
  "changed_directories before after =
     sorted_set (List.filter (\<lambda>d. (d \<in> set (mf_dirs before)) \<noteq> (d \<in> set (mf_dirs after)))
       (mf_dirs before @ mf_dirs after))"

definition empty_summary :: change_summary where
  "empty_summary =
     \<lparr>cs_files = [], cs_dirs = [], cs_paths = [], cs_added = 0, cs_removed = 0, cs_text = 0, cs_nontext = 0,
      cs_before = 0, cs_after = 0,
      cs_preview = \<lparr>pv_chunks = [], pv_preview = 0, pv_diff = 0, pv_truncated = False\<rparr>\<rparr>"

definition compare_workspace_states ::
  "(bytes \<Rightarrow> string) \<Rightarrow> int \<Rightarrow> int \<Rightarrow> blobs \<Rightarrow> diff_matcher \<Rightarrow> manifest \<Rightarrow> manifest \<Rightarrow> change_summary res" where
  "compare_workspace_states sha max_bytes limit blobs opcodes before after =
     rbind (require_matching_scope before after) (\<lambda>_.
     let files = changed_entries before after; dirs = changed_directories before after in
     rbind (rfold (compare_file sha max_bytes limit blobs opcodes before after)
              (empty_summary\<lparr>cs_files := files, cs_dirs := dirs, cs_paths := sorted_set (files @ dirs)\<rparr>) files) (\<lambda>cs.
       Inr (cs\<lparr>cs_preview := close_preview limit
              (foldl (\<lambda>pv d. append_preview limit (directory_change_line d (d \<in> set (mf_dirs after))) pv)
                 (cs_preview cs) dirs)\<rparr>)))"

section \<open>The preview stays within its limit\<close>

definition sound_preview :: "int \<Rightarrow> preview \<Rightarrow> bool" where
  "sound_preview limit pv \<longleftrightarrow>
     pv_preview pv = (\<Sum>c \<leftarrow> pv_chunks pv. int (utf8_length c)) \<and> pv_preview pv \<le> limit
     \<and> (pv_truncated pv \<longleftrightarrow> limit < pv_diff pv) \<and> (\<not> pv_truncated pv \<longrightarrow> pv_preview pv = pv_diff pv)"

lemma sound_append: "sound_preview limit pv \<Longrightarrow> sound_preview limit (append_preview limit line pv)"
  by (auto simp: sound_preview_def append_preview_def Let_def)

lemma sound_appends:
  "sound_preview limit pv \<Longrightarrow> sound_preview limit (foldl (\<lambda>pv x. append_preview limit (f x) pv) pv xs)"
  by (induction xs arbitrary: pv) (auto intro: sound_append)

lemma make_room_sum:
  "make_room limit cs n = (cs', n') \<Longrightarrow> n = (\<Sum>c \<leftarrow> cs. int (utf8_length c)) \<Longrightarrow>
     n' = (\<Sum>c \<leftarrow> cs'. int (utf8_length c)) \<and> n' \<le> n
     \<and> (n' + int (utf8_length truncation_marker) \<le> limit \<or> n' = 0)"
proof (induction limit cs n rule: make_room.induct)
  case (2 limit c cs n)
  show ?case
  proof (cases "limit < n + int (utf8_length truncation_marker)")
    case True
    then have "make_room limit cs (n - int (utf8_length c)) = (cs', n')" using 2(2) by simp
    then have "n' = (\<Sum>c \<leftarrow> cs'. int (utf8_length c)) \<and> n' \<le> n - int (utf8_length c)
        \<and> (n' + int (utf8_length truncation_marker) \<le> limit \<or> n' = 0)"
      by (rule 2(1) [OF True]) (use 2(3) in simp)
    then show ?thesis by auto
  qed (use 2 in auto)
qed auto

definition written_preview :: "int \<Rightarrow> preview \<Rightarrow> bool" where
  "written_preview limit pv \<longleftrightarrow>
     pv_preview pv = (\<Sum>c \<leftarrow> pv_chunks pv. int (utf8_length c)) \<and> pv_preview pv \<le> limit
     \<and> (pv_truncated pv \<longleftrightarrow> limit < pv_diff pv) \<and> (\<not> pv_truncated pv \<longrightarrow> pv_preview pv = pv_diff pv)
     \<and> (pv_truncated pv \<longrightarrow> int (utf8_length truncation_marker) \<le> limit \<longrightarrow>
          pv_chunks pv \<noteq> [] \<and> last (pv_chunks pv) = truncation_marker)"

lemma close_written:
  assumes "sound_preview limit pv" "0 \<le> limit"
  shows "written_preview limit (close_preview limit pv)"
proof (cases "pv_truncated pv")
  case False
  then show ?thesis using assms by (simp add: sound_preview_def written_preview_def close_preview_def)
next
  case True
  obtain cs n where m: "make_room limit (rev (pv_chunks pv)) (pv_preview pv) = (cs, n)" by fastforce
  have "pv_preview pv = (\<Sum>c \<leftarrow> rev (pv_chunks pv). int (utf8_length c))"
    using assms(1) by (simp add: sound_preview_def rev_map [symmetric] sum_list_rev)
  from make_room_sum [OF m this] show ?thesis
    using assms True m
    by (auto simp: sound_preview_def written_preview_def close_preview_def rev_map [symmetric] sum_list_rev)
qed

section \<open>Exact line counts\<close>

text \<open>
  The documented shape of grouped opcodes: their spans follow each other on both sides, what lies
  between two groups is the same on both sides, and so is an equal span.
\<close>

fun faithful_opcodes ::
  "nat \<Rightarrow> nat \<Rightarrow> utext list \<Rightarrow> utext list \<Rightarrow> diff_opcode list \<Rightarrow> (nat \<times> nat) option" where
  "faithful_opcodes i j a b [] = Some (i, j)"
| "faithful_opcodes i j a b ((tag, i1, i2, j1, j2) # ops) =
     (if i1 = i \<and> j1 = j \<and> i \<le> i2 \<and> i2 \<le> length a \<and> j \<le> j2 \<and> j2 \<le> length b
         \<and> (tag = Equal \<longrightarrow> line_span i i2 a = line_span j j2 b)
         \<and> (tag = Deleted \<longrightarrow> j2 = j) \<and> (tag = Inserted \<longrightarrow> i2 = i)
      then faithful_opcodes i2 j2 a b ops else None)"

fun faithful_hunks :: "nat \<Rightarrow> nat \<Rightarrow> utext list \<Rightarrow> utext list \<Rightarrow> diff_opcode list list \<Rightarrow> bool" where
  "faithful_hunks i j a b [] \<longleftrightarrow> drop i a = drop j b"
| "faithful_hunks i j a b ([] # gs) \<longleftrightarrow> False"
| "faithful_hunks i j a b (((tag, i1, i2, j1, j2) # ops) # gs) \<longleftrightarrow>
     i \<le> i1 \<and> i1 \<le> length a \<and> j \<le> j1 \<and> j1 \<le> length b \<and> line_span i i1 a = line_span j j1 b
     \<and> (case faithful_opcodes i1 j1 a b ((tag, i1, i2, j1, j2) # ops) of
          None \<Rightarrow> False | Some (i', j') \<Rightarrow> faithful_hunks i' j' a b gs)"

definition plus_lines :: "utext list \<Rightarrow> nat" where
  "plus_lines ls = length (List.filter (\<lambda>l. starts_with (utext_of ''+'') l) ls)"

definition minus_lines :: "utext list \<Rightarrow> nat" where
  "minus_lines ls = length (List.filter (\<lambda>l. starts_with (utext_of ''-'') l) ls)"

lemma line_count_append [simp]:
  "plus_lines [] = 0" "minus_lines [] = 0"
  "plus_lines (xs @ ys) = plus_lines xs + plus_lines ys" "minus_lines (xs @ ys) = minus_lines xs + minus_lines ys"
  by (simp_all add: plus_lines_def minus_lines_def)

lemma prefixed_lines:
  "plus_lines (List.map ((@) (utext_of ''+'')) ls) = length ls" "minus_lines (List.map ((@) (utext_of ''+'')) ls) = 0"
  "plus_lines (List.map ((@) (utext_of ''-'')) ls) = 0" "minus_lines (List.map ((@) (utext_of ''-'')) ls) = length ls"
  "plus_lines (List.map ((@) (utext_of '' '')) ls) = 0" "minus_lines (List.map ((@) (utext_of '' '')) ls) = 0"
  "plus_lines [hunk_header g] = 0" "minus_lines [hunk_header g] = 0"
  by (auto simp: plus_lines_def minus_lines_def filter_map comp_def starts_with_def utext_of_def hunk_header_def
      case_prod_unfold)

lemma span_length: "i \<le> k \<Longrightarrow> k \<le> length xs \<Longrightarrow> length (line_span i k xs) = k - i"
  by (simp add: line_span_def)

lemma opcode_counts:
  assumes "faithful_opcodes i j a b ops = Some (i', j')"
  shows "int (plus_lines (concat (List.map (opcode_lines a b) ops)))
           - int (minus_lines (concat (List.map (opcode_lines a b) ops)))
         = (int j' - int j) - (int i' - int i) \<and> i \<le> i' \<and> j \<le> j' \<and> (i \<le> length a \<longrightarrow> i' \<le> length a)
           \<and> (j \<le> length b \<longrightarrow> j' \<le> length b)"
  using assms
proof (induction i j a b ops rule: faithful_opcodes.induct)
  case (2 i j a b tag i1 i2 j1 j2 ops)
  have c: "i1 = i" "j1 = j" "i \<le> i2" "i2 \<le> length a" "j \<le> j2" "j2 \<le> length b"
      "tag = Equal \<Longrightarrow> line_span i i2 a = line_span j j2 b" "tag = Deleted \<Longrightarrow> j2 = j" "tag = Inserted \<Longrightarrow> i2 = i"
      "faithful_opcodes i2 j2 a b ops = Some (i', j')"
    using 2(2) by (auto split: if_splits)
  note ih = 2(1) [OF _ c(10)]
  have eq: "tag = Equal \<Longrightarrow> i2 - i = j2 - j" using c(7) span_length [OF c(3,4)] span_length [OF c(5,6)] by metis
  have "int (plus_lines (opcode_lines a b (tag, i1, i2, j1, j2)))
      - int (minus_lines (opcode_lines a b (tag, i1, i2, j1, j2))) = (int j2 - int j) - (int i2 - int i)"
    using c eq by (cases tag) (auto simp: opcode_lines_def prefixed_lines span_length of_nat_diff)
  moreover have "int (plus_lines (concat (List.map (opcode_lines a b) ops)))
      - int (minus_lines (concat (List.map (opcode_lines a b) ops))) = (int j' - int j2) - (int i' - int i2)
      \<and> i2 \<le> i' \<and> j2 \<le> j' \<and> i' \<le> length a \<and> j' \<le> length b"
    using ih c by (simp add: c(7-9))
  ultimately show ?case using c by auto
qed auto

lemma hunk_counts:
  assumes "faithful_hunks i j a b gs" "i \<le> length a" "j \<le> length b"
  shows "int (plus_lines (concat (List.map (hunk_lines a b) gs)))
           - int (minus_lines (concat (List.map (hunk_lines a b) gs)))
         = (int (length b) - int j) - (int (length a) - int i)"
  using assms
proof (induction i j a b gs rule: faithful_hunks.induct)
  case (1 i j a b)
  then have "length a - i = length b - j" by (metis faithful_hunks.simps(1) length_drop)
  then show ?case using 1 by simp
next
  case (3 i j a b tag i1 i2 j1 j2 ops gs)
  let ?g = "(tag, i1, i2, j1, j2) # ops"
  have gap: "i \<le> i1" "i1 \<le> length a" "j \<le> j1" "j1 \<le> length b" "line_span i i1 a = line_span j j1 b"
    using 3(2) by auto
  obtain i' j' where f: "faithful_opcodes i1 j1 a b ?g = Some (i', j')" "faithful_hunks i' j' a b gs"
    using 3(2) by (auto split: option.splits prod.splits)
  have same: "i1 - i = j1 - j" using gap by (metis span_length)
  note oc = opcode_counts [OF f(1)]
  have "int (plus_lines (hunk_lines a b ?g)) - int (minus_lines (hunk_lines a b ?g))
      = (int j' - int j1) - (int i' - int i1)"
    using oc line_count_append(3) [of "[hunk_header ?g]"] line_count_append(4) [of "[hunk_header ?g]"]
    by (simp add: hunk_lines_def prefixed_lines del: line_count_append)
  moreover have "int (plus_lines (concat (List.map (hunk_lines a b) gs)))
      - int (minus_lines (concat (List.map (hunk_lines a b) gs)))
      = (int (length b) - int j') - (int (length a) - int i')"
    using 3(1) [OF f(1) refl f(2)] oc gap by simp
  ultimately show ?case using same gap by simp
qed auto

lemma counted_sums:
  "(\<Sum>(l, a, r) \<leftarrow> counted_line n l. a) = (if 2 \<le> n then plus_lines [l] else 0)"
  "(\<Sum>(l, a, r) \<leftarrow> counted_line n l. r) = (if 2 \<le> n then minus_lines [l] else 0)"
  by (auto simp: counted_line_def Let_def plus_lines_def minus_lines_def)

lemma enumerated_sums:
  assumes "2 \<le> n"
  shows "(\<Sum>(l, a, r) \<leftarrow> concat (List.map (\<lambda>(i, l). counted_line i l) (enumerate n ls)). a) = plus_lines ls"
    "(\<Sum>(l, a, r) \<leftarrow> concat (List.map (\<lambda>(i, l). counted_line i l) (enumerate n ls)). r) = minus_lines ls"
  using assms
proof (induction ls arbitrary: n)
  case (Cons l ls)
  {
    case 1
    show ?case using Cons(1) [of "Suc n"] 1 line_count_append(3) [of "[l]" ls] by (simp add: counted_sums)
  next
    case 2
    show ?case using Cons(2) [of "Suc n"] 2 line_count_append(4) [of "[l]" ls] by (simp add: counted_sums)
  }
qed simp_all

definition line_total :: "bytes \<Rightarrow> nat" where
  "line_total d = (case utf8_decode d of Some t \<Rightarrow> length (physical_text_lines t) | None \<Rightarrow> 0)"

lemma file_line_counts:
  assumes "\<And>a b. faithful_hunks 0 0 a b (opcodes a b)"
  shows "int (\<Sum>(l, a, r) \<leftarrow> file_change_lines opcodes p old new be ae. a)
      - int (\<Sum>(l, a, r) \<leftarrow> file_change_lines opcodes p old new be ae. r)
    = (if change_bytes_are_text old new then int (line_total new) - int (line_total old) else 0)"
proof (cases "change_bytes_are_text old new")
  case False
  then show ?thesis by (simp add: file_change_lines_def)
next
  case True
  then obtain t u where d: "utf8_decode old = Some t" "utf8_decode new = Some u"
    by (auto simp: change_bytes_are_text_def)
  let ?a = "physical_text_lines t" and ?b = "physical_text_lines u"
  have none: "physical_text_lines [] = []" by (simp add: physical_text_lines_def)
  have nil: "utf8_decode [] = Some []" by (simp add: utf8_decode_def)
  have total: "line_total old = length ?a" "line_total new = length ?b" by (simp_all add: line_total_def d)
  show ?thesis
  proof (cases "old = [] \<and> new = [] \<and> be \<noteq> ae")
    case True
    then have "?a = []" "?b = []" using d nil none by auto
    then show ?thesis using True total d by (simp add: file_change_lines_def change_bytes_are_text_def Let_def)
  next
    case False
    let ?gs = "opcodes ?a ?b"
    define ls where "ls = concat (List.map (hunk_lines ?a ?b) ?gs)"
    have net: "int (plus_lines ls) - int (minus_lines ls) = int (length ?b) - int (length ?a)"
      unfolding ls_def using hunk_counts [OF assms, of ?a ?b] by simp
    obtain f g where u: "file_change_lines opcodes p old new be ae
        = concat (List.map (\<lambda>(i, l). counted_line i l) (enumerate 0 (unified_diff opcodes ?a ?b f g)))"
      using True False d by (auto simp: file_change_lines_def Let_def)
    show ?thesis
    proof (cases ?gs)
      case Nil
      then show ?thesis using u net True total by (simp add: unified_diff_def ls_def)
    next
      case (Cons x xs)
      then obtain h1 h2 where h: "unified_diff opcodes ?a ?b f g = h1 # h2 # ls" by (simp add: unified_diff_def ls_def)
      have two: "Suc (Suc 0) = (2 :: nat)" by simp
      show ?thesis using net True total unfolding u h
        by (simp add: counted_sums two enumerated_sums [of 2])
    qed
  qed
qed

section \<open>The summary\<close>

definition recorded_bytes :: "blobs \<Rightarrow> manifest \<Rightarrow> string \<Rightarrow> bytes" where
  "recorded_bytes blobs m p =
     (case map_of (entry_map m) p of
        None \<Rightarrow> []
      | Some e \<Rightarrow> (case map_of blobs (me_sha e) of Some d \<Rightarrow> d | None \<Rightarrow> []))"

lemma verified_recorded:
  "verified_change_entry_bytes sha max_bytes blobs (map_of (entry_map m) p) = Inr d \<Longrightarrow> d = recorded_bytes blobs m p"
  by (auto simp: verified_change_entry_bytes_def recorded_bytes_def entry_bytes_def rbind_eq_Inr
      split: option.splits if_splits)

definition net_lines :: "blobs \<Rightarrow> manifest \<Rightarrow> manifest \<Rightarrow> string \<Rightarrow> int" where
  "net_lines blobs before after p =
     (let old = recorded_bytes blobs before p; new = recorded_bytes blobs after p in
      if change_bytes_are_text old new then int (line_total new) - int (line_total old) else 0)"

lemma compare_file_Inr:
  assumes "compare_file sha max_bytes limit blobs opcodes before after cs p = Inr cs'"
    and "\<And>a b. faithful_hunks 0 0 a b (opcodes a b)" "sound_preview limit (cs_preview cs)"
  shows "sound_preview limit (cs_preview cs')
    \<and> int (cs_added cs') - int (cs_removed cs') = int (cs_added cs) - int (cs_removed cs) + net_lines blobs before after p
    \<and> cs_before cs' = cs_before cs + length (recorded_bytes blobs before p)
    \<and> cs_after cs' = cs_after cs + length (recorded_bytes blobs after p)
    \<and> cs_files cs' = cs_files cs \<and> cs_dirs cs' = cs_dirs cs \<and> cs_paths cs' = cs_paths cs"
proof -
  let ?old = "recorded_bytes blobs before p" and ?new = "recorded_bytes blobs after p"
  let ?ls = "file_change_lines opcodes p ?old ?new (map_of (entry_map before) p \<noteq> None) (map_of (entry_map after) p \<noteq> None)"
  obtain old new where v: "verified_change_entry_bytes sha max_bytes blobs (map_of (entry_map before) p) = Inr old"
    "verified_change_entry_bytes sha max_bytes blobs (map_of (entry_map after) p) = Inr new"
    using assms(1) by (auto simp: compare_file_def Let_def rbind_eq_Inr)
  note w = verified_recorded [OF v(1)] verified_recorded [OF v(2)]
  have cs': "cs' = cs\<lparr>cs_before := cs_before cs + length ?old, cs_after := cs_after cs + length ?new,
      cs_text := cs_text cs + (if change_bytes_are_text ?old ?new then 1 else 0),
      cs_nontext := cs_nontext cs + (if change_bytes_are_text ?old ?new then 0 else 1),
      cs_added := cs_added cs + (\<Sum>(l, a, r) \<leftarrow> ?ls. a), cs_removed := cs_removed cs + (\<Sum>(l, a, r) \<leftarrow> ?ls. r),
      cs_preview := foldl (\<lambda>pv (l, a, r). append_preview limit l pv) (cs_preview cs) ?ls\<rparr>"
    using assms(1) v w by (simp add: compare_file_def Let_def)
  have "sound_preview limit (foldl (\<lambda>pv (l, a, r). append_preview limit l pv) (cs_preview cs) ?ls)"
    using sound_appends [OF assms(3), of fst ?ls] by (simp add: case_prod_unfold)
  then show ?thesis
    using file_line_counts [OF assms(2), of p ?old ?new "map_of (entry_map before) p \<noteq> None" "map_of (entry_map after) p \<noteq> None"]
    unfolding cs' by (simp add: net_lines_def)
qed

lemma compare_files_Inr:
  assumes "rfold (compare_file sha max_bytes limit blobs opcodes before after) cs ps = Inr cs'"
    and "\<And>a b. faithful_hunks 0 0 a b (opcodes a b)" "sound_preview limit (cs_preview cs)"
  shows "sound_preview limit (cs_preview cs')
    \<and> int (cs_added cs') - int (cs_removed cs')
        = int (cs_added cs) - int (cs_removed cs) + (\<Sum>p \<leftarrow> ps. net_lines blobs before after p)
    \<and> cs_before cs' = cs_before cs + (\<Sum>p \<leftarrow> ps. length (recorded_bytes blobs before p))
    \<and> cs_after cs' = cs_after cs + (\<Sum>p \<leftarrow> ps. length (recorded_bytes blobs after p))
    \<and> cs_files cs' = cs_files cs \<and> cs_dirs cs' = cs_dirs cs \<and> cs_paths cs' = cs_paths cs"
  using assms(1,3)
proof (induction ps arbitrary: cs)
  case (Cons p ps)
  obtain c where c: "compare_file sha max_bytes limit blobs opcodes before after cs p = Inr c"
    "rfold (compare_file sha max_bytes limit blobs opcodes before after) c ps = Inr cs'"
    using Cons.prems(1) by (auto simp: rbind_eq_Inr)
  note one = compare_file_Inr [OF c(1) assms(2) Cons.prems(2)]
  show ?case using one Cons.IH [OF c(2)] by auto
qed simp

lemma state_of_entry:
  "disjoint_kinds m \<Longrightarrow> map_of (state_map m) p =
     (if p \<in> set (mf_dirs m) then Some DirSt else map_option FileSt (entry_digest (map_of (entry_map m) p)))"
  by (auto simp: map_of_state_map entry_digest_def option.map_comp comp_def)

lemma summary_paths:
  assumes "disjoint_kinds before" "disjoint_kinds after"
  shows "p \<in> set (changed_entries before after) \<union> set (changed_directories before after)
    \<longleftrightarrow> p \<in> set (changed_paths before after)"
proof -
  let ?d = "\<lambda>m. entry_digest (map_of (entry_map m) p)"
  have e: "p \<in> set (changed_entries before after) \<longleftrightarrow> ?d before \<noteq> ?d after"
    using not_in_map [of p "entry_map before"] not_in_map [of p "entry_map after"]
    by (cases "map_of (entry_map before) p"; cases "map_of (entry_map after) p")
      (auto simp: changed_entries_def sorted_set_def entry_digest_def dest: map_of_SomeD)
  have f: "p \<in> set (changed_directories before after) \<longleftrightarrow> (p \<in> set (mf_dirs before)) \<noteq> (p \<in> set (mf_dirs after))"
    by (auto simp: changed_directories_def sorted_set_def)
  have n: "?d m = None" if "disjoint_kinds m" "p \<in> set (mf_dirs m)" for m
    using disjoint_kinds_entry [OF that] by (simp add: entry_digest_def)
  show ?thesis
    unfolding Un_iff e f changed_paths_def differing_iff state_of_entry [OF assms(1)] state_of_entry [OF assms(2)]
    using n [OF assms(1)] n [OF assms(2)] by (cases "?d before"; cases "?d after") auto
qed

text \<open>
  C30. The summary of a change is exact and bounded: its paths are those a restore between the two
  checkpoints would touch, its byte totals are those of the recorded contents, added minus removed
  lines is what the text files gained, and the written preview fits the limit, is complete unless the
  whole diff is longer than that, and otherwise ends with the marker when the marker fits.
\<close>

theorem change_summary_exact:
  assumes "compare_workspace_states sha max_bytes limit blobs opcodes before after = Inr cs"
    and "\<And>a b. faithful_hunks 0 0 a b (opcodes a b)" "0 \<le> limit" "disjoint_kinds before" "disjoint_kinds after"
  shows "written_preview limit (cs_preview cs)
    \<and> set (cs_paths cs) = set (changed_paths before after)
    \<and> int (cs_added cs) - int (cs_removed cs) = (\<Sum>p \<leftarrow> cs_files cs. net_lines blobs before after p)
    \<and> cs_before cs = (\<Sum>p \<leftarrow> cs_files cs. length (recorded_bytes blobs before p))
    \<and> cs_after cs = (\<Sum>p \<leftarrow> cs_files cs. length (recorded_bytes blobs after p))"
proof -
  let ?files = "changed_entries before after" and ?dirs = "changed_directories before after"
  let ?start = "empty_summary\<lparr>cs_files := ?files, cs_dirs := ?dirs, cs_paths := sorted_set (?files @ ?dirs)\<rparr>"
  obtain c where c: "rfold (compare_file sha max_bytes limit blobs opcodes before after) ?start ?files = Inr c"
    and cs: "cs = c\<lparr>cs_preview := close_preview limit
        (foldl (\<lambda>pv d. append_preview limit (directory_change_line d (d \<in> set (mf_dirs after))) pv) (cs_preview c) ?dirs)\<rparr>"
    using assms(1) by (auto simp: compare_workspace_states_def rbind_eq_Inr Let_def)
  have "sound_preview limit (cs_preview ?start)"
    using assms(3) by (simp add: sound_preview_def empty_summary_def)
  note f = compare_files_Inr [OF c assms(2) this]
  have "written_preview limit (cs_preview cs)"
    unfolding cs using f assms(3) by (simp add: close_written sound_appends)
  moreover have "set (cs_paths cs) = set (changed_paths before after)"
    using f summary_paths [OF assms(4,5)] unfolding cs by (auto simp: sorted_set_def)
  ultimately show ?thesis using f unfolding cs by (simp add: empty_summary_def)
qed

text \<open>One hunk over everything that is not a common prefix.\<close>

definition prefix_opcodes :: diff_matcher where
  "prefix_opcodes a b =
     (if a = b then [] else [[(Replaced, 0, length a, 0, length b)]])"

lemma change_summary_exact_witness:
  "let blobs = [(''x'', [65, 10]), (''xxx'', [65, 10, 66])];
       sha = (\<lambda>d. if length d = 2 then ''x'' else ''xxx'');
       m = (\<lambda>d. \<lparr>mf_files = [\<lparr>me_path = ''a'', me_size = int (length d), me_sha = sha d\<rparr>], mf_dirs = [],
                  mf_scope = Some [''a'']\<rparr>);
       before = m [65, 10]; after = m [65, 10, 66]
   in (case compare_workspace_states sha 100 20 blobs prefix_opcodes before after of
         Inr cs \<Rightarrow> written_preview 20 (cs_preview cs) \<and> cs_paths cs = [''a''] \<and> cs_added cs = 2 \<and> cs_removed cs = 1
           \<and> cs_after cs = 3 \<and> pv_truncated (cs_preview cs) \<and> set (cs_paths cs) = set (changed_paths before after)
       | Inl _ \<Rightarrow> False)"
proof -
  let ?blobs = "[(''x'', [65, 10]), (''xxx'', [65, 10, 66])] :: blobs"
  let ?sha = "(\<lambda>d. if length d = 2 then ''x'' else ''xxx'') :: bytes \<Rightarrow> string"
  let ?m = "\<lambda>d :: bytes. \<lparr>mf_files = [\<lparr>me_path = ''a'', me_size = int (length d), me_sha = ?sha d\<rparr>], mf_dirs = [],
      mf_scope = Some [''a'']\<rparr>"
  have faithful: "faithful_hunks 0 0 a b (prefix_opcodes a b)" for a b
    by (simp add: prefix_opcodes_def line_span_def)
  obtain cs where cs: "compare_workspace_states ?sha 100 20 ?blobs prefix_opcodes (?m [65, 10]) (?m [65, 10, 66]) = Inr cs"
    and v: "cs_paths cs = [''a'']" "cs_added cs = 2" "cs_removed cs = 1" "cs_after cs = 3" "pv_truncated (cs_preview cs)"
  proof -
    have "case compare_workspace_states ?sha 100 20 ?blobs prefix_opcodes (?m [65, 10]) (?m [65, 10, 66]) of
        Inr cs \<Rightarrow> cs_paths cs = [''a''] \<and> cs_added cs = 2 \<and> cs_removed cs = 1 \<and> cs_after cs = 3
          \<and> pv_truncated (cs_preview cs) | Inl _ \<Rightarrow> False" by code_simp
    then show ?thesis using that by (auto split: sum.splits)
  qed
  have "disjoint_kinds (?m d)" for d by (simp add: disjoint_kinds_def)
  from change_summary_exact [OF cs faithful _ this this] show ?thesis
    unfolding Let_def cs by (simp add: v)
qed

end
