(* ===== verification/Audit_Store.thy ===== *)
theory Audit_Store
  imports Prelude "HOL-Library.AList" "HOL-Library.Product_Lexorder"
begin

text \<open>
  The audit store (\<open>audit.py\<close>): the table of operations with its status machine, approvals and
  one-shot execution grants, job admission and retention. A row maps column names to SQL values; a
  call is a function on the database that also gives its result, because some calls commit a change
  and then raise. Every call runs under one lock and in one transaction, so calls are atomic steps.
  Timestamps are instants (all are UTC texts of one format, whose order is that of the instants).
  The columns a caller updates exist, and the primary key is not among them. Event payloads are left
  out, and so are the schema and the reconciliation of interrupted workspace transactions.
\<close>

section \<open>Rows and statements\<close>

datatype sql_value = Null | SqlText string | SqlTime int | SqlInt int

type_synonym row = "(string \<times> sql_value) list"

record audit_event =
  ev_operation :: string
  ev_time :: int
  ev_type :: string

record audit_db =
  db_rows :: "(string \<times> row) list"     \<comment> \<open>by the primary key \<open>id\<close>\<close>
  db_events :: "audit_event list"

record audit_settings =
  max_concurrent_jobs :: nat
  approval_execution_ttl :: int
  retention_max_operations :: nat
  max_audit_record_bytes :: int
  max_data_dir_bytes :: int

definition col :: "row \<Rightarrow> string \<Rightarrow> sql_value" where
  "col r c = (case map_of r c of Some v \<Rightarrow> v | None \<Rightarrow> Null)"

definition set_cols :: "(string \<times> sql_value) list \<Rightarrow> row \<Rightarrow> row" where
  "set_cols assignments r = foldl (\<lambda>r (c, v). AList.update c v r) r assignments"

text \<open>Comparisons with a timestamp; a \<open>NULL\<close> satisfies none of them.\<close>

definition time_after :: "sql_value \<Rightarrow> int \<Rightarrow> bool" where
  "time_after v now = (case v of SqlTime t \<Rightarrow> now < t | _ \<Rightarrow> False)"

definition time_until :: "sql_value \<Rightarrow> int \<Rightarrow> bool" where
  "time_until v now = (case v of SqlTime t \<Rightarrow> t \<le> now | _ \<Rightarrow> False)"

definition update_rows :: "(string \<Rightarrow> row \<Rightarrow> bool) \<Rightarrow> (row \<Rightarrow> row) \<Rightarrow> audit_db \<Rightarrow> audit_db" where
  "update_rows wh f db =
     db\<lparr>db_rows := List.map (\<lambda>(k, r). (k, if wh k r then f r else r)) (db_rows db)\<rparr>"

definition row_count :: "(string \<Rightarrow> row \<Rightarrow> bool) \<Rightarrow> audit_db \<Rightarrow> nat" where
  "row_count wh db = length (List.filter (\<lambda>(k, r). wh k r) (db_rows db))"

definition delete_rows :: "string list \<Rightarrow> audit_db \<Rightarrow> audit_db" where
  "delete_rows ids db =
     \<lparr>db_rows = List.filter (\<lambda>(k, _). k \<notin> set ids) (db_rows db),
      db_events = List.filter (\<lambda>e. ev_operation e \<notin> set ids) (db_events db)\<rparr>"

definition insert_event :: "string \<Rightarrow> int \<Rightarrow> string \<Rightarrow> audit_db \<Rightarrow> audit_db" where
  "insert_event k now ty db =
     db\<lparr>db_events := db_events db @ [\<lparr>ev_operation = k, ev_time = now, ev_type = ty\<rparr>]\<rparr>"

definition terminal_statuses :: "string list" where
  "terminal_statuses =
     [''succeeded'', ''failed'', ''cancelled'', ''timed_out'', ''rejected'', ''expired'', ''interrupted'',
      ''conflict'']"

definition is_terminal :: "row \<Rightarrow> bool" where
  "is_terminal r \<longleftrightarrow> col r ''status'' \<in> SqlText ` set terminal_statuses"

definition is_active :: "row \<Rightarrow> bool" where
  "is_active r \<longleftrightarrow> col r ''status'' = SqlText ''queued'' \<or> col r ''status'' = SqlText ''running''"

section \<open>Retention and storage budget\<close>

definition sort_time :: "sql_value \<Rightarrow> int \<times> int" where
  "sort_time v = (case v of SqlTime t \<Rightarrow> (1, t) | _ \<Rightarrow> (0, 0))"

definition coalesce :: "sql_value \<Rightarrow> sql_value \<Rightarrow> sql_value" where
  "coalesce a b = (if a = Null then b else a)"

definition terminal_rows :: "audit_db \<Rightarrow> (string \<times> row) list" where
  "terminal_rows db = List.filter (\<lambda>(_, r). is_terminal r) (db_rows db)"

text \<open>\<open>_prune_database\<close>: all but the newest terminal operations go.\<close>

definition prune_database :: "audit_settings \<Rightarrow> audit_db \<Rightarrow> audit_db" where
  "prune_database st db =
     delete_rows
       (List.map fst
         (drop (retention_max_operations st)
           (rev (sort_key (\<lambda>(_, r). sort_time (col r ''created_at'')) (terminal_rows db)))))
       db"

definition audit_budget :: "audit_settings \<Rightarrow> int" where
  "audit_budget st = max (256 * 1024) (min (max_data_dir_bytes st div 4) (128 * 1024 * 1024))"

definition oldest_terminal :: "audit_db \<Rightarrow> string list" where
  "oldest_terminal db =
     List.map fst (take 100
       (sort_key (\<lambda>(_, r). (sort_time (coalesce (col r ''finished_at'') (col r ''updated_at'')),
                           sort_time (col r ''created_at'')))
         (terminal_rows db)))"

text \<open>\<open>storage\<close> is the size of the database files. Twenty rounds at most.\<close>

fun capacity_rounds :: "(audit_db \<Rightarrow> int) \<Rightarrow> int \<Rightarrow> int \<Rightarrow> nat \<Rightarrow> audit_db \<Rightarrow> audit_db \<times> unit res" where
  "capacity_rounds storage budget incoming 0 db =
     (db, if budget < storage db + incoming
          then Inl (RuntimeError ''audit storage budget is exhausted by active or pending operations'')
          else Inr ())"
| "capacity_rounds storage budget incoming (Suc n) db =
     (if storage db + incoming \<le> budget then (db, Inr ())
      else if oldest_terminal db = []
      then (db, Inl (RuntimeError ''audit storage budget is exhausted by active or pending operations''))
      else capacity_rounds storage budget incoming n (delete_rows (oldest_terminal db) db))"

definition ensure_audit_capacity ::
  "(audit_db \<Rightarrow> int) \<Rightarrow> audit_settings \<Rightarrow> int \<Rightarrow> audit_db \<Rightarrow> audit_db \<times> unit res" where
  "ensure_audit_capacity storage st incoming db =
     (if storage db + incoming \<le> audit_budget st then (db, Inr ())
      else capacity_rounds storage (audit_budget st) incoming 20 (prune_database st db))"

definition ensure_job_capacity :: "audit_settings \<Rightarrow> audit_db \<Rightarrow> unit res" where
  "ensure_job_capacity st db =
     (if max_concurrent_jobs st \<le> row_count (\<lambda>_ r. is_active r) db
      then Inl (RuntimeError ''concurrent job admission limit exceeded'') else Inr ())"

section \<open>Creating and changing operations\<close>

text \<open>The columns a caller of \<open>create_operation\<close> gives, and the encoded sizes that count.\<close>

record new_operation =
  no_id :: string
  no_status :: string
  no_approval :: sql_value
  no_expires :: sql_value
  no_hash :: sql_value
  no_columns :: row                 \<comment> \<open>tool, tier, cwd, request, origin\<close>
  no_request_bytes :: int
  no_origin_bytes :: int
  no_owner :: string

definition create_operation ::
  "(audit_db \<Rightarrow> int) \<Rightarrow> audit_settings \<Rightarrow> int \<Rightarrow> new_operation \<Rightarrow> audit_db \<Rightarrow> audit_db \<times> string res" where
  "create_operation storage st now n db =
     (if max_audit_record_bytes st < no_origin_bytes n
      then (db, Inl (ValueError ''audit origin exceeds max_audit_record_bytes''))
      else if max_audit_record_bytes st < no_request_bytes n
      then (db, Inl (ValueError ''audit request exceeds max_audit_record_bytes''))
      else case ensure_audit_capacity storage st (no_request_bytes n + 2 * no_origin_bytes n + 8192) db of
        (db1, Inl e) \<Rightarrow> (db1, Inl e)
      | (db1, Inr _) \<Rightarrow>
          (case (if no_status n = ''queued'' then ensure_job_capacity st db1 else Inr ()) of
             Inl e \<Rightarrow> (db1, Inl e)
           | Inr _ \<Rightarrow>
               if map_of (db_rows db1) (no_id n) \<noteq> None
               then (db1, Inl (RuntimeError ''UNIQUE constraint failed: operations.id''))
               else
                 let r = set_cols
                       ([(''created_at'', SqlTime now), (''updated_at'', SqlTime now),
                         (''status'', SqlText (no_status n)), (''approval_status'', no_approval n),
                         (''request_hash'', no_hash n), (''request_expires_at'', no_expires n),
                         (''execution_owner_json'',
                            if no_status n \<in> {''queued'', ''running''} then SqlText (no_owner n) else Null)])
                       (no_columns n)
                 in (insert_event (no_id n) now ''created''
                       (db1\<lparr>db_rows := db_rows db1 @ [(no_id n, r)]\<rparr>),
                     Inr (no_id n))))"

definition origin_columns :: "string list" where
  "origin_columns =
     [''session_id'', ''server_instance_id'', ''origin_scope'', ''client_name'', ''client_version'',
      ''request_id'', ''task_id'']"

definition is_identifier :: "string \<Rightarrow> bool" where
  "is_identifier s \<longleftrightarrow>
     s \<noteq> [] \<and> list_all (\<lambda>c. is_alnum_ascii c \<or> c = CHR ''_'') s \<and> \<not> is_digit (hd s)"

text \<open>
  The two redactions act on the texts \<open>error\<close> and \<open>result_json\<close>; \<open>text_bytes\<close> is the length of a
  value's text in UTF-8.
\<close>

record audit_text =
  redact_error :: "string \<Rightarrow> string"
  redact_result :: "string \<Rightarrow> string"
  text_bytes :: "sql_value \<Rightarrow> int"

definition redact_field :: "audit_text \<Rightarrow> string \<times> sql_value \<Rightarrow> string \<times> sql_value" where
  "redact_field tx f =
     (case f of
        (name, SqlText t) \<Rightarrow>
          (name, SqlText (if name = ''error'' then redact_error tx t
                          else if name = ''result_json'' then redact_result tx t else t))
      | _ \<Rightarrow> f)"

definition check_update_name :: "unit \<Rightarrow> string \<times> sql_value \<Rightarrow> unit res" where
  "check_update_name u f =
     (if \<not> is_identifier (fst f) then Inl (ValueError ''invalid audit update field'')
      else if ascii_lower (fst f) \<in> set origin_columns
      then Inl (ValueError ''operation origin fields are immutable'')
      else Inr ())"

definition prepare_update_fields ::
  "(audit_db \<Rightarrow> int) \<Rightarrow> audit_settings \<Rightarrow> audit_text \<Rightarrow> int \<Rightarrow> (string \<times> sql_value) list \<Rightarrow>
   audit_db \<Rightarrow> audit_db \<times> (string \<times> sql_value) list res" where
  "prepare_update_fields storage st tx now upd db =
     (case rfold check_update_name () upd of Inl e \<Rightarrow> (db, Inl e) | Inr _ \<Rightarrow>
      if map_of upd ''timing_json'' \<noteq> None
      then (db, Inl (ValueError ''use persist_timings for diagnostic timing updates''))
      else
        let fs = List.map (redact_field tx) upd in
        if (case map_of fs ''result_json'' of
              Some (SqlText t) \<Rightarrow> max_audit_record_bytes st < text_bytes tx (SqlText t)
            | _ \<Rightarrow> False)
        then (db, Inl (ValueError ''audit result exceeds max_audit_record_bytes''))
        else
          let gs = AList.update ''updated_at'' (SqlTime now) fs in
          case ensure_audit_capacity storage st ((\<Sum>(_, v) \<leftarrow> gs. text_bytes tx v) + 4096) db of
            (db1, Inl e) \<Rightarrow> (db1, Inl e)
          | (db1, Inr _) \<Rightarrow> (db1, Inr gs))"

definition update_operation ::
  "(audit_db \<Rightarrow> int) \<Rightarrow> audit_settings \<Rightarrow> audit_text \<Rightarrow> int \<Rightarrow> string \<Rightarrow> (string \<times> sql_value) list \<Rightarrow>
   audit_db \<Rightarrow> audit_db \<times> unit res" where
  "update_operation storage st tx now k upd db =
     (if upd = [] then (db, Inr ())
      else case prepare_update_fields storage st tx now upd db of
        (db1, Inl e) \<Rightarrow> (db1, Inl e)
      | (db1, Inr gs) \<Rightarrow>
          if row_count (\<lambda>k' _. k' = k) db1 \<noteq> 1 then (db1, Inl (KeyError ''operation not found''))
          else (update_rows (\<lambda>k' _. k' = k) (set_cols gs) db1, Inr ()))"

definition transition_operation ::
  "(audit_db \<Rightarrow> int) \<Rightarrow> audit_settings \<Rightarrow> audit_text \<Rightarrow> int \<Rightarrow> string \<Rightarrow> string list \<Rightarrow>
   (string \<times> sql_value) list \<Rightarrow> audit_db \<Rightarrow> audit_db \<times> bool res" where
  "transition_operation storage st tx now k from_statuses upd db =
     (if map_of upd ''status'' = None
      then (db, Inl (ValueError ''transition_operation requires a target status''))
      else if from_statuses = []
      then (db, Inl (ValueError ''transition_operation requires source statuses''))
      else case prepare_update_fields storage st tx now upd db of
        (db1, Inl e) \<Rightarrow> (db1, Inl e)
      | (db1, Inr gs) \<Rightarrow>
          let wh = (\<lambda>k' r. k' = k \<and> col r ''status'' \<in> SqlText ` set from_statuses) in
          (update_rows wh (set_cols gs) db1, Inr (row_count wh db1 = 1)))"

section \<open>Approvals and grants\<close>

definition is_pending :: "row \<Rightarrow> bool" where
  "is_pending r \<longleftrightarrow> col r ''approval_status'' = SqlText ''pending''"

definition expire_cols :: "int \<Rightarrow> row \<Rightarrow> row" where
  "expire_cols now =
     set_cols [(''approval_status'', SqlText ''expired''), (''status'', SqlText ''expired''),
               (''updated_at'', SqlTime now), (''finished_at'', SqlTime now),
               (''error'', SqlText ''approval request expired'')]"

definition expire_pending :: "int \<Rightarrow> audit_db \<Rightarrow> audit_db \<times> nat" where
  "expire_pending now db =
     (let wh = (\<lambda>_ r. is_pending r \<and> time_until (col r ''request_expires_at'') now);
          ids = List.map fst (List.filter (\<lambda>(k, r). wh k r) (db_rows db))
      in (foldl (\<lambda>d k. insert_event k now ''expired'' d) (update_rows wh (expire_cols now) db) ids,
          length ids))"

definition expire_one :: "string \<Rightarrow> int \<Rightarrow> audit_db \<Rightarrow> audit_db" where
  "expire_one k now =
     update_rows (\<lambda>k' r. k' = k \<and> is_pending r \<and> time_until (col r ''request_expires_at'') now)
       (expire_cols now)"

definition approvable :: "string \<Rightarrow> int \<Rightarrow> string \<Rightarrow> row \<Rightarrow> bool" where
  "approvable k now k' r \<longleftrightarrow>
     k' = k \<and> is_pending r \<and> col r ''status'' = SqlText ''pending_approval''
     \<and> time_after (col r ''request_expires_at'') now"

definition decide_approval ::
  "audit_settings \<Rightarrow> int \<Rightarrow> string \<Rightarrow> bool \<Rightarrow> string \<Rightarrow> string \<Rightarrow> audit_db \<Rightarrow> audit_db \<times> unit res" where
  "decide_approval st now k approved approver note db =
     (if row_count (approvable k now) db \<noteq> 1
      then (expire_one k now db, Inl (RuntimeError ''approval is not pending or has expired''))
      else
        let decision = (if approved then ''approved'' else ''rejected'') in
        (insert_event k now decision
           (update_rows (approvable k now)
              (\<lambda>r. set_cols
                 ([(''approval_status'', SqlText decision), (''status'', SqlText decision),
                   (''approval_by'', SqlText approver), (''approval_note'', SqlText note),
                   (''approved_at'', SqlTime now),
                   (''approval_expires_at'',
                      if approved then SqlTime (now + approval_execution_ttl st) else Null),
                   (''updated_at'', SqlTime now)]
                  @ (if approved then [] else [(''finished_at'', SqlTime now)])) r) db),
         Inr ()))"

definition approve_and_claim ::
  "audit_settings \<Rightarrow> int \<Rightarrow> string \<Rightarrow> string \<Rightarrow> string \<Rightarrow> string option \<Rightarrow> string \<Rightarrow> audit_db \<Rightarrow>
   audit_db \<times> unit res" where
  "approve_and_claim st now k approver note expected_hash owner db =
     (case ensure_job_capacity st db of
        Inl e \<Rightarrow> (db, Inl e)
      | Inr _ \<Rightarrow>
          let wh = (\<lambda>k' r. approvable k now k' r
                 \<and> (case expected_hash of None \<Rightarrow> True | Some h \<Rightarrow> col r ''request_hash'' = SqlText h)) in
          if row_count wh db \<noteq> 1
          then (expire_one k now db, Inl (RuntimeError ''approval is not pending or has expired''))
          else
            (insert_event k now ''approved_and_claimed''
               (update_rows wh
                  (set_cols
                     [(''approval_status'', SqlText ''approved''), (''status'', SqlText ''queued''),
                      (''approval_by'', SqlText approver), (''approval_note'', SqlText note),
                      (''approved_at'', SqlTime now),
                      (''approval_expires_at'', SqlTime (now + approval_execution_ttl st)),
                      (''claimed_at'', SqlTime now), (''updated_at'', SqlTime now),
                      (''execution_owner_json'', SqlText owner)]) db),
             Inr ()))"

definition granted :: "string \<Rightarrow> string \<Rightarrow> row \<Rightarrow> bool" where
  "granted k k' r \<longleftrightarrow>
     k' = k \<and> col r ''approval_status'' = SqlText ''approved'' \<and> col r ''status'' = SqlText ''approved''"

definition claim_approved ::
  "audit_settings \<Rightarrow> int \<Rightarrow> string \<Rightarrow> string \<Rightarrow> audit_db \<Rightarrow> audit_db \<times> unit res" where
  "claim_approved st now k owner db =
     (case ensure_job_capacity st db of
        Inl e \<Rightarrow> (db, Inl e)
      | Inr _ \<Rightarrow>
          let wh = (\<lambda>k' r. granted k k' r \<and> time_after (col r ''approval_expires_at'') now
                 \<and> col r ''claimed_at'' = Null) in
          if row_count wh db \<noteq> 1
          then (update_rows (\<lambda>k' r. granted k k' r \<and> time_until (col r ''approval_expires_at'') now)
                  (set_cols
                     [(''approval_status'', SqlText ''expired''), (''status'', SqlText ''expired''),
                      (''finished_at'', SqlTime now), (''updated_at'', SqlTime now),
                      (''error'', SqlText ''approval execution grant expired'')]) db,
                Inl (RuntimeError ''approval is expired, already claimed, or not approved''))
          else
            (insert_event k now ''execution_claimed''
               (update_rows wh
                  (set_cols [(''status'', SqlText ''queued''), (''claimed_at'', SqlTime now),
                             (''updated_at'', SqlTime now), (''execution_owner_json'', SqlText owner)]) db),
             Inr ()))"

section \<open>Events and timings\<close>

text \<open>
  An event that is too long is replaced by \<open>{"original_bytes":N,"truncated":true}\<close>. Foreign keys are
  enforced, so a plain event of an operation that is gone raises.
\<close>

fun decimal_length :: "nat \<Rightarrow> nat" where
  "decimal_length n = (if n < 10 then 1 else Suc (decimal_length (n div 10)))"

definition event_bytes :: "audit_settings \<Rightarrow> int \<Rightarrow> int" where
  "event_bytes st payload =
     (if max_audit_record_bytes st < payload then 36 + int (decimal_length (nat payload)) else payload)"

definition add_event ::
  "(audit_db \<Rightarrow> int) \<Rightarrow> audit_settings \<Rightarrow> int \<Rightarrow> string \<Rightarrow> string \<Rightarrow> int \<Rightarrow> int \<Rightarrow> audit_db \<Rightarrow>
   audit_db \<times> unit res" where
  "add_event storage st now k ty payload_bytes origin_bytes db =
     (if max_audit_record_bytes st < origin_bytes
      then (db, Inl (ValueError ''audit origin exceeds max_audit_record_bytes''))
      else case ensure_audit_capacity storage st (event_bytes st payload_bytes + origin_bytes + 4096) db of
        (db1, Inl e) \<Rightarrow> (db1, Inl e)
      | (db1, Inr _) \<Rightarrow>
          if map_of (db_rows db1) k = None
          then (db1, Inl (RuntimeError ''FOREIGN KEY constraint failed''))
          else (insert_event k now ty db1, Inr ()))"

definition add_event_if_operation_exists ::
  "(audit_db \<Rightarrow> int) \<Rightarrow> audit_settings \<Rightarrow> int \<Rightarrow> string \<Rightarrow> string \<Rightarrow> int \<Rightarrow> int \<Rightarrow> audit_db \<Rightarrow>
   audit_db \<times> bool res" where
  "add_event_if_operation_exists storage st now k ty payload_bytes origin_bytes db =
     (if max_audit_record_bytes st < origin_bytes
      then (db, Inl (ValueError ''audit origin exceeds max_audit_record_bytes''))
      else case ensure_audit_capacity storage st (event_bytes st payload_bytes + origin_bytes + 4096) db of
        (db1, Inl e) \<Rightarrow> (db1, Inl e)
      | (db1, Inr _) \<Rightarrow>
          if map_of (db_rows db1) k = None then (db1, Inr False)
          else (insert_event k now ty db1, Inr True))"

text \<open>
  Timings are decoded and encoded again by the tracing module; \<open>timing\<close> is its result, the encoded
  text, its size and the total in nanoseconds.
\<close>

definition persist_timings ::
  "(audit_db \<Rightarrow> int) \<Rightarrow> audit_settings \<Rightarrow> string \<Rightarrow> (string \<times> int \<times> int) res \<Rightarrow> int \<Rightarrow> audit_db \<Rightarrow>
   audit_db \<times> unit res" where
  "persist_timings storage st k timing duration db =
     (case timing of Inl e \<Rightarrow> (db, Inl e) | Inr (encoded, bytes, total_ns) \<Rightarrow>
      if duration \<noteq> total_ns div 1000000
      then (db, Inl (ValueError ''duration_ms does not match timing total''))
      else if max_audit_record_bytes st < bytes
      then (db, Inl (ValueError ''audit timing exceeds max_audit_record_bytes''))
      else case ensure_audit_capacity storage st (bytes + 4096) db of
        (db1, Inl e) \<Rightarrow> (db1, Inl e)
      | (db1, Inr _) \<Rightarrow>
          if row_count (\<lambda>k' _. k' = k) db1 \<noteq> 1 then (db1, Inl (KeyError ''operation not found''))
          else (update_rows (\<lambda>k' _. k' = k)
                  (set_cols [(''timing_json'', SqlText encoded), (''duration_ms'', SqlInt duration)]) db1,
                Inr ()))"

section \<open>Listings\<close>

definition clamp_limit :: "int \<Rightarrow> nat" where
  "clamp_limit limit = nat (max 1 (min limit 500))"

text \<open>An empty status filter is no filter; an empty session or task is.\<close>

definition list_operations ::
  "int \<Rightarrow> string option \<Rightarrow> string option \<Rightarrow> string option \<Rightarrow> string option \<Rightarrow> audit_db \<Rightarrow>
   (string \<times> row) list" where
  "list_operations limit status approval session task db =
     (let truthy = (\<lambda>f c r. case f of None \<Rightarrow> True | Some v \<Rightarrow> v = [] \<or> col r c = SqlText v);
          exact = (\<lambda>f c r. case f of None \<Rightarrow> True | Some v \<Rightarrow> col r c = SqlText v)
      in take (clamp_limit limit)
           (rev (sort_key (\<lambda>(_, r). sort_time (col r ''created_at''))
             (List.filter (\<lambda>(_, r). truthy status ''status'' r \<and> truthy approval ''approval_status'' r
                 \<and> exact session ''session_id'' r \<and> exact task ''task_id'' r) (db_rows db)))))"

definition list_active_operations :: "audit_db \<Rightarrow> (string \<times> row) list" where
  "list_active_operations db =
     sort_key (\<lambda>(_, r). sort_time (col r ''created_at'')) (List.filter (\<lambda>(_, r). is_active r) (db_rows db))"

definition list_pending_approvals :: "int \<Rightarrow> int \<Rightarrow> audit_db \<Rightarrow> audit_db \<times> (string \<times> row) list" where
  "list_pending_approvals now limit db =
     (let db1 = fst (expire_pending now db) in
      (db1, take (clamp_limit limit)
        (sort_key (\<lambda>(_, r). sort_time (col r ''created_at''))
          (List.filter (\<lambda>(_, r). is_pending r \<and> col r ''status'' = SqlText ''pending_approval'') (db_rows db1)))))"

definition latest_workspace_checkpoint :: "audit_db \<Rightarrow> (string \<times> row) option" where
  "latest_workspace_checkpoint db =
     (case rev (sort_key (\<lambda>(_, r). (sort_time (col r ''finished_at''), sort_time (col r ''created_at'')))
        (List.filter (\<lambda>(_, r). col r ''post_workspace_path'' \<noteq> Null \<and> col r ''finished_at'' \<noteq> Null)
          (db_rows db))) of
        [] \<Rightarrow> None
      | x # _ \<Rightarrow> Some x)"

section \<open>Reading and writing columns\<close>

lemma col_update [simp]: "col (AList.update c v r) c' = (if c' = c then v else col r c')"
  by (simp add: col_def update_conv')

lemma set_cols_Nil [simp]: "set_cols [] r = r"
  by (simp add: set_cols_def)

lemma set_cols_Cons [simp]: "set_cols ((c, v) # cs) r = set_cols cs (AList.update c v r)"
  by (simp add: set_cols_def)

lemma col_set_cols:
  "distinct (List.map fst gs) \<Longrightarrow>
     col (set_cols gs r) c = (case map_of gs c of Some v \<Rightarrow> v | None \<Rightarrow> col r c)"
proof (induction gs arbitrary: r)
  case Nil
  then show ?case by simp
next
  case (Cons g gs)
  obtain d v where g: "g = (d, v)" by (cases g)
  have "map_of gs d = None" using Cons.prems g by (auto simp: map_of_eq_None_iff)
  then show ?case using Cons g by (auto split: option.splits)
qed

lemma update_rows_map_of:
  "map_of (db_rows (update_rows wh f db)) k = map_option (\<lambda>r. if wh k r then f r else r) (map_of (db_rows db) k)"
proof -
  have "map_of (List.map (\<lambda>(k, r). (k, if wh k r then f r else r)) rs) k
      = map_option (\<lambda>r. if wh k r then f r else r) (map_of rs k)" for rs
    by (induction rs) auto
  then show ?thesis by (simp add: update_rows_def)
qed

lemma update_rows_keys [simp]: "List.map fst (db_rows (update_rows wh f db)) = List.map fst (db_rows db)"
  by (simp add: update_rows_def comp_def case_prod_unfold)

lemma insert_event_rows [simp]: "db_rows (insert_event k now ty db) = db_rows db"
  by (simp add: insert_event_def)

lemma insert_events_rows [simp]: "db_rows (foldl (\<lambda>d k. insert_event k now ty d) db ids) = db_rows db"
  by (induction ids arbitrary: db) simp_all

lemma filter_keys_map_of:
  "map_of (List.filter (\<lambda>(k, _). P k) rs) k = (if P k then map_of rs k else None)"
  by (induction rs) auto

lemma row_count_one:
  assumes "row_count wh db = 1" and "distinct (List.map fst (db_rows db))"
    and "\<And>k' r. wh k' r \<Longrightarrow> k' = k"
  shows "\<exists>r. map_of (db_rows db) k = Some r \<and> wh k r"
proof -
  have "List.filter (\<lambda>(k, r). wh k r) (db_rows db) \<noteq> []"
    using assms(1) by (auto simp: row_count_def)
  then obtain k' r where "(k', r) \<in> set (db_rows db)" "wh k' r"
    by (auto simp: filter_empty_conv)
  then show ?thesis using assms(2,3) map_of_is_SomeI by fastforce
qed

section \<open>Retention never touches a live operation\<close>

definition pruned :: "audit_db \<Rightarrow> audit_db \<Rightarrow> bool" where
  "pruned db db' \<longleftrightarrow>
     (\<exists>P. db_rows db' = List.filter (\<lambda>(k, _). P k) (db_rows db)
        \<and> (\<forall>k. map_of (db_rows db) k \<noteq> None \<longrightarrow> P k \<or> (\<exists>r. (k, r) \<in> set (db_rows db) \<and> is_terminal r)))"

lemma pruned_refl: "pruned db db"
  unfolding pruned_def by (intro exI [of _ "\<lambda>_. True"]) auto

lemma pruned_trans: "pruned db db1 \<Longrightarrow> pruned db1 db2 \<Longrightarrow> pruned db db2"
proof -
  assume "pruned db db1" "pruned db1 db2"
  then obtain P Q where p: "db_rows db1 = List.filter (\<lambda>(k, _). P k) (db_rows db)"
      "\<forall>k. map_of (db_rows db) k \<noteq> None \<longrightarrow> P k \<or> (\<exists>r. (k, r) \<in> set (db_rows db) \<and> is_terminal r)"
    and q: "db_rows db2 = List.filter (\<lambda>(k, _). Q k) (db_rows db1)"
      "\<forall>k. map_of (db_rows db1) k \<noteq> None \<longrightarrow> Q k \<or> (\<exists>r. (k, r) \<in> set (db_rows db1) \<and> is_terminal r)"
    unfolding pruned_def by blast
  have "db_rows db2 = List.filter (\<lambda>(k, _). P k \<and> Q k) (db_rows db)"
    unfolding q(1) p(1) by (simp add: case_prod_unfold)
  moreover have "(P k \<and> Q k) \<or> (\<exists>r. (k, r) \<in> set (db_rows db) \<and> is_terminal r)"
    if "map_of (db_rows db) k \<noteq> None" for k
    using p q that filter_keys_map_of [of P "db_rows db" k] by fastforce
  ultimately show ?thesis unfolding pruned_def by (intro exI [of _ "\<lambda>k. P k \<and> Q k"]) blast
qed

lemma pruned_delete:
  assumes "set ids \<subseteq> set (List.map fst (terminal_rows db))"
  shows "pruned db (delete_rows ids db)"
  unfolding pruned_def
proof (intro exI [of _ "\<lambda>k. k \<notin> set ids"] conjI allI impI)
  show "db_rows (delete_rows ids db) = List.filter (\<lambda>(k, _). k \<notin> set ids) (db_rows db)"
    by (simp add: delete_rows_def)
  fix k
  show "k \<notin> set ids \<or> (\<exists>r. (k, r) \<in> set (db_rows db) \<and> is_terminal r)"
    using assms by (force simp: terminal_rows_def)
qed

lemma pruned_database: "pruned db (prune_database st db)"
proof -
  have s: "set (drop n (rev (sort_key f xs))) \<subseteq> set xs"
    for n and f :: "string \<times> row \<Rightarrow> int \<times> int" and xs
    using set_drop_subset by fastforce
  show ?thesis unfolding prune_database_def by (rule pruned_delete) (unfold set_map, intro image_mono s)
qed

lemma oldest_terminal_subset: "set (oldest_terminal db) \<subseteq> set (List.map fst (terminal_rows db))"
proof -
  have "set (take n (sort_key f xs)) \<subseteq> set xs" for n f and xs :: "(string \<times> row) list"
    using set_take_subset by fastforce
  then show ?thesis unfolding oldest_terminal_def set_map by (intro image_mono)
qed

lemma capacity_rounds_pruned:
  "capacity_rounds storage budget incoming n db = (db', r) \<Longrightarrow>
     pruned db db' \<and> (r = Inr () \<longrightarrow> storage db' + incoming \<le> budget)"
proof (induction n arbitrary: db)
  case 0
  then show ?case using pruned_refl by (auto split: if_splits)
next
  case (Suc n)
  consider "db' = db" "r = Inr () \<longrightarrow> storage db + incoming \<le> budget"
    | "capacity_rounds storage budget incoming n (delete_rows (oldest_terminal db) db) = (db', r)"
    using Suc.prems by (auto split: if_splits)
  then show ?case
  proof cases
    case 1
    then show ?thesis using pruned_refl by simp
  next
    case 2
    show ?thesis
      using Suc.IH [OF 2] pruned_trans [OF pruned_delete [OF oldest_terminal_subset]] by blast
  qed
qed

lemma ensure_audit_capacity_pruned:
  "ensure_audit_capacity storage st incoming db = (db', r) \<Longrightarrow>
     pruned db db' \<and> (r = Inr () \<longrightarrow> storage db' + incoming \<le> audit_budget st)"
proof -
  assume a: "ensure_audit_capacity storage st incoming db = (db', r)"
  show ?thesis
  proof (cases "storage db + incoming \<le> audit_budget st")
    case True
    then show ?thesis using a pruned_refl by (simp add: ensure_audit_capacity_def)
  next
    case False
    then have "capacity_rounds storage (audit_budget st) incoming 20 (prune_database st db) = (db', r)"
      using a by (simp add: ensure_audit_capacity_def)
    then show ?thesis using capacity_rounds_pruned pruned_trans [OF pruned_database] by blast
  qed
qed

lemma pruned_row:
  assumes "pruned db db'" and "distinct (List.map fst (db_rows db))"
  shows "map_of (db_rows db') k = map_of (db_rows db) k
    \<or> map_of (db_rows db') k = None \<and> (\<exists>r. map_of (db_rows db) k = Some r \<and> is_terminal r)"
proof -
  obtain P where p: "db_rows db' = List.filter (\<lambda>(k, _). P k) (db_rows db)"
      "\<forall>k. map_of (db_rows db) k \<noteq> None \<longrightarrow> P k \<or> (\<exists>r. (k, r) \<in> set (db_rows db) \<and> is_terminal r)"
    using assms(1) unfolding pruned_def by blast
  show ?thesis
    using p filter_keys_map_of [of P "db_rows db" k] map_of_is_SomeI [OF assms(2)]
    by (cases "map_of (db_rows db) k") auto
qed

lemma pruned_distinct: "pruned db db' \<Longrightarrow> distinct (List.map fst (db_rows db)) \<Longrightarrow> distinct (List.map fst (db_rows db'))"
  by (auto simp: pruned_def distinct_map_filter)

text \<open>
  Making room for an audit record never drops an operation that is not terminal, changes no
  row it keeps, and when it succeeds the record fits the storage budget.
\<close>

theorem audit_capacity_keeps_live_operations:
  assumes "ensure_audit_capacity storage st incoming db = (db', r)"
    and "distinct (List.map fst (db_rows db))" and "map_of (db_rows db) k = Some row"
  shows "(map_of (db_rows db') k = Some row \<or> map_of (db_rows db') k = None \<and> is_terminal row)
    \<and> (r = Inr () \<longrightarrow> storage db' + incoming \<le> audit_budget st)"
  using pruned_row [of db db' k] ensure_audit_capacity_pruned [OF assms(1)] assms(2,3) by auto

section \<open>Calls\<close>

declare map_of_eq_Some_iff [simp del] Some_eq_map_of_iff [simp del]

datatype audit_call =
    CallCreate int new_operation
  | CallUpdate int string "(string \<times> sql_value) list"
  | CallTransition int string "string list" "(string \<times> sql_value) list"
  | CallExpire int
  | CallDecide int string bool string string
  | CallApproveClaim int string string string "string option" string
  | CallClaim int string string
  | CallEvent int string string int int
  | CallEventIfExists int string string int int
  | CallTimings string "(string \<times> int \<times> int) res" int

record audit_env =
  en_storage :: "audit_db \<Rightarrow> int"
  en_settings :: audit_settings
  en_text :: audit_text

fun audit_step :: "audit_env \<Rightarrow> audit_call \<Rightarrow> audit_db \<Rightarrow> audit_db \<times> bool" where
  "audit_step en (CallCreate now n) db =
     (let (d, r) = create_operation (en_storage en) (en_settings en) now n db in (d, r \<in> range Inr))"
| "audit_step en (CallUpdate now k upd) db =
     (let (d, r) = update_operation (en_storage en) (en_settings en) (en_text en) now k upd db
      in (d, r = Inr ()))"
| "audit_step en (CallTransition now k frm upd) db =
     (let (d, r) = transition_operation (en_storage en) (en_settings en) (en_text en) now k frm upd db
      in (d, r = Inr True))"
| "audit_step en (CallExpire now) db = (fst (expire_pending now db), True)"
| "audit_step en (CallDecide now k approved approver note) db =
     (let (d, r) = decide_approval (en_settings en) now k approved approver note db in (d, r = Inr ()))"
| "audit_step en (CallApproveClaim now k approver note h owner) db =
     (let (d, r) = approve_and_claim (en_settings en) now k approver note h owner db in (d, r = Inr ()))"
| "audit_step en (CallClaim now k owner) db =
     (let (d, r) = claim_approved (en_settings en) now k owner db in (d, r = Inr ()))"
| "audit_step en (CallEvent now k ty p q) db =
     (let (d, r) = add_event (en_storage en) (en_settings en) now k ty p q db in (d, r = Inr ()))"
| "audit_step en (CallEventIfExists now k ty p q) db =
     (let (d, r) = add_event_if_operation_exists (en_storage en) (en_settings en) now k ty p q db
      in (d, r = Inr True))"
| "audit_step en (CallTimings k timing duration) db =
     (let (d, r) = persist_timings (en_storage en) (en_settings en) k timing duration db
      in (d, r = Inr ()))"

text \<open>
  What no caller of the store writes: the column \<open>claimed_at\<close> (only \<open>audit.py\<close> does), and the statuses
  \<open>approved\<close> and \<open>pending_approval\<close> of an operation that exists (only a decision sets the first and only
  the creation of a request the second). Everything else is free: a caller may take an operation out of
  a terminal status, as \<open>workspace_operations.py\<close> does with \<open>succeeded\<close>, or set the status without a look
  at the old one, as \<open>context_read.py\<close> does. The names of the columns are keywords of one call, so they
  are distinct.
\<close>

definition lifecycle_columns :: "string list" where
  "lifecycle_columns = [''status'', ''approval_status'', ''claimed_at'']"

definition grantable_statuses :: "string list" where
  "grantable_statuses = [''approved'', ''pending_approval'']"

definition regrants :: "(string \<times> sql_value) list \<Rightarrow> bool" where
  "regrants upd \<longleftrightarrow>
     map_of upd ''claimed_at'' \<noteq> None
     \<or> (case map_of upd ''status'' of None \<Rightarrow> False | Some v \<Rightarrow> v \<in> SqlText ` set grantable_statuses)"

fun keeps_grants :: "audit_call \<Rightarrow> bool" where
  "keeps_grants (CallCreate now n) \<longleftrightarrow> map_of (no_columns n) ''claimed_at'' = None"
| "keeps_grants (CallUpdate now k upd) \<longleftrightarrow> distinct (List.map fst upd) \<and> \<not> regrants upd"
| "keeps_grants (CallTransition now k frm upd) \<longleftrightarrow> distinct (List.map fst upd) \<and> \<not> regrants upd"
| "keeps_grants _ \<longleftrightarrow> True"

definition sound_row :: "row \<Rightarrow> bool" where
  "sound_row r \<longleftrightarrow>
     (col r ''claimed_at'' \<noteq> Null \<longrightarrow> col r ''status'' \<notin> SqlText ` set grantable_statuses)"

definition sound_db :: "audit_db \<Rightarrow> bool" where
  "sound_db db \<longleftrightarrow>
     distinct (List.map fst (db_rows db)) \<and> (\<forall>k r. map_of (db_rows db) k = Some r \<longrightarrow> sound_row r)"

text \<open>What one call may do to the row of an operation that exists.\<close>

definition row_step :: "row \<Rightarrow> row \<Rightarrow> bool" where
  "row_step r r' \<longleftrightarrow>
     sound_row r'
     \<and> (col r ''claimed_at'' \<noteq> Null \<longrightarrow> col r' ''claimed_at'' = col r ''claimed_at'')"

definition db_step :: "audit_db \<Rightarrow> audit_db \<Rightarrow> bool" where
  "db_step db db' \<longleftrightarrow>
     distinct (List.map fst (db_rows db'))
     \<and> (\<forall>k. map_of (db_rows db) k = None \<longrightarrow> map_of (db_rows db') k = None)
     \<and> (\<forall>k r. map_of (db_rows db) k = Some r \<longrightarrow>
          (map_of (db_rows db') k = None \<and> is_terminal r)
          \<or> (\<exists>r'. map_of (db_rows db') k = Some r' \<and> row_step r r'))"

lemma row_step_refl: "sound_row r \<Longrightarrow> row_step r r"
  by (simp add: row_step_def)

lemma pruned_step:
  assumes "pruned db db'" and "sound_db db"
  shows "db_step db db' \<and> sound_db db'"
proof -
  have d: "distinct (List.map fst (db_rows db))" using assms(2) by (simp add: sound_db_def)
  note p = pruned_row [OF assms(1) d]
  have "map_of (db_rows db') k = Some r \<Longrightarrow> map_of (db_rows db) k = Some r" for k r
    using p [of k] by auto
  then have "sound_db db'"
    using assms(2) pruned_distinct [OF assms(1) d] unfolding sound_db_def by blast
  moreover have "db_step db db'"
    unfolding db_step_def
  proof (intro conjI allI impI)
    show "distinct (List.map fst (db_rows db'))" using pruned_distinct [OF assms(1) d] .
    show "map_of (db_rows db') k = None" if "map_of (db_rows db) k = None" for k
      using p [of k] that by auto
    fix k r assume r: "map_of (db_rows db) k = Some r"
    then have "sound_row r" using assms(2) by (auto simp: sound_db_def)
    then show "(map_of (db_rows db') k = None \<and> is_terminal r)
          \<or> (\<exists>r'. map_of (db_rows db') k = Some r' \<and> row_step r r')"
      using p [of k] r row_step_refl by auto
  qed
  ultimately show ?thesis by blast
qed

lemma update_step:
  assumes "sound_db db" and "\<And>k r. wh k r \<Longrightarrow> sound_row r \<Longrightarrow> row_step r (f r)"
  shows "db_step db (update_rows wh f db)"
  using assms unfolding db_step_def sound_db_def by (auto simp: update_rows_map_of intro: row_step_refl)

lemma db_step_sound:
  assumes "db_step db db'" "sound_db db"
  shows "sound_db db'"
  unfolding sound_db_def
proof (intro conjI allI impI)
  show "distinct (List.map fst (db_rows db'))" using assms(1) by (simp add: db_step_def)
  fix k r assume r: "map_of (db_rows db') k = Some r"
  show "sound_row r"
  proof (cases "map_of (db_rows db) k")
    case None
    then show ?thesis using assms(1) r unfolding db_step_def by auto
  next
    case (Some q)
    then show ?thesis using assms(1) r unfolding db_step_def row_step_def
      by (metis option.distinct(1) option.inject)
  qed
qed

lemma db_step_events [simp]: "db_step db (insert_event k now ty d) = db_step db d"
  by (simp add: db_step_def)

lemma db_step_insert_events [simp]:
  "db_step db (foldl (\<lambda>d k. insert_event k now ty d) d ids) = db_step db d"
  unfolding db_step_def insert_events_rows by (rule refl)

lemma row_step_leaves:
  assumes "col r' ''status'' \<notin> SqlText ` set grantable_statuses \<or> col r' ''claimed_at'' = Null"
    and "col r ''claimed_at'' \<noteq> Null \<longrightarrow> col r' ''claimed_at'' = col r ''claimed_at''"
  shows "row_step r r'"
  using assms by (auto simp: row_step_def sound_row_def)

lemma expire_step: "sound_row r \<Longrightarrow> row_step r (expire_cols now r)"
  by (rule row_step_leaves) (auto simp: expire_cols_def grantable_statuses_def)

lemma expire_pending_step: "sound_db db \<Longrightarrow> db_step db (fst (expire_pending now db))"
  unfolding expire_pending_def Let_def fst_conv
proof -
  assume s: "sound_db db"
  have "db_step db (update_rows (\<lambda>_ r. is_pending r \<and> time_until (col r ''request_expires_at'') now)
      (expire_cols now) db)"
    using s by (rule update_step) (auto intro: expire_step)
  then show "db_step db (foldl (\<lambda>d k. insert_event k now ''expired'' d)
      (update_rows (\<lambda>_ r. is_pending r \<and> time_until (col r ''request_expires_at'') now) (expire_cols now) db)
      (List.map fst (List.filter (\<lambda>(k, r). is_pending r \<and> time_until (col r ''request_expires_at'') now) (db_rows db))))"
    by (simp only: db_step_insert_events)
qed

lemma expire_one_step: "sound_db db \<Longrightarrow> db_step db (expire_one k now db)"
  unfolding expire_one_def by (rule update_step) (auto intro: expire_step)

lemma decide_step: "sound_db db \<Longrightarrow> db_step db (fst (decide_approval st now k approved approver note db))"
proof -
  assume s: "sound_db db"
  let ?d = "if approved then ''approved'' else ''rejected''"
  let ?f = "\<lambda>r. set_cols
                 ([(''approval_status'', SqlText ?d), (''status'', SqlText ?d),
                   (''approval_by'', SqlText approver), (''approval_note'', SqlText note),
                   (''approved_at'', SqlTime now),
                   (''approval_expires_at'',
                      if approved then SqlTime (now + approval_execution_ttl st) else Null),
                   (''updated_at'', SqlTime now)]
                  @ (if approved then [] else [(''finished_at'', SqlTime now)])) r"
  have "db_step db (update_rows (approvable k now) ?f db)"
  proof (rule update_step [OF s])
    fix k' r assume a: "approvable k now k' r" and r: "sound_row r"
    then have "col r ''claimed_at'' = Null" by (auto simp: approvable_def sound_row_def grantable_statuses_def)
    then show "row_step r (?f r)" using r
      by (intro row_step_leaves) (auto simp: grantable_statuses_def)
  qed
  then show ?thesis using expire_one_step [OF s]
    by (auto simp: decide_approval_def Let_def)
qed

lemma approve_claim_step:
  "sound_db db \<Longrightarrow> db_step db (fst (approve_and_claim st now k approver note h owner db))"
proof -
  assume s: "sound_db db"
  let ?wh = "\<lambda>k' r. approvable k now k' r
                 \<and> (case h of None \<Rightarrow> True | Some h \<Rightarrow> col r ''request_hash'' = SqlText h)"
  let ?f = "set_cols
                     [(''approval_status'', SqlText ''approved''), (''status'', SqlText ''queued''),
                      (''approval_by'', SqlText approver), (''approval_note'', SqlText note),
                      (''approved_at'', SqlTime now),
                      (''approval_expires_at'', SqlTime (now + approval_execution_ttl st)),
                      (''claimed_at'', SqlTime now), (''updated_at'', SqlTime now),
                      (''execution_owner_json'', SqlText owner)]"
  have "db_step db (update_rows ?wh ?f db)"
  proof (rule update_step [OF s])
    fix k' r assume a: "?wh k' r" and r: "sound_row r"
    then have "col r ''claimed_at'' = Null" by (auto simp: approvable_def sound_row_def grantable_statuses_def)
    then show "row_step r (?f r)" using r
      by (intro row_step_leaves) (auto simp: grantable_statuses_def)
  qed
  moreover have "db_step db db" by (rule pruned_step [OF pruned_refl s, THEN conjunct1])
  ultimately show ?thesis using expire_one_step [OF s]
    by (auto simp: approve_and_claim_def Let_def split: sum.splits)
qed

lemma claim_step: "sound_db db \<Longrightarrow> db_step db (fst (claim_approved st now k owner db))"
proof -
  assume s: "sound_db db"
  let ?wh = "\<lambda>k' r. granted k k' r \<and> time_after (col r ''approval_expires_at'') now \<and> col r ''claimed_at'' = Null"
  let ?f = "set_cols [(''status'', SqlText ''queued''), (''claimed_at'', SqlTime now),
                             (''updated_at'', SqlTime now), (''execution_owner_json'', SqlText owner)]"
  have "db_step db (update_rows ?wh ?f db)"
    using s by (rule update_step, intro row_step_leaves) (auto simp: granted_def grantable_statuses_def)
  moreover have "db_step db (update_rows (\<lambda>k' r. granted k k' r \<and> time_until (col r ''approval_expires_at'') now)
                  (set_cols
                     [(''approval_status'', SqlText ''expired''), (''status'', SqlText ''expired''),
                      (''finished_at'', SqlTime now), (''updated_at'', SqlTime now),
                      (''error'', SqlText ''approval execution grant expired'')]) db)"
    using s by (rule update_step, intro row_step_leaves) (auto simp: granted_def grantable_statuses_def)
  moreover have "db_step db db" by (rule pruned_step [OF pruned_refl s, THEN conjunct1])
  ultimately show ?thesis
    by (auto simp: claim_approved_def Let_def split: sum.splits)
qed

lemma redact_field_fst [simp]: "fst (redact_field tx f) = fst f"
  by (auto simp: redact_field_def split: prod.splits sql_value.splits)

lemma redact_fields_map_of:
  assumes "c \<noteq> ''error''" "c \<noteq> ''result_json''"
  shows "map_of (List.map (redact_field tx) upd) c = map_of upd c"
proof (induction upd)
  case Nil
  then show ?case by simp
next
  case (Cons f upd)
  obtain n v where f: "f = (n, v)" by (cases f)
  show ?case using Cons assms by (cases v) (auto simp: f redact_field_def)
qed

lemma prepare_update_fields_Inr:
  assumes "prepare_update_fields storage st tx now upd db = (db1, r)"
  shows "pruned db db1 \<and> (\<forall>gs. r = Inr gs \<longrightarrow> distinct (List.map fst upd) \<longrightarrow>
     distinct (List.map fst gs) \<and> (\<forall>c\<in>set lifecycle_columns. map_of gs c = map_of upd c))"
proof -
  let ?fs = "List.map (redact_field tx) upd"
  let ?gs = "AList.update ''updated_at'' (SqlTime now) ?fs"
  consider "db1 = db" "\<exists>e. r = Inl e"
    | e where "ensure_audit_capacity storage st ((\<Sum>(_, v) \<leftarrow> ?gs. text_bytes tx v) + 4096) db = (db1, Inl e)"
        "r = Inl e"
    | u where "ensure_audit_capacity storage st ((\<Sum>(_, v) \<leftarrow> ?gs. text_bytes tx v) + 4096) db = (db1, Inr u)"
        "r = Inr ?gs"
    using assms unfolding prepare_update_fields_def Let_def
    by (auto split: sum.splits if_splits prod.splits)
  then show ?thesis
  proof cases
    case 1
    then show ?thesis using pruned_refl by auto
  next
    case 2
    then show ?thesis using ensure_audit_capacity_pruned by blast
  next
    case 3
    have "distinct (List.map fst upd) \<longrightarrow> distinct (List.map fst ?gs)"
      by (simp add: distinct_update comp_def)
    moreover have "\<forall>c\<in>set lifecycle_columns. map_of ?gs c = map_of upd c"
      by (auto simp: lifecycle_columns_def update_conv' redact_fields_map_of)
    ultimately show ?thesis using 3 ensure_audit_capacity_pruned by blast
  qed
qed

lemma db_step_trans_pruned:
  assumes "pruned db db1" "sound_db db" "db_step db1 db2"
  shows "db_step db db2"
proof -
  have n: "map_of (db_rows db1) k = None \<Longrightarrow> map_of (db_rows db2) k = None" for k
    using assms(3) unfolding db_step_def by blast
  have d: "distinct (List.map fst (db_rows db))" using assms(2) by (simp add: sound_db_def)
  show ?thesis
    unfolding db_step_def
  proof (intro conjI allI impI)
    show "distinct (List.map fst (db_rows db2))" using assms(3) by (simp add: db_step_def)
    show "map_of (db_rows db2) k = None" if "map_of (db_rows db) k = None" for k
      using pruned_row [OF assms(1) d, of k] that n by auto
    fix k r assume r: "map_of (db_rows db) k = Some r"
    consider "map_of (db_rows db1) k = Some r" | "map_of (db_rows db1) k = None" "is_terminal r"
      using pruned_row [OF assms(1) d, of k] r by (metis option.inject)
    then show "map_of (db_rows db2) k = None \<and> is_terminal r
          \<or> (\<exists>r'. map_of (db_rows db2) k = Some r' \<and> row_step r r')"
    proof cases
      case 1
      then show ?thesis using assms(3) unfolding db_step_def by blast
    next
      case 2
      then show ?thesis using n by blast
    qed
  qed
qed

lemma add_event_step: "sound_db db \<Longrightarrow> db_step db (fst (add_event storage st now k ty p q db))"
proof -
  assume s: "sound_db db"
  obtain db1 r where e: "ensure_audit_capacity storage st (event_bytes st p + q + 4096) db = (db1, r)"
    by (cases "ensure_audit_capacity storage st (event_bytes st p + q + 4096) db")
  have "db_step db db" "db_step db db1"
    using pruned_step [OF pruned_refl s] pruned_step [OF _ s] ensure_audit_capacity_pruned [OF e] by blast+
  then show ?thesis using e by (cases r) (simp_all add: add_event_def)
qed

lemma add_event_if_step:
  "sound_db db \<Longrightarrow> db_step db (fst (add_event_if_operation_exists storage st now k ty p q db))"
proof -
  assume s: "sound_db db"
  obtain db1 r where e: "ensure_audit_capacity storage st (event_bytes st p + q + 4096) db = (db1, r)"
    by (cases "ensure_audit_capacity storage st (event_bytes st p + q + 4096) db")
  have "db_step db db" "db_step db db1"
    using pruned_step [OF pruned_refl s] pruned_step [OF _ s] ensure_audit_capacity_pruned [OF e] by blast+
  then show ?thesis using e by (cases r) (simp_all add: add_event_if_operation_exists_def)
qed

lemma timings_step: "sound_db db \<Longrightarrow> db_step db (fst (persist_timings storage st k timing duration db))"
proof -
  assume s: "sound_db db"
  have refl: "db_step db db" using pruned_step [OF pruned_refl s] by blast
  show ?thesis
  proof (cases timing)
    case (Inl e)
    then show ?thesis using refl by (simp add: persist_timings_def)
  next
    case (Inr t)
    obtain encoded bytes total where t: "t = (encoded, bytes, total)" by (cases t)
    obtain db1 r where e: "ensure_audit_capacity storage st (bytes + 4096) db = (db1, r)"
      by (cases "ensure_audit_capacity storage st (bytes + 4096) db")
    have p: "pruned db db1" using ensure_audit_capacity_pruned [OF e] by blast
    have db1: "db_step db db1" "sound_db db1" using pruned_step [OF p s] by blast+
    let ?f = "set_cols [(''timing_json'', SqlText encoded), (''duration_ms'', SqlInt duration)]"
    have "row_step x (?f x)" if "sound_row x" for x
      using that by (simp add: row_step_def sound_row_def)
    then have "db_step db1 (update_rows (\<lambda>k' _. k' = k) ?f db1)"
      by (intro update_step [OF db1(2)])
    then have "db_step db (update_rows (\<lambda>k' _. k' = k) ?f db1)"
      by (rule db_step_trans_pruned [OF p s])
    then show ?thesis using e refl db1 Inr t by (cases r) (auto simp: persist_timings_def)
  qed
qed

lemma written_row_step:
  assumes "sound_row q" "distinct (List.map fst gs)" "\<forall>c\<in>set lifecycle_columns. map_of gs c = map_of upd c"
    and "\<not> regrants upd"
  shows "row_step q (set_cols gs q)"
proof -
  have m: "map_of gs ''claimed_at'' = None" "map_of gs ''status'' = map_of upd ''status''"
    using assms(3,4) by (auto simp: lifecycle_columns_def regrants_def)
  have c: "col (set_cols gs q) ''claimed_at'' = col q ''claimed_at''"
    using m(1) by (simp add: col_set_cols [OF assms(2)])
  have st: "col (set_cols gs q) ''status'' = (case map_of upd ''status'' of Some v \<Rightarrow> v | None \<Rightarrow> col q ''status'')"
    using m(2) by (simp add: col_set_cols [OF assms(2)])
  show ?thesis
  proof (cases "map_of upd ''status''")
    case None
    then show ?thesis using assms(1) c st by (simp add: row_step_def sound_row_def)
  next
    case (Some v)
    then have "v \<notin> SqlText ` set grantable_statuses" using assms(4) by (auto simp: regrants_def)
    then show ?thesis using Some c st by (intro row_step_leaves) simp_all
  qed
qed

lemma update_call_step:
  assumes "sound_db db" "keeps_grants (CallUpdate now k upd)"
  shows "db_step db (fst (update_operation storage st tx now k upd db))"
proof -
  have refl: "db_step db db" by (rule pruned_step [OF pruned_refl assms(1), THEN conjunct1])
  obtain db1 r where p: "prepare_update_fields storage st tx now upd db = (db1, r)"
    by (cases "prepare_update_fields storage st tx now upd db")
  note pr = prepare_update_fields_Inr [OF p]
  have db1: "db_step db db1" "sound_db db1" using pruned_step [OF _ assms(1)] pr by blast+
  show ?thesis
  proof (cases r)
    case (Inl e)
    then show ?thesis using p db1 refl by (simp add: update_operation_def)
  next
    case (Inr gs)
    have g: "distinct (List.map fst gs)" "\<forall>c\<in>set lifecycle_columns. map_of gs c = map_of upd c"
      using pr Inr assms(2) by auto
    have "row_step q (set_cols gs q)" if "sound_row q" for q
      using written_row_step [OF that g] assms(2) by simp
    then have "db_step db1 (update_rows (\<lambda>k' _. k' = k) (set_cols gs) db1)"
      by (intro update_step [OF db1(2)])
    then have "db_step db (update_rows (\<lambda>k' _. k' = k) (set_cols gs) db1)"
      using db_step_trans_pruned [OF _ assms(1)] pr by blast
    then show ?thesis using p Inr db1 refl by (simp add: update_operation_def)
  qed
qed

lemma transition_call_step:
  assumes "sound_db db" "keeps_grants (CallTransition now k frm upd)"
  shows "db_step db (fst (transition_operation storage st tx now k frm upd db))"
proof -
  have refl: "db_step db db" by (rule pruned_step [OF pruned_refl assms(1), THEN conjunct1])
  obtain db1 r where p: "prepare_update_fields storage st tx now upd db = (db1, r)"
    by (cases "prepare_update_fields storage st tx now upd db")
  note pr = prepare_update_fields_Inr [OF p]
  have db1: "db_step db db1" "sound_db db1" using pruned_step [OF _ assms(1)] pr by blast+
  show ?thesis
  proof (cases "map_of upd ''status'' = None \<or> r \<notin> range Inr")
    case True
    then show ?thesis using p db1 refl
      by (cases r) (auto simp: transition_operation_def)
  next
    case False
    then obtain gs where r: "r = Inr gs" and s: "map_of upd ''status'' \<noteq> None" by blast
    have g: "distinct (List.map fst gs)" "\<forall>c\<in>set lifecycle_columns. map_of gs c = map_of upd c"
      using pr r assms(2) by auto
    let ?wh = "\<lambda>k' r. k' = k \<and> col r ''status'' \<in> SqlText ` set frm"
    have step: "row_step q (set_cols gs q)" if "?wh k' q" and "sound_row q" for k' q
      using written_row_step [OF that(2) g] assms(2) by simp
    have "db_step db1 (update_rows ?wh (set_cols gs) db1)"
      by (rule update_step [OF db1(2) step])
    then have "db_step db (update_rows ?wh (set_cols gs) db1)"
      using db_step_trans_pruned [OF _ assms(1)] pr by blast
    then show ?thesis using p r refl s by (simp add: transition_operation_def Let_def)
  qed
qed

fun creates :: "audit_call \<Rightarrow> string \<Rightarrow> bool" where
  "creates (CallCreate now n) k \<longleftrightarrow> no_id n = k"
| "creates _ k \<longleftrightarrow> False"

lemma create_Inr:
  assumes "create_operation storage st now n db = (db', r)"
  shows "\<exists>db1. pruned db db1 \<and> (db' = db1 \<or>
    (map_of (db_rows db1) (no_id n) = None \<and>
     (\<exists>row. db_rows db' = db_rows db1 @ [(no_id n, row)] \<and> col row ''status'' = SqlText (no_status n)
        \<and> col row ''approval_status'' = no_approval n
        \<and> col row ''claimed_at'' = col (no_columns n) ''claimed_at'')))"
proof -
  let ?i = "no_request_bytes n + 2 * no_origin_bytes n + 8192"
  obtain db1 c where e: "ensure_audit_capacity storage st ?i db = (db1, c)"
    by (cases "ensure_audit_capacity storage st ?i db")
  have p: "pruned db db1" using ensure_audit_capacity_pruned [OF e] by blast
  have "db' = db \<or> db' = db1 \<or> map_of (db_rows db1) (no_id n) = None \<and>
     (\<exists>row. db_rows db' = db_rows db1 @ [(no_id n, row)] \<and> col row ''status'' = SqlText (no_status n)
        \<and> col row ''approval_status'' = no_approval n
        \<and> col row ''claimed_at'' = col (no_columns n) ''claimed_at'')"
    using assms e unfolding create_operation_def Let_def
    by (cases c) (auto split: if_splits sum.splits)
  then show ?thesis using p pruned_refl by blast
qed

lemma db_stepD:
  "db_step db db' \<Longrightarrow> map_of (db_rows db) k = Some r \<Longrightarrow>
     (map_of (db_rows db') k = None \<and> is_terminal r)
     \<or> (\<exists>r'. map_of (db_rows db') k = Some r' \<and> row_step r r')"
  unfolding db_step_def by blast

lemma audit_step_other:
  assumes "sound_db db" "keeps_grants c" "\<forall>k. \<not> creates c k"
  shows "db_step db (fst (audit_step en c db))"
proof (cases c)
  case (CallCreate now n)
  then show ?thesis using assms(3) by auto
next
  case (CallUpdate now k upd)
  have "fst (audit_step en c db)
      = fst (update_operation (en_storage en) (en_settings en) (en_text en) now k upd db)"
    using CallUpdate by (simp add: case_prod_unfold Let_def)
  moreover have "keeps_grants (CallUpdate now k upd)" using assms(2) unfolding CallUpdate .
  ultimately show ?thesis by (simp only: update_call_step [OF assms(1)])
next
  case (CallTransition now k frm upd)
  have "fst (audit_step en c db)
      = fst (transition_operation (en_storage en) (en_settings en) (en_text en) now k frm upd db)"
    using CallTransition by (simp add: case_prod_unfold Let_def)
  moreover have "keeps_grants (CallTransition now k frm upd)" using assms(2) unfolding CallTransition .
  ultimately show ?thesis by (simp only: transition_call_step [OF assms(1)])
next
  case (CallExpire now)
  then show ?thesis using expire_pending_step [OF assms(1)] by simp
next
  case (CallDecide now k approved approver nt)
  then show ?thesis using decide_step [OF assms(1)] by (simp add: case_prod_unfold Let_def)
next
  case (CallApproveClaim now k approver nt h owner)
  then show ?thesis using approve_claim_step [OF assms(1)] by (simp add: case_prod_unfold Let_def)
next
  case (CallClaim now k owner)
  then show ?thesis using claim_step [OF assms(1)] by (simp add: case_prod_unfold Let_def)
next
  case (CallEvent now k ty p q)
  then show ?thesis using add_event_step [OF assms(1)] by (simp add: case_prod_unfold Let_def)
next
  case (CallEventIfExists now k ty p q)
  then show ?thesis using add_event_if_step [OF assms(1)] by (simp add: case_prod_unfold Let_def)
next
  case (CallTimings k timing duration)
  then show ?thesis using timings_step [OF assms(1)] by (simp add: case_prod_unfold Let_def)
qed

lemma audit_step_create:
  assumes "sound_db db" "keeps_grants (CallCreate now n)"
  shows "sound_db (fst (audit_step en (CallCreate now n) db))
    \<and> (k \<noteq> no_id n \<longrightarrow> map_of (db_rows db) k = Some r \<longrightarrow>
       (map_of (db_rows (fst (audit_step en (CallCreate now n) db))) k = None \<and> is_terminal r)
       \<or> (\<exists>r'. map_of (db_rows (fst (audit_step en (CallCreate now n) db))) k = Some r' \<and> row_step r r'))"
proof -
  obtain db' q where c: "create_operation (en_storage en) (en_settings en) now n db = (db', q)"
    by (cases "create_operation (en_storage en) (en_settings en) now n db")
  obtain db1 where p: "pruned db db1" and d: "db' = db1 \<or>
    (map_of (db_rows db1) (no_id n) = None \<and>
     (\<exists>row. db_rows db' = db_rows db1 @ [(no_id n, row)] \<and> col row ''status'' = SqlText (no_status n)
        \<and> col row ''approval_status'' = no_approval n
        \<and> col row ''claimed_at'' = col (no_columns n) ''claimed_at''))"
    using create_Inr [OF c] by blast
  have s1: "db_step db db1" "sound_db db1" using pruned_step [OF p assms(1)] by blast+
  have f: "fst (audit_step en (CallCreate now n) db) = db'" using c by simp
  show ?thesis
  proof (cases "db' = db1")
    case True
    then show ?thesis using s1 f db_stepD [OF s1(1)] by simp
  next
    case False
    then obtain row where row: "db_rows db' = db_rows db1 @ [(no_id n, row)]"
        "col row ''status'' = SqlText (no_status n)" "col row ''approval_status'' = no_approval n"
        "col row ''claimed_at'' = col (no_columns n) ''claimed_at''"
      and new: "map_of (db_rows db1) (no_id n) = None" using d by blast
    have "sound_row row" using row(4) assms(2) by (simp add: sound_row_def col_def)
    moreover have "distinct (List.map fst (db_rows db'))"
      using s1(2) new row(1) by (simp add: sound_db_def map_of_eq_None_iff)
    moreover have "map_of (db_rows db') k = Some r \<Longrightarrow> map_of (db_rows db1) k = Some r \<or> r = row" for k r
      unfolding row(1) by (auto simp: map_add_def split: option.splits if_splits)
    ultimately have "sound_db db'" using s1(2) unfolding sound_db_def by blast
    moreover have "k \<noteq> no_id n \<Longrightarrow> map_of (db_rows db') k = map_of (db_rows db1) k"
      unfolding row(1) by (simp add: map_add_def split: option.splits)
    ultimately show ?thesis using f db_stepD [OF s1(1), of k r] by simp
  qed
qed

lemma audit_step_sound:
  assumes "sound_db db" "keeps_grants c"
  shows "sound_db (fst (audit_step en c db))"
proof (cases "\<exists>now n. c = CallCreate now n")
  case True
  then show ?thesis using audit_step_create assms by blast
next
  case False
  then have "\<forall>k. \<not> creates c k" by (cases c) auto
  then show ?thesis using db_step_sound audit_step_other assms by blast
qed

lemma audit_step_row:
  assumes "sound_db db" "keeps_grants c" "\<not> creates c k" "map_of (db_rows db) k = Some r"
  shows "(map_of (db_rows (fst (audit_step en c db))) k = None \<and> is_terminal r)
    \<or> (\<exists>r'. map_of (db_rows (fst (audit_step en c db))) k = Some r' \<and> row_step r r')"
proof (cases "\<exists>now n. c = CallCreate now n")
  case True
  then obtain now n where "c = CallCreate now n" by blast
  then show ?thesis using audit_step_create [where en = en and k = k and r = r, OF assms(1)] assms(2-4) by auto
next
  case False
  then have "\<forall>k. \<not> creates c k" by (cases c) auto
  then show ?thesis using db_stepD audit_step_other assms by blast
qed

lemma audit_step_absent:
  assumes "sound_db db" "keeps_grants c" "\<not> creates c k" "map_of (db_rows db) k = None"
  shows "map_of (db_rows (fst (audit_step en c db))) k = None"
proof (cases "\<exists>now n. c = CallCreate now n")
  case True
  then obtain now n where c: "c = CallCreate now n" by blast
  obtain db' q where e: "create_operation (en_storage en) (en_settings en) now n db = (db', q)"
    by (cases "create_operation (en_storage en) (en_settings en) now n db")
  obtain db1 where p: "pruned db db1" and d: "db' = db1 \<or> (\<exists>row. db_rows db' = db_rows db1 @ [(no_id n, row)])"
    using create_Inr [OF e] by blast
  have "map_of (db_rows db1) k = None" using pruned_step [OF p assms(1)] assms(4) unfolding db_step_def by blast
  then have "map_of (db_rows db') k = None"
    using d assms(3) c by (auto simp: map_add_def)
  then show ?thesis using c e by simp
next
  case False
  then have "\<forall>k. \<not> creates c k" by (cases c) auto
  then show ?thesis using audit_step_other assms unfolding db_step_def by blast
qed

definition audit_run :: "audit_env \<Rightarrow> audit_call list \<Rightarrow> audit_db \<Rightarrow> audit_db" where
  "audit_run en cs db = foldl (\<lambda>d c. fst (audit_step en c d)) db cs"

section \<open>What the store does to a finished operation\<close>

text \<open>
  The calls through which a caller rewrites the life of a finished operation: an update that names a
  column of the status machine, or a transition that names a terminal status among its sources.
\<close>

fun rewrites_finished :: "audit_call \<Rightarrow> string \<Rightarrow> bool" where
  "rewrites_finished (CallUpdate now k' upd) k \<longleftrightarrow>
     k' = k \<and> (\<not> distinct (List.map fst upd) \<or> set (List.map fst upd) \<inter> set lifecycle_columns \<noteq> {})"
| "rewrites_finished (CallTransition now k' frm upd) k \<longleftrightarrow>
     k' = k \<and> set frm \<inter> set terminal_statuses \<noteq> {}"
| "rewrites_finished _ k \<longleftrightarrow> False"

definition same_lifecycle :: "row \<Rightarrow> row \<Rightarrow> bool" where
  "same_lifecycle r r' \<longleftrightarrow> (\<forall>c\<in>set lifecycle_columns. col r' c = col r c)"

text \<open>The table has a primary key; the row is as it was or retention has removed it.\<close>

definition left_alone :: "string \<Rightarrow> row \<Rightarrow> audit_db \<Rightarrow> bool" where
  "left_alone k r db \<longleftrightarrow>
     distinct (List.map fst (db_rows db))
     \<and> (\<forall>r'. map_of (db_rows db) k = Some r' \<longrightarrow> same_lifecycle r r')"

lemma same_lifecycle_sel:
  "same_lifecycle r r' \<Longrightarrow> is_terminal r' = is_terminal r \<and> is_pending r' = is_pending r
     \<and> col r' ''status'' = col r ''status''"
  by (simp add: same_lifecycle_def lifecycle_columns_def is_terminal_def is_pending_def)

lemma left_alone_pruned: "pruned db db' \<Longrightarrow> left_alone k r db \<Longrightarrow> left_alone k r db'"
  unfolding left_alone_def using pruned_distinct pruned_row by (metis option.distinct(1))

lemma left_alone_update:
  assumes "left_alone k r db" "\<And>q. same_lifecycle r q \<Longrightarrow> wh k q \<Longrightarrow> same_lifecycle r (f q)"
  shows "left_alone k r (update_rows wh f db)"
  using assms by (auto simp: left_alone_def update_rows_map_of)

lemma left_alone_event [simp]: "left_alone k r (insert_event k' now ty db) = left_alone k r db"
  by (simp add: left_alone_def)

lemma left_alone_events [simp]:
  "left_alone k r (foldl (\<lambda>d k. insert_event k now ty d) db ids) = left_alone k r db"
  unfolding left_alone_def insert_events_rows by (rule refl)

lemma left_alone_capacity:
  "ensure_audit_capacity storage st n db = (db', x) \<Longrightarrow> left_alone k r db \<Longrightarrow> left_alone k r db'"
  using left_alone_pruned ensure_audit_capacity_pruned by blast

text \<open>The row is one of a finished operation: terminal, and no decision is awaited.\<close>

definition finished_alone :: "string \<Rightarrow> row \<Rightarrow> audit_db \<Rightarrow> bool" where
  "finished_alone k r db \<longleftrightarrow> is_terminal r \<and> \<not> is_pending r \<and> left_alone k r db"

lemma finished_aloneD: "finished_alone k r db \<Longrightarrow> left_alone k r db"
  by (simp add: finished_alone_def)

lemma finished_row: "finished_alone k r db \<Longrightarrow> same_lifecycle r q \<Longrightarrow> is_terminal q \<and> \<not> is_pending q"
  using same_lifecycle_sel unfolding finished_alone_def by blast

lemma not_decidable:
  "finished_alone k r db \<Longrightarrow> same_lifecycle r q \<Longrightarrow> \<not> approvable k' now k q \<and> \<not> granted k' k q"
  using finished_row [of k r db q] by (auto simp: approvable_def granted_def is_terminal_def terminal_statuses_def)

lemma alone_expire:
  assumes "finished_alone k r db"
  shows "left_alone k r (fst (expire_pending now db))" "left_alone k r (expire_one k' now db)"
  unfolding expire_pending_def expire_one_def Let_def fst_conv left_alone_events
  using finished_row [OF assms] by (auto intro!: left_alone_update [OF finished_aloneD [OF assms]])

lemma alone_decisions:
  assumes "finished_alone k r db"
  shows "left_alone k r (fst (decide_approval st now k' approved approver note db))"
  "left_alone k r (fst (approve_and_claim st now k' approver note h owner db))"
  "left_alone k r (fst (claim_approved st now k' owner db))"
  unfolding decide_approval_def approve_and_claim_def claim_approved_def Let_def
  using not_decidable [OF assms] finished_aloneD [OF assms] alone_expire(2) [OF assms]
  by (auto intro!: left_alone_update [OF finished_aloneD [OF assms]] split: sum.split)

lemma alone_events:
  assumes "left_alone k r db"
  shows "left_alone k r (fst (add_event storage st now k' ty p q db))"
  "left_alone k r (fst (add_event_if_operation_exists storage st now k' ty p q db))"
  unfolding add_event_def add_event_if_operation_exists_def
  using assms by (auto split: prod.split sum.split dest: left_alone_capacity [OF _ assms])

lemma alone_timings:
  assumes "left_alone k r db"
  shows "left_alone k r (fst (persist_timings storage st k' timing duration db))"
proof -
  have f: "same_lifecycle r (set_cols [(''timing_json'', x), (''duration_ms'', y)] q)" if "same_lifecycle r q" for x y q
    using that by (simp add: same_lifecycle_def lifecycle_columns_def)
  show ?thesis
    unfolding persist_timings_def
    using assms by (auto split: prod.split sum.split dest!: left_alone_capacity [OF _ assms] intro!: left_alone_update f)
qed

lemma alone_prepare:
  assumes "left_alone k r db" "prepare_update_fields storage st tx now upd db = (db1, x)"
  shows "left_alone k r db1"
  using left_alone_pruned [OF _ assms(1)] prepare_update_fields_Inr [OF assms(2)] by blast

lemma alone_update:
  assumes alone: "finished_alone k r db" and names: "\<not> rewrites_finished (CallUpdate now k' upd) k"
  shows "left_alone k r (fst (update_operation storage st tx now k' upd db))"
proof -
  obtain db1 x where p: "prepare_update_fields storage st tx now upd db = (db1, x)" by fastforce
  have "left_alone k r (update_rows (\<lambda>k'' _. k'' = k') (set_cols gs) db1)" if "x = Inr gs" for gs
  proof (rule left_alone_update [OF alone_prepare [OF finished_aloneD [OF alone] p]])
    fix q assume q: "same_lifecycle r q" "k = k'"
    then have d: "distinct (List.map fst upd)" "set (List.map fst upd) \<inter> set lifecycle_columns = {}"
      using names by auto
    then have g: "distinct (List.map fst gs)" "\<forall>c\<in>set lifecycle_columns. map_of gs c = map_of upd c"
      using prepare_update_fields_Inr [OF p] that by blast+
    have "\<forall>c\<in>set lifecycle_columns. map_of gs c = None"
      using g(2) d(2) by (auto simp: map_of_eq_None_iff)
    then show "same_lifecycle r (set_cols gs q)"
      using q(1) by (simp add: same_lifecycle_def col_set_cols [OF g(1)])
  qed
  then show ?thesis using finished_aloneD [OF alone] alone_prepare [OF finished_aloneD [OF alone] p] p by (cases x) (simp_all add: update_operation_def)
qed

lemma alone_transition:
  assumes alone: "finished_alone k r db" and names: "\<not> rewrites_finished (CallTransition now k' frm upd) k"
  shows "left_alone k r (fst (transition_operation storage st tx now k' frm upd db))"
proof -
  obtain db1 x where p: "prepare_update_fields storage st tx now upd db = (db1, x)" by fastforce
  have "left_alone k r (update_rows (\<lambda>k'' q. k'' = k' \<and> col q ''status'' \<in> SqlText ` set frm) (set_cols gs) db1)" for gs
    using names finished_row [OF alone] by (intro left_alone_update [OF alone_prepare [OF finished_aloneD [OF alone] p]]) (force simp: is_terminal_def)
  then show ?thesis using finished_aloneD [OF alone] alone_prepare [OF finished_aloneD [OF alone] p] p
    by (cases x) (auto simp: transition_operation_def Let_def)
qed

lemma alone_step:
  assumes alone: "finished_alone k r db" and names: "\<not> rewrites_finished c k" "\<not> creates c k"
  shows "left_alone k r (fst (audit_step en c db))"
proof (cases c)
  case (CallCreate now n)
  obtain db' x where c: "create_operation (en_storage en) (en_settings en) now n db = (db', x)" by fastforce
  obtain db1 where p: "pruned db db1" and d: "db' = db1 \<or> (map_of (db_rows db1) (no_id n) = None
      \<and> (\<exists>row. db_rows db' = db_rows db1 @ [(no_id n, row)]))"
    using create_Inr [OF c] by blast
  have "left_alone k r db1" using left_alone_pruned [OF p finished_aloneD [OF alone]] .
  then have "left_alone k r db'"
    using d names(2) CallCreate by (auto simp: left_alone_def map_of_eq_None_iff map_add_def split: option.splits)
  then show ?thesis using c CallCreate by simp
next
  case (CallUpdate now k' upd)
  then show ?thesis using alone_update [OF alone, of now k' upd] names(1) by (simp add: case_prod_unfold Let_def)
next
  case (CallTransition now k' frm upd)
  then show ?thesis using alone_transition [OF alone, of now k' frm upd] names(1) by (simp add: case_prod_unfold Let_def)
qed (use alone_expire [OF alone] alone_decisions [OF alone] alone_events alone_timings finished_aloneD [OF alone] in \<open>simp_all add: case_prod_unfold Let_def\<close>)



definition demo_audit_env :: audit_env where
  "demo_audit_env =
     \<lparr>en_storage = (\<lambda>_. 0),
      en_settings = \<lparr>max_concurrent_jobs = 1, approval_execution_ttl = 60, retention_max_operations = 10,
                     max_audit_record_bytes = 1000, max_data_dir_bytes = 1000000\<rparr>,
      en_text = \<lparr>redact_error = (\<lambda>t. t), redact_result = (\<lambda>t. t), text_bytes = (\<lambda>_. 1)\<rparr>\<rparr>"

definition demo_new :: "string \<Rightarrow> new_operation" where
  "demo_new k =
     \<lparr>no_id = k, no_status = ''pending_approval'', no_approval = SqlText ''pending'', no_expires = SqlTime 100,
      no_hash = SqlText ''h'', no_columns = [], no_request_bytes = 10, no_origin_bytes = 10, no_owner = ''o''\<rparr>"

definition demo_audit_db :: audit_db where
  "demo_audit_db =
     \<lparr>db_rows = [(''a'', [(''status'', SqlText ''succeeded''), (''approval_status'', SqlText ''approved''),
                      (''claimed_at'', SqlTime 5)]),
                 (''b'', [(''status'', SqlText ''pending_approval''), (''approval_status'', SqlText ''pending''),
                      (''request_expires_at'', SqlTime 100), (''request_hash'', SqlText ''h'')])],
      db_events = []\<rparr>"

lemma demo_audit_sound: "sound_db demo_audit_db"
  by (auto simp: sound_db_def demo_audit_db_def sound_row_def grantable_statuses_def col_def split: if_splits)


section \<open>One execution per approval\<close>

fun claims :: "audit_call \<Rightarrow> string \<Rightarrow> bool" where
  "claims (CallApproveClaim now k approver note h owner) k' \<longleftrightarrow> k = k'"
| "claims (CallClaim now k owner) k' \<longleftrightarrow> k = k'"
| "claims _ k' \<longleftrightarrow> False"

text \<open>How often an execution of \<open>k\<close> is granted along a sequence of calls.\<close>

fun grant_count :: "audit_env \<Rightarrow> string \<Rightarrow> audit_call list \<Rightarrow> audit_db \<Rightarrow> nat" where
  "grant_count en k [] db = 0"
| "grant_count en k (c # cs) db =
     (if claims c k \<and> snd (audit_step en c db) then 1 else 0)
     + grant_count en k cs (fst (audit_step en c db))"

lemma update_rows_count:
  "row_count P (update_rows wh f db) \<le> row_count P db + row_count wh db"
proof -
  have "length (List.filter (\<lambda>(k, r). P k r) (List.map (\<lambda>(k, r). (k, if wh k r then f r else r)) rs))
      \<le> length (List.filter (\<lambda>(k, r). P k r) rs) + length (List.filter (\<lambda>(k, r). wh k r) rs)" for rs
    by (induction rs) (auto split: if_splits)
  then show ?thesis by (simp add: row_count_def update_rows_def)
qed

text \<open>A claim needs an unclaimed row, in time, and leaves a claimed one.\<close>

lemma approve_claim_granted:
  assumes "sound_db db" "approve_and_claim st now k approver nt h owner db = (db', Inr ())"
  shows "row_count (\<lambda>_ r. is_active r) db < max_concurrent_jobs st \<and>
    (\<exists>r. map_of (db_rows db) k = Some r \<and> col r ''claimed_at'' = Null \<and> approvable k now k r
      \<and> (\<forall>x. h = Some x \<longrightarrow> col r ''request_hash'' = SqlText x)
      \<and> (\<exists>r'. map_of (db_rows db') k = Some r' \<and> col r' ''claimed_at'' = SqlTime now))
    \<and> row_count (\<lambda>_ r. is_active r) db' \<le> row_count (\<lambda>_ r. is_active r) db + 1"
proof -
  let ?wh = "\<lambda>k' r. approvable k now k' r
                 \<and> (case h of None \<Rightarrow> True | Some h \<Rightarrow> col r ''request_hash'' = SqlText h)"
  let ?f = "set_cols
                     [(''approval_status'', SqlText ''approved''), (''status'', SqlText ''queued''),
                      (''approval_by'', SqlText approver), (''approval_note'', SqlText nt),
                      (''approved_at'', SqlTime now),
                      (''approval_expires_at'', SqlTime (now + approval_execution_ttl st)),
                      (''claimed_at'', SqlTime now), (''updated_at'', SqlTime now),
                      (''execution_owner_json'', SqlText owner)]"
  have cap: "row_count (\<lambda>_ r. is_active r) db < max_concurrent_jobs st"
    and one: "row_count ?wh db = 1"
    and db': "db' = insert_event k now ''approved_and_claimed'' (update_rows ?wh ?f db)"
    using assms(2) by (auto simp: approve_and_claim_def ensure_job_capacity_def Let_def split: if_splits)
  have d: "distinct (List.map fst (db_rows db))" using assms(1) by (simp add: sound_db_def)
  obtain r where r: "map_of (db_rows db) k = Some r" and w: "?wh k r"
    using row_count_one [OF one d, of k] by (auto simp: approvable_def)
  have "sound_row r" using assms(1) r by (auto simp: sound_db_def)
  then have "col r ''claimed_at'' = Null" using w by (auto simp: approvable_def sound_row_def grantable_statuses_def)
  moreover have "map_of (db_rows db') k = Some (?f r)"
    using r w unfolding db' insert_event_rows update_rows_map_of by simp
  ultimately show ?thesis using cap r w one update_rows_count [of "\<lambda>_ r. is_active r" ?wh ?f db] db'
    by (auto simp: row_count_def)
qed

lemma claim_granted:
  assumes "sound_db db" "claim_approved st now k owner db = (db', Inr ())"
  shows "row_count (\<lambda>_ r. is_active r) db < max_concurrent_jobs st \<and>
    (\<exists>r. map_of (db_rows db) k = Some r \<and> col r ''claimed_at'' = Null \<and> granted k k r
      \<and> time_after (col r ''approval_expires_at'') now
      \<and> (\<exists>r'. map_of (db_rows db') k = Some r' \<and> col r' ''claimed_at'' = SqlTime now))
    \<and> row_count (\<lambda>_ r. is_active r) db' \<le> row_count (\<lambda>_ r. is_active r) db + 1"
proof -
  let ?wh = "\<lambda>k' r. granted k k' r \<and> time_after (col r ''approval_expires_at'') now \<and> col r ''claimed_at'' = Null"
  let ?f = "set_cols [(''status'', SqlText ''queued''), (''claimed_at'', SqlTime now),
                             (''updated_at'', SqlTime now), (''execution_owner_json'', SqlText owner)]"
  have cap: "row_count (\<lambda>_ r. is_active r) db < max_concurrent_jobs st"
    and one: "row_count ?wh db = 1"
    and db': "db' = insert_event k now ''execution_claimed'' (update_rows ?wh ?f db)"
    using assms(2) by (auto simp: claim_approved_def ensure_job_capacity_def Let_def split: if_splits)
  have d: "distinct (List.map fst (db_rows db))" using assms(1) by (simp add: sound_db_def)
  obtain r where r: "map_of (db_rows db) k = Some r" and w: "?wh k r"
    using row_count_one [OF one d, of k] by (auto simp: granted_def)
  have "map_of (db_rows db') k = Some (?f r)"
    using r w unfolding db' insert_event_rows update_rows_map_of by simp
  then show ?thesis using cap r w one update_rows_count [of "\<lambda>_ r. is_active r" ?wh ?f db] db'
    by (auto simp: row_count_def)
qed

lemma claim_grantedD:
  assumes "sound_db db" "claims c k \<and> snd (audit_step en c db)"
  shows "(\<exists>r. map_of (db_rows db) k = Some r \<and> col r ''claimed_at'' = Null)
    \<and> (\<exists>r. map_of (db_rows (fst (audit_step en c db))) k = Some r \<and> col r ''claimed_at'' \<noteq> Null)"
proof (cases c)
  case (CallApproveClaim now k' approver nt h owner)
  obtain d r where a: "approve_and_claim (en_settings en) now k approver nt h owner db = (d, r)"
    by (cases "approve_and_claim (en_settings en) now k approver nt h owner db")
  then have "r = Inr ()" "fst (audit_step en c db) = d" using assms(2) CallApproveClaim by auto
  then show ?thesis using approve_claim_granted [OF assms(1)] a by fastforce
next
  case (CallClaim now k' owner)
  obtain d r where a: "claim_approved (en_settings en) now k owner db = (d, r)"
    by (cases "claim_approved (en_settings en) now k owner db")
  then have "r = Inr ()" "fst (audit_step en c db) = d" using assms(2) CallClaim by auto
  then show ?thesis using claim_granted [OF assms(1)] a by fastforce
qed (use assms(2) in auto)

lemma claimed_stays:
  assumes "sound_db db" "keeps_grants c" "\<not> creates c k"
    and "\<forall>r. map_of (db_rows db) k = Some r \<longrightarrow> col r ''claimed_at'' \<noteq> Null"
  shows "\<forall>r. map_of (db_rows (fst (audit_step en c db))) k = Some r \<longrightarrow> col r ''claimed_at'' \<noteq> Null"
proof (cases "map_of (db_rows db) k")
  case None
  then show ?thesis using audit_step_absent [OF assms(1-3)] by simp
next
  case (Some r)
  then show ?thesis using audit_step_row [OF assms(1-3) Some, of en] assms(4)
    by (auto simp: row_step_def)
qed

text \<open>
  C19. An approval is executed at most once: from a database in which the operation may stand anywhere
  in its life, along any sequence of calls none of which creates the operation anew, writes \<open>claimed_at\<close>
  or writes \<open>approved\<close> or \<open>pending_approval\<close> back as a status (no caller of the store does), at most one
  call is granted its execution, whatever transitions and updates of the status come in between.
\<close>

theorem execution_granted_at_most_once:
  assumes "sound_db db" and "\<forall>c\<in>set cs. keeps_grants c \<and> \<not> creates c k"
  shows "grant_count en k cs db \<le> 1"
proof -
  have spent: "grant_count en k cs db = 0"
    if "sound_db db" "\<forall>c\<in>set cs. keeps_grants c \<and> \<not> creates c k"
      "\<forall>r. map_of (db_rows db) k = Some r \<longrightarrow> col r ''claimed_at'' \<noteq> Null" for cs db
    using that
  proof (induction cs arbitrary: db)
    case Nil
    then show ?case by simp
  next
    case (Cons c cs)
    have "\<not> (claims c k \<and> snd (audit_step en c db))"
      using Cons.prems(3) claim_grantedD [OF Cons.prems(1), of c k en] by blast
    moreover have "\<forall>r. map_of (db_rows (fst (audit_step en c db))) k = Some r \<longrightarrow> col r ''claimed_at'' \<noteq> Null"
      using claimed_stays [OF Cons.prems(1), of c k en] Cons.prems(2,3) by simp
    ultimately show ?case using Cons audit_step_sound by simp
  qed
  show ?thesis
    using assms
  proof (induction cs arbitrary: db)
    case Nil
    then show ?case by simp
  next
    case (Cons c cs)
    have s: "sound_db (fst (audit_step en c db))" using audit_step_sound Cons.prems by simp
    show ?case
    proof (cases "claims c k \<and> snd (audit_step en c db)")
      case True
      then have "grant_count en k cs (fst (audit_step en c db)) = 0"
        using claim_grantedD [OF Cons.prems(1), of c k en] Cons.prems(2) by (intro spent [OF s]) auto
      then show ?thesis using True by simp
    next
      case False
      then have "grant_count en k (c # cs) db = grant_count en k cs (fst (audit_step en c db))" by auto
      then show ?thesis using Cons.IH [OF s] Cons.prems(2) by simp
    qed
  qed
qed

definition demo_claims :: "audit_call list" where
  "demo_claims =
     [CallApproveClaim 10 ''b'' ''me'' ''ok'' (Some ''h'') ''o'',
      CallTransition 11 ''b'' [''queued''] [(''status'', SqlText ''succeeded'')],
      CallTransition 12 ''b'' [''running'', ''succeeded''] [(''status'', SqlText ''failed'')],
      CallUpdate 13 ''b'' [(''status'', SqlText ''queued'')],
      CallApproveClaim 14 ''b'' ''me'' ''ok'' (Some ''h'') ''o'', CallClaim 15 ''b'' ''o'']"

lemma execution_granted_at_most_once_witness:
  "grant_count demo_audit_env ''b'' demo_claims demo_audit_db = 1"
proof -
  have "\<forall>c\<in>set demo_claims. keeps_grants c \<and> \<not> creates c ''b''"
    by (simp add: demo_claims_def regrants_def grantable_statuses_def)
  then have "grant_count demo_audit_env ''b'' demo_claims demo_audit_db \<le> 1"
    by (rule execution_granted_at_most_once [OF demo_audit_sound])
  moreover have "grant_count demo_audit_env ''b'' demo_claims demo_audit_db \<noteq> 0" by code_simp
  ultimately show ?thesis by simp
qed

lemma audit_capacity_keeps_live_operations_witness:
  "map_of (db_rows (fst (ensure_audit_capacity (\<lambda>db. 200000 * int (length (db_rows db)))
      (en_settings demo_audit_env) 10 demo_audit_db))) ''b'' = map_of (db_rows demo_audit_db) ''b''"
proof -
  let ?s = "\<lambda>db :: audit_db. 200000 * int (length (db_rows db))"
  let ?e = "ensure_audit_capacity ?s (en_settings demo_audit_env) 10 demo_audit_db"
  obtain db' r where e: "?e = (db', r)" by (cases ?e)
  have d: "distinct (List.map fst (db_rows demo_audit_db))" using demo_audit_sound by (simp add: sound_db_def)
  obtain row where row: "map_of (db_rows demo_audit_db) ''b'' = Some row" and live: "\<not> is_terminal row"
  proof -
    have "\<not> is_terminal [(''status'', SqlText ''pending_approval''), (''approval_status'', SqlText ''pending''),
                      (''request_expires_at'', SqlTime 100), (''request_hash'', SqlText ''h'')]"
      by code_simp
    then show ?thesis by (intro that) (auto simp: demo_audit_db_def)
  qed
  show ?thesis using audit_capacity_keeps_live_operations [OF e d row] live row e by auto
qed

section \<open>Admission\<close>

definition admits :: "audit_call \<Rightarrow> bool" where
  "admits c =
     (case c of
        CallCreate now n \<Rightarrow> no_status n = ''queued''
      | CallApproveClaim now k approver nt h owner \<Rightarrow> True
      | CallClaim now k owner \<Rightarrow> True
      | _ \<Rightarrow> False)"

lemma create_queued_active:
  assumes "create_operation storage st now n db = (db', Inr i)" "no_status n = ''queued''"
  shows "row_count (\<lambda>_ r. is_active r) db' \<le> max_concurrent_jobs st"
proof -
  let ?i = "no_request_bytes n + 2 * no_origin_bytes n + 8192"
  obtain db1 c where e: "ensure_audit_capacity storage st ?i db = (db1, c)"
    by (cases "ensure_audit_capacity storage st ?i db")
  have "row_count (\<lambda>_ r. is_active r) db1 < max_concurrent_jobs st
      \<and> (\<exists>row. db_rows db' = db_rows db1 @ [(no_id n, row)])"
    using assms e unfolding create_operation_def Let_def ensure_job_capacity_def
    by (cases c) (auto split: if_splits sum.splits)
  then show ?thesis by (auto simp: row_count_def)
qed

text \<open>
  No admission exceeds the job limit: after a job was created queued, or an approval was
  claimed for execution, the operations queued or running number at most \<open>max_concurrent_jobs\<close>.
\<close>

theorem admission_respects_job_limit:
  assumes "sound_db db" and "admits c" and "snd (audit_step en c db)"
  shows "row_count (\<lambda>_ r. is_active r) (fst (audit_step en c db)) \<le> max_concurrent_jobs (en_settings en)"
proof (cases c)
  case (CallCreate now n)
  obtain d r where a: "create_operation (en_storage en) (en_settings en) now n db = (d, r)"
    by (cases "create_operation (en_storage en) (en_settings en) now n db")
  then obtain i where "r = Inr i" using assms(3) CallCreate by auto
  then show ?thesis using create_queued_active [of "en_storage en" "en_settings en" now n db d i] a assms(2) CallCreate
    by (simp add: admits_def)
next
  case (CallApproveClaim now k approver nt h owner)
  obtain d r where a: "approve_and_claim (en_settings en) now k approver nt h owner db = (d, r)"
    by (cases "approve_and_claim (en_settings en) now k approver nt h owner db")
  then have "r = Inr ()" using assms(3) CallApproveClaim by simp
  then show ?thesis using approve_claim_granted [OF assms(1)] a CallApproveClaim by fastforce
next
  case (CallClaim now k owner)
  obtain d r where a: "claim_approved (en_settings en) now k owner db = (d, r)"
    by (cases "claim_approved (en_settings en) now k owner db")
  then have "r = Inr ()" using assms(3) CallClaim by simp
  then show ?thesis using claim_granted [OF assms(1)] a CallClaim by fastforce
qed (use assms(2) in \<open>simp_all add: admits_def\<close>)

lemma admission_respects_job_limit_witness:
  "row_count (\<lambda>_ r. is_active r)
     (fst (audit_step demo_audit_env (CallApproveClaim 10 ''b'' ''me'' ''ok'' (Some ''h'') ''o'') demo_audit_db)) \<le> 1"
proof -
  let ?c = "CallApproveClaim 10 ''b'' ''me'' ''ok'' (Some ''h'') ''o''"
  have "snd (audit_step demo_audit_env ?c demo_audit_db)" by code_simp
  moreover have "admits ?c" by (simp add: admits_def)
  moreover have "max_concurrent_jobs (en_settings demo_audit_env) = 1" by (simp add: demo_audit_env_def)
  ultimately show ?thesis
    using admission_respects_job_limit [OF demo_audit_sound, of ?c demo_audit_env] by presburger
qed

text \<open>
  C20. An execution grant needs a fresh approval: approving and claiming succeeds only for a request
  that is pending, has not expired and, where the approver gave one, has the hash that was shown; a
  later claim succeeds only for an approval that has not expired and was never claimed.
\<close>

theorem claim_needs_fresh_approval:
  assumes "sound_db db" and "claims c k" and "snd (audit_step en c db)"
  shows "\<exists>r. map_of (db_rows db) k = Some r \<and> col r ''claimed_at'' = Null \<and>
    (case c of
       CallApproveClaim now _ _ _ h _ \<Rightarrow>
         col r ''approval_status'' = SqlText ''pending'' \<and> col r ''status'' = SqlText ''pending_approval''
         \<and> (\<exists>t. col r ''request_expires_at'' = SqlTime t \<and> now < t)
         \<and> (h = None \<or> col r ''request_hash'' = SqlText (the h))
     | CallClaim now _ _ \<Rightarrow>
         col r ''approval_status'' = SqlText ''approved'' \<and> col r ''status'' = SqlText ''approved''
         \<and> (\<exists>t. col r ''approval_expires_at'' = SqlTime t \<and> now < t)
     | _ \<Rightarrow> False)"
proof (cases c)
  case (CallApproveClaim now k' approver nt h owner)
  obtain d r where a: "approve_and_claim (en_settings en) now k approver nt h owner db = (d, r)"
    by (cases "approve_and_claim (en_settings en) now k approver nt h owner db")
  then have rr: "r = Inr ()" using assms(2,3) CallApproveClaim by simp
  obtain q where "map_of (db_rows db) k = Some q" "col q ''claimed_at'' = Null"
      "approvable k now k q" "\<forall>x. h = Some x \<longrightarrow> col q ''request_hash'' = SqlText x"
    using approve_claim_granted [OF assms(1) a [unfolded rr]] by auto
  then show ?thesis using CallApproveClaim
    by (cases h) (auto simp: approvable_def is_pending_def time_after_def split: sql_value.splits)
next
  case (CallClaim now k' owner)
  obtain d r where a: "claim_approved (en_settings en) now k owner db = (d, r)"
    by (cases "claim_approved (en_settings en) now k owner db")
  then have rr: "r = Inr ()" using assms(2,3) CallClaim by simp
  obtain q where "map_of (db_rows db) k = Some q" "col q ''claimed_at'' = Null"
      "granted k k q" "time_after (col q ''approval_expires_at'') now"
    using claim_granted [OF assms(1) a [unfolded rr]] by auto
  then show ?thesis using CallClaim
    by (auto simp: granted_def time_after_def split: sql_value.splits)
qed (use assms(2) in simp_all)

lemma claim_needs_fresh_approval_witness:
  "\<exists>r. map_of (db_rows demo_audit_db) ''b'' = Some r \<and> col r ''claimed_at'' = Null
    \<and> col r ''request_hash'' = SqlText ''h''"
proof -
  let ?c = "CallApproveClaim 10 ''b'' ''me'' ''ok'' (Some ''h'') ''o''"
  have s: "snd (audit_step demo_audit_env ?c demo_audit_db)" by code_simp
  have "claims ?c ''b''" by simp
  from claim_needs_fresh_approval [OF demo_audit_sound this s] show ?thesis by auto
qed

end
