(* ===== verification/Mutation.thy ===== *)
theory Mutation
  imports History Changes Audit_Store
begin

text \<open>
  One file is replaced: the protocol behind \<open>write_file\<close> and \<open>_atomic_binary_mutation\<close> of \<open>server.py\<close>,
  which every tool that writes the bytes of one file goes through. The state is the workspace with its
  journal and blobs, and the audit database; every access to either is a step of the environment,
  which may interfere, fail or end the process. Audit texts are parameters where the code formats them.
\<close>

section \<open>The server's state\<close>

type_synonym work = "hist \<times> audit_db"

record mut_env =
  mu_hist :: hist_env
  mu_audit :: audit_env
  mu_time :: "nat \<Rightarrow> int"                \<comment> \<open>the instant of a step\<close>
  mu_healthy :: "unit res"               \<comment> \<open>the control plane, and the capability\<close>
  mu_others :: bool                      \<comment> \<open>whether an older journal is incomplete\<close>
  mu_max_file :: int                     \<comment> \<open>\<open>max_structured_file_bytes\<close>\<close>
  mu_max_write :: int
  mu_max_text :: int
  mu_max_backup :: int
  mu_max_diff :: int
  mu_max_reason :: nat
  mu_origin_bytes :: int                 \<comment> \<open>of the origin recorded with an event\<close>
  mu_opcodes :: diff_matcher
  mu_error_text :: "error \<Rightarrow> string"

abbreviation mu_tx :: "mut_env \<Rightarrow> tx_env" where
  "mu_tx env \<equiv> he_tx (mu_hist env)"

definition audited :: "mut_env \<Rightarrow> (int \<Rightarrow> (audit_db, 'a) op) \<Rightarrow> (work, 'a) op" where
  "audited env f =
     mbind (on_fst (arrive (mu_tx env))) (\<lambda>_.
     mbind (mget (\<lambda>(h, _). mu_time env (tx_clock h))) (\<lambda>now. on_snd (f now)))"

definition looks :: "mut_env \<Rightarrow> (live \<Rightarrow> 'a res) \<Rightarrow> (hist, 'a) op" where
  "looks env f = mbind (arrive (mu_tx env)) (\<lambda>_. mbind (mget tx_live) (\<lambda>live. mlift (f live)))"

definition require_mutation_ready :: "mut_env \<Rightarrow> (work, unit) op" where
  "require_mutation_ready env =
     on_fst (mbind (arrive (mu_tx env)) (\<lambda>_. mbind (mget h_journal) (\<lambda>found.
       mcheck (\<not> mu_others env \<and> (case found of None \<Rightarrow> True | Some j \<Rightarrow> \<not> is_incomplete j))
         (RuntimeError ''workspace mutation is blocked because an interrupted restore requires recovery''))))"

text \<open>Audit calls of a mutation.\<close>

definition audit_create :: "mut_env \<Rightarrow> new_operation \<Rightarrow> (work, string) op" where
  "audit_create env n =
     audited env (\<lambda>now. create_operation (en_storage (mu_audit env)) (en_settings (mu_audit env)) now n)"

definition audit_update :: "mut_env \<Rightarrow> string \<Rightarrow> (int \<Rightarrow> (string \<times> sql_value) list) \<Rightarrow> (work, unit) op" where
  "audit_update env k upd =
     audited env (\<lambda>now. update_operation (en_storage (mu_audit env)) (en_settings (mu_audit env))
                     (en_text (mu_audit env)) now k (upd now))"

definition audit_transition ::
  "mut_env \<Rightarrow> string \<Rightarrow> string list \<Rightarrow> (int \<Rightarrow> (string \<times> sql_value) list) \<Rightarrow> (work, bool) op" where
  "audit_transition env k from_statuses upd =
     audited env (\<lambda>now. transition_operation (en_storage (mu_audit env)) (en_settings (mu_audit env))
                     (en_text (mu_audit env)) now k from_statuses (upd now))"

definition audit_event :: "mut_env \<Rightarrow> string \<Rightarrow> string \<Rightarrow> int \<Rightarrow> (work, unit) op" where
  "audit_event env k ty payload_bytes =
     audited env (\<lambda>now. add_event (en_storage (mu_audit env)) (en_settings (mu_audit env)) now k ty payload_bytes
                     (mu_origin_bytes env))"

definition manifest_path :: "string \<Rightarrow> string \<Rightarrow> string" where
  "manifest_path k stage = ''workspace-history/operations/'' @ k @ ''/'' @ stage @ ''/manifest.json''"

definition diff_path :: "string \<Rightarrow> string" where
  "diff_path k = ''diffs/'' @ k @ ''.diff''"

text \<open>\<open>_audit_rejection\<close>.\<close>

definition audit_rejection :: "mut_env \<Rightarrow> new_operation \<Rightarrow> error \<Rightarrow> (work, unit) op" where
  "audit_rejection env n e =
     mbind (audit_create env (n\<lparr>no_status := ''rejected''\<rparr>)) (\<lambda>k.
     mbind (audit_update env k (\<lambda>now. [(''finished_at'', SqlTime now), (''error'', SqlText (mu_error_text env e))])) (\<lambda>_.
       audit_event env k ''rejected'' 1000))"

section \<open>Looking at the target\<close>

definition resolve_existing_file :: "live \<Rightarrow> string \<Rightarrow> (path_identity \<times> bytes) res" where
  "resolve_existing_file live p =
     (case map_of live p of
        None \<Rightarrow> Inl (FileNotFound p)
      | Some (LiveReparse _ _) \<Rightarrow> Inl (PermissionError ''symlink, junction, or reparse point is denied'')
      | Some (LiveDir _) \<Rightarrow> Inl (IsADirectory ''not a regular file'')
      | Some (LiveFile i links d) \<Rightarrow>
          if 1 < links then Inl (PermissionError ''files with multiple hard links are denied'') else Inr (i, d))"

definition read_path_bytes :: "live \<Rightarrow> string \<Rightarrow> int \<Rightarrow> bytes res" where
  "read_path_bytes live p max_bytes =
     rbind (resolve_existing_file live p) (\<lambda>(i, d).
       if max_bytes < int (length d) then Inl (ValueError ''file exceeds byte limit'') else Inr d)"

definition native_key :: "path_identity option \<Rightarrow> (int \<times> int) option" where
  "native_key i =
     (case i of
        None \<Rightarrow> None
      | Some i \<Rightarrow> (case (windows_volume_serial i, windows_file_index i) of
                    (Some v, Some f) \<Rightarrow> Some (v, f) | _ \<Rightarrow> None))"

definition same_committed_identity ::
  "path_identity \<Rightarrow> path_identity option \<Rightarrow> (int \<times> int) option \<Rightarrow> bool" where
  "same_committed_identity current committed native =
     (if native \<noteq> None then native_key (Some current) = native
      else case committed of None \<Rightarrow> False | Some c \<Rightarrow> same_object current c)"

text \<open>\<open>commit_bytes\<close> gives the identity of the handle it wrote through.\<close>

definition commit_native ::
  "mut_env \<Rightarrow> string \<Rightarrow> bytes \<Rightarrow> path_identity \<Rightarrow> path_identity option \<Rightarrow> string option \<Rightarrow>
   (hist, (int \<times> int) option) op" where
  "commit_native env p data parent_identity target_identity expected_sha =
     mbind (commit_bytes (mu_tx env) p data parent_identity target_identity expected_sha) (\<lambda>_.
       mget (\<lambda>s. native_key (map_option node_identity (map_of (tx_live s) p))))"

definition hold_committed_target ::
  "mut_env \<Rightarrow> string \<Rightarrow> bytes \<Rightarrow> (int \<times> int) option \<Rightarrow> (hist, path_identity) op" where
  "hold_committed_target env p expected native =
     looks env (\<lambda>live. rbind (resolve_existing_file live p) (\<lambda>(i, d).
       if native \<noteq> None \<and> native_key (Some i) \<noteq> native
       then Inl (RuntimeError ''committed target identity changed before post-write verification'')
       else if file_size i \<noteq> int (length expected) then Inl (RuntimeError ''post-write content verification failed'')
       else rbind (read_path_bytes live p (int (length expected))) (\<lambda>d.
         if d \<noteq> expected then Inl (RuntimeError ''post-write content verification failed'') else Inr i)))"

definition recover_single_file_commit ::
  "mut_env \<Rightarrow> string \<Rightarrow> bytes \<Rightarrow> bytes \<Rightarrow> path_identity option \<Rightarrow> path_identity option \<Rightarrow> (int \<times> int) option \<Rightarrow>
   (hist, unit) op" where
  "recover_single_file_commit env p before after before_identity committed native =
     mbind (looks env (\<lambda>live. rbind (resolve_write_target (mu_tx env) live p) (\<lambda>_.
              case (live_identity (mu_tx env) live (parent_of p), live_identity (mu_tx env) live p) of
                (Some pi, Some ci) \<Rightarrow> Inr (pi, ci)
              | _ \<Rightarrow> Inl (RuntimeError ''automatic recovery refused because the committed target disappeared''))))
       (\<lambda>(pi, ci).
     mbind (mcheck (same_committed_identity ci committed native)
              (RuntimeError ''automatic recovery refused a third-party target replacement'')) (\<lambda>_.
     mbind (mcheck (file_size ci = int (length after))
              (RuntimeError ''automatic recovery refused to overwrite a concurrent target change'')) (\<lambda>_.
     mbind (looks env (\<lambda>live. read_path_bytes live p (int (length after)))) (\<lambda>d.
     mbind (mcheck (d = after)
              (RuntimeError ''automatic recovery refused to overwrite a concurrent target change'')) (\<lambda>_.
       case before_identity of
         None \<Rightarrow>
           mbind (commit_delete (mu_tx env) p pi ci (tx_sha (mu_tx env) after)) (\<lambda>_.
             looks env (\<lambda>live. if map_of live p = None then Inr ()
                               else Inl (RuntimeError ''write recovery verification failed'')))
       | Some bi \<Rightarrow>
           let original = native_key (Some bi) in
           mbind (commit_native env p before pi (Some ci) (Some (tx_sha (mu_tx env) after))) (\<lambda>restored.
           mbind (mcheck (original = None \<or> restored = original)
                    (RuntimeError ''write recovery restored the wrong Windows file identity'')) (\<lambda>_.
             looks env (\<lambda>live. rbind (resolve_existing_file live p) (\<lambda>(i, _).
               rbind (read_path_bytes live p (int (length before))) (\<lambda>d.
               if d \<noteq> before then Inl (RuntimeError ''write recovery verification failed'')
               else if original \<noteq> None \<and> native_key (Some i) \<noteq> original
               then Inl (RuntimeError ''write recovery verification found a replaced target'')
               else Inr ()))))))))))"

definition verify_source_binding :: "mut_env \<Rightarrow> string \<times> string \<Rightarrow> (hist, unit) op" where
  "verify_source_binding env = (\<lambda>(p, digest).
     looks env (\<lambda>live. rbind (resolve_existing_file live p) (\<lambda>(i, d).
       if mu_max_file env < file_size i then Inl (RuntimeError ''bound source exceeds max_structured_file_bytes'')
       else rbind (read_path_bytes live p (mu_max_file env)) (\<lambda>d.
         if tx_sha (mu_tx env) d \<noteq> digest then Inl (RuntimeError ''bound source changed before commit'') else Inr ()))))"

definition verify_source_bindings :: "mut_env \<Rightarrow> (string \<times> string) list \<Rightarrow> (work, unit) op" where
  "verify_source_bindings env bs = on_fst (mfold (verify_source_binding env) bs)"

section \<open>What both writers share\<close>

record write_plan =
  wp_path :: string
  wp_before :: bytes
  wp_after :: bytes
  wp_parent :: path_identity
  wp_target :: "path_identity option"
  wp_operation :: string

record mutation_result =
  mr_operation :: string
  mr_before_sha :: string
  mr_after_sha :: string
  mr_changes :: change_summary

definition before_digest :: "mut_env \<Rightarrow> write_plan \<Rightarrow> string option" where
  "before_digest env w = (if wp_target w \<noteq> None then Some (tx_sha (mu_tx env) (wp_before w)) else None)"

definition begin_write :: "mut_env \<Rightarrow> write_plan \<Rightarrow> manifest \<Rightarrow> (work, unit) op" where
  "begin_write env w pre =
     on_fst (begin_single_file_write_transaction (mu_hist env) pre (wp_path w) (before_digest env w)
               (tx_sha (mu_tx env) (wp_after w)))"

definition commit_write :: "mut_env \<Rightarrow> write_plan \<Rightarrow> (work, (int \<times> int) option) op" where
  "commit_write env w =
     on_fst (commit_native env (wp_path w) (wp_after w) (wp_parent w) (wp_target w) (before_digest env w))"

definition hold_write :: "mut_env \<Rightarrow> write_plan \<Rightarrow> (int \<times> int) option \<Rightarrow> (work, path_identity) op" where
  "hold_write env w native = on_fst (hold_committed_target env (wp_path w) (wp_after w) native)"

definition recover_write ::
  "mut_env \<Rightarrow> write_plan \<Rightarrow> (int \<times> int) option \<Rightarrow> path_identity option \<Rightarrow> (work, unit) op" where
  "recover_write env w native committed =
     on_fst (recover_single_file_commit env (wp_path w) (wp_before w) (wp_after w) (wp_target w) committed native)"

definition journal_write :: "mut_env \<Rightarrow> jstate \<Rightarrow> manifest option \<Rightarrow> (work, unit) op" where
  "journal_write env st target = on_fst (update_single_file_write_transaction (mu_hist env) st target)"

text \<open>The checkpoint after the write, and what is recorded of it.\<close>

definition summarize :: "mut_env \<Rightarrow> manifest \<Rightarrow> manifest \<Rightarrow> (work, change_summary) op" where
  "summarize env pre post =
     on_fst (mbind (arrive (mu_tx env)) (\<lambda>_. mbind (mget h_blobs) (\<lambda>bs.
       mlift (compare_workspace_states (tx_sha (mu_tx env)) (he_max_bytes (mu_hist env)) (mu_max_diff env) bs
                (mu_opcodes env) pre post))))"

definition checked_checkpoint :: "mut_env \<Rightarrow> write_plan \<Rightarrow> (work, manifest) op" where
  "checked_checkpoint env w =
     mbind (on_fst (capture_workspace_state (mu_hist env) (Some [wp_path w]))) (\<lambda>post.
     mbind (on_fst (checkpoint_states (mu_hist env) post)) (\<lambda>_.
     mbind (mcheck (map_option me_sha (map_of (entry_map post) (wp_path w)) = Some (tx_sha (mu_tx env) (wp_after w)))
              (RuntimeError ''target changed before the post-write checkpoint'')) (\<lambda>_. mret post)))"

definition record_success ::
  "mut_env \<Rightarrow> write_plan \<Rightarrow> manifest \<Rightarrow> string \<Rightarrow> string \<Rightarrow> (string \<times> sql_value) list \<Rightarrow> manifest \<Rightarrow>
   (work, mutation_result) op" where
  "record_success env w post ty result_text extra pre =
     mbind (summarize env pre post) (\<lambda>changes.
     mbind (journal_write env AppliedVerified (Some post)) (\<lambda>_.
     mbind (audit_transition env (wp_operation w) [''running'']
              (\<lambda>now. [(''status'', SqlText ''succeeded''), (''finished_at'', SqlTime now),
                      (''diff_path'', SqlText (diff_path (wp_operation w))),
                      (''pre_workspace_path'', SqlText (manifest_path (wp_operation w) ''before'')),
                      (''post_workspace_path'', SqlText (manifest_path (wp_operation w) ''after'')),
                      (''rollback_state'', SqlText ''complete''), (''result_json'', SqlText result_text)]
                     @ extra)) (\<lambda>_.
     mbind (on_fst (finalize_workspace_transaction (mu_hist env))) (\<lambda>_.
     mbind (audit_event env (wp_operation w) ty (int (length result_text))) (\<lambda>_.
       mret \<lparr>mr_operation = wp_operation w, mr_before_sha = tx_sha (mu_tx env) (wp_before w),
             mr_after_sha = tx_sha (mu_tx env) (wp_after w), mr_changes = changes\<rparr>)))))"

definition unchanged_failure :: "mut_env \<Rightarrow> error \<Rightarrow> (work, bool \<times> 'r res) op" where
  "unchanged_failure env e =
     mbind (attempt (journal_write env FailedRecovered None)) (\<lambda>r.
       mret (case r of Inl e' \<Rightarrow> (False, Inl e') | Inr _ \<Rightarrow> (True, Inl e)))"

section \<open>Structured and binary mutations\<close>

record mutation_request =
  rq_path :: string
  rq_expected :: "string option"
  rq_allow_create :: bool
  rq_require_expected :: bool
  rq_sources :: "(string \<times> string) list"
  rq_started :: "string option"
  rq_row :: new_operation
  rq_request_text :: string
  rq_result_text :: string

text \<open>
  The flag says that the journal records the failure as recovered; the second component is what the
  protected block raised or returned.
\<close>

definition changed_failure ::
  "mut_env \<Rightarrow> write_plan \<Rightarrow> (int \<times> int) option \<Rightarrow> path_identity option \<Rightarrow> (work, bool \<times> 'r res) op" where
  "changed_failure env w native committed =
     mbind (attempt (recover_write env w native committed)) (\<lambda>r.
       case r of
         Inr _ \<Rightarrow> unchanged_failure env (MutationError ''failed_recovered'')
       | Inl re \<Rightarrow>
           mbind (attempt (mbind (journal_write env RecoveryRequired None) (\<lambda>_.
                    audit_transition env (wp_operation w) [''running'']
                      (\<lambda>now. [(''status'', SqlText ''failed''), (''finished_at'', SqlTime now),
                              (''rollback_state'', SqlText ''recovery_required''),
                              (''error'', SqlText (mu_error_text env re))])))) (\<lambda>r2.
             mret (False, case r2 of Inl e2 \<Rightarrow> Inl e2 | Inr _ \<Rightarrow> Inl (MutationError ''recovery_required''))))"

definition protected_write ::
  "mut_env \<Rightarrow> mutation_request \<Rightarrow> write_plan \<Rightarrow> manifest \<Rightarrow> (work, bool \<times> mutation_result res) op" where
  "protected_write env rq w pre =
     mbind (attempt (mbind (verify_source_bindings env (rq_sources rq)) (\<lambda>_. commit_write env w))) (\<lambda>r.
       case r of
         Inl e \<Rightarrow> unchanged_failure env e
       | Inr native \<Rightarrow>
           mbind (attempt (hold_write env w native)) (\<lambda>r.
             case r of
               Inl e \<Rightarrow> changed_failure env w native None
             | Inr committed \<Rightarrow>
                 mbind (attempt
                   (mbind (verify_source_bindings env (List.filter (\<lambda>(sp, _). sp \<noteq> wp_path w) (rq_sources rq))) (\<lambda>_.
                    mbind (checked_checkpoint env w) (\<lambda>post.
                      record_success env w post ''structured_file_written'' (rq_result_text rq) [] pre)))) (\<lambda>r.
                   case r of
                     Inl e \<Rightarrow> changed_failure env w native (Some committed)
                   | Inr result \<Rightarrow> mret (False, Inr result))))"

text \<open>The \<open>finally\<close> block; it runs after a success too.\<close>

definition close_write :: "mut_env \<Rightarrow> write_plan \<Rightarrow> bool \<Rightarrow> (work, unit) op" where
  "close_write env w recovered =
     mbind (audit_transition env (wp_operation w) [''running'']
              (\<lambda>now. [(''status'', SqlText ''failed''), (''finished_at'', SqlTime now),
                      (''error'', SqlText ''structured mutation failed before verified completion'')])) (\<lambda>transitioned.
       if transitioned
       then mbind (if recovered then on_fst (mark_audit_reconciled (mu_hist env)) else mret ()) (\<lambda>_.
              audit_event env (wp_operation w) ''failed'' (int (length (wp_path w)) + 11))
       else mret ())"

definition resolve_source :: "mut_env \<Rightarrow> string \<Rightarrow> string \<times> string \<Rightarrow> (hist, unit) op" where
  "resolve_source env target = (\<lambda>(sp, _).
     mbind (looks env (\<lambda>live. rbind (resolve_existing_file live sp) (\<lambda>_. Inr ()))) (\<lambda>_.
       if sp = target then mret ()
       else looks env (\<lambda>live. rbind (resolve_existing_file live sp) (\<lambda>_. Inr ()))))"

definition creatable_target :: "mut_env \<Rightarrow> mutation_request \<Rightarrow> live \<Rightarrow> unit res" where
  "creatable_target env rq live =
     rbind (resolve_write_target (mu_tx env) live (rq_path rq)) (\<lambda>_.
       if map_of live (rq_path rq) = None \<and> \<not> rq_allow_create rq
       then Inl (FileNotFound ''structured editing requires an existing file'') else Inr ())"

text \<open>Parent and target identity, and then, if the target is there, its bytes.\<close>

definition mutation_target ::
  "mut_env \<Rightarrow> mutation_request \<Rightarrow> (hist, path_identity \<times> path_identity option \<times> bytes) op" where
  "mutation_target env rq =
     mbind (looks env (\<lambda>live. rbind (creatable_target env rq live) (\<lambda>_.
              case live_identity (mu_tx env) live (parent_of (rq_path rq)) of
                None \<Rightarrow> Inl (RuntimeError ''write parent disappeared'')
              | Some pi \<Rightarrow> Inr (pi, live_identity (mu_tx env) live (rq_path rq))))) (\<lambda>(pi, ti).
     mbind (looks env (\<lambda>live.
              if map_of live (rq_path rq) = None then Inr []
              else case ti of
                None \<Rightarrow> Inl (RuntimeError ''structured source disappeared before read'')
              | Some i \<Rightarrow>
                  if mu_max_file env < file_size i
                  then Inl (ValueError ''structured file exceeds max_structured_file_bytes'')
                  else read_path_bytes live (rq_path rq) (mu_max_file env))) (\<lambda>before.
       mret (pi, ti, before)))"

definition check_expected :: "mut_env \<Rightarrow> mutation_request \<Rightarrow> bytes \<Rightarrow> (hist, unit) op" where
  "check_expected env rq before =
     mbind (looks env (\<lambda>live.
              if map_of live (rq_path rq) \<noteq> None \<and> rq_require_expected rq \<and> rq_expected rq = None
              then Inl (ValueError ''expected_sha256 is required when replacing an existing file'') else Inr ())) (\<lambda>_.
       mcheck (rq_expected rq = None \<or> rq_expected rq = Some (tx_sha (mu_tx env) before))
         (TransferStateError ''TRANSFER_CAS_MISMATCH''))"

definition prepare_mutation ::
  "mut_env \<Rightarrow> mutation_request \<Rightarrow> (bytes \<Rightarrow> bytes res) \<Rightarrow> (work, write_plan) op" where
  "prepare_mutation env rq transform =
     mbind (mlift (mu_healthy env)) (\<lambda>_.
     mbind (require_mutation_ready env) (\<lambda>_.
     mbind (on_fst (looks env (\<lambda>live. resolve_write_target (mu_tx env) live (rq_path rq)))) (\<lambda>_.
     mbind (on_fst (mfold (resolve_source env (rq_path rq)) (rq_sources rq))) (\<lambda>_.
     mbind (on_fst (arrive (mu_tx env))) (\<lambda>_.   \<comment> \<open>\<open>WorkspaceExecutionLock\<close>\<close>
     mbind (on_fst (looks env (creatable_target env rq))) (\<lambda>_.
     mbind (on_fst (arrive (mu_tx env))) (\<lambda>_.   \<comment> \<open>\<open>lock_target\<close>\<close>
     mbind (require_mutation_ready env) (\<lambda>_.
     mbind (on_fst (mutation_target env rq)) (\<lambda>(pi, ti, before).
     mbind (on_fst (check_expected env rq before)) (\<lambda>_.
     mbind (verify_source_bindings env (rq_sources rq)) (\<lambda>_.
     mbind (mlift (transform before)) (\<lambda>after.
     mbind (mcheck (int (length after) \<le> mu_max_file env) (ValueError ''result exceeds max_structured_file_bytes'')) (\<lambda>_.
     mbind (case rq_started rq of
              None \<Rightarrow> audit_create env ((rq_row rq)\<lparr>no_status := ''running''\<rparr>)
            | Some k \<Rightarrow> mbind (audit_update env k (\<lambda>_. [(''request_json'', SqlText (rq_request_text rq))])) (\<lambda>_. mret k))
       (\<lambda>k.
       mret \<lparr>wp_path = rq_path rq, wp_before = before, wp_after = after, wp_parent = pi, wp_target = ti,
             wp_operation = k\<rparr>))))))))))))))"

definition atomic_binary_mutation ::
  "mut_env \<Rightarrow> mutation_request \<Rightarrow> (bytes \<Rightarrow> bytes res) \<Rightarrow> (work, mutation_result) op" where
  "atomic_binary_mutation env rq transform =
     mbind (prepare_mutation env rq transform) (\<lambda>w.
     mbind (on_fst (capture_workspace_state (mu_hist env) (Some [wp_path w]))) (\<lambda>pre.
     mbind (audit_update env (wp_operation w)
              (\<lambda>_. [(''pre_workspace_path'', SqlText (manifest_path (wp_operation w) ''before''))])) (\<lambda>_.
     mbind (begin_write env w pre) (\<lambda>_.
     mbind (protected_write env rq w pre) (\<lambda>(recovered, outcome).
     mbind (close_write env w recovered) (\<lambda>_. mlift outcome))))))"

section \<open>write_file\<close>

text \<open>\<open>_write_bounded_diff\<close>: counts of added and removed lines and the bytes of the diff.\<close>

definition bounded_diff_line :: "int \<Rightarrow> nat \<times> nat \<times> int \<Rightarrow> utext \<Rightarrow> (nat \<times> nat \<times> int) res" where
  "bounded_diff_line limit = (\<lambda>(added, removed, n) line.
     let n' = n + int (utf8_length line) in
     if limit < n' then Inl (ValueError ''generated diff exceeds max_diff_bytes'')
     else if starts_with (utext_of ''+'') line \<and> \<not> starts_with (utext_of ''+++'') line
     then Inr (added + 1, removed, n')
     else if starts_with (utext_of ''-'') line \<and> \<not> starts_with (utext_of ''---'') line
     then Inr (added, removed + 1, n')
     else Inr (added, removed, n'))"

definition write_bounded_diff :: "mut_env \<Rightarrow> utext \<Rightarrow> utext \<Rightarrow> string \<Rightarrow> (nat \<times> nat \<times> int) res" where
  "write_bounded_diff env previous content p =
     rfold (bounded_diff_line (mu_max_diff env)) (0, 0, 0)
       (unified_diff (mu_opcodes env) (split_lines [] previous) (split_lines [] content)
          (utext_of (''a/'' @ p)) (utext_of (''b/'' @ p)))"

record write_request =
  wr_path :: string
  wr_content :: utext
  wr_expected :: "string option"
  wr_row :: new_operation
  wr_rejected :: new_operation
  wr_result_text :: string

definition previous_text :: "mut_env \<Rightarrow> write_request \<Rightarrow> (hist, path_identity \<times> path_identity option \<times> bytes) op" where
  "previous_text env rq =
     mbind (looks env (\<lambda>live. rbind (resolve_write_target (mu_tx env) live (wr_path rq)) (\<lambda>_.
              case live_identity (mu_tx env) live (parent_of (wr_path rq)) of
                None \<Rightarrow> Inl (RuntimeError ''write parent disappeared'')
              | Some pi \<Rightarrow> Inr (pi, live_identity (mu_tx env) live (wr_path rq))))) (\<lambda>(pi, ti).
     mbind (looks env (\<lambda>live.
              if map_of live (wr_path rq) = None then Inr []
              else read_path_bytes live (wr_path rq) (max (mu_max_text env) (mu_max_backup env)))) (\<lambda>previous.
     mbind (mcheck (int (length previous) \<le> mu_max_text env)
              (ValueError ''existing file exceeds max_text_file_bytes'')) (\<lambda>_.
     mbind (mcheck (int (length previous) \<le> mu_max_backup env)
              (ValueError ''existing file exceeds max_backup_bytes'')) (\<lambda>_.
     mbind (mcheck (utf8_decode previous \<noteq> None) (ValueError ''existing file is not UTF-8 text'')) (\<lambda>_.
     mbind (looks env (\<lambda>live.
              if map_of live (wr_path rq) \<noteq> None \<and> wr_expected rq = None
              then Inl (ValueError ''expected_sha256 is required when replacing an existing file'') else Inr ())) (\<lambda>_.
     mbind (mcheck (wr_expected rq = None \<or> wr_expected rq = Some (tx_sha (mu_tx env) previous))
              (RuntimeError ''expected_sha256 mismatch'')) (\<lambda>_.
       mret (pi, ti, previous))))))))"

definition prepare_write_file :: "mut_env \<Rightarrow> write_request \<Rightarrow> (work, write_plan) op" where
  "prepare_write_file env rq =
     mbind (mlift (mu_healthy env)) (\<lambda>_.
     mbind (require_mutation_ready env) (\<lambda>_.
     mbind (mlift (case utf8_encode (wr_content rq) of
                     None \<Rightarrow> Inl (ValueError ''surrogates not allowed'') | Some d \<Rightarrow> Inr d)) (\<lambda>content.
     mbind (mcheck (int (length content) \<le> mu_max_write env) (ValueError ''write exceeds max_write_bytes'')) (\<lambda>_.
     mbind (on_fst (looks env (\<lambda>live. resolve_write_target (mu_tx env) live (wr_path rq)))) (\<lambda>_.
     mbind (on_fst (arrive (mu_tx env))) (\<lambda>_.   \<comment> \<open>\<open>WorkspaceExecutionLock\<close> and \<open>lock_target\<close>\<close>
     mbind (require_mutation_ready env) (\<lambda>_.
     mbind (on_fst (previous_text env rq)) (\<lambda>(pi, ti, previous).
     mbind (audit_create env ((wr_row rq)\<lparr>no_status := ''running''\<rparr>)) (\<lambda>k.
       mret \<lparr>wp_path = wr_path rq, wp_before = previous, wp_after = content, wp_parent = pi, wp_target = ti,
             wp_operation = k\<rparr>)))))))))"

definition backup_path :: "string \<Rightarrow> string \<Rightarrow> string" where
  "backup_path k p = ''backups/'' @ k @ ''/'' @ last (split_on (CHR ''/'') p)"

text \<open>Checkpoint, diff, quota and backup, and the journal.\<close>

definition begin_write_file ::
  "mut_env \<Rightarrow> write_request \<Rightarrow> write_plan \<Rightarrow> (work, manifest \<times> sql_value) op" where
  "begin_write_file env rq w =
     mbind (on_fst (capture_workspace_state (mu_hist env) (Some [wp_path w]))) (\<lambda>pre.
     mbind (audit_update env (wp_operation w)
              (\<lambda>_. [(''pre_workspace_path'', SqlText (manifest_path (wp_operation w) ''before''))])) (\<lambda>_.
     mbind (on_fst (arrive (mu_tx env))) (\<lambda>_.
     mbind (mlift (case utf8_decode (wp_before w) of
                     None \<Rightarrow> Inr (0, 0, 0)
                   | Some t \<Rightarrow> write_bounded_diff env t (wr_content rq) (wp_path w))) (\<lambda>(added, removed, diff_bytes).
     mbind (on_fst (mget (\<lambda>s. enforce_data_quota (he_max_data (mu_hist env)) (he_data_size (mu_hist env) (h_blobs s))
                                (diff_bytes + int (length (wp_before w)))))) (\<lambda>quota.
     mbind (mlift quota) (\<lambda>_.
     mbind (on_fst (looks env (\<lambda>live. Inr (map_of live (wp_path w) \<noteq> None)))) (\<lambda>exists.
     mbind (if exists then on_fst (mbind (arrive (mu_tx env)) (\<lambda>_. mret ())) else mret ()) (\<lambda>_.
     mbind (begin_write env w pre) (\<lambda>_.
       mret (pre, if exists then SqlText (backup_path (wp_operation w) (wp_path w)) else Null))))))))))"

definition file_changed_failure ::
  "mut_env \<Rightarrow> write_plan \<Rightarrow> (int \<times> int) option \<Rightarrow> path_identity option \<Rightarrow> (work, bool \<times> 'r res) op" where
  "file_changed_failure env w native committed =
     (let note = (\<lambda>st. audit_update env (wp_operation w)
            (\<lambda>_. [(''rollback_state'', SqlText st),
                  (''pre_workspace_path'', SqlText (manifest_path (wp_operation w) ''before''))]))
      in mbind (attempt (recover_write env w native committed)) (\<lambda>r.
       case r of
         Inl re \<Rightarrow>
           mbind (attempt (mbind (journal_write env RecoveryRequired None) (\<lambda>_. note ''recovery_required''))) (\<lambda>r2.
             mret (False, case r2 of Inl e2 \<Rightarrow> Inl e2 | Inr _ \<Rightarrow> Inl (MutationError ''recovery_required'')))
       | Inr _ \<Rightarrow>
           mbind (attempt (journal_write env FailedRecovered None)) (\<lambda>r1.
             case r1 of
               Inl e1 \<Rightarrow> mret (False, Inl e1)
             | Inr _ \<Rightarrow>
                 mbind (attempt (note ''failed_recovered'')) (\<lambda>r2.
                   mret (True, case r2 of Inl e2 \<Rightarrow> Inl e2 | Inr _ \<Rightarrow> Inl (MutationError ''failed_recovered''))))))"

text \<open>
  A failure between the commit and the end of its verification is passed on as it is; only later ones
  are recovered.
\<close>

definition run_write_file ::
  "mut_env \<Rightarrow> write_request \<Rightarrow> write_plan \<Rightarrow> (work, bool \<times> mutation_result res) op" where
  "run_write_file env rq w =
     mbind (attempt (begin_write_file env rq w)) (\<lambda>r.
       case r of
         Inl e \<Rightarrow> mret (False, Inl e)
       | Inr (pre, backup) \<Rightarrow>
           mbind (attempt (commit_write env w)) (\<lambda>r.
             case r of
               Inl e \<Rightarrow> unchanged_failure env e
             | Inr native \<Rightarrow>
                 mbind (attempt (hold_write env w native)) (\<lambda>r.
                   case r of
                     Inl e \<Rightarrow> mret (False, Inl e)
                   | Inr committed \<Rightarrow>
                       mbind (attempt (mbind (checked_checkpoint env w) (\<lambda>post.
                                record_success env w post ''file_written'' (wr_result_text rq)
                                  [(''backup_path'', backup)] pre))) (\<lambda>r.
                         case r of
                           Inl e \<Rightarrow> file_changed_failure env w native (Some committed)
                         | Inr result \<Rightarrow> mret (False, Inr result)))))"

definition close_write_file :: "mut_env \<Rightarrow> write_plan \<Rightarrow> bool \<Rightarrow> error \<Rightarrow> (work, unit) op" where
  "close_write_file env w recovered e =
     mbind (audit_transition env (wp_operation w) [''running'']
              (\<lambda>now. [(''status'', SqlText ''failed''), (''finished_at'', SqlTime now),
                      (''error'', SqlText (mu_error_text env e))])) (\<lambda>transitioned.
     mbind (if transitioned \<and> recovered then on_fst (mark_audit_reconciled (mu_hist env)) else mret ()) (\<lambda>_.
       audit_event env (wp_operation w) ''failed'' 1000))"

definition write_file :: "mut_env \<Rightarrow> write_request \<Rightarrow> (work, mutation_result) op" where
  "write_file env rq =
     mbind (mcatch (prepare_write_file env rq)
              (\<lambda>e. mbind (audit_rejection env (wr_rejected rq) e) (\<lambda>_. mfail e))) (\<lambda>w.
     mbind (run_write_file env rq w) (\<lambda>(recovered, outcome).
       case outcome of
         Inr result \<Rightarrow> mret result
       | Inl e \<Rightarrow> mbind (close_write_file env w recovered e) (\<lambda>_. mfail e)))"

end
