(* ===== verification/Recovery.thy ===== *)
theory Recovery
  imports History
begin

text \<open>
  What the journaled transactions of \<open>workspace_history.py\<close> promise whatever others do meanwhile:
  nothing is changed while the durable journal is early, and a restore that returns has reached its
  target. Also when recovery finds a path unexplained, a file with several hard links, and, at the end,
  runs on which the code does not do what it means to.
\<close>

section \<open>Conditions that do not look at the namespace\<close>

text \<open>A condition that steps of the environment and changes of the namespace cannot break.\<close>

definition framed :: "(hist \<Rightarrow> bool) \<Rightarrow> bool" where
  "framed P \<longleftrightarrow>
     (\<forall>s f. P (s\<lparr>tx_live := f (tx_live s)\<rparr>) = P s) \<and> (\<forall>s n. P (s\<lparr>tx_clock := n\<rparr>) = P s)
     \<and> (\<forall>s b. P (s\<lparr>tx_dead := b\<rparr>) = P s)"

lemma framed_live: "framed P \<Longrightarrow> P (s\<lparr>tx_live := l\<rparr>) = P s"
  unfolding framed_def by (metis (no_types))

lemma framed_rest: "framed P \<Longrightarrow> P (s\<lparr>tx_clock := n\<rparr>) = P s" "framed P \<Longrightarrow> P (s\<lparr>tx_dead := b\<rparr>) = P s"
  unfolding framed_def by blast+

lemmas framed_simps = framed_live framed_rest

lemma keeps_prod [keeps_rules]: "(\<And>a b. keeps P (f a b)) \<Longrightarrow> keeps P (case x of (a, b) \<Rightarrow> f a b)"
  by (cases x) simp

lemma keeps_live_node [keeps_rules]:
  "(\<And>i l d. keeps P (f i l d)) \<Longrightarrow> (\<And>i. keeps P (g i)) \<Longrightarrow> (\<And>i d. keeps P (h i d)) \<Longrightarrow>
     keeps P (case n of LiveFile i l d \<Rightarrow> f i l d | LiveDir i \<Rightarrow> g i | LiveReparse i d \<Rightarrow> h i d)"
  by (cases n) auto

lemma keeps_let [keeps_rules]: "keeps P (f x) \<Longrightarrow> keeps P (let y = x in f y)"
  by simp

lemma keeps_arrive:
  assumes "framed P"
  shows "keeps P (arrive env)"
  unfolding keeps_def arrive_def Let_def
  by (auto simp: framed_simps [OF assms] split: option.split)

lemma keeps_nodes:
  assumes "framed P"
  shows "keeps P (set_node p n)" "keeps P (drop_node p)"
  unfolding set_node_def drop_node_def by (auto intro!: keeps_put simp: framed_simps [OF assms])

lemma keeps_postcondition [keeps_rules]: "keeps P (postcondition e m)"
  unfolding postcondition_def by (rule keeps_check)

lemma keeps_primitives:
  fixes P :: "hist \<Rightarrow> bool"
  assumes "framed P"
  shows "keeps P (transactional_write_bytes env p data k n d)"
    "keeps P (transactional_delete env p k' n' d')"
    "keeps P (transactional_create_directories env p mp eo k)"
    "keeps P (transactional_remove_directory env p k' k'')"
    "keeps P (check_commit_parent env p i e)"
    "keeps P (ensure_component env p)"
  unfolding transactional_write_bytes_def transactional_delete_def transactional_create_directories_def
    transactional_remove_directory_def check_commit_parent_def ensure_component_def
  by (intro keeps_rules keeps_arrive keeps_nodes assms)+

lemma keeps_commits:
  fixes P :: "hist \<Rightarrow> bool"
  assumes "framed P"
  shows "keeps P (commit_bytes env p data pi ti sha)"
    "keeps P (commit_delete env p pi ti' sha')"
    "keeps P (commit_directories env p mp pi)"
    "keeps P (commit_remove_directory env p pi ti')"
    "keeps P (ensure_directory_for_write env p)"
  unfolding commit_bytes_def commit_delete_def commit_directories_def commit_remove_directory_def
    ensure_directory_for_write_def
  by (intro keeps_rules keeps_primitives assms)+

text \<open>
  A condition on the journal that the apply phases, which only extend its lists, cannot break.
\<close>

locale journal_condition =
  fixes P :: "hist \<Rightarrow> bool"
  assumes frame: "framed P"
    and applied_ok: "P s \<Longrightarrow> P (s\<lparr>h_mem := (h_mem s)\<lparr>j_applied := ps\<rparr>\<rparr>)"
    and created_ok: "P s \<Longrightarrow> P (s\<lparr>h_mem := (h_mem s)\<lparr>j_created := ps\<rparr>\<rparr>)"
    and write_ok: "P s \<Longrightarrow> P (s\<lparr>h_journal := Some (h_mem s)\<rparr>)"
begin

lemma keeps_steps [keeps_rules]:
  "keeps P (arrive tx)" "keeps P (commit_bytes tx p data pi ti sha)" "keeps P (commit_delete tx p pi ti' sha')"
  "keeps P (commit_directories tx p mp pi)" "keeps P (commit_remove_directory tx p pi ti')"
  "keeps P (ensure_directory_for_write tx p)"
  using frame by (auto intro: keeps_arrive keeps_commits)

lemma keeps_write [keeps_rules]: "keeps P (write_journal env)"
  unfolding write_journal_def by (intro keeps_rules keeps_put write_ok)

lemma keeps_applied [keeps_rules]: "keeps P (journal_applied env b p)"
  unfolding journal_applied_def update_journal_def set_mem_def by (intro keeps_rules keeps_put applied_ok)

lemma keeps_created [keeps_rules]: "keeps P (record_created env b ps)"
  unfolding record_created_def update_journal_def set_mem_def by (intro keeps_rules keeps_put created_ok)

lemma keeps_scan [keeps_rules]: "keeps P (scan_current_state env sc)" "keeps P (checkpoint_states env m)"
  unfolding scan_current_state_def checkpoint_states_def by (intro keeps_rules)+

lemma keeps_phases [keeps_rules]:
  "keeps P (apply_delete env b ids cur p)" "keeps P (apply_remove_directory env b p)"
  "keeps P (apply_create_directory env b ids p)" "keeps P (apply_write env b ids st cur e)"
  "keeps P (verify_restore_identities env ids)"
  unfolding apply_delete_def apply_remove_directory_def apply_create_directory_def apply_write_def
    verify_restore_identities_def verify_restore_identity_def Let_def
  by (intro keeps_rules)+

lemma keeps_apply_manifest [keeps_rules]: "keeps P (apply_manifest env b st m only ex ids)"
  unfolding apply_manifest_def Let_def by (intro keeps_rules)

lemma keeps_remove_created [keeps_rules]: "keeps P (remove_created_directories env ds)"
  unfolding remove_created_directories_def remove_created_directory_def
  by (intro keeps_rules) (auto split: error.split intro!: keeps_rules)

end

section \<open>The journal is written ahead\<close>

definition early_states :: "jstate list" where
  "early_states = [Preflight, Staged, FailedPreflight]"

definition begun :: "hist \<Rightarrow> bool" where
  "begun s \<longleftrightarrow> (\<exists>j. h_journal s = Some j \<and> j_state j \<notin> set early_states)
     \<and> j_state (h_mem s) \<notin> set early_states"

definition untouched :: "hist_env \<Rightarrow> nat \<Rightarrow> live \<Rightarrow> hist \<Rightarrow> bool" where
  "untouched env n live s \<longleftrightarrow>
     n \<le> tx_clock s \<and> tx_live s = foreign_run (he_tx env) n (tx_clock s) live"

interpretation begun: journal_condition begun
  by unfold_locales (auto simp: framed_def begun_def)

lemma untouched_start: "untouched env (tx_clock s) (tx_live s) s"
  by (simp add: untouched_def)

lemma untouched_upd [simp]:
  "untouched env n live (s\<lparr>h_journal := j\<rparr>) = untouched env n live s"
  "untouched env n live (s\<lparr>h_mem := m\<rparr>) = untouched env n live s"
  "untouched env n live (s\<lparr>h_blobs := b\<rparr>) = untouched env n live s"
  "untouched env n live (s\<lparr>h_staged := st\<rparr>) = untouched env n live s"
  by (simp_all add: untouched_def)

lemma keeps_untouched_arrive [keeps_rules]: "keeps (untouched env n live) (arrive (he_tx env))"
  unfolding keeps_def untouched_def arrive_def Let_def by (auto simp: foreign_run_Suc split: option.split)

lemma keeps_untouched [keeps_rules]:
  "keeps (untouched env n live) (write_journal env)"
  "keeps (untouched env n live) (update_journal env f)"
  "keeps (untouched env n live) (set_state env st)"
  "keeps (untouched env n live) (scan_current_state env sc)"
  "keeps (untouched env n live) (checkpoint_states env m)"
  "keeps (untouched env n live) (load_journal env)"
  "keeps (untouched env n live) (verify_restore_identities env ids)"
  unfolding write_journal_def update_journal_def set_state_def set_mem_def scan_current_state_def
    checkpoint_states_def load_journal_def verify_restore_identities_def verify_restore_identity_def
  by (intro keeps_rules keeps_put; simp)+

lemma keeps_untouched_capture [keeps_rules]: "keeps (untouched env n live) (capture_workspace_state env sc)"
  unfolding capture_workspace_state_def capture_blob_def by (intro keeps_rules keeps_put) simp

lemma keeps_untouched_staging [keeps_rules]:
  "keeps (untouched env n live) (stage_manifest_files env m ps)"
  "keeps (untouched env n live) (verify_staged_entry env m p)"
  unfolding stage_manifest_files_def stage_entry_def verify_staged_entry_def by (intro keeps_rules keeps_put; simp)+

lemma keeps_untouched_preflight [keeps_rules]:
  "keeps (untouched env n live) (restore_preflight env expected target ids)"
  unfolding restore_preflight_def Let_def by (intro keeps_rules)

lemma set_state_cases:
  assumes "set_state env st s = (s', r)"
  obtains (written) t e where "arrive (he_tx env) (s\<lparr>h_mem := (h_mem s)\<lparr>j_state := st\<rparr>\<rparr>) = (t, Inr e)"
      "s' = t\<lparr>h_journal := Some (h_mem t)\<rparr>" "r = Inr ()"
  | (failed) e where "arrive (he_tx env) (s\<lparr>h_mem := (h_mem s)\<lparr>j_state := st\<rparr>\<rparr>) = (s', Inl e)" "r = Inl e"
  using assms by (auto simp: set_state_def update_journal_def set_mem_def write_journal_def op_simps)

lemma arrive_mem: "arrive env s = (s', r) \<Longrightarrow> h_mem s' = h_mem s \<and> h_journal s' = h_journal s"
  by (auto elim!: arrive_cases simp: arrive_def Let_def split: if_splits option.splits)

lemma arrive_untouched:
  "untouched env n live s \<Longrightarrow> arrive (he_tx env) s = (s', r) \<Longrightarrow> untouched env n live s'"
  using keeps_untouched_arrive unfolding keeps_def by (metis fst_conv)

lemma set_state_begins:
  assumes "st \<notin> set early_states"
  shows "hoare (\<lambda>s. untouched env n live s \<or> begun s) (set_state env st) (\<lambda>_. begun)
           (\<lambda>_ s. untouched env n live s \<or> begun s)"
proof (rule hoareI)
  fix s s' x assume "set_state env st s = (s', Inr x)"
  then show "begun s'"
    using assms by (cases rule: set_state_cases) (auto simp: begun_def dest!: arrive_mem)
next
  fix s s' e assume pre: "untouched env n live s \<or> begun s" and "set_state env st s = (s', Inl e)"
  from this(2) show "untouched env n live s' \<or> begun s'"
  proof (cases rule: set_state_cases)
    case (failed e')
    then show ?thesis
      using pre assms arrive_untouched [OF _ failed(1)] arrive_mem [OF failed(1)]
      by (auto simp: begun_def)
  qed auto
qed

lemma keeps_set_state_begun:
  assumes "st \<notin> set early_states"
  shows "keeps begun (set_state env st)"
proof -
  have "keeps begun (write_journal env)" by (rule begun.keeps_write)
  moreover have mem: "keeps begun (set_mem (\<lambda>j. j\<lparr>j_state := st\<rparr>))"
    unfolding set_mem_def using assms by (intro keeps_put) (auto simp: begun_def)
  ultimately show ?thesis unfolding set_state_def update_journal_def by (intro keeps_bind)
qed

lemma not_early [simp]:
  "Applying \<notin> set early_states" "Recovering \<notin> set early_states" "AppliedVerified \<notin> set early_states"
  "FailedRecovered \<notin> set early_states" "RecoveryRequired \<notin> set early_states" "Complete \<notin> set early_states"
  by (simp_all add: early_states_def)

lemma keeps_begun_undo: "keeps begun (restore_undo env current target ids)"
  unfolding restore_undo_def by (intro keeps_rules begun.keeps_scan begun.keeps_apply_manifest
      begun.keeps_remove_created keeps_set_state_begun not_early)

lemma restore_apply_begins:
  "hoare (untouched env n live) (restore_apply env expected target ids) (\<lambda>_. begun)
     (\<lambda>_ s. untouched env n live s \<or> begun s)"
  unfolding restore_apply_def
proof (rule hoare_bind [where Q = "\<lambda>_. begun"], goal_cases)
  case 1
  show ?case by (rule hoare_pre [OF set_state_begins]) simp_all
next
  case (2 x)
  have "keeps begun (mbind (mget (\<lambda>s. j_changed (h_mem s))) (\<lambda>changed.
      mbind (apply_manifest env True True target (Some changed) (Some (state_map expected)) ids) (\<lambda>_.
      mbind (scan_current_state env (mf_scope target)) (\<lambda>final.
        mcheck (same_state final (state_map target))
          (RuntimeError ''post-restore workspace verification did not match target'')))))"
    by (intro keeps_rules begun.keeps_scan begun.keeps_apply_manifest)
  then show ?case unfolding keeps_hoare by (rule hoare_weaken) auto
qed

lemma restore_recover_begins:
  "hoare (\<lambda>s. untouched env n live s \<or> begun s) (restore_recover env current target ids) (\<lambda>_. begun)
     (\<lambda>_ s. untouched env n live s \<or> begun s)"
  unfolding restore_recover_def
proof (rule hoare_bind [where Q = "\<lambda>_. begun"], goal_cases)
  case 1
  show ?case by (rule set_state_begins) simp
next
  case (2 x)
  have "keeps begun (mcatch (mbind (restore_undo env current target ids)
          (\<lambda>_. mfail (MutationError ''failed_recovered'') :: (hist, unit) op))
        (\<lambda>e. if e = MutationError ''failed_recovered'' then mfail e
             else mbind (set_state env RecoveryRequired) (\<lambda>_. mfail (MutationError ''recovery_required''))))"
    by (intro keeps_rules keeps_begun_undo keeps_set_state_begun not_early)
  then show ?case unfolding keeps_hoare by (rule hoare_weaken) auto
qed

definition early_or_none :: "hist \<Rightarrow> bool" where
  "early_or_none s \<longleftrightarrow> (\<forall>j. h_journal s = Some j \<longrightarrow> j_state j \<in> set early_states)"

lemma restore_untouched_or_begun:
  "hoare (untouched env n live) (restore_workspace_state env expected target ids)
     (\<lambda>_. begun) (\<lambda>_ s. untouched env n live s \<or> begun s)"
proof -
  let ?U = "untouched env n live" and ?S = "\<lambda>_ s. untouched env n live s \<or> begun s"
  have pre: "keeps ?U (mcatch (restore_preflight env expected target ids) (\<lambda>e.
              mbind (mget (\<lambda>s. j_state (h_mem s))) (\<lambda>st.
                if st \<in> set journal_terminal then mfail e
                else mbind (set_state env FailedPreflight) (\<lambda>_. mfail e))))"
    by (intro keeps_rules)
  have applying: "hoare ?U (mcatch (restore_apply env expected target ids)
                 (\<lambda>_. restore_recover env current target ids)) (\<lambda>_. begun) ?S" for current
    by (rule hoare_catch [OF restore_apply_begins restore_recover_begins])
  have finish: "hoare begun (set_state env AppliedVerified) (\<lambda>_. begun) ?S"
    using keeps_set_state_begun [of AppliedVerified] unfolding keeps_hoare
    by (rule hoare_weaken) auto
  have start: "hoare ?U (mput f) (\<lambda>_. ?U) ?S" if "\<And>s. ?U s \<Longrightarrow> ?U (f s)" for f
    by (rule hoare_put) (use that in blast)
  have wr: "hoare ?U (write_journal env) (\<lambda>_. ?U) ?S"
    using keeps_untouched(1) unfolding keeps_hoare by (rule hoare_weaken) auto
  have pre': "hoare ?U (mcatch (restore_preflight env expected target ids) (\<lambda>e.
              mbind (mget (\<lambda>s. j_state (h_mem s))) (\<lambda>st.
                if st \<in> set journal_terminal then mfail e
                else mbind (set_state env FailedPreflight) (\<lambda>_. mfail e)))) (\<lambda>_. ?U) ?S"
    using pre unfolding keeps_hoare by (rule hoare_weaken) auto
  show ?thesis
    unfolding restore_workspace_state_def
    by (rule hoare_bind [OF start hoare_bind [OF wr hoare_bind [OF pre' hoare_bind [OF applying finish]]]])
      simp
qed

lemma restore_early_untouched:
  assumes "restore_workspace_state env expected target ids s = (s', r)"
    and "early_or_none s'"
  shows "tx_live s' = foreign_run (he_tx env) (tx_clock s) (tx_clock s') (tx_live s)"
proof -
  have "untouched env (tx_clock s) (tx_live s) s' \<or> begun s'"
  proof (cases r)
    case (Inl e)
    then show ?thesis using hoareD2 [OF restore_untouched_or_begun untouched_start] assms(1) by blast
  next
    case (Inr x)
    then show ?thesis using hoareD1 [OF restore_untouched_or_begun untouched_start] assms(1) by blast
  qed
  then show ?thesis using assms(2) by (auto simp: begun_def early_or_none_def untouched_def)
qed

lemma mbind_Inr:
  assumes "mbind m f s = (s', Inr x)"
  obtains t y where "m s = (t, Inr y)" "f y t = (s', Inr x)"
  using assms by (auto simp: mbind_eq)

lemma restore_recover_raises: "restore_recover env current target ids s \<noteq> (s', Inr ())"
  by (auto simp: restore_recover_def op_simps)

text \<open>What the journal in memory is bound to while the changes are applied.\<close>

definition bound_to :: "manifest \<Rightarrow> manifest \<Rightarrow> string list \<Rightarrow> hist \<Rightarrow> bool" where
  "bound_to before target changed s \<longleftrightarrow>
     j_kind (h_mem s) = ''workspace_restore'' \<and> j_before (h_mem s) = Some before
     \<and> j_target (h_mem s) = Some target \<and> j_changed (h_mem s) = changed"

interpretation bound: journal_condition "bound_to before target changed"
  by unfold_locales (auto simp: framed_def bound_to_def)

lemma keeps_bound_set_state: "keeps (bound_to before target changed) (set_state env st)"
proof -
  have "keeps (bound_to before target changed) (set_mem (\<lambda>j. j\<lparr>j_state := st\<rparr>))"
    unfolding set_mem_def by (intro keeps_put) (simp add: bound_to_def)
  then show ?thesis unfolding set_state_def update_journal_def by (intro keeps_bind bound.keeps_write)
qed

lemma keeps_bound_apply: "keeps (bound_to before target changed) (restore_apply env expected target' ids)"
  unfolding restore_apply_def
  by (intro keeps_rules keeps_bound_set_state bound.keeps_scan bound.keeps_apply_manifest)

lemma checkpoint_states_eq:
  "checkpoint_states env m s = (s', Inr st) \<Longrightarrow> s' = s \<and> st = state_map m"
  by (auto simp: checkpoint_states_def op_simps checkpoint_state_def rbind_eq_Inr)

lemma keeps_mem_looks:
  assumes "framed P" "\<And>s b. P (s\<lparr>h_blobs := b\<rparr>) = P s" "\<And>s b. P (s\<lparr>h_staged := b\<rparr>) = P s"
  shows "keeps P (capture_workspace_state env sc)" "keeps P (stage_manifest_files env m ps)" "keeps P (verify_staged_entry env m p)"
    "keeps P (verify_restore_identities env ids)"
  unfolding capture_workspace_state_def capture_blob_def stage_manifest_files_def
    stage_entry_def verify_staged_entry_def verify_restore_identities_def verify_restore_identity_def
  using assms(2,3) by (intro keeps_rules keeps_put keeps_arrive assms(1); simp)+

lemma keepsD: "keeps P m \<Longrightarrow> P s \<Longrightarrow> m s = (s', r) \<Longrightarrow> P s'"
  unfolding keeps_def by (metis fst_conv)

lemma restore_preflight_cases:
  assumes "restore_preflight env expected target ids s = (s', Inr current)"
  obtains t1 t2 t3 t4 where "mf_scope target = mf_scope expected"
    "checkpoint_states env target s = (s, Inr (state_map target))"
    "capture_workspace_state env (mf_scope expected) s = (t1, Inr current)"
    "checkpoint_states env current t1 = (t1, Inr (state_map current))"
    "same_state (state_map expected) (state_map current)"
    "stage_manifest_files env target (changed_paths current target) t1 = (t2, Inr ())"
    "mfold (verify_staged_entry env target) (changed_paths current target) t2 = (t3, Inr ())"
    "verify_restore_identities env ids t3 = (t4, Inr ())"
    "update_journal env (\<lambda>j. j\<lparr>j_state := Staged, j_before := Some current,
       j_changed := changed_paths current target\<rparr>) t4 = (s', Inr ())"
proof -
  let ?changed = "changed_paths current target"
  obtain t0 t1 t2 t3 t4 t5 t6 t7 sc em tm cm where
      sc: "require_matching_scope expected target = Inr sc"
    and e: "checkpoint_states env expected s = (t5, Inr em)"
    and t: "checkpoint_states env target t5 = (t6, Inr tm)"
    and c: "capture_workspace_state env sc t6 = (t1, Inr current)"
    and k: "checkpoint_states env current t1 = (t7, Inr cm)"
    and same: "same_state em cm"
    and 2: "stage_manifest_files env target ?changed t7 = (t2, Inr ())"
    and 3: "mfold (verify_staged_entry env target) ?changed t2 = (t3, Inr ())"
    and 4: "verify_restore_identities env ids t3 = (t4, Inr ())"
    and 5: "update_journal env (\<lambda>j. j\<lparr>j_state := Staged, j_before := Some current, j_changed := ?changed\<rparr>) t4
              = (s', Inr ())"
    using assms unfolding restore_preflight_def Let_def
    by (elim mbind_Inr) (auto simp: op_simps elim!: mbind_Inr split: if_splits)
  note e' = checkpoint_states_eq [OF e] and t' = checkpoint_states_eq [OF t] and k' = checkpoint_states_eq [OF k]
  have "mf_scope target = mf_scope expected \<and> sc = mf_scope expected"
    using sc by (auto simp: require_matching_scope_def split: if_splits)
  then show ?thesis
    using e t c k same 2 3 4 5 e' t' k' by (intro that) auto
qed

lemma restore_preflight_bound:
  assumes "restore_preflight env expected target ids s = (s', Inr current)" "j_target (h_mem s) = Some target"
    and "j_kind (h_mem s) = ''workspace_restore''"
  shows "bound_to current target (changed_paths current target) s' \<and> same_state (state_map expected) (state_map current)
    \<and> (\<exists>j. h_journal s' = Some j \<and> j = h_mem s')"
  using assms(1)
proof (cases rule: restore_preflight_cases)
  case (1 t1 t2 t3 t4)
  let ?P = "\<lambda>s :: hist. j_target (h_mem s) = Some target \<and> j_kind (h_mem s) = ''workspace_restore''"
  have P: "framed ?P" by (simp add: framed_def)
  note keep = keeps_mem_looks [OF P, simplified]
  have "?P t1" using keepsD [OF keep(1) _ 1(3)] assms(2,3) by blast
  then have "?P t2" using keepsD [OF keep(2) _ 1(6)] by simp
  then have "?P t3" using keepsD [OF keeps_fold [OF keep(3)] _ 1(7)] by simp
  then have "?P t4" using keepsD [OF keep(4) _ 1(8)] by simp
  then show ?thesis
    using 1(5,9) by (auto simp: update_journal_def set_mem_def write_journal_def op_simps bound_to_def
        dest!: arrive_mem)
qed

text \<open>
  C10. A restore that returns has reached its target: after its last change the scope was read back
  and was exactly the target, and the durable journal says so; the state it started from was the
  expected one and is journaled as the state to go back to.
\<close>

theorem restore_success_reaches_target:
  assumes "restore_workspace_state env expected target ids s = (s', Inr ())"
  shows "\<exists>k live found before j. k \<le> tx_clock s' \<and> tx_live s' = foreign_run (he_tx env) k (tx_clock s') live
    \<and> scan_live env (mf_scope target) live = Inr found \<and> same_state found (state_map target)
    \<and> h_journal s' = Some j \<and> j_state j = AppliedVerified
    \<and> j_before j = Some before \<and> same_state (state_map expected) (state_map before)"
proof -
  let ?start = "s\<lparr>h_mem := (fresh_journal ''workspace_restore'' Preflight)\<lparr>j_target := Some target\<rparr>\<rparr>"
  obtain t t' u current
    where w: "write_journal env ?start = (t, Inr ())"
      and p: "restore_preflight env expected target ids t = (t', Inr current)"
      and a: "restore_apply env expected target ids t' = (u, Inr ())"
      and f: "set_state env AppliedVerified u = (s', Inr ())"
    using assms restore_recover_raises unfolding restore_workspace_state_def
    by (elim mbind_Inr) (auto simp: op_simps split: if_splits)
  from a obtain v found where sc: "scan_current_state env (mf_scope target) v = (u, Inr found)"
    and same: "same_state found (state_map target)"
    by (auto simp: restore_apply_def op_simps split: if_splits)
  have scan: "scan_live env (mf_scope target) (tx_live u) = Inr found"
    using sc by (auto simp: scan_current_state_def op_simps)
  have live: "untouched env (tx_clock u) (tx_live u) s'"
    using keeps_untouched(3) f untouched_start unfolding keeps_def by (metis fst_conv)
  have "j_target (h_mem t) = Some target" "j_kind (h_mem t) = ''workspace_restore''"
    using w by (auto simp: write_journal_def op_simps fresh_journal_def dest!: arrive_mem)
  then have b: "bound_to current target (changed_paths current target) t'" "same_state (state_map expected) (state_map current)"
    using restore_preflight_bound [OF p] by blast+
  have "bound_to current target (changed_paths current target) u" using keeps_bound_apply a b(1) unfolding keeps_def by (metis fst_conv)
  then have "\<exists>j. h_journal s' = Some j \<and> j_state j = AppliedVerified \<and> j_before j = Some current"
    using f by (auto elim!: set_state_cases simp: bound_to_def dest!: arrive_mem)
  then show ?thesis using scan same live b(2) unfolding untouched_def by blast
qed

section \<open>A concrete restore\<close>

definition demo_entry :: "string \<Rightarrow> bytes \<Rightarrow> manifest_entry" where
  "demo_entry p d = \<lparr>me_path = p, me_size = int (length d), me_sha = length_sha d\<rparr>"

definition demo_before :: manifest where
  "demo_before = \<lparr>mf_files = [demo_entry ''d/a'' [65]], mf_dirs = [], mf_scope = Some [''d/a'', ''d/b'']\<rparr>"

definition demo_target :: manifest where
  "demo_target = \<lparr>mf_files = [demo_entry ''d/b'' [66, 67]], mf_dirs = [], mf_scope = Some [''d/a'', ''d/b'']\<rparr>"

definition demo_hist_env :: "(nat \<Rightarrow> tx_event) \<Rightarrow> hist_env" where
  "demo_hist_env events =
     \<lparr>he_tx = \<lparr>tx_sha = length_sha, tx_fold = (\<lambda>p. p), tx_root = demo_id 1 0, tx_event_at = events\<rparr>,
      he_denied = [], he_blocked = [], he_max_files = 10, he_max_bytes = 100, he_max_data = 100,
      he_data_size = (\<lambda>_. 0)\<rparr>"

definition demo_hist :: hist where
  "demo_hist =
     \<lparr>tx_live = [(''d'', LiveDir (demo_id 2 0)), (''d/a'', LiveFile (demo_id 3 1) 1 [65])],
      tx_clock = 0, tx_dead = False,
      h_blobs = [(length_sha [65], [65]), (length_sha [66, 67], [66, 67])], h_staged = [],
      h_journal = None, h_mem = fresh_journal ''workspace_restore'' Preflight\<rparr>"

definition quiet :: "nat \<Rightarrow> tx_event" where
  "quiet = (\<lambda>_. quiet_event)"

text \<open>The process ends at the given step.\<close>

definition crash_at :: "nat \<Rightarrow> nat \<Rightarrow> tx_event" where
  "crash_at k = (\<lambda>n. if n = k then quiet_event\<lparr>ev_crash := True\<rparr> else quiet_event)"

lemma restore_success_reaches_target_witness:
  "\<exists>j before. h_journal (fst (restore_workspace_state (demo_hist_env quiet) demo_before demo_target None demo_hist)) = Some j
     \<and> j_state j = AppliedVerified \<and> j_before j = Some before
     \<and> same_state (state_map demo_before) (state_map before)"
proof -
  let ?m = "restore_workspace_state (demo_hist_env quiet) demo_before demo_target None demo_hist"
  have "snd ?m = Inr ()" by code_simp
  then obtain s' where m: "?m = (s', Inr ())" by (cases ?m) auto
  show ?thesis using restore_success_reaches_target [OF m] m by auto
qed

section \<open>Recovery writes only what it can explain\<close>

definition explained :: "state_map \<Rightarrow> state_map \<Rightarrow> string list \<Rightarrow> state_map \<Rightarrow> bool" where
  "explained before target changed current \<longleftrightarrow>
     (\<forall>p. map_of current p = map_of before p \<or> (p \<in> set changed \<and> map_of current p = map_of target p))"

lemma foreign_changes_Nil:
  "foreign_changes before target current changed = [] \<longleftrightarrow> explained before target changed current"
proof -
  have "map_of before p = None \<and> map_of target p = None \<and> map_of current p = None"
    if "p \<notin> set (List.map fst before @ List.map fst target @ List.map fst current)" for p
    using that not_in_map [of p before] not_in_map [of p target] not_in_map [of p current] by simp
  then show ?thesis
    unfolding foreign_changes_def explained_def filter_empty_conv
    by (metis (no_types, lifting))
qed

lemma scan_current_state_cases:
  assumes "scan_current_state env sc s = (s', r)"
  obtains (found) "scan_live env sc (tx_live s') = r" | (failed) e where "r = Inl e"
  using assms by (auto simp: scan_current_state_def op_simps)

section \<open>A hard link stops every whole-workspace checkpoint\<close>

lemma rfold_Inl:
  assumes "x \<in> set xs" "\<And>acc. \<exists>e. f acc x = Inl e"
  shows "\<exists>e. rfold f acc xs = Inl e"
  using assms(1)
proof (induction xs arbitrary: acc)
  case (Cons y ys)
  show ?case
  proof (cases "f acc y")
    case (Inr b)
    then have "x \<in> set ys" using Cons.prems assms(2) [of acc] by auto
    then show ?thesis using Cons.IH Inr by simp
  qed simp
qed simp

text \<open>
  A single readable file with a second hard link makes every capture and every scan of the whole
  workspace raise, although the capture has a branch that would record such a file as excluded: the
  path broker refuses the file before that branch is reached.
\<close>

theorem hard_link_stops_whole_checkpoint:
  assumes "capture_workspace_state env None s = (s', r)"
    and "(p, LiveFile i links d) \<in> set (tx_live s')" "1 < links" "\<not> hidden_file env (split_on (CHR ''/'') p)"
  shows "\<exists>e. r = Inl e"
proof -
  have fail: "\<exists>e. scan_live env None (tx_live s') = Inl e"
    unfolding scan_live_def option.case
    by (rule rfold_Inl [OF assms(2)]) (use assms(3,4) in \<open>auto simp: walk_node_def Let_def\<close>)
  obtain t q where t: "arrive (he_tx env) s = (t, q)" by fastforce
  have blobs: "tx_live u = tx_live v" if "mfold (capture_blob env n l) ps v = (u, x)" for n l ps v u x
    using that by (induction ps arbitrary: v) (auto simp: capture_blob_def op_simps)
  show ?thesis
  proof (cases q)
    case (Inl e)
    then show ?thesis using assms(1) t by (auto simp: capture_workspace_state_def op_simps)
  next
    case (Inr ev)
    then have "tx_live s' = tx_live t"
      using assms(1) t by (auto simp: capture_workspace_state_def op_simps dest: blobs split: if_splits)
    then show ?thesis using assms(1) t Inr fail
      by (auto simp: capture_workspace_state_def op_simps split: if_splits)
  qed
qed

definition linked_hist :: hist where
  "linked_hist = demo_hist\<lparr>tx_live := [(''a'', LiveFile (demo_id 3 1) 2 [65])]\<rparr>"

lemma hard_link_stops_whole_checkpoint_witness:
  "\<exists>e. snd (capture_workspace_state (demo_hist_env quiet) None linked_hist) = Inl e"
proof -
  let ?m = "capture_workspace_state (demo_hist_env quiet) None linked_hist"
  obtain s' r where m: "?m = (s', r)" by (cases ?m)
  have "map_of (tx_live (fst ?m)) ''a'' = Some (LiveFile (demo_id 3 1) 2 [65])" by code_simp
  then have l: "(''a'', LiveFile (demo_id 3 1) 2 [65]) \<in> set (tx_live s')" using m by (auto dest: map_of_SomeD)
  have h: "\<not> hidden_file (demo_hist_env quiet) (split_on (CHR ''/'') ''a'')" by code_simp
  show ?thesis using hard_link_stops_whole_checkpoint [OF m l _ h] m by simp
qed

definition demo_cut_off :: hist where
  "demo_cut_off = fst (restore_workspace_state (demo_hist_env (crash_at 10)) demo_before demo_target None demo_hist)"

section \<open>Two restores that do not end as they say\<close>

definition dir_manifest :: "string \<Rightarrow> manifest" where
  "dir_manifest p = \<lparr>mf_files = [], mf_dirs = [p], mf_scope = Some [p]\<rparr>"

definition file_manifest :: "string \<Rightarrow> bytes \<Rightarrow> manifest" where
  "file_manifest p d = \<lparr>mf_files = [demo_entry p d], mf_dirs = [], mf_scope = Some [p]\<rparr>"

definition absent_manifest :: "string \<Rightarrow> manifest" where
  "absent_manifest p = \<lparr>mf_files = [], mf_dirs = [], mf_scope = Some [p]\<rparr>"

definition hist_with :: "live \<Rightarrow> hist" where
  "hist_with live = demo_hist\<lparr>tx_live := live\<rparr>"

text \<open>
  Restoring a file where an empty directory stands is allowed for in the code and cannot succeed:
  the last phase takes the directory, which has just become the file, for one still to be removed. The
  restore ends as a failed one, and the directory is put back.
\<close>

theorem directory_to_file_restore_fails:
  "(let (s, r) = restore_workspace_state (demo_hist_env quiet) (dir_manifest ''c'') (file_manifest ''c'' [65]) None
                   (hist_with [(''c'', LiveDir (demo_id 2 0))])
    in (r, map_option j_state (h_journal s), List.map fst (tx_live s)))
   = (Inl (MutationError ''failed_recovered''), Some FailedRecovered, [''c''])"
  by code_simp

definition reboot :: "hist_env \<Rightarrow> hist \<Rightarrow> hist \<times> unit res" where
  "reboot env s =
     (case h_journal s of
        None \<Rightarrow> (s, Inr ())
      | Some j \<Rightarrow> recover_incomplete_workspace_transaction env (s\<lparr>tx_dead := False, h_mem := j\<rparr>))"

text \<open>
  A directory a restore created on the way to a file survives when the restore is cut off and
  recovered later, although the journal names it and the recovery reports the starting state as
  restored; the recovery inside the process removes it.
\<close>

theorem crash_recovery_leaves_created_directory:
  "(let env = demo_hist_env (crash_at 8);
        (s, r) = restore_workspace_state env (absent_manifest ''n/x'') (file_manifest ''n/x'' [65]) None (hist_with []);
        (t, q) = reboot (demo_hist_env quiet) s
    in (map_option j_created (h_journal s), q, map_option j_state (h_journal t), List.map fst (tx_live t)))
   = (Some [''n''], Inr (), Some FailedRecovered, [''n''])"
  by code_simp

text \<open>
  Recovery asks once whether it can explain every path, and the changes it then makes start from a
  second scan that is compared with nothing: a file of somebody else that appears in between is taken
  for one the interrupted restore created and is deleted, and recovery reports success.
\<close>

definition appears_at :: "nat \<Rightarrow> string \<Rightarrow> bytes \<Rightarrow> nat \<Rightarrow> tx_event" where
  "appears_at k p d = (\<lambda>n.
     if n = k then quiet_event\<lparr>ev_foreign := [(p, Some (LiveFile (demo_id 9 (int (length d))) 1 d))]\<rparr>
     else quiet_event)"

theorem recovery_deletes_late_file:
  "(let (s, r) = recover_restore (demo_hist_env (appears_at 12 ''d/b'' [88, 88, 88]))
                   (the (h_journal demo_cut_off)) (demo_cut_off\<lparr>tx_dead := False\<rparr>)
    in (r, map_of (tx_live s) ''d/b'')) = (Inr (), None)
   \<and> length_sha [88, 88, 88] \<notin> fst ` set (h_blobs demo_cut_off)"
  by code_simp

end
