(* ===== verification/Crash.thy ===== *)
theory Crash
  imports Recovery
begin

text \<open>
  Crash consistency of the journaled restores: what a restore can leave behind when it is cut off at
  any step, that a recovery changes only what it can explain, and that it leads back to the state
  before.
\<close>

section \<open>Invariants of the namespace\<close>

text \<open>Nobody else changes the workspace; steps may still fail and the process may end.\<close>

definition no_interference :: "tx_env \<Rightarrow> bool" where
  "no_interference tx \<longleftrightarrow> (\<forall>n. ev_foreign (tx_event_at tx n) = [])"

lemma foreign_run_id [simp]: "no_interference tx \<Longrightarrow> foreign_run tx n m live = live"
proof -
  assume "no_interference tx"
  then have "foldl (\<lambda>l k. apply_foreign (ev_foreign (tx_event_at tx k)) l) live ks = live" for ks live
    by (induction ks arbitrary: live) (auto simp: no_interference_def)
  then show ?thesis by (simp add: foreign_run_def)
qed

text \<open>The node a commit leaves at a file: a created one, or the old one rewritten.\<close>

definition written_node :: "tx_env \<Rightarrow> live \<Rightarrow> string \<Rightarrow> bytes \<Rightarrow> live_node \<Rightarrow> bool" where
  "written_node tx live p data n \<longleftrightarrow>
     (\<exists>e\<in>range (tx_event_at tx). n = created_file e data
        \<or> (\<exists>i old. map_of live p = Some (LiveFile i 1 old) \<and> n = rewritten_file e i data))"

lemma entry_map_path: "map_of (entry_map m) p = Some e \<Longrightarrow> me_path e = p"
  by (auto simp: entry_map_def dest!: map_of_SomeD)

lemma chosen_set [simp]: "set (chosen C ps keep) = {p \<in> set ps. p \<in> set C \<and> keep p}"
  by (auto simp: chosen_def sorted_set_def)

lemma hoare_const: "(K \<Longrightarrow> hoare Pre m Q E) \<Longrightarrow> hoare (\<lambda>s. Pre s \<and> K) m Q E"
  by (rule hoareI) (blast intro: hoareD1 hoareD2)+

text \<open>An operation that keeps \<open>P\<close> provided the value it was given is good.\<close>

lemma keeps_bind_value:
  assumes "hoare P m (\<lambda>x s. P s \<and> good x) (\<lambda>_. P)" "\<And>x. good x \<Longrightarrow> keeps P (f x)"
  shows "keeps P (mbind m f)"
  unfolding keeps_hoare
  by (rule hoare_bind [OF assms(1)], rule hoare_const, rule assms(2) [unfolded keeps_hoare])

locale live_invariant =
  fixes env :: hist_env and R :: "live \<Rightarrow> bool" and ok_delete :: "string \<Rightarrow> bool"
    and ok_file :: "string \<Rightarrow> string \<Rightarrow> bool" and ok_dir :: "string \<Rightarrow> bool" and created_too :: bool
  assumes alone: "no_interference (he_tx env)"
    and delete_ok: "R live \<Longrightarrow> ok_delete p \<Longrightarrow> R (AList.delete p live)"
    and file_ok: "R live \<Longrightarrow> ok_file p (tx_sha (he_tx env) data) \<Longrightarrow>
      written_node (he_tx env) live p data n \<Longrightarrow> R (AList.update p n live)"
    and dir_ok: "R live \<Longrightarrow> ok_dir p \<Longrightarrow> map_of live p = None \<Longrightarrow>
      R (AList.update p (LiveDir (ev_identity (tx_event_at (he_tx env) k))) live)"
begin

text \<open>
  The invariant of the namespace, and that what was recorded as created may go again, which matters
  where these directories are removed.
\<close>

definition P :: "hist \<Rightarrow> bool" where
  "P s \<longleftrightarrow> R (tx_live s) \<and> (created_too \<longrightarrow> (\<forall>a\<in>set (j_created (h_mem s)). ok_delete a))"

text \<open>The instances that also look after what was recorded as created.\<close>

definition strict :: bool where
  "strict \<longleftrightarrow> created_too"

lemma P_upd [simp]:
  "P (s\<lparr>h_journal := j\<rparr>) = P s" "P (s\<lparr>h_blobs := b\<rparr>) = P s" "P (s\<lparr>h_staged := st\<rparr>) = P s"
  "P (s\<lparr>h_mem := (h_mem s)\<lparr>j_state := x\<rparr>\<rparr>) = P s" "P (s\<lparr>h_mem := (h_mem s)\<lparr>j_applied := y\<rparr>\<rparr>) = P s"
  by (simp_all add: P_def)

lemma keeps_P_arrive [keeps_rules]: "keeps P (arrive (he_tx env))"
  unfolding keeps_def arrive_def Let_def P_def
  using alone by (auto simp: no_interference_def split: option.split)

lemma keeps_P_change:
  fixes m :: "(hist, 'b) op"
  assumes "one_change (he_tx env) change m" "\<And>live live'. R live \<Longrightarrow> change live live' \<Longrightarrow> R live'"
    and "\<And>js. keeps (\<lambda>s. j_created (h_mem s) = js) m"
  shows "keeps P m"
  unfolding keeps_def
proof (intro allI impI)
  fix s assume a: "P s"
  obtain s' r where m: "m s = (s', r)" by (cases "m s")
  have "R (tx_live s')" using one_changeD [OF assms(1) m] assms(2) a alone by (auto simp: P_def)
  moreover have "j_created (h_mem s') = j_created (h_mem s)" using keepsD [OF assms(3) _ m] by simp
  ultimately show "P (fst (m s))" using a m by (simp add: P_def)
qed

lemma framed_created: "framed (\<lambda>s. j_created (h_mem s) = js)"
  by (simp add: framed_def)

lemma keeps_P_delete:
  assumes "ok_delete p"
  shows "keeps P (commit_delete (he_tx env) p pi ti digest)"
  using commit_delete_change
  by (rule keeps_P_change)
    (auto simp: file_committed_away_def removed_file_def intro: delete_ok assms keeps_commits framed_created)

lemma keeps_P_remove_directory:
  assumes "ok_delete p"
  shows "keeps P (commit_remove_directory (he_tx env) p pi ti)"
proof -
  have "keeps P (transactional_remove_directory (he_tx env) p k pk)" for k pk
    using remove_directory_change
    by (rule keeps_P_change)
      (auto simp: directory_removed_def intro: delete_ok assms keeps_primitives framed_created)
  then show ?thesis unfolding commit_remove_directory_def by (intro keeps_rules)
qed

lemma keeps_P_bytes:
  assumes "ok_file p (tx_sha (he_tx env) data)"
  shows "keeps P (commit_bytes (he_tx env) p data pi ti sha)"
  using commit_bytes_change
proof (rule keeps_P_change)
  fix live live' assume "R live" "bytes_committed (he_tx env) p data ti sha live live'"
  then show "R live'"
    by (auto simp: bytes_committed_def newly_written_def rewritten_def written_node_def
        intro!: file_ok [OF _ assms] split: option.splits)
qed (auto intro: keeps_commits framed_created)

lemma R_dirs:
  assumes "R live" "distinct qs" "\<And>q. q \<in> set qs \<Longrightarrow> ok_dir q \<and> map_of live q = None"
  shows "R (foldl (\<lambda>l q. AList.update q (LiveDir (ev_identity (tx_event_at (he_tx env) k))) l) live qs)"
  using assms
proof (induction qs arbitrary: live)
  case (Cons q qs)
  let ?l = "AList.update q (LiveDir (ev_identity (tx_event_at (he_tx env) k))) live"
  have "R ?l" using Cons.prems dir_ok by simp
  moreover have "ok_dir x \<and> map_of ?l x = None" if "x \<in> set qs" for x
    using Cons.prems(2,3) that by (auto simp: update_conv')
  ultimately show ?case using Cons.IH Cons.prems(2) by simp
qed simp

lemma keeps_P_directories:
  assumes "\<And>q. q \<in> set (path_chain p) \<Longrightarrow> ok_dir q"
  shows "keeps P (commit_directories (he_tx env) p mp pi)"
proof -
  have "keeps P (transactional_create_directories (he_tx env) p mp False k)" for k
    using create_directories_change
  proof (rule keeps_P_change)
    fix live live' assume "R live" "directories_created (he_tx env) p live live'"
    then show "R live'"
      using assms check_chain_Inr [OF _ distinct_path_chain]
      by (auto simp: directories_created_def intro!: R_dirs) blast+
  qed (auto intro: keeps_primitives framed_created)
  then show ?thesis unfolding commit_directories_def by (intro keeps_rules)
qed

lemma keeps_P_component:
  assumes "ok_dir q"
  shows "keeps P (ensure_component (he_tx env) q)"
  unfolding keeps_hoare
proof (rule hoareI)
  have sound: "P s'" if a: "P s" "ensure_component (he_tx env) q s = (s', r)" for s s' r
  proof -
    obtain t x where t: "arrive (he_tx env) s = (t, x)" by fastforce
    have Pt: "P t" using keepsD [OF keeps_P_arrive a(1) t] .
    have e: "x = Inr e \<Longrightarrow> e \<in> range (tx_event_at (he_tx env))" for e
      using t by (auto elim!: arrive_cases)
    show ?thesis
    proof (cases x)
      case (Inl err)
      then show ?thesis using a(2) t Pt by (auto simp: ensure_component_def op_simps)
    next
      case (Inr ev)
      then obtain k where k: "ev = tx_event_at (he_tx env) k" using e by blast
      show ?thesis
      proof (cases "map_of (tx_live t) q")
        case None
        then show ?thesis using a(2) t Pt dir_ok [OF _ assms, of "tx_live t" k] Inr k
          by (auto simp: ensure_component_def op_simps set_node_def P_def)
      next
        case (Some n)
        then show ?thesis using a(2) t Pt Inr by (cases n) (auto simp: ensure_component_def op_simps)
      qed
    qed
  qed
  show "P s'" if "P s" "ensure_component (he_tx env) q s = (s', Inr x)" for s s' x using sound that by blast
  show "P s'" if "P s" "ensure_component (he_tx env) q s = (s', Inl e)" for s s' e using sound that by blast
qed

lemma keeps_fold_set: "(\<And>x. x \<in> set xs \<Longrightarrow> keeps Q (f x)) \<Longrightarrow> keeps Q (mfold f xs)"
  unfolding keeps_hoare by (rule hoare_fold)

lemma keeps_P_ensure:
  assumes "\<And>q. q \<in> set (path_chain p) \<Longrightarrow> ok_dir q"
  shows "keeps P (ensure_directory_for_write (he_tx env) p)"
  unfolding ensure_directory_for_write_def
  by (intro keeps_bind keeps_lift keeps_fold_set keeps_P_component assms)

lemma keeps_P_journal [keeps_rules]:
  "keeps P (write_journal env)" "keeps P (journal_applied env b p)" "keeps P (set_state env st)"
  "keeps P (checkpoint_states env m)" "keeps P (verify_restore_identities env ids)"
  "keeps P (scan_current_state env sc)"
  unfolding write_journal_def journal_applied_def set_state_def update_journal_def set_mem_def
    checkpoint_states_def verify_restore_identities_def verify_restore_identity_def scan_current_state_def
  by (intro keeps_rules keeps_put; simp)+

lemma keeps_P_created:
  assumes "\<And>a. a \<in> set missing \<Longrightarrow> ok_delete a"
  shows "keeps P (record_created env b missing)"
  unfolding record_created_def update_journal_def set_mem_def
  by (intro keeps_rules keeps_put, unfold P_def) (use assms in \<open>auto simp: sorted_set_def\<close>)

lemma keeps_P_apply_delete:
  assumes "ok_delete p"
  shows "keeps P (apply_delete env b ids cur p)" "keeps P (apply_remove_directory env b p)"
  unfolding apply_delete_def apply_remove_directory_def
  by (intro keeps_rules keeps_P_delete keeps_P_remove_directory assms)+

lemma keeps_P_apply_create_directory:
  assumes "\<And>q. q \<in> set (path_chain p) \<Longrightarrow> ok_dir q"
  shows "keeps P (apply_create_directory env b ids p)"
  unfolding apply_create_directory_def
  by (intro keeps_rules keeps_P_ensure keeps_P_directories assms)

lemma keeps_P_apply_write:
  assumes "ok_file (me_path e) (me_sha e)"
    and "\<And>q. q \<in> set (path_chain (parent_of (me_path e))) \<Longrightarrow> ok_dir q"
    and "\<And>live a. R live \<Longrightarrow> a \<in> set (missing_ancestors live (me_path e)) \<Longrightarrow> ok_delete a"
  shows "keeps P (apply_write env b ids st cur e)"
proof -
  have bytes: "keeps P (if tx_sha (he_tx env) data \<noteq> me_sha e then mfail x else
      case pi of None \<Rightarrow> mfail y | Some pi \<Rightarrow> let ti = f pi; digest = g ti in
        mbind (mlift (z ti digest)) (\<lambda>_. mbind (commit_bytes (he_tx env) (me_path e) data pi ti (w ti digest))
          (\<lambda>_. journal_applied env b (me_path e))))" for data x y pi f g z w
    using assms(1) unfolding Let_def
    by (cases "tx_sha (he_tx env) data = me_sha e") (auto intro!: keeps_rules keeps_P_bytes)
  show ?thesis
    unfolding apply_write_def
  proof (rule keeps_bind_value [where good = "\<lambda>missing. \<forall>a\<in>set missing. ok_delete a"], goal_cases)
    case 1
    show ?case by (rule hoare_get, unfold P_def) (use assms(3) in blast)
  next
    case (2 missing)
    then show ?case using assms(2)
      by (auto intro!: keeps_bind keeps_get keeps_lift keeps_P_created keeps_P_ensure keeps_P_arrive bytes)
  qed
qed

text \<open>What \<open>apply_manifest\<close> may do to the paths \<open>C\<close>, given the state it scanned.\<close>

definition may_apply :: "manifest \<Rightarrow> string list \<Rightarrow> state_map \<Rightarrow> bool" where
  "may_apply m C current \<longleftrightarrow>
     (\<forall>p\<in>set C.
        (p \<in> set (state_files current) \<and> p \<notin> set (List.map fst (entry_map m)) \<longrightarrow> ok_delete p)
      \<and> (p \<in> set (state_dirs current) \<and> (p \<in> set (List.map fst (entry_map m)) \<or> p \<notin> set (mf_dirs m)) \<longrightarrow> ok_delete p)
      \<and> (p \<in> set (mf_dirs m) \<longrightarrow> (\<forall>q\<in>set (path_chain p). ok_dir q))
      \<and> (\<forall>e. map_of (entry_map m) p = Some e \<longrightarrow>
           ok_file p (me_sha e) \<and> (\<forall>q\<in>set (path_chain (parent_of p)). ok_dir q)
           \<and> (\<forall>live a. R live \<longrightarrow> a \<in> set (missing_ancestors live p) \<longrightarrow> ok_delete a)))"

lemma keeps_P_may_write:
  assumes "may_apply m C current" "p \<in> set C" "map_of (entry_map m) p = Some e"
  shows "keeps P (apply_write env b ids st cur e)"
proof -
  have "me_path e = p" using assms(3) by (rule entry_map_path)
  then show ?thesis using assms unfolding may_apply_def by (intro keeps_P_apply_write) blast+
qed

lemma keeps_P_apply_manifest:
  assumes "\<And>live current. R live \<Longrightarrow> scan_live env (mf_scope m) live = Inr current \<Longrightarrow> may_apply m C current"
  shows "keeps P (apply_manifest env b st m (Some C) ex ids)"
  unfolding apply_manifest_def
proof (rule keeps_bind_value [where good = "may_apply m C"], goal_cases)
  case 1
  show ?case
  proof (rule hoareI)
    fix s s' current assume a: "P s" and sc: "scan_current_state env (mf_scope m) s = (s', Inr current)"
    have "P s'" using keepsD [OF keeps_P_journal(6) a sc] .
    then show "P s' \<and> may_apply m C current"
      using sc assms by (auto simp: P_def elim: scan_current_state_cases)
  next
    fix s s' e assume "P s" "scan_current_state env (mf_scope m) s = (s', Inl e)"
    then show "P s'" using keepsD [OF keeps_P_journal(6)] by blast
  qed
next
  case (2 current)
  show ?case
    unfolding Let_def option.case
    by (intro keeps_if keeps_fail keeps_bind keeps_P_journal keeps_fold_set keeps_P_apply_delete
        keeps_P_apply_create_directory)
      (use 2 keeps_P_may_write [OF 2] in
        \<open>auto simp: may_apply_def intro!: keeps_ret split: option.split\<close>)
qed

text \<open>The whole restore once its journal is bound.\<close>

definition PB :: "manifest \<Rightarrow> manifest \<Rightarrow> string list \<Rightarrow> hist \<Rightarrow> bool" where
  "PB before target C s \<longleftrightarrow> P s \<and> bound_to before target C s"

lemma keeps_PB: "keeps P m \<Longrightarrow> keeps (bound_to b t C) m \<Longrightarrow> keeps (PB b t C) m"
  by (simp add: keeps_def PB_def)

lemma keeps_PB_changed:
  assumes "keeps (PB b t C) (f C)"
  shows "keeps (PB b t C) (mbind (mget (\<lambda>s. j_changed (h_mem s))) f)"
  using assms by (intro keeps_bind_value [where good = "\<lambda>x. x = C"] hoare_get) (auto simp: PB_def bound_to_def)

lemma keeps_PB_mem:
  assumes strict and "\<And>j. j_changed j = C \<Longrightarrow> \<forall>a\<in>set (j_created j). ok_delete a \<Longrightarrow> keeps (PB b t C) (f j)"
  shows "keeps (PB b t C) (mbind (mget h_mem) f)"
  by (intro keeps_bind_value [where good = "\<lambda>j. j_changed j = C \<and> (\<forall>a\<in>set (j_created j). ok_delete a)"] hoare_get)
    (use assms in \<open>unfold PB_def P_def bound_to_def strict_def, auto\<close>)

lemma keeps_PB_restore_apply:
  assumes "\<And>live current. R live \<Longrightarrow> scan_live env (mf_scope target) live = Inr current \<Longrightarrow> may_apply target C current"
  shows "keeps (PB b t C) (restore_apply env expected target ids)"
proof -
  have "keeps (PB b t C) (set_state env Applying)"
    by (intro keeps_PB keeps_P_journal keeps_bound_set_state)
  moreover have "keeps (PB b t C) (apply_manifest env True True target (Some C) ex ids)" for ex
    by (intro keeps_PB keeps_P_apply_manifest bound.keeps_apply_manifest assms)
  moreover have "keeps (PB b t C) (scan_current_state env sc)" for sc
    by (intro keeps_PB keeps_P_journal bound.keeps_scan)
  ultimately show ?thesis
    unfolding restore_apply_def by (intro keeps_bind keeps_PB_changed keeps_check)
qed

lemma keeps_P_remove_created:
  assumes "\<And>a. a \<in> set ds \<Longrightarrow> ok_delete a"
  shows "keeps P (remove_created_directories env ds)"
  unfolding remove_created_directories_def remove_created_directory_def
  by (intro keeps_fold_set keeps_catch keeps_P_apply_delete)
    (use assms in \<open>auto intro!: keeps_ret keeps_fail split: error.split\<close>)

lemma keeps_PB_undo:
  assumes strict and "\<And>live current. R live \<Longrightarrow> scan_live env (mf_scope before) live = Inr current \<Longrightarrow> may_apply before C current"
  shows "keeps (PB b t C) (restore_undo env before target ids)"
proof -
  show ?thesis
    unfolding restore_undo_def
    by (intro keeps_bind keeps_PB_mem keeps_if keeps_fail)
      (use assms in \<open>auto intro!: keeps_PB keeps_P_apply_manifest keeps_P_journal keeps_P_remove_created
         bound.keeps_scan bound.keeps_apply_manifest bound.keeps_remove_created keeps_bound_set_state\<close>)
qed

lemma keeps_PB_set_state: "keeps (PB b t C) (set_state env st)"
  by (intro keeps_PB keeps_P_journal keeps_bound_set_state)

lemma keeps_PB_restore:
  assumes strict and "\<And>live current. R live \<Longrightarrow> scan_live env (mf_scope target) live = Inr current \<Longrightarrow> may_apply target C current"
    and "\<And>live current. R live \<Longrightarrow> scan_live env (mf_scope before) live = Inr current \<Longrightarrow> may_apply before C current"
  shows "keeps (PB b t C) (mbind (mcatch (restore_apply env expected target ids)
           (\<lambda>_. restore_recover env before target ids)) (\<lambda>_. set_state env AppliedVerified))"
  unfolding restore_recover_def
  by (intro keeps_bind keeps_catch keeps_PB_set_state keeps_if keeps_fail keeps_PB_restore_apply keeps_PB_undo assms)

end

section \<open>What a scan observes\<close>

definition state_at :: "tx_env \<Rightarrow> live \<Rightarrow> string \<Rightarrow> path_state option" where
  "state_at tx live p =
     (case map_of live p of
        Some (LiveFile i l d) \<Rightarrow> Some (FileSt (tx_sha tx d)) | Some (LiveDir i) \<Rightarrow> Some DirSt | _ \<Rightarrow> None)"

text \<open>The paths a scan reports, whatever stands there.\<close>

definition in_scope :: "hist_env \<Rightarrow> string list option \<Rightarrow> string \<Rightarrow> bool" where
  "in_scope env sc p \<longleftrightarrow>
     (case sc of
        Some ps \<Rightarrow> \<exists>q\<in>set ps. validated_relative_path q = Inr p
      | None \<Rightarrow> \<not> in_denied env (split_on (CHR ''/'') p) \<and> \<not> hidden_file env (split_on (CHR ''/'') p))"

lemma scan_path_Inr:
  assumes "scan_path env live acc q = Inr acc'"
  obtains p where "validated_relative_path q = Inr p"
    "map_of acc' = (case state_at (he_tx env) live p of None \<Rightarrow> map_of acc | Some v \<Rightarrow> (map_of acc)(p \<mapsto> v))"
proof -
  obtain p where p: "validated_relative_path q = Inr p"
    using assms by (auto simp: scan_path_def rbind_eq_Inr)
  show ?thesis
  proof (cases "map_of live p")
    case None
    then show ?thesis using assms p that by (auto simp: scan_path_def state_at_def rbind_eq_Inr)
  next
    case (Some n)
    then show ?thesis using assms p that
      by (cases n) (auto simp: scan_path_def state_at_def update_conv' split: if_splits)
  qed
qed

lemma scan_scoped:
  assumes "rfold (scan_path env live) acc ps = Inr st"
    and "\<And>p v. map_of acc p = Some v \<Longrightarrow> state_at (he_tx env) live p = Some v"
  shows "(\<forall>p v. map_of st p = Some v \<longrightarrow> state_at (he_tx env) live p = Some v)
    \<and> (\<forall>p. map_of acc p \<noteq> None \<longrightarrow> map_of st p \<noteq> None)
    \<and> (\<forall>q\<in>set ps. \<forall>p. validated_relative_path q = Inr p \<longrightarrow> map_of st p = state_at (he_tx env) live p)"
  using assms
proof (induction ps arbitrary: acc)
  case (Cons q ps)
  obtain acc' where a: "scan_path env live acc q = Inr acc'" "rfold (scan_path env live) acc' ps = Inr st"
    using Cons.prems(1) by (auto simp: rbind_eq_Inr split: sum.splits)
  obtain p where p: "validated_relative_path q = Inr p"
    and m: "map_of acc' = (case state_at (he_tx env) live p of None \<Rightarrow> map_of acc | Some v \<Rightarrow> (map_of acc)(p \<mapsto> v))"
    using a(1) by (rule scan_path_Inr)
  have s': "state_at (he_tx env) live x = Some v" if "map_of acc' x = Some v" for x v
    using that m Cons.prems(2) by (auto split: option.splits if_splits)
  have mono: "map_of acc x \<noteq> None \<longrightarrow> map_of acc' x \<noteq> None" for x using m by (auto split: option.splits)
  have seen: "map_of acc' p = state_at (he_tx env) live p"
    using m Cons.prems(2) [of p] by (cases "map_of acc p") (auto split: option.splits)
  have IH: "(\<forall>x v. map_of st x = Some v \<longrightarrow> state_at (he_tx env) live x = Some v)
      \<and> (\<forall>x. map_of acc' x \<noteq> None \<longrightarrow> map_of st x \<noteq> None)
      \<and> (\<forall>q\<in>set ps. \<forall>x. validated_relative_path q = Inr x \<longrightarrow> map_of st x = state_at (he_tx env) live x)"
    by (rule Cons.IH [OF a(2) s'])
  have here: "map_of st p = state_at (he_tx env) live p"
  proof (cases "map_of st p")
    case None
    then have "map_of acc' p = None" using IH by blast
    then show ?thesis using None seen by simp
  next
    case (Some v)
    then have "state_at (he_tx env) live p = Some v" using IH by blast
    then show ?thesis using Some by simp
  qed
  have "map_of st x = state_at (he_tx env) live x"
    if "y \<in> set (q # ps)" "validated_relative_path y = Inr x" for x y
  proof (cases "y = q")
    case True
    then have "x = p" using that(2) p by simp
    then show ?thesis using here by simp
  next
    case False
    then have "y \<in> set ps" using that(1) by simp
    then show ?thesis using that(2) IH by blast
  qed
  then show ?case using IH mono by blast
qed simp

lemma scan_walk:
  assumes "rfold (walk_node env) acc live = Inr st" "distinct (List.map fst live)" "in_scope env None p"
  shows "map_of st p = (if p \<in> set (List.map fst live) \<and> state_at (he_tx env) live p \<noteq> None
           then state_at (he_tx env) live p else map_of acc p)"
  using assms(1,2)
proof (induction live arbitrary: acc)
  case (Cons x live)
  obtain q n where x: "x = (q, n)" by (cases x)
  obtain acc' where a: "walk_node env acc (q, n) = Inr acc'" "rfold (walk_node env) acc' live = Inr st"
    using Cons.prems(1) x by (auto simp: rbind_eq_Inr split: sum.splits)
  have IH: "map_of st p = (if p \<in> set (List.map fst live) \<and> state_at (he_tx env) live p \<noteq> None
           then state_at (he_tx env) live p else map_of acc' p)"
    using Cons.IH [OF a(2)] Cons.prems(2) by simp
  show ?case
  proof (cases "p = q")
    case True
    then have "p \<notin> fst ` set live" using Cons.prems(2) x by auto
    then show ?thesis
      using IH a(1) assms(3) True x
      by (cases n) (auto simp: state_at_def walk_node_def Let_def in_scope_def update_conv' split: if_splits)
  next
    case False
    have "map_of acc' p = map_of acc p"
      using a(1) False by (cases n) (auto simp: walk_node_def Let_def update_conv' split: if_splits)
    moreover have "state_at (he_tx env) (x # live) p = state_at (he_tx env) live p"
      using False x by (simp add: state_at_def)
    ultimately show ?thesis using IH False x by auto
  qed
qed simp

lemma scan_live_state:
  assumes "scan_live env sc live = Inr st" "distinct (List.map fst live)" "in_scope env sc p"
  shows "map_of st p = state_at (he_tx env) live p"
proof (cases sc)
  case None
  have "state_at (he_tx env) live p = None" if "p \<notin> set (List.map fst live)"
    using not_in_map [OF that] by (simp add: state_at_def)
  then show ?thesis using scan_walk [of env "[]" live st p] assms None by (auto simp: scan_live_def)
next
  case (Some ps)
  then show ?thesis using scan_scoped [of env live "[]" "sorted_set ps" st] assms
    by (auto simp: scan_live_def in_scope_def sorted_set_def)
qed

section \<open>Every path is as before or as intended\<close>

definition without_interference :: "hist_env \<Rightarrow> hist_env" where
  "without_interference env =
     env\<lparr>he_tx := (he_tx env)\<lparr>tx_event_at := (\<lambda>n. (tx_event_at (he_tx env) n)\<lparr>ev_foreign := []\<rparr>)\<rparr>\<rparr>"

lemma without_interference_id [simp]: "no_interference (he_tx env) \<Longrightarrow> without_interference env = env"
proof -
  assume "no_interference (he_tx env)"
  then have "(tx_event_at (he_tx env) n)\<lparr>ev_foreign := []\<rparr> = tx_event_at (he_tx env) n" for n
    by (simp add: no_interference_def)
  then show ?thesis by (simp add: without_interference_def)
qed

lemma without_interference_sel [simp]:
  "no_interference (he_tx (without_interference env))"
  "tx_sha (he_tx (without_interference env)) = tx_sha (he_tx env)"
  by (simp_all add: without_interference_def no_interference_def)

definition as_before_or_intended ::
  "(string \<Rightarrow> bool) \<Rightarrow> state_map \<Rightarrow> state_map \<Rightarrow> string \<Rightarrow> path_state option \<Rightarrow> bool" where
  "as_before_or_intended inside before target p v \<longleftrightarrow>
     (inside p \<longrightarrow> v = map_of before p \<or> v = map_of target p)"

definition attributable ::
  "tx_env \<Rightarrow> (string \<Rightarrow> bool) \<Rightarrow> state_map \<Rightarrow> state_map \<Rightarrow> live \<Rightarrow> bool" where
  "attributable tx inside before target live \<longleftrightarrow>
     distinct (List.map fst live)
     \<and> (\<forall>p. as_before_or_intended inside before target p (state_at tx live p))"

lemma state_at_delete: "state_at tx (AList.delete p live) q = (if q = p then None else state_at tx live q)"
  by (simp add: state_at_def delete_conv')

lemma state_at_update:
  "state_at tx (AList.update p n live) q = (if q = p then state_at tx [(p, n)] p else state_at tx live q)"
  by (simp add: state_at_def update_conv')

lemma written_node_state: "written_node tx live p data n \<Longrightarrow> state_at tx' [(p, n)] p = Some (FileSt (tx_sha tx' data))"
  by (auto simp: written_node_def created_file_def rewritten_file_def state_at_def)

interpretation attributed: live_invariant "without_interference env" "attributable (he_tx env) inside before target"
  "\<lambda>p. as_before_or_intended inside before target p None"
  "\<lambda>p d. as_before_or_intended inside before target p (Some (FileSt d))"
  "\<lambda>p. as_before_or_intended inside before target p (Some DirSt)" True
  for env inside before target
proof unfold_locales
  fix live p data n
  assume "attributable (he_tx env) inside before target live"
    "as_before_or_intended inside before target p (Some (FileSt (tx_sha (he_tx (without_interference env)) data)))"
    "written_node (he_tx (without_interference env)) live p data n"
  then show "attributable (he_tx env) inside before target (AList.update p n live)"
    using written_node_state [of _ live p data n "he_tx env"]
    by (auto simp: attributable_def state_at_update distinct_update)
qed (auto simp: attributable_def state_at_delete state_at_update distinct_update distinct_delete, simp add: state_at_def)

lemma attributed_strict: "attributed.strict"
  by (simp add: attributed.strict_def)

text \<open>
  The restores the statement is about: no path turns from a file into a directory or back, and the
  directories on the way to a changed path are directories before or afterwards.
\<close>

definition keeps_kinds :: "state_map \<Rightarrow> state_map \<Rightarrow> bool" where
  "keeps_kinds before target \<longleftrightarrow>
     (\<forall>p d. \<not> (map_of before p = Some DirSt \<and> map_of target p = Some (FileSt d))
        \<and> \<not> (map_of target p = Some DirSt \<and> map_of before p = Some (FileSt d)))"

definition ways_are_directories ::
  "(string \<Rightarrow> bool) \<Rightarrow> state_map \<Rightarrow> state_map \<Rightarrow> bool" where
  "ways_are_directories inside before target \<longleftrightarrow>
     (\<forall>p v. map_of before p \<noteq> map_of target p \<longrightarrow> (map_of before p = Some v \<or> map_of target p = Some v) \<longrightarrow>
        (\<forall>q\<in>set (path_chain (parent_of p)) \<union> (if v = DirSt then set (path_chain p) else {}).
           as_before_or_intended inside before target q (Some DirSt)))"

lemma commute:
  "as_before_or_intended inside a b = as_before_or_intended inside b a"
  "attributable tx inside a b = attributable tx inside b a"
  "keeps_kinds a b = keeps_kinds b a"
  "ways_are_directories inside a b = ways_are_directories inside b a"
proof -
  show c: "as_before_or_intended inside a b = as_before_or_intended inside b a" for a b
    by (auto simp: as_before_or_intended_def fun_eq_iff)
  show "attributable tx inside a b = attributable tx inside b a"
    by (simp add: attributable_def [abs_def] c [of a b])
  show "keeps_kinds a b = keeps_kinds b a" by (auto simp: keeps_kinds_def)
  show "ways_are_directories inside a b = ways_are_directories inside b a"
    by (simp add: ways_are_directories_def c [of a b] disj_commute eq_commute [of "map_of b _"])
qed

lemma without_interference_scope [simp]:
  "in_scope (without_interference env) = in_scope env"
  "state_at (he_tx (without_interference env)) = state_at (he_tx env)"
  by (auto simp: in_scope_def in_denied_def hidden_file_def without_interference_def state_at_def fun_eq_iff
      split: option.split live_node.split)

lemma state_map_entry:
  "disjoint_kinds m \<Longrightarrow> map_of (entry_map m) p = Some e \<Longrightarrow> map_of (state_map m) p = Some (FileSt (me_sha e))"
  using disjoint_kinds_entry [of m p] by (auto simp: map_of_state_map)

lemma state_map_cases:
  "p \<in> set (mf_dirs m) \<Longrightarrow> map_of (state_map m) p = Some DirSt"
  "p \<notin> set (mf_dirs m) \<Longrightarrow> map_of (state_map m) p \<noteq> Some DirSt"
  "p \<notin> set (List.map fst (entry_map m)) \<Longrightarrow> map_of (state_map m) p \<noteq> Some (FileSt d)"
  using not_in_map [of p "entry_map m"] by (auto simp: map_of_state_map)

lemma scan_step:
  "scan_path env live acc q = Inr acc' \<Longrightarrow> acc' = acc \<or> (\<exists>p v. acc' = AList.update p v acc)"
  "walk_node env acc (p, n) = Inr acc' \<Longrightarrow> acc' = acc \<or> (\<exists>p v. acc' = AList.update p v acc)"
proof -
  assume a: "scan_path env live acc q = Inr acc'"
  obtain p where p: "validated_relative_path q = Inr p" using a by (auto simp: scan_path_def rbind_eq_Inr)
  show "acc' = acc \<or> (\<exists>p v. acc' = AList.update p v acc)"
  proof (cases "map_of live p")
    case None
    then show ?thesis using a p by (auto simp: scan_path_def rbind_eq_Inr)
  next
    case (Some n)
    then show ?thesis using a p by (cases n) (auto simp: scan_path_def split: if_splits)
  qed
next
  assume "walk_node env acc (p, n) = Inr acc'"
  then show "acc' = acc \<or> (\<exists>p v. acc' = AList.update p v acc)"
    by (cases n) (auto simp: walk_node_def Let_def split: if_splits)
qed

lemma scan_distinct:
  assumes "scan_live env sc live = Inr st"
  shows "distinct (List.map fst st)"
proof -
  have "distinct (List.map fst st)" if "rfold (scan_path env live) [] ps = Inr st" for ps
    using _ _ that
    by (rule rfold_invariant [where P = "\<lambda>st. distinct (List.map fst st)"])
      (auto dest!: scan_step simp: distinct_update)
  moreover have "distinct (List.map fst st)" if "rfold (walk_node env) [] live = Inr st"
    using _ _ that
    by (rule rfold_invariant [where P = "\<lambda>st. distinct (List.map fst st)"])
      (auto dest!: scan_step simp: distinct_update)
  ultimately show ?thesis using assms by (auto simp: scan_live_def split: option.splits)
qed

lemma scanned_kinds:
  assumes "distinct (List.map fst st)"
  shows "p \<in> set (state_files st) \<Longrightarrow> \<exists>d. map_of st p = Some (FileSt d)"
    "p \<in> set (state_dirs st) \<Longrightarrow> map_of st p = Some DirSt"
proof -
  have v: "map_of st p = Some v" if "(p, v) \<in> set st" for v using assms that by (simp add: map_of_eq_Some_iff)
  show "p \<in> set (state_files st) \<Longrightarrow> \<exists>d. map_of st p = Some (FileSt d)"
    using v by (auto simp: state_files_def) (metis path_state.exhaust)
  show "p \<in> set (state_dirs st) \<Longrightarrow> map_of st p = Some DirSt"
    using v by (auto simp: state_dirs_def)
qed

lemma current_state:
  assumes "attributable (he_tx env) (in_scope env sc) before target live"
    and "scan_live (without_interference env) sc live = Inr current" "in_scope env sc p"
  shows "map_of current p = map_of before p \<or> map_of current p = map_of target p"
  using assms scan_live_state [of "without_interference env" sc live current p]
  by (auto simp: attributable_def as_before_or_intended_def)

lemma attributed_may_apply:
  assumes att: "attributable (he_tx env) (in_scope env sc) other (state_map m) live"
    and scan: "scan_live (without_interference env) sc live = Inr current"
    and kinds: "keeps_kinds other (state_map m)"
    and ways: "ways_are_directories (in_scope env sc) other (state_map m)"
    and m: "disjoint_kinds m" and C: "\<forall>p\<in>set C. map_of other p \<noteq> map_of (state_map m) p"
  shows "attributed.may_apply env (in_scope env sc) other (state_map m) m C current"
proof -
  let ?in = "in_scope env sc" and ?ok = "as_before_or_intended (in_scope env sc) other (state_map m)"
  have cur: "map_of current p = map_of other p \<or> map_of current p = map_of (state_map m) p" if "?in p" for p
    using current_state [OF att scan that] .
  note sk = scanned_kinds [OF scan_distinct [OF scan]]
  have none_left: "?ok p None"
    if "map_of current p = Some v" "?in p \<Longrightarrow> map_of (state_map m) p \<noteq> Some v"
      "?in p \<Longrightarrow> map_of current p = map_of other p \<or> map_of current p = map_of (state_map m) p"
      "v = DirSt \<or> (\<forall>d. map_of (state_map m) p \<noteq> Some (FileSt d))" for p v
  proof (cases "?in p")
    case True
    then have "map_of other p = Some v" using that by auto
    then have "map_of (state_map m) p = None"
      using kinds that(2) [OF True] that(4) by (cases "map_of (state_map m) p"; cases "the (map_of (state_map m) p)"; cases v)
        (auto simp: keeps_kinds_def)
    then show ?thesis by (simp add: as_before_or_intended_def)
  qed (simp add: as_before_or_intended_def)
  have gone: "?ok p None" if "p \<in> set (state_files current)" "p \<notin> set (List.map fst (entry_map m))" for p
    using cur [of p] sk(1) [OF that(1)] state_map_cases(3) [OF that(2)] none_left [of p] by blast
  have dead: "?ok p None" if "p \<in> set (state_dirs current)"
    "p \<in> set (List.map fst (entry_map m)) \<or> p \<notin> set (mf_dirs m)" for p
  proof -
    have "p \<notin> set (mf_dirs m)" using that(2) m by (auto simp: disjoint_kinds_def entry_map_def)
    then show ?thesis
      using cur [of p] sk(2) [OF that(1)] state_map_cases(2) [of p m] none_left [of p] by metis
  qed
  have way: "\<forall>q\<in>set (path_chain (parent_of p)) \<union> (if v = DirSt then set (path_chain p) else {}). ?ok q (Some DirSt)"
    if "p \<in> set C" "map_of (state_map m) p = Some v" for p v
    using ways C that unfolding ways_are_directories_def by blast
  have missing: "?ok a None" if "attributable (he_tx env) ?in other (state_map m) l" "a \<in> set (missing_ancestors l p)" for l a p
  proof -
    have "map_of l a = None" using that(2) by (auto simp: missing_ancestors_def dest: set_takeWhileD)
    then have "state_at (he_tx env) l a = None" by (simp add: state_at_def)
    then show ?thesis using that(1) by (auto simp: attributable_def dest: spec [of _ a])
  qed
  have entry: "?ok p (Some (FileSt (me_sha e)))" if "map_of (entry_map m) p = Some e" for p e
    using state_map_entry [OF m that] by (simp add: as_before_or_intended_def)
  show ?thesis
    unfolding attributed.may_apply_def
    using gone dead missing entry way state_map_cases(1) [of _ m] state_map_entry [OF m]
    by (intro ballI conjI allI impI) (blast | fastforce)+
qed

section \<open>From the start of a restore to its changes\<close>

definition start_restore :: "manifest \<Rightarrow> hist \<Rightarrow> hist" where
  "start_restore target s = s\<lparr>h_mem := (fresh_journal ''workspace_restore'' Preflight)\<lparr>j_target := Some target\<rparr>\<rparr>"

definition early_mem :: "journal option \<Rightarrow> hist \<Rightarrow> bool" where
  "early_mem j0 s \<longleftrightarrow> (h_journal s = j0 \<or> early_or_none s) \<and> j_state (h_mem s) \<in> set early_states"

lemma framed_early: "framed (early_mem j0)"
  by (simp add: framed_def early_mem_def early_or_none_def)

lemma keeps_early_journal:
  assumes "\<And>j. j_state j \<in> set early_states \<Longrightarrow> j_state (f j) \<in> set early_states"
  shows "keeps (early_mem j0) (update_journal env f)"
  unfolding update_journal_def set_mem_def write_journal_def
  by (intro keeps_rules keeps_put keeps_arrive framed_early)
    (use assms in \<open>auto simp: early_mem_def early_or_none_def\<close>)

lemma keeps_early_preflight:
  "keeps (early_mem j0) (restore_preflight env expected target ids)"
  "keeps (early_mem j0) (write_journal env)" "keeps (early_mem j0) (set_state env FailedPreflight)"
proof -
  have looks: "early_mem j0 (s\<lparr>h_blobs := b\<rparr>) = early_mem j0 s" "early_mem j0 (s\<lparr>h_staged := st\<rparr>) = early_mem j0 s"
    for s b st by (simp_all add: early_mem_def early_or_none_def)
  note keep = keeps_mem_looks [OF framed_early looks]
  have failed: "keeps (early_mem j0) (set_state env FailedPreflight)"
    unfolding set_state_def by (rule keeps_early_journal) (simp add: early_states_def)
  have scan: "keeps (early_mem j0) (scan_current_state env sc)" "keeps (early_mem j0) (checkpoint_states env m)" for sc m
    unfolding scan_current_state_def checkpoint_states_def by (intro keeps_rules keeps_arrive framed_early)+
  show "keeps (early_mem j0) (set_state env FailedPreflight)" by (rule failed)
  show "keeps (early_mem j0) (write_journal env)"
    unfolding write_journal_def by (intro keeps_rules keeps_put keeps_arrive framed_early)
      (auto simp: early_mem_def early_or_none_def)
  show "keeps (early_mem j0) (restore_preflight env expected target ids)"
    unfolding restore_preflight_def Let_def
    by (intro keeps_rules keep failed scan keeps_early_journal) (simp add: early_states_def)
qed

definition finish_restore ::
  "hist_env \<Rightarrow> manifest \<Rightarrow> manifest \<Rightarrow> identities option \<Rightarrow> manifest \<Rightarrow> (hist, unit) op" where
  "finish_restore env expected target ids current =
     mbind (mcatch (restore_apply env expected target ids) (\<lambda>_. restore_recover env current target ids))
       (\<lambda>_. set_state env AppliedVerified)"

text \<open>Conditions that changes of the journal's state cannot break either.\<close>

locale journal_binding = journal_condition +
  assumes state_ok: "P s \<Longrightarrow> P (s\<lparr>h_mem := (h_mem s)\<lparr>j_state := st\<rparr>\<rparr>)"
begin

lemma keeps_state: "keeps P (set_state env st)"
  unfolding set_state_def update_journal_def set_mem_def by (intro keeps_rules keeps_put state_ok)

lemma keeps_finish: "keeps P (finish_restore env expected target ids current)"
  unfolding finish_restore_def restore_apply_def restore_recover_def restore_undo_def
  by (intro keeps_rules keeps_state)

end

text \<open>The durable journal, the one in memory and the stored contents are those of the attempt.\<close>

definition journal_of :: "manifest \<Rightarrow> manifest \<Rightarrow> string list \<Rightarrow> journal \<Rightarrow> bool" where
  "journal_of before target changed j \<longleftrightarrow>
     j_kind j = ''workspace_restore'' \<and> j_before j = Some before \<and> j_target j = Some target \<and> j_changed j = changed"

definition durable :: "manifest \<Rightarrow> manifest \<Rightarrow> string list \<Rightarrow> blobs \<Rightarrow> hist \<Rightarrow> bool" where
  "durable before target changed bs s \<longleftrightarrow>
     journal_of before target changed (h_mem s) \<and> h_blobs s = bs
     \<and> (\<exists>j. h_journal s = Some j \<and> journal_of before target changed j)"

interpretation durable: journal_binding "durable before target changed bs"
  by unfold_locales (auto simp: framed_def durable_def journal_of_def)

lemma restore_cases:
  assumes "restore_workspace_state env expected target ids s = (s', r)"
  obtains (early) e where "r = Inl e" "untouched env (tx_clock s) (tx_live s) s'" "early_mem (h_journal s) s'"
  | (late) t t' current where "write_journal env (start_restore target s) = (t, Inr ())"
      "restore_preflight env expected target ids t = (t', Inr current)"
      "finish_restore env expected target ids current t' = (s', r)"
proof -
  let ?Q = "\<lambda>u. untouched env (tx_clock s) (tx_live s) u \<and> early_mem (h_journal s) u"
  let ?h = "\<lambda>e. mbind (mget (\<lambda>s. j_state (h_mem s))) (\<lambda>st.
                if st \<in> set journal_terminal then mfail e
                else mbind (set_state env FailedPreflight) (\<lambda>_. mfail e)) :: (hist, manifest) op"
  have kQ: "keeps ?Q m" if "keeps (untouched env (tx_clock s) (tx_live s)) m" "keeps (early_mem (h_journal s)) m"
    for m :: "(hist, 'z) op" using that by (simp add: keeps_def)
  have kh: "keeps ?Q (?h e)" for e
    by (rule kQ) (intro keeps_rules keeps_early_preflight)+
  have kp: "keeps ?Q (restore_preflight env expected target ids)" "keeps ?Q (write_journal env)"
    by (rule kQ; intro keeps_rules keeps_early_preflight)+
  have h: "?h e u \<noteq> (v, Inr x)" for e u v x by (auto simp: op_simps split: if_splits)
  have s0: "?Q (start_restore target s)"
    by (simp add: untouched_def start_restore_def early_mem_def fresh_journal_def early_states_def)
  have run: "mbind (write_journal env) (\<lambda>_. mbind (mcatch (restore_preflight env expected target ids) ?h)
      (finish_restore env expected target ids)) (start_restore target s) = (s', r)"
    using assms unfolding restore_workspace_state_def finish_restore_def start_restore_def by (simp add: mbind_eq mput_eq)
  obtain t x where w: "write_journal env (start_restore target s) = (t, x)" by fastforce
  have t: "?Q t" using keepsD [OF kp(2) s0 w] .
  show ?thesis
  proof (cases x)
    case (Inl e)
    then show ?thesis using run w t early by (auto simp: mbind_eq)
  next
    case (Inr u)
    obtain t' y where p: "restore_preflight env expected target ids t = (t', y)" by fastforce
    have t': "?Q t'" using keepsD [OF kp(1) t p] .
    show ?thesis
    proof (cases y)
      case (Inr current)
      then show ?thesis using run w p \<open>x = Inr u\<close> late by (auto simp: mbind_eq mcatch_eq)
    next
      case (Inl e)
      obtain v z where hv: "?h e t' = (v, z)" by fastforce
      then obtain e' where z: "z = Inl e'" using h by (cases z) auto
      have "?Q v" using keepsD [OF kh t' hv] .
      moreover have "s' = v" "r = Inl e'"
        using run w p Inl \<open>x = Inr u\<close> hv z by (auto simp: mbind_def mcatch_def)
      ultimately show ?thesis using early by blast
    qed
  qed
qed

lemma capture_Inr:
  assumes "capture_workspace_state env sc s = (s', Inr m)"
  shows "\<exists>st. scan_live env sc (tx_live s') = Inr st
    \<and> m = \<lparr>mf_files = List.map (capture_entry env (tx_live s')) (state_files st), mf_dirs = state_dirs st, mf_scope = sc\<rparr>"
proof -
  have blobs: "tx_live u = tx_live v" if "mfold (capture_blob env n l) ps v = (u, x)" for n l ps v u x
    using that by (induction ps arbitrary: v) (auto simp: capture_blob_def op_simps)
  show ?thesis
    using assms unfolding capture_workspace_state_def
    by (auto simp: op_simps dest!: blobs split: if_splits)
qed

lemma capture_disjoint:
  assumes "distinct (List.map fst st)"
  shows "disjoint_kinds \<lparr>mf_files = List.map (capture_entry env live) (state_files st), mf_dirs = state_dirs st, mf_scope = sc\<rparr>"
  using scanned_kinds [OF assms] by (fastforce simp: disjoint_kinds_def capture_entry_def)

lemma captured_state:
  assumes "capture_workspace_state env sc s = (s', Inr m)" "distinct (List.map fst (tx_live s'))" "in_scope env sc p"
  shows "map_of (state_map m) p = state_at (he_tx env) (tx_live s') p"
proof -
  obtain st where sc: "scan_live env sc (tx_live s') = Inr st"
    and m: "m = \<lparr>mf_files = List.map (capture_entry env (tx_live s')) (state_files st), mf_dirs = state_dirs st, mf_scope = sc\<rparr>"
    using capture_Inr [OF assms(1)] by blast
  have st: "map_of st p = state_at (he_tx env) (tx_live s') p" by (rule scan_live_state [OF sc assms(2,3)])
  note d = scan_distinct [OF sc]
  have e: "entry_map m = List.map (\<lambda>q. (q, capture_entry env (tx_live s') q)) (state_files st)"
    by (simp add: m entry_map_def capture_entry_def)
  have "map_of (List.map (\<lambda>q. (q, capture_entry env (tx_live s') q)) qs) p
      = (if p \<in> set qs then Some (capture_entry env (tx_live s') p) else None)" for qs
    by (induction qs) auto
  then have em: "map_of (entry_map m) p = (if p \<in> set (state_files st) then Some (capture_entry env (tx_live s') p) else None)"
    by (simp add: e)
  have files: "p \<in> set (state_files st) \<longleftrightarrow> (\<exists>d. map_of st p = Some (FileSt d))"
    and dirs: "p \<in> set (state_dirs st) \<longleftrightarrow> map_of st p = Some DirSt"
    using scanned_kinds [OF d, of p] by (force simp: state_files_def state_dirs_def dest: map_of_SomeD)+
  show ?thesis
  proof (cases "map_of st p")
    case None
    then show ?thesis using st em files dirs by (simp add: map_of_state_map m)
  next
    case (Some v)
    then show ?thesis
      using st em files dirs
      by (cases v) (auto simp: map_of_state_map m capture_entry_def file_data_def state_at_def
          split: option.splits live_node.splits)
  qed
qed

lemma preflight_facts:
  assumes "restore_preflight env expected target ids s = (s', Inr current)" "no_interference (he_tx env)"
    and "distinct (List.map fst (tx_live s))"
  shows "tx_live s' = tx_live s \<and> mf_scope current = mf_scope target \<and> mf_scope expected = mf_scope target
    \<and> disjoint_kinds current
    \<and> (\<forall>p. in_scope env (mf_scope target) p \<longrightarrow> map_of (state_map current) p = state_at (he_tx env) (tx_live s) p)"
proof -
  have same: "tx_live t = tx_live s" if "keeps (untouched env (tx_clock s) (tx_live s)) m" "m s = (t, r)"
    for m :: "(hist, 'z) op" and t r
    using keepsD [OF that(1) untouched_start that(2)] assms(2) unfolding untouched_def by (metis foreign_run_id)
  obtain t where c: "capture_workspace_state env (mf_scope target) s = (t, Inr current)"
    and sc: "mf_scope expected = mf_scope target"
    using assms(1) by (elim restore_preflight_cases) metis
  have lt: "tx_live t = tx_live s" using same [OF keeps_untouched_capture c] .
  obtain st where st: "scan_live env (mf_scope target) (tx_live t) = Inr st"
    and m: "current = \<lparr>mf_files = List.map (capture_entry env (tx_live t)) (state_files st), mf_dirs = state_dirs st,
              mf_scope = mf_scope target\<rparr>"
    using capture_Inr [OF c] by blast
  show ?thesis
    using captured_state [OF c] capture_disjoint [OF scan_distinct [OF st], of env "tx_live t"] lt assms(3) sc m
      same [OF keeps_untouched_preflight assms(1)]
    by simp
qed

lemma equal_states:
  assumes "map_of a = map_of b"
  shows "as_before_or_intended inside a t = as_before_or_intended inside b t" "keeps_kinds a t = keeps_kinds b t"
    "ways_are_directories inside a t = ways_are_directories inside b t"
  using assms by (simp_all add: as_before_or_intended_def [abs_def] keeps_kinds_def ways_are_directories_def)

text \<open>The state when the changes begin.\<close>

lemma restore_begins:
  assumes w: "write_journal env (start_restore target s) = (t, Inr ())"
    and p: "restore_preflight env expected target ids t = (t', Inr current)"
    and alone: "no_interference (he_tx env)" and d: "distinct (List.map fst (tx_live s))"
  shows "tx_live t' = tx_live s" "mf_scope current = mf_scope target" "disjoint_kinds current"
    "\<And>q. in_scope env (mf_scope target) q \<Longrightarrow> map_of (state_map current) q = state_at (he_tx env) (tx_live s) q"
    "bound_to current target (changed_paths current target) t'" "h_journal t' = Some (h_mem t')"
    "j_created (h_mem t') = []" "map_of (state_map expected) = map_of (state_map current)"
proof -
  have tl: "tx_live t = tx_live s"
    using keepsD [OF keeps_untouched(1) untouched_start w] alone by (simp add: untouched_def start_restore_def)
  note f = preflight_facts [OF p alone, unfolded tl, OF d]
  have mem: "j_target (h_mem t) = Some target" "j_kind (h_mem t) = ''workspace_restore''" "j_created (h_mem t) = []"
    using w by (auto simp: write_journal_def start_restore_def fresh_journal_def op_simps dest!: arrive_mem)
  note b = restore_preflight_bound [OF p mem(1,2)]
  show "tx_live t' = tx_live s" "mf_scope current = mf_scope target" "disjoint_kinds current"
    "\<And>q. in_scope env (mf_scope target) q \<Longrightarrow> map_of (state_map current) q = state_at (he_tx env) (tx_live s) q"
    using f by blast+
  show "bound_to current target (changed_paths current target) t'" "h_journal t' = Some (h_mem t')"
    using b by blast+
  show "map_of (state_map expected) = map_of (state_map current)" using b same_state_iff by blast
  have looks: "framed (\<lambda>s. j_created (h_mem s) = [])" by (simp add: framed_def)
  note keep = keeps_mem_looks [OF looks, simplified]
  show "j_created (h_mem t') = []" using p
  proof (cases rule: restore_preflight_cases)
    case (1 t1 t2 t3 t4)
    have "j_created (h_mem t1) = []" using keepsD [OF keep(1) mem(3) 1(3)] .
    then have "j_created (h_mem t2) = []" using keepsD [OF keep(2) _ 1(6)] by simp
    then have "j_created (h_mem t3) = []" using keepsD [OF keeps_fold [OF keep(3)] _ 1(7)] by simp
    then have "j_created (h_mem t4) = []" using keepsD [OF keep(4) _ 1(8)] by simp
    then show ?thesis using 1(9)
      by (auto simp: update_journal_def set_mem_def write_journal_def op_simps dest!: arrive_mem)
  qed
qed

lemma finish_keeps_attributed:
  assumes "no_interference (he_tx env)" "mf_scope current = mf_scope target"
    "disjoint_kinds current" "disjoint_kinds target"
    and hyp: "keeps_kinds (state_map current) (state_map target)"
      "ways_are_directories (in_scope env (mf_scope target)) (state_map current) (state_map target)"
  shows "keeps (attributed.PB env (in_scope env (mf_scope target)) (state_map current) (state_map target)
           current target (changed_paths current target)) (finish_restore env expected target ids current)"
proof -
  let ?in = "in_scope env (mf_scope target)" and ?C = "changed_paths current target"
  note c = commute(1) [of ?in "state_map target" "state_map current"]
    commute(2) [of "he_tx env" ?in "state_map target" "state_map current"]
    commute(3) [of "state_map target" "state_map current"]
    commute(4) [of ?in "state_map target" "state_map current"]
  have C: "\<forall>p\<in>set ?C. map_of (state_map current) p \<noteq> map_of (state_map target) p"
    by (simp add: changed_paths_iff)
  have "keeps (attributed.PB env ?in (state_map current) (state_map target) current target ?C)
      (finish_restore (without_interference env) expected target ids current)"
    unfolding finish_restore_def
  proof (rule attributed.keeps_PB_restore [OF attributed_strict])
    fix live cur assume a: "attributable (he_tx env) ?in (state_map current) (state_map target) live"
    show "attributed.may_apply env ?in (state_map current) (state_map target) target ?C cur"
      if "scan_live (without_interference env) (mf_scope target) live = Inr cur"
      using attributed_may_apply [OF a that hyp assms(4) C] .
    show "attributed.may_apply env ?in (state_map current) (state_map target) current ?C cur"
      if "scan_live (without_interference env) (mf_scope current) live = Inr cur"
    proof -
      have "scan_live (without_interference env) (mf_scope target) live = Inr cur" using that assms(2) by simp
      moreover have "\<forall>p\<in>set ?C. map_of (state_map target) p \<noteq> map_of (state_map current) p" using C by metis
      ultimately have "attributed.may_apply env ?in (state_map target) (state_map current) current ?C cur"
        using attributed_may_apply [of env "mf_scope target" "state_map target" current live cur ?C] a hyp assms(3)
        unfolding c by blast
      then show ?thesis unfolding attributed.may_apply_def c .
    qed
  qed
  then show ?thesis using assms(1) by simp
qed

text \<open>
  C2. While nobody else changes the workspace, a restore can be cut off anywhere, by the end of the
  process or a failing step, also while it undoes a failed attempt: every path of its scope is then as
  it was or as the target has it. This is about restores that turn no file into a directory and no
  directory into a file, and under which the directories on the way to a changed path are directories
  before or afterwards. (A restore that replaces a directory by a file removes the directory in one
  phase and writes the file in a later one, so in between the path is neither.)
\<close>

theorem restore_cut_off_is_attributable:
  assumes "restore_workspace_state env expected target ids s = (s', r)"
    and "no_interference (he_tx env)" "distinct (List.map fst (tx_live s))"
    and "disjoint_kinds target" "keeps_kinds (state_map expected) (state_map target)"
    and "ways_are_directories (in_scope env (mf_scope target)) (state_map expected) (state_map target)"
    and "in_scope env (mf_scope target) p"
  shows "state_at (he_tx env) (tx_live s') p = state_at (he_tx env) (tx_live s) p
    \<or> state_at (he_tx env) (tx_live s') p = map_of (state_map target) p"
  using assms(1)
proof (cases rule: restore_cases)
  case (early e)
  then show ?thesis using assms(2) by (simp add: untouched_def)
next
  case (late t t' current)
  let ?in = "in_scope env (mf_scope target)" and ?C = "changed_paths current target"
  note f = restore_begins [OF late(1,2) assms(2,3)]
  have "attributable (he_tx env) ?in (state_map current) (state_map target) (tx_live t')"
    using f(1,4) assms(3) by (simp add: attributable_def as_before_or_intended_def)
  then have start: "attributed.PB env ?in (state_map current) (state_map target) current target ?C t'"
    using f(5,7) unfolding attributed.PB_def attributed.P_def by simp
  have "attributed.PB env ?in (state_map current) (state_map target) current target ?C s'"
    using keepsD [OF finish_keeps_attributed start] late(3) assms(2,4-6) f(2,3) equal_states(2,3) [OF f(8)] by blast
  then show ?thesis
    using assms(7) f(4) unfolding attributed.PB_def attributed.P_def
    by (auto simp: attributable_def as_before_or_intended_def)
qed

lemma demo_maps:
  "map_of (state_map demo_before) = [''d/a'' \<mapsto> FileSt ''x'']"
  "map_of (state_map demo_target) = [''d/b'' \<mapsto> FileSt ''xx'']"
  by (simp_all add: state_map_def demo_before_def demo_target_def demo_entry_def length_sha_def numeral_2_eq_2)

lemma demo_scope: "in_scope (demo_hist_env ev) (mf_scope demo_target) q \<longleftrightarrow> q = ''d/a'' \<or> q = ''d/b''"
proof -
  have "validated_relative_path ''d/a'' = Inr ''d/a''" "validated_relative_path ''d/b'' = Inr ''d/b''" by code_simp+
  then show ?thesis by (auto simp: in_scope_def demo_target_def)
qed

lemma demo_ways:
  "keeps_kinds (state_map demo_before) (state_map demo_target)"
  "ways_are_directories (in_scope (demo_hist_env ev) (mf_scope demo_target)) (state_map demo_before) (state_map demo_target)"
proof -
  have c: "path_chain (parent_of ''d/a'') = [''d'']" "path_chain (parent_of ''d/b'') = [''d'']" by code_simp+
  show "keeps_kinds (state_map demo_before) (state_map demo_target)"
    by (simp add: keeps_kinds_def demo_maps)
  show "ways_are_directories (in_scope (demo_hist_env ev) (mf_scope demo_target)) (state_map demo_before) (state_map demo_target)"
    using c by (auto simp: ways_are_directories_def demo_maps as_before_or_intended_def demo_scope split: if_splits)
qed

lemma restore_cut_off_is_attributable_witness:
  "let s' = fst (restore_workspace_state (demo_hist_env (crash_at 10)) demo_before demo_target None demo_hist)
   in state_at (he_tx (demo_hist_env (crash_at 10))) (tx_live s') ''d/a'' \<in> {Some (FileSt ''x''), None}"
proof -
  let ?env = "demo_hist_env (crash_at 10)"
  let ?m = "restore_workspace_state ?env demo_before demo_target None demo_hist"
  obtain s' r where m: "?m = (s', r)" by (cases ?m)
  have e: "no_interference (he_tx ?env)"
    by (simp add: no_interference_def demo_hist_env_def crash_at_def quiet_event_def)
  have d: "distinct (List.map fst (tx_live demo_hist))" "disjoint_kinds demo_target" by code_simp+
  have s: "state_at (he_tx ?env) (tx_live demo_hist) ''d/a'' = Some (FileSt ''x'')" by code_simp
  show ?thesis
    using restore_cut_off_is_attributable [OF m e d demo_ways, of "''d/a''"] m s
    by (simp add: demo_scope demo_maps)
qed

section \<open>What recovery may touch\<close>

text \<open>
  Outside the paths \<open>C\<close> the namespace is as it was, but for directories created where nothing was: the
  missing parents of a file that is put back.
\<close>

definition only_inside :: "string list \<Rightarrow> live \<Rightarrow> live \<Rightarrow> bool" where
  "only_inside C live0 live \<longleftrightarrow>
     (\<forall>q. q \<notin> set C \<longrightarrow> map_of live q = map_of live0 q
        \<or> (map_of live0 q = None \<and> (\<exists>i. map_of live q = Some (LiveDir i))))"

interpretation inside: live_invariant "without_interference env" "only_inside C live0"
  "\<lambda>p. p \<in> set C \<or> map_of live0 p = None" "\<lambda>p d. p \<in> set C" "\<lambda>p. True" False
  for env C live0
proof unfold_locales
  fix live p k
  assume r: "only_inside C live0 live" and n: "map_of live p = None"
  have "p \<in> set C \<or> map_of live0 p = None" using r n by (force simp: only_inside_def)
  then show "only_inside C live0 (AList.update p (LiveDir (ev_identity (tx_event_at (he_tx (without_interference env)) k))) live)"
    using r by (auto simp: only_inside_def update_conv')
qed (auto simp: only_inside_def update_conv' delete_conv')

lemma inside_may_apply: "inside.may_apply C live0 m C current"
proof -
  have missing: "a \<in> set C \<or> map_of live0 a = None"
    if "only_inside C live0 l" "a \<in> set (missing_ancestors l p)" for l a p
  proof -
    have "map_of l a = None" using that(2) by (auto simp: missing_ancestors_def dest: set_takeWhileD)
    then show ?thesis using that(1) by (force simp: only_inside_def)
  qed
  show ?thesis unfolding inside.may_apply_def by (auto dest: missing)
qed

text \<open>Putting a manifest back, whatever the journal in memory says.\<close>

lemma apply_keeps_inside:
  assumes "no_interference (he_tx env)"
  shows "keeps (\<lambda>s. only_inside C live0 (tx_live s)) (apply_manifest env b st m (Some C) ex ids)"
proof -
  have "inside.P C live0 = (\<lambda>s. only_inside C live0 (tx_live s))" by (simp add: fun_eq_iff inside.P_def)
  moreover have "keeps (inside.P C live0) (apply_manifest (without_interference env) b st m (Some C) ex ids)"
    by (rule inside.keeps_P_apply_manifest) (rule inside_may_apply)
  ultimately show ?thesis using assms by simp
qed

interpretation recovering: live_invariant "without_interference env" "attributable (he_tx env) inside before target"
  "\<lambda>p. as_before_or_intended inside before target p None"
  "\<lambda>p d. as_before_or_intended inside before target p (Some (FileSt d))"
  "\<lambda>p. as_before_or_intended inside before target p (Some DirSt)" False
  for env inside before target
  by (rule attributed.live_invariant_axioms)

lemma apply_keeps_attributable:
  assumes "no_interference (he_tx env)" "disjoint_kinds m" "keeps_kinds other (state_map m)"
    and "ways_are_directories (in_scope env (mf_scope m)) other (state_map m)"
    and "\<forall>p\<in>set C. map_of other p \<noteq> map_of (state_map m) p"
  shows "keeps (\<lambda>s. attributable (he_tx env) (in_scope env (mf_scope m)) other (state_map m) (tx_live s))
    (apply_manifest env b st m (Some C) ex ids)"
proof -
  have "recovering.may_apply env (in_scope env (mf_scope m)) other (state_map m) m C current"
    if "attributable (he_tx env) (in_scope env (mf_scope m)) other (state_map m) live"
      "scan_live (without_interference env) (mf_scope m) live = Inr current" for live current
    using attributed_may_apply [OF that assms(3,4,2,5)] unfolding recovering.may_apply_def attributed.may_apply_def .
  then have "keeps (recovering.P env (in_scope env (mf_scope m)) other (state_map m))
      (apply_manifest (without_interference env) b st m (Some C) ex ids)"
    by (rule recovering.keeps_P_apply_manifest)
  moreover have "recovering.P env ins a b = (\<lambda>s. attributable (he_tx env) ins a b (tx_live s))" for ins a b
    by (simp add: fun_eq_iff recovering.P_def)
  ultimately show ?thesis using assms(1) by simp
qed

text \<open>The states a restore of these two manifests can leave behind.\<close>

definition all_explained :: "hist_env \<Rightarrow> manifest \<Rightarrow> manifest \<Rightarrow> string list \<Rightarrow> live \<Rightarrow> bool" where
  "all_explained env before target changed live \<longleftrightarrow>
     (\<forall>p. in_scope env (mf_scope before) p \<longrightarrow>
        state_at (he_tx env) live p = map_of (state_map before) p
        \<or> (p \<in> set changed \<and> state_at (he_tx env) live p = map_of (state_map target) p))"

lemma recover_restore_cases:
  assumes "recover_restore env j s = (s', r)" "no_interference (he_tx env)" "distinct (List.map fst (tx_live s))"
    and "j_before j = Some before" "j_target j = Some target"
  obtains (refused) e where "r = Inl e" "tx_live s' = tx_live s"
  | (applied) t u x where "all_explained env before target (j_changed j) (tx_live s)" "mf_scope target = mf_scope before"
      "tx_live t = tx_live s"
      "apply_manifest env False False before (Some (j_changed j)) None None t = (u, x)"
      "\<And>e. x = Inl e \<Longrightarrow> s' = u \<and> r = Inl e" "x = Inr () \<Longrightarrow> untouched env (tx_clock u) (tx_live u) s'"
      "r = Inr () \<Longrightarrow> x = Inr () \<and> (\<exists>found. scan_live env (mf_scope before) (tx_live u) = Inr found
         \<and> same_state found (state_map before)) \<and> (\<exists>j. h_journal s' = Some j \<and> j_state j = FailedRecovered)"
proof -
  have same: "tx_live b = tx_live a" if "keeps (untouched env (tx_clock a) (tx_live a)) m" "m a = (b, y)"
    for m :: "(hist, 'z) op" and a b y
    using keepsD [OF that(1) untouched_start that(2)] assms(2) unfolding untouched_def by (metis foreign_run_id)
  have cs: "(\<exists>e. checkpoint_states env M s = (s, Inl e)) \<or> checkpoint_states env M s = (s, Inr (state_map M))" for M
    by (auto simp: checkpoint_states_def mbind_def mget_def mlift_def checkpoint_state_def rbind_def split: sum.splits)
  define finish where "finish = mbind (scan_current_state env (mf_scope before)) (\<lambda>recovered.
      if \<not> same_state recovered (state_map before)
      then mfail (RuntimeError ''automatic interrupted-transaction recovery verification failed'')
      else set_state env FailedRecovered)"
  define go where "go = mbind (scan_current_state env (mf_scope before)) (\<lambda>current.
      if foreign_changes (state_map before) (state_map target) current (j_changed j) \<noteq> []
      then mfail (RuntimeError ''workspace contains changes that cannot be attributed to the interrupted restore'')
      else mbind (apply_manifest env False False before (Some (j_changed j)) None None) (\<lambda>_. finish))"
  have start: "(\<exists>e. r = Inl e \<and> s' = s) \<or> (mf_scope target = mf_scope before \<and> go s = (s', r))"
    using assms(1,4,5) cs [of before] cs [of target] unfolding go_def finish_def recover_restore_def
    by (auto simp: mbind_def mlift_def require_matching_scope_def split: if_split_asm)
  obtain t q where sc: "scan_current_state env (mf_scope before) s = (t, q)" by fastforce
  have t: "tx_live t = tx_live s" using same [OF keeps_untouched(4) sc] .
  consider e where "r = Inl e" "tx_live s' = tx_live s"
    | current where "mf_scope target = mf_scope before" "q = Inr current"
        "foreign_changes (state_map before) (state_map target) current (j_changed j) = []"
        "mbind (apply_manifest env False False before (Some (j_changed j)) None None) (\<lambda>_. finish) t = (s', r)"
    using start
  proof
    assume g: "mf_scope target = mf_scope before \<and> go s = (s', r)"
    show ?thesis
    proof (cases q)
      case (Inl e)
      then show ?thesis using g sc t that(1) by (auto simp: go_def mbind_def)
    next
      case (Inr current)
      then show ?thesis using g sc t that
        by (auto simp: go_def mbind_def mfail_def split: if_splits)
    qed
  qed (use that(1) in auto)
  then show ?thesis
  proof cases
    case 1
    then show ?thesis using refused by blast
  next
    case (2 current)
    have scan: "scan_live env (mf_scope before) (tx_live s) = Inr current"
      using sc 2(2) t by (auto elim: scan_current_state_cases)
    have ex: "explained (state_map before) (state_map target) (j_changed j) current"
      using 2(3) by (simp add: foreign_changes_Nil)
    have "all_explained env before target (j_changed j) (tx_live s)"
      using ex scan_live_state [OF scan assms(3)] unfolding all_explained_def explained_def by metis
    moreover obtain u x where a: "apply_manifest env False False before (Some (j_changed j)) None None t = (u, x)"
      by fastforce
    moreover have "s' = u \<and> r = Inl e" if "x = Inl e" for e using 2(4) a that by (simp add: mbind_def)
    moreover have fin: "finish u = (s', r)" if "x = Inr ()" using 2(4) a that by (simp add: mbind_def)
    moreover have "untouched env (tx_clock u) (tx_live u) s'" if "x = Inr ()"
    proof -
      have k: "keeps (untouched env (tx_clock u) (tx_live u)) finish"
        unfolding finish_def by (intro keeps_rules)
      show ?thesis using keepsD [OF k untouched_start fin [OF that]] .
    qed
    moreover have "x = Inr () \<and> (\<exists>found. scan_live env (mf_scope before) (tx_live u) = Inr found
         \<and> same_state found (state_map before)) \<and> (\<exists>j. h_journal s' = Some j \<and> j_state j = FailedRecovered)"
      if ok: "r = Inr ()"
    proof -
      have x: "x = Inr ()" using 2(4) a ok by (cases x) (auto simp: mbind_def)
      obtain v w where v: "scan_current_state env (mf_scope before) u = (v, w)" by fastforce
      obtain found where found: "w = Inr found" "same_state found (state_map before)" "set_state env FailedRecovered v = (s', r)"
        using fin [OF x] ok v by (cases w) (auto simp: finish_def mbind_def mfail_def split: if_splits)
      have "tx_live v = tx_live u" using same [OF keeps_untouched(4) v] .
      then have "scan_live env (mf_scope before) (tx_live u) = Inr found"
        using v found(1) by (auto elim: scan_current_state_cases)
      moreover have "\<exists>j. h_journal s' = Some j \<and> j_state j = FailedRecovered"
        using found(3) ok by (auto elim!: set_state_cases dest!: arrive_mem)
      ultimately show ?thesis using x found(2) by blast
    qed
    ultimately show ?thesis using applied [OF _ 2(1) t a] by blast
  qed
qed



end
