(* ===== verification/Restart.thy ===== *)
theory Restart
  imports Crash
begin

text \<open>
  What the durable journal holds before the first change, and a restore cut off by the end of the
  process, the restart, and the recovery: the files are again those before the restore, and the
  recovery itself does not fail.
\<close>

section \<open>Undisturbed steps\<close>

definition undisturbed :: "tx_env \<Rightarrow> bool" where
  "undisturbed tx \<longleftrightarrow>
     (\<forall>n. let e = tx_event_at tx n in \<not> ev_crash e \<and> ev_foreign e = [] \<and> ev_fault e = None \<and> \<not> ev_late e)"

lemma arrive_undisturbed:
  assumes "undisturbed tx" "\<not> tx_dead s"
  shows "arrive tx s = (s\<lparr>tx_clock := Suc (tx_clock s)\<rparr>, Inr (tx_event_at tx (tx_clock s)))"
  using assms by (simp add: undisturbed_def arrive_def Let_def)

text \<open>The operation returns, having changed nothing but the namespace and the clock.\<close>

definition gives :: "(hist, 'a) op \<Rightarrow> hist \<Rightarrow> 'a \<Rightarrow> live \<Rightarrow> bool" where
  "gives m s x live \<longleftrightarrow> (\<exists>n. m s = (s\<lparr>tx_live := live, tx_clock := n\<rparr>, Inr x))"

lemma clock_live: "(s :: hist)\<lparr>tx_clock := n, tx_live := live\<rparr> = s\<lparr>tx_live := live, tx_clock := n\<rparr>"
  by simp

lemma gives_bind:
  assumes "gives m s x live" "\<And>n. gives (f x) (s\<lparr>tx_live := live, tx_clock := n\<rparr>) y live'"
  shows "gives (mbind m f) s y live'"
proof -
  obtain n where m: "m s = (s\<lparr>tx_live := live, tx_clock := n\<rparr>, Inr x)" using assms(1) unfolding gives_def by blast
  obtain k where "f x (s\<lparr>tx_live := live, tx_clock := n\<rparr>)
      = (s\<lparr>tx_live := live, tx_clock := n\<rparr>\<lparr>tx_live := live', tx_clock := k\<rparr>, Inr y)"
    using assms(2) unfolding gives_def by blast
  then have "mbind m f s = (s\<lparr>tx_live := live', tx_clock := k\<rparr>, Inr y)" by (simp add: mbind_def m)
  then show ?thesis unfolding gives_def by blast
qed

lemma gives_bind_ex:
  assumes "gives m s x live" "\<And>n. \<exists>l. gives (f x) (s\<lparr>tx_live := live, tx_clock := n\<rparr>) y l \<and> Q l"
  shows "\<exists>l. gives (mbind m f) s y l \<and> Q l"
proof -
  obtain n where m: "m s = (s\<lparr>tx_live := live, tx_clock := n\<rparr>, Inr x)" using assms(1) unfolding gives_def by blast
  obtain l k where "f x (s\<lparr>tx_live := live, tx_clock := n\<rparr>)
      = (s\<lparr>tx_live := live, tx_clock := n\<rparr>\<lparr>tx_live := l, tx_clock := k\<rparr>, Inr y)" "Q l"
    using assms(2) unfolding gives_def by blast
  then have "mbind m f s = (s\<lparr>tx_live := l, tx_clock := k\<rparr>, Inr y)" by (simp add: mbind_def m)
  then show ?thesis using \<open>Q l\<close> unfolding gives_def by blast
qed

lemma gives_ret: "gives (mret x) s x (tx_live s)"
  unfolding gives_def mret_def by (rule exI [of _ "tx_clock s"]) simp

lemma gives_get: "gives (mget f) s (f s) (tx_live s)"
  unfolding gives_def mget_def by (rule exI [of _ "tx_clock s"]) simp

lemma gives_lift: "r = Inr x \<Longrightarrow> gives (mlift r) s x (tx_live s)"
  unfolding gives_def mlift_def by (rule exI [of _ "tx_clock s"]) simp

lemma gives_check: "b \<Longrightarrow> gives (mcheck b e) s () (tx_live s)"
  unfolding mcheck_def using gives_ret by simp

lemma gives_put: "gives (mput (\<lambda>s. s\<lparr>tx_live := f (tx_live s)\<rparr>)) s () (f (tx_live s))"
  unfolding gives_def mput_def by (rule exI [of _ "tx_clock s"]) simp

lemma gives_arrive:
  assumes "undisturbed tx" "\<not> tx_dead s"
  shows "gives (arrive tx) s (tx_event_at tx (tx_clock s)) (tx_live s)"
  unfolding gives_def arrive_undisturbed [OF assms] by (rule exI [of _ "Suc (tx_clock s)"]) simp

lemma gives_bind_get: "gives (f (g s)) s y live \<Longrightarrow> gives (mbind (mget g) f) s y live"
  by (simp add: gives_def mbind_def mget_def)

lemma gives_bind_lift: "r = Inr x \<Longrightarrow> gives (f x) s y live \<Longrightarrow> gives (mbind (mlift r) f) s y live"
  by (simp add: gives_def mbind_def mlift_def)

lemma gives_bind_arrive:
  assumes "undisturbed tx" "\<not> tx_dead s"
    and "gives (f (tx_event_at tx (tx_clock s))) (s\<lparr>tx_clock := Suc (tx_clock s)\<rparr>) y live"
  shows "gives (mbind (arrive tx) f) s y live"
  using assms(3) by (auto simp: gives_def mbind_def arrive_undisturbed [OF assms(1,2)])

section \<open>Undisturbed commits\<close>

text \<open>A regular file with a stable identity, as every commit needs it.\<close>

definition plain_file :: "live_node \<Rightarrow> bool" where
  "plain_file n \<longleftrightarrow>
     (\<exists>i d k. n = LiveFile i 1 d \<and> key_is i k \<and> file_size i = int (length d))"

definition node_data :: "live_node \<Rightarrow> bytes" where
  "node_data n = (case n of LiveFile i l d \<Rightarrow> d | _ \<Rightarrow> [])"

definition parent_open :: "tx_env \<Rightarrow> live \<Rightarrow> string \<Rightarrow> bool" where
  "parent_open tx live p \<longleftrightarrow> (\<exists>i. open_directory tx live (parent_of p) = Inr i)"

lemma parent_open_identity:
  "parent_open tx live p \<Longrightarrow> \<exists>i. open_directory tx live (parent_of p) = Inr i \<and> live_identity tx live (parent_of p) = Some i"
  by (auto simp: parent_open_def open_directory_def live_identity_def split: option.splits live_node.splits)

lemma same_object_refl [simp]: "same_object i i"
  by (simp add: same_object_def)

lemma gives_delete:
  assumes u: "undisturbed (he_tx env)" and a: "\<not> tx_dead s" and p: "p \<noteq> ''.''"
    and open_: "parent_open (he_tx env) (tx_live s) p"
    and node: "map_of (tx_live s) p = Some n" "plain_file n"
    and digest: "file_digest current p = Some (tx_sha (he_tx env) (node_data n))"
  shows "gives (apply_delete env False None current p) s () (AList.delete p (tx_live s))"
proof -
  obtain i d v f where n: "n = LiveFile i 1 d" "windows_volume_serial i = Some v" "windows_file_index i = Some f"
    "file_size i = int (length d)" using node(2) by (auto simp: plain_file_def key_is_def)
  obtain pi where pi: "open_directory (he_tx env) (tx_live s) (parent_of p) = Inr pi"
    "live_identity (he_tx env) (tx_live s) (parent_of p) = Some pi" using parent_open_identity [OF open_] by blast
  have ti: "live_identity (he_tx env) (tx_live s) p = Some i"
    using node(1) n p by (simp add: live_identity_def node_at_def)
  show ?thesis
    using node(1) n digest pi ti
    unfolding apply_delete_def commit_delete_def check_commit_parent_def transactional_delete_def
      journal_applied_def gives_def
    by (intro exI [of _ "Suc (Suc (Suc (tx_clock s)))"]) (simp add: clock_live mbind_def mget_def mlift_def mcheck_def mret_def drop_node_def mput_def
        arrive_undisturbed [OF u] a resolve_write_target_def verify_destination_digest_def node_data_def
        bound_identity_def validate_regular_identity_def key_is_def)
qed

lemma gives_fold_same:
  assumes "\<And>x n. x \<in> set xs \<Longrightarrow> gives (f x) (s\<lparr>tx_clock := n\<rparr>) () (tx_live s)"
  shows "gives (mfold f xs) s () (tx_live s)"
  using assms
proof (induction xs arbitrary: s)
  case Nil
  then show ?case by (simp add: gives_ret)
next
  case (Cons x xs)
  have "gives (f x) s () (tx_live s)" using Cons.prems [of x "tx_clock s"] by simp
  moreover have "gives (mfold f xs) (s\<lparr>tx_live := tx_live s, tx_clock := n\<rparr>) () (tx_live s)" for n
    using Cons.IH [of "s\<lparr>tx_live := tx_live s, tx_clock := n\<rparr>"] Cons.prems by simp
  ultimately show ?case by (auto intro: gives_bind)
qed

definition ways_open :: "live \<Rightarrow> string list \<Rightarrow> bool" where
  "ways_open live ps \<longleftrightarrow> (\<forall>a\<in>set ps. \<exists>i. map_of live a = Some (LiveDir i))"

lemma gives_ensure:
  assumes u: "undisturbed (he_tx env)" and a: "\<not> tx_dead s"
    and "validate_windows_syntax p = Inr ()" "ways_open (tx_live s) (path_chain p)"
  shows "gives (ensure_directory_for_write (he_tx env) p) s () (tx_live s)"
  unfolding ensure_directory_for_write_def
proof (rule gives_bind_lift [OF assms(3)], rule gives_fold_same)
  fix q n assume "q \<in> set (path_chain p)"
  then obtain i where "map_of (tx_live s) q = Some (LiveDir i)" using assms(4) by (auto simp: ways_open_def)
  then show "gives (ensure_component (he_tx env) q) (s\<lparr>tx_clock := n\<rparr>) () (tx_live s)"
    unfolding ensure_component_def gives_def
    by (intro exI [of _ "Suc n"]) (simp add: mbind_def mget_def mret_def arrive_undisturbed [OF u] a)
qed

lemma ensure_undead: "gives m s x live \<Longrightarrow> m s = (s', r) \<Longrightarrow> tx_dead s' = tx_dead s"
  by (auto simp: gives_def)

text \<open>The paths a commit may address: their parents are stated separately, and lie in the workspace.\<close>

definition addressable :: "string \<Rightarrow> bool" where
  "addressable p \<longleftrightarrow> p \<noteq> ''.'' \<and> validate_windows_syntax (parent_of p) = Inr ()
     \<and> (parent_of p = ''.'' \<or> parent_of p \<in> set (path_chain (parent_of p)))"

lemma addressable_open:
  "addressable p \<Longrightarrow> ways_open live (path_chain (parent_of p)) \<Longrightarrow> parent_open tx live p"
  by (auto simp: addressable_def ways_open_def parent_open_def open_directory_def node_at_def)

lemma no_missing_ancestors:
  "ways_open live (butlast (path_chain p)) \<Longrightarrow> missing_ancestors live p = []"
  unfolding missing_ancestors_def ways_open_def by (cases "rev (butlast (path_chain p))") auto

definition case_distinct :: "tx_env \<Rightarrow> live \<Rightarrow> string \<Rightarrow> bool" where
  "case_distinct tx live p \<longleftrightarrow> (\<forall>(q, n)\<in>set live. tx_fold tx q = tx_fold tx p \<longrightarrow> q = p)"

lemma case_distinct_exists: "case_distinct tx live p \<Longrightarrow> map_of live p = None \<Longrightarrow> \<not> path_exists tx live p"
  by (force simp: case_distinct_def path_exists_def list_ex_iff map_of_eq_None_iff)

definition fits :: "tx_env \<Rightarrow> live \<Rightarrow> string \<Rightarrow> string option \<Rightarrow> bool" where
  "fits tx live p digest \<longleftrightarrow>
     (case map_of live p of None \<Rightarrow> digest = None | Some n \<Rightarrow> plain_file n \<and> digest = Some (tx_sha tx (node_data n)))"

lemma gives_commit_bytes:
  assumes u: "undisturbed (he_tx env)" and a: "\<not> tx_dead s" and p: "addressable p"
    and ways: "ways_open (tx_live s) (path_chain (parent_of p))" and cd: "case_distinct (he_tx env) (tx_live s) p"
    and fit: "fits (he_tx env) (tx_live s) p digest"
    and pi: "live_identity (he_tx env) (tx_live s) (parent_of p) = Some pi"
  defines "ti \<equiv> live_identity (he_tx env) (tx_live s) p"
  shows "\<exists>n. written_node (he_tx env) (tx_live s) p data n
    \<and> gives (commit_bytes (he_tx env) p data pi ti (if ti \<noteq> None then digest else None)) s ()
        (AList.update p n (tx_live s))"
proof (cases "map_of (tx_live s) p")
  case None
  have "p \<noteq> ''.''" using p by (simp add: addressable_def)
  then have ti: "ti = None" using None by (simp add: ti_def live_identity_def node_at_def)
  obtain oi where "open_directory (he_tx env) (tx_live s) (parent_of p) = Inr oi"
    using addressable_open [OF p ways] by (auto simp: parent_open_def)
  then show ?thesis
    using ti pi case_distinct_exists [OF cd None]
    by (intro exI [of _ "created_file (tx_event_at (he_tx env) (Suc (tx_clock s))) data"] conjI)
      (auto simp: written_node_def gives_def commit_bytes_def check_commit_parent_def transactional_write_bytes_def
         mbind_def mget_def mlift_def mcheck_def mret_def set_node_def mput_def arrive_undisturbed [OF u] a clock_live)
next
  case (Some node)
  then obtain i d v f where n: "node = LiveFile i 1 d" "windows_volume_serial i = Some v"
    "windows_file_index i = Some f" "file_size i = int (length d)" "digest = Some (tx_sha (he_tx env) d)"
    using fit by (auto simp: fits_def plain_file_def key_is_def node_data_def)
  have "p \<noteq> ''.''" using p by (simp add: addressable_def)
  then have ti: "ti = Some i" using Some n by (simp add: ti_def live_identity_def node_at_def)
  show ?thesis
    using ti pi n Some
    by (intro exI [of _ "rewritten_file (tx_event_at (he_tx env) (Suc (tx_clock s))) i data"] conjI)
      (auto simp: written_node_def gives_def commit_bytes_def check_commit_parent_def transactional_write_bytes_def
         mbind_def mget_def mlift_def mcheck_def mret_def set_node_def mput_def arrive_undisturbed [OF u] a
         validate_regular_identity_def key_is_def clock_live)
qed

lemma gives_from:
  "m s = m' (s\<lparr>tx_clock := k\<rparr>) \<Longrightarrow> gives m' (s\<lparr>tx_clock := k\<rparr>) x live \<Longrightarrow> gives m s x live"
  by (auto simp: gives_def)

lemma gives_write:
  assumes u: "undisturbed (he_tx env)" and a: "\<not> tx_dead s" and p: "addressable (me_path e)"
    and ways: "ways_open (tx_live s) (path_chain (parent_of (me_path e)))"
      "ways_open (tx_live s) (butlast (path_chain (me_path e)))"
    and cd: "case_distinct (he_tx env) (tx_live s) (me_path e)"
    and fit: "fits (he_tx env) (tx_live s) (me_path e) (file_digest current (me_path e))"
    and data: "entry_bytes (h_blobs s) e = Inr data" "tx_sha (he_tx env) data = me_sha e"
  shows "\<exists>n. written_node (he_tx env) (tx_live s) (me_path e) data n
    \<and> gives (apply_write env False None False current e) s () (AList.update (me_path e) n (tx_live s))"
proof -
  let ?p = "me_path e" and ?live = "tx_live s" and ?digest = "file_digest current (me_path e)"
  obtain pi where pi: "open_directory (he_tx env) ?live (parent_of ?p) = Inr pi"
    "live_identity (he_tx env) ?live (parent_of ?p) = Some pi"
    using parent_open_identity [OF addressable_open [OF p ways(1)]] by blast
  define ti where "ti = live_identity (he_tx env) ?live ?p"
  obtain n0 where ens: "ensure_directory_for_write (he_tx env) (parent_of ?p) s = (s\<lparr>tx_live := ?live, tx_clock := n0\<rparr>, Inr ())"
    using gives_ensure [OF u a _ ways(1)] p by (auto simp: addressable_def gives_def)
  let ?t = "s\<lparr>tx_clock := Suc n0\<rparr>"
  have cd': "case_distinct (he_tx env) (tx_live ?t) ?p" and fit': "fits (he_tx env) (tx_live ?t) ?p ?digest"
    using cd fit by simp_all
  obtain n where n: "written_node (he_tx env) ?live ?p data n"
    "gives (commit_bytes (he_tx env) ?p data pi ti (if ti \<noteq> None then ?digest else None)) ?t () (AList.update ?p n ?live)"
    using gives_commit_bytes [OF u _ p _ cd' fit', of pi data] a ways(1) pi(2) by (auto simp: ti_def)
  have rw: "resolve_write_target (he_tx env) ?live ?p = Inr ()"
    using pi(1) fit by (auto simp: resolve_write_target_def fits_def plain_file_def split: option.splits)
  have vd: "verify_destination_digest (he_tx env) ?live ?p ?digest = Inr ()"
    using fit by (auto simp: verify_destination_digest_def fits_def plain_file_def node_data_def split: option.splits)
  have "apply_write env False None False current e s
      = mbind (commit_bytes (he_tx env) ?p data pi ti (if ti \<noteq> None then ?digest else None))
          (\<lambda>_. mret ()) ?t"
    unfolding apply_write_def journal_applied_def record_created_def if_False
    using ens pi(2) rw vd data a
    by (simp add: mbind_def mget_def mlift_def mret_def [abs_def] arrive_undisturbed [OF u] staged_or_blob_def
        bound_identity_def ti_def Let_def)
  moreover have "gives (mbind (commit_bytes (he_tx env) ?p data pi ti (if ti \<noteq> None then ?digest else None))
          (\<lambda>_. mret ())) ?t () (AList.update ?p n ?live)"
    by (rule gives_bind [OF n(2)]) (use gives_ret in \<open>auto simp: gives_def mret_def\<close>)
  ultimately have "gives (apply_write env False None False current e) s () (AList.update ?p n ?live)"
    by (rule gives_from)
  then show ?thesis using n(1) by blast
qed

section \<open>An undisturbed application of a manifest\<close>

text \<open>
  The paths \<open>C\<close> are absent or plain files within the limit, their names differ from all others even
  without case, and the directories above them exist and are not among \<open>C\<close>.
\<close>

definition ready_path :: "hist_env \<Rightarrow> live \<Rightarrow> string \<Rightarrow> bool" where
  "ready_path env live p \<longleftrightarrow>
     addressable p \<and> ways_open live (path_chain (parent_of p)) \<and> ways_open live (butlast (path_chain p))
     \<and> case_distinct (he_tx env) live p
     \<and> (case map_of live p of None \<Rightarrow> True
        | Some n \<Rightarrow> plain_file n \<and> int (length (node_data n)) \<le> he_max_bytes env)"

definition apart :: "hist_env \<Rightarrow> string list \<Rightarrow> bool" where
  "apart env C \<longleftrightarrow>
     (\<forall>p\<in>set C. \<forall>q\<in>set C. tx_fold (he_tx env) q = tx_fold (he_tx env) p \<longrightarrow> q = p)
     \<and> (\<forall>p\<in>set C. \<forall>a\<in>set (path_chain (parent_of p)) \<union> set (butlast (path_chain p)). a \<notin> set C)"

definition ready :: "hist_env \<Rightarrow> string list \<Rightarrow> live \<Rightarrow> bool" where
  "ready env C live \<longleftrightarrow>
     distinct (List.map fst live) \<and> apart env C \<and> (\<forall>p\<in>set C. ready_path env live p)"

lemma ways_open_other:
  "(\<And>a. a \<in> set ps \<Longrightarrow> map_of live' a = map_of live a) \<Longrightarrow> ways_open live' ps = ways_open live ps"
  by (simp add: ways_open_def)

lemma set_update_subset: "set (AList.update p n live) \<subseteq> insert (p, n) (set live)"
  by (induction live) (auto split: if_splits)

lemma set_delete_subset: "set (AList.delete p live) \<subseteq> set live"
  by (induction live) auto

lemma ready_delete:
  assumes "ready env C live" "p \<in> set C"
  shows "ready env C (AList.delete p live)"
proof -
  have ap: "a \<noteq> p" if "q \<in> set C" "a \<in> set (path_chain (parent_of q)) \<union> set (butlast (path_chain q))" for q a
    using assms that by (auto simp: ready_def apart_def)
  have "ready_path env (AList.delete p live) q" if "q \<in> set C" for q
  proof -
    have r: "ready_path env live q" using assms(1) that by (simp add: ready_def)
    have "ways_open (AList.delete p live) (path_chain (parent_of q)) = ways_open live (path_chain (parent_of q))"
      "ways_open (AList.delete p live) (butlast (path_chain q)) = ways_open live (butlast (path_chain q))"
      using ap [OF that] by (auto intro!: ways_open_other simp: delete_conv')
    moreover have "case_distinct (he_tx env) (AList.delete p live) q"
      using r set_delete_subset [of p live] by (fastforce simp: ready_path_def case_distinct_def)
    ultimately show ?thesis using r by (auto simp: ready_path_def delete_conv')
  qed
  then show ?thesis using assms(1) by (simp add: ready_def distinct_delete)
qed

lemma ready_update:
  assumes "ready env C live" "p \<in> set C" "plain_file n" "int (length (node_data n)) \<le> he_max_bytes env"
  shows "ready env C (AList.update p n live)"
proof -
  have ap: "a \<noteq> p" if "q \<in> set C" "a \<in> set (path_chain (parent_of q)) \<union> set (butlast (path_chain q))" for q a
    using assms that by (auto simp: ready_def apart_def)
  have "ready_path env (AList.update p n live) q" if "q \<in> set C" for q
  proof -
    have r: "ready_path env live q" using assms(1) that by (simp add: ready_def)
    have f: "p = q" if "tx_fold (he_tx env) p = tx_fold (he_tx env) q"
      using assms(1,2) that \<open>q \<in> set C\<close> by (auto simp: ready_def apart_def)
    have "ways_open (AList.update p n live) (path_chain (parent_of q)) = ways_open live (path_chain (parent_of q))"
      "ways_open (AList.update p n live) (butlast (path_chain q)) = ways_open live (butlast (path_chain q))"
      using ap [OF that] by (auto intro!: ways_open_other simp: update_conv')
    moreover have "case_distinct (he_tx env) (AList.update p n live) q"
      using r f set_update_subset [of p n live] by (fastforce simp: ready_path_def case_distinct_def)
    ultimately show ?thesis using r assms(3,4) by (auto simp: ready_path_def update_conv')
  qed
  then show ?thesis using assms(1) by (simp add: ready_def distinct_update)
qed

definition stable_ids :: "tx_env \<Rightarrow> bool" where
  "stable_ids tx \<longleftrightarrow> (\<forall>n. \<exists>k. key_is (ev_identity (tx_event_at tx n)) k)"

lemma key_is_sized: "key_is (i\<lparr>file_size := n\<rparr>) k = key_is i k" "key_is (i\<lparr>modified_ns := t\<rparr>) k = key_is i k"
  by (simp_all add: key_is_def)

lemma written_node_plain:
  assumes "written_node tx live p data n" "stable_ids tx" "\<And>m. map_of live p = Some m \<Longrightarrow> plain_file m"
  shows "plain_file n" "node_data n = data"
proof -
  obtain k where e: "n = created_file (tx_event_at tx k) data
      \<or> (\<exists>i old. map_of live p = Some (LiveFile i 1 old) \<and> n = rewritten_file (tx_event_at tx k) i data)"
    using assms(1) by (auto simp: written_node_def)
  obtain v f where "key_is (ev_identity (tx_event_at tx k)) (v, f)" using assms(2) unfolding stable_ids_def by fast
  then show "plain_file n" "node_data n = data"
    using e assms(3)
    by (auto simp: created_file_def rewritten_file_def plain_file_def node_data_def key_is_sized) blast+
qed

lemma gives_deletes:
  assumes u: "undisturbed (he_tx env)" and "\<not> tx_dead s" "ready env C (tx_live s)" "distinct ps" "set ps \<subseteq> set C"
    and "\<And>p. p \<in> set ps \<Longrightarrow> \<exists>n. map_of (tx_live s) p = Some n
      \<and> file_digest current p = Some (tx_sha (he_tx env) (node_data n))"
  shows "\<exists>live. gives (mfold (apply_delete env False None current) ps) s () live \<and> ready env C live
    \<and> (\<forall>q. map_of live q = (if q \<in> set ps then None else map_of (tx_live s) q))"
  using assms(2-)
proof (induction ps arbitrary: s)
  case Nil
  then show ?case by (auto intro!: exI [of _ "tx_live s"] simp: gives_ret)
next
  case (Cons p ps)
  let ?l = "AList.delete p (tx_live s)"
  obtain n where n: "map_of (tx_live s) p = Some n" "file_digest current p = Some (tx_sha (he_tx env) (node_data n))"
    using Cons.prems(5) [of p] by auto
  have r: "ready_path env (tx_live s) p" using Cons.prems(2,4) by (simp add: ready_def)
  have one: "gives (apply_delete env False None current p) s () ?l"
    using r n by (intro gives_delete [OF u Cons.prems(1) _ _ n(1)])
      (auto simp: ready_path_def addressable_def intro: addressable_open)
  have later: "\<exists>n. map_of ?l q = Some n \<and> file_digest current q = Some (tx_sha (he_tx env) (node_data n))"
    if "q \<in> set ps" for q
    using Cons.prems(3) Cons.prems(5) [of q] that by (auto simp: delete_conv')
  have "\<exists>l. gives (mfold (apply_delete env False None current) ps) (s\<lparr>tx_live := ?l, tx_clock := k\<rparr>) () l
      \<and> ready env C l \<and> (\<forall>q. map_of l q = (if q \<in> set ps then None else map_of ?l q))" for k
    using Cons.IH [of "s\<lparr>tx_live := ?l, tx_clock := k\<rparr>"] Cons.prems(1,3,4) ready_delete [OF Cons.prems(2)] later
    by (simp cong: if_cong)
  then have "\<exists>l. gives (mfold (apply_delete env False None current) (p # ps)) s () l
      \<and> (ready env C l \<and> (\<forall>q. map_of l q = (if q \<in> set ps then None else map_of ?l q)))"
    unfolding mfold.simps by (intro gives_bind_ex [OF one]) blast
  then show ?case by (auto simp: delete_conv')
qed

definition has_content :: "hist_env \<Rightarrow> blobs \<Rightarrow> manifest \<Rightarrow> string \<Rightarrow> bool" where
  "has_content env bs m p \<longleftrightarrow>
     (\<exists>e data. map_of (entry_map m) p = Some e \<and> entry_bytes bs e = Inr data
        \<and> tx_sha (he_tx env) data = me_sha e \<and> int (length data) \<le> he_max_bytes env)"

definition write_step :: "hist_env \<Rightarrow> manifest \<Rightarrow> state_map \<Rightarrow> string \<Rightarrow> (hist, unit) op" where
  "write_step env m current p =
     (case map_of (entry_map m) p of
        None \<Rightarrow> mret () | Some e \<Rightarrow> apply_write env False None False current e)"

lemma gives_writes:
  assumes u: "undisturbed (he_tx env)" and st: "stable_ids (he_tx env)"
    and "\<not> tx_dead s" "ready env C (tx_live s)" "distinct ps" "set ps \<subseteq> set C"
    and "\<And>p. p \<in> set ps \<Longrightarrow> fits (he_tx env) (tx_live s) p (file_digest current p) \<and> has_content env (h_blobs s) m p"
  shows "\<exists>live. gives (mfold (write_step env m current) ps) s () live
    \<and> (ready env C live \<and> (\<forall>q. q \<notin> set ps \<longrightarrow> map_of live q = map_of (tx_live s) q)
       \<and> (\<forall>p\<in>set ps. state_at (he_tx env) live p = map_option (\<lambda>e. FileSt (me_sha e)) (map_of (entry_map m) p)))"
  using assms(3-)
proof (induction ps arbitrary: s)
  case Nil
  then show ?case by (auto intro!: exI [of _ "tx_live s"] simp: gives_ret)
next
  case (Cons p ps)
  obtain e data where e: "map_of (entry_map m) p = Some e" "entry_bytes (h_blobs s) e = Inr data"
    "tx_sha (he_tx env) data = me_sha e" "int (length data) \<le> he_max_bytes env"
    using Cons.prems(5) [of p] by (auto simp: has_content_def)
  have ep: "me_path e = p" using e(1) by (rule entry_map_path)
  have r: "ready_path env (tx_live s) p" using Cons.prems(2,4) by (simp add: ready_def)
  obtain n where n: "written_node (he_tx env) (tx_live s) p data n"
    and one: "gives (write_step env m current p) s () (AList.update p n (tx_live s))"
    using gives_write [OF u Cons.prems(1), of e current data] r e ep Cons.prems(5) [of p]
    by (auto simp: ready_path_def write_step_def)
  let ?l = "AList.update p n (tx_live s)"
  have old: "plain_file m'" if "map_of (tx_live s) p = Some m'" for m' using r that by (simp add: ready_path_def)
  note plain = written_node_plain [OF n st old]
  have rl: "ready env C ?l" using Cons.prems(2,4) plain e(4) by (intro ready_update) auto
  have later: "fits (he_tx env) ?l q (file_digest current q) \<and> has_content env (h_blobs s) m q" if "q \<in> set ps" for q
    using Cons.prems(3) Cons.prems(5) [of q] that by (auto simp: fits_def update_conv')
  have "\<exists>l. gives (mfold (write_step env m current) ps) (s\<lparr>tx_live := ?l, tx_clock := k\<rparr>) () l
      \<and> (ready env C l \<and> (\<forall>q. q \<notin> set ps \<longrightarrow> map_of l q = map_of ?l q)
       \<and> (\<forall>p\<in>set ps. state_at (he_tx env) l p = map_option (\<lambda>e. FileSt (me_sha e)) (map_of (entry_map m) p)))" for k
    using Cons.IH [of "s\<lparr>tx_live := ?l, tx_clock := k\<rparr>"] Cons.prems(1,3,4) rl later by simp
  then have "\<exists>l. gives (mfold (write_step env m current) (p # ps)) s () l
      \<and> (ready env C l \<and> (\<forall>q. q \<notin> set ps \<longrightarrow> map_of l q = map_of ?l q)
       \<and> (\<forall>p\<in>set ps. state_at (he_tx env) l p = map_option (\<lambda>e. FileSt (me_sha e)) (map_of (entry_map m) p)))"
    unfolding mfold.simps by (rule gives_bind_ex [OF one])
  then obtain l where l: "gives (mfold (write_step env m current) (p # ps)) s () l" "ready env C l"
    "\<forall>q. q \<notin> set ps \<longrightarrow> map_of l q = map_of ?l q"
    "\<forall>p\<in>set ps. state_at (he_tx env) l p = map_option (\<lambda>e. FileSt (me_sha e)) (map_of (entry_map m) p)"
    by blast
  have "state_at (he_tx env) l p = Some (FileSt (me_sha e))"
  proof -
    have "p \<notin> set ps" using Cons.prems(3) by simp
    then have "map_of l p = Some n" using l(3) by (simp add: update_conv')
    then show ?thesis using plain e(3) by (auto simp: state_at_def plain_file_def node_data_def)
  qed
  then show ?case using l e(1) by (intro exI [of _ l]) (auto simp: update_conv')
qed

lemma chosen_distinct [simp]: "distinct (chosen C ps keep)"
  by (simp add: chosen_def sorted_set_def)

lemma gives_apply_manifest:
  assumes u: "undisturbed (he_tx env)" and st: "stable_ids (he_tx env)" and a: "\<not> tx_dead s"
    and r: "ready env C (tx_live s)"
    and scan: "scan_live env (mf_scope m) (tx_live s) = Inr current"
    and cur: "\<And>p. p \<in> set C \<Longrightarrow> map_of current p = state_at (he_tx env) (tx_live s) p"
    and nd: "\<And>p. p \<in> set C \<Longrightarrow> p \<notin> set (mf_dirs m)"
    and content: "\<And>p. p \<in> set C \<Longrightarrow> p \<in> set (List.map fst (entry_map m)) \<Longrightarrow> has_content env (h_blobs s) m p"
  shows "\<exists>live. gives (apply_manifest env False False m (Some C) None None) s () live
    \<and> (ready env C live \<and> (\<forall>q. q \<notin> set C \<longrightarrow> map_of live q = map_of (tx_live s) q)
      \<and> (\<forall>p\<in>set C. state_at (he_tx env) live p = map_of (state_map m) p))"
proof -
  let ?sha = "tx_sha (he_tx env)" and ?live = "tx_live s"
  note d = scan_distinct [OF scan]
  define gone where "gone = rev (chosen C (state_files current) (\<lambda>p. p \<notin> set (List.map fst (entry_map m))))"
  define written where "written = chosen C (List.map fst (entry_map m)) (\<lambda>_. True)"
  have present: "\<exists>n. map_of ?live p = Some n \<and> plain_file n \<and> file_digest current p = Some (?sha (node_data n))"
    if "p \<in> set C" "map_of ?live p \<noteq> None" for p
  proof -
    from that(2) obtain n where n: "map_of ?live p = Some n" by auto
    then have "plain_file n" using r that by (auto simp: ready_def ready_path_def)
    then show ?thesis using n cur [OF that(1)] by (auto simp: plain_file_def state_at_def file_digest_def node_data_def)
  qed
  have absent: "file_digest current p = None" if "p \<in> set C" "map_of ?live p = None" for p
    using cur [OF that(1)] that(2) by (simp add: state_at_def file_digest_def)
  have no_dirs: "p \<notin> set (state_dirs current)" if "p \<in> set C" for p
  proof
    assume "p \<in> set (state_dirs current)"
    then have "state_at (he_tx env) ?live p = Some DirSt" using scanned_kinds(2) [OF d] cur [OF that] by simp
    moreover from this have "map_of ?live p \<noteq> None" by (auto simp: state_at_def split: option.splits)
    ultimately show False using present [OF that] by (auto simp: state_at_def plain_file_def)
  qed
  have empty: "sort_key path_depth (chosen C (state_dirs current) keep) = []"
    "sort_key path_depth (chosen C (mf_dirs m) keep) = []" for keep
  proof -
    have "set (chosen C (state_dirs current) keep) = {}" "set (chosen C (mf_dirs m) keep) = {}"
      using no_dirs nd by auto
    then have "chosen C (state_dirs current) keep = []" "chosen C (mf_dirs m) keep = []"
      unfolding set_empty .
    then show "sort_key path_depth (chosen C (state_dirs current) keep) = []"
      "sort_key path_depth (chosen C (mf_dirs m) keep) = []" by simp_all
  qed
  let ?Q = "\<lambda>live. ready env C live \<and> (\<forall>q. q \<notin> set C \<longrightarrow> map_of live q = map_of ?live q)
      \<and> (\<forall>p\<in>set C. state_at (he_tx env) live p = map_of (state_map m) p)"
  have sets: "set gone \<subseteq> set C" "distinct gone" "set written \<subseteq> set C" "distinct written"
    "set written = set C \<inter> set (List.map fst (entry_map m))"
    by (auto simp: gone_def written_def)
  have gone_live: "p \<in> set gone \<longleftrightarrow> p \<in> set C \<and> p \<notin> set (List.map fst (entry_map m)) \<and> map_of ?live p \<noteq> None" for p
  proof -
    have "p \<in> set (state_files current)" if "p \<in> set C" "map_of ?live p \<noteq> None"
      using present [OF that] cur [OF that(1)]
      by (force simp: state_files_def state_at_def plain_file_def dest: map_of_SomeD)
    moreover have "map_of ?live p \<noteq> None" if "p \<in> set C" "p \<in> set (state_files current)"
      using scanned_kinds(1) [OF d that(2)] cur [OF that(1)] by (auto simp: state_at_def split: option.splits)
    ultimately show ?thesis by (auto simp: gone_def)
  qed
  have steps: "\<exists>l. gives (mbind (mfold (apply_delete env False None current) gone)
      (\<lambda>_. mfold (write_step env m current) written)) (s\<lparr>tx_live := ?live, tx_clock := k\<rparr>) () l \<and> ?Q l" for k
  proof -
    let ?s = "s\<lparr>tx_live := ?live, tx_clock := k\<rparr>"
    obtain l1 where l1: "gives (mfold (apply_delete env False None current) gone) ?s () l1" "ready env C l1"
      "\<forall>q. map_of l1 q = (if q \<in> set gone then None else map_of ?live q)"
      using gives_deletes [OF u, of ?s C gone current] a r sets(1,2) gone_live present by fastforce
    have fit: "fits (he_tx env) l1 p (file_digest current p) \<and> has_content env (h_blobs s) m p" if "p \<in> set written" for p
    proof -
      have p: "p \<in> set C" "p \<in> set (List.map fst (entry_map m))" using that sets(5) by auto
      then have "map_of l1 p = map_of ?live p" using l1(3) gone_live by simp
      then show ?thesis using present [OF p(1)] absent [OF p(1)] content [OF p]
        by (auto simp: fits_def split: option.split)
    qed
    show ?thesis
    proof (rule gives_bind_ex [OF l1(1)])
      fix n
      let ?s' = "?s\<lparr>tx_live := l1, tx_clock := n\<rparr>"
      obtain l where l: "gives (mfold (write_step env m current) written) ?s' () l" "ready env C l"
        "\<forall>q. q \<notin> set written \<longrightarrow> map_of l q = map_of l1 q"
        "\<forall>p\<in>set written. state_at (he_tx env) l p = map_option (\<lambda>e. FileSt (me_sha e)) (map_of (entry_map m) p)"
        using gives_writes [OF u st, of ?s' C written current m] a l1(2) sets fit by auto
      have "state_at (he_tx env) l p = map_of (state_map m) p" if "p \<in> set C" for p
      proof (cases "p \<in> set written")
        case True
        then show ?thesis using l(4) nd [OF that] by (simp add: map_of_state_map)
      next
        case False
        then have "map_of (entry_map m) p = None" using that sets(5) not_in_map by fastforce
        moreover have "map_of l p = None"
          using False l(3) l1(3) gone_live [of p] that sets(5) by (cases "map_of ?live p") auto
        ultimately show ?thesis using nd [OF that] by (simp add: map_of_state_map state_at_def)
      qed
      moreover have "map_of l q = map_of ?live q" if "q \<notin> set C" for q
      proof -
        have "q \<notin> set written" "q \<notin> set gone" using that sets(1,3) by blast+
        then show ?thesis using l(3) l1(3) by simp
      qed
      ultimately show "\<exists>l. gives (mfold (write_step env m current) written) ?s' () l \<and> ?Q l"
        using l(1,2) by blast
    qed
  qed
  have body: "mbind (verify_restore_identities env None) (\<lambda>_.
      mbind (mfold (apply_delete env False None current) gone) (\<lambda>_.
      mbind (mfold (apply_remove_directory env False) []) (\<lambda>_.
      mbind (mfold (apply_create_directory env False None) []) (\<lambda>_.
      mbind (mfold (write_step env m current) written) (\<lambda>_.
        mfold (apply_remove_directory env False) [])))))
    = mbind (mfold (apply_delete env False None current) gone) (\<lambda>_. mfold (write_step env m current) written)"
    by (auto simp: verify_restore_identities_def mbind_def mret_def fun_eq_iff split: prod.split sum.split)
  have scan1: "gives (scan_current_state env (mf_scope m)) s current ?live"
    unfolding scan_current_state_def
    by (rule gives_bind_arrive [OF u a], rule gives_bind_get, simp add: scan)
      (simp add: gives_def mlift_def, rule exI [of _ "Suc (tx_clock s)"], simp)
  show ?thesis
    unfolding apply_manifest_def
  proof (rule gives_bind_ex [OF scan1], goal_cases)
    case (1 n)
    show ?case
      unfolding option.case if_False Let_def empty rev.simps
      using steps [of n] body unfolding gone_def [symmetric] written_def [symmetric] write_step_def
      by simp
  qed
qed

section \<open>Scans that succeed again\<close>

lemma rfold_all:
  "rfold f acc xs = Inr r \<Longrightarrow> x \<in> set xs \<Longrightarrow> \<exists>a b. f a x = Inr b"
  by (induction xs arbitrary: acc) (auto simp: rbind_eq_Inr)

lemma rfold_total:
  "(\<And>x a. x \<in> set xs \<Longrightarrow> \<exists>b. f a x = Inr b) \<Longrightarrow> \<exists>r. rfold f acc xs = Inr r"
proof (induction xs arbitrary: acc)
  case (Cons x xs)
  obtain b where "f acc x = Inr b" using Cons.prems [of x acc] by auto
  then show ?case using Cons by auto
qed simp

lemma rfold_cong_set:
  "(\<And>x a. x \<in> set xs \<Longrightarrow> f a x = g a x) \<Longrightarrow> rfold f acc xs = rfold g acc xs"
  by (induction xs arbitrary: acc) (auto split: sum.split)

lemma scan_again:
  assumes "scan_live env (Some ps) live0 = Inr st0" "ready env C live"
    and same: "\<And>q. q \<notin> set C \<Longrightarrow> map_of live q = map_of live0 q"
    and above: "\<And>p q a. p \<in> set ps \<Longrightarrow> validated_relative_path p = Inr q \<Longrightarrow> a \<in> set (butlast (path_chain q)) \<Longrightarrow> a \<notin> set C"
  shows "\<exists>st. scan_live env (Some ps) live = Inr st"
proof -
  have "\<exists>b. scan_path env live acc p = Inr b" if p: "p \<in> set (sorted_set ps)" for p acc
  proof -
    obtain a b where ab: "scan_path env live0 a p = Inr b"
      using assms(1) p by (auto simp: scan_live_def dest: rfold_all)
    then obtain q where q: "validated_relative_path p = Inr q" by (auto simp: scan_path_def rbind_eq_Inr)
    have anc: "rfold (planned_parent live) () (butlast (path_chain q)) = rfold (planned_parent live0) () (butlast (path_chain q))"
      by (rule rfold_cong_set) (use above [OF _ q] p same in \<open>auto simp: planned_parent_def sorted_set_def\<close>)
    show ?thesis
    proof (cases "q \<in> set C")
      case False
      then have "map_of live q = map_of live0 q" by (rule same)
      then show ?thesis using ab q anc
        by (auto simp: scan_path_def rbind_eq_Inr split: option.splits live_node.splits if_splits)
    next
      case True
      then have r: "ready_path env live q" using assms(2) by (simp add: ready_def)
      have "\<exists>u. rfold (planned_parent live) () (butlast (path_chain q)) = Inr u"
        by (rule rfold_total) (use r in \<open>fastforce simp: ready_path_def ways_open_def planned_parent_def\<close>)
      then show ?thesis using q r
        by (auto simp: scan_path_def ready_path_def plain_file_def node_data_def split: option.splits)
    qed
  qed
  then show ?thesis unfolding scan_live_def option.case by (rule rfold_total)
qed

lemma scanned_in_scope:
  assumes "scan_live env (Some ps) live = Inr st" "map_of st p = Some v"
  shows "in_scope env (Some ps) p"
proof -
  have "(\<forall>p v. map_of st p = Some v \<longrightarrow> (\<exists>q\<in>set qs. validated_relative_path q = Inr p))"
    if "rfold (scan_path env live) acc xs = Inr st" "set xs \<subseteq> set qs"
      "\<forall>p v. map_of acc p = Some v \<longrightarrow> (\<exists>q\<in>set qs. validated_relative_path q = Inr p)" for acc xs qs
    using that
  proof (induction xs arbitrary: acc)
    case (Cons x xs)
    then obtain acc' where a: "scan_path env live acc x = Inr acc'" "rfold (scan_path env live) acc' xs = Inr st"
      by (auto simp: rbind_eq_Inr)
    obtain y where "validated_relative_path x = Inr y"
      "map_of acc' = (case state_at (he_tx env) live y of None \<Rightarrow> map_of acc | Some v \<Rightarrow> (map_of acc)(y \<mapsto> v))"
      using a(1) by (rule scan_path_Inr)
    then have "\<forall>p v. map_of acc' p = Some v \<longrightarrow> (\<exists>q\<in>set qs. validated_relative_path q = Inr p)"
      using Cons.prems(2,3) by (auto split: option.splits if_splits)
    then show ?case using Cons.IH [OF a(2)] Cons.prems(2) by simp
  qed simp
  from this [of "[]" "sorted_set ps" ps] show ?thesis
    using assms by (auto simp: scan_live_def in_scope_def sorted_set_def)
qed

section \<open>Restores of files\<close>

text \<open>
  A restore of files only: the changed paths are ready, stay files or absent, and lie in the scope, no
  path of the scope lies below one of them, and whatever has the digest of an entry fits the limit.
\<close>

definition file_restore :: "hist_env \<Rightarrow> live \<Rightarrow> manifest \<Rightarrow> manifest \<Rightarrow> bool" where
  "file_restore env live before target \<longleftrightarrow>
     disjoint_kinds target \<and> ready env (changed_paths before target) live
     \<and> (\<forall>p\<in>set (changed_paths before target).
          p \<notin> set (mf_dirs before) \<and> p \<notin> set (mf_dirs target) \<and> in_scope env (mf_scope target) p)
     \<and> (\<exists>ps. mf_scope target = Some ps
          \<and> (\<forall>p\<in>set ps. \<forall>q. validated_relative_path p = Inr q \<longrightarrow>
               (\<forall>a\<in>set (butlast (path_chain q)). a \<notin> set (changed_paths before target))))
     \<and> (\<forall>p d. (map_of (state_map before) p = Some (FileSt (tx_sha (he_tx env) d))
              \<or> map_of (state_map target) p = Some (FileSt (tx_sha (he_tx env) d))) \<longrightarrow>
            p \<in> set (changed_paths before target) \<longrightarrow> int (length d) \<le> he_max_bytes env)"

lemma stable_without_interference [simp]:
  "stable_ids (he_tx (without_interference env)) = stable_ids (he_tx env)"
  by (simp add: stable_ids_def without_interference_def)

text \<open>Outside the changed paths nothing changes, and they stay ready.\<close>

definition only_changed :: "hist_env \<Rightarrow> string list \<Rightarrow> live \<Rightarrow> live \<Rightarrow> bool" where
  "only_changed env C live0 live \<longleftrightarrow>
     (stable_ids (he_tx env) \<longrightarrow>
        ready env C live \<and> (\<forall>q. q \<notin> set C \<longrightarrow> map_of live q = map_of live0 q))"

interpretation only: live_invariant "without_interference env" "only_changed env C live0"
  "\<lambda>p. stable_ids (he_tx env) \<longrightarrow> p \<in> set C"
  "\<lambda>p d. stable_ids (he_tx env) \<longrightarrow>
     p \<in> set C \<and> (\<forall>data. tx_sha (he_tx env) data = d \<longrightarrow> int (length data) \<le> he_max_bytes env)"
  "\<lambda>p. stable_ids (he_tx env) \<longrightarrow> p \<notin> set C \<and> map_of live0 p \<noteq> None" True
  for env C live0
proof unfold_locales
  fix live p data n
  assume R: "only_changed env C live0 live"
    and f: "stable_ids (he_tx env) \<longrightarrow> p \<in> set C \<and> (\<forall>d. tx_sha (he_tx env) d
      = tx_sha (he_tx (without_interference env)) data \<longrightarrow> int (length d) \<le> he_max_bytes env)"
    and n: "written_node (he_tx (without_interference env)) live p data n"
  show "only_changed env C live0 (AList.update p n live)"
    unfolding only_changed_def
  proof (intro impI conjI)
    assume st: "stable_ids (he_tx env)"
    have old: "plain_file m" if "map_of live p = Some m" for m
      using R f st that by (auto simp: only_changed_def ready_def ready_path_def)
    have "plain_file n" "node_data n = data" using written_node_plain [OF n _ old] st by simp_all
    then show "ready env C (AList.update p n live)" using R f st by (auto simp: only_changed_def intro: ready_update)
    show "\<forall>q. q \<notin> set C \<longrightarrow> map_of (AList.update p n live) q = map_of live0 q"
      using R f st by (auto simp: only_changed_def update_conv')
  qed
next
  fix live p assume "only_changed env C live0 live" "stable_ids (he_tx env) \<longrightarrow> p \<in> set C"
  then show "only_changed env C live0 (AList.delete p live)"
    by (auto simp: only_changed_def delete_conv' intro: ready_delete)
next
  fix live p k
  assume "only_changed env C live0 live" "stable_ids (he_tx env) \<longrightarrow> p \<notin> set C \<and> map_of live0 p \<noteq> None"
    "map_of live p = None"
  then show "only_changed env C live0
      (AList.update p (LiveDir (ev_identity (tx_event_at (he_tx (without_interference env)) k))) live)"
    by (auto simp: only_changed_def)
qed simp

lemma only_strict: "only.strict"
  by (simp add: only.strict_def)

lemma only_may_apply:
  assumes "ready env C live0"
    and dirs: "\<And>p. p \<in> set C \<Longrightarrow> p \<notin> set (mf_dirs m)"
    and sizes: "\<And>p e d. p \<in> set C \<Longrightarrow> map_of (entry_map m) p = Some e \<Longrightarrow> tx_sha (he_tx env) d = me_sha e \<Longrightarrow>
      int (length d) \<le> he_max_bytes env"
  shows "only.may_apply env C live0 m C current"
proof -
  have way: "q \<notin> set C \<and> map_of live0 q \<noteq> None" if "p \<in> set C" "q \<in> set (path_chain (parent_of p))" for p q
  proof -
    have r: "ways_open live0 (path_chain (parent_of p))" "apart env C"
      using assms(1) that(1) by (simp_all add: ready_def ready_path_def)
    have "q \<notin> set C" using r(2) that unfolding apart_def by blast
    moreover have "map_of live0 q \<noteq> None" using r(1) that(2) unfolding ways_open_def by fastforce
    ultimately show ?thesis by simp
  qed
  have missing: "missing_ancestors live p = []"
    if "only_changed env C live0 live" "stable_ids (he_tx env)" "p \<in> set C" for live p
    using that by (auto simp: only_changed_def ready_def ready_path_def intro: no_missing_ancestors)
  show ?thesis
    unfolding only.may_apply_def
    using way missing dirs sizes by (intro ballI conjI allI impI) (blast | auto)+
qed

section \<open>The recovery after the restart\<close>

lemma checkpoint_states_same:
  "checkpoint_state (tx_sha (he_tx env)) (h_blobs s) m = Inr (state_map m) \<Longrightarrow>
     checkpoint_states env m s = (s, Inr (state_map m))"
  by (simp add: checkpoint_states_def mbind_def mget_def mlift_def)

lemma verified_content:
  assumes "checkpoint_state sha bs m = Inr st" "map_of (entry_map m) p = Some e"
  shows "\<exists>d. entry_bytes bs e = Inr d \<and> sha d = me_sha e \<and> int (length d) = me_size e"
proof -
  have e: "e \<in> set (mf_files m)" using assms(2) by (auto simp: entry_map_def dest!: map_of_SomeD)
  have "verify_checkpoint_integrity sha bs m = Inr ()"
    using assms(1) by (auto simp: checkpoint_state_def rbind_eq_Inr)
  then have "\<exists>a b. verify_entry sha bs e = Inr b"
    using rfold_all [of "\<lambda>_. verify_entry sha bs" "()" "mf_files m" "()" e] e
    by (auto simp: verify_checkpoint_integrity_def)
  then show ?thesis by (auto simp: verify_entry_def rbind_eq_Inr split: if_splits)
qed

lemma gives_scan:
  assumes "undisturbed (he_tx env)" "\<not> tx_dead s" "scan_live env sc (tx_live s) = Inr st"
  shows "gives (scan_current_state env sc) s st (tx_live s)"
  unfolding scan_current_state_def
  by (rule gives_bind_arrive [OF assms(1,2)], rule gives_bind_get, simp add: assms(3))
    (simp add: gives_def mlift_def, rule exI [of _ "Suc (tx_clock s)"], simp)

lemma set_state_undisturbed:
  assumes "undisturbed (he_tx env)" "\<not> tx_dead s"
  shows "\<exists>t. set_state env st s = (t, Inr ()) \<and> tx_live t = tx_live s \<and> h_journal t = Some ((h_mem s)\<lparr>j_state := st\<rparr>)"
  using assms
  by (simp add: set_state_def update_journal_def set_mem_def write_journal_def mbind_def mput_def arrive_undisturbed)

lemma recover_restore_returns:
  assumes u: "undisturbed (he_tx env)" and st: "stable_ids (he_tx env)" and a: "\<not> tx_dead s"
    and j: "journal_of before target C j"
    and cp: "checkpoint_state (tx_sha (he_tx env)) (h_blobs s) before = Inr (state_map before)"
      "checkpoint_state (tx_sha (he_tx env)) (h_blobs s) target = Inr (state_map target)"
    and sc: "mf_scope before = Some ps" "mf_scope target = Some ps"
    and r: "ready env C (tx_live s)"
    and scans: "\<And>live. ready env C live \<Longrightarrow> (\<forall>q. q \<notin> set C \<longrightarrow> map_of live q = map_of (tx_live s) q) \<Longrightarrow>
      \<exists>cur. scan_live env (Some ps) live = Inr cur"
    and att: "\<And>p. in_scope env (Some ps) p \<Longrightarrow> state_at (he_tx env) (tx_live s) p = map_of (state_map before) p
      \<or> (p \<in> set C \<and> state_at (he_tx env) (tx_live s) p = map_of (state_map target) p)"
    and inside: "\<And>p v. map_of (state_map before) p = Some v \<Longrightarrow> in_scope env (Some ps) p"
      "\<And>p. p \<in> set C \<Longrightarrow> in_scope env (Some ps) p"
    and nd: "\<And>p. p \<in> set C \<Longrightarrow> p \<notin> set (mf_dirs before)"
    and sizes: "\<And>p e. p \<in> set C \<Longrightarrow> map_of (entry_map before) p = Some e \<Longrightarrow> me_size e \<le> he_max_bytes env"
  shows "\<exists>t. recover_restore env j s = (t, Inr ()) \<and> h_journal t = Some ((h_mem s)\<lparr>j_state := FailedRecovered\<rparr>)
    \<and> (\<forall>p. in_scope env (Some ps) p \<longrightarrow> state_at (he_tx env) (tx_live t) p = map_of (state_map before) p)"
proof -
  note jf = j [unfolded journal_of_def]
  obtain current where cur: "scan_live env (Some ps) (tx_live s) = Inr current" and d: "distinct (List.map fst (tx_live s))"
    using scans [OF r] r by (auto simp: ready_def)
  have cs: "map_of current p = state_at (he_tx env) (tx_live s) p" if "in_scope env (Some ps) p" for p
    by (rule scan_live_state [OF cur d that])
  have outside: "map_of m p = None" if "\<not> in_scope env (Some ps) p" "\<And>v. map_of m p = Some v \<Longrightarrow> in_scope env (Some ps) p"
    for m :: state_map and p using that by (cases "map_of m p") auto
  have "explained (state_map before) (state_map target) C current"
    unfolding explained_def
  proof
    fix p
    show "map_of current p = map_of (state_map before) p \<or> (p \<in> set C \<and> map_of current p = map_of (state_map target) p)"
    proof (cases "in_scope env (Some ps) p")
      case True
      then show ?thesis using att cs by simp
    next
      case False
      then have "map_of current p = None" "map_of (state_map before) p = None"
        using scanned_in_scope [OF cur, of p] inside(1) [of p] by (auto intro: outside)
      then show ?thesis by simp
    qed
  qed
  then have expl: "foreign_changes (state_map before) (state_map target) current C = []"
    by (simp add: foreign_changes_Nil)
  obtain n where n: "scan_current_state env (Some ps) s = (s\<lparr>tx_live := tx_live s, tx_clock := n\<rparr>, Inr current)"
    using gives_scan [OF u a cur] unfolding gives_def by blast
  let ?s1 = "s\<lparr>tx_live := tx_live s, tx_clock := n\<rparr>"
  have content: "has_content env (h_blobs ?s1) before p"
    if "p \<in> set C" "p \<in> set (List.map fst (entry_map before))" for p
  proof -
    from that(2) obtain e where e: "map_of (entry_map before) p = Some e"
      by (metis map_of_eq_None_iff not_None_eq set_map)
    show ?thesis using verified_content [OF cp(1) e] e sizes [OF that(1) e] by (auto simp: has_content_def)
  qed
  obtain live where g: "gives (apply_manifest env False False before (Some C) None None) ?s1 () live"
    and live: "ready env C live" "\<forall>q. q \<notin> set C \<longrightarrow> map_of live q = map_of (tx_live s) q"
      "\<forall>p\<in>set C. state_at (he_tx env) live p = map_of (state_map before) p"
    using gives_apply_manifest [OF u st, of ?s1 C before current] a r cur sc(1) cs inside(2) nd content by auto
  obtain k where k: "apply_manifest env False False before (Some C) None None ?s1
      = (?s1\<lparr>tx_live := live, tx_clock := k\<rparr>, Inr ())" using g unfolding gives_def by blast
  let ?s2 = "?s1\<lparr>tx_live := live, tx_clock := k\<rparr>"
  obtain rec where rec: "scan_live env (Some ps) live = Inr rec" and d': "distinct (List.map fst live)"
    using scans [OF live(1,2)] live(1) by (auto simp: ready_def)
  have final: "state_at (he_tx env) live p = map_of (state_map before) p" if "in_scope env (Some ps) p" for p
  proof (cases "p \<in> set C")
    case True
    then show ?thesis using live(3) by blast
  next
    case False
    then have "state_at (he_tx env) live p = state_at (he_tx env) (tx_live s) p" using live(2) by (simp add: state_at_def)
    then show ?thesis using att [OF that] False by simp
  qed
  have same: "same_state rec (state_map before)"
    unfolding same_state_iff
  proof
    fix p
    show "map_of rec p = map_of (state_map before) p"
    proof (cases "in_scope env (Some ps) p")
      case True
      then show ?thesis using final scan_live_state [OF rec d'] by simp
    next
      case False
      then show ?thesis using scanned_in_scope [OF rec, of p] inside(1) [of p] by (metis not_None_eq)
    qed
  qed
  obtain m where m: "scan_current_state env (Some ps) ?s2 = (?s2\<lparr>tx_live := tx_live ?s2, tx_clock := m\<rparr>, Inr rec)"
    using gives_scan [OF u, of ?s2 "Some ps" rec] a rec unfolding gives_def by auto
  let ?s3 = "?s2\<lparr>tx_live := tx_live ?s2, tx_clock := m\<rparr>"
  obtain t where t: "set_state env FailedRecovered ?s3 = (t, Inr ())" "tx_live t = live"
    "h_journal t = Some ((h_mem s)\<lparr>j_state := FailedRecovered\<rparr>)"
    using set_state_undisturbed [OF u, of ?s3 FailedRecovered] a by auto
  have "recover_restore env j s = (t, Inr ())"
    unfolding recover_restore_def
    using jf expl same sc n k m t(1) checkpoint_states_same [OF cp(1)] checkpoint_states_same [OF cp(2)]
    by (simp add: mbind_def mlift_def require_matching_scope_def)
  then show ?thesis using t final by blast
qed

lemma keeps_both: "keeps P m \<Longrightarrow> keeps Q m \<Longrightarrow> keeps (\<lambda>s. P s \<and> Q s) m"
  by (simp add: keeps_def)

lemma finish_keeps_only:
  assumes "no_interference (he_tx env)" "ready env C live0" "C = changed_paths current target"
    and dirs: "\<And>p. p \<in> set C \<Longrightarrow> p \<notin> set (mf_dirs current) \<and> p \<notin> set (mf_dirs target)"
    and sizes: "\<And>p e d. p \<in> set C \<Longrightarrow> map_of (entry_map current) p = Some e \<or> map_of (entry_map target) p = Some e \<Longrightarrow>
      tx_sha (he_tx env) d = me_sha e \<Longrightarrow> int (length d) \<le> he_max_bytes env"
  shows "keeps (only.PB env C live0 current target C) (finish_restore env expected target ids current)"
proof -
  have "keeps (only.PB env C live0 current target C) (finish_restore (without_interference env) expected target ids current)"
    unfolding finish_restore_def
    by (rule only.keeps_PB_restore [OF only_strict]; rule only_may_apply) (use assms in blast)+
  then show ?thesis using assms(1) by simp
qed

lemma file_restore_kinds:
  assumes "file_restore env live before target" "map_of (state_map before) = map_of (state_map current)"
    and "\<And>p. in_scope env (mf_scope target) p \<Longrightarrow> map_of (state_map current) p = state_at (he_tx env) live p"
  shows "keeps_kinds (state_map current) (state_map target)"
    "ways_are_directories (in_scope env (mf_scope target)) (state_map current) (state_map target)"
proof -
  let ?C = "changed_paths before target"
  have C: "p \<in> set ?C \<longleftrightarrow> map_of (state_map current) p \<noteq> map_of (state_map target) p" for p
    using assms(2) by (simp add: changed_paths_iff)
  have no_dir: "map_of (state_map current) p \<noteq> Some DirSt \<and> map_of (state_map target) p \<noteq> Some DirSt" if "p \<in> set ?C" for p
    using assms(1,2) that state_map_cases(2) [of p before] state_map_cases(2) [of p target] by (auto simp: file_restore_def)
  show "keeps_kinds (state_map current) (state_map target)"
    unfolding keeps_kinds_def
  proof (intro allI)
    fix p d
    show "\<not> (map_of (state_map current) p = Some DirSt \<and> map_of (state_map target) p = Some (FileSt d))
        \<and> \<not> (map_of (state_map target) p = Some DirSt \<and> map_of (state_map current) p = Some (FileSt d))"
      using no_dir [of p] C [of p] by (cases "p \<in> set ?C") auto
  qed
  have dir: "state_at (he_tx env) live q = Some DirSt" if "p \<in> set ?C" "q \<in> set (path_chain (parent_of p))" for p q
  proof -
    have "ways_open live (path_chain (parent_of p))"
      using assms(1) that(1) by (simp add: file_restore_def ready_def ready_path_def)
    from this that(2) obtain i where "map_of live q = Some (LiveDir i)" by (auto simp: ways_open_def)
    then show ?thesis by (simp add: state_at_def)
  qed
  show "ways_are_directories (in_scope env (mf_scope target)) (state_map current) (state_map target)"
    unfolding ways_are_directories_def
  proof (intro allI impI ballI)
    fix p v q
    assume a: "map_of (state_map current) p \<noteq> map_of (state_map target) p"
      "map_of (state_map current) p = Some v \<or> map_of (state_map target) p = Some v"
      "q \<in> set (path_chain (parent_of p)) \<union> (if v = DirSt then set (path_chain p) else {})"
    then have p: "p \<in> set ?C" using C by blast
    have "v \<noteq> DirSt" using no_dir [OF p] a(2) by auto
    then have "q \<in> set (path_chain (parent_of p))" using a(3) by simp
    then show "as_before_or_intended (in_scope env (mf_scope target)) (state_map current) (state_map target) q (Some DirSt)"
      using dir [OF p] assms(3) by (simp add: as_before_or_intended_def)
  qed
qed

definition extends_blobs :: "blobs \<Rightarrow> blobs \<Rightarrow> bool" where
  "extends_blobs a b \<longleftrightarrow> (\<forall>k d. map_of a k = Some d \<longrightarrow> map_of b k = Some d)"

lemma verified_in_more:
  assumes "checkpoint_state sha a m = Inr st" "extends_blobs a b"
  shows "checkpoint_state sha b m = Inr st"
proof -
  have "rfold (\<lambda>_. verify_entry sha a) () es = Inr () \<Longrightarrow> rfold (\<lambda>_. verify_entry sha b) () es = Inr ()" for es
  proof (induction es)
    case (Cons e es)
    then have "verify_entry sha a e = Inr ()" by (auto simp: rbind_eq_Inr)
    then have "verify_entry sha b e = Inr ()"
      using assms(2) by (auto simp: verify_entry_def entry_bytes_def extends_blobs_def rbind_eq_Inr split: option.splits if_splits)
    then show ?case using Cons by (auto simp: rbind_eq_Inr)
  qed simp
  then show ?thesis using assms(1) by (auto simp: checkpoint_state_def verify_checkpoint_integrity_def rbind_eq_Inr)
qed

lemma captured_blobs:
  assumes "capture_workspace_state env sc s = (s', r)"
  shows "extends_blobs (h_blobs s) (h_blobs s')"
proof -
  let ?E = "\<lambda>t :: hist. extends_blobs (h_blobs s) (h_blobs t)"
  have arr: "keeps ?E (arrive (he_tx env))" by (rule keeps_arrive) (simp add: framed_def)
  have one: "keeps ?E (capture_blob env n live p)" for n live p
    unfolding keeps_def
  proof (intro allI impI)
    fix t assume e: "?E t"
    show "?E (fst (capture_blob env n live p t))"
    proof (cases "store_blob (tx_sha (he_tx env)) (he_max_data env) (he_data_size env) n
        (tx_sha (he_tx env) (file_data live p)) (file_data live p) (h_blobs t)")
      case (Inr bs)
      then have "extends_blobs (h_blobs t) bs"
        by (auto simp: store_blob_def extends_blobs_def update_conv' rbind_eq_Inr split: option.splits if_splits)
      then show ?thesis using e Inr
        by (auto simp: capture_blob_def mbind_def mget_def mlift_def mput_def extends_blobs_def)
    qed (use e in \<open>simp add: capture_blob_def mbind_def mget_def mlift_def\<close>)
  qed
  have "keeps ?E (capture_workspace_state env sc)"
    unfolding capture_workspace_state_def by (intro keeps_rules arr one)
  then show ?thesis using keepsD [of ?E _ s s' r] assms by (simp add: extends_blobs_def)
qed

lemma preflight_content:
  assumes w: "write_journal env (start_restore target s) = (t, Inr ())"
    and p: "restore_preflight env expected target ids t = (t', Inr current)"
  shows "checkpoint_state (tx_sha (he_tx env)) (h_blobs t') current = Inr (state_map current)"
    "checkpoint_state (tx_sha (he_tx env)) (h_blobs t') target = Inr (state_map target)"
proof -
  from p obtain t1 t2 t3 t4 where 1: "mf_scope target = mf_scope expected"
    "checkpoint_states env target t = (t, Inr (state_map target))"
    "capture_workspace_state env (mf_scope expected) t = (t1, Inr current)"
    "checkpoint_states env current t1 = (t1, Inr (state_map current))"
    "stage_manifest_files env target (changed_paths current target) t1 = (t2, Inr ())"
    "mfold (verify_staged_entry env target) (changed_paths current target) t2 = (t3, Inr ())"
    "verify_restore_identities env ids t3 = (t4, Inr ())"
    "update_journal env (\<lambda>j. j\<lparr>j_state := Staged, j_before := Some current,
       j_changed := changed_paths current target\<rparr>) t4 = (t', Inr ())"
    by (rule restore_preflight_cases)
  let ?B = "\<lambda>u :: hist. h_blobs u = h_blobs t1"
  have B: "framed ?B" by (simp add: framed_def)
  have k: "keeps ?B (stage_manifest_files env m ps)" "keeps ?B (verify_staged_entry env m q)"
    "keeps ?B (verify_restore_identities env ids)" "keeps ?B (update_journal env f)" for m ps q f
    unfolding stage_manifest_files_def stage_entry_def verify_staged_entry_def verify_restore_identities_def
      verify_restore_identity_def update_journal_def set_mem_def write_journal_def
    by (intro keeps_rules keeps_put keeps_arrive B; simp)+
  have "?B t2" using keepsD [OF k(1) _ 1(5)] by simp
  then have "?B t3" using keepsD [OF keeps_fold [OF k(2)] _ 1(6)] by simp
  then have "?B t4" using keepsD [OF k(3) _ 1(7)] by simp
  then have bs: "h_blobs t' = h_blobs t1" using keepsD [OF k(4) _ 1(8)] by simp
  show "checkpoint_state (tx_sha (he_tx env)) (h_blobs t') current = Inr (state_map current)"
    using 1(4) bs by (simp add: checkpoint_states_def op_simps)
  have "checkpoint_state (tx_sha (he_tx env)) (h_blobs t) target = Inr (state_map target)"
    using 1(2) by (simp add: checkpoint_states_def op_simps)
  then show "checkpoint_state (tx_sha (he_tx env)) (h_blobs t') target = Inr (state_map target)"
    using verified_in_more [OF _ captured_blobs [OF 1(3)]] bs by simp
qed

lemma preflight_scanned:
  assumes w: "write_journal env (start_restore target s) = (t, Inr ())"
    and p: "restore_preflight env expected target ids t = (t', Inr current)"
    and alone: "no_interference (he_tx env)"
  shows "\<exists>st. scan_live env (mf_scope target) (tx_live s) = Inr st
       \<and> (\<forall>q v. map_of (state_map current) q = Some v \<longrightarrow> map_of st q \<noteq> None)"
proof -
  from p obtain t1 where 1: "mf_scope target = mf_scope expected"
    "capture_workspace_state env (mf_scope expected) t = (t1, Inr current)"
    by (rule restore_preflight_cases)
  have lt: "tx_live t = tx_live s"
    using keepsD [OF keeps_untouched(1) untouched_start w] alone by (simp add: untouched_def start_restore_def)
  have l1: "tx_live t1 = tx_live t"
    using keepsD [OF keeps_untouched_capture untouched_start 1(2)] alone unfolding untouched_def by (metis foreign_run_id)
  obtain st where st: "scan_live env (mf_scope target) (tx_live t1) = Inr st"
    "current = \<lparr>mf_files = List.map (capture_entry env (tx_live t1)) (state_files st), mf_dirs = state_dirs st,
       mf_scope = mf_scope expected\<rparr>" using capture_Inr [OF 1(2)] 1(1) by auto
  have "map_of st q \<noteq> None" if "map_of (state_map current) q = Some v" for q v
  proof -
    have "q \<in> set (state_files st) \<or> q \<in> set (state_dirs st)"
      using that map_of_SomeD [OF that] by (auto simp: state_map_def st(2) capture_entry_def)
    then have "q \<in> fst ` set st" by (auto simp: state_files_def state_dirs_def)
    then show ?thesis by (simp add: map_of_eq_None_iff)
  qed
  then show "\<exists>st. scan_live env (mf_scope target) (tx_live s) = Inr st
       \<and> (\<forall>q v. map_of (state_map current) q = Some v \<longrightarrow> map_of st q \<noteq> None)"
    using st(1) l1 lt by auto
qed

text \<open>
  C9. The journal is written ahead of the workspace: at whatever point a restore is cut off, by the
  end of the process, a failing step or a refusal, and whatever others do meanwhile, either nothing in
  the workspace was changed by it, or the durable journal names the state it started from, the target
  and all paths that differ, and every content of both is in the durable store, whole and with its
  digest. As long as the durable journal does not say that applying has begun, it is the former.
\<close>

theorem restore_journal_written_ahead:
  assumes "restore_workspace_state env expected target ids s = (s', r)"
  shows "(tx_live s' = foreign_run (he_tx env) (tx_clock s) (tx_clock s') (tx_live s)
      \<or> (\<exists>j before. h_journal s' = Some j \<and> j_kind j = ''workspace_restore''
          \<and> j_before j = Some before \<and> j_target j = Some target \<and> j_changed j = changed_paths before target
          \<and> map_of (state_map before) = map_of (state_map expected)
          \<and> checkpoint_state (tx_sha (he_tx env)) (h_blobs s') before = Inr (state_map before)
          \<and> checkpoint_state (tx_sha (he_tx env)) (h_blobs s') target = Inr (state_map target)))
    \<and> (early_or_none s' \<longrightarrow> tx_live s' = foreign_run (he_tx env) (tx_clock s) (tx_clock s') (tx_live s))"
  using assms
proof (cases rule: restore_cases)
  case (early e)
  then show ?thesis by (simp add: untouched_def)
next
  case (late t t' current)
  have "j_target (h_mem t) = Some target" "j_kind (h_mem t) = ''workspace_restore''"
    using late(1) by (auto simp: write_journal_def start_restore_def fresh_journal_def op_simps dest!: arrive_mem)
  note b = restore_preflight_bound [OF late(2) this]
  have "durable current target (changed_paths current target) (h_blobs t') t'"
    using b by (auto simp: durable_def journal_of_def bound_to_def)
  then have d: "durable current target (changed_paths current target) (h_blobs t') s'"
    using keepsD [OF durable.keeps_finish _ late(3)] by blast
  have "map_of (state_map current) = map_of (state_map expected)" using b same_state_iff by metis
  then show ?thesis
    using d preflight_content [OF late(1,2)] restore_early_untouched [OF assms]
    by (auto simp: durable_def journal_of_def)
qed

lemma restore_journal_written_ahead_witness:
  "tx_live (fst (restore_workspace_state (demo_hist_env (crash_at 3)) demo_before demo_target None demo_hist)) = tx_live demo_hist
   \<and> (\<exists>j before. h_journal (fst (restore_workspace_state (demo_hist_env (crash_at 10)) demo_before demo_target None demo_hist)) = Some j
      \<and> j_before j = Some before \<and> map_of (state_map before) = map_of (state_map demo_before))"
proof -
  let ?m = "\<lambda>k. restore_workspace_state (demo_hist_env (crash_at k)) demo_before demo_target None demo_hist"
  have a: "?m k = (fst (?m k), snd (?m k))" for k by simp
  have alone: "no_interference (he_tx (demo_hist_env (crash_at k)))" for k
    by (simp add: no_interference_def demo_hist_env_def crash_at_def quiet_event_def)
  have "map_option j_state (h_journal (fst (?m 3))) = Some Staged" "tx_live (fst (?m 10)) \<noteq> tx_live demo_hist" by code_simp+
  then show ?thesis
    using restore_journal_written_ahead [OF a, of 3] restore_journal_written_ahead [OF a, of 10] alone
    by (auto simp: early_or_none_def early_states_def)
qed

lemma sorted_set_cong: "set xs = set ys \<Longrightarrow> sorted_set xs = sorted_set ys"
  unfolding sorted_set_def by (metis sorted_list_of_set_sort_remdups)

lemma changed_paths_cong:
  assumes "map_of (state_map a) = map_of (state_map b)"
  shows "changed_paths a t = changed_paths b t"
proof -
  have "set (changed_paths a t) = set (changed_paths b t)" using assms by (auto simp: changed_paths_iff)
  moreover have "sorted_set (changed_paths m t) = changed_paths m t" for m
    by (simp add: changed_paths_def differing_def sorted_set_def sorted_sort_id distinct_remdups_id)
  ultimately show ?thesis using sorted_set_cong by metis
qed

definition with_events :: "hist_env \<Rightarrow> (nat \<Rightarrow> tx_event) \<Rightarrow> hist_env" where
  "with_events env events = env\<lparr>he_tx := (he_tx env)\<lparr>tx_event_at := events\<rparr>\<rparr>"

lemma with_events_fields [simp]:
  "tx_sha (he_tx (with_events env ev)) = tx_sha (he_tx env)"
  "tx_fold (he_tx (with_events env ev)) = tx_fold (he_tx env)"
  "he_denied (with_events env ev) = he_denied env" "he_blocked (with_events env ev) = he_blocked env"
  "he_max_bytes (with_events env ev) = he_max_bytes env"
  by (simp_all add: with_events_def)

lemma with_events_walk [simp]:
  "in_denied (with_events env ev) = in_denied env" "hidden_file (with_events env ev) = hidden_file env"
  "walk_node (with_events env ev) = walk_node env" "scan_path (with_events env ev) = scan_path env"
proof -
  show denied: "in_denied (with_events env ev) = in_denied env"
    by (simp add: fun_eq_iff in_denied_def)
  show hidden: "hidden_file (with_events env ev) = hidden_file env"
    by (simp add: fun_eq_iff hidden_file_def denied)
  show "walk_node (with_events env ev) = walk_node env"
    unfolding fun_eq_iff walk_node_def with_events_fields denied hidden by simp
  show "scan_path (with_events env ev) = scan_path env"
    unfolding fun_eq_iff scan_path_def with_events_fields by simp
qed

lemma with_events_sel [simp]:
  "state_at (he_tx (with_events env ev)) = state_at (he_tx env)"
  "in_scope (with_events env ev) = in_scope env" "ready (with_events env ev) = ready env"
  "scan_live (with_events env ev) = scan_live env"
proof -
  show "state_at (he_tx (with_events env ev)) = state_at (he_tx env)"
    unfolding state_at_def with_events_fields ..
  show "in_scope (with_events env ev) = in_scope env"
    unfolding in_scope_def with_events_walk ..
  show "ready (with_events env ev) = ready env"
    unfolding ready_def apart_def ready_path_def case_distinct_def with_events_fields ..
  show "scan_live (with_events env ev) = scan_live env"
    unfolding scan_live_def with_events_walk ..
qed

text \<open>
  C1. A restore of files is atomic across crashes: cut off at any step while it was applying its
  changes or undoing them, the recovery after the restart succeeds, closes the journal, and every path
  of the scope is again as it was before the restore.
\<close>

theorem crash_recovery_restores_before:
  assumes run: "restore_workspace_state env expected target ids s = (s', r)"
    and alone: "no_interference (he_tx env)" and st: "stable_ids (he_tx env)" and new: "h_journal s = None"
    and files: "file_restore env (tx_live s) expected target"
    and j: "h_journal s' = Some j" "j_state j \<in> {Applying, Recovering}"
    and quiet: "undisturbed (he_tx (with_events env events))" "stable_ids (he_tx (with_events env events))"
  shows "\<exists>t j'. reboot (with_events env events) s' = (t, Inr ())
    \<and> h_journal t = Some j' \<and> j_state j' = FailedRecovered
    \<and> (\<forall>p. in_scope env (mf_scope target) p \<longrightarrow>
         state_at (he_tx env) (tx_live t) p = state_at (he_tx env) (tx_live s) p)"
  using run
proof (cases rule: restore_cases)
  case (early e)
  then show ?thesis using j new by (auto simp: early_mem_def early_or_none_def early_states_def)
next
  case (late t t' current)
  let ?in = "in_scope env (mf_scope target)" and ?C = "changed_paths current target"
  have d: "distinct (List.map fst (tx_live s))" using files by (simp add: file_restore_def ready_def)
  note f = restore_begins [OF late(1,2) alone d]
  note stored = preflight_content [OF late(1,2)] preflight_scanned [OF late(1,2) alone]
  have C: "changed_paths expected target = ?C" by (rule changed_paths_cong [OF f(8)])
  note ff = files [unfolded file_restore_def C]
  obtain ps where ps: "mf_scope target = Some ps"
    "\<And>p q a. p \<in> set ps \<Longrightarrow> validated_relative_path p = Inr q \<Longrightarrow> a \<in> set (butlast (path_chain q)) \<Longrightarrow> a \<notin> set ?C"
    using ff by blast
  have no_dir: "p \<notin> set (mf_dirs current) \<and> p \<notin> set (mf_dirs target)" if "p \<in> set ?C" for p
  proof -
    have "p \<notin> set (mf_dirs expected)" "p \<notin> set (mf_dirs target)" using ff that by blast+
    then show ?thesis using state_map_cases(1) [of p current] state_map_cases(2) [of p expected] f(8) by auto
  qed
  have sizes: "int (length x) \<le> he_max_bytes env"
    if "p \<in> set ?C" "map_of (entry_map current) p = Some e \<or> map_of (entry_map target) p = Some e"
      "tx_sha (he_tx env) x = me_sha e" for p e x
    using ff that state_map_entry [OF f(3)] state_map_entry [of target] f(8) by metis
  have ready0: "ready env ?C (tx_live s)" using ff by blast
  note kinds = file_restore_kinds [OF files f(8,4)]
  have att: "attributed.PB env ?in (state_map current) (state_map target) current target ?C s'"
  proof -
    have "attributable (he_tx env) ?in (state_map current) (state_map target) (tx_live t')"
      using f(1,4) d by (simp add: attributable_def as_before_or_intended_def)
    then have start: "attributed.PB env ?in (state_map current) (state_map target) current target ?C t'"
      using f(5,7) unfolding attributed.PB_def attributed.P_def by simp
    show ?thesis using keepsD [OF finish_keeps_attributed start late(3)] alone f(2,3) ff kinds by blast
  qed
  have only: "only.PB env ?C (tx_live s) current target ?C s'"
  proof -
    have start: "only.PB env ?C (tx_live s) current target ?C t'"
      using f(1,5,7) ready0 unfolding only.PB_def only.P_def by (simp add: only_changed_def)
    show ?thesis
      using keepsD [OF finish_keeps_only [OF alone ready0 refl] start late(3)] no_dir sizes by blast
  qed
  have dur: "durable current target ?C (h_blobs t') s'"
  proof -
    have "durable current target ?C (h_blobs t') t'"
      using f(5,6) by (simp add: durable_def journal_of_def bound_to_def)
    then show ?thesis using keepsD [OF durable.keeps_finish _ late(3)] by blast
  qed
  let ?env = "with_events env events" and ?s = "s'\<lparr>tx_dead := False, h_mem := j\<rparr>"
  have jj: "journal_of current target ?C j" and blobs: "h_blobs ?s = h_blobs t'"
    using dur j(1) by (auto simp: durable_def)
  have readys: "ready env ?C (tx_live s')" and same: "\<And>q. q \<notin> set ?C \<Longrightarrow> map_of (tx_live s') q = map_of (tx_live s) q"
    using only st unfolding only.PB_def only.P_def by (auto simp: only_changed_def)
  obtain st0 where st0: "scan_live env (Some ps) (tx_live s) = Inr st0"
    "\<And>q v. map_of (state_map current) q = Some v \<Longrightarrow> map_of st0 q \<noteq> None" using stored(3) ps(1) by auto
  have rec: "\<exists>t. recover_restore ?env j ?s = (t, Inr ()) \<and> h_journal t = Some ((h_mem ?s)\<lparr>j_state := FailedRecovered\<rparr>)
    \<and> (\<forall>p. in_scope ?env (Some ps) p \<longrightarrow> state_at (he_tx ?env) (tx_live t) p = map_of (state_map current) p)"
  proof (rule recover_restore_returns [OF quiet _ jj])
    show "checkpoint_state (tx_sha (he_tx ?env)) (h_blobs ?s) current = Inr (state_map current)"
      "checkpoint_state (tx_sha (he_tx ?env)) (h_blobs ?s) target = Inr (state_map target)"
      using stored(1,2) blobs by simp_all
    show "\<exists>cur. scan_live ?env (Some ps) live = Inr cur"
      if "ready ?env ?C live" "\<forall>q. q \<notin> set ?C \<longrightarrow> map_of live q = map_of (tx_live ?s) q" for live
      using scan_again [OF st0(1), of ?C live] that ps(2) same by simp
    show "state_at (he_tx ?env) (tx_live ?s) p = map_of (state_map current) p
        \<or> (p \<in> set ?C \<and> state_at (he_tx ?env) (tx_live ?s) p = map_of (state_map target) p)"
      if "in_scope ?env (Some ps) p" for p
      using att that ps(1) unfolding attributed.PB_def attributed.P_def
      by (auto simp: attributable_def as_before_or_intended_def changed_paths_iff)
    show "in_scope ?env (Some ps) p" if "map_of (state_map current) p = Some v" for p v
      using st0(2) [OF that] scanned_in_scope [OF st0(1)] by auto
    show "in_scope ?env (Some ps) p" if "p \<in> set ?C" for p using ff that ps(1) by simp
    show "me_size e \<le> he_max_bytes ?env" if "p \<in> set ?C" "map_of (entry_map current) p = Some e" for p e
      using verified_content [OF stored(1) that(2)] sizes that by fastforce
  qed (use readys f(2) ps(1) no_dir in simp_all)
  obtain u where u: "recover_restore ?env j ?s = (u, Inr ())" "h_journal u = Some (j\<lparr>j_state := FailedRecovered\<rparr>)"
    "\<forall>p. ?in p \<longrightarrow> state_at (he_tx env) (tx_live u) p = map_of (state_map current) p"
    using rec ps(1) by auto
  have "j_kind j \<noteq> ''single_file_write''" using jj by (simp add: journal_of_def)
  then have "reboot ?env s' = (u, Inr ())"
    using j u(1) by (auto simp: reboot_def recover_incomplete_workspace_transaction_def mbind_def mget_def)
  then show ?thesis using u f(4) by (intro exI [of _ u] exI [of _ "j\<lparr>j_state := FailedRecovered\<rparr>"]) simp
qed

lemma demo_changed: "changed_paths demo_before demo_target = [''d/a'', ''d/b'']"
  by code_simp

lemma demo_ready: "ready (demo_hist_env ev) [''d/a'', ''d/b''] (tx_live demo_hist)"
proof -
  have c: "parent_of ''d/a'' = ''d''" "parent_of ''d/b'' = ''d''" "path_chain ''d'' = [''d'']"
    "path_chain ''d/a'' = [''d'', ''d/a'']" "path_chain ''d/b'' = [''d'', ''d/b'']"
    "validate_windows_syntax ''d'' = Inr ()" by code_simp+
  show ?thesis
    by (simp add: ready_def apart_def ready_path_def addressable_def c ways_open_def case_distinct_def
        demo_hist_env_def demo_hist_def demo_id_def plain_file_def key_is_def node_data_def)
qed

lemma demo_file_restore: "file_restore (demo_hist_env ev) (tx_live demo_hist) demo_before demo_target"
proof -
  have c: "validated_relative_path ''d/a'' = Inr ''d/a''" "validated_relative_path ''d/b'' = Inr ''d/b''"
    "path_chain ''d/a'' = [''d'', ''d/a'']" "path_chain ''d/b'' = [''d'', ''d/b'']" "disjoint_kinds demo_target"
    by code_simp+
  have scope: "mf_scope demo_target = Some [''d/a'', ''d/b'']" "mf_dirs demo_before = []" "mf_dirs demo_target = []"
    by (simp_all add: demo_target_def demo_before_def)
  have sha: "length d = 1 \<or> length d = 2"
    if "length_sha d = ''x'' \<or> length_sha d = ''xx''" for d :: bytes
    using that by (auto simp: length_sha_def dest!: arg_cong [of _ _ length])
  have sizes: "int (length d) \<le> he_max_bytes (demo_hist_env ev)"
    if "map_of (state_map demo_before) p = Some (FileSt (tx_sha (he_tx (demo_hist_env ev)) d))
      \<or> map_of (state_map demo_target) p = Some (FileSt (tx_sha (he_tx (demo_hist_env ev)) d))" for p d
    using that sha [of d] by (auto simp: demo_maps demo_hist_env_def split: if_splits)
  have only_two: "q = ''d/a'' \<or> q = ''d/b''" if "q \<in> set [''d/a'', ''d/b'']" for q using that by auto
  show ?thesis
    unfolding file_restore_def demo_changed
    using demo_ready c(5) sizes by (auto simp: scope demo_scope [unfolded scope] c)
qed

lemma crash_recovery_restores_before_witness:
  "let s' = fst (restore_workspace_state (demo_hist_env (crash_at 10)) demo_before demo_target None demo_hist);
       t = fst (reboot (demo_hist_env quiet) s')
   in tx_live s' \<noteq> tx_live demo_hist
     \<and> state_at (he_tx (demo_hist_env quiet)) (tx_live t) ''d/a'' = Some (FileSt ''x'')"
proof -
  let ?env = "demo_hist_env (crash_at 10)"
  let ?m = "restore_workspace_state ?env demo_before demo_target None demo_hist"
  obtain s' r where m: "?m = (s', r)" by (cases ?m)
  have e: "no_interference (he_tx ?env)" "stable_ids (he_tx (demo_hist_env ev))" if "ev = quiet \<or> ev = crash_at 10" for ev
    using that
    by (auto simp: no_interference_def stable_ids_def key_is_def demo_hist_env_def quiet_def crash_at_def quiet_event_def demo_id_def)
  have w: "with_events ?env quiet = demo_hist_env quiet" by (simp add: with_events_def demo_hist_env_def)
  have u: "undisturbed (he_tx (demo_hist_env quiet))"
    by (simp add: undisturbed_def demo_hist_env_def quiet_def quiet_event_def)
  have "map_option j_state (h_journal (fst ?m)) = Some Applying" by code_simp
  then obtain j where j: "h_journal s' = Some j" "j_state j \<in> {Applying, Recovering}" using m by auto
  have s: "h_journal demo_hist = None" "state_at (he_tx ?env) (tx_live demo_hist) ''d/a'' = Some (FileSt ''x'')"
    "tx_live (fst ?m) \<noteq> tx_live demo_hist" by code_simp+
  have "state_at (he_tx ?env) = state_at (he_tx (demo_hist_env quiet))"
    using with_events_sel(1) [of ?env quiet] w by simp
  moreover obtain t where "reboot (demo_hist_env quiet) s' = (t, Inr ())"
    "state_at (he_tx ?env) (tx_live t) ''d/a'' = state_at (he_tx ?env) (tx_live demo_hist) ''d/a''"
    using crash_recovery_restores_before [OF m e(1) e(2) s(1) demo_file_restore j, where events = quiet, unfolded w] u e(2) [of quiet]
    by (auto simp: demo_scope)
  ultimately show ?thesis using s(2,3) m by simp
qed

end
