(* ===== verification/Mutation_Safety.thy ===== *)
theory Mutation_Safety
  imports Mutation Restart
begin

text \<open>
  What a file replacement does to the workspace when nobody else changes it: whatever fails and
  wherever the process ends, the file holds its old bytes or the new ones, nothing else is touched,
  and the journal tells which. The section on views follows the calls of the protocol.
\<close>

section \<open>Views\<close>

type_synonym write_view = "live \<times> journal option \<times> blobs"

definition seen :: "hist \<Rightarrow> write_view" where
  "seen s = (tx_live s, h_journal s, h_blobs s)"

abbreviation wseen :: "work \<Rightarrow> write_view" where
  "wseen s \<equiv> seen (fst s)"

lemma stays_arrive:
  "no_interference tx \<Longrightarrow> stays seen v (arrive tx)"
  by (rule movesI)
    (auto simp: arrive_def seen_def Let_def no_interference_def split: if_splits option.splits)

lemma stays_arrive_work: "no_interference tx \<Longrightarrow> stays wseen v (on_fst (arrive tx))"
  by (rule moves_fst) (rule stays_arrive)

lemma stays_looks: "no_interference (mu_tx env) \<Longrightarrow> stays seen v (looks env f)"
  unfolding looks_def by (intro stays_rules stays_arrive)

lemma stays_audited: "no_interference (mu_tx env) \<Longrightarrow> stays wseen v (audited env f)"
  unfolding audited_def by (intro stays_rules stays_arrive_work stays_snd)

lemma moves_arrive:
  assumes "no_interference tx" "B v" "\<And>n. moves seen v (f (tx_event_at tx n)) A B"
  shows "moves seen v (mbind (arrive tx) f) A B"
proof (rule moves_bind)
  show "moves seen v (arrive tx) (\<lambda>e v'. v' = v \<and> e \<in> range (tx_event_at tx)) B"
  proof (rule movesI)
    fix s s' e assume s: "seen s = v"
    show "arrive tx s = (s', Inr e) \<Longrightarrow> seen s' = v \<and> e \<in> range (tx_event_at tx)"
      using s assms(1) by (auto simp: arrive_def seen_def Let_def no_interference_def split: if_splits option.splits)
  next
    fix s s' e assume "seen s = v" "arrive tx s = (s', Inl e)"
    then show "B (seen s')" using movesD [OF stays_arrive [OF assms(1)], of s v s' "Inl e"] assms(2) by simp
  qed
qed (use assms(3) in auto)

lemma moves_get_live: "moves seen (L, J, bs) (f L) A B \<Longrightarrow> moves seen (L, J, bs) (mbind (mget tx_live) f) A B"
  by (rule moves_bind [where A = "\<lambda>x v'. x = L \<and> v' = (L, J, bs)"]) (auto intro: moves_get simp: seen_def)

lemma moves_looks:
  assumes "no_interference (mu_tx env)" "\<And>x. f L = Inr x \<Longrightarrow> A x (L, J, bs)" "B (L, J, bs)"
  shows "moves seen (L, J, bs) (looks env f) A B"
  unfolding looks_def by (auto intro!: moves_arrive moves_get_live moves_lift assms)

lemma moves_looks_then:
  assumes "no_interference (mu_tx env)" "B (L, J, bs)" "\<And>x. f L = Inr x \<Longrightarrow> moves seen (L, J, bs) (g x) A B"
  shows "moves seen (L, J, bs) (mbind (looks env f) g) A B"
  by (rule moves_bind [where A = "\<lambda>x v'. f L = Inr x \<and> v' = (L, J, bs)"]) (use assms in \<open>auto intro: moves_looks\<close>)

lemma moves_check_then:
  assumes "\<not> b \<Longrightarrow> B v" "b \<Longrightarrow> moves f v (g ()) A B"
  shows "moves f v (mbind (mcheck b e) g) A B"
  by (rule moves_bind [where A = "\<lambda>_ v'. b \<and> v' = v"]) (use assms in \<open>auto intro: moves_check\<close>)

lemma moves_lift_then:
  assumes "\<And>e. r = Inl e \<Longrightarrow> B v" "\<And>x. r = Inr x \<Longrightarrow> moves f v (g x) A B"
  shows "moves f v (mbind (mlift r) g) A B"
  by (rule moves_bind [where A = "\<lambda>x v'. r = Inr x \<and> v' = v"]) (use assms in \<open>auto intro: moves_lift\<close>)

lemma moves_set_node:
  "A () (AList.update p n L, J, bs) \<Longrightarrow> moves seen (L, J, bs) (set_node p n) A B"
  unfolding set_node_def by (rule movesI) (auto simp: mput_def seen_def)

lemma moves_drop_node:
  "A () (AList.delete p L, J, bs) \<Longrightarrow> moves seen (L, J, bs) (drop_node p) A B"
  unfolding drop_node_def by (rule movesI) (auto simp: mput_def seen_def)

lemma moves_attempt_then:
  fixes m :: "('s, 'b) op"
  assumes "moves f v m A B" "\<And>x v'. A x v' \<Longrightarrow> moves f v' (g (Inr x)) A' B'"
    and "\<And>e v'. B v' \<Longrightarrow> moves f v' (g (Inl e)) A' B'"
  shows "moves f v (mbind (attempt m) g) A' B'"
proof (rule moves_bind [OF moves_attempt [OF assms(1)]])
  fix r :: "'b res" and v' assume "case r of Inr x \<Rightarrow> A x v' | Inl e \<Rightarrow> B v'"
  then show "moves f v' (g r) A' B'" using assms(2,3) by (cases r) auto
qed

section \<open>The commits\<close>

lemma stays_parent: "no_interference tx \<Longrightarrow> stays seen v (check_commit_parent tx p i err)"
  unfolding check_commit_parent_def by (intro stays_rules stays_arrive)

lemma commit_bytes_moves:
  assumes "no_interference tx"
  shows "moves seen (L, J, bs) (commit_bytes tx p data pi ti sha)
    (\<lambda>_ (L', J', bs'). J' = J \<and> bs' = bs \<and> bytes_committed tx p data ti sha L L') (\<lambda>v'. v' = (L, J, bs))"
proof -
  have new: "moves seen (L, J, bs) (transactional_write_bytes tx p data None None None)
      (\<lambda>_ (L', J', bs'). J' = J \<and> bs' = bs \<and> newly_written tx p data L L') (\<lambda>v'. v' = (L, J, bs))"
    unfolding transactional_write_bytes_def prod.case option.case
    by (rule moves_arrive [OF assms refl], rule moves_get_live)
      (auto intro!: moves_fail moves_lift_then moves_set_node simp: newly_written_def)
  have old: "moves seen (L, J, bs) (transactional_write_bytes tx p data (Some k) (Some n) (Some d))
      (\<lambda>_ (L', J', bs'). J' = J \<and> bs' = bs \<and> rewritten tx p data k n d L L') (\<lambda>v'. v' = (L, J, bs))" for k n d
    unfolding transactional_write_bytes_def prod.case option.case
    by (rule moves_arrive [OF assms refl], rule moves_get_live, rule moves_lift_then)
      (auto intro!: moves_fail moves_set_node rewrittenI simp: validate_regular_Inr)
  show ?thesis
    unfolding commit_bytes_def
    by (rule moves_then [OF stays_parent [OF assms]])
      (auto intro!: moves_fail moves_weaken [OF new] moves_weaken [OF old] simp: bytes_committed_def split: option.split)
qed

lemma commit_delete_moves:
  assumes "no_interference tx"
  shows "moves seen (L, J, bs) (commit_delete tx p pi ti digest)
    (\<lambda>_ v'. v' = (AList.delete p L, J, bs)) (\<lambda>v'. v' = (L, J, bs))"
  unfolding commit_delete_def transactional_delete_def
  by (rule moves_then [OF stays_parent [OF assms]])
    (auto intro!: moves_fail moves_arrive [OF assms] moves_get_live moves_lift_then moves_drop_node split: option.split)

section \<open>Journals and checkpoints\<close>

lemma moves_load_then:
  assumes "no_interference (he_tx env)" "B (L, J, bs)"
    and "\<And>j. J = Some j \<Longrightarrow> moves (\<lambda>s. (seen s, h_mem s)) ((L, J, bs), j) (f ()) (\<lambda>x v. A x (fst v)) (\<lambda>v. B (fst v))"
  shows "moves seen (L, J, bs) (mbind (load_journal env) f) A B"
proof (rule movesI)
  have load: "seen t = (L, J, bs) \<and> (\<forall>x. r = Inr x \<longrightarrow> (\<exists>j. J = Some j \<and> h_mem t = j))"
    if "seen s = (L, J, bs)" "load_journal env s = (t, r)" for s t r
  proof -
    obtain u a where u: "arrive (he_tx env) s = (u, a)" by fastforce
    have v: "seen u = (L, J, bs)"
      using movesD [OF stays_arrive [OF assms(1)] that(1) u] by (cases a) auto
    then show ?thesis using that(2) u
      by (cases a; cases J) (auto simp: load_journal_def mbind_def mget_def mput_def mfail_def seen_def)
  qed
  fix s s' assume s: "seen s = (L, J, bs)"
  {
    fix x assume m: "mbind (load_journal env) f s = (s', Inr x)"
    then obtain t where t: "load_journal env s = (t, Inr ())" "f () t = (s', Inr x)" by (auto simp: op_simps)
    then obtain j where "J = Some j" "h_mem t = j" "seen t = (L, J, bs)" using load [OF s t(1)] by blast
    then show "A x (seen s')" using movesD [OF assms(3) _ t(2)] by auto
  next
    fix e assume m: "mbind (load_journal env) f s = (s', Inl e)"
    then consider "load_journal env s = (s', Inl e)" | t where "load_journal env s = (t, Inr ())" "f () t = (s', Inl e)"
      by (auto simp: op_simps)
    then show "B (seen s')"
    proof cases
      case 1
      then show ?thesis using load [OF s 1] assms(2) by simp
    next
      case 2
      then obtain j where "J = Some j" "h_mem t = j" "seen t = (L, J, bs)" using load [OF s 2(1)] by blast
      then show ?thesis using movesD [OF assms(3) _ 2(2)] by auto
    qed
  }
qed

lemma moves_update_journal:
  assumes "no_interference (he_tx env)"
  shows "moves (\<lambda>s. (seen s, h_mem s)) ((L, J, bs), j) (update_journal env f)
    (\<lambda>_ v. fst v = (L, Some (f j), bs)) (\<lambda>v. fst v = (L, J, bs))"
proof (rule movesI)
  have w: "seen t = (L, J, bs) \<and> h_mem t = f j"
    if "(seen s, h_mem s) = ((L, J, bs), j)" "arrive (he_tx env) (s\<lparr>h_mem := f (h_mem s)\<rparr>) = (t, r)" for s t r
    using that assms
    by (auto simp: arrive_def seen_def Let_def no_interference_def split: if_splits option.splits)
  fix s s' assume s: "(seen s, h_mem s) = ((L, J, bs), j)"
  {
    fix x assume "update_journal env f s = (s', Inr x)"
    then show "fst (seen s', h_mem s') = (L, Some (f j), bs)"
      using w [OF s] by (auto simp: update_journal_def set_mem_def write_journal_def op_simps) (auto simp: seen_def)
  next
    fix e assume "update_journal env f s = (s', Inl e)"
    then show "fst (seen s', h_mem s') = (L, J, bs)"
      using w [OF s] by (auto simp: update_journal_def set_mem_def write_journal_def op_simps)
  }
qed

lemma moves_mem_then:
  assumes "moves (\<lambda>s. (seen s, h_mem s)) (v, j) (f j) A B"
  shows "moves (\<lambda>s. (seen s, h_mem s)) (v, j) (mbind (mget h_mem) f) A B"
  by (rule moves_bind [where A = "\<lambda>x v'. x = j \<and> v' = (v, j)"]) (auto intro: moves_get assms)

definition marked :: "jstate \<Rightarrow> manifest option \<Rightarrow> journal \<Rightarrow> journal" where
  "marked st target j = j\<lparr>j_state := st, j_target := (case target of None \<Rightarrow> j_target j | Some m \<Rightarrow> Some m)\<rparr>"

lemma journal_write_moves:
  assumes "no_interference (mu_tx env)"
  shows "moves wseen (L, J, bs) (journal_write env st target)
    (\<lambda>_ v'. \<exists>j. J = Some j \<and> v' = (L, Some (marked st target j), bs)) (\<lambda>v'. v' = (L, J, bs))"
  unfolding journal_write_def update_single_file_write_transaction_def update_transaction_def
  by (rule moves_fst)
    (auto intro!: moves_fail moves_load_then [OF assms] moves_mem_then moves_weaken [OF moves_update_journal [OF assms]]
      simp: marked_def)

lemma finalize_moves:
  assumes "no_interference (he_tx env)"
  shows "moves seen (L, J, bs) (finalize_workspace_transaction env)
    (\<lambda>_ v'. \<exists>j. J = Some j \<and> v' = (L, Some (j\<lparr>j_state := Complete, j_reconciled := True\<rparr>), bs)) (\<lambda>v'. v' = (L, J, bs))"
  unfolding finalize_workspace_transaction_def
  by (auto intro!: moves_fail moves_load_then [OF assms] moves_mem_then moves_weaken [OF moves_update_journal [OF assms]])

lemma mark_reconciled_moves:
  assumes "no_interference (he_tx env)"
  shows "moves seen (L, J, bs) (mark_audit_reconciled env)
    (\<lambda>_ v'. \<exists>j. J = Some j \<and> v' = (L, Some (j\<lparr>j_reconciled := True\<rparr>), bs)) (\<lambda>v'. v' = (L, J, bs))"
  unfolding mark_audit_reconciled_def
  by (auto intro!: moves_load_then [OF assms] moves_weaken [OF moves_update_journal [OF assms]])

definition begun_write :: "mut_env \<Rightarrow> write_plan \<Rightarrow> manifest \<Rightarrow> journal" where
  "begun_write env w pre =
     (fresh_journal ''single_file_write'' Applying)
       \<lparr>j_before := Some pre, j_changed := [wp_path w], j_before_sha := before_digest env w,
        j_after_sha := Some (tx_sha (mu_tx env) (wp_after w))\<rparr>"

lemma begin_write_moves:
  assumes "no_interference (mu_tx env)"
  shows "moves wseen (L, J, bs) (begin_write env w pre)
    (\<lambda>_ v'. v' = (L, Some (begun_write env w pre), bs)) (\<lambda>v'. v' = (L, J, bs))"
  unfolding begin_write_def
proof (rule moves_fst)
  let ?j = "begun_write env w pre"
  let ?m = "begin_single_file_write_transaction (mu_hist env) pre (wp_path w) (before_digest env w) (tx_sha (mu_tx env) (wp_after w))"
  have "moves seen (L, J, bs) (mput (\<lambda>s. s\<lparr>h_mem := ?j\<rparr>)) (\<lambda>_ v'. v' = (L, J, bs)) (\<lambda>v'. v' = (L, J, bs))"
    by (rule movesI) (auto simp: mput_def seen_def)
  have m: "?m = (\<lambda>s. write_journal (mu_hist env) (s\<lparr>h_mem := ?j\<rparr>))"
    by (rule ext) (simp add: begin_single_file_write_transaction_def begun_write_def mbind_def mput_def)
  have w: "seen t = (L, J, bs) \<and> h_mem t = ?j"
    if "seen s = (L, J, bs)" "arrive (mu_tx env) (s\<lparr>h_mem := ?j\<rparr>) = (t, r)" for s t r
    using that assms by (auto simp: arrive_def seen_def Let_def no_interference_def split: if_splits option.splits)
  show "moves seen (L, J, bs) ?m (\<lambda>_ v'. v' = (L, Some ?j, bs)) (\<lambda>v'. v' = (L, J, bs))"
  proof (rule movesI)
    fix s s' assume s: "seen s = (L, J, bs)"
    {
      fix x assume "?m s = (s', Inr x)"
      then show "seen s' = (L, Some ?j, bs)"
        unfolding m using w [OF s] by (auto simp: write_journal_def op_simps) (auto simp: seen_def)
    next
      fix e assume "?m s = (s', Inl e)"
      then show "seen s' = (L, J, bs)" unfolding m using w [OF s] by (auto simp: write_journal_def op_simps)
    }
  qed
qed

text \<open>After a capture the store holds the content of every file it recorded.\<close>

definition stored :: "hist_env \<Rightarrow> manifest \<Rightarrow> blobs \<Rightarrow> bool" where
  "stored env m bs \<longleftrightarrow>
     (\<forall>e\<in>set (mf_files m). \<exists>d. map_of bs (me_sha e) = Some d \<and> tx_sha (he_tx env) d = me_sha e)"

lemma stored_more: "stored env m bs \<Longrightarrow> extends_blobs bs bs' \<Longrightarrow> stored env m bs'"
  unfolding stored_def extends_blobs_def by blast

lemma capture_blob_stores:
  assumes "capture_blob env n live p s = (s', Inr x)"
  shows "(\<exists>d. map_of (h_blobs s') (tx_sha (he_tx env) (file_data live p)) = Some d
      \<and> tx_sha (he_tx env) d = tx_sha (he_tx env) (file_data live p)) \<and> extends_blobs (h_blobs s) (h_blobs s')"
  using assms
  by (auto simp: capture_blob_def op_simps store_blob_def rbind_eq_Inr extends_blobs_def update_conv'
      split: option.splits if_splits)

lemma capture_blobs_store:
  assumes "mfold (capture_blob env n live) ps s = (s', Inr x)"
  shows "(\<forall>p\<in>set ps. \<exists>d. map_of (h_blobs s') (tx_sha (he_tx env) (file_data live p)) = Some d
      \<and> tx_sha (he_tx env) d = tx_sha (he_tx env) (file_data live p)) \<and> extends_blobs (h_blobs s) (h_blobs s')"
  using assms
proof (induction ps arbitrary: s)
  case (Cons p ps)
  obtain t where t: "capture_blob env n live p s = (t, Inr ())" "mfold (capture_blob env n live) ps t = (s', Inr x)"
    using Cons.prems by (auto simp: op_simps)
  note one = capture_blob_stores [OF t(1)] and more = Cons.IH [OF t(2)]
  have "\<exists>d. map_of (h_blobs s') (tx_sha (he_tx env) (file_data live p)) = Some d
      \<and> tx_sha (he_tx env) d = tx_sha (he_tx env) (file_data live p)"
    using one more unfolding extends_blobs_def by blast
  moreover have "extends_blobs (h_blobs s) (h_blobs s')" using one more unfolding extends_blobs_def by blast
  ultimately show ?case using more by simp
qed (simp add: mret_def extends_blobs_def)

lemma capture_stored:
  assumes "capture_workspace_state env sc s = (s', Inr m)"
  shows "stored env m (h_blobs s')"
proof -
  obtain t u st n where "mfold (capture_blob env n (tx_live t)) (state_files st) t = (u, Inr ())" "h_blobs s' = h_blobs u"
    "m = \<lparr>mf_files = List.map (capture_entry env (tx_live t)) (state_files st), mf_dirs = state_dirs st, mf_scope = sc\<rparr>"
    using assms unfolding capture_workspace_state_def by (auto simp: op_simps split: if_splits)
  then show ?thesis using capture_blobs_store [of env n "tx_live t" "state_files st" t u "()"]
    by (auto simp: stored_def capture_entry_def)
qed

lemma capture_moves:
  assumes "no_interference (he_tx env)"
  shows "moves seen (L, J, bs) (capture_workspace_state env sc)
    (\<lambda>m v'. \<exists>bs' st. v' = (L, J, bs') \<and> extends_blobs bs bs' \<and> scan_live env sc L = Inr st
       \<and> m = \<lparr>mf_files = List.map (capture_entry env L) (state_files st), mf_dirs = state_dirs st, mf_scope = sc\<rparr>
       \<and> stored env m bs')
    (\<lambda>v'. \<exists>bs'. v' = (L, J, bs') \<and> extends_blobs bs bs')"
proof -
  have "keeps (\<lambda>s. tx_live s = L \<and> h_journal s = J) (capture_workspace_state env sc)"
  proof -
    have "keeps (\<lambda>s. tx_live s = L \<and> h_journal s = J) (arrive (he_tx env))"
      using assms
      by (auto simp: keeps_def arrive_def Let_def no_interference_def split: option.split)
    moreover have "keeps (\<lambda>s. tx_live s = L \<and> h_journal s = J) (capture_blob env n l p)" for n l p
      unfolding capture_blob_def by (intro keeps_rules keeps_put) simp
    ultimately show ?thesis unfolding capture_workspace_state_def by (intro keeps_rules)
  qed
  note k = keepsD [OF this]
  show ?thesis
  proof (rule movesI)
    fix s s' m assume s: "seen s = (L, J, bs)" "capture_workspace_state env sc s = (s', Inr m)"
    have "tx_live s' = L" "h_journal s' = J" using k [OF _ s(2)] s(1) by (auto simp: seen_def)
    then show "\<exists>bs' st. seen s' = (L, J, bs') \<and> extends_blobs bs bs' \<and> scan_live env sc L = Inr st
       \<and> m = \<lparr>mf_files = List.map (capture_entry env L) (state_files st), mf_dirs = state_dirs st, mf_scope = sc\<rparr>
       \<and> stored env m bs'"
      using capture_Inr [OF s(2)] captured_blobs [OF s(2)] capture_stored [OF s(2)] s(1) by (auto simp: seen_def)
  next
    fix s s' e assume s: "seen s = (L, J, bs)" "capture_workspace_state env sc s = (s', Inl e)"
    have "tx_live s' = L" "h_journal s' = J" using k [OF _ s(2)] s(1) by (auto simp: seen_def)
    then show "\<exists>bs'. seen s' = (L, J, bs') \<and> extends_blobs bs bs'"
      using captured_blobs [OF s(2)] s(1) by (auto simp: seen_def)
  qed
qed

lemma stays_checkpoint: "stays seen v (checkpoint_states env m)"
  unfolding checkpoint_states_def by (intro stays_rules)

section \<open>Before, after, and nothing else\<close>

definition elsewhere :: "live \<Rightarrow> string \<Rightarrow> live \<Rightarrow> bool" where
  "elsewhere L p live \<longleftrightarrow> (\<forall>q. q \<noteq> p \<longrightarrow> map_of live q = map_of L q)"

text \<open>The same content in the same file object, or no file; only the time of change may differ.\<close>

definition as_before :: "live \<Rightarrow> string \<Rightarrow> live \<Rightarrow> bool" where
  "as_before L p live \<longleftrightarrow>
     elsewhere L p live
     \<and> (map_of live p = map_of L p
        \<or> (\<exists>i j d. map_of L p = Some (LiveFile i 1 d) \<and> map_of live p = Some (LiveFile j 1 d)
             \<and> file_size j = int (length d) \<and> native_key (Some j) = native_key (Some i)))"

definition as_after :: "live \<Rightarrow> string \<Rightarrow> bytes \<Rightarrow> live \<Rightarrow> bool" where
  "as_after L p data live \<longleftrightarrow>
     elsewhere L p live \<and> (\<exists>j. map_of live p = Some (LiveFile j 1 data) \<and> file_size j = int (length data)
       \<and> (\<forall>i l d. map_of L p = Some (LiveFile i l d) \<longrightarrow> native_key (Some j) = native_key (Some i)))"

lemma as_before_refl [simp]: "as_before L p L"
  by (simp add: as_before_def elsewhere_def)

definition planned :: "live \<Rightarrow> write_plan \<Rightarrow> bool" where
  "planned L w \<longleftrightarrow>
     (case map_of L (wp_path w) of
        None \<Rightarrow> wp_target w = None
      | Some (LiveFile i l d) \<Rightarrow> wp_target w = Some i \<and> wp_before w = d
      | _ \<Rightarrow> False)"

text \<open>The namespace right after the commit.\<close>

definition replaced :: "live \<Rightarrow> write_plan \<Rightarrow> live \<Rightarrow> bool" where
  "replaced L w live \<longleftrightarrow>
     (\<exists>j. live = AList.update (wp_path w) (LiveFile j 1 (wp_after w)) L \<and> file_size j = int (length (wp_after w))
        \<and> (case wp_target w of
             None \<Rightarrow> map_of L (wp_path w) = None
           | Some i \<Rightarrow> map_of L (wp_path w) = Some (LiveFile i 1 (wp_before w)) \<and> native_key (Some j) = native_key (Some i)))"

lemma replaced_after: "replaced L w live \<Longrightarrow> as_after L (wp_path w) (wp_after w) live"
  by (auto simp: replaced_def as_after_def elsewhere_def update_conv' split: option.splits)

lemma native_key_sized: "native_key (Some (i\<lparr>file_size := n, modified_ns := t\<rparr>)) = native_key (Some i)"
  by (simp add: native_key_def)

lemma committed_replaced:
  assumes "bytes_committed tx (wp_path w) (wp_after w) (wp_target w) sha L live" "planned L w"
  shows "replaced L w live"
proof (cases "wp_target w")
  case None
  then have "\<not> path_exists tx L (wp_path w)" "\<exists>e. live = AList.update (wp_path w) (created_file e (wp_after w)) L"
    using assms(1) by (auto simp: bytes_committed_def newly_written_def)
  moreover from this(1) have "map_of L (wp_path w) = None"
    by (cases "map_of L (wp_path w)") (auto simp: path_exists_def list_ex_iff dest!: map_of_SomeD)
  ultimately show ?thesis using None by (auto simp: replaced_def created_file_def)
next
  case (Some i)
  then obtain j old e where "map_of L (wp_path w) = Some (LiveFile j 1 old)"
      "live = AList.update (wp_path w) (rewritten_file e j (wp_after w)) L"
    using assms(1) by (auto simp: bytes_committed_def rewritten_def)
  moreover from this(1) have "j = i" "old = wp_before w" using assms(2) Some by (auto simp: planned_def)
  ultimately show ?thesis using Some by (auto simp: replaced_def rewritten_file_def native_key_sized)
qed

lemma replaced_deleted:
  "replaced L w live \<Longrightarrow> wp_target w = None \<Longrightarrow> as_before L (wp_path w) (AList.delete (wp_path w) live)"
  by (auto simp: replaced_def as_before_def elsewhere_def update_conv' delete_conv')

lemma replaced_restored:
  assumes "replaced L w live" "wp_target w = Some i"
    "bytes_committed tx (wp_path w) (wp_before w) (Some ci) sha live live'"
  shows "as_before L (wp_path w) live'"
proof -
  obtain j where j: "live = AList.update (wp_path w) (LiveFile j 1 (wp_after w)) L"
    "map_of L (wp_path w) = Some (LiveFile i 1 (wp_before w))" "native_key (Some j) = native_key (Some i)"
    using assms(1,2) by (auto simp: replaced_def)
  obtain k old e where "map_of live (wp_path w) = Some (LiveFile k 1 old)"
      "live' = AList.update (wp_path w) (rewritten_file e k (wp_before w)) live"
    using assms(3) by (auto simp: bytes_committed_def rewritten_def)
  then show ?thesis
    using j by (auto simp: as_before_def elsewhere_def update_conv' rewritten_file_def native_key_sized)
qed

section \<open>The protocol\<close>

definition run_journal :: "mut_env \<Rightarrow> write_plan \<Rightarrow> manifest \<Rightarrow> journal \<Rightarrow> bool" where
  "run_journal env w pre j \<longleftrightarrow>
     j = (begun_write env w pre)\<lparr>j_state := j_state j, j_target := j_target j, j_reconciled := j_reconciled j\<rparr>"

lemma run_journal_steps [simp]:
  "run_journal env w pre (begun_write env w pre)"
  "run_journal env w pre j \<Longrightarrow> run_journal env w pre (marked st target j)"
  "run_journal env w pre j \<Longrightarrow> run_journal env w pre (j\<lparr>j_state := st, j_reconciled := b\<rparr>)"
  "run_journal env w pre j \<Longrightarrow> run_journal env w pre (j\<lparr>j_reconciled := b\<rparr>)"
  unfolding run_journal_def marked_def by (simp, (cases j; simp)+)

lemma marked_state [simp]: "j_state (marked st target j) = st"
  by (simp add: marked_def)

text \<open>
  The phases: before the commit, with the new bytes in place, and when a recovery was tried; \<open>bs0\<close>
  are the blobs when the journal was begun.
\<close>

definition unwritten :: "mut_env \<Rightarrow> live \<Rightarrow> write_plan \<Rightarrow> manifest \<Rightarrow> blobs \<Rightarrow> write_view \<Rightarrow> bool" where
  "unwritten env L w pre bs0 = (\<lambda>(live, J, bs).
     as_before L (wp_path w) live \<and> extends_blobs bs0 bs \<and> (\<exists>j. J = Some j \<and> run_journal env w pre j))"

definition in_place :: "mut_env \<Rightarrow> live \<Rightarrow> write_plan \<Rightarrow> manifest \<Rightarrow> blobs \<Rightarrow> write_view \<Rightarrow> bool" where
  "in_place env L w pre bs0 = (\<lambda>(live, J, bs).
     replaced L w live \<and> extends_blobs bs0 bs
     \<and> (\<exists>j. J = Some j \<and> run_journal env w pre j \<and> j_state j \<noteq> FailedRecovered))"

definition tried :: "mut_env \<Rightarrow> live \<Rightarrow> write_plan \<Rightarrow> manifest \<Rightarrow> blobs \<Rightarrow> write_view \<Rightarrow> bool" where
  "tried env L w pre bs0 = (\<lambda>(live, J, bs).
     (replaced L w live \<or> as_before L (wp_path w) live) \<and> extends_blobs bs0 bs
     \<and> (\<exists>j. J = Some j \<and> run_journal env w pre j \<and> (j_state j = FailedRecovered \<longrightarrow> as_before L (wp_path w) live)))"

lemma phases:
  "unwritten env L w pre bs0 v \<Longrightarrow> tried env L w pre bs0 v"
  "in_place env L w pre bs0 v \<Longrightarrow> tried env L w pre bs0 v"
  by (auto simp: unwritten_def in_place_def tried_def)

lemma extends_blobs_refl [simp]: "extends_blobs bs bs"
  by (simp add: extends_blobs_def)

lemma extends_blobs_trans: "extends_blobs a b \<Longrightarrow> extends_blobs b c \<Longrightarrow> extends_blobs a c"
  by (simp add: extends_blobs_def)

lemma stays_keeps: "stays f v m \<Longrightarrow> P v \<Longrightarrow> moves f v m (\<lambda>_. P) P"
  by (erule moves_weaken) auto

lemma commit_write_moves:
  assumes "no_interference (mu_tx env)" "planned L w"
  shows "moves wseen (L, J, bs) (commit_write env w)
    (\<lambda>_ (L', J', bs'). J' = J \<and> bs' = bs \<and> replaced L w L') (\<lambda>v'. v' = (L, J, bs))"
  unfolding commit_write_def commit_native_def
  by (rule moves_fst, rule moves_bind [OF commit_bytes_moves [OF assms(1)]])
    (auto intro!: moves_get committed_replaced [OF _ assms(2)])

lemma stays_hold: "no_interference (mu_tx env) \<Longrightarrow> stays wseen v (hold_write env w native)"
  unfolding hold_write_def hold_committed_target_def by (rule moves_fst) (rule stays_looks)

lemma stays_bindings: "no_interference (mu_tx env) \<Longrightarrow> stays wseen v (verify_source_bindings env bs)"
  unfolding verify_source_bindings_def verify_source_binding_def
  by (rule moves_fst) (auto intro!: stays_fold stays_looks stays_prod)

lemma recover_write_moves:
  assumes "no_interference (mu_tx env)" "replaced L w live"
  shows "moves wseen (live, J, bs) (recover_write env w native committed)
    (\<lambda>_ (L', J', bs'). J' = J \<and> bs' = bs \<and> as_before L (wp_path w) L')
    (\<lambda>(L', J', bs'). J' = J \<and> bs' = bs \<and> (L' = live \<or> as_before L (wp_path w) L'))"
    (is "moves wseen ?v ?m ?A ?B")
proof -
  let ?p = "wp_path w" and ?sha = "Some (tx_sha (mu_tx env) (wp_after w))"
  have B: "?B ?v" by simp
  have final: "moves seen v (looks env g) ?A ?B" if "?A () v" for v and g :: "live \<Rightarrow> unit res"
    by (rule moves_weaken [OF stays_looks [OF assms(1)]]) (use that in auto)
  have gone: "moves seen ?v (mbind (commit_delete (mu_tx env) ?p pi ci d) (\<lambda>_. looks env g)) ?A ?B"
    if "wp_target w = None" for pi ci d and g :: "live \<Rightarrow> unit res"
    by (rule moves_bind, rule moves_weaken [OF commit_delete_moves [OF assms(1)]])
      (use replaced_deleted [OF assms(2) that] in \<open>auto intro!: final\<close>)
  have restore: "moves seen ?v (mbind (commit_native env ?p (wp_before w) pi (Some ci) ?sha) (\<lambda>r.
      mbind (mcheck (b r) e) (\<lambda>_. looks env g))) ?A ?B"
    if "wp_target w = Some i" for pi ci e i b and g :: "live \<Rightarrow> unit res"
  proof (rule moves_bind)
    show "moves seen ?v (commit_native env ?p (wp_before w) pi (Some ci) ?sha) (\<lambda>_. ?A ()) ?B"
      unfolding commit_native_def
      by (rule moves_bind, rule moves_weaken [OF commit_bytes_moves [OF assms(1)]])
        (auto intro!: moves_get replaced_restored [OF assms(2) that])
    show "moves seen v' (mbind (mcheck (b r) e) (\<lambda>_. looks env g)) ?A ?B" if "?A () v'" for r v'
      by (rule moves_check_then) (use that in \<open>auto intro!: final\<close>)
  qed
  show ?thesis
    unfolding recover_write_def recover_single_file_commit_def Let_def
  proof (rule moves_fst, rule moves_looks_then [OF assms(1), where B = ?B, OF B], clarify)
    fix pi ci
    let ?rest = "case wp_target w of
        None \<Rightarrow> mbind (commit_delete (mu_tx env) ?p pi ci (tx_sha (mu_tx env) (wp_after w))) (\<lambda>_.
          looks env (\<lambda>live. if map_of live ?p = None then Inr ()
                            else Inl (RuntimeError ''write recovery verification failed'')))
      | Some bi \<Rightarrow>
          mbind (commit_native env ?p (wp_before w) pi (Some ci) ?sha) (\<lambda>restored.
          mbind (mcheck (native_key (Some bi) = None \<or> restored = native_key (Some bi))
                   (RuntimeError ''write recovery restored the wrong Windows file identity'')) (\<lambda>_.
            looks env (\<lambda>live. rbind (resolve_existing_file live ?p) (\<lambda>(i, _).
              rbind (read_path_bytes live ?p (int (length (wp_before w)))) (\<lambda>d.
              if d \<noteq> wp_before w then Inl (RuntimeError ''write recovery verification failed'')
              else if native_key (Some bi) \<noteq> None \<and> native_key (Some i) \<noteq> native_key (Some bi)
              then Inl (RuntimeError ''write recovery verification found a replaced target'')
              else Inr ())))))"
    have rest: "moves seen ?v ?rest ?A ?B" by (cases "wp_target w") (auto intro!: gone restore)
    show "moves seen ?v
        (mbind (mcheck (same_committed_identity ci committed native)
                  (RuntimeError ''automatic recovery refused a third-party target replacement'')) (\<lambda>_.
         mbind (mcheck (file_size ci = int (length (wp_after w)))
                  (RuntimeError ''automatic recovery refused to overwrite a concurrent target change'')) (\<lambda>_.
         mbind (looks env (\<lambda>live. read_path_bytes live ?p (int (length (wp_after w))))) (\<lambda>d.
         mbind (mcheck (d = wp_after w)
                  (RuntimeError ''automatic recovery refused to overwrite a concurrent target change'')) (\<lambda>_. ?rest))))) ?A ?B"
      by (intro moves_check_then [where B = ?B, OF B] moves_looks_then [OF assms(1), where B = ?B, OF B] rest)
  qed
qed

lemma stays_summarize: "no_interference (mu_tx env) \<Longrightarrow> stays wseen v (summarize env pre post)"
  unfolding summarize_def by (rule moves_fst) (intro stays_rules stays_arrive)

lemma stays_transition: "no_interference (mu_tx env) \<Longrightarrow> stays wseen v (audit_transition env k fs upd)"
  unfolding audit_transition_def by (rule stays_audited)

lemma stays_event: "no_interference (mu_tx env) \<Longrightarrow> stays wseen v (audit_event env k ty n)"
  unfolding audit_event_def by (rule stays_audited)

lemma stays_update: "no_interference (mu_tx env) \<Longrightarrow> stays wseen v (audit_update env k upd)"
  unfolding audit_update_def by (rule stays_audited)

lemma stays_create: "no_interference (mu_tx env) \<Longrightarrow> stays wseen v (audit_create env n)"
  unfolding audit_create_def by (rule stays_audited)

lemmas stays_audit = stays_transition stays_event stays_update stays_create

lemma checked_checkpoint_moves:
  assumes "no_interference (mu_tx env)" "in_place env L w pre bs0 v"
  shows "moves wseen v (checked_checkpoint env w) (\<lambda>_. in_place env L w pre bs0) (in_place env L w pre bs0)"
proof -
  obtain live J bs where v: "v = (live, J, bs)" by (cases v)
  have "moves wseen v (on_fst (capture_workspace_state (mu_hist env) (Some [wp_path w])))
      (\<lambda>_. in_place env L w pre bs0) (in_place env L w pre bs0)"
    unfolding v
    by (rule moves_fst, rule moves_weaken [OF capture_moves [OF assms(1)]])
      (use assms(2) v extends_blobs_trans in \<open>auto simp: in_place_def\<close>)
  then show ?thesis
    unfolding checked_checkpoint_def
    by (rule moves_bind) (rule stays_keeps, intro stays_rules moves_fst stays_checkpoint)
qed

text \<open>A run that was recorded is complete and reconciled, and the new bytes are in place.\<close>

definition completed :: "mut_env \<Rightarrow> live \<Rightarrow> write_plan \<Rightarrow> manifest \<Rightarrow> write_view \<Rightarrow> bool" where
  "completed env L w pre = (\<lambda>(live, J, bs).
     replaced L w live \<and> (\<exists>j. J = Some j \<and> run_journal env w pre j \<and> j_state j = Complete \<and> j_reconciled j))"

lemma journal_phase:
  assumes "no_interference (mu_tx env)" "B v"
    and "\<And>live j bs. v = (live, Some j, bs) \<Longrightarrow> Q (live, Some (marked st target j), bs)"
  shows "moves wseen v (journal_write env st target) (\<lambda>_. Q) B"
proof -
  obtain live J bs where v: "v = (live, J, bs)" by (cases v)
  show ?thesis
    unfolding v by (rule moves_weaken [OF journal_write_moves [OF assms(1)]]) (use assms(2,3) v in auto)
qed

lemma record_success_moves:
  assumes "no_interference (mu_tx env)" "in_place env L w pre bs0 v"
  shows "moves wseen v (record_success env w post ty tx extra pre')
    (\<lambda>_ v'. in_place env L w pre bs0 v' \<and> completed env L w pre v') (in_place env L w pre bs0)"
proof -
  obtain live J bs where v: "v = (live, J, bs)" by (cases v)
  have applied: "moves wseen v (journal_write env AppliedVerified (Some post))
      (\<lambda>_ v'. in_place env L w pre bs0 v') (in_place env L w pre bs0)"
    by (rule journal_phase [OF assms(1)], rule assms(2)) (use assms(2) in \<open>auto simp: in_place_def\<close>)
  have final: "moves wseen v' (on_fst (finalize_workspace_transaction (mu_hist env)))
      (\<lambda>_ v'. in_place env L w pre bs0 v' \<and> completed env L w pre v') (in_place env L w pre bs0)"
    if "in_place env L w pre bs0 v'" for v'
  proof -
    obtain l J' b where v': "v' = (l, J', b)" by (cases v')
    show ?thesis
      unfolding v'
      by (rule moves_fst, rule moves_weaken [OF finalize_moves [OF assms(1)]])
        (use that v' in \<open>auto simp: in_place_def completed_def\<close>)
  qed
  have event: "moves wseen v' (mbind (audit_event env k ty n) (\<lambda>_. mret x))
      (\<lambda>_ v'. in_place env L w pre bs0 v' \<and> completed env L w pre v') (in_place env L w pre bs0)"
    if "in_place env L w pre bs0 v' \<and> completed env L w pre v'" for v' k n x
    by (rule moves_weaken [OF stays_then [OF stays_event [OF assms(1)] stays_basic(1)]]) (use that in auto)
  have rest: "moves wseen v' (mbind (audit_transition env k fs upd) (\<lambda>_.
      mbind (on_fst (finalize_workspace_transaction (mu_hist env))) (\<lambda>_. mbind (audit_event env k ty n) (\<lambda>_. mret x))))
      (\<lambda>_ v'. in_place env L w pre bs0 v' \<and> completed env L w pre v') (in_place env L w pre bs0)"
    if "in_place env L w pre bs0 v'" for v' k fs upd n x
    by (rule moves_then [OF stays_transition [OF assms(1)]], rule that, rule moves_bind [OF final [OF that] event])
  show ?thesis
    unfolding record_success_def
    by (rule moves_then [OF stays_summarize [OF assms(1)]], rule assms(2)) (rule moves_bind [OF applied rest])
qed

lemma unchanged_failure_moves:
  assumes "no_interference (mu_tx env)" "unwritten env L w pre bs0 v"
  shows "moves wseen v (unchanged_failure env e)
    (\<lambda>(b, out) v'. unwritten env L w pre bs0 v' \<and> (\<exists>e. out = Inl e)) (unwritten env L w pre bs0)"
proof -
  have "moves wseen v (journal_write env FailedRecovered None) (\<lambda>_. unwritten env L w pre bs0) (unwritten env L w pre bs0)"
    by (rule journal_phase [OF assms(1)], rule assms(2)) (use assms(2) in \<open>auto simp: unwritten_def\<close>)
  then show ?thesis
    unfolding unchanged_failure_def by (rule moves_attempt_then) (auto intro!: moves_ret)
qed

lemma recover_phase:
  assumes "no_interference (mu_tx env)" "in_place env L w pre bs0 v"
  shows "moves wseen v (recover_write env w native committed)
    (\<lambda>_. unwritten env L w pre bs0) (\<lambda>v'. tried env L w pre bs0 v' \<and> (\<exists>l j b. v' = (l, Some j, b) \<and> j_state j \<noteq> FailedRecovered))"
proof -
  obtain live J bs where v: "v = (live, J, bs)" by (cases v)
  have "replaced L w live" using assms(2) v by (simp add: in_place_def)
  then show ?thesis
    unfolding v
    by (rule moves_weaken [OF recover_write_moves [OF assms(1)]])
      (use assms(2) v in \<open>auto simp: in_place_def unwritten_def tried_def\<close>)
qed

lemma recovery_required_phase:
  assumes "no_interference (mu_tx env)"
    "tried env L w pre bs0 v \<and> (\<exists>l j b. v = (l, Some j, b) \<and> j_state j \<noteq> FailedRecovered)"
    and "\<And>v. stays wseen v m"
  shows "moves wseen v (mbind (journal_write env RecoveryRequired None) (\<lambda>_. m))
    (\<lambda>_. tried env L w pre bs0) (tried env L w pre bs0)"
proof (rule moves_bind)
  show "moves wseen v (journal_write env RecoveryRequired None) (\<lambda>_. tried env L w pre bs0) (tried env L w pre bs0)"
    by (rule journal_phase [OF assms(1)]) (use assms(2) in \<open>auto simp: tried_def\<close>)
qed (rule stays_keeps [OF assms(3)])

lemma changed_failure_moves:
  assumes "no_interference (mu_tx env)" "in_place env L w pre bs0 v"
  shows "moves wseen v (changed_failure env w native committed)
    (\<lambda>(b, out) v'. tried env L w pre bs0 v' \<and> (\<exists>e. out = Inl e)) (tried env L w pre bs0)"
  unfolding changed_failure_def
proof (rule moves_attempt_then [OF recover_phase [OF assms]])
  fix u v' assume "unwritten env L w pre bs0 v'"
  from unchanged_failure_moves [OF assms(1) this]
  show "moves wseen v' (case Inr u of Inr _ \<Rightarrow> unchanged_failure env (MutationError ''failed_recovered'') | Inl re \<Rightarrow> m re)
      (\<lambda>(b, out) v'. tried env L w pre bs0 v' \<and> (\<exists>e. out = Inl e)) (tried env L w pre bs0)" for m
    unfolding sum.case by (rule moves_weaken) (auto dest: phases)
next
  fix e v'
  assume "tried env L w pre bs0 v' \<and> (\<exists>l j b. v' = (l, Some j, b) \<and> j_state j \<noteq> FailedRecovered)"
  note r = recovery_required_phase [OF assms(1) this stays_transition [OF assms(1)]]
  show "moves wseen v' (case Inl e of Inr _ \<Rightarrow> m | Inl re \<Rightarrow>
        mbind (attempt (mbind (journal_write env RecoveryRequired None) (\<lambda>_.
          audit_transition env (wp_operation w) [''running'']
            (\<lambda>now. [(''status'', SqlText ''failed''), (''finished_at'', SqlTime now),
                    (''rollback_state'', SqlText ''recovery_required''),
                    (''error'', SqlText (mu_error_text env re))])))) (\<lambda>r2.
        mret (False, case r2 of Inl e2 \<Rightarrow> Inl e2 | Inr _ \<Rightarrow> Inl (MutationError ''recovery_required''))))
      (\<lambda>(b, out) v'. tried env L w pre bs0 v' \<and> (\<exists>e. out = Inl e)) (tried env L w pre bs0)" for m
    unfolding sum.case by (rule moves_attempt_then [OF r]) (auto intro!: moves_ret)
qed

lemma protected_write_moves:
  assumes "no_interference (mu_tx env)" "planned L w" "J = Some (begun_write env w pre)"
  shows "moves wseen (L, J, bs) (protected_write env rq w pre)
    (\<lambda>(b, out) v'. tried env L w pre bs v' \<and> (\<forall>x. out = Inr x \<longrightarrow> completed env L w pre v')) (tried env L w pre bs)"
proof -
  let ?v = "(L, J, bs)" and ?P = "in_place env L w pre bs"
  let ?A = "\<lambda>(b, out) v'. tried env L w pre bs v' \<and> (\<forall>x. out = Inr x \<longrightarrow> completed env L w pre v')"
  let ?B = "tried env L w pre bs"
  have j: "j_state (begun_write env w pre) = Applying" by (simp add: begun_write_def fresh_journal_def)
  have commit: "moves wseen ?v (mbind (verify_source_bindings env (rq_sources rq)) (\<lambda>_. commit_write env w))
      (\<lambda>_. ?P) (\<lambda>v'. v' = ?v)"
    by (rule moves_then [OF stays_bindings [OF assms(1)] refl], rule moves_weaken [OF commit_write_moves [OF assms(1,2)]])
      (use assms(3) j in \<open>auto simp: in_place_def\<close>)
  have unchanged: "moves wseen ?v (unchanged_failure env e) ?A ?B" for e
  proof -
    have "unwritten env L w pre bs ?v" using assms(3) by (simp add: unwritten_def)
    from unchanged_failure_moves [OF assms(1) this] show ?thesis by (rule moves_weaken) (auto dest: phases)
  qed
  have changed: "moves wseen v (changed_failure env w native committed) ?A ?B" if "?P v" for v native committed
    using changed_failure_moves [OF assms(1) that] by (rule moves_weaken) auto
  have rest: "moves wseen v (mbind (verify_source_bindings env bnds) (\<lambda>_. mbind (checked_checkpoint env w) (\<lambda>post.
      record_success env w post ty tx extra pre))) (\<lambda>_ v'. ?P v' \<and> completed env L w pre v') ?P" if "?P v" for v bnds ty tx extra
    by (rule moves_then [OF stays_bindings [OF assms(1)]], rule that, rule moves_bind [OF checked_checkpoint_moves [OF assms(1) that]],
        rule record_success_moves [OF assms(1)])
  have held: "moves wseen v (mbind (attempt (hold_write env w native)) (\<lambda>r.
      case r of Inl e \<Rightarrow> changed_failure env w native None
      | Inr committed \<Rightarrow>
          mbind (attempt
            (mbind (verify_source_bindings env (List.filter (\<lambda>(sp, _). sp \<noteq> wp_path w) (rq_sources rq))) (\<lambda>_.
             mbind (checked_checkpoint env w) (\<lambda>post.
               record_success env w post ''structured_file_written'' (rq_result_text rq) [] pre)))) (\<lambda>r.
            case r of Inl e \<Rightarrow> changed_failure env w native (Some committed) | Inr result \<Rightarrow> mret (False, Inr result)))) ?A ?B"
    if "?P v" for v native
  proof (rule moves_attempt_then [OF stays_hold [OF assms(1)]])
    fix committed v' assume "v' = v"
    then have "?P v'" using that by simp
    from rest [OF this] show "moves wseen v' (case Inr committed of Inl e \<Rightarrow> changed_failure env w native None
        | Inr committed \<Rightarrow>
            mbind (attempt
              (mbind (verify_source_bindings env (List.filter (\<lambda>(sp, _). sp \<noteq> wp_path w) (rq_sources rq))) (\<lambda>_.
               mbind (checked_checkpoint env w) (\<lambda>post.
                 record_success env w post ''structured_file_written'' (rq_result_text rq) [] pre)))) (\<lambda>r.
              case r of Inl e \<Rightarrow> changed_failure env w native (Some committed) | Inr result \<Rightarrow> mret (False, Inr result))) ?A ?B"
      unfolding sum.case
      by (rule moves_attempt_then) (simp only: sum.case, rule moves_ret, simp add: phases, simp only: sum.case, rule changed)
  next
    fix e v' assume "v' = v"
    then have "?P v'" using that by simp
    from changed [OF this] show "moves wseen v' (case Inl e of Inl e \<Rightarrow> changed_failure env w native None | Inr c \<Rightarrow> m c) ?A ?B" for m
      unfolding sum.case .
  qed
  show ?thesis
    unfolding protected_write_def
    by (rule moves_attempt_then [OF commit]) (auto simp only: sum.case intro!: unchanged held)
qed

lemma mark_phase:
  assumes "no_interference (mu_tx env)" "Q v" "B v"
    and "\<And>live j bs. v = (live, Some j, bs) \<Longrightarrow> Q (live, Some (j\<lparr>j_reconciled := True\<rparr>), bs)"
  shows "moves wseen v (on_fst (mark_audit_reconciled (mu_hist env))) (\<lambda>_. Q) B"
proof -
  obtain live J bs where v: "v = (live, J, bs)" by (cases v)
  show ?thesis
    unfolding v by (rule moves_fst, rule moves_weaken [OF mark_reconciled_moves [OF assms(1)]]) (use assms(2-4) v in auto)
qed

lemma close_write_moves:
  assumes "no_interference (mu_tx env)" "tried env L w pre bs v" "b \<longrightarrow> completed env L w pre v"
  shows "moves wseen v (close_write env w recovered)
    (\<lambda>_ v'. tried env L w pre bs v' \<and> (b \<longrightarrow> completed env L w pre v')) (tried env L w pre bs)"
proof -
  let ?Q = "\<lambda>v'. tried env L w pre bs v' \<and> (b \<longrightarrow> completed env L w pre v')"
  have m: "moves wseen v (if recovered then on_fst (mark_audit_reconciled (mu_hist env)) else mret ()) (\<lambda>_. ?Q) (tried env L w pre bs)"
  proof (cases recovered)
    case True
    show ?thesis
      unfolding if_P [OF True]
      by (rule mark_phase [OF assms(1)]) (use assms(2,3) in \<open>auto simp: tried_def completed_def\<close>)
  qed (use assms(2,3) in \<open>auto intro: moves_ret\<close>)
  have e: "moves wseen v' (audit_event env k ty n) (\<lambda>_. ?Q) (tried env L w pre bs)" if "?Q v'" for v' k ty n
    by (rule moves_weaken [OF stays_event [OF assms(1)]]) (use that in auto)
  show ?thesis
    unfolding close_write_def
  proof (rule moves_then [OF stays_transition [OF assms(1)]])
    show "tried env L w pre bs v" by fact
    show "moves wseen v (if t then mbind (if recovered then on_fst (mark_audit_reconciled (mu_hist env)) else mret ()) (\<lambda>_.
          audit_event env (wp_operation w) ''failed'' (int (length (wp_path w)) + 11)) else mret ())
        (\<lambda>_. ?Q) (tried env L w pre bs)" for t
    proof (cases t)
      case True
      show ?thesis unfolding if_P [OF True] by (rule moves_bind [OF m], rule e)
    next
      case False
      show ?thesis unfolding if_not_P [OF False] by (rule moves_ret) (use assms(2,3) in blast)
    qed
  qed
qed

section \<open>Preparation looks only\<close>

lemma resolve_write_target_Inr:
  "resolve_write_target tx live p = Inr u \<Longrightarrow>
     map_of live p = None \<or> (\<exists>i l d. map_of live p = Some (LiveFile i l d) \<and> l \<le> 1)"
  by (auto simp: resolve_write_target_def rbind_eq_Inr split: option.splits live_node.splits if_splits)

lemma live_identity_below: "p \<noteq> ''.'' \<Longrightarrow> live_identity tx live p = map_option node_identity (map_of live p)"
  by (simp add: live_identity_def node_at_def)

lemma read_path_bytes_Inr: "read_path_bytes live p n = Inr d \<Longrightarrow> \<exists>i l. map_of live p = Some (LiveFile i l d)"
  by (auto simp: read_path_bytes_def resolve_existing_file_def rbind_eq_Inr split: option.splits live_node.splits if_splits)

lemma mutation_target_moves:
  assumes "no_interference (mu_tx env)" "rq_path rq \<noteq> ''.''"
  shows "moves seen (L, J, bs) (mutation_target env rq)
    (\<lambda>(pi, ti, before) v'. v' = (L, J, bs) \<and> before = file_data L (rq_path rq)
       \<and> (case map_of L (rq_path rq) of None \<Rightarrow> ti = None | Some (LiveFile i l d) \<Rightarrow> ti = Some i \<and> before = d | _ \<Rightarrow> False))
    (\<lambda>v'. v' = (L, J, bs))"
  unfolding mutation_target_def
proof (rule moves_looks_then [OF assms(1) refl], clarify)
  fix pi ti
  assume f: "rbind (creatable_target env rq L) (\<lambda>_. case live_identity (mu_tx env) L (parent_of (rq_path rq)) of
      None \<Rightarrow> Inl (RuntimeError ''write parent disappeared'')
    | Some pi \<Rightarrow> Inr (pi, live_identity (mu_tx env) L (rq_path rq))) = Inr (pi, ti)"
  then have ti: "ti = map_option node_identity (map_of L (rq_path rq))"
    using assms(2) by (auto simp: rbind_eq_Inr live_identity_below split: option.splits)
  have "resolve_write_target (mu_tx env) L (rq_path rq) = Inr ()"
    using f by (auto simp: rbind_eq_Inr creatable_target_def)
  note k = resolve_write_target_Inr [OF this]
  show "moves seen (L, J, bs)
      (mbind (looks env (\<lambda>live.
              if map_of live (rq_path rq) = None then Inr []
              else case ti of
                None \<Rightarrow> Inl (RuntimeError ''structured source disappeared before read'')
              | Some i \<Rightarrow>
                  if mu_max_file env < file_size i
                  then Inl (ValueError ''structured file exceeds max_structured_file_bytes'')
                  else read_path_bytes live (rq_path rq) (mu_max_file env))) (\<lambda>before.
       mret (pi, ti, before)))
      (\<lambda>(pi, ti, before) v'. v' = (L, J, bs) \<and> before = file_data L (rq_path rq)
       \<and> (case map_of L (rq_path rq) of None \<Rightarrow> ti = None | Some (LiveFile i l d) \<Rightarrow> ti = Some i \<and> before = d | _ \<Rightarrow> False))
      (\<lambda>v'. v' = (L, J, bs))"
    by (rule moves_looks_then [OF assms(1) refl], rule moves_ret)
      (use ti k in \<open>auto simp: file_data_def dest!: read_path_bytes_Inr split: if_splits option.splits\<close>)
qed

lemma stays_ready: "no_interference (mu_tx env) \<Longrightarrow> stays wseen v (require_mutation_ready env)"
  unfolding require_mutation_ready_def by (rule moves_fst) (intro stays_rules stays_arrive)

lemma stays_expected: "no_interference (mu_tx env) \<Longrightarrow> stays seen v (check_expected env rq before)"
  unfolding check_expected_def by (intro stays_rules stays_looks)

lemma stays_sources: "no_interference (mu_tx env) \<Longrightarrow> stays seen v (mfold (resolve_source env p) bs)"
  unfolding resolve_source_def by (intro stays_rules stays_looks)

definition prepared :: "live \<Rightarrow> string \<Rightarrow> bytes \<Rightarrow> write_plan \<Rightarrow> bool" where
  "prepared L p data w \<longleftrightarrow> planned L w \<and> wp_path w = p \<and> wp_after w = data"

lemma prepare_mutation_moves:
  assumes "no_interference (mu_tx env)" "rq_path rq \<noteq> ''.''"
  shows "moves wseen (L, J, bs) (prepare_mutation env rq transform)
    (\<lambda>w v'. v' = (L, J, bs) \<and> (\<exists>data. transform (file_data L (rq_path rq)) = Inr data \<and> prepared L (rq_path rq) data w))
    (\<lambda>v'. v' = (L, J, bs))"
    (is "moves wseen ?v _ ?A ?B")
proof -
  have started: "stays wseen ?v (case rq_started rq of
              None \<Rightarrow> audit_create env ((rq_row rq)\<lparr>no_status := ''running''\<rparr>)
            | Some k \<Rightarrow> mbind (audit_update env k (\<lambda>_. [(''request_json'', SqlText (rq_request_text rq))])) (\<lambda>_. mret k))"
    by (intro stays_rules stays_audit assms(1))
  have late: "moves wseen ?v (mbind (on_fst (check_expected env rq before)) (\<lambda>_.
     mbind (verify_source_bindings env (rq_sources rq)) (\<lambda>_.
     mbind (mlift (transform before)) (\<lambda>after.
     mbind (mcheck (int (length after) \<le> mu_max_file env) (ValueError ''result exceeds max_structured_file_bytes'')) (\<lambda>_.
     mbind (case rq_started rq of
              None \<Rightarrow> audit_create env ((rq_row rq)\<lparr>no_status := ''running''\<rparr>)
            | Some k \<Rightarrow> mbind (audit_update env k (\<lambda>_. [(''request_json'', SqlText (rq_request_text rq))])) (\<lambda>_. mret k))
       (\<lambda>k.
       mret \<lparr>wp_path = rq_path rq, wp_before = before, wp_after = after, wp_parent = pi, wp_target = ti,
             wp_operation = k\<rparr>)))))) ?A ?B"
    if "before = file_data L (rq_path rq)"
      "case map_of L (rq_path rq) of None \<Rightarrow> ti = None | Some (LiveFile i l d) \<Rightarrow> ti = Some i \<and> before = d | _ \<Rightarrow> False"
    for pi ti before
    by (rule moves_then [where B = ?B, OF moves_fst [OF stays_expected [OF assms(1)]] refl],
        rule moves_then [where B = ?B, OF stays_bindings [OF assms(1)] refl],
        rule moves_lift_then [where B = ?B], rule refl, rule moves_check_then [where B = ?B], rule refl,
        rule moves_then [where B = ?B, OF started refl], rule moves_ret)
      (use that in \<open>auto simp: prepared_def planned_def split: option.splits live_node.splits\<close>)
  show ?thesis
    unfolding prepare_mutation_def
    apply (rule moves_lift_then [where B = ?B], rule refl)
    apply (rule moves_then [where B = ?B, OF stays_ready [OF assms(1)] refl])
    apply (rule moves_then [where B = ?B, OF moves_fst [OF stays_looks [OF assms(1)]] refl])
    apply (rule moves_then [where B = ?B, OF moves_fst [OF stays_sources [OF assms(1)]] refl])
    apply (rule moves_then [where B = ?B, OF stays_arrive_work [OF assms(1)] refl])
    apply (rule moves_then [where B = ?B, OF moves_fst [OF stays_looks [OF assms(1)]] refl])
    apply (rule moves_then [where B = ?B, OF stays_arrive_work [OF assms(1)] refl])
    apply (rule moves_then [where B = ?B, OF stays_ready [OF assms(1)] refl])
    apply (rule moves_bind [OF moves_fst [OF mutation_target_moves [OF assms]]])
    apply (clarify, rule late, simp_all)
    done
qed

definition captured :: "hist_env \<Rightarrow> live \<Rightarrow> string \<Rightarrow> manifest \<Rightarrow> blobs \<Rightarrow> bool" where
  "captured env L p pre bs \<longleftrightarrow>
     stored env pre bs
     \<and> (\<exists>st. scan_live env (Some [p]) L = Inr st
          \<and> pre = \<lparr>mf_files = List.map (capture_entry env L) (state_files st), mf_dirs = state_dirs st, mf_scope = Some [p]\<rparr>)"

text \<open>
  How a run ends: nothing happened and the journal is the old one, or the run has its journal and left
  the file old or new.
\<close>

definition run_ended :: "mut_env \<Rightarrow> live \<Rightarrow> journal option \<Rightarrow> string \<Rightarrow> bytes res \<Rightarrow> write_view \<Rightarrow> bool" where
  "run_ended env L J p data v' \<longleftrightarrow>
     (\<exists>bs. v' = (L, J, bs))
     \<or> (\<exists>w d pre bs. data = Inr d \<and> prepared L p d w \<and> captured (mu_hist env) L p pre bs \<and> tried env L w pre bs v')"

definition run_returned :: "mut_env \<Rightarrow> live \<Rightarrow> string \<Rightarrow> bytes res \<Rightarrow> write_view \<Rightarrow> bool" where
  "run_returned env L p data v' \<longleftrightarrow> (\<exists>w d pre. data = Inr d \<and> prepared L p d w \<and> completed env L w pre v')"

lemma atomic_binary_mutation_moves:
  assumes "no_interference (mu_tx env)" "rq_path rq \<noteq> ''.''"
  shows "moves wseen (L, J, bs) (atomic_binary_mutation env rq transform)
    (\<lambda>_ v'. run_ended env L J (rq_path rq) (transform (file_data L (rq_path rq))) v'
       \<and> run_returned env L (rq_path rq) (transform (file_data L (rq_path rq))) v')
    (run_ended env L J (rq_path rq) (transform (file_data L (rq_path rq))))"
    (is "moves wseen ?v _ ?A ?B")
proof -
  let ?p = "rq_path rq" and ?data = "transform (file_data L (rq_path rq))"
  have old: "?B (L, J, b)" for b by (simp add: run_ended_def)
  have ended: "?B v'" if "?data = Inr d" "prepared L ?p d w" "captured (mu_hist env) L ?p pre b" "tried env L w pre b v'"
    for w d pre b v' using that unfolding run_ended_def by blast
  have returned: "?A x v'" if "?data = Inr d" "prepared L ?p d w" "captured (mu_hist env) L ?p pre b"
      "tried env L w pre b v'" "completed env L w pre v'" for w d pre b v' x
    using that unfolding run_ended_def run_returned_def by blast
  have close: "moves wseen v' (mbind (close_write env w recovered) (\<lambda>_. mlift outcome)) ?A ?B"
    if f: "?data = Inr d" "prepared L ?p d w" "captured (mu_hist env) L ?p pre b"
      and t: "tried env L w pre b v'" and o: "\<forall>x. outcome = Inr x \<longrightarrow> completed env L w pre v'"
    for w d pre b v' recovered outcome
  proof (rule moves_bind)
    show "moves wseen v' (close_write env w recovered)
        (\<lambda>_ v'. tried env L w pre b v' \<and> ((\<exists>x. outcome = Inr x) \<longrightarrow> completed env L w pre v')) ?B"
      by (rule moves_weaken [OF close_write_moves [OF assms(1) t, of "\<exists>x. outcome = Inr x"]])
        (use o ended [OF f] in auto)
    show "moves wseen u (mlift outcome) ?A ?B"
      if "tried env L w pre b u \<and> ((\<exists>x. outcome = Inr x) \<longrightarrow> completed env L w pre u)" for u
      by (rule moves_lift) (use that ended [OF f] returned [OF f] in auto)
  qed
  have begun: "moves wseen (L, J, b) (mbind (begin_write env w pre) (\<lambda>_.
       mbind (protected_write env rq w pre) (\<lambda>(recovered, outcome).
       mbind (close_write env w recovered) (\<lambda>_. mlift outcome)))) ?A ?B"
    if f: "?data = Inr d" "prepared L ?p d w" "captured (mu_hist env) L ?p pre b" for w d pre b
  proof (rule moves_bind)
    show "moves wseen (L, J, b) (begin_write env w pre) (\<lambda>_ v'. v' = (L, Some (begun_write env w pre), b)) ?B"
      by (rule moves_weaken [OF begin_write_moves [OF assms(1)]]) (use old in auto)
    have pl: "planned L w" using f(2) by (simp add: prepared_def)
    show "moves wseen u (mbind (protected_write env rq w pre) (\<lambda>(recovered, outcome).
       mbind (close_write env w recovered) (\<lambda>_. mlift outcome))) ?A ?B"
      if "u = (L, Some (begun_write env w pre), b)" for u
      unfolding that
    proof (rule moves_bind)
      show "moves wseen (L, Some (begun_write env w pre), b) (protected_write env rq w pre)
          (\<lambda>(r, out) v'. tried env L w pre b v' \<and> (\<forall>x. out = Inr x \<longrightarrow> completed env L w pre v')) ?B"
        by (rule moves_weaken [OF protected_write_moves [OF assms(1) pl refl]]) (use ended [OF f] in auto)
    qed (use close [OF f] in auto)
  qed
  show ?thesis
    unfolding atomic_binary_mutation_def
  proof (rule moves_bind)
    show "moves wseen ?v (prepare_mutation env rq transform)
        (\<lambda>w v'. v' = ?v \<and> (\<exists>d. ?data = Inr d \<and> prepared L ?p d w)) ?B"
      by (rule moves_weaken [OF prepare_mutation_moves [OF assms]]) (use old in auto)
    fix w v' assume "v' = ?v \<and> (\<exists>d. ?data = Inr d \<and> prepared L ?p d w)"
    then obtain d where v': "v' = ?v" and d: "?data = Inr d" "prepared L ?p d w" by blast
    have p: "wp_path w = ?p" using d(2) by (simp add: prepared_def)
    show "moves wseen v' (mbind (on_fst (capture_workspace_state (mu_hist env) (Some [wp_path w]))) (\<lambda>pre.
       mbind (audit_update env (wp_operation w)
                (\<lambda>_. [(''pre_workspace_path'', SqlText (manifest_path (wp_operation w) ''before''))])) (\<lambda>_.
       mbind (begin_write env w pre) (\<lambda>_.
       mbind (protected_write env rq w pre) (\<lambda>(recovered, outcome).
       mbind (close_write env w recovered) (\<lambda>_. mlift outcome)))))) ?A ?B"
      unfolding v' p
    proof (rule moves_bind)
      show "moves wseen ?v (on_fst (capture_workspace_state (mu_hist env) (Some [?p])))
          (\<lambda>pre u. \<exists>b. u = (L, J, b) \<and> captured (mu_hist env) L ?p pre b) ?B"
        by (rule moves_fst, rule moves_weaken [OF capture_moves [OF assms(1)]]) (use old in \<open>auto simp: captured_def\<close>)
      fix pre u assume "\<exists>b. u = (L, J, b) \<and> captured (mu_hist env) L ?p pre b"
      then obtain b where u: "u = (L, J, b)" and c: "captured (mu_hist env) L ?p pre b" by blast
      show "moves wseen u (mbind (audit_update env (wp_operation w)
                (\<lambda>_. [(''pre_workspace_path'', SqlText (manifest_path (wp_operation w) ''before''))])) (\<lambda>_.
         mbind (begin_write env w pre) (\<lambda>_.
         mbind (protected_write env rq w pre) (\<lambda>(recovered, outcome).
         mbind (close_write env w recovered) (\<lambda>_. mlift outcome))))) ?A ?B"
        unfolding u
        by (rule moves_then [OF stays_update [OF assms(1)]], rule old, rule begun [OF d c])
    qed
  qed
qed

section \<open>The guarantees\<close>

lemma tried_cases:
  assumes "tried env L w pre bs (live, J, bs')"
  shows "as_before L (wp_path w) live \<or> as_after L (wp_path w) (wp_after w) live"
  using assms replaced_after by (auto simp: tried_def)

text \<open>The journal of a run names its file, holds the checkpoint before it, and the store its content.\<close>

definition explains_change :: "mut_env \<Rightarrow> live \<Rightarrow> string \<Rightarrow> hist \<Rightarrow> bool" where
  "explains_change env L p h' \<longleftrightarrow>
     (\<exists>j pre. h_journal h' = Some j \<and> j_kind j = ''single_file_write'' \<and> j_changed j = [p] \<and> j_before j = Some pre
        \<and> captured (mu_hist env) L p pre (h_blobs h') \<and> (j_state j = FailedRecovered \<longrightarrow> as_before L p (tx_live h')))"

lemma captured_more: "captured env L p pre bs \<Longrightarrow> extends_blobs bs bs' \<Longrightarrow> captured env L p pre bs'"
  unfolding captured_def using stored_more by blast

lemma tried_explains:
  assumes "tried env L w pre bs (seen h')" "captured (mu_hist env) L (wp_path w) pre bs"
  shows "explains_change env L (wp_path w) h'"
proof -
  obtain j where j: "h_journal h' = Some j" "run_journal env w pre j" "extends_blobs bs (h_blobs h')"
    "j_state j = FailedRecovered \<longrightarrow> as_before L (wp_path w) (tx_live h')"
    using assms(1) by (auto simp: tried_def seen_def)
  have "j_kind j = ''single_file_write''" "j_changed j = [wp_path w]" "j_before j = Some pre"
    by (subst j(2) [unfolded run_journal_def], simp add: begun_write_def fresh_journal_def)+
  then show ?thesis using j captured_more [OF assms(2) j(3)] by (auto simp: explains_change_def)
qed

lemma run_ended_cases:
  assumes "run_ended env L J p data (seen h')"
  shows "(tx_live h' = L \<and> h_journal h' = J)
    \<or> (explains_change env L p h'
       \<and> (as_before L p (tx_live h') \<or> (\<exists>d. data = Inr d \<and> as_after L p d (tx_live h'))))"
proof -
  consider "tx_live h' = L \<and> h_journal h' = J"
    | w d pre bs where "data = Inr d" "prepared L p d w" "captured (mu_hist env) L p pre bs" "tried env L w pre bs (seen h')"
    using assms by (auto simp: run_ended_def seen_def)
  then show ?thesis
  proof cases
    case (2 w d pre bs)
    then have "wp_path w = p" "wp_after w = d" by (auto simp: prepared_def)
    then show ?thesis
      using tried_explains [OF 2(4)] tried_cases [of env L w pre bs "tx_live h'"] 2 by (auto simp: seen_def)
  qed blast
qed

lemma run_returned_complete:
  assumes "run_returned env L p data (seen h')"
  shows "\<exists>d j. data = Inr d \<and> as_after L p d (tx_live h') \<and> h_journal h' = Some j \<and> j_state j = Complete \<and> j_reconciled j"
  using assms replaced_after
  by (fastforce simp: run_returned_def prepared_def completed_def seen_def)

text \<open>What both writers guarantee, from how their runs end.\<close>

lemma run_guarantee:
  assumes "run_ended env (tx_live h) (h_journal h) p data (seen h') \<and> (\<forall>x. r = Inr x \<longrightarrow> run_returned env (tx_live h) p data (seen h'))"
  shows "(as_before (tx_live h) p (tx_live h') \<or> (\<exists>d. data = Inr d \<and> as_after (tx_live h) p d (tx_live h')))
    \<and> (tx_live h' \<noteq> tx_live h \<longrightarrow> explains_change env (tx_live h) p h')
    \<and> (\<forall>x. r = Inr x \<longrightarrow> (\<exists>d j. data = Inr d \<and> as_after (tx_live h) p d (tx_live h')
            \<and> h_journal h' = Some j \<and> j_state j = Complete \<and> j_reconciled j))"
proof -
  have "\<exists>d j. data = Inr d \<and> as_after (tx_live h) p d (tx_live h')
      \<and> h_journal h' = Some j \<and> j_state j = Complete \<and> j_reconciled j" if "r = Inr x" for x
    using assms that run_returned_complete by blast
  then show ?thesis using run_ended_cases [OF conjunct1 [OF assms]] by auto
qed

lemma atomic_binary_mutation_run:
  assumes "no_interference (mu_tx env)" "rq_path rq \<noteq> ''.''"
    and "atomic_binary_mutation env rq transform (h, db) = ((h', db'), r)"
  shows "run_ended env (tx_live h) (h_journal h) (rq_path rq) (transform (file_data (tx_live h) (rq_path rq))) (seen h')
    \<and> (\<forall>x. r = Inr x \<longrightarrow>
         run_returned env (tx_live h) (rq_path rq) (transform (file_data (tx_live h) (rq_path rq))) (seen h'))"
  using movesD [OF atomic_binary_mutation_moves [OF assms(1,2)] _ assms(3), of "tx_live h" "h_journal h" "h_blobs h"]
  by (cases r) (auto simp: seen_def)

text \<open>
  C4. However the replacement of a file ends -- a refused request, a failing disk or audit database, a
  failed recovery, or the end of the process at any step -- the file has its old content in the same
  file object or exactly what the transformation gave for it, and no other path is touched. Every change
  is explained by a journal that names the file, whose checkpoint holds its old content in the store,
  and which says recovered only when the old content is back; and a call that returns has put the new
  content in place and completed the journal.
\<close>

theorem replacement_safe:
  assumes "no_interference (mu_tx env)" "rq_path rq \<noteq> ''.''"
    and "atomic_binary_mutation env rq transform (h, db) = ((h', db'), r)"
  shows "(as_before (tx_live h) (rq_path rq) (tx_live h')
      \<or> (\<exists>data. transform (file_data (tx_live h) (rq_path rq)) = Inr data
            \<and> as_after (tx_live h) (rq_path rq) data (tx_live h')))
    \<and> (tx_live h' \<noteq> tx_live h \<longrightarrow> explains_change env (tx_live h) (rq_path rq) h')
    \<and> (\<forall>x. r = Inr x \<longrightarrow>
         (\<exists>data j. transform (file_data (tx_live h) (rq_path rq)) = Inr data
            \<and> as_after (tx_live h) (rq_path rq) data (tx_live h')
            \<and> h_journal h' = Some j \<and> j_state j = Complete \<and> j_reconciled j))"
  by (rule run_guarantee [OF atomic_binary_mutation_run [OF assms]])

section \<open>A concrete mutation\<close>

definition demo_mut_env :: "(nat \<Rightarrow> tx_event) \<Rightarrow> mut_env" where
  "demo_mut_env events =
     \<lparr>mu_hist = demo_hist_env events, mu_audit = demo_audit_env, mu_time = (\<lambda>n. int n), mu_healthy = Inr (),
      mu_others = False, mu_max_file = 100, mu_max_write = 100, mu_max_text = 100, mu_max_backup = 100,
      mu_max_diff = 100, mu_max_reason = 10, mu_origin_bytes = 1, mu_opcodes = prefix_opcodes,
      mu_error_text = (\<lambda>_. ''e'')\<rparr>"

definition demo_request :: "string \<Rightarrow> mutation_request" where
  "demo_request p =
     \<lparr>rq_path = p, rq_expected = Some (length_sha [65]), rq_allow_create = False, rq_require_expected = True,
      rq_sources = [], rq_started = None, rq_row = demo_new ''w'', rq_request_text = ''q'', rq_result_text = ''r''\<rparr>"

definition demo_work :: work where
  "demo_work = (demo_hist, \<lparr>db_rows = [], db_events = []\<rparr>)"

abbreviation demo_mutation :: "(nat \<Rightarrow> tx_event) \<Rightarrow> work \<times> mutation_result res" where
  "demo_mutation events \<equiv>
     atomic_binary_mutation (demo_mut_env events) (demo_request ''d/a'') (\<lambda>_. Inr [66, 67]) demo_work"

lemma demo_no_interference: "no_interference (mu_tx (demo_mut_env (crash_at k)))" "no_interference (mu_tx (demo_mut_env quiet))"
  by (auto simp: no_interference_def demo_mut_env_def demo_hist_env_def crash_at_def quiet_def quiet_event_def)

lemma replacement_safe_witness:
  "as_after (tx_live demo_hist) ''d/a'' [66, 67] (tx_live (fst (fst (demo_mutation quiet))))
   \<and> explains_change (demo_mut_env (crash_at 18)) (tx_live demo_hist) ''d/a'' (fst (fst (demo_mutation (crash_at 18))))"
proof -
  have p: "rq_path (demo_request ''d/a'') \<noteq> ''.''" by (simp add: demo_request_def)
  obtain h' db' r where m: "demo_mutation quiet = ((h', db'), r)" by (metis surj_pair)
  have "case snd (demo_mutation quiet) of Inr x \<Rightarrow> True | Inl e \<Rightarrow> False" by code_simp
  then obtain x where r: "r = Inr x" unfolding m by (auto split: sum.splits)
  have quiet_run: "as_after (tx_live demo_hist) ''d/a'' [66, 67] (tx_live h')"
    using replacement_safe [OF demo_no_interference(2) p m [unfolded demo_work_def r]] by (auto simp: demo_request_def)
  obtain g dg q where c: "demo_mutation (crash_at 18) = ((g, dg), q)" by (metis surj_pair)
  have "map_of (tx_live (fst (fst (demo_mutation (crash_at 18))))) ''d/a'' \<noteq> map_of (tx_live demo_hist) ''d/a''" by code_simp
  then have "tx_live g \<noteq> tx_live demo_hist" unfolding c by auto
  then have "explains_change (demo_mut_env (crash_at 18)) (tx_live demo_hist) ''d/a'' g"
    using replacement_safe [OF demo_no_interference(1) p c [unfolded demo_work_def]] by (simp add: demo_request_def)
  then show ?thesis using quiet_run m c by simp
qed

section \<open>Where the record and the workspace part\<close>

text \<open>A step raises and has no effect.\<close>

definition fault_at :: "nat \<Rightarrow> nat \<Rightarrow> tx_event" where
  "fault_at k = (\<lambda>n. if n = k then quiet_event\<lparr>ev_fault := Some (OSError ''disk'')\<rparr> else quiet_event)"

text \<open>What is in the file, the journal's state, the audit row, and whether the call returned.\<close>

definition write_outcome ::
  "string \<Rightarrow> string \<Rightarrow> work \<times> 'r res \<Rightarrow> bytes \<times> jstate option \<times> (sql_value \<times> sql_value) option \<times> bool" where
  "write_outcome p k = (\<lambda>((h, db), r).
     (file_data (tx_live h) p, map_option j_state (h_journal h),
      map_option (\<lambda>row. (col row ''status'', col row ''rollback_state'')) (map_of (db_rows db) k),
      case r of Inl _ \<Rightarrow> False | Inr _ \<Rightarrow> True))"

text \<open>
  Two runs of the demonstration environment. When the last event of the mutation cannot be
  written, after the audit row says succeeded and the journal says complete, the file is rolled back:
  the audit row keeps claiming a success whose bytes are gone. When instead the audit lookup of the
  \<open>finally\<close> block fails, a mutation that is complete in file, journal and audit row is reported as
  failed.
\<close>

lemma late_failures_contradict_the_record:
  "write_outcome ''d/a'' ''w'' (demo_mutation (fault_at 23))
     = ([65], Some FailedRecovered, Some (SqlText ''succeeded'', SqlText ''complete''), False)
   \<and> write_outcome ''d/a'' ''w'' (demo_mutation (fault_at 24))
     = ([66, 67], Some Complete, Some (SqlText ''succeeded'', SqlText ''complete''), False)
   \<and> write_outcome ''d/a'' ''w'' (demo_mutation quiet)
     = ([66, 67], Some Complete, Some (SqlText ''succeeded'', SqlText ''complete''), True)"
  by code_simp

text \<open>
  A failure between the creation of the audit row and the journal, here of the checkpoint, leaves the
  row running, with nothing left to end it.
\<close>

lemma failure_before_journal_leaves_row_running:
  "write_outcome ''d/a'' ''w'' (demo_mutation (fault_at 10)) = ([65], None, Some (SqlText ''running'', Null), False)"
  by code_simp

end
