(* ===== verification/Write_Safety.thy ===== *)
theory Write_Safety
  imports Mutation_Safety
begin

text \<open>
  The same for \<open>write_file\<close>, whose protocol differs: the backup and the diff come before the journal, a
  failed check of the committed target is passed on without a recovery, and the audit row is closed
  only after a failure.
\<close>

section \<open>The calls of write\_file\<close>

lemma previous_text_moves:
  assumes "no_interference (mu_tx env)" "wr_path rq \<noteq> ''.''"
  shows "moves seen (L, J, bs) (previous_text env rq)
    (\<lambda>(pi, ti, before) v'. v' = (L, J, bs) \<and> before = file_data L (wr_path rq)
       \<and> (case map_of L (wr_path rq) of None \<Rightarrow> ti = None | Some (LiveFile i l d) \<Rightarrow> ti = Some i \<and> before = d | _ \<Rightarrow> False))
    (\<lambda>v'. v' = (L, J, bs))"
    (is "moves seen ?v _ ?A ?B")
  unfolding previous_text_def
proof (rule moves_looks_then [OF assms(1) refl], clarify)
  fix pi ti
  assume f: "rbind (resolve_write_target (mu_tx env) L (wr_path rq)) (\<lambda>_. case live_identity (mu_tx env) L (parent_of (wr_path rq)) of
      None \<Rightarrow> Inl (RuntimeError ''write parent disappeared'')
    | Some pi \<Rightarrow> Inr (pi, live_identity (mu_tx env) L (wr_path rq))) = Inr (pi, ti)"
  then have ti: "ti = map_option node_identity (map_of L (wr_path rq))"
    using assms(2) by (auto simp: rbind_eq_Inr live_identity_below split: option.splits)
  have "resolve_write_target (mu_tx env) L (wr_path rq) = Inr ()" using f by (auto simp: rbind_eq_Inr)
  note k = resolve_write_target_Inr [OF this]
  show "moves seen ?v
     (mbind (looks env (\<lambda>live.
              if map_of live (wr_path rq) = None then Inr []
              else read_path_bytes live (wr_path rq) (max (mu_max_text env) (mu_max_backup env)))) (\<lambda>previous.
     mbind (mcheck (int (length previous) \<le> mu_max_text env)
              (ValueError ''existing file exceeds max_text_file_bytes'')) (\<lambda>_.
     mbind (mcheck (int (length previous) \<le> mu_max_backup env)
              (ValueError ''existing file exceeds max_backup_bytes'')) (\<lambda>_.
     mbind (mcheck (utf8_decode previous \<noteq> None) (ValueError ''existing file is not UTF-8 text'')) (\<lambda>_.
     mbind (looks env (\<lambda>live.
              if map_of live (wr_path rq) \<noteq> None \<and> wr_expected rq = None
              then Inl (ValueError ''expected_sha256 is required when replacing an existing file'') else Inr ())) (\<lambda>_.
     mbind (mcheck (wr_expected rq = None \<or> wr_expected rq = Some (tx_sha (mu_tx env) previous))
              (RuntimeError ''expected_sha256 mismatch'')) (\<lambda>_.
       mret (pi, ti, previous)))))))) ?A ?B"
    by (intro moves_check_then [where B = ?B, OF refl] moves_looks_then [OF assms(1), where B = ?B, OF refl], rule moves_ret)
      (use ti k in \<open>auto simp: file_data_def dest!: read_path_bytes_Inr split: if_splits option.splits\<close>)
qed

text \<open>The bytes a request writes.\<close>

definition encoded :: "utext \<Rightarrow> bytes res" where
  "encoded t = (case utf8_encode t of None \<Rightarrow> Inl (ValueError ''surrogates not allowed'') | Some d \<Rightarrow> Inr d)"

lemma prepare_write_file_moves:
  assumes "no_interference (mu_tx env)" "wr_path rq \<noteq> ''.''"
  shows "moves wseen (L, J, bs) (prepare_write_file env rq)
    (\<lambda>w v'. v' = (L, J, bs) \<and> (\<exists>d. encoded (wr_content rq) = Inr d \<and> prepared L (wr_path rq) d w)) (\<lambda>v'. v' = (L, J, bs))"
    (is "moves wseen ?v _ ?A ?B")
proof -
  have late: "moves wseen ?v (mbind (audit_create env ((wr_row rq)\<lparr>no_status := ''running''\<rparr>)) (\<lambda>k.
       mret \<lparr>wp_path = wr_path rq, wp_before = before, wp_after = d, wp_parent = pi, wp_target = ti,
             wp_operation = k\<rparr>)) ?A ?B"
    if "before = file_data L (wr_path rq)" "encoded (wr_content rq) = Inr d"
      "case map_of L (wr_path rq) of None \<Rightarrow> ti = None | Some (LiveFile i l d) \<Rightarrow> ti = Some i \<and> before = d | _ \<Rightarrow> False"
    for pi ti before d
    by (rule moves_then [where B = ?B, OF stays_create [OF assms(1)] refl], rule moves_ret)
      (use that in \<open>auto simp: prepared_def planned_def split: option.splits live_node.splits\<close>)
  show ?thesis
    unfolding prepare_write_file_def encoded_def [symmetric]
    apply (rule moves_lift_then [where B = ?B], rule refl)
    apply (rule moves_then [where B = ?B, OF stays_ready [OF assms(1)] refl])
    apply (rule moves_lift_then [where B = ?B], rule refl)
    apply (rule moves_check_then [where B = ?B], rule refl)
    apply (rule moves_then [where B = ?B, OF moves_fst [OF stays_looks [OF assms(1)]] refl])
    apply (rule moves_then [where B = ?B, OF stays_arrive_work [OF assms(1)] refl])
    apply (rule moves_then [where B = ?B, OF stays_ready [OF assms(1)] refl])
    apply (rule moves_bind [OF moves_fst [OF previous_text_moves [OF assms]]])
    apply (clarify, rule late, simp_all)
    done
qed

lemma stays_rejection: "no_interference (mu_tx env) \<Longrightarrow> stays wseen v (audit_rejection env n e)"
  unfolding audit_rejection_def by (intro stays_rules stays_audit)

lemma begin_write_file_moves:
  assumes "no_interference (mu_tx env)" "wp_path w = p"
  shows "moves wseen (L, J, bs) (begin_write_file env rq w)
    (\<lambda>(pre, backup) v'. \<exists>b. v' = (L, Some (begun_write env w pre), b) \<and> captured (mu_hist env) L p pre b)
    (\<lambda>v'. \<exists>b. v' = (L, J, b))"
    (is "moves wseen ?v _ ?A ?B")
proof -
  have begin_now: "moves wseen (L, J, b) (mbind (begin_write env w pre) (\<lambda>_. mret (pre, x))) ?A ?B"
    if "captured (mu_hist env) L p pre b" for pre b x
    by (rule moves_bind [OF moves_weaken [OF begin_write_moves [OF assms(1)]]]) (use that in \<open>auto intro!: moves_ret\<close>)
  have backup: "stays wseen v (if e then on_fst (mbind (arrive (mu_tx env)) (\<lambda>_. mret ())) else mret ())" for e v
    by (intro stays_rules moves_fst stays_arrive assms(1))
  have get: "stays wseen v (on_fst (mget f))" for f v by (rule moves_fst) (rule stays_basic)
  have late: "moves wseen (L, J, b)
    (mbind (audit_update env (wp_operation w)
              (\<lambda>_. [(''pre_workspace_path'', SqlText (manifest_path (wp_operation w) ''before''))])) (\<lambda>_.
     mbind (on_fst (arrive (mu_tx env))) (\<lambda>_.
     mbind (mlift (case utf8_decode (wp_before w) of
                     None \<Rightarrow> Inr (0, 0, 0)
                   | Some t \<Rightarrow> write_bounded_diff env t (wr_content rq) (wp_path w))) (\<lambda>(added, removed, diff_bytes).
     mbind (on_fst (mget (\<lambda>s. enforce_data_quota (he_max_data (mu_hist env)) (he_data_size (mu_hist env) (h_blobs s))
                                (diff_bytes + int (length (wp_before w)))))) (\<lambda>quota.
     mbind (mlift quota) (\<lambda>_.
     mbind (on_fst (looks env (\<lambda>live. Inr (map_of live (wp_path w) \<noteq> None)))) (\<lambda>exists.
     mbind (if exists then on_fst (mbind (arrive (mu_tx env)) (\<lambda>_. mret ())) else mret ()) (\<lambda>_.
     mbind (begin_write env w pre) (\<lambda>_.
       mret (pre, if exists then SqlText (backup_path (wp_operation w) (wp_path w)) else Null)))))))))) ?A ?B"
    if c: "captured (mu_hist env) L p pre b" for pre b
  proof -
    have B: "?B (L, J, b)" by blast
    show ?thesis
      apply (rule moves_then [where B = ?B, OF stays_update [OF assms(1)] B])
      apply (rule moves_then [where B = ?B, OF stays_arrive_work [OF assms(1)] B])
      apply (rule moves_lift_then [where B = ?B], rule B, clarify)
      apply (rule moves_then [where B = ?B, OF get B])
      apply (rule moves_lift_then [where B = ?B], rule B)
      apply (rule moves_then [where B = ?B, OF moves_fst [OF stays_looks [OF assms(1)]] B])
      apply (rule moves_then [where B = ?B, OF backup B], rule begin_now [OF c])
      done
  qed
  show ?thesis
    unfolding begin_write_file_def
  proof (rule moves_bind)
    show "moves wseen ?v (on_fst (capture_workspace_state (mu_hist env) (Some [wp_path w])))
        (\<lambda>pre u. \<exists>b. u = (L, J, b) \<and> captured (mu_hist env) L p pre b) ?B"
      by (rule moves_fst, rule moves_weaken [OF capture_moves [OF assms(1)]]) (use assms(2) in \<open>auto simp: captured_def\<close>)
  qed (use late in blast)
qed

lemma file_changed_failure_moves:
  assumes "no_interference (mu_tx env)" "in_place env L w pre bs0 v"
  shows "moves wseen v (file_changed_failure env w native committed)
    (\<lambda>(b, out) v'. tried env L w pre bs0 v' \<and> (\<exists>e. out = Inl e)) (tried env L w pre bs0)"
  unfolding file_changed_failure_def Let_def
proof (rule moves_attempt_then [OF recover_phase [OF assms]])
  let ?A = "\<lambda>(b, out) v'. tried env L w pre bs0 v' \<and> (\<exists>e. out = Inl e)"
  let ?B = "tried env L w pre bs0"
  let ?note = "\<lambda>st. audit_update env (wp_operation w)
            (\<lambda>_. [(''rollback_state'', SqlText st),
                  (''pre_workspace_path'', SqlText (manifest_path (wp_operation w) ''before''))])"
  let ?restored = "mbind (attempt (journal_write env FailedRecovered None)) (\<lambda>r1.
             case r1 of
               Inl e1 \<Rightarrow> mret (False, Inl e1)
             | Inr _ \<Rightarrow>
                 mbind (attempt (?note ''failed_recovered'')) (\<lambda>r2.
                   mret (True, case r2 of Inl e2 \<Rightarrow> Inl e2 | Inr _ \<Rightarrow> Inl (MutationError ''failed_recovered''))))"
  let ?stuck = "mbind (attempt (mbind (journal_write env RecoveryRequired None) (\<lambda>_. ?note ''recovery_required''))) (\<lambda>r2.
             mret (False, case r2 of Inl e2 \<Rightarrow> Inl e2 | Inr _ \<Rightarrow> Inl (MutationError ''recovery_required'')))"
  fix u v' assume u: "unwritten env L w pre bs0 v'"
  have written: "moves wseen v' (journal_write env FailedRecovered None) (\<lambda>_. unwritten env L w pre bs0) (unwritten env L w pre bs0)"
    by (rule journal_phase [OF assms(1)], rule u) (use u in \<open>auto simp: unwritten_def\<close>)
  have noted: "moves wseen x (mbind (attempt (?note s)) (\<lambda>r2.
       mret (b, case r2 of Inl e2 \<Rightarrow> Inl e2 | Inr _ \<Rightarrow> Inl (MutationError t)))) ?A ?B"
    if "unwritten env L w pre bs0 x" for x s b t
    by (rule moves_attempt_then [OF stays_update [OF assms(1)]]) (use that in \<open>auto intro!: moves_ret simp: phases\<close>)
  have "moves wseen v' ?restored ?A ?B"
    by (rule moves_attempt_then [OF written], simp only: sum.case, rule noted, assumption,
        simp only: sum.case, rule moves_ret, simp add: phases)
  then show "moves wseen v' (case Inr u of Inl re \<Rightarrow> ?stuck | Inr _ \<Rightarrow> ?restored) ?A ?B" unfolding sum.case .
next
  let ?A = "\<lambda>(b, out) v'. tried env L w pre bs0 v' \<and> (\<exists>e. out = Inl e)"
  let ?B = "tried env L w pre bs0"
  fix e v'
  assume "tried env L w pre bs0 v' \<and> (\<exists>l j b. v' = (l, Some j, b) \<and> j_state j \<noteq> FailedRecovered)"
  note r = recovery_required_phase [OF assms(1) this stays_update [OF assms(1)]]
  show "moves wseen v' (case Inl e of
        Inl re \<Rightarrow> mbind (attempt (mbind (journal_write env RecoveryRequired None) (\<lambda>_. audit_update env (wp_operation w)
            (\<lambda>_. [(''rollback_state'', SqlText ''recovery_required''),
                  (''pre_workspace_path'', SqlText (manifest_path (wp_operation w) ''before''))])))) (\<lambda>r2.
             mret (False, case r2 of Inl e2 \<Rightarrow> Inl e2 | Inr _ \<Rightarrow> Inl (MutationError ''recovery_required'')))
      | Inr x \<Rightarrow> m x) ?A ?B" for m
    unfolding sum.case by (rule moves_attempt_then [OF r]) (auto intro!: moves_ret)
qed

text \<open>A run of a prepared write: it ends without a journal, or as every write does.\<close>

definition write_tried :: "mut_env \<Rightarrow> live \<Rightarrow> write_plan \<Rightarrow> write_view \<Rightarrow> bool" where
  "write_tried env L w v' \<longleftrightarrow> (\<exists>pre bs. captured (mu_hist env) L (wp_path w) pre bs \<and> tried env L w pre bs v')"

definition write_ended :: "mut_env \<Rightarrow> live \<Rightarrow> journal option \<Rightarrow> write_plan \<Rightarrow> write_view \<Rightarrow> bool" where
  "write_ended env L J w v' \<longleftrightarrow> (\<exists>b. v' = (L, J, b)) \<or> write_tried env L w v'"

definition write_result :: "mut_env \<Rightarrow> live \<Rightarrow> write_plan \<Rightarrow> 'r res \<Rightarrow> write_view \<Rightarrow> bool" where
  "write_result env L w out v' \<longleftrightarrow> (\<forall>x. out = Inr x \<longrightarrow> (\<exists>pre. completed env L w pre v'))"

lemma begun_write_state: "j_state (begun_write env w pre) = Applying"
  by (simp add: begun_write_def fresh_journal_def)

lemma run_write_file_moves:
  assumes "no_interference (mu_tx env)" "planned L w"
  shows "moves wseen (L, J, bs0) (run_write_file env rq w)
    (\<lambda>(b, out) v'. write_ended env L J w v' \<and> write_result env L w out v' \<and> (b \<longrightarrow> write_tried env L w v'))
    (write_ended env L J w)"
    (is "moves wseen ?v _ ?A ?B")
proof -
  have begun: "moves wseen (L, Some (begun_write env w pre), bs) (mbind (attempt (commit_write env w)) (\<lambda>r.
             case r of
               Inl e \<Rightarrow> unchanged_failure env e
             | Inr native \<Rightarrow>
                 mbind (attempt (hold_write env w native)) (\<lambda>r.
                   case r of
                     Inl e \<Rightarrow> mret (False, Inl e)
                   | Inr committed \<Rightarrow>
                       mbind (attempt (mbind (checked_checkpoint env w) (\<lambda>post.
                                record_success env w post ''file_written'' (wr_result_text rq)
                                  [(''backup_path'', backup)] pre))) (\<lambda>r.
                         case r of
                           Inl e \<Rightarrow> file_changed_failure env w native (Some committed)
                         | Inr result \<Rightarrow> mret (False, Inr result))))) ?A ?B"
    if c: "captured (mu_hist env) L (wp_path w) pre bs" for pre bs backup
  proof -
    let ?u = "(L, Some (begun_write env w pre), bs)"
    let ?P = "in_place env L w pre bs"
    have B: "?B v'" if "tried env L w pre bs v'" for v' using that c unfolding write_ended_def write_tried_def by blast
    have A: "?A (b, out) v'" if "tried env L w pre bs v'" "\<forall>x. out = Inr x \<longrightarrow> completed env L w pre v'" for b out v'
      using that B c unfolding write_result_def write_tried_def by auto
    have u0: "unwritten env L w pre bs ?u" by (simp add: unwritten_def)
    have commit: "moves wseen ?u (commit_write env w) (\<lambda>_. ?P) (\<lambda>v'. v' = ?u)"
      by (rule moves_weaken [OF commit_write_moves [OF assms(1,2)]]) (use begun_write_state in \<open>auto simp: in_place_def\<close>)
    have success: "moves wseen v' (mbind (checked_checkpoint env w) (\<lambda>post.
           record_success env w post ''file_written'' (wr_result_text rq) [(''backup_path'', backup)] pre))
        (\<lambda>_ v'. ?P v' \<and> completed env L w pre v') ?P" if "?P v'" for v'
      by (rule moves_bind [OF checked_checkpoint_moves [OF assms(1) that]]) (rule record_success_moves [OF assms(1)])
    have failed: "moves wseen x m ?A ?B"
      if "moves wseen x m (\<lambda>(b, out) v'. tried env L w pre bs v' \<and> (\<exists>e. out = Inl e)) (tried env L w pre bs)"
      for x and m :: "(work, bool \<times> mutation_result res) op"
      by (rule moves_weaken [OF that]) (use B c in \<open>auto simp: write_result_def write_tried_def\<close>)
    have unchanged: "moves wseen ?u (unchanged_failure env e) ?A ?B" for e
      by (rule failed, rule moves_weaken [OF unchanged_failure_moves [OF assms(1) u0]]) (auto dest: phases(1))
    have changed: "moves wseen v' (file_changed_failure env w native committed) ?A ?B" if "?P v'" for v' native committed
      by (rule failed, rule file_changed_failure_moves [OF assms(1) that])
    have recorded: "moves wseen v' (mbind (attempt (mbind (checked_checkpoint env w) (\<lambda>post.
           record_success env w post ''file_written'' (wr_result_text rq) [(''backup_path'', backup)] pre))) (\<lambda>r.
         case r of
           Inl e \<Rightarrow> file_changed_failure env w native (Some committed)
         | Inr result \<Rightarrow> mret (False, Inr result))) ?A ?B" if "?P v'" for v' native committed
      by (rule moves_attempt_then [OF success [OF that]], simp only: sum.case, rule moves_ret, rule A, simp add: phases,
          simp, simp only: sum.case, rule changed)
    have held: "moves wseen v' (mbind (attempt (hold_write env w native)) (\<lambda>r.
                   case r of
                     Inl e \<Rightarrow> mret (False, Inl e)
                   | Inr committed \<Rightarrow>
                       mbind (attempt (mbind (checked_checkpoint env w) (\<lambda>post.
                                record_success env w post ''file_written'' (wr_result_text rq)
                                  [(''backup_path'', backup)] pre))) (\<lambda>r.
                         case r of
                           Inl e \<Rightarrow> file_changed_failure env w native (Some committed)
                         | Inr result \<Rightarrow> mret (False, Inr result)))) ?A ?B" if P: "?P v'" for v' native
      by (rule moves_attempt_then [OF stays_hold [OF assms(1)]], simp only: sum.case, rule recorded, simp add: P,
          simp only: sum.case, rule moves_ret, rule A, simp add: P phases, simp)
    show ?thesis
      by (rule moves_attempt_then [OF commit], simp only: sum.case, rule held, assumption,
          simp only: sum.case, rule unchanged)
  qed
  have early: "moves wseen v' (mret (False, Inl e)) ?A ?B" if "\<exists>b. v' = (L, J, b)" for v' e
    by (rule moves_ret) (use that in \<open>auto simp: write_ended_def write_result_def\<close>)
  show ?thesis
    unfolding run_write_file_def
    by (rule moves_attempt_then [OF begin_write_file_moves [OF assms(1) refl]])
      (simp only: sum.case, clarify, rule begun, assumption, simp only: sum.case, rule early)
qed

lemma close_write_file_moves:
  assumes "no_interference (mu_tx env)" "write_ended env L J w v" "recovered \<longrightarrow> write_tried env L w v"
  shows "moves wseen v (close_write_file env w recovered e) (\<lambda>_. write_ended env L J w) (write_ended env L J w)"
proof -
  let ?Q = "write_ended env L J w"
  have mark: "moves wseen v (if t \<and> recovered then on_fst (mark_audit_reconciled (mu_hist env)) else mret ()) (\<lambda>_. ?Q) ?Q" for t
  proof (cases "t \<and> recovered")
    case True
    then obtain pre bs where c: "captured (mu_hist env) L (wp_path w) pre bs" "tried env L w pre bs v"
      using assms(3) by (auto simp: write_tried_def)
    have "moves wseen v (on_fst (mark_audit_reconciled (mu_hist env))) (\<lambda>_. tried env L w pre bs) (tried env L w pre bs)"
      by (rule mark_phase [OF assms(1)]) (use c(2) in \<open>auto simp: tried_def\<close>)
    then have "moves wseen v (on_fst (mark_audit_reconciled (mu_hist env))) (\<lambda>_. ?Q) ?Q"
      by (rule moves_weaken) (use c(1) in \<open>auto simp: write_ended_def write_tried_def\<close>)
    then show ?thesis using True by simp
  qed (use assms(2) in \<open>auto intro: moves_ret\<close>)
  show ?thesis
    unfolding close_write_file_def
    by (rule moves_then [OF stays_transition [OF assms(1)]], rule assms(2), rule moves_bind [OF mark])
      (rule moves_weaken [OF stays_event [OF assms(1)]], simp_all)
qed

lemma write_file_moves:
  assumes "no_interference (mu_tx env)" "wr_path rq \<noteq> ''.''"
  shows "moves wseen (L, J, bs) (write_file env rq)
    (\<lambda>_ v'. run_ended env L J (wr_path rq) (encoded (wr_content rq)) v'
       \<and> run_returned env L (wr_path rq) (encoded (wr_content rq)) v')
    (run_ended env L J (wr_path rq) (encoded (wr_content rq)))"
    (is "moves wseen ?v _ ?A ?B")
proof -
  have ended: "?B v'" if "encoded (wr_content rq) = Inr d" "prepared L (wr_path rq) d w" "write_ended env L J w v'" for d w v'
    using that unfolding run_ended_def write_ended_def write_tried_def by (auto simp: prepared_def)
  have prep: "moves wseen ?v (mcatch (prepare_write_file env rq)
        (\<lambda>e. mbind (audit_rejection env (wr_rejected rq) e) (\<lambda>_. mfail e)))
      (\<lambda>w v'. v' = ?v \<and> (\<exists>d. encoded (wr_content rq) = Inr d \<and> prepared L (wr_path rq) d w)) ?B"
    by (rule moves_catch [OF prepare_write_file_moves [OF assms]])
      (rule moves_then [OF stays_rejection [OF assms(1)]], auto intro!: moves_fail simp: run_ended_def)
  show ?thesis
    unfolding write_file_def
  proof (rule moves_bind [OF prep], clarify)
    fix w d assume d: "encoded (wr_content rq) = Inr d" "prepared L (wr_path rq) d w"
    have pl: "planned L w" using d(2) by (simp add: prepared_def)
    show "moves wseen (L, J, bs) (mbind (run_write_file env rq w) (\<lambda>(recovered, outcome).
        case outcome of
          Inr result \<Rightarrow> mret result
        | Inl e \<Rightarrow> mbind (close_write_file env w recovered e) (\<lambda>_. mfail e))) ?A ?B"
    proof (rule moves_bind [OF moves_weaken [OF run_write_file_moves [OF assms(1) pl]]], assumption, rule ended [OF d], assumption, clarify)
      fix b l j x and out :: "mutation_result res"
      assume e: "write_ended env L J w (l, j, x)" "write_result env L w out (l, j, x)" "b \<longrightarrow> write_tried env L w (l, j, x)"
      show "moves wseen (l, j, x) (case out of
          Inr result \<Rightarrow> mret result
        | Inl e \<Rightarrow> mbind (close_write_file env w b e) (\<lambda>_. mfail e)) ?A ?B"
      proof (cases out)
        case (Inl err)
        show ?thesis
          unfolding Inl sum.case
          by (rule moves_bind [OF moves_weaken [OF close_write_file_moves [OF assms(1) e(1,3)]]], assumption, rule ended [OF d], assumption)
            (rule moves_fail, rule ended [OF d], assumption)
      next
        case (Inr res)
        then obtain pre where "completed env L w pre (l, j, x)" using e(2) unfolding write_result_def by blast
        then have "?A res (l, j, x)" using ended [OF d e(1)] d unfolding run_returned_def by blast
        then show ?thesis unfolding Inr sum.case by (rule moves_ret)
      qed
    qed
  qed
qed

section \<open>The guarantees\<close>

lemma write_file_run:
  assumes "no_interference (mu_tx env)" "wr_path rq \<noteq> ''.''"
    and "write_file env rq (h, db) = ((h', db'), r)"
  shows "run_ended env (tx_live h) (h_journal h) (wr_path rq) (encoded (wr_content rq)) (seen h')
    \<and> (\<forall>x. r = Inr x \<longrightarrow> run_returned env (tx_live h) (wr_path rq) (encoded (wr_content rq)) (seen h'))"
  using movesD [OF write_file_moves [OF assms(1,2)] _ assms(3), of "tx_live h" "h_journal h" "h_blobs h"]
  by (cases r) (auto simp: seen_def)

text \<open>
  C5. \<open>write_file\<close> keeps the same promise as the structured writers, through its own protocol: whatever
  fails and wherever the process ends, the file has its old content or exactly the encoded text and
  nothing else is touched; every change is explained by a journal and its checkpoint; and a call that
  returns has written the text and completed the journal.
\<close>

theorem write_file_safe:
  assumes "no_interference (mu_tx env)" "wr_path rq \<noteq> ''.''"
    and "write_file env rq (h, db) = ((h', db'), r)"
  shows "(as_before (tx_live h) (wr_path rq) (tx_live h')
      \<or> (\<exists>data. utf8_encode (wr_content rq) = Some data \<and> as_after (tx_live h) (wr_path rq) data (tx_live h')))
    \<and> (tx_live h' \<noteq> tx_live h \<longrightarrow> explains_change env (tx_live h) (wr_path rq) h')
    \<and> (\<forall>x. r = Inr x \<longrightarrow>
         (\<exists>data j. utf8_encode (wr_content rq) = Some data \<and> as_after (tx_live h) (wr_path rq) data (tx_live h')
            \<and> h_journal h' = Some j \<and> j_state j = Complete \<and> j_reconciled j))"
proof -
  have "encoded (wr_content rq) = Inr d \<longleftrightarrow> utf8_encode (wr_content rq) = Some d" for d
    by (simp add: encoded_def split: option.split)
  then show ?thesis using run_guarantee [OF write_file_run [OF assms]] by simp
qed

section \<open>A concrete write\<close>

definition demo_write_request :: write_request where
  "demo_write_request =
     \<lparr>wr_path = ''d/a'', wr_content = [66, 67], wr_expected = Some (length_sha [65]), wr_row = demo_new ''w'',
      wr_rejected = demo_new ''x'', wr_result_text = ''r''\<rparr>"

abbreviation demo_write :: "(nat \<Rightarrow> tx_event) \<Rightarrow> work \<times> mutation_result res" where
  "demo_write events \<equiv> write_file (demo_mut_env events) demo_write_request demo_work"

lemma write_file_safe_witness:
  "as_after (tx_live demo_hist) ''d/a'' [66, 67] (tx_live (fst (fst (demo_write quiet))))"
proof -
  obtain h' db' r where m: "demo_write quiet = ((h', db'), r)" by (metis surj_pair)
  have "case snd (demo_write quiet) of Inr x \<Rightarrow> True | Inl e \<Rightarrow> False" by code_simp
  then obtain x where r: "r = Inr x" unfolding m by (auto split: sum.splits)
  have p: "wr_path demo_write_request \<noteq> ''.''" by (simp add: demo_write_request_def)
  have u: "utf8_encode (wr_content demo_write_request) = Some [66, 67]" by code_simp
  from write_file_safe [OF demo_no_interference(2) p m [unfolded demo_work_def r]] u show ?thesis
    unfolding m by (auto simp: demo_write_request_def)
qed

text \<open>
  When the check of the file \<open>write_file\<close> has just written fails, nothing undoes the write: the new
  bytes stay, the audit row says failed, and the journal stays in the applying state, so that every
  later mutation is refused until a restart.
\<close>

theorem unverified_write_blocks_later:
  "write_outcome ''d/a'' ''w'' (demo_write (fault_at 16)) = ([66, 67], Some Applying, Some (SqlText ''failed'', Null), False)
   \<and> snd (require_mutation_ready (demo_mut_env quiet) (fst (demo_write (fault_at 16))))
     = Inl (RuntimeError ''workspace mutation is blocked because an interrupted restore requires recovery'')"
  by code_simp

text \<open>
  The last event of a write again: the audit row ends as a success that was recovered, which no reader
  of the row can interpret.
\<close>

lemma late_write_event_failure:
  "write_outcome ''d/a'' ''w'' (demo_write (fault_at 24))
     = ([65], Some FailedRecovered, Some (SqlText ''succeeded'', SqlText ''failed_recovered''), False)"
  by code_simp

end
