(* ===== verification/Primitives.thy ===== *)
theory Primitives
  imports Mutation Recovery
begin

text \<open>
  The filesystem primitives of \<open>server.py\<close>: move, copy and delete a file, make directories. Each looks
  at its paths, binds what it saw, and runs one commit of the path broker between a journal that names
  the state before and the state aimed at, and the check that the second was reached.
\<close>

section \<open>One effect through checkpoint, journal and recovery\<close>

record primitive =
  pm_tool :: string
  pm_reason :: utext
  pm_row :: new_operation
  pm_rejected :: new_operation
  pm_scope :: "string list"
  pm_changes :: "(string \<times> bytes) list"
  pm_deletions :: "string list"
  pm_directories :: "string list"
  pm_result_text :: string

definition build_target :: "mut_env \<Rightarrow> primitive \<Rightarrow> manifest \<Rightarrow> (work, manifest) op" where
  "build_target env pm before =
     on_fst (mbind (arrive (mu_tx env)) (\<lambda>_. mbind (mget h_blobs) (\<lambda>bs.
       mbind (mlift (build_workspace_target (tx_sha (mu_tx env)) (he_max_data (mu_hist env)) (he_data_size (mu_hist env))
                       bs before (pm_changes pm) (pm_deletions pm) (pm_directories pm) [])) (\<lambda>(target, bs').
       mbind (mput (\<lambda>s. s\<lparr>h_blobs := bs'\<rparr>)) (\<lambda>_. mret target)))))"

text \<open>Until there is an audit row, a failure is a rejected request.\<close>

definition admit_primitive :: "mut_env \<Rightarrow> primitive \<Rightarrow> (work, string) op" where
  "admit_primitive env pm =
     mbind (mlift (mu_healthy env)) (\<lambda>_.
     mbind (require_mutation_ready env) (\<lambda>_.
     mbind (mcheck (length (pm_reason pm) \<le> mu_max_reason env) (ValueError ''reason exceeds max_reason_characters'')) (\<lambda>_.
       audit_create env ((pm_row pm)\<lparr>no_status := ''running''\<rparr>))))"

text \<open>Checkpoint, target and journal; until the journal is written nothing has to be undone.\<close>

definition begin_primitive :: "mut_env \<Rightarrow> primitive \<Rightarrow> string \<Rightarrow> (work, manifest \<times> state_map) op" where
  "begin_primitive env pm k =
     mbind (on_fst (capture_workspace_state (mu_hist env) (Some (pm_scope pm)))) (\<lambda>pre.
     mbind (audit_update env k (\<lambda>_. [(''pre_workspace_path'', SqlText (manifest_path k ''before''))])) (\<lambda>_.
     mbind (build_target env pm pre) (\<lambda>target.
     mbind (on_fst (checkpoint_states (mu_hist env) target)) (\<lambda>target_state.
     mbind (on_fst (begin_filesystem_primitive_transaction (mu_hist env) pre target (pm_scope pm) (pm_tool pm))) (\<lambda>_.
       mret (pre, target_state))))))"

definition perform_primitive ::
  "mut_env \<Rightarrow> primitive \<Rightarrow> string \<Rightarrow> (hist, unit) op \<Rightarrow> (hist, unit) op \<Rightarrow> manifest \<Rightarrow> state_map \<Rightarrow>
   (work, change_summary) op" where
  "perform_primitive env pm k commit post_verify pre target_state =
     mbind (audit_event env k ''filesystem_primitive_commit_started'' (int (length (pm_tool pm)))) (\<lambda>_.
     mbind (on_fst commit) (\<lambda>_.
     mbind (on_fst post_verify) (\<lambda>_.
     mbind (on_fst (capture_workspace_state (mu_hist env) (Some (pm_scope pm)))) (\<lambda>post.
     mbind (on_fst (checkpoint_states (mu_hist env) post)) (\<lambda>post_state.
     mbind (mcheck (same_state post_state target_state)
              (RuntimeError ''filesystem primitive postcondition does not match target manifest'')) (\<lambda>_.
     mbind (summarize env pre post) (\<lambda>changes.
     mbind (on_fst (update_filesystem_primitive_transaction (mu_hist env) AppliedVerified)) (\<lambda>_.
     mbind (audit_transition env k [''running'']
              (\<lambda>now. [(''status'', SqlText ''succeeded''), (''finished_at'', SqlTime now),
                      (''diff_path'', SqlText (diff_path k)),
                      (''pre_workspace_path'', SqlText (manifest_path k ''before'')),
                      (''post_workspace_path'', SqlText (manifest_path k ''after'')),
                      (''rollback_state'', SqlText ''complete''), (''result_json'', SqlText (pm_result_text pm))])) (\<lambda>_.
     mbind (on_fst (finalize_workspace_transaction (mu_hist env))) (\<lambda>_.
     mbind (audit_event env k ''filesystem_primitive_committed'' (int (length (pm_result_text pm)))) (\<lambda>_.
       mret changes)))))))))))"

text \<open>
  After a failure: whether the journal's rollback went through, and what is raised. The second handler
  runs as well when the rollback went through and only its note in the audit row failed.
\<close>

definition undo_primitive :: "mut_env \<Rightarrow> string \<Rightarrow> (work, bool \<times> error) op" where
  "undo_primitive env k =
     (let refuse = (\<lambda>recovered.
            mbind (on_fst (update_filesystem_primitive_transaction (mu_hist env) RecoveryRequired)) (\<lambda>_.
            mbind (audit_update env k (\<lambda>_. [(''rollback_state'', SqlText ''recovery_required'')])) (\<lambda>_.
              mret (recovered, MutationError ''recovery_required''))))
      in mbind (attempt (on_fst (rollback_filesystem_primitive_transaction (mu_hist env)))) (\<lambda>r.
       case r of
         Inl _ \<Rightarrow> refuse False
       | Inr _ \<Rightarrow>
           mbind (attempt (audit_update env k (\<lambda>_. [(''rollback_state'', SqlText ''failed_recovered'')]))) (\<lambda>r2.
             case r2 of Inl _ \<Rightarrow> refuse True | Inr _ \<Rightarrow> mret (True, MutationError ''failed_recovered''))))"

definition close_primitive :: "mut_env \<Rightarrow> string \<Rightarrow> bool \<Rightarrow> error \<Rightarrow> (work, 'r) op" where
  "close_primitive env k recovered e =
     mbind (audit_transition env k [''running'']
              (\<lambda>now. [(''status'', SqlText ''failed''), (''finished_at'', SqlTime now),
                      (''error'', SqlText (mu_error_text env e))])) (\<lambda>transitioned.
     mbind (if transitioned \<and> recovered then on_fst (mark_audit_reconciled (mu_hist env)) else mret ()) (\<lambda>_.
     mbind (audit_event env k ''filesystem_primitive_failed'' 1000) (\<lambda>_. mfail e)))"

definition run_filesystem_primitive ::
  "mut_env \<Rightarrow> primitive \<Rightarrow> (hist, unit) op \<Rightarrow> (hist, unit) op \<Rightarrow> (work, change_summary) op" where
  "run_filesystem_primitive env pm commit post_verify =
     mbind (mcatch (admit_primitive env pm)
              (\<lambda>e. mbind (audit_rejection env (pm_rejected pm) e) (\<lambda>_. mfail e))) (\<lambda>k.
     mbind (attempt (begin_primitive env pm k)) (\<lambda>r.
       case r of
         Inl e \<Rightarrow> close_primitive env k False e
       | Inr (pre, target_state) \<Rightarrow>
           mcatch (perform_primitive env pm k commit post_verify pre target_state)
             (\<lambda>_. mbind (undo_primitive env k) (\<lambda>(recovered, e). close_primitive env k recovered e))))"

section \<open>What the tools look at\<close>

record primitive_request =
  pq_source :: string
  pq_target :: string
  pq_expected :: string
  pq_parents :: bool
  pq_reason :: utext
  pq_row :: new_operation
  pq_rejected :: new_operation
  pq_result_text :: string

text \<open>\<open>Workspace.identity\<close> of a name in any case: the namespace ignores case.\<close>

definition folded_identity :: "tx_env \<Rightarrow> live \<Rightarrow> string \<Rightarrow> path_identity option" where
  "folded_identity tx live p =
     (case List.filter (\<lambda>(q, _). tx_fold tx q = tx_fold tx p) live of
        [] \<Rightarrow> None | (_, n) # _ \<Rightarrow> Some (node_identity n))"

definition digest_of :: "tx_env \<Rightarrow> bytes \<Rightarrow> string \<Rightarrow> string \<Rightarrow> string res" where
  "digest_of tx d expected message =
     (if tx_sha tx d \<noteq> expected then Inl (RuntimeError message) else Inr (tx_sha tx d))"

definition prepare_tool :: "mut_env \<Rightarrow> (work, unit) op" where
  "prepare_tool env = mbind (mlift (mu_healthy env)) (\<lambda>_. require_mutation_ready env)"

text \<open>A tool that fails before it delegates is rejected.\<close>

definition or_rejected :: "mut_env \<Rightarrow> primitive_request \<Rightarrow> (work, 'a) op \<Rightarrow> (work, 'a) op" where
  "or_rejected env pq m = mcatch m (\<lambda>e. mbind (audit_rejection env (pq_rejected pq) e) (\<lambda>_. mfail e))"

definition primitive_of ::
  "primitive_request \<Rightarrow> string \<Rightarrow> string list \<Rightarrow> (string \<times> bytes) list \<Rightarrow> string list \<Rightarrow> string list \<Rightarrow> primitive" where
  "primitive_of pq tool paths changed deleted dirs =
     \<lparr>pm_tool = tool, pm_reason = pq_reason pq, pm_row = pq_row pq, pm_rejected = pq_rejected pq, pm_scope = paths,
      pm_changes = changed, pm_deletions = deleted, pm_directories = dirs, pm_result_text = pq_result_text pq\<rparr>"

section \<open>move\_file\<close>

record moving =
  mo_source :: path_identity
  mo_source_parent :: path_identity
  mo_target_parent :: path_identity
  mo_data :: bytes
  mo_sha :: string

definition case_only_move :: "tx_env \<Rightarrow> string \<Rightarrow> string \<Rightarrow> bool" where
  "case_only_move tx a b \<longleftrightarrow> tx_fold tx a = tx_fold tx b \<and> a \<noteq> b"

definition look_move :: "mut_env \<Rightarrow> primitive_request \<Rightarrow> live \<Rightarrow> moving res" where
  "look_move env pq live =
     (let tx = mu_tx env; src = pq_source pq; dst = pq_target pq in
      rbind (resolve_write_target tx live src) (\<lambda>_.
      rbind (resolve_write_target tx live dst) (\<lambda>_.
      case (live_identity tx live src, live_identity tx live (parent_of src), live_identity tx live (parent_of dst)) of
        (Some si, Some sp, Some dp) \<Rightarrow>
          rbind (read_path_bytes live src (mu_max_backup env)) (\<lambda>d.
          rbind (digest_of tx d (pq_expected pq) ''expected_source_sha256 mismatch'') (\<lambda>sha.
          if folded_identity tx live dst \<noteq> None
             \<and> (\<not> case_only_move tx src dst \<or> folded_identity tx live dst \<noteq> Some si)
          then Inl (FileExists ''move destination already exists'')
          else Inr \<lparr>mo_source = si, mo_source_parent = sp, mo_target_parent = dp, mo_data = d, mo_sha = sha\<rparr>))
      | _ \<Rightarrow> Inl (FileNotFound ''move source or destination parent is unavailable''))))"

definition prepare_move :: "mut_env \<Rightarrow> primitive_request \<Rightarrow> (work, moving) op" where
  "prepare_move env pq =
     mbind (prepare_tool env) (\<lambda>_.
     mbind (mcheck (pq_source pq \<noteq> pq_target pq)
              (ValueError ''source_path and destination_path must not be identical'')) (\<lambda>_.
     mbind (on_fst (looks env (\<lambda>live. rbind (resolve_write_target (mu_tx env) live (pq_source pq))
              (\<lambda>_. resolve_write_target (mu_tx env) live (pq_target pq))))) (\<lambda>_.
     mbind (on_fst (arrive (mu_tx env))) (\<lambda>_.   \<comment> \<open>\<open>WorkspaceExecutionLock\<close>\<close>
       on_fst (looks env (look_move env pq))))))"

definition move_file :: "mut_env \<Rightarrow> primitive_request \<Rightarrow> (work, change_summary) op" where
  "move_file env pq =
     mbind (or_rejected env pq (prepare_move env pq)) (\<lambda>mo.
       run_filesystem_primitive env
         (primitive_of pq ''move_file'' [pq_source pq, pq_target pq] [(pq_target pq, mo_data mo)] [pq_source pq] [])
         (commit_move (mu_tx env) (pq_source pq) (pq_target pq) (mo_source_parent mo) (mo_target_parent mo)
            (mo_source mo) (mo_sha mo))
         (mret ()))"

section \<open>copy\_file\<close>

definition look_copy :: "mut_env \<Rightarrow> primitive_request \<Rightarrow> live \<Rightarrow> moving res" where
  "look_copy env pq live =
     (let tx = mu_tx env; src = pq_source pq; dst = pq_target pq in
      rbind (resolve_existing_file live src) (\<lambda>_.
      rbind (resolve_write_target tx live dst) (\<lambda>_.
      if path_exists tx live dst then Inl (FileExists ''copy destination already exists'')
      else case (live_identity tx live src, live_identity tx live (parent_of src), live_identity tx live (parent_of dst)) of
        (Some si, Some sp, Some dp) \<Rightarrow>
          rbind (read_path_bytes live src (mu_max_backup env)) (\<lambda>d.
          rbind (digest_of tx d (pq_expected pq) ''expected_source_sha256 mismatch'') (\<lambda>sha.
          if tx_fold tx src = tx_fold tx dst then Inl (ValueError ''copy source and destination must not alias'')
          else Inr \<lparr>mo_source = si, mo_source_parent = sp, mo_target_parent = dp, mo_data = d, mo_sha = sha\<rparr>))
      | _ \<Rightarrow> Inl (RuntimeError ''copy source or destination parent disappeared''))))"

definition prepare_copy :: "mut_env \<Rightarrow> primitive_request \<Rightarrow> (work, moving) op" where
  "prepare_copy env pq =
     mbind (prepare_tool env) (\<lambda>_.
     mbind (on_fst (looks env (\<lambda>live. rbind (resolve_existing_file live (pq_source pq))
              (\<lambda>_. resolve_write_target (mu_tx env) live (pq_target pq))))) (\<lambda>_.
     mbind (on_fst (arrive (mu_tx env))) (\<lambda>_.   \<comment> \<open>\<open>WorkspaceExecutionLock\<close>\<close>
     mbind (on_fst (looks env (look_copy env pq))) (\<lambda>mo.
     mbind (on_fst (mget (\<lambda>s. enforce_data_quota (he_max_data (mu_hist env)) (he_data_size (mu_hist env) (h_blobs s))
                                (int (length (mo_data mo)))))) (\<lambda>quota.
     mbind (mlift quota) (\<lambda>_. mret mo))))))"

definition source_unchanged :: "mut_env \<Rightarrow> primitive_request \<Rightarrow> moving \<Rightarrow> (hist, unit) op" where
  "source_unchanged env pq mo =
     looks env (\<lambda>live. if live_identity (mu_tx env) live (pq_source pq) \<noteq> Some (mo_source mo)
                       then Inl (RuntimeError ''copy source identity changed before completion'') else Inr ())"

definition copy_file :: "mut_env \<Rightarrow> primitive_request \<Rightarrow> (work, change_summary) op" where
  "copy_file env pq =
     mbind (or_rejected env pq (prepare_copy env pq)) (\<lambda>mo.
       run_filesystem_primitive env
         (primitive_of pq ''copy_file'' [pq_target pq] [(pq_target pq, mo_data mo)] [] [])
         (commit_copy (mu_tx env) (pq_source pq) (pq_target pq) (mo_source_parent mo) (mo_target_parent mo)
            (mo_source mo) (mo_sha mo) (mu_max_backup env))
         (source_unchanged env pq mo))"

section \<open>delete\_file\<close>

record deleting =
  de_target :: path_identity
  de_parent :: path_identity
  de_sha :: string

definition look_delete :: "mut_env \<Rightarrow> primitive_request \<Rightarrow> live \<Rightarrow> deleting res" where
  "look_delete env pq live =
     (let tx = mu_tx env; p = pq_target pq in
      rbind (resolve_write_target tx live p) (\<lambda>_.
      case (live_identity tx live p, live_identity tx live (parent_of p)) of
        (Some ti, Some pi) \<Rightarrow>
          rbind (read_path_bytes live p (mu_max_backup env)) (\<lambda>d.
          rbind (digest_of tx d (pq_expected pq) ''expected_sha256 mismatch'') (\<lambda>sha.
            Inr \<lparr>de_target = ti, de_parent = pi, de_sha = sha\<rparr>))
      | _ \<Rightarrow> Inl (FileNotFound ''delete target is absent'')))"

definition prepare_delete :: "mut_env \<Rightarrow> primitive_request \<Rightarrow> (work, deleting) op" where
  "prepare_delete env pq =
     mbind (prepare_tool env) (\<lambda>_.
     mbind (on_fst (looks env (\<lambda>live. resolve_write_target (mu_tx env) live (pq_target pq)))) (\<lambda>_.
     mbind (on_fst (arrive (mu_tx env))) (\<lambda>_.   \<comment> \<open>\<open>WorkspaceExecutionLock\<close>\<close>
       on_fst (looks env (look_delete env pq)))))"

definition delete_file :: "mut_env \<Rightarrow> primitive_request \<Rightarrow> (work, change_summary) op" where
  "delete_file env pq =
     mbind (or_rejected env pq (prepare_delete env pq)) (\<lambda>de.
       run_filesystem_primitive env
         (primitive_of pq ''delete_file'' [pq_target pq] [] [pq_target pq] [])
         (commit_delete (mu_tx env) (pq_target pq) (de_parent de) (de_target de) (de_sha de))
         (mret ()))"

section \<open>make\_directory\<close>

text \<open>\<open>Workspace.resolve_directory_target\<close>, component by component from the root.\<close>

fun check_directory_parts :: "bool \<Rightarrow> live \<Rightarrow> bool \<Rightarrow> string list \<Rightarrow> unit res" where
  "check_directory_parts make_parents live missing_seen [] = Inr ()"
| "check_directory_parts make_parents live missing_seen (p # ps) =
     (case map_of live p of
        None \<Rightarrow>
          if \<not> make_parents \<and> ps \<noteq> [] then Inl (FileNotFound ''directory parent does not exist'')
          else check_directory_parts make_parents live True ps
      | Some n \<Rightarrow>
          if missing_seen then Inl (RuntimeError ''directory chain changed during validation'')
          else case n of
            LiveReparse _ _ \<Rightarrow> Inl (PermissionError ''symlink, junction, or reparse point is denied'')
          | LiveFile _ _ _ \<Rightarrow> Inl (NotADirectory ''directory path collides with a file'')
          | LiveDir _ \<Rightarrow> check_directory_parts make_parents live False ps)"

definition resolve_made_directory :: "live \<Rightarrow> string \<Rightarrow> bool \<Rightarrow> unit res" where
  "resolve_made_directory live p make_parents = check_directory_parts make_parents live False (path_chain p)"

text \<open>From the target upwards while nothing is there; the topmost missing one first.\<close>

definition missing_chain :: "live \<Rightarrow> string \<Rightarrow> string list" where
  "missing_chain live p = rev (takeWhile (\<lambda>q. map_of live q = None) (rev (path_chain p)))"

definition look_directory ::
  "mut_env \<Rightarrow> primitive_request \<Rightarrow> live \<Rightarrow> (string list \<times> string \<times> path_identity) res" where
  "look_directory env pq live =
     (let p = pq_target pq; missing = missing_chain live p; current = nearest_existing (path_chain p) missing in
      if map_of live p \<noteq> None then Inl (FileExists ''directory already exists'')
      else if missing = [] then Inl (RuntimeError ''directory creation has no bounded mutation'')
      else if he_max_files (mu_hist env) < int (length missing)
      then Inl (ValueError ''directory chain exceeds approval_manifest_max_files'')
      else case live_identity (mu_tx env) live current of
        None \<Rightarrow> Inl (RuntimeError ''nearest directory parent disappeared'')
      | Some i \<Rightarrow> Inr (missing, current, i))"

definition recheck_directory ::
  "mut_env \<Rightarrow> primitive_request \<Rightarrow> string list \<Rightarrow> string \<Rightarrow> path_identity \<Rightarrow> live \<Rightarrow> unit res" where
  "recheck_directory env pq missing current i live =
     rbind (resolve_made_directory live (pq_target pq) (pq_parents pq)) (\<lambda>_.
       if list_ex (\<lambda>q. map_of live q \<noteq> None) missing
       then Inl (FileExists ''directory target changed during validation'')
       else if live_identity (mu_tx env) live current \<noteq> Some i
       then Inl (RuntimeError ''directory parent changed during validation'') else Inr ())"

definition prepare_directory :: "mut_env \<Rightarrow> primitive_request \<Rightarrow> (work, string list \<times> path_identity) op" where
  "prepare_directory env pq =
     mbind (prepare_tool env) (\<lambda>_.
     mbind (on_fst (looks env (\<lambda>live. resolve_made_directory live (pq_target pq) (pq_parents pq)))) (\<lambda>_.
     mbind (on_fst (looks env (look_directory env pq))) (\<lambda>(missing, current, i).
     mbind (on_fst (arrive (mu_tx env))) (\<lambda>_.   \<comment> \<open>\<open>WorkspaceExecutionLock\<close>\<close>
     mbind (on_fst (looks env (recheck_directory env pq missing current i))) (\<lambda>_. mret (missing, i))))))"

definition commit_made_directories ::
  "mut_env \<Rightarrow> primitive_request \<Rightarrow> string list \<Rightarrow> path_identity \<Rightarrow> (hist, unit) op" where
  "commit_made_directories env pq missing i =
     mbind (commit_directories (mu_tx env) (pq_target pq) (pq_parents pq) i) (\<lambda>created.
       mcheck (set created = set missing) (RuntimeError ''directory transaction created an unexpected path set''))"

definition make_directory :: "mut_env \<Rightarrow> primitive_request \<Rightarrow> (work, change_summary) op" where
  "make_directory env pq =
     mbind (or_rejected env pq (prepare_directory env pq)) (\<lambda>(missing, i).
       run_filesystem_primitive env
         (primitive_of pq ''make_directory'' missing [] [] missing)
         (commit_made_directories env pq missing i)
         (mret ()))"

end
