(* ===== verification/Primitive_Safety.thy ===== *)
theory Primitive_Safety
  imports Primitives Mutation_Safety
begin

text \<open>
  What the filesystem primitives do when nobody else changes the workspace: one that returns made
  exactly its change and closed its journal; one that changed anything at all left a journal from which
  the change can be undone, and a journal that says recovered tells the truth.
\<close>

section \<open>The journal of a primitive\<close>

definition about :: "manifest \<Rightarrow> manifest \<Rightarrow> string list \<Rightarrow> journal \<Rightarrow> bool" where
  "about pre target C j \<longleftrightarrow>
     j_kind j = ''filesystem_primitive'' \<and> j_before j = Some pre \<and> j_target j = Some target \<and> j_changed j = C"

lemma about_upd [simp]:
  "about pre target C (j\<lparr>j_state := st\<rparr>) = about pre target C j"
  "about pre target C (j\<lparr>j_reconciled := b\<rparr>) = about pre target C j"
  "about pre target C (j\<lparr>j_state := st, j_reconciled := b\<rparr>) = about pre target C j"
  "about pre target C (j\<lparr>j_applied := ps\<rparr>) = about pre target C j"
  "about pre target C (j\<lparr>j_created := ps\<rparr>) = about pre target C j"
  by (simp_all add: about_def)

text \<open>Every path of the primitive is as the checkpoint before it has it.\<close>

definition undone :: "hist_env \<Rightarrow> manifest \<Rightarrow> string list \<Rightarrow> live \<Rightarrow> bool" where
  "undone env pre C live \<longleftrightarrow>
     (\<exists>st. scan_live env (mf_scope pre) live = Inr st \<and> (\<forall>p\<in>set C. map_of st p = map_of (state_map pre) p))"

text \<open>
  The journal does not claim a recovery; the copy in memory does not either; the journal claims it and
  it is so.
\<close>

definition unclaimed :: "manifest \<Rightarrow> manifest \<Rightarrow> string list \<Rightarrow> hist \<Rightarrow> bool" where
  "unclaimed pre target C s \<longleftrightarrow>
     about pre target C (h_mem s) \<and> (\<exists>j. h_journal s = Some j \<and> about pre target C j \<and> j_state j \<noteq> FailedRecovered)"

definition pending :: "manifest \<Rightarrow> manifest \<Rightarrow> string list \<Rightarrow> hist \<Rightarrow> bool" where
  "pending pre target C s \<longleftrightarrow> unclaimed pre target C s \<and> j_state (h_mem s) \<noteq> FailedRecovered"

definition reverted :: "hist_env \<Rightarrow> manifest \<Rightarrow> manifest \<Rightarrow> string list \<Rightarrow> hist \<Rightarrow> bool" where
  "reverted env pre target C s \<longleftrightarrow>
     about pre target C (h_mem s) \<and> j_state (h_mem s) = FailedRecovered
     \<and> (\<exists>j. h_journal s = Some j \<and> about pre target C j) \<and> undone env pre C (tx_live s)"

definition accounted :: "hist_env \<Rightarrow> manifest \<Rightarrow> manifest \<Rightarrow> string list \<Rightarrow> hist \<Rightarrow> bool" where
  "accounted env pre target C s \<longleftrightarrow>
     about pre target C (h_mem s)
     \<and> (\<exists>j. h_journal s = Some j \<and> about pre target C j \<and> (j_state j = FailedRecovered \<longrightarrow> undone env pre C (tx_live s)))"

lemma accounted_cases:
  "unclaimed pre target C s \<Longrightarrow> accounted env pre target C s"
  "pending pre target C s \<Longrightarrow> accounted env pre target C s"
  "reverted env pre target C s \<Longrightarrow> accounted env pre target C s"
  by (auto simp: unclaimed_def pending_def reverted_def accounted_def)

interpretation pending: journal_condition "pending pre target C"
  by unfold_locales (auto simp: framed_def pending_def unclaimed_def)

lemma pending_unclaimed: "pending pre target C s \<Longrightarrow> unclaimed pre target C s"
  by (simp add: pending_def)

lemma hoare_get_then:
  "(\<And>x. hoare (\<lambda>s. P s \<and> f s = x) (g x) Q R) \<Longrightarrow> hoare P (mbind (mget f) g) Q R"
  unfolding hoare_def mbind_def mget_def by auto

lemma hoare_lift_then:
  assumes "\<And>e. r = Inl e \<Longrightarrow> \<forall>s. P s \<longrightarrow> R e s" "\<And>x. r = Inr x \<Longrightarrow> hoare P (g x) Q R"
  shows "hoare P (mbind (mlift r) g) Q R"
  using assms unfolding hoare_def mbind_def mlift_def by (cases r) auto

lemma hoare_false: "hoare (\<lambda>_. False) m Q R"
  by (simp add: hoare_def)

lemma keeps_unclaimed_arrive: "keeps (unclaimed pre target C) (arrive tx)"
  by (rule keeps_arrive) (simp add: framed_def unclaimed_def)

lemma load_pending:
  "hoare (unclaimed pre target C) (load_journal env)
     (\<lambda>_ s. pending pre target C s \<and> h_journal s = Some (h_mem s)) (\<lambda>_. unclaimed pre target C)"
proof -
  note a = keeps_unclaimed_arrive [unfolded keeps_hoare]
  show ?thesis
    unfolding load_journal_def
    by (rule hoare_bind [OF a], rule hoare_get_then, rule hoare_option)
      (auto intro!: hoare_fail hoare_put simp: unclaimed_def pending_def)
qed

lemma scan_pending:
  "hoare (pending pre target C) (scan_current_state env sc)
     (\<lambda>st s. pending pre target C s \<and> scan_live env sc (tx_live s) = Inr st) (\<lambda>_. pending pre target C)"
proof -
  note a = pending.keeps_steps(1) [unfolded keeps_hoare]
  show ?thesis
    unfolding scan_current_state_def
    by (rule hoare_bind [OF a], rule hoare_get_then, rule hoare_lift) auto
qed

lemma checkpoint_pending:
  assumes "\<And>st. st = state_map m \<Longrightarrow> hoare P (g st) Q R" "\<And>e s. P s \<Longrightarrow> R e s"
  shows "hoare P (mbind (checkpoint_states env m) g) Q R"
proof (rule hoareI)
  fix s assume P: "P s"
  obtain t r where t: "checkpoint_states env m s = (t, r)" by fastforce
  have same: "t = s" using t by (auto simp: checkpoint_states_def op_simps)
  {
    fix s' x assume m: "mbind (checkpoint_states env m) g s = (s', Inr x)"
    then obtain st where "r = Inr st" "g st s = (s', Inr x)" using t same by (auto simp: op_simps)
    then show "Q x s'" using assms(1) [of st] checkpoint_states_eq [of env m s t st] t P by (auto dest: hoareD1)
  next
    fix s' e assume m: "mbind (checkpoint_states env m) g s = (s', Inl e)"
    then consider "r = Inl e" "s' = s" | st where "r = Inr st" "g st s = (s', Inl e)"
      using t same by (auto simp: op_simps)
    then show "R e s'"
    proof cases
      case (2 st)
      then show ?thesis using assms(1) [of st] checkpoint_states_eq [of env m s t st] t P by (auto dest: hoareD2)
    qed (use assms(2) P in simp)
  }
qed

lemma set_state_pending:
  "st \<noteq> FailedRecovered \<Longrightarrow> hoare (unclaimed pre target C) (set_state env st) (\<lambda>_. pending pre target C) (\<lambda>_. unclaimed pre target C)"
proof -
  assume st: "st \<noteq> FailedRecovered"
  let ?P = "\<lambda>s. unclaimed pre target C s \<and> j_state (h_mem s) = st"
  have a: "hoare ?P (arrive (he_tx env)) (\<lambda>_. ?P) (\<lambda>_. ?P)"
    by (rule keeps_arrive [unfolded keeps_hoare]) (simp add: framed_def unclaimed_def)
  show ?thesis
    unfolding set_state_def update_journal_def set_mem_def write_journal_def
    by (rule hoare_bind [where Q = "\<lambda>_. ?P"], rule hoare_put, simp add: unclaimed_def,
        rule hoare_bind [OF hoare_weaken [OF a, where Q' = "\<lambda>_. ?P" and R' = "\<lambda>_. unclaimed pre target C"]])
      (auto intro!: hoare_put simp: pending_def unclaimed_def st)
qed

lemma set_reverted:
  assumes "no_interference (he_tx env)"
  shows "hoare (\<lambda>s. pending pre target C s \<and> undone env pre C (tx_live s)) (set_state env FailedRecovered)
     (\<lambda>_. reverted env pre target C) (\<lambda>_. unclaimed pre target C)"
proof -
  let ?P = "\<lambda>s. unclaimed pre target C s \<and> j_state (h_mem s) = FailedRecovered \<and> undone env pre C (tx_live s)"
  have a: "hoare ?P (arrive (he_tx env)) (\<lambda>_. ?P) (\<lambda>_. ?P)"
    unfolding keeps_hoare [symmetric]
    using assms
    by (auto simp: keeps_def arrive_def Let_def no_interference_def unclaimed_def split: option.split)
  show ?thesis
    unfolding set_state_def update_journal_def set_mem_def write_journal_def
    by (rule hoare_bind [where Q = "\<lambda>_. ?P"], rule hoare_put, simp add: unclaimed_def pending_def,
        rule hoare_bind [OF hoare_weaken [OF a, where Q' = "\<lambda>_. ?P" and R' = "\<lambda>_. unclaimed pre target C"]])
      (auto intro!: hoare_put simp: reverted_def unclaimed_def)
qed

section \<open>Rolling back\<close>

lemma apply_then:
  assumes "hoare (pending pre target C) g Q (\<lambda>_. unclaimed pre target C)"
  shows "hoare (pending pre target C) (mbind (apply_manifest env b st m only ex ids) (\<lambda>_. g)) Q (\<lambda>_. unclaimed pre target C)"
  by (rule hoare_bind [OF hoare_weaken [OF pending.keeps_apply_manifest [unfolded keeps_hoare],
        where Q' = "\<lambda>_. pending pre target C" and R' = "\<lambda>_. unclaimed pre target C"]])
    (use assms pending_unclaimed in auto)

lemma scan_then:
  assumes "\<And>st. hoare (\<lambda>s. pending pre target C s \<and> scan_live env sc (tx_live s) = Inr st) (g st) Q (\<lambda>_. unclaimed pre target C)"
  shows "hoare (pending pre target C) (mbind (scan_current_state env sc) g) Q (\<lambda>_. unclaimed pre target C)"
  by (rule hoare_bind [OF hoare_weaken [OF scan_pending,
        where Q' = "\<lambda>st s. pending pre target C s \<and> scan_live env sc (tx_live s) = Inr st"
          and R' = "\<lambda>_. unclaimed pre target C"]])
    (use assms pending_unclaimed in auto)

lemma require_recovery_pending:
  "hoare (pending pre target C) (require_recovery env) Q (\<lambda>_. unclaimed pre target C)"
  unfolding require_recovery_def
  by (rule hoare_bind [OF hoare_pre [OF set_state_pending]]) (auto intro!: hoare_fail simp: pending_unclaimed)

lemma matching_scope_Inr: "require_matching_scope a b = Inr sc \<Longrightarrow> sc = mf_scope a"
  by (auto simp: require_matching_scope_def split: if_splits)

text \<open>The common end: look again, and claim the recovery when everything is as before.\<close>

lemma verified_recovery:
  assumes "no_interference (he_tx env)"
    and "\<And>st. \<not> bad st \<Longrightarrow> \<forall>p\<in>set C. map_of st p = map_of (state_map pre) p"
    and "hoare (pending pre target C) m Q (\<lambda>_. unclaimed pre target C)"
    and "\<And>s. reverted env pre target C s \<Longrightarrow> Q () s"
  shows "hoare (pending pre target C)
    (mbind (scan_current_state env (mf_scope pre)) (\<lambda>st. if bad st then m else set_state env FailedRecovered))
    Q (\<lambda>_. unclaimed pre target C)"
proof (rule scan_then, rule hoare_if)
  fix st assume "bad st"
  show "hoare (\<lambda>s. pending pre target C s \<and> scan_live env (mf_scope pre) (tx_live s) = Inr st) m Q (\<lambda>_. unclaimed pre target C)"
    by (rule hoare_pre [OF assms(3)]) simp
next
  fix st assume "\<not> bad st"
  then have "\<forall>p\<in>set C. map_of st p = map_of (state_map pre) p" by (rule assms(2))
  then show "hoare (\<lambda>s. pending pre target C s \<and> scan_live env (mf_scope pre) (tx_live s) = Inr st)
      (set_state env FailedRecovered) Q (\<lambda>_. unclaimed pre target C)"
    by (intro hoare_weaken [OF set_reverted [OF assms(1)]]) (auto simp: undone_def assms(4))
qed

lemma rollback_applied_pending:
  assumes "no_interference (he_tx env)"
  shows "hoare (unclaimed pre target C) (rollback_applied_workspace_transaction env)
    (\<lambda>_. reverted env pre target C) (\<lambda>_. unclaimed pre target C)"
  unfolding rollback_applied_workspace_transaction_def
proof (rule hoare_bind [OF load_pending], rule hoare_get_then)
  fix x j
  show "hoare (\<lambda>s. (pending pre target C s \<and> h_journal s = Some (h_mem s)) \<and> h_mem s = j)
     (if j_state j \<noteq> AppliedVerified
      then mfail (RuntimeError ''workspace transaction is not in an applied state'')
      else case (j_before j, j_target j) of
         (Some before_manifest, Some target_manifest) \<Rightarrow>
           mbind (checkpoint_states env before_manifest) (\<lambda>before.
           mbind (checkpoint_states env target_manifest) (\<lambda>target.
           mbind (mlift (require_matching_scope before_manifest target_manifest)) (\<lambda>sc.
           mbind (scan_current_state env sc) (\<lambda>current.
             if unattributable before target current (j_changed j) \<noteq> [] then require_recovery env
             else
               mbind (apply_manifest env False False before_manifest (Some (j_changed j)) None None) (\<lambda>_.
               mbind (scan_current_state env sc) (\<lambda>recovered.
                 if state_differs recovered before (j_changed j) then require_recovery env
                 else set_state env FailedRecovered))))))
       | _ \<Rightarrow> mfail (RuntimeError ''workspace transaction has incomplete recovery bindings''))
     (\<lambda>_. reverted env pre target C) (\<lambda>_. unclaimed pre target C)"
    (is "hoare _ ?m _ _")
  proof (cases "about pre target C j")
    case False
    show ?thesis by (rule hoare_pre [OF hoare_false]) (use False in \<open>auto simp: pending_def unclaimed_def\<close>)
  next
    case True
    have j: "j_before j = Some pre" "j_target j = Some target" "j_changed j = C" using True by (simp_all add: about_def)
    have "hoare (pending pre target C) ?m (\<lambda>_. reverted env pre target C) (\<lambda>_. unclaimed pre target C)"
      unfolding j prod.case option.case
      apply (rule hoare_if, rule hoare_fail, erule pending_unclaimed)
      apply (rule checkpoint_pending [OF _ pending_unclaimed], simp only:)
      apply (rule checkpoint_pending [OF _ pending_unclaimed], simp only:)
      apply (rule hoare_lift_then, simp add: pending_unclaimed, drule matching_scope_Inr, simp only:)
      apply (rule scan_then, rule hoare_if, rule hoare_pre [OF require_recovery_pending], simp)
      apply (rule hoare_pre [where P = "pending pre target C"], rule apply_then)
       apply (rule verified_recovery [OF assms _ require_recovery_pending])
        apply (auto simp: state_differs_def list_ex_iff)
      done
    then show ?thesis by (rule hoare_pre) simp
  qed
qed

lemma recover_restore_pending:
  assumes "no_interference (he_tx env)" "about pre target C j"
  shows "hoare (pending pre target C) (recover_restore env j) (\<lambda>_. reverted env pre target C) (\<lambda>_. unclaimed pre target C)"
proof -
  have j: "j_before j = Some pre" "j_target j = Some target" "j_changed j = C" using assms(2) by (simp_all add: about_def)
  show ?thesis
    unfolding recover_restore_def j prod.case option.case
    apply (rule checkpoint_pending [OF _ pending_unclaimed], simp only:)
    apply (rule checkpoint_pending [OF _ pending_unclaimed], simp only:)
    apply (rule hoare_lift_then, simp add: pending_unclaimed, drule matching_scope_Inr, simp only:)
    apply (rule scan_then, rule hoare_if, rule hoare_fail, simp add: pending_unclaimed)
    apply (rule hoare_pre [where P = "pending pre target C"], rule apply_then)
     apply (rule verified_recovery [OF assms(1)])
       apply (auto simp: same_state_iff intro!: hoare_fail pending_unclaimed)
    done
qed

lemma rollback_primitive_pending:
  assumes "no_interference (he_tx env)"
  shows "hoare (unclaimed pre target C) (rollback_filesystem_primitive_transaction env)
    (\<lambda>_. reverted env pre target C) (\<lambda>_. accounted env pre target C)"
  unfolding rollback_filesystem_primitive_transaction_def
proof (rule hoare_bind [OF hoare_weaken [OF load_pending]])
  let ?R = "\<lambda>_. accounted env pre target C"
  show "unclaimed pre target C s \<Longrightarrow> unclaimed pre target C s" for s .
  show "unclaimed pre target C s \<Longrightarrow> accounted env pre target C s" for s by (rule accounted_cases)
  show "x \<Longrightarrow> x" for x .
  fix u :: unit
  have "hoare (\<lambda>s. (pending pre target C s \<and> h_journal s = Some (h_mem s)) \<and> h_mem s = j)
     (if j_kind j \<noteq> ''filesystem_primitive''
       then mfail (RuntimeError ''workspace transaction is not a filesystem primitive'')
       else if j_state j = AppliedVerified then rollback_applied_workspace_transaction env
       else if j_state j \<noteq> Applying \<and> j_state j \<noteq> Recovering
       then mfail (RuntimeError ''filesystem primitive transaction is not recoverable'')
       else
         mbind (recover_incomplete_workspace_transaction env) (\<lambda>_.
         mbind (mget (\<lambda>s. j_state (h_mem s))) (\<lambda>st.
           mcheck (st = FailedRecovered)
             (RuntimeError ''filesystem primitive recovery did not reach a terminal state''))))
     (\<lambda>_. reverted env pre target C) ?R" for j
  proof (cases "about pre target C j")
    case False
    show ?thesis by (rule hoare_pre [OF hoare_false]) (use False in \<open>auto simp: pending_def unclaimed_def\<close>)
  next
    case True
    have rec: "hoare (\<lambda>s. pending pre target C s \<and> h_mem s = j) (recover_incomplete_workspace_transaction env)
        (\<lambda>_. reverted env pre target C) ?R" if "j_state j = Applying \<or> j_state j = Recovering"
    proof -
      have k: "j_kind j \<noteq> ''single_file_write''" using True by (simp add: about_def)
      have rr: "hoare (\<lambda>s. (pending pre target C s \<and> h_mem s = j) \<and> h_mem s = j) (recover_restore env j)
          (\<lambda>_. reverted env pre target C) ?R"
        by (rule hoare_weaken [OF recover_restore_pending [OF assms True]]) (auto intro: accounted_cases)
      have "hoare (\<lambda>s. (pending pre target C s \<and> h_mem s = j) \<and> h_mem s = i)
          (case j_state i of
             Preflight \<Rightarrow> m1 i | Staged \<Rightarrow> m2 i
           | Applying \<Rightarrow> if j_kind i = ''single_file_write'' then recover_single_write env i else recover_restore env i
           | Recovering \<Rightarrow> if j_kind i = ''single_file_write'' then recover_single_write env i else recover_restore env i
           | st \<Rightarrow> m3 st i) (\<lambda>_. reverted env pre target C) ?R" for i m1 m2 m3
      proof (cases "i = j")
        case i: True
        show ?thesis using that k rr unfolding i by (elim disjE) simp_all
      next
        case False
        then show ?thesis by (intro hoare_pre [OF hoare_false]) auto
      qed
      then show ?thesis
        unfolding recover_incomplete_workspace_transaction_def by (rule hoare_get_then)
    qed
    have ended: "hoare (reverted env pre target C) (mbind (mget (\<lambda>s. j_state (h_mem s))) (\<lambda>st.
           mcheck (st = FailedRecovered)
             (RuntimeError ''filesystem primitive recovery did not reach a terminal state'')))
        (\<lambda>_. reverted env pre target C) ?R"
      by (rule hoare_get_then, rule hoare_check) (auto simp: reverted_def)
    have rb: "hoare (pending pre target C) (rollback_applied_workspace_transaction env) (\<lambda>_. reverted env pre target C) ?R"
      by (rule hoare_weaken [OF rollback_applied_pending [OF assms]]) (auto intro: accounted_cases pending_unclaimed)
    show ?thesis
      apply (rule hoare_if, rule hoare_fail, simp add: accounted_cases)
      apply (rule hoare_if, rule hoare_pre [OF rb], simp)
      apply (rule hoare_if, rule hoare_fail, simp add: accounted_cases)
      apply (rule hoare_pre [OF hoare_bind [OF rec ended]], blast, simp)
      done
  qed
  then show "hoare (\<lambda>s. pending pre target C s \<and> h_journal s = Some (h_mem s)) (mbind (mget h_mem) (\<lambda>j.
       if j_kind j \<noteq> ''filesystem_primitive''
       then mfail (RuntimeError ''workspace transaction is not a filesystem primitive'')
       else if j_state j = AppliedVerified then rollback_applied_workspace_transaction env
       else if j_state j \<noteq> Applying \<and> j_state j \<noteq> Recovering
       then mfail (RuntimeError ''filesystem primitive transaction is not recoverable'')
       else
         mbind (recover_incomplete_workspace_transaction env) (\<lambda>_.
         mbind (mget (\<lambda>s. j_state (h_mem s))) (\<lambda>st.
           mcheck (st = FailedRecovered)
             (RuntimeError ''filesystem primitive recovery did not reach a terminal state'')))))
     (\<lambda>_. reverted env pre target C) ?R"
    by (rule hoare_get_then)
qed

section \<open>Operations on the workspace beside the audit database\<close>

lemma hoare_on_fst: "hoare P m Q R \<Longrightarrow> hoare (\<lambda>s. P (fst s)) (on_fst m) (\<lambda>x s. Q x (fst s)) (\<lambda>e s. R e (fst s))"
  unfolding hoare_def on_fst_def by (auto split: prod.splits sum.splits)

lemma keeps_on_fst: "keeps P m \<Longrightarrow> keeps (\<lambda>s. P (fst s)) (on_fst m)"
  unfolding keeps_def on_fst_def by (auto split: prod.splits)

lemma keeps_on_snd: "keeps (\<lambda>s. P (fst s)) (on_snd m)"
  unfolding keeps_def on_snd_def by (auto split: prod.splits)

lemma keeps_attempt: "keeps P m \<Longrightarrow> keeps P (attempt m)"
  unfolding keeps_def attempt_def by (auto split: prod.splits)

lemma keeps_sum: "(\<And>x. keeps P (f x)) \<Longrightarrow> (\<And>e. keeps P (g e)) \<Longrightarrow> keeps P (case r of Inl e \<Rightarrow> g e | Inr x \<Rightarrow> f x)"
  by (cases r) auto

lemma hoare_attempt:
  "hoare P m Q R \<Longrightarrow> hoare P (attempt m) (\<lambda>r s. case r of Inr x \<Rightarrow> Q x s | Inl e \<Rightarrow> R e s) S"
  unfolding hoare_def attempt_def by (auto split: prod.splits sum.splits)

lemma keeps_audited: "keeps P (arrive (mu_tx env)) \<Longrightarrow> keeps (\<lambda>s. P (fst s)) (audited env f)"
  unfolding audited_def by (intro keeps_rules keeps_on_fst keeps_on_snd)

lemma keeps_audit:
  assumes "keeps P (arrive (mu_tx env))"
  shows "keeps (\<lambda>s. P (fst s)) (audit_event env k ty n)" "keeps (\<lambda>s. P (fst s)) (audit_update env k upd)"
    "keeps (\<lambda>s. P (fst s)) (audit_transition env k fs upd)" "keeps (\<lambda>s. P (fst s)) (audit_create env row)"
  unfolding audit_event_def audit_update_def audit_transition_def audit_create_def by (rule keeps_audited [OF assms])+

section \<open>What stays accounted for\<close>

lemma keeps_accounted_arrive:
  "no_interference (he_tx env) \<Longrightarrow> keeps (accounted env pre target C) (arrive (he_tx env))"
  by (auto simp: keeps_def accounted_def arrive_def Let_def no_interference_def split: option.split)

lemma load_accounted:
  assumes "no_interference (he_tx env)"
  shows "hoare (accounted env pre target C) (load_journal env)
    (\<lambda>_ s. accounted env pre target C s \<and> h_journal s = Some (h_mem s)) (\<lambda>_. accounted env pre target C)"
proof -
  note a = keeps_accounted_arrive [OF assms, unfolded keeps_hoare]
  show ?thesis
    unfolding load_journal_def
    by (rule hoare_bind [OF a], rule hoare_get_then, rule hoare_option)
      (auto intro!: hoare_fail hoare_put simp: accounted_def)
qed

lemma update_accounted:
  assumes "no_interference (he_tx env)"
    and "\<And>j. about pre target C (f j) = about pre target C j"
    and "\<And>j. j_state (f j) = FailedRecovered \<Longrightarrow> j_state j = FailedRecovered"
  shows "hoare (\<lambda>s. accounted env pre target C s \<and> h_journal s = Some (h_mem s)) (update_journal env f)
    (\<lambda>_. accounted env pre target C) (\<lambda>_. accounted env pre target C)"
proof -
  let ?P = "\<lambda>s. accounted env pre target C s \<and> (j_state (h_mem s) = FailedRecovered \<longrightarrow> undone env pre C (tx_live s))"
  have a: "hoare ?P (arrive (he_tx env)) (\<lambda>_. ?P) (\<lambda>_. ?P)"
    unfolding keeps_hoare [symmetric]
    using assms(1)
    by (auto simp: keeps_def arrive_def Let_def no_interference_def accounted_def split: option.split)
  show ?thesis
    unfolding update_journal_def set_mem_def write_journal_def
    apply (rule hoare_bind [where Q = "\<lambda>_. ?P"], rule hoare_put)
    using assms(2,3) apply (fastforce simp: accounted_def)
    apply (rule hoare_bind [OF hoare_weaken [OF a, where Q' = "\<lambda>_. ?P" and R' = "\<lambda>_. accounted env pre target C"]])
    apply (auto intro!: hoare_put simp: accounted_def)
    done
qed

lemma keeps_accounted_refusal:
  assumes "no_interference (he_tx env)"
  shows "keeps (accounted env pre target C) (update_filesystem_primitive_transaction env RecoveryRequired)"
    "keeps (accounted env pre target C) (mark_audit_reconciled env)"
proof -
  have u: "hoare (\<lambda>s. accounted env pre target C s \<and> h_journal s = Some (h_mem s))
      (update_journal env (\<lambda>j. j\<lparr>j_state := RecoveryRequired, j_target := j_target j\<rparr>))
      (\<lambda>_. accounted env pre target C) (\<lambda>_. accounted env pre target C)"
    by (rule update_accounted [OF assms]) (auto simp: about_def)
  show "keeps (accounted env pre target C) (update_filesystem_primitive_transaction env RecoveryRequired)"
    unfolding keeps_hoare update_filesystem_primitive_transaction_def update_transaction_def option.case
    by (rule hoare_if, simp, rule hoare_bind [OF load_accounted [OF assms]], rule hoare_get_then, rule hoare_if,
        rule hoare_fail, simp, rule hoare_pre [OF u], simp)
  show "keeps (accounted env pre target C) (mark_audit_reconciled env)"
    unfolding keeps_hoare mark_audit_reconciled_def
    by (rule hoare_bind [OF load_accounted [OF assms]], rule update_accounted [OF assms]) auto
qed

lemma keeps_close_primitive:
  assumes "no_interference (mu_tx env)"
  shows "keeps (\<lambda>s. accounted (mu_hist env) pre target C (fst s)) (close_primitive env k recovered e)"
  unfolding close_primitive_def
  by (intro keeps_rules keeps_audit keeps_accounted_arrive keeps_on_fst keeps_accounted_refusal assms)

lemma undo_primitive_accounts:
  assumes "no_interference (mu_tx env)"
  shows "hoare (\<lambda>s. unclaimed pre target C (fst s)) (undo_primitive env k)
    (\<lambda>_ s. accounted (mu_hist env) pre target C (fst s)) (\<lambda>_ s. accounted (mu_hist env) pre target C (fst s))"
proof -
  let ?A = "\<lambda>s :: work. accounted (mu_hist env) pre target C (fst s)"
  have refuse: "keeps ?A (mbind (on_fst (update_filesystem_primitive_transaction (mu_hist env) RecoveryRequired)) (\<lambda>_.
      mbind (audit_update env k u) (\<lambda>_. mret (b, e))))" for b e u
    by (intro keeps_rules keeps_audit keeps_accounted_arrive keeps_on_fst keeps_accounted_refusal assms)
  have rb: "hoare (\<lambda>s. unclaimed pre target C (fst s))
      (attempt (on_fst (rollback_filesystem_primitive_transaction (mu_hist env)))) (\<lambda>_. ?A) (\<lambda>_. ?A)"
    by (rule hoare_weaken [OF hoare_attempt [OF hoare_on_fst [OF rollback_primitive_pending [OF assms]]]])
      (auto split: sum.splits intro: accounted_cases)
  have rest: "keeps ?A (case r of
         Inl _ \<Rightarrow> mbind (on_fst (update_filesystem_primitive_transaction (mu_hist env) RecoveryRequired)) (\<lambda>_.
            mbind (audit_update env k (\<lambda>_. [(''rollback_state'', SqlText ''recovery_required'')])) (\<lambda>_.
              mret (False, MutationError ''recovery_required'')))
       | Inr _ \<Rightarrow>
           mbind (attempt (audit_update env k (\<lambda>_. [(''rollback_state'', SqlText ''failed_recovered'')]))) (\<lambda>r2.
             case r2 of Inl _ \<Rightarrow> mbind (on_fst (update_filesystem_primitive_transaction (mu_hist env) RecoveryRequired)) (\<lambda>_.
            mbind (audit_update env k (\<lambda>_. [(''rollback_state'', SqlText ''recovery_required'')])) (\<lambda>_.
              mret (True, MutationError ''recovery_required'')))
            | Inr _ \<Rightarrow> mret (True, MutationError ''failed_recovered'')))" for r :: "unit res"
    by (intro keeps_sum keeps_rules refuse keeps_attempt keeps_audit keeps_accounted_arrive assms)
  show ?thesis
    unfolding undo_primitive_def Let_def
    by (rule hoare_bind [OF rb]) (rule rest [unfolded keeps_hoare])
qed

section \<open>The store keeps what the checkpoint before needs\<close>

interpretation stored: journal_condition "\<lambda>s. stored env pre (h_blobs s)"
  by unfold_locales (auto simp: framed_def)

lemma keeps_capture:
  assumes "keeps P (arrive (he_tx env))" "\<And>s b. P s \<Longrightarrow> P (s\<lparr>h_blobs := b\<rparr>)"
  shows "keeps P (capture_workspace_state env sc)"
  unfolding capture_workspace_state_def capture_blob_def
  by (intro keeps_rules keeps_put assms)

lemma keeps_stored_capture: "keeps (\<lambda>s. stored env pre (h_blobs s)) (capture_workspace_state env sc)"
  unfolding keeps_def using captured_blobs stored_more by (metis prod.collapse)

lemma keeps_stored_journal:
  "keeps (\<lambda>s. stored env pre (h_blobs s)) (set_mem f)"
  "keeps (\<lambda>s. stored env pre (h_blobs s)) (load_journal env')"
  unfolding set_mem_def load_journal_def by (intro keeps_rules keeps_put stored.keeps_steps; simp)+

lemma keeps_stored_updates:
  "keeps (\<lambda>s. stored env pre (h_blobs s)) (update_journal env' f)"
  "keeps (\<lambda>s. stored env pre (h_blobs s)) (set_state env' st)"
  "keeps (\<lambda>s. stored env pre (h_blobs s)) (require_recovery env')"
  unfolding set_state_def require_recovery_def update_journal_def
  by (intro keeps_rules keeps_stored_journal stored.keeps_write)+

lemma keeps_stored_transactions:
  "keeps (\<lambda>s. stored env pre (h_blobs s)) (update_filesystem_primitive_transaction env' st)"
  "keeps (\<lambda>s. stored env pre (h_blobs s)) (finalize_workspace_transaction env')"
  "keeps (\<lambda>s. stored env pre (h_blobs s)) (mark_audit_reconciled env')"
  unfolding update_filesystem_primitive_transaction_def update_transaction_def finalize_workspace_transaction_def
    mark_audit_reconciled_def
  by (intro keeps_rules keeps_stored_journal keeps_stored_updates)+

lemma keeps_jstate:
  "(\<And>st. keeps P (f st)) \<Longrightarrow> keeps P m1 \<Longrightarrow> keeps P m2 \<Longrightarrow> keeps P m3 \<Longrightarrow> keeps P m4 \<Longrightarrow>
     keeps P (case st of Preflight \<Rightarrow> m1 | Staged \<Rightarrow> m2 | Applying \<Rightarrow> m3 | Recovering \<Rightarrow> m4 | st \<Rightarrow> f st)"
  by (cases st) auto

lemma keeps_list:
  "keeps P m \<Longrightarrow> (\<And>x. keeps P (f x)) \<Longrightarrow> (\<And>x y zs. keeps P (g x y zs)) \<Longrightarrow>
     keeps P (case xs of [] \<Rightarrow> m | x # ys \<Rightarrow> (case ys of [] \<Rightarrow> f x | y # zs \<Rightarrow> g x y zs))"
  by (auto split: list.split)

lemma keeps_stored_rollback:
  "keeps (\<lambda>s. stored env pre (h_blobs s)) (rollback_filesystem_primitive_transaction env')"
proof -
  note r = keeps_rules keeps_stored_updates keeps_stored_journal stored.keeps_scan stored.keeps_apply_manifest
  have "keeps (\<lambda>s. stored env pre (h_blobs s)) (recover_restore env' j)" for j
    unfolding recover_restore_def by (intro r)
  moreover have "keeps (\<lambda>s. stored env pre (h_blobs s)) (recover_single_write env' j)" for j
    unfolding recover_single_write_def by (intro r keeps_list)
  moreover have "keeps (\<lambda>s. stored env pre (h_blobs s)) (rollback_applied_workspace_transaction env')"
    unfolding rollback_applied_workspace_transaction_def by (intro r)
  ultimately show ?thesis
    unfolding rollback_filesystem_primitive_transaction_def recover_incomplete_workspace_transaction_def
    by (intro r keeps_jstate)
qed

definition kept :: "mut_env \<Rightarrow> manifest \<Rightarrow> work \<Rightarrow> bool" where
  "kept env pre s \<longleftrightarrow> stored (mu_hist env) pre (h_blobs (fst s))"

lemma keeps_kept_fst:
  "keeps (\<lambda>h. stored (mu_hist env) pre (h_blobs h)) m \<Longrightarrow> keeps (kept env pre) (on_fst m)"
  unfolding kept_def [abs_def] by (rule keeps_on_fst)

lemma keeps_kept_audit:
  "keeps (kept env pre) (audit_event env k ty n)" "keeps (kept env pre) (audit_update env k upd)"
  "keeps (kept env pre) (audit_transition env k fs upd)"
  unfolding kept_def [abs_def] by (intro keeps_audit stored.keeps_steps)+

lemma keeps_kept_undo:
  "keeps (kept env pre) (undo_primitive env k)" "keeps (kept env pre) (close_primitive env k recovered e)"
proof -
  show "keeps (kept env pre) (undo_primitive env k)"
    unfolding undo_primitive_def Let_def
    by (intro keeps_rules keeps_sum keeps_attempt keeps_kept_fst keeps_kept_audit keeps_stored_transactions keeps_stored_rollback)
  show "keeps (kept env pre) (close_primitive env k recovered e)"
    unfolding close_primitive_def
    by (intro keeps_rules keeps_kept_fst keeps_kept_audit keeps_stored_transactions)
qed

section \<open>Performing\<close>

lemma keeps_arrive_live:
  assumes "no_interference tx" "framed P"
  shows "keeps (\<lambda>h :: hist. X (tx_live h) \<and> P h) (arrive tx)"
proof -
  have "keeps (\<lambda>h :: hist. X (tx_live h)) (arrive tx)"
    using assms(1) by (auto simp: keeps_def arrive_def Let_def no_interference_def split: option.split)
  then show ?thesis using keeps_arrive [OF assms(2), of tx] by (rule keeps_both)
qed

lemma framed_pending: "framed (pending pre target C)"
  by (simp add: framed_def pending_def unclaimed_def)

lemma update_pending:
  assumes "\<And>j. about pre target C (f j) = about pre target C j" "\<And>j. j_state (f j) \<noteq> FailedRecovered"
    "no_interference (he_tx env)"
  shows "hoare (\<lambda>h. X (tx_live h) \<and> pending pre target C h) (update_journal env f)
    (\<lambda>_ h. X (tx_live h) \<and> pending pre target C h \<and> (\<exists>j. h_journal h = Some (f j))) (\<lambda>_. unclaimed pre target C)"
proof -
  let ?P = "\<lambda>h. X (tx_live h) \<and> (pending pre target C h \<and> (\<exists>j. h_mem h = f j))"
  have fr: "framed (\<lambda>h. pending pre target C h \<and> (\<exists>j. h_mem h = f j))"
    using framed_pending [of pre target C] by (auto simp: framed_def)
  note a = keeps_arrive_live [where P = "\<lambda>h. pending pre target C h \<and> (\<exists>j. h_mem h = f j)", OF assms(3) fr,
      of X, unfolded keeps_hoare]
  show ?thesis
    unfolding update_journal_def set_mem_def write_journal_def
    apply (rule hoare_bind [where Q = "\<lambda>_. ?P"], rule hoare_put)
    using assms(1,2) apply (auto simp: pending_def unclaimed_def) [1]
    apply (rule hoare_bind [OF hoare_weaken [OF a, where Q' = "\<lambda>_. ?P" and R' = "\<lambda>_. unclaimed pre target C"]])
    apply (auto intro!: hoare_put simp: pending_def unclaimed_def assms(2))
    done
qed

lemma load_pending_live:
  assumes "no_interference (he_tx env)"
  shows "hoare (\<lambda>h. X (tx_live h) \<and> pending pre target C h) (load_journal env)
    (\<lambda>_ h. X (tx_live h) \<and> pending pre target C h) (\<lambda>_. unclaimed pre target C)"
proof -
  note a = keeps_arrive_live [OF assms framed_pending, of X, unfolded keeps_hoare]
  show ?thesis
    unfolding load_journal_def
    apply (rule hoare_bind [OF hoare_weaken [OF a, where Q' = "\<lambda>_ h. X (tx_live h) \<and> pending pre target C h"
          and R' = "\<lambda>_. unclaimed pre target C"]])
       apply (auto simp: pending_unclaimed) [3]
    apply (rule hoare_get_then, rule hoare_option)
     apply (auto intro!: hoare_fail hoare_put simp: unclaimed_def pending_def)
    done
qed

lemma applied_pending:
  assumes "no_interference (he_tx env)"
  shows "hoare (\<lambda>h. X (tx_live h) \<and> pending pre target C h) (update_filesystem_primitive_transaction env AppliedVerified)
    (\<lambda>_ h. X (tx_live h) \<and> pending pre target C h) (\<lambda>_. unclaimed pre target C)"
  unfolding update_filesystem_primitive_transaction_def update_transaction_def option.case
  apply (rule hoare_if, simp, rule hoare_bind [OF load_pending_live [OF assms]], rule hoare_get_then, rule hoare_if)
   apply (rule hoare_fail, simp add: pending_unclaimed)
  apply (rule hoare_weaken [OF update_pending [OF _ _ assms, where X = X]])
      apply (auto simp: about_def)
  done

lemma finalize_pending:
  assumes "no_interference (he_tx env)"
  shows "hoare (\<lambda>h. X (tx_live h) \<and> pending pre target C h) (finalize_workspace_transaction env)
    (\<lambda>_ h. X (tx_live h) \<and> pending pre target C h \<and> (\<exists>j. h_journal h = Some j \<and> j_state j = Complete \<and> j_reconciled j))
    (\<lambda>_. unclaimed pre target C)"
  unfolding finalize_workspace_transaction_def
  apply (rule hoare_bind [OF load_pending_live [OF assms]], rule hoare_get_then, rule hoare_if)
   apply (rule hoare_fail, simp add: pending_unclaimed)
  apply (rule hoare_weaken [OF update_pending [OF _ _ assms, where X = X]])
      apply auto
  done

text \<open>
  A commit is one change of the namespace or none, touches nothing else, and is not mistaken by the
  look that follows it.
\<close>

locale one_effect =
  fixes tx :: tx_env and commit :: "(hist, unit) op" and change :: "live \<Rightarrow> live \<Rightarrow> bool"
  assumes single: "one_change tx change commit"
    and frame: "framed P \<Longrightarrow> keeps P commit"
begin

lemma committed:
  assumes "no_interference tx"
  shows "hoare (\<lambda>h. tx_live h = L \<and> pending pre target C h) commit
    (\<lambda>_ h. change L (tx_live h) \<and> pending pre target C h) (\<lambda>_. unclaimed pre target C)"
proof (rule hoareI)
  fix s s' x assume s: "tx_live s = L \<and> pending pre target C s" "commit s = (s', Inr x)"
  have "pending pre target C s'" using keepsD [OF frame [OF framed_pending] _ s(2)] s(1) by blast
  then show "change L (tx_live s') \<and> pending pre target C s'"
    using one_changeD [OF single s(2)] s(1) assms by simp
next
  fix s s' e assume s: "tx_live s = L \<and> pending pre target C s" "commit s = (s', Inl e)"
  show "unclaimed pre target C s'" using keepsD [OF frame [OF framed_pending] _ s(2)] s(1) pending_unclaimed by blast
qed

end

definition performed ::
  "(live \<Rightarrow> bool) \<Rightarrow> manifest \<Rightarrow> manifest \<Rightarrow> string list \<Rightarrow> hist \<Rightarrow> bool" where
  "performed X pre target C h \<longleftrightarrow>
     X (tx_live h) \<and> pending pre target C h \<and> (\<exists>j. h_journal h = Some j \<and> j_state j = Complete \<and> j_reconciled j)"

lemma framed_performed: "framed (\<lambda>h. pending pre target C h \<and> (\<exists>j. h_journal h = Some j \<and> j_state j = Complete \<and> j_reconciled j))"
  using framed_pending [of pre target C] by (auto simp: framed_def)

context one_effect begin

lemma performs:
  assumes "no_interference (mu_tx env)" "tx = mu_tx env"
    and look: "\<And>P. keeps P (arrive (mu_tx env)) \<Longrightarrow> keeps P post_verify"
  shows "hoare (\<lambda>s. tx_live (fst s) = L \<and> pending pre target C (fst s))
    (perform_primitive env pm k commit post_verify pre tst)
    (\<lambda>_ s. performed (change L) pre target C (fst s)) (\<lambda>_ s. unclaimed pre target C (fst s))"
proof -
  let ?Q = "\<lambda>X s :: work. X (tx_live (fst s)) \<and> pending pre target C (fst s)"
  let ?R = "\<lambda>_ s :: work. unclaimed pre target C (fst s)"
  let ?F = "\<lambda>s :: work. performed (change L) pre target C (fst s)"
  have keep: "hoare (?Q Y) (mbind m g) S ?R"
    if "keeps (?Q Y) m" "\<And>x. hoare (?Q Y) (g x) S ?R" for Y :: "live \<Rightarrow> bool" and m S and g :: "'x \<Rightarrow> (work, change_summary) op"
    by (rule hoare_bind [OF hoare_weaken [OF that(1) [unfolded keeps_hoare], where Q' = "\<lambda>_. ?Q Y" and R' = ?R]])
      (use that(2) pending_unclaimed in auto)
  have arr: "keeps (\<lambda>h. X (tx_live h) \<and> pending pre target C h) (arrive (mu_tx env))" for X
    by (rule keeps_arrive_live [OF assms(1) framed_pending])
  have cap: "keeps (\<lambda>h. X (tx_live h) \<and> pending pre target C h) (capture_workspace_state (mu_hist env) sc)" for X sc
    by (rule keeps_capture [OF arr]) (simp add: pending_def unclaimed_def)
  have chk: "keeps (\<lambda>h. X (tx_live h) \<and> pending pre target C h) (checkpoint_states (mu_hist env) m)" for X m
    unfolding checkpoint_states_def by (intro keeps_rules)
  have summ: "keeps (?Q X) (summarize env a b)" for X a b
    unfolding summarize_def by (intro keeps_on_fst keeps_rules arr)
  have commits: "hoare (?Q (\<lambda>l. l = L)) (on_fst commit) (\<lambda>_. ?Q (change L)) ?R"
    using hoare_on_fst [OF committed [OF assms(1) [folded assms(2)]]] .
  have ends: "hoare (?Q X) (on_fst (finalize_workspace_transaction (mu_hist env)))
      (\<lambda>_ s. performed X pre target C (fst s)) ?R" for X
    by (rule hoare_weaken [OF hoare_on_fst [OF finalize_pending [OF assms(1)]]]) (auto simp: performed_def)
  have last_event: "hoare ?F (mbind (audit_event env k ty n) (\<lambda>_. mret x)) (\<lambda>_. ?F) ?R" for ty n x
  proof -
    have "keeps ?F (audit_event env k ty n)"
      unfolding performed_def [abs_def]
      by (rule keeps_audit) (rule keeps_arrive_live [OF assms(1) framed_performed])
    then have "keeps ?F (mbind (audit_event env k ty n) (\<lambda>_. mret x))" by (intro keeps_rules)
    then show ?thesis unfolding keeps_hoare by (rule hoare_weaken) (auto simp: performed_def pending_unclaimed)
  qed
  show ?thesis
    unfolding perform_primitive_def
    apply (rule keep [of "\<lambda>l. l = L", OF keeps_audit(1) [OF arr]])
    apply (rule hoare_bind [OF commits])
    apply (rule keep [of "change L", OF keeps_on_fst [OF look [OF arr]]])
    apply (rule keep [of "change L", OF keeps_on_fst [OF cap]])
    apply (rule keep [of "change L", OF keeps_on_fst [OF chk]])
    apply (rule keep [of "change L", OF keeps_check])
    apply (rule keep [of "change L", OF summ])
    apply (rule hoare_bind [OF hoare_on_fst [OF applied_pending [OF assms(1)]]])
    apply (rule keep [of "change L", OF keeps_audit(3) [OF arr]])
    apply (rule hoare_bind [OF ends], rule last_event)
    done
qed

end

section \<open>A whole run\<close>

definition captured_paths :: "hist_env \<Rightarrow> live \<Rightarrow> string list \<Rightarrow> manifest \<Rightarrow> bool" where
  "captured_paths env L ps pre \<longleftrightarrow>
     (\<exists>st. scan_live env (Some ps) L = Inr st
        \<and> pre = \<lparr>mf_files = List.map (capture_entry env L) (state_files st), mf_dirs = state_dirs st, mf_scope = Some ps\<rparr>)"

text \<open>The journal of a run: its checkpoint is of the workspace before, and the store holds its content.\<close>

definition primitive_accounted :: "mut_env \<Rightarrow> live \<Rightarrow> string list \<Rightarrow> hist \<Rightarrow> bool" where
  "primitive_accounted env L ps h \<longleftrightarrow>
     (\<exists>pre target C. captured_paths (mu_hist env) L ps pre \<and> stored (mu_hist env) pre (h_blobs h)
        \<and> rmap validated_relative_path ps = Inr C
        \<and> accounted (mu_hist env) pre target (sorted_set C) h)"

definition run_accounted :: "mut_env \<Rightarrow> live \<Rightarrow> journal option \<Rightarrow> string list \<Rightarrow> hist \<Rightarrow> bool" where
  "run_accounted env L J ps h \<longleftrightarrow> (tx_live h = L \<and> h_journal h = J) \<or> primitive_accounted env L ps h"

definition at_rest :: "live \<Rightarrow> journal option \<Rightarrow> work \<Rightarrow> bool" where
  "at_rest L J s \<longleftrightarrow> tx_live (fst s) = L \<and> h_journal (fst s) = J"

lemma keeps_rest_arrive: "no_interference tx \<Longrightarrow> keeps (\<lambda>h :: hist. tx_live h = L \<and> h_journal h = J) (arrive tx)"
  by (rule keeps_arrive_live [where X = "\<lambda>l. l = L"]) (simp_all add: framed_def)

lemma keeps_rest_audit:
  assumes "no_interference (mu_tx env)"
  shows "keeps (at_rest L J) (audit_event env k ty n)" "keeps (at_rest L J) (audit_update env k upd)"
    "keeps (at_rest L J) (audit_transition env k fs upd)" "keeps (at_rest L J) (audit_create env row)"
    "keeps (at_rest L J) (audit_rejection env row e)"
  unfolding audit_rejection_def at_rest_def [abs_def]
  by (intro keeps_rules keeps_audit keeps_rest_arrive assms)+

lemma keeps_rest_admit:
  assumes "no_interference (mu_tx env)"
  shows "keeps (at_rest L J) (admit_primitive env pm)"
  unfolding admit_primitive_def require_mutation_ready_def
  by (intro keeps_rules keeps_rest_audit assms)
    (unfold at_rest_def [abs_def], intro keeps_on_fst keeps_rules keeps_rest_arrive assms)

lemma keeps_rest_close:
  assumes "no_interference (mu_tx env)"
  shows "keeps (at_rest L J) (close_primitive env k False e)"
  unfolding close_primitive_def by (simp, intro keeps_rules keeps_rest_audit assms)

lemma built_more:
  assumes "build_workspace_target sha max_data dsize bs before chg dels adds dirs = Inr (target, bs')"
  shows "extends_blobs bs bs'"
proof -
  have change: "extends_blobs bs (td_blobs d')"
    if "rfold (target_change sha max_data dsize n sc) d xs = Inr d'" "extends_blobs bs (td_blobs d)" for n sc d d' xs
    using that
  proof (induction xs arbitrary: d)
    case (Cons x xs)
    from Cons.prems(1) obtain e where e: "target_change sha max_data dsize n sc d x = Inr e"
      "rfold (target_change sha max_data dsize n sc) e xs = Inr d'" by (auto simp: rbind_eq_Inr)
    have "extends_blobs bs (td_blobs e)"
      using e(1) Cons.prems(2)
      by (auto simp: target_change_def store_blob_def rbind_eq_Inr extends_blobs_def update_conv' split: prod.splits option.splits if_splits)
    then show ?case using Cons.IH e(2) by blast
  qed simp
  have same: "td_blobs d' = td_blobs d"
    if "rfold f d xs = Inr d'" "\<And>d x d'. f d x = Inr d' \<Longrightarrow> td_blobs d' = td_blobs d" for f d d' and xs :: "string list"
    using that by (induction xs arbitrary: d) (auto simp: rbind_eq_Inr)
  from assms obtain d1 d2 d3 d4 where d: "rfold (target_delete (mf_scope before))
        \<lparr>td_entries = entry_map before, td_dirs = mf_dirs before, td_blobs = bs\<rparr> dels = Inr d1"
      "rfold (target_drop_directory (mf_scope before)) d1 dirs = Inr d2"
      "rfold (target_change sha max_data dsize (dsize bs) (mf_scope before)) d2 chg = Inr d3"
      "rfold (target_add_directory (mf_scope before)) d3 adds = Inr d4" "bs' = td_blobs d4"
    unfolding build_workspace_target_def Let_def by (auto simp: rbind_eq_Inr)
  have "td_blobs d1 = td_blobs \<lparr>td_entries = entry_map before, td_dirs = mf_dirs before, td_blobs = bs\<rparr>"
    by (rule same [OF d(1)]) (auto simp: target_delete_def rbind_eq_Inr split: if_splits)
  moreover have "td_blobs d2 = td_blobs d1"
    by (rule same [OF d(2)]) (auto simp: target_drop_directory_def rbind_eq_Inr split: if_splits)
  moreover have "td_blobs d4 = td_blobs d3"
    by (rule same [OF d(4)]) (auto simp: target_add_directory_def rbind_eq_Inr split: if_splits)
  ultimately show ?thesis using change [OF d(3)] d(5) by (simp add: extends_blobs_def)
qed

lemma capture_rest:
  assumes "no_interference (he_tx env)"
  shows "hoare (\<lambda>h. tx_live h = L \<and> h_journal h = J) (capture_workspace_state env (Some ps))
    (\<lambda>pre h. captured_paths env L ps pre \<and> tx_live h = L \<and> h_journal h = J \<and> stored env pre (h_blobs h))
    (\<lambda>_ h. tx_live h = L \<and> h_journal h = J)"
proof (rule hoareI)
  fix s s' pre assume s: "tx_live s = L \<and> h_journal s = J" "capture_workspace_state env (Some ps) s = (s', Inr pre)"
  show "captured_paths env L ps pre \<and> tx_live s' = L \<and> h_journal s' = J \<and> stored env pre (h_blobs s')"
    using movesD [OF capture_moves [OF assms] _ s(2), of L J "h_blobs s"] s(1)
    by (auto simp: seen_def captured_paths_def)
next
  fix s s' e assume s: "tx_live s = L \<and> h_journal s = J" "capture_workspace_state env (Some ps) s = (s', Inl e)"
  show "tx_live s' = L \<and> h_journal s' = J"
    using movesD [OF capture_moves [OF assms] _ s(2), of L J "h_blobs s"] s(1) by (auto simp: seen_def)
qed

lemma journal_begins:
  assumes "no_interference (he_tx env)"
  shows "hoare (\<lambda>h. tx_live h = L \<and> h_journal h = J) (begin_filesystem_primitive_transaction env pre target ps tool)
    (\<lambda>_ h. \<exists>C. tx_live h = L \<and> pending pre target (sorted_set C) h \<and> rmap validated_relative_path ps = Inr C)
    (\<lambda>_ h. tx_live h = L \<and> h_journal h = J)"
proof -
  have written: "hoare (\<lambda>h. tx_live h = L \<and> h_journal h = J)
      (mbind (mput (\<lambda>s. s\<lparr>h_mem := (fresh_journal ''filesystem_primitive'' Applying)
           \<lparr>j_before := Some pre, j_target := Some target, j_changed := sorted_set qs\<rparr>\<rparr>)) (\<lambda>_. write_journal env))
      (\<lambda>_ h. tx_live h = L \<and> pending pre target (sorted_set qs) h) (\<lambda>_ h. tx_live h = L \<and> h_journal h = J)" for qs
  proof -
    let ?j = "(fresh_journal ''filesystem_primitive'' Applying)
           \<lparr>j_before := Some pre, j_target := Some target, j_changed := sorted_set qs\<rparr>"
    let ?P = "\<lambda>h :: hist. tx_live h = L \<and> (h_journal h = J \<and> h_mem h = ?j)"
    have a: "keeps ?P (arrive (he_tx env))"
      by (rule keeps_arrive_live [where X = "\<lambda>l. l = L", OF assms]) (simp add: framed_def)
    show ?thesis
      unfolding write_journal_def
      by (rule hoare_bind [where Q = "\<lambda>_. ?P"], rule hoare_put, simp,
          rule hoare_bind [OF hoare_weaken [OF a [unfolded keeps_hoare], where Q' = "\<lambda>_. ?P"
            and R' = "\<lambda>_ h. tx_live h = L \<and> h_journal h = J"]])
        (auto intro!: hoare_put simp: pending_def unclaimed_def about_def fresh_journal_def)
  qed
  show ?thesis
    unfolding begin_filesystem_primitive_transaction_def
    apply (rule hoare_if, rule hoare_fail, simp)
    apply (rule hoare_if, rule hoare_fail, simp)
    apply (rule hoare_lift_then, simp)
    apply (rule hoare_lift_then, simp)
    apply (rule hoare_if, rule hoare_fail, simp)
    apply (rule hoare_weaken [OF written])
      apply auto
    done
qed

lemma begin_primitive_pending:
  assumes "no_interference (mu_tx env)"
  shows "hoare (at_rest L J) (begin_primitive env pm k)
    (\<lambda>(pre, tst) s. \<exists>target C. tx_live (fst s) = L \<and> pending pre target (sorted_set C) (fst s)
       \<and> rmap validated_relative_path (pm_scope pm) = Inr C
       \<and> captured_paths (mu_hist env) L (pm_scope pm) pre \<and> kept env pre s)
    (\<lambda>_. at_rest L J)"
proof -
  let ?H = "mu_hist env" and ?ps = "pm_scope pm"
  let ?P = "\<lambda>pre s. at_rest L J s \<and> kept env pre s"
  let ?E = "\<lambda>pre target s. \<exists>C. tx_live (fst s) = L \<and> pending pre target (sorted_set C) (fst s)
        \<and> rmap validated_relative_path ?ps = Inr C"
  have keep: "hoare (?P pre) (mbind m g) S (\<lambda>_. at_rest L J)"
    if "keeps (?P pre) m" "\<And>x. hoare (?P pre) (g x) S (\<lambda>_. at_rest L J)" for pre m S and g :: "'x \<Rightarrow> (work, 'y) op"
    by (rule hoare_bind [OF hoare_weaken [OF that(1) [unfolded keeps_hoare], where Q' = "\<lambda>_. ?P pre"
          and R' = "\<lambda>_. at_rest L J"]]) (use that(2) in auto)
  have P: "?P pre = (\<lambda>s. tx_live (fst s) = L \<and> (h_journal (fst s) = J \<and> stored ?H pre (h_blobs (fst s))))" for pre
    by (simp add: fun_eq_iff at_rest_def kept_def)
  have arr: "keeps (\<lambda>h :: hist. tx_live h = L \<and> (h_journal h = J \<and> stored ?H pre (h_blobs h))) (arrive (mu_tx env))" for pre
    by (rule keeps_arrive_live [where X = "\<lambda>l. l = L", OF assms]) (simp add: framed_def)
  have upd: "keeps (?P pre) (audit_update env k u)" for pre u
    unfolding P by (rule keeps_audit [OF arr])
  have build: "keeps (?P pre) (build_target env pm pre)" for pre
    unfolding P build_target_def
  proof (rule keeps_on_fst, rule keeps_bind [OF arr])
    fix e :: tx_event
    show "keeps (\<lambda>h. tx_live h = L \<and> (h_journal h = J \<and> stored ?H pre (h_blobs h)))
        (mbind (mget h_blobs) (\<lambda>bs.
           mbind (mlift (build_workspace_target (tx_sha (mu_tx env)) (he_max_data ?H) (he_data_size ?H)
                           bs pre (pm_changes pm) (pm_deletions pm) (pm_directories pm) [])) (\<lambda>(target, bs').
           mbind (mput (\<lambda>s. s\<lparr>h_blobs := bs'\<rparr>)) (\<lambda>_. mret target))))"
      by (auto simp: keeps_def mbind_def mget_def mlift_def mput_def mret_def split: sum.splits
          dest!: built_more intro: stored_more)
  qed
  have chk: "keeps (?P pre) (on_fst (checkpoint_states ?H target))" for pre target
    unfolding P checkpoint_states_def by (intro keeps_on_fst keeps_rules)
  have captures: "hoare (at_rest L J) (on_fst (capture_workspace_state ?H (Some ?ps)))
      (\<lambda>pre s. captured_paths ?H L ?ps pre \<and> ?P pre s) (\<lambda>_. at_rest L J)"
    by (rule hoare_weaken [OF hoare_on_fst [OF capture_rest [OF assms, of L J]]]) (auto simp: at_rest_def kept_def)
  have kept: "keeps (kept env pre) (on_fst (begin_filesystem_primitive_transaction ?H pre' target ?ps tool))" for pre pre' target tool
    unfolding begin_filesystem_primitive_transaction_def
    by (intro keeps_kept_fst keeps_rules keeps_put stored.keeps_write) simp
  have journal: "hoare (?P pre) (on_fst (begin_filesystem_primitive_transaction ?H pre target ?ps tool))
      (\<lambda>_ s. ?E pre target s \<and> kept env pre s) (\<lambda>_. at_rest L J)" for pre target tool
    by (rule hoare_weaken [OF hoare_conj [OF hoare_on_fst [OF journal_begins [OF assms, of L J]] kept [unfolded keeps_hoare]]])
      (auto simp: at_rest_def)
  have rest: "hoare (?P pre) (mbind (audit_update env k u) (\<lambda>_.
     mbind (build_target env pm pre) (\<lambda>target.
     mbind (on_fst (checkpoint_states ?H target)) (\<lambda>target_state.
     mbind (on_fst (begin_filesystem_primitive_transaction ?H pre target ?ps (pm_tool pm))) (\<lambda>_.
       mret (pre, target_state))))))
     (\<lambda>(pre', tst) s. pre' = pre \<and> (\<exists>target. ?E pre target s) \<and> kept env pre s) (\<lambda>_. at_rest L J)" for pre u
    by (rule keep [OF upd], rule keep [OF build], rule keep [OF chk], rule hoare_bind [OF journal])
      (auto intro!: hoare_ret)
  show ?thesis
    unfolding begin_primitive_def
  proof (rule hoare_bind [OF captures])
    fix pre
    show "hoare (\<lambda>s. captured_paths ?H L ?ps pre \<and> ?P pre s)
      (mbind (audit_update env k (\<lambda>_. [(''pre_workspace_path'', SqlText (manifest_path k ''before''))])) (\<lambda>_.
       mbind (build_target env pm pre) (\<lambda>target.
       mbind (on_fst (checkpoint_states ?H target)) (\<lambda>target_state.
       mbind (on_fst (begin_filesystem_primitive_transaction ?H pre target ?ps (pm_tool pm))) (\<lambda>_.
         mret (pre, target_state))))))
      (\<lambda>(pre, tst) s. \<exists>target C. tx_live (fst s) = L \<and> pending pre target (sorted_set C) (fst s)
         \<and> rmap validated_relative_path ?ps = Inr C \<and> captured_paths ?H L ?ps pre \<and> kept env pre s)
      (\<lambda>_. at_rest L J)"
    proof (cases "captured_paths ?H L ?ps pre")
      case True
      then show ?thesis by (intro hoare_weaken [OF rest]) auto
    next
      case False
      then show ?thesis by (intro hoare_pre [OF hoare_false]) auto
    qed
  qed
qed

lemma hoare_cases:
  "(\<And>e. hoare P (g e) Q R) \<Longrightarrow> (\<And>x. hoare P (f x) Q R) \<Longrightarrow> hoare P (case r of Inl e \<Rightarrow> g e | Inr x \<Rightarrow> f x) Q R"
  by (cases r) auto

definition ran :: "mut_env \<Rightarrow> live \<Rightarrow> string list \<Rightarrow> (live \<Rightarrow> live \<Rightarrow> bool) \<Rightarrow> hist \<Rightarrow> bool" where
  "ran env L ps change h \<longleftrightarrow>
     change L (tx_live h) \<and> (\<exists>j. h_journal h = Some j \<and> j_state j = Complete \<and> j_reconciled j)"

lemma keeps_kept_perform:
  assumes "\<And>P. framed P \<Longrightarrow> keeps P commit" "\<And>P. keeps P (arrive (mu_tx env)) \<Longrightarrow> keeps P post_verify"
  shows "keeps (kept env pre) (perform_primitive env pm k commit post_verify pre tst)"
proof -
  have c: "keeps (kept env pre) (on_fst commit)" "keeps (kept env pre) (on_fst post_verify)"
    by (rule keeps_kept_fst, rule assms(1), rule stored.frame, rule keeps_kept_fst, rule assms(2), rule stored.keeps_steps)
  have s: "keeps (kept env pre) (summarize env a b)" for a b
    unfolding summarize_def by (intro keeps_kept_fst keeps_rules stored.keeps_steps)
  have k: "keeps (kept env pre) (on_fst (checkpoint_states (mu_hist env) m))" for m
    by (rule keeps_kept_fst [OF stored.keeps_scan(2)])
  have p: "keeps (kept env pre) (on_fst (capture_workspace_state (mu_hist env) sc))" for sc
    by (rule keeps_kept_fst [OF keeps_stored_capture])
  show ?thesis
    unfolding perform_primitive_def
    by (intro keeps_rules keeps_kept_audit c k p s keeps_kept_fst keeps_stored_transactions)
qed

context one_effect begin

lemma runs:
  assumes "no_interference (mu_tx env)" "tx = mu_tx env"
    and look: "\<And>P. keeps P (arrive (mu_tx env)) \<Longrightarrow> keeps P post_verify"
  shows "hoare (at_rest L J) (run_filesystem_primitive env pm commit post_verify)
    (\<lambda>_ s. primitive_accounted env L (pm_scope pm) (fst s) \<and> ran env L (pm_scope pm) change (fst s))
    (\<lambda>_ s. run_accounted env L J (pm_scope pm) (fst s))"
proof -
  let ?ps = "pm_scope pm" and ?R = "\<lambda>_ s :: work. run_accounted env L J (pm_scope pm) (fst s)"
  let ?Q = "\<lambda>_ s :: work. primitive_accounted env L (pm_scope pm) (fst s) \<and> ran env L (pm_scope pm) change (fst s)"
  have rest: "at_rest L J s \<Longrightarrow> run_accounted env L J ?ps (fst s)" for s
    by (simp add: at_rest_def run_accounted_def)
  have acc: "primitive_accounted env L ?ps (fst s)"
    if "captured_paths (mu_hist env) L ?ps pre" "rmap validated_relative_path ?ps = Inr C" "kept env pre s"
      "accounted (mu_hist env) pre target (sorted_set C) (fst s)" for pre target C s
    using that unfolding primitive_accounted_def kept_def by blast
  have admit: "hoare (at_rest L J) (mcatch (admit_primitive env pm)
      (\<lambda>e. mbind (audit_rejection env (pm_rejected pm) e) (\<lambda>_. mfail e))) (\<lambda>_. at_rest L J) ?R"
  proof -
    have "keeps (at_rest L J) (mcatch (admit_primitive env pm)
      (\<lambda>e. mbind (audit_rejection env (pm_rejected pm) e) (\<lambda>_. mfail e)))"
      by (intro keeps_rules keeps_rest_admit keeps_rest_audit assms(1))
    then show ?thesis unfolding keeps_hoare by (rule hoare_weaken) (use rest in auto)
  qed
  have early: "hoare (at_rest L J) (close_primitive env k False e) ?Q ?R" for k e
  proof (rule hoareI)
    fix s s' x assume "close_primitive env k False e s = (s', Inr x)"
    then show "?Q x s'" by (auto simp: close_primitive_def op_simps)
  next
    fix s s' e' assume "at_rest L J s" "close_primitive env k False e s = (s', Inl e')"
    then show "?R e' s'" using keepsD [OF keeps_rest_close [OF assms(1)]] rest by blast
  qed
  have begun: "hoare (\<lambda>s. tx_live (fst s) = L \<and> pending pre target (sorted_set C) (fst s) \<and> kept env pre s)
      (mcatch (perform_primitive env pm k commit post_verify pre tst)
         (\<lambda>_. mbind (undo_primitive env k) (\<lambda>(recovered, e). close_primitive env k recovered e))) ?Q ?R"
    if c: "captured_paths (mu_hist env) L ?ps pre" "rmap validated_relative_path ?ps = Inr C" for pre target C k tst
  proof (rule hoare_catch)
    let ?U = "\<lambda>s :: work. unclaimed pre target (sorted_set C) (fst s) \<and> kept env pre s"
    let ?A = "\<lambda>s :: work. accounted (mu_hist env) pre target (sorted_set C) (fst s) \<and> kept env pre s"
    have A: "run_accounted env L J ?ps (fst s)" if "?A s" for s
      using acc [OF c] that unfolding run_accounted_def by blast
    have kk: "keeps (kept env pre) (perform_primitive env pm k commit post_verify pre tst)"
      by (rule keeps_kept_perform) (use frame look in blast)+
    have p: "hoare (\<lambda>s. tx_live (fst s) = L \<and> pending pre target (sorted_set C) (fst s))
        (perform_primitive env pm k commit post_verify pre tst)
        (\<lambda>_ s. performed (change L) pre target (sorted_set C) (fst s)) (\<lambda>_ s. unclaimed pre target (sorted_set C) (fst s))"
      by (rule performs [OF assms(1,2)]) (rule look)
    have "hoare (\<lambda>s. (tx_live (fst s) = L \<and> pending pre target (sorted_set C) (fst s)) \<and> kept env pre s)
        (perform_primitive env pm k commit post_verify pre tst)
        (\<lambda>_ s. performed (change L) pre target (sorted_set C) (fst s) \<and> kept env pre s) (\<lambda>_. ?U)"
      by (rule hoare_conj [OF p kk [unfolded keeps_hoare]])
    then show "hoare (\<lambda>s. tx_live (fst s) = L \<and> pending pre target (sorted_set C) (fst s) \<and> kept env pre s)
        (perform_primitive env pm k commit post_verify pre tst) ?Q (\<lambda>_. ?U)"
      by (rule hoare_weaken) (auto simp: performed_def ran_def intro!: acc [OF c] accounted_cases(2))
    have undo: "hoare ?U (undo_primitive env k) (\<lambda>_. ?A) (\<lambda>_. ?A)"
      using hoare_conj [OF undo_primitive_accounts [OF assms(1)] keeps_kept_undo(1) [unfolded keeps_hoare]] .
    have close: "hoare ?A (close_primitive env k b e) ?Q ?R" for b e
    proof (rule hoareI)
      fix s s' x assume "close_primitive env k b e s = (s', Inr x)"
      then show "?Q x s'" by (auto simp: close_primitive_def op_simps)
    next
      fix s s' e' assume s: "?A s" "close_primitive env k b e s = (s', Inl e')"
      then have "?A s'"
        using keepsD [OF keeps_close_primitive [OF assms(1)]] keepsD [OF keeps_kept_undo(2)] by blast
      then show "?R e' s'" by (rule A)
    qed
    show "hoare ?U (mbind (undo_primitive env k) (\<lambda>(recovered, e). close_primitive env k recovered e)) ?Q ?R"
      by (rule hoare_bind [OF hoare_weaken [OF undo, where Q' = "\<lambda>_. ?A" and R' = ?R]]) (auto intro: A close)
  qed
  show ?thesis
    unfolding run_filesystem_primitive_def
  proof (rule hoare_bind [OF admit])
    fix k
    let ?B = "\<lambda>r s :: work. case r of Inl e \<Rightarrow> at_rest L J s
        | Inr (pre, tst) \<Rightarrow> \<exists>target C. tx_live (fst s) = L \<and> pending pre target (sorted_set C) (fst s)
             \<and> rmap validated_relative_path ?ps = Inr C \<and> captured_paths (mu_hist env) L ?ps pre \<and> kept env pre s"
    have b: "hoare (at_rest L J) (attempt (begin_primitive env pm k)) ?B ?R"
      by (rule hoare_weaken [OF hoare_attempt [OF begin_primitive_pending [OF assms(1), of L J]], where Q' = ?B and R' = ?R])
        (auto split: sum.splits)
    show "hoare (at_rest L J) (mbind (attempt (begin_primitive env pm k)) (\<lambda>r.
       case r of
         Inl e \<Rightarrow> close_primitive env k False e
       | Inr (pre, target_state) \<Rightarrow>
           mcatch (perform_primitive env pm k commit post_verify pre target_state)
             (\<lambda>_. mbind (undo_primitive env k) (\<lambda>(recovered, e). close_primitive env k recovered e)))) ?Q ?R"
    proof (rule hoare_bind [OF b])
      fix r :: "(manifest \<times> state_map) res"
      show "hoare (?B r) (case r of
         Inl e \<Rightarrow> close_primitive env k False e
       | Inr (pre, target_state) \<Rightarrow>
           mcatch (perform_primitive env pm k commit post_verify pre target_state)
             (\<lambda>_. mbind (undo_primitive env k) (\<lambda>(recovered, e). close_primitive env k recovered e))) ?Q ?R"
      proof (cases r)
        case (Inl e)
        then show ?thesis using early by simp
      next
        case (Inr y)
        obtain pre tst where y: "y = (pre, tst)" by fastforce
        show ?thesis
          unfolding Inr y sum.case prod.case
          by (rule hoareI) (use begun [unfolded hoare_def] in \<open>fastforce split: prod.splits sum.splits\<close>)+
      qed
    qed
  qed
qed

end

section \<open>The four commits\<close>

lemma keeps_more_primitives:
  fixes P :: "hist \<Rightarrow> bool"
  assumes "framed P"
  shows "keeps P (transactional_move_file env src dst k n d sp dp)"
    "keeps P (transactional_copy_file env src dst k n d sp dp m)"
  unfolding transactional_move_file_def transactional_copy_file_def
  by (intro keeps_rules keeps_arrive keeps_nodes assms)+

lemma one_change_lift:
  "(\<And>x. r = Inr x \<Longrightarrow> one_change tx change (f x)) \<Longrightarrow> one_change tx change (mbind (mlift r) f)"
  by (cases r) (auto simp: mbind_def mlift_def one_change_def)

lemma one_change_weaken:
  "one_change tx change m \<Longrightarrow> (\<And>l l'. change l l' \<Longrightarrow> change' l l') \<Longrightarrow> one_change tx change' m"
  unfolding one_change_def Let_def by blast

lemma one_change_then_check:
  assumes "one_change tx change m"
  shows "one_change tx change (mbind m (\<lambda>x. mcheck (b x) e))"
  using assms unfolding one_change_def Let_def mbind_def mcheck_def mret_def mfail_def
  by (fastforce split: prod.splits sum.splits if_splits)

definition file_moved :: "tx_env \<Rightarrow> string \<Rightarrow> string \<Rightarrow> path_identity \<Rightarrow> string \<Rightarrow> live \<Rightarrow> live \<Rightarrow> bool" where
  "file_moved tx src dst i digest l l' \<longleftrightarrow> (\<exists>k. key_is i k \<and> moved tx src dst k (file_size i) digest l l')"

definition file_copied :: "tx_env \<Rightarrow> string \<Rightarrow> string \<Rightarrow> path_identity \<Rightarrow> string \<Rightarrow> live \<Rightarrow> live \<Rightarrow> bool" where
  "file_copied tx src dst i digest l l' \<longleftrightarrow> (\<exists>k. key_is i k \<and> copied tx src dst k (file_size i) digest l l')"

interpretation moving: one_effect tx "commit_move tx src dst sp dp i digest" "file_moved tx src dst i digest"
proof unfold_locales
  show "one_change tx (file_moved tx src dst i digest) (commit_move tx src dst sp dp i digest)"
    unfolding commit_move_def
    by (intro one_change_lift one_change_weaken [OF move_change]) (auto simp: native_identity_Inr file_moved_def)
  show "framed P \<Longrightarrow> keeps P (commit_move tx src dst sp dp i digest)" for P :: "hist \<Rightarrow> bool"
    unfolding commit_move_def by (intro keeps_rules keeps_more_primitives)
qed

interpretation copying: one_effect tx "commit_copy tx src dst sp dp i digest m" "file_copied tx src dst i digest"
proof unfold_locales
  show "one_change tx (file_copied tx src dst i digest) (commit_copy tx src dst sp dp i digest m)"
    unfolding commit_copy_def
    by (intro one_change_lift one_change_weaken [OF copy_change]) (auto simp: native_identity_Inr file_copied_def)
  show "framed P \<Longrightarrow> keeps P (commit_copy tx src dst sp dp i digest m)" for P :: "hist \<Rightarrow> bool"
    unfolding commit_copy_def by (intro keeps_rules keeps_more_primitives)
qed

interpretation deleting: one_effect tx "commit_delete tx p pi i digest" "file_committed_away tx p i digest"
  by unfold_locales (auto intro: commit_delete_change keeps_commits)

interpretation creating: one_effect "mu_tx env" "commit_made_directories env pq missing i"
    "directories_created (mu_tx env) (pq_target pq)"
proof unfold_locales
  show "one_change (mu_tx env) (directories_created (mu_tx env) (pq_target pq)) (commit_made_directories env pq missing i)"
    unfolding commit_made_directories_def commit_directories_def
    by (intro one_change_then_check one_change_lift create_directories_change)
  show "framed P \<Longrightarrow> keeps P (commit_made_directories env pq missing i)" for P :: "hist \<Rightarrow> bool"
    unfolding commit_made_directories_def by (intro keeps_rules keeps_commits)
qed

section \<open>The tools\<close>

lemma looks_rest:
  assumes "no_interference (mu_tx env)"
  shows "hoare (at_rest L J) (on_fst (looks env f)) (\<lambda>x s. at_rest L J s \<and> f L = Inr x) (\<lambda>_. at_rest L J)"
proof -
  have "hoare (\<lambda>h. tx_live h = L \<and> h_journal h = J) (looks env f)
      (\<lambda>x h. (tx_live h = L \<and> h_journal h = J) \<and> f L = Inr x) (\<lambda>_ h. tx_live h = L \<and> h_journal h = J)"
    unfolding looks_def
    by (rule hoare_bind [OF keeps_rest_arrive [OF assms, unfolded keeps_hoare]], rule hoare_get_then, rule hoare_lift) auto
  from hoare_on_fst [OF this] show ?thesis unfolding at_rest_def [abs_def] .
qed

lemma keeps_rest_look:
  assumes "no_interference (mu_tx env)"
  shows "keeps (at_rest L J) (on_fst (looks env f))" "keeps (at_rest L J) (on_fst (arrive (mu_tx env)))"
    "keeps (at_rest L J) (prepare_tool env)"
proof -
  show "keeps (at_rest L J) (on_fst (looks env f))"
    unfolding keeps_hoare by (rule hoare_weaken [OF looks_rest [OF assms]]) auto
  show "keeps (at_rest L J) (on_fst (arrive (mu_tx env)))"
    unfolding at_rest_def [abs_def] by (rule keeps_on_fst [OF keeps_rest_arrive [OF assms]])
  show "keeps (at_rest L J) (prepare_tool env)"
    unfolding prepare_tool_def require_mutation_ready_def at_rest_def [abs_def]
    by (intro keeps_rules keeps_on_fst keeps_rest_arrive assms)
qed

lemma rest_then:
  assumes "keeps (at_rest L J) m" "\<And>x. hoare (at_rest L J) (g x) Q (\<lambda>_. at_rest L J)"
  shows "hoare (at_rest L J) (mbind m g) Q (\<lambda>_. at_rest L J)"
  by (rule hoare_bind [OF assms(1) [unfolded keeps_hoare] assms(2)])

lemma rejected_rest:
  assumes "no_interference (mu_tx env)" "hoare (at_rest L J) m Q (\<lambda>_. at_rest L J)"
  shows "hoare (at_rest L J) (or_rejected env pq m) Q (\<lambda>_. at_rest L J)"
proof -
  have "keeps (at_rest L J) (mbind (audit_rejection env (pq_rejected pq) e) (\<lambda>_. mfail e))" for e
    by (intro keeps_rules keeps_rest_audit assms(1))
  then have "hoare (at_rest L J) (mbind (audit_rejection env (pq_rejected pq) e) (\<lambda>_. mfail e)) Q (\<lambda>_. at_rest L J)" for e
    unfolding hoare_def keeps_def by (fastforce simp: op_simps mbind_def mfail_def split: prod.splits sum.splits)
  then show ?thesis unfolding or_rejected_def by (rule hoare_catch [OF assms(2)])
qed

text \<open>A tool: it looks, then runs its primitive on what it saw.\<close>

lemma tool_runs:
  assumes "no_interference (mu_tx env)"
    and "hoare (at_rest L J) m (\<lambda>x s. at_rest L J s \<and> S x) (\<lambda>_. at_rest L J)"
    and "\<And>x. S x \<Longrightarrow> hoare (at_rest L J) (g x) (\<lambda>_ s. primitive_accounted env L (ps x) (fst s) \<and> ran env L (ps x) (change x) (fst s))
      (\<lambda>_ s. run_accounted env L J (ps x) (fst s))"
    and "mbind (or_rejected env pq m) g (h, db) = ((h', db'), r)" "tx_live h = L" "h_journal h = J"
  shows "(tx_live h' = L \<and> h_journal h' = J) \<or> (\<exists>x. S x \<and> primitive_accounted env L (ps x) h')"
    "r = Inr y \<Longrightarrow> \<exists>x. S x \<and> ran env L (ps x) (change x) h'"
proof -
  have st: "at_rest L J (h, db)" using assms(5,6) by (simp add: at_rest_def)
  note o = rejected_rest [OF assms(1,2)]
  consider e where "or_rejected env pq m (h, db) = ((h', db'), Inl e)" "r = Inl e"
    | t x where "or_rejected env pq m (h, db) = (t, Inr x)" "g x t = ((h', db'), r)"
    using assms(4) by (cases "or_rejected env pq m (h, db)") (auto simp: mbind_def split: sum.splits)
  then have "((tx_live h' = L \<and> h_journal h' = J) \<or> (\<exists>x. S x \<and> primitive_accounted env L (ps x) h'))
      \<and> (\<forall>y. r = Inr y \<longrightarrow> (\<exists>x. S x \<and> ran env L (ps x) (change x) h'))"
  proof cases
    case 1
    then show ?thesis using hoareD2 [OF o st 1(1)] by (simp add: at_rest_def)
  next
    case (2 t x)
    have x: "at_rest L J t" "S x" using hoareD1 [OF o st 2(1)] by auto
    show ?thesis
      using hoareD1 [OF assms(3) [OF x(2)] x(1)] hoareD2 [OF assms(3) [OF x(2)] x(1)] 2(2) x(2)
      by (cases r) (fastforce simp: run_accounted_def)+
  qed
  then show "(tx_live h' = L \<and> h_journal h' = J) \<or> (\<exists>x. S x \<and> primitive_accounted env L (ps x) h')"
    "r = Inr y \<Longrightarrow> \<exists>x. S x \<and> ran env L (ps x) (change x) h'" by blast+
qed

lemma keeps_post_look:
  "keeps P (arrive (mu_tx env)) \<Longrightarrow> keeps P (looks env f)"
  unfolding looks_def by (intro keeps_rules)

lemma prepare_move_rest:
  assumes "no_interference (mu_tx env)"
  shows "hoare (at_rest L J) (prepare_move env pq) (\<lambda>mo s. at_rest L J s \<and> look_move env pq L = Inr mo) (\<lambda>_. at_rest L J)"
  unfolding prepare_move_def by (intro rest_then keeps_rest_look keeps_check looks_rest assms)

lemma prepare_delete_rest:
  assumes "no_interference (mu_tx env)"
  shows "hoare (at_rest L J) (prepare_delete env pq) (\<lambda>de s. at_rest L J s \<and> look_delete env pq L = Inr de) (\<lambda>_. at_rest L J)"
  unfolding prepare_delete_def by (intro rest_then keeps_rest_look looks_rest assms)

lemma prepare_copy_rest:
  assumes "no_interference (mu_tx env)"
  shows "hoare (at_rest L J) (prepare_copy env pq) (\<lambda>mo s. at_rest L J s \<and> look_copy env pq L = Inr mo) (\<lambda>_. at_rest L J)"
proof -
  have late: "hoare (\<lambda>s. at_rest L J s \<and> look_copy env pq L = Inr mo) (mbind (on_fst (mget f)) (\<lambda>quota. mbind (mlift quota) (\<lambda>_. mret mo)))
      (\<lambda>mo s. at_rest L J s \<and> look_copy env pq L = Inr mo) (\<lambda>_. at_rest L J)" for mo and f :: "hist \<Rightarrow> unit res"
    by (rule hoareI) (auto simp: op_simps mget_def on_fst_def at_rest_def)
  show ?thesis
    unfolding prepare_copy_def
    by (rule rest_then, (intro keeps_rest_look assms)[1], rule rest_then, (intro keeps_rest_look assms)[1],
      rule rest_then, (intro keeps_rest_look assms)[1],
      rule hoare_bind [where Q = "\<lambda>mo s. at_rest L J s \<and> look_copy env pq L = Inr mo"], rule looks_rest [OF assms], rule late)
qed

lemma prepare_directory_rest:
  assumes "no_interference (mu_tx env)"
  shows "hoare (at_rest L J) (prepare_directory env pq) (\<lambda>_. at_rest L J) (\<lambda>_. at_rest L J)"
  unfolding keeps_hoare [symmetric] prepare_directory_def
  by (intro keeps_rules keeps_prod keeps_rest_look assms)

lemma look_move_Inr:
  "look_move env pq L = Inr mo \<Longrightarrow> mo_sha mo = pq_expected pq"
  by (auto simp: look_move_def Let_def rbind_eq_Inr digest_of_def split: option.splits if_splits)

lemma look_delete_Inr:
  "look_delete env pq L = Inr de \<Longrightarrow> de_sha de = pq_expected pq"
  by (auto simp: look_delete_def Let_def rbind_eq_Inr digest_of_def split: option.splits if_splits)

lemma look_copy_Inr:
  "look_copy env pq L = Inr mo \<Longrightarrow> mo_sha mo = pq_expected pq"
  by (auto simp: look_copy_def Let_def rbind_eq_Inr digest_of_def split: option.splits if_splits)

lemma primitive_of_scope [simp]: "pm_scope (primitive_of pq tool ps chg dels dirs) = ps"
  by (simp add: primitive_of_def)

definition completed_journal :: "hist \<Rightarrow> bool" where
  "completed_journal h \<longleftrightarrow> (\<exists>j. h_journal h = Some j \<and> j_state j = Complete \<and> j_reconciled j)"

text \<open>
  C6. A move ends in one of two ways whatever fails and wherever the process ends: nothing happened and
  there is no new journal, or a journal binds the move to the checkpoint of both paths, whose content
  the store holds, and says recovered only when both are again as they were. A move that returns has
  moved the file the caller named by its digest, as the same object, to a name that was free, and
  closed its journal.
\<close>

theorem move_file_safe:
  assumes "no_interference (mu_tx env)" "move_file env pq (h, db) = ((h', db'), r)"
  shows "((tx_live h' = tx_live h \<and> h_journal h' = h_journal h)
      \<or> primitive_accounted env (tx_live h) [pq_source pq, pq_target pq] h')
    \<and> (\<forall>y. r = Inr y \<longrightarrow> completed_journal h'
         \<and> (\<exists>i data. map_of (tx_live h) (pq_source pq) = Some (LiveFile i 1 data) \<and> tx_sha (mu_tx env) data = pq_expected pq
              \<and> (\<not> path_exists (mu_tx env) (tx_live h) (pq_target pq) \<or> case_only (mu_tx env) (pq_source pq) (pq_target pq))
              \<and> tx_live h' = AList.update (pq_target pq) (LiveFile i 1 data) (AList.delete (pq_source pq) (tx_live h))))"
proof -
  let ?ps = "\<lambda>mo :: moving. [pq_source pq, pq_target pq]"
  let ?change = "\<lambda>mo. file_moved (mu_tx env) (pq_source pq) (pq_target pq) (mo_source mo) (mo_sha mo)"
  have post: "keeps P (mret ())" for P :: "hist \<Rightarrow> bool" by (rule keeps_ret)
  have run: "hoare (at_rest L J) (run_filesystem_primitive env
         (primitive_of pq ''move_file'' (?ps mo) [(pq_target pq, mo_data mo)] [pq_source pq] [])
         (commit_move (mu_tx env) (pq_source pq) (pq_target pq) (mo_source_parent mo) (mo_target_parent mo)
            (mo_source mo) (mo_sha mo)) (mret ()))
      (\<lambda>_ s. primitive_accounted env L (?ps mo) (fst s) \<and> ran env L (?ps mo) (?change mo) (fst s))
      (\<lambda>_ s. run_accounted env L J (?ps mo) (fst s))" for L J mo
    using moving.runs [OF assms(1) refl post, of L J
        "primitive_of pq ''move_file'' (?ps mo) [(pq_target pq, mo_data mo)] [pq_source pq] []"] by simp
  note t = tool_runs [where ps = ?ps and change = ?change and S = "\<lambda>mo. look_move env pq (tx_live h) = Inr mo",
      OF assms(1) prepare_move_rest [OF assms(1)] run assms(2) [unfolded move_file_def] refl refl]
  have "completed_journal h' \<and> (\<exists>i data. map_of (tx_live h) (pq_source pq) = Some (LiveFile i 1 data) \<and> tx_sha (mu_tx env) data = pq_expected pq
              \<and> (\<not> path_exists (mu_tx env) (tx_live h) (pq_target pq) \<or> case_only (mu_tx env) (pq_source pq) (pq_target pq))
              \<and> tx_live h' = AList.update (pq_target pq) (LiveFile i 1 data) (AList.delete (pq_source pq) (tx_live h)))"
    if "r = Inr y" for y
    using t(2) [OF that] by (auto simp: ran_def completed_journal_def file_moved_def moved_def
        dest!: look_move_Inr split: if_splits)
  then show ?thesis using t(1) by blast
qed

definition demo_move :: primitive_request where
  "demo_move =
     \<lparr>pq_source = ''d/a'', pq_target = ''d/c'', pq_expected = length_sha [65], pq_parents = False, pq_reason = [],
      pq_row = demo_new ''w'', pq_rejected = demo_new ''x'', pq_result_text = ''r''\<rparr>"

abbreviation moved_demo :: "(nat \<Rightarrow> tx_event) \<Rightarrow> work \<times> change_summary res" where
  "moved_demo events \<equiv> move_file (demo_mut_env events) demo_move demo_work"

lemma move_file_safe_witness:
  "file_data (tx_live (fst (fst (moved_demo quiet)))) ''d/c'' = [65]
   \<and> completed_journal (fst (fst (moved_demo quiet)))
   \<and> primitive_accounted (demo_mut_env (crash_at 13)) (tx_live demo_hist) [''d/a'', ''d/c''] (fst (fst (moved_demo (crash_at 13))))"
proof -
  obtain h' db' r where m: "moved_demo quiet = ((h', db'), r)" by (metis surj_pair)
  have "case snd (moved_demo quiet) of Inr x \<Rightarrow> True | Inl e \<Rightarrow> False" by code_simp
  then obtain x where r: "r = Inr x" unfolding m by (auto split: sum.splits)
  have closed: "completed_journal h'"
    using move_file_safe [OF demo_no_interference(2) m [unfolded demo_work_def]] r by blast
  have content: "file_data (tx_live (fst (fst (moved_demo quiet)))) ''d/c'' = [65]" by code_simp
  obtain g dg q where c: "moved_demo (crash_at 13) = ((g, dg), q)" by (metis surj_pair)
  have "map_of (tx_live (fst (fst (moved_demo (crash_at 13))))) ''d/a'' \<noteq> map_of (tx_live demo_hist) ''d/a''" by code_simp
  then have "tx_live g \<noteq> tx_live demo_hist" unfolding c by auto
  then have "primitive_accounted (demo_mut_env (crash_at 13)) (tx_live demo_hist) [''d/a'', ''d/c''] g"
    using move_file_safe [OF demo_no_interference(1) c [unfolded demo_work_def]] by (simp add: demo_move_def)
  then show ?thesis using closed content m c by simp
qed

text \<open>
  A move whose journal cannot be closed, or whose last event cannot be written, after its audit row
  says succeeded, is reported as failed. In the first case the file is moved back under a row that
  keeps saying succeeded. In the second the finished journal cannot be rolled back, is marked as
  needing recovery, and blocks every later mutation, although file and row agree that it succeeded.
\<close>

theorem late_move_failures:
  "write_outcome ''d/a'' ''w'' (moved_demo (fault_at 18))
     = ([65], Some FailedRecovered, Some (SqlText ''succeeded'', SqlText ''failed_recovered''), False)
   \<and> write_outcome ''d/c'' ''w'' (moved_demo (fault_at 19))
     = ([65], Some RecoveryRequired, Some (SqlText ''succeeded'', SqlText ''recovery_required''), False)
   \<and> (case require_mutation_ready (demo_mut_env quiet) (fst (moved_demo (fault_at 19))) of
        (_, Inl _) \<Rightarrow> True | (_, Inr _) \<Rightarrow> False)"
  by code_simp

text \<open>The other three, in the same way.\<close>

theorem delete_file_safe:
  assumes "no_interference (mu_tx env)" "delete_file env pq (h, db) = ((h', db'), r)"
  shows "((tx_live h' = tx_live h \<and> h_journal h' = h_journal h) \<or> primitive_accounted env (tx_live h) [pq_target pq] h')
    \<and> (\<forall>y. r = Inr y \<longrightarrow> completed_journal h'
         \<and> (\<exists>i data. map_of (tx_live h) (pq_target pq) = Some (LiveFile i 1 data) \<and> tx_sha (mu_tx env) data = pq_expected pq
              \<and> tx_live h' = AList.delete (pq_target pq) (tx_live h)))"
proof -
  let ?ps = "\<lambda>de :: deleting. [pq_target pq]"
  let ?change = "\<lambda>de. file_committed_away (mu_tx env) (pq_target pq) (de_target de) (de_sha de)"
  have post: "keeps P (mret ())" for P :: "hist \<Rightarrow> bool" by (rule keeps_ret)
  have run: "hoare (at_rest L J) (run_filesystem_primitive env
         (primitive_of pq ''delete_file'' (?ps de) [] [pq_target pq] [])
         (commit_delete (mu_tx env) (pq_target pq) (de_parent de) (de_target de) (de_sha de)) (mret ()))
      (\<lambda>_ s. primitive_accounted env L (?ps de) (fst s) \<and> ran env L (?ps de) (?change de) (fst s))
      (\<lambda>_ s. run_accounted env L J (?ps de) (fst s))" for L J de
    using deleting.runs [OF assms(1) refl post, of L J
        "primitive_of pq ''delete_file'' (?ps de) [] [pq_target pq] []"] by simp
  note t = tool_runs [where ps = ?ps and change = ?change and S = "\<lambda>de. look_delete env pq (tx_live h) = Inr de",
      OF assms(1) prepare_delete_rest [OF assms(1)] run assms(2) [unfolded delete_file_def] refl refl]
  have "completed_journal h' \<and> (\<exists>i data. map_of (tx_live h) (pq_target pq) = Some (LiveFile i 1 data) \<and> tx_sha (mu_tx env) data = pq_expected pq
              \<and> tx_live h' = AList.delete (pq_target pq) (tx_live h))" if "r = Inr y" for y
    using t(2) [OF that]
    by (auto simp: ran_def completed_journal_def file_committed_away_def removed_file_def dest!: look_delete_Inr)
  then show ?thesis using t(1) by blast
qed

theorem copy_file_safe:
  assumes "no_interference (mu_tx env)" "copy_file env pq (h, db) = ((h', db'), r)"
  shows "((tx_live h' = tx_live h \<and> h_journal h' = h_journal h) \<or> primitive_accounted env (tx_live h) [pq_target pq] h')
    \<and> (\<forall>y. r = Inr y \<longrightarrow> completed_journal h'
         \<and> (\<exists>i j data. map_of (tx_live h) (pq_source pq) = Some (LiveFile i 1 data) \<and> tx_sha (mu_tx env) data = pq_expected pq
              \<and> \<not> path_exists (mu_tx env) (tx_live h) (pq_target pq)
              \<and> tx_live h' = AList.update (pq_target pq) (LiveFile j 1 data) (tx_live h)))"
proof -
  let ?ps = "\<lambda>mo :: moving. [pq_target pq]"
  let ?change = "\<lambda>mo. file_copied (mu_tx env) (pq_source pq) (pq_target pq) (mo_source mo) (mo_sha mo)"
  have post: "keeps P (source_unchanged env pq mo)" if "keeps P (arrive (mu_tx env))" for P mo
    unfolding source_unchanged_def by (rule keeps_post_look [OF that])
  have run: "hoare (at_rest L J) (run_filesystem_primitive env
         (primitive_of pq ''copy_file'' (?ps mo) [(pq_target pq, mo_data mo)] [] [])
         (commit_copy (mu_tx env) (pq_source pq) (pq_target pq) (mo_source_parent mo) (mo_target_parent mo)
            (mo_source mo) (mo_sha mo) (mu_max_backup env)) (source_unchanged env pq mo))
      (\<lambda>_ s. primitive_accounted env L (?ps mo) (fst s) \<and> ran env L (?ps mo) (?change mo) (fst s))
      (\<lambda>_ s. run_accounted env L J (?ps mo) (fst s))" for L J mo
    using copying.runs [OF assms(1) refl post, of L J
        "primitive_of pq ''copy_file'' (?ps mo) [(pq_target pq, mo_data mo)] [] []"] by simp
  note t = tool_runs [where ps = ?ps and change = ?change and S = "\<lambda>mo. look_copy env pq (tx_live h) = Inr mo",
      OF assms(1) prepare_copy_rest [OF assms(1)] run assms(2) [unfolded copy_file_def] refl refl]
  have "completed_journal h' \<and> (\<exists>i j data. map_of (tx_live h) (pq_source pq) = Some (LiveFile i 1 data) \<and> tx_sha (mu_tx env) data = pq_expected pq
              \<and> \<not> path_exists (mu_tx env) (tx_live h) (pq_target pq)
              \<and> tx_live h' = AList.update (pq_target pq) (LiveFile j 1 data) (tx_live h))" if "r = Inr y" for y
    using t(2) [OF that] by (auto simp: ran_def completed_journal_def file_copied_def copied_def dest!: look_copy_Inr)
  then show ?thesis using t(1) by blast
qed

end
