(* ===== verification/Locks.thy ===== *)
theory Locks
  imports Prelude
begin

text \<open>
  The locks of \<open>resources.py\<close>. A workspace lock is a set of slots, one byte lock per slot between the
  processes and one re-entrant lock per slot and process between the threads, taken one after the
  other in ascending order by polling. The named control-plane lock nests within a thread.
\<close>

section \<open>Which slots a lock takes\<close>

definition lock_slot_count :: nat where
  "lock_slot_count = 32"

definition big_endian :: "bytes \<Rightarrow> nat" where
  "big_endian = foldl (\<lambda>n b. n * 256 + unat b) 0"

text \<open>The digest of the canonical path, as \<open>hashlib\<close> gives it, is a parameter.\<close>

definition target_slot :: "(string \<Rightarrow> bytes) \<Rightarrow> string \<Rightarrow> nat" where
  "target_slot digest target = big_endian (take 8 (digest target)) mod lock_slot_count"

definition select_targets :: "string option \<Rightarrow> string list option \<Rightarrow> string list option res" where
  "select_targets target targets =
     (if target \<noteq> None \<and> targets \<noteq> None
      then Inl (ValueError ''target and targets are mutually exclusive'')
      else (let selected = (case targets of Some ts \<Rightarrow> Some ts | None \<Rightarrow> map_option (\<lambda>t. [t]) target)
            in if selected = Some [] then Inl (ValueError ''targets must identify at least one path'')
               else Inr selected))"

definition lock_slots :: "(string \<Rightarrow> bytes) \<Rightarrow> string list option \<Rightarrow> nat list" where
  "lock_slots digest selected =
     (case selected of
        Some ts \<Rightarrow> sorted_list_of_set (set (map (target_slot digest) ts))
      | None \<Rightarrow> [0..<lock_slot_count])"

section \<open>Waiting for one slot\<close>

text \<open>
  What the \<open>n\<close>-th turn of the loop in \<open>_acquire_slot\<close> finds: the monotonic clock, whether the lock of
  the process is free, and whether the byte can be locked.
\<close>

record lock_polls =
  po_clock :: "nat \<Rightarrow> int"
  po_local :: "nat \<Rightarrow> bool"
  po_byte :: "nat \<Rightarrow> bool"

partial_function (option) acquire_slot :: "lock_polls \<Rightarrow> int \<Rightarrow> nat \<Rightarrow> (nat res) option" where
  "acquire_slot po deadline n =
     (if deadline \<le> po_clock po n then Some (Inl (TimeoutError ''workspace execution lock timed out''))
      else if po_local po n \<and> po_byte po n then Some (Inr n)
      else acquire_slot po deadline (Suc n))"

declare acquire_slot.simps [code]

text \<open>Each turn that fails sleeps: the clock then shows at least the pause more.\<close>

definition sleeps :: "int \<Rightarrow> lock_polls \<Rightarrow> bool" where
  "sleeps pause po \<longleftrightarrow> (\<forall>n. po_clock po n + pause \<le> po_clock po (Suc n))"

lemma sleeps_after:
  assumes "sleeps pause po"
  shows "po_clock po n + int k * pause \<le> po_clock po (n + k)"
proof (induction k)
  case (Suc k)
  then have "po_clock po n + int k * pause + pause \<le> po_clock po (Suc (n + k))"
    using assms unfolding sleeps_def by (meson add_le_cancel_right order_trans)
  then show ?case by (simp add: algebra_simps)
qed simp

definition usable :: "lock_polls \<Rightarrow> nat \<Rightarrow> bool" where
  "usable po n \<longleftrightarrow> po_local po n \<and> po_byte po n"

lemma acquire_slot_step:
  "deadline \<le> po_clock po n \<Longrightarrow> acquire_slot po deadline n = Some (Inl (TimeoutError ''workspace execution lock timed out''))"
  "po_clock po n < deadline \<Longrightarrow> usable po n \<Longrightarrow> acquire_slot po deadline n = Some (Inr n)"
  "po_clock po n < deadline \<Longrightarrow> \<not> usable po n \<Longrightarrow> acquire_slot po deadline n = acquire_slot po deadline (Suc n)"
  by (auto simp: acquire_slot.simps [of po deadline n] usable_def)

lemma acquire_slot_within:
  assumes "deadline \<le> po_clock po (n + k)"
  shows "(acquire_slot po deadline n = Some (Inl (TimeoutError ''workspace execution lock timed out''))
          \<and> (\<exists>m \<le> n + k. deadline \<le> po_clock po m))
      \<or> (\<exists>m. n \<le> m \<and> m < n + k \<and> acquire_slot po deadline n = Some (Inr m) \<and> po_clock po m < deadline \<and> usable po m)"
  using assms
proof (induction k arbitrary: n)
  case 0
  then show ?case by (auto simp: acquire_slot_step(1))
next
  case (Suc k)
  consider "deadline \<le> po_clock po n" | "po_clock po n < deadline" "usable po n" | "po_clock po n < deadline" "\<not> usable po n"
    by linarith
  then show ?case
  proof cases
    case 3
    then show ?thesis
      using Suc.IH [of "Suc n"] Suc.prems by (auto simp: acquire_slot_step(3) intro: Suc_leD)
  qed (use acquire_slot_step in \<open>auto intro!: exI [of _ n]\<close>)
qed

text \<open>
  C14. Waiting for a slot ends: as long as a turn of the loop that fails takes at least the pause it
  sleeps, the loop returns after at most as many turns as pauses fit before the deadline, with a
  timeout at or after the deadline, or with the slot, found free before it.
\<close>

theorem acquire_slot_terminates:
  assumes "sleeps pause po" "0 < pause"
  shows "(acquire_slot po deadline 0 = Some (Inl (TimeoutError ''workspace execution lock timed out''))
          \<and> (\<exists>n \<le> nat ((deadline - po_clock po 0) div pause) + 1. deadline \<le> po_clock po n))
      \<or> (\<exists>n \<le> nat ((deadline - po_clock po 0) div pause).
           acquire_slot po deadline 0 = Some (Inr n) \<and> po_clock po n < deadline \<and> usable po n)"
proof -
  let ?d = "(deadline - po_clock po 0) div pause"
  have "deadline - po_clock po 0 < pause * (?d + 1)"
    using assms(2) by (metis add.commute div_pos_geq int_distrib(2) mult.right_neutral
        pos_mod_bound mult_div_mod_eq add_less_cancel_left)
  also have "\<dots> \<le> pause * int (nat ?d + 1)" using assms(2) by (intro mult_left_mono) auto
  finally have "deadline \<le> po_clock po (0 + (nat ?d + 1))"
    using sleeps_after [OF assms(1), of 0 "nat ?d + 1"] by (simp add: algebra_simps)
  from acquire_slot_within [OF this] show ?thesis by (auto simp: less_Suc_eq_le)
qed

lemma acquire_slot_terminates_witness:
  "\<exists>po. sleeps 50 po \<and> acquire_slot po 120 0 = Some (Inl (TimeoutError ''workspace execution lock timed out''))"
proof -
  let ?po = "\<lparr>po_clock = (\<lambda>n. 50 * int n), po_local = (\<lambda>n. n \<noteq> 1), po_byte = (\<lambda>n. n = 1)\<rparr>"
  have "sleeps 50 ?po" by (simp add: sleeps_def)
  moreover from this have "acquire_slot ?po 120 0 = Some (Inl (TimeoutError ''workspace execution lock timed out''))"
    using acquire_slot_terminates [of 50 ?po 120] by (auto simp: usable_def)
  ultimately show ?thesis by blast
qed

section \<open>Processes and threads\<close>

text \<open>
  A thread in a \<open>with\<close> block: waiting for the slots still missing, holding the lock of its process for
  one of them and about to try its byte, or inside. Every caller has one such block per thread, and
  the slots of one block are distinct, so that the re-entrant lock of the process is taken at most
  once by a thread: it is its owner.
\<close>

datatype lock_phase = Waiting "nat list" | Trying nat "nat list" | Inside

record lock_agent =
  la_process :: nat
  la_targets :: "string list option"
  la_held :: "nat list"
  la_phase :: lock_phase

record lock_state =
  lk_agents :: "nat \<rightharpoonup> lock_agent"
  lk_local :: "nat \<times> nat \<Rightarrow> nat option"
  lk_byte :: "nat \<Rightarrow> nat option"

definition no_locks :: lock_state where
  "no_locks = \<lparr>lk_agents = (\<lambda>_. None), lk_local = (\<lambda>_. None), lk_byte = (\<lambda>_. None)\<rparr>"

fun pending_slots :: "lock_phase \<Rightarrow> nat list" where
  "pending_slots (Waiting xs) = xs"
| "pending_slots (Trying k xs) = k # xs"
| "pending_slots Inside = []"

definition release_slot :: "nat \<Rightarrow> lock_state \<Rightarrow> nat \<Rightarrow> lock_state" where
  "release_slot p st k = st\<lparr>lk_byte := (lk_byte st)(k := None), lk_local := (lk_local st)((p, k) := None)\<rparr>"

text \<open>\<open>_release_all\<close> pops the slot taken last first.\<close>

definition release_all :: "nat \<Rightarrow> lock_agent \<Rightarrow> lock_state \<Rightarrow> lock_state" where
  "release_all t a st = foldl (release_slot (la_process a)) (st\<lparr>lk_agents := (lk_agents st)(t := None)\<rparr>) (la_held a)"

text \<open>The turns of the loop and the way into the block.\<close>

inductive acquire_step :: "lock_state \<Rightarrow> lock_state \<Rightarrow> bool" where
  take_local:
    "lk_agents st t = Some a \<Longrightarrow> la_phase a = Waiting (k # ks) \<Longrightarrow> lk_local st (la_process a, k) = None \<Longrightarrow>
     acquire_step st (st\<lparr>lk_local := (lk_local st)((la_process a, k) := Some t),
                         lk_agents := (lk_agents st)(t \<mapsto> a\<lparr>la_phase := Trying k ks\<rparr>)\<rparr>)"
| take_byte:
    "lk_agents st t = Some a \<Longrightarrow> la_phase a = Trying k ks \<Longrightarrow> lk_byte st k = None \<Longrightarrow>
     acquire_step st (st\<lparr>lk_byte := (lk_byte st)(k \<mapsto> t),
                         lk_agents := (lk_agents st)(t \<mapsto> a\<lparr>la_held := k # la_held a, la_phase := Waiting ks\<rparr>)\<rparr>)"
| give_up:
    "lk_agents st t = Some a \<Longrightarrow> la_phase a = Trying k ks \<Longrightarrow> lk_byte st k \<noteq> None \<Longrightarrow>
     acquire_step st (st\<lparr>lk_local := (lk_local st)((la_process a, k) := None),
                         lk_agents := (lk_agents st)(t \<mapsto> a\<lparr>la_phase := Waiting (k # ks)\<rparr>)\<rparr>)"
| enter:
    "lk_agents st t = Some a \<Longrightarrow> la_phase a = Waiting [] \<Longrightarrow>
     acquire_step st (st\<lparr>lk_agents := (lk_agents st)(t \<mapsto> a\<lparr>la_phase := Inside\<rparr>)\<rparr>)"

text \<open>
  What else happens: a block begins, times out before a turn, is left, or its process ends and the
  operating system releases what it held.
\<close>

definition end_process :: "nat \<Rightarrow> lock_state \<Rightarrow> lock_state" where
  "end_process p st =
     (let gone = (\<lambda>t. case lk_agents st t of Some a \<Rightarrow> la_process a = p | None \<Rightarrow> False)
      in \<lparr>lk_agents = (\<lambda>t. if gone t then None else lk_agents st t),
          lk_local = (\<lambda>(q, k). if q = p then None else lk_local st (q, k)),
          lk_byte = (\<lambda>k. case lk_byte st k of Some t \<Rightarrow> if gone t then None else Some t | None \<Rightarrow> None)\<rparr>)"

inductive lock_step :: "(string \<Rightarrow> bytes) \<Rightarrow> lock_state \<Rightarrow> lock_state \<Rightarrow> bool" for digest where
  begin_block:
    "lk_agents st t = None \<Longrightarrow> select_targets target targets = Inr selected \<Longrightarrow>
     lock_step digest st (st\<lparr>lk_agents := (lk_agents st)(t \<mapsto> \<lparr>la_process = p, la_targets = selected, la_held = [],
                               la_phase = Waiting (lock_slots digest selected)\<rparr>)\<rparr>)"
| acquire: "acquire_step st st' \<Longrightarrow> lock_step digest st st'"
| time_out: "lk_agents st t = Some a \<Longrightarrow> la_phase a = Waiting (k # ks) \<Longrightarrow> lock_step digest st (release_all t a st)"
| leave: "lk_agents st t = Some a \<Longrightarrow> la_phase a = Inside \<Longrightarrow> lock_step digest st (release_all t a st)"
| process_end: "lock_step digest st (end_process p st)"

inductive_cases acquire_stepE: "acquire_step st st'"
inductive_cases lock_stepE: "lock_step digest st st'"

abbreviation lock_reachable :: "(string \<Rightarrow> bytes) \<Rightarrow> lock_state \<Rightarrow> bool" where
  "lock_reachable digest \<equiv> (lock_step digest)\<^sup>*\<^sup>* no_locks"

subsection \<open>The invariant\<close>

text \<open>
  What an agent holds and still wants is what its block selected, in order; and the two kinds of lock
  are held by exactly the agents that say so.
\<close>

definition tries :: "lock_agent \<Rightarrow> nat \<Rightarrow> bool" where
  "tries a k \<longleftrightarrow> (\<exists>ks. la_phase a = Trying k ks)"

definition sound_agent :: "(string \<Rightarrow> bytes) \<Rightarrow> lock_agent \<Rightarrow> bool" where
  "sound_agent digest a \<longleftrightarrow> la_targets a \<noteq> Some [] \<and> rev (la_held a) @ pending_slots (la_phase a) = lock_slots digest (la_targets a)"

definition lock_inv :: "(string \<Rightarrow> bytes) \<Rightarrow> lock_state \<Rightarrow> bool" where
  "lock_inv digest st \<longleftrightarrow>
     finite (dom (lk_agents st))
     \<and> (\<forall>t a. lk_agents st t = Some a \<longrightarrow> sound_agent digest a)
     \<and> (\<forall>k t. lk_byte st k = Some t \<longleftrightarrow> (\<exists>a. lk_agents st t = Some a \<and> k \<in> set (la_held a)))
     \<and> (\<forall>p k t. lk_local st (p, k) = Some t \<longleftrightarrow>
          (\<exists>a. lk_agents st t = Some a \<and> la_process a = p \<and> (k \<in> set (la_held a) \<or> tries a k)))"

lemma lock_slots_ascending: "sorted_wrt (<) (lock_slots digest selected)"
  by (auto simp: lock_slots_def strict_sorted_iff sorted_wrt_upt split: option.splits)

lemma sound_agent_ascending:
  assumes "sound_agent digest a"
  shows "k \<in> set (la_held a) \<Longrightarrow> k' \<in> set (pending_slots (la_phase a)) \<Longrightarrow> k < k'"
  using assms lock_slots_ascending [of digest "la_targets a"]
  unfolding sound_agent_def by (metis sorted_wrt_append set_rev)

lemma release_slots:
  "lk_agents (foldl (release_slot p) st ks) = lk_agents st"
  "lk_byte (foldl (release_slot p) st ks) k = (if k \<in> set ks then None else lk_byte st k)"
  "lk_local (foldl (release_slot p) st ks) (q, k) = (if q = p \<and> k \<in> set ks then None else lk_local st (q, k))"
  by (induction ks arbitrary: st) (auto simp: release_slot_def)

lemma release_all_sel:
  "lk_agents (release_all t a st) = (lk_agents st)(t := None)"
  "lk_byte (release_all t a st) k = (if k \<in> set (la_held a) then None else lk_byte st k)"
  "lk_local (release_all t a st) (q, k) = (if q = la_process a \<and> k \<in> set (la_held a) then None else lk_local st (q, k))"
  by (simp_all add: release_all_def release_slots)

lemma select_targets_nonempty: "select_targets target targets = Inr selected \<Longrightarrow> selected \<noteq> Some []"
  by (auto simp: select_targets_def Let_def split: if_splits)

lemma lock_inv_start: "lock_inv digest no_locks"
  by (simp add: lock_inv_def no_locks_def)

lemma lock_inv_begin:
  assumes "lock_inv digest st" "lk_agents st t = None" "selected \<noteq> Some []"
  shows "lock_inv digest (st\<lparr>lk_agents := (lk_agents st)(t \<mapsto> \<lparr>la_process = p, la_targets = selected, la_held = [],
           la_phase = Waiting (lock_slots digest selected)\<rparr>)\<rparr>)"
  using assms by (auto simp: lock_inv_def sound_agent_def tries_def)

lemma byte_owner: "lock_inv digest st \<Longrightarrow> lk_agents st t = Some a \<Longrightarrow> k \<in> set (la_held a) \<Longrightarrow> lk_byte st k = Some t"
  unfolding lock_inv_def by blast

lemma local_owner:
  "lock_inv digest st \<Longrightarrow> lk_agents st t = Some a \<Longrightarrow> k \<in> set (la_held a) \<or> tries a k \<Longrightarrow>
   lk_local st (la_process a, k) = Some t"
  unfolding lock_inv_def by blast

lemma byte_held: "lock_inv digest st \<Longrightarrow> lk_byte st k = Some t \<Longrightarrow> lk_agents st t = Some a \<Longrightarrow> k \<in> set (la_held a)"
  unfolding lock_inv_def by fastforce

lemma local_held:
  "lock_inv digest st \<Longrightarrow> lk_local st (p, k) = Some t \<Longrightarrow> lk_agents st t = Some a \<Longrightarrow>
   la_process a = p \<and> (k \<in> set (la_held a) \<or> tries a k)"
  unfolding lock_inv_def by fastforce

lemma agent_sound: "lock_inv digest st \<Longrightarrow> lk_agents st t = Some a \<Longrightarrow> sound_agent digest a"
  unfolding lock_inv_def by blast

text \<open>An agent moves, and the locks follow it.\<close>

lemma lock_inv_upd:
  assumes "lock_inv digest st" "lk_agents st t = Some a" "sound_agent digest b" "la_process b = la_process a"
    and "\<And>k u. lk_byte st' k = Some u \<longleftrightarrow>
           (if u = t then k \<in> set (la_held b) else lk_byte st k = Some u)"
    and "\<And>q k u. lk_local st' (q, k) = Some u \<longleftrightarrow>
           (if u = t then q = la_process a \<and> (k \<in> set (la_held b) \<or> tries b k) else lk_local st (q, k) = Some u)"
    and "lk_agents st' = (lk_agents st)(t \<mapsto> b)"
  shows "lock_inv digest st'"
  using assms(1-4) unfolding lock_inv_def assms(5-7) by auto

lemma lock_inv_release:
  assumes "lock_inv digest st" "lk_agents st t = Some a" "\<And>k. \<not> tries a k"
  shows "lock_inv digest (release_all t a st)"
proof -
  have byte: "lk_byte (release_all t a st) k = Some u \<longleftrightarrow> u \<noteq> t \<and> lk_byte st k = Some u" for k u
    using byte_owner [OF assms(1,2)] byte_held [OF assms(1) _ assms(2)] by (auto simp: release_all_sel)
  have local: "lk_local (release_all t a st) (q, k) = Some u \<longleftrightarrow> u \<noteq> t \<and> lk_local st (q, k) = Some u" for q k u
    using local_owner [OF assms(1,2)] local_held [OF assms(1) _ assms(2)] assms(3) by (auto simp: release_all_sel)
  show ?thesis
    using assms unfolding lock_inv_def byte local release_all_sel(1) by auto
qed

lemma lock_inv_end_process:
  assumes "lock_inv digest st"
  shows "lock_inv digest (end_process p st)"
proof -
  let ?gone = "\<lambda>t. case lk_agents st t of Some a \<Rightarrow> la_process a = p | None \<Rightarrow> False"
  have agents: "lk_agents (end_process p st) t = Some a \<longleftrightarrow> lk_agents st t = Some a \<and> la_process a \<noteq> p" for t a
    by (auto simp: end_process_def Let_def)
  have byte: "lk_byte (end_process p st) k = Some t \<longleftrightarrow> lk_byte st k = Some t \<and> \<not> ?gone t" for k t
    by (auto simp: end_process_def Let_def split: option.splits)
  have local: "lk_local (end_process p st) (q, k) = Some t \<longleftrightarrow> q \<noteq> p \<and> lk_local st (q, k) = Some t" for q k t
    by (auto simp: end_process_def Let_def)
  have "dom (lk_agents (end_process p st)) \<subseteq> dom (lk_agents st)" using agents by fastforce
  then have "finite (dom (lk_agents (end_process p st)))"
    using assms unfolding lock_inv_def by (meson finite_subset)
  then show ?thesis
    using assms unfolding lock_inv_def agents byte local by (auto split: option.splits)
qed

lemma lock_inv_acquire:
  assumes "acquire_step st st'" "lock_inv digest st"
  shows "lock_inv digest st'"
  using assms(1)
proof cases
  case (take_local t a k ks)
  have a: "sound_agent digest a" by (rule agent_sound [OF assms(2) take_local(2)])
  have q: "\<not> tries a k'" for k' using take_local(3) by (simp add: tries_def)
  show ?thesis
    by (rule lock_inv_upd [OF assms(2) take_local(2), where b = "a\<lparr>la_phase := Trying k ks\<rparr>"])
      (use a q take_local byte_owner [OF assms(2) take_local(2)] byte_held [OF assms(2) _ take_local(2)]
        local_owner [OF assms(2) take_local(2)] local_held [OF assms(2) _ take_local(2)] in \<open>auto simp: sound_agent_def tries_def split: if_splits\<close>)
next
  case (take_byte t a k ks)
  have a: "sound_agent digest a" by (rule agent_sound [OF assms(2) take_byte(2)])
  have tr: "tries a j \<longleftrightarrow> j = k" for j using take_byte(3) by (auto simp: tries_def)
  have own: "lk_local st (q, j) = Some t \<longleftrightarrow> q = la_process a \<and> (j = k \<or> j \<in> set (la_held a))" for q j
    using local_owner [OF assms(2) take_byte(2)] local_held [OF assms(2) _ take_byte(2)] tr by metis
  show ?thesis
    by (rule lock_inv_upd [OF assms(2) take_byte(2), where b = "a\<lparr>la_held := k # la_held a, la_phase := Waiting ks\<rparr>"])
      (use a own take_byte byte_owner [OF assms(2) take_byte(2)] byte_held [OF assms(2) _ take_byte(2)]
        in \<open>auto simp: sound_agent_def tries_def split: if_splits\<close>)
next
  case (give_up t a k ks)
  have a: "sound_agent digest a" by (rule agent_sound [OF assms(2) give_up(2)])
  have k: "k \<notin> set (la_held a)" using sound_agent_ascending [OF a, of k k] give_up(3) by auto
  have tr: "tries a j \<longleftrightarrow> j = k" for j using give_up(3) by (auto simp: tries_def)
  have own: "lk_local st (q, j) = Some t \<longleftrightarrow> q = la_process a \<and> (j = k \<or> j \<in> set (la_held a))" for q j
    using local_owner [OF assms(2) give_up(2)] local_held [OF assms(2) _ give_up(2)] tr by metis
  have mine: "lk_local st (la_process a, k) \<noteq> Some u" if "u \<noteq> t" for u using own [of "la_process a" k] that by simp
  show ?thesis
    by (rule lock_inv_upd [OF assms(2) give_up(2), where b = "a\<lparr>la_phase := Waiting (k # ks)\<rparr>"])
      (use a k own mine give_up byte_owner [OF assms(2) give_up(2)] byte_held [OF assms(2) _ give_up(2)]
        in \<open>auto simp: sound_agent_def tries_def split: if_splits\<close>)
next
  case (enter t a)
  have a: "sound_agent digest a" by (rule agent_sound [OF assms(2) enter(2)])
  show ?thesis
    by (rule lock_inv_upd [OF assms(2) enter(2), where b = "a\<lparr>la_phase := Inside\<rparr>"])
      (use a enter byte_owner [OF assms(2) enter(2)] byte_held [OF assms(2) _ enter(2)]
        local_owner [OF assms(2) enter(2)] local_held [OF assms(2) _ enter(2)] in \<open>auto simp: sound_agent_def tries_def split: if_splits\<close>)
qed

lemma lock_inv_step:
  assumes "lock_step digest st st'" "lock_inv digest st"
  shows "lock_inv digest st'"
  using assms(1)
proof cases
  case (begin_block t target targets selected p)
  then show ?thesis using lock_inv_begin [OF assms(2)] select_targets_nonempty by blast
qed (use assms(2) in \<open>auto simp: tries_def intro: lock_inv_acquire lock_inv_release lock_inv_end_process\<close>)

lemma lock_inv_reachable: "lock_reachable digest st \<Longrightarrow> lock_inv digest st"
  by (induction rule: rtranclp_induct) (auto intro: lock_inv_start lock_inv_step)

subsection \<open>Exclusion\<close>

lemma set_lock_slots: "set (lock_slots digest (Some ts)) = target_slot digest ` set ts"
  by (simp add: lock_slots_def)

lemma inside_holds:
  assumes "lock_inv digest st" "lk_agents st t = Some a" "la_phase a = Inside"
  shows "set (la_held a) = set (lock_slots digest (la_targets a))"
  using assms unfolding lock_inv_def sound_agent_def by (metis append_Nil2 pending_slots.simps(3) set_rev)

text \<open>
  C12. Two threads, of one process or of two, are never inside workspace locks that share a slot,
  whatever attempts, timeouts and ends of processes went before: never with a common target, and never
  while one of them locked the whole workspace.
\<close>

theorem workspace_lock_exclusive:
  assumes "lock_reachable digest st" "t \<noteq> u"
    and "lk_agents st t = Some a" "la_phase a = Inside"
    and "lk_agents st u = Some b" "la_phase b = Inside"
  shows "\<exists>ts us. la_targets a = Some ts \<and> la_targets b = Some us
           \<and> target_slot digest ` set ts \<inter> target_slot digest ` set us = {}"
proof -
  have inv: "lock_inv digest st" by (rule lock_inv_reachable [OF assms(1)])
  have apart: "set (lock_slots digest (la_targets a)) \<inter> set (lock_slots digest (la_targets b)) = {}"
  proof (rule ccontr)
    assume "\<not> ?thesis"
    then obtain k where "k \<in> set (la_held a)" "k \<in> set (la_held b)"
      using inside_holds [OF inv assms(3,4)] inside_holds [OF inv assms(5,6)] by blast
    then show False using byte_owner [OF inv assms(3)] byte_owner [OF inv assms(5)] assms(2) by fastforce
  qed
  have some: "la_targets a \<noteq> Some []" "la_targets b \<noteq> Some []"
    using inv assms(3,5) unfolding lock_inv_def sound_agent_def by blast+
  have slot: "target_slot digest x \<in> set [0..<lock_slot_count]" for x
    by (simp add: target_slot_def lock_slot_count_def)
  show ?thesis
  proof (cases "la_targets a"; cases "la_targets b")
    fix ts us assume "la_targets a = Some ts" "la_targets b = Some us"
    then show ?thesis using apart by (auto simp: set_lock_slots)
  next
    fix ts assume *: "la_targets a = Some ts" "la_targets b = None"
    then obtain x xs where "ts = x # xs" using some by (cases ts) auto
    then show ?thesis using apart * slot [of x] set_lock_slots [of digest "x # xs"] by (auto simp: lock_slots_def [of _ None])
  next
    fix us assume *: "la_targets a = None" "la_targets b = Some us"
    then obtain x xs where "us = x # xs" using some by (cases us) auto
    then show ?thesis using apart * slot [of x] set_lock_slots [of digest "x # xs"] by (auto simp: lock_slots_def [of _ None])
  next
    assume "la_targets a = None" "la_targets b = None"
    then show ?thesis using apart by (simp add: lock_slots_def lock_slot_count_def)
  qed
qed

text \<open>Nobody in the way: one thread gets in.\<close>

lemma lone_entry:
  assumes "lk_agents st t = None" "lock_slots digest (Some [x]) = [k]" "lk_byte st k = None" "lk_local st (p, k) = None"
  obtains st' where "(lock_step digest)\<^sup>*\<^sup>* st st'"
    "lk_agents st' = (lk_agents st)(t \<mapsto> \<lparr>la_process = p, la_targets = Some [x], la_held = [k], la_phase = Inside\<rparr>)"
    "lk_byte st' = (lk_byte st)(k \<mapsto> t)" "lk_local st' = (lk_local st)((p, k) \<mapsto> t)"
proof -
  let ?a = "\<lambda>h ph. \<lparr>la_process = p, la_targets = Some [x], la_held = h, la_phase = ph\<rparr>"
  let ?s1 = "st\<lparr>lk_agents := (lk_agents st)(t \<mapsto> ?a [] (Waiting [k]))\<rparr>"
  let ?s2 = "?s1\<lparr>lk_local := (lk_local ?s1)((p, k) := Some t), lk_agents := (lk_agents ?s1)(t \<mapsto> ?a [] (Trying k []))\<rparr>"
  let ?s3 = "?s2\<lparr>lk_byte := (lk_byte ?s2)(k \<mapsto> t), lk_agents := (lk_agents ?s2)(t \<mapsto> ?a [k] (Waiting []))\<rparr>"
  let ?s4 = "?s3\<lparr>lk_agents := (lk_agents ?s3)(t \<mapsto> ?a [k] Inside)\<rparr>"
  have "lock_step digest st ?s1"
    using begin_block [OF assms(1), of "Some x" None "Some [x]" digest p] assms(2) by (simp add: select_targets_def)
  moreover have "lock_step digest ?s1 ?s2"
    using acquire [OF take_local [of ?s1 t "?a [] (Waiting [k])" k "[]"]] assms by simp
  moreover have "lock_step digest ?s2 ?s3"
    using acquire [OF take_byte [of ?s2 t "?a [] (Trying k [])" k "[]"]] assms by simp
  moreover have "lock_step digest ?s3 ?s4"
    using acquire [OF enter [of ?s3 t "?a [k] (Waiting [])"]] by simp
  ultimately have "(lock_step digest)\<^sup>*\<^sup>* st ?s4" by (meson converse_rtranclp_into_rtranclp rtranclp.rtrancl_refl)
  then show thesis by (rule that) simp_all
qed

lemma workspace_lock_exclusive_witness:
  fixes digest :: "string \<Rightarrow> bytes"
  defines "digest \<equiv> (\<lambda>s. if s = ''a'' then [1] else [2])"
  shows "\<exists>st a b. lock_reachable digest st \<and> lk_agents st 0 = Some a \<and> lk_agents st 1 = Some b
     \<and> la_phase a = Inside \<and> la_phase b = Inside
     \<and> (\<exists>ts us. la_targets a = Some ts \<and> la_targets b = Some us \<and> target_slot digest ` set ts \<inter> target_slot digest ` set us = {})"
proof -
  have slots: "lock_slots digest (Some [''a'']) = [1]" "lock_slots digest (Some [''b'']) = [2]"
    by (simp_all add: lock_slots_def target_slot_def digest_def big_endian_def lock_slot_count_def)
  obtain st where 1: "lock_reachable digest st"
    "lk_agents st = (lk_agents no_locks)(0 \<mapsto> \<lparr>la_process = 0, la_targets = Some [''a''], la_held = [1], la_phase = Inside\<rparr>)"
    "lk_byte st = (lk_byte no_locks)(1 \<mapsto> 0)" "lk_local st = (lk_local no_locks)((0, 1) \<mapsto> 0)"
    by (rule lone_entry [of no_locks 0 digest "''a''" 1 0]) (simp_all add: no_locks_def slots)
  obtain st' where 2: "(lock_step digest)\<^sup>*\<^sup>* st st'"
    "lk_agents st' = (lk_agents st)(1 \<mapsto> \<lparr>la_process = 0, la_targets = Some [''b''], la_held = [2], la_phase = Inside\<rparr>)"
    by (rule lone_entry [of st 1 digest "''b''" 2 0]) (simp_all add: 1 no_locks_def slots)
  have r: "lock_reachable digest st'" using 1(1) 2(1) by simp
  obtain a b where ab: "lk_agents st' 0 = Some a" "la_phase a = Inside" "lk_agents st' 1 = Some b" "la_phase b = Inside"
    using 1(2) 2(2) by auto
  show ?thesis using workspace_lock_exclusive [OF r _ ab] r ab by auto
qed

subsection \<open>Progress\<close>

text \<open>A thread that tried a byte is back in its loop after one step, with no more to wait for than before.\<close>

definition wanting :: "lock_state \<Rightarrow> nat" where
  "wanting st = (\<Sum>t\<in>dom (lk_agents st). length (pending_slots (la_phase (the (lk_agents st t)))))"

definition trying :: "lock_state \<Rightarrow> nat set" where
  "trying st = {t. \<exists>a k. lk_agents st t = Some a \<and> tries a k}"

definition somebody_inside :: "lock_state \<Rightarrow> bool" where
  "somebody_inside st \<longleftrightarrow> (\<exists>t a. lk_agents st t = Some a \<and> la_phase a = Inside)"

lemma wanting_upd:
  assumes "finite (dom (lk_agents st))" "lk_agents st t = Some a" "lk_agents st' = (lk_agents st)(t \<mapsto> b)"
  shows "wanting st' + length (pending_slots (la_phase a)) = wanting st + length (pending_slots (la_phase b))"
proof -
  have d: "dom (lk_agents st') = dom (lk_agents st)" "t \<in> dom (lk_agents st)" using assms(2,3) by auto
  have "(\<Sum>u\<in>dom (lk_agents st) - {t}. length (pending_slots (la_phase (the (lk_agents st' u)))))
      = (\<Sum>u\<in>dom (lk_agents st) - {t}. length (pending_slots (la_phase (the (lk_agents st u)))))"
    using assms(3) by (intro sum.cong) auto
  then show ?thesis
    unfolding wanting_def d(1) using assms by (simp add: sum.remove [OF assms(1) d(2)])
qed

lemma settle:
  assumes "lock_inv digest st"
  shows "\<exists>st'. acquire_step\<^sup>*\<^sup>* st st' \<and> trying st' = {} \<and> wanting st' \<le> wanting st
     \<and> dom (lk_agents st') = dom (lk_agents st)"
  using assms
proof (induction "card (trying st)" arbitrary: st rule: less_induct)
  case (less st)
  have fin: "finite (dom (lk_agents st))" using less.prems unfolding lock_inv_def by blast
  then have ft: "finite (trying st)" by (rule rev_finite_subset) (auto simp: trying_def)
  show ?case
  proof (cases "trying st = {}")
    case True
    then show ?thesis by blast
  next
    case False
    then obtain t a k ks where t: "lk_agents st t = Some a" "la_phase a = Trying k ks"
      by (auto simp: trying_def tries_def)
    obtain st1 b where st1: "acquire_step st st1" "lk_agents st1 = (lk_agents st)(t \<mapsto> b)" "\<not> tries b j"
      "length (pending_slots (la_phase b)) \<le> length (pending_slots (la_phase a))" for j
    proof (cases "lk_byte st k")
      case None
      show thesis
        by (rule that [OF take_byte [OF t None], where b = "a\<lparr>la_held := k # la_held a, la_phase := Waiting ks\<rparr>"])
          (simp_all add: tries_def t)
    next
      case (Some u)
      then have "lk_byte st k \<noteq> None" by simp
      then show thesis
        by (intro that [OF give_up [OF t], where b = "a\<lparr>la_phase := Waiting (k # ks)\<rparr>"]) (simp_all add: tries_def t)
    qed
    have "trying st1 = trying st - {t}" using st1(2,3) by (auto simp: trying_def)
    moreover have "t \<in> trying st" using t by (auto simp: trying_def tries_def)
    ultimately have "card (trying st1) < card (trying st)" using ft by (metis card_Diff1_less)
    from less.hyps [OF this lock_inv_acquire [OF st1(1) less.prems]]
    obtain st' where st': "acquire_step\<^sup>*\<^sup>* st1 st'" "trying st' = {}" "wanting st' \<le> wanting st1"
      "dom (lk_agents st') = dom (lk_agents st1)" by blast
    moreover have "wanting st1 \<le> wanting st" using wanting_upd [OF fin t(1) st1(2)] st1(4) by linarith
    moreover have "dom (lk_agents st1) = dom (lk_agents st)" using st1(2) t(1) by auto
    moreover have "acquire_step\<^sup>*\<^sup>* st st'" by (rule converse_rtranclp_into_rtranclp [OF st1(1) st'(1)])
    ultimately show ?thesis by (intro exI [of _ st']) simp
  qed
qed

text \<open>
  Of the threads that wait, the one waiting for the highest slot is not kept from it: whoever held
  it would be waiting for a higher one.
\<close>

lemma highest_waiter:
  assumes "lock_inv digest st" "trying st = {}" "\<not> somebody_inside st" "lk_agents st t0 \<noteq> None"
  obtains t a where "lk_agents st t = Some a" "la_phase a = Waiting []"
  | t a k ks where "lk_agents st t = Some a" "la_phase a = Waiting (k # ks)" "lk_byte st k = None" "lk_local st (la_process a, k) = None"
proof (cases "\<exists>t a. lk_agents st t = Some a \<and> la_phase a = Waiting []")
  case False
  have waits: "\<exists>k ks. la_phase a = Waiting (k # ks)" if "lk_agents st t = Some a" for t a
    using that assms(2,3) False unfolding trying_def tries_def somebody_inside_def
    by (cases "la_phase a" rule: pending_slots.cases) (fastforce simp: neq_Nil_conv)+
  let ?next = "\<lambda>t. hd (pending_slots (la_phase (the (lk_agents st t))))"
  have fin: "finite (dom (lk_agents st))" using assms(1) unfolding lock_inv_def by blast
  have "Max (?next ` dom (lk_agents st)) \<in> ?next ` dom (lk_agents st)"
    using fin assms(4) by (intro Max_in) auto
  then obtain t where t: "Max (?next ` dom (lk_agents st)) = ?next t" "t \<in> dom (lk_agents st)" by (rule imageE)
  then obtain a where a: "lk_agents st t = Some a" by blast
  obtain k ks where k: "la_phase a = Waiting (k # ks)" using waits [OF a] by blast
  have free: "\<not> (k \<in> set (la_held b))" if agent: "lk_agents st u = Some b" for u b
  proof
    assume held: "k \<in> set (la_held b)"
    obtain j js where j: "la_phase b = Waiting (j # js)" using waits [OF agent] by blast
    then have "k < j" using sound_agent_ascending [OF agent_sound [OF assms(1) agent] held] by simp
    moreover have "j \<le> Max (?next ` dom (lk_agents st))"
      using fin agent j by (intro Max_ge) (auto intro: image_eqI [where x = u])
    ultimately show False using t(1) a k by simp
  qed
  have "\<not> tries b j" if "lk_agents st u = Some b" for u b j using assms(2) that by (auto simp: trying_def)
  then have "lk_byte st k = None" "lk_local st (la_process a, k) = None"
    using free assms(1) unfolding lock_inv_def by (metis not_Some_eq)+
  then show thesis using that(2) a k by blast
qed (use that(1) in blast)

text \<open>
  C13. The locks never deadlock: in every reachable state with threads waiting and none inside, the
  waiting threads can, by turns of their loops alone and without a timeout, bring one of them inside.
\<close>

theorem workspace_lock_progress:
  assumes "lock_reachable digest st" "lk_agents st t = Some a" "\<not> somebody_inside st"
  shows "\<exists>st'. acquire_step\<^sup>*\<^sup>* st st' \<and> somebody_inside st'"
proof -
  have "lock_inv digest st \<Longrightarrow> dom (lk_agents st) \<noteq> {} \<Longrightarrow> \<exists>st'. acquire_step\<^sup>*\<^sup>* st st' \<and> somebody_inside st'"
  proof (induction "wanting st" arbitrary: st rule: less_induct)
    case (less st)
    obtain s1 where s1: "acquire_step\<^sup>*\<^sup>* st s1" "trying s1 = {}" "wanting s1 \<le> wanting st"
      "dom (lk_agents s1) = dom (lk_agents st)" using settle [OF less.prems(1)] by blast
    have inv: "lock_inv digest s1"
      using s1(1) less.prems(1) by (induction rule: rtranclp_induct) (auto intro: lock_inv_acquire)
    obtain t0 where t0: "lk_agents s1 t0 \<noteq> None" using less.prems(2) s1(4) by blast
    show ?case
    proof (cases "somebody_inside s1")
      case False
      show ?thesis
      proof (rule highest_waiter [OF inv s1(2) False t0])
        fix t a assume a: "lk_agents s1 t = Some a" "la_phase a = Waiting []"
        have "somebody_inside (s1\<lparr>lk_agents := (lk_agents s1)(t \<mapsto> a\<lparr>la_phase := Inside\<rparr>)\<rparr>)"
          by (auto simp: somebody_inside_def)
        then show ?thesis using enter [OF a] s1(1) by (meson rtranclp.rtrancl_into_rtrancl)
      next
        fix t a k ks
        assume a: "lk_agents s1 t = Some a" "la_phase a = Waiting (k # ks)" "lk_byte s1 k = None" "lk_local s1 (la_process a, k) = None"
        let ?s2 = "s1\<lparr>lk_local := (lk_local s1)((la_process a, k) := Some t), lk_agents := (lk_agents s1)(t \<mapsto> a\<lparr>la_phase := Trying k ks\<rparr>)\<rparr>"
        let ?b = "a\<lparr>la_held := k # la_held a, la_phase := Waiting ks\<rparr>"
        let ?s3 = "?s2\<lparr>lk_byte := (lk_byte ?s2)(k \<mapsto> t), lk_agents := (lk_agents ?s2)(t \<mapsto> ?b)\<rparr>"
        have 2: "acquire_step s1 ?s2" by (rule take_local [OF a(1,2,4)])
        have 3: "acquire_step ?s2 ?s3"
          using take_byte [of ?s2 t "a\<lparr>la_phase := Trying k ks\<rparr>" k ks] a by simp
        have fin: "finite (dom (lk_agents s1))" using inv unfolding lock_inv_def by blast
        have "wanting ?s3 < wanting s1" using wanting_upd [OF fin a(1), of ?s3 ?b] a(2) by simp
        then have "wanting ?s3 < wanting st" using s1(3) by simp
        from less.hyps [OF this lock_inv_acquire [OF 3 lock_inv_acquire [OF 2 inv]]]
        obtain st' where "acquire_step\<^sup>*\<^sup>* ?s3 st'" "somebody_inside st'" by auto
        then show ?thesis using s1(1) 2 3 by (meson converse_rtranclp_into_rtranclp rtranclp_trans)
      qed
    qed (use s1(1) in blast)
  qed
  then show ?thesis using lock_inv_reachable [OF assms(1)] assms(2) by blast
qed

lemma workspace_lock_progress_witness:
  "\<exists>st st'. lock_reachable (\<lambda>_. []) st \<and> \<not> somebody_inside st \<and> acquire_step\<^sup>*\<^sup>* st st' \<and> somebody_inside st'"
proof -
  let ?a = "\<lparr>la_process = 0, la_targets = None, la_held = [], la_phase = Waiting (lock_slots (\<lambda>_. []) None)\<rparr>"
  let ?st = "no_locks\<lparr>lk_agents := (lk_agents no_locks)(0 \<mapsto> ?a)\<rparr>"
  have "lock_step (\<lambda>_. []) no_locks ?st"
    by (rule begin_block [where target = None and targets = None]) (simp_all add: no_locks_def select_targets_def)
  then have r: "lock_reachable (\<lambda>_. []) ?st" by blast
  have n: "\<not> somebody_inside ?st" by (simp add: somebody_inside_def no_locks_def)
  show ?thesis using workspace_lock_progress [OF r _ n, of 0 ?a] r n by auto
qed

section \<open>The named lock\<close>

text \<open>
  What one thread knows of one named lock: how deep it is nested, and whether it holds the file and the
  lock of the process. Every \<open>with\<close> block has its own lock object; the outermost one holds the file.
\<close>

record named_lock =
  nl_depth :: nat
  nl_held :: bool

definition valid_lock_name :: "string \<Rightarrow> bool" where
  "valid_lock_name name \<longleftrightarrow> name \<noteq> [] \<and> list_all (\<lambda>c. is_lower c \<or> is_digit c \<or> c = CHR ''-'') name"

definition init_named_lock :: "string \<Rightarrow> string res" where
  "init_named_lock name =
     (if valid_lock_name name then Inr (''control-'' @ name @ ''.lock'') else Inl (ValueError ''invalid control-plane lock name''))"

text \<open>\<open>free\<close> says whether the waiting loop gets the file before its deadline.\<close>

definition named_enter :: "bool \<Rightarrow> named_lock \<Rightarrow> (bool \<times> named_lock) res" where
  "named_enter free nl =
     (if 0 < nl_depth nl then Inr (False, nl\<lparr>nl_depth := nl_depth nl + 1\<rparr>)
      else if free then Inr (True, nl\<lparr>nl_depth := 1, nl_held := True\<rparr>)
      else Inl (TimeoutError ''control-plane lock timed out''))"

definition named_exit :: "bool \<Rightarrow> named_lock \<Rightarrow> named_lock" where
  "named_exit outermost nl =
     (if 1 < nl_depth nl then nl\<lparr>nl_depth := nl_depth nl - 1\<rparr>
      else nl\<lparr>nl_depth := 0, nl_held := (nl_held nl \<and> \<not> outermost)\<rparr>)"

text \<open>
  \<open>with\<close> blocks within \<open>with\<close> blocks, as a tree; each node says whether its lock would be free, and what
  its body raises after its inner blocks.
\<close>

datatype nesting = Block bool "nesting list" "error option"

fun run_block :: "nesting \<Rightarrow> named_lock \<Rightarrow> named_lock \<times> error option"
  and run_blocks :: "nesting list \<Rightarrow> named_lock \<Rightarrow> named_lock \<times> error option" where
  "run_block (Block free inner raised) nl =
     (case named_enter free nl of
        Inl e \<Rightarrow> (nl, Some e)
      | Inr (outermost, nl') \<Rightarrow>
          (case run_blocks inner nl' of (nl'', r) \<Rightarrow>
             (named_exit outermost nl'', case r of Some e \<Rightarrow> Some e | None \<Rightarrow> raised)))"
| "run_blocks [] nl = (nl, None)"
| "run_blocks (b # bs) nl =
     (case run_block b nl of
        (nl', Some e) \<Rightarrow> (nl', Some e)
      | (nl', None) \<Rightarrow> run_blocks bs nl')"

text \<open>What the bodies alone raise.\<close>

fun body_error :: "nesting \<Rightarrow> error option"
  and bodies_error :: "nesting list \<Rightarrow> error option" where
  "body_error (Block free inner raised) = (case bodies_error inner of Some e \<Rightarrow> Some e | None \<Rightarrow> raised)"
| "bodies_error [] = None"
| "bodies_error (b # bs) = (case body_error b of Some e \<Rightarrow> Some e | None \<Rightarrow> bodies_error bs)"

definition sound_named :: "named_lock \<Rightarrow> bool" where
  "sound_named nl \<longleftrightarrow> (nl_held nl \<longleftrightarrow> 0 < nl_depth nl)"

lemma nested_enter:
  "0 < nl_depth nl \<Longrightarrow> named_enter free nl = Inr (False, nl\<lparr>nl_depth := nl_depth nl + 1\<rparr>)"
  by (simp add: named_enter_def)

lemma nested_exit: "0 < nl_depth nl \<Longrightarrow> named_exit False (nl\<lparr>nl_depth := nl_depth nl + 1\<rparr>) = nl"
  by (simp add: named_exit_def)

lemma nested_blocks_list:
  "(\<And>b nl. b \<in> set bs \<Longrightarrow> 0 < nl_depth nl \<Longrightarrow> run_block b nl = (nl, body_error b)) \<Longrightarrow> 0 < nl_depth nl \<Longrightarrow>
   run_blocks bs nl = (nl, bodies_error bs)"
  by (induction bs) (simp_all split: option.split)

lemma nested_block: "0 < nl_depth nl \<Longrightarrow> run_block b nl = (nl, body_error b)"
proof (induction b arbitrary: nl)
  case (Block free inner raised)
  have "run_blocks inner (nl\<lparr>nl_depth := nl_depth nl + 1\<rparr>) = (nl\<lparr>nl_depth := nl_depth nl + 1\<rparr>, bodies_error inner)"
    by (rule nested_blocks_list [OF Block.IH]) simp_all
  then show ?case using Block.prems by (simp add: nested_enter nested_exit [simplified])
qed

text \<open>
  A named lock nests: however the blocks of one thread are nested and whatever they raise, only the
  outermost one waits, the inner ones never wait or fail by themselves, and each block leaves the lock
  as it found it, so that it is held until exactly the outermost block is left.
\<close>

theorem named_lock_nests:
  assumes "sound_named nl"
  shows "run_block (Block free inner raised) nl =
     (nl, if 0 < nl_depth nl \<or> free then body_error (Block free inner raised)
          else Some (TimeoutError ''control-plane lock timed out''))"
proof (cases "0 < nl_depth nl")
  case True
  then show ?thesis by (simp add: nested_block del: run_block.simps body_error.simps)
next
  case False
  let ?in = "nl\<lparr>nl_depth := 1, nl_held := True\<rparr>"
  have "run_blocks inner ?in = (?in, bodies_error inner)" by (rule nested_blocks_list [OF nested_block]) simp_all
  then show ?thesis using False assms
    by (cases nl) (simp add: named_enter_def named_exit_def sound_named_def split: option.split)
qed

lemma named_lock_nests_witness:
  "run_block (Block True [Block False [] None, Block False [Block False [] (Some ZeroDivision)] None] None)
       \<lparr>nl_depth = 0, nl_held = False\<rparr>
     = (\<lparr>nl_depth = 0, nl_held = False\<rparr>, Some ZeroDivision)"
  by (subst named_lock_nests) (simp_all add: sound_named_def)

end
