(* ===== verification/Streams.thy ===== *)
theory Streams
  imports Changes
begin

text \<open>
  Streams read in chunks: the capture of a child's output in bounded memory (\<open>BoundedStreamCapture\<close> of
  \<open>resources.py\<close>) and the search for markers in a decompressed archive member
  (\<open>_archive_member_contains_any\<close> of \<open>structured_files.py\<close>). Neither depends on where the chunks are cut.
\<close>

section \<open>The bounded capture\<close>

record capture =
  ca_total :: nat
  ca_truncated :: bool
  ca_head :: bytes
  ca_tail :: "bytes list"
  ca_tail_bytes :: nat

definition new_capture :: capture where
  "new_capture = \<lparr>ca_total = 0, ca_truncated = False, ca_head = [], ca_tail = [], ca_tail_bytes = 0\<rparr>"

definition head_limit :: "nat \<Rightarrow> nat" where
  "head_limit limit = limit div 2"

definition tail_limit :: "nat \<Rightarrow> nat" where
  "tail_limit limit = max 1 (limit - head_limit limit)"

text \<open>The inner loop: chunks leave the front of the deque, the first one that stays is cut.\<close>

function trim_tail :: "nat \<Rightarrow> bytes list \<Rightarrow> nat \<Rightarrow> bytes list \<times> nat" where
  "trim_tail lim tail n =
     (case tail of
        [] \<Rightarrow> ([], n)
      | c # cs \<Rightarrow>
          if n \<le> lim then (c # cs, n)
          else if length c \<le> n - lim then trim_tail lim cs (n - length c)
          else trim_tail lim (drop (n - lim) c # cs) (n - (n - lim)))"
  by pat_completeness auto
termination
  by (relation "measures [\<lambda>(lim, tail, n). length tail, \<lambda>(lim, tail, n). n]") auto

declare trim_tail.simps [simp del]

definition capture_chunk :: "nat \<Rightarrow> capture \<Rightarrow> bytes \<Rightarrow> capture" where
  "capture_chunk limit ca chunk =
     (let total = ca_total ca + length chunk;
          take_n = (if length (ca_head ca) < head_limit limit
                    then min (head_limit limit - length (ca_head ca)) (length chunk) else 0);
          rest = drop take_n chunk;
          (tail, n) = (if rest \<noteq> []
                       then trim_tail (tail_limit limit) (ca_tail ca @ [rest]) (ca_tail_bytes ca + length rest)
                       else (ca_tail ca, ca_tail_bytes ca))
      in \<lparr>ca_total = total, ca_truncated = (limit < total), ca_head = ca_head ca @ take take_n chunk,
          ca_tail = tail, ca_tail_bytes = n\<rparr>)"

text \<open>The stream ends with the first empty read.\<close>

definition drain :: "nat \<Rightarrow> bytes list \<Rightarrow> capture" where
  "drain limit reads = foldl (capture_chunk limit) new_capture (takeWhile (\<lambda>c. c \<noteq> []) reads)"

definition cut_marker :: "nat \<Rightarrow> bytes" where
  "cut_marker n =
     map of_nat (10 # utext_of ''... <truncated '' @ decimal n @ utext_of '' bytes> ...'' @ [10])"

definition written_output :: "nat \<Rightarrow> capture \<Rightarrow> bytes" where
  "written_output limit ca =
     (let marker = (if ca_truncated ca then cut_marker (ca_total ca - limit) else []);
          tail = concat (ca_tail ca);
          payload = (if ca_truncated ca then ca_head ca @ marker @ tail else ca_head ca @ tail)
      in take (limit + length marker) payload)"

text \<open>The preview of the decoded text; \<open>text[-half:]\<close> is the whole text when it is shorter.\<close>

definition preview_marker :: utext where
  "preview_marker = 10 # utext_of ''... <preview truncated> ...'' @ [10]"

definition capture_preview :: "int \<Rightarrow> utext \<Rightarrow> utext" where
  "capture_preview limit text =
     (if int (length text) \<le> limit then text
      else (let half = nat (max 1 ((limit - 32) div 2))
            in take half text @ preview_marker @ drop (length text - half) text))"

subsection \<open>What is kept\<close>

definition last_bytes :: "nat \<Rightarrow> bytes \<Rightarrow> bytes" where
  "last_bytes n xs = drop (length xs - n) xs"

lemma last_bytes_all: "length xs \<le> n \<Longrightarrow> last_bytes n xs = xs"
  by (simp add: last_bytes_def)

lemma last_bytes_append: "last_bytes n (last_bytes n xs @ ys) = last_bytes n (xs @ ys)"
  by (cases "length xs \<le> n") (simp_all add: last_bytes_def add.commute)

lemma trim_tail_keeps:
  assumes "n = length (concat tail)" "trim_tail lim tail n = (tail', n')"
  shows "concat tail' = last_bytes lim (concat tail) \<and> n' = length (concat tail')"
  using assms
proof (induction lim tail n arbitrary: tail' n' rule: trim_tail.induct)
  case (1 lim tail n)
  show ?case
  proof (cases tail)
    case Nil
    then show ?thesis using "1.prems" by (auto simp: trim_tail.simps [of lim "[]"] last_bytes_def)
  next
    case (Cons c cs)
    consider "n \<le> lim" | "lim < n" "length c \<le> n - lim" | "lim < n" "n - lim < length c" by linarith
    then show ?thesis
    proof cases
      case 2
      have "concat tail' = last_bytes lim (concat cs) \<and> n' = length (concat tail')"
        by (rule "1.IH"(1) [OF Cons]) (use 2 "1.prems" Cons in \<open>auto simp: trim_tail.simps [of lim "c # cs"]\<close>)
      then show ?thesis using 2 "1.prems"(1) Cons by (auto simp: last_bytes_def)
    next
      case 3
      have "concat tail' = last_bytes lim (concat (drop (n - lim) c # cs)) \<and> n' = length (concat tail')"
        by (rule "1.IH"(2) [OF Cons]) (use 3 "1.prems" Cons in \<open>auto simp: trim_tail.simps [of lim "c # cs"]\<close>)
      then show ?thesis using 3 "1.prems"(1) Cons by (auto simp: last_bytes_def)
    qed (use "1.prems" Cons in \<open>auto simp: trim_tail.simps [of lim "c # cs"] last_bytes_def\<close>)
  qed
qed

text \<open>After reading \<open>data\<close>.\<close>

definition captured_data :: "nat \<Rightarrow> bytes \<Rightarrow> capture \<Rightarrow> bool" where
  "captured_data limit data ca \<longleftrightarrow>
     ca_total ca = length data \<and> ca_truncated ca = (limit < length data)
     \<and> ca_head ca = take (head_limit limit) data
     \<and> concat (ca_tail ca) = last_bytes (tail_limit limit) (drop (head_limit limit) data)
     \<and> ca_tail_bytes ca = length (concat (ca_tail ca))"

lemma capture_chunk_data:
  assumes "captured_data limit data ca"
  shows "captured_data limit (data @ chunk) (capture_chunk limit ca chunk)"
proof -
  let ?h = "head_limit limit" and ?t = "tail_limit limit"
  define k where "k = (if length (ca_head ca) < ?h then min (?h - length (ca_head ca)) (length chunk) else 0)"
  define rest where "rest = drop k chunk"
  have head: "ca_head ca = take ?h data" using assms by (simp add: captured_data_def)
  have k: "k = min (?h - length data) (length chunk)" unfolding k_def head by auto
  have head': "ca_head ca @ take k chunk = take ?h (data @ chunk)" unfolding head k by (simp add: min_def)
  have rest: "drop ?h (data @ chunk) = drop ?h data @ rest" unfolding rest_def k by (auto simp: min_def)
  obtain tail n where t: "(if rest \<noteq> [] then trim_tail ?t (ca_tail ca @ [rest]) (ca_tail_bytes ca + length rest)
                           else (ca_tail ca, ca_tail_bytes ca)) = (tail, n)" by fastforce
  have old: "concat (ca_tail ca) = last_bytes ?t (drop ?h data)" "ca_tail_bytes ca = length (concat (ca_tail ca))"
    using assms by (simp_all add: captured_data_def)
  have "concat tail = last_bytes ?t (drop ?h data @ rest) \<and> n = length (concat tail)"
  proof (cases "rest = []")
    case True
    then show ?thesis using t old by auto
  next
    case False
    then have "trim_tail ?t (ca_tail ca @ [rest]) (ca_tail_bytes ca + length rest) = (tail, n)" using t by simp
    from trim_tail_keeps [OF _ this] show ?thesis using old by (simp add: last_bytes_append)
  qed
  moreover have "capture_chunk limit ca chunk =
      \<lparr>ca_total = ca_total ca + length chunk, ca_truncated = (limit < ca_total ca + length chunk),
       ca_head = ca_head ca @ take k chunk, ca_tail = tail, ca_tail_bytes = n\<rparr>"
    unfolding capture_chunk_def Let_def k_def [symmetric] rest_def [symmetric] t by simp
  ultimately show ?thesis using assms head' unfolding captured_data_def rest by simp
qed

lemma drain_data: "captured_data limit (concat (takeWhile (\<lambda>c. c \<noteq> []) reads)) (drain limit reads)"
proof -
  have steps: "captured_data limit data ca \<Longrightarrow> captured_data limit (data @ concat cs) (foldl (capture_chunk limit) ca cs)" for data ca cs
  proof (induction cs arbitrary: data ca)
    case (Cons c cs)
    show ?case using Cons.IH [OF capture_chunk_data [OF Cons.prems]] by simp
  qed simp
  have "captured_data limit [] new_capture" by (simp add: captured_data_def new_capture_def last_bytes_def)
  from steps [OF this] show ?thesis by (simp add: drain_def)
qed

text \<open>
  C33. Whatever the sizes of the reads, what is written of a child's output is all of it when it fits
  the limit, and else its first half of the limit, a marker that counts what is missing, and its
  last bytes up to the limit; and no more than the limit is ever held.
\<close>

theorem bounded_capture_exact:
  assumes "0 < limit" "data = concat (takeWhile (\<lambda>c. c \<noteq> []) reads)"
  shows "written_output limit (drain limit reads) =
      (if length data \<le> limit then data
       else take (limit div 2) data @ cut_marker (length data - limit)
            @ drop (length data - (limit - limit div 2)) data)
    \<and> length (ca_head (drain limit reads)) + length (concat (ca_tail (drain limit reads))) \<le> limit"
proof -
  have d: "captured_data limit data (drain limit reads)" unfolding assms(2) by (rule drain_data)
  have t: "tail_limit limit = limit - limit div 2" using assms(1) by (simp add: tail_limit_def head_limit_def)
  have all: "take (limit + length m) (take (limit div 2) data @ m @ drop (length data - (limit - limit div 2)) data)
      = take (limit div 2) data @ m @ drop (length data - (limit - limit div 2)) data" if "limit < length data" for m
    using that by (intro take_all) simp
  have last: "last_bytes (limit - limit div 2) (drop (limit div 2) data) =
      (if length data \<le> limit then drop (limit div 2) data else drop (length data - (limit - limit div 2)) data)"
    by (simp add: last_bytes_def add.commute)
  show ?thesis
    using d all unfolding captured_data_def written_output_def t head_limit_def Let_def last
    by (cases "length data \<le> limit") simp_all
qed

lemma bounded_capture_exact_witness:
  "written_output 4 (drain 4 [[1, 2, 3], [4, 5], [6], [], [7]]) = [1, 2] @ cut_marker 2 @ [5, 6]"
  using bounded_capture_exact [of 4 "[1, 2, 3, 4, 5, 6]" "[[1, 2, 3], [4, 5], [6], [], [7]]"]
  by (simp add: numeral_2_eq_2 [symmetric])

text \<open>A preview keeps to its limit, unless the limit does not even hold the marker.\<close>

lemma capture_preview_bounded: "int (length (capture_preview limit text)) \<le> max limit 31"
proof (cases "34 \<le> limit")
  case True
  then have "2 * ((limit - 32) div 2) \<le> limit - 32" "1 \<le> (limit - 32) div 2" by auto
  then show ?thesis by (auto simp: capture_preview_def preview_marker_def utext_of_def Let_def)
next
  case False
  then have "(limit - 32) div 2 < 1" by auto
  then show ?thesis by (auto simp: capture_preview_def preview_marker_def utext_of_def Let_def)
qed

section \<open>Markers in an archive member\<close>

fun search_chunks :: "bytes list \<Rightarrow> nat \<Rightarrow> bytes \<Rightarrow> bytes list \<Rightarrow> bool" where
  "search_chunks markers overlap tail [] = False"
| "search_chunks markers overlap tail (chunk # reads) =
     (if chunk = [] then False
      else (let window = tail @ chunk in
            if list_ex (\<lambda>m. contains_sub m window) markers then True
            else search_chunks markers overlap (if 0 < overlap then last_bytes overlap window else []) reads))"

definition archive_member_contains_any :: "bytes list \<Rightarrow> bytes list \<Rightarrow> bool res" where
  "archive_member_contains_any reads markers =
     (if markers = [] then Inl (ValueError ''max() iterable argument is empty'')
      else Inr (search_chunks markers (Max (set (List.map length markers)) - 1) [] reads))"

lemma contains_sub_within:
  assumes "m \<noteq> []" "length m \<le> Suc overlap" "\<not> contains_sub m seen"
  shows "contains_sub m (last_bytes overlap seen @ chunk) \<longleftrightarrow> contains_sub m (seen @ chunk)"
proof
  assume "contains_sub m (last_bytes overlap seen @ chunk)"
  then show "contains_sub m (seen @ chunk)"
    unfolding contains_sub_iff last_bytes_def by (metis append_assoc append_take_drop_id)
next
  assume "contains_sub m (seen @ chunk)"
  then obtain a b where ab: "seen @ chunk = a @ m @ b" unfolding contains_sub_iff by blast
  show "contains_sub m (last_bytes overlap seen @ chunk)"
  proof (cases "length seen - overlap \<le> length a")
    case True
    have "last_bytes overlap seen @ chunk = drop (length seen - overlap) (seen @ chunk)"
      by (simp add: last_bytes_def)
    also have "\<dots> = drop (length seen - overlap) a @ m @ b" unfolding ab using True by simp
    finally show ?thesis unfolding contains_sub_iff by blast
  next
    case False
    then have "length (a @ m) \<le> length seen" using assms(2) by simp
    then have "seen = a @ m @ take (length seen - length (a @ m)) b"
      using arg_cong [OF ab, of "take (length seen)"] by simp
    then show ?thesis using assms(3) unfolding contains_sub_iff by blast
  qed
qed

lemma search_chunks_exact:
  assumes "[] \<notin> set markers" "\<forall>m \<in> set markers. length m \<le> Suc overlap" "\<forall>m \<in> set markers. \<not> contains_sub m seen"
  shows "search_chunks markers overlap (last_bytes overlap seen) reads
     \<longleftrightarrow> (\<exists>m \<in> set markers. contains_sub m (seen @ concat (takeWhile (\<lambda>c. c \<noteq> []) reads)))"
  using assms(3)
proof (induction reads arbitrary: seen)
  case (Cons chunk reads)
  have win: "contains_sub m (last_bytes overlap seen @ chunk) \<longleftrightarrow> contains_sub m (seen @ chunk)" if "m \<in> set markers" for m
    using contains_sub_within [of m overlap seen chunk] that assms(1,2) Cons.prems by blast
  have next_tail: "(if 0 < overlap then last_bytes overlap (last_bytes overlap seen @ chunk) else []) = last_bytes overlap (seen @ chunk)"
    by (cases overlap) (simp_all add: last_bytes_append, simp add: last_bytes_def)
  have found: "contains_sub m (seen @ chunk @ rest)" if "contains_sub m (seen @ chunk)" for m rest
    using that unfolding contains_sub_iff by (metis append_assoc)
  show ?case
  proof (cases "chunk = [] \<or> (\<exists>m \<in> set markers. contains_sub m (seen @ chunk))")
    case True
    then show ?thesis using win found Cons.prems by (auto simp: Let_def list_ex_iff)
  next
    case False
    then show ?thesis
      using Cons.IH [of "seen @ chunk"] win by (simp add: Let_def list_ex_iff next_tail)
  qed
qed simp

text \<open>
  The search of an archive member in chunks finds a marker exactly when the whole content contains
  one: no cut between chunks hides it, and nothing is found that is not there.
\<close>

theorem archive_search_exact:
  assumes "markers \<noteq> []" "[] \<notin> set markers"
  shows "archive_member_contains_any reads markers
     = Inr (\<exists>m \<in> set markers. contains_sub m (concat (takeWhile (\<lambda>c. c \<noteq> []) reads)))"
proof -
  have "\<forall>m \<in> set markers. length m \<le> Suc (Max (set (List.map length markers)) - 1)"
    by (intro ballI, rule le_trans [OF Max_ge [of "set (List.map length markers)"]]) auto
  moreover have "\<not> contains_sub m []" if "m \<in> set markers" for m
    using that assms(2) unfolding contains_sub_iff by auto
  ultimately show ?thesis
    using search_chunks_exact [of markers _ "[]" reads] assms unfolding archive_member_contains_any_def
    by (simp add: last_bytes_def)
qed

lemma archive_search_exact_witness:
  "archive_member_contains_any [[1, 2], [3, 4], [5]] [[2, 3], [9]] = Inr True
   \<and> archive_member_contains_any [[1, 2], [], [3]] [[2, 3]] = Inr False"
  using archive_search_exact [of "[[2, 3], [9]]" "[[1, 2], [3, 4], [5]]"] archive_search_exact [of "[[2, 3]]" "[[1, 2], [], [3]]"]
  by (simp add: contains_sub_def starts_with_def)

end
