(* ===== verification/Runs.thy ===== *)
theory Runs
  imports Replace
begin

text \<open>
  Replacing text that is spread over runs, as \<open>structured_files.py\<close> does it in Word documents: in the
  runs of a paragraph (\<open>_replace_text_preserving_runs\<close>) and in the text nodes of its XML
  (\<open>_replace_xml_text_nodes\<close>). The joined text decides what matches; the pieces keep their borders.
\<close>

section \<open>The positions of the matches\<close>

lemma find_from_Some:
  assumes "find_from search joined start = Some found" "search \<noteq> []"
  shows "start \<le> found \<and> found + length search \<le> length joined \<and> starts_with search (drop found joined)
     \<and> find_sub search (drop start joined) = Some (found - start)"
proof -
  obtain i where i: "find_sub search (drop start joined) = Some i" "found = start + i"
    using assms(1) by (auto simp: find_from_def)
  then have "starts_with search (drop found joined)" "i + length search \<le> length joined - start"
    using find_sub_Some [OF i(1)] by (simp_all add: add.commute)
  then show ?thesis using i assms(2) by (cases "start \<le> length joined") auto
qed

text \<open>The loop over \<open>joined.find(search, start)\<close>. The callers refuse an empty search.\<close>

function occurrences :: "utext \<Rightarrow> utext \<Rightarrow> nat \<Rightarrow> nat list" where
  "occurrences search joined start =
     (if search = [] then []
      else case find_from search joined start of
        None \<Rightarrow> []
      | Some found \<Rightarrow> found # occurrences search joined (found + length search))"
  by pat_completeness auto

termination
proof (relation "measure (\<lambda>(search, joined, start). length joined - start)", goal_cases)
  case (2 search joined start found)
  then show ?case using find_from_Some [OF 2(2)] by (cases search) auto
qed simp

declare occurrences.simps [simp del]

text \<open>The reference is \<open>replace_all\<close> with equality, leftmost first and without overlaps.\<close>

lemma prefix_starts: "prefix_eq (=) pat s \<longleftrightarrow> starts_with pat s"
  unfolding prefix_eq_def starts_with_def list.rel_eq by auto

lemma find_eq_sub: "find_eq (=) pat s = find_sub pat s"
  by (induction s) (simp_all add: prefix_starts)

abbreviation replaced_text :: "utext \<Rightarrow> utext \<Rightarrow> utext \<Rightarrow> utext" where
  "replaced_text \<equiv> replace_all (=)"

lemma replaced_from:
  assumes "search \<noteq> []"
  shows "find_from search joined start = None \<Longrightarrow> replaced_text search new (drop start joined) = drop start joined"
    and "find_from search joined start = Some found \<Longrightarrow>
      take start joined @ replaced_text search new (drop start joined)
        = take found joined @ new @ replaced_text search new (drop (found + length search) joined)"
proof -
  note r = replace_all_find [OF assms, of "(=)" new "drop start joined", unfolded find_eq_sub]
  show "find_from search joined start = None \<Longrightarrow> replaced_text search new (drop start joined) = drop start joined"
    using r by (simp add: find_from_def)
  assume f: "find_from search joined start = Some found"
  note s = find_from_Some [OF f assms]
  then have "take found joined = take start joined @ take (found - start) (drop start joined)"
    by (metis le_add_diff_inverse take_add)
  then show "take start joined @ replaced_text search new (drop start joined)
        = take found joined @ new @ replaced_text search new (drop (found + length search) joined)"
    using r s by (simp add: add.commute)
qed

section \<open>One match\<close>

text \<open>Where the match begins and ends: the number of the run and the offset in it.\<close>

fun locate_span :: "utext list \<Rightarrow> nat \<Rightarrow> nat \<Rightarrow> nat \<Rightarrow> nat \<Rightarrow> (nat \<times> nat) option \<Rightarrow>
    (nat \<times> nat) option \<times> (nat \<times> nat) option" where
  "locate_span [] index cursor found stop first = (first, None)"
| "locate_span (t # ts) index cursor found stop first =
     (let next_cursor = cursor + length t;
          first' = (if first = None \<and> found < next_cursor then Some (index, found - cursor) else first)
      in if stop \<le> next_cursor then (first', Some (index, stop - cursor))
         else locate_span ts (Suc index) next_cursor found stop first')"

definition edit_span :: "utext \<Rightarrow> nat \<Rightarrow> nat \<Rightarrow> utext list \<Rightarrow> utext list" where
  "edit_span new found stop ts =
     (case locate_span ts 0 0 found stop None of
        (Some (i, a), Some (j, b)) \<Rightarrow>
          if i = j then ts[i := take a (ts ! i) @ new @ drop b (ts ! i)]
          else take i ts @ [take a (ts ! i) @ new] @ replicate (j - (i + 1)) [] @ [drop b (ts ! j)] @ drop (j + 1) ts
      | _ \<Rightarrow> ts)"

definition replace_text_preserving_runs :: "utext \<Rightarrow> utext \<Rightarrow> utext list \<Rightarrow> utext list \<times> nat" where
  "replace_text_preserving_runs search new runs =
     (let positions = occurrences search (concat runs) 0
      in (fold (\<lambda>found ts. edit_span new found (found + length search) ts) (rev positions) runs, length positions))"

lemma locate_span_first:
  "locate_span ts index cursor found stop (Some p) = (f, l) \<Longrightarrow> f = Some p"
  by (induction ts index cursor found stop "Some p :: (nat \<times> nat) option" rule: locate_span.induct)
    (auto simp: Let_def split: if_splits)

lemma locate_span_last:
  assumes "cursor < stop" "stop \<le> cursor + length (concat ts)"
  shows "\<exists>j b. snd (locate_span ts index cursor found stop first) = Some (index + j, b) \<and> j < length ts
     \<and> cursor + length (concat (take j ts)) + b = stop \<and> 0 < b \<and> b \<le> length (ts ! j)"
  using assms
proof (induction ts arbitrary: index cursor first)
  case (Cons t ts)
  show ?case
  proof (cases "stop \<le> cursor + length t")
    case True
    then show ?thesis using Cons.prems by (intro exI [of _ 0] exI [of _ "stop - cursor"]) (auto simp: Let_def)
  next
    case False
    let ?first = "if first = None \<and> found < cursor + length t then Some (index, found - cursor) else first"
    obtain j b where "snd (locate_span ts (Suc index) (cursor + length t) found stop ?first) = Some (Suc index + j, b)"
      "j < length ts" "cursor + length t + length (concat (take j ts)) + b = stop" "0 < b" "b \<le> length (ts ! j)"
      using Cons.IH [of "cursor + length t" "Suc index" ?first] Cons.prems False by auto
    then show ?thesis using False by (intro exI [of _ "Suc j"] exI [of _ b]) (simp add: Let_def)
  qed
qed simp

lemma locate_span_begin:
  assumes "cursor \<le> found" "found < stop" "stop \<le> cursor + length (concat ts)"
  shows "\<exists>i a. fst (locate_span ts index cursor found stop None) = Some (index + i, a) \<and> i < length ts
     \<and> cursor + length (concat (take i ts)) + a = found \<and> a < length (ts ! i)"
  using assms
proof (induction ts arbitrary: index cursor)
  case (Cons t ts)
  show ?case
  proof (cases "found < cursor + length t")
    case True
    have "fst (locate_span (t # ts) index cursor found stop None) = Some (index, found - cursor)"
      using True locate_span_first by (cases "locate_span ts (Suc index) (cursor + length t) found stop (Some (index, found - cursor))")
        (fastforce simp: Let_def)
    then show ?thesis using True Cons.prems by (intro exI [of _ 0] exI [of _ "found - cursor"]) (simp del: locate_span.simps)
  next
    case False
    obtain i a where "fst (locate_span ts (Suc index) (cursor + length t) found stop None) = Some (Suc index + i, a)"
      "i < length ts" "cursor + length t + length (concat (take i ts)) + a = found" "a < length (ts ! i)"
      using Cons.IH [of "cursor + length t" "Suc index"] Cons.prems False by auto
    then show ?thesis using False Cons.prems by (intro exI [of _ "Suc i"] exI [of _ a]) (simp add: Let_def)
  qed
qed simp

lemma concat_at: "i < length ts \<Longrightarrow> concat ts = concat (take i ts) @ ts ! i @ concat (drop (Suc i) ts)"
  by (metis append_take_drop_id Cons_nth_drop_Suc concat.simps(2) concat_append)

text \<open>The located ends, and the order of the two.\<close>

lemma locate_span_spec:
  assumes "found < stop" "stop \<le> length (concat ts)"
  obtains i a j b where "locate_span ts 0 0 found stop None = (Some (i, a), Some (j, b))"
    "i \<le> j" "j < length ts" "length (concat (take i ts)) + a = found" "a < length (ts ! i)"
    "length (concat (take j ts)) + b = stop" "b \<le> length (ts ! j)"
proof -
  obtain i a where i: "fst (locate_span ts 0 0 found stop None) = Some (i, a)" "i < length ts"
    "length (concat (take i ts)) + a = found" "a < length (ts ! i)"
    using locate_span_begin [of 0 found stop ts 0] assms by auto
  obtain j b where j: "snd (locate_span ts 0 0 found stop None) = Some (j, b)" "j < length ts"
    "length (concat (take j ts)) + b = stop" "b \<le> length (ts ! j)"
    using locate_span_last [of 0 stop ts 0 found None] assms by auto
  have "i \<le> j"
  proof (rule ccontr)
    assume "\<not> i \<le> j"
    then have "take i ts = take j ts @ ts ! j # take (i - Suc j) (drop (Suc j) ts)"
      by (metis Cons_nth_drop_Suc j(2) linorder_not_le nat_le_linear take_Suc_Cons take_add Suc_diff_Suc le_add_diff_inverse less_imp_le_nat)
    then have "length (concat (take j ts)) + length (ts ! j) \<le> length (concat (take i ts))" by simp
    then show False using i(3) j(3,4) assms(1) by linarith
  qed
  then show thesis using that i j by (metis prod.collapse)
qed

lemma edit_span_text:
  assumes "found < stop" "stop \<le> length (concat ts)"
  shows "concat (edit_span new found stop ts) = take found (concat ts) @ new @ drop stop (concat ts)"
    and "length (edit_span new found stop ts) = length ts"
proof -
  obtain i a j b where l: "locate_span ts 0 0 found stop None = (Some (i, a), Some (j, b))"
    and ij: "i \<le> j" "j < length ts" and i: "length (concat (take i ts)) + a = found" "a < length (ts ! i)"
    and j: "length (concat (take j ts)) + b = stop" "b \<le> length (ts ! j)"
    by (rule locate_span_spec [OF assms])
  have before: "take found (concat ts) = concat (take i ts) @ take a (ts ! i)"
    using concat_at [of i ts] ij i by (simp flip: i(1))
  have after: "drop stop (concat ts) = drop b (ts ! j) @ concat (drop (Suc j) ts)"
    using concat_at [of j ts] ij j by (simp flip: j(1))
  show "concat (edit_span new found stop ts) = take found (concat ts) @ new @ drop stop (concat ts)"
  proof (cases "i = j")
    case True
    then show ?thesis using ij l before after
      by (simp add: edit_span_def upd_conv_take_nth_drop)
  next
    case False
    then show ?thesis using ij l before after by (simp add: edit_span_def)
  qed
  show "length (edit_span new found stop ts) = length ts"
    using l ij by (auto simp: edit_span_def)
qed

section \<open>All matches\<close>

lemma edits_text:
  assumes "search \<noteq> []" "start \<le> length (concat ts)"
  shows "concat (foldr (\<lambda>found. edit_span new found (found + length search)) (occurrences search (concat ts) start) ts)
      = take start (concat ts) @ replaced_text search new (drop start (concat ts))
    \<and> length (foldr (\<lambda>found. edit_span new found (found + length search)) (occurrences search (concat ts) start) ts) = length ts"
  using assms(2)
proof (induction "length (concat ts) - start" arbitrary: start rule: less_induct)
  case less
  show ?case
  proof (cases "find_from search (concat ts) start")
    case None
    then show ?thesis using assms(1) replaced_from(1) [OF assms(1) None, of new]
      by (simp add: occurrences.simps [of search "concat ts" start])
  next
    case (Some found)
    let ?edit = "\<lambda>found. edit_span new found (found + length search)"
    let ?next = "found + length search"
    let ?ts = "foldr ?edit (occurrences search (concat ts) ?next) ts"
    note f = find_from_Some [OF Some assms(1)]
    have "0 < length search" using assms(1) by simp
    then have "length (concat ts) - ?next < length (concat ts) - start" using f by linarith
    from less.hyps [OF this] f
    have ih: "concat ?ts = take ?next (concat ts) @ replaced_text search new (drop ?next (concat ts))" "length ?ts = length ts"
      by auto
    have len: "?next \<le> length (concat ?ts)" unfolding ih(1) using f by simp
    have occ: "occurrences search (concat ts) start = found # occurrences search (concat ts) ?next"
      using Some assms(1) by (simp add: occurrences.simps [of search "concat ts" start])
    have "concat (?edit found ?ts) = take found (concat ?ts) @ new @ drop ?next (concat ?ts)"
      using edit_span_text(1) [OF _ len] \<open>0 < length search\<close> by simp
    also have "\<dots> = take found (concat ts) @ new @ replaced_text search new (drop ?next (concat ts))"
      unfolding ih(1) using f by simp
    finally show ?thesis
      using edit_span_text(2) [OF _ len, of found new] \<open>0 < length search\<close> ih(2) occ replaced_from(2) [OF assms(1) Some, of new] by simp
  qed
qed

text \<open>
  C34. Replacing over runs is replacing in the joined text: however the text of a paragraph is cut into
  runs, exactly the leftmost non-overlapping matches of its joined text are exchanged, the rest of the
  text and the number of runs stay, and the count is the number of matches.
\<close>

theorem run_replacement_exact:
  assumes "search \<noteq> []" "replace_text_preserving_runs search new runs = (runs', n)"
  shows "concat runs' = replaced_text search new (concat runs) \<and> length runs' = length runs
     \<and> n = length (match_spans (=) search 0 (concat runs))"
proof -
  have "length (occurrences search joined start) = length (match_spans (=) search start (drop start joined))" for joined start
    using assms(1)
  proof (induction search joined start rule: occurrences.induct)
    case (1 search joined start)
    show ?case
    proof (cases "find_from search joined start")
      case None
      then show ?thesis
        using 1(2) by (simp add: occurrences.simps [of search joined start] match_spans.simps [of _ search start] find_eq_sub find_from_def)
    next
      case (Some found)
      then show ?thesis
        using 1(1) [OF _ Some] 1(2) find_from_Some [OF Some 1(2)]
        by (simp add: occurrences.simps [of search joined start] match_spans.simps [of _ search start] find_eq_sub add.commute)
    qed
  qed
  from this [of "concat runs" 0] show ?thesis
    using edits_text [OF assms(1), of 0 runs new] assms(2)
    by (auto simp: replace_text_preserving_runs_def foldr_conv_fold)
qed

lemma run_replacement_exact_witness:
  "concat (fst (replace_text_preserving_runs [97, 98] [120] [[97], [98, 97], [], [98, 99]])) = [120, 120, 99]"
proof -
  obtain runs' n where r: "replace_text_preserving_runs [97, 98] [120] [[97], [98, 97], [], [98, 99]] = (runs', n)"
    by fastforce
  have "replaced_text [97, 98] [120] [97, 98, 97, 98, 99] = [120, 120, 99]" by code_simp
  then show ?thesis using run_replacement_exact [OF _ r] r by simp
qed

section \<open>The text nodes of a paragraph\<close>

text \<open>
  An element as \<open>ElementTree\<close> has it: its tag in Clark notation, its attributes, the text before its
  first child, the text after its end and its children.
\<close>

datatype xml_element =
  Element (el_tag: string) (el_attributes: "(string \<times> string) list") (el_text: "utext option")
    (el_tail: "utext option") (el_children: "xml_element list")

definition word_ns :: string where
  "word_ns = ''http://schemas.openxmlformats.org/wordprocessingml/2006/main''"

definition xml_ns :: string where
  "xml_ns = ''http://www.w3.org/XML/1998/namespace''"

definition clark :: "string \<Rightarrow> string \<Rightarrow> string" where
  "clark ns name = ''{'' @ ns @ ''}'' @ name"

definition local_name :: "string \<Rightarrow> string" where
  "local_name tag = rev (takeWhile (\<lambda>c. c \<noteq> CHR ''}'') (rev tag))"

definition blocked_names :: "string list" where
  "blocked_names = [''ins'', ''del'', ''moveFrom'', ''moveTo'', ''fldSimple'', ''sdt'']"

definition text_node :: "bool \<Rightarrow> string \<Rightarrow> bool" where
  "text_node blocked tag \<longleftrightarrow> tag = clark word_ns ''t'' \<and> \<not> (blocked \<or> local_name tag \<in> set blocked_names)"

text \<open>A text node as the replacement sees and changes it: its text, and whether it preserves spaces.\<close>

type_synonym text_state = "utext option \<times> (string \<times> string) list"

fun collect_nodes :: "bool \<Rightarrow> xml_element \<Rightarrow> text_state list" where
  "collect_nodes blocked (Element tag attrs text tail children) =
     (if text_node blocked tag then [(text, attrs)]
      else concat (List.map (collect_nodes (blocked \<or> local_name tag \<in> set blocked_names)) children))"

text \<open>The nodes are changed in place: the same walk puts the new states back.\<close>

fun put_nodes :: "bool \<Rightarrow> xml_element \<Rightarrow> text_state list \<Rightarrow> xml_element"
  and put_children :: "bool \<Rightarrow> xml_element list \<Rightarrow> text_state list \<Rightarrow> xml_element list" where
  "put_nodes blocked (Element tag attrs text tail children) ns =
     (if text_node blocked tag
      then (case ns of [] \<Rightarrow> Element tag attrs text tail children
            | (text', attrs') # _ \<Rightarrow> Element tag attrs' text' tail children)
      else Element tag attrs text tail (put_children (blocked \<or> local_name tag \<in> set blocked_names) children ns))"
| "put_children blocked [] ns = []"
| "put_children blocked (c # cs) ns =
     (let n = length (collect_nodes blocked c) in put_nodes blocked c (take n ns) # put_children blocked cs (drop n ns))"

definition node_text :: "text_state \<Rightarrow> utext" where
  "node_text n = (case fst n of Some t \<Rightarrow> t | None \<Rightarrow> [])"

definition space_key :: string where
  "space_key = clark xml_ns ''space''"

text \<open>The text of a node of the match is set; one that now begins or ends with a space preserves it.\<close>

definition set_node_text :: "utext \<Rightarrow> text_state \<Rightarrow> text_state" where
  "set_node_text t n =
     (Some t, if t \<noteq> [] \<and> (hd t = 32 \<or> last t = 32) then AList.update space_key ''preserve'' (snd n) else snd n)"

definition edit_nodes :: "utext \<Rightarrow> nat \<Rightarrow> nat \<Rightarrow> text_state list \<Rightarrow> text_state list" where
  "edit_nodes new found stop ns =
     (case locate_span (List.map node_text ns) 0 0 found stop None of
        (Some (i, a), Some (j, b)) \<Rightarrow>
          map2 (\<lambda>k (t, n). if i \<le> k \<and> k \<le> j then set_node_text t n else n)
            [0..<length ns] (zip (edit_span new found stop (List.map node_text ns)) ns)
      | _ \<Rightarrow> ns)"

definition replace_xml_text_nodes :: "utext \<Rightarrow> utext \<Rightarrow> xml_element \<Rightarrow> xml_element \<times> nat" where
  "replace_xml_text_nodes search new paragraph =
     (let nodes = collect_nodes False paragraph;
          positions = occurrences search (concat (List.map node_text nodes)) 0;
          nodes' = fold (\<lambda>found ns. edit_nodes new found (found + length search) ns) (rev positions) nodes
      in (put_nodes False paragraph nodes', length positions))"

lemma size_put:
  "size (put_nodes blocked el ns) = size el"
  "size_list size (put_children blocked els ns) = size_list size els"
  by (induction blocked el ns and blocked els ns rule: put_nodes_put_children.induct)
    (simp_all add: Let_def split: list.split)

text \<open>
  \<open>root.iter\<close> over the paragraphs of a part: document order, a paragraph before those nested in it,
  each with the changes made so far.
\<close>

function replace_in_part :: "utext \<Rightarrow> utext \<Rightarrow> xml_element \<Rightarrow> xml_element" where
  "replace_in_part search new el =
     (let el' = (if el_tag el = clark word_ns ''p'' then fst (replace_xml_text_nodes search new el) else el)
      in Element (el_tag el') (el_attributes el') (el_text el') (el_tail el')
           (List.map (replace_in_part search new) (el_children el')))"
  by pat_completeness auto

termination
proof (relation "measure (\<lambda>(search, new, el). size el)", goal_cases)
  case (2 search new el x z)
  then have "size x = size el" by (auto simp: replace_xml_text_nodes_def Let_def size_put)
  moreover have "size z < size x" using 2(2) by (cases x) (simp add: size_list_estimation' less_Suc_eq_le trans_le_add2)
  ultimately show ?case by simp
qed simp

subsection \<open>What a replacement leaves alone\<close>

text \<open>The document without the text nodes that may be edited.\<close>

fun outline :: "bool \<Rightarrow> xml_element \<Rightarrow> xml_element" where
  "outline blocked (Element tag attrs text tail children) =
     (if text_node blocked tag then Element tag [] None tail children
      else Element tag attrs text tail (List.map (outline (blocked \<or> local_name tag \<in> set blocked_names)) children))"

lemma outline_put:
  "outline blocked (put_nodes blocked el ns) = outline blocked el"
  "List.map (outline blocked) (put_children blocked els ns) = List.map (outline blocked) els"
  by (induction blocked el ns and blocked els ns rule: put_nodes_put_children.induct)
    (simp_all add: Let_def split: list.split)

lemma collect_put:
  "length ns = length (collect_nodes blocked el) \<Longrightarrow> collect_nodes blocked (put_nodes blocked el ns) = ns"
  "length ns = length (concat (List.map (collect_nodes blocked) els)) \<Longrightarrow>
     concat (List.map (collect_nodes blocked) (put_children blocked els ns)) = ns"
proof (induction blocked el ns and blocked els ns rule: put_nodes_put_children.induct)
  case (1 blocked tag attrs body tail children ns)
  then show ?case by (cases ns) (auto simp: Let_def)
next
  case (3 blocked c cs ns)
  then show ?case by (simp add: Let_def)
qed simp

lemma node_text_set [simp]: "node_text (set_node_text t n) = t"
  by (simp add: set_node_text_def node_text_def)

lemma edit_span_outside:
  assumes "locate_span ts 0 0 found stop None = (Some (i, a), Some (j, b))" "i \<le> j" "j < length ts" "k < i \<or> j < k" "k < length ts"
  shows "edit_span new found stop ts ! k = ts ! k"
  using assms by (auto simp: edit_span_def nth_append min_def)

lemma locate_span_order:
  "locate_span ts index cursor found stop first = (Some (i, a), Some (j, b)) \<Longrightarrow>
   (\<And>i a. first = Some (i, a) \<Longrightarrow> i < index) \<Longrightarrow> i \<le> j \<and> index \<le> j \<and> j < index + length ts"
proof (induction ts arbitrary: index cursor first)
  case (Cons t ts)
  let ?first = "if first = None \<and> found < cursor + length t then Some (index, found - cursor) else first"
  show ?case
  proof (cases "stop \<le> cursor + length t")
    case True
    then show ?thesis using Cons.prems by (fastforce simp: Let_def less_imp_le split: if_splits)
  next
    case False
    then have "locate_span ts (Suc index) (cursor + length t) found stop ?first = (Some (i, a), Some (j, b))"
      using Cons.prems(1) by (simp add: Let_def)
    moreover have "i' < Suc index" if "?first = Some (i', a')" for i' a'
      using that Cons.prems(2) by (fastforce simp: less_Suc_eq split: if_splits)
    ultimately show ?thesis using Cons.IH by fastforce
  qed
qed simp

lemma edit_nodes_text:
  "List.map node_text (edit_nodes new found stop ns) = edit_span new found stop (List.map node_text ns)
   \<and> length (edit_nodes new found stop ns) = length ns"
proof -
  let ?ts = "List.map node_text ns"
  consider i a j b where "locate_span ?ts 0 0 found stop None = (Some (i, a), Some (j, b))"
    | "edit_nodes new found stop ns = ns" "edit_span new found stop ?ts = ?ts"
    by (cases "fst (locate_span ?ts 0 0 found stop None)"; cases "snd (locate_span ?ts 0 0 found stop None)";
        cases "locate_span ?ts 0 0 found stop None") (auto simp: edit_nodes_def edit_span_def)
  then show ?thesis
  proof cases
    case (1 i a j b)
    have ij: "i \<le> j" "j < length ?ts" using locate_span_order [OF 1] by auto
    have len: "length (edit_span new found stop ?ts) = length ns" using 1 ij by (auto simp: edit_span_def)
    have *: "length (edit_nodes new found stop ns) = length ns" using 1 len by (simp add: edit_nodes_def)
    moreover have "List.map node_text (edit_nodes new found stop ns) = edit_span new found stop ?ts"
    proof (rule nth_equalityI)
      fix k assume "k < length (List.map node_text (edit_nodes new found stop ns))"
      then have k: "k < length ns" using * by simp
      show "List.map node_text (edit_nodes new found stop ns) ! k = edit_span new found stop ?ts ! k"
        using 1 len k edit_span_outside [OF 1 ij, of k new] by (auto simp: edit_nodes_def)
    qed (use * len in simp)
    ultimately show ?thesis by blast
  qed simp
qed

lemma edits_nodes_text:
  "List.map node_text (foldr (\<lambda>found. edit_nodes new found (found + n)) ps ns)
     = foldr (\<lambda>found. edit_span new found (found + n)) ps (List.map node_text ns)
   \<and> length (foldr (\<lambda>found. edit_nodes new found (found + n)) ps ns) = length ns"
  by (induction ps) (simp_all add: edit_nodes_text)

text \<open>A node is as it was, or its text was set and keeps the spaces at its ends.\<close>

definition spaces_kept :: "text_state \<Rightarrow> bool" where
  "spaces_kept n \<longleftrightarrow> (\<exists>t. fst n = Some t
     \<and> (t \<noteq> [] \<and> (hd t = 32 \<or> last t = 32) \<longrightarrow> map_of (snd n) space_key = Some ''preserve''))"

lemma spaces_kept_set: "spaces_kept (set_node_text t n)"
  by (simp add: spaces_kept_def set_node_text_def update_conv)

lemma edit_nodes_spaces:
  assumes "k < length ns"
  shows "edit_nodes new found stop ns ! k = ns ! k \<or> spaces_kept (edit_nodes new found stop ns ! k)"
proof (cases "edit_nodes new found stop ns = ns")
  case False
  then obtain i a j b where "locate_span (List.map node_text ns) 0 0 found stop None = (Some (i, a), Some (j, b))"
    by (auto simp: edit_nodes_def split: option.splits prod.splits)
  moreover have "length (edit_span new found stop (List.map node_text ns)) = length ns"
    using edit_nodes_text [of new found stop ns] by (metis length_map)
  ultimately show ?thesis using assms by (simp add: edit_nodes_def spaces_kept_set)
qed simp

lemma edits_nodes_spaces:
  assumes "k < length ns"
  shows "foldr (\<lambda>found. edit_nodes new found (found + n)) ps ns ! k = ns ! k
     \<or> spaces_kept (foldr (\<lambda>found. edit_nodes new found (found + n)) ps ns ! k)"
proof (induction ps)
  case (Cons p ps)
  let ?ns = "foldr (\<lambda>found. edit_nodes new found (found + n)) ps ns"
  have "k < length ?ns" using assms edits_nodes_text by auto
  from edit_nodes_spaces [OF this, of new p "p + n"] show ?case using Cons.IH by auto
qed simp

definition visible_text :: "xml_element \<Rightarrow> utext" where
  "visible_text el = concat (List.map node_text (collect_nodes False el))"

text \<open>
  C35. In a paragraph of a Word document exactly the leftmost non-overlapping matches of its visible
  text are exchanged; tags, attributes and content other than the visible text nodes stay, tracked
  changes, fields and content controls among them; and a node whose text was set and begins or ends
  with a space keeps it.
\<close>

theorem xml_replacement_exact:
  assumes "search \<noteq> []" "replace_xml_text_nodes search new el = (el', n)"
  shows "visible_text el' = replaced_text search new (visible_text el)
     \<and> outline False el' = outline False el
     \<and> length (collect_nodes False el') = length (collect_nodes False el)
     \<and> (\<forall>k < length (collect_nodes False el).
          collect_nodes False el' ! k = collect_nodes False el ! k \<or> spaces_kept (collect_nodes False el' ! k))"
proof -
  let ?ns = "collect_nodes False el"
  let ?ps = "occurrences search (concat (List.map node_text ?ns)) 0"
  let ?ns' = "foldr (\<lambda>found. edit_nodes new found (found + length search)) ?ps ?ns"
  have el': "el' = put_nodes False el ?ns'"
    using assms(2) by (auto simp: replace_xml_text_nodes_def Let_def foldr_conv_fold)
  have nodes: "collect_nodes False el' = ?ns'" unfolding el'
    by (rule collect_put(1)) (simp add: edits_nodes_text)
  have "visible_text el' = replaced_text search new (visible_text el)"
    using edits_text [OF assms(1), of 0 "List.map node_text ?ns" new]
    by (simp add: visible_text_def nodes edits_nodes_text)
  moreover have "outline False el' = outline False el" unfolding el' by (rule outline_put(1))
  ultimately show ?thesis using edits_nodes_spaces [of _ ?ns] by (simp add: nodes edits_nodes_text)
qed

definition word_text :: "string \<Rightarrow> xml_element" where
  "word_text t = Element (clark word_ns ''t'') [] (Some (List.map of_char t)) None []"

definition word_element :: "string \<Rightarrow> xml_element list \<Rightarrow> xml_element" where
  "word_element name children = Element (clark word_ns name) [] None None children"

lemma xml_replacement_exact_witness:
  "visible_text (fst (replace_xml_text_nodes [97, 98] [32]
     (word_element ''p'' [word_text ''a'', word_element ''ins'' [word_text ''ab''], word_text ''bc''])))
   = [32, 99]"
proof -
  let ?el = "word_element ''p'' [word_text ''a'', word_element ''ins'' [word_text ''ab''], word_text ''bc'']"
  obtain el' n where r: "replace_xml_text_nodes [97, 98] [32] ?el = (el', n)" by fastforce
  have v: "visible_text ?el = [97, 98, 99]" by code_simp
  have "replaced_text [97, 98] [32] [97, 98, 99] = [32, 99]" by code_simp
  then show ?thesis using xml_replacement_exact [OF _ r] r v by simp
qed

text \<open>
  A paragraph nested in another, as text boxes have it, is visited twice: its text is replaced as part
  of the outer paragraph and again by itself.
\<close>

lemma nested_paragraph_replaced_twice:
  "visible_text (replace_in_part [97] [97, 97]
     (word_element ''p'' [word_text ''a'', word_element ''txbxContent'' [word_element ''p'' [word_text ''a'']]]))
   = [97, 97, 97, 97, 97, 97]"
  by code_simp

end
