(* ===== verification/Csv.thy ===== *)
theory Csv
  imports Text
begin

text \<open>
  Reading and writing CSV as \<open>structured_files.py\<close> does, with the reader and writer of the standard
  library's \<open>csv\<close> module: the reader is its state machine over the characters of each line and the end
  of the line, for the dialects the code uses (minimal quoting, no escape character, not strict).
\<close>

record csv_dialect =
  cd_delimiter :: nat
  cd_quote :: nat
  cd_double :: bool
  cd_skip :: bool

definition excel :: csv_dialect where
  "excel = \<lparr>cd_delimiter = 44, cd_quote = 34, cd_double = True, cd_skip = False\<rparr>"

definition excel_tab :: csv_dialect where
  "excel_tab = excel\<lparr>cd_delimiter := 9\<rparr>"

section \<open>The reader\<close>

datatype csv_mode = StartRecord | StartField | InField | InQuoted | QuoteInQuoted | EatNewline

record csv_reader =
  rd_mode :: csv_mode
  rd_field :: utext
  rd_row :: "utext list"

definition fresh_reader :: csv_reader where
  "fresh_reader = \<lparr>rd_mode = StartRecord, rd_field = [], rd_row = []\<rparr>"

definition save_field :: "csv_mode \<Rightarrow> csv_reader \<Rightarrow> csv_reader" where
  "save_field mode r = \<lparr>rd_mode = mode, rd_field = [], rd_row = rd_row r @ [rd_field r]\<rparr>"

text \<open>\<open>csv.field_size_limit()\<close> is 131072 characters.\<close>

definition add_char :: "nat \<Rightarrow> nat \<Rightarrow> csv_mode \<Rightarrow> csv_reader \<Rightarrow> csv_reader res" where
  "add_char limit c mode r =
     (if limit \<le> length (rd_field r) then Inl (CsvError ''field larger than field limit'')
      else Inr (r\<lparr>rd_field := rd_field r @ [c], rd_mode := mode\<rparr>))"

definition is_newline :: "nat \<Rightarrow> bool" where
  "is_newline c \<longleftrightarrow> c = 10 \<or> c = 13"

definition start_field :: "csv_dialect \<Rightarrow> nat \<Rightarrow> nat option \<Rightarrow> csv_reader \<Rightarrow> csv_reader res" where
  "start_field d limit ch r =
     (case ch of
        None \<Rightarrow> Inr (save_field StartRecord r)
      | Some c \<Rightarrow>
          if is_newline c then Inr (save_field EatNewline r)
          else if c = cd_quote d then Inr (r\<lparr>rd_mode := InQuoted\<rparr>)
          else if c = 32 \<and> cd_skip d then Inr (r\<lparr>rd_mode := StartField\<rparr>)
          else if c = cd_delimiter d then Inr (save_field StartField r)
          else add_char limit c InField r)"

text \<open>One character, or \<open>None\<close> for the end of the line.\<close>

definition csv_char :: "csv_dialect \<Rightarrow> nat \<Rightarrow> csv_reader \<Rightarrow> nat option \<Rightarrow> csv_reader res" where
  "csv_char d limit r ch =
     (case rd_mode r of
        StartRecord \<Rightarrow>
          (case ch of
             None \<Rightarrow> Inr r
           | Some c \<Rightarrow> if is_newline c then Inr (r\<lparr>rd_mode := EatNewline\<rparr>) else start_field d limit ch r)
      | StartField \<Rightarrow> start_field d limit ch r
      | InField \<Rightarrow>
          (case ch of
             None \<Rightarrow> Inr (save_field StartRecord r)
           | Some c \<Rightarrow>
               if is_newline c then Inr (save_field EatNewline r)
               else if c = cd_delimiter d then Inr (save_field StartField r)
               else add_char limit c InField r)
      | InQuoted \<Rightarrow>
          (case ch of
             None \<Rightarrow> Inr r
           | Some c \<Rightarrow>
               if c = cd_quote d then Inr (r\<lparr>rd_mode := if cd_double d then QuoteInQuoted else InField\<rparr>)
               else add_char limit c InQuoted r)
      | QuoteInQuoted \<Rightarrow>
          (case ch of
             None \<Rightarrow> Inr (save_field StartRecord r)
           | Some c \<Rightarrow>
               if c = cd_quote d then add_char limit c InQuoted r
               else if c = cd_delimiter d then Inr (save_field StartField r)
               else if is_newline c then Inr (save_field EatNewline r)
               else add_char limit c InField r)
      | EatNewline \<Rightarrow>
          (case ch of
             None \<Rightarrow> Inr (r\<lparr>rd_mode := StartRecord\<rparr>)
           | Some c \<Rightarrow>
               if is_newline c then Inr r
               else Inl (CsvError ''new-line character seen in unquoted field'')))"

text \<open>The lines of \<open>io.StringIO(text, newline="")\<close> keep their ends: \<open>\n\<close>, \<open>\r\<close> or \<open>\r\n\<close>.\<close>

fun lines_from :: "utext \<Rightarrow> utext \<Rightarrow> utext list" where
  "lines_from acc [] = (if acc = [] then [] else [acc])"
| "lines_from acc (c # cs) =
     (if c = 10 then (acc @ [10]) # lines_from [] cs
      else if c = 13 then
        (if cs \<noteq> [] \<and> hd cs = 10 then lines_from (acc @ [13]) cs else (acc @ [13]) # lines_from [] cs)
      else lines_from (acc @ [c]) cs)"

definition csv_line :: "csv_dialect \<Rightarrow> nat \<Rightarrow> csv_reader \<Rightarrow> utext \<Rightarrow> csv_reader res" where
  "csv_line d limit r line = rbind (rfold (csv_char d limit) r (List.map Some line)) (\<lambda>r'. csv_char d limit r' None)"

definition last_record :: "csv_reader \<Rightarrow> utext list list" where
  "last_record r = (if rd_field r \<noteq> [] \<or> rd_mode r = InQuoted then [rd_row r @ [rd_field r]] else [])"

fun read_records :: "csv_dialect \<Rightarrow> nat \<Rightarrow> csv_reader \<Rightarrow> utext list \<Rightarrow> utext list list res" where
  "read_records d limit r [] = Inr (last_record r)"
| "read_records d limit r (l # ls) =
     rbind (csv_line d limit r l) (\<lambda>r'.
       if rd_mode r' = StartRecord then rbind (read_records d limit fresh_reader ls) (\<lambda>rows. Inr (rd_row r' # rows))
       else read_records d limit r' ls)"

definition csv_read :: "csv_dialect \<Rightarrow> nat \<Rightarrow> utext \<Rightarrow> utext list list res" where
  "csv_read d limit text = read_records d limit fresh_reader (lines_from [] text)"

section \<open>The writer\<close>

definition must_quote :: "csv_dialect \<Rightarrow> utext \<Rightarrow> bool" where
  "must_quote d f \<longleftrightarrow> list_ex (\<lambda>c. c = cd_delimiter d \<or> c = cd_quote d \<or> is_newline c) f"

definition quote_field :: "csv_dialect \<Rightarrow> utext \<Rightarrow> utext" where
  "quote_field d f =
     cd_quote d # concat (List.map (\<lambda>c. if c = cd_quote d then [c, c] else [c]) f) @ [cd_quote d]"

definition write_field :: "csv_dialect \<Rightarrow> utext \<Rightarrow> utext res" where
  "write_field d f =
     (if cd_quote d \<in> set f \<and> \<not> cd_double d then Inl (CsvError ''need to escape, but no escapechar set'')
      else Inr (if must_quote d f then quote_field d f else f))"

text \<open>A record of one empty field would be an empty line; it is quoted.\<close>

definition write_row :: "csv_dialect \<Rightarrow> utext list \<Rightarrow> utext res" where
  "write_row d row =
     (if row = [[]] then Inr [cd_quote d, cd_quote d]
      else rbind (rmap (write_field d) row) (\<lambda>fs. Inr (join_with [cd_delimiter d] fs)))"

definition csv_write :: "csv_dialect \<Rightarrow> utext \<Rightarrow> utext list list \<Rightarrow> utext res" where
  "csv_write d newline rows = rbind (rmap (write_row d) rows) (\<lambda>ls. Inr (concat (List.map (\<lambda>l. l @ newline) ls)))"

section \<open>Reading what was written\<close>

subsection \<open>The reader without lines\<close>

text \<open>\<open>mid\<close>: some characters of the current line were read.\<close>

definition end_line :: "csv_dialect \<Rightarrow> nat \<Rightarrow> (csv_reader \<Rightarrow> utext list list res) \<Rightarrow> csv_reader \<Rightarrow> utext list list res" where
  "end_line d limit rest r =
     rbind (csv_char d limit r None) (\<lambda>r'.
       if rd_mode r' = StartRecord then rbind (rest fresh_reader) (\<lambda>rows. Inr (rd_row r' # rows)) else rest r')"

fun read_stream :: "csv_dialect \<Rightarrow> nat \<Rightarrow> bool \<Rightarrow> utext \<Rightarrow> csv_reader \<Rightarrow> utext list list res" where
  "read_stream d limit mid [] r = (if mid then end_line d limit (\<lambda>r. Inr (last_record r)) r else Inr (last_record r))"
| "read_stream d limit mid (c # cs) r =
     rbind (csv_char d limit r (Some c)) (\<lambda>r'.
       if c = 10 \<or> (c = 13 \<and> \<not> (cs \<noteq> [] \<and> hd cs = 10)) then end_line d limit (read_stream d limit False cs) r'
       else read_stream d limit True cs r')"

lemma read_lines_error:
  "rfold (csv_char d limit) r (List.map Some acc) = Inl e \<Longrightarrow> acc \<noteq> [] \<Longrightarrow>
   read_records d limit r (lines_from acc body) = Inl e"
proof (induction acc body rule: lines_from.induct)
  case (2 acc c cs)
  have "rfold (csv_char d limit) r (List.map Some (acc @ [c])) = Inl e"
    using 2(5) by (simp add: rfold_append)
  then show ?case using 2(2,4) by (auto simp: csv_line_def)
qed (simp add: csv_line_def)

lemma read_lines_stream:
  assumes "rfold (csv_char d limit) r (List.map Some acc) = Inr r'"
  shows "read_records d limit r (lines_from acc body) = read_stream d limit (acc \<noteq> []) body r'"
  using assms
proof (induction acc body arbitrary: r r' rule: lines_from.induct)
  case (1 acc)
  then show ?case by (cases "csv_char d limit r' None") (auto simp: csv_line_def end_line_def)
next
  case (2 acc c cs)
  have f: "rfold (csv_char d limit) r (List.map Some (acc @ [c])) = csv_char d limit r' (Some c)"
    using 2(5) by (cases "csv_char d limit r' (Some c)") (simp_all add: rfold_append)
  show ?case
  proof (cases "c = 10 \<or> (c = 13 \<and> \<not> (cs \<noteq> [] \<and> hd cs = 10))")
    case True
    then have "lines_from acc (c # cs) = (acc @ [c]) # lines_from [] cs" by auto
    moreover have "read_records d limit r0 (lines_from [] cs) = read_stream d limit False cs r0" for r0
      using 2(1,3) True by (cases "c = 10") auto
    ultimately show ?thesis using True f
      by (cases "csv_char d limit r' (Some c)") (auto simp: csv_line_def end_line_def intro!: rbind_cong)
  next
    case False
    then have l: "lines_from acc (c # cs) = lines_from (acc @ [c]) cs" by auto
    show ?thesis
    proof (cases "csv_char d limit r' (Some c)")
      case (Inr r'')
      then have "read_records d limit r (lines_from (acc @ [c]) cs) = read_stream d limit True cs r''"
        using 2(2,4) [of r r''] False f by (cases "c = 13") auto
      then show ?thesis unfolding l using False Inr by auto
    next
      case (Inl e)
      have "read_records d limit r (lines_from (acc @ [c]) cs) = Inl e"
        by (rule read_lines_error) (use f Inl in simp_all)
      then show ?thesis unfolding l using False Inl f by auto
    qed
  qed
qed

lemma csv_read_stream: "csv_read d limit text = read_stream d limit False text fresh_reader"
  using read_lines_stream [of d limit fresh_reader "[]"] by (simp add: csv_read_def)

subsection \<open>Fields\<close>

definition sound_dialect :: "csv_dialect \<Rightarrow> bool" where
  "sound_dialect d \<longleftrightarrow> cd_double d \<and> \<not> cd_skip d \<and> distinct [cd_delimiter d, cd_quote d, 10, 13]"

abbreviation rd :: "csv_mode \<Rightarrow> utext \<Rightarrow> utext list \<Rightarrow> csv_reader" where
  "rd md f row \<equiv> \<lparr>rd_mode = md, rd_field = f, rd_row = row\<rparr>"

definition escape_quotes :: "csv_dialect \<Rightarrow> utext \<Rightarrow> utext" where
  "escape_quotes d f = concat (List.map (\<lambda>c. if c = cd_quote d then [c, c] else [c]) f)"

lemma stream_in_field:
  assumes "\<not> must_quote d g" "length f + length g \<le> limit"
  shows "read_stream d limit True (g @ rest) (rd InField f row) = read_stream d limit True rest (rd InField (f @ g) row)"
  using assms
proof (induction g arbitrary: f)
  case (Cons c g)
  then have "c \<noteq> 10" "c \<noteq> 13" "c \<noteq> cd_delimiter d" "\<not> must_quote d g"
    by (auto simp: must_quote_def is_newline_def)
  then show ?case using Cons.IH [of "f @ [c]"] Cons.prems(2)
    by (simp add: csv_char_def add_char_def is_newline_def)
qed simp

lemma stream_plain:
  assumes "\<not> must_quote d f" "f \<noteq> []" "length f \<le> limit" "md = StartRecord \<or> md = StartField" "sound_dialect d"
  shows "read_stream d limit mid (f @ rest) (rd md [] row) = read_stream d limit True rest (rd InField f row)"
proof -
  obtain c g where f: "f = c # g" using assms(2) by (cases f) auto
  then have c: "c \<noteq> 10" "c \<noteq> 13" "c \<noteq> cd_delimiter d" "c \<noteq> cd_quote d" "\<not> must_quote d g"
    using assms(1) by (auto simp: must_quote_def is_newline_def)
  have "csv_char d limit (rd md [] row) (Some c) = Inr (rd InField [c] row)"
    using c assms(3-5) f by (auto simp: csv_char_def start_field_def add_char_def is_newline_def sound_dialect_def)
  then show ?thesis using stream_in_field [OF c(5), of "[c]"] assms(3) c(1,2) f by simp
qed

lemma stream_quoted:
  assumes "length fld + length f \<le> limit" "sound_dialect d"
  shows "read_stream d limit mid (escape_quotes d f @ cd_quote d # rest) (rd InQuoted fld row)
     = read_stream d limit True rest (rd QuoteInQuoted (fld @ f) row)"
  using assms(1)
proof (induction f arbitrary: fld mid)
  case Nil
  then show ?case using assms(2) by (auto simp: escape_quotes_def csv_char_def sound_dialect_def)
next
  case (Cons c f)
  have q: "cd_quote d \<noteq> 10" "cd_quote d \<noteq> 13" "cd_double d" using assms(2) by (auto simp: sound_dialect_def)
  have ih: "read_stream d limit mid (escape_quotes d f @ cd_quote d # rest) (rd InQuoted (fld @ [c]) row)
     = read_stream d limit True rest (rd QuoteInQuoted (fld @ c # f) row)" for mid
    using Cons.IH [of "fld @ [c]"] Cons.prems by simp
  have room: "length fld < limit" using Cons.prems by simp
  show ?case
  proof (cases "c = cd_quote d")
    case True
    then show ?thesis using ih q room by (simp add: escape_quotes_def csv_char_def add_char_def)
  next
    case False
    have "csv_char d limit (rd InQuoted fld row) (Some c) = Inr (rd InQuoted (fld @ [c]) row)"
      using False room by (simp add: csv_char_def add_char_def)
    moreover have "end_line d limit more_lines (rd InQuoted (fld @ [c]) row) = more_lines (rd InQuoted (fld @ [c]) row)" for more_lines
      by (simp add: end_line_def csv_char_def)
    ultimately show ?thesis using ih False by (simp add: escape_quotes_def)
  qed
qed

text \<open>A written field is read back, whatever mode it was read in.\<close>

lemma stream_field:
  assumes "write_field d f = Inr w" "length f \<le> limit" "f \<noteq> []" "md = StartRecord \<or> md = StartField" "sound_dialect d"
  obtains md' where "md' = InField \<or> md' = QuoteInQuoted"
    "\<And>mid rest row. read_stream d limit mid (w @ rest) (rd md [] row) = read_stream d limit True rest (rd md' f row)"
proof (cases "must_quote d f")
  case True
  have w: "w = cd_quote d # escape_quotes d f @ [cd_quote d]"
    using assms(1,5) True by (simp add: write_field_def quote_field_def escape_quotes_def sound_dialect_def)
  have "csv_char d limit (rd md [] row) (Some (cd_quote d)) = Inr (rd InQuoted [] row)" for row
    using assms(4,5) by (auto simp: csv_char_def start_field_def is_newline_def sound_dialect_def)
  moreover have "cd_quote d \<noteq> 10" "cd_quote d \<noteq> 13" using assms(5) by (auto simp: sound_dialect_def)
  ultimately have "read_stream d limit mid (w @ rest) (rd md [] row) = read_stream d limit True rest (rd QuoteInQuoted f row)"
    for mid rest row
    using stream_quoted [of "[]" f limit d] assms(2,5) by (simp add: w)
  then show thesis using that [of QuoteInQuoted] by blast
next
  case False
  then have "w = f" using assms(1,5) by (simp add: write_field_def sound_dialect_def)
  then show thesis using that [of InField] stream_plain [OF False assms(3,2,4,5)] by simp
qed

definition field_read :: "csv_mode \<Rightarrow> bool" where
  "field_read md \<longleftrightarrow> md = StartField \<or> md = InField \<or> md = QuoteInQuoted"

lemma stream_delimiter:
  assumes "field_read md \<or> md = StartRecord" "sound_dialect d"
  shows "read_stream d limit mid (cd_delimiter d # rest) (rd md f row) = read_stream d limit True rest (rd StartField [] (row @ [f]))"
  using assms
  by (auto simp: field_read_def csv_char_def start_field_def save_field_def is_newline_def sound_dialect_def)

lemma stream_newline:
  assumes "field_read md" "newline = [10] \<or> newline = [13, 10]" "sound_dialect d"
  shows "read_stream d limit mid (newline @ rest) (rd md f row)
     = rbind (read_stream d limit False rest fresh_reader) (\<lambda>rows. Inr ((row @ [f]) # rows))"
  using assms
  by (auto simp: field_read_def csv_char_def start_field_def save_field_def is_newline_def end_line_def sound_dialect_def)

lemma stream_end:
  assumes "field_read md"
  shows "read_stream d limit True [] (rd md f row) = Inr [row @ [f]]"
  using assms
  by (auto simp: field_read_def csv_char_def start_field_def save_field_def is_newline_def end_line_def
      last_record_def fresh_reader_def)

subsection \<open>Records\<close>

lemma write_field_total: "sound_dialect d \<Longrightarrow> \<exists>w. write_field d f = Inr w \<and> (w = [] \<longleftrightarrow> f = [])"
  by (auto simp: write_field_def sound_dialect_def quote_field_def must_quote_def)

text \<open>The fields of a record, from the first or a later one on; a lone empty first field is written quoted.\<close>

lemma stream_fields:
  assumes "rmap (write_field d) (fs @ [f]) = Inr ws" "\<forall>g \<in> set (fs @ [f]). length g \<le> limit" "sound_dialect d"
    and "md = StartField \<and> mid \<or> md = StartRecord \<and> fs @ [f] \<noteq> [[]]"
  obtains md' where "field_read md'"
    "\<And>rest. read_stream d limit mid (join_with [cd_delimiter d] ws @ rest) (rd md [] row)
       = read_stream d limit True rest (rd md' f (row @ fs))"
  using assms
proof (induction fs arbitrary: ws md mid row thesis)
  case Nil
  then obtain w where w: "write_field d f = Inr w" "ws = [w]" by (auto simp: rbind_eq_Inr)
  show ?case
  proof (cases "f = []")
    case True
    then have "w = []" using w write_field_total [OF Nil.prems(4), of f] by auto
    then show ?thesis using Nil.prems(1,5) True w by (auto simp: field_read_def)
  next
    case False
    obtain md' where "md' = InField \<or> md' = QuoteInQuoted"
      "\<And>mid rest row. read_stream d limit mid (w @ rest) (rd md [] row) = read_stream d limit True rest (rd md' f row)"
      by (rule stream_field [OF w(1) _ False _ Nil.prems(4), of limit md]) (use Nil.prems in auto)
    then show ?thesis using Nil.prems(1) w by (auto simp: field_read_def)
  qed
next
  case (Cons g fs)
  obtain w us where w: "write_field d g = Inr w" "rmap (write_field d) (fs @ [f]) = Inr us" "ws = w # us"
    using Cons.prems(2) by (auto simp: rbind_eq_Inr)
  obtain u vs where us: "us = u # vs" using rmap_length [OF w(2)] by (cases us) auto
  obtain md' where md': "field_read md'"
    "\<And>rest. read_stream d limit True (join_with [cd_delimiter d] us @ rest) (rd StartField [] (row @ [g]))
       = read_stream d limit True rest (rd md' f ((row @ [g]) @ fs))"
    by (rule Cons.IH [where md = StartField and mid = True and row = "row @ [g]", OF _ w(2) _ Cons.prems(4)]) (use Cons.prems in auto)
  have step: "read_stream d limit mid (w @ cd_delimiter d # rest) (rd md [] row)
      = read_stream d limit True rest (rd StartField [] (row @ [g]))" for rest
  proof (cases "g = []")
    case True
    then have "w = []" using w(1) write_field_total [OF Cons.prems(4), of g] by auto
    then show ?thesis
      using stream_delimiter [of md d limit mid rest "[]" row] Cons.prems(4,5) True by (auto simp: field_read_def)
  next
    case False
    obtain md1 where "md1 = InField \<or> md1 = QuoteInQuoted"
      "\<And>mid rest row. read_stream d limit mid (w @ rest) (rd md [] row) = read_stream d limit True rest (rd md1 g row)"
      by (rule stream_field [OF w(1) _ False _ Cons.prems(4), of limit md]) (use Cons.prems in auto)
    then show ?thesis
      using stream_delimiter [of md1 d limit True rest g row] Cons.prems(4) by (auto simp: field_read_def)
  qed
  show ?case
    by (rule Cons.prems(1) [OF md'(1)]) (use step md'(2) in \<open>simp add: w(3) us\<close>)
qed

lemma write_row_total:
  assumes "sound_dialect d"
  shows "\<exists>w. write_row d row = Inr w"
proof -
  have "\<exists>ws. rmap (write_field d) row = Inr ws"
  proof (induction row)
    case (Cons f row)
    then show ?case using write_field_total [OF assms, of f] by auto
  qed simp
  then show ?thesis by (auto simp: write_row_def)
qed

text \<open>A written record, read with what follows it: the end of its line, or of the text.\<close>

lemma stream_row:
  assumes "write_row d row = Inr w" "\<forall>f \<in> set row. length f \<le> limit" "sound_dialect d" "row \<noteq> []"
  obtains fs f md where "row = fs @ [f]" "field_read md"
    "\<And>rest. read_stream d limit False (w @ rest) fresh_reader = read_stream d limit True rest (rd md f fs)"
proof (cases "row = [[]]")
  case True
  then have w: "w = [cd_quote d, cd_quote d]" using assms(1) by (simp add: write_row_def)
  have "read_stream d limit False (w @ rest) fresh_reader = read_stream d limit True rest (rd QuoteInQuoted [] [])" for rest
    using assms(3) w
    by (auto simp: fresh_reader_def csv_char_def start_field_def is_newline_def sound_dialect_def)
  then show thesis using that [of "[]" "[]" QuoteInQuoted] True by (simp add: field_read_def)
next
  case False
  obtain fs f where row: "row = fs @ [f]" using assms(4) by (metis rev_exhaust)
  obtain ws where ws: "rmap (write_field d) (fs @ [f]) = Inr ws" "w = join_with [cd_delimiter d] ws"
    using assms(1) False row by (auto simp: write_row_def rbind_eq_Inr)
  obtain md where "field_read md"
    "\<And>rest. read_stream d limit False (join_with [cd_delimiter d] ws @ rest) (rd StartRecord [] [])
       = read_stream d limit True rest (rd md f ([] @ fs))"
    by (rule stream_fields [OF ws(1) _ assms(3), of limit StartRecord False "[]"]) (use assms False row in auto)
  then show thesis using that [OF row] ws(2) by (simp add: fresh_reader_def)
qed

lemma stream_record:
  assumes "write_row d row = Inr w" "\<forall>f \<in> set row. length f \<le> limit" "sound_dialect d"
    and "newline = [10] \<or> newline = [13, 10]"
  shows "read_stream d limit False (w @ newline @ rest) fresh_reader
     = rbind (read_stream d limit False rest fresh_reader) (\<lambda>rows. Inr (row # rows))"
proof (cases "row = []")
  case True
  then have "w = []" using assms(1) by (simp add: write_row_def)
  then show ?thesis using assms(4) True
    by (auto simp: fresh_reader_def csv_char_def is_newline_def end_line_def)
next
  case False
  obtain fs f md where "row = fs @ [f]" "field_read md"
    "\<And>rest. read_stream d limit False (w @ rest) fresh_reader = read_stream d limit True rest (rd md f fs)"
    using stream_row [OF assms(1-3) False] by metis
  then show ?thesis using stream_newline [OF _ assms(4,3)] by simp
qed

section \<open>The round trip\<close>

lemma csv_write_Cons:
  "csv_write d newline (row # rows) =
     rbind (write_row d row) (\<lambda>w. rbind (csv_write d newline rows) (\<lambda>t. Inr (w @ newline @ t)))"
  by (cases "write_row d row"; cases "rmap (write_row d) rows") (simp_all add: csv_write_def)

lemma write_stream:
  assumes "csv_write d newline rows = Inr t" "\<forall>row \<in> set rows. \<forall>f \<in> set row. length f \<le> limit" "sound_dialect d"
    and "newline = [10] \<or> newline = [13, 10]"
  shows "read_stream d limit False (t @ rest) fresh_reader
     = rbind (read_stream d limit False rest fresh_reader) (\<lambda>more_rows. Inr (rows @ more_rows))"
  using assms(1,2)
proof (induction rows arbitrary: t)
  case Nil
  then show ?case by (cases "read_stream d limit False rest fresh_reader") (simp_all add: csv_write_def)
next
  case (Cons row rows)
  then obtain w u where w: "write_row d row = Inr w" "csv_write d newline rows = Inr u" "t = w @ newline @ u"
    by (auto simp: csv_write_Cons rbind_eq_Inr)
  then show ?case
    using stream_record [OF w(1) _ assms(3,4), of limit "u @ rest"] Cons.IH [OF w(2)] Cons.prems(2)
    by (cases "read_stream d limit False rest fresh_reader") simp_all
qed

lemma csv_write_total:
  assumes "sound_dialect d"
  shows "\<exists>t. csv_write d newline rows = Inr t"
proof (induction rows)
  case (Cons row rows)
  then show ?case using write_row_total [OF assms, of row] by (auto simp: csv_write_Cons)
qed (simp add: csv_write_def)

lemma csv_write_snoc:
  "csv_write d newline (rows @ [row]) =
     rbind (csv_write d newline rows) (\<lambda>u. rbind (write_row d row) (\<lambda>w. Inr (u @ w @ newline)))"
proof (induction rows)
  case (Cons r rows)
  then show ?case
    by (cases "write_row d r"; cases "csv_write d newline rows"; cases "write_row d row") (simp_all add: csv_write_Cons)
qed (simp add: csv_write_Cons, simp add: csv_write_def)

lemma csv_roundtrip_at:
  assumes "csv_write d newline rows = Inr t" "sound_dialect d" "newline = [10] \<or> newline = [13, 10]"
    and "\<forall>row \<in> set rows. \<forall>f \<in> set row. length f \<le> limit"
  shows "csv_read d limit t = Inr rows"
    and "rows \<noteq> [] \<Longrightarrow> last rows \<noteq> [] \<Longrightarrow> csv_read d limit (take (length t - length newline) t) = Inr rows"
proof -
  show "csv_read d limit t = Inr rows"
    using write_stream [OF assms(1,4,2,3), of "[]"] by (simp add: csv_read_stream last_record_def fresh_reader_def)
next
  assume ne: "rows \<noteq> []" "last rows \<noteq> []"
  obtain rs row where rows: "rows = rs @ [row]" "row \<noteq> []" using ne by (metis append_butlast_last_id)
  obtain u w where u: "csv_write d newline rs = Inr u" and w: "write_row d row = Inr w" and t: "t = u @ w @ newline"
    using assms(1) rows(1) by (auto simp: csv_write_snoc rbind_eq_Inr)
  obtain fs f md where r: "row = fs @ [f]" "field_read md"
    "\<And>rest. read_stream d limit False (w @ rest) fresh_reader = read_stream d limit True rest (rd md f fs)"
    by (rule stream_row [OF w _ assms(2) rows(2), of limit]) (use assms(4) rows in auto)
  have "read_stream d limit False (u @ w) fresh_reader = Inr (rs @ [row])"
    using write_stream [OF u _ assms(2,3), of limit w] assms(4) rows r(3) [of "[]"] stream_end [OF r(2)] r(1) by simp
  then show "csv_read d limit (take (length t - length newline) t) = Inr rows" using t rows by (simp add: csv_read_stream)
qed

text \<open>
  What the CSV writer writes, the reader reads back: with a dialect that doubles quotes and does
  not skip spaces, every table of fields within the reader's limit can be written, whatever delimiters,
  quotes and line ends its fields contain, and is read back cell by cell; also without the last line
  end, unless the last row is empty.
\<close>

lemma csv_roundtrip:
  assumes "sound_dialect d" "newline = [10] \<or> newline = [13, 10]"
    and "\<forall>row \<in> set rows. \<forall>f \<in> set row. length f \<le> limit"
  shows "\<exists>t. csv_write d newline rows = Inr t \<and> csv_read d limit t = Inr rows
     \<and> (rows \<noteq> [] \<and> last rows \<noteq> [] \<longrightarrow> csv_read d limit (take (length t - length newline) t) = Inr rows)"
  using csv_write_total [OF assms(1), of newline rows] csv_roundtrip_at [OF _ assms] by metis

lemma csv_roundtrip_witness:
  "\<exists>t. csv_write excel [13, 10] [[[97, 44], [34, 10]], [[]], [], [[98], []]] = Inr t
     \<and> csv_read excel 131072 t = Inr [[[97, 44], [34, 10]], [[]], [], [[98], []]]"
  using csv_roundtrip [of excel "[13, 10]" "[[[97, 44], [34, 10]], [[]], [], [[98], []]]" 131072]
  by (auto simp: sound_dialect_def excel_def)

end
