(* ===== verification/Csv_Edit.thy ===== *)
theory Csv_Edit
  imports Csv
begin

text \<open>
  The CSV and TSV documents of \<open>structured_files.py\<close>: detection of the encoding and the dialect, the
  limits, the edits and the rendering. The decoders other than UTF-8 and the guess of
  \<open>csv.Sniffer\<close> are parameters. A field larger than the limit of the \<open>csv\<close> module is an error there.
\<close>

record csv_env =
  ce_max_file :: int
  ce_max_elements :: int
  ce_field_limit :: nat
  ce_decode :: "string \<Rightarrow> bytes \<Rightarrow> utext option"
  ce_encode :: "string \<Rightarrow> utext \<Rightarrow> bytes option"
  ce_sniff :: "utext \<Rightarrow> csv_dialect option"

record csv_document =
  cv_rows :: "utext list list"
  cv_encoding :: string
  cv_codec :: string
  cv_bom :: bytes
  cv_dialect :: csv_dialect
  cv_newline :: utext
  cv_final_newline :: bool

definition structured_error :: "string \<Rightarrow> error" where
  "structured_error m = ValueError m"   \<comment> \<open>\<open>StructuredFileError\<close> is a \<open>ValueError\<close>\<close>

definition require_size :: "csv_env \<Rightarrow> bytes \<Rightarrow> unit res" where
  "require_size ce data =
     (if ce_max_file ce < int (length data)
      then Inl (structured_error ''structured file exceeds max_structured_file_bytes'') else Inr ())"

section \<open>Reading a document\<close>

definition detect_encoding :: "bytes \<Rightarrow> string \<times> string \<times> bytes" where
  "detect_encoding data =
     (if starts_with [0xEF, 0xBB, 0xBF] data then (''utf-8-sig'', ''utf-8'', [0xEF, 0xBB, 0xBF])
      else if starts_with [0xFF, 0xFE] data then (''utf-16-le'', ''utf-16-le'', [0xFF, 0xFE])
      else if starts_with [0xFE, 0xFF] data then (''utf-16-be'', ''utf-16-be'', [0xFE, 0xFF])
      else (''utf-8'', ''utf-8'', []))"

definition decode_body :: "csv_env \<Rightarrow> bytes \<Rightarrow> utext res" where
  "decode_body ce data =
     (case detect_encoding data of (_, codec, bom) \<Rightarrow>
        case ce_decode ce codec (drop (length bom) data) of
          None \<Rightarrow> Inl (structured_error ''CSV/TSV encoding is unsupported or invalid'')
        | Some t \<Rightarrow> Inr t)"

definition choose_dialect :: "csv_env \<Rightarrow> bool \<Rightarrow> utext \<Rightarrow> csv_dialect res" where
  "choose_dialect ce tsv sample =
     (if tsv
      then (if 9 \<notin> set sample \<and> list_ex (\<lambda>m. m \<in> set sample) [44, 59, 124]
            then Inl (structured_error ''TSV delimiter identity is ambiguous'') else Inr excel_tab)
      else case ce_sniff ce sample of
        Some d \<Rightarrow> Inr d
      | None \<Rightarrow>
          if list_ex (\<lambda>m. m \<in> set sample) [44, 59, 9, 124]
          then Inl (structured_error ''CSV delimiter identity is ambiguous'') else Inr excel)"

text \<open>The count while the rows are read.\<close>

definition count_row :: "csv_env \<Rightarrow> int \<times> int \<Rightarrow> utext list \<Rightarrow> (int \<times> int) res" where
  "count_row ce = (\<lambda>(rows, cells) row.
     if ce_max_elements ce < rows + 1 then Inl (structured_error ''CSV rows exceed max_structured_elements'')
     else if ce_max_elements ce < cells + int (length row)
     then Inl (structured_error ''CSV cells exceed max_structured_elements'')
     else Inr (rows + 1, cells + int (length row)))"

definition sample_of :: "utext \<Rightarrow> utext" where
  "sample_of body = take 8192 body"

text \<open>
  The streams decode while they are read; that a decoding error is found before the other checks here
  only changes the message of the rejection.
\<close>

definition preflight_csv :: "csv_env \<Rightarrow> bytes \<Rightarrow> bool \<Rightarrow> unit res" where
  "preflight_csv ce data tsv =
     rbind (require_size ce data) (\<lambda>_.
     rbind (decode_body ce data) (\<lambda>body.
     rbind (choose_dialect ce tsv (sample_of body)) (\<lambda>d.
     case csv_read d (ce_field_limit ce) body of
       Inl _ \<Rightarrow> Inl (structured_error ''invalid CSV/TSV structure'')
     | Inr rows \<Rightarrow> rbind (rfold (count_row ce) (0, 0) rows) (\<lambda>_. Inr ()))))"

fun without_crlf :: "utext \<Rightarrow> utext" where
  "without_crlf [] = []"
| "without_crlf (c # cs) = (if c = 13 \<and> cs \<noteq> [] \<and> hd cs = 10 then without_crlf (tl cs) else c # without_crlf cs)"

definition crlf :: utext where
  "crlf = [13, 10]"

definition mixed_newlines :: "utext \<Rightarrow> bool" where
  "mixed_newlines body \<longleftrightarrow> 13 \<in> set (without_crlf body) \<or> (contains_sub crlf body \<and> 10 \<in> set (without_crlf body))"

definition cell_count :: "utext list list \<Rightarrow> int" where
  "cell_count rows = sum_list (List.map (\<lambda>row. int (length row)) rows)"

definition require_csv_bounds :: "csv_env \<Rightarrow> utext list list \<Rightarrow> unit res" where
  "require_csv_bounds ce rows =
     (if ce_max_elements ce < int (length rows) then Inl (structured_error ''CSV rows exceeds max_structured_elements'')
      else if ce_max_elements ce < cell_count rows
      then Inl (structured_error ''CSV cells exceed max_structured_elements'') else Inr ())"

definition parse_csv :: "csv_env \<Rightarrow> bytes \<Rightarrow> bool \<Rightarrow> csv_document res" where
  "parse_csv ce data tsv =
     rbind (preflight_csv ce data tsv) (\<lambda>_.
     case detect_encoding data of (encoding, codec, bom) \<Rightarrow>
     rbind (decode_body ce data) (\<lambda>body.
     if mixed_newlines body then Inl (structured_error ''CSV/TSV contains mixed or ambiguous newline sequences'')
     else rbind (choose_dialect ce tsv (sample_of body)) (\<lambda>d.
     rbind (csv_read d (ce_field_limit ce) body) (\<lambda>rows.
     rbind (require_csv_bounds ce rows) (\<lambda>_.
       Inr \<lparr>cv_rows = rows, cv_encoding = encoding, cv_codec = codec, cv_bom = bom, cv_dialect = d,
            cv_newline = (if contains_sub crlf body then crlf else [10]),
            cv_final_newline = (ends_with crlf body \<or> ends_with [10] body)\<rparr>)))))"

section \<open>The edits\<close>

datatype csv_op =
    BadOperation
  | CellSet "int pyval" "int pyval" "utext pyval"
  | RowAppend "utext pyval list pyval"
  | RowInsert "int pyval" "utext pyval list pyval"
  | RowSet "int pyval" "utext pyval list pyval"
  | RowDelete "int pyval"
  | ColumnInsert "int pyval" "utext pyval"
  | ColumnDelete "int pyval"
  | ColumnAppend "utext pyval list pyval"
  | UnknownOp

definition index_of :: "int pyval \<Rightarrow> string \<Rightarrow> nat res" where
  "index_of v name =
     (case v of Py n \<Rightarrow> if n < 0 then Inl (structured_error (name @ '' must be an integer >= 0'')) else Inr (nat n)
      | _ \<Rightarrow> Inl (structured_error (name @ '' must be an integer >= 0'')))"

definition text_of_field :: "'a pyval \<Rightarrow> string \<Rightarrow> 'a res" where
  "text_of_field v name =
     (case v of Py t \<Rightarrow> Inr t | _ \<Rightarrow> Inl (structured_error (name @ '' must be a string'')))"

text \<open>\<open>op.get(name, "")\<close>.\<close>

definition or_empty :: "utext pyval \<Rightarrow> utext pyval" where
  "or_empty v = (case v of Missing \<Rightarrow> Py [] | _ \<Rightarrow> v)"

definition array_of :: "'a list pyval \<Rightarrow> 'a list res" where
  "array_of v = (case v of Py xs \<Rightarrow> Inr xs | _ \<Rightarrow> Inl (structured_error ''values must be an array''))"

definition or_no_values :: "'a list pyval \<Rightarrow> 'a list pyval" where
  "or_no_values v = (case v of Missing \<Rightarrow> Py [] | _ \<Rightarrow> v)"

text \<open>\<open>while len(xs) <= n: xs.append(x)\<close>.\<close>

function pad_to :: "nat \<Rightarrow> 'a \<Rightarrow> 'a list \<Rightarrow> 'a list" where
  "pad_to n x xs = (if length xs \<le> n then pad_to n x (xs @ [x]) else xs)"
  by pat_completeness auto
termination by (relation "measure (\<lambda>(n, x, xs). Suc n - length xs)") auto

declare pad_to.simps [simp del]

lemma pad_to_eq: "pad_to n x xs = xs @ replicate (Suc n - length xs) x"
proof (induction n x xs rule: pad_to.induct)
  case (1 n x xs)
  show ?case
  proof (cases "length xs \<le> n")
    case True
    then have "Suc n - length xs = Suc (Suc n - length (xs @ [x]))" by simp
    then show ?thesis using 1 True by (simp add: pad_to.simps [of n x xs])
  qed (simp add: pad_to.simps [of n x xs])
qed

definition cell_set :: "csv_env \<Rightarrow> utext list list \<Rightarrow> nat \<Rightarrow> nat \<Rightarrow> utext pyval \<Rightarrow> utext list list res" where
  "cell_set ce rows row column value =
     (let existing = (if row < length rows then int (length (rows ! row)) else 0) in
      if ce_max_elements ce \<le> int row \<or> ce_max_elements ce \<le> int column
      then Inl (structured_error ''CSV cell index exceeds max_structured_elements'')
      else if ce_max_elements ce < cell_count rows - existing + max existing (int column + 1)
      then Inl (structured_error ''CSV edit would exceed max_structured_elements'')
      else (let padded = pad_to row [] rows; line = pad_to column [] (padded ! row) in
            rbind (text_of_field (or_empty value) ''value'') (\<lambda>t. Inr (padded[row := line[column := t]]))))"

definition new_row :: "csv_env \<Rightarrow> int \<Rightarrow> utext pyval list pyval \<Rightarrow> utext list res" where
  "new_row ce cells values =
     rbind (array_of values) (\<lambda>vs.
       if ce_max_elements ce < int (length vs) then Inl (structured_error ''CSV row exceeds max_structured_elements'')
       else if ce_max_elements ce < cells + int (length vs)
       then Inl (structured_error ''CSV edit would exceed max_structured_elements'')
       else rmap (\<lambda>v. text_of_field v ''value'') vs)"

definition insert_at :: "nat \<Rightarrow> 'a \<Rightarrow> 'a list \<Rightarrow> 'a list" where
  "insert_at n x xs = take n xs @ [x] @ drop n xs"

definition delete_at :: "nat \<Rightarrow> 'a list \<Rightarrow> 'a list" where
  "delete_at n xs = take n xs @ drop (Suc n) xs"

definition index_error :: error where
  "index_error = IndexError ''list index out of range''"

definition apply_csv_op :: "csv_env \<Rightarrow> utext list list \<Rightarrow> csv_op \<Rightarrow> utext list list res" where
  "apply_csv_op ce rows operation =
     (case operation of
        BadOperation \<Rightarrow> Inl (structured_error ''each operation must be an object with a string op'')
      | CellSet r c v \<Rightarrow>
          rbind (index_of r ''row'') (\<lambda>row. rbind (index_of c ''column'') (\<lambda>column. cell_set ce rows row column v))
      | RowAppend vs \<Rightarrow> rbind (new_row ce (cell_count rows) vs) (\<lambda>line. Inr (rows @ [line]))
      | RowInsert r vs \<Rightarrow>
          rbind (index_of r ''row'') (\<lambda>row.
            if length rows < row then Inl (structured_error ''row_insert index is outside the document'')
            else rbind (new_row ce (cell_count rows) (or_no_values vs)) (\<lambda>line. Inr (insert_at row line rows)))
      | RowSet r vs \<Rightarrow>
          rbind (index_of r ''row'') (\<lambda>row.
          rbind (array_of vs) (\<lambda>xs.
            if ce_max_elements ce < int (length xs) then Inl (structured_error ''CSV row exceeds max_structured_elements'')
            else if length rows \<le> row then Inl index_error
            else rbind (new_row ce (cell_count rows - int (length (rows ! row))) vs) (\<lambda>line. Inr (rows[row := line]))))
      | RowDelete r \<Rightarrow>
          rbind (index_of r ''row'') (\<lambda>row. if length rows \<le> row then Inl index_error else Inr (delete_at row rows))
      | ColumnInsert c fill \<Rightarrow>
          rbind (index_of c ''column'') (\<lambda>column.
            if ce_max_elements ce \<le> int column then Inl (structured_error ''CSV column index exceeds max_structured_elements'')
            else if ce_max_elements ce < cell_count rows + int (length rows)
            then Inl (structured_error ''CSV edit would exceed max_structured_elements'')
            else rbind (text_of_field (or_empty fill) ''default'') (\<lambda>t.
              Inr (List.map (\<lambda>line. insert_at (min column (length line)) t line) rows)))
      | ColumnDelete c \<Rightarrow>
          rbind (index_of c ''column'') (\<lambda>column.
            if ce_max_elements ce \<le> int column then Inl (structured_error ''CSV column index exceeds max_structured_elements'')
            else Inr (List.map (\<lambda>line. if column < length line then delete_at column line else line) rows))
      | ColumnAppend vs \<Rightarrow>
          (case or_no_values vs of
             Py xs \<Rightarrow>
               if length rows < length xs then Inl (structured_error ''column values must fit the existing rows'')
               else if ce_max_elements ce < cell_count rows + int (length rows)
               then Inl (structured_error ''CSV edit would exceed max_structured_elements'')
               else rmap (\<lambda>(i, line). rbind (if i < length xs then text_of_field (xs ! i) ''value'' else Inr [])
                            (\<lambda>t. Inr (line @ [t]))) (zip [0..<length rows] rows)
           | _ \<Rightarrow> Inl (structured_error ''column values must fit the existing rows''))
      | UnknownOp \<Rightarrow> Inl (structured_error ''unsupported CSV operation''))"

definition checked_csv_op :: "csv_env \<Rightarrow> utext list list \<Rightarrow> csv_op \<Rightarrow> utext list list res" where
  "checked_csv_op ce rows operation =
     rbind (apply_csv_op ce rows operation) (\<lambda>rows'. rbind (require_csv_bounds ce rows') (\<lambda>_. Inr rows'))"

section \<open>Writing a document\<close>

definition empty_document :: "bool \<Rightarrow> csv_document" where
  "empty_document tsv =
     \<lparr>cv_rows = [], cv_encoding = ''utf-8'', cv_codec = ''utf-8'', cv_bom = [],
      cv_dialect = (if tsv then excel_tab else excel), cv_newline = [10], cv_final_newline = True\<rparr>"

definition rendered :: "csv_document \<Rightarrow> utext res" where
  "rendered doc =
     rbind (csv_write (cv_dialect doc) (cv_newline doc) (cv_rows doc)) (\<lambda>t.
       Inr (if \<not> cv_final_newline doc \<and> ends_with (cv_newline doc) t
            then take (length t - length (cv_newline doc)) t else t))"

definition render_csv :: "csv_env \<Rightarrow> csv_document \<Rightarrow> bytes res" where
  "render_csv ce doc =
     rbind (rendered doc) (\<lambda>t.
       case ce_encode ce (cv_codec doc) t of
         None \<Rightarrow> Inl (ValueError ''UnicodeEncodeError'')
       | Some body \<Rightarrow> (let output = cv_bom doc @ body in rbind (require_size ce output) (\<lambda>_. Inr output)))"

definition transform_csv :: "csv_env \<Rightarrow> bytes \<Rightarrow> bool \<Rightarrow> csv_op list \<Rightarrow> bytes res" where
  "transform_csv ce data tsv operations =
     rbind (if data \<noteq> [] then parse_csv ce data tsv else Inr (empty_document tsv)) (\<lambda>doc.
     rbind (rfold (checked_csv_op ce) (cv_rows doc) operations) (\<lambda>rows.
       render_csv ce (doc\<lparr>cv_rows := rows\<rparr>)))"

record csv_inspection =
  ci_encoding :: string
  ci_dialect :: csv_dialect
  ci_newline :: utext
  ci_final_newline :: bool
  ci_rows :: nat
  ci_columns :: nat
  ci_preview :: "utext list list"
  ci_truncated :: bool

definition inspect_csv :: "csv_env \<Rightarrow> bytes \<Rightarrow> bool \<Rightarrow> csv_inspection res" where
  "inspect_csv ce data tsv =
     rbind (parse_csv ce data tsv) (\<lambda>doc.
       Inr \<lparr>ci_encoding = cv_encoding doc, ci_dialect = cv_dialect doc, ci_newline = cv_newline doc,
            ci_final_newline = cv_final_newline doc, ci_rows = length (cv_rows doc),
            ci_columns = foldr max (List.map length (cv_rows doc)) 0,
            ci_preview = take 200 (cv_rows doc), ci_truncated = (200 < length (cv_rows doc))\<rparr>)"

section \<open>What an edit does\<close>

text \<open>The text of a cell, if the table has it.\<close>

definition cell_at :: "utext list list \<Rightarrow> nat \<Rightarrow> nat \<Rightarrow> utext option" where
  "cell_at rows r c = (if r < length rows \<and> c < length (rows ! r) then Some (rows ! r ! c) else None)"

text \<open>
  Setting a cell sets that cell and no other: every other cell of the table keeps its text, the
  cells that are new are empty, and they are only those between the end of the table or of the row and
  the cell.
\<close>

theorem cell_set_exact:
  assumes "cell_set ce rows row column value = Inr rows'"
  shows "(\<exists>t. or_empty value = Py t \<and> cell_at rows' row column = Some t)
    \<and> (\<forall>r c. (r, c) \<noteq> (row, column) \<longrightarrow>
         cell_at rows' r c =
           (case cell_at rows r c of Some t \<Rightarrow> Some t
            | None \<Rightarrow> if r = row \<and> c < column then Some [] else None))
    \<and> length rows' = max (length rows) (Suc row)"
proof -
  let ?padded = "pad_to row [] rows" and ?line = "\<lambda>p. pad_to column [] (p ! row)"
  obtain t where t: "or_empty value = Py t" "rows' = ?padded[row := (?line ?padded)[column := t]]"
    using assms by (auto simp: cell_set_def Let_def rbind_eq_Inr text_of_field_def split: if_splits pyval.splits)
  have len: "length ?padded = max (length rows) (Suc row)" by (simp add: pad_to_eq)
  have line: "?padded ! r = (if r < length rows then rows ! r else [])" if "r < length ?padded" for r
    using that by (simp add: pad_to_eq nth_append)
  have wide: "length (pad_to column [] xs) = max (length xs) (Suc column)" for xs :: "utext list"
    by (simp add: pad_to_eq)
  have inner: "pad_to column [] xs ! c = (if c < length xs then xs ! c else [])"
    if "c < length (pad_to column [] xs)" for xs :: "utext list" and c
    using that by (simp add: pad_to_eq nth_append)
  have "cell_at rows' row column = Some t" unfolding t(2) cell_at_def using len wide by (simp add: less_max_iff_disj)
  moreover have "cell_at rows' r c =
      (case cell_at rows r c of Some t \<Rightarrow> Some t | None \<Rightarrow> if r = row \<and> c < column then Some [] else None)"
    if "(r, c) \<noteq> (row, column)" for r c
  proof (cases "r = row")
    case True
    then have "c \<noteq> column" using that by simp
    then show ?thesis unfolding t(2) cell_at_def True using len wide line [of row] inner [of c "?padded ! row"]
      by (auto simp: max_def)
  next
    case False
    then show ?thesis unfolding t(2) cell_at_def using len line [of r] by (auto simp: max_def)
  qed
  ultimately show ?thesis using t len by auto
qed

lemma cell_set_exact_witness:
  "\<exists>rows'. cell_set \<lparr>ce_max_file = 100, ce_max_elements = 10, ce_field_limit = 10, ce_decode = (\<lambda>_. utf8_decode),
       ce_encode = (\<lambda>_. utf8_encode), ce_sniff = (\<lambda>_. None)\<rparr> [[[97]]] 1 2 (Py [98]) = Inr rows'
     \<and> cell_at rows' 1 2 = Some [98] \<and> cell_at rows' 0 0 = Some [97] \<and> cell_at rows' 1 0 = Some []"
proof -
  let ?ce = "\<lparr>ce_max_file = 100, ce_max_elements = 10, ce_field_limit = 10, ce_decode = (\<lambda>_. utf8_decode),
       ce_encode = (\<lambda>_. utf8_encode), ce_sniff = (\<lambda>_. None)\<rparr>"
  have "cell_set ?ce [[[97]]] 1 2 (Py [98]) = Inr [[[97]], [[], [], [98]]]" by code_simp
  from cell_set_exact [OF this] this show ?thesis by (auto simp: or_empty_def cell_at_def)
qed

text \<open>Every accepted sequence of edits ends within the limits.\<close>

lemma csv_edits_bounded:
  assumes "rfold (checked_csv_op ce) rows operations = Inr rows'" "operations \<noteq> []"
  shows "int (length rows') \<le> ce_max_elements ce \<and> cell_count rows' \<le> ce_max_elements ce"
proof -
  have "checked_csv_op ce r x = Inr r' \<Longrightarrow> int (length r') \<le> ce_max_elements ce \<and> cell_count r' \<le> ce_max_elements ce" for r x r'
    by (auto simp: checked_csv_op_def rbind_eq_Inr require_csv_bounds_def split: if_splits)
  moreover obtain xs x where "operations = xs @ [x]" using assms(2) by (metis rev_exhaust)
  ultimately show ?thesis using assms(1) by (auto simp: rfold_append rbind_eq_Inr)
qed

section \<open>Transforming and reading again\<close>

text \<open>The line ends of a text are of one kind when its characters have no other.\<close>

lemma without_crlf_set: "set (without_crlf body) \<subseteq> set body"
  by (induction body rule: without_crlf.induct) (auto dest: list.set_sel(2))

lemma without_crlf_join:
  "13 \<notin> set f \<Longrightarrow> 10 \<notin> set f \<Longrightarrow> without_crlf (f @ body) = f @ without_crlf body"
  by (induction f) auto

lemma without_crlf_line [simp]: "without_crlf (13 # 10 # body) = without_crlf body"
  by simp

text \<open>The characters a row is written with.\<close>

lemma join_with_set: "set (join_with sep ws) \<subseteq> set sep \<union> (\<Union>w \<in> set ws. set w)"
  by (induction sep ws rule: join_with.induct) auto

lemma write_row_chars:
  assumes "write_row d row = Inr w"
  shows "set w \<subseteq> {cd_delimiter d, cd_quote d} \<union> (\<Union>f \<in> set row. set f)"
proof (cases "row = [[]]")
  case False
  then obtain ws where ws: "rmap (write_field d) row = Inr ws" "w = join_with [cd_delimiter d] ws"
    using assms by (auto simp: write_row_def rbind_eq_Inr)
  have "set u \<subseteq> insert (cd_quote d) (\<Union>f \<in> set row. set f)" if written: "u \<in> set ws" for u
  proof -
    obtain f where "f \<in> set row" "write_field d f = Inr u" using rmap_set [OF ws(1) written] by blast
    then show ?thesis by (auto simp: write_field_def quote_field_def split: if_splits)
  qed
  then show ?thesis using join_with_set [of "[cd_delimiter d]" ws] ws(2) by fastforce
qed (use assms in \<open>auto simp: write_row_def\<close>)

text \<open>No field has a line end of its own, except a plain line feed in a table with plain line feeds.\<close>

definition plain_fields :: "utext \<Rightarrow> utext list list \<Rightarrow> bool" where
  "plain_fields newline rows \<longleftrightarrow>
     (\<forall>row \<in> set rows. \<forall>f \<in> set row. 13 \<notin> set f \<and> (10 \<in> set f \<longrightarrow> newline = [10]))"

lemma without_crlf_no_cr: "13 \<notin> set t \<Longrightarrow> without_crlf t = t"
  by (induction t) auto

lemma no_crlf: "13 \<notin> set t \<Longrightarrow> \<not> contains_sub crlf t"
  by (auto simp: contains_sub_iff crlf_def)

lemma written_newlines:
  assumes "csv_write d newline rows = Inr t" "plain_fields newline rows" "sound_dialect d"
    and "newline = [10] \<or> newline = crlf" and w: "set w \<inter> {10, 13} = {} \<or> newline = [10] \<and> 13 \<notin> set w"
  shows "\<not> mixed_newlines (t @ w)"
proof (cases "newline = [10]")
  case True
  have "13 \<notin> set t" using assms(1,2)
  proof (induction rows arbitrary: t)
    case (Cons row rows)
    then obtain v u where v: "write_row d row = Inr v" "csv_write d newline rows = Inr u" "t = v @ newline @ u"
      by (auto simp: csv_write_Cons rbind_eq_Inr)
    have "13 \<notin> set v" using write_row_chars [OF v(1)] Cons.prems(2) assms(3) by (auto simp: plain_fields_def sound_dialect_def)
    then show ?case using Cons.IH [OF v(2)] Cons.prems(2) v(3) True by (auto simp: plain_fields_def)
  qed (simp add: csv_write_def)
  then show ?thesis using w no_crlf [of "t @ w"] without_crlf_no_cr [of "t @ w"] by (auto simp: mixed_newlines_def)
next
  case False
  then have nl: "newline = [13, 10]" using assms(4) by (simp add: crlf_def)
  have "set (without_crlf (t @ w)) \<inter> {10, 13} = {}" using assms(1,2)
  proof (induction rows arbitrary: t)
    case Nil
    then show ?case using w False without_crlf_no_cr [of w] by (auto simp: csv_write_def)
  next
    case (Cons row rows)
    then obtain v u where v: "write_row d row = Inr v" "csv_write d newline rows = Inr u" "t = v @ newline @ u"
      by (auto simp: csv_write_Cons rbind_eq_Inr)
    have "13 \<notin> set v" "10 \<notin> set v"
      using write_row_chars [OF v(1)] Cons.prems(2) assms(3) False by (auto simp: plain_fields_def sound_dialect_def)
    then show ?case using Cons.IH [OF v(2)] Cons.prems(2) v(3) nl without_crlf_join [of v "13 # 10 # u @ w"]
      by (auto simp: plain_fields_def)
  qed
  then show ?thesis by (auto simp: mixed_newlines_def)
qed

text \<open>What is rendered reads back, and its line ends are not mixed.\<close>

lemma rendered_reads_back:
  assumes "rendered doc = Inr t" "sound_dialect (cv_dialect doc)" "cv_newline doc = [10] \<or> cv_newline doc = crlf"
    and "plain_fields (cv_newline doc) (cv_rows doc)" "\<forall>row \<in> set (cv_rows doc). \<forall>f \<in> set row. length f \<le> limit"
    and "cv_final_newline doc \<or> cv_rows doc = [] \<or> last (cv_rows doc) \<noteq> []"
  shows "csv_read (cv_dialect doc) limit t = Inr (cv_rows doc) \<and> \<not> mixed_newlines t"
proof -
  have nl: "cv_newline doc = [10] \<or> cv_newline doc = [13, 10]" using assms(3) by (simp add: crlf_def)
  obtain u where u: "csv_write (cv_dialect doc) (cv_newline doc) (cv_rows doc) = Inr u"
    "t = (if \<not> cv_final_newline doc \<and> ends_with (cv_newline doc) u then take (length u - length (cv_newline doc)) u else u)"
    using assms(1) by (auto simp: rendered_def rbind_eq_Inr)
  note rt = csv_roundtrip_at [OF u(1) assms(2) nl assms(5)]
  show ?thesis
  proof (cases "\<not> cv_final_newline doc \<and> cv_rows doc \<noteq> []")
    case False
    have "t = u"
      using False u nl by (auto simp: csv_write_def ends_with_def)
    then show ?thesis using rt(1) written_newlines [OF u(1) assms(4,2,3), of "[]"] by simp
  next
    case True
    obtain rs row where rows: "cv_rows doc = rs @ [row]" using True by (metis append_butlast_last_id)
    obtain v w where v: "csv_write (cv_dialect doc) (cv_newline doc) rs = Inr v" "write_row (cv_dialect doc) row = Inr w"
      "u = v @ w @ cv_newline doc"
      using u(1) rows by (auto simp: csv_write_snoc rbind_eq_Inr)
    have t: "t = v @ w" using u(2) v(3) True by (simp add: ends_with_def starts_with_def)
    have w: "set w \<inter> {10, 13} = {} \<or> cv_newline doc = [10] \<and> 13 \<notin> set w"
      using write_row_chars [OF v(2)] assms(2,3,4) rows by (auto simp: plain_fields_def sound_dialect_def)
    have "plain_fields (cv_newline doc) rs" using assms(4) rows by (auto simp: plain_fields_def)
    from written_newlines [OF v(1) this assms(2,3) w] show ?thesis
      using rt(2) True assms(6) t v(3) by auto
  qed
qed

lemma count_rows_total:
  assumes "int (length rows) + n \<le> ce_max_elements ce" "cell_count rows + m \<le> ce_max_elements ce"
  shows "\<exists>z. rfold (count_row ce) (n, m) rows = Inr z"
  using assms
proof (induction rows arbitrary: n m)
  case (Cons row rows)
  have "0 \<le> cell_count rows" by (induction rows) (simp_all add: cell_count_def)
  then show ?case using Cons.IH [of "n + 1" "m + int (length row)"] Cons.prems
    by (simp add: count_row_def cell_count_def)
qed simp

text \<open>
  What a TSV edit writes, the next call reads: a document within the limits whose fields have no
  line ends but its own plain ones, rendered with its encoding, is parsed again without a complaint to
  the same rows, with the same encoding and dialect.
\<close>

theorem tsv_document_roundtrip:
  assumes "render_csv ce doc = Inr out" "rendered doc = Inr t" "cv_dialect doc = excel_tab"
    and "cv_newline doc = [10] \<or> cv_newline doc = crlf" "plain_fields (cv_newline doc) (cv_rows doc)"
    and "int (length (cv_rows doc)) \<le> ce_max_elements ce" "cell_count (cv_rows doc) \<le> ce_max_elements ce"
    and "\<forall>row \<in> set (cv_rows doc). \<forall>f \<in> set row. length f \<le> ce_field_limit ce"
    and "cv_final_newline doc \<or> cv_rows doc = [] \<or> last (cv_rows doc) \<noteq> []"
    and "9 \<in> set (sample_of t) \<or> {44, 59, 124} \<inter> set (sample_of t) = {}"
    and "detect_encoding out = (cv_encoding doc, cv_codec doc, cv_bom doc)"
    and "\<And>t b. ce_encode ce (cv_codec doc) t = Some b \<Longrightarrow> ce_decode ce (cv_codec doc) b = Some t"
  shows "\<exists>doc'. parse_csv ce out True = Inr doc' \<and> cv_rows doc' = cv_rows doc
     \<and> cv_encoding doc' = cv_encoding doc \<and> cv_codec doc' = cv_codec doc \<and> cv_bom doc' = cv_bom doc
     \<and> cv_dialect doc' = cv_dialect doc"
proof -
  obtain body where body: "ce_encode ce (cv_codec doc) t = Some body" "out = cv_bom doc @ body" "require_size ce out = Inr ()"
    using assms(1,2) by (auto simp: render_csv_def rbind_eq_Inr Let_def split: option.splits)
  have dec: "decode_body ce out = Inr t"
    using assms(11) assms(12) [OF body(1)] body(2) by (simp add: decode_body_def)
  have dia: "choose_dialect ce True (sample_of t) = Inr excel_tab"
    using assms(10) by (auto simp: choose_dialect_def)
  have snd: "sound_dialect (cv_dialect doc)" by (simp add: assms(3) sound_dialect_def excel_tab_def excel_def)
  have r: "csv_read excel_tab (ce_field_limit ce) t = Inr (cv_rows doc)" "\<not> mixed_newlines t"
    using rendered_reads_back [OF assms(2) snd assms(4,5,8,9)] assms(3) by simp_all
  obtain z where "rfold (count_row ce) (0, 0) (cv_rows doc) = Inr z"
    using count_rows_total [of "cv_rows doc" 0 ce 0] assms(6,7) by auto
  then have "preflight_csv ce out True = Inr ()" using body(3) dec dia r(1) by (simp add: preflight_csv_def)
  then show ?thesis
    using assms(3,6,7,11) dec dia r by (simp add: parse_csv_def require_csv_bounds_def)
qed

definition demo_csv_env :: csv_env where
  "demo_csv_env =
     \<lparr>ce_max_file = 1000, ce_max_elements = 10, ce_field_limit = 50, ce_decode = (\<lambda>_. utf8_decode),
      ce_encode = (\<lambda>_. utf8_encode), ce_sniff = (\<lambda>_. Some (excel\<lparr>cd_double := False\<rparr>))\<rparr>"

lemma tsv_document_roundtrip_witness:
  "\<exists>out doc'. transform_csv demo_csv_env [97, 9, 98, 10] True [CellSet (Py 1) (Py 1) (Py [34, 9])] = Inr out
     \<and> parse_csv demo_csv_env out True = Inr doc' \<and> cv_rows doc' = [[[97], [98]], [[], [34, 9]]]"
proof -
  let ?doc = "(empty_document True)\<lparr>cv_rows := [[[97], [98]], [[], [34, 9]]]\<rparr>"
  let ?t = "[97, 9, 98, 10, 9, 34, 34, 34, 9, 34, 10]" and ?out = "[97, 9, 98, 10, 9, 34, 34, 34, 9, 34, 10] :: bytes"
  have 1: "transform_csv demo_csv_env [97, 9, 98, 10] True [CellSet (Py 1) (Py 1) (Py [34, 9])] = Inr ?out" by code_simp
  have 2: "render_csv demo_csv_env ?doc = Inr ?out" "rendered ?doc = Inr ?t" by code_simp+
  have 3: "detect_encoding ?out = (''utf-8'', ''utf-8'', [])" by code_simp
  have "\<exists>doc'. parse_csv demo_csv_env ?out True = Inr doc' \<and> cv_rows doc' = cv_rows ?doc
     \<and> cv_encoding doc' = cv_encoding ?doc \<and> cv_codec doc' = cv_codec ?doc \<and> cv_bom doc' = cv_bom ?doc
     \<and> cv_dialect doc' = cv_dialect ?doc"
    by (rule tsv_document_roundtrip [OF 2])
      (simp_all add: 3 empty_document_def plain_fields_def demo_csv_env_def cell_count_def sample_of_def utf8_decode_encode)
  then show ?thesis using 1 by (auto simp: empty_document_def)
qed

text \<open>
  Two edits of a plain CSV file go wrong. The guessed dialect of a file without doubled quotes does
  not double quotes, so that setting a cell to a text with a quote fails with an error that is no
  rejection of the request. And a cell with a line feed, set in a file with carriage returns, is
  written, but the file is refused from then on.
\<close>

theorem csv_edits_gone_wrong:
  "transform_csv demo_csv_env [97, 44, 98, 10] False [CellSet (Py 0) (Py 0) (Py [34])]
     = Inl (CsvError ''need to escape, but no escapechar set'')
   \<and> transform_csv demo_csv_env [97, 44, 98, 13, 10] False [CellSet (Py 0) (Py 0) (Py [120, 10, 121])]
     = Inr [34, 120, 10, 121, 34, 44, 98, 13, 10]
   \<and> parse_csv demo_csv_env [34, 120, 10, 121, 34, 44, 98, 13, 10] False
     = Inl (ValueError ''CSV/TSV contains mixed or ambiguous newline sequences'')"
  by code_simp

end
