(* ===== verification/Zip.thy ===== *)
theory Zip
  imports Batch Base64 Csv_Edit "HOL-Library.AList" "HOL-Library.Multiset"
begin

text \<open>
  The archives of \<open>structured_files.py\<close>: the names an archive may hold, reading entries for an
  inspection or an extraction, and the edits of an archive. The format itself is the standard
  library's: opening an archive and writing one are parameters, as is the table of \<open>str.casefold\<close>.
\<close>

text \<open>
  An entry as \<open>infolist\<close> gives it, with what \<open>archive.read\<close> returns or raises for it; and an entry
  handed to \<open>writestr\<close>.
\<close>

record zip_info =
  zi_name :: string
  zi_size :: int
  zi_compressed :: int
  zi_encrypted :: bool
  zi_read :: "bytes res"

record zip_member =
  zm_name :: string
  zm_info :: "zip_info option"
  zm_payload :: bytes

record zip_env =
  ze_max_entries :: int
  ze_max_expanded :: int
  ze_fold :: "char \<Rightarrow> string"
  ze_open :: "bytes \<Rightarrow> zip_info list option"
  ze_write :: "zip_member list \<Rightarrow> bytes res"

definition fold_name :: "zip_env \<Rightarrow> string \<Rightarrow> string" where
  "fold_name ze s = concat (List.map (ze_fold ze) s)"

section \<open>Names of entries\<close>

definition unsafe_zip_part :: "string \<Rightarrow> bool" where
  "unsafe_zip_part p \<longleftrightarrow> p = ''.'' \<or> p = ''..'' \<or> ends_with '' '' p \<or> ends_with ''.'' p"

definition zip_reserved :: "string \<Rightarrow> bool" where
  "zip_reserved p \<longleftrightarrow> ascii_upper (hd (split_on (CHR ''.'') p)) \<in> set windows_devices"

definition safe_zip_name :: "string \<Rightarrow> string res" where
  "safe_zip_name name =
     (let candidate = List.map to_posix_sep name;
          w = parse_windows_path candidate;
          parts = List.filter (\<lambda>p. p \<noteq> []) (split_on (CHR ''/'') candidate)
      in if candidate = [] \<or> starts_with ''/'' candidate \<or> starts_with [backslash] candidate
            \<or> (wp_drive w \<noteq> [] \<and> wp_rooted w) \<or> CHR '':'' \<in> set candidate
         then Inl (structured_error ''ZIP entry path must be relative and not use ADS'')
         else if parts = [] \<or> list_ex unsafe_zip_part parts
         then Inl (structured_error ''unsafe ZIP entry path'')
         else if list_ex zip_reserved parts
         then Inl (structured_error ''ZIP entry uses a Windows reserved device name'')
         else Inr (join_with ''/'' parts))"

text \<open>The first loop: every name, with the folded names seen and those of files.\<close>

definition see_name ::
  "zip_env \<Rightarrow> (string \<times> bool) list \<times> string list \<times> string list \<Rightarrow> string \<times> bool
   \<Rightarrow> ((string \<times> bool) list \<times> string list \<times> string list) res" where
  "see_name ze st entry =
     (case st of (seen, files, normalized) \<Rightarrow>
        rbind (safe_zip_name (fst entry)) (\<lambda>safe.
          let folded = fold_name ze safe in
          case map_of seen folded of
            Some d \<Rightarrow>
              if d \<noteq> snd entry then Inl (structured_error ''ZIP contains a file/directory path collision'')
              else Inl (structured_error ''ZIP contains duplicate or colliding entry names'')
          | None \<Rightarrow>
              Inr ((folded, snd entry) # seen, (if snd entry then files else folded # files), normalized @ [safe])))"

text \<open>The second loop: whether an entry lies below a file.\<close>

definition below_file :: "zip_env \<Rightarrow> string list \<Rightarrow> string \<Rightarrow> bool" where
  "below_file ze files name =
     (let parts = split_on (CHR ''/'') (fold_name ze name) in
      list_ex (\<lambda>n. join_with ''/'' (take n parts) \<in> set files) [1..<length parts])"

definition validate_zip_paths :: "zip_env \<Rightarrow> (string \<times> bool) list \<Rightarrow> unit res" where
  "validate_zip_paths ze paths =
     rbind (rfold (see_name ze) ([], [], []) paths) (\<lambda>(seen, files, normalized).
       if list_ex (below_file ze files) normalized
       then Inl (structured_error ''ZIP contains a file/directory path collision'')
       else Inr ())"

section \<open>Reading\<close>

definition zip_dir :: "zip_info \<Rightarrow> bool" where
  "zip_dir info = ends_with ''/'' (zi_name info)"

definition zip_entries :: "zip_env \<Rightarrow> bytes \<Rightarrow> zip_info list res" where
  "zip_entries ze data =
     (case ze_open ze data of
        None \<Rightarrow> Inl (structured_error ''invalid ZIP archive'')
      | Some infos \<Rightarrow>
          if ze_max_entries ze < int (length infos)
          then Inl (structured_error ''ZIP entry count exceeds max_zip_entries'')
          else rbind (validate_zip_paths ze (List.map (\<lambda>i. (zi_name i, zip_dir i)) infos)) (\<lambda>_.
            if ze_max_expanded ze < sum_list (List.map zi_size infos)
            then Inl (structured_error ''ZIP expanded size exceeds max_zip_expanded_bytes'')
            else if list_ex (\<lambda>i. ze_max_expanded ze < zi_size i) infos
            then Inl (structured_error ''ZIP entry expanded size exceeds max_zip_expanded_bytes'')
            else if list_ex zi_encrypted infos
            then Inl (structured_error ''encrypted ZIP entries are unsupported'')
            else Inr infos))"

record zip_listing =
  zl_count :: nat
  zl_expanded :: int
  zl_entries :: "(string \<times> int \<times> int \<times> bool) list"
  zl_truncated :: bool

definition inspect_zip :: "zip_env \<Rightarrow> bytes \<Rightarrow> zip_listing res" where
  "inspect_zip ze data =
     rbind (zip_entries ze data) (\<lambda>infos.
     rbind (rmap (\<lambda>i. rbind (safe_zip_name (zi_name i)) (\<lambda>s.
                    Inr (s, zi_compressed i, zi_size i, zip_dir i))) (take 500 infos)) (\<lambda>listed.
       Inr \<lparr>zl_count = length infos, zl_expanded = sum_list (List.map zi_size infos),
            zl_entries = listed, zl_truncated = (500 < length infos)\<rparr>))"

definition read_checked :: "zip_info \<Rightarrow> bytes res" where
  "read_checked i =
     rbind (zi_read i) (\<lambda>payload.
       if int (length payload) \<noteq> zi_size i then Inl (structured_error ''ZIP entry size verification failed'')
       else Inr payload)"

definition read_zip_entry :: "zip_env \<Rightarrow> bytes \<Rightarrow> string \<Rightarrow> bytes res" where
  "read_zip_entry ze data name =
     rbind (safe_zip_name name) (\<lambda>safe.
     rbind (zip_entries ze data) (\<lambda>infos.
     rbind (rmap (\<lambda>i. if zip_dir i then Inr []
                      else rbind (safe_zip_name (zi_name i)) (\<lambda>s.
                             Inr (if fold_name ze s = fold_name ze safe then [i] else []))) infos) (\<lambda>found.
       case concat found of
         [i] \<Rightarrow> read_checked i
       | _ \<Rightarrow> Inl (structured_error ''ZIP entry was not found''))))"

definition read_step ::
  "zip_env \<Rightarrow> string list option \<Rightarrow> (string \<times> bytes) list \<Rightarrow> zip_info \<Rightarrow> (string \<times> bytes) list res" where
  "read_step ze requested result i =
     (if zip_dir i then Inr result
      else rbind (safe_zip_name (zi_name i)) (\<lambda>safe.
        if (case requested of None \<Rightarrow> False | Some rs \<Rightarrow> fold_name ze safe \<notin> set rs) then Inr result
        else rbind (read_checked i) (\<lambda>payload. Inr (AList.update safe payload result))))"

definition read_zip_entries ::
  "zip_env \<Rightarrow> bytes \<Rightarrow> string list option \<Rightarrow> (string \<times> bytes) list res" where
  "read_zip_entries ze data names =
     rbind (zip_entries ze data) (\<lambda>infos.
     rbind (case names of None \<Rightarrow> Inr None
            | Some ns \<Rightarrow> rbind (rmap safe_zip_name ns) (\<lambda>ss. Inr (Some (List.map (fold_name ze) ss)))) (\<lambda>requested.
     rbind (rfold (read_step ze requested) [] infos) (\<lambda>result.
       case requested of
         Some rs \<Rightarrow>
           if set (List.map (fold_name ze \<circ> fst) result) \<noteq> set rs
           then Inl (structured_error ''one or more ZIP entries were not found'')
           else Inr result
       | None \<Rightarrow> Inr result)))"

section \<open>Editing\<close>

record zip_source =
  zs_text :: "utext pyval"
  zs_base64 :: "string pyval"

definition zip_payload :: "zip_source \<Rightarrow> bytes res" where
  "zip_payload op =
     (if zs_text op \<noteq> Missing
      then rbind (text_of_field (zs_text op) ''text'') (\<lambda>t.
        case utf8_encode t of None \<Rightarrow> Inl (ValueError ''surrogates not allowed'') | Some b \<Rightarrow> Inr b)
      else if zs_base64 op \<noteq> Missing
      then (case zs_base64 op of
              Py s \<Rightarrow> (case b64decode s of
                         None \<Rightarrow> Inl (structured_error ''base64 must be valid'') | Some b \<Rightarrow> Inr b)
            | _ \<Rightarrow> Inl (structured_error ''base64 must be valid''))
      else Inl (structured_error ''ZIP entry operation needs text or base64''))"

datatype zip_op =
    MalformedOp
  | EntryAdd "string pyval" zip_source
  | EntryReplace "string pyval" zip_source
  | EntryDelete "string pyval"
  | UnsupportedOp

type_synonym zip_files = "(string \<times> zip_info option \<times> bytes) list"

definition matching_zip_key :: "zip_env \<Rightarrow> zip_files \<Rightarrow> string \<Rightarrow> string option" where
  "matching_zip_key ze entries name =
     List.find (\<lambda>existing. fold_name ze existing = fold_name ze name) (List.map fst entries)"

definition zip_edit :: "zip_env \<Rightarrow> zip_files \<Rightarrow> zip_op \<Rightarrow> zip_files res" where
  "zip_edit ze entries operation =
     (case operation of
        MalformedOp \<Rightarrow> Inl (structured_error ''each operation must be an object with a string op'')
      | EntryAdd n source \<Rightarrow>
          rbind (text_of_field n ''name'') (\<lambda>name. rbind (safe_zip_name name) (\<lambda>entry.
            case matching_zip_key ze entries entry of
              Some _ \<Rightarrow> Inl (structured_error ''ZIP entry already exists'')
            | None \<Rightarrow> rbind (zip_payload source) (\<lambda>b. Inr (AList.update entry (None, b) entries))))
      | EntryReplace n source \<Rightarrow>
          rbind (text_of_field n ''name'') (\<lambda>name. rbind (safe_zip_name name) (\<lambda>entry.
            case matching_zip_key ze entries entry of
              None \<Rightarrow> Inl (structured_error ''ZIP entry does not exist'')
            | Some existing \<Rightarrow> rbind (zip_payload source) (\<lambda>b. Inr (AList.update existing (None, b) entries))))
      | EntryDelete n \<Rightarrow>
          rbind (text_of_field n ''name'') (\<lambda>name. rbind (safe_zip_name name) (\<lambda>entry.
            case matching_zip_key ze entries entry of
              None \<Rightarrow> Inl (structured_error ''ZIP entry does not exist'')
            | Some existing \<Rightarrow> Inr (AList.delete existing entries)))
      | UnsupportedOp \<Rightarrow> Inl (structured_error ''unsupported ZIP operation''))"

definition load_entry ::
  "zip_files \<times> zip_info list \<Rightarrow> zip_info \<Rightarrow> (zip_files \<times> zip_info list) res" where
  "load_entry st i =
     (if zip_dir i then Inr (fst st, snd st @ [i])
      else rbind (safe_zip_name (zi_name i)) (\<lambda>s. rbind (zi_read i) (\<lambda>b.
        Inr (AList.update s (Some i, b) (fst st), snd st))))"

definition load_zip :: "zip_env \<Rightarrow> bytes \<Rightarrow> (zip_files \<times> zip_info list) res" where
  "load_zip ze data =
     (if data = [] then Inr ([], [])
      else rbind (zip_entries ze data) (\<lambda>infos. rfold load_entry ([], []) infos))"

text \<open>The directories first, in their order, then the files by name; \<open>writestr\<close> takes a copy of the
  entry's information with the normalized name.\<close>

definition zip_members :: "zip_files \<Rightarrow> zip_info list \<Rightarrow> zip_member list" where
  "zip_members entries dirs =
     List.map (\<lambda>i. \<lparr>zm_name = zi_name i, zm_info = Some i, zm_payload = []\<rparr>) dirs
   @ List.map (\<lambda>(name, info, b).
        \<lparr>zm_name = name, zm_info = map_option (\<lambda>i. i\<lparr>zi_name := name\<rparr>) info, zm_payload = b\<rparr>)
       (sort_key fst entries)"

definition transform_zip :: "zip_env \<Rightarrow> bytes \<Rightarrow> zip_op list \<Rightarrow> bytes res" where
  "transform_zip ze data operations =
     rbind (load_zip ze data) (\<lambda>(loaded, dirs).
     rbind (rfold (zip_edit ze) loaded operations) (\<lambda>entries.
     rbind (validate_zip_paths ze (List.map (\<lambda>i. (zi_name i, True)) dirs
                                   @ List.map (\<lambda>e. (fst e, False)) entries)) (\<lambda>_.
       if ze_max_entries ze < int (length entries + length dirs)
          \<or> ze_max_expanded ze < int (sum_list (List.map (\<lambda>e. length (snd (snd e))) entries))
       then Inl (structured_error ''resulting ZIP exceeds configured limits'')
       else rbind (ze_write ze (zip_members entries dirs)) (\<lambda>result.
            rbind (zip_entries ze result) (\<lambda>_. Inr result)))))"

section \<open>What the names promise\<close>

lemma split_join:
  "parts \<noteq> [] \<Longrightarrow> \<forall>p \<in> set parts. c \<notin> set p \<Longrightarrow> split_on c (join_with [c] parts) = parts"
proof (induction "[c]" parts rule: join_with.induct)
  case (2 x)
  then show ?case by (induction x) auto
next
  case (3 x y ys)
  have "c \<notin> set x \<Longrightarrow> split_on c (x @ c # r) = x # split_on c r" for x r
    by (induction x) auto
  then show ?case using 3 by simp
qed simp

lemma split_on_append: "split_on c (a @ c # b) = split_on c a @ split_on c b"
proof (induction a)
  case (Cons x a)
  then show ?case by (cases "split_on c a") auto
qed simp

text \<open>A name that is relative, stays below its root and can be created on Windows.\<close>

definition sound_zip_name :: "string \<Rightarrow> bool" where
  "sound_zip_name s \<longleftrightarrow>
     (\<forall>p \<in> set (split_on (CHR ''/'') s).
        p \<noteq> [] \<and> \<not> unsafe_zip_part p \<and> \<not> zip_reserved p \<and> backslash \<notin> set p \<and> CHR '':'' \<notin> set p)"

lemma to_posix_sep_image: "backslash \<notin> set (List.map to_posix_sep s)"
  by (auto simp: to_posix_sep_def backslash_def)

lemma join_with_chars: "set (join_with sep ps) \<subseteq> set sep \<union> (\<Union>p \<in> set ps. set p)"
  by (induction sep ps rule: join_with.induct) auto

lemma split_on_set: "p \<in> set (split_on c s) \<Longrightarrow> set p \<subseteq> set s"
  using join_with_superset [of p "split_on c s" "[c]"] by (simp add: join_split)

lemma safe_zip_name_parts:
  assumes "safe_zip_name n = Inr s"
  shows "split_on (CHR ''/'') s = List.filter (\<lambda>p. p \<noteq> []) (split_on (CHR ''/'') (List.map to_posix_sep n))"
    and "sound_zip_name s"
proof -
  let ?parts = "List.filter (\<lambda>p. p \<noteq> []) (split_on (CHR ''/'') (List.map to_posix_sep n))"
  have s: "s = join_with ''/'' ?parts" "?parts \<noteq> []" "\<not> list_ex unsafe_zip_part ?parts"
    "\<not> list_ex zip_reserved ?parts" "CHR '':'' \<notin> set (List.map to_posix_sep n)"
    using assms by (auto simp: safe_zip_name_def Let_def res_simps simp del: set_map split: if_splits)
  show *: "split_on (CHR ''/'') s = ?parts"
    unfolding s(1) by (rule split_join [OF s(2)]) (auto dest: split_on_no_sep)
  show "sound_zip_name s"
    unfolding sound_zip_name_def * using s(3-5) to_posix_sep_image [of n] split_on_set
    by (fastforce simp: list_ex_iff simp del: set_map)
qed

lemma safe_sound_zip_name:
  assumes "sound_zip_name s"
  shows "safe_zip_name s = Inr s"
proof -
  have parts: "List.filter (\<lambda>p. p \<noteq> []) (split_on (CHR ''/'') s) = split_on (CHR ''/'') s"
    using assms by (auto simp: sound_zip_name_def intro!: filter_True)
  have join: "join_with ''/'' (split_on (CHR ''/'') s) = s" by (rule join_split)
  have none: "c \<in> {backslash, CHR '':''} \<Longrightarrow> c \<notin> set s" for c
    using join_with_chars [of "''/''" "split_on (CHR ''/'') s"] assms unfolding join
    by (fastforce simp: sound_zip_name_def backslash_def)
  have map: "List.map to_posix_sep s = s"
    by (rule map_idI) (use none in \<open>auto simp: to_posix_sep_def\<close>)
  have head: "s \<noteq> [] \<and> hd s \<noteq> CHR ''/''"
  proof (cases s)
    case Nil
    then show ?thesis using assms by (simp add: sound_zip_name_def)
  next
    case (Cons c r)
    then show ?thesis using assms by (auto simp: sound_zip_name_def)
  qed
  then have w: "wp_drive (parse_windows_path s) = [] \<or> \<not> wp_rooted (parse_windows_path s)"
    using none [of "CHR '':''"] none [of backslash]
    by (cases s; cases "tl s") (auto simp: parse_windows_path_def Let_def starts_with_def win_sep_def backslash_def split: if_splits)
  have ex: "list_ex P (split_on (CHR ''/'') s) \<longleftrightarrow> (\<exists>p \<in> set (split_on (CHR ''/'') s). P p)" for P
    by (rule list_ex_iff)
  show ?thesis
    unfolding safe_zip_name_def Let_def map parts ex join
    using assms w head none [of "CHR '':''"] none [of backslash]
    by (cases s) (auto simp: sound_zip_name_def starts_with_def simp del: split_on.simps)
qed

text \<open>A folded path lies below another one when it continues it after a slash.\<close>

lemma below_file_iff:
  "below_file ze files name \<longleftrightarrow> (\<exists>f \<in> set files. starts_with (f @ ''/'') (fold_name ze name))"
  (is "?l \<longleftrightarrow> ?r")
proof
  let ?parts = "split_on (CHR ''/'') (fold_name ze name)"
  assume ?l
  then obtain n where n: "1 \<le> n" "n < length ?parts" "join_with ''/'' (take n ?parts) \<in> set files"
    by (auto simp: below_file_def Let_def list_ex_iff)
  have "join_with sep (xs @ y # ys) = join_with sep xs @ sep @ join_with sep (y # ys)" if "xs \<noteq> []" for sep y ys and xs :: "string list"
    using that by (induction sep xs rule: join_with.induct) auto
  from this [of "take n ?parts" "''/''" "?parts ! n" "drop (Suc n) ?parts"] n
  have "fold_name ze name = join_with ''/'' (take n ?parts) @ ''/'' @ join_with ''/'' (?parts ! n # drop (Suc n) ?parts)"
    by (metis append_take_drop_id Cons_nth_drop_Suc join_split less_numeral_extra(1) not_less take_eq_Nil le_zero_eq
        list.size(3) zero_neq_one split_on_not_Nil)
  then show ?r using n(3) by (auto simp: starts_with_iff)
next
  assume ?r
  then obtain f r where f: "f \<in> set files" "fold_name ze name = f @ CHR ''/'' # r"
    by (auto simp: starts_with_iff)
  have "join_with ''/'' (take (length (split_on (CHR ''/'') f)) (split_on (CHR ''/'') (fold_name ze name))) = f"
    unfolding f(2) split_on_append by (simp add: join_split)
  moreover have "length (split_on (CHR ''/'') f) < length (split_on (CHR ''/'') (fold_name ze name))"
    unfolding f(2) split_on_append by simp
  moreover have "1 \<le> length (split_on (CHR ''/'') f)" by (simp add: Suc_le_eq)
  ultimately show ?l
    using f(1) unfolding below_file_def Let_def list_ex_iff
    by (intro bexI [of _ "length (split_on (CHR ''/'') f)"]) auto
qed

definition folded_files :: "zip_env \<Rightarrow> string list \<Rightarrow> (string \<times> bool) list \<Rightarrow> string list" where
  "folded_files ze safes paths =
     List.map fst (List.filter (\<lambda>e. \<not> snd e) (zip (List.map (fold_name ze) safes) (List.map snd paths)))"

lemma see_names:
  "rfold (see_name ze) (seen, files, normalized) paths = Inr st \<longleftrightarrow>
     (\<exists>safes. rmap (safe_zip_name \<circ> fst) paths = Inr safes \<and> distinct (List.map (fold_name ze) safes)
        \<and> set (List.map (fold_name ze) safes) \<inter> fst ` set seen = {}
        \<and> st = (rev (zip (List.map (fold_name ze) safes) (List.map snd paths)) @ seen,
                rev (folded_files ze safes paths) @ files, normalized @ safes))"
proof (induction paths arbitrary: seen files normalized)
  case Nil
  then show ?case by (auto simp: folded_files_def)
next
  case (Cons e paths)
  show ?case
  proof (cases "safe_zip_name (fst e)")
    case (Inl err)
    then show ?thesis by (simp add: see_name_def)
  next
    case (Inr safe)
    have rm: "rmap (safe_zip_name \<circ> fst) (e # paths) = Inr safes \<longleftrightarrow>
        (\<exists>rest. rmap (safe_zip_name \<circ> fst) paths = Inr rest \<and> safes = safe # rest)" for safes
      using Inr by (auto simp: res_simps)
    show ?thesis
    proof (cases "map_of seen (fold_name ze safe)")
      case None
      let ?f = "fold_name ze safe"
      have new: "?f \<notin> fst ` set seen" using None by (simp add: map_of_eq_None_iff)
      have step: "rfold (see_name ze) (seen, files, normalized) (e # paths) =
            rfold (see_name ze) ((?f, snd e) # seen, if snd e then files else ?f # files, normalized @ [safe]) paths"
        using Inr None by (simp add: see_name_def Let_def)
      show ?thesis unfolding step Cons.IH rm using new by (auto simp: folded_files_def)
    next
      case (Some d)
      then have old: "fold_name ze safe \<in> fst ` set seen" by (force dest: map_of_SomeD)
      have "rfold (see_name ze) (seen, files, normalized) (e # paths) \<noteq> Inr st"
        using Inr Some by (simp add: see_name_def Let_def)
      then show ?thesis unfolding rm using old by (simp only:) auto
    qed
  qed
qed

lemma folded_files_set:
  "length safes = length paths \<Longrightarrow>
   set (folded_files ze safes paths) = {fold_name ze (safes ! i) | i. i < length paths \<and> \<not> snd (paths ! i)}"
  by (force simp: folded_files_def set_zip image_iff)

text \<open>
  C36. The names of an archive are accepted exactly when each of them is safe on its own, no two fold to
  the same name, and no entry lies, in any case of its letters, below one that is a file.
\<close>

theorem zip_names_exact:
  "validate_zip_paths ze paths = Inr () \<longleftrightarrow>
     (\<exists>safes. rmap (safe_zip_name \<circ> fst) paths = Inr safes \<and> distinct (List.map (fold_name ze) safes)
        \<and> (\<forall>i < length paths. \<not> snd (paths ! i) \<longrightarrow>
             (\<forall>s \<in> set safes. \<not> starts_with (fold_name ze (safes ! i) @ ''/'') (fold_name ze s))))"
proof -
  have "validate_zip_paths ze paths = Inr () \<longleftrightarrow>
     (\<exists>safes. rmap (safe_zip_name \<circ> fst) paths = Inr safes \<and> distinct (List.map (fold_name ze) safes)
        \<and> \<not> list_ex (below_file ze (rev (folded_files ze safes paths))) safes)"
    by (auto simp: validate_zip_paths_def res_simps see_names)
  moreover have "\<not> list_ex (below_file ze (rev (folded_files ze safes paths))) safes \<longleftrightarrow>
      (\<forall>i < length paths. \<not> snd (paths ! i) \<longrightarrow>
             (\<forall>s \<in> set safes. \<not> starts_with (fold_name ze (safes ! i) @ ''/'') (fold_name ze s)))"
    if "rmap (safe_zip_name \<circ> fst) paths = Inr safes" for safes
    unfolding list_ex_iff below_file_iff set_rev folded_files_set [OF rmap_length [OF that]] by blast
  ultimately show ?thesis by blast
qed

section \<open>What an edit of an archive means\<close>

text \<open>
  The abstract archive: for each folded name the spelling of the entry and what reading it gives.
\<close>

type_synonym zip_map = "string \<Rightarrow> (string \<times> bytes res) option"

definition spelled :: "string \<Rightarrow> string" where
  "spelled n = (case safe_zip_name n of Inr s \<Rightarrow> s | Inl _ \<Rightarrow> n)"

definition file_entries :: "zip_info list \<Rightarrow> (string \<times> bytes res) list" where
  "file_entries infos =
     List.filter (\<lambda>e. \<not> ends_with ''/'' (fst e)) (List.map (\<lambda>i. (zi_name i, zi_read i)) infos)"

definition zip_contents :: "zip_env \<Rightarrow> zip_info list \<Rightarrow> zip_map" where
  "zip_contents ze infos =
     map_of (List.map (\<lambda>(n, r). (fold_name ze (spelled n), spelled n, r)) (file_entries infos))"

definition zip_spec :: "zip_env \<Rightarrow> zip_op \<Rightarrow> zip_map \<Rightarrow> zip_map option" where
  "zip_spec ze operation m =
     (case operation of
        EntryAdd (Py n) source \<Rightarrow>
          (case (safe_zip_name n, zip_payload source) of
             (Inr s, Inr b) \<Rightarrow> if m (fold_name ze s) = None then Some (m(fold_name ze s \<mapsto> (s, Inr b))) else None
           | _ \<Rightarrow> None)
      | EntryReplace (Py n) source \<Rightarrow>
          (case (safe_zip_name n, zip_payload source) of
             (Inr s, Inr b) \<Rightarrow>
               (case m (fold_name ze s) of
                  None \<Rightarrow> None
                | Some (spelling, _) \<Rightarrow> Some (m(fold_name ze s \<mapsto> (spelling, Inr b))))
           | _ \<Rightarrow> None)
      | EntryDelete (Py n) \<Rightarrow>
          (case safe_zip_name n of
             Inr s \<Rightarrow> if m (fold_name ze s) = None then None else Some (m(fold_name ze s := None))
           | _ \<Rightarrow> None)
      | _ \<Rightarrow> None)"

fun zip_specs :: "zip_env \<Rightarrow> zip_op list \<Rightarrow> zip_map \<Rightarrow> zip_map option" where
  "zip_specs ze [] m = Some m"
| "zip_specs ze (operation # rest) m =
     (case zip_spec ze operation m of None \<Rightarrow> None | Some m' \<Rightarrow> zip_specs ze rest m')"

text \<open>The entries held in memory, their abstraction and their invariant.\<close>

definition zip_state :: "zip_env \<Rightarrow> zip_files \<Rightarrow> zip_map" where
  "zip_state ze entries = map_of (List.map (\<lambda>(n, i, b). (fold_name ze n, n, Inr b)) entries)"

definition sound_files :: "zip_env \<Rightarrow> zip_files \<Rightarrow> bool" where
  "sound_files ze entries \<longleftrightarrow>
     distinct (List.map (\<lambda>e. fold_name ze (fst e)) entries) \<and> (\<forall>e \<in> set entries. sound_zip_name (fst e))"

lemma matching_zip_key_state:
  "matching_zip_key ze entries name = map_option fst (zip_state ze entries (fold_name ze name))"
  by (induction entries) (auto simp: matching_zip_key_def zip_state_def)

lemma zip_state_Some:
  assumes "zip_state ze entries k = Some (n, r)"
  shows "fold_name ze n = k \<and> n \<in> fst ` set entries"
  using map_of_SomeD [OF assms [unfolded zip_state_def]] by force

lemma zip_state_None: "zip_state ze entries k = None \<longleftrightarrow> k \<notin> (\<lambda>e. fold_name ze (fst e)) ` set entries"
  by (force simp: zip_state_def map_of_eq_None_iff image_iff)

lemma update_state:
  assumes "sound_files ze entries" "sound_zip_name k"
    and "k \<in> fst ` set entries \<or> fold_name ze k \<notin> (\<lambda>e. fold_name ze (fst e)) ` set entries"
  shows "zip_state ze (AList.update k (i, b) entries) = (zip_state ze entries)(fold_name ze k \<mapsto> (k, Inr b))
      \<and> sound_files ze (AList.update k (i, b) entries)"
  using assms
proof (induction entries)
  case Nil
  then show ?case by (simp add: zip_state_def sound_files_def)
next
  case (Cons e entries)
  obtain n v where e: "e = (n, v)" by (cases e)
  show ?case
  proof (cases "n = k")
    case True
    then show ?thesis using Cons.prems e by (cases v) (auto simp: zip_state_def sound_files_def)
  next
    case False
    have sub: "(\<lambda>e. fold_name ze (fst e)) ` set (AList.update k (i, b) entries)
        = insert (fold_name ze k) ((\<lambda>e. fold_name ze (fst e)) ` set entries)"
    proof -
      have "(\<lambda>e. fold_name ze (fst e)) ` A = fold_name ze ` fst ` A" for A :: "(string \<times> zip_info option \<times> bytes) set"
        by (simp add: image_image)
      then show ?thesis by (simp add: dom_update)
    qed
    have ne: "fold_name ze n \<noteq> fold_name ze k"
      using Cons.prems False e by (auto simp: sound_files_def image_iff)
    have "sound_files ze entries"
      "k \<in> fst ` set entries \<or> fold_name ze k \<notin> (\<lambda>e. fold_name ze (fst e)) ` set entries"
      using Cons.prems False e by (auto simp: sound_files_def)
    note ih = Cons.IH [OF this(1) Cons.prems(2) this(2)]
    have "fold_name ze n \<notin> (\<lambda>e. fold_name ze (fst e)) ` set (AList.update k (i, b) entries)"
      unfolding sub using ne Cons.prems(1) e by (simp add: sound_files_def)
    then have "sound_files ze (AList.update k (i, b) (e # entries))"
      using ih False Cons.prems(1) e by (simp add: sound_files_def image_iff)
    moreover have "zip_state ze (e # es) = (zip_state ze es)(fold_name ze n \<mapsto> (n, Inr (snd v)))" for es
      by (simp add: zip_state_def e split_beta)
    ultimately show ?thesis using ih ne False e by (auto simp: fun_eq_iff)
  qed
qed

lemma delete_state:
  assumes "sound_files ze entries" "k \<in> fst ` set entries"
  shows "zip_state ze (AList.delete k entries) = (zip_state ze entries)(fold_name ze k := None)
      \<and> sound_files ze (AList.delete k entries)"
proof -
  have same: "fst e = k" if "e \<in> set entries" "fold_name ze (fst e) = fold_name ze k" for e
  proof -
    obtain e' where e': "e' \<in> set entries" "fst e' = k" using assms(2) by auto
    have "inj_on (\<lambda>e. fold_name ze (fst e)) (set entries)"
      using assms(1) by (simp add: sound_files_def distinct_map)
    from inj_onD [OF this _ that(1) e'(1)] that(2) e'(2) show ?thesis by simp
  qed
  have "AList.delete k entries = List.filter (\<lambda>e. fold_name ze (fst e) \<noteq> fold_name ze k) entries"
    by (auto simp: AList.delete_eq intro!: filter_cong dest: same)
  moreover have "zip_state ze (List.filter (\<lambda>e. fold_name ze (fst e) \<noteq> f) es) = (zip_state ze es)(f := None)" for f es
    by (induction es) (auto simp: zip_state_def fun_upd_twist)
  ultimately show ?thesis
    using assms(1) by (simp add: sound_files_def distinct_map_filter)
qed

lemma spelled_safe [simp]: "safe_zip_name n = Inr s \<Longrightarrow> spelled n = s"
  by (simp add: spelled_def)

lemma spelled_sound [simp]: "sound_zip_name n \<Longrightarrow> spelled n = n"
  by (simp add: safe_sound_zip_name)

lemma zip_edit_refines:
  assumes sound: "sound_files ze es" and edit: "zip_edit ze es operation = Inr es'"
  shows "zip_spec ze operation (zip_state ze es) = Some (zip_state ze es') \<and> sound_files ze es'"
proof (cases operation)
  case (EntryAdd n source)
  then obtain m s b where o: "n = Py m" "safe_zip_name m = Inr s" "zip_payload source = Inr b"
    "matching_zip_key ze es s = None" "es' = AList.update s (None, b) es"
    using edit by (auto simp: zip_edit_def res_simps text_of_field_def split: pyval.splits option.splits)
  then have "zip_state ze es (fold_name ze s) = None" by (simp add: matching_zip_key_state)
  then show ?thesis
    using o EntryAdd update_state [OF sound safe_zip_name_parts(2) [OF o(2)], of None b]
    by (auto simp: zip_spec_def zip_state_None)
next
  case (EntryReplace n source)
  then obtain m s b old r where o: "n = Py m" "safe_zip_name m = Inr s" "zip_payload source = Inr b"
    "zip_state ze es (fold_name ze s) = Some (old, r)" "es' = AList.update old (None, b) es"
    using edit
    by (auto simp: zip_edit_def res_simps text_of_field_def matching_zip_key_state split: pyval.splits option.splits)
  have old: "fold_name ze old = fold_name ze s" "old \<in> fst ` set es" using zip_state_Some [OF o(4)] by auto
  have "sound_zip_name old" using old(2) sound by (auto simp: sound_files_def)
  from update_state [OF sound this, of None b] show ?thesis
    using EntryReplace o old by (auto simp: zip_spec_def)
next
  case (EntryDelete n)
  then obtain m s old r where o: "n = Py m" "safe_zip_name m = Inr s"
    "zip_state ze es (fold_name ze s) = Some (old, r)" "es' = AList.delete old es"
    using edit
    by (auto simp: zip_edit_def res_simps text_of_field_def matching_zip_key_state split: pyval.splits option.splits)
  have old: "fold_name ze old = fold_name ze s" "old \<in> fst ` set es" using zip_state_Some [OF o(3)] by auto
  from delete_state [OF sound old(2)] show ?thesis
    using EntryDelete o old by (auto simp: zip_spec_def)
qed (use edit in \<open>simp_all add: zip_edit_def\<close>)

lemma zip_edits_refine:
  "sound_files ze es \<Longrightarrow> rfold (zip_edit ze) es operations = Inr es' \<Longrightarrow>
   zip_specs ze operations (zip_state ze es) = Some (zip_state ze es') \<and> sound_files ze es'"
proof (induction operations arbitrary: es)
  case (Cons operation rest)
  then obtain es1 where es1: "zip_edit ze es operation = Inr es1" "rfold (zip_edit ze) es1 rest = Inr es'"
    by (auto simp: res_simps)
  show ?case using zip_edit_refines [OF Cons.prems(1) es1(1)] Cons.IH [OF _ es1(2)] by simp
qed simp

lemma load_entries:
  "rfold load_entry (es, ds) infos = Inr (es', ds') \<Longrightarrow>
   distinct (List.map fst es @ List.map (spelled \<circ> fst) (file_entries infos)) \<Longrightarrow>
   \<exists>xs. es' = es @ xs \<and> List.map (\<lambda>(n, i, b). (n, Inr b)) xs = List.map (\<lambda>(n, r). (spelled n, r)) (file_entries infos)
      \<and> ds' = ds @ List.filter zip_dir infos"
proof (induction infos arbitrary: es ds)
  case Nil
  then show ?case by (simp add: file_entries_def)
next
  case (Cons i infos)
  show ?case
  proof (cases "zip_dir i")
    case True
    then have "load_entry (es, ds) i = Inr (es, ds @ [i])" "file_entries (i # infos) = file_entries infos"
      by (simp_all add: load_entry_def file_entries_def zip_dir_def)
    note fe = this(2) and step = this(1)
    then have "rfold load_entry (es, ds @ [i]) infos = Inr (es', ds')" using Cons.prems(1) by simp
    from Cons.IH [OF this] show ?thesis using True Cons.prems(2) fe by auto
  next
    case False
    then obtain s b where sb: "safe_zip_name (zi_name i) = Inr s" "zi_read i = Inr b"
      "rfold load_entry (AList.update s (Some i, b) es, ds) infos = Inr (es', ds')"
      using Cons.prems(1) by (auto simp: load_entry_def [of _ i] res_simps)
    have fe: "file_entries (i # infos) = (zi_name i, Inr b) # file_entries infos"
      using False sb(2) by (simp add: file_entries_def zip_dir_def)
    have "s \<notin> fst ` set es" using Cons.prems(2) sb(1) unfolding fe by simp
    then have up: "AList.update s (Some i, b) es = es @ [(s, Some i, b)]"
      by (induction es) auto
    have "distinct (List.map fst (es @ [(s, Some i, b)]) @ List.map (spelled \<circ> fst) (file_entries infos))"
      using Cons.prems(2) sb(1) unfolding fe by (auto simp: comp_def)
    from Cons.IH [OF sb(3) [unfolded up] this] show ?thesis using False sb(1) unfolding fe by auto
  qed
qed

text \<open>What the names of an opened archive promise.\<close>

lemma rmap_spelled:
  "rmap (safe_zip_name \<circ> fst) paths = Inr safes \<Longrightarrow>
   safes = List.map (spelled \<circ> fst) paths \<and> (\<forall>p \<in> set paths. sound_zip_name (spelled (fst p)))"
  by (induction paths arbitrary: safes) (auto simp: res_simps dest: safe_zip_name_parts(2))

lemma zip_entries_sound:
  assumes "zip_entries ze data = Inr infos"
  shows "distinct (List.map (\<lambda>i. fold_name ze (spelled (zi_name i))) infos)"
    and "\<forall>i \<in> set infos. sound_zip_name (spelled (zi_name i))"
    and "ze_open ze data = Some infos"
proof -
  have v: "validate_zip_paths ze (List.map (\<lambda>i. (zi_name i, zip_dir i)) infos) = Inr ()"
    using assms by (auto simp: zip_entries_def res_simps split: option.splits)
  then obtain safes where safes: "rmap (safe_zip_name \<circ> fst) (List.map (\<lambda>i. (zi_name i, zip_dir i)) infos) = Inr safes"
    "distinct (List.map (fold_name ze) safes)"
    unfolding validate_zip_paths_def by (auto simp: res_simps see_names)
  from rmap_spelled [OF safes(1)] safes(2)
  show "distinct (List.map (\<lambda>i. fold_name ze (spelled (zi_name i))) infos)"
    "\<forall>i \<in> set infos. sound_zip_name (spelled (zi_name i))"
    by (simp_all add: comp_def)
  show "ze_open ze data = Some infos"
    using assms by (auto simp: zip_entries_def res_simps split: option.splits if_splits)
qed

lemma file_entries_map:
  "List.map (\<lambda>e. f (fst e)) (file_entries infos) = List.map (\<lambda>i. f (zi_name i)) (List.filter (\<lambda>i. \<not> zip_dir i) infos)"
  by (induction infos) (auto simp: file_entries_def zip_dir_def)

lemma load_zip_refines:
  assumes "load_zip ze data = Inr (es, ds)"
  shows "\<exists>infos. (if data = [] then infos = [] else zip_entries ze data = Inr infos)
      \<and> zip_state ze es = zip_contents ze infos \<and> sound_files ze es \<and> ds = List.filter zip_dir infos
      \<and> List.map fst es = List.map (spelled \<circ> fst) (file_entries infos)"
proof (cases "data = []")
  case True
  then show ?thesis
    using assms by (auto simp: load_zip_def zip_state_def zip_contents_def file_entries_def sound_files_def)
next
  case False
  then obtain infos where i: "zip_entries ze data = Inr infos" "rfold load_entry ([], []) infos = Inr (es, ds)"
    using assms by (auto simp: load_zip_def res_simps)
  have d: "distinct (List.map (\<lambda>e. fold_name ze (spelled (fst e))) (file_entries infos))"
    unfolding file_entries_map [of "\<lambda>n. fold_name ze (spelled n)"]
    using zip_entries_sound(1) [OF i(1)] by (simp add: distinct_map_filter)
  then have "distinct (List.map (spelled \<circ> fst) (file_entries infos))"
    by (auto simp: distinct_map inj_on_def)
  then obtain xs where xs: "es = xs"
    "List.map (\<lambda>(n, i, b). (n, Inr b)) xs = List.map (\<lambda>(n, r). (spelled n, r)) (file_entries infos)"
    "ds = List.filter zip_dir infos"
    using load_entries [OF i(2)] by auto
  have names: "List.map fst es = List.map (spelled \<circ> fst) (file_entries infos)"
    using arg_cong [OF xs(2), of "List.map fst"] xs(1) by (simp add: comp_def case_prod_unfold)
  have "List.map (\<lambda>(n, i, b). (fold_name ze n, n, Inr b)) es
      = List.map (\<lambda>(n, r). (fold_name ze (spelled n), spelled n, r)) (file_entries infos)"
    using arg_cong [OF xs(2), of "List.map (\<lambda>(n, r). (fold_name ze n, n, r))"] xs(1)
    by (simp add: comp_def case_prod_unfold)
  then have "zip_state ze es = zip_contents ze infos" by (simp add: zip_state_def zip_contents_def)
  moreover have "sound_files ze es"
  proof -
    have "List.map (\<lambda>e. fold_name ze (fst e)) es = List.map (\<lambda>e. fold_name ze (spelled (fst e))) (file_entries infos)"
      using arg_cong [OF names, of "List.map (fold_name ze)"] by (simp add: comp_def)
    moreover have "fst ` set es = (spelled \<circ> fst) ` set (file_entries infos)"
      using arg_cong [OF names, of set] by simp
    moreover have "\<forall>e \<in> set (file_entries infos). sound_zip_name (spelled (fst e))"
      using zip_entries_sound(2) [OF i(1)] by (auto simp: file_entries_def)
    ultimately show ?thesis using d unfolding sound_files_def by (metis (no_types, lifting) comp_apply imageE image_eqI)
  qed
  ultimately show ?thesis using False i(1) xs(3) names by auto
qed

text \<open>
  What the standard library documents of its archives: an entry is stored under its name and read back
  with its bytes, and names end before a zero character.
\<close>

definition sound_zip :: "zip_env \<Rightarrow> bool" where
  "sound_zip ze \<longleftrightarrow>
     (\<forall>data infos. ze_open ze data = Some infos \<longrightarrow> (\<forall>i \<in> set infos. nul_char \<notin> set (zi_name i)))
   \<and> (\<forall>ms out. ze_write ze ms = Inr out \<longrightarrow> (\<forall>m \<in> set ms. nul_char \<notin> set (zm_name m)) \<longrightarrow>
        (\<exists>infos. ze_open ze out = Some infos
           \<and> List.map (\<lambda>i. (zi_name i, zi_read i)) infos = List.map (\<lambda>m. (zm_name m, Inr (zm_payload m))) ms))"

definition op_name :: "zip_op \<Rightarrow> string" where
  "op_name operation =
     (case operation of
        EntryAdd (Py n) _ \<Rightarrow> n | EntryReplace (Py n) _ \<Rightarrow> n | EntryDelete (Py n) \<Rightarrow> n | _ \<Rightarrow> [])"

definition nul_free :: "zip_files \<Rightarrow> bool" where
  "nul_free es \<longleftrightarrow> (\<forall>e \<in> set es. nul_char \<notin> set (fst e))"

lemma safe_zip_name_nul:
  assumes "safe_zip_name n = Inr s" "nul_char \<notin> set n"
  shows "nul_char \<notin> set s"
proof -
  have "set s \<subseteq> {CHR ''/''} \<union> set (List.map to_posix_sep n)"
  proof -
    have "set s \<subseteq> {CHR ''/''} \<union> (\<Union>p \<in> set (split_on (CHR ''/'') s). set p)"
      using join_with_chars [of "''/''" "split_on (CHR ''/'') s"] by (simp add: join_split)
    moreover have "set p \<subseteq> set (List.map to_posix_sep n)" if "p \<in> set (split_on (CHR ''/'') s)" for p
      using that split_on_set [of p "CHR ''/''" "List.map to_posix_sep n"]
      unfolding safe_zip_name_parts(1) [OF assms(1)] by simp
    ultimately show ?thesis by blast
  qed
  then show ?thesis using assms(2) by (auto simp: to_posix_sep_def nul_char_def)
qed

lemma nul_free_update: "nul_free es \<Longrightarrow> nul_char \<notin> set k \<Longrightarrow> nul_free (AList.update k v es)"
  using dom_update [of k v es] by (auto simp: nul_free_def image_iff set_eq_iff) (metis fst_conv)

lemma nul_free_edit:
  assumes "nul_free es" "zip_edit ze es operation = Inr es'" "nul_char \<notin> set (op_name operation)"
  shows "nul_free es'"
proof -
  have old: "nul_char \<notin> set k" if "matching_zip_key ze es n = Some k" for k n
    using that assms(1) by (auto simp: matching_zip_key_def find_Some_iff nul_free_def)
  have del: "nul_free (AList.delete k es)" for k
    using assms(1) by (auto simp: nul_free_def AList.delete_eq)
  show ?thesis
    using assms old del
    by (cases operation)
      (auto simp: zip_edit_def res_simps text_of_field_def op_name_def split: pyval.splits option.splits
         intro!: nul_free_update dest: safe_zip_name_nul)
qed

lemma nul_free_edits:
  "nul_free es \<Longrightarrow> rfold (zip_edit ze) es operations = Inr es' \<Longrightarrow>
   \<forall>x \<in> set operations. nul_char \<notin> set (op_name x) \<Longrightarrow> nul_free es'"
  by (induction operations arbitrary: es) (auto simp: res_simps dest: nul_free_edit)

lemma sound_not_dir:
  assumes "sound_zip_name s"
  shows "\<not> ends_with ''/'' s"
proof
  assume "ends_with ''/'' s"
  then obtain r where "rev s = CHR ''/'' # r" by (auto simp: ends_with_def starts_with_iff)
  then have "s = rev r @ CHR ''/'' # []" by (metis rev.simps(2) rev_rev_ident)
  then have "[] \<in> set (split_on (CHR ''/'') s)" by (simp add: split_on_append)
  then show False using assms by (auto simp: sound_zip_name_def)
qed

lemma sorted_state:
  assumes "sound_files ze es"
  shows "zip_state ze (sort_key fst es) = zip_state ze es"
proof -
  let ?f = "\<lambda>(n, i, b). (fold_name ze n, n, Inr b :: bytes res)"
  have d: "distinct (List.map fst (List.map ?f xs))" if "mset xs = mset es" for xs
  proof -
    have "mset (List.map (\<lambda>e. fold_name ze (fst e)) xs) = mset (List.map (\<lambda>e. fold_name ze (fst e)) es)"
      using that by simp
    then have "distinct (List.map (\<lambda>e. fold_name ze (fst e)) xs)"
      using assms mset_eq_imp_distinct_iff unfolding sound_files_def by metis
    then show ?thesis by (simp add: comp_def case_prod_unfold)
  qed
  have "map_of (List.map ?f (sort_key fst es)) = map_of (List.map ?f es)"
    using map_of_inject_set [OF d [of "sort_key fst es"] d [of es]] by simp
  then show ?thesis by (simp add: zip_state_def)
qed

text \<open>What is read back of the entries that are written.\<close>

lemma written_contents:
  assumes "List.map (\<lambda>i. (zi_name i, zi_read i)) infos
         = List.map (\<lambda>m. (zm_name m, Inr (zm_payload m))) (zip_members es ds)"
    and "sound_files ze es" "\<forall>i \<in> set ds. zip_dir i"
  shows "zip_contents ze infos = zip_state ze es"
    and "List.map zi_name (List.filter zip_dir infos) = List.map zi_name ds"
proof -
  let ?files = "List.map (\<lambda>(n, i, b). (n, Inr b :: bytes res)) (sort_key fst es)"
  have all: "List.map (\<lambda>i. (zi_name i, zi_read i)) infos = List.map (\<lambda>i. (zi_name i, Inr [])) ds @ ?files"
    unfolding assms(1) zip_members_def by (simp add: comp_def case_prod_unfold)
  have no_dir: "\<forall>e \<in> set ?files. \<not> ends_with ''/'' (fst e)" and sound: "\<forall>e \<in> set (sort_key fst es). sound_zip_name (fst e)"
    using assms(2) sound_not_dir by (fastforce simp: sound_files_def)+
  have "file_entries infos = ?files"
    unfolding file_entries_def all using no_dir assms(3) by (auto simp: zip_dir_def filter_empty_conv intro!: filter_True)
  then have "zip_contents ze infos = map_of (List.map (\<lambda>(n, i, b). (fold_name ze n, n, Inr b)) (sort_key fst es))"
    unfolding zip_contents_def using sound by (auto simp: comp_def case_prod_unfold intro!: arg_cong [of _ _ map_of])
  then show "zip_contents ze infos = zip_state ze es"
    using sorted_state [OF assms(2)] by (simp add: zip_state_def)
  have "List.filter (\<lambda>e. ends_with ''/'' (fst e)) (List.map (\<lambda>i. (zi_name i, zi_read i)) infos)
      = List.map (\<lambda>i. (zi_name i, Inr [])) ds"
    unfolding all using no_dir assms(3) by (auto simp: zip_dir_def filter_empty_conv intro!: filter_True)
  from arg_cong [OF this, of "List.map fst"]
  show "List.map zi_name (List.filter zip_dir infos) = List.map zi_name ds"
    by (simp add: filter_map comp_def zip_dir_def [abs_def])
qed

text \<open>
  C37. The edits of an archive are the edits of a map from names, regardless of case, to contents: an
  edit that succeeds wrote an archive that passes all checks again, whose files are those of the given
  archive with the operations applied one after the other, each other entry with its spelling and
  content, and whose directories are the given ones.
\<close>

theorem transform_zip_refines:
  assumes "sound_zip ze" "transform_zip ze data operations = Inr out"
    and "\<forall>x \<in> set operations. nul_char \<notin> set (op_name x)"
  shows "\<exists>infos infos'. (if data = [] then infos = [] else zip_entries ze data = Inr infos)
     \<and> zip_entries ze out = Inr infos'
     \<and> zip_specs ze operations (zip_contents ze infos) = Some (zip_contents ze infos')
     \<and> List.map zi_name (List.filter zip_dir infos') = List.map zi_name (List.filter zip_dir infos)"
proof -
  obtain loaded ds es infos' where t: "load_zip ze data = Inr (loaded, ds)"
    "rfold (zip_edit ze) loaded operations = Inr es"
    "ze_write ze (zip_members es ds) = Inr out" "zip_entries ze out = Inr infos'"
    using assms(2) by (auto simp: transform_zip_def res_simps split: if_splits)
  obtain infos where i: "if data = [] then infos = [] else zip_entries ze data = Inr infos"
    "zip_state ze loaded = zip_contents ze infos" "sound_files ze loaded" "ds = List.filter zip_dir infos"
    "List.map fst loaded = List.map (spelled \<circ> fst) (file_entries infos)"
    using load_zip_refines [OF t(1)] by auto
  note edits = zip_edits_refine [OF i(3) t(2)]
  have names: "nul_char \<notin> set (zi_name x)" if "x \<in> set infos" for x
    using that i(1) assms(1) zip_entries_sound(3) [of ze data infos]
    by (auto simp: sound_zip_def split: if_splits)
  have "nul_char \<notin> set (spelled (zi_name x))" if "x \<in> set infos" for x
    using names [OF that] safe_zip_name_nul by (auto simp: spelled_def split: sum.split)
  then have files: "\<forall>e \<in> set (file_entries infos). nul_char \<notin> set (spelled (fst e))"
    by (auto simp: file_entries_def)
  have "nul_free loaded"
    unfolding nul_free_def
  proof
    fix e assume "e \<in> set loaded"
    then have "fst e \<in> set (List.map (spelled \<circ> fst) (file_entries infos))" unfolding i(5) [symmetric] by simp
    then show "nul_char \<notin> set (fst e)" using files by auto
  qed
  from nul_free_edits [OF this t(2) assms(3)] have "nul_free es" .
  then have "\<forall>m \<in> set (zip_members es ds). nul_char \<notin> set (zm_name m)"
    using names i(4) by (auto simp: zip_members_def nul_free_def)
  with assms(1) t(3) obtain written where w: "ze_open ze out = Some written"
    "List.map (\<lambda>i. (zi_name i, zi_read i)) written = List.map (\<lambda>m. (zm_name m, Inr (zm_payload m))) (zip_members es ds)"
    unfolding sound_zip_def by blast
  have "written = infos'" using w(1) zip_entries_sound(3) [OF t(4)] by simp
  moreover have "\<forall>i \<in> set ds. zip_dir i" using i(4) by simp
  ultimately show ?thesis
    using written_contents [OF w(2) conjunct2 [OF edits]] edits i(1,2,4) t(4)
    by (intro exI [of _ infos] exI [of _ infos']) simp
qed

text \<open>
  A small archive and what becomes of it when one file is replaced under another case of its name and
  another one is added.
\<close>

definition demo_zip_entry :: "string \<Rightarrow> bytes \<Rightarrow> zip_info" where
  "demo_zip_entry n b = \<lparr>zi_name = n, zi_size = int (length b), zi_compressed = int (length b), zi_encrypted = False,
                     zi_read = Inr b\<rparr>"

definition demo_files :: "bytes \<Rightarrow> (string \<times> bytes) list" where
  "demo_files data = (if data = [1] then [(''docs/'', []), (''docs/A.txt'', [104, 105])]
                      else [(''docs/'', []), (''b.bin'', [0, 1]), (''docs/A.txt'', [111, 107])])"

definition demo_zip :: zip_env where
  "demo_zip =
     \<lparr>ze_max_entries = 10, ze_max_expanded = 100, ze_fold = (\<lambda>c. [ascii_lower_char c]),
      ze_open = (\<lambda>data. if data = [1] \<or> data = [2] then Some (List.map (\<lambda>(n, b). demo_zip_entry n b) (demo_files data)) else None),
      ze_write = (\<lambda>ms. if List.map (\<lambda>m. (zm_name m, zm_payload m)) ms = demo_files [2] then Inr [2]
                       else Inl (OSError ''no space''))\<rparr>"

definition demo_zip_ops :: "zip_op list" where
  "demo_zip_ops =
     [EntryReplace (Py ''DOCS/a.TXT'') \<lparr>zs_text = Py [111, 107], zs_base64 = Missing\<rparr>,
      EntryAdd (Py ''b.bin'') \<lparr>zs_text = Missing, zs_base64 = Py ''AAE=''\<rparr>]"

lemma demo_zip_sound: "sound_zip demo_zip"
proof -
  have "ze_open demo_zip data = Some infos \<Longrightarrow> \<forall>i \<in> set infos. nul_char \<notin> set (zi_name i)" for data infos
    by (auto simp: demo_zip_def demo_files_def demo_zip_entry_def nul_char_def split: if_splits)
  moreover have "\<exists>infos. ze_open demo_zip out = Some infos
      \<and> List.map (\<lambda>i. (zi_name i, zi_read i)) infos = List.map (\<lambda>m. (zm_name m, Inr (zm_payload m))) ms"
    if "ze_write demo_zip ms = Inr out" for ms out
  proof -
    have ms: "List.map (\<lambda>m. (zm_name m, zm_payload m)) ms = demo_files [2]" "out = [2]"
      using that by (auto simp: demo_zip_def split: if_splits)
    from arg_cong [OF ms(1), of "List.map (\<lambda>(n, b). (n, Inr b :: bytes res))"]
    have "List.map (\<lambda>m. (zm_name m, Inr (zm_payload m))) ms = List.map (\<lambda>(n, b). (n, Inr b :: bytes res)) (demo_files [2])"
      by (simp add: comp_def)
    then show ?thesis by (simp add: demo_zip_def ms(2) comp_def case_prod_unfold demo_zip_entry_def)
  qed
  ultimately show ?thesis unfolding sound_zip_def by blast
qed

lemma transform_zip_refines_witness:
  "\<exists>infos infos'. zip_entries demo_zip [1] = Inr infos \<and> zip_entries demo_zip [2] = Inr infos'
     \<and> zip_specs demo_zip demo_zip_ops (zip_contents demo_zip infos) = Some (zip_contents demo_zip infos')
     \<and> List.map zi_name (List.filter zip_dir infos') = List.map zi_name (List.filter zip_dir infos)"
proof -
  have "transform_zip demo_zip [1] demo_zip_ops = Inr [2]" by code_simp
  from transform_zip_refines [OF demo_zip_sound this] show ?thesis
    by (simp add: demo_zip_ops_def op_name_def nul_char_def)
qed

lemma zip_names_exact_witness:
  "validate_zip_paths demo_zip [(''docs/A.txt'', False), (''Docs'', False)] \<noteq> Inr ()
   \<and> validate_zip_paths demo_zip [(''docs/A.txt'', False), (''Docs'', True)] = Inr ()"
proof -
  have names: "rmap (safe_zip_name \<circ> fst) [(''docs/A.txt'', d), (''Docs'', e)] = Inr [''docs/A.txt'', ''Docs'']" for d e
    by (simp, code_simp)
  have folds: "fold_name demo_zip ''docs/A.txt'' = ''docs/a.txt'' \<and> fold_name demo_zip ''Docs'' = ''docs''"
    by code_simp
  show ?thesis
    unfolding zip_names_exact names using folds
    by (auto simp: starts_with_def less_Suc_eq numeral_2_eq_2 intro!: exI [of _ 1])
qed

text \<open>The check of reserved names keeps spaces before a dot, that of workspace paths does not.\<close>

lemma zip_name_with_device:
  "safe_zip_name ''con .txt'' = Inr ''con .txt''
   \<and> validate_windows_syntax ''con .txt'' = Inl (PermissionError ''Windows reserved device name is not allowed'')"
  by code_simp

end
