(* ===== verification/Scans.thy ===== *)
theory Scans
  imports Checkpoints "HOL-Library.Multiset"
begin

text \<open>
  Walks over directory trees: \<open>os.walk\<close> and the bounded scans of \<open>resources.py\<close>, which measure what
  a process wrote before it is trusted, and the entry budget of \<open>approval.py\<close>. A tree is what the
  directory listings and \<open>lstat\<close> report at the time of a call.
\<close>

section \<open>Trees\<close>

text \<open>
  \<open>ei_gone\<close>: the entry was listed but is removed before it is looked at. A link to a directory is
  listed as a directory; it is not walked into.
\<close>

record entry_info =
  ei_name :: string
  ei_symlink :: bool
  ei_reparse :: bool
  ei_streams :: bool
  ei_regular :: bool
  ei_gone :: bool
  ei_size :: int

datatype disk_tree = FileEntry entry_info | DirEntry entry_info "disk_tree list"

fun entry_of :: "disk_tree \<Rightarrow> entry_info" where
  "entry_of (FileEntry i) = i"
| "entry_of (DirEntry i _) = i"

fun is_dir_entry :: "disk_tree \<Rightarrow> bool" where
  "is_dir_entry (FileEntry _) = False"
| "is_dir_entry (DirEntry _ _) = True"

abbreviation entry_name :: "disk_tree \<Rightarrow> string" where
  "entry_name t \<equiv> ei_name (entry_of t)"

definition reparse_entry :: "disk_tree \<Rightarrow> bool" where
  "reparse_entry t \<longleftrightarrow> ei_symlink (entry_of t) \<or> ei_reparse (entry_of t)"

text \<open>\<open>os.walk(root, followlinks=False)\<close>: each directory with its directories and its other entries,
  before the directories in it that the caller kept.\<close>

type_synonym walk_level = "path \<times> disk_tree list \<times> disk_tree list"

fun walk_into :: "(disk_tree \<Rightarrow> bool) \<Rightarrow> path \<Rightarrow> disk_tree \<Rightarrow> walk_level list" where
  "walk_into kept here (FileEntry i) = []"
| "walk_into kept here (DirEntry i ts) =
     (if ei_symlink i then []
      else (here @ [ei_name i], List.filter is_dir_entry ts, List.filter (\<lambda>t. \<not> is_dir_entry t) ts)
           # concat (List.map (\<lambda>t. if kept t then walk_into kept (here @ [ei_name i]) t else []) ts))"

definition os_walk :: "(disk_tree \<Rightarrow> bool) \<Rightarrow> path \<Rightarrow> disk_tree list \<Rightarrow> walk_level list" where
  "os_walk kept root ts =
     (root, List.filter is_dir_entry ts, List.filter (\<lambda>t. \<not> is_dir_entry t) ts)
     # concat (List.map (\<lambda>t. if kept t then walk_into kept root t else []) ts)"

section \<open>The size of a directory\<close>

text \<open>The inner loop; \<open>Inl\<close> is the early return.\<close>

fun add_sizes :: "int option \<Rightarrow> int \<Rightarrow> disk_tree list \<Rightarrow> (int + int)" where
  "add_sizes stop_after acc [] = Inr acc"
| "add_sizes stop_after acc (t # ts) =
     (if ei_gone (entry_of t) \<or> ei_symlink (entry_of t) then add_sizes stop_after acc ts
      else let n = acc + ei_size (entry_of t) in
           case stop_after of
             Some m \<Rightarrow> if m < n then Inl n else add_sizes stop_after n ts
           | None \<Rightarrow> add_sizes stop_after n ts)"

fun size_levels :: "int option \<Rightarrow> int \<Rightarrow> walk_level list \<Rightarrow> int" where
  "size_levels stop_after acc [] = acc"
| "size_levels stop_after acc (l # ls) =
     (case add_sizes stop_after acc (snd (snd l)) of
        Inl n \<Rightarrow> n | Inr n \<Rightarrow> size_levels stop_after n ls)"

definition directory_size :: "path \<Rightarrow> disk_tree list \<Rightarrow> int option \<Rightarrow> int" where
  "directory_size root ts stop_after =
     size_levels stop_after 0 (os_walk (\<lambda>t. \<not> ei_symlink (entry_of t)) root ts)"

definition measured_quota :: "path \<Rightarrow> disk_tree list \<Rightarrow> int \<Rightarrow> int \<Rightarrow> unit res" where
  "measured_quota data_dir ts max_bytes incoming =
     enforce_data_quota max_bytes (directory_size data_dir ts (Some max_bytes)) incoming"

section \<open>The bounded scan\<close>

record directory_scan =
  sc_bytes :: int
  sc_entries :: nat
  sc_files :: "path list"

record scan_limits =
  sl_bytes :: int
  sl_entries :: nat
  sl_collect :: bool
  sl_no_streams :: bool
  sl_no_reparse :: bool

definition refuse_entry :: "scan_limits \<Rightarrow> entry_info \<Rightarrow> unit res" where
  "refuse_entry lim i =
     (if sl_no_reparse lim \<and> (ei_symlink i \<or> ei_reparse i)
      then Inl (RuntimeError ''runtime tree contains a reparse point'')
      else if sl_no_streams lim \<and> ei_streams i
      then Inl (RuntimeError ''runtime tree contains an NTFS alternate data stream'')
      else Inr ())"

text \<open>The entries of one directory: the scan so far, the directories found, and whether it returns.\<close>

fun scan_entries ::
  "scan_limits \<Rightarrow> path \<Rightarrow> directory_scan \<Rightarrow> (path \<times> disk_tree) list \<Rightarrow> disk_tree list
   \<Rightarrow> (bool \<times> directory_scan \<times> (path \<times> disk_tree) list) res" where
  "scan_entries lim here sc pending [] = Inr (False, sc, pending)"
| "scan_entries lim here sc pending (t # ts) =
     (let i = entry_of t;
          sc1 = sc\<lparr>sc_entries := sc_entries sc + 1\<rparr>
      in if sl_entries lim < sc_entries sc1 then Inr (True, sc1, pending)
         else if ei_gone i then scan_entries lim here sc1 pending ts
         else rbind (refuse_entry lim i) (\<lambda>_.
           case t of
             DirEntry _ us \<Rightarrow>
               if ei_symlink i
               then Inl (RuntimeError ''runtime tree contains a non-regular entry'')
               else scan_entries lim here sc1 ((here @ [ei_name i], t) # pending) ts
           | FileEntry _ \<Rightarrow>
               if ei_symlink i \<or> \<not> ei_regular i
               then Inl (RuntimeError ''runtime tree contains a non-regular entry'')
               else let sc2 = sc1\<lparr>sc_bytes := sc_bytes sc1 + ei_size i,
                                  sc_files := sc_files sc1 @ (if sl_collect lim then [here @ [ei_name i]] else [])\<rparr>
                    in if sl_bytes lim < sc_bytes sc2 then Inr (True, sc2, pending)
                       else scan_entries lim here sc2 pending ts))"

fun children :: "disk_tree \<Rightarrow> disk_tree list" where
  "children (FileEntry _) = []"
| "children (DirEntry _ ts) = ts"

text \<open>The entries still to be looked at bound the loop over the stack of directories.\<close>

fun tree_count :: "disk_tree \<Rightarrow> nat" where
  "tree_count (FileEntry _) = 1"
| "tree_count (DirEntry _ ts) = 1 + sum_list (List.map tree_count ts)"

lemma scan_entries_pending:
  "scan_entries lim here sc pending ts = Inr (stop, sc', pending') \<Longrightarrow>
   sum_list (List.map (tree_count \<circ> snd) pending') \<le> sum_list (List.map (tree_count \<circ> snd) pending) + sum_list (List.map tree_count ts)"
proof (induction ts arbitrary: sc pending)
  case (Cons t ts)
  show ?case
  proof (cases t)
    case (FileEntry i)
    then show ?thesis
      using Cons.prems by (auto simp: Let_def res_simps split: if_splits dest!: Cons.IH)
  next
    case (DirEntry i us)
    then show ?thesis
      using Cons.prems by (auto simp: Let_def res_simps split: if_splits dest!: Cons.IH)
  qed
qed simp

lemma tree_count_children: "sum_list (List.map tree_count (children t)) < tree_count t"
  by (cases t) auto

function scan_pending ::
  "scan_limits \<Rightarrow> directory_scan \<Rightarrow> (path \<times> disk_tree) list \<Rightarrow> directory_scan res" where
  "scan_pending lim sc [] = Inr sc"
| "scan_pending lim sc ((here, t) # pending) =
     (if ei_gone (entry_of t) then scan_pending lim sc pending
      else case refuse_entry lim (entry_of t) of
        Inl e \<Rightarrow> Inl e
      | Inr _ \<Rightarrow>
          (case scan_entries lim here sc pending (children t) of
             Inl e \<Rightarrow> Inl e
           | Inr (stop, sc', pending') \<Rightarrow> if stop then Inr sc' else scan_pending lim sc' pending'))"
  by pat_completeness auto
termination
proof (relation "measure (\<lambda>(lim, sc, pending). sum_list (List.map (tree_count \<circ> snd) pending))", goal_cases)
  case (2 lim sc here t pending)
  then show ?case by (cases t) auto
next
  case (3 lim sc here t pending b x y z a)
  then show ?case using scan_entries_pending tree_count_children [of t] by fastforce
qed simp

definition scan_directory_bounded :: "scan_limits \<Rightarrow> path \<Rightarrow> disk_tree \<Rightarrow> directory_scan res" where
  "scan_directory_bounded lim root t =
     scan_pending lim \<lparr>sc_bytes = 0, sc_entries = 0, sc_files = []\<rparr> [(root, t)]"

section \<open>What a scan promises\<close>

text \<open>The entries below a directory, and those of them that are files.\<close>

fun below :: "path \<Rightarrow> disk_tree \<Rightarrow> (path \<times> disk_tree) list" where
  "below here (FileEntry _) = []"
| "below here (DirEntry _ ts) =
     concat (List.map (\<lambda>u. (here @ [entry_name u], u)
                         # (if ei_gone (entry_of u) then [] else below (here @ [entry_name u]) u)) ts)"

definition live_files :: "(path \<times> disk_tree) list \<Rightarrow> (path \<times> disk_tree) list" where
  "live_files es = List.filter (\<lambda>(_, u). \<not> ei_gone (entry_of u) \<and> \<not> is_dir_entry u) es"

definition file_bytes :: "(path \<times> disk_tree) list \<Rightarrow> int" where
  "file_bytes es = sum_list (List.map (\<lambda>(_, u). ei_size (entry_of u)) (live_files es))"

definition accepted_entry :: "scan_limits \<Rightarrow> disk_tree \<Rightarrow> bool" where
  "accepted_entry lim u \<longleftrightarrow>
     ei_gone (entry_of u) \<or>
     (refuse_entry lim (entry_of u) = Inr () \<and> \<not> ei_symlink (entry_of u)
      \<and> (is_dir_entry u \<or> ei_regular (entry_of u)))"

definition listed :: "path \<Rightarrow> disk_tree list \<Rightarrow> (path \<times> disk_tree) list" where
  "listed here ts = List.map (\<lambda>u. (here @ [entry_name u], u)) ts"

definition to_visit :: "(path \<times> disk_tree) list \<Rightarrow> (path \<times> disk_tree) list" where
  "to_visit es = concat (List.map (\<lambda>(p, u). if ei_gone (entry_of u) then [] else below p u) es)"

definition scan_within :: "scan_limits \<Rightarrow> directory_scan \<Rightarrow> bool" where
  "scan_within lim sc \<longleftrightarrow> sc_entries sc \<le> sl_entries lim \<and> sc_bytes sc \<le> sl_bytes lim"

text \<open>The scan of a list of entries, and of everything below them.\<close>

definition scanned :: "scan_limits \<Rightarrow> directory_scan \<Rightarrow> (path \<times> disk_tree) list \<Rightarrow> directory_scan \<Rightarrow> bool" where
  "scanned lim sc es sc' \<longleftrightarrow>
     sc_entries sc' = sc_entries sc + length es \<and> sc_bytes sc' = sc_bytes sc + file_bytes es
   \<and> mset (sc_files sc') = mset (sc_files sc) + (if sl_collect lim then mset (List.map fst (live_files es)) else {#})
   \<and> (\<forall>(p, u) \<in> set es. accepted_entry lim u)"

lemma live_files_append [simp]: "live_files (xs @ ys) = live_files xs @ live_files ys"
  by (simp add: live_files_def)

lemma file_bytes_append [simp]: "file_bytes (xs @ ys) = file_bytes xs + file_bytes ys"
  by (simp add: file_bytes_def)

lemma scanned_append: "scanned lim sc xs sc' \<Longrightarrow> scanned lim sc' ys sc'' \<Longrightarrow> scanned lim sc (xs @ ys) sc''"
  by (auto simp: scanned_def)

lemma scanned_perm:
  assumes "mset xs = mset ys" "scanned lim sc xs sc'"
  shows "scanned lim sc ys sc'"
proof -
  have live: "mset (live_files xs) = mset (live_files ys)" using assms(1) by (simp add: live_files_def)
  have "file_bytes es = sum_mset (image_mset (\<lambda>(_, u). ei_size (entry_of u)) (mset (live_files es)))" for es
    by (simp add: file_bytes_def sum_mset_sum_list [symmetric])
  then have f: "file_bytes xs = file_bytes ys" "mset (List.map fst (live_files xs)) = mset (List.map fst (live_files ys))"
    using live by simp_all
  show ?thesis
    using assms(2) f mset_eq_length [OF assms(1)] mset_eq_setD [OF assms(1)] by (simp add: scanned_def)
qed

lemma scan_entries_result:
  "scan_entries lim here sc pending ts = Inr (stop, sc', pending') \<Longrightarrow>
   (stop \<longrightarrow> \<not> scan_within lim sc') \<and>
   (\<not> stop \<longrightarrow> scanned lim sc (listed here ts) sc'
      \<and> pending' = rev (List.filter (\<lambda>(_, u). is_dir_entry u \<and> \<not> ei_gone (entry_of u)) (listed here ts)) @ pending)"
proof (induction ts arbitrary: sc pending)
  case Nil
  then show ?case by (simp add: scanned_def listed_def file_bytes_def live_files_def)
next
  case (Cons t ts)
  let ?i = "entry_of t" and ?one = "[(here @ [entry_name t], t)]"
  have l: "listed here (t # ts) = ?one @ listed here ts" by (simp add: listed_def)
  show ?case
  proof (cases "sl_entries lim < sc_entries sc + 1")
    case True
    then show ?thesis using Cons.prems by (auto simp: Let_def scan_within_def)
  next
    case within: False
    show ?thesis
    proof (cases "ei_gone ?i")
      case True
      let ?sc = "sc\<lparr>sc_entries := sc_entries sc + 1\<rparr>"
      have s: "scan_entries lim here ?sc pending ts = Inr (stop, sc', pending')"
        using Cons.prems within True by (simp add: Let_def)
      have one: "scanned lim sc ?one ?sc"
        using True by (simp add: scanned_def live_files_def file_bytes_def accepted_entry_def)
      show ?thesis
        unfolding l using Cons.IH [OF s] True scanned_append [OF one] by simp
    next
      case live: False
      have ok: "refuse_entry lim ?i = Inr ()"
        using Cons.prems within live by (auto simp: Let_def res_simps)
      show ?thesis
      proof (cases t)
        case (DirEntry i us)
        let ?sc = "sc\<lparr>sc_entries := sc_entries sc + 1\<rparr>"
        have s: "\<not> ei_symlink i" "scan_entries lim here ?sc ((here @ [ei_name i], t) # pending) ts = Inr (stop, sc', pending')"
          using Cons.prems within live ok DirEntry by (auto simp: Let_def split: if_splits)
        have one: "scanned lim sc ?one ?sc"
          using s(1) ok live DirEntry by (simp add: scanned_def live_files_def file_bytes_def accepted_entry_def)
        show ?thesis
          unfolding l using Cons.IH [OF s(2)] live DirEntry scanned_append [OF one] by simp
      next
        case (FileEntry i)
        let ?sc = "sc\<lparr>sc_entries := sc_entries sc + 1, sc_bytes := sc_bytes sc + ei_size i,
                      sc_files := sc_files sc @ (if sl_collect lim then [here @ [ei_name i]] else [])\<rparr>"
        have s: "\<not> ei_symlink i" "ei_regular i"
          "(if sl_bytes lim < sc_bytes sc + ei_size i then Inr (True, ?sc, pending)
            else scan_entries lim here ?sc pending ts) = Inr (stop, sc', pending')"
          using Cons.prems within live ok FileEntry by (auto simp: Let_def split: if_splits)
        have one: "scanned lim sc ?one ?sc"
          using s(1,2) ok live FileEntry by (simp add: scanned_def live_files_def file_bytes_def accepted_entry_def)
        show ?thesis
        proof (cases "sl_bytes lim < sc_bytes sc + ei_size i")
          case True
          then show ?thesis using s(3) by (auto simp: scan_within_def)
        next
          case False
          then have r: "scan_entries lim here ?sc pending ts = Inr (stop, sc', pending')" using s(3) by simp
          show ?thesis
            unfolding l using Cons.IH [OF r] live FileEntry scanned_append [OF one] by simp
        qed
      qed
    qed
  qed
qed

lemma live_filter:
  "List.filter (\<lambda>(_, u). is_dir_entry u \<and> \<not> ei_gone (entry_of u)) (listed here ts)
     = listed here (List.filter (\<lambda>u. is_dir_entry u \<and> \<not> ei_gone (entry_of u)) ts)"
  by (induction ts) (auto simp: listed_def)

lemma below_mset:
  "mset (below here t) = mset (listed here (children t)) + mset (to_visit (listed here (children t)))"
proof -
  have "mset (concat (List.map (\<lambda>u. f u # g u) ts)) = mset (List.map f ts) + mset (concat (List.map g ts))"
    for f and g :: "disk_tree \<Rightarrow> (path \<times> disk_tree) list" and ts
    by (induction ts) auto
  then show ?thesis by (cases t) (simp_all add: listed_def to_visit_def comp_def)
qed

lemma to_visit_dirs:
  "mset (to_visit (List.filter (\<lambda>(_, u). is_dir_entry u \<and> \<not> ei_gone (entry_of u)) es)) = mset (to_visit es)"
proof (induction es)
  case (Cons e es)
  then show ?case by (cases e; cases "snd e") (auto simp: to_visit_def)
qed (simp add: to_visit_def)

lemma to_visit_rev: "mset (to_visit (rev es)) = mset (to_visit es)"
  by (induction es) (auto simp: to_visit_def)

lemma scan_pending_result:
  "scan_pending lim sc pending = Inr sc' \<Longrightarrow> scan_within lim sc' \<Longrightarrow> scanned lim sc (to_visit pending) sc'"
proof (induction lim sc pending rule: scan_pending.induct)
  case (1 lim sc)
  then show ?case by (simp add: scanned_def to_visit_def file_bytes_def live_files_def)
next
  case (2 lim sc here t pending)
  show ?case
  proof (cases "ei_gone (entry_of t)")
    case True
    then show ?thesis using 2 by (simp add: to_visit_def)
  next
    case False
    with 2(3) obtain u stop sc1 pending' where s: "refuse_entry lim (entry_of t) = Inr u"
      "scan_entries lim here sc pending (children t) = Inr (stop, sc1, pending')"
      "(if stop then Inr sc1 else scan_pending lim sc1 pending') = Inr sc'"
      by (auto split: sum.splits)
    note r = scan_entries_result [OF s(2)]
    have go: "\<not> stop" using r s(3) 2(4) by (auto split: if_splits)
    then have "scanned lim sc1 (to_visit pending') sc'"
      using 2(2) [OF False s(1,2), OF refl refl go] s(3) 2(4) by simp
    with r go have all: "scanned lim sc (listed here (children t) @ to_visit pending') sc'"
      by (blast intro: scanned_append)
    have "to_visit (xs @ ys) = to_visit xs @ to_visit ys" for xs ys by (simp add: to_visit_def)
    then have "mset (listed here (children t) @ to_visit pending') = mset (to_visit ((here, t) # pending))"
      using r go False below_mset [of here t]
      by (simp add: to_visit_rev to_visit_dirs) (simp add: to_visit_def)
    then show ?thesis using all by (rule scanned_perm)
  qed
qed

text \<open>
  C32. A bounded scan that stays within its limits has seen everything: its counts are those of the whole
  tree, its files are all the files, and nothing anywhere below is of a kind it refuses; a tree beyond a
  limit is never reported as one within them.
\<close>

theorem bounded_scan_complete:
  assumes "scan_directory_bounded lim root t = Inr sc" "scan_within lim sc" "\<not> ei_gone (entry_of t)"
  shows "sc_entries sc = length (below root t) \<and> sc_bytes sc = file_bytes (below root t)
     \<and> mset (sc_files sc) = (if sl_collect lim then mset (List.map fst (live_files (below root t))) else {#})
     \<and> (\<forall>(p, u) \<in> set (below root t). accepted_entry lim u)"
  using scan_pending_result [OF assms(1) [unfolded scan_directory_bounded_def] assms(2)] assms(3)
  by (simp add: scanned_def to_visit_def)

definition demo_file :: "string \<Rightarrow> int \<Rightarrow> disk_tree" where
  "demo_file n k = FileEntry \<lparr>ei_name = n, ei_symlink = False, ei_reparse = False, ei_streams = False,
                              ei_regular = True, ei_gone = False, ei_size = k\<rparr>"

definition scan_demo_dir :: "string \<Rightarrow> disk_tree list \<Rightarrow> disk_tree" where
  "scan_demo_dir n ts = DirEntry \<lparr>ei_name = n, ei_symlink = False, ei_reparse = False, ei_streams = False,
                             ei_regular = False, ei_gone = False, ei_size = 0\<rparr> ts"

definition demo_run_tree :: disk_tree where
  "demo_run_tree = scan_demo_dir ''run'' [demo_file ''a'' 3, scan_demo_dir ''d'' [demo_file ''b'' 4], demo_file ''c'' 5]"

definition demo_scan_limits :: scan_limits where
  "demo_scan_limits = \<lparr>sl_bytes = 20, sl_entries = 4, sl_collect = True, sl_no_streams = True, sl_no_reparse = True\<rparr>"

lemma bounded_scan_complete_witness:
  "length (below [''run''] demo_run_tree) = 4 \<and> file_bytes (below [''run''] demo_run_tree) = 12
   \<and> mset [[''run'', ''a''], [''run'', ''c''], [''run'', ''d'', ''b'']]
       = mset (List.map fst (live_files (below [''run''] demo_run_tree)))"
proof -
  have "scan_directory_bounded demo_scan_limits [''run''] demo_run_tree
      = Inr \<lparr>sc_bytes = 12, sc_entries = 4, sc_files = [[''run'', ''a''], [''run'', ''c''], [''run'', ''d'', ''b'']]\<rparr>"
    by code_simp
  moreover have "\<not> ei_gone (entry_of demo_run_tree)" by code_simp
  ultimately show ?thesis
    using bounded_scan_complete [of demo_scan_limits "[''run'']" demo_run_tree]
    by (simp add: scan_within_def demo_scan_limits_def)
qed

end
