(* ===== verification/Approval_Stage.thy ===== *)
theory Approval_Stage
  imports Scans Policy Changes "HOL-Library.AList"
begin

text \<open>
  What an approval is bound to (\<open>approval.py\<close>): the record of one file, the bounded copies of a
  workspace or a dependency, the inventories of a workspace and of Git metadata, and the arguments of a
  command that name files. A world is what one call sees of the machine; hashes, the identities of new
  files and the Unicode tables are parameters.
\<close>

section \<open>The world and the settings\<close>

record approval_world =
  aw_os :: os_env
  aw_tree :: "path \<Rightarrow> disk_tree list"
  aw_symlink :: "path \<Rightarrow> bool"
  aw_streams :: "path \<Rightarrow> bool"
  aw_environ :: "(string \<times> string) list"

record approval_settings =
  as_policy :: path_policy
  as_data_dir :: path
  as_scratch :: path
  as_max_files :: int
  as_max_bytes :: int
  as_max_data_dir :: int
  as_max_scratch :: int
  as_max_write :: int
  as_dependency_paths :: "path list"
  as_other :: string

record file_record =
  fr_path :: path
  fr_size :: int
  fr_sha :: string
  fr_device :: int
  fr_inode :: int
  fr_modified :: int
  fr_source :: "path option"
  fr_staged :: "path option"

record bound_file =
  bf_path :: string
  bf_size :: int
  bf_sha :: string
  bf_device :: int
  bf_inode :: int
  bf_modified :: int

text \<open>One entry of \<open>package_config.json\<close>: its name and root, with its other fields.\<close>

record dart_package =
  dp_name :: "string option"
  dp_root :: "string pyval"
  dp_rest :: string

record approval_env =
  ae_sha :: "bytes \<Rightarrow> string"
  ae_state_digest :: "string list \<Rightarrow> bound_file list \<Rightarrow> string"
  ae_git_digest :: "(string \<times> string \<times> int) list \<Rightarrow> string"
  ae_settings_digest :: "approval_settings \<Rightarrow> string"
  ae_environ_digest :: "(string \<times> string) list \<Rightarrow> string"
  ae_new_identity :: "path \<Rightarrow> path_identity"
  ae_process_cwd :: path
  ae_parse_packages :: "bytes \<Rightarrow> (dart_package option list pyval \<times> string) option"
  ae_render_packages :: "dart_package option list \<Rightarrow> string \<Rightarrow> bytes"
  ae_uri_scheme :: "string \<Rightarrow> string"
  ae_uri_path :: "string \<Rightarrow> string"
  ae_unquote :: "string \<Rightarrow> string"
  ae_as_uri :: "path \<Rightarrow> string"
  ae_isalnum :: "char \<Rightarrow> bool"
  ae_isalpha :: "char \<Rightarrow> bool"

definition path_of :: "string \<Rightarrow> path" where
  "path_of s = join_user [] s"

definition code_loaders :: "string list" where
  "code_loaders =
     [''python'', ''python3'', ''py'', ''pytest'', ''node'', ''npm'', ''npx'', ''dart'', ''flutter'',
      ''powershell'', ''pwsh'', ''cmd'', ''bash'', ''sh'']"

section \<open>Budgets\<close>

definition entry_limit :: "approval_settings \<Rightarrow> int" where
  "entry_limit st = max 128 (as_max_files st * 4)"

definition consume :: "approval_settings \<Rightarrow> int \<Rightarrow> int res" where
  "consume st used =
     (if entry_limit st < used + 1
      then Inl (ValueError ''approval staging filesystem entry used exceeds limit'') else Inr (used + 1))"

definition scratch_entry_limit :: "approval_settings \<Rightarrow> int" where
  "scratch_entry_limit st = max 1024 (as_max_scratch st div 4096)"

definition enforce_scratch_quota :: "approval_settings \<Rightarrow> disk_tree \<Rightarrow> bool \<Rightarrow> unit res" where
  "enforce_scratch_quota st scratch admission =
     rbind (scan_directory_bounded
              \<lparr>sl_bytes = as_max_scratch st, sl_entries = nat (scratch_entry_limit st), sl_collect = False,
               sl_no_streams = True, sl_no_reparse = True\<rparr> (as_scratch st) scratch) (\<lambda>usage.
       if admission
       then (if as_max_scratch st \<le> sc_bytes usage \<or> scratch_entry_limit st \<le> int (sc_entries usage)
             then Inl (RuntimeError ''sandbox scratch admission limit reached'') else Inr ())
       else (if as_max_scratch st < sc_bytes usage \<or> scratch_entry_limit st < int (sc_entries usage)
             then Inl (RuntimeError ''approval staging exceeds sandbox scratch resource limits'') else Inr ()))"

section \<open>The record of a file\<close>

definition plain_record :: "approval_env \<Rightarrow> path \<Rightarrow> bytes \<Rightarrow> path_identity \<Rightarrow> file_record" where
  "plain_record ae p data i =
     \<lparr>fr_path = p, fr_size = int (length data), fr_sha = ae_sha ae data, fr_device = device i,
      fr_inode = inode i, fr_modified = modified_ns i, fr_source = None, fr_staged = None\<rparr>"

definition record_file ::
  "approval_env \<Rightarrow> approval_world \<Rightarrow> path \<Rightarrow> int option \<Rightarrow> bool \<Rightarrow> file_record res" where
  "record_file ae aw p max_bytes allow_hardlinks =
     (if aw_symlink aw p \<or> \<not> os_is_file (aw_os aw) p
      then Inl (PermissionError ''approval input must be a regular non-reparse file'')
      else rbind (hold_verified_path (aw_os aw) False allow_hardlinks p) (\<lambda>held.
        let i = os_identity (aw_os aw) held in
        if \<not> allow_hardlinks \<and> 1 < os_nlink (aw_os aw) held
        then Inl (PermissionError ''approval input with multiple hard links is denied'')
        else if (case max_bytes of None \<Rightarrow> False | Some m \<Rightarrow> m < file_size i)
        then Inl (ValueError ''approval input exceeds byte limit'')
        else rbind (read_verified_bytes (aw_os aw) held (case max_bytes of None \<Rightarrow> file_size i | Some m \<Rightarrow> m)) (\<lambda>data.
          Inr (plain_record ae (os_resolve (aw_os aw) held) data i))))"

text \<open>The record of a copy that was just written below the staging directory.\<close>

definition staged_record :: "approval_env \<Rightarrow> path \<Rightarrow> bytes \<Rightarrow> path \<Rightarrow> file_record" where
  "staged_record ae target data source =
     (plain_record ae target data (ae_new_identity ae target))\<lparr>fr_source := Some source, fr_staged := Some target\<rparr>"

section \<open>Bounded copies\<close>

record copy_state =
  cs_records :: "file_record list"
  cs_writes :: "(path \<times> bytes) list"
  cs_total :: int
  cs_count :: int

definition excluded_directories :: "approval_world \<Rightarrow> approval_settings \<Rightarrow> string list" where
  "excluded_directories aw st =
     List.filter (\<lambda>n. n \<noteq> ''.dart_tool'') (List.map (casefold (aw_os aw)) (hidden_directories (as_policy st)))"

definition walked_directory :: "approval_world \<Rightarrow> approval_settings \<Rightarrow> disk_tree \<Rightarrow> bool" where
  "walked_directory aw st t \<longleftrightarrow>
     casefold (aw_os aw) (entry_name t) \<noteq> ''.git''
     \<and> casefold (aw_os aw) (entry_name t) \<notin> set (excluded_directories aw st)"

definition protected_input :: "approval_world \<Rightarrow> approval_settings \<Rightarrow> disk_tree \<Rightarrow> bool" where
  "protected_input aw st t \<longleftrightarrow>
     protected_name (List.map (casefold (aw_os aw)) (blocked_file_names (as_policy st))) (casefold (aw_os aw) (entry_name t))"

definition str_relative :: "string list \<Rightarrow> string" where
  "str_relative parts = (if parts = [] then ''.'' else join_with [backslash] parts)"

definition enter_directory :: "approval_settings \<Rightarrow> string \<Rightarrow> int \<Rightarrow> disk_tree \<Rightarrow> int res" where
  "enter_directory st complaint used t =
     rbind (consume st used) (\<lambda>n. if reparse_entry t then Inl (PermissionError complaint) else Inr n)"

definition stage_file ::
  "approval_env \<Rightarrow> approval_world \<Rightarrow> approval_settings \<Rightarrow> workspace \<Rightarrow> int \<Rightarrow> path \<Rightarrow> path
   \<Rightarrow> copy_state \<Rightarrow> disk_tree \<Rightarrow> copy_state res" where
  "stage_file ae aw st w initial here target_dir cs t =
     rbind (consume st (cs_count cs)) (\<lambda>n.
       if protected_input aw st t then Inr (cs\<lparr>cs_count := n\<rparr>)
       else rbind (relative_to (aw_os aw) (here @ [entry_name t]) (ws_root w)) (\<lambda>parts.
            rbind (resolve_existing (aw_os aw) w (str_relative parts) False ReadAccess True) (\<lambda>checked.
              let total = cs_total cs + file_size (os_identity (aw_os aw) checked) in
              if as_max_files st < int (length (cs_records cs)) + 1
              then Inl (ValueError ''approval input used exceeds approval_manifest_max_files'')
              else if as_max_bytes st < total
              then Inl (ValueError ''approval inputs exceed approval_manifest_max_bytes'')
              else if as_max_data_dir st < initial + total
              then Inl (RuntimeError ''data_dir quota exceeded while staging approval inputs'')
              else rbind (read_verified_bytes (aw_os aw) checked (as_max_bytes st)) (\<lambda>data.
                let target = target_dir @ [entry_name t] in
                Inr \<lparr>cs_records = cs_records cs @ [staged_record ae target data checked],
                     cs_writes = cs_writes cs @ [(target, data)], cs_total = total, cs_count = n\<rparr>))))"

definition stage_level ::
  "approval_env \<Rightarrow> approval_world \<Rightarrow> approval_settings \<Rightarrow> workspace \<Rightarrow> int \<Rightarrow> path \<Rightarrow> path
   \<Rightarrow> copy_state \<Rightarrow> walk_level \<Rightarrow> copy_state res" where
  "stage_level ae aw st w initial source destination cs level =
     (case level of (here, dirs, files) \<Rightarrow>
        rbind (rfold (enter_directory st ''approval input contains a reparse point'') (cs_count cs) dirs) (\<lambda>n.
        rfold (stage_file ae aw st w initial here (destination @ drop (length source) here)) (cs\<lparr>cs_count := n\<rparr>) files))"

definition data_bytes :: "approval_world \<Rightarrow> approval_settings \<Rightarrow> int" where
  "data_bytes aw st = directory_size (as_data_dir st) (aw_tree aw (as_data_dir st)) (Some (as_max_data_dir st))"

definition copy_tree_bounded ::
  "approval_env \<Rightarrow> approval_world \<Rightarrow> approval_settings \<Rightarrow> workspace \<Rightarrow> path \<Rightarrow> path \<Rightarrow> int \<Rightarrow> copy_state res" where
  "copy_tree_bounded ae aw st w source destination used =
     rfold (stage_level ae aw st w (data_bytes aw st) source destination)
       \<lparr>cs_records = [], cs_writes = [], cs_total = 0, cs_count = used\<rparr>
       (os_walk (walked_directory aw st) source (aw_tree aw source))"

definition copy_external_file ::
  "approval_env \<Rightarrow> approval_world \<Rightarrow> approval_settings \<Rightarrow> bool \<Rightarrow> int \<Rightarrow> path \<Rightarrow> path
   \<Rightarrow> copy_state \<Rightarrow> disk_tree \<Rightarrow> copy_state res" where
  "copy_external_file ae aw st charge initial here target_dir cs t =
     rbind (consume st (cs_count cs)) (\<lambda>n.
       if reparse_entry t \<or> \<not> os_is_file (aw_os aw) (here @ [entry_name t])
       then Inl (PermissionError ''external dependency contains a non-regular file'')
       else rbind (hold_verified_path (aw_os aw) False False (here @ [entry_name t])) (\<lambda>checked.
         if 1 < os_nlink (aw_os aw) checked
         then Inl (PermissionError ''external dependency contains a hard-linked file'')
         else let total = cs_total cs + file_size (os_identity (aw_os aw) checked) in
              if as_max_files st < int (length (cs_records cs)) + 1
              then Inl (ValueError ''external dependencies exceed approval_manifest_max_files'')
              else if as_max_bytes st < total
              then Inl (ValueError ''external dependencies exceed approval_manifest_max_bytes'')
              else if charge \<and> as_max_data_dir st < initial + total
              then Inl (RuntimeError ''data_dir quota exceeded while staging dependencies'')
              else rbind (read_verified_bytes (aw_os aw) checked (as_max_bytes st)) (\<lambda>data.
                let target = target_dir @ [entry_name t] in
                Inr \<lparr>cs_records = cs_records cs @ [staged_record ae target data checked],
                     cs_writes = cs_writes cs @ [(target, data)], cs_total = total, cs_count = n\<rparr>)))"

definition copy_external_tree_bounded ::
  "approval_env \<Rightarrow> approval_world \<Rightarrow> approval_settings \<Rightarrow> bool \<Rightarrow> path \<Rightarrow> path \<Rightarrow> int \<Rightarrow> copy_state res" where
  "copy_external_tree_bounded ae aw st charge source destination used =
     (let initial = (if charge then data_bytes aw st else 0) in
      rfold (\<lambda>cs (here, dirs, files).
          rbind (rfold (enter_directory st ''external dependency contains a reparse point'') (cs_count cs) dirs) (\<lambda>n.
          rfold (copy_external_file ae aw st charge initial here (destination @ drop (length source) here))
            (cs\<lparr>cs_count := n\<rparr>) files))
        \<lparr>cs_records = [], cs_writes = [], cs_total = 0, cs_count = used\<rparr>
        (os_walk (\<lambda>_. True) source (aw_tree aw source)))"

section \<open>The binding of the live workspace\<close>

definition listing_key :: "approval_world \<Rightarrow> disk_tree \<Rightarrow> string \<times> string" where
  "listing_key aw t = (casefold (aw_os aw) (entry_name t), entry_name t)"

fun sort_tree :: "approval_world \<Rightarrow> disk_tree \<Rightarrow> disk_tree" where
  "sort_tree aw (FileEntry i) = FileEntry i"
| "sort_tree aw (DirEntry i ts) = DirEntry i (sort_key (listing_key aw) (List.map (sort_tree aw) ts))"

record binding_state =
  bs_directories :: "string list"
  bs_files :: "bound_file list"
  bs_bytes :: int
  bs_count :: int

definition write_denied :: "approval_world \<Rightarrow> approval_settings \<Rightarrow> disk_tree \<Rightarrow> bool" where
  "write_denied aw st t \<longleftrightarrow>
     casefold (aw_os aw) (entry_name t) \<in> set (List.map (casefold (aw_os aw)) (write_denied_directories (as_policy st)))"

definition bind_directory ::
  "approval_world \<Rightarrow> approval_settings \<Rightarrow> path \<Rightarrow> path \<Rightarrow> binding_state \<Rightarrow> disk_tree \<Rightarrow> binding_state res" where
  "bind_directory aw st root here bs t =
     rbind (consume st (bs_count bs)) (\<lambda>n.
       if write_denied aw st t then Inr (bs\<lparr>bs_count := n\<rparr>)
       else if reparse_entry t
       then Inl (PermissionError ''mutable workspace binding contains a reparse point'')
       else Inr (bs\<lparr>bs_count := n,
                    bs_directories := bs_directories bs
                      @ [join_with ''/'' (drop (length root) here @ [entry_name t])]\<rparr>))"

definition bind_file ::
  "approval_env \<Rightarrow> approval_world \<Rightarrow> approval_settings \<Rightarrow> workspace \<Rightarrow> path \<Rightarrow> path
   \<Rightarrow> binding_state \<Rightarrow> disk_tree \<Rightarrow> binding_state res" where
  "bind_file ae aw st w root here bs t =
     rbind (consume st (bs_count bs)) (\<lambda>n.
       if protected_input aw st t then Inr (bs\<lparr>bs_count := n\<rparr>)
       else let relative = join_with ''/'' (drop (length root) here @ [entry_name t]) in
            rbind (resolve_existing (aw_os aw) w relative False WriteAccess True) (\<lambda>checked.
              let i = os_identity (aw_os aw) checked; total = bs_bytes bs + file_size i in
              if as_max_files st < int (length (bs_files bs)) + 1
              then Inl (ValueError ''mutable workspace binding exceeds approval_manifest_max_files'')
              else if as_max_bytes st < total
              then Inl (ValueError ''mutable workspace binding exceeds approval_manifest_max_bytes'')
              else rbind (read_verified_bytes (aw_os aw) checked (as_max_bytes st)) (\<lambda>data.
                Inr (bs\<lparr>bs_count := n, bs_bytes := total,
                        bs_files := bs_files bs
                          @ [\<lparr>bf_path = relative, bf_size = int (length data), bf_sha = ae_sha ae data,
                              bf_device = device i, bf_inode = inode i, bf_modified = modified_ns i\<rparr>]\<rparr>))))"

record workspace_binding =
  wb_root :: path
  wb_digest :: string
  wb_directories :: nat
  wb_files :: nat
  wb_bytes :: int

definition workspace_listing ::
  "approval_env \<Rightarrow> approval_world \<Rightarrow> approval_settings \<Rightarrow> workspace \<Rightarrow> path \<Rightarrow> binding_state res" where
  "workspace_listing ae aw st w root =
     rfold (\<lambda>bs (here, dirs, files).
         rbind (rfold (bind_directory aw st root here) bs dirs) (\<lambda>bs'.
           rfold (bind_file ae aw st w root here) bs' files))
       \<lparr>bs_directories = [], bs_files = [], bs_bytes = 0, bs_count = 0\<rparr>
       (os_walk (\<lambda>t. \<not> write_denied aw st t) root
          (sort_key (listing_key aw) (List.map (sort_tree aw) (aw_tree aw root))))"

definition mutable_workspace_binding ::
  "approval_env \<Rightarrow> approval_world \<Rightarrow> approval_settings \<Rightarrow> workspace \<Rightarrow> path \<Rightarrow> workspace_binding res" where
  "mutable_workspace_binding ae aw st w source =
     (case os_resolve_strict (aw_os aw) source of
        None \<Rightarrow> Inl (FileNotFound ''approval workspace'')
      | Some root \<Rightarrow>
          if \<not> path_eq (aw_os aw) root (ws_root w)
          then Inl (RuntimeError ''approval workspace binding root does not match workspace_root'')
          else rbind (workspace_listing ae aw st w root) (\<lambda>bs.
            Inr \<lparr>wb_root = root, wb_digest = ae_state_digest ae (bs_directories bs) (bs_files bs),
                 wb_directories = length (bs_directories bs), wb_files = length (bs_files bs),
                 wb_bytes = bs_bytes bs\<rparr>))"

section \<open>The inventory of a source workspace\<close>

type_synonym inventory = "(path \<times> string \<times> int) list"

record inventory_state =
  iv_items :: inventory
  iv_total :: int
  iv_files :: int
  iv_count :: int

definition inventory_file ::
  "approval_env \<Rightarrow> approval_world \<Rightarrow> approval_settings \<Rightarrow> workspace \<Rightarrow> path \<Rightarrow> inventory_state \<Rightarrow> disk_tree
   \<Rightarrow> inventory_state res" where
  "inventory_file ae aw st w here iv t =
     rbind (consume st (iv_count iv)) (\<lambda>n.
       if protected_input aw st t then Inr (iv\<lparr>iv_count := n\<rparr>)
       else rbind (relative_to (aw_os aw) (here @ [entry_name t]) (ws_root w)) (\<lambda>parts.
            rbind (resolve_existing (aw_os aw) w (str_relative parts) False ReadAccess True) (\<lambda>checked.
              let size = file_size (os_identity (aw_os aw) checked); total = iv_total iv + size in
              if as_max_files st < iv_files iv + 1
              then Inl (ValueError ''workspace inventory exceeds approval_manifest_max_files'')
              else if as_max_bytes st < total
              then Inl (ValueError ''workspace inventory exceeds approval_manifest_max_bytes'')
              else rbind (read_verified_bytes (aw_os aw) checked (as_max_bytes st)) (\<lambda>data.
                Inr \<lparr>iv_items = AList.update checked (ae_sha ae data, size) (iv_items iv),
                     iv_total = total, iv_files = iv_files iv + 1, iv_count = n\<rparr>))))"

definition inventory_level ::
  "approval_env \<Rightarrow> approval_world \<Rightarrow> approval_settings \<Rightarrow> workspace \<Rightarrow> inventory_state \<Rightarrow> walk_level
   \<Rightarrow> inventory_state res" where
  "inventory_level ae aw st w iv level =
     (case level of (here, dirs, files) \<Rightarrow>
        rbind (rfold (\<lambda>n _. consume st n) (iv_count iv) dirs) (\<lambda>n.
          if list_ex (\<lambda>t. walked_directory aw st t \<and> ei_symlink (entry_of t)) dirs
          then Inl (PermissionError ''workspace inventory contains a reparse point'')
          else rfold (inventory_file ae aw st w here) (iv\<lparr>iv_count := n\<rparr>) files))"

definition source_inventory ::
  "approval_env \<Rightarrow> approval_world \<Rightarrow> approval_settings \<Rightarrow> workspace \<Rightarrow> path \<Rightarrow> inventory res" where
  "source_inventory ae aw st w source =
     rbind (rfold (inventory_level ae aw st w) \<lparr>iv_items = [], iv_total = 0, iv_files = 0, iv_count = 0\<rparr>
              (os_walk (walked_directory aw st) source (aw_tree aw source)))
       (\<lambda>iv. Inr (iv_items iv))"

text \<open>Two dictionaries are equal when they have the same items.\<close>

definition dict_eq :: "inventory \<Rightarrow> inventory \<Rightarrow> bool" where
  "dict_eq a b \<longleftrightarrow> set a = set b"

section \<open>Git metadata\<close>

fun find_git_marker :: "approval_world \<Rightarrow> path \<Rightarrow> nat \<Rightarrow> path \<Rightarrow> path res" where
  "find_git_marker aw root n current =
     (let marker = current @ [''.git''] in
      if os_exists (aw_os aw) marker \<or> aw_symlink aw marker
      then (if os_lstat_reparse (aw_os aw) marker \<or> \<not> os_is_dir (aw_os aw) marker
            then Inl (PermissionError ''Git approval requires an in-workspace .git directory'')
            else rbind (hold_verified_path (aw_os aw) True True marker) (\<lambda>held.
                 case relative_to (aw_os aw) held root of
                   Inl _ \<Rightarrow> Inl (PermissionError ''Git repository metadata escapes workspace_root'')
                 | Inr _ \<Rightarrow> Inr held))
      else case n of
             0 \<Rightarrow> Inl (PermissionError ''Git approval requires repository metadata inside workspace_root'')
           | Suc k \<Rightarrow> find_git_marker aw root k (path_parent current))"

definition git_metadata_root :: "approval_world \<Rightarrow> approval_settings \<Rightarrow> normalized_command \<Rightarrow> path res" where
  "git_metadata_root aw st c =
     (case (os_resolve_strict (aw_os aw) (workspace_root (as_policy st)),
            os_resolve_strict (aw_os aw) (path_of (nc_cwd c))) of
        (Some root, Some current) \<Rightarrow>
          (case relative_to (aw_os aw) current root of
             Inl _ \<Rightarrow> Inl (PermissionError ''Git approval cwd escapes workspace_root'')
           | Inr parts \<Rightarrow> find_git_marker aw root (length parts) current)
      | _ \<Rightarrow> Inl (FileNotFound ''workspace''))"

record git_state =
  gs_items :: "(string \<times> string \<times> int) list"
  gs_total :: int
  gs_files :: int
  gs_count :: int

definition git_file ::
  "approval_env \<Rightarrow> approval_world \<Rightarrow> approval_settings \<Rightarrow> path \<Rightarrow> path \<Rightarrow> git_state \<Rightarrow> disk_tree \<Rightarrow> git_state res" where
  "git_file ae aw st metadata_root here gs t =
     rbind (consume st (gs_count gs)) (\<lambda>n.
       if reparse_entry t \<or> \<not> os_is_file (aw_os aw) (here @ [entry_name t])
       then Inl (PermissionError ''Git repository metadata contains a non-regular file'')
       else rbind (hold_verified_path (aw_os aw) False False (here @ [entry_name t])) (\<lambda>checked.
         let total = gs_total gs + file_size (os_identity (aw_os aw) checked) in
         if as_max_files st < gs_files gs + 1
         then Inl (ValueError ''Git repository metadata exceeds approval_manifest_max_files'')
         else if as_max_bytes st < total
         then Inl (ValueError ''Git repository metadata exceeds approval_manifest_max_bytes'')
         else rbind (read_verified_bytes (aw_os aw) checked (as_max_bytes st)) (\<lambda>data.
              rbind (relative_to (aw_os aw) checked metadata_root) (\<lambda>parts.
                Inr \<lparr>gs_items = AList.update (posix_or_dot parts) (ae_sha ae data, int (length data)) (gs_items gs),
                     gs_total = total, gs_files = gs_files gs + 1, gs_count = n\<rparr>))))"

definition git_metadata_inventory ::
  "approval_env \<Rightarrow> approval_world \<Rightarrow> approval_settings \<Rightarrow> path \<Rightarrow> (string \<times> string \<times> int) list res" where
  "git_metadata_inventory ae aw st metadata_root =
     rbind (rfold (\<lambda>gs (here, dirs, files).
              rbind (rfold (enter_directory st ''Git repository metadata contains a reparse point'') (gs_count gs) dirs) (\<lambda>n.
                rfold (git_file ae aw st metadata_root here) (gs\<lparr>gs_count := n\<rparr>) files))
            \<lparr>gs_items = [], gs_total = 0, gs_files = 0, gs_count = 0\<rparr>
            (os_walk (\<lambda>_. True) metadata_root (aw_tree aw metadata_root)))
       (\<lambda>gs. Inr (gs_items gs))"

text \<open>The second inventory may see another state of the machine than the first.\<close>

definition capture_git_state ::
  "approval_env \<Rightarrow> approval_world \<Rightarrow> approval_world \<Rightarrow> approval_settings \<Rightarrow> normalized_command \<Rightarrow> (string \<times> string) res" where
  "capture_git_state ae aw later st c =
     rbind (git_metadata_root aw st c) (\<lambda>metadata_root.
     rbind (git_metadata_inventory ae aw st metadata_root) (\<lambda>first.
     rbind (git_metadata_inventory ae later st metadata_root) (\<lambda>second.
       if set first \<noteq> set second
       then Inl (RuntimeError ''Git repository metadata changed while approval state was captured'')
       else case os_resolve_strict (aw_os later) (workspace_root (as_policy st)) of
              None \<Rightarrow> Inl (FileNotFound ''workspace'')
            | Some root \<Rightarrow>
                rbind (relative_to (aw_os later) metadata_root root) (\<lambda>parts.
                  Inr (posix_or_dot parts, ae_git_digest ae first)))))"

section \<open>Arguments that name files\<close>

text \<open>\<open>value.split("=", 1)\<close> of an option.\<close>

definition split_option_path :: "string \<Rightarrow> string \<times> string" where
  "split_option_path v =
     (if starts_with ''-'' v
      then (case split_at (CHR ''='') v of None \<Rightarrow> ([], v) | Some (option, candidate) \<Rightarrow> (option @ ''='', candidate))
      else ([], v))"

definition rewrite_workspace_argument :: "approval_world \<Rightarrow> path \<Rightarrow> path \<Rightarrow> string \<Rightarrow> string" where
  "rewrite_workspace_argument aw source_cwd staged_cwd v =
     (case split_option_path v of (prefix, candidate) \<Rightarrow>
        case os_resolve_strict (aw_os aw) (join_user source_cwd candidate) of
          None \<Rightarrow> v
        | Some resolved \<Rightarrow>
            (case relative_to (aw_os aw) resolved source_cwd of
               Inl _ \<Rightarrow> v
             | Inr parts \<Rightarrow> prefix @ path_str (staged_cwd @ parts)))"

definition embedded_absolute :: "approval_env \<Rightarrow> string \<Rightarrow> bool" where
  "embedded_absolute ae v \<longleftrightarrow>
     (3 \<le> length v \<and> ae_isalpha ae (v ! 0) \<and> v ! 1 = CHR '':'' \<and> v ! 2 \<in> {backslash, CHR ''/''})
     \<or> starts_with [backslash, backslash] v \<or> starts_with ''//'' v"

definition external_argument ::
  "approval_env \<Rightarrow> approval_world \<Rightarrow> workspace \<Rightarrow> path \<Rightarrow> bool \<Rightarrow> file_record list \<Rightarrow> string \<Rightarrow> file_record list res" where
  "external_argument ae aw w cwd code_loader records v =
     (let candidate = snd (split_option_path v) in
      case os_resolve_strict (aw_os aw) (join_user cwd candidate) of
        None \<Rightarrow>
          if code_loader \<and> embedded_absolute ae candidate
          then Inl (PermissionError ''code-loader arguments may not contain unbound absolute paths'')
          else Inr records
      | Some resolved \<Rightarrow>
          (case relative_to (aw_os aw) resolved (ws_root w) of
             Inr _ \<Rightarrow> Inr records
           | Inl _ \<Rightarrow>
               if code_loader
               then Inl (PermissionError ''code-loader input outside workspace cannot be completely enumerated'')
               else if \<not> os_is_file (aw_os aw) resolved
               then Inl (PermissionError ''external directory input cannot be completely enumerated'')
               else rbind (record_file ae aw resolved None False) (\<lambda>r. Inr (records @ [r]))))"

definition validate_external_arguments ::
  "approval_env \<Rightarrow> approval_world \<Rightarrow> workspace \<Rightarrow> path \<Rightarrow> bool \<Rightarrow> string list \<Rightarrow> file_record list res" where
  "validate_external_arguments ae aw w cwd code_loader args =
     rfold (external_argument ae aw w cwd code_loader) [] args"

section \<open>Dart packages\<close>

text \<open>\<open>f"{index:04d}-{safe_name}"\<close>.\<close>

definition four_digits :: "nat \<Rightarrow> string" where
  "four_digits n = (let d = List.map char_of (decimal n) in replicate (4 - length d) (CHR ''0'') @ d)"

definition package_directory :: "approval_env \<Rightarrow> nat \<Rightarrow> string option \<Rightarrow> string" where
  "package_directory ae index name =
     (let text_name = (case name of Some n \<Rightarrow> n | None \<Rightarrow> ''package-'' @ List.map char_of (decimal index)) in
      four_digits index @ ''-''
      @ List.map (\<lambda>c. if ae_isalnum ae c \<or> c = CHR ''-'' \<or> c = CHR ''_'' then c else CHR ''_'') text_name)"

text \<open>\<open>Path(unquote(...))\<close> of a file URI, whose path begins with a slash before the drive.\<close>

definition file_uri_path :: "approval_env \<Rightarrow> string \<Rightarrow> path" where
  "file_uri_path ae uri =
     (let u = ae_uri_path ae uri in
      join_user (ae_process_cwd ae) (ae_unquote ae (if starts_with ''/'' u then tl u else u)))"

definition directory_uri :: "approval_env \<Rightarrow> path \<Rightarrow> string" where
  "directory_uri ae p = rstrip ''/'' (ae_as_uri ae p) @ ''/''"

record dart_state =
  ds_copied :: "(path \<times> path) list"
  ds_records :: "file_record list"
  ds_writes :: "(path \<times> bytes) list"
  ds_count :: int
  ds_items :: "dart_package option list"

definition dart_dependency :: "approval_env \<Rightarrow> approval_world \<Rightarrow> path \<Rightarrow> string \<Rightarrow> path res" where
  "dart_dependency ae aw config_dir root_uri =
     (if ae_uri_scheme ae root_uri \<noteq> [] \<and> ae_uri_scheme ae root_uri \<noteq> ''file''
      then Inl (PermissionError ''non-file Dart package dependency is denied'')
      else let named = (if ae_uri_scheme ae root_uri = ''file'' then file_uri_path ae root_uri
                        else join_user config_dir (ae_unquote ae (ae_uri_path ae root_uri)))
           in case os_resolve_strict (aw_os aw) named of
                None \<Rightarrow> Inl (FileNotFound ''Dart package dependency'')
              | Some d \<Rightarrow>
                  if \<not> os_is_dir (aw_os aw) d \<or> os_lstat_reparse (aw_os aw) d
                  then Inl (PermissionError ''Dart package dependency is not a stable directory'')
                  else Inr d)"

definition copy_dependency ::
  "approval_env \<Rightarrow> approval_world \<Rightarrow> approval_settings \<Rightarrow> workspace \<Rightarrow> path \<Rightarrow> path \<Rightarrow> int \<Rightarrow> copy_state res" where
  "copy_dependency ae aw st w d staged used =
     (case relative_to (aw_os aw) d (ws_root w) of
        Inr _ \<Rightarrow> copy_tree_bounded ae aw st w d staged used
      | Inl _ \<Rightarrow>
          if \<not> list_ex (\<lambda>allowed. case relative_to (aw_os aw) d allowed of Inr _ \<Rightarrow> True | Inl _ \<Rightarrow> False)
                 (as_dependency_paths st)
          then Inl (PermissionError ''external Dart package dependency is outside configured paths'')
          else copy_external_tree_bounded ae aw st True d staged used)"

definition stage_package ::
  "approval_env \<Rightarrow> approval_world \<Rightarrow> approval_settings \<Rightarrow> workspace \<Rightarrow> path \<Rightarrow> path \<Rightarrow> path
   \<Rightarrow> dart_state \<Rightarrow> nat \<times> dart_package option \<Rightarrow> dart_state res" where
  "stage_package ae aw st w source_cwd config_dir dependency_root ds entry =
     (case entry of (index, item) \<Rightarrow>
        case item of
          None \<Rightarrow> Inl (TypeError ''Dart package_config.json contains an invalid package entry'')
        | Some pk \<Rightarrow>
            (case dp_root pk of
               Py root_uri \<Rightarrow>
                 rbind (dart_dependency ae aw config_dir root_uri) (\<lambda>d.
                 case relative_to (aw_os aw) d source_cwd of
                   Inr _ \<Rightarrow> Inr (ds\<lparr>ds_items := ds_items ds @ [Some pk]\<rparr>)
                 | Inl _ \<Rightarrow>
                     let staged = dependency_root @ [package_directory ae index (dp_name pk)];
                         known = List.find (\<lambda>(k, _). path_eq (aw_os aw) k d) (ds_copied ds) in
                     (case known of
                        Some (_, target) \<Rightarrow>
                          Inr (ds\<lparr>ds_items := ds_items ds @ [Some (pk\<lparr>dp_root := Py (directory_uri ae target)\<rparr>)]\<rparr>)
                      | None \<Rightarrow>
                          rbind (copy_dependency ae aw st w d staged (ds_count ds)) (\<lambda>cs.
                            Inr \<lparr>ds_copied = ds_copied ds @ [(d, staged)], ds_records = ds_records ds @ cs_records cs,
                                 ds_writes = ds_writes ds @ cs_writes cs, ds_count = cs_count cs,
                                 ds_items = ds_items ds @ [Some (pk\<lparr>dp_root := Py (directory_uri ae staged)\<rparr>)]\<rparr>)))
             | _ \<Rightarrow> Inl (TypeError ''Dart package_config.json contains an invalid package entry'')))"

text \<open>The record of a staged file is replaced in place.\<close>

fun refresh_staged_record :: "approval_env \<Rightarrow> approval_world \<Rightarrow> path \<Rightarrow> bytes \<Rightarrow> file_record list \<Rightarrow> file_record list res" where
  "refresh_staged_record ae aw staged data [] =
     Inl (RuntimeError ''staged package_config.json was not present in the manifest'')"
| "refresh_staged_record ae aw staged data (r # rs) =
     (if (case fr_staged r of Some p \<Rightarrow> path_eq (aw_os aw) p staged | None \<Rightarrow> False)
      then Inr ((plain_record ae staged data (ae_new_identity ae staged))\<lparr>fr_source := fr_source r, fr_staged := fr_staged r\<rparr> # rs)
      else rbind (refresh_staged_record ae aw staged data rs) (\<lambda>rs'. Inr (r # rs')))"

text \<open>The new records of the dependencies, and the records of the workspace with the changed one.\<close>

definition stage_dart_dependencies ::
  "approval_env \<Rightarrow> approval_world \<Rightarrow> approval_settings \<Rightarrow> workspace \<Rightarrow> path \<Rightarrow> path \<Rightarrow> path \<Rightarrow> copy_state \<Rightarrow> copy_state res" where
  "stage_dart_dependencies ae aw st w source_cwd staged_cwd stage_root cs =
     (let source_config = source_cwd @ [''.dart_tool'', ''package_config.json''];
          staged_config = staged_cwd @ [''.dart_tool'', ''package_config.json'']
      in if \<not> os_exists (aw_os aw) source_config then Inr cs
         else rbind (relative_to (aw_os aw) source_config (ws_root w)) (\<lambda>parts.
              rbind (resolve_existing (aw_os aw) w (str_relative parts) False ReadAccess True) (\<lambda>checked.
              rbind (read_verified_bytes (aw_os aw) checked (as_max_bytes st)) (\<lambda>data.
              case ae_parse_packages ae data of
                None \<Rightarrow> Inl (ValueError ''invalid Dart package_config.json'')
              | Some (Py packages, rest) \<Rightarrow>
                  rbind (rfold (stage_package ae aw st w source_cwd (path_parent checked) (stage_root @ [''dependencies'']))
                           \<lparr>ds_copied = [], ds_records = [], ds_writes = [], ds_count = cs_count cs, ds_items = []\<rparr>
                           (zip [0..<length packages] packages)) (\<lambda>ds.
                  let rendered_config = ae_render_packages ae (ds_items ds) rest in
                  rbind (refresh_staged_record ae aw staged_config rendered_config (cs_records cs)) (\<lambda>records.
                  Inr (cs\<lparr>cs_records := records @ ds_records ds, cs_count := ds_count ds,
                          cs_writes := cs_writes cs @ ds_writes ds @ [(staged_config, rendered_config)]\<rparr>)))
              | Some (_, rest) \<Rightarrow> Inl (TypeError ''Dart package_config.json has no packages array'')))))"

definition enforce_manifest_totals :: "approval_settings \<Rightarrow> file_record list \<Rightarrow> unit res" where
  "enforce_manifest_totals st records =
     (if as_max_files st < int (length records)
      then Inl (ValueError ''approval inputs exceed approval_manifest_max_files'')
      else if as_max_bytes st < sum_list (List.map fr_size records)
      then Inl (ValueError ''approval inputs exceed approval_manifest_max_bytes'')
      else Inr ())"

end
