(* ===== verification/Approvals.thy ===== *)
theory Approvals
  imports Approval_Stage
begin

text \<open>
  Approval bundles (\<open>approval.py\<close>): a request is bound to a manifest of everything that decides what
  an approved command does, the manifest is verified again when the request is shown, approved and
  executed, the command runs in a disposable copy, and what it changed there is collected.
\<close>

section \<open>Manifests\<close>

record approval_manifest =
  mf_version :: int
  mf_operation :: string
  mf_executable :: file_record
  mf_settings :: string
  mf_environment :: string
  mf_mode :: string
  mf_inputs :: "file_record list"
  mf_stage_root :: path
  mf_external :: "file_record list"
  mf_workspace_write :: bool
  mf_source_workspace :: "path option"
  mf_staged_workspace :: "path option"
  mf_source_cwd :: "path option"
  mf_staged_cwd :: "path option"
  mf_binding :: "workspace_binding option"
  mf_git :: "(string \<times> string) option"
  mf_execution :: normalized_command

record bundle_env =
  be_env :: approval_env
  be_digest :: "approval_manifest \<Rightarrow> string"

definition environment_keys :: "string list" where
  "environment_keys =
     [''path'', ''pathext'', ''systemroot'', ''comspec'', ''temp'', ''tmp'', ''userprofile'', ''home'',
      ''appdata'', ''localappdata'', ''pub_cache'', ''flutter_root'', ''android_home'',
      ''android_sdk_root'', ''java_home'', ''local_mcp_config'', ''local_mcp_root'', ''local_mcp_transport'']"

definition environment_digest :: "bundle_env \<Rightarrow> approval_world \<Rightarrow> string" where
  "environment_digest be aw =
     ae_environ_digest (be_env be)
       (List.filter (\<lambda>(k, _). casefold (aw_os aw) k \<in> set environment_keys) (aw_environ aw))"

definition tree_at :: "approval_world \<Rightarrow> path \<Rightarrow> disk_tree" where
  "tree_at aw p =
     DirEntry \<lparr>ei_name = path_name p, ei_symlink = aw_symlink aw p, ei_reparse = os_lstat_reparse (aw_os aw) p,
               ei_streams = aw_streams aw p, ei_regular = False, ei_gone = \<not> os_exists (aw_os aw) p, ei_size = 0\<rparr>
       (aw_tree aw p)"

definition scratch_quota :: "approval_world \<Rightarrow> approval_settings \<Rightarrow> bool \<Rightarrow> unit res" where
  "scratch_quota aw st admission = enforce_scratch_quota st (tree_at aw (as_scratch st)) admission"

definition manifest_root :: "approval_settings \<Rightarrow> string \<Rightarrow> path" where
  "manifest_root st oper = as_data_dir st @ [''approval-staging'', oper]"

definition stage_root :: "approval_settings \<Rightarrow> string \<Rightarrow> path" where
  "stage_root st oper = as_scratch st @ [''approval-inputs'', oper]"

section \<open>Preparing a bundle\<close>

text \<open>\<open>any(root_text in value.casefold() for value in execution.args)\<close>.\<close>

definition embeds_workspace :: "approval_world \<Rightarrow> path \<Rightarrow> string list \<Rightarrow> bool" where
  "embeds_workspace aw root args \<longleftrightarrow>
     list_ex (\<lambda>v. contains_sub (casefold (aw_os aw) (path_str root)) (casefold (aw_os aw) v)) args"

definition with_dependencies ::
  "bundle_env \<Rightarrow> approval_world \<Rightarrow> approval_settings \<Rightarrow> workspace \<Rightarrow> normalized_command \<Rightarrow> path \<Rightarrow> path \<Rightarrow> path
   \<Rightarrow> copy_state \<Rightarrow> copy_state res" where
  "with_dependencies be aw st w c source_cwd staged_cwd root cs =
     (if nc_program_key c = ''dart'' \<or> nc_program_key c = ''flutter''
      then stage_dart_dependencies (be_env be) aw st w source_cwd staged_cwd root cs
      else Inr cs)"

text \<open>A copy of the whole workspace, in which the command will run.\<close>

definition snapshot_bundle ::
  "bundle_env \<Rightarrow> approval_world \<Rightarrow> approval_settings \<Rightarrow> workspace \<Rightarrow> normalized_command \<Rightarrow> bool \<Rightarrow> path
   \<Rightarrow> approval_manifest \<Rightarrow> (approval_manifest \<times> (path \<times> bytes) list) res" where
  "snapshot_bundle be aw st w c workspace_write root m =
     (case os_resolve_strict (aw_os aw) (path_of (nc_cwd c)) of
        None \<Rightarrow> Inl (FileNotFound ''cwd'')
      | Some source_cwd \<Rightarrow>
          rbind (relative_to (aw_os aw) source_cwd (ws_root w)) (\<lambda>relative_cwd.
          let staged_workspace = root @ [''workspace'']; staged_cwd = staged_workspace @ relative_cwd in
          rbind (copy_tree_bounded (be_env be) aw st w (ws_root w) staged_workspace 0) (\<lambda>cs.
          if \<not> list_ex (\<lambda>(here, _, _). here = ws_root w @ relative_cwd)
                 (os_walk (walked_directory aw st) (ws_root w) (aw_tree aw (ws_root w)))
          then Inl (RuntimeError ''Sandbox snapshot does not contain the requested cwd'')
          else let execution = c\<lparr>nc_cwd := path_str staged_cwd,
                                 nc_args := List.map (rewrite_workspace_argument aw (ws_root w) staged_workspace) (nc_args c)\<rparr>
               in rbind (with_dependencies be aw st w c source_cwd staged_cwd root cs) (\<lambda>cs'.
                  rbind (enforce_manifest_totals st (cs_records cs')) (\<lambda>_.
                  rbind (mutable_workspace_binding (be_env be) aw st w (ws_root w)) (\<lambda>binding.
                  if embeds_workspace aw (ws_root w) (nc_args execution)
                  then Inl (PermissionError ''embedded workspace paths cannot be safely rewritten'')
                  else Inr (m\<lparr>mf_mode := (if workspace_write then ''staged-sandbox-workspace-write''
                                         else ''staged-sandbox-workspace''),
                              mf_source_workspace := Some (ws_root w), mf_staged_workspace := Some staged_workspace,
                              mf_source_cwd := Some source_cwd, mf_staged_cwd := Some staged_cwd,
                              mf_inputs := cs_records cs', mf_binding := Some binding,
                              mf_execution := execution\<rparr>, cs_writes cs')))))))"

text \<open>A copy of the directory a code loader runs in.\<close>

definition cwd_bundle ::
  "bundle_env \<Rightarrow> approval_world \<Rightarrow> approval_settings \<Rightarrow> workspace \<Rightarrow> normalized_command \<Rightarrow> bool \<Rightarrow> path
   \<Rightarrow> approval_manifest \<Rightarrow> (approval_manifest \<times> (path \<times> bytes) list) res" where
  "cwd_bundle be aw st w c workspace_write root m =
     (let source_cwd = path_of (nc_cwd c); staged_cwd = root @ [''cwd''] in
      rbind (copy_tree_bounded (be_env be) aw st w source_cwd staged_cwd 0) (\<lambda>cs.
      let execution = c\<lparr>nc_cwd := path_str staged_cwd,
                        nc_args := List.map (rewrite_workspace_argument aw source_cwd staged_cwd) (nc_args c)\<rparr>
      in rbind (with_dependencies be aw st w c source_cwd staged_cwd root cs) (\<lambda>cs'.
         rbind (enforce_manifest_totals st (cs_records cs')) (\<lambda>_.
         rbind (mutable_workspace_binding (be_env be) aw st w (ws_root w)) (\<lambda>binding.
         if embeds_workspace aw (ws_root w) (nc_args execution)
         then Inl (PermissionError ''embedded workspace paths cannot be safely rewritten'')
         else Inr (m\<lparr>mf_mode := (if workspace_write then ''staged-workspace-write'' else ''staged-cwd''),
                     mf_source_cwd := Some source_cwd, mf_staged_cwd := Some staged_cwd,
                     mf_inputs := cs_records cs', mf_binding := Some binding,
                     mf_execution := execution\<rparr>, cs_writes cs'))))))"

text \<open>A command that runs in the workspace itself; the copy is evidence.\<close>

definition source_bundle ::
  "bundle_env \<Rightarrow> approval_world \<Rightarrow> approval_world \<Rightarrow> approval_settings \<Rightarrow> workspace \<Rightarrow> normalized_command \<Rightarrow> path
   \<Rightarrow> approval_manifest \<Rightarrow> (approval_manifest \<times> (path \<times> bytes) list) res" where
  "source_bundle be aw later st w c root m =
     rbind (copy_tree_bounded (be_env be) aw st w (ws_root w) (root @ [''workspace'']) 0) (\<lambda>cs.
     let m' = m\<lparr>mf_inputs := cs_records cs, mf_source_workspace := Some (ws_root w),
               mf_staged_workspace := Some (root @ [''workspace''])\<rparr>
     in if nc_program_key c = ''git''
        then rbind (capture_git_state (be_env be) aw later st c) (\<lambda>g.
             Inr (m'\<lparr>mf_mode := ''git-state-source-workspace'', mf_git := Some g\<rparr>, cs_writes cs))
        else Inr (m', cs_writes cs))"

definition stage_bundle ::
  "bundle_env \<Rightarrow> approval_world \<Rightarrow> approval_world \<Rightarrow> approval_settings \<Rightarrow> workspace \<Rightarrow> normalized_command
   \<Rightarrow> bool \<Rightarrow> bool \<Rightarrow> path \<Rightarrow> approval_manifest \<Rightarrow> (approval_manifest \<times> (path \<times> bytes) list) res" where
  "stage_bundle be aw later st w c workspace_write snapshot root m =
     (if snapshot then snapshot_bundle be aw st w c workspace_write root m
      else if nc_program_key c \<in> set code_loaders then cwd_bundle be aw st w c workspace_write root m
      else source_bundle be aw later st w c root m)"

definition base_manifest ::
  "bundle_env \<Rightarrow> approval_world \<Rightarrow> approval_settings \<Rightarrow> string \<Rightarrow> normalized_command \<Rightarrow> bool \<Rightarrow> file_record
   \<Rightarrow> file_record list \<Rightarrow> approval_manifest" where
  "base_manifest be aw st oper c workspace_write executable external =
     \<lparr>mf_version = 3, mf_operation = oper, mf_executable = executable,
      mf_settings = ae_settings_digest (be_env be) st, mf_environment = environment_digest be aw,
      mf_mode = ''source-workspace'', mf_inputs = [], mf_stage_root = stage_root st oper, mf_external = external,
      mf_workspace_write = workspace_write, mf_source_workspace = None, mf_staged_workspace = None,
      mf_source_cwd = None, mf_staged_cwd = None, mf_binding = None, mf_git = None, mf_execution = c\<rparr>"

text \<open>
  The whole preparation: the state before it, the one the second Git inventory sees, and the one after
  the copies, against which the quotas are enforced. A failure removes what was staged.
\<close>

definition prepare_approval_bundle ::
  "bundle_env \<Rightarrow> approval_world \<Rightarrow> approval_world \<Rightarrow> approval_world \<Rightarrow> approval_settings \<Rightarrow> workspace
   \<Rightarrow> string \<Rightarrow> normalized_command \<Rightarrow> bool \<Rightarrow> bool \<Rightarrow> (normalized_command \<times> approval_manifest \<times> string \<times> (path \<times> bytes) list) res" where
  "prepare_approval_bundle be aw later after st w oper c workspace_write snapshot =
     rbind (scratch_quota aw st True) (\<lambda>_.
     if os_exists (aw_os aw) (manifest_root st oper) \<or> os_exists (aw_os aw) (stage_root st oper)
     then Inl (RuntimeError ''approval staging directory already exists'')
     else rbind (record_file (be_env be) aw (path_of (nc_executable c)) (Some (as_max_bytes st)) True) (\<lambda>executable.
          rbind (validate_external_arguments (be_env be) aw w (path_of (nc_cwd c))
                   (nc_program_key c \<in> set code_loaders) (nc_args c)) (\<lambda>external.
          let root = stage_root st oper; m = base_manifest be aw st oper c workspace_write executable external
          in rbind (stage_bundle be aw later st w c workspace_write snapshot root m) (\<lambda>(m', writes).
             rbind (measured_quota (as_data_dir st) (aw_tree after (as_data_dir st)) (as_max_data_dir st) 0) (\<lambda>_.
             rbind (scratch_quota after st False) (\<lambda>_.
             Inr (mf_execution m', m', be_digest be m', writes)))))))"

section \<open>Verifying a bundle\<close>

definition same_content :: "file_record \<Rightarrow> file_record \<Rightarrow> bool" where
  "same_content a b \<longleftrightarrow> fr_sha a = fr_sha b \<and> fr_size a = fr_size b"

definition verify_staged :: "bundle_env \<Rightarrow> approval_world \<Rightarrow> path \<Rightarrow> file_record \<Rightarrow> unit res" where
  "verify_staged be aw root r =
     (case fr_staged r of
        None \<Rightarrow> Inl (KeyError ''staged_path'')
      | Some staged \<Rightarrow>
          (case os_resolve_strict (aw_os aw) staged of
             None \<Rightarrow> Inl (FileNotFound ''staged input'')
           | Some resolved \<Rightarrow>
               rbind (relative_to (aw_os aw) resolved root) (\<lambda>_.
               rbind (record_file (be_env be) aw staged None False) (\<lambda>current.
                 if \<not> same_content current r
                 then Inl (RuntimeError ''approved input changed after approval was requested'') else Inr ()))))"

definition verify_source :: "bundle_env \<Rightarrow> approval_world \<Rightarrow> approval_settings \<Rightarrow> file_record \<Rightarrow> unit res" where
  "verify_source be aw st r =
     (case fr_source r of
        None \<Rightarrow> Inr ()
      | Some source \<Rightarrow>
          (case relative_to (aw_os aw) source (workspace_root (as_policy st)) of
             Inl _ \<Rightarrow> Inr ()
           | Inr _ \<Rightarrow>
               rbind (record_file (be_env be) aw source (Some (as_max_bytes st)) False) (\<lambda>current.
                 if \<not> same_content current r
                 then Inl (RuntimeError ''workspace files changed after formatting was staged'') else Inr ())))"

text \<open>An external input or the executable: the whole record, without the fields of a copy.\<close>

definition verify_record :: "bundle_env \<Rightarrow> approval_world \<Rightarrow> approval_settings \<Rightarrow> bool \<Rightarrow> error \<Rightarrow> file_record \<Rightarrow> unit res" where
  "verify_record be aw st allow_hardlinks complaint r =
     rbind (record_file (be_env be) aw (fr_path r) (Some (as_max_bytes st)) allow_hardlinks) (\<lambda>current.
       if current \<noteq> r then Inl complaint else Inr ())"

definition verify_binding :: "bundle_env \<Rightarrow> approval_world \<Rightarrow> approval_settings \<Rightarrow> workspace_binding option \<Rightarrow> unit res" where
  "verify_binding be aw st expected =
     (case expected of
        None \<Rightarrow> Inl (RuntimeError ''staged approval has no live workspace binding'')
      | Some b \<Rightarrow>
          rbind (make_workspace (aw_os aw) (as_policy st)) (\<lambda>w.
          rbind (mutable_workspace_binding (be_env be) aw st w (workspace_root (as_policy st))) (\<lambda>current.
            if current \<noteq> b then Inl (RuntimeError ''workspace behavior inputs changed after approval was requested'')
            else Inr ())))"

definition expected_sources :: "file_record list \<Rightarrow> inventory res" where
  "expected_sources records =
     rfold (\<lambda>inv r. case fr_source r of
         None \<Rightarrow> Inl (KeyError ''source_path'')
       | Some p \<Rightarrow> Inr (AList.update p (fr_sha r, fr_size r) inv)) [] records"

definition verify_inventory :: "bundle_env \<Rightarrow> approval_world \<Rightarrow> approval_settings \<Rightarrow> approval_manifest \<Rightarrow> unit res" where
  "verify_inventory be aw st m =
     rbind (expected_sources (mf_inputs m)) (\<lambda>expected.
     case mf_source_workspace m of
       None \<Rightarrow> Inl (KeyError ''source_workspace'')
     | Some source \<Rightarrow>
         rbind (make_workspace (aw_os aw) (as_policy st)) (\<lambda>w.
         rbind (source_inventory (be_env be) aw st w source) (\<lambda>actual.
           if \<not> dict_eq actual expected
           then Inl (RuntimeError ''workspace files changed after approval was requested'') else Inr ())))"

definition write_modes :: "string list" where
  "write_modes = [''staged-workspace-write'', ''staged-sandbox-workspace-write'']"

definition staged_modes :: "string list" where
  "staged_modes = [''staged-cwd'', ''staged-workspace-write'', ''staged-sandbox-workspace'', ''staged-sandbox-workspace-write'']"

definition source_modes :: "string list" where
  "source_modes = [''source-workspace'', ''git-state-source-workspace'']"

definition each :: "('a \<Rightarrow> unit res) \<Rightarrow> 'a list \<Rightarrow> unit res" where
  "each f xs = rfold (\<lambda>_ x. f x) () xs"

text \<open>The bundle on disk: the manifest without its digest, and the digest.\<close>

definition verify_manifest ::
  "bundle_env \<Rightarrow> approval_world \<Rightarrow> approval_world \<Rightarrow> approval_settings \<Rightarrow> string \<Rightarrow> string \<Rightarrow> approval_manifest \<times> string option
   \<Rightarrow> normalized_command res" where
  "verify_manifest be aw later st oper expected stored =
     (case stored of (m, stored_digest) \<Rightarrow>
      if stored_digest \<noteq> Some expected \<or> be_digest be m \<noteq> expected
      then Inl (RuntimeError ''approval manifest digest mismatch'')
      else if mf_version m \<noteq> 3
      then Inl (RuntimeError ''approval manifest uses an unsupported version'')
      else if mf_settings m \<noteq> ae_settings_digest (be_env be) st
      then Inl (RuntimeError ''effective MCP settings changed after approval was requested'')
      else if mf_environment m \<noteq> environment_digest be aw
      then Inl (RuntimeError ''command-affecting environment changed after approval was requested'')
      else case (os_resolve_strict (aw_os aw) (stage_root st oper), os_resolve_strict (aw_os aw) (mf_stage_root m)) of
        (Some root, Some named) \<Rightarrow>
          if \<not> path_eq (aw_os aw) named root
          then Inl (RuntimeError ''approval execution staging root changed after request creation'')
          else rbind (verify_record be aw st True
                        (RuntimeError ''approved executable changed after approval was requested'') (mf_executable m)) (\<lambda>_.
               rbind (each (verify_staged be aw root) (mf_inputs m)) (\<lambda>_.
               rbind (if mf_mode m \<in> set write_modes then each (verify_source be aw st) (mf_inputs m) else Inr ()) (\<lambda>_.
               rbind (if mf_mode m \<in> set staged_modes then verify_binding be aw st (mf_binding m) else Inr ()) (\<lambda>_.
               rbind (each (verify_record be aw st False
                        (RuntimeError ''external approved input changed after approval was requested'')) (mf_external m)) (\<lambda>_.
               rbind (if mf_mode m \<in> set source_modes then verify_inventory be aw st m else Inr ()) (\<lambda>_.
               rbind (if mf_mode m = ''git-state-source-workspace''
                      then rbind (capture_git_state (be_env be) aw later st (mf_execution m)) (\<lambda>g.
                           if Some g \<noteq> mf_git m then Inl (RuntimeError ''Git metadata changed after approval'') else Inr ())
                      else Inr ()) (\<lambda>_.
               Inr (mf_execution m))))))))
      | _ \<Rightarrow> Inl (FileNotFound ''approval execution staging root''))"

definition verify_approval_bundle ::
  "bundle_env \<Rightarrow> approval_world \<Rightarrow> approval_world \<Rightarrow> approval_settings \<Rightarrow> string \<Rightarrow> string
   \<Rightarrow> (path \<Rightarrow> (approval_manifest \<times> string option) option) \<Rightarrow> normalized_command res" where
  "verify_approval_bundle be aw later st oper expected stored =
     (case (os_resolve_strict (aw_os aw) (manifest_root st oper),
            os_resolve_strict (aw_os aw) (as_data_dir st @ [''approval-staging''])) of
        (Some root, Some allowed_root) \<Rightarrow>
          (case relative_to (aw_os aw) root allowed_root of
             Inl _ \<Rightarrow> Inl (PermissionError ''approval manifest escapes the staging directory'')
           | Inr _ \<Rightarrow>
               if aw_symlink aw root
               then Inl (PermissionError ''approval staging directory must not be a reparse point'')
               else case stored (root @ [''manifest.json'']) of
                      None \<Rightarrow> Inl (FileNotFound ''manifest.json'')
                    | Some bundle \<Rightarrow> verify_manifest be aw later st oper expected bundle)
      | _ \<Rightarrow> Inl (FileNotFound ''approval staging''))"

section \<open>What a prepared manifest holds\<close>

definition same_request :: "approval_manifest \<Rightarrow> approval_manifest \<Rightarrow> bool" where
  "same_request m m' \<longleftrightarrow>
     mf_version m' = mf_version m \<and> mf_executable m' = mf_executable m \<and> mf_settings m' = mf_settings m
   \<and> mf_environment m' = mf_environment m \<and> mf_stage_root m' = mf_stage_root m \<and> mf_external m' = mf_external m"

lemma snapshot_bundle_Inr:
  assumes "snapshot_bundle be aw st w c ww root m = Inr (m', writes)"
  shows "same_request m m' \<and> \<not> embeds_workspace aw (ws_root w) (nc_args (mf_execution m'))
     \<and> mf_mode m' = (if ww then ''staged-sandbox-workspace-write'' else ''staged-sandbox-workspace'')
     \<and> (\<exists>b. mutable_workspace_binding (be_env be) aw st w (ws_root w) = Inr b \<and> mf_binding m' = Some b)"
  using assms by (auto simp: snapshot_bundle_def Let_def res_simps same_request_def split: option.splits if_splits)

lemma cwd_bundle_Inr:
  assumes "cwd_bundle be aw st w c ww root m = Inr (m', writes)"
  shows "same_request m m' \<and> \<not> embeds_workspace aw (ws_root w) (nc_args (mf_execution m'))
     \<and> mf_mode m' = (if ww then ''staged-workspace-write'' else ''staged-cwd'')
     \<and> (\<exists>b. mutable_workspace_binding (be_env be) aw st w (ws_root w) = Inr b \<and> mf_binding m' = Some b)"
  using assms by (auto simp: cwd_bundle_def Let_def res_simps same_request_def split: option.splits if_splits)

lemma source_bundle_Inr:
  assumes "source_bundle be aw later st w c root m = Inr (m', writes)"
  shows "same_request m m' \<and> mf_execution m' = mf_execution m \<and> mf_source_workspace m' = Some (ws_root w)
     \<and> (\<exists>cs. copy_tree_bounded (be_env be) aw st w (ws_root w) (root @ [''workspace'']) 0 = Inr cs
           \<and> mf_inputs m' = cs_records cs)
     \<and> mf_mode m' = (if nc_program_key c = ''git'' then ''git-state-source-workspace'' else mf_mode m)
     \<and> (nc_program_key c = ''git'' \<longrightarrow> (\<exists>g. capture_git_state (be_env be) aw later st c = Inr g \<and> mf_git m' = Some g))"
proof -
  obtain cs where cs: "copy_tree_bounded (be_env be) aw st w (ws_root w) (root @ [''workspace'']) 0 = Inr cs"
    using assms by (auto simp: source_bundle_def rbind_eq_Inr)
  show ?thesis
  proof (cases "nc_program_key c = ''git''")
    case True
    then obtain g where g: "capture_git_state (be_env be) aw later st c = Inr g"
      using assms cs by (auto simp: source_bundle_def Let_def rbind_eq_Inr)
    then show ?thesis using assms cs True by (simp add: source_bundle_def Let_def same_request_def) auto
  next
    case False
    then show ?thesis using assms cs by (simp add: source_bundle_def Let_def same_request_def) auto
  qed
qed

lemma prepare_cases:
  assumes "prepare_approval_bundle be aw later after st w oper c ww snapshot = Inr (execution, m, d, writes)"
  obtains executable external where
    "record_file (be_env be) aw (path_of (nc_executable c)) (Some (as_max_bytes st)) True = Inr executable"
    "validate_external_arguments (be_env be) aw w (path_of (nc_cwd c)) (nc_program_key c \<in> set code_loaders) (nc_args c)
       = Inr external"
    "d = be_digest be m" "execution = mf_execution m"
    "stage_bundle be aw later st w c ww snapshot (stage_root st oper) (base_manifest be aw st oper c ww executable external)
       = Inr (m, writes)"
proof -
  from assms obtain executable external p where r:
    "record_file (be_env be) aw (path_of (nc_executable c)) (Some (as_max_bytes st)) True = Inr executable"
    "validate_external_arguments (be_env be) aw w (path_of (nc_cwd c)) (nc_program_key c \<in> set code_loaders) (nc_args c)
       = Inr external"
    "stage_bundle be aw later st w c ww snapshot (stage_root st oper) (base_manifest be aw st oper c ww executable external)
       = Inr p"
    "(case p of (m', writes) \<Rightarrow>
        rbind (measured_quota (as_data_dir st) (aw_tree after (as_data_dir st)) (as_max_data_dir st) 0) (\<lambda>_.
        rbind (scratch_quota after st False) (\<lambda>_. Inr (mf_execution m', m', be_digest be m', writes))))
      = Inr (execution, m, d, writes)"
    unfolding prepare_approval_bundle_def Let_def rbind_eq_Inr if_Inl_eq_Inr by blast
  obtain m' writes' where p: "p = (m', writes')" by (cases p)
  have "m' = m \<and> writes' = writes \<and> execution = mf_execution m \<and> d = be_digest be m"
    using r(4) unfolding p by (simp add: rbind_eq_Inr) metis
  then show thesis using that r(1-3) p by simp
qed

lemma prepare_bundle_Inr:
  assumes "prepare_approval_bundle be aw later after st w oper c ww snapshot = Inr (execution, m, d, writes)"
  shows "d = be_digest be m \<and> execution = mf_execution m \<and> mf_version m = 3 \<and> mf_stage_root m = stage_root st oper
     \<and> mf_settings m = ae_settings_digest (be_env be) st \<and> mf_environment m = environment_digest be aw
     \<and> record_file (be_env be) aw (path_of (nc_executable c)) (Some (as_max_bytes st)) True = Inr (mf_executable m)
     \<and> validate_external_arguments (be_env be) aw w (path_of (nc_cwd c)) (nc_program_key c \<in> set code_loaders) (nc_args c)
         = Inr (mf_external m)"
    and "snapshot \<or> nc_program_key c \<in> set code_loaders \<Longrightarrow>
       mf_mode m \<in> set staged_modes \<and> (ww \<longrightarrow> mf_mode m \<in> set write_modes)
       \<and> \<not> embeds_workspace aw (ws_root w) (nc_args execution)
       \<and> (\<exists>b. mf_binding m = Some b \<and> mutable_workspace_binding (be_env be) aw st w (ws_root w) = Inr b)"
    and "\<not> snapshot \<Longrightarrow> nc_program_key c \<notin> set code_loaders \<Longrightarrow>
       mf_mode m \<in> set source_modes \<and> execution = c \<and> mf_source_workspace m = Some (ws_root w)
       \<and> (\<exists>cs. copy_tree_bounded (be_env be) aw st w (ws_root w) (stage_root st oper @ [''workspace'']) 0 = Inr cs
             \<and> mf_inputs m = cs_records cs)
       \<and> (nc_program_key c = ''git'' \<longrightarrow> mf_mode m = ''git-state-source-workspace''
            \<and> (\<exists>g. mf_git m = Some g \<and> capture_git_state (be_env be) aw later st c = Inr g))"
proof -
  obtain executable external where p:
    "record_file (be_env be) aw (path_of (nc_executable c)) (Some (as_max_bytes st)) True = Inr executable"
    "validate_external_arguments (be_env be) aw w (path_of (nc_cwd c)) (nc_program_key c \<in> set code_loaders) (nc_args c)
       = Inr external"
    "d = be_digest be m" "execution = mf_execution m"
    "stage_bundle be aw later st w c ww snapshot (stage_root st oper) (base_manifest be aw st oper c ww executable external)
       = Inr (m, writes)"
    using assms by (rule prepare_cases)
  note inv = snapshot_bundle_Inr cwd_bundle_Inr source_bundle_Inr
  have "same_request (base_manifest be aw st oper c ww executable external) m"
    using p(5) by (auto simp: stage_bundle_def split: if_splits dest!: inv)
  then show "d = be_digest be m \<and> execution = mf_execution m \<and> mf_version m = 3 \<and> mf_stage_root m = stage_root st oper
     \<and> mf_settings m = ae_settings_digest (be_env be) st \<and> mf_environment m = environment_digest be aw
     \<and> record_file (be_env be) aw (path_of (nc_executable c)) (Some (as_max_bytes st)) True = Inr (mf_executable m)
     \<and> validate_external_arguments (be_env be) aw w (path_of (nc_cwd c)) (nc_program_key c \<in> set code_loaders) (nc_args c)
         = Inr (mf_external m)"
    using p by (simp add: same_request_def base_manifest_def)
  show "mf_mode m \<in> set staged_modes \<and> (ww \<longrightarrow> mf_mode m \<in> set write_modes)
       \<and> \<not> embeds_workspace aw (ws_root w) (nc_args execution)
       \<and> (\<exists>b. mf_binding m = Some b \<and> mutable_workspace_binding (be_env be) aw st w (ws_root w) = Inr b)"
    if "snapshot \<or> nc_program_key c \<in> set code_loaders"
    using p(4,5) that by (auto simp: stage_bundle_def staged_modes_def write_modes_def split: if_splits dest!: inv)
  show "mf_mode m \<in> set source_modes \<and> execution = c \<and> mf_source_workspace m = Some (ws_root w)
       \<and> (\<exists>cs. copy_tree_bounded (be_env be) aw st w (ws_root w) (stage_root st oper @ [''workspace'']) 0 = Inr cs
             \<and> mf_inputs m = cs_records cs)
       \<and> (nc_program_key c = ''git'' \<longrightarrow> mf_mode m = ''git-state-source-workspace''
            \<and> (\<exists>g. mf_git m = Some g \<and> capture_git_state (be_env be) aw later st c = Inr g))"
    if "\<not> snapshot" "nc_program_key c \<notin> set code_loaders"
    using p(4,5) that by (auto simp: stage_bundle_def source_modes_def base_manifest_def split: if_splits dest!: inv)
qed

section \<open>What a verified bundle shows\<close>

lemma each_Inr: "each f xs = Inr () \<longleftrightarrow> (\<forall>x \<in> set xs. f x = Inr ())"
  by (induction xs) (auto simp: each_def rbind_eq_Inr)

lemma verify_manifest_Inr:
  assumes "verify_manifest be aw later st oper expected (m, sd) = Inr c"
  shows "sd = Some expected \<and> be_digest be m = expected \<and> mf_settings m = ae_settings_digest (be_env be) st
     \<and> mf_environment m = environment_digest be aw \<and> c = mf_execution m"
    and "verify_record be aw st True (RuntimeError ''approved executable changed after approval was requested'') (mf_executable m) = Inr ()"
    and "\<exists>root. each (verify_staged be aw root) (mf_inputs m) = Inr ()"
    and "mf_mode m \<in> set write_modes \<Longrightarrow> each (verify_source be aw st) (mf_inputs m) = Inr ()"
    and "mf_mode m \<in> set staged_modes \<Longrightarrow> verify_binding be aw st (mf_binding m) = Inr ()"
    and "each (verify_record be aw st False
                (RuntimeError ''external approved input changed after approval was requested'')) (mf_external m) = Inr ()"
    and "mf_mode m \<in> set source_modes \<Longrightarrow> verify_inventory be aw st m = Inr ()"
    and "mf_mode m = ''git-state-source-workspace'' \<Longrightarrow>
           capture_git_state (be_env be) aw later st (mf_execution m) = Inr (the (mf_git m)) \<and> mf_git m \<noteq> None"
proof -
  note v = assms [unfolded verify_manifest_def prod.case]
  show "sd = Some expected \<and> be_digest be m = expected \<and> mf_settings m = ae_settings_digest (be_env be) st
     \<and> mf_environment m = environment_digest be aw \<and> c = mf_execution m"
    using v by (simp add: rbind_eq_Inr if_Inl_eq_Inr split: option.splits)
  obtain root named where r: "os_resolve_strict (aw_os aw) (stage_root st oper) = Some root"
    "os_resolve_strict (aw_os aw) (mf_stage_root m) = Some named"
    using v by (simp add: if_Inl_eq_Inr split: option.splits)
  note w = v [unfolded r option.case prod.case if_Inl_eq_Inr rbind_eq_Inr]
  show "verify_record be aw st True (RuntimeError ''approved executable changed after approval was requested'') (mf_executable m) = Inr ()"
    "\<exists>root. each (verify_staged be aw root) (mf_inputs m) = Inr ()"
    "each (verify_record be aw st False
                (RuntimeError ''external approved input changed after approval was requested'')) (mf_external m) = Inr ()"
    using w by auto
  show "mf_mode m \<in> set write_modes \<Longrightarrow> each (verify_source be aw st) (mf_inputs m) = Inr ()"
    "mf_mode m \<in> set staged_modes \<Longrightarrow> verify_binding be aw st (mf_binding m) = Inr ()"
    "mf_mode m \<in> set source_modes \<Longrightarrow> verify_inventory be aw st m = Inr ()"
    using w by auto
  show "capture_git_state (be_env be) aw later st (mf_execution m) = Inr (the (mf_git m)) \<and> mf_git m \<noteq> None"
    if git: "mf_mode m = ''git-state-source-workspace''"
  proof -
    from w git obtain g where "capture_git_state (be_env be) aw later st (mf_execution m) = Inr g" "Some g = mf_git m"
      by (simp add: rbind_eq_Inr if_Inl_eq_Inr) blast
    then show ?thesis by (metis option.sel option.distinct(1))
  qed
qed

lemma verify_bundle_manifest:
  assumes "verify_approval_bundle be aw later st oper expected stored = Inr c"
  obtains m sd where "verify_manifest be aw later st oper expected (m, sd) = Inr c"
proof -
  obtain b where "verify_manifest be aw later st oper expected b = Inr c"
    using assms by (auto simp: verify_approval_bundle_def split: option.splits sum.splits if_splits)
  then show thesis using that by (cases b) blast
qed

section \<open>Copies and inventories see the same files\<close>

definition sizes_exact :: "approval_world \<Rightarrow> bool" where
  "sizes_exact aw \<longleftrightarrow> (\<forall>p. file_size (os_identity (aw_os aw) p) = int (length (os_read (aw_os aw) p)))"

definition copy_matches :: "copy_state \<Rightarrow> inventory_state \<Rightarrow> bool" where
  "copy_matches cs iv \<longleftrightarrow>
     expected_sources (cs_records cs) = Inr (iv_items iv) \<and> iv_total iv = cs_total cs
   \<and> iv_files iv = int (length (cs_records cs)) \<and> iv_count iv = cs_count cs"

lemma enter_directories:
  "rfold (enter_directory st complaint) n dirs = Inr n' \<Longrightarrow>
   rfold (\<lambda>n _. consume st n) n dirs = Inr n' \<and> \<not> list_ex reparse_entry dirs"
  by (induction dirs arbitrary: n) (auto simp: enter_directory_def rbind_eq_Inr split: if_splits)

lemma stage_file_inventory:
  assumes exact: "sizes_exact aw" and same: "copy_matches cs iv"
    and step: "stage_file ae aw st w initial here dir cs t = Inr cs'"
  shows "\<exists>iv'. inventory_file ae aw st w here iv t = Inr iv' \<and> copy_matches cs' iv'"
proof (cases "protected_input aw st t")
  case True
  then show ?thesis
    using same step by (auto simp: stage_file_def inventory_file_def copy_matches_def rbind_eq_Inr)
next
  case False
  let ?os = "aw_os aw"
  obtain n parts checked data where s: "consume st (cs_count cs) = Inr n"
    "relative_to ?os (here @ [entry_name t]) (ws_root w) = Inr parts"
    "resolve_existing ?os w (str_relative parts) False ReadAccess True = Inr checked"
    "\<not> as_max_files st < int (length (cs_records cs)) + 1"
    "\<not> as_max_bytes st < cs_total cs + file_size (os_identity ?os checked)"
    "read_verified_bytes ?os checked (as_max_bytes st) = Inr data"
    "cs' = \<lparr>cs_records = cs_records cs @ [staged_record ae (dir @ [entry_name t]) data checked],
            cs_writes = cs_writes cs @ [(dir @ [entry_name t], data)],
            cs_total = cs_total cs + file_size (os_identity ?os checked), cs_count = n\<rparr>"
    using step False unfolding stage_file_def Let_def rbind_eq_Inr by (simp add: if_Inl_eq_Inr rbind_eq_Inr) blast
  have data: "data = os_read ?os checked" using s(6) by (auto simp: read_verified_bytes_def split: if_splits)
  have e: "expected_sources (cs_records cs') = Inr (AList.update checked (ae_sha ae data, int (length data)) (iv_items iv))"
    using same by (simp add: s(7) copy_matches_def expected_sources_def rfold_append staged_record_def plain_record_def)
  show ?thesis
    using same s e exact unfolding inventory_file_def copy_matches_def Let_def
    by (simp add: False sizes_exact_def data [symmetric])
qed

lemma stage_files_inventory:
  "sizes_exact aw \<Longrightarrow> copy_matches cs iv \<Longrightarrow> rfold (stage_file ae aw st w initial here dir) cs files = Inr cs' \<Longrightarrow>
   \<exists>iv'. rfold (inventory_file ae aw st w here) iv files = Inr iv' \<and> copy_matches cs' iv'"
proof (induction files arbitrary: cs iv)
  case (Cons t files)
  then obtain cs1 where cs1: "stage_file ae aw st w initial here dir cs t = Inr cs1"
    "rfold (stage_file ae aw st w initial here dir) cs1 files = Inr cs'" by (auto simp: rbind_eq_Inr)
  then obtain iv1 where "inventory_file ae aw st w here iv t = Inr iv1" "copy_matches cs1 iv1"
    using stage_file_inventory [OF Cons.prems(1,2)] by blast
  then show ?case using Cons.IH [OF Cons.prems(1) _ cs1(2)] by simp
qed auto

lemma stage_levels_inventory:
  "sizes_exact aw \<Longrightarrow> copy_matches cs iv \<Longrightarrow>
   rfold (stage_level ae aw st w initial source destination) cs levels = Inr cs' \<Longrightarrow>
   \<exists>iv'. rfold (inventory_level ae aw st w) iv levels = Inr iv' \<and> copy_matches cs' iv'"
proof (induction levels arbitrary: cs iv)
  case (Cons l levels)
  obtain here dirs files where l: "l = (here, dirs, files)" by (cases l)
  from Cons.prems(3) obtain n cs1 where s:
    "rfold (enter_directory st ''approval input contains a reparse point'') (cs_count cs) dirs = Inr n"
    "rfold (stage_file ae aw st w initial here (destination @ drop (length source) here)) (cs\<lparr>cs_count := n\<rparr>) files = Inr cs1"
    "rfold (stage_level ae aw st w initial source destination) cs1 levels = Inr cs'"
    by (auto simp: l stage_level_def [of ae aw st w initial source destination cs "(here, dirs, files)"] rbind_eq_Inr)
  have "copy_matches (cs\<lparr>cs_count := n\<rparr>) (iv\<lparr>iv_count := n\<rparr>)" using Cons.prems(2) by (simp add: copy_matches_def)
  from stage_files_inventory [OF Cons.prems(1) this s(2)] obtain iv1 where
    iv1: "rfold (inventory_file ae aw st w here) (iv\<lparr>iv_count := n\<rparr>) files = Inr iv1" "copy_matches cs1 iv1" by blast
  have "rfold (\<lambda>n _. consume st n) (iv_count iv) dirs = Inr n" "\<not> list_ex reparse_entry dirs"
    using enter_directories [OF s(1)] Cons.prems(2) by (simp_all add: copy_matches_def)
  then have "inventory_level ae aw st w iv l = Inr iv1"
    using iv1(1) by (auto simp: l inventory_level_def list_ex_iff reparse_entry_def)
  then show ?case using Cons.IH [OF Cons.prems(1) iv1(2) s(3)] by simp
qed auto

lemma copy_is_inventory:
  assumes "sizes_exact aw" "copy_tree_bounded ae aw st w source destination 0 = Inr cs"
  shows "\<exists>inv. source_inventory ae aw st w source = Inr inv \<and> expected_sources (cs_records cs) = Inr inv"
proof -
  have "copy_matches \<lparr>cs_records = [], cs_writes = [], cs_total = 0, cs_count = 0\<rparr>
          \<lparr>iv_items = [], iv_total = 0, iv_files = 0, iv_count = 0\<rparr>"
    by (simp add: copy_matches_def expected_sources_def)
  from stage_levels_inventory [OF assms(1) this assms(2) [unfolded copy_tree_bounded_def]]
  show ?thesis by (auto simp: source_inventory_def copy_matches_def)
qed

lemma binding_listing:
  assumes "mutable_workspace_binding ae aw st w source = Inr b"
  shows "\<exists>root bs. os_resolve_strict (aw_os aw) source = Some root \<and> workspace_listing ae aw st w root = Inr bs \<and> wb_root b = root
     \<and> wb_digest b = ae_state_digest ae (bs_directories bs) (bs_files bs)"
  using assms by (auto simp: mutable_workspace_binding_def rbind_eq_Inr split: option.splits if_splits)

text \<open>The listing a workspace binding stands for is the same in two worlds.\<close>

definition same_listing ::
  "bundle_env \<Rightarrow> approval_world \<Rightarrow> approval_settings \<Rightarrow> workspace \<Rightarrow> approval_world \<Rightarrow> approval_settings \<Rightarrow> workspace \<Rightarrow> bool" where
  "same_listing be aw0 st0 w0 aw st w \<longleftrightarrow>
     (\<exists>root bs0 bs. workspace_listing (be_env be) aw0 st0 w0 root = Inr bs0 \<and> workspace_listing (be_env be) aw st w root = Inr bs
        \<and> bs_directories bs = bs_directories bs0 \<and> bs_files bs = bs_files bs0)"

definition same_inventory ::
  "bundle_env \<Rightarrow> approval_world \<Rightarrow> approval_settings \<Rightarrow> workspace \<Rightarrow> approval_world \<Rightarrow> approval_settings \<Rightarrow> workspace \<Rightarrow> bool" where
  "same_inventory be aw0 st0 w0 aw st w \<longleftrightarrow>
     (\<exists>inv0 inv. source_inventory (be_env be) aw0 st0 w0 (ws_root w0) = Inr inv0
        \<and> source_inventory (be_env be) aw st w (ws_root w0) = Inr inv \<and> set inv = set inv0)"

text \<open>
  Nothing else has the digest of the manifest, of the settings or of the listing of the workspace at the
  time of the request.
\<close>

definition digests_unique :: "bundle_env \<Rightarrow> approval_world \<Rightarrow> approval_settings \<Rightarrow> workspace \<Rightarrow> approval_manifest \<Rightarrow> bool" where
  "digests_unique be aw0 st0 w0 m \<longleftrightarrow>
     (\<forall>m'. be_digest be m' = be_digest be m \<longrightarrow> m' = m)
   \<and> (\<forall>st. ae_settings_digest (be_env be) st = ae_settings_digest (be_env be) st0 \<longrightarrow> st = st0)
   \<and> (\<forall>root bs0. os_resolve_strict (aw_os aw0) (ws_root w0) = Some root \<longrightarrow>
        workspace_listing (be_env be) aw0 st0 w0 root = Inr bs0 \<longrightarrow>
        (\<forall>ds fs. ae_state_digest (be_env be) ds fs = ae_state_digest (be_env be) (bs_directories bs0) (bs_files bs0)
           \<longrightarrow> ds = bs_directories bs0 \<and> fs = bs_files bs0))"

lemma verify_staged_Inr:
  assumes "verify_staged be aw root r = Inr ()"
  shows "\<exists>p q. fr_staged r = Some p \<and> record_file (be_env be) aw p None False = Inr q \<and> same_content q r"
proof -
  obtain p where p: "fr_staged r = Some p" using assms by (cases "fr_staged r") (auto simp: verify_staged_def)
  obtain resolved where "os_resolve_strict (aw_os aw) p = Some resolved"
    using assms p by (cases "os_resolve_strict (aw_os aw) p") (auto simp: verify_staged_def)
  then show ?thesis using assms p by (auto simp: verify_staged_def rbind_eq_Inr split: if_splits)
qed

lemma verify_binding_listing:
  assumes "verify_binding be aw st (Some b) = Inr ()" "mutable_workspace_binding (be_env be) aw0 st0 w0 (ws_root w0) = Inr b"
    and "digests_unique be aw0 st0 w0 m"
  shows "\<exists>w. make_workspace (aw_os aw) (as_policy st) = Inr w \<and> same_listing be aw0 st0 w0 aw st w"
proof -
  obtain w where w: "make_workspace (aw_os aw) (as_policy st) = Inr w"
    "mutable_workspace_binding (be_env be) aw st w (workspace_root (as_policy st)) = Inr b"
    using assms(1) by (auto simp: verify_binding_def rbind_eq_Inr split: if_splits)
  obtain bs where bs: "workspace_listing (be_env be) aw st w (wb_root b) = Inr bs"
    "wb_digest b = ae_state_digest (be_env be) (bs_directories bs) (bs_files bs)"
    using binding_listing [OF w(2)] by auto
  obtain bs0 where bs0: "workspace_listing (be_env be) aw0 st0 w0 (wb_root b) = Inr bs0"
    "wb_digest b = ae_state_digest (be_env be) (bs_directories bs0) (bs_files bs0)"
    "os_resolve_strict (aw_os aw0) (ws_root w0) = Some (wb_root b)"
    using binding_listing [OF assms(2)] by auto
  have "bs_directories bs = bs_directories bs0 \<and> bs_files bs = bs_files bs0"
    using assms(3) bs(2) bs0 unfolding digests_unique_def by metis
  then show ?thesis using w(1) bs(1) bs0(1) unfolding same_listing_def by auto
qed

text \<open>The file a record was copied from, if it lies in the workspace, has the recorded content.\<close>

definition source_matches :: "bundle_env \<Rightarrow> approval_world \<Rightarrow> approval_settings \<Rightarrow> file_record \<Rightarrow> bool" where
  "source_matches be aw st r \<longleftrightarrow>
     (\<forall>p parts. fr_source r = Some p \<longrightarrow> relative_to (aw_os aw) p (workspace_root (as_policy st)) = Inr parts \<longrightarrow>
        (\<exists>q. record_file (be_env be) aw p (Some (as_max_bytes st)) False = Inr q \<and> same_content q r))"

lemma verify_source_matches: "verify_source be aw st r = Inr () \<Longrightarrow> source_matches be aw st r"
  by (auto simp: verify_source_def source_matches_def rbind_eq_Inr split: option.splits sum.splits if_splits)

text \<open>
  C3. An approval is bound to what it was asked for: when a bundle is verified against the digest of its
  request, the command is the one that was prepared, the settings and the environment are unchanged,
  the executable and every external file have their recorded bytes and identity, every staged copy has
  its recorded content, and the workspace is as it was: for a command that runs in a copy, every
  directory and writable file is the same, bytes and identity, no argument names the workspace, and if its
  changes will be written back every file that was copied still has the recorded content; for one that
  runs in the workspace, the files it can read have the same content, and for Git the metadata.
\<close>

theorem approved_command_is_bound:
  assumes prepared: "prepare_approval_bundle be aw0 later0 after0 st0 w0 oper c ww snapshot = Inr (execution, m, d, writes)"
    and verified: "verify_approval_bundle be aw later st oper d stored = Inr c'"
    and unique: "digests_unique be aw0 st0 w0 m"
    and exact: "sizes_exact aw0"
  shows "c' = execution \<and> st = st0 \<and> environment_digest be aw = environment_digest be aw0
     \<and> record_file (be_env be) aw (fr_path (mf_executable m)) (Some (as_max_bytes st)) True = Inr (mf_executable m)
     \<and> (\<forall>r \<in> set (mf_external m). record_file (be_env be) aw (fr_path r) (Some (as_max_bytes st)) False = Inr r)
     \<and> (\<forall>r \<in> set (mf_inputs m). \<exists>p q. fr_staged r = Some p \<and> record_file (be_env be) aw p None False = Inr q
          \<and> same_content q r)
     \<and> (\<exists>w. make_workspace (aw_os aw) (as_policy st) = Inr w
          \<and> (if snapshot \<or> nc_program_key c \<in> set code_loaders
             then same_listing be aw0 st0 w0 aw st w \<and> \<not> embeds_workspace aw0 (ws_root w0) (nc_args execution)
               \<and> (ww \<longrightarrow> (\<forall>r \<in> set (mf_inputs m). source_matches be aw st r))
             else same_inventory be aw0 st0 w0 aw st w
               \<and> (nc_program_key c = ''git'' \<longrightarrow>
                    capture_git_state (be_env be) aw later st c = capture_git_state (be_env be) aw0 later0 st0 c)))"
proof -
  note p = prepare_bundle_Inr [OF prepared]
  obtain m' sd where v: "verify_manifest be aw later st oper d (m', sd) = Inr c'"
    using verified by (rule verify_bundle_manifest)
  have "be_digest be m' = be_digest be m" using verify_manifest_Inr(1) [OF v] p(1) by simp
  then have m: "m' = m" using unique by (auto simp: digests_unique_def)
  note v = verify_manifest_Inr [OF v, unfolded m]
  have same: "c' = execution" "st = st0" "environment_digest be aw = environment_digest be aw0"
    using v(1) p(1) unique by (auto simp: digests_unique_def)
  have records: "record_file (be_env be) aw (fr_path (mf_executable m)) (Some (as_max_bytes st)) True = Inr (mf_executable m)"
    "\<forall>r \<in> set (mf_external m). record_file (be_env be) aw (fr_path r) (Some (as_max_bytes st)) False = Inr r"
    using v(2,6) by (auto simp: verify_record_def each_Inr rbind_eq_Inr split: if_splits)
  have staged: "\<forall>r \<in> set (mf_inputs m). \<exists>p q. fr_staged r = Some p \<and> record_file (be_env be) aw p None False = Inr q
          \<and> same_content q r"
    using v(3) verify_staged_Inr by (auto simp: each_Inr)
  have workspace: "\<exists>w. make_workspace (aw_os aw) (as_policy st) = Inr w
          \<and> (if snapshot \<or> nc_program_key c \<in> set code_loaders
             then same_listing be aw0 st0 w0 aw st w \<and> \<not> embeds_workspace aw0 (ws_root w0) (nc_args execution)
               \<and> (ww \<longrightarrow> (\<forall>r \<in> set (mf_inputs m). source_matches be aw st r))
             else same_inventory be aw0 st0 w0 aw st w
               \<and> (nc_program_key c = ''git'' \<longrightarrow>
                    capture_git_state (be_env be) aw later st c = capture_git_state (be_env be) aw0 later0 st0 c))"
  proof (cases "snapshot \<or> nc_program_key c \<in> set code_loaders")
    case True
    obtain b where b: "mf_binding m = Some b" "mutable_workspace_binding (be_env be) aw0 st0 w0 (ws_root w0) = Inr b"
      using p(2) [OF True] by blast
    have "verify_binding be aw st (Some b) = Inr ()" using v(5) p(2) [OF True] b(1) by simp
    then obtain w where w: "make_workspace (aw_os aw) (as_policy st) = Inr w" "same_listing be aw0 st0 w0 aw st w"
      using verify_binding_listing [OF _ b(2) unique] by blast
    have "ww \<longrightarrow> (\<forall>r \<in> set (mf_inputs m). source_matches be aw st r)"
      using v(4) p(2) [OF True] verify_source_matches by (auto simp: each_Inr)
    then show ?thesis using True w p(2) [OF True] by auto
  next
    case False
    then have ns: "\<not> snapshot" "nc_program_key c \<notin> set code_loaders" by auto
    note q = p(3) [OF ns]
    obtain cs where cs: "copy_tree_bounded (be_env be) aw0 st0 w0 (ws_root w0) (stage_root st0 oper @ [''workspace'']) 0 = Inr cs"
      "mf_inputs m = cs_records cs" using q by blast
    obtain inv0 where inv0: "source_inventory (be_env be) aw0 st0 w0 (ws_root w0) = Inr inv0"
      "expected_sources (cs_records cs) = Inr inv0" using copy_is_inventory [OF exact cs(1)] by blast
    obtain w inv where w: "make_workspace (aw_os aw) (as_policy st) = Inr w"
      "source_inventory (be_env be) aw st w (ws_root w0) = Inr inv" "dict_eq inv inv0"
      using v(7) q inv0(2) cs(2) by (auto simp: verify_inventory_def rbind_eq_Inr split: if_splits)
    have "same_inventory be aw0 st0 w0 aw st w"
      using inv0(1) w(2,3) by (auto simp: same_inventory_def dict_eq_def)
    moreover have "nc_program_key c = ''git'' \<longrightarrow>
        capture_git_state (be_env be) aw later st c = capture_git_state (be_env be) aw0 later0 st0 c"
      using v(8) q p(1) by auto
    ultimately show ?thesis using w(1) ns by auto
  qed
  show ?thesis using same records staged workspace by blast
qed

end
