(* ===== verification/Approval_Run.thy ===== *)
theory Approval_Run
  imports Approvals
begin

text \<open>
  The disposable copy an approved command runs in and the changes collected from it (\<open>approval.py\<close>).
\<close>

section \<open>The copy\<close>

definition copy_files :: "bundle_env \<Rightarrow> approval_world \<Rightarrow> approval_settings \<Rightarrow> path \<Rightarrow> path \<Rightarrow> int \<Rightarrow> copy_state res" where
  "copy_files be aw st source destination used =
     copy_external_tree_bounded (be_env be) aw st False source destination used"

text \<open>A package whose root is a staged dependency gets the root of its copy.\<close>

definition relocate_package ::
  "bundle_env \<Rightarrow> approval_world \<Rightarrow> path \<Rightarrow> path \<Rightarrow> dart_package option \<Rightarrow> dart_package option res" where
  "relocate_package be aw dependencies run_dependencies item =
     (case item of
        None \<Rightarrow> Inl (TypeError ''package entry'')
      | Some pk \<Rightarrow>
          (case dp_root pk of
             Py uri \<Rightarrow>
               if ae_uri_scheme (be_env be) uri \<noteq> ''file'' then Inr (Some pk)
               else (case (os_resolve_strict (aw_os aw) (file_uri_path (be_env be) uri),
                           os_resolve_strict (aw_os aw) dependencies) of
                       (Some d, Some root) \<Rightarrow>
                         (case relative_to (aw_os aw) d root of
                            Inl _ \<Rightarrow> Inr (Some pk)
                          | Inr parts \<Rightarrow>
                              Inr (Some (pk\<lparr>dp_root := Py (directory_uri (be_env be) (run_dependencies @ parts))\<rparr>)))
                     | _ \<Rightarrow> Inl (FileNotFound ''staged dependency''))
           | _ \<Rightarrow> Inr (Some pk)))"

definition relocate_packages ::
  "bundle_env \<Rightarrow> approval_world \<Rightarrow> path \<Rightarrow> path \<Rightarrow> path \<Rightarrow> (path \<times> bytes) list \<Rightarrow> (path \<times> bytes) list res" where
  "relocate_packages be aw dependencies run_dependencies config writes =
     (case map_of writes config of
        None \<Rightarrow> Inr writes
      | Some data \<Rightarrow>
          (case ae_parse_packages (be_env be) data of
             Some (Py packages, rest) \<Rightarrow>
               rbind (rmap (relocate_package be aw dependencies run_dependencies) packages) (\<lambda>items.
                 Inr (AList.update config (ae_render_packages (be_env be) items rest) writes))
           | Some (Missing, rest) \<Rightarrow> Inr (AList.update config (ae_render_packages (be_env be) [] rest) writes)
           | _ \<Rightarrow> Inl (ValueError ''invalid Dart package_config.json'')))"

definition run_root :: "approval_settings \<Rightarrow> string \<Rightarrow> path" where
  "run_root st oper = as_scratch st @ [''runs'', oper]"

text \<open>What is copied, where the command runs, and which paths its arguments are moved between.\<close>

definition run_copy ::
  "bundle_env \<Rightarrow> approval_world \<Rightarrow> approval_settings \<Rightarrow> string \<Rightarrow> approval_manifest \<Rightarrow> path \<Rightarrow> path
   \<Rightarrow> (copy_state \<times> path \<times> path \<times> path) res" where
  "run_copy be aw st oper m root immutable_cwd =
     (if mf_mode m \<in> set [''staged-sandbox-workspace'', ''staged-sandbox-workspace-write'']
      then (case (Option.bind (mf_staged_workspace m) (os_resolve_strict (aw_os aw)),
                  Option.bind (mf_source_workspace m) (os_resolve_strict (aw_os aw)),
                  Option.bind (mf_source_cwd m) (os_resolve_strict (aw_os aw))) of
              (Some immutable_workspace, Some source_workspace, Some source_cwd) \<Rightarrow>
                rbind (relative_to (aw_os aw) immutable_workspace root) (\<lambda>_.
                rbind (relative_to (aw_os aw) source_cwd source_workspace) (\<lambda>relative_cwd.
                let run_workspace = run_root st oper @ [''workspace''] in
                rbind (copy_files be aw st immutable_workspace run_workspace 0) (\<lambda>cs.
                if \<not> list_ex (\<lambda>(here, _, _). here = immutable_workspace @ relative_cwd)
                       (os_walk (\<lambda>_. True) immutable_workspace (aw_tree aw immutable_workspace))
                then Inl (RuntimeError ''runtime workspace does not contain the approved cwd'')
                else Inr (cs, run_workspace @ relative_cwd, immutable_workspace, run_workspace))))
            | _ \<Rightarrow> Inl (FileNotFound ''staged workspace''))
      else rbind (copy_files be aw st immutable_cwd (run_root st oper @ [''cwd'']) 0) (\<lambda>cs.
           Inr (cs, run_root st oper @ [''cwd''], immutable_cwd, run_root st oper @ [''cwd''])))"

definition materialize_execution_copy ::
  "bundle_env \<Rightarrow> approval_world \<Rightarrow> approval_world \<Rightarrow> approval_settings \<Rightarrow> string \<Rightarrow> approval_manifest \<Rightarrow> normalized_command
   \<Rightarrow> (normalized_command \<times> (path \<times> bytes) list) res" where
  "materialize_execution_copy be aw after st oper m c =
     (case (os_resolve_strict (aw_os aw) (mf_stage_root m), os_resolve_strict (aw_os aw) (as_scratch st @ [''approval-inputs'']),
            os_resolve_strict (aw_os aw) (path_of (nc_cwd c))) of
        (Some root, Some inputs, Some immutable_cwd) \<Rightarrow>
          rbind (relative_to (aw_os aw) root inputs) (\<lambda>_.
          if mf_mode m \<in> set source_modes
          then (if c \<noteq> mf_execution m
                then Inl (RuntimeError ''source execution command differs from the approved manifest'')
                else Inr (c, []))
          else case os_resolve_strict (aw_os aw) (case mf_staged_cwd m of Some p \<Rightarrow> p | None \<Rightarrow> root @ [''cwd'']) of
            None \<Rightarrow> Inl (FileNotFound ''staged cwd'')
          | Some expected_cwd \<Rightarrow>
              if \<not> path_eq (aw_os aw) immutable_cwd expected_cwd then Inr (c, [])
              else rbind (scratch_quota aw st True) (\<lambda>_.
                   rbind (run_copy be aw st oper m root immutable_cwd) (\<lambda>(cs, run_cwd, rewrite_source, rewrite_destination).
                   let dependencies = root @ [''dependencies''] in
                   rbind (if os_exists (aw_os aw) dependencies
                          then rbind (copy_files be aw st dependencies (run_root st oper @ [''dependencies'']) (cs_count cs)) (\<lambda>ds.
                               rbind (relocate_packages be aw dependencies (run_root st oper @ [''dependencies''])
                                        (run_cwd @ [''.dart_tool'', ''package_config.json'']) (cs_writes cs)) (\<lambda>moved.
                               Inr (moved @ cs_writes ds)))
                          else Inr (cs_writes cs)) (\<lambda>writes.
                   rbind (scratch_quota after st False) (\<lambda>_.
                   Inr (c\<lparr>nc_args := List.map (rewrite_workspace_argument aw rewrite_source rewrite_destination) (nc_args c),
                          nc_cwd := path_str run_cwd\<rparr>, writes))))))
      | _ \<Rightarrow> Inl (FileNotFound ''staging''))"

section \<open>Collecting changes\<close>

definition staged_inputs :: "approval_world \<Rightarrow> path \<Rightarrow> file_record list \<Rightarrow> (string \<times> file_record) list res" where
  "staged_inputs aw staged_base inputs =
     rfold (\<lambda>records r.
         case Option.bind (fr_staged r) (os_resolve_strict (aw_os aw)) of
           None \<Rightarrow> Inl (FileNotFound ''staged_path'')
         | Some p \<Rightarrow>
             (case relative_to (aw_os aw) p staged_base of
                Inl _ \<Rightarrow> Inr records
              | Inr parts \<Rightarrow> Inr (AList.update (posix_or_dot parts) r records))) [] inputs"

definition unchanged_output :: "bundle_env \<Rightarrow> (string \<times> file_record) list \<Rightarrow> string \<Rightarrow> bytes \<Rightarrow> bool" where
  "unchanged_output be records relative data \<longleftrightarrow>
     (case map_of records relative of
        None \<Rightarrow> False
      | Some r \<Rightarrow> ae_sha (be_env be) data = fr_sha r \<and> int (length data) = fr_size r)"

text \<open>A path below the run tree and the path of the workspace it stands for.\<close>

definition run_parts :: "string \<Rightarrow> string list" where
  "run_parts relative = split_on (CHR ''/'') relative"

definition workspace_path :: "approval_world \<Rightarrow> workspace \<Rightarrow> path \<Rightarrow> string \<Rightarrow> string res" where
  "workspace_path aw w source_base relative =
     rbind (relative_to (aw_os aw) (source_base @ run_parts relative) (ws_root w)) (\<lambda>parts. Inr (posix_or_dot parts))"

definition collect_file ::
  "bundle_env \<Rightarrow> approval_world \<Rightarrow> approval_settings \<Rightarrow> workspace \<Rightarrow> path \<Rightarrow> path \<Rightarrow> (string \<times> file_record) list
   \<Rightarrow> int \<times> (string \<times> bytes) list \<Rightarrow> string \<Rightarrow> (int \<times> (string \<times> bytes) list) res" where
  "collect_file be aw st w run_base source_base records acc relative =
     (case os_resolve_strict (aw_os aw) (run_base @ run_parts relative) of
        None \<Rightarrow> Inl (FileNotFound ''sandbox output'')
      | Some candidate \<Rightarrow>
          rbind (relative_to (aw_os aw) candidate run_base) (\<lambda>_.
          if aw_symlink aw candidate \<or> 1 < os_nlink (aw_os aw) candidate
          then Inl (PermissionError ''sandbox output contains an unsafe file'')
          else let size = file_size (os_identity (aw_os aw) candidate); changed = fst acc + size in
               if as_max_write st < size
               then Inl (ValueError ''sandbox output exceeds max_write_bytes'')
               else if as_max_bytes st < changed
               then Inl (ValueError ''sandbox outputs exceed approval_manifest_max_bytes'')
               else let data = os_read (aw_os aw) candidate in
                    if unchanged_output be records relative data then Inr (changed, snd acc)
                    else rbind (workspace_path aw w source_base relative) (\<lambda>target.
                         rbind (resolve_planned_write (aw_os aw) w target) (\<lambda>_.
                         Inr (changed, AList.update target data (snd acc))))))"

definition collect_deletion ::
  "approval_world \<Rightarrow> workspace \<Rightarrow> path \<Rightarrow> string list \<Rightarrow> string \<Rightarrow> string list res" where
  "collect_deletion aw w source_base deletions relative =
     rbind (workspace_path aw w source_base relative) (\<lambda>target.
     rbind (resolve_existing (aw_os aw) w target False WriteAccess True) (\<lambda>_.
       Inr (deletions @ [target])))"

definition run_scan_limits :: "approval_settings \<Rightarrow> scan_limits" where
  "run_scan_limits st =
     \<lparr>sl_bytes = as_max_bytes st, sl_entries = nat (entry_limit st), sl_collect = True,
      sl_no_streams = True, sl_no_reparse = True\<rparr>"

definition collect_delta ::
  "bundle_env \<Rightarrow> approval_world \<Rightarrow> approval_settings \<Rightarrow> workspace \<Rightarrow> path \<Rightarrow> path \<Rightarrow> (string \<times> file_record) list
   \<Rightarrow> ((string \<times> bytes) list \<times> string list) res" where
  "collect_delta be aw st w run_base source_base records =
     rbind (scan_directory_bounded (run_scan_limits st) run_base (tree_at aw run_base)) (\<lambda>scan.
       if entry_limit st < int (sc_entries scan)
       then Inl (RuntimeError ''sandbox processing created too many runtime filesystem entries'')
       else if as_max_bytes st < sc_bytes scan
       then Inl (RuntimeError ''sandbox outputs exceed approval_manifest_max_bytes'')
       else let actual = List.map (\<lambda>p. join_with ''/'' (drop (length run_base) p)) (sc_files scan) in
            rbind (rfold (collect_file be aw st w run_base source_base records) (0, []) (sorted_set actual)) (\<lambda>(_, changes).
            rbind (rfold (collect_deletion aw w source_base) []
                     (sorted_set (List.filter (\<lambda>r. r \<notin> set actual) (List.map fst records)))) (\<lambda>deletions.
            Inr (changes, deletions))))"

definition collect_staged_workspace_changes ::
  "bundle_env \<Rightarrow> approval_world \<Rightarrow> approval_settings \<Rightarrow> string \<Rightarrow> approval_manifest \<Rightarrow> normalized_command
   \<Rightarrow> ((string \<times> bytes) list \<times> string list) res" where
  "collect_staged_workspace_changes be aw st oper m c =
     (let strict = os_resolve_strict (aw_os aw); sandbox = (mf_mode m = ''staged-sandbox-workspace-write'') in
      if mf_mode m \<notin> set write_modes then Inr ([], [])
      else case (strict (run_root st oper), strict (path_of (nc_cwd c))) of
        (Some runtime_root, Some normalized_cwd) \<Rightarrow>
          rbind (relative_to (aw_os aw) normalized_cwd runtime_root) (\<lambda>_.
          case (Option.bind (if sandbox then mf_staged_workspace m else mf_staged_cwd m) strict,
                Option.bind (if sandbox then mf_source_workspace m else mf_source_cwd m) strict,
                if sandbox then strict (runtime_root @ [''workspace'']) else Some normalized_cwd) of
            (Some staged_base, Some source_base, Some run_base) \<Rightarrow>
              rbind (staged_inputs aw staged_base (mf_inputs m)) (\<lambda>records.
              rbind (make_workspace (aw_os aw) (as_policy st)) (\<lambda>w.
                collect_delta be aw st w run_base source_base records))
          | _ \<Rightarrow> Inl (FileNotFound ''staged workspace''))
      | _ \<Rightarrow> Inl (FileNotFound ''runtime root''))"

section \<open>What is collected\<close>

definition output_content :: "approval_world \<Rightarrow> path \<Rightarrow> string \<Rightarrow> bytes" where
  "output_content aw run_base relative =
     os_read (aw_os aw) (the (os_resolve_strict (aw_os aw) (run_base @ run_parts relative)))"

text \<open>The path of the workspace for an output, when the copied directory lies below \<open>base\<close>.\<close>

definition target_below :: "string list \<Rightarrow> string \<Rightarrow> string" where
  "target_below base relative = join_with ''/'' (base @ run_parts relative)"

lemma join_with_split: "join_with [c] (xs @ split_on c r) = (if xs = [] then r else join_with [c] xs @ [c] @ r)"
proof (induction "[c]" xs rule: join_with.induct)
  case 1
  then show ?case by (simp add: join_split)
next
  case (2 x)
  then show ?case using join_split [of c r] by (cases "split_on c r") auto
next
  case (3 x y ys)
  then show ?case by simp
qed

lemma target_below_inj: "target_below base r = target_below base r' \<Longrightarrow> r = r'"
  by (simp add: target_below_def run_parts_def join_with_split split: if_splits)

lemma workspace_path_below:
  assumes "relative_to (aw_os aw) source_base (ws_root w) = Inr base" "length (ws_root w) \<le> length source_base"
  shows "workspace_path aw w source_base r = Inr (target_below base r)"
  using assms by (auto simp: workspace_path_def relative_to_def posix_or_dot_def target_below_def run_parts_def split: if_splits)

lemma collect_files:
  assumes base: "\<And>r. workspace_path aw w source_base r = Inr (target_below base r)"
  shows "rfold (collect_file be aw st w run_base source_base records) (n, cs) rs = Inr (n', cs') \<Longrightarrow> distinct rs \<Longrightarrow>
     target_below base ` set rs \<inter> fst ` set cs = {} \<Longrightarrow>
     cs' = cs @ List.map (\<lambda>r. (target_below base r, output_content aw run_base r))
                  (List.filter (\<lambda>r. \<not> unchanged_output be records r (output_content aw run_base r)) rs)
   \<and> (\<forall>r \<in> set rs. \<not> unchanged_output be records r (output_content aw run_base r) \<longrightarrow>
        (\<exists>p. resolve_planned_write (aw_os aw) w (target_below base r) = Inr p))"
proof (induction rs arbitrary: n cs)
  case (Cons r rs)
  let ?c = "output_content aw run_base r"
  obtain n1 cs1 where s: "collect_file be aw st w run_base source_base records (n, cs) r = Inr (n1, cs1)"
    "rfold (collect_file be aw st w run_base source_base records) (n1, cs1) rs = Inr (n', cs')"
    using Cons.prems(1) by (auto simp: rbind_eq_Inr)
  show ?case
  proof (cases "unchanged_output be records r ?c")
    case True
    then have "cs1 = cs"
      using s(1) by (auto simp: collect_file_def Let_def rbind_eq_Inr output_content_def split: option.splits if_splits)
    then show ?thesis using Cons.IH [OF s(2)] Cons.prems(2,3) True by auto
  next
    case False
    then have "cs1 = AList.update (target_below base r) ?c cs"
      and p: "\<exists>p. resolve_planned_write (aw_os aw) w (target_below base r) = Inr p"
      using s(1) base by (auto simp: collect_file_def Let_def rbind_eq_Inr output_content_def split: option.splits if_splits)
    moreover have "target_below base r \<notin> fst ` set cs" using Cons.prems(3) by auto
    then have "AList.update (target_below base r) ?c cs = cs @ [(target_below base r, ?c)]"
      by (induction cs) auto
    ultimately have cs1: "cs1 = cs @ [(target_below base r, ?c)]" by simp
    have "target_below base ` set rs \<inter> fst ` set cs1 = {}"
      using Cons.prems(2,3) target_below_inj unfolding cs1 by auto
    then show ?thesis using Cons.IH [OF s(2)] Cons.prems(2) False p cs1 by auto
  qed
qed simp

lemma collect_deletions:
  assumes "\<And>r. workspace_path aw w source_base r = Inr (target_below base r)"
  shows "rfold (collect_deletion aw w source_base) ds rs = Inr ds' \<Longrightarrow>
     ds' = ds @ List.map (target_below base) rs
   \<and> (\<forall>r \<in> set rs. \<exists>p. resolve_existing (aw_os aw) w (target_below base r) False WriteAccess True = Inr p)"
proof (induction rs arbitrary: ds)
  case (Cons r rs)
  then have "rfold (collect_deletion aw w source_base) (ds @ [target_below base r]) rs = Inr ds'"
    "\<exists>p. resolve_existing (aw_os aw) w (target_below base r) False WriteAccess True = Inr p"
    using assms by (auto simp: collect_deletion_def [of aw w source_base ds] rbind_eq_Inr)
  then show ?case using Cons.IH [of "ds @ [target_below base r]"] by simp
qed simp

text \<open>The files of the run tree, relative to it.\<close>

definition run_files :: "approval_world \<Rightarrow> path \<Rightarrow> string set" where
  "run_files aw run_base =
     (\<lambda>(p, _). join_with ''/'' (drop (length run_base) p)) ` set (live_files (below run_base (tree_at aw run_base)))"

text \<open>
  C31. What is collected from a run is exactly its difference from the staged inputs: the files of the
  run tree whose content differs from the recorded one, at the workspace paths they stand for, and the
  recorded files that are gone; every path written or deleted passed the write policy, and nothing in
  the tree is a link, an alternate stream or a special file.
\<close>

theorem collected_changes_exact:
  assumes collected: "collect_delta be aw st w run_base source_base records = Inr (changes, deletions)"
    and base: "relative_to (aw_os aw) source_base (ws_root w) = Inr base" "length (ws_root w) \<le> length source_base"
    and run: "os_exists (aw_os aw) run_base"
  shows "set changes = (\<lambda>r. (target_below base r, output_content aw run_base r))
           ` {r \<in> run_files aw run_base. \<not> unchanged_output be records r (output_content aw run_base r)}
     \<and> distinct (List.map fst changes)
     \<and> set deletions = target_below base ` (fst ` set records - run_files aw run_base)
     \<and> (\<forall>(target, _) \<in> set changes. \<exists>p. resolve_planned_write (aw_os aw) w target = Inr p)
     \<and> (\<forall>target \<in> set deletions. \<exists>p. resolve_existing (aw_os aw) w target False WriteAccess True = Inr p)
     \<and> (\<forall>(p, u) \<in> set (below run_base (tree_at aw run_base)). accepted_entry (run_scan_limits st) u)"
proof -
  note path = workspace_path_below [OF base]
  obtain sc n where s: "scan_directory_bounded (run_scan_limits st) run_base (tree_at aw run_base) = Inr sc"
    "\<not> entry_limit st < int (sc_entries sc)" "\<not> as_max_bytes st < sc_bytes sc"
    and c: "rfold (collect_file be aw st w run_base source_base records) (0, [])
         (sorted_set (List.map (\<lambda>p. join_with ''/'' (drop (length run_base) p)) (sc_files sc))) = Inr (n, changes)"
    and d: "rfold (collect_deletion aw w source_base) []
         (sorted_set (List.filter (\<lambda>r. r \<notin> set (List.map (\<lambda>p. join_with ''/'' (drop (length run_base) p)) (sc_files sc)))
            (List.map fst records))) = Inr deletions"
    using collected unfolding collect_delta_def Let_def
    by (auto simp: rbind_eq_Inr if_Inl_eq_Inr simp del: set_map)
  have "scan_within (run_scan_limits st) sc" using s(2,3) by (simp add: scan_within_def run_scan_limits_def)
  moreover have "\<not> ei_gone (entry_of (tree_at aw run_base))" using run by (simp add: tree_at_def)
  ultimately have scan: "mset (sc_files sc) = mset (List.map fst (live_files (below run_base (tree_at aw run_base))))"
    "\<forall>(p, u) \<in> set (below run_base (tree_at aw run_base)). accepted_entry (run_scan_limits st) u"
    using bounded_scan_complete [OF s(1)] by (simp_all add: run_scan_limits_def)
  have names: "(\<lambda>p. join_with ''/'' (drop (length run_base) p)) ` set (sc_files sc) = run_files aw run_base"
    using mset_eq_setD [OF scan(1)] by (force simp: run_files_def)
  have sorted: "set (sorted_set xs) = set xs" "distinct (sorted_set xs)" for xs by (simp_all add: sorted_set_def)
  note files = collect_files [OF path c sorted(2)]
  have changes: "changes = List.map (\<lambda>r. (target_below base r, output_content aw run_base r))
      (List.filter (\<lambda>r. \<not> unchanged_output be records r (output_content aw run_base r))
        (sorted_set (List.map (\<lambda>p. join_with ''/'' (drop (length run_base) p)) (sc_files sc))))"
    using files by simp
  have "set changes = (\<lambda>r. (target_below base r, output_content aw run_base r))
           ` {r \<in> run_files aw run_base. \<not> unchanged_output be records r (output_content aw run_base r)}"
    unfolding changes by (simp add: sorted names)
  moreover have "distinct (List.map fst changes)"
    unfolding changes by (auto simp: distinct_map sorted inj_on_def comp_def dest: target_below_inj)
  moreover have "\<forall>(target, _) \<in> set changes. \<exists>p. resolve_planned_write (aw_os aw) w target = Inr p"
    using files unfolding changes by auto
  moreover have "set deletions = target_below base ` (fst ` set records - run_files aw run_base)"
    "\<forall>target \<in> set deletions. \<exists>p. resolve_existing (aw_os aw) w target False WriteAccess True = Inr p"
    using collect_deletions [OF path d] by (auto simp: sorted names)
  ultimately show ?thesis using scan(2) by blast
qed

end
