(* ===== verification/Approval_Demo.thy ===== *)
theory Approval_Demo
  imports Approval_Run
begin

text \<open>A small machine on which approvals are prepared, verified and executed, for the witnesses.\<close>

type_synonym listing = "(path \<times> bytes option) list"

definition demo_identity :: "listing \<Rightarrow> path \<Rightarrow> path_identity" where
  "demo_identity t p =
     \<lparr>device = 1, inode = 7, file_size = (case listed_node t p of Some (Some d) \<Rightarrow> int (length d) | _ \<Rightarrow> 0),
      modified_ns = 0, windows_volume_serial = None, windows_file_index = None\<rparr>"

fun listed_children :: "nat \<Rightarrow> listing \<Rightarrow> path \<Rightarrow> disk_tree list" where
  "listed_children 0 t p = []"
| "listed_children (Suc k) t p =
     List.map (\<lambda>(q, n).
         let i = \<lparr>ei_name = last q, ei_symlink = False, ei_reparse = False, ei_streams = False,
                  ei_regular = (n \<noteq> None), ei_gone = False,
                  ei_size = (case n of Some d \<Rightarrow> int (length d) | None \<Rightarrow> 0)\<rparr>
         in if n = None then DirEntry i (listed_children k t q) else FileEntry i)
       (List.filter (\<lambda>(q, _). length q = Suc (length p) \<and> take (length p) q = p) t)"

definition listed_world :: "listing \<Rightarrow> approval_world" where
  "listed_world t =
     \<lparr>aw_os = (listed_os t)\<lparr>os_identity := demo_identity t\<rparr>, aw_tree = listed_children 9 t,
      aw_symlink = (\<lambda>_. False), aw_streams = (\<lambda>_. False), aw_environ = [(''PATH'', ''C:'')]\<rparr>"

definition demo_machine :: listing where
  "demo_machine =
     [([''C:''], None), ([''C:'', ''ws''], None), ([''C:'', ''ws'', ''src''], None),
      ([''C:'', ''ws'', ''src'', ''a.py''], Some [1, 2]), ([''C:'', ''ws'', ''b.txt''], Some [3]),
      ([''C:'', ''py''], None), ([''C:'', ''py'', ''python.exe''], Some [9, 9, 9]),
      ([''C:'', ''data''], None), ([''C:'', ''data'', ''approval-staging''], None),
      ([''C:'', ''scr''], None), ([''C:'', ''scr'', ''approval-inputs''], None)]"

definition demo_settings :: approval_settings where
  "demo_settings =
     \<lparr>as_policy = demo_policy, as_data_dir = [''C:'', ''data''], as_scratch = [''C:'', ''scr''],
      as_max_files = 10, as_max_bytes = 100, as_max_data_dir = 1000, as_max_scratch = 10000, as_max_write = 50,
      as_dependency_paths = [], as_other = []\<rparr>"

definition approval_demo_sha :: "bytes \<Rightarrow> string" where
  "approval_demo_sha data = List.map (\<lambda>b. char_of (unat b)) data"

definition demo_approval_env :: approval_env where
  "demo_approval_env =
     \<lparr>ae_sha = approval_demo_sha, ae_state_digest = (\<lambda>_ _. []), ae_git_digest = (\<lambda>_. []),
      ae_settings_digest = (\<lambda>st. if st = demo_settings then ''S'' else ''T''), ae_environ_digest = concat \<circ> List.map snd,
      ae_new_identity = (\<lambda>p. \<lparr>device = 1, inode = 7, file_size = 0, modified_ns = 0,
                                windows_volume_serial = None, windows_file_index = None\<rparr>),
      ae_process_cwd = [''C:'', ''data''], ae_parse_packages = (\<lambda>_. None), ae_render_packages = (\<lambda>_ _. []),
      ae_uri_scheme = (\<lambda>_. []), ae_uri_path = id, ae_unquote = id, ae_as_uri = path_str,
      ae_isalnum = is_alnum_ascii, ae_isalpha = (\<lambda>c. is_lower c \<or> is_upper c)\<rparr>"

definition demo_command :: normalized_command where
  "demo_command =
     \<lparr>nc_executable = path_str [''C:'', ''py'', ''python.exe''], nc_args = [''a.py''],
      nc_cwd = path_str [''C:'', ''ws'', ''src''], nc_display = [''python'', ''a.py''], nc_program_key = ''python'',
      nc_network = False\<rparr>"

definition demo_bound :: "string \<Rightarrow> bytes \<Rightarrow> bound_file" where
  "demo_bound p d = \<lparr>bf_path = p, bf_size = int (length d), bf_sha = approval_demo_sha d, bf_device = 1, bf_inode = 7, bf_modified = 0\<rparr>"

definition demo_listing :: "bound_file list" where
  "demo_listing = [demo_bound ''b.txt'' [3], demo_bound ''src/a.py'' [1, 2]]"

definition demo_env :: approval_env where
  "demo_env = demo_approval_env\<lparr>ae_state_digest :=
     (\<lambda>ds fs. if ds = [''src''] \<and> fs = demo_listing then ''L'' else ''M'')\<rparr>"

definition prepare_demo :: "(approval_manifest \<Rightarrow> string) \<Rightarrow> (normalized_command \<times> approval_manifest \<times> string \<times> (path \<times> bytes) list) res" where
  "prepare_demo digest =
     prepare_approval_bundle \<lparr>be_env = demo_env, be_digest = digest\<rparr> (listed_world demo_machine) (listed_world demo_machine)
       (listed_world demo_machine) demo_settings demo_workspace ''op1'' demo_command False True"

text \<open>The machine after the copies were written, and the bundle whose manifest has a digest of its own.\<close>

fun parents_of :: "nat \<Rightarrow> path \<Rightarrow> path list" where
  "parents_of 0 p = []"
| "parents_of (Suc k) p = (if length p \<le> 1 then [] else parents_of k (path_parent p) @ [path_parent p])"

definition with_files :: "listing \<Rightarrow> (path \<times> bytes) list \<Rightarrow> listing" where
  "with_files t writes =
     foldl (\<lambda>t (p, d). t @ List.map (\<lambda>q. (q, None)) (List.filter (\<lambda>q. \<not> list_ex (\<lambda>e. fst e = q) t) (parents_of 9 p))
                       @ [(p, Some d)]) t writes"

definition demo_record :: "path \<Rightarrow> bytes \<Rightarrow> path option \<Rightarrow> path option \<Rightarrow> file_record" where
  "demo_record p d source staged =
     \<lparr>fr_path = p, fr_size = int (length d), fr_sha = approval_demo_sha d, fr_device = 1, fr_inode = 7, fr_modified = 0,
      fr_source = source, fr_staged = staged\<rparr>"

definition demo_stage :: path where
  "demo_stage = [''C:'', ''scr'', ''approval-inputs'', ''op1'']"

definition approval_demo_manifest :: approval_manifest where
  "approval_demo_manifest =
     (let copy_of = (\<lambda>p d. demo_record (demo_stage @ ''workspace'' # p) d (Some ([''C:'', ''ws''] @ p))
                            (Some (demo_stage @ ''workspace'' # p))) in
      \<lparr>mf_version = 3, mf_operation = ''op1'', mf_executable = demo_record [''C:'', ''py'', ''python.exe''] [9, 9, 9] None None,
       mf_settings = ''S'', mf_environment = ''C:'', mf_mode = ''staged-sandbox-workspace'',
       mf_inputs = [copy_of [''b.txt''] [3], copy_of [''src'', ''a.py''] [1, 2]],
       mf_stage_root = demo_stage, mf_external = [], mf_workspace_write = False,
       mf_source_workspace = Some [''C:'', ''ws''], mf_staged_workspace = Some (demo_stage @ [''workspace'']),
       mf_source_cwd = Some [''C:'', ''ws'', ''src''], mf_staged_cwd = Some (demo_stage @ [''workspace'', ''src'']),
       mf_binding = Some \<lparr>wb_root = [''C:'', ''ws''], wb_digest = ''L'', wb_directories = 1, wb_files = 2, wb_bytes = 3\<rparr>,
       mf_git = None,
       mf_execution = demo_command\<lparr>nc_cwd := path_str (demo_stage @ [''workspace'', ''src''])\<rparr>\<rparr>)"

definition demo_bundle :: bundle_env where
  "demo_bundle = \<lparr>be_env = demo_env, be_digest = (\<lambda>m. if m = approval_demo_manifest then ''D'' else ''E'')\<rparr>"

definition staged_machine :: listing where
  "staged_machine =
     with_files demo_machine
       [([''C:'', ''data'', ''approval-staging'', ''op1'', ''manifest.json''], []),
        ([''C:'', ''scr'', ''approval-inputs'', ''op1'', ''workspace'', ''b.txt''], [3]),
        ([''C:'', ''scr'', ''approval-inputs'', ''op1'', ''workspace'', ''src'', ''a.py''], [1, 2])]"

definition verify_demo :: "normalized_command res" where
  "verify_demo =
     verify_approval_bundle demo_bundle (listed_world staged_machine) (listed_world staged_machine) demo_settings ''op1'' ''D''
       (\<lambda>p. Some (approval_demo_manifest, Some ''D''))"

section \<open>An approval that verifies\<close>

lemma demo_sizes_exact: "sizes_exact (listed_world demo_machine)"
  by (simp add: sizes_exact_def listed_world_def demo_identity_def listed_os_def split: option.split)

lemma demo_digests_unique:
  "digests_unique demo_bundle (listed_world demo_machine) demo_settings demo_workspace approval_demo_manifest"
proof -
  have "bs_directories bs = [''src''] \<and> bs_files bs = demo_listing"
    if "workspace_listing demo_env (listed_world demo_machine) demo_settings demo_workspace [''C:'', ''ws''] = Inr bs" for bs
  proof -
    have "(case workspace_listing demo_env (listed_world demo_machine) demo_settings demo_workspace [''C:'', ''ws''] of
        Inr bs \<Rightarrow> bs_directories bs = [''src''] \<and> bs_files bs = demo_listing | Inl _ \<Rightarrow> False)" by code_simp
    then show ?thesis using that by simp
  qed
  moreover have "os_resolve_strict (aw_os (listed_world demo_machine)) (ws_root demo_workspace) = Some [''C:'', ''ws'']"
    by code_simp
  ultimately show ?thesis
    unfolding digests_unique_def
    by (auto simp: demo_bundle_def demo_env_def demo_approval_env_def split: if_splits)
qed

lemma approved_command_is_bound_witness:
  "\<exists>w. make_workspace (aw_os (listed_world staged_machine)) (as_policy demo_settings) = Inr w
     \<and> same_listing demo_bundle (listed_world demo_machine) demo_settings demo_workspace (listed_world staged_machine) demo_settings w
     \<and> (\<forall>r \<in> set (mf_inputs approval_demo_manifest). \<exists>p q. fr_staged r = Some p
          \<and> record_file demo_env (listed_world staged_machine) p None False = Inr q \<and> same_content q r)"
proof -
  have "(case prepare_demo (be_digest demo_bundle) of
      Inr (e, m, d, ws) \<Rightarrow> m = approval_demo_manifest \<and> d = ''D'' \<and> e = mf_execution approval_demo_manifest | Inl _ \<Rightarrow> False)" by code_simp
  then obtain ws where p: "prepare_demo (be_digest demo_bundle) = Inr (mf_execution approval_demo_manifest, approval_demo_manifest, ''D'', ws)"
    by (auto split: sum.splits)
  have b: "\<lparr>be_env = demo_env, be_digest = be_digest demo_bundle\<rparr> = demo_bundle" by (simp add: demo_bundle_def)
  have "(case verify_demo of Inr c \<Rightarrow> c = mf_execution approval_demo_manifest | Inl _ \<Rightarrow> False)" by code_simp
  then have v: "verify_demo = Inr (mf_execution approval_demo_manifest)" by (auto split: sum.splits)
  show ?thesis
    using approved_command_is_bound [OF p [unfolded prepare_demo_def b] v [unfolded verify_demo_def]
        demo_digests_unique demo_sizes_exact]
    by (auto simp: demo_bundle_def)
qed

section \<open>Formatting a Dart project\<close>

text \<open>
  The configuration of the packages is staged in a rewritten form, and its record is that of the
  rewritten file.
\<close>

definition dart_machine :: listing where
  "dart_machine =
     [([''C:''], None), ([''C:'', ''ws''], None), ([''C:'', ''ws'', ''.dart_tool''], None),
      ([''C:'', ''ws'', ''.dart_tool'', ''package_config.json''], Some [1]), ([''C:'', ''ws'', ''a.dart''], Some [2]),
      ([''C:'', ''py''], None), ([''C:'', ''py'', ''dart.exe''], Some [9]),
      ([''C:'', ''data''], None), ([''C:'', ''data'', ''approval-staging''], None),
      ([''C:'', ''scr''], None), ([''C:'', ''scr'', ''approval-inputs''], None)]"

definition dart_bundle :: bundle_env where
  "dart_bundle =
     \<lparr>be_env = demo_approval_env\<lparr>ae_parse_packages := (\<lambda>_. Some (Py [], [])), ae_render_packages := (\<lambda>_ _. [7])\<rparr>,
      be_digest = (\<lambda>_. ''D'')\<rparr>"

definition dart_command :: normalized_command where
  "dart_command =
     \<lparr>nc_executable = path_str [''C:'', ''py'', ''dart.exe''], nc_args = [''format''], nc_cwd = path_str [''C:'', ''ws''],
      nc_display = [''dart'', ''format''], nc_program_key = ''dart'', nc_network = False\<rparr>"

definition dart_prepared :: "(normalized_command \<times> approval_manifest \<times> string \<times> (path \<times> bytes) list) res" where
  "dart_prepared =
     prepare_approval_bundle dart_bundle (listed_world dart_machine) (listed_world dart_machine) (listed_world dart_machine)
       demo_settings demo_workspace ''op1'' dart_command True True"

text \<open>The copies, the manifest with the record of the rewritten configuration, and the machine with them.\<close>

definition dart_writes :: "(path \<times> bytes) list" where
  "dart_writes =
     [(demo_stage @ [''workspace'', ''a.dart''], [2]),
      (demo_stage @ [''workspace'', ''.dart_tool'', ''package_config.json''], [1]),
      (demo_stage @ [''workspace'', ''.dart_tool'', ''package_config.json''], [7])]"

definition dart_manifest :: approval_manifest where
  "dart_manifest =
     (let copy_of = (\<lambda>p d. demo_record (demo_stage @ ''workspace'' # p) d (Some ([''C:'', ''ws''] @ p))
                            (Some (demo_stage @ ''workspace'' # p))) in
      \<lparr>mf_version = 3, mf_operation = ''op1'', mf_executable = demo_record [''C:'', ''py'', ''dart.exe''] [9] None None,
       mf_settings = ''S'', mf_environment = ''C:'', mf_mode = ''staged-sandbox-workspace-write'',
       mf_inputs = [copy_of [''a.dart''] [2], copy_of [''.dart_tool'', ''package_config.json''] [7]],
       mf_stage_root = demo_stage, mf_external = [], mf_workspace_write = True,
       mf_source_workspace = Some [''C:'', ''ws''], mf_staged_workspace = Some (demo_stage @ [''workspace'']),
       mf_source_cwd = Some [''C:'', ''ws''], mf_staged_cwd = Some (demo_stage @ [''workspace'']),
       mf_binding = Some \<lparr>wb_root = [''C:'', ''ws''], wb_digest = [], wb_directories = 1, wb_files = 2, wb_bytes = 2\<rparr>,
       mf_git = None,
       mf_execution = dart_command\<lparr>nc_cwd := path_str (demo_stage @ [''workspace''])\<rparr>\<rparr>)"

definition dart_staged :: listing where
  "dart_staged =
     with_files dart_machine
       [([''C:'', ''data'', ''approval-staging'', ''op1'', ''manifest.json''], []),
        (demo_stage @ [''workspace'', ''a.dart''], [2]),
        (demo_stage @ [''workspace'', ''.dart_tool'', ''package_config.json''], [7])]"

text \<open>
  The demonstration machine with a request to format a Dart project that has a package
  configuration and to write the result back: it is accepted and staged, but its bundle does not
  verify, although nothing changed: the record of the
  staged configuration is compared with the file it was made from.
\<close>

lemma dart_format_never_verifies:
  "dart_prepared = Inr (mf_execution dart_manifest, dart_manifest, ''D'', dart_writes)
   \<and> verify_approval_bundle dart_bundle (listed_world dart_staged) (listed_world dart_staged) demo_settings ''op1'' ''D''
       (\<lambda>_. Some (dart_manifest, Some ''D''))
     = Inl (RuntimeError ''workspace files changed after formatting was staged'')"
  by (rule conjI; code_simp)

text \<open>
  An argument is moved to the copy as if the command ran in the root of the workspace: in a snapshot the
  file \<open>b.txt\<close> of the root replaces the one of the directory the command runs in.
\<close>

lemma snapshot_argument_ignores_cwd:
  "rewrite_workspace_argument
     (listed_world (with_files demo_machine [([''C:'', ''ws'', ''src'', ''b.txt''], [4])]))
     [''C:'', ''ws''] (demo_stage @ [''workspace'']) ''b.txt''
   = path_str (demo_stage @ [''workspace'', ''b.txt''])"
  by code_simp

section \<open>Collecting a run\<close>

text \<open>A run that changed \<open>b.txt\<close>, added a file and removed \<open>a.py\<close>.\<close>

definition run_machine :: listing where
  "run_machine =
     with_files demo_machine
       [([''C:'', ''scr'', ''runs'', ''op1'', ''workspace'', ''b.txt''], [4]),
        ([''C:'', ''scr'', ''runs'', ''op1'', ''workspace'', ''src'', ''new.txt''], [5])]"

definition demo_run :: path where
  "demo_run = [''C:'', ''scr'', ''runs'', ''op1'', ''workspace'']"

definition demo_records :: "(string \<times> file_record) list" where
  "demo_records = [(''b.txt'', demo_record [] [3] None None), (''src/a.py'', demo_record [] [1, 2] None None)]"

lemma collected_changes_exact_witness:
  "{(''b.txt'', [4]), (''src/new.txt'', [5])}
     = (\<lambda>r. (target_below [] r, output_content (listed_world run_machine) demo_run r))
           ` {r \<in> run_files (listed_world run_machine) demo_run.
                \<not> unchanged_output demo_bundle demo_records r (output_content (listed_world run_machine) demo_run r)}
   \<and> {''src/a.py''} = target_below [] ` (fst ` set demo_records - run_files (listed_world run_machine) demo_run)"
proof -
  have c: "collect_delta demo_bundle (listed_world run_machine) demo_settings demo_workspace demo_run [''C:'', ''ws''] demo_records
      = Inr ([(''b.txt'', [4]), (''src/new.txt'', [5])], [''src/a.py''])" by code_simp
  have r: "relative_to (aw_os (listed_world run_machine)) [''C:'', ''ws''] (ws_root demo_workspace) = Inr []"
    "length (ws_root demo_workspace) \<le> length [''C:'', ''ws'']" "os_exists (aw_os (listed_world run_machine)) demo_run"
    by code_simp+
  show ?thesis using collected_changes_exact [OF c r] by simp
qed

end
