(* ===== verification/Spec2Isabelle.thy ===== *)
theory Spec2Isabelle
  imports Replace Batch Policy Sessions Write_Safety Primitive_Safety Locks Streams Runs Csv_Edit Zip Approval_Demo
begin

text \<open>
  A verification development for the Windows local MCP server, the Python package under
  \<open>src/src/windows_local_mcp\<close>: a broker that lets a remote assistant read and change one workspace
  directory and run commands on a Windows machine. All file names below are files of that package.

  The program. A tool call arrives in \<open>server.py\<close>. Every path it names goes through the path broker
  (\<open>paths.py\<close>), which validates the spelling, resolves links, checks containment and the access policy
  and pins the object by its identity. A change of files is planned without effects
  (\<open>workspace_plan.py\<close>, \<open>high_level_mutation.py\<close>, \<open>workspace_replace.py\<close>, \<open>workspace_batch.py\<close>),
  recorded by checkpoints and a durable journal (\<open>workspace_history.py\<close>), and committed one object at a
  time by primitives that are each one NTFS transaction (\<open>windows_transaction.py\<close>). Operations and
  approvals are rows of an audit database (\<open>audit.py\<close>); a command runs when it is in a deny-by-default
  grammar (\<open>policy.py\<close>) or a person approved a bundle that binds everything it depends on
  (\<open>approval.py\<close>). Larger contents travel in chunked transfer sessions (\<open>server.py\<close>,
  \<open>transfer_receipts.py\<close>, \<open>artifact_fast_path.py\<close>), document edits are done in memory
  (\<open>structured_files.py\<close>), and locks, bounded captures and bounded scans keep the processes apart and
  the memory small (\<open>resources.py\<close>).
\<close>

section \<open>How the theories correspond to the code\<close>

text \<open>
  Vocabulary. \<open>Prelude\<close> has the exceptions as the datatype \<open>error\<close>, results as a sum with the error on
  the left, Python's string and list primitives and the theorem collections; \<open>Text\<close> has text as code
  points and the strict UTF-8 codec; \<open>Effects\<close> has operations that change a state and may raise, where
  the state reached before an exception is kept, and triples over them. A value a caller passes is
  \<open>Missing\<close>, \<open>BadType\<close> or \<open>Py v\<close>, so that the type checks of the code are branches.

  Paths, plans and text. \<open>Paths\<close> models \<open>paths.py\<close>: the syntax of Windows paths, the access policy,
  hidden and denied names, resolution and the planned write target. \<open>Plan\<close> models
  \<open>workspace_plan.py\<close>: verified snapshots, revalidation before an apply, and the store of previews.
  \<open>Edits\<close> models the exact edits of \<open>high_level_mutation.py\<close> and the literal spans of
  \<open>workspace_replace.py\<close>, \<open>Traversal\<close> the limits, globs and the bounded walk of
  \<open>high_level_read.py\<close>, \<open>Replace\<close> the planner of \<open>workspace_replace.py\<close> and \<open>Batch\<close> the planner of
  \<open>workspace_batch.py\<close> with the summary it returns. \<open>Policy\<close> models the command grammars of
  \<open>policy.py\<close>, \<open>git_metadata.py\<close>, \<open>git_env.py\<close>, \<open>command_traits.py\<close> and \<open>risk.py\<close>.

  Durable state. \<open>Audit_Store\<close> models the table of operations of \<open>audit.py\<close>: rows as maps from columns
  to SQL values, one function per call. \<open>Transaction\<close> models the primitives of
  \<open>windows_transaction.py\<close> and the commits that \<open>paths.py\<close> builds from them. \<open>Checkpoints\<close>, \<open>Changes\<close>,
  \<open>History\<close> model \<open>workspace_history.py\<close>: manifests, targets, selective undo; the summary of a change;
  journal, restore, rollback and recovery. \<open>Recovery\<close>, \<open>Crash\<close> and \<open>Restart\<close> hold what is proved of
  them. \<open>Mutation\<close> and \<open>Primitives\<close> model \<open>_atomic_binary_mutation\<close>, \<open>write_file\<close>, \<open>move_file\<close>,
  \<open>copy_file\<close>, \<open>delete_file\<close> and \<open>make_directory\<close> of \<open>server.py\<close>, each with its checkpoint, journal, audit
  rows, rollback and rejections; \<open>Mutation_Safety\<close>, \<open>Write_Safety\<close> and \<open>Primitive_Safety\<close> hold what is
  proved of them.

  Transfers. \<open>Receipts\<close> models the index file of \<open>transfer_receipts.py\<close>, \<open>Base64\<close> the one-shot messages
  of \<open>artifact_fast_path.py\<close>, \<open>Transfers\<close> the \<open>artifact_*\<close> tools of \<open>server.py\<close> and the projection of
  \<open>transfer_activity.py\<close>; \<open>Uploads\<close> and \<open>Sessions\<close> hold what is proved of them.

  Processes and documents. \<open>Locks\<close>, \<open>Streams\<close> and \<open>Scans\<close> model \<open>resources.py\<close>: the lock slots and the
  named lock as step relations and functions, the capture of a child's output, the bounded scans.
  \<open>Streams\<close> also has the search in archive members, \<open>Runs\<close>, \<open>Csv\<close>, \<open>Csv_Edit\<close> and \<open>Zip\<close> the text
  replacement in Word paragraphs, the CSV and TSV documents and the archives of
  \<open>structured_files.py\<close>. \<open>Approval_Stage\<close>, \<open>Approvals\<close> and \<open>Approval_Run\<close> model \<open>approval.py\<close>: copies
  and records, preparation and verification of a bundle, the disposable run copy and the collection of
  changes; \<open>Approval_Demo\<close> is the small machine of their witnesses.
\<close>

section \<open>The environment\<close>

text \<open>
  The namespace of \<open>Transaction\<close> is a list of paths and nodes (a file with identity, number of links
  and bytes, a directory, a link), and time is a clock that every primitive step advances. At each step
  an arbitrary event of the environment says what other processes changed just before it, whether the
  step fails without effect, whether it commits but cannot be inspected afterwards, and whether the
  process ends there; a process that ended takes no more steps. A theorem that says nothing about the
  events holds for all of them; \<open>no_interference\<close> says that nobody else changes the workspace while
  faults and ends of the process are still arbitrary. A commit is one step because the primitive is one
  NTFS transaction, whose atomicity is the documented behaviour the code relies on.

  Digests are functions; theorems that need it assume that different contents of the run have
  different digests, or the length of a digest. Case folding, the table of directory entries, library
  codecs, the difference algorithm, the archive library and the host's facts about executables are
  arguments of the definitions, with their documented behaviour as named hypotheses; each theorem
  with hypotheses has a witness that applies it at concrete arguments.

  Termination and bounds. Recursion over data is structural or has a measure. The traversal of
  directories ends because every round inspects entries against the limit; the walks over trees
  recurse on trees of finite depth. The wait for a lock slot may run forever for an arbitrary clock and
  is a partial function: it is proved to return after at most as many turns as pauses fit before the
  deadline, for pauses that last. No other loop needs fuel. Integers are Python's unbounded ones, but
  for the receipts, whose fields are bytes of fixed width with their range checks.
\<close>

section \<open>What the lemmas show\<close>

text \<open>
  Confinement: a resolved path is inside the workspace, admitted by the policy and pinned (\<open>Paths\<close>); a
  planned target resolves into the workspace and its ancestors are real directories of it; an admitted
  Git command consists of allowlisted parts (\<open>Policy\<close>).

  Plans: exact edits are the ordered single replacements of the checked text (\<open>Edits\<close>); a replacement
  plan accounts for every selected file and every match (\<open>Replace\<close>); a batch plan committed as a whole
  does to the files what its operations do one after the other (\<open>Batch\<close>); a preview is applied once
  (\<open>Plan\<close>).

  Commits and journals: a commit of bytes is a compare-and-swap and a move overwrites nothing
  (\<open>Transaction\<close>); a replaced file is old or new at every moment, every change is explained by its
  journal, and a return means completion (\<open>Mutation_Safety\<close>, \<open>Write_Safety\<close>, \<open>Primitive_Safety\<close>); a
  restore journals before it changes anything and reaches its target when it returns, a restore cut
  off leaves every path as before or as intended, recovery changes nothing while a path is
  unexplained, and after a restart the state before is back (\<open>Recovery\<close>, \<open>Crash\<close>, \<open>Restart\<close>). The
  theorems about cut-off restores are for restores that turn no file into a directory or the reverse;
  for the others the development has runs in which the code does not keep the promise.

  Approvals: an approval is granted once and only while fresh, the store reopens nothing by itself
  (\<open>Audit_Store\<close>), a verified bundle is what was shown (\<open>Approvals\<close>), and what is collected from a run
  is its difference from the staged inputs (\<open>Approval_Run\<close>).

  Transfers: answered chunks are kept byte for byte, retries are harmless and contradictions refused,
  a complete upload is handed on exactly, a download joins to its snapshot, states only advance, and
  the number of open sessions is bounded (\<open>Uploads\<close>, \<open>Sessions\<close>, \<open>Receipts\<close>, \<open>Base64\<close>).

  Processes and documents: mutual exclusion, absence of deadlock and bounded waiting of the locks; exact
  head and tail of a captured stream; completeness of the bounded scans; replacement over runs is
  replacement in the joined text; the names and edits of archives (\<open>Locks\<close>, \<open>Streams\<close>, \<open>Scans\<close>, \<open>Runs\<close>,
  \<open>Zip\<close>, \<open>Csv_Edit\<close>).

  The interfaces are locales with their interpretations on the model: the one-shot store of previews
  in \<open>Plan\<close>; conditions on the journal in \<open>Recovery\<close>, \<open>Crash\<close> and \<open>Primitive_Safety\<close>; invariants of the
  namespace in \<open>Crash\<close> and \<open>Restart\<close>; the single effect of a primitive in \<open>Primitive_Safety\<close>.

  Some lemmas are runs on which the code does not do what it means to: \<open>recovery_deletes_late_file\<close>,
  \<open>directory_to_file_restore_fails\<close>, \<open>crash_recovery_leaves_created_directory\<close>,
  \<open>failure_before_journal_leaves_row_running\<close>, \<open>late_failures_contradict_the_record\<close>,
  \<open>late_move_failures\<close>, \<open>unverified_write_blocks_later\<close>,
  \<open>show_pathspec_escapes_metadata\<close>, \<open>hard_link_stops_whole_checkpoint\<close>, \<open>csv_edits_gone_wrong\<close>,
  \<open>nested_paragraph_replaced_twice\<close>, \<open>zip_name_with_device\<close>, \<open>dart_format_never_verifies\<close> and
  \<open>snapshot_argument_ignores_cwd\<close>. They are evaluations of the model at one input.
\<close>

section \<open>Abstractions, and what is not modelled\<close>

text \<open>
  Within the modelled parts: a path of the namespace is the spelling on disk, so the search for the
  actual spelling in a scan is the identity; a write to a new target includes the check of the parent
  whose handle the caller holds; a blob of a manifest is looked up by its digest, and the location of
  older checkpoints is left out; a snapshot of a download is published in one step, of which the code
  holds the transfer lock only for the manifest; an operating system error while opening a lock file is
  left out; the effect of a batch is compared on files, directories being created on the way to them;
  the text of a Word run is plain text, without the conversion of breaks and tabs by the library; the
  reader and writer of \<open>Csv\<close> are those of the standard library, of which \<open>Csv_Edit\<close> uses what
  \<open>structured_files.py\<close> calls; the fallbacks for other systems, kept for tests, are left out.

  Not modelled: the registration of tools and the text of their answers (\<open>server.py\<close>,
  \<open>mcp_stdio.py\<close>, \<open>cli.py\<close>, \<open>timeline.py\<close>), which calls the operations above; the composition of plans,
  checkpoints and journals by \<open>workspace_operations.py\<close> and the streams of \<open>context_read.py\<close> and
  \<open>context_export.py\<close>, which are not translated; the worker and executor processes, the
  sandbox, the network guard, the approved host service and the control plane, which consist of
  native calls; the sandboxed Git broker, whose admitted commands are in \<open>Policy\<close>; the read-only
  activity views; the configuration classes; HTTP retrieval of attachments; spreadsheets, images and
  the building of documents, which go through libraries.
\<close>

end
